(* ===== verification/Prelude.thy ===== *)
theory Prelude
  imports Main "HOL-Library.Word"
begin

text \<open>
  Shared vocabulary of the development: machine integers, byte strings and the fixed-size
  hashes of the code; the errors of the code as values of one datatype (\<open>goerror\<close>),
  results being sums with \<open>Inl\<close> for an error and the constructor \<open>Panic\<close> for a
  run-time panic; little- and big-endian byte encodings (\<open>encoding/binary\<close> of the
  standard library).
\<close>

unbundle bit_operations_syntax

named_theorems bytes_simps
named_theorems codec_simps
named_theorems ldb_simps

type_synonym u8 = "8 word"
type_synonym u16 = "16 word"
type_synonym u32 = "32 word"
type_synonym u64 = "64 word"
type_synonym bytes = "u8 list"

text \<open>
  \<open>common.Uint256\<close> and \<open>common.Uint168\<close> are byte arrays of fixed size. A value is
  represented by a word; byte \<open>i\<close> of the array is bits \<open>8 * i\<close> to \<open>8 * i + 7\<close>.
\<close>

type_synonym uint256 = "256 word"
type_synonym uint168 = "168 word"

datatype goerror = NotFound | EOF | OrphanBlockError | Failure string | Panic string

text \<open>Byte encodings of naturals, least significant byte first.\<close>

fun nat_le :: "nat \<Rightarrow> nat \<Rightarrow> bytes" where
  "nat_le 0 x = []"
| "nat_le (Suc n) x = word_of_nat (x mod 256) # nat_le n (x div 256)"

fun le_nat :: "bytes \<Rightarrow> nat" where
  "le_nat [] = 0"
| "le_nat (b # bs) = unat b + 256 * le_nat bs"

lemma length_nat_le [simp, bytes_simps]: "length (nat_le n x) = n"
  by (induction n arbitrary: x) auto

lemma unat_byte_less: "unat (b :: u8) < 256"
proof -
  have "unat b < 2 ^ LENGTH(8)" by (rule unsigned_less)
  then show ?thesis by simp
qed

lemma unat_byte_mod: "unat (word_of_nat (x mod 256) :: u8) = x mod 256"
  by (simp add: unat_of_nat)

lemma le_nat_nat_le: "le_nat (nat_le n x) = x mod 256 ^ n"
proof (induction n arbitrary: x)
  case 0
  then show ?case by simp
next
  case (Suc n)
  have "x mod 256 + 256 * (x div 256 mod 256 ^ n) = x mod (256 * 256 ^ n)"
    by (simp add: mod_mult2_eq mult.commute)
  then show ?case by (simp add: Suc unat_byte_mod)
qed

lemma le_nat_bound: "le_nat bs < 256 ^ length bs"
proof (induction bs)
  case Nil
  then show ?case by simp
next
  case (Cons b bs)
  with unat_byte_less [of b] show ?case by simp
qed

lemma nat_le_le_nat [simp, bytes_simps]: "nat_le (length bs) (le_nat bs) = bs"
proof (induction bs)
  case Nil
  then show ?case by simp
next
  case (Cons b bs)
  with unat_byte_less [of b] show ?case by simp
qed

lemma nat_le_inj: "x < 256 ^ n \<Longrightarrow> y < 256 ^ n \<Longrightarrow> nat_le n x = nat_le n y \<Longrightarrow> x = y"
  by (metis le_nat_nat_le mod_less)

lemma le_nat_append: "le_nat (xs @ ys) = le_nat xs + 256 ^ length xs * le_nat ys"
  by (induction xs) (auto simp: algebra_simps)

lemma le_nat_replicate_zero [simp]: "le_nat (replicate n 0) = 0"
  by (induction n) auto

text \<open>Fixed-width integers as byte arrays (\<open>LittleEndian.PutUint32\<close> and its kin).\<close>

definition le_bytes4 :: "u32 \<Rightarrow> bytes" where
  "le_bytes4 w = nat_le 4 (unat w)"

definition be_bytes4 :: "u32 \<Rightarrow> bytes" where
  "be_bytes4 w = rev (nat_le 4 (unat w))"

definition le_u32 :: "bytes \<Rightarrow> u32" where
  "le_u32 bs = word_of_nat (le_nat (take 4 bs))"

definition be_u32 :: "bytes \<Rightarrow> u32" where
  "be_u32 bs = word_of_nat (le_nat (rev (take 4 bs)))"

definition be_bytes8 :: "u64 \<Rightarrow> bytes" where
  "be_bytes8 w = rev (nat_le 8 (unat w))"

definition be_u64 :: "bytes \<Rightarrow> u64" where
  "be_u64 bs = word_of_nat (le_nat (rev (take 8 bs)))"

definition be_bytes2 :: "u16 \<Rightarrow> bytes" where
  "be_bytes2 w = rev (nat_le 2 (unat w))"

definition be_u16 :: "bytes \<Rightarrow> u16" where
  "be_u16 bs = word_of_nat (le_nat (rev (take 2 bs)))"

definition hash_bytes :: "uint256 \<Rightarrow> bytes" where
  "hash_bytes h = nat_le 32 (unat h)"

definition bytes_hash :: "bytes \<Rightarrow> uint256" where
  "bytes_hash bs = word_of_nat (le_nat (take 32 bs))"

definition u168_bytes :: "uint168 \<Rightarrow> bytes" where
  "u168_bytes h = nat_le 21 (unat h)"

definition bytes_u168 :: "bytes \<Rightarrow> uint168" where
  "bytes_u168 bs = word_of_nat (le_nat (take 21 bs))"

lemma length_le_bytes4 [simp, bytes_simps]: "length (le_bytes4 w) = 4"
  by (simp add: le_bytes4_def)

lemma length_be_bytes4 [simp, bytes_simps]: "length (be_bytes4 w) = 4"
  by (simp add: be_bytes4_def)

lemma length_be_bytes8 [simp, bytes_simps]: "length (be_bytes8 w) = 8"
  by (simp add: be_bytes8_def)

lemma length_be_bytes2 [simp, bytes_simps]: "length (be_bytes2 w) = 2"
  by (simp add: be_bytes2_def)

lemma length_hash_bytes [simp, bytes_simps]: "length (hash_bytes h) = 32"
  by (simp add: hash_bytes_def)

lemma length_u168_bytes [simp, bytes_simps]: "length (u168_bytes h) = 21"
  by (simp add: u168_bytes_def)

lemma unat_of_nat_small: "n < 2 ^ LENGTH('a) \<Longrightarrow> unat (word_of_nat n :: 'a::len word) = n"
  by (simp add: unat_of_nat)

lemma unat_mod_word: "unat (w :: 'a::len word) mod 2 ^ LENGTH('a) = unat w"
  by (rule mod_less) (rule unsigned_less)

lemma le_u32_append [simp, bytes_simps]: "le_u32 (le_bytes4 w @ rest) = w"
  using unat_mod_word [of w] by (simp add: le_u32_def le_bytes4_def le_nat_nat_le)

lemma le_u32_le_bytes4 [simp, bytes_simps]: "le_u32 (le_bytes4 w) = w"
  using le_u32_append [of w "[]"] by simp

lemma be_u32_append [simp, bytes_simps]: "be_u32 (be_bytes4 w @ rest) = w"
  using unat_mod_word [of w] by (simp add: be_u32_def be_bytes4_def le_nat_nat_le)

lemma be_u32_be_bytes4 [simp, bytes_simps]: "be_u32 (be_bytes4 w) = w"
  using be_u32_append [of w "[]"] by simp

lemma be_u64_append [simp, bytes_simps]: "be_u64 (be_bytes8 w @ rest) = w"
  using unat_mod_word [of w] by (simp add: be_u64_def be_bytes8_def le_nat_nat_le)

lemma be_u16_append [simp, bytes_simps]: "be_u16 (be_bytes2 w @ rest) = w"
  using unat_mod_word [of w] by (simp add: be_u16_def be_bytes2_def le_nat_nat_le)

lemma be_u16_be_bytes2 [simp, bytes_simps]: "be_u16 (be_bytes2 w) = w"
  using be_u16_append [of w "[]"] by simp

lemma bytes_hash_append [simp, bytes_simps]: "bytes_hash (hash_bytes h @ rest) = h"
  using unat_mod_word [of h] by (simp add: bytes_hash_def hash_bytes_def le_nat_nat_le)

lemma bytes_hash_hash_bytes [simp, bytes_simps]: "bytes_hash (hash_bytes h) = h"
  using bytes_hash_append [of h "[]"] by simp

lemma bytes_u168_append [simp, bytes_simps]: "bytes_u168 (u168_bytes h @ rest) = h"
  using unat_mod_word [of h] by (simp add: bytes_u168_def u168_bytes_def le_nat_nat_le)

lemma bytes_u168_u168_bytes [simp, bytes_simps]: "bytes_u168 (u168_bytes h) = h"
  using bytes_u168_append [of h "[]"] by simp

lemma hash_bytes_inj [simp]: "hash_bytes a = hash_bytes b \<longleftrightarrow> a = b"
  by (metis bytes_hash_hash_bytes)

lemma be_bytes4_inj [simp]: "be_bytes4 a = be_bytes4 b \<longleftrightarrow> a = b"
  by (metis be_u32_be_bytes4)

lemma le_bytes4_inj [simp]: "le_bytes4 a = le_bytes4 b \<longleftrightarrow> a = b"
  by (metis le_u32_le_bytes4)

lemma u168_bytes_inj [simp]: "u168_bytes a = u168_bytes b \<longleftrightarrow> a = b"
  by (metis bytes_u168_u168_bytes)

text \<open>Bit operations on words, arithmetically.\<close>

lemma unat_and_mask: "unat (w AND mask n) = unat w mod 2 ^ n"
  by (simp only: take_bit_eq_mask [symmetric] unsigned_take_bit_eq) (simp only: take_bit_eq_mod)

lemma uint_and_mask: "uint (w AND mask n) = uint w mod 2 ^ n"
  by (simp only: take_bit_eq_mask [symmetric] unsigned_take_bit_eq) (simp only: take_bit_eq_mod)

lemma unat_push_bit: "unat (push_bit n w :: 'a::len word) = unat w * 2 ^ n mod 2 ^ LENGTH('a)"
  by (simp only: unsigned_push_bit_eq) (simp only: take_bit_eq_mod push_bit_eq_mult)

lemma unat_drop_bit: "unat (drop_bit n w :: 'a::len word) = unat w div 2 ^ n"
  by (simp only: unat_drop_bit_eq) (simp only: drop_bit_eq_div)

lemma uint_drop_bit: "uint (drop_bit n w :: 'a::len word) = uint w div 2 ^ n"
  by (simp only: uint_nat unat_drop_bit zdiv_int of_nat_power) simp

text \<open>Bit operations on naturals below a power of two.\<close>

lemma nat_or_pow: "x < 2 ^ D \<Longrightarrow> x OR 2 ^ D = x + (2 ^ D :: nat)"
proof -
  assume "x < 2 ^ D"
  then have "\<not> bit x D" by (simp add: bit_iff_odd)
  then have "set_bit D x = x + 2 ^ D" by (simp add: set_bit_eq)
  then show ?thesis by (simp only: set_bit_eq_or push_bit_eq_mult mult_1)
qed

lemma nat_xor_pow: "2 ^ D \<le> x \<Longrightarrow> x < 2 * 2 ^ D \<Longrightarrow> x XOR 2 ^ D = x - (2 ^ D :: nat)"
proof -
  assume x: "2 ^ D \<le> x" "x < 2 * 2 ^ D"
  then obtain y where y: "x = y + 2 ^ D" "y < 2 ^ D" by (metis add.commute add_less_cancel_left le_Suc_ex mult_2)
  then have "x = y OR 2 ^ D" by (simp only: nat_or_pow)
  moreover have "\<not> bit y D" using y(2) by (simp add: bit_iff_odd)
  then have "(y OR 2 ^ D) XOR 2 ^ D = y"
    by (intro bit_eqI) (auto simp: bit_xor_iff bit_or_iff bit_exp_iff)
  ultimately show ?thesis using y(1) by simp
qed

lemma nat_and_pow: "x AND 2 ^ D = 0 \<longleftrightarrow> x < (2 ^ D :: nat)" if "x < 2 * 2 ^ D"
proof -
  have "x div 2 ^ D < 2" using that by (simp add: less_mult_imp_div_less)
  then have "bit x D \<longleftrightarrow> \<not> x < 2 ^ D"
    by (auto simp: bit_iff_odd less_2_cases_iff div_eq_0_iff)
  moreover have "x AND 2 ^ D = 0 \<longleftrightarrow> \<not> bit x D"
    by (metis and_exp_eq_0_iff_not_bit)
  ultimately show ?thesis by simp
qed

lemma nat_or_one: "x OR 1 = (if even x then x + 1 else x :: nat)"
  by (simp only: or_one_eq) simp

end
