(* ===== verification/Types.thy ===== *)
theory Types
  imports Prelude
begin

text \<open>
  The data the packages pass around: \<open>util/interface.go\<close>, \<open>util/outpoint.go\<close>,
  \<open>util/header.go\<close>, \<open>util/block.go\<close>, \<open>util/tx.go\<close>, and the part of the
  transaction types of Elastos.ELA that the code reads.

  A value of a Go interface with pure methods is represented by the results of its methods:
  a \<open>util.BlockHeader\<close> is the record of what \<open>Previous\<close>, \<open>Bits\<close>,
  \<open>MerkleRoot\<close>, \<open>Hash\<close> and \<open>PowHash\<close> return, a transaction the record of what
  \<open>Hash\<close>, \<open>TxType\<close>, \<open>Inputs\<close>, \<open>Outputs\<close> and \<open>Payload\<close> return. No
  relation between a hash and the fields is assumed.
\<close>

record bheader =
  bhPrevious :: uint256
  bhBits :: u32
  bhMerkleRoot :: uint256
  bhHash :: uint256
  bhPowHash :: uint256

record header =
  hdrBH :: bheader
  hdrHeight :: u32
  hdrNumTxs :: u32
  hdrHashes :: "uint256 list"
  hdrFlags :: bytes
  hdrTotalWork :: int

abbreviation hdr_hash :: "header \<Rightarrow> uint256" where
  "hdr_hash h \<equiv> bhHash (hdrBH h)"

abbreviation hdr_prev :: "header \<Rightarrow> uint256" where
  "hdr_prev h \<equiv> bhPrevious (hdrBH h)"

record outpoint =
  opTxID :: uint256
  opIndex :: u16

record txinput =
  inPrevious :: outpoint
  inSequence :: u32

text \<open>An output; \<open>outReturn\<close> is the payload when it is a
  \<open>*outputpayload.ReturnSideChainDeposit\<close> (genesis address, deposit hash).\<close>

record txoutput =
  outAssetID :: uint256
  outProgramHash :: uint168
  outValue :: u64
  outOutputLock :: u32
  outIsReturnDeposit :: bool
  outReturn :: "(string \<times> uint256) option"

datatype txtype =
    CoinBase | TransferAsset | RevertToPOW | RevertToDPOS | NextTurnDPOSInfo
  | ReturnSideChainDepositCoin | CRCProposal | ProposalResult | OtherTx u8

datatype proposal_type = ReserveCustomID | ReceiveCustomID | ChangeCustomIDFee | OtherProposal

record crc_proposal =
  cpType :: proposal_type
  cpHash :: uint256
  cpReservedCustomIDList :: "string list"
  cpReceivedCustomIDList :: "string list"
  cpReceiverDID :: uint168
  cpRateOfCustomIDFee :: u64
  cpEIDEffectiveHeight :: u32

record proposal_result =
  prHash :: uint256
  prType :: proposal_type
  prResult :: bool

datatype payload =
    PRevertToPOW u32
  | PRevertToDPOS u32
  | PNextTurnDPOSInfo u32 "bytes list" "bytes list"
  | PReturnSideChainDepositCoin
  | PCRCProposal crc_proposal
  | PRecordProposalResult "proposal_result list"
  | POther

record txn =
  txHash :: uint256
  txType :: txtype
  txInputs :: "txinput list"
  txOutputs :: "txoutput list"
  txPayload :: payload

record block =
  blkHeader :: header
  blkTransactions :: "txn list"

record utiltx =
  utxHash :: uint256
  utxHeight :: u32
  utxTimestamp :: u64
  utxRawData :: bytes

end
