(* ===== verification/External.thy ===== *)
theory External
  imports Types "HOL-Library.Sublist"
begin

text \<open>
  The code outside the repository, as parameters of the model.
  \<^item> \<open>codec\<close>: the serialization routines of package \<open>common\<close> of Elastos.ELA, the
    limits of package \<open>pact\<close> and the hash functions. \<open>codec_ok\<close> states what the code
    relies on: reading what was written returns it and leaves the rest of the input.
  \<^item> \<open>leveldb\<close>: the goleveldb database. A batch is the list of calls made on it.
    \<open>leveldb_ok\<close> states what its documentation promises: a write that reports no error
    applies the records of the batch in order, a prefix iterator visits each stored pair
    whose key has the prefix once.
  Theory \<open>Instances\<close> has concrete instances of both, used by the witnesses.
\<close>

subsection \<open>Serialization\<close>

definition rw_ok :: "('a \<Rightarrow> bytes) \<Rightarrow> (bytes \<Rightarrow> goerror + 'a \<times> bytes) \<Rightarrow> bool" where
  "rw_ok w r \<longleftrightarrow> (\<forall>v rest. r (w v @ rest) = Inr (v, rest))"

lemma rw_okD [simp]: "rw_ok w r \<Longrightarrow> r (w v @ rest) = Inr (v, rest)"
  by (simp add: rw_ok_def)

lemma rw_okD_nil [simp]: "rw_ok w r \<Longrightarrow> r (w v) = Inr (v, [])"
  using rw_okD [of w r v "[]"] by simp

record codec =
  wU8 :: "u8 \<Rightarrow> bytes"
  rU8 :: "bytes \<Rightarrow> goerror + u8 \<times> bytes"
  wU16 :: "u16 \<Rightarrow> bytes"
  rU16 :: "bytes \<Rightarrow> goerror + u16 \<times> bytes"
  wU32 :: "u32 \<Rightarrow> bytes"
  rU32 :: "bytes \<Rightarrow> goerror + u32 \<times> bytes"
  wU64 :: "u64 \<Rightarrow> bytes"
  rU64 :: "bytes \<Rightarrow> goerror + u64 \<times> bytes"
  wVarUint :: "u64 \<Rightarrow> bytes"
  rVarUint :: "bytes \<Rightarrow> goerror + u64 \<times> bytes"
  wVarBytes :: "bytes \<Rightarrow> bytes"
  rVarBytes :: "u32 \<Rightarrow> bytes \<Rightarrow> goerror + bytes \<times> bytes"
  wVarString :: "string \<Rightarrow> bytes"
  rVarString :: "bytes \<Rightarrow> goerror + string \<times> bytes"
  wHash :: "uint256 \<Rightarrow> bytes"
  rHash :: "bytes \<Rightarrow> goerror + uint256 \<times> bytes"
  wU168 :: "uint168 \<Rightarrow> bytes"
  rU168 :: "bytes \<Rightarrow> goerror + uint168 \<times> bytes"
  MaxTxPerBlock :: u32
  MaxBlockContextSize :: u32
  Sha256D :: "bytes \<Rightarrow> uint256"
  Sum256 :: "bytes \<Rightarrow> uint256"
  wHeader :: "bheader \<Rightarrow> bytes"
  rHeader :: "bytes \<Rightarrow> goerror + bheader \<times> bytes"
  wTx :: "txn \<Rightarrow> bytes"
  GetTransactionOk :: "bytes \<Rightarrow> bool"
  rTx :: "bytes \<Rightarrow> goerror + txn \<times> bytes"
  TxTypeByte :: "txtype \<Rightarrow> u8"
  Uint168FromBytes :: "bytes \<Rightarrow> goerror + uint168"
  Uint168FromAddress :: "string \<Rightarrow> goerror + uint168"
  wFixed64 :: "u64 \<Rightarrow> bytes"
  rFixed64 :: "bytes \<Rightarrow> goerror + u64 \<times> bytes"
  ElaOutPointBytes :: "uint256 \<Rightarrow> u16 \<Rightarrow> bytes"
  wListener :: "uint168 option \<Rightarrow> txtype \<Rightarrow> u64 \<Rightarrow> bytes"

definition codec_ok :: "codec \<Rightarrow> bool" where
  "codec_ok E \<longleftrightarrow>
     rw_ok (wU8 E) (rU8 E) \<and> rw_ok (wU16 E) (rU16 E) \<and> rw_ok (wU32 E) (rU32 E) \<and>
     rw_ok (wU64 E) (rU64 E) \<and> rw_ok (wVarUint E) (rVarUint E) \<and>
     (\<forall>m v rest. length v \<le> unat m \<longrightarrow> rVarBytes E m (wVarBytes E v @ rest) = Inr (v, rest)) \<and>
     (\<forall>v rest. length v < 2 ^ 32 \<longrightarrow> rVarString E (wVarString E v @ rest) = Inr (v, rest)) \<and>
     rw_ok (wHash E) (rHash E) \<and> rw_ok (wU168 E) (rU168 E) \<and>
     rw_ok (wHeader E) (rHeader E) \<and> rw_ok (wTx E) (rTx E) \<and>
     (\<forall>t rest. GetTransactionOk E (wTx E t @ rest)) \<and>
     (\<forall>a. Uint168FromBytes E (u168_bytes a) = Inr a) \<and> rw_ok (wFixed64 E) (rFixed64 E) \<and>
     (\<forall>h i. ElaOutPointBytes E h i = wHash E h @ wU16 E i)"

lemma codec_okD [codec_simps]:
  assumes "codec_ok E"
  shows "rU8 E (wU8 E b @ rest) = Inr (b, rest)"
    and "rU16 E (wU16 E h @ rest) = Inr (h, rest)"
    and "rU32 E (wU32 E w @ rest) = Inr (w, rest)"
    and "rU64 E (wU64 E x @ rest) = Inr (x, rest)"
    and "rVarUint E (wVarUint E x @ rest) = Inr (x, rest)"
    and "length v \<le> unat m \<Longrightarrow> rVarBytes E m (wVarBytes E v @ rest) = Inr (v, rest)"
    and "length s < 2 ^ 32 \<Longrightarrow> rVarString E (wVarString E s @ rest) = Inr (s, rest)"
    and "rHash E (wHash E a @ rest) = Inr (a, rest)"
    and "rU168 E (wU168 E p @ rest) = Inr (p, rest)"
    and "rHeader E (wHeader E bh @ rest) = Inr (bh, rest)"
    and "rTx E (wTx E t @ rest) = Inr (t, rest)"
    and "GetTransactionOk E (wTx E t @ rest)"
    and "Uint168FromBytes E (u168_bytes p) = Inr p"
    and "rFixed64 E (wFixed64 E x @ rest) = Inr (x, rest)"
    and "ElaOutPointBytes E a i = wHash E a @ wU16 E i"
  using assms by (simp_all add: codec_ok_def)

lemma codec_okD_nil [codec_simps]:
  assumes "codec_ok E"
  shows "rU16 E (wU16 E h) = Inr (h, [])"
    and "rU32 E (wU32 E w) = Inr (w, [])"
    and "length v \<le> unat m \<Longrightarrow> rVarBytes E m (wVarBytes E v) = Inr (v, [])"
    and "rU168 E (wU168 E p) = Inr (p, [])"
    and "rTx E (wTx E t) = Inr (t, [])"
    and "GetTransactionOk E (wTx E t)"
    and "rFixed64 E (wFixed64 E x) = Inr (x, [])"
  using codec_okD(2,3,6,9,11,12,14) [OF assms, where rest = "[]"] by simp_all

lemma codec_ok_rw:
  assumes "codec_ok E"
  shows "rw_ok (wHash E) (rHash E)" and "rw_ok (wU32 E) (rU32 E)" and "rw_ok (wU168 E) (rU168 E)"
  using assms by (simp_all add: codec_ok_def)

text \<open>A loop which reads \<open>n\<close> items in a row and stops at the first error.\<close>

fun read_list :: "(bytes \<Rightarrow> goerror + 'a \<times> bytes) \<Rightarrow> nat \<Rightarrow> bytes \<Rightarrow> goerror + 'a list \<times> bytes" where
  "read_list r 0 bs = Inr ([], bs)"
| "read_list r (Suc n) bs =
     (case r bs of
        Inl e \<Rightarrow> Inl e
      | Inr (v, bs') \<Rightarrow>
          (case read_list r n bs' of
             Inl e \<Rightarrow> Inl e
           | Inr (vs, bs'') \<Rightarrow> Inr (v # vs, bs'')))"

lemma read_list_written [simp]:
  "rw_ok w r \<Longrightarrow> read_list r (length vs) (concat (map w vs) @ rest) = Inr (vs, rest)"
  by (induction vs) auto

lemma read_list_written_on:
  "(\<And>v rest. v \<in> set vs \<Longrightarrow> r (w v @ rest) = Inr (v, rest)) \<Longrightarrow>
   read_list r (length vs) (concat (map w vs) @ rest) = Inr (vs, rest)"
  by (induction vs) auto

text \<open>\<open>bytes.Reader.Read\<close> into a buffer of \<open>n\<close> bytes: the end of the input is an error,
  a short read is not, and the rest of the buffer stays zero.\<close>

definition reader_read :: "nat \<Rightarrow> bytes \<Rightarrow> goerror + bytes \<times> bytes" where
  "reader_read n bs =
     (if 0 < n \<and> bs = [] then Inl EOF
      else Inr (take n bs @ replicate (n - length bs) 0, drop n bs))"

lemma reader_read_exact [simp]:
  "length v = n \<Longrightarrow> 0 < n \<Longrightarrow> reader_read n (v @ rest) = Inr (v, rest)"
  by (auto simp: reader_read_def)

subsection \<open>The key-value database\<close>

datatype batch_op = BPut bytes bytes | BDel bytes

type_synonym batch = "batch_op list"

record 'db leveldb =
  ldb_get :: "'db \<Rightarrow> bytes \<Rightarrow> goerror + bytes"
  ldb_put :: "'db \<Rightarrow> bytes \<Rightarrow> bytes \<Rightarrow> goerror option \<times> 'db"
  ldb_write :: "'db \<Rightarrow> batch \<Rightarrow> goerror option \<times> 'db"
  ldb_iter :: "'db \<Rightarrow> bytes \<Rightarrow> (bytes \<times> bytes) list"

text \<open>What a batch makes of the contents of the database: its records in order.\<close>

fun op_apply :: "batch_op \<Rightarrow> (bytes \<Rightarrow> goerror + bytes) \<Rightarrow> bytes \<Rightarrow> goerror + bytes" where
  "op_apply (BPut k v) f k' = (if k' = k then Inr v else f k')"
| "op_apply (BDel k) f k' = (if k' = k then Inl NotFound else f k')"

definition batch_apply :: "batch \<Rightarrow> (bytes \<Rightarrow> goerror + bytes) \<Rightarrow> bytes \<Rightarrow> goerror + bytes" where
  "batch_apply b = fold op_apply b"

lemma batch_apply_Nil [simp, ldb_simps]: "batch_apply [] f = f"
  by (simp add: batch_apply_def)

lemma batch_apply_Cons [simp, ldb_simps]: "batch_apply (x # b) f = batch_apply b (op_apply x f)"
  by (simp add: batch_apply_def)

lemma batch_apply_append [simp, ldb_simps]: "batch_apply (a @ b) f = batch_apply b (batch_apply a f)"
  by (simp add: batch_apply_def)

fun op_key :: "batch_op \<Rightarrow> bytes" where
  "op_key (BPut k v) = k"
| "op_key (BDel k) = k"

lemma op_apply_other: "k \<noteq> op_key x \<Longrightarrow> op_apply x f k = f k"
  by (cases x) auto

lemma op_apply_local: "f k = g k \<Longrightarrow> op_apply x f k = op_apply x g k"
  by (cases x) auto

lemma batch_apply_other: "k \<notin> op_key ` set b \<Longrightarrow> batch_apply b f k = f k"
  by (induction b arbitrary: f) (auto simp: op_apply_other)

lemma batch_apply_local: "f k = g k \<Longrightarrow> batch_apply b f k = batch_apply b g k"
proof (induction b arbitrary: f g)
  case Nil
  then show ?case by simp
next
  case (Cons x b)
  have "batch_apply b (op_apply x f) k = batch_apply b (op_apply x g) k"
    by (rule Cons.IH) (rule op_apply_local, rule Cons.prems)
  then show ?case by simp
qed

lemma batch_apply_deletes:
  "batch_apply (map BDel ks) f k = (if k \<in> set ks then Inl NotFound else f k)"
  by (induction ks arbitrary: f) auto

text \<open>Records that only delete a key delete it, whatever else the batch does.\<close>

lemma batch_apply_key_deletes:
  "\<forall>v. BPut k v \<notin> set b \<Longrightarrow> batch_apply b f k = (if BDel k \<in> set b then Inl NotFound else f k)"
proof (induction b arbitrary: f)
  case Nil
  then show ?case by simp
next
  case (Cons c b)
  then show ?case by (cases c) auto
qed

definition leveldb_ok :: "'db leveldb \<Rightarrow> bool" where
  "leveldb_ok L \<longleftrightarrow>
     (\<forall>d b d'. ldb_write L d b = (None, d') \<longrightarrow> ldb_get L d' = batch_apply b (ldb_get L d)) \<and>
     (\<forall>d k v d'. ldb_put L d k v = (None, d') \<longrightarrow> ldb_get L d' = (ldb_get L d)(k := Inr v)) \<and>
     (\<forall>d p. set (ldb_iter L d p) = {(k, v). prefix p k \<and> ldb_get L d k = Inr v}) \<and>
     (\<forall>d p. distinct (map fst (ldb_iter L d p)))"

lemma ldb_get_write:
  assumes "leveldb_ok L" and "ldb_write L d b = (None, d')"
  shows "ldb_get L d' = batch_apply b (ldb_get L d)"
proof -
  have "\<forall>d b d'. ldb_write L d b = (None, d') \<longrightarrow> ldb_get L d' = batch_apply b (ldb_get L d)"
    using assms(1) unfolding leveldb_ok_def by (rule conjunct1)
  then show ?thesis using assms(2) by iprover
qed

lemma ldb_get_put:
  assumes "leveldb_ok L" and "ldb_put L d k v = (None, d')"
  shows "ldb_get L d' = (ldb_get L d)(k := Inr v)"
proof -
  have "\<forall>d k v d'. ldb_put L d k v = (None, d') \<longrightarrow> ldb_get L d' = (ldb_get L d)(k := Inr v)"
    using assms(1) unfolding leveldb_ok_def by (elim conjE)
  then show ?thesis using assms(2) by iprover
qed

lemma ldb_iter_set:
  assumes "leveldb_ok L"
  shows "set (ldb_iter L d p) = {(k, v). prefix p k \<and> ldb_get L d k = Inr v}"
  using assms unfolding leveldb_ok_def by meson

lemma ldb_iter_distinct:
  assumes "leveldb_ok L"
  shows "distinct (map fst (ldb_iter L d p))"
  using assms unfolding leveldb_ok_def by meson

lemmas leveldb_facts = ldb_get_write ldb_get_put ldb_iter_set ldb_iter_distinct

text \<open>A Go string constant as bytes, for the bucket names of the stores.\<close>

definition str_bytes :: "string \<Rightarrow> bytes" where
  "str_bytes s = map (\<lambda>c. word_of_nat (of_char c)) s"

end
