(* ===== verification/Instances.thy ===== *)
theory Instances
  imports External "HOL-Library.AList"
begin

text \<open>
  Concrete instances of the external parameters: \<open>codec0\<close> with fixed-width little-endian
  integers and length-delimited lists, and \<open>leveldb0\<close>, an association list which never
  fails. \<open>codec0_ok\<close> and \<open>leveldb0_ok\<close> show that the hypotheses on the code outside the
  repository can hold; the witnesses of the properties use them. They model no code.
\<close>


definition fix_read :: "nat \<Rightarrow> (nat \<Rightarrow> 'a) \<Rightarrow> bytes \<Rightarrow> goerror + 'a \<times> bytes" where
  "fix_read n f bs = (if length bs < n then Inl EOF else Inr (f (le_nat (take n bs)), drop n bs))"

definition len_read :: "nat \<Rightarrow> bytes \<Rightarrow> goerror + bytes \<times> bytes" where
  "len_read m bs =
     (case fix_read 8 (\<lambda>x. x) bs of
        Inl e \<Rightarrow> Inl e
      | Inr (n, r) \<Rightarrow> if m < n then Inl (Failure ''too long'') else if length r < n then Inl EOF
                      else Inr (take n r, drop n r))"

lemma fix_read_nat_le: "fix_read n f (nat_le n x @ rest) = Inr (f (x mod 256 ^ n), rest)"
  by (simp add: fix_read_def le_nat_nat_le)

lemma fix_rw_ok:
  assumes "2 ^ LENGTH('a) = (256 :: nat) ^ n"
  shows "rw_ok (\<lambda>w :: 'a::len word. nat_le n (unat w)) (fix_read n word_of_nat)"
proof -
  have "word_of_nat (unat v mod 256 ^ n) = v" for v :: "'a word"
  proof -
    have "unat v mod 256 ^ n = unat v" using unat_mod_word [of v] assms by simp
    then show ?thesis by simp
  qed
  then show ?thesis by (simp add: rw_ok_def fix_read_nat_le)
qed

lemma len_read_written:
  "length v \<le> m \<Longrightarrow> length v < 2 ^ 64 \<Longrightarrow> len_read m (nat_le 8 (length v) @ v @ rest) = Inr (v, rest)"
  by (simp add: len_read_def fix_read_nat_le)

text \<open>Combinators for self-delimiting encodings.\<close>

definition w_pair :: "('a \<Rightarrow> bytes) \<Rightarrow> ('b \<Rightarrow> bytes) \<Rightarrow> 'a \<times> 'b \<Rightarrow> bytes" where
  "w_pair w1 w2 p = w1 (fst p) @ w2 (snd p)"

definition r_pair ::
  "(bytes \<Rightarrow> goerror + 'a \<times> bytes) \<Rightarrow> (bytes \<Rightarrow> goerror + 'b \<times> bytes) \<Rightarrow>
   bytes \<Rightarrow> goerror + ('a \<times> 'b) \<times> bytes" where
  "r_pair r1 r2 bs =
     (case r1 bs of
        Inl e \<Rightarrow> Inl e
      | Inr (a, bs') \<Rightarrow> (case r2 bs' of Inl e \<Rightarrow> Inl e | Inr (b, bs'') \<Rightarrow> Inr ((a, b), bs'')))"

definition w_iso :: "('a \<Rightarrow> 'b) \<Rightarrow> ('b \<Rightarrow> bytes) \<Rightarrow> 'a \<Rightarrow> bytes" where
  "w_iso f w x = w (f x)"

definition r_iso ::
  "('b \<Rightarrow> 'a) \<Rightarrow> (bytes \<Rightarrow> goerror + 'b \<times> bytes) \<Rightarrow> bytes \<Rightarrow> goerror + 'a \<times> bytes" where
  "r_iso g r bs = (case r bs of Inl e \<Rightarrow> Inl e | Inr (b, bs') \<Rightarrow> Inr (g b, bs'))"

fun w_list :: "('a \<Rightarrow> bytes) \<Rightarrow> 'a list \<Rightarrow> bytes" where
  "w_list w [] = [0]"
| "w_list w (x # xs) = 1 # w x @ w_list w xs"

text \<open>The input bounds the length of the list; the fuel is the length of the input.\<close>

fun r_list_fuel :: "nat \<Rightarrow> (bytes \<Rightarrow> goerror + 'a \<times> bytes) \<Rightarrow> bytes \<Rightarrow> goerror + 'a list \<times> bytes" where
  "r_list_fuel 0 r bs = Inl EOF"
| "r_list_fuel (Suc n) r [] = Inl EOF"
| "r_list_fuel (Suc n) r (b # bs) =
     (if b = 0 then Inr ([], bs)
      else (case r bs of
              Inl e \<Rightarrow> Inl e
            | Inr (x, bs') \<Rightarrow>
                (case r_list_fuel n r bs' of Inl e \<Rightarrow> Inl e | Inr (xs, bs'') \<Rightarrow> Inr (x # xs, bs''))))"

definition r_list :: "(bytes \<Rightarrow> goerror + 'a \<times> bytes) \<Rightarrow> bytes \<Rightarrow> goerror + 'a list \<times> bytes" where
  "r_list r bs = r_list_fuel (length bs) r bs"

lemma rw_pair: "rw_ok w1 r1 \<Longrightarrow> rw_ok w2 r2 \<Longrightarrow> rw_ok (w_pair w1 w2) (r_pair r1 r2)"
  by (auto simp: rw_ok_def w_pair_def r_pair_def)

lemma rw_iso: "(\<And>x. g (f x) = x) \<Longrightarrow> rw_ok w r \<Longrightarrow> rw_ok (w_iso f w) (r_iso g r)"
  by (auto simp: rw_ok_def w_iso_def r_iso_def)

lemma r_list_fuel_written:
  "rw_ok w r \<Longrightarrow> length xs < n \<Longrightarrow> r_list_fuel n r (w_list w xs @ rest) = Inr (xs, rest)"
proof (induction xs arbitrary: n)
  case Nil
  then show ?case by (cases n) auto
next
  case (Cons x xs)
  then show ?case by (cases n) auto
qed

lemma length_w_list: "length xs < length (w_list w xs)"
  by (induction xs) auto

lemma rw_list: "rw_ok w r \<Longrightarrow> rw_ok (w_list w) (r_list r)"
proof -
  assume a: "rw_ok w r"
  have "r_list_fuel (length (w_list w xs @ rest)) r (w_list w xs @ rest) = Inr (xs, rest)" for xs rest
    using length_w_list [of xs w] by (intro r_list_fuel_written [OF a]) simp
  then show ?thesis by (simp add: rw_ok_def r_list_def)
qed

text \<open>Header and transaction records, field by field.\<close>

definition w_word :: "nat \<Rightarrow> 'a::len word \<Rightarrow> bytes" where
  "w_word n w = nat_le n (unat w)"

definition r_word :: "nat \<Rightarrow> bytes \<Rightarrow> goerror + 'a::len word \<times> bytes" where
  "r_word n = fix_read n word_of_nat"

lemma rw_word: "2 ^ LENGTH('a) = (256 :: nat) ^ n \<Longrightarrow> rw_ok (w_word n :: 'a::len word \<Rightarrow> _) (r_word n)"
  unfolding w_word_def r_word_def by (rule fix_rw_ok)

definition w_bool :: "bool \<Rightarrow> bytes" where
  "w_bool b = [if b then 1 else 0]"

definition r_bool :: "bytes \<Rightarrow> goerror + bool \<times> bytes" where
  "r_bool bs = (case bs of [] \<Rightarrow> Inl EOF | b # r \<Rightarrow> Inr (b \<noteq> 0, r))"

lemma rw_bool: "rw_ok w_bool r_bool"
  by (auto simp: rw_ok_def w_bool_def r_bool_def)

definition w_string :: "string \<Rightarrow> bytes" where
  "w_string = w_list (\<lambda>c. [word_of_nat (of_char c)])"

definition r_string :: "bytes \<Rightarrow> goerror + string \<times> bytes" where
  "r_string = r_list (\<lambda>bs. case bs of [] \<Rightarrow> Inl EOF | b # r \<Rightarrow> Inr (char_of (unat b), r))"

lemma char_byte [simp]: "char_of (unat (word_of_nat (of_char c) :: u8)) = c"
  by (simp add: unat_of_nat)

lemma rw_string: "rw_ok w_string r_string"
  unfolding w_string_def r_string_def by (rule rw_list) (simp add: rw_ok_def)

abbreviation w256 :: "uint256 \<Rightarrow> bytes" where "w256 \<equiv> w_word 32"
abbreviation r256 :: "bytes \<Rightarrow> goerror + uint256 \<times> bytes" where "r256 \<equiv> r_word 32"
abbreviation w32 :: "u32 \<Rightarrow> bytes" where "w32 \<equiv> w_word 4"
abbreviation r32 :: "bytes \<Rightarrow> goerror + u32 \<times> bytes" where "r32 \<equiv> r_word 4"
abbreviation w8 :: "u8 \<Rightarrow> bytes" where "w8 \<equiv> w_word (Suc 0)"
abbreviation r8 :: "bytes \<Rightarrow> goerror + u8 \<times> bytes" where "r8 \<equiv> r_word (Suc 0)"

definition w_opt :: "('a \<Rightarrow> bytes) \<Rightarrow> 'a option \<Rightarrow> bytes" where
  "w_opt w = w_iso (\<lambda>x. case x of None \<Rightarrow> [] | Some a \<Rightarrow> [a]) (w_list w)"

definition r_opt :: "(bytes \<Rightarrow> goerror + 'a \<times> bytes) \<Rightarrow> bytes \<Rightarrow> goerror + 'a option \<times> bytes" where
  "r_opt r = r_iso (\<lambda>xs. case xs of [] \<Rightarrow> None | a # _ \<Rightarrow> Some a) (r_list r)"

lemma rw_opt: "rw_ok w r \<Longrightarrow> rw_ok (w_opt w) (r_opt r)"
  unfolding w_opt_def r_opt_def by (intro rw_iso rw_list) (auto split: option.splits)

lemma rw_words: "rw_ok w256 r256" "rw_ok w32 r32" "rw_ok w8 r8"
    "rw_ok (w_word 2 :: u16 \<Rightarrow> _) (r_word 2)" "rw_ok (w_word 8 :: u64 \<Rightarrow> _) (r_word 8)"
    "rw_ok (w_word 21 :: uint168 \<Rightarrow> _) (r_word 21)"
  by (simp_all add: rw_word)

definition w_bheader :: "bheader \<Rightarrow> bytes" where
  "w_bheader =
     w_iso (\<lambda>h. (bhPrevious h, bhBits h, bhMerkleRoot h, bhHash h, bhPowHash h))
       (w_pair w256 (w_pair w32 (w_pair w256 (w_pair w256 w256))))"

definition r_bheader :: "bytes \<Rightarrow> goerror + bheader \<times> bytes" where
  "r_bheader =
     r_iso (\<lambda>(p, b, m, h, w). \<lparr>bhPrevious = p, bhBits = b, bhMerkleRoot = m, bhHash = h, bhPowHash = w\<rparr>)
       (r_pair r256 (r_pair r32 (r_pair r256 (r_pair r256 r256))))"

lemma rw_bheader: "rw_ok w_bheader r_bheader"
  unfolding w_bheader_def r_bheader_def by (intro rw_iso rw_pair rw_words) simp

fun type_byte :: "txtype \<Rightarrow> u8" where
  "type_byte CoinBase = 0"
| "type_byte TransferAsset = 2"
| "type_byte RevertToPOW = 65"
| "type_byte RevertToDPOS = 66"
| "type_byte NextTurnDPOSInfo = 20"
| "type_byte ReturnSideChainDepositCoin = 81"
| "type_byte CRCProposal = 37"
| "type_byte ProposalResult = 43"
| "type_byte (OtherTx b) = b"

fun type_code :: "txtype \<Rightarrow> u8 \<times> u8" where
  "type_code (OtherTx b) = (0, b)"
| "type_code t = (1, type_byte t)"

definition code_type :: "u8 \<times> u8 \<Rightarrow> txtype" where
  "code_type c =
     (if fst c = 0 then OtherTx (snd c) else if snd c = 0 then CoinBase
      else if snd c = 2 then TransferAsset else if snd c = 65 then RevertToPOW
      else if snd c = 66 then RevertToDPOS else if snd c = 20 then NextTurnDPOSInfo
      else if snd c = 81 then ReturnSideChainDepositCoin else if snd c = 37 then CRCProposal
      else ProposalResult)"

lemma code_type_code [simp]: "code_type (type_code t) = t"
  by (cases t) (simp_all add: code_type_def)

fun prop_code :: "proposal_type \<Rightarrow> u8" where
  "prop_code ReserveCustomID = 0"
| "prop_code ReceiveCustomID = 1"
| "prop_code ChangeCustomIDFee = 2"
| "prop_code OtherProposal = 3"

definition code_prop :: "u8 \<Rightarrow> proposal_type" where
  "code_prop c = (if c = 0 then ReserveCustomID else if c = 1 then ReceiveCustomID
                  else if c = 2 then ChangeCustomIDFee else OtherProposal)"

lemma code_prop_code [simp]: "code_prop (prop_code t) = t"
  by (cases t) (simp_all add: code_prop_def)

definition w_crc :: "crc_proposal \<Rightarrow> bytes" where
  "w_crc =
     w_iso (\<lambda>c. (prop_code (cpType c), cpHash c, cpReservedCustomIDList c, cpReceivedCustomIDList c,
                 cpReceiverDID c, cpRateOfCustomIDFee c, cpEIDEffectiveHeight c))
       (w_pair w8 (w_pair w256 (w_pair (w_list w_string) (w_pair (w_list w_string)
         (w_pair (w_word 21) (w_pair (w_word 8) w32))))))"

definition r_crc :: "bytes \<Rightarrow> goerror + crc_proposal \<times> bytes" where
  "r_crc =
     r_iso (\<lambda>(t, h, rs, rc, d, f, e).
         \<lparr>cpType = code_prop t, cpHash = h, cpReservedCustomIDList = rs, cpReceivedCustomIDList = rc,
          cpReceiverDID = d, cpRateOfCustomIDFee = f, cpEIDEffectiveHeight = e\<rparr>)
       (r_pair r8 (r_pair r256 (r_pair (r_list r_string) (r_pair (r_list r_string)
         (r_pair (r_word 21) (r_pair (r_word 8) r32))))))"

lemma rw_crc: "rw_ok w_crc r_crc"
  unfolding w_crc_def r_crc_def by (intro rw_iso rw_pair rw_words rw_list rw_string) simp

definition w_result :: "proposal_result \<Rightarrow> bytes" where
  "w_result = w_iso (\<lambda>p. (prHash p, prop_code (prType p), prResult p)) (w_pair w256 (w_pair w8 w_bool))"

definition r_result :: "bytes \<Rightarrow> goerror + proposal_result \<times> bytes" where
  "r_result = r_iso (\<lambda>(h, t, b). \<lparr>prHash = h, prType = code_prop t, prResult = b\<rparr>)
                (r_pair r256 (r_pair r8 r_bool))"

lemma rw_result: "rw_ok w_result r_result"
  unfolding w_result_def r_result_def by (intro rw_iso rw_pair rw_words rw_bool) simp

type_synonym pl_tuple =
  "u8 \<times> u32 \<times> bytes list \<times> bytes list \<times> crc_proposal option \<times> proposal_result list"

fun pl_code :: "payload \<Rightarrow> pl_tuple" where
  "pl_code (PRevertToPOW h) = (0, h, [], [], None, [])"
| "pl_code (PRevertToDPOS h) = (1, h, [], [], None, [])"
| "pl_code (PNextTurnDPOSInfo h a b) = (2, h, a, b, None, [])"
| "pl_code PReturnSideChainDepositCoin = (3, 0, [], [], None, [])"
| "pl_code (PCRCProposal c) = (4, 0, [], [], Some c, [])"
| "pl_code (PRecordProposalResult rs) = (5, 0, [], [], None, rs)"
| "pl_code POther = (6, 0, [], [], None, [])"

fun code_pl :: "pl_tuple \<Rightarrow> payload" where
  "code_pl (t, h, a, b, c, rs) =
     (if t = 0 then PRevertToPOW h else if t = 1 then PRevertToDPOS h
      else if t = 2 then PNextTurnDPOSInfo h a b else if t = 3 then PReturnSideChainDepositCoin
      else if t = 5 then PRecordProposalResult rs
      else (case c of None \<Rightarrow> POther | Some x \<Rightarrow> PCRCProposal x))"

lemma code_pl_code [simp]: "code_pl (pl_code p) = p"
  by (cases p) simp_all

abbreviation w_bs :: "bytes \<Rightarrow> bytes" where "w_bs \<equiv> w_list w8"
abbreviation r_bs :: "bytes \<Rightarrow> goerror + bytes \<times> bytes" where "r_bs \<equiv> r_list r8"

definition w_payload :: "payload \<Rightarrow> bytes" where
  "w_payload = w_iso pl_code (w_pair w8 (w_pair w32 (w_pair (w_list w_bs) (w_pair (w_list w_bs)
                 (w_pair (w_opt w_crc) (w_list w_result))))))"

definition r_payload :: "bytes \<Rightarrow> goerror + payload \<times> bytes" where
  "r_payload = r_iso code_pl (r_pair r8 (r_pair r32 (r_pair (r_list r_bs) (r_pair (r_list r_bs)
                 (r_pair (r_opt r_crc) (r_list r_result))))))"

lemma rw_payload: "rw_ok w_payload r_payload"
  unfolding w_payload_def r_payload_def
  by (intro rw_iso rw_pair rw_words rw_list rw_opt rw_crc rw_result) (rule code_pl_code)

definition w_input :: "txinput \<Rightarrow> bytes" where
  "w_input = w_iso (\<lambda>i. (opTxID (inPrevious i), opIndex (inPrevious i), inSequence i))
               (w_pair w256 (w_pair (w_word 2) w32))"

definition r_input :: "bytes \<Rightarrow> goerror + txinput \<times> bytes" where
  "r_input = r_iso (\<lambda>(t, i, s). \<lparr>inPrevious = \<lparr>opTxID = t, opIndex = i\<rparr>, inSequence = s\<rparr>)
               (r_pair r256 (r_pair (r_word 2) r32))"

lemma rw_input: "rw_ok w_input r_input"
  unfolding w_input_def r_input_def by (intro rw_iso rw_pair rw_words) simp

definition w_output :: "txoutput \<Rightarrow> bytes" where
  "w_output =
     w_iso (\<lambda>x. (outAssetID x, outProgramHash x, outValue x, outOutputLock x, outIsReturnDeposit x, outReturn x))
       (w_pair w256 (w_pair (w_word 21) (w_pair (w_word 8) (w_pair w32 (w_pair w_bool
         (w_opt (w_pair w_string w256)))))))"

definition r_output :: "bytes \<Rightarrow> goerror + txoutput \<times> bytes" where
  "r_output =
     r_iso (\<lambda>(a, p, v, l, b, r).
         \<lparr>outAssetID = a, outProgramHash = p, outValue = v, outOutputLock = l, outIsReturnDeposit = b,
          outReturn = r\<rparr>)
       (r_pair r256 (r_pair (r_word 21) (r_pair (r_word 8) (r_pair r32 (r_pair r_bool
         (r_opt (r_pair r_string r256)))))))"

lemma rw_output: "rw_ok w_output r_output"
  unfolding w_output_def r_output_def
  by (intro rw_iso rw_pair rw_words rw_bool rw_opt rw_string) simp

definition w_txn :: "txn \<Rightarrow> bytes" where
  "w_txn =
     w_iso (\<lambda>t. (txHash t, type_code (txType t), txInputs t, txOutputs t, txPayload t))
       (w_pair w256 (w_pair (w_pair w8 w8) (w_pair (w_list w_input) (w_pair (w_list w_output) w_payload))))"

definition r_txn :: "bytes \<Rightarrow> goerror + txn \<times> bytes" where
  "r_txn =
     r_iso (\<lambda>(h, t, i, x, p).
         \<lparr>txHash = h, txType = code_type t, txInputs = i, txOutputs = x, txPayload = p\<rparr>)
       (r_pair r256 (r_pair (r_pair r8 r8) (r_pair (r_list r_input) (r_pair (r_list r_output) r_payload))))"

lemma rw_txn: "rw_ok w_txn r_txn"
  unfolding w_txn_def r_txn_def
  by (intro rw_iso rw_pair rw_words rw_list rw_input rw_output rw_payload) simp

definition codec0 :: codec where
  "codec0 =
     \<lparr>wU8 = (\<lambda>w. nat_le 1 (unat w)), rU8 = fix_read 1 word_of_nat,
      wU16 = (\<lambda>w. nat_le 2 (unat w)), rU16 = fix_read 2 word_of_nat,
      wU32 = (\<lambda>w. nat_le 4 (unat w)), rU32 = fix_read 4 word_of_nat,
      wU64 = (\<lambda>w. nat_le 8 (unat w)), rU64 = fix_read 8 word_of_nat,
      wVarUint = (\<lambda>w. nat_le 8 (unat w)), rVarUint = fix_read 8 word_of_nat,
      wVarBytes = (\<lambda>v. nat_le 8 (length v) @ v), rVarBytes = (\<lambda>m. len_read (unat m)),
      wVarString = (\<lambda>s. nat_le 8 (length s) @ map (\<lambda>c. word_of_nat (of_char c)) s),
      rVarString = (\<lambda>bs. case len_read (2 ^ 32) bs of Inl e \<Rightarrow> Inl e
                                              | Inr (v, r) \<Rightarrow> Inr (map (\<lambda>b. char_of (unat b)) v, r)),
      wHash = (\<lambda>w. nat_le 32 (unat w)), rHash = fix_read 32 word_of_nat,
      wU168 = (\<lambda>w. nat_le 21 (unat w)), rU168 = fix_read 21 word_of_nat,
      MaxTxPerBlock = 10000, MaxBlockContextSize = 8000000,
      Sha256D = (\<lambda>bs. word_of_nat (length bs + 257 * le_nat bs)),
      Sum256 = (\<lambda>bs. word_of_nat (length bs + 259 * le_nat bs)),
      wHeader = w_bheader, rHeader = r_bheader, wTx = w_txn,
      GetTransactionOk = (\<lambda>_. True), rTx = r_txn, TxTypeByte = type_byte,
      Uint168FromBytes = (\<lambda>bs. if length bs = 21 then Inr (bytes_u168 bs) else Inl (Failure ''invalid length'')),
      Uint168FromAddress = (\<lambda>s. if length s = 34 then Inr (word_of_nat (le_nat (map (\<lambda>c. word_of_nat (of_char c)) s)))
                               else Inl (Failure ''invalid address'')),
      wFixed64 = (\<lambda>w. nat_le 8 (unat w)), rFixed64 = fix_read 8 word_of_nat,
      ElaOutPointBytes = (\<lambda>h i. nat_le 32 (unat h) @ nat_le 2 (unat i)),
      wListener = (\<lambda>a t f. (case a of None \<Rightarrow> [] | Some h \<Rightarrow> u168_bytes h) @ type_byte t # nat_le 8 (unat f))\<rparr>"

lemma codec0_ok: "codec_ok codec0"
proof -
  have v: "len_read (unat m) (nat_le 8 (length v) @ v @ rest) = Inr (v, rest)"
    if "length v \<le> unat m" for v rest and m :: u32
  proof -
    have "unat m < 2 ^ LENGTH(32)" by (rule unsigned_less)
    with that show ?thesis by (intro len_read_written) simp_all
  qed
  have s: "rVarString codec0 (wVarString codec0 v @ rest) = Inr (v, rest)"
    if "length v < 2 ^ 32" for v rest
    using len_read_written [of "map (\<lambda>c. word_of_nat (of_char c)) v" "2 ^ 32" rest] that
    by (simp add: codec0_def comp_def)
  have u: "rw_ok (wU8 codec0) (rU8 codec0)"
    unfolding codec0_def codec.simps by (rule fix_rw_ok) simp
  show ?thesis
    unfolding codec_ok_def using s u
    by (simp add: fix_rw_ok v) (simp add: codec0_def fix_rw_ok v rw_bheader rw_txn)
qed

text \<open>A concrete database: an association list, which never fails.\<close>

fun alist_op :: "batch_op \<Rightarrow> (bytes \<times> bytes) list \<Rightarrow> (bytes \<times> bytes) list" where
  "alist_op (BPut k v) d = AList.update k v d"
| "alist_op (BDel k) d = AList.delete k d"

definition alist_get :: "(bytes \<times> bytes) list \<Rightarrow> bytes \<Rightarrow> goerror + bytes" where
  "alist_get d k = (case map_of d k of None \<Rightarrow> Inl NotFound | Some v \<Rightarrow> Inr v)"

definition leveldb0 :: "(bytes \<times> bytes) list leveldb" where
  "leveldb0 =
     \<lparr>ldb_get = alist_get,
      ldb_put = (\<lambda>d k v. (None, AList.update k v d)),
      ldb_write = (\<lambda>d b. (None, fold alist_op b d)),
      ldb_iter = (\<lambda>d p. filter (\<lambda>(k, v). prefix p k) (AList.clearjunk d))\<rparr>"

lemma alist_get_update: "alist_get (AList.update k v d) = (alist_get d)(k := Inr v)"
  by (rule ext) (simp add: alist_get_def update_conv')

lemma alist_get_delete: "alist_get (AList.delete k d) = (alist_get d)(k := Inl NotFound)"
  by (rule ext) (simp add: alist_get_def delete_conv')

lemma alist_get_op: "alist_get (alist_op x d) = op_apply x (alist_get d)"
  by (cases x) (simp_all add: alist_get_update alist_get_delete fun_eq_iff)

lemma alist_get_batch: "alist_get (fold alist_op b d) = batch_apply b (alist_get d)"
  by (induction b arbitrary: d) (simp_all add: alist_get_op)

lemma alist_get_Inr: "alist_get d k = Inr v \<longleftrightarrow> map_of d k = Some v"
  by (simp add: alist_get_def split: option.splits)

lemma leveldb0_ok: "leveldb_ok leveldb0"
proof -
  have i: "set (AList.clearjunk d) = {(k, v). map_of d k = Some v}" for d :: "(bytes \<times> bytes) list"
    using map_of_eq_Some_iff [OF distinct_clearjunk, of d] by (auto simp: map_of_clearjunk)
  have j: "distinct (map fst (filter P (AList.clearjunk d)))" for P and d :: "(bytes \<times> bytes) list"
    by (rule distinct_map_filter) (rule distinct_clearjunk)
  show ?thesis
    by (auto simp: leveldb_ok_def leveldb0_def alist_get_batch alist_get_update alist_get_Inr i j)
qed


end
