(* ===== verification/Util.thy ===== *)
theory Util
  imports Instances
begin

text \<open>
  Operations of package \<open>util\<close>: outpoints (\<open>util/outpoint.go\<close>), the stored block
  header (\<open>util/header.go\<close>) and the stored transaction (\<open>util/tx.go\<close>), with the round
  trips of their encodings. Reading and writing fields is the codec \<open>E\<close>; the padding of
  the total work, which panics when the number has more than 32 bytes, is the code's own.
\<close>

subsection \<open>Outpoints\<close>

definition NewOutPoint :: "uint256 \<Rightarrow> u16 \<Rightarrow> outpoint" where
  "NewOutPoint txId index = \<lparr>opTxID = txId, opIndex = index\<rparr>"

definition outpoint_IsEqual :: "outpoint \<Rightarrow> outpoint \<Rightarrow> bool" where
  "outpoint_IsEqual op o' =
     (if opTxID op \<noteq> opTxID o' then False
      else if opIndex op \<noteq> opIndex o' then False else True)"

definition outpoint_Serialize :: "codec \<Rightarrow> outpoint \<Rightarrow> bytes" where
  "outpoint_Serialize E op = wHash E (opTxID op) @ wU16 E (opIndex op)"

definition outpoint_Deserialize :: "codec \<Rightarrow> bytes \<Rightarrow> goerror + outpoint \<times> bytes" where
  "outpoint_Deserialize E bs =
     (case rHash E bs of
        Inl e \<Rightarrow> Inl e
      | Inr (t, r) \<Rightarrow>
          (case rU16 E r of
             Inl e \<Rightarrow> Inl e
           | Inr (i, r') \<Rightarrow> Inr (\<lparr>opTxID = t, opIndex = i\<rparr>, r')))"

definition outpoint_Bytes :: "codec \<Rightarrow> outpoint \<Rightarrow> bytes" where
  "outpoint_Bytes E op = outpoint_Serialize E op"

definition OutPointFromBytes :: "codec \<Rightarrow> bytes \<Rightarrow> goerror + outpoint" where
  "OutPointFromBytes E value =
     (case outpoint_Deserialize E value of Inl e \<Rightarrow> Inl e | Inr (op, _) \<Rightarrow> Inr op)"

lemma outpoint_IsEqual_iff [simp]: "outpoint_IsEqual a b \<longleftrightarrow> a = b"
  by (cases a; cases b) (auto simp: outpoint_IsEqual_def)

lemma outpoint_Deserialize_Serialize [simp]:
  "codec_ok E \<Longrightarrow> outpoint_Deserialize E (outpoint_Serialize E op @ rest) = Inr (op, rest)"
  by (simp add: outpoint_Deserialize_def outpoint_Serialize_def codec_simps)

lemma OutPointFromBytes_Bytes [simp]:
  assumes "codec_ok E"
  shows "OutPointFromBytes E (outpoint_Bytes E op) = Inr op"
  using outpoint_Deserialize_Serialize [OF assms, of op "[]"]
  by (simp add: OutPointFromBytes_def outpoint_Bytes_def)

lemma outpoint_Bytes_inj: "codec_ok E \<Longrightarrow> outpoint_Bytes E a = outpoint_Bytes E b \<longleftrightarrow> a = b"
  by (metis OutPointFromBytes_Bytes sum.inject(2))

subsection \<open>Big integers as bytes\<close>

text \<open>\<open>big.Int.Bytes\<close>: the absolute value, big-endian, without leading zeros;
  \<open>big.Int.SetBytes\<close> reads big-endian bytes.\<close>

fun nat_bytes :: "nat \<Rightarrow> bytes" where
  "nat_bytes x = (if x = 0 then [] else nat_bytes (x div 256) @ [word_of_nat (x mod 256)])"

declare nat_bytes.simps [simp del]

lemma nat_bytes_0 [simp]: "nat_bytes 0 = []"
  by (simp add: nat_bytes.simps)

definition big_Bytes :: "int \<Rightarrow> bytes" where
  "big_Bytes x = nat_bytes (nat \<bar>x\<bar>)"

definition big_SetBytes :: "bytes \<Rightarrow> int" where
  "big_SetBytes bs = int (le_nat (rev bs))"

lemma le_nat_rev_nat_bytes [simp]: "le_nat (rev (nat_bytes x)) = x"
proof (induction x rule: nat_bytes.induct)
  case (1 x)
  then show ?case
    by (cases "x = 0") (simp_all add: nat_bytes.simps [of x] unat_byte_mod)
qed

lemma length_nat_bytes: "x < 256 ^ n \<Longrightarrow> length (nat_bytes x) \<le> n"
proof (induction x arbitrary: n rule: nat_bytes.induct)
  case (1 x)
  show ?case
  proof (cases "x = 0")
    case True
    then show ?thesis by simp
  next
    case False
    with "1.prems" obtain m where n: "n = Suc m" by (cases n) auto
    with "1.prems" have "x div 256 < 256 ^ m" by (simp add: less_mult_imp_div_less mult.commute)
    with "1.IH" [OF False] have "length (nat_bytes (x div 256)) \<le> m" by simp
    with False n show ?thesis by (simp add: nat_bytes.simps [of x])
  qed
qed

lemma big_SetBytes_padded:
  "0 \<le> x \<Longrightarrow> big_SetBytes (replicate n 0 @ big_Bytes x) = x"
  by (simp add: big_SetBytes_def big_Bytes_def le_nat_append)

subsection \<open>The stored header\<close>

definition header_Serialize :: "codec \<Rightarrow> header \<Rightarrow> goerror + bytes" where
  "header_Serialize E h =
     (let buf = wHeader E (hdrBH h) @ wU32 E (hdrHeight h) @ wU32 E (hdrNumTxs h) @
                wVarUint E (word_of_nat (length (hdrHashes h))) @
                concat (map (wHash E) (hdrHashes h)) @ wVarBytes E (hdrFlags h);
          biBytes = big_Bytes (hdrTotalWork h)
      in if 32 < length biBytes then Inl (Panic ''makeslice: len out of range'')
         else Inr (buf @ replicate (32 - length biBytes) 0 @ biBytes))"

definition header_Deserialize :: "codec \<Rightarrow> bytes \<Rightarrow> goerror + header" where
  "header_Deserialize E b =
     (case rHeader E b of
        Inl e \<Rightarrow> Inl e
      | Inr (bh, r) \<Rightarrow>
     (case rU32 E r of
        Inl e \<Rightarrow> Inl e
      | Inr (height, r) \<Rightarrow>
     (case rU32 E r of
        Inl e \<Rightarrow> Inl e
      | Inr (numTxs, r) \<Rightarrow>
     (case rVarUint E r of
        Inl e \<Rightarrow> Inl e
      | Inr (count, r) \<Rightarrow>
          if unat (MaxTxPerBlock E) < unat count
          then Inl (Failure ''too many transactions to fit into a block'')
          else
     (case read_list (rHash E) (unat count) r of
        Inl e \<Rightarrow> Inl e
      | Inr (hashes, r) \<Rightarrow>
     (case rVarBytes E (MaxTxPerBlock E) r of
        Inl e \<Rightarrow> Inl e
      | Inr (flags, r) \<Rightarrow>
     (case reader_read 32 r of
        Inl e \<Rightarrow> Inl e
      | Inr (biBytes, _) \<Rightarrow>
          Inr \<lparr>hdrBH = bh, hdrHeight = height, hdrNumTxs = numTxs, hdrHashes = hashes,
               hdrFlags = flags, hdrTotalWork = big_SetBytes biBytes\<rparr>)))))))"

text \<open>The headers which survive being stored and read back.\<close>

definition header_storable :: "codec \<Rightarrow> header \<Rightarrow> bool" where
  "header_storable E h \<longleftrightarrow>
     length (hdrHashes h) \<le> unat (MaxTxPerBlock E) \<and> length (hdrFlags h) \<le> unat (MaxTxPerBlock E) \<and>
     0 \<le> hdrTotalWork h \<and> hdrTotalWork h < 2 ^ 256"

lemma length_big_Bytes: "0 \<le> x \<Longrightarrow> x < 2 ^ 256 \<Longrightarrow> length (big_Bytes x) \<le> 32"
proof -
  assume "0 \<le> x" and "x < 2 ^ 256"
  then have "nat \<bar>x\<bar> < 256 ^ 32" by (simp add: nat_less_iff)
  then show ?thesis unfolding big_Bytes_def by (rule length_nat_bytes)
qed

lemma header_Serialize_storable:
  "header_storable E h \<Longrightarrow> \<exists>bs. header_Serialize E h = Inr bs"
  using length_big_Bytes [of "hdrTotalWork h"]
  by (auto simp: header_storable_def header_Serialize_def Let_def)

lemma header_roundtrip:
  assumes E: "codec_ok E" and h: "header_storable E h" and w: "header_Serialize E h = Inr bs"
  shows "header_Deserialize E bs = Inr h"
proof -
  let ?bi = "big_Bytes (hdrTotalWork h)"
  let ?pad = "replicate (32 - length ?bi) 0 @ ?bi"
  have len: "length ?bi \<le> 32"
    using h by (intro length_big_Bytes) (auto simp: header_storable_def)
  have "unat (MaxTxPerBlock E) < 2 ^ LENGTH(32)" by (rule unsigned_less)
  with h have n: "unat (word_of_nat (length (hdrHashes h)) :: u64) = length (hdrHashes h)"
    by (intro unat_of_nat_small) (simp add: header_storable_def)
  have bs: "bs = wHeader E (hdrBH h) @ wU32 E (hdrHeight h) @ wU32 E (hdrNumTxs h) @
      wVarUint E (word_of_nat (length (hdrHashes h))) @
      concat (map (wHash E) (hdrHashes h)) @ wVarBytes E (hdrFlags h) @ ?pad"
    using w len by (simp add: header_Serialize_def Let_def)
  have pad: "reader_read 32 ?pad = Inr (?pad, [])"
    using len reader_read_exact [of ?pad 32 "[]"] by simp
  have work: "big_SetBytes ?pad = hdrTotalWork h"
    using h by (simp add: big_SetBytes_padded header_storable_def)
  show ?thesis
    using h unfolding bs header_Deserialize_def
    by (simp add: codec_simps E n pad work header_storable_def codec_ok_rw)
qed

subsection \<open>The stored transaction\<close>

definition NewTx :: "codec \<Rightarrow> u64 \<Rightarrow> txn \<Rightarrow> u32 \<Rightarrow> utiltx" where
  "NewTx E now tx height =
     \<lparr>utxHash = txHash tx, utxHeight = height, utxTimestamp = now, utxRawData = wTx E tx\<rparr>"

definition utx_Serialize :: "codec \<Rightarrow> utiltx \<Rightarrow> bytes" where
  "utx_Serialize E t =
     wHash E (utxHash t) @ wU32 E (utxHeight t) @ wU64 E (utxTimestamp t) @ wVarBytes E (utxRawData t)"

definition utx_Deserialize :: "codec \<Rightarrow> bytes \<Rightarrow> goerror + utiltx \<times> bytes" where
  "utx_Deserialize E bs =
     (case rHash E bs of
        Inl e \<Rightarrow> Inl e
      | Inr (hash, r) \<Rightarrow>
     (case rU32 E r of
        Inl e \<Rightarrow> Inl e
      | Inr (height, r) \<Rightarrow>
     (case rU64 E r of
        Inl e \<Rightarrow> Inl e
      | Inr (timestamp, r) \<Rightarrow>
     (case rVarBytes E (MaxBlockContextSize E) r of
        Inl e \<Rightarrow> Inl e
      | Inr (raw, r) \<Rightarrow>
          Inr (\<lparr>utxHash = hash, utxHeight = height, utxTimestamp = timestamp, utxRawData = raw\<rparr>, r)))))"

lemma utx_roundtrip [simp]:
  "codec_ok E \<Longrightarrow> length (utxRawData t) \<le> unat (MaxBlockContextSize E) \<Longrightarrow>
   utx_Deserialize E (utx_Serialize E t @ rest) = Inr (t, rest)"
  by (simp add: utx_Deserialize_def utx_Serialize_def codec_simps)

lemma utx_roundtrip_nil [simp]:
  "codec_ok E \<Longrightarrow> length (utxRawData t) \<le> unat (MaxBlockContextSize E) \<Longrightarrow>
   utx_Deserialize E (utx_Serialize E t) = Inr (t, [])"
  using utx_roundtrip [of E t "[]"] by simp

end
