(* ===== verification/Difficulty.thy ===== *)
theory Difficulty
  imports Util
begin

text \<open>
  Proof of work (\<open>blockchain/difficulty.go\<close>): the compact representation of a target,
  the work a target stands for, and the check of a header's proof of work. Numbers are
  \<open>big.Int\<close>, that is \<open>int\<close>.
\<close>

definition PowLimit :: int where
  "PowLimit = 2 ^ 255 - 1"

definition CompactToBig :: "u32 \<Rightarrow> int" where
  "CompactToBig compact =
     (let mantissa = compact AND 0x007fffff;
          isNegative = (compact AND 0x00800000 \<noteq> 0);
          exponent = unat (drop_bit 24 compact);
          bn = (if exponent \<le> 3 then uint (drop_bit (8 * (3 - exponent)) mantissa)
                else uint mantissa * 2 ^ (8 * (exponent - 3)))
      in if isNegative then - bn else bn)"

definition CalcWork :: "u32 \<Rightarrow> int" where
  "CalcWork bits =
     (let difficultyNum = CompactToBig bits
      in if difficultyNum \<le> 0 then 0
         else 2 ^ 256 div (difficultyNum + 1))"

text \<open>The loop that reverses the 32 bytes of a hash in place.\<close>

fun swap_bytes :: "nat \<Rightarrow> nat \<Rightarrow> bytes \<Rightarrow> bytes" where
  "swap_bytes i 0 buf = buf"
| "swap_bytes i (Suc n) buf =
     swap_bytes (Suc i) n
       (buf[i := buf ! (length buf - 1 - i), length buf - 1 - i := buf ! i])"

definition HashToBig :: "uint256 \<Rightarrow> int" where
  "HashToBig hash =
     (let buf = hash_bytes hash
      in big_SetBytes (swap_bytes 0 (length buf div 2) buf))"

definition checkProofOfWork :: "bheader \<Rightarrow> bool" where
  "checkProofOfWork hdr =
     (let target = CompactToBig (bhBits hdr)
      in if target \<le> 0 then False
         else if PowLimit < target then False
         else if target < HashToBig (bhPowHash hdr) then False
         else True)"

lemma length_swap_bytes [simp]: "length (swap_bytes i n buf) = length buf"
  by (induction i n buf rule: swap_bytes.induct) simp_all

lemma swap_bytes_nth:
  assumes "2 * (i + n) \<le> length buf" and "k < length buf"
  shows "swap_bytes i n buf ! k =
    (if (i \<le> k \<and> k < i + n) \<or> (i \<le> length buf - 1 - k \<and> length buf - 1 - k < i + n)
     then buf ! (length buf - 1 - k) else buf ! k)"
  using assms
proof (induction i n buf rule: swap_bytes.induct)
  case (1 i buf)
  then show ?case by auto
next
  case (2 i n buf)
  let ?b = "buf[i := buf ! (length buf - 1 - i), length buf - 1 - i := buf ! i]"
  from 2 have "swap_bytes (Suc i) n ?b ! k =
    (if (Suc i \<le> k \<and> k < Suc i + n) \<or> (Suc i \<le> length buf - 1 - k \<and> length buf - 1 - k < Suc i + n)
     then ?b ! (length buf - 1 - k) else ?b ! k)" by simp
  then show ?case using 2(2,3) by (auto simp: nth_list_update)
qed

lemma swap_bytes_rev: "even (length buf) \<Longrightarrow> swap_bytes 0 (length buf div 2) buf = rev buf"
  by (rule nth_equalityI) (auto simp: swap_bytes_nth rev_nth)

lemma HashToBig_uint: "HashToBig h = uint h"
proof -
  have "swap_bytes 0 16 (hash_bytes h) = rev (hash_bytes h)"
    using swap_bytes_rev [of "hash_bytes h"] by simp
  moreover have "le_nat (hash_bytes h) = unat h"
    using unat_mod_word [of h] by (simp add: hash_bytes_def le_nat_nat_le)
  ultimately show ?thesis by (simp add: HashToBig_def big_SetBytes_def)
qed

lemma CalcWork_nonneg [simp]: "0 \<le> CalcWork bits"
  by (simp add: CalcWork_def Let_def pos_imp_zdiv_nonneg_iff)

lemma CalcWork_antimono:
  assumes "0 < CompactToBig a" and "CompactToBig a \<le> CompactToBig b"
  shows "CalcWork b \<le> CalcWork a"
  using assms by (simp add: CalcWork_def zdiv_mono2)

lemma CalcWork_pos:
  assumes "0 < CompactToBig bits" and "CompactToBig bits \<le> PowLimit"
  shows "0 < CalcWork bits"
  using assms by (simp add: CalcWork_def PowLimit_def pos_imp_zdiv_pos_iff)

lemma checkProofOfWork_iff:
  "checkProofOfWork h \<longleftrightarrow>
     0 < CompactToBig (bhBits h) \<and> CompactToBig (bhBits h) \<le> PowLimit \<and>
     uint (bhPowHash h) \<le> CompactToBig (bhBits h)"
  by (auto simp: checkProofOfWork_def Let_def HashToBig_uint)

lemma checkProofOfWork_work: "checkProofOfWork h \<Longrightarrow> 0 < CalcWork (bhBits h)"
  by (simp add: checkProofOfWork_iff CalcWork_pos)

text \<open>The compact form, arithmetically.\<close>

lemma mantissa_uint: "uint (c AND 0x007fffff) = uint c mod 2 ^ 23" for c :: u32
proof -
  have "c AND 0x007fffff = c AND mask 23" by (simp add: mask_numeral)
  then show ?thesis by (simp only: uint_and_mask)
qed

lemma sign_bit: "c AND 0x00800000 \<noteq> 0 \<longleftrightarrow> bit c 23" for c :: u32
  by (simp add: bit_iff_and_push_bit_not_eq_0)

lemma pow256: "(2 :: int) ^ (8 * n) = 256 ^ n"
  by (simp add: power_mult)

text \<open>compact target\<close>

theorem CompactToBig_spec:
  "CompactToBig c =
     (let m = uint c mod 2 ^ 23; e = unat c div 2 ^ 24;
          n = (if 3 \<le> e then m * 256 ^ (e - 3) else m div 256 ^ (3 - e))
      in if bit c 23 then - n else n)"
proof -
  have D: "uint (drop_bit n (c AND 0x007fffff)) = uint c mod 2 ^ 23 div 2 ^ n" for n
    by (simp only: uint_drop_bit mantissa_uint)
  show ?thesis
    unfolding CompactToBig_def Let_def sign_bit unat_drop_bit D pow256 mantissa_uint by auto
qed

end
