(* ===== verification/BloomFilter.thy ===== *)
theory BloomFilter
  imports Complex_Main Difficulty
begin

text \<open>
  Bloom filters: \<open>bloom/murmurhash3.go\<close>, \<open>bloom/filter.go\<close>, and the transaction
  filtering built on the interface \<open>util.Filter\<close> (\<open>MatchFilter\<close> of
  \<open>interface/iutil/tx.go\<close> and \<open>wallet/sutil/tx.go\<close>, the same function twice).
  A filter is the optional message it holds. An empty filter with a positive number of hash
  functions divides by zero; such panics are values.
  The locale \<open>tx_filter\<close> is the contract of \<open>util.Filter\<close>.
\<close>

subsection \<open>MurmurHash3\<close>

definition rotl32 :: "u32 \<Rightarrow> nat \<Rightarrow> u32" where
  "rotl32 k r = (push_bit r k) OR (drop_bit (32 - r) k)"

definition murmur_k :: "u32 \<Rightarrow> u32" where
  "murmur_k k = rotl32 (k * 0xcc9e2d51) 15 * 0x1b873593"

fun murmur_blocks :: "nat \<Rightarrow> nat \<Rightarrow> bytes \<Rightarrow> u32 \<Rightarrow> u32" where
  "murmur_blocks i 0 dat hash = hash"
| "murmur_blocks i (Suc n) dat hash =
     murmur_blocks (Suc i) n dat
       (rotl32 (hash XOR murmur_k (le_u32 (drop (i * 4) dat))) 13 * 5 + 0xe6546b64)"

definition murmur_tail :: "u32 \<Rightarrow> nat \<Rightarrow> bytes \<Rightarrow> u32 \<Rightarrow> u32" where
  "murmur_tail dataLen tailIdx dat hash =
     (let n = unat (dataLen AND 3);
          k3 = (if 3 \<le> n then push_bit 16 (ucast (dat ! (tailIdx + 2))) else 0);
          k2 = (if 2 \<le> n then k3 XOR push_bit 8 (ucast (dat ! (tailIdx + 1))) else k3)
      in if 1 \<le> n then hash XOR murmur_k (k2 XOR ucast (dat ! tailIdx)) else hash)"

definition murmur_final :: "u32 \<Rightarrow> u32" where
  "murmur_final h =
     (let h = h XOR drop_bit 16 h;
          h = h * 0x85ebca6b;
          h = h XOR drop_bit 13 h;
          h = h * 0xc2b2ae35
      in h XOR drop_bit 16 h)"

definition MurmurHash3 :: "u32 \<Rightarrow> bytes \<Rightarrow> u32" where
  "MurmurHash3 seed dat =
     (let dataLen = word_of_nat (length dat) :: u32;
          numBlocks = unat dataLen div 4;
          hash = murmur_blocks 0 numBlocks dat seed;
          hash = murmur_tail dataLen (numBlocks * 4) dat hash
      in murmur_final (hash XOR dataLen))"

subsection \<open>The filter\<close>

record filter_load =
  flFilter :: bytes
  flHashFuncs :: u32
  flTweak :: u32
  flTxTypes :: "u8 list"

record bfilter =
  bfMsg :: "filter_load option"

definition MaxFilterLoadHashFuncs :: u32 where
  "MaxFilterLoadHashFuncs = 50"

definition MaxFilterLoadFilterSize :: u32 where
  "MaxFilterLoadFilterSize = 36000"

definition minUint32 :: "u32 \<Rightarrow> u32 \<Rightarrow> u32" where
  "minUint32 a b = (if a < b then a else b)"

text \<open>
  \<open>calcLen elements fprate\<close> stands for
  \<open>uint32(-1 * float64(elements) * math.Log(fprate) / ln2Squared)\<close> and
  \<open>calcFuncs dataLen elements\<close> for
  \<open>uint32(float64(dataLen*8) / float64(elements) * math.Ln2)\<close>, the two floating point
  computations of \<open>NewFilter\<close>.
\<close>

definition NewFilter ::
  "(u32 \<Rightarrow> 'r::linordered_field \<Rightarrow> u32) \<Rightarrow> (u32 \<Rightarrow> u32 \<Rightarrow> u32) \<Rightarrow> u32 \<Rightarrow> u32 \<Rightarrow> 'r \<Rightarrow> u8 list \<Rightarrow> bfilter" where
  "NewFilter calcLen calcFuncs elements tweak fprate txTypes =
     (let fprate = (if fprate > 1 then 1 else fprate);
          fprate = (if fprate < 1 / 10 ^ 9 then 1 / 10 ^ 9 else fprate);
          dataLen = calcLen elements fprate;
          dataLen = minUint32 dataLen (MaxFilterLoadFilterSize * 8) div 8;
          hashFuncs = calcFuncs dataLen elements;
          hashFuncs = minUint32 hashFuncs MaxFilterLoadHashFuncs
      in \<lparr>bfMsg = Some \<lparr>flFilter = replicate (unat dataLen) 0, flHashFuncs = hashFuncs,
                          flTweak = tweak, flTxTypes = txTypes\<rparr>\<rparr>)"

definition LoadFilter :: "filter_load option \<Rightarrow> bfilter" where
  "LoadFilter m = \<lparr>bfMsg = m\<rparr>"

definition IsLoaded :: "bfilter \<Rightarrow> bool" where
  "IsLoaded bf \<longleftrightarrow> bfMsg bf \<noteq> None"

definition Reload :: "filter_load option \<Rightarrow> bfilter \<Rightarrow> bfilter" where
  "Reload m bf = bf\<lparr>bfMsg := m\<rparr>"

definition Unload :: "bfilter \<Rightarrow> bfilter" where
  "Unload bf = bf\<lparr>bfMsg := None\<rparr>"

definition filter_hash :: "filter_load \<Rightarrow> u32 \<Rightarrow> bytes \<Rightarrow> goerror + u32" where
  "filter_hash m hashNum dat =
     (let mm = MurmurHash3 (hashNum * 0xfba4c795 + flTweak m) dat;
          bits = push_bit 3 (word_of_nat (length (flFilter m)) :: u32)
      in if bits = 0 then Inl (Panic ''integer divide by zero'') else Inr (mm mod bits))"

definition bit_mask :: "u32 \<Rightarrow> u8" where
  "bit_mask idx = push_bit (unat (idx AND 7)) 1"

text \<open>The loops over the hash functions \<open>i\<close>, with \<open>n\<close> of them left.\<close>

fun matches_loop :: "filter_load \<Rightarrow> bytes \<Rightarrow> nat \<Rightarrow> u32 \<Rightarrow> goerror + bool" where
  "matches_loop m dat 0 i = Inr True"
| "matches_loop m dat (Suc n) i =
     (case filter_hash m i dat of
        Inl e \<Rightarrow> Inl e
      | Inr idx \<Rightarrow>
          if length (flFilter m) \<le> unat (drop_bit 3 idx) then Inl (Panic ''index out of range'')
          else if flFilter m ! unat (drop_bit 3 idx) AND bit_mask idx = 0 then Inr False
          else matches_loop m dat n (i + 1))"

fun add_loop :: "filter_load \<Rightarrow> bytes \<Rightarrow> nat \<Rightarrow> u32 \<Rightarrow> goerror + filter_load" where
  "add_loop m dat 0 i = Inr m"
| "add_loop m dat (Suc n) i =
     (case filter_hash m i dat of
        Inl e \<Rightarrow> Inl e
      | Inr idx \<Rightarrow>
          if length (flFilter m) \<le> unat (drop_bit 3 idx) then Inl (Panic ''index out of range'')
          else let k = unat (drop_bit 3 idx)
               in add_loop (m\<lparr>flFilter := (flFilter m)[k := flFilter m ! k OR bit_mask idx]\<rparr>) dat n (i + 1))"

definition Matches :: "bfilter \<Rightarrow> bytes \<Rightarrow> goerror + bool" where
  "Matches bf dat =
     (case bfMsg bf of
        None \<Rightarrow> Inr False
      | Some m \<Rightarrow> matches_loop m dat (unat (flHashFuncs m)) 0)"

definition MatchesOutPoint :: "codec \<Rightarrow> bfilter \<Rightarrow> outpoint \<Rightarrow> goerror + bool" where
  "MatchesOutPoint E bf op = Matches bf (outpoint_Bytes E op)"

definition Add :: "bfilter \<Rightarrow> bytes \<Rightarrow> goerror + bfilter" where
  "Add bf dat =
     (case bfMsg bf of
        None \<Rightarrow> Inr bf
      | Some m \<Rightarrow>
          (case add_loop m dat (unat (flHashFuncs m)) 0 of
             Inl e \<Rightarrow> Inl e
           | Inr m' \<Rightarrow> Inr (bf\<lparr>bfMsg := Some m'\<rparr>)))"

definition AddHash :: "bfilter \<Rightarrow> uint256 \<Rightarrow> goerror + bfilter" where
  "AddHash bf hash = Add bf (hash_bytes hash)"

definition AddOutPoint :: "codec \<Rightarrow> bfilter \<Rightarrow> outpoint \<Rightarrow> goerror + bfilter" where
  "AddOutPoint E bf op = Add bf (outpoint_Bytes E op)"

definition GetFilterLoadMsg :: "bfilter \<Rightarrow> filter_load option" where
  "GetFilterLoadMsg bf = bfMsg bf"

text \<open>\<open>wFilterLoad\<close> is \<open>msg.FilterLoad.Serialize\<close> of Elastos.ELA.\<close>

definition ToTxFilterMsg :: "(filter_load \<Rightarrow> bytes) \<Rightarrow> bfilter \<Rightarrow> u8 \<Rightarrow> goerror + u8 \<times> bytes" where
  "ToTxFilterMsg wFilterLoad bf typ =
     (case bfMsg bf of
        None \<Rightarrow> Inl (Panic ''nil pointer dereference'')
      | Some m \<Rightarrow> Inr (typ, wFilterLoad m))"

subsection \<open>Bits of a filter\<close>

text \<open>A filter that can be queried: loaded, with at least one bit unless no hash function
  is used.\<close>

definition filter_usable :: "filter_load \<Rightarrow> bool" where
  "filter_usable m \<longleftrightarrow> flHashFuncs m = 0 \<or> 0 < length (flFilter m) \<and> length (flFilter m) < 2 ^ 29"

definition bfilter_inv :: "bfilter \<Rightarrow> bool" where
  "bfilter_inv bf \<longleftrightarrow> (case bfMsg bf of None \<Rightarrow> False | Some m \<Rightarrow> filter_usable m)"

text \<open>Every bit of \<open>m\<close> is set in \<open>m'\<close>, and nothing else of them differs.\<close>

definition bits_le :: "filter_load \<Rightarrow> filter_load \<Rightarrow> bool" where
  "bits_le m m' \<longleftrightarrow> length (flFilter m') = length (flFilter m) \<and> flHashFuncs m' = flHashFuncs m \<and>
     flTweak m' = flTweak m \<and> flTxTypes m' = flTxTypes m \<and>
     (\<forall>k < length (flFilter m). flFilter m ! k AND flFilter m' ! k = flFilter m ! k)"

lemma bits_le_refl [simp, intro]: "bits_le m m"
  by (simp add: bits_le_def)

lemma and_absorb_trans: "a AND b = a \<Longrightarrow> b AND c = b \<Longrightarrow> a AND c = (a :: u8)"
  by (metis and.assoc)

lemma bits_le_trans: "bits_le a b \<Longrightarrow> bits_le b c \<Longrightarrow> bits_le a c"
  unfolding bits_le_def by (auto intro: and_absorb_trans)

lemma and_or_absorb [simp]: "a AND (a OR b) = (a :: u8)"
  by (rule bit_word_eqI) (auto simp: bit_and_iff bit_or_iff)

lemma or_and_nonzero: "(a OR v) AND v = (v :: u8)"
  by (rule bit_word_eqI) (auto simp: bit_and_iff bit_or_iff)

lemma bits_le_set: "bits_le m (m\<lparr>flFilter := (flFilter m)[k := flFilter m ! k OR v]\<rparr>)"
proof -
  let ?xs = "(flFilter m)[k := flFilter m ! k OR v]"
  have "flFilter m ! j AND ?xs ! j = flFilter m ! j" if "j < length (flFilter m)" for j
    using that by (cases "j = k") simp_all
  then show ?thesis by (simp add: bits_le_def)
qed

lemma filter_hash_cong: "bits_le m m' \<Longrightarrow> filter_hash m' i d = filter_hash m i d"
  by (simp add: filter_hash_def bits_le_def)

lemma bits_le_usable: "bits_le m m' \<Longrightarrow> filter_usable m' = filter_usable m"
  by (simp add: bits_le_def filter_usable_def)

lemma filter_hash_inr:
  assumes "filter_usable m" and "flHashFuncs m \<noteq> 0"
  obtains idx where "filter_hash m i d = Inr idx" and "unat (drop_bit 3 idx) < length (flFilter m)"
proof -
  let ?n = "length (flFilter m)"
  let ?bits = "push_bit 3 (word_of_nat ?n) :: u32"
  have n: "0 < ?n" "?n < 2 ^ 29" using assms by (auto simp: filter_usable_def)
  have "unat (word_of_nat ?n :: u32) = ?n" using n(2) by (intro unat_of_nat_small) simp
  then have bits: "unat ?bits = ?n * 8" using n(2) by (simp only: unat_push_bit) simp
  with n have "?bits \<noteq> 0" by (metis unat_0 mult_is_0 neq0_conv zero_neq_numeral)
  then have h: "filter_hash m i d = Inr (MurmurHash3 (i * 0xfba4c795 + flTweak m) d mod ?bits)"
    by (simp add: filter_hash_def Let_def)
  have "unat (x mod ?bits) < ?n * 8" for x
    using bits n(1) by (simp only: unat_mod_distrib) simp
  then have "unat (drop_bit 3 (x mod ?bits)) < ?n" for x
    by (simp only: unat_drop_bit) (simp add: less_mult_imp_div_less)
  with h that show thesis by blast
qed

text \<open>The bit a hash value selects is set.\<close>

definition bit_set :: "filter_load \<Rightarrow> u32 \<Rightarrow> bool" where
  "bit_set m idx \<longleftrightarrow> flFilter m ! unat (drop_bit 3 idx) AND bit_mask idx \<noteq> 0"

lemma nat_less_pow8: "n < 8 \<Longrightarrow> (2 :: nat) ^ n mod 256 = 2 ^ n"
  using power_strict_increasing [of n 8 "2 :: nat"] by simp

lemma bit_mask_nz [simp]: "bit_mask idx \<noteq> 0"
proof -
  have "unat (idx AND 7) = unat idx mod 8"
    using unat_and_mask [of idx 3] by (simp add: mask_numeral)
  then have "unat (idx AND 7) < 8" by simp
  then have "unat (bit_mask idx) = 2 ^ unat (idx AND 7)"
    unfolding bit_mask_def by (simp only: unat_push_bit) (simp add: power_less_imp_less_exp nat_less_pow8)
  then show ?thesis by (metis power_not_zero unat_0 zero_neq_numeral)
qed

lemma and_nonzero_right: "x = y AND z \<Longrightarrow> x \<noteq> 0 \<Longrightarrow> z \<noteq> (0 :: u8)"
  by auto

lemma bit_set_mono:
  assumes "bits_le m m'" and "bit_set m idx" and "unat (drop_bit 3 idx) < length (flFilter m)"
  shows "bit_set m' idx"
proof -
  let ?k = "unat (drop_bit 3 idx)"
  have "flFilter m ! ?k AND flFilter m' ! ?k = flFilter m ! ?k"
    using assms(1,3) by (simp add: bits_le_def)
  then have "flFilter m ! ?k AND bit_mask idx = flFilter m ! ?k AND (flFilter m' ! ?k AND bit_mask idx)"
    by (simp add: and.assoc [symmetric])
  moreover have "flFilter m ! ?k AND bit_mask idx \<noteq> 0"
    using assms(2) by (simp add: bit_set_def)
  ultimately have "flFilter m' ! ?k AND bit_mask idx \<noteq> 0" by (rule and_nonzero_right)
  then show ?thesis by (simp add: bit_set_def)
qed

subsection \<open>Adding and matching\<close>

text \<open>The bit of hash function \<open>i\<close> of \<open>m\<close> for the data is set in \<open>m'\<close>.\<close>

definition hit :: "filter_load \<Rightarrow> filter_load \<Rightarrow> bytes \<Rightarrow> u32 \<Rightarrow> bool" where
  "hit m m' d i \<longleftrightarrow> (case filter_hash m i d of Inl _ \<Rightarrow> False | Inr idx \<Rightarrow> bit_set m' idx)"

lemma all_upto_step:
  "(\<forall>j < Suc n. P (i + of_nat j)) \<longleftrightarrow> P i \<and> (\<forall>j < n. P (i + 1 + of_nat j))" for i :: u32
  by (simp add: All_less_Suc2 add.assoc)

lemma hit_cong: "bits_le m m' \<Longrightarrow> hit m' = hit m"
  by (intro ext) (simp add: hit_def filter_hash_cong)

lemma matches_loop_iff:
  assumes "filter_usable m" and "flHashFuncs m \<noteq> 0"
  shows "matches_loop m d n i = Inr (\<forall>j < n. hit m m d (i + of_nat j))"
proof (induction n arbitrary: i)
  case 0
  then show ?case by simp
next
  case (Suc n)
  obtain idx where h: "filter_hash m i d = Inr idx" "unat (drop_bit 3 idx) < length (flFilter m)"
    using assms by (rule filter_hash_inr)
  then have "hit m m d i \<longleftrightarrow> flFilter m ! unat (drop_bit 3 idx) AND bit_mask idx \<noteq> 0"
    by (simp add: hit_def bit_set_def)
  then show ?case
    unfolding all_upto_step using h Suc [of "i + 1"] by simp
qed

lemma matches_loop_True:
  assumes "filter_usable m" and "flHashFuncs m \<noteq> 0"
  shows "matches_loop m d n i = Inr True \<longleftrightarrow> (\<forall>j < n. hit m m d (i + of_nat j))"
  by (simp only: matches_loop_iff [OF assms]) blast

lemma add_loop_ok:
  assumes "filter_usable m" and "flHashFuncs m \<noteq> 0"
  shows "\<exists>m'. add_loop m d n i = Inr m' \<and> bits_le m m' \<and> (\<forall>j < n. hit m m' d (i + of_nat j))"
  using assms
proof (induction n arbitrary: i m)
  case 0
  then show ?case by auto
next
  case (Suc n)
  obtain idx where h: "filter_hash m i d = Inr idx" and r: "unat (drop_bit 3 idx) < length (flFilter m)"
    using Suc.prems by (rule filter_hash_inr)
  let ?k = "unat (drop_bit 3 idx)"
  let ?m = "m\<lparr>flFilter := (flFilter m)[?k := flFilter m ! ?k OR bit_mask idx]\<rparr>"
  have le: "bits_le m ?m" by (rule bits_le_set)
  then have "filter_usable ?m" using Suc.prems(1) by (simp only: bits_le_usable)
  moreover have "flHashFuncs ?m \<noteq> 0" using Suc.prems(2) by simp
  ultimately obtain m' where m': "add_loop ?m d n (i + 1) = Inr m'" "bits_le ?m m'"
      "\<forall>j < n. hit ?m m' d (i + 1 + of_nat j)"
    using Suc.IH [of ?m "i + 1"] by blast
  have "bit_set ?m idx" using r by (simp add: bit_set_def or_and_nonzero)
  then have "bit_set m' idx" by (rule bit_set_mono [OF m'(2)]) (simp add: r)
  with h have "hit m m' d i" by (simp add: hit_def)
  moreover have "\<forall>j < n. hit m m' d (i + 1 + of_nat j)" using m'(3) by (simp only: hit_cong [OF le])
  ultimately have "\<forall>j < Suc n. hit m m' d (i + of_nat j)" unfolding all_upto_step by blast
  moreover have "add_loop m d (Suc n) i = Inr m'" using h r m'(1) by (simp add: Let_def)
  ultimately show ?case using bits_le_trans [OF le m'(2)] by blast
qed

lemma matches_loop_total: "filter_usable m \<Longrightarrow> \<exists>b. matches_loop m d (unat (flHashFuncs m)) 0 = Inr b"
  by (cases "flHashFuncs m = 0") (auto simp: matches_loop_iff)

lemma Add_usable:
  assumes "filter_usable m"
  shows "\<exists>m'. Add \<lparr>bfMsg = Some m\<rparr> d = Inr \<lparr>bfMsg = Some m'\<rparr> \<and> bits_le m m' \<and>
    matches_loop m' d (unat (flHashFuncs m')) 0 = Inr True"
proof (cases "flHashFuncs m = 0")
  case True
  then show ?thesis by (auto simp: Add_def)
next
  case False
  obtain m' where m': "add_loop m d (unat (flHashFuncs m)) 0 = Inr m'" "bits_le m m'"
      "\<forall>j < unat (flHashFuncs m). hit m m' d (0 + of_nat j)"
    using add_loop_ok [OF assms False] by blast
  have f: "flHashFuncs m' = flHashFuncs m" using m'(2) by (simp add: bits_le_def)
  have u: "filter_usable m'" using m'(2) assms by (simp only: bits_le_usable)
  have "matches_loop m' d (unat (flHashFuncs m')) 0 = Inr True"
    unfolding f using False m'(3) f by (subst matches_loop_True [OF u]) (simp_all only: hit_cong [OF m'(2)] not_False_eq_True)
  with m' show ?thesis by (simp add: Add_def)
qed

lemma matches_loop_mono:
  assumes "bits_le m m'" and u: "filter_usable m"
    and t: "matches_loop m d (unat (flHashFuncs m)) 0 = Inr True"
  shows "matches_loop m' d (unat (flHashFuncs m')) 0 = Inr True"
proof (cases "flHashFuncs m = 0")
  case True
  with assms(1) show ?thesis by (simp add: bits_le_def)
next
  case False
  have f: "flHashFuncs m' = flHashFuncs m" using assms(1) by (simp add: bits_le_def)
  have u': "filter_usable m'" using assms(1) u by (simp only: bits_le_usable)
  have "hit m m' d i" if "hit m m d i" for i
  proof -
    obtain idx where h: "filter_hash m i d = Inr idx" "unat (drop_bit 3 idx) < length (flFilter m)"
      using u False by (rule filter_hash_inr)
    with that bit_set_mono [OF assms(1)] show ?thesis by (simp add: hit_def)
  qed
  moreover have "\<forall>j < unat (flHashFuncs m). hit m m d (0 + of_nat j)"
    using t by (simp only: matches_loop_True [OF u False])
  ultimately have "\<forall>j < unat (flHashFuncs m). hit m m' d (0 + of_nat j)" by blast
  then show ?thesis unfolding f using False f by (subst matches_loop_True [OF u']) (simp_all only: hit_cong [OF assms(1)] not_False_eq_True)
qed

subsection \<open>The interface \<open>util.Filter\<close> and transaction filtering\<close>

record 'f filter_if =
  fMatches :: "'f \<Rightarrow> bytes \<Rightarrow> goerror + bool"
  fAdd :: "'f \<Rightarrow> bytes \<Rightarrow> goerror + 'f"

text \<open>The loop of \<open>MatchFilter\<close> over the outputs, \<open>i\<close> being the index of the next one.\<close>

fun match_outputs ::
  "'f filter_if \<Rightarrow> codec \<Rightarrow> uint256 \<Rightarrow> txoutput list \<Rightarrow> nat \<Rightarrow> bool \<Rightarrow> 'f \<Rightarrow> goerror + bool \<times> 'f" where
  "match_outputs F E hash [] i matched bf = Inr (matched, bf)"
| "match_outputs F E hash (out # outs) i matched bf =
     (case fMatches F bf (u168_bytes (outProgramHash out)) of
        Inl e \<Rightarrow> Inl e
      | Inr False \<Rightarrow> match_outputs F E hash outs (Suc i) matched bf
      | Inr True \<Rightarrow>
          (case fAdd F bf (outpoint_Bytes E (NewOutPoint hash (of_nat i))) of
             Inl e \<Rightarrow> Inl e
           | Inr bf' \<Rightarrow> match_outputs F E hash outs (Suc i) True bf'))"

fun match_inputs :: "'f filter_if \<Rightarrow> codec \<Rightarrow> txinput list \<Rightarrow> 'f \<Rightarrow> goerror + bool" where
  "match_inputs F E [] bf = Inr False"
| "match_inputs F E (i # ins) bf =
     (case fMatches F bf (outpoint_Bytes E (NewOutPoint (opTxID (inPrevious i)) (opIndex (inPrevious i)))) of
        Inl e \<Rightarrow> Inl e
      | Inr True \<Rightarrow> Inr True
      | Inr False \<Rightarrow> match_inputs F E ins bf)"

definition MatchFilter :: "'f filter_if \<Rightarrow> codec \<Rightarrow> txn \<Rightarrow> 'f \<Rightarrow> goerror + bool \<times> 'f" where
  "MatchFilter F E tx bf =
     (case fMatches F bf (hash_bytes (txHash tx)) of
        Inl e \<Rightarrow> Inl e
      | Inr matched \<Rightarrow>
          (case match_outputs F E (txHash tx) (txOutputs tx) 0 matched bf of
             Inl e \<Rightarrow> Inl e
           | Inr (matched', bf') \<Rightarrow>
               if matched' then Inr (True, bf')
               else (case match_inputs F E (txInputs tx) bf' of
                       Inl e \<Rightarrow> Inl e
                     | Inr b \<Rightarrow> Inr (b, bf'))))"

text \<open>The contract of a filter: it answers, what was added matches, and what matched goes
  on matching.\<close>

locale tx_filter =
  fixes F :: "'f filter_if"
    and inv :: "'f \<Rightarrow> bool"
  assumes matches_total: "inv f \<Longrightarrow> \<exists>b. fMatches F f d = Inr b"
    and add_total: "inv f \<Longrightarrow> \<exists>f'. fAdd F f d = Inr f' \<and> inv f'"
    and add_matches: "inv f \<Longrightarrow> fAdd F f d = Inr f' \<Longrightarrow> fMatches F f' d = Inr True"
    and add_keeps: "inv f \<Longrightarrow> fAdd F f d = Inr f' \<Longrightarrow> fMatches F f e = Inr True \<Longrightarrow> fMatches F f' e = Inr True"
begin

text \<open>\<open>f'\<close> is usable and matches whatever \<open>f\<close> matches.\<close>

definition extends :: "'f \<Rightarrow> 'f \<Rightarrow> bool" where
  "extends f f' \<longleftrightarrow> inv f' \<and> (\<forall>d. fMatches F f d = Inr True \<longrightarrow> fMatches F f' d = Inr True)"

lemma extends_refl: "inv f \<Longrightarrow> extends f f"
  by (simp add: extends_def)

lemma extends_trans: "extends a b \<Longrightarrow> extends b c \<Longrightarrow> extends a c"
  by (simp add: extends_def)

lemma add_extends:
  assumes "inv f"
  obtains f' where "fAdd F f d = Inr f'" and "extends f f'" and "fMatches F f' d = Inr True"
proof -
  obtain f' where f': "fAdd F f d = Inr f'" "inv f'" using add_total [OF assms] by blast
  have "extends f f'" using f' add_keeps [OF assms f'(1)] by (simp add: extends_def)
  with f' add_matches [OF assms f'(1)] that show thesis by blast
qed

lemma match_outputs_ok:
  assumes "inv bf"
  shows "\<exists>b bf'. match_outputs F E hash outs i m bf = Inr (b, bf') \<and> extends bf bf' \<and> (m \<longrightarrow> b)"
  using assms
proof (induction outs arbitrary: i m bf)
  case Nil
  then show ?case by (simp add: extends_refl)
next
  case (Cons out outs)
  let ?op = "outpoint_Bytes E (NewOutPoint hash (of_nat i))"
  obtain c where c: "fMatches F bf (u168_bytes (outProgramHash out)) = Inr c"
    using matches_total [OF Cons.prems] by blast
  show ?case
  proof (cases c)
    case False
    with Cons.IH [OF Cons.prems, of "Suc i" m] c show ?thesis by simp
  next
    case True
    obtain f where f: "fAdd F bf ?op = Inr f" "extends bf f"
      using Cons.prems by (rule add_extends)
    then have "inv f" by (simp add: extends_def)
    from Cons.IH [OF this, of "Suc i" True] f c True extends_trans [OF f(2)] show ?thesis by auto
  qed
qed

lemma match_outputs_hit:
  assumes "inv bf" and "match_outputs F E hash outs i m bf = Inr (b, bf')"
    and "j < length outs" and "fMatches F bf (u168_bytes (outProgramHash (outs ! j))) = Inr True"
  shows "b \<and> fMatches F bf' (outpoint_Bytes E (NewOutPoint hash (of_nat (i + j)))) = Inr True"
  using assms
proof (induction outs arbitrary: i j m bf)
  case Nil
  then show ?case by simp
next
  case (Cons out outs)
  let ?op = "outpoint_Bytes E (NewOutPoint hash (of_nat i))"
  obtain c where c: "fMatches F bf (u168_bytes (outProgramHash out)) = Inr c"
    using matches_total [OF Cons.prems(1)] by blast
  show ?case
  proof (cases c)
    case False
    with Cons.prems c obtain j' where j: "j = Suc j'" by (cases j) auto
    with False c Cons.prems(2) have "match_outputs F E hash outs (Suc i) m bf = Inr (b, bf')" by simp
    from Cons.IH [OF Cons.prems(1) this, of j'] Cons.prems(3,4) j show ?thesis by simp
  next
    case True
    obtain f where f: "fAdd F bf ?op = Inr f" "extends bf f" "fMatches F f ?op = Inr True"
      using Cons.prems(1) by (rule add_extends)
    then have inv: "inv f" by (simp add: extends_def)
    have r: "match_outputs F E hash outs (Suc i) True f = Inr (b, bf')"
      using Cons.prems(2) c True f(1) by simp
    with match_outputs_ok [OF inv, of E hash outs "Suc i" True] have e: "b" "extends f bf'" by auto
    show ?thesis
    proof (cases j)
      case 0
      with e f(3) show ?thesis by (simp add: extends_def)
    next
      case (Suc j')
      have "fMatches F f (u168_bytes (outProgramHash (outs ! j'))) = Inr True"
        using Cons.prems(4) f(2) Suc by (simp add: extends_def)
      from Cons.IH [OF inv r _ this] Cons.prems(3) Suc show ?thesis by simp
    qed
  qed
qed

lemma match_inputs_total: "inv bf \<Longrightarrow> \<exists>b. match_inputs F E ins bf = Inr b"
proof (induction ins)
  case Nil
  then show ?case by (intro exI) (rule match_inputs.simps)
next
  case (Cons i ins)
  obtain c where c: "fMatches F bf (outpoint_Bytes E (NewOutPoint (opTxID (inPrevious i)) (opIndex (inPrevious i)))) = Inr c"
    using matches_total [OF Cons.prems] by blast
  obtain b where "match_inputs F E ins bf = Inr b" using Cons by blast
  with c have "match_inputs F E (i # ins) bf = Inr (c \<or> b)" by (cases c) simp_all
  then show ?case by blast
qed

lemma match_inputs_hit:
  assumes "inv bf" and "i \<in> set ins" and "fMatches F bf (outpoint_Bytes E (inPrevious i)) = Inr True"
  shows "match_inputs F E ins bf = Inr True"
  using assms(2,3)
proof (induction ins)
  case Nil
  then show ?case by simp
next
  case (Cons a ins)
  obtain c where "fMatches F bf (outpoint_Bytes E (inPrevious a)) = Inr c"
    using matches_total [OF assms(1)] by blast
  moreover have "NewOutPoint (opTxID p) (opIndex p) = p" for p by (simp add: NewOutPoint_def)
  ultimately show ?case using Cons by (cases c) auto
qed

text \<open>A transaction paying to a watched address matches, and its paying outputs are
  watched from then on.\<close>

lemma MatchFilter_total:
  assumes "inv bf"
  shows "\<exists>b bf'. MatchFilter F E tx bf = Inr (b, bf') \<and> extends bf bf'"
proof -
  obtain m where m: "fMatches F bf (hash_bytes (txHash tx)) = Inr m"
    using matches_total [OF assms] by blast
  obtain b bf' where r: "match_outputs F E (txHash tx) (txOutputs tx) 0 m bf = Inr (b, bf')"
      "extends bf bf'"
    using match_outputs_ok [OF assms] by metis
  then obtain c where "match_inputs F E (txInputs tx) bf' = Inr c"
    using match_inputs_total [of bf' E "txInputs tx"] by (auto simp: extends_def)
  with m r show ?thesis by (cases b) (auto simp: MatchFilter_def)
qed

lemma MatchFilter_output:
  assumes "inv bf" and "j < length (txOutputs tx)"
    and "fMatches F bf (u168_bytes (outProgramHash (txOutputs tx ! j))) = Inr True"
  obtains bf' where "MatchFilter F E tx bf = Inr (True, bf')" and "extends bf bf'"
    and "fMatches F bf' (outpoint_Bytes E (NewOutPoint (txHash tx) (of_nat j))) = Inr True"
proof -
  obtain m where m: "fMatches F bf (hash_bytes (txHash tx)) = Inr m"
    using matches_total [OF assms(1)] by blast
  obtain b bf' where r: "match_outputs F E (txHash tx) (txOutputs tx) 0 m bf = Inr (b, bf')"
      "extends bf bf'"
    using match_outputs_ok [OF assms(1)] by metis
  have "b" "fMatches F bf' (outpoint_Bytes E (NewOutPoint (txHash tx) (of_nat j))) = Inr True"
    using match_outputs_hit [OF assms(1) r(1) assms(2,3)] by simp_all
  with m r that show thesis by (simp add: MatchFilter_def)
qed

lemma MatchFilter_input:
  assumes "inv bf" and "i \<in> set (txInputs tx)"
    and "fMatches F bf (outpoint_Bytes E (inPrevious i)) = Inr True"
  obtains bf' where "MatchFilter F E tx bf = Inr (True, bf')" and "extends bf bf'"
proof -
  obtain m where m: "fMatches F bf (hash_bytes (txHash tx)) = Inr m"
    using matches_total [OF assms(1)] by blast
  obtain b bf' where r: "match_outputs F E (txHash tx) (txOutputs tx) 0 m bf = Inr (b, bf')"
      "extends bf bf'"
    using match_outputs_ok [OF assms(1)] by metis
  then have "match_inputs F E (txInputs tx) bf' = Inr True"
    using assms(2,3) by (intro match_inputs_hit) (auto simp: extends_def)
  with m r that show thesis by (cases b) (auto simp: MatchFilter_def)
qed

text \<open>A transaction spending an output that paid to a watched address matches.\<close>

lemma spend_matches:
  assumes "inv bf" and "j < length (txOutputs tx)"
    and "fMatches F bf (u168_bytes (outProgramHash (txOutputs tx ! j))) = Inr True"
    and "i \<in> set (txInputs tx')" and "inPrevious i = NewOutPoint (txHash tx) (of_nat j)"
  shows "\<exists>bf1 bf2. MatchFilter F E tx bf = Inr (True, bf1) \<and> MatchFilter F E tx' bf1 = Inr (True, bf2)"
proof -
  obtain bf1 where 1: "MatchFilter F E tx bf = Inr (True, bf1)" "extends bf bf1"
      "fMatches F bf1 (outpoint_Bytes E (inPrevious i)) = Inr True"
    using MatchFilter_output [OF assms(1-3), of E] assms(5) by metis
  then have "inv bf1" by (simp add: extends_def)
  then obtain bf2 where "MatchFilter F E tx' bf1 = Inr (True, bf2)"
    using MatchFilter_input [OF _ assms(4) 1(3)] by blast
  with 1 show ?thesis by blast
qed

end

definition bloom_if :: "bfilter filter_if" where
  "bloom_if = \<lparr>fMatches = Matches, fAdd = Add\<rparr>"

lemma bloom_matches [simp]: "fMatches bloom_if = Matches"
  by (simp add: bloom_if_def)

lemma bloom_add [simp]: "fAdd bloom_if = Add"
  by (simp add: bloom_if_def)

interpretation bloom: tx_filter bloom_if bfilter_inv
proof unfold_locales
  fix f :: bfilter and d e f'
  assume "bfilter_inv f"
  then obtain m where f: "f = \<lparr>bfMsg = Some m\<rparr>" and u: "filter_usable m"
    by (cases f) (auto simp: bfilter_inv_def split: option.splits)
  obtain m' where a: "Add f d = Inr \<lparr>bfMsg = Some m'\<rparr>" "bits_le m m'"
      "matches_loop m' d (unat (flHashFuncs m')) 0 = Inr True"
    using Add_usable [OF u] f by blast
  show "\<exists>b. fMatches bloom_if f d = Inr b"
    using matches_loop_total [OF u] by (simp add: bloom_if_def Matches_def f)
  show "\<exists>f'. fAdd bloom_if f d = Inr f' \<and> bfilter_inv f'"
    using a(1) u bits_le_usable [OF a(2)] by (simp add: bloom_if_def bfilter_inv_def)
  show "fMatches bloom_if f' d = Inr True" if "fAdd bloom_if f d = Inr f'"
    using that a by (auto simp: bloom_if_def Matches_def)
  show "fMatches bloom_if f' e = Inr True"
    if "fAdd bloom_if f d = Inr f'" and "fMatches bloom_if f e = Inr True"
    using that a(1) matches_loop_mono [OF a(2) u] by (auto simp: bloom_if_def Matches_def f)
qed

subsection \<open>Properties\<close>

lemma minUint32_le: "unat (minUint32 a b) \<le> unat b"
  by (simp add: minUint32_def word_less_nat_alt)

lemma NewFilter_size:
  "bfMsg (NewFilter calcLen calcFuncs elements tweak fprate txTypes) = Some m \<Longrightarrow>
   length (flFilter m) \<le> 36000 \<and> unat (flHashFuncs m) \<le> 50"
  using div_le_mono [OF minUint32_le [of _ "MaxFilterLoadFilterSize * 8"], of _ 8]
    minUint32_le [of _ MaxFilterLoadHashFuncs]
  by (auto simp: NewFilter_def Let_def unat_div MaxFilterLoadFilterSize_def MaxFilterLoadHashFuncs_def)

text \<open>A new filter respects the limits of the protocol whatever the two floating point
  computations return, and is usable (no query or addition panics) as soon as the computed
  size is at least one byte; a filter of size 0 with a hash function divides by zero.\<close>

theorem NewFilter_bounds:
  assumes "bfMsg (NewFilter calcLen calcFuncs elements tweak fprate txTypes) = Some m"
  shows "length (flFilter m) \<le> 36000 \<and> unat (flHashFuncs m) \<le> 50 \<and>
    (flFilter m \<noteq> [] \<longrightarrow> (\<forall>d. \<exists>b. Matches \<lparr>bfMsg = Some m\<rparr> d = Inr b) \<and> (\<forall>d. \<exists>f. Add \<lparr>bfMsg = Some m\<rparr> d = Inr f)) \<and>
    (flFilter m = [] \<and> flHashFuncs m \<noteq> 0 \<longrightarrow>
       (\<forall>d. Matches \<lparr>bfMsg = Some m\<rparr> d = Inl (Panic ''integer divide by zero'')))"
proof -
  have s: "length (flFilter m) \<le> 36000" "unat (flHashFuncs m) \<le> 50"
    using NewFilter_size [OF assms] by simp_all
  have u: "filter_usable m" if "flFilter m \<noteq> []"
    using that s by (simp add: filter_usable_def)
  have "Matches \<lparr>bfMsg = Some m\<rparr> d = Inl (Panic ''integer divide by zero'')"
    if "flFilter m = []" "flHashFuncs m \<noteq> 0" for d
  proof -
    obtain n where "unat (flHashFuncs m) = Suc n"
      using \<open>flHashFuncs m \<noteq> 0\<close> by (metis not0_implies_Suc unat_eq_zero)
    with \<open>flFilter m = []\<close> show ?thesis by (simp add: Matches_def filter_hash_def)
  qed
  with s u show ?thesis
    using bloom.matches_total [of "\<lparr>bfMsg = Some m\<rparr>"] bloom.add_total [of "\<lparr>bfMsg = Some m\<rparr>"]
    by (simp add: bfilter_inv_def) blast
qed

definition sample_filter :: bfilter where
  "sample_filter = \<lparr>bfMsg = Some \<lparr>flFilter = [0, 0], flHashFuncs = 2, flTweak = 5, flTxTypes = []\<rparr>\<rparr>"

lemma replicate_two: "replicate 2 x = [x, x]"
  by (simp add: numeral_2_eq_2)

lemma NewFilter_bounds_witness:
  "\<forall>d. \<exists>b. Matches \<lparr>bfMsg = Some \<lparr>flFilter = [0, 0], flHashFuncs = 2, flTweak = 5, flTxTypes = []\<rparr>\<rparr> d = Inr b"
proof -
  have "bfMsg (NewFilter (\<lambda>_ _. 16) (\<lambda>_ _. 2) 10 5 (1 / 2 :: rat) []) =
      Some \<lparr>flFilter = [0, 0], flHashFuncs = 2, flTweak = 5, flTxTypes = []\<rparr>"
    by (simp add: NewFilter_def minUint32_def MaxFilterLoadFilterSize_def MaxFilterLoadHashFuncs_def
        Let_def replicate_two)
  from NewFilter_bounds [OF this] show ?thesis by simp
qed

lemma adds_match:
  "bfilter_inv f \<Longrightarrow>
   \<exists>f'. foldl (\<lambda>r x. case r of Inl e \<Rightarrow> Inl e | Inr g \<Rightarrow> Add g x) (Inr f) xs = Inr f' \<and> bloom.extends f f' \<and>
     (\<forall>x \<in> set xs. Matches f' x = Inr True)"
proof (induction xs arbitrary: f)
  case Nil
  then show ?case by (simp add: bloom.extends_refl)
next
  case (Cons x xs)
  let ?add = "\<lambda>r x. case r of Inl e \<Rightarrow> Inl e | Inr g \<Rightarrow> Add g x"
  obtain g where g: "Add f x = Inr g" "bloom.extends f g" "Matches g x = Inr True"
    using bloom.add_extends [OF Cons.prems, of x] by auto
  then have "bfilter_inv g" by (simp add: bloom.extends_def)
  from Cons.IH [OF this] obtain f' where f': "foldl ?add (Inr g) xs = Inr f'" "bloom.extends g f'"
      "\<forall>x \<in> set xs. Matches f' x = Inr True" by blast
  with g have "Matches f' x = Inr True" using bloom_matches by (simp add: bloom.extends_def)
  with f' g bloom.extends_trans [OF g(2) f'(2)] show ?case by simp
qed

text \<open>C4: A bloom filter has no false negatives: data added to a usable filter matches, and
  keeps matching through any later additions.\<close>

theorem Filter_no_false_negatives:
  assumes "bfilter_inv f" and "d \<in> set ds"
    and "foldl (\<lambda>r x. case r of Inl e \<Rightarrow> Inl e | Inr g \<Rightarrow> Add g x) (Inr f) ds = Inr f'"
  shows "Matches f' d = Inr True"
  using adds_match [OF assms(1), of ds] assms(2,3) by fastforce

lemma Filter_no_false_negatives_witness:
  "\<exists>f'. Add sample_filter [1, 2, 3] = Inr f' \<and> Matches f' [1, 2, 3] = Inr True"
proof -
  have i: "bfilter_inv sample_filter" by (simp add: bfilter_inv_def filter_usable_def sample_filter_def)
  obtain f' where "Add sample_filter [1, 2, 3] = Inr f'"
    using bloom.add_total [OF i] by auto
  with Filter_no_false_negatives [OF i, of "[1, 2, 3]" "[[1, 2, 3]]" f'] show ?thesis by simp
qed

text \<open>A wallet that loads the hash of its address does not miss its money: with a usable
  bloom filter, a transaction with an output to an address in the filter matches, and so does
  every later transaction that spends that output (its outpoint has been added).\<close>

theorem MatchFilter_spend:
  assumes "bfilter_inv f" and "j < length (txOutputs tx)"
    and "Matches f (u168_bytes (outProgramHash (txOutputs tx ! j))) = Inr True"
    and "i \<in> set (txInputs tx')" and "inPrevious i = NewOutPoint (txHash tx) (of_nat j)"
  shows "\<exists>f1 f2. MatchFilter bloom_if E tx f = Inr (True, f1) \<and> MatchFilter bloom_if E tx' f1 = Inr (True, f2)"
  using assms by (intro bloom.spend_matches) simp_all

definition sample_out :: txoutput where
  "sample_out = \<lparr>outAssetID = 0, outProgramHash = 7, outValue = 1, outOutputLock = 0,
     outIsReturnDeposit = False, outReturn = None\<rparr>"

definition sample_pay :: txn where
  "sample_pay = \<lparr>txHash = 1, txType = TransferAsset, txInputs = [], txOutputs = [sample_out], txPayload = POther\<rparr>"

definition sample_spend :: txn where
  "sample_spend = \<lparr>txHash = 2, txType = TransferAsset,
     txInputs = [\<lparr>inPrevious = NewOutPoint 1 0, inSequence = 0\<rparr>], txOutputs = [], txPayload = POther\<rparr>"

lemma MatchFilter_spend_witness:
  "\<exists>f f1 f2. Add sample_filter (u168_bytes 7) = Inr f \<and>
     MatchFilter bloom_if codec0 sample_pay f = Inr (True, f1) \<and>
     MatchFilter bloom_if codec0 sample_spend f1 = Inr (True, f2)"
proof -
  have "bfilter_inv sample_filter" by (simp add: bfilter_inv_def filter_usable_def sample_filter_def)
  then obtain f where f: "Add sample_filter (u168_bytes 7) = Inr f" "bfilter_inv f"
      "Matches f (u168_bytes 7) = Inr True"
    using bloom.add_extends [of sample_filter "u168_bytes 7"] by (auto simp: bloom.extends_def)
  with MatchFilter_spend [of f 0 sample_pay "\<lparr>inPrevious = NewOutPoint 1 0, inSequence = 0\<rparr>" sample_spend codec0]
  show ?thesis by (simp add: sample_pay_def sample_spend_def sample_out_def)
qed

end
