(* ===== verification/MerkleTree.thy ===== *)
theory MerkleTree
  imports BloomFilter
begin

text \<open>
  The tree arithmetic of \<open>bloom/merkleblock.go\<close>: depth, the numbering of nodes by position,
  the dead zone, the parent hash. Positions are 32-bit words; with \<open>n\<close> leaves and depth
  \<open>D\<close>, node \<open>i\<close> of level \<open>k\<close> (leaves are level 0) is at position
  \<open>2 ^ (D + 1) - 2 ^ (D + 1 - k) + i\<close>. The depth loop does not end for more than
  \<open>2 ^ 31\<close> leaves, so what depends on it has option results, \<open>None\<close> for not
  returning.
\<close>

subsection \<open>The code\<close>

partial_function (option) treeDepth_from :: "u32 \<Rightarrow> u32 \<Rightarrow> u32 option" where
  "treeDepth_from n e = (if push_bit (unat e) 1 < n then treeDepth_from n (e + 1) else Some e)"

definition treeDepth :: "u32 \<Rightarrow> u32 option" where
  "treeDepth n = treeDepth_from n 0"

definition nextPowerOfTwo :: "u32 \<Rightarrow> u32 option" where
  "nextPowerOfTwo n = (case treeDepth n of None \<Rightarrow> None | Some e \<Rightarrow> Some (push_bit (unat e) 1))"

partial_function (option) deadZone_loop :: "u32 \<Rightarrow> u32 \<Rightarrow> u32 \<Rightarrow> u32 \<Rightarrow> bool option" where
  "deadZone_loop msb pos h lst =
     (if h \<le> pos then deadZone_loop msb pos (drop_bit 1 h OR msb) (drop_bit 1 lst OR msb)
      else Some (lst < pos))"

definition inDeadZone :: "u32 \<Rightarrow> u32 \<Rightarrow> bool option" where
  "inDeadZone pos size' =
     (case nextPowerOfTwo size' of
        None \<Rightarrow> None
      | Some msb \<Rightarrow>
          let lst = size' - 1
          in if push_bit 1 msb - 2 < pos then Some True
             else deadZone_loop msb pos msb lst)"

definition MakeMerkleParent :: "codec \<Rightarrow> uint256 option \<Rightarrow> uint256 option \<Rightarrow> goerror + uint256" where
  "MakeMerkleParent E left right =
     (if left \<noteq> None \<and> right \<noteq> None \<and> left = right then Inl (Failure ''DUP HASH CRASH'')
      else case left of
        None \<Rightarrow> Inl (Failure ''Left child is nil'')
      | Some l \<Rightarrow>
          let r = (case right of None \<Rightarrow> l | Some r \<Rightarrow> r)
          in Inr (Sha256D E (hash_bytes l @ hash_bytes r)))"

definition HashMerkleBranches :: "codec \<Rightarrow> uint256 \<Rightarrow> uint256 \<Rightarrow> uint256" where
  "HashMerkleBranches E left right = Sha256D E (hash_bytes left @ hash_bytes right)"

lemma MakeMerkleParent_simps [simp]:
  "MakeMerkleParent E None r = Inl (Failure ''Left child is nil'')"
  "MakeMerkleParent E (Some l) None = Inr (HashMerkleBranches E l l)"
  "MakeMerkleParent E (Some l) (Some h) =
     (if l = h then Inl (Failure ''DUP HASH CRASH'') else Inr (HashMerkleBranches E l h))"
  by (simp_all add: MakeMerkleParent_def HashMerkleBranches_def)

subsection \<open>Depth\<close>

lemma nat_pow_mod32: "e < 32 \<Longrightarrow> (2 :: nat) ^ e mod 4294967296 = 2 ^ e"
  using power_strict_increasing [of e 32 "2 :: nat"] by simp

lemma unat_one_shift: "e < 32 \<Longrightarrow> unat (push_bit e 1 :: u32) = 2 ^ e"
  by (simp only: unat_push_bit) (simp add: nat_pow_mod32)

text \<open>\<open>D\<close> is the depth of a tree with \<open>n\<close> leaves.\<close>

definition is_depth :: "nat \<Rightarrow> nat \<Rightarrow> bool" where
  "is_depth n D \<longleftrightarrow> n \<le> 2 ^ D \<and> (\<forall>d < D. 2 ^ d < n)"

lemma ex_depth: "\<exists>D. is_depth n D"
proof -
  have "n \<le> 2 ^ n" using less_exp [of n] by simp
  then have "n \<le> 2 ^ (LEAST D. n \<le> 2 ^ D)" by (rule LeastI)
  moreover have "2 ^ d < n" if "d < (LEAST D. n \<le> 2 ^ D)" for d
    using not_less_Least [OF that] by simp
  ultimately show ?thesis unfolding is_depth_def by blast
qed

lemma depth_le_31: "is_depth n D \<Longrightarrow> n \<le> 2 ^ 31 \<Longrightarrow> D \<le> 31"
  unfolding is_depth_def by (meson leD le_less_linear)

lemma is_depth_unique: "is_depth n D \<Longrightarrow> is_depth n D' \<Longrightarrow> D = D'"
  unfolding is_depth_def by (metis linorder_neqE_nat not_le)

lemma treeDepth_from_ok:
  "is_depth (unat n) D \<Longrightarrow> D \<le> 31 \<Longrightarrow> unat e \<le> D \<Longrightarrow> treeDepth_from n e = Some (word_of_nat D)"
proof (induction "D - unat e" arbitrary: e)
  case 0
  then have e: "unat e = D" by simp
  then have "\<not> push_bit (unat e) 1 < n"
    using 0 by (simp add: word_less_nat_alt unat_one_shift is_depth_def del: push_bit_of_1)
  moreover have "e = word_of_nat D" by (simp flip: e)
  ultimately show ?case by (subst treeDepth_from.simps) simp
next
  case (Suc x)
  then have e: "unat e < D" by simp
  then have lt: "push_bit (unat e) 1 < n"
    using Suc by (simp add: word_less_nat_alt unat_one_shift is_depth_def del: push_bit_of_1)
  have "unat (e + 1) = Suc (unat e)" using e Suc.prems(2) by (simp add: unat_word_ariths)
  with Suc have "treeDepth_from n (e + 1) = Some (word_of_nat D)" by simp
  with lt show ?case by (subst treeDepth_from.simps) simp
qed

lemma treeDepth_ok:
  "is_depth (unat n) D \<Longrightarrow> unat n \<le> 2 ^ 31 \<Longrightarrow> treeDepth n = Some (word_of_nat D)"
  unfolding treeDepth_def by (intro treeDepth_from_ok depth_le_31) simp_all

lemma nextPowerOfTwo_ok:
  assumes "is_depth (unat n) D" and "unat n \<le> 2 ^ 31"
  shows "nextPowerOfTwo n = Some (push_bit D 1)"
proof -
  have "unat (word_of_nat D :: u32) = D"
    using depth_le_31 [OF assms] by (intro unat_of_nat_small) simp
  then show ?thesis by (simp add: nextPowerOfTwo_def treeDepth_ok [OF assms] del: push_bit_of_1)
qed

subsection \<open>Positions\<close>

definition npos :: "nat \<Rightarrow> nat \<Rightarrow> nat \<Rightarrow> nat" where
  "npos D k i = 2 ^ (D + 1) - 2 ^ (D + 1 - k) + i"

definition node :: "nat \<Rightarrow> nat \<Rightarrow> nat \<Rightarrow> u32" where
  "node D k i = word_of_nat (npos D k i)"

text \<open>A node of the full tree of depth \<open>D\<close>.\<close>

definition in_tree :: "nat \<Rightarrow> nat \<Rightarrow> nat \<Rightarrow> bool" where
  "in_tree D k i \<longleftrightarrow> D \<le> 31 \<and> k \<le> D \<and> i < 2 ^ (D - k)"

lemma npos_0 [simp]: "npos D 0 i = i"
  by (simp add: npos_def)

lemma npos_eq: "k \<le> D \<Longrightarrow> npos D k i + 2 * 2 ^ (D - k) = 2 * 2 ^ D + i"
proof -
  assume "k \<le> D"
  then have a: "2 ^ (D + 1 - k) = 2 * (2 :: nat) ^ (D - k)" by (simp add: Suc_diff_le)
  have b: "2 ^ (D + 1) = 2 * (2 :: nat) ^ D" by simp
  have "(2 :: nat) ^ (D - k) \<le> 2 ^ D" by (rule power_increasing) simp_all
  then show ?thesis unfolding npos_def a b by linarith
qed

lemma npos_Suc: "k < D \<Longrightarrow> npos D k i + 4 * 2 ^ (D - Suc k) = 2 * 2 ^ D + i"
proof -
  assume k: "k < D"
  then have "(2 :: nat) ^ (D - k) = 2 * 2 ^ (D - Suc k)" by (metis Suc_diff_Suc power_Suc)
  with npos_eq [of k D i] k show ?thesis by linarith
qed

lemma npos_less: "in_tree D k i \<Longrightarrow> npos D k i + 1 < 2 * 2 ^ D"
proof -
  assume "in_tree D k i"
  then have "k \<le> D" and "i < 2 ^ (D - k)" by (auto simp: in_tree_def)
  moreover have "0 < (2 :: nat) ^ (D - k)" by simp
  ultimately show ?thesis using npos_eq [OF \<open>k \<le> D\<close>, of i] by linarith
qed

lemma two_pow_bound: "D \<le> 31 \<Longrightarrow> 2 * 2 ^ D \<le> (2 :: nat) ^ 32"
  using power_increasing [of D 31 "2 :: nat"] by simp

lemma unat_node: "in_tree D k i \<Longrightarrow> unat (node D k i) = npos D k i"
  unfolding node_def
  by (rule unat_of_nat_small) (use npos_less [of D k i] two_pow_bound [of D] in \<open>auto simp: in_tree_def\<close>)

lemma npos_low: "k \<le> D \<Longrightarrow> i < 2 ^ (D - k) \<Longrightarrow> npos D k i < 2 ^ D \<longleftrightarrow> k = 0"
proof (cases k)
  case 0
  then show "k \<le> D \<Longrightarrow> i < 2 ^ (D - k) \<Longrightarrow> npos D k i < 2 ^ D \<longleftrightarrow> k = 0" by simp
next
  case (Suc j)
  assume "k \<le> D" and i: "i < 2 ^ (D - k)"
  have "2 * (2 :: nat) ^ (D - k) \<le> 2 ^ D"
    using Suc \<open>k \<le> D\<close> power_increasing [of "Suc (D - k)" D "2 :: nat"] by simp
  with npos_eq [OF \<open>k \<le> D\<close>, of i] have "2 ^ D \<le> npos D k i" by linarith
  with Suc show ?thesis by simp
qed

lemma npos_even: "k \<le> D \<Longrightarrow> even (npos D k i) \<longleftrightarrow> even i"
proof -
  assume "k \<le> D"
  from npos_eq [OF this, of i] have "even (npos D k i + 2 * 2 ^ (D - k)) = even (2 * 2 ^ D + i)" by simp
  then show ?thesis by simp
qed

lemma half_parent: "a + 4 * p = 2 * m + i \<Longrightarrow> b + 2 * p = 2 * m + i div 2 \<Longrightarrow> a div 2 + m = (b :: nat)"
  by linarith

lemma double_descend:
  "a + 4 * p = 2 * m + 2 * i \<Longrightarrow> b + 2 * p = 2 * m + i \<Longrightarrow> 2 * p \<le> m \<Longrightarrow> 2 * (b - m) = (a :: nat)"
  by linarith

lemma npos_parent: "k < D \<Longrightarrow> npos D k i div 2 + 2 ^ D = npos D (Suc k) (i div 2)"
proof -
  assume k: "k < D"
  have "npos D k i + 4 * 2 ^ (D - Suc k) = 2 * 2 ^ D + i" using k by (rule npos_Suc)
  moreover have "npos D (Suc k) (i div 2) + 2 * 2 ^ (D - Suc k) = 2 * 2 ^ D + i div 2"
    using k by (intro npos_eq) simp
  ultimately show ?thesis by (rule half_parent)
qed

lemma npos_descend: "k < D \<Longrightarrow> 2 * (npos D (Suc k) i - 2 ^ D) = npos D k (2 * i)"
proof -
  assume k: "k < D"
  have a: "npos D k (2 * i) + 4 * 2 ^ (D - Suc k) = 2 * 2 ^ D + 2 * i" using k by (rule npos_Suc)
  have b: "npos D (Suc k) i + 2 * 2 ^ (D - Suc k) = 2 * 2 ^ D + i"
    using k by (intro npos_eq) simp
  have "2 * (2 :: nat) ^ (D - Suc k) \<le> 2 ^ D"
    using k power_increasing [of "Suc (D - Suc k)" D "2 :: nat"] by simp
  with a b show ?thesis by (rule double_descend)
qed

lemma node_eqI: "in_tree D k i \<Longrightarrow> unat w = npos D k i \<Longrightarrow> w = node D k i"
  by (simp only: word_unat_eq_iff unat_node)

lemma unat_msb: "D \<le> 31 \<Longrightarrow> unat (push_bit D 1 :: u32) = 2 ^ D"
  by (rule unat_one_shift) simp

lemma unat_node_next: "in_tree D k i \<Longrightarrow> unat (word_of_nat (npos D k i + 1) :: u32) = npos D k i + 1"
  by (rule unat_of_nat_small) (use npos_less [of D k i] two_pow_bound [of D] in \<open>auto simp: in_tree_def\<close>)

text \<open>The moves of the traversal. Going right of an even node stays a valid word even past the
  end of its level.\<close>

lemma node_Suc: "node D k (Suc i) = word_of_nat (npos D k i + 1)"
  by (simp add: node_def npos_def)

lemma node_or_one:
  assumes "in_tree D k i"
  shows "node D k i OR 1 = (if even i then node D k (Suc i) else node D k i)"
proof -
  have k: "k \<le> D" using assms by (simp add: in_tree_def)
  have "unat (node D k i OR 1) = (if even i then npos D k i + 1 else npos D k i)"
    by (simp only: unsigned_or_eq unat_1 unat_node [OF assms] nat_or_one npos_even [OF k])
  then show ?thesis
    by (simp only: word_unat_eq_iff unat_node [OF assms] unat_node_next [OF assms] node_Suc split: if_split) simp
qed

lemma in_tree_parent: "in_tree D k i \<Longrightarrow> k < D \<Longrightarrow> in_tree D (Suc k) (i div 2)"
proof -
  assume "in_tree D k i" and "k < D"
  moreover from this have "(2 :: nat) ^ (D - k) = 2 ^ (D - Suc k) * 2"
    by (metis Suc_diff_Suc mult.commute power_Suc)
  ultimately show ?thesis by (auto simp: in_tree_def less_mult_imp_div_less)
qed

lemma in_tree_child: "in_tree D (Suc k) i \<Longrightarrow> in_tree D k (2 * i) \<and> in_tree D k (Suc (2 * i))"
proof -
  assume t: "in_tree D (Suc k) i"
  then have "(2 :: nat) ^ (D - k) = 2 * 2 ^ (D - Suc k)"
    by (metis Suc_diff_Suc Suc_le_eq in_tree_def power_Suc)
  with t show ?thesis by (auto simp: in_tree_def)
qed

lemma node_parent:
  assumes "in_tree D k i" and "k < D"
  shows "drop_bit 1 (node D k i) OR push_bit D 1 = node D (Suc k) (i div 2)"
proof (rule node_eqI [OF in_tree_parent [OF assms]])
  have D: "D \<le> 31" using assms by (simp add: in_tree_def)
  have "npos D k i div 2 < 2 ^ D" using npos_less [OF assms(1)] by linarith
  then have "unat (drop_bit 1 (node D k i) OR push_bit D 1) = npos D k i div 2 + 2 ^ D"
    by (simp only: unsigned_or_eq unat_drop_bit unat_node [OF assms(1)] unat_msb [OF D] power_one_right nat_or_pow)
  then show "unat (drop_bit 1 (node D k i) OR push_bit D 1) = npos D (Suc k) (i div 2)"
    by (simp only: npos_parent [OF assms(2)])
qed

lemma node_upper:
  assumes "in_tree D k i"
  shows "node D k i AND push_bit D 1 = 0 \<longleftrightarrow> k = 0"
proof -
  have D: "D \<le> 31" "k \<le> D" "i < 2 ^ (D - k)" using assms by (auto simp: in_tree_def)
  have "npos D k i < 2 * 2 ^ D" using npos_less [OF assms] by simp
  then have "unat (node D k i AND push_bit D 1) = 0 \<longleftrightarrow> npos D k i < 2 ^ D"
    by (simp only: unsigned_and_eq unat_node [OF assms] unat_msb [OF D(1)] nat_and_pow)
  then show ?thesis by (simp only: npos_low [OF D(2,3)] unat_eq_zero)
qed

lemma node_descend:
  assumes "in_tree D (Suc k) i"
  shows "push_bit 1 (node D (Suc k) i XOR push_bit D 1) = node D k (2 * i)"
proof (rule node_eqI)
  show c: "in_tree D k (2 * i)" using in_tree_child [OF assms] by simp
  have D: "D \<le> 31" "k < D" "Suc k \<le> D" "i < 2 ^ (D - Suc k)" using assms by (auto simp: in_tree_def)
  have "npos D (Suc k) i < 2 * 2 ^ D" using npos_less [OF assms] by simp
  moreover have "2 ^ D \<le> npos D (Suc k) i" using npos_low [OF D(3,4)] by linarith
  ultimately have "unat (node D (Suc k) i XOR push_bit D 1) = npos D (Suc k) i - 2 ^ D"
    by (simp only: unsigned_xor_eq unat_node [OF assms] unat_msb [OF D(1)] nat_xor_pow)
  then have "unat (push_bit 1 (node D (Suc k) i XOR push_bit D 1)) = 2 * (npos D (Suc k) i - 2 ^ D) mod 2 ^ 32"
    by (simp only: unat_push_bit) (simp add: mult.commute)
  also have "\<dots> = npos D k (2 * i) mod 2 ^ 32" by (simp only: npos_descend [OF D(2)])
  also have "\<dots> = npos D k (2 * i)"
    using npos_less [OF c] two_pow_bound [OF D(1)] by (intro mod_less) linarith
  finally show "unat (push_bit 1 (node D (Suc k) i XOR push_bit D 1)) = npos D k (2 * i)" .
qed

subsection \<open>The dead zone\<close>

lemma level_start: "j < k \<Longrightarrow> k \<le> D \<Longrightarrow> npos D (Suc j) 0 \<le> npos D k i"
proof -
  assume "j < k" and "k \<le> D"
  then have "(2 :: nat) ^ (D + 1 - k) \<le> 2 ^ (D + 1 - Suc j)" by (intro power_increasing) auto
  then show ?thesis unfolding npos_def by linarith
qed

lemma level_end: "k \<le> D \<Longrightarrow> i < 2 ^ (D - k) \<Longrightarrow> npos D k i < npos D (Suc k) 0"
proof -
  assume k: "k \<le> D" and i: "i < 2 ^ (D - k)"
  have "npos D (Suc k) 0 = 2 * 2 ^ D - 2 ^ (D - k)" by (simp add: npos_def)
  with npos_eq [OF k, of i] i show ?thesis by linarith
qed

lemma start_less: "npos D (Suc j) 0 < 2 * 2 ^ D"
  by (simp add: npos_def)

lemma unat_start: "D \<le> 31 \<Longrightarrow> unat (node D (Suc j) 0) = npos D (Suc j) 0"
  unfolding node_def
  by (rule unat_of_nat_small) (use start_less [of D j] two_pow_bound [of D] in auto)

lemma start_parent:
  assumes "D \<le> 31" and "j < D"
  shows "drop_bit 1 (node D (Suc j) 0) OR push_bit D 1 = node D (Suc (Suc j)) 0"
proof -
  have e: "npos D (Suc j) 0 = 2 * 2 ^ D - 2 * 2 ^ (D - Suc j)"
    using assms(2) by (simp add: npos_def) (metis Suc_diff_Suc power_Suc)
  have e': "npos D (Suc (Suc j)) 0 = 2 * 2 ^ D - 2 ^ (D - Suc j)" by (simp add: npos_def)
  have "(2 :: nat) ^ (D - Suc j) \<le> 2 ^ D" "0 < (2 :: nat) ^ (D - Suc j)"
    by (auto intro: power_increasing)
  with e e' have "npos D (Suc j) 0 div 2 < 2 ^ D" "npos D (Suc j) 0 div 2 + 2 ^ D = npos D (Suc (Suc j)) 0"
    by linarith+
  then show ?thesis
    by (simp only: word_unat_eq_iff unsigned_or_eq unat_drop_bit unat_start [OF assms(1)] unat_msb [OF assms(1)]
        power_one_right nat_or_pow)
qed

lemma last_in_tree:
  assumes "is_depth n D" and "0 < n" and "n \<le> 2 ^ 31" and "k \<le> D"
  shows "in_tree D k ((n - 1) div 2 ^ k)"
proof -
  have "n - 1 < 2 ^ (D - k) * 2 ^ k"
    using assms unfolding is_depth_def power_add [symmetric] by (elim conjE) simp
  then have "(n - 1) div 2 ^ k < 2 ^ (D - k)" by (rule less_mult_imp_div_less)
  with depth_le_31 [OF assms(1,3)] assms(4) show ?thesis by (simp add: in_tree_def)
qed

lemma deadZone_loop_ok:
  assumes n: "is_depth n D" "0 < n" "n \<le> 2 ^ 31" and t: "in_tree D k i" and "j \<le> k"
  shows "deadZone_loop (push_bit D 1) (node D k i) (node D (Suc j) 0) (node D j ((n - 1) div 2 ^ j)) =
    Some ((n - 1) div 2 ^ k < i)"
  using assms(5)
proof (induction "k - j" arbitrary: j)
  case 0
  then have j: "j = k" by simp
  have D: "D \<le> 31" "k \<le> D" "i < 2 ^ (D - k)" using t by (auto simp: in_tree_def)
  have "\<not> node D (Suc k) 0 \<le> node D k i"
    using level_end [OF D(2,3)] by (simp add: word_le_nat_alt unat_node [OF t] unat_start [OF D(1)])
  moreover have "node D k ((n - 1) div 2 ^ k) < node D k i \<longleftrightarrow> (n - 1) div 2 ^ k < i"
    by (simp only: word_less_nat_alt unat_node [OF t] unat_node [OF last_in_tree [OF n D(2)]])
      (simp add: npos_def)
  ultimately show ?case unfolding j by (subst deadZone_loop.simps) simp
next
  case (Suc x)
  then have jk: "j < k" by simp
  have D: "D \<le> 31" "k \<le> D" using t by (auto simp: in_tree_def)
  with jk have jD: "j < D" "j \<le> D" by simp_all
  have "node D (Suc j) 0 \<le> node D k i"
    using level_start [OF jk D(2)] by (simp add: word_le_nat_alt unat_node [OF t] unat_start [OF D(1)])
  moreover have "drop_bit 1 (node D j ((n - 1) div 2 ^ j)) OR push_bit D 1 =
      node D (Suc j) ((n - 1) div 2 ^ Suc j)"
    by (simp only: node_parent [OF last_in_tree [OF n jD(2)] jD(1)] power_Suc2 div_mult2_eq)
  moreover have "deadZone_loop (push_bit D 1) (node D k i) (node D (Suc (Suc j)) 0)
      (node D (Suc j) ((n - 1) div 2 ^ Suc j)) = Some ((n - 1) div 2 ^ k < i)"
    using Suc by (intro Suc.hyps(1)) simp_all
  ultimately show ?case
    by (subst deadZone_loop.simps) (simp only: if_True start_parent [OF D(1) jD(1)])
qed

lemma unat_root: "D \<le> 31 \<Longrightarrow> unat (push_bit 1 (push_bit D 1) - 2 :: u32) = 2 * 2 ^ D - 2"
proof -
  assume D: "D \<le> 31"
  show ?thesis
  proof (cases "D = 31")
    case True
    then show ?thesis by simp
  next
    case False
    with D have "(2 :: nat) * 2 ^ D \<le> 2 ^ 31" using power_increasing [of "Suc D" 31 "2 :: nat"] by simp
    then have "unat (push_bit 1 (push_bit D 1) :: u32) = 2 * 2 ^ D"
      by (simp only: unat_push_bit unat_msb [OF D]) simp
    moreover have "2 \<le> 2 * (2 :: nat) ^ D" by simp
    ultimately show ?thesis by (subst unat_sub) (simp_all add: word_le_nat_alt)
  qed
qed

lemma inDeadZone_node:
  assumes n: "is_depth (unat n) D" "0 < unat n" "unat n \<le> 2 ^ 31" and t: "in_tree D k i"
  shows "inDeadZone (node D k i) n = Some ((unat n - 1) div 2 ^ k < i)"
proof -
  have D: "D \<le> 31" using t by (simp add: in_tree_def)
  have "\<not> push_bit 1 (push_bit D 1) - 2 < node D k i"
    unfolding word_less_nat_alt unat_root [OF D] unat_node [OF t] using npos_less [OF t] by linarith
  moreover have "(push_bit D 1 :: u32) = node D (Suc 0) 0"
    by (simp only: word_unat_eq_iff unat_msb [OF D] unat_start [OF D]) (simp add: npos_def)
  moreover have "n - 1 = node D 0 ((unat n - 1) div 2 ^ 0)"
    using n(2) by (simp add: node_def of_nat_diff)
  ultimately show ?thesis
    using deadZone_loop_ok [OF n t, of 0]
    by (simp only: inDeadZone_def nextPowerOfTwo_ok [OF n(1,3)] option.case Let_def if_False simp_thms)
qed

lemma root_node: "D \<le> 31 \<Longrightarrow> push_bit 1 (push_bit D 1) - 2 = node D D 0"
  by (rule node_eqI) (simp_all only: unat_root, simp_all add: in_tree_def npos_def)

end
