(* ===== verification/MerkleBlock.thy ===== *)
theory MerkleBlock
  imports MerkleTree
begin

text \<open>
  Reading a Merkle block: \<open>CheckMerkleBlock\<close> of \<open>bloom/merkleblock.go\<close> and
  \<open>getNodes\<close> of \<open>bloom/merklebranch.go\<close>, two loops over a stack of nodes, each with
  one definition for the body of the loop. Both are refinements of one recursive parser of
  partial Merkle trees (\<open>parse_tree\<close>): they return on every input with at most
  \<open>2 ^ 31\<close> transactions, with the parser's result.
\<close>

declare push_bit_of_1 [simp del]

record mnode =
  mnP :: u32
  mnH :: "uint256 option"

record merkle_block =
  mbHeader :: bheader
  mbTransactions :: u32
  mbHashes :: "uint256 list"
  mbFlags :: bytes

subsection \<open>CheckMerkleBlock\<close>

record mstate =
  msS :: "mnode list"
  msR :: "uint256 list"
  msPos :: u32
  msI :: nat
  msHashes :: "uint256 list"
  msFlags :: bytes

text \<open>The position after a hash has been taken: up from the right of an upper level, else to
  the sibling.\<close>

definition ascend :: "u32 \<Rightarrow> u32 \<Rightarrow> u32" where
  "ascend msb pos = (if pos AND 1 \<noteq> 0 then drop_bit 1 pos OR msb else pos OR 1)"

definition advance_flag :: "mstate \<Rightarrow> mstate" where
  "advance_flag st =
     (if msI st + 1 = 8 then st\<lparr>msI := 0, msFlags := tl (msFlags st)\<rparr> else st\<lparr>msI := msI st + 1\<rparr>)"

text \<open>The branches of the loop body and one turn of the loop: \<open>Inl\<close> the next state,
  \<open>Inr\<close> the result.\<close>

definition check_dead :: "codec \<Rightarrow> mstate \<Rightarrow> mstate + (goerror + uint256 list)" where
  "check_dead E st =
     (let s = msS st; tip = length s - 1
      in if s = [] then Inr (Inl (Panic ''index out of range''))
         else (case MakeMerkleParent E (mnH (s ! tip)) None of
                 Inl e \<Rightarrow> Inr (Inl e)
               | Inr h \<Rightarrow>
                   if tip = 0 then Inr (Inl (Panic ''index out of range''))
                   else let p = (s ! (tip - 1))\<lparr>mnH := Some h\<rparr>
                        in Inl (st\<lparr>msS := take tip (s[tip - 1 := p]), msPos := mnP p OR 1\<rparr>)))"

definition check_combine :: "codec \<Rightarrow> mstate \<Rightarrow> mstate + (goerror + uint256 list)" where
  "check_combine E st =
     (let s = msS st; tip = length s - 1
      in case MakeMerkleParent E (mnH (s ! (tip - 1))) (mnH (s ! tip)) of
           Inl e \<Rightarrow> Inr (Inl e)
         | Inr h \<Rightarrow>
             let p = (s ! (tip - 2))\<lparr>mnH := Some h\<rparr>
             in Inl (st\<lparr>msS := take (tip - 1) (s[tip - 2 := p]), msPos := mnP p OR 1\<rparr>))"

definition check_push :: "u32 \<Rightarrow> u32 \<Rightarrow> mstate \<Rightarrow> mstate + (goerror + uint256 list)" where
  "check_push n msb st =
     (let s = msS st; pos = msPos st
      in case msHashes st of
           [] \<Rightarrow> Inr (Inl (Failure ''Ran out of hashes''))
         | hash # hashes \<Rightarrow>
             (case msFlags st of
                [] \<Rightarrow> Inr (Inl (Failure ''Ran out of flag bits''))
              | flag # _ \<Rightarrow>
                  if pos AND msb \<noteq> 0 then
                    if flag AND push_bit (msI st) 1 = 0 then
                      Inl (advance_flag
                        (st\<lparr>msS := s @ [\<lparr>mnP = pos, mnH = Some hash\<rparr>], msHashes := hashes,
                            msPos := ascend msb pos\<rparr>))
                    else
                      Inl (advance_flag
                        (st\<lparr>msS := s @ [\<lparr>mnP = pos, mnH = None\<rparr>], msPos := push_bit 1 (pos XOR msb)\<rparr>))
                  else if n \<le> pos then Inr (Inl (Failure ''got into an invalid txid node''))
                  else
                    Inl (advance_flag
                      (st\<lparr>msS := s @ [\<lparr>mnP = pos, mnH = Some hash\<rparr>], msHashes := hashes,
                          msR := (if flag AND push_bit (msI st) 1 \<noteq> 0 then msR st @ [hash] else msR st),
                          msPos := (if pos AND 1 = 0 then pos OR 1 else pos)\<rparr>))))"

definition check_step ::
  "codec \<Rightarrow> u32 \<Rightarrow> uint256 \<Rightarrow> u32 \<Rightarrow> mstate \<Rightarrow> (mstate + (goerror + uint256 list)) option" where
  "check_step E n mroot msb st =
     (let s = msS st; tip = length s - 1 in
      if length s = 1 \<and> mnH (s ! 0) \<noteq> None then
        Some (Inr (if mnH (s ! 0) = Some mroot then Inr (msR st) else Inl (Failure ''computed root'')))
      else (case inDeadZone (msPos st) n of
              None \<Rightarrow> None
            | Some True \<Rightarrow> Some (check_dead E st)
            | Some False \<Rightarrow>
                if 2 < length s \<and> mnH (s ! (tip - 1)) \<noteq> None \<and> mnH (s ! tip) \<noteq> None
                then Some (check_combine E st)
                else Some (check_push n msb st)))"

partial_function (option) check_loop ::
  "codec \<Rightarrow> u32 \<Rightarrow> uint256 \<Rightarrow> u32 \<Rightarrow> mstate \<Rightarrow> (goerror + uint256 list) option" where
  "check_loop E n mroot msb st =
     (case check_step E n mroot msb st of
        None \<Rightarrow> None
      | Some (Inr res) \<Rightarrow> Some res
      | Some (Inl st') \<Rightarrow> check_loop E n mroot msb st')"

definition CheckMerkleBlock :: "codec \<Rightarrow> merkle_block \<Rightarrow> (goerror + uint256 list) option" where
  "CheckMerkleBlock E m =
     (if mbTransactions m = 0 then Some (Inl (Failure ''No transactions in merkleblock''))
      else if mbFlags m = [] then Some (Inl (Failure ''No flag bits''))
      else (case nextPowerOfTwo (mbTransactions m) of
        None \<Rightarrow> None
      | Some msb \<Rightarrow>
          check_loop E (mbTransactions m) (bhMerkleRoot (mbHeader m)) msb
            \<lparr>msS = [], msR = [], msPos = push_bit 1 msb - 2, msI = 0,
             msHashes = mbHashes m, msFlags = mbFlags m\<rparr>))"

subsection \<open>getNodes\<close>

record gstate =
  gsS :: "mnode list"
  gsR :: "u32 \<rightharpoonup> mnode"
  gsPos :: u32
  gsHashes :: "uint256 list"
  gsBits :: bytes

definition nodes_dead :: "codec \<Rightarrow> gstate \<Rightarrow> gstate + (goerror + (u32 \<rightharpoonup> mnode))" where
  "nodes_dead E st =
     (let s = gsS st; tip = length s - 1
      in if s = [] then Inr (Inl (Panic ''index out of range''))
         else (case MakeMerkleParent E (mnH (s ! tip)) None of
                 Inl e \<Rightarrow> Inr (Inl e)
               | Inr h \<Rightarrow>
                   if tip = 0 then Inr (Inl (Panic ''index out of range''))
                   else let p = (s ! (tip - 1))\<lparr>mnH := Some h\<rparr>
                        in Inl (st\<lparr>gsS := take tip (s[tip - 1 := p]), gsPos := mnP p OR 1, gsR := (gsR st)(mnP p \<mapsto> p)\<rparr>)))"

definition nodes_combine :: "codec \<Rightarrow> gstate \<Rightarrow> gstate + (goerror + (u32 \<rightharpoonup> mnode))" where
  "nodes_combine E st =
     (let s = gsS st; tip = length s - 1
      in case MakeMerkleParent E (mnH (s ! (tip - 1))) (mnH (s ! tip)) of
           Inl e \<Rightarrow> Inr (Inl e)
         | Inr h \<Rightarrow>
             let p = (s ! (tip - 2))\<lparr>mnH := Some h\<rparr>
             in Inl (st\<lparr>gsS := take (tip - 1) (s[tip - 2 := p]), gsPos := mnP p OR 1, gsR := (gsR st)(mnP p \<mapsto> p)\<rparr>))"

definition nodes_push :: "u32 \<Rightarrow> u32 \<Rightarrow> gstate \<Rightarrow> gstate + (goerror + (u32 \<rightharpoonup> mnode))" where
  "nodes_push n msb st =
     (let s = gsS st; pos = gsPos st
      in case gsHashes st of
           [] \<Rightarrow> Inr (Inl (Failure ''Ran out of hashes''))
         | hash # hashes \<Rightarrow>
             (case gsBits st of
                [] \<Rightarrow> Inr (Inl (Failure ''Ran out of bits''))
              | b # bits \<Rightarrow>
                  if pos AND msb \<noteq> 0 then
                    if b = 0 then
                      Inl (st\<lparr>gsS := s @ [\<lparr>mnP = pos, mnH = Some hash\<rparr>], gsHashes := hashes,
                              gsPos := ascend msb pos, gsR := (gsR st)(pos \<mapsto> \<lparr>mnP = pos, mnH = Some hash\<rparr>), gsBits := bits\<rparr>)
                    else
                      Inl (st\<lparr>gsS := s @ [\<lparr>mnP = pos, mnH = None\<rparr>],
                              gsPos := push_bit 1 (pos XOR msb), gsBits := bits\<rparr>)
                  else if n \<le> pos then Inr (Inl (Failure ''got into an invalid txid node''))
                  else
                    Inl (st\<lparr>gsS := s @ [\<lparr>mnP = pos, mnH = Some hash\<rparr>], gsHashes := hashes,
                            gsPos := (if pos AND 1 = 0 then pos OR 1 else pos),
                            gsR := (gsR st)(pos \<mapsto> \<lparr>mnP = pos, mnH = Some hash\<rparr>), gsBits := bits\<rparr>)))"

definition nodes_step ::
  "codec \<Rightarrow> u32 \<Rightarrow> uint256 \<Rightarrow> u32 \<Rightarrow> gstate \<Rightarrow> (gstate + (goerror + (u32 \<rightharpoonup> mnode))) option" where
  "nodes_step E n mroot msb st =
     (let s = gsS st; tip = length s - 1 in
      if length s = 1 \<and> mnH (s ! 0) \<noteq> None then
        Some (Inr (if mnH (s ! 0) = Some mroot then Inr (gsR st) else Inl (Failure ''computed root'')))
      else (case inDeadZone (gsPos st) n of
              None \<Rightarrow> None
            | Some True \<Rightarrow> Some (nodes_dead E st)
            | Some False \<Rightarrow>
                if 2 < length s \<and> mnH (s ! (tip - 1)) \<noteq> None \<and> mnH (s ! tip) \<noteq> None
                then Some (nodes_combine E st)
                else Some (nodes_push n msb st)))"

partial_function (option) nodes_loop ::
  "codec \<Rightarrow> u32 \<Rightarrow> uint256 \<Rightarrow> u32 \<Rightarrow> gstate \<Rightarrow> (goerror + (u32 \<rightharpoonup> mnode)) option" where
  "nodes_loop E n mroot msb st =
     (case nodes_step E n mroot msb st of
        None \<Rightarrow> None
      | Some (Inr res) \<Rightarrow> Some res
      | Some (Inl st') \<Rightarrow> nodes_loop E n mroot msb st')"

definition getNodes ::
  "codec \<Rightarrow> u32 \<Rightarrow> uint256 \<Rightarrow> uint256 list \<Rightarrow> bytes \<Rightarrow> (goerror + (u32 \<rightharpoonup> mnode)) option" where
  "getNodes E n mroot hashes bits =
     (if n = 0 then Some (Inl (Failure ''No transactions in merkleblock''))
      else if bits = [] then Some (Inl (Failure ''No flag bits''))
      else (case nextPowerOfTwo n of
        None \<Rightarrow> None
      | Some msb \<Rightarrow>
          nodes_loop E n mroot msb
            \<lparr>gsS = [], gsR = Map.empty, gsPos = push_bit 1 msb - 2, gsHashes = hashes, gsBits = bits\<rparr>))"

subsection \<open>Partial Merkle trees and their parser\<close>

text \<open>A partial tree: a pruned subtree, a leaf with its flag, an inner node with two children
  or with the left one only (the last node of a level of odd width).\<close>

datatype ptree = Pruned uint256 | Leaf bool uint256 | Inner ptree ptree | Single ptree

fun root_of :: "codec \<Rightarrow> ptree \<Rightarrow> uint256" where
  "root_of E (Pruned h) = h"
| "root_of E (Leaf b h) = h"
| "root_of E (Inner l r) = HashMerkleBranches E (root_of E l) (root_of E r)"
| "root_of E (Single l) = HashMerkleBranches E (root_of E l) (root_of E l)"

fun flagged :: "ptree \<Rightarrow> uint256 list" where
  "flagged (Pruned h) = []"
| "flagged (Leaf b h) = (if b then [h] else [])"
| "flagged (Inner l r) = flagged l @ flagged r"
| "flagged (Single l) = flagged l"

text \<open>The subtree at node \<open>i\<close> of level \<open>k\<close> from hashes and flag bits, with what is left
  of them; \<open>eb\<close> is the error for missing bits, \<open>n\<close> the number of leaves.\<close>

fun parse_tree ::
  "codec \<Rightarrow> goerror \<Rightarrow> nat \<Rightarrow> nat \<Rightarrow> nat \<Rightarrow> uint256 list \<Rightarrow> bool list \<Rightarrow>
   goerror + ptree \<times> uint256 list \<times> bool list" where
  "parse_tree E eb n k i [] bs = Inl (Failure ''Ran out of hashes'')"
| "parse_tree E eb n k i (h # hs) [] = Inl eb"
| "parse_tree E eb n 0 i (h # hs) (b # bs) = Inr (Leaf b h, hs, bs)"
| "parse_tree E eb n (Suc k) i (h # hs) (False # bs) = Inr (Pruned h, hs, bs)"
| "parse_tree E eb n (Suc k) i (h # hs) (True # bs) =
     (case parse_tree E eb n k (2 * i) (h # hs) bs of
        Inl e \<Rightarrow> Inl e
      | Inr (l, hs1, bs1) \<Rightarrow>
          if (n - 1) div 2 ^ k < Suc (2 * i) then Inr (Single l, hs1, bs1)
          else (case parse_tree E eb n k (Suc (2 * i)) hs1 bs1 of
            Inl e \<Rightarrow> Inl e
          | Inr (r, hs2, bs2) \<Rightarrow>
              if root_of E l = root_of E r then Inl (Failure ''DUP HASH CRASH'')
              else Inr (Inner l r, hs2, bs2)))"

text \<open>The nodes of a tree which have a hash, in the order in which they get it: position,
  hash, and whether it is a flagged leaf.\<close>

type_synonym event = "u32 \<times> uint256 \<times> bool"

fun events :: "codec \<Rightarrow> nat \<Rightarrow> nat \<Rightarrow> nat \<Rightarrow> ptree \<Rightarrow> event list" where
  "events E D k i (Pruned h) = [(node D k i, h, False)]"
| "events E D k i (Leaf b h) = [(node D k i, h, b)]"
| "events E D k i (Inner l r) =
     events E D (k - 1) (2 * i) l @ events E D (k - 1) (Suc (2 * i)) r @
     [(node D k i, root_of E (Inner l r), False)]"
| "events E D k i (Single l) =
     events E D (k - 1) (2 * i) l @ [(node D k i, root_of E (Single l), False)]"

subsection \<open>The stack machine behind both loops\<close>

record astate =
  asS :: "mnode list"
  asPos :: u32
  asHashes :: "uint256 list"
  asBits :: "bool list"
  asEv :: "event list"

definition a_dead :: "codec \<Rightarrow> astate \<Rightarrow> astate + (goerror + event list)" where
  "a_dead E st =
     (let s = asS st; tip = length s - 1
      in if s = [] then Inr (Inl (Panic ''index out of range''))
         else (case MakeMerkleParent E (mnH (s ! tip)) None of
                 Inl e \<Rightarrow> Inr (Inl e)
               | Inr h \<Rightarrow>
                   if tip = 0 then Inr (Inl (Panic ''index out of range''))
                   else let p = (s ! (tip - 1))\<lparr>mnH := Some h\<rparr>
                        in Inl (st\<lparr>asS := take tip (s[tip - 1 := p]), asPos := mnP p OR 1, asEv := asEv st @ [(mnP p, h, False)]\<rparr>)))"

definition a_combine :: "codec \<Rightarrow> astate \<Rightarrow> astate + (goerror + event list)" where
  "a_combine E st =
     (let s = asS st; tip = length s - 1
      in case MakeMerkleParent E (mnH (s ! (tip - 1))) (mnH (s ! tip)) of
           Inl e \<Rightarrow> Inr (Inl e)
         | Inr h \<Rightarrow>
             let p = (s ! (tip - 2))\<lparr>mnH := Some h\<rparr>
             in Inl (st\<lparr>asS := take (tip - 1) (s[tip - 2 := p]), asPos := mnP p OR 1, asEv := asEv st @ [(mnP p, h, False)]\<rparr>))"

definition a_push :: "goerror \<Rightarrow> u32 \<Rightarrow> u32 \<Rightarrow> astate \<Rightarrow> astate + (goerror + event list)" where
  "a_push eb n msb st =
     (let s = asS st; pos = asPos st
      in case asHashes st of
           [] \<Rightarrow> Inr (Inl (Failure ''Ran out of hashes''))
         | hash # hashes \<Rightarrow>
             (case asBits st of
                [] \<Rightarrow> Inr (Inl eb)
              | b # bits \<Rightarrow>
                  if pos AND msb \<noteq> 0 then
                    if \<not> b then
                      Inl (st\<lparr>asS := s @ [\<lparr>mnP = pos, mnH = Some hash\<rparr>], asHashes := hashes,
                              asPos := ascend msb pos, asEv := asEv st @ [(pos, hash, False)], asBits := bits\<rparr>)
                    else
                      Inl (st\<lparr>asS := s @ [\<lparr>mnP = pos, mnH = None\<rparr>],
                              asPos := push_bit 1 (pos XOR msb), asBits := bits\<rparr>)
                  else if n \<le> pos then Inr (Inl (Failure ''got into an invalid txid node''))
                  else
                    Inl (st\<lparr>asS := s @ [\<lparr>mnP = pos, mnH = Some hash\<rparr>], asHashes := hashes,
                            asPos := (if pos AND 1 = 0 then pos OR 1 else pos),
                            asEv := asEv st @ [(pos, hash, b)], asBits := bits\<rparr>)))"

definition a_step ::
  "codec \<Rightarrow> goerror \<Rightarrow> u32 \<Rightarrow> uint256 \<Rightarrow> u32 \<Rightarrow> astate \<Rightarrow> (astate + (goerror + event list)) option" where
  "a_step E eb n mroot msb st =
     (let s = asS st; tip = length s - 1 in
      if length s = 1 \<and> mnH (s ! 0) \<noteq> None then
        Some (Inr (if mnH (s ! 0) = Some mroot then Inr (asEv st) else Inl (Failure ''computed root'')))
      else (case inDeadZone (asPos st) n of
              None \<Rightarrow> None
            | Some True \<Rightarrow> Some (a_dead E st)
            | Some False \<Rightarrow>
                if 2 < length s \<and> mnH (s ! (tip - 1)) \<noteq> None \<and> mnH (s ! tip) \<noteq> None
                then Some (a_combine E st)
                else Some (a_push eb n msb st)))"

text \<open>\<open>CheckMerkleBlock\<close> and \<open>getNodes\<close> as projections of the machine.\<close>

definition flag_bits :: "bytes \<Rightarrow> bool list" where
  "flag_bits fs = concat (map (\<lambda>b. map (bit b) [0..<8]) fs)"

lemma flag_bits_Nil [simp]: "flag_bits [] = []"
  by (simp add: flag_bits_def)

lemma flag_bits_Cons: "flag_bits (f # fs) = map (bit f) [0..<8] @ flag_bits fs"
  by (simp add: flag_bits_def)

definition proj_flagged :: "event list \<Rightarrow> uint256 list" where
  "proj_flagged ev = map (fst \<circ> snd) (filter (snd \<circ> snd) ev)"

lemma proj_flagged_snoc [simp]:
  "proj_flagged (ev @ [(p, h, b)]) = (if b then proj_flagged ev @ [h] else proj_flagged ev)"
  by (simp add: proj_flagged_def)

lemma proj_flagged_Nil [simp]: "proj_flagged [] = []"
  by (simp add: proj_flagged_def)

definition check_abs :: "mstate \<Rightarrow> astate \<Rightarrow> bool" where
  "check_abs st a \<longleftrightarrow>
     asS a = msS st \<and> asPos a = msPos st \<and> asHashes a = msHashes st \<and>
     asBits a = drop (msI st) (flag_bits (msFlags st)) \<and> msI st < 8 \<and>
     msR st = proj_flagged (asEv a)"

definition nodes_map :: "event list \<Rightarrow> u32 \<rightharpoonup> mnode" where
  "nodes_map ev = fold (\<lambda>(p, h, _) m. m(p \<mapsto> \<lparr>mnP = p, mnH = Some h\<rparr>)) ev Map.empty"

definition nodes_abs :: "gstate \<Rightarrow> astate \<Rightarrow> bool" where
  "nodes_abs st a \<longleftrightarrow>
     asS a = gsS st \<and> asPos a = gsPos st \<and> asHashes a = gsHashes st \<and>
     asBits a = map (\<lambda>b. b \<noteq> 0) (gsBits st) \<and> gsR st = nodes_map (asEv a)"

lemma nodes_map_snoc [simp]: "nodes_map (ev @ [(p, h, b)]) = (nodes_map ev)(p \<mapsto> \<lparr>mnP = p, mnH = Some h\<rparr>)"
  by (simp add: nodes_map_def)

lemma flag_bit: "f AND push_bit i 1 = 0 \<longleftrightarrow> \<not> bit f i" for f :: u8
  by (simp add: bit_iff_and_push_bit_not_eq_0)

lemma drop_flag_bits:
  assumes "i < 8"
  shows "drop i (flag_bits (f # fs)) =
    bit f i # (if i + 1 = 8 then flag_bits fs else drop (i + 1) (flag_bits (f # fs)))"
proof -
  let ?xs = "flag_bits (f # fs)"
  have "i < length ?xs" using assms by (simp add: flag_bits_Cons)
  then have "drop i ?xs = ?xs ! i # drop (i + 1) ?xs" by (simp add: Cons_nth_drop_Suc)
  moreover have "?xs ! i = bit f i" using assms by (simp add: flag_bits_Cons nth_append)
  ultimately show ?thesis by (simp add: flag_bits_Cons)
qed

lemma mnode_update: "mnH p = h \<Longrightarrow> p\<lparr>mnH := h'\<rparr> = \<lparr>mnP = mnP p, mnH = h'\<rparr>"
  by (cases p) simp

lemma advance_flag_simps [simp]:
  "msS (advance_flag st) = msS st" "msR (advance_flag st) = msR st" "msPos (advance_flag st) = msPos st"
  "msHashes (advance_flag st) = msHashes st"
  "msI (advance_flag st) = (if msI st + 1 = 8 then 0 else msI st + 1)"
  "msFlags (advance_flag st) = (if msI st + 1 = 8 then tl (msFlags st) else msFlags st)"
  by (simp_all add: advance_flag_def)

lemma check_dead_sim:
  "check_abs st a \<Longrightarrow> rel_sum check_abs (rel_sum (=) (\<lambda>r ev. r = proj_flagged ev)) (check_dead E st) (a_dead E a)"
  by (auto simp: check_abs_def check_dead_def a_dead_def Let_def split: sum.split)

lemma check_combine_sim:
  "check_abs st a \<Longrightarrow> rel_sum check_abs (rel_sum (=) (\<lambda>r ev. r = proj_flagged ev)) (check_combine E st) (a_combine E a)"
  by (auto simp: check_abs_def check_combine_def a_combine_def Let_def split: sum.split)

lemma less_7: "i < 8 \<Longrightarrow> i + 1 \<noteq> 8 \<Longrightarrow> i + 1 < (8 :: nat)"
  by simp

lemma check_push_sim:
  assumes "check_abs st a"
  shows "rel_sum check_abs (rel_sum (=) (\<lambda>r ev. r = proj_flagged ev)) (check_push n msb st)
    (a_push (Failure ''Ran out of flag bits'') n msb a)"
proof -
  have eq: "asS a = msS st" "asPos a = msPos st" "asHashes a = msHashes st" "msI st < 8"
      "proj_flagged (asEv a) = msR st"
    using assms by (simp_all add: check_abs_def)
  show ?thesis
  proof (cases "msFlags st")
    case Nil
    then have "asBits a = []" using assms by (simp add: check_abs_def)
    with Nil show ?thesis by (simp add: check_push_def a_push_def Let_def eq split: list.split)
  next
    case (Cons f fs)
    have "asBits a = bit f (msI st) #
        (if msI st + 1 = 8 then flag_bits fs else drop (msI st + 1) (flag_bits (f # fs)))"
      using assms Cons by (simp only: check_abs_def drop_flag_bits)
    with Cons show ?thesis
      unfolding check_push_def a_push_def Let_def flag_bit check_abs_def eq
      using eq(4) less_7 [OF eq(4)] by (simp add: eq split: list.split)
  qed
qed

lemma rel_if:
  "(c \<Longrightarrow> R (if True then a else b) (if True then a' else b')) \<Longrightarrow> (\<not> c \<Longrightarrow> R b b') \<Longrightarrow>
   R (if c then a else b) (if c then a' else b')"
  by simp

lemma rel_some_if:
  "R x x' \<Longrightarrow> R y y' \<Longrightarrow>
   rel_option R (if c then Some x else Some y) (if c then Some x' else Some y')"
  by simp

lemma check_sim:
  assumes "check_abs st a"
  shows "rel_option (rel_sum check_abs (rel_sum (=) (\<lambda>r ev. r = proj_flagged ev)))
    (check_step E n mroot msb st) (a_step E (Failure ''Ran out of flag bits'') n mroot msb a)"
proof -
  have eq: "asS a = msS st" "asPos a = msPos st" and r: "msR st = proj_flagged (asEv a)"
    using assms by (simp_all add: check_abs_def)
  show ?thesis
    unfolding check_step_def a_step_def Let_def eq
  proof (rule rel_if, goal_cases)
    case 1
    show ?case using r by simp
  next
    case 2
    show ?case
    proof (cases "inDeadZone (msPos st) n")
      case None
      then show ?thesis by simp
    next
      case (Some d)
      show ?thesis
      proof (cases d)
        case True
        with Some check_dead_sim [OF assms] show ?thesis by simp
      next
        case False
        then have d: "d = False" by simp
        show ?thesis
          unfolding Some option.case d bool.case
          by (rule rel_some_if) (rule check_combine_sim [OF assms], rule check_push_sim [OF assms])
      qed
    qed
  qed
qed

lemma nodes_dead_sim:
  "nodes_abs st a \<Longrightarrow> rel_sum nodes_abs (rel_sum (=) (\<lambda>r ev. r = nodes_map ev)) (nodes_dead E st) (a_dead E a)"
  by (auto simp: nodes_abs_def nodes_dead_def a_dead_def Let_def mnode_update split: sum.split)

lemma nodes_combine_sim:
  "nodes_abs st a \<Longrightarrow> rel_sum nodes_abs (rel_sum (=) (\<lambda>r ev. r = nodes_map ev)) (nodes_combine E st) (a_combine E a)"
  by (auto simp: nodes_abs_def nodes_combine_def a_combine_def Let_def mnode_update split: sum.split)

lemma nodes_push_sim:
  "nodes_abs st a \<Longrightarrow> rel_sum nodes_abs (rel_sum (=) (\<lambda>r ev. r = nodes_map ev)) (nodes_push n msb st)
    (a_push (Failure ''Ran out of bits'') n msb a)"
  by (auto simp: nodes_abs_def nodes_push_def a_push_def Let_def split: list.split)

lemma nodes_sim:
  assumes "nodes_abs st a"
  shows "rel_option (rel_sum nodes_abs (rel_sum (=) (\<lambda>r ev. r = nodes_map ev)))
    (nodes_step E n mroot msb st) (a_step E (Failure ''Ran out of bits'') n mroot msb a)"
proof -
  have eq: "asS a = gsS st" "asPos a = gsPos st" and r: "gsR st = nodes_map (asEv a)"
    using assms by (simp_all add: nodes_abs_def)
  show ?thesis
    unfolding nodes_step_def a_step_def Let_def eq
  proof (rule rel_if, goal_cases)
    case 1
    show ?case using r by simp
  next
    case 2
    show ?case
    proof (cases "inDeadZone (gsPos st) n")
      case None
      then show ?thesis by simp
    next
      case (Some d)
      show ?thesis
      proof (cases d)
        case True
        with Some nodes_dead_sim [OF assms] show ?thesis by simp
      next
        case False
        then have d: "d = False" by simp
        show ?thesis
          unfolding Some option.case d bool.case
          by (rule rel_some_if) (rule nodes_combine_sim [OF assms], rule nodes_push_sim [OF assms])
      qed
    qed
  qed
qed

text \<open>The machine's result.\<close>

inductive a_eval :: "codec \<Rightarrow> goerror \<Rightarrow> u32 \<Rightarrow> uint256 \<Rightarrow> u32 \<Rightarrow> astate \<Rightarrow> goerror + event list \<Rightarrow> bool"
  for E eb n mroot msb where
  final: "a_step E eb n mroot msb a = Some (Inr res) \<Longrightarrow> a_eval E eb n mroot msb a res"
| turn: "a_step E eb n mroot msb a = Some (Inl a') \<Longrightarrow> a_eval E eb n mroot msb a' res \<Longrightarrow>
    a_eval E eb n mroot msb a res"

lemma check_loop_eval:
  assumes "a_eval E (Failure ''Ran out of flag bits'') n mroot msb a res" and "check_abs st a"
  shows "\<exists>r. check_loop E n mroot msb st = Some r \<and> rel_sum (=) (\<lambda>r ev. r = proj_flagged ev) r res"
  using assms
proof (induction arbitrary: st rule: a_eval.induct)
  case (final a res)
  from check_sim [OF final(2), of E n mroot msb] final(1) obtain r where
    "check_step E n mroot msb st = Some (Inr r)" "rel_sum (=) (\<lambda>r ev. r = proj_flagged ev) r res"
    by (auto simp: option_rel_Some2 rel_sum.simps)
  then show ?case by (subst check_loop.simps) simp
next
  case (turn a a' res)
  from check_sim [OF turn.prems, of E n mroot msb] turn.hyps(1) obtain st' where
    "check_step E n mroot msb st = Some (Inl st')" "check_abs st' a'"
    by (auto simp: option_rel_Some2 rel_sum.simps)
  with turn.IH show ?case by (subst check_loop.simps) simp
qed

lemma nodes_loop_eval:
  assumes "a_eval E (Failure ''Ran out of bits'') n mroot msb a res" and "nodes_abs st a"
  shows "\<exists>r. nodes_loop E n mroot msb st = Some r \<and> rel_sum (=) (\<lambda>r ev. r = nodes_map ev) r res"
  using assms
proof (induction arbitrary: st rule: a_eval.induct)
  case (final a res)
  from nodes_sim [OF final(2), of E n mroot msb] final(1) obtain r where
    "nodes_step E n mroot msb st = Some (Inr r)" "rel_sum (=) (\<lambda>r ev. r = nodes_map ev) r res"
    by (auto simp: option_rel_Some2 rel_sum.simps)
  then show ?case by (subst nodes_loop.simps) simp
next
  case (turn a a' res)
  from nodes_sim [OF turn.prems, of E n mroot msb] turn.hyps(1) obtain st' where
    "nodes_step E n mroot msb st = Some (Inl st')" "nodes_abs st' a'"
    by (auto simp: option_rel_Some2 rel_sum.simps)
  with turn.IH show ?case by (subst nodes_loop.simps) simp
qed

subsection \<open>The machine follows the parser\<close>

abbreviation ast :: "mnode list \<Rightarrow> u32 \<Rightarrow> uint256 list \<Rightarrow> bool list \<Rightarrow> event list \<Rightarrow> astate" where
  "ast s pos hs bs ev \<equiv> \<lparr>asS = s, asPos = pos, asHashes = hs, asBits = bs, asEv = ev\<rparr>"

abbreviation nd :: "u32 \<Rightarrow> uint256 option \<Rightarrow> mnode" where
  "nd p h \<equiv> \<lparr>mnP = p, mnH = h\<rparr>"

text \<open>A stack on which the loop does no stack operation.\<close>

definition opn :: "mnode list \<Rightarrow> bool" where
  "opn s \<longleftrightarrow> \<not> (length s = 1 \<and> mnH (s ! 0) \<noteq> None) \<and>
     \<not> (2 < length s \<and> mnH (s ! (length s - 1 - 1)) \<noteq> None \<and> mnH (s ! (length s - 1)) \<noteq> None)"

lemma opn_Nil [simp]: "opn []"
  by (simp add: opn_def)

lemma opn_parent [simp]: "opn (s @ [nd p None])"
  by (auto simp: opn_def)

lemma opn_left [simp]: "opn (s @ [nd p None, nd q h])"
  by (auto simp: opn_def nth_append)

text \<open>Where the loop is once node \<open>i\<close> of level \<open>k\<close> has its hash.\<close>

definition after :: "nat \<Rightarrow> nat \<Rightarrow> nat \<Rightarrow> u32 \<Rightarrow> bool" where
  "after D k i pos \<longleftrightarrow>
     (if even i then pos = node D k (Suc i)
      else pos = node D k i \<or> k < D \<and> pos = node D (Suc k) (i div 2))"

lemma odd_below_root: "in_tree D k i \<Longrightarrow> odd i \<Longrightarrow> k < D"
  by (cases "k = D") (auto simp: in_tree_def)

lemma after_or_one: "in_tree D k i \<Longrightarrow> after D k i (node D k i OR 1)"
  by (simp add: node_or_one after_def)

lemma node_and_one: "in_tree D k i \<Longrightarrow> node D k i AND 1 = 0 \<longleftrightarrow> even i"
proof -
  assume t: "in_tree D k i"
  then have "k \<le> D" by (simp add: in_tree_def)
  have "unat (node D k i AND 1) = unat (node D k i) mod 2"
    by (simp only: unsigned_and_eq unat_1) (simp only: and_one_eq)
  then have "node D k i AND 1 = 0 \<longleftrightarrow> even (unat (node D k i))"
    by (simp only: unat_eq_zero [symmetric] even_iff_mod_2_eq_zero)
  then show ?thesis by (simp add: unat_node [OF t] npos_even [OF \<open>k \<le> D\<close>])
qed

lemma after_ascend: "in_tree D k i \<Longrightarrow> after D k i (ascend (push_bit D 1) (node D k i))"
  using odd_below_root [of D k i] node_parent [of D k i]
  by (auto simp: ascend_def node_and_one node_or_one after_def)

lemma push_cases:
  "opn s \<Longrightarrow> inDeadZone pos n = Some False \<Longrightarrow>
   a_step E eb n mroot msb (ast s pos hs bs ev) = Some (a_push eb n msb (ast s pos hs bs ev))"
  by (auto simp: a_step_def opn_def Let_def)

lemma step_single:
  "inDeadZone pos n = Some True \<Longrightarrow>
   a_step E eb n mroot msb (ast (s @ [nd p None, nd q (Some h)]) pos hs bs ev) =
   Some (Inl (ast (s @ [nd p (Some (HashMerkleBranches E h h))]) (p OR 1) hs bs
     (ev @ [(p, HashMerkleBranches E h h, False)])))"
  by (simp add: a_step_def a_dead_def Let_def nth_append list_update_append)

lemma step_combine:
  "inDeadZone pos n = Some False \<Longrightarrow>
   a_step E eb n mroot msb (ast (s @ [nd p None, nd q (Some l), nd q' (Some h)]) pos hs bs ev) =
   Some (if l = h then Inr (Inl (Failure ''DUP HASH CRASH''))
     else Inl (ast (s @ [nd p (Some (HashMerkleBranches E l h))]) (p OR 1) hs bs
       (ev @ [(p, HashMerkleBranches E l h, False)])))"
  by (simp add: a_step_def a_combine_def Let_def nth_append list_update_append)

lemma step_final:
  "a_step E eb n mroot msb (ast [nd p (Some h)] pos hs bs ev) =
   Some (Inr (if h = mroot then Inr ev else Inl (Failure ''computed root'')))"
  by (simp add: a_step_def)

text \<open>From node \<open>i\<close> of level \<open>k\<close>, the machine does what the parser does: it fails with the
  parser's error, or gets to the same stack with the node's hash on top.\<close>

definition follows ::
  "codec \<Rightarrow> goerror \<Rightarrow> u32 \<Rightarrow> uint256 \<Rightarrow> nat \<Rightarrow> nat \<Rightarrow> nat \<Rightarrow> mnode list \<Rightarrow> uint256 list \<Rightarrow> bool list \<Rightarrow> event list \<Rightarrow> bool" where
  "follows E eb n mroot D k i s hs bs ev \<longleftrightarrow>
    (case parse_tree E eb (unat n) k i hs bs of
       Inl e \<Rightarrow> a_eval E eb n mroot (push_bit D 1) (ast s (node D k i) hs bs ev) (Inl e)
     | Inr (t, hs', bs') \<Rightarrow>
         \<forall>res. (\<forall>pos. after D k i pos \<longrightarrow>
             a_eval E eb n mroot (push_bit D 1)
               (ast (s @ [nd (node D k i) (Some (root_of E t))]) pos hs' bs' (ev @ events E D k i t)) res) \<longrightarrow>
           a_eval E eb n mroot (push_bit D 1) (ast s (node D k i) hs bs ev) res)"

lemma follows_empty:
  assumes "opn s" and "inDeadZone (node D k i) n = Some False" and "hs = [] \<or> bs = []"
  shows "follows E eb n mroot D k i s hs bs ev"
  using push_cases [OF assms(1,2), of E eb mroot "push_bit D 1" hs bs ev] assms(3)
  by (cases hs; cases bs)
    (auto simp: follows_def a_push_def intro!: a_eval.final)

lemma follows_leaf:
  assumes t: "in_tree D 0 i" and "opn s" and dz: "inDeadZone (node D 0 i) n = Some False"
    and "i < unat n"
  shows "follows E eb n mroot D 0 i s (h # hs) (b # bs) ev"
proof -
  let ?pos = "if node D 0 i AND 1 = 0 then node D 0 i OR 1 else node D 0 i"
  have "\<not> n \<le> node D 0 i" using assms(4) by (simp add: word_le_nat_alt unat_node [OF t])
  moreover have "node D 0 i AND push_bit D 1 = 0" by (simp only: node_upper [OF t])
  ultimately have "a_step E eb n mroot (push_bit D 1) (ast s (node D 0 i) (h # hs) (b # bs) ev) =
      Some (Inl (ast (s @ [nd (node D 0 i) (Some h)]) ?pos hs bs (ev @ [(node D 0 i, h, b)])))"
    using push_cases [OF assms(2) dz] by (simp add: a_push_def Let_def)
  moreover have "after D 0 i ?pos" using t by (simp add: node_and_one node_or_one after_def)
  ultimately show ?thesis by (auto simp: follows_def intro: a_eval.turn)
qed

lemma follows_pruned:
  assumes t: "in_tree D (Suc k) i" and "opn s" and dz: "inDeadZone (node D (Suc k) i) n = Some False"
  shows "follows E eb n mroot D (Suc k) i s (h # hs) (False # bs) ev"
proof -
  let ?P = "node D (Suc k) i" and ?msb = "push_bit D 1 :: u32"
  have "?P AND ?msb \<noteq> 0" by (simp only: node_upper [OF t])
  then have "a_step E eb n mroot ?msb (ast s ?P (h # hs) (False # bs) ev) =
      Some (Inl (ast (s @ [nd ?P (Some h)]) (ascend ?msb ?P) hs bs (ev @ [(?P, h, False)])))"
    using push_cases [OF assms(2) dz] by (simp add: a_push_def Let_def)
  from a_eval.turn [OF this] after_ascend [OF t] show ?thesis by (simp add: follows_def)
qed

lemma descend_step:
  assumes t: "in_tree D (Suc k) i" and "opn s" and dz: "inDeadZone (node D (Suc k) i) n = Some False"
  shows "a_step E eb n mroot (push_bit D 1) (ast s (node D (Suc k) i) (h # hs) (True # bs) ev) =
    Some (Inl (ast (s @ [nd (node D (Suc k) i) None]) (node D k (2 * i)) (h # hs) bs ev))"
proof -
  have "node D (Suc k) i AND push_bit D 1 \<noteq> 0" by (simp only: node_upper [OF t])
  then show ?thesis
    using push_cases [OF assms(2) dz] node_descend [OF t]
    by (simp add: a_push_def Let_def)
qed

text \<open>The right child, or the left one alone, completes its parent.\<close>

lemma follows_single:
  assumes n: "is_depth (unat n) D" "0 < unat n" "unat n \<le> 2 ^ 31" and t: "in_tree D (Suc k) i"
    and dead: "(unat n - 1) div 2 ^ k < Suc (2 * i)"
    and cont: "\<forall>pos. after D (Suc k) i pos \<longrightarrow> a_eval E eb n mroot (push_bit D 1)
      (ast (s @ [nd (node D (Suc k) i) (Some (HashMerkleBranches E l l))]) pos hs bs
        (ev @ [(node D (Suc k) i, HashMerkleBranches E l l, False)])) res"
  shows "a_eval E eb n mroot (push_bit D 1)
    (ast (s @ [nd (node D (Suc k) i) None, nd q (Some l)]) (node D k (Suc (2 * i))) hs bs ev) res"
proof -
  have "in_tree D k (Suc (2 * i))" using in_tree_child [OF t] by simp
  then have "inDeadZone (node D k (Suc (2 * i))) n = Some True"
    using dead by (simp add: inDeadZone_node [OF n])
  from a_eval.turn [OF step_single [OF this]] cont after_or_one [OF t] show ?thesis by blast
qed

lemma follows_both:
  assumes n: "is_depth (unat n) D" "0 < unat n" "unat n \<le> 2 ^ 31" and t: "in_tree D (Suc k) i"
    and i: "i \<le> (unat n - 1) div 2 ^ Suc k" and live: "Suc (2 * i) \<le> (unat n - 1) div 2 ^ k"
    and right: "follows E eb n mroot D k (Suc (2 * i)) (s @ [nd (node D (Suc k) i) None, nd q (Some l)]) hs bs ev"
  shows "case parse_tree E eb (unat n) k (Suc (2 * i)) hs bs of
      Inl e \<Rightarrow> a_eval E eb n mroot (push_bit D 1)
        (ast (s @ [nd (node D (Suc k) i) None, nd q (Some l)]) (node D k (Suc (2 * i))) hs bs ev) (Inl e)
    | Inr (r, hs', bs') \<Rightarrow>
        \<forall>res. (if l = root_of E r then res = Inl (Failure ''DUP HASH CRASH'')
          else \<forall>pos. after D (Suc k) i pos \<longrightarrow> a_eval E eb n mroot (push_bit D 1)
            (ast (s @ [nd (node D (Suc k) i) (Some (HashMerkleBranches E l (root_of E r)))]) pos hs' bs'
              (ev @ events E D k (Suc (2 * i)) r @
                [(node D (Suc k) i, HashMerkleBranches E l (root_of E r), False)])) res) \<longrightarrow>
          a_eval E eb n mroot (push_bit D 1)
            (ast (s @ [nd (node D (Suc k) i) None, nd q (Some l)]) (node D k (Suc (2 * i))) hs bs ev) res"
proof (cases "parse_tree E eb (unat n) k (Suc (2 * i)) hs bs")
  case (Inl e)
  with right show ?thesis by (simp add: follows_def)
next
  case (Inr y)
  obtain r hs' bs' where y: "y = (r, hs', bs')" by (cases y)
  have c: "in_tree D k (Suc (2 * i))" using in_tree_child [OF t] by simp
  have alive: "inDeadZone pos n = Some False" if "after D k (Suc (2 * i)) pos" for pos
    using that live i t by (auto simp: after_def inDeadZone_node [OF n c] inDeadZone_node [OF n t])
  let ?S = "\<lambda>pos. ast (s @ [nd (node D (Suc k) i) None, nd q (Some l), nd (node D k (Suc (2 * i))) (Some (root_of E r))]) pos hs' bs'
    (ev @ events E D k (Suc (2 * i)) r)"
  have dup: "a_eval E eb n mroot (push_bit D 1) (?S pos) (Inl (Failure ''DUP HASH CRASH''))"
    if "after D k (Suc (2 * i)) pos" "l = root_of E r" for pos
    by (rule a_eval.final) (simp add: step_combine [OF alive] that)
  have fill: "a_eval E eb n mroot (push_bit D 1) (?S pos) res"
    if "after D k (Suc (2 * i)) pos" "l \<noteq> root_of E r" and
      "a_eval E eb n mroot (push_bit D 1)
        (ast (s @ [nd (node D (Suc k) i) (Some (HashMerkleBranches E l (root_of E r)))]) (node D (Suc k) i OR 1) hs' bs'
          (ev @ events E D k (Suc (2 * i)) r @ [(node D (Suc k) i, HashMerkleBranches E l (root_of E r), False)])) res"
    for pos res
    using that(3) by (rule a_eval.turn [rotated]) (simp add: step_combine [OF alive] that)
  have R: "a_eval E eb n mroot (push_bit D 1)
      (ast (s @ [nd (node D (Suc k) i) None, nd q (Some l)]) (node D k (Suc (2 * i))) hs bs ev) res"
    if "\<And>pos. after D k (Suc (2 * i)) pos \<Longrightarrow> a_eval E eb n mroot (push_bit D 1) (?S pos) res" for res
    using right that by (simp add: follows_def Inr y)
  show ?thesis
  proof (cases "l = root_of E r")
    case True
    with R [OF dup [OF _ True]] show ?thesis by (simp add: Inr y)
  next
    case False
    with R [OF fill [OF _ False]] after_or_one [OF t] show ?thesis by (simp add: Inr y)
  qed
qed

lemma follows_inner:
  assumes n: "is_depth (unat n) D" "0 < unat n" "unat n \<le> 2 ^ 31" and t: "in_tree D (Suc k) i"
    and i: "i \<le> (unat n - 1) div 2 ^ Suc k" and s: "opn s"
    and IH: "\<And>i s hs bs ev. in_tree D k i \<Longrightarrow> i \<le> (unat n - 1) div 2 ^ k \<Longrightarrow> opn s \<Longrightarrow>
      follows E eb n mroot D k i s hs bs ev"
  shows "follows E eb n mroot D (Suc k) i s (h # hs) (True # bs) ev"
proof -
  let ?P = "node D (Suc k) i" and ?msb = "push_bit D 1 :: u32"
  have kids: "in_tree D k (2 * i)" "in_tree D k (Suc (2 * i))" using in_tree_child [OF t] by simp_all
  have "i \<le> (unat n - 1) div 2 ^ k div 2" using i by (simp only: power_Suc2 div_mult2_eq)
  then have two: "2 * i \<le> (unat n - 1) div 2 ^ k" by linarith
  have "inDeadZone ?P n = Some False" using i by (simp add: inDeadZone_node [OF n t])
  note st = descend_step [OF t s this, of E eb mroot h hs bs ev]
  have left: "follows E eb n mroot D k (2 * i) (s @ [nd ?P None]) (h # hs) bs ev"
    by (rule IH [OF kids(1) two opn_parent])
  show ?thesis
  proof (cases "parse_tree E eb (unat n) k (2 * i) (h # hs) bs")
    case (Inl e)
    with left show ?thesis by (simp add: follows_def a_eval.turn [OF st])
  next
    case (Inr x)
    obtain l hs1 bs1 where x: "x = (l, hs1, bs1)" by (cases x)
    let ?s = "s @ [nd ?P None, nd (node D k (2 * i)) (Some (root_of E l))]"
    let ?N = "node D k (Suc (2 * i))" and ?ev = "ev @ events E D k (2 * i) l"
    have L: "a_eval E eb n mroot ?msb (ast s ?P (h # hs) (True # bs) ev) res"
      if "a_eval E eb n mroot ?msb (ast ?s ?N hs1 bs1 ?ev) res" for res
      using left that unfolding follows_def Inr x sum.case prod.case
      by (intro a_eval.turn [OF st]) (simp add: after_def)
    show ?thesis
    proof (cases "(unat n - 1) div 2 ^ k < Suc (2 * i)")
      case True
      with Inr x show ?thesis
        by (auto simp: follows_def intro!: L follows_single [OF n t True])
    next
      case False
      then have live: "Suc (2 * i) \<le> (unat n - 1) div 2 ^ k" by simp
      note both = follows_both [OF n t i live IH [OF kids(2) live opn_left],
          of s "node D k (2 * i)" "root_of E l" hs1 bs1 ?ev]
      show ?thesis
      proof (cases "parse_tree E eb (unat n) k (Suc (2 * i)) hs1 bs1")
        case (Inl e)
        with both L \<open>_ = Inr x\<close> x False show ?thesis by (simp add: follows_def)
      next
        case R: (Inr z)
        obtain r hs2 bs2 where z: "z = (r, hs2, bs2)" by (cases z)
        show ?thesis
        proof (cases "root_of E l = root_of E r")
          case True
          with both L Inr R x z False show ?thesis by (simp add: follows_def)
        next
          case ne: False
          with both L Inr R x z False show ?thesis by (simp add: follows_def)
        qed
      qed
    qed
  qed
qed

lemma follows_parser:
  assumes n: "is_depth (unat n) D" "0 < unat n" "unat n \<le> 2 ^ 31"
  shows "in_tree D k i \<Longrightarrow> i \<le> (unat n - 1) div 2 ^ k \<Longrightarrow> opn s \<Longrightarrow> follows E eb n mroot D k i s hs bs ev"
proof (induction k arbitrary: i s hs bs ev)
  case 0
  have dz: "inDeadZone (node D 0 i) n = Some False" using 0 by (simp add: inDeadZone_node [OF n])
  show ?case
    using 0 n(2) by (cases hs; cases bs)
      (auto intro: follows_empty [OF 0(3) dz] follows_leaf [OF 0(1) 0(3) dz])
next
  case (Suc k)
  have dz: "inDeadZone (node D (Suc k) i) n = Some False"
    using Suc.prems by (simp add: inDeadZone_node [OF n])
  show ?case
  proof (cases "hs = [] \<or> bs = []")
    case True
    then show ?thesis by (rule follows_empty [OF Suc.prems(3) dz])
  next
    case False
    then obtain h hs' b bs' where e: "hs = h # hs'" "bs = b # bs'" by (cases hs; cases bs) auto
    show ?thesis
      unfolding e
      using follows_inner [OF n Suc.prems Suc.IH] follows_pruned [OF Suc.prems(1,3) dz]
      by (cases b) simp_all
  qed
qed

lemma proj_flagged_append [simp]: "proj_flagged (a @ b) = proj_flagged a @ proj_flagged b"
  by (simp add: proj_flagged_def)

lemma proj_flagged_single [simp]: "proj_flagged [(p, h, b)] = (if b then [h] else [])"
  by (simp add: proj_flagged_def)

lemma proj_flagged_events: "proj_flagged (events E D k i t) = flagged t"
  by (induction t arbitrary: k i) simp_all

subsection \<open>CheckMerkleBlock and getNodes as parsers\<close>

definition parse_block ::
  "codec \<Rightarrow> goerror \<Rightarrow> u32 \<Rightarrow> uint256 \<Rightarrow> uint256 list \<Rightarrow> bool list \<Rightarrow> nat \<Rightarrow> goerror + ptree" where
  "parse_block E eb n mroot hs bs D =
     (case parse_tree E eb (unat n) D 0 hs bs of
        Inl e \<Rightarrow> Inl e
      | Inr (t, _, _) \<Rightarrow> if root_of E t = mroot then Inr t else Inl (Failure ''computed root''))"

lemma a_eval_parse:
  assumes n: "is_depth (unat n) D" "0 < unat n" "unat n \<le> 2 ^ 31"
  shows "a_eval E eb n mroot (push_bit D 1) (ast [] (push_bit 1 (push_bit D 1) - 2) hs bs [])
    (case parse_block E eb n mroot hs bs D of Inl e \<Rightarrow> Inl e | Inr t \<Rightarrow> Inr (events E D D 0 t))"
proof -
  have D: "D \<le> 31" using n by (intro depth_le_31)
  have "follows E eb n mroot D D 0 [] hs bs []"
    using D by (intro follows_parser [OF n]) (simp_all add: in_tree_def)
  then have f: "follows E eb n mroot D D 0 [] hs bs []" .
  show ?thesis
  proof (cases "parse_tree E eb (unat n) D 0 hs bs")
    case (Inl e)
    with f show ?thesis unfolding root_node [OF D] by (simp add: follows_def parse_block_def)
  next
    case (Inr y)
    obtain t hs' bs' where y: "y = (t, hs', bs')" by (cases y)
    have "a_eval E eb n mroot (push_bit D 1) (ast [nd (node D D 0) (Some (root_of E t))] pos hs' bs' (events E D D 0 t))
        (if root_of E t = mroot then Inr (events E D D 0 t) else Inl (Failure ''computed root''))" for pos
      by (rule a_eval.final) (rule step_final)
    with f Inr y show ?thesis
      unfolding root_node [OF D]
      by (cases "root_of E t = mroot") (simp_all add: follows_def parse_block_def)
  qed
qed

lemma CheckMerkleBlock_block:
  assumes "is_depth (unat (mbTransactions m)) D" and "0 < unat (mbTransactions m)"
    and "unat (mbTransactions m) \<le> 2 ^ 31" and "mbFlags m \<noteq> []"
  shows "CheckMerkleBlock E m = Some
    (case parse_block E (Failure ''Ran out of flag bits'') (mbTransactions m) (bhMerkleRoot (mbHeader m))
        (mbHashes m) (flag_bits (mbFlags m)) D of
       Inl e \<Rightarrow> Inl e
     | Inr t \<Rightarrow> Inr (flagged t))"
proof -
  let ?n = "mbTransactions m" and ?root = "bhMerkleRoot (mbHeader m)" and ?eb = "Failure ''Ran out of flag bits''"
  let ?st = "\<lparr>msS = [], msR = [], msPos = push_bit 1 (push_bit D 1) - 2, msI = 0,
    msHashes = mbHashes m, msFlags = mbFlags m\<rparr>"
  have "?n \<noteq> 0" using assms(2) by (metis less_irrefl unat_0)
  then have c: "CheckMerkleBlock E m = check_loop E ?n ?root (push_bit D 1) ?st"
    using assms(4) nextPowerOfTwo_ok [OF assms(1,3)] by (simp add: CheckMerkleBlock_def)
  have "check_abs ?st (ast [] (push_bit 1 (push_bit D 1) - 2) (mbHashes m) (flag_bits (mbFlags m)) [])"
    by (simp add: check_abs_def)
  from check_loop_eval [OF a_eval_parse [OF assms(1-3)] this, of E ?root]
  show ?thesis
    unfolding c
    by (cases "parse_block E ?eb ?n ?root (mbHashes m) (flag_bits (mbFlags m)) D")
      (auto simp: rel_sum.simps proj_flagged_events)
qed

text \<open>C5: CheckMerkleBlock is a parser of partial Merkle trees: with at most 2 ^ 31
  transactions it returns on every message. It refuses a message without transactions and one without
  flag bits with an error of their own; on every other message its result is that of the recursive parser
  on the message's hashes and flag bits: the parser's error, an error for a root other than the
  header's, or the flagged leaves from left to right.\<close>

theorem CheckMerkleBlock_parses:
  assumes "is_depth (unat (mbTransactions m)) D" and "unat (mbTransactions m) \<le> 2 ^ 31"
  shows "CheckMerkleBlock E m = Some
    (if mbTransactions m = 0 then Inl (Failure ''No transactions in merkleblock'')
     else if mbFlags m = [] then Inl (Failure ''No flag bits'')
     else case parse_tree E (Failure ''Ran out of flag bits'') (unat (mbTransactions m)) D 0
        (mbHashes m) (flag_bits (mbFlags m)) of
       Inl e \<Rightarrow> Inl e
     | Inr (t, _, _) \<Rightarrow>
         if root_of E t = bhMerkleRoot (mbHeader m) then Inr (flagged t) else Inl (Failure ''computed root''))"
proof (cases "mbTransactions m = 0 \<or> mbFlags m = []")
  case True
  then show ?thesis by (auto simp: CheckMerkleBlock_def)
next
  case False
  then have "0 < unat (mbTransactions m)" "mbFlags m \<noteq> []" by (simp_all add: unat_gt_0)
  from CheckMerkleBlock_block [OF assms(1) this(1) assms(2) this(2)] False show ?thesis
    unfolding parse_block_def by (simp split: sum.split prod.split)
qed

definition sample_bheader :: bheader where
  "sample_bheader = \<lparr>bhPrevious = 0, bhBits = 0, bhMerkleRoot = HashMerkleBranches codec0 (HashMerkleBranches codec0 1 2) 9,
     bhHash = 0, bhPowHash = 0\<rparr>"

text \<open>Three transactions, of which the first is flagged and the third is pruned.\<close>

definition sample_mblock :: merkle_block where
  "sample_mblock = \<lparr>mbHeader = sample_bheader, mbTransactions = 3, mbHashes = [1, 2, 9], mbFlags = [7]\<rparr>"

lemma codec0_branches: "HashMerkleBranches codec0 a b = 64 + 257 * a"
proof -
  have "le_nat (hash_bytes a @ hash_bytes b) = unat a + 2 ^ 256 * unat b"
    using unat_mod_word [of a] unat_mod_word [of b]
    by (simp add: le_nat_append hash_bytes_def le_nat_nat_le)
  moreover have "(word_of_nat (2 ^ 256 * x) :: uint256) = 0" for x
    by (simp only: word_of_nat_eq_0_iff) simp
  ultimately have "(word_of_nat (le_nat (hash_bytes a @ hash_bytes b)) :: uint256) = a"
    by (simp only: of_nat_add add_0_right) simp
  then show ?thesis by (simp add: HashMerkleBranches_def codec0_def)
qed

lemma sample_depth: "is_depth (unat (mbTransactions sample_mblock)) (Suc (Suc 0))"
  by (auto simp: is_depth_def sample_mblock_def less_Suc_eq)

lemma sample_flag_bits: "flag_bits [7] = [True, True, True, False, False, False, False, False]"
  by (simp add: flag_bits_def upt_rec bit_numeral_rec)

lemma CheckMerkleBlock_parses_witness: "CheckMerkleBlock codec0 sample_mblock = Some (Inr [1])"
proof -
  have "parse_tree codec0 eb 3 (Suc (Suc 0)) 0 [1, 2, 9] [True, True, True, False, False, False, False, False] =
      Inr (Inner (Inner (Leaf True 1) (Leaf False 2)) (Pruned 9), [], [False, False, False])" for eb
    by (simp add: codec0_branches)
  with CheckMerkleBlock_parses [OF sample_depth, of codec0] show ?thesis
    by (simp add: sample_mblock_def sample_bheader_def sample_flag_bits)
qed

lemma treeDepth_from_Some: "treeDepth_from n e = Some d \<Longrightarrow> \<not> push_bit (unat d) 1 < n"
  by (rule treeDepth_from.raw_induct [of "\<lambda>n e d. \<not> push_bit (unat d) 1 < n"])
    (auto split: if_splits)

lemma shift_bound: "unat (push_bit e 1 :: u32) \<le> 2 ^ 31"
proof (cases "e < 32")
  case True
  then have "(2 :: nat) ^ e \<le> 2 ^ 31" by (intro power_increasing) simp_all
  with True show ?thesis by (simp only: unat_one_shift)
next
  case False
  then have "(2 :: nat) ^ 32 dvd 2 ^ e" by (intro le_imp_power_dvd) simp
  then show ?thesis by (simp add: unat_push_bit)
qed

lemma treeDepth_diverges: "2 ^ 31 < unat n \<Longrightarrow> treeDepth n = None"
proof -
  assume "2 ^ 31 < unat n"
  then have "push_bit (unat d) 1 < n" for d :: u32
    using shift_bound [of "unat d"] by (simp only: word_less_nat_alt)
  then show ?thesis
    unfolding treeDepth_def using treeDepth_from_Some by (cases "treeDepth_from n 0") blast+
qed

lemma CheckMerkleBlock_None:
  "2 ^ 31 < unat (mbTransactions m) \<Longrightarrow> mbFlags m \<noteq> [] \<Longrightarrow> CheckMerkleBlock E m = None"
  by (auto simp: CheckMerkleBlock_def nextPowerOfTwo_def treeDepth_diverges)

text \<open>C9: With more than 2 ^ 31 transactions claimed, CheckMerkleBlock returns only if the message has no
  flag bits, with the error for that; on every message with flag bits it never returns, because
  the loop of treeDepth compares with a shift that wraps to 0.\<close>

theorem CheckMerkleBlock_diverges:
  assumes "2 ^ 31 < unat (mbTransactions m)"
  shows "CheckMerkleBlock E m = (if mbFlags m = [] then Some (Inl (Failure ''No flag bits'')) else None)"
proof (cases "mbFlags m = []")
  case True
  have "mbTransactions m \<noteq> 0" using assms by auto
  with True show ?thesis by (simp add: CheckMerkleBlock_def)
next
  case False
  with CheckMerkleBlock_None [OF assms] show ?thesis by simp
qed

lemma CheckMerkleBlock_diverges_witness:
  "CheckMerkleBlock codec0 (sample_mblock\<lparr>mbTransactions := 0x80000001\<rparr>) = None"
  using CheckMerkleBlock_diverges [of "sample_mblock\<lparr>mbTransactions := 0x80000001\<rparr>" codec0] by (simp add: sample_mblock_def)

subsection \<open>What a checked block proves\<close>

text \<open>The shape of a partial tree for \<open>n\<close> transactions: leaves on level 0 only, a right child
  exactly where the level has one, and no two equal siblings.\<close>

fun shaped :: "codec \<Rightarrow> nat \<Rightarrow> nat \<Rightarrow> nat \<Rightarrow> ptree \<Rightarrow> bool" where
  "shaped E n k i (Pruned h) \<longleftrightarrow> 0 < k"
| "shaped E n k i (Leaf b h) \<longleftrightarrow> k = 0"
| "shaped E n k i (Inner l r) \<longleftrightarrow> 0 < k \<and> Suc (2 * i) \<le> (n - 1) div 2 ^ (k - 1) \<and>
     shaped E n (k - 1) (2 * i) l \<and> shaped E n (k - 1) (Suc (2 * i)) r \<and> root_of E l \<noteq> root_of E r"
| "shaped E n k i (Single l) \<longleftrightarrow> 0 < k \<and> (n - 1) div 2 ^ (k - 1) < Suc (2 * i) \<and>
     shaped E n (k - 1) (2 * i) l"

lemma parse_tree_shaped:
  "parse_tree E eb n k i hs bs = Inr (t, hs', bs') \<Longrightarrow> shaped E n k i t"
  by (induction E eb n k i hs bs arbitrary: t hs' bs' rule: parse_tree.induct)
    (auto split: sum.splits if_splits)

text \<open>A Merkle path: the sibling hashes from a leaf to the root, \<open>True\<close> for a sibling on the
  left.\<close>

fun fold_path :: "codec \<Rightarrow> uint256 \<Rightarrow> (bool \<times> uint256) list \<Rightarrow> uint256" where
  "fold_path E h [] = h"
| "fold_path E h ((left, s) # p) =
     fold_path E (if left then HashMerkleBranches E s h else HashMerkleBranches E h s) p"

lemma fold_path_append: "fold_path E h (p @ q) = fold_path E (fold_path E h p) q"
  by (induction p arbitrary: h) (auto split: prod.split)

lemma flagged_path:
  "shaped E n k i t \<Longrightarrow> h \<in> set (flagged t) \<Longrightarrow> \<exists>p. length p = k \<and> fold_path E h p = root_of E t"
proof (induction t arbitrary: k i)
  case (Pruned x)
  then show ?case by simp
next
  case (Leaf b x)
  then show ?case by (auto split: if_splits)
next
  case (Inner l r)
  then consider "h \<in> set (flagged l)" | "h \<in> set (flagged r)" by auto
  then show ?case
  proof cases
    case 1
    obtain p where "length p = k - 1" "fold_path E h p = root_of E l"
      using Inner.IH(1) [of "k - 1" "2 * i"] Inner.prems(1) 1 by auto
    with Inner.prems show ?thesis
      by (intro exI [of _ "p @ [(False, root_of E r)]"]) (simp add: fold_path_append)
  next
    case 2
    obtain p where "length p = k - 1" "fold_path E h p = root_of E r"
      using Inner.IH(2) [of "k - 1" "Suc (2 * i)"] Inner.prems(1) 2 by auto
    with Inner.prems show ?thesis
      by (intro exI [of _ "p @ [(True, root_of E l)]"]) (simp add: fold_path_append)
  qed
next
  case (Single l)
  obtain p where "length p = k - 1" "fold_path E h p = root_of E l"
    using Single.IH [of "k - 1" "2 * i"] Single.prems by auto
  with Single.prems show ?case
    by (intro exI [of _ "p @ [(False, root_of E l)]"]) (simp add: fold_path_append)
qed

lemma CheckMerkleBlock_path:
  assumes "CheckMerkleBlock E m = Some (Inr txids)" and "h \<in> set txids"
  shows "\<exists>D p. is_depth (unat (mbTransactions m)) D \<and> length p = D \<and>
    fold_path E h p = bhMerkleRoot (mbHeader m)"
proof -
  let ?n = "mbTransactions m"
  have "?n \<noteq> 0" and f: "mbFlags m \<noteq> []" using assms(1) by (auto simp: CheckMerkleBlock_def split: if_splits)
  then have n: "0 < unat ?n" by (simp add: unat_gt_0)
  obtain D where D: "is_depth (unat ?n) D" using ex_depth by blast
  have le: "unat ?n \<le> 2 ^ 31" using assms(1) f CheckMerkleBlock_None [of m E] by (simp flip: not_less) force
  from assms(1) obtain t where t:
    "parse_block E (Failure ''Ran out of flag bits'') ?n (bhMerkleRoot (mbHeader m))
      (mbHashes m) (flag_bits (mbFlags m)) D = Inr t" "txids = flagged t"
    unfolding CheckMerkleBlock_block [OF D n le f] by (auto split: sum.splits)
  then have "shaped E (unat ?n) D 0 t" "root_of E t = bhMerkleRoot (mbHeader m)"
    by (auto simp: parse_block_def split: sum.splits if_splits dest: parse_tree_shaped)
  with flagged_path [of E "unat ?n" D 0 t h] assms(2) t(2) D show ?thesis by auto
qed

text \<open>C2: What CheckMerkleBlock accepts is proved by the message: each transaction id it
  returns has a Merkle path, one hash per level of the tree for the claimed number of
  transactions, to the Merkle root of the header.\<close>

theorem CheckMerkleBlock_sound:
  assumes "CheckMerkleBlock E m = Some (Inr txids)" and "h \<in> set txids"
  shows "\<exists>D p. is_depth (unat (mbTransactions m)) D \<and> length p = D \<and>
    fold_path E h p = bhMerkleRoot (mbHeader m)"
  using assms by (rule CheckMerkleBlock_path)

lemma CheckMerkleBlock_sound_witness:
  "\<exists>D p. is_depth 1 D \<and> length p = D \<and> fold_path codec0 5 p = 5"
proof -
  let ?m = "\<lparr>mbHeader = sample_bheader\<lparr>bhMerkleRoot := 5\<rparr>, mbTransactions = 1, mbHashes = [5], mbFlags = [1]\<rparr>"
  have "is_depth (unat (mbTransactions ?m)) 0" by (simp add: is_depth_def)
  from CheckMerkleBlock_block [OF this, of codec0] have "CheckMerkleBlock codec0 ?m = Some (Inr [5])"
    by (simp add: flag_bits_def upt_rec parse_block_def)
  from CheckMerkleBlock_sound [OF this, of 5] show ?thesis by simp
qed

text \<open>The nodes \<open>getNodes\<close> returns are those of the parsed tree.\<close>

lemma getNodes_block:
  assumes "is_depth (unat n) D" and "0 < unat n" and "unat n \<le> 2 ^ 31" and "bits \<noteq> []"
  shows "getNodes E n mroot hs bits = Some
    (case parse_block E (Failure ''Ran out of bits'') n mroot hs (map (\<lambda>b. b \<noteq> 0) bits) D of
       Inl e \<Rightarrow> Inl e
     | Inr t \<Rightarrow> Inr (nodes_map (events E D D 0 t)))"
proof -
  let ?eb = "Failure ''Ran out of bits''" and ?bs = "map (\<lambda>b. b \<noteq> 0) bits"
  let ?st = "\<lparr>gsS = [], gsR = Map.empty, gsPos = push_bit 1 (push_bit D 1) - 2, gsHashes = hs, gsBits = bits\<rparr>"
  have "n \<noteq> 0" using assms(2) by (metis less_irrefl unat_0)
  then have c: "getNodes E n mroot hs bits = nodes_loop E n mroot (push_bit D 1) ?st"
    using assms(4) nextPowerOfTwo_ok [OF assms(1,3)] by (simp add: getNodes_def)
  have "nodes_abs ?st (ast [] (push_bit 1 (push_bit D 1) - 2) hs ?bs [])"
    by (simp add: nodes_abs_def nodes_map_def)
  from nodes_loop_eval [OF a_eval_parse [OF assms(1-3)] this, of E mroot]
  show ?thesis
    unfolding c by (cases "parse_block E ?eb n mroot hs ?bs D") (auto simp: rel_sum.simps)
qed

end
