(* ===== verification/MerkleBuild.thy ===== *)
theory MerkleBuild
  imports MerkleBlock
begin

text \<open>
  Building a Merkle block for a filter: \<open>mBlock\<close> and \<open>NewMerkleBlock\<close> of
  \<open>bloom/merkleblock.go\<close>. The main result is the round trip with
  \<open>CheckMerkleBlock\<close>: the receiver gets the ids of the transactions that matched.
\<close>

record mblk =
  mkNumTx :: u32
  mkAllHashes :: "uint256 list"
  mkFinalHashes :: "uint256 list"
  mkMatchedBits :: bytes
  mkBits :: bytes

definition calcTreeWidth :: "u32 \<Rightarrow> u32 \<Rightarrow> u32" where
  "calcTreeWidth numTx height = drop_bit (unat height) (numTx + push_bit (unat height) 1 - 1)"

fun calcHash :: "codec \<Rightarrow> mblk \<Rightarrow> nat \<Rightarrow> u32 \<Rightarrow> goerror + uint256" where
  "calcHash E m 0 pos =
     (if length (mkAllHashes m) \<le> unat pos then Inl (Panic ''index out of range'')
      else Inr (mkAllHashes m ! unat pos))"
| "calcHash E m (Suc height) pos =
     (case calcHash E m height (pos * 2) of
        Inl e \<Rightarrow> Inl e
      | Inr left \<Rightarrow>
          if pos * 2 + 1 < calcTreeWidth (mkNumTx m) (word_of_nat height) then
            (case calcHash E m height (pos * 2 + 1) of
               Inl e \<Rightarrow> Inl e
             | Inr right \<Rightarrow> Inr (HashMerkleBranches E left right))
          else Inr (HashMerkleBranches E left left))"

text \<open>The loop that ors the matched bits below a node; \<open>fuel\<close> bounds the number of turns,
  \<open>2 ^ height\<close> being enough.\<close>

fun parent_loop :: "mblk \<Rightarrow> nat \<Rightarrow> u32 \<Rightarrow> u32 \<Rightarrow> u8 \<Rightarrow> goerror + u8" where
  "parent_loop m 0 i stop acc = Inr acc"
| "parent_loop m (Suc fuel) i stop acc =
     (if i < stop \<and> i < mkNumTx m then
        if length (mkMatchedBits m) \<le> unat i then Inl (Panic ''index out of range'')
        else parent_loop m fuel (i + 1) stop (acc OR mkMatchedBits m ! unat i)
      else Inr acc)"

fun traverseAndBuild :: "codec \<Rightarrow> nat \<Rightarrow> u32 \<Rightarrow> mblk \<Rightarrow> goerror + mblk" where
  "traverseAndBuild E height pos m =
     (case parent_loop m (2 ^ height) (push_bit height pos) (push_bit height (pos + 1)) 0 of
        Inl e \<Rightarrow> Inl e
      | Inr isParent \<Rightarrow>
          let m = m\<lparr>mkBits := mkBits m @ [isParent]\<rparr> in
          if height = 0 \<or> isParent = 0 then
            (case calcHash E m height pos of
               Inl e \<Rightarrow> Inl e
             | Inr h \<Rightarrow> Inr (m\<lparr>mkFinalHashes := mkFinalHashes m @ [h]\<rparr>))
          else
            (case traverseAndBuild E (height - 1) (pos * 2) m of
               Inl e \<Rightarrow> Inl e
             | Inr m \<Rightarrow>
                 if pos * 2 + 1 < calcTreeWidth (mkNumTx m) (word_of_nat (height - 1))
                 then traverseAndBuild E (height - 1) (pos * 2 + 1) m
                 else Inr m))"

declare traverseAndBuild.simps [simp del]

partial_function (option) height_loop :: "u32 \<Rightarrow> u32 \<Rightarrow> u32 option" where
  "height_loop numTx height =
     (if 1 < calcTreeWidth numTx height then height_loop numTx (height + 1) else Some height)"

text \<open>The loop over the transactions: matched bits, hashes, matched indexes and the filter.\<close>

fun match_txs ::
  "codec \<Rightarrow> txn list \<Rightarrow> nat \<Rightarrow> bfilter \<Rightarrow> goerror + (bytes \<times> uint256 list \<times> u32 list \<times> bfilter)" where
  "match_txs E [] index f = Inr ([], [], [], f)"
| "match_txs E (tx # txs) index f =
     (case MatchFilter bloom_if E tx f of
        Inl e \<Rightarrow> Inl e
      | Inr (b, f) \<Rightarrow>
          (case match_txs E txs (Suc index) f of
             Inl e \<Rightarrow> Inl e
           | Inr (bits, hashes, idxs, f) \<Rightarrow>
               Inr ((if b then 1 else 0) # bits, txHash tx # hashes,
                    (if b then [word_of_nat index] else []) @ idxs, f)))"

text \<open>Packing of the bits, eight to a byte.\<close>

fun pack_loop :: "bytes \<Rightarrow> nat \<Rightarrow> bytes \<Rightarrow> bytes" where
  "pack_loop [] i flags = flags"
| "pack_loop (b # bits) i flags =
     pack_loop bits (Suc i) (flags[i div 8 := flags ! (i div 8) OR push_bit (i mod 8) b])"

definition pack_bits :: "bytes \<Rightarrow> bytes" where
  "pack_bits bits = pack_loop bits 0 (replicate ((length bits + 7) div 8) 0)"

definition NewMerkleBlock ::
  "codec \<Rightarrow> block \<Rightarrow> bfilter \<Rightarrow> (goerror + (merkle_block \<times> u32 list) \<times> bfilter) option" where
  "NewMerkleBlock E blk bf =
     (let numTx = word_of_nat (length (blkTransactions blk))
      in case match_txs E (blkTransactions blk) 0 bf of
           Inl e \<Rightarrow> Some (Inl e)
         | Inr (matched, hashes, idxs, bf) \<Rightarrow>
             let m = \<lparr>mkNumTx = numTx, mkAllHashes = hashes, mkFinalHashes = [],
                      mkMatchedBits = matched, mkBits = []\<rparr>
             in case height_loop numTx 0 of
                  None \<Rightarrow> None
                | Some height \<Rightarrow>
                    (case traverseAndBuild E (unat height) 0 m of
                       Inl e \<Rightarrow> Some (Inl e)
                     | Inr m \<Rightarrow>
                         Some (Inr ((\<lparr>mbHeader = hdrBH (blkHeader blk), mbTransactions = numTx,
                                     mbHashes = mkFinalHashes m, mbFlags = pack_bits (mkBits m)\<rparr>,
                                    idxs), bf))))"

subsection \<open>The bits of a block\<close>

lemma length_flag_bits [simp]: "length (flag_bits fs) = 8 * length fs"
  by (induction fs) (simp_all add: flag_bits_Cons)

lemma flag_bits_nth: "k < 8 * length fs \<Longrightarrow> flag_bits fs ! k = bit (fs ! (k div 8)) (k mod 8)"
proof (induction fs arbitrary: k)
  case Nil
  then show ?case by simp
next
  case (Cons f fs)
  show ?case
  proof (cases "k < 8")
    case True
    then show ?thesis by (simp add: flag_bits_Cons nth_append)
  next
    case False
    then have "k div 8 = Suc ((k - 8) div 8)" "k mod 8 = (k - 8) mod 8"
      by (simp_all add: le_div_geq le_mod_geq)
    with False Cons show ?thesis by (simp add: flag_bits_Cons nth_append)
  qed
qed

lemma length_pack_loop [simp]: "length (pack_loop bits i flags) = length flags"
  by (induction bits i flags rule: pack_loop.induct) simp_all

lemma bit_shift_byte: "j < 8 \<Longrightarrow> b \<in> {0, 1} \<Longrightarrow> bit (push_bit m b :: u8) j \<longleftrightarrow> b \<noteq> 0 \<and> j = m"
  by (auto simp: bit_push_bit_iff bit_1_iff)

lemma pack_loop_bit:
  assumes "set bits \<subseteq> {0, 1}" and "i + length bits \<le> 8 * length flags" and "k < 8 * length flags"
  shows "bit (pack_loop bits i flags ! (k div 8)) (k mod 8) \<longleftrightarrow>
    bit (flags ! (k div 8)) (k mod 8) \<or> i \<le> k \<and> k < i + length bits \<and> bits ! (k - i) \<noteq> 0"
  using assms
proof (induction bits i flags rule: pack_loop.induct)
  case (1 i flags)
  then show ?case by auto
next
  case (2 b bits i flags)
  let ?f = "flags[i div 8 := flags ! (i div 8) OR push_bit (i mod 8) b]"
  have l: "i div 8 < length flags" using 2(3) by simp
  have "k mod 8 = i mod 8 \<and> k div 8 = i div 8 \<longleftrightarrow> k = i" by (metis div_mult_mod_eq)
  then have "bit (?f ! (k div 8)) (k mod 8) \<longleftrightarrow> bit (flags ! (k div 8)) (k mod 8) \<or> k = i \<and> b \<noteq> 0"
    using l 2(2) bit_shift_byte [of "k mod 8" b "i mod 8"]
    by (cases "k div 8 = i div 8") (auto simp: bit_or_iff)
  moreover have "bit (pack_loop bits (Suc i) ?f ! (k div 8)) (k mod 8) \<longleftrightarrow>
      bit (?f ! (k div 8)) (k mod 8) \<or> Suc i \<le> k \<and> k < Suc i + length bits \<and> bits ! (k - Suc i) \<noteq> 0"
    using 2 by simp
  ultimately show ?case by (auto simp: nth_Cons' not_less_eq_eq)
qed

lemma flag_bits_pack:
  assumes "set bits \<subseteq> {0, 1}"
  shows "\<exists>pad. flag_bits (pack_bits bits) = map (\<lambda>b. b \<noteq> 0) bits @ pad"
proof -
  let ?n = "(length bits + 7) div 8"
  have le: "length bits \<le> 8 * ?n" by simp
  have len: "length (flag_bits (pack_bits bits)) = 8 * ?n" by (simp add: pack_bits_def)
  have "flag_bits (pack_bits bits) ! k = (bits ! k \<noteq> 0)" if "k < length bits" for k
  proof -
    have k: "k < 8 * ?n" using that le by simp
    then have "k div 8 < ?n" by simp
    with pack_loop_bit [OF assms, of 0 "replicate ?n 0" k] le k that show ?thesis
      by (simp add: flag_bits_nth pack_bits_def)
  qed
  then have "take (length bits) (flag_bits (pack_bits bits)) = map (\<lambda>b. b \<noteq> 0) bits"
    using le len by (intro nth_equalityI) simp_all
  then show ?thesis by (metis append_take_drop_id)
qed

subsection \<open>The tree of a block\<close>

text \<open>The hash of node \<open>i\<close> of level \<open>k\<close> of the full tree over the ids \<open>hs\<close>.\<close>

fun node_hash :: "codec \<Rightarrow> uint256 list \<Rightarrow> nat \<Rightarrow> nat \<Rightarrow> uint256" where
  "node_hash E hs 0 i = hs ! i"
| "node_hash E hs (Suc k) i =
     (let l = node_hash E hs k (2 * i)
      in if Suc (2 * i) \<le> (length hs - 1) div 2 ^ k
         then HashMerkleBranches E l (node_hash E hs k (Suc (2 * i)))
         else HashMerkleBranches E l l)"

lemma width_unat:
  assumes "0 < unat n" and "unat n \<le> 2 ^ 31" and "k \<le> 31"
  shows "unat (calcTreeWidth n (word_of_nat k)) = Suc ((unat n - 1) div 2 ^ k)"
proof -
  have k: "unat (word_of_nat k :: u32) = k" using assms(3) by (intro unat_of_nat_small) simp
  have p: "(2 :: nat) ^ k \<le> 2 ^ 31" using assms(3) by (intro power_increasing) simp_all
  have "unat (n - 1) = unat n - 1" using assms(1) by (subst unat_sub) (simp_all add: word_le_nat_alt)
  moreover have "n + push_bit k 1 - 1 = (n - 1) + push_bit k 1" by simp
  moreover have "unat (n - 1) + 2 ^ k < 2 ^ 32" using calculation(1) assms p by simp
  ultimately have "unat (n + push_bit k 1 - 1) = unat n - 1 + 2 ^ k"
    using assms(3) by (simp only: unat_add_lem [THEN iffD1] unat_msb) (simp add: unat_word_ariths unat_msb)
  then have "unat (calcTreeWidth n (word_of_nat k)) = (unat n - 1 + 2 ^ k) div 2 ^ k"
    by (simp only: calcTreeWidth_def k unat_drop_bit)
  then show ?thesis by simp
qed

lemma child_less:
  assumes "i \<le> (n - 1) div 2 ^ Suc k"
  shows "2 * i \<le> (n - 1 :: nat) div 2 ^ k"
proof -
  have "i \<le> (n - 1) div 2 ^ k div 2" using assms by (simp only: power_Suc2 div_mult2_eq)
  then show ?thesis by linarith
qed

lemma unat_pos: "i \<le> (n - 1) div 2 ^ k \<Longrightarrow> n \<le> 2 ^ 31 \<Longrightarrow> unat (word_of_nat i :: u32) = i"
proof -
  assume "i \<le> (n - 1) div 2 ^ k" and "n \<le> 2 ^ 31"
  then have "i \<le> 2 ^ 31" by (meson diff_le_self div_le_dividend le_trans)
  then show ?thesis by (intro unat_of_nat_small) simp
qed

lemma has_right:
  assumes "0 < unat n" and "unat n \<le> 2 ^ 31" and "k \<le> 31" and "i \<le> (unat n - 1) div 2 ^ Suc k"
  shows "word_of_nat (Suc (2 * i)) < calcTreeWidth n (word_of_nat k) \<longleftrightarrow> Suc (2 * i) \<le> (unat n - 1) div 2 ^ k"
    and "(word_of_nat i * 2 :: u32) = word_of_nat (2 * i)"
    and "(word_of_nat (2 * i) + 1 :: u32) = word_of_nat (Suc (2 * i))"
proof -
  show "(word_of_nat i * 2 :: u32) = word_of_nat (2 * i)" by (simp add: mult.commute)
  show "(word_of_nat (2 * i) + 1 :: u32) = word_of_nat (Suc (2 * i))" by simp
  have "2 * i \<le> 2 ^ 31"
    using child_less [OF assms(4)] assms(2) by (meson diff_le_self div_le_dividend le_trans)
  then have "unat (word_of_nat (Suc (2 * i)) :: u32) = Suc (2 * i)" by (intro unat_of_nat_small) simp
  then show "word_of_nat (Suc (2 * i)) < calcTreeWidth n (word_of_nat k) \<longleftrightarrow> Suc (2 * i) \<le> (unat n - 1) div 2 ^ k"
    unfolding word_less_nat_alt width_unat [OF assms(1-3)] by (simp only:) linarith
qed

text \<open>A builder state for \<open>n\<close> transactions.\<close>

definition mblk_ok :: "mblk \<Rightarrow> bool" where
  "mblk_ok m \<longleftrightarrow> 0 < unat (mkNumTx m) \<and> unat (mkNumTx m) \<le> 2 ^ 31 \<and>
     length (mkAllHashes m) = unat (mkNumTx m) \<and> length (mkMatchedBits m) = unat (mkNumTx m) \<and>
     set (mkMatchedBits m) \<subseteq> {0, 1}"

lemma calcHash_ok:
  assumes "mblk_ok m"
  shows "k \<le> 31 \<Longrightarrow> i \<le> (unat (mkNumTx m) - 1) div 2 ^ k \<Longrightarrow>
    calcHash E m k (word_of_nat i) = Inr (node_hash E (mkAllHashes m) k i)"
proof (induction k arbitrary: i)
  case 0
  then have "unat (word_of_nat i :: u32) = i" using assms by (intro unat_pos [where k = 0]) (auto simp: mblk_ok_def)
  moreover have "i < unat (mkNumTx m)" using 0 assms by (auto simp: mblk_ok_def)
  ultimately show ?case using assms by (simp add: mblk_ok_def)
next
  case (Suc k)
  have n: "0 < unat (mkNumTx m)" "unat (mkNumTx m) \<le> 2 ^ 31" "length (mkAllHashes m) = unat (mkNumTx m)"
    using assms by (simp_all add: mblk_ok_def)
  have k: "k \<le> 31" using Suc.prems(1) by simp
  note r = has_right [OF n(1,2) k Suc.prems(2)]
  show ?case
    using Suc.IH [OF k] child_less [OF Suc.prems(2)]
    by (simp only: calcHash.simps node_hash.simps r n(3) Let_def sum.case if_True if_False split: if_split)
      (simp del: of_nat_Suc of_nat_mult)
qed

subsection \<open>The traversal writes a partial tree\<close>

text \<open>A node is the parent of a match when a transaction below it matched.\<close>

definition matched_below :: "bytes \<Rightarrow> nat \<Rightarrow> nat \<Rightarrow> bool" where
  "matched_below bits k i \<longleftrightarrow> (\<exists>j \<in> {0 ..< length bits}. j div 2 ^ k = i \<and> bits ! j \<noteq> 0)"

lemma div_pow_iff: "j div 2 ^ k = i \<longleftrightarrow> i * 2 ^ k \<le> j \<and> j < (i + 1) * 2 ^ k" for i j :: nat
  using dividend_less_div_times [of "2 ^ k" j] by (auto intro: div_nat_eqI simp: mult.commute)

lemma matched_below_range:
  "matched_below bits k i \<longleftrightarrow> (\<exists>j \<in> {i * 2 ^ k ..< min (length bits) ((i + 1) * 2 ^ k)}. bits ! j \<noteq> 0)"
  unfolding matched_below_def div_pow_iff by auto

fun block_tree :: "codec \<Rightarrow> uint256 list \<Rightarrow> bytes \<Rightarrow> nat \<Rightarrow> nat \<Rightarrow> ptree" where
  "block_tree E hs bits 0 i = Leaf (matched_below bits 0 i) (hs ! i)"
| "block_tree E hs bits (Suc k) i =
     (if \<not> matched_below bits (Suc k) i then Pruned (node_hash E hs (Suc k) i)
      else if Suc (2 * i) \<le> (length hs - 1) div 2 ^ k
      then Inner (block_tree E hs bits k (2 * i)) (block_tree E hs bits k (Suc (2 * i)))
      else Single (block_tree E hs bits k (2 * i)))"

fun tree_bits :: "ptree \<Rightarrow> bytes" where
  "tree_bits (Pruned h) = [0]"
| "tree_bits (Leaf b h) = [if b then 1 else 0]"
| "tree_bits (Inner l r) = 1 # tree_bits l @ tree_bits r"
| "tree_bits (Single l) = 1 # tree_bits l"

fun tree_hashes :: "ptree \<Rightarrow> uint256 list" where
  "tree_hashes (Pruned h) = [h]"
| "tree_hashes (Leaf b h) = [h]"
| "tree_hashes (Inner l r) = tree_hashes l @ tree_hashes r"
| "tree_hashes (Single l) = tree_hashes l"

lemma tree_bits_bool: "set (tree_bits t) \<subseteq> {0, 1}"
  by (induction t) auto

lemma or_bool: "a \<in> {0, 1} \<Longrightarrow> b \<in> {0, 1} \<Longrightarrow> a OR b = (if a \<noteq> 0 \<or> b \<noteq> 0 then 1 else 0)" for a b :: u8
  by auto

lemma parent_loop_ok:
  assumes "mblk_ok m" and "acc \<in> {0, 1}" and "unat stop \<le> unat i + fuel" and "unat i \<le> 2 ^ 31"
  shows "parent_loop m fuel i stop acc =
    Inr (if acc \<noteq> 0 \<or> (\<exists>j \<in> {unat i ..< min (unat (mkNumTx m)) (unat stop)}. mkMatchedBits m ! j \<noteq> 0) then 1 else 0)"
  using assms(2-4)
proof (induction fuel arbitrary: i acc)
  case 0
  then show ?case by auto
next
  case (Suc fuel)
  have n: "unat (mkNumTx m) \<le> 2 ^ 31" "length (mkMatchedBits m) = unat (mkNumTx m)" "set (mkMatchedBits m) \<subseteq> {0, 1}"
    using assms(1) by (simp_all add: mblk_ok_def)
  show ?case
  proof (cases "i < stop \<and> i < mkNumTx m")
    case False
    then have "{unat i ..< min (unat (mkNumTx m)) (unat stop)} = {}"
      by (auto simp: word_less_nat_alt)
    with False Suc.prems(1) show ?thesis by auto
  next
    case True
    then have i: "unat i < unat stop" "unat i < unat (mkNumTx m)" by (simp_all add: word_less_nat_alt)
    let ?b = "mkMatchedBits m ! unat i"
    have b: "?b \<in> {0, 1}" using n(2,3) i(2) by (metis nth_mem subsetD)
    have u: "unat (i + 1) = Suc (unat i)" using i(2) n(1) by (simp add: unat_word_ariths)
    have "acc OR ?b \<in> {0, 1}" using b Suc.prems(1) by (simp add: or_bool)
    from Suc.IH [OF this, of "i + 1"] have
      "parent_loop m fuel (i + 1) stop (acc OR ?b) =
        Inr (if acc OR ?b \<noteq> 0 \<or> (\<exists>j \<in> {Suc (unat i) ..< min (unat (mkNumTx m)) (unat stop)}. mkMatchedBits m ! j \<noteq> 0) then 1 else 0)"
      using Suc.prems(2) i n(1) unfolding u by simp
    moreover have "{unat i ..< min (unat (mkNumTx m)) (unat stop)} =
        insert (unat i) {Suc (unat i) ..< min (unat (mkNumTx m)) (unat stop)}"
      using i by auto
    moreover have "acc OR ?b \<noteq> 0 \<longleftrightarrow> acc \<noteq> 0 \<or> ?b \<noteq> 0"
      using or_bool [OF Suc.prems(1) b] by auto
    moreover have "parent_loop m (Suc fuel) i stop acc = parent_loop m fuel (i + 1) stop (acc OR ?b)"
      using True i(2) n(2) by simp
    ultimately show ?thesis by simp
  qed
qed

lemma parent_ok:
  assumes m: "mblk_ok m" and k: "k \<le> 31" and i: "i \<le> (unat (mkNumTx m) - 1) div 2 ^ k"
  shows "parent_loop m (2 ^ k) (push_bit k (word_of_nat i)) (push_bit k (word_of_nat i + 1)) 0 =
    Inr (if matched_below (mkMatchedBits m) k i then 1 else 0)"
proof -
  have n: "0 < unat (mkNumTx m)" "unat (mkNumTx m) \<le> 2 ^ 31" "length (mkMatchedBits m) = unat (mkNumTx m)"
    using m by (simp_all add: mblk_ok_def)
  have "i * 2 ^ k \<le> unat (mkNumTx m) - 1" using i by (metis div_times_less_eq_dividend le_trans mult_le_mono1)
  then have lt: "i * 2 ^ k < 2 ^ 31" using n by linarith
  have p: "(2 :: nat) ^ k \<le> 2 ^ 31" using k by (intro power_increasing) simp_all
  have "i \<le> i * 2 ^ k" by simp
  with lt have "i < 2 ^ 31" by (rule le_less_trans [rotated])
  then have u: "unat (word_of_nat i :: u32) = i" "unat (word_of_nat (i + 1) :: u32) = i + 1"
    by (intro unat_of_nat_small; simp)+
  have e: "(word_of_nat i + 1 :: u32) = word_of_nat (i + 1)" by simp
  have a: "unat (push_bit k (word_of_nat i) :: u32) = i * 2 ^ k"
    using lt by (simp only: unat_push_bit u) simp
  have "(i + 1) * 2 ^ k < 2 ^ 32" using lt p by simp
  then have b: "unat (push_bit k (word_of_nat i + 1) :: u32) = (i + 1) * 2 ^ k"
    by (simp only: e unat_push_bit u) simp
  show ?thesis
    using parent_loop_ok [OF m, of 0 "push_bit k (word_of_nat i + 1)" "push_bit k (word_of_nat i)" "2 ^ k"] lt
    unfolding a b by (simp add: matched_below_range n(3))
qed

lemma matched_child:
  "matched_below bits (Suc k) i \<longleftrightarrow> matched_below bits k (2 * i) \<or> matched_below bits k (Suc (2 * i))"
proof -
  have "j div 2 ^ Suc k = i \<longleftrightarrow> j div 2 ^ k = 2 * i \<or> j div 2 ^ k = Suc (2 * i)" for j
    unfolding power_Suc2 div_mult2_eq by linarith
  then show ?thesis unfolding matched_below_def by auto
qed

lemma traverse_ok:
  assumes "mblk_ok m" and "k \<le> 31" and "i \<le> (unat (mkNumTx m) - 1) div 2 ^ k"
  shows "traverseAndBuild E k (word_of_nat i) m =
    (let t = block_tree E (mkAllHashes m) (mkMatchedBits m) k i
     in Inr (m\<lparr>mkBits := mkBits m @ tree_bits t, mkFinalHashes := mkFinalHashes m @ tree_hashes t\<rparr>))"
  using assms
proof (induction k arbitrary: i m)
  case 0
  note p = parent_ok [OF 0(1,2,3)]
  have c: "calcHash E (m\<lparr>mkBits := bs\<rparr>) 0 (word_of_nat i) = Inr (mkAllHashes m ! i)" for bs
    using calcHash_ok [of "m\<lparr>mkBits := bs\<rparr>" 0 i E] 0 by (simp add: mblk_ok_def)
  show ?case
    by (subst traverseAndBuild.simps, simp only: p sum.case Let_def c) simp
next
  case (Suc k)
  have n: "0 < unat (mkNumTx m)" "unat (mkNumTx m) \<le> 2 ^ 31" "length (mkAllHashes m) = unat (mkNumTx m)"
    using Suc.prems(1) by (simp_all add: mblk_ok_def)
  have k: "k \<le> 31" using Suc.prems(2) by simp
  note p = parent_ok [OF Suc.prems]
  note r = has_right [OF n(1,2) k Suc.prems(3)]
  let ?b = "matched_below (mkMatchedBits m) (Suc k) i"
  let ?m = "m\<lparr>mkBits := mkBits m @ [if ?b then 1 else 0]\<rparr>"
  have c: "calcHash E (m\<lparr>mkBits := bs\<rparr>) (Suc k) (word_of_nat i) = Inr (node_hash E (mkAllHashes m) (Suc k) i)" for bs
    using calcHash_ok [of "m\<lparr>mkBits := bs\<rparr>" "Suc k" i E] Suc.prems by (simp add: mblk_ok_def)
  show ?case
  proof (cases ?b)
    case False
    then show ?thesis
      by (subst traverseAndBuild.simps, simp only: p sum.case Let_def c if_False block_tree.simps) simp
  next
    case True
    have ok: "mblk_ok (m\<lparr>mkBits := bs, mkFinalHashes := hs\<rparr>)" for bs hs
      using Suc.prems(1) by (simp add: mblk_ok_def)
    have left: "traverseAndBuild E k (word_of_nat (2 * i)) ?m =
      (let t = block_tree E (mkAllHashes m) (mkMatchedBits m) k (2 * i)
       in Inr (m\<lparr>mkBits := (mkBits m @ [1]) @ tree_bits t, mkFinalHashes := mkFinalHashes m @ tree_hashes t\<rparr>))"
      using Suc.IH [of ?m "2 * i"] ok [where bs = "mkBits m @ [1]" and hs = "mkFinalHashes m"] k child_less [OF Suc.prems(3)] True
      by simp
    have right: "traverseAndBuild E k (word_of_nat (Suc (2 * i))) (m\<lparr>mkBits := bs, mkFinalHashes := hs\<rparr>) =
      (let t = block_tree E (mkAllHashes m) (mkMatchedBits m) k (Suc (2 * i))
       in Inr (m\<lparr>mkBits := bs @ tree_bits t, mkFinalHashes := hs @ tree_hashes t\<rparr>))"
      if "Suc (2 * i) \<le> (unat (mkNumTx m) - 1) div 2 ^ k" for bs hs
      using Suc.IH [of "m\<lparr>mkBits := bs, mkFinalHashes := hs\<rparr>" "Suc (2 * i)"] ok k that by simp
    have "traverseAndBuild E (Suc k) (word_of_nat i) m =
      (case traverseAndBuild E k (word_of_nat (2 * i)) ?m of
         Inl e \<Rightarrow> Inl e
       | Inr m \<Rightarrow>
           if word_of_nat (Suc (2 * i)) < calcTreeWidth (mkNumTx m) (word_of_nat k)
           then traverseAndBuild E k (word_of_nat (Suc (2 * i))) m else Inr m)"
      using True by (subst traverseAndBuild.simps, simp only: p sum.case Let_def if_True r(2,3) diff_Suc_1) simp
    then show ?thesis
      using True right n(3) unfolding left by (simp add: Let_def r(1) del: of_nat_Suc of_nat_mult)
  qed
qed

subsection \<open>Reading back what was written\<close>

lemma tree_hashes_ne: "tree_hashes t \<noteq> []"
  by (induction t) simp_all

lemma parse_written:
  "shaped E n k i t \<Longrightarrow>
   parse_tree E eb n k i (tree_hashes t @ hs) (map (\<lambda>b. b \<noteq> 0) (tree_bits t) @ bs) = Inr (t, hs, bs)"
proof (induction t arbitrary: k i hs bs)
  case (Pruned h)
  then show ?case by (cases k) simp_all
next
  case (Leaf b h)
  then show ?case by simp
next
  case (Inner l r)
  then obtain j where k: "k = Suc j" by (cases k) simp_all
  obtain h hs' where "tree_hashes l = h # hs'" using tree_hashes_ne [of l] by (cases "tree_hashes l") simp_all
  with Inner k show ?case by fastforce
next
  case (Single l)
  then obtain j where k: "k = Suc j" by (cases k) simp_all
  obtain h hs' where "tree_hashes l = h # hs'" using tree_hashes_ne [of l] by (cases "tree_hashes l") simp_all
  with Single k show ?case by fastforce
qed

lemma root_of_block_tree: "root_of E (block_tree E hs bits k i) = node_hash E hs k i"
  by (induction k arbitrary: i) (simp_all add: Let_def)

text \<open>No two siblings of the full tree have the same hash.\<close>

definition no_twins :: "codec \<Rightarrow> uint256 list \<Rightarrow> bool" where
  "no_twins E hs \<longleftrightarrow> (\<forall>k i. Suc (2 * i) \<le> (length hs - 1) div 2 ^ k \<longrightarrow>
     node_hash E hs k (2 * i) \<noteq> node_hash E hs k (Suc (2 * i)))"

lemma shaped_block_tree: "no_twins E hs \<Longrightarrow> shaped E (length hs) k i (block_tree E hs bits k i)"
  by (induction k arbitrary: i) (auto simp: no_twins_def root_of_block_tree)

text \<open>The indexes of the matched transactions below a node, in order.\<close>

definition matched_idx :: "bytes \<Rightarrow> nat \<Rightarrow> nat \<Rightarrow> nat list" where
  "matched_idx bits k i = filter (\<lambda>j. j div 2 ^ k = i \<and> bits ! j \<noteq> 0) [0 ..< length bits]"

lemma matched_idx_none: "\<not> matched_below bits k i \<longleftrightarrow> matched_idx bits k i = []"
  by (auto simp: matched_idx_def matched_below_def filter_empty_conv)

lemma filter_split:
  "\<forall>x \<in> set xs. P x \<longrightarrow> \<not> Q x \<Longrightarrow> sorted xs \<Longrightarrow> \<forall>x \<in> set xs. \<forall>y \<in> set xs. P x \<and> Q y \<longrightarrow> x < y \<Longrightarrow>
   filter (\<lambda>x. P x \<or> Q x) xs = filter P xs @ filter Q xs" for xs :: "nat list"
proof (induction xs)
  case Nil
  then show ?case by simp
next
  case (Cons a xs)
  then have IH: "filter (\<lambda>x. P x \<or> Q x) xs = filter P xs @ filter Q xs" by simp
  show ?case
  proof (cases "Q a")
    case True
    then have "filter P xs = []" using Cons.prems by (fastforce simp: filter_empty_conv)
    with True IH Cons.prems(1) show ?thesis by auto
  next
    case False
    with IH show ?thesis by simp
  qed
qed

lemma matched_idx_child:
  "matched_idx bits (Suc k) i = matched_idx bits k (2 * i) @ matched_idx bits k (Suc (2 * i))"
proof -
  have e: "j div 2 ^ Suc k = i \<longleftrightarrow> j div 2 ^ k = 2 * i \<or> j div 2 ^ k = Suc (2 * i)" for j
    unfolding power_Suc2 div_mult2_eq by linarith
  have lt: "x < y" if "x div 2 ^ k = 2 * i" "y div 2 ^ k = Suc (2 * i)" for x y :: nat
  proof (rule ccontr)
    assume "\<not> x < y"
    then have "y div 2 ^ k \<le> x div 2 ^ k" by (intro div_le_mono) simp
    with that show False by simp
  qed
  have "matched_idx bits (Suc k) i =
    filter (\<lambda>j. (j div 2 ^ k = 2 * i \<and> bits ! j \<noteq> 0) \<or> (j div 2 ^ k = Suc (2 * i) \<and> bits ! j \<noteq> 0)) [0 ..< length bits]"
    unfolding matched_idx_def e by (rule filter_cong) auto
  also have "\<dots> = matched_idx bits k (2 * i) @ matched_idx bits k (Suc (2 * i))"
    unfolding matched_idx_def by (rule filter_split) (auto intro: lt)
  finally show ?thesis .
qed

lemma matched_idx_leaf: "matched_idx bits 0 i = (if i < length bits \<and> bits ! i \<noteq> 0 then [i] else [])"
proof -
  have "filter (\<lambda>j. j = i \<and> bits ! j \<noteq> 0) [0 ..< n] = (if i < n \<and> bits ! i \<noteq> 0 then [i] else [])" for n
    by (induction n) auto
  then show ?thesis by (simp add: matched_idx_def)
qed

lemma flagged_block_tree:
  assumes "length bits = length hs"
  shows "flagged (block_tree E hs bits k i) = map ((!) hs) (matched_idx bits k i)"
proof (induction k arbitrary: i)
  case 0
  have "matched_below bits 0 i \<longleftrightarrow> i < length bits \<and> bits ! i \<noteq> 0" by (auto simp: matched_below_def)
  then show ?case by (simp add: matched_idx_leaf)
next
  case (Suc k)
  have "matched_idx bits k (Suc (2 * i)) = []" if "(length hs - 1) div 2 ^ k < Suc (2 * i)"
  proof -
    have "j div 2 ^ k \<noteq> Suc (2 * i)" if "j < length bits" for j
    proof -
      have "j div 2 ^ k \<le> (length hs - 1) div 2 ^ k" using that assms by (intro div_le_mono) simp
      with \<open>_ < Suc (2 * i)\<close> show ?thesis by simp
    qed
    then show ?thesis by (auto simp: matched_idx_def filter_empty_conv)
  qed
  with Suc matched_idx_none [of bits "Suc k" i] show ?case
    by (auto simp: matched_idx_child)
qed

lemma match_txs_result:
  "match_txs E txs index f = Inr (bits, hashes, idxs, f') \<Longrightarrow>
   length bits = length txs \<and> hashes = map txHash txs \<and> set bits \<subseteq> {0, 1} \<and>
   idxs = map (\<lambda>j. word_of_nat (index + j)) (filter (\<lambda>j. bits ! j \<noteq> 0) [0 ..< length txs])"
proof (induction txs arbitrary: index f bits hashes idxs f')
  case Nil
  then show ?case by simp
next
  case (Cons tx txs)
  from Cons.prems obtain b g bits' idxs' where
    m: "match_txs E txs (Suc index) g = Inr (bits', tl hashes, idxs', f')" and
    e: "bits = (if b then 1 else 0) # bits'" "hashes = txHash tx # tl hashes"
      "idxs = (if b then [word_of_nat index] else []) @ idxs'"
    by (auto split: sum.splits prod.splits)
  have u: "[0 ..< Suc (length txs)] = 0 # map Suc [0 ..< length txs]"
    by (simp add: upt_conv_Cons map_Suc_upt del: upt_Suc)
  have c: "map f (filter P (map Suc xs)) = map (f \<circ> Suc) (filter (P \<circ> Suc) xs)"
    for f :: "nat \<Rightarrow> u32" and P xs by (simp add: filter_map comp_def)
  show ?case
    using Cons.IH [OF m] e
    by (simp add: u c comp_def add.commute del: upt_Suc)
qed

lemma height_loop_ok:
  assumes n: "0 < unat n" "unat n \<le> 2 ^ 31" and D: "is_depth (unat n) D"
  shows "k \<le> D \<Longrightarrow> height_loop n (word_of_nat k) = Some (word_of_nat D)"
proof (induction "D - k" arbitrary: k)
  case 0
  have w: "unat (calcTreeWidth n (word_of_nat k)) = Suc ((unat n - 1) div 2 ^ k)"
    using 0 depth_le_31 [OF D n(2)] by (intro width_unat n) simp
  have "unat n - 1 < 2 ^ k" using D 0 n(1) by (auto simp: is_depth_def)
  then have "\<not> 1 < calcTreeWidth n (word_of_nat k)" by (simp add: word_less_nat_alt w)
  with 0 show ?case by (subst height_loop.simps) simp
next
  case (Suc x)
  then have k: "k < D" by simp
  have w: "unat (calcTreeWidth n (word_of_nat k)) = Suc ((unat n - 1) div 2 ^ k)"
    using k depth_le_31 [OF D n(2)] by (intro width_unat n) simp
  have "2 ^ k \<le> unat n - 1" using D k by (auto simp: is_depth_def)
  then have "0 < (unat n - 1) div 2 ^ k" by (simp add: div_greater_zero_iff)
  then have "1 < calcTreeWidth n (word_of_nat k)" by (simp add: word_less_nat_alt w)
  moreover have "height_loop n (word_of_nat (Suc k)) = Some (word_of_nat D)"
    using Suc k by (intro Suc.hyps(1)) simp_all
  ultimately show ?case by (subst height_loop.simps) (simp add: add.commute)
qed

lemma matched_idx_all: "length bits \<le> 2 ^ D \<Longrightarrow> matched_idx bits D 0 = filter (\<lambda>j. bits ! j \<noteq> 0) [0 ..< length bits]"
  unfolding matched_idx_def by (rule filter_cong) auto

lemma pack_bits_ne: "bits \<noteq> [] \<Longrightarrow> pack_bits bits \<noteq> []"
proof -
  assume "bits \<noteq> []"
  then have "length (pack_bits bits) \<noteq> 0" by (cases bits) (simp_all add: pack_bits_def)
  then show ?thesis by auto
qed

lemma NewMerkleBlock_result:
  assumes len: "blkTransactions blk \<noteq> []" "length (blkTransactions blk) \<le> 2 ^ 31"
    and r: "NewMerkleBlock E blk f = Some (Inr ((mb, idxs), f'))"
    and D: "is_depth (length (blkTransactions blk)) D"
  obtains bits where "length bits = length (blkTransactions blk)"
    and "idxs = map word_of_nat (filter (\<lambda>j. bits ! j \<noteq> 0) [0 ..< length bits])"
    and "mb = \<lparr>mbHeader = hdrBH (blkHeader blk), mbTransactions = word_of_nat (length (blkTransactions blk)),
      mbHashes = tree_hashes (block_tree E (map txHash (blkTransactions blk)) bits D 0),
      mbFlags = pack_bits (tree_bits (block_tree E (map txHash (blkTransactions blk)) bits D 0))\<rparr>"
proof -
  let ?txs = "blkTransactions blk"
  let ?n = "word_of_nat (length ?txs) :: u32"
  have n: "unat ?n = length ?txs" using len(2) by (intro unat_of_nat_small) simp
  have pos: "0 < unat ?n" "unat ?n \<le> 2 ^ 31" unfolding n using len by simp_all
  have D31: "D \<le> 31" using D len(2) by (intro depth_le_31)
  from r obtain bits hashes where
    m: "match_txs E ?txs 0 f = Inr (bits, hashes, idxs, f')"
    by (auto simp: NewMerkleBlock_def Let_def split: sum.splits prod.splits option.splits)
  note mt = match_txs_result [OF m]
  have h: "height_loop ?n 0 = Some (word_of_nat D)"
    using height_loop_ok [OF pos, of D 0] D n by simp
  have uD: "unat (word_of_nat D :: u32) = D" using D31 by (intro unat_of_nat_small) simp
  let ?m = "\<lparr>mkNumTx = ?n, mkAllHashes = hashes, mkFinalHashes = [], mkMatchedBits = bits, mkBits = []\<rparr>"
  have "mblk_ok ?m" using pos mt n by (simp add: mblk_ok_def)
  from traverse_ok [OF this D31, of 0 E] r m h mt uD show thesis
    by (intro that [of bits]) (simp_all add: NewMerkleBlock_def Let_def)
qed

lemma match_txs_total:
  "bfilter_inv f \<Longrightarrow> \<exists>bits hashes idxs f'. match_txs E txs i f = Inr (bits, hashes, idxs, f')"
proof (induction txs arbitrary: i f)
  case Nil
  then show ?case by simp
next
  case (Cons tx txs)
  obtain b g where g: "MatchFilter bloom_if E tx f = Inr (b, g)" "bloom.extends f g"
    using bloom.MatchFilter_total [OF Cons.prems] by blast
  then have "bfilter_inv g" by (simp add: bloom.extends_def)
  from Cons.IH [OF this, of "Suc i"] g(1) show ?case by auto
qed

lemma NewMerkleBlock_total:
  assumes "bfilter_inv f" and len: "blkTransactions blk \<noteq> []" "length (blkTransactions blk) \<le> 2 ^ 31"
  shows "\<exists>mb idxs f'. NewMerkleBlock E blk f = Some (Inr ((mb, idxs), f'))"
proof -
  let ?txs = "blkTransactions blk"
  let ?n = "word_of_nat (length ?txs) :: u32"
  obtain D where D: "is_depth (length ?txs) D" using ex_depth by blast
  have n: "unat ?n = length ?txs" using len(2) by (intro unat_of_nat_small) simp
  have pos: "0 < unat ?n" "unat ?n \<le> 2 ^ 31" unfolding n using len by simp_all
  have D31: "D \<le> 31" using D len(2) by (intro depth_le_31)
  obtain bits hashes idxs f' where m: "match_txs E ?txs 0 f = Inr (bits, hashes, idxs, f')"
    using match_txs_total [OF assms(1)] by blast
  note mt = match_txs_result [OF m]
  have h: "height_loop ?n 0 = Some (word_of_nat D)"
    using height_loop_ok [OF pos, of D 0] D n by simp
  have uD: "unat (word_of_nat D :: u32) = D" using D31 by (intro unat_of_nat_small) simp
  have "mblk_ok \<lparr>mkNumTx = ?n, mkAllHashes = hashes, mkFinalHashes = [], mkMatchedBits = bits, mkBits = []\<rparr>"
    using pos mt n by (simp add: mblk_ok_def)
  from traverse_ok [OF this D31, of 0 E] m h uD show ?thesis
    by (simp add: NewMerkleBlock_def Let_def)
qed

lemma NewMerkleBlock_check:
  assumes "blkTransactions blk \<noteq> []" and "length (blkTransactions blk) \<le> 2 ^ 31"
    and "is_depth (length (blkTransactions blk)) D"
    and "bhMerkleRoot (hdrBH (blkHeader blk)) = node_hash E (map txHash (blkTransactions blk)) D 0"
    and "no_twins E (map txHash (blkTransactions blk))"
    and "NewMerkleBlock E blk f = Some (Inr ((mb, idxs), f'))"
  shows "CheckMerkleBlock E mb = Some (Inr (map (\<lambda>i. txHash (blkTransactions blk ! unat i)) idxs))"
proof -
  let ?txs = "blkTransactions blk"
  let ?hs = "map txHash ?txs"
  obtain bits where b: "length bits = length ?txs"
      "idxs = map word_of_nat (filter (\<lambda>j. bits ! j \<noteq> 0) [0 ..< length bits])"
      "mb = \<lparr>mbHeader = hdrBH (blkHeader blk), mbTransactions = word_of_nat (length ?txs),
        mbHashes = tree_hashes (block_tree E ?hs bits D 0),
        mbFlags = pack_bits (tree_bits (block_tree E ?hs bits D 0))\<rparr>"
    using NewMerkleBlock_result [OF assms(1,2,6,3)] by blast
  let ?t = "block_tree E ?hs bits D 0"
  have n: "unat (mbTransactions mb) = length ?txs"
    using assms(2) unat_of_nat_small [of "length ?txs", where 'a = 32] by (simp add: b(3))
  have "tree_bits ?t \<noteq> []" by (cases ?t) simp_all
  then have f: "mbFlags mb \<noteq> []" using pack_bits_ne by (simp add: b(3))
  obtain pad where "flag_bits (mbFlags mb) = map (\<lambda>b. b \<noteq> 0) (tree_bits ?t) @ pad"
    using flag_bits_pack [OF tree_bits_bool] b(3) by auto
  moreover have "shaped E (length ?txs) D 0 ?t" using shaped_block_tree [OF assms(5)] by simp
  ultimately have "parse_block E eb (mbTransactions mb) (bhMerkleRoot (mbHeader mb)) (mbHashes mb) (flag_bits (mbFlags mb)) D = Inr ?t" for eb
    using parse_written [of E "length ?txs" D 0 ?t eb "[]" pad] assms(4) n b(3)
    by (simp add: parse_block_def root_of_block_tree)
  moreover have "flagged ?t = map (\<lambda>i. txHash (?txs ! unat i)) idxs"
  proof -
    have "length bits \<le> 2 ^ D" using assms(3) b(1) by (simp add: is_depth_def)
    moreover have "unat (word_of_nat j :: u32) = j" if "j < length bits" for j
      using that assms(2) b(1) by (intro unat_of_nat_small) simp
    ultimately show ?thesis
      using b(1) by (simp add: flagged_block_tree matched_idx_all b(2))
  qed
  ultimately show ?thesis
    using CheckMerkleBlock_block [of mb D E] assms(1-3) n f by simp
qed

text \<open>C1: The Merkle block built for a filter tells the truth to its receiver: when the
  filter is usable, the block's header has the Merkle root of its transactions and no two
  siblings of the tree have the same hash, \<open>NewMerkleBlock\<close> returns,
  \<open>CheckMerkleBlock\<close> accepts what it built and returns the ids of exactly the
  transactions it reports as matched, in block order.\<close>

theorem NewMerkleBlock_CheckMerkleBlock:
  assumes "blkTransactions blk \<noteq> []" and "length (blkTransactions blk) \<le> 2 ^ 31"
    and "is_depth (length (blkTransactions blk)) D"
    and "bhMerkleRoot (hdrBH (blkHeader blk)) = node_hash E (map txHash (blkTransactions blk)) D 0"
    and "no_twins E (map txHash (blkTransactions blk))"
    and "bfilter_inv f"
  shows "\<exists>mb idxs f'. NewMerkleBlock E blk f = Some (Inr ((mb, idxs), f')) \<and>
    CheckMerkleBlock E mb = Some (Inr (map (\<lambda>i. txHash (blkTransactions blk ! unat i)) idxs))"
  using NewMerkleBlock_total [OF assms(6,1,2)] NewMerkleBlock_check [OF assms(1-5)] by blast

definition sample_block :: block where
  "sample_block = \<lparr>blkHeader = \<lparr>hdrBH = \<lparr>bhPrevious = 0, bhBits = 0, bhMerkleRoot = 321, bhHash = 4, bhPowHash = 0\<rparr>,
       hdrHeight = 1, hdrNumTxs = 2, hdrHashes = [], hdrFlags = [], hdrTotalWork = 1\<rparr>,
     blkTransactions = [sample_pay, sample_spend]\<rparr>"

lemma sample_no_twins: "no_twins codec0 [1, 2]"
proof -
  have "(1 :: nat) div 2 ^ k = 0" if "0 < k" for k
    using that by (intro div_less one_less_power) simp_all
  then have "Suc (2 * i) \<le> Suc 0 div 2 ^ k \<longleftrightarrow> i = 0 \<and> k = 0" for i k :: nat
    by (cases "k = 0") auto
  then show ?thesis by (auto simp: no_twins_def)
qed

lemma sample_block_ok:
  "blkTransactions sample_block \<noteq> []" "length (blkTransactions sample_block) \<le> 2 ^ 31"
  "is_depth (length (blkTransactions sample_block)) (Suc 0)"
  "bhMerkleRoot (hdrBH (blkHeader sample_block)) = node_hash codec0 (map txHash (blkTransactions sample_block)) (Suc 0) 0"
  "no_twins codec0 (map txHash (blkTransactions sample_block))" "bfilter_inv sample_filter"
  using sample_no_twins
  by (simp_all add: sample_block_def sample_pay_def sample_spend_def codec0_branches bfilter_inv_def
      sample_filter_def filter_usable_def is_depth_def)

lemma NewMerkleBlock_CheckMerkleBlock_witness:
  "\<exists>mb idxs f'. NewMerkleBlock codec0 sample_block sample_filter = Some (Inr ((mb, idxs), f')) \<and>
    CheckMerkleBlock codec0 mb = Some (Inr (map (\<lambda>i. txHash ([sample_pay, sample_spend] ! unat i)) idxs))"
  using NewMerkleBlock_CheckMerkleBlock [OF sample_block_ok] by (simp add: sample_block_def)

end
