(* ===== verification/MerkleProof.thy ===== *)
theory MerkleProof
  imports MerkleBuild
begin

text \<open>
  \<open>bloom/merkleproof.go\<close>: the serialized form of a Merkle proof, with the limits it
  enforces when writing and reading.
\<close>

record merkle_proof =
  mpBlockHash :: uint256
  mpHeight :: u32
  mpTransactions :: u32
  mpHashes :: "uint256 list"
  mpFlags :: bytes

definition maxFlagsPerMerkleProof :: "codec \<Rightarrow> u32" where
  "maxFlagsPerMerkleProof E = MaxTxPerBlock E div 8"

definition proof_Serialize :: "codec \<Rightarrow> merkle_proof \<Rightarrow> goerror + bytes" where
  "proof_Serialize E p =
     (let numHashes = length (mpHashes p); numFlagBytes = length (mpFlags p)
      in if unat (MaxTxPerBlock E) < numHashes
         then Inl (Failure ''too many transaction hashes for message'')
         else if unat (maxFlagsPerMerkleProof E) < numFlagBytes
         then Inl (Failure ''too many flag bytes for message'')
         else Inr (wHash E (mpBlockHash p) @ wU32 E (mpHeight p) @ wU32 E (mpTransactions p) @
                   wU32 E (word_of_nat numHashes) @ concat (map (wHash E) (mpHashes p)) @
                   wVarBytes E (mpFlags p)))"

definition proof_Deserialize :: "codec \<Rightarrow> bytes \<Rightarrow> goerror + merkle_proof \<times> bytes" where
  "proof_Deserialize E bs =
     (case rHash E bs of
        Inl e \<Rightarrow> Inl e
      | Inr (blockHash, r) \<Rightarrow>
     (case rU32 E r of
        Inl e \<Rightarrow> Inl e
      | Inr (height, r) \<Rightarrow>
     (case rU32 E r of
        Inl e \<Rightarrow> Inl e
      | Inr (transactions, r) \<Rightarrow>
     (case rU32 E r of
        Inl e \<Rightarrow> Inl e
      | Inr (numHashes, r) \<Rightarrow>
          if MaxTxPerBlock E < numHashes
          then Inl (Failure ''MerkleProof.Deserialize too many transaction hashes for message'')
          else
     (case read_list (rHash E) (unat numHashes) r of
        Inl e \<Rightarrow> Inl e
      | Inr (hashes, r) \<Rightarrow>
     (case rVarBytes E (maxFlagsPerMerkleProof E) r of
        Inl e \<Rightarrow> Inl e
      | Inr (flags, r) \<Rightarrow>
          Inr (\<lparr>mpBlockHash = blockHash, mpHeight = height, mpTransactions = transactions,
                mpHashes = hashes, mpFlags = flags\<rparr>, r)))))))"

text \<open>A Merkle proof that can be written can be read back: writing succeeds exactly within
  the two limits, and reading returns the proof and leaves the rest of the input.\<close>

theorem MerkleProof_roundtrip:
  assumes "codec_ok E"
  shows "case proof_Serialize E p of
      Inl e \<Rightarrow> unat (MaxTxPerBlock E) < length (mpHashes p) \<or> unat (MaxTxPerBlock E) div 8 < length (mpFlags p)
    | Inr bs \<Rightarrow> proof_Deserialize E (bs @ rest) = Inr (p, rest)"
proof (cases "proof_Serialize E p")
  case (Inl e)
  then show ?thesis by (auto simp: proof_Serialize_def Let_def maxFlagsPerMerkleProof_def unat_div split: if_splits)
next
  case (Inr bs)
  then have l: "length (mpHashes p) \<le> unat (MaxTxPerBlock E)"
      "length (mpFlags p) \<le> unat (maxFlagsPerMerkleProof E)"
    by (auto simp: proof_Serialize_def Let_def split: if_splits)
  have "unat (MaxTxPerBlock E) < 2 ^ LENGTH(32)" by (rule unsigned_less)
  with l have n: "unat (word_of_nat (length (mpHashes p)) :: u32) = length (mpHashes p)"
    by (intro unat_of_nat_small) simp
  with l have "\<not> MaxTxPerBlock E < word_of_nat (length (mpHashes p))"
    by (simp add: word_less_nat_alt)
  with Inr l n show ?thesis
    by (auto simp: proof_Serialize_def proof_Deserialize_def Let_def codec_simps assms codec_ok_rw split: if_splits)
qed

lemma MerkleProof_roundtrip_witness:
  "\<exists>bs. proof_Serialize codec0 \<lparr>mpBlockHash = 7, mpHeight = 3, mpTransactions = 2, mpHashes = [1, 2], mpFlags = [5]\<rparr> = Inr bs \<and>
    proof_Deserialize codec0 bs =
      Inr (\<lparr>mpBlockHash = 7, mpHeight = 3, mpTransactions = 2, mpHashes = [1, 2], mpFlags = [5]\<rparr>, [])"
  using MerkleProof_roundtrip [OF codec0_ok, where rest = "[]" and
      p = "\<lparr>mpBlockHash = 7, mpHeight = 3, mpTransactions = 2, mpHashes = [1, 2], mpFlags = [5]\<rparr>"]
  by (cases "proof_Serialize codec0 \<lparr>mpBlockHash = 7, mpHeight = 3, mpTransactions = 2, mpHashes = [1, 2], mpFlags = [5]\<rparr>")
    (auto simp: codec0_def)

end
