(* ===== verification/Prefix.thy ===== *)
theory Prefix
  imports MerkleProof
begin

text \<open>
  The buckets of the SPV service's databases (\<open>interface/store/prefix.go\<close>) and the keys made
  from them. Every key is a bucket name followed by an index; the lemmas show that the keys of
  different buckets used with the same database never coincide.
\<close>

named_theorems bkt_simps

definition BKTAddrs :: bytes where [bkt_simps]: "BKTAddrs = str_bytes ''addrs''"
definition BKTTxTypes :: bytes where [bkt_simps]: "BKTTxTypes = str_bytes ''txtypes''"
definition BKTHeaders :: bytes where [bkt_simps]: "BKTHeaders = str_bytes ''headers''"
definition BKTIndexes :: bytes where [bkt_simps]: "BKTIndexes = str_bytes ''indexes''"
definition BKTChainTip :: bytes where [bkt_simps]: "BKTChainTip = str_bytes ''chaintip''"
definition BKTOps :: bytes where [bkt_simps]: "BKTOps = str_bytes ''ops''"
definition BKTQue :: bytes where [bkt_simps]: "BKTQue = str_bytes ''que''"
definition BKTQueIdx :: bytes where [bkt_simps]: "BKTQueIdx = str_bytes ''qindex''"
definition BKTTxs :: bytes where [bkt_simps]: "BKTTxs = str_bytes ''transactions''"
definition BKTHeightTxs :: bytes where [bkt_simps]: "BKTHeightTxs = str_bytes ''heighttxs''"
definition BKTForkTxs :: bytes where [bkt_simps]: "BKTForkTxs = str_bytes ''forktxs''"
definition BKTArbiters :: bytes where [bkt_simps]: "BKTArbiters = str_bytes ''arbiters''"
definition BKTArbPosition :: bytes where [bkt_simps]: "BKTArbPosition = str_bytes ''arbptn''"
definition BKTArbPositions :: bytes where [bkt_simps]: "BKTArbPositions = str_bytes ''arbpts''"
definition BKTArbitersData :: bytes where [bkt_simps]: "BKTArbitersData = str_bytes ''arbdata''"
definition BKTTransactionHeight :: bytes where [bkt_simps]: "BKTTransactionHeight = str_bytes ''txheight''"
definition BKTRevertPosition :: bytes where [bkt_simps]: "BKTRevertPosition = str_bytes ''revertp''"
definition BKTRevertPositions :: bytes where [bkt_simps]: "BKTRevertPositions = str_bytes ''revertps''"
definition BKTReturnSideChainDepositCoin :: bytes where
  [bkt_simps]: "BKTReturnSideChainDepositCoin = str_bytes ''retschdepositcoin''"
definition BKTReservedCustomID :: bytes where [bkt_simps]: "BKTReservedCustomID = str_bytes ''rscid''"
definition BKTReceivedCustomID :: bytes where [bkt_simps]: "BKTReceivedCustomID = str_bytes ''rccid''"
definition BKTChangeCustomIDFee :: bytes where [bkt_simps]: "BKTChangeCustomIDFee = str_bytes ''ccidf''"
definition BKTCustomIDFeePositions :: bytes where [bkt_simps]: "BKTCustomIDFeePositions = str_bytes ''cidfps''"

definition toKey :: "bytes \<Rightarrow> bytes \<Rightarrow> bytes" where
  "toKey bucket index = bucket @ index"

definition subKey :: "bytes \<Rightarrow> bytes \<Rightarrow> bytes" where
  "subKey bucket key = drop (length bucket) key"

lemma subKey_toKey [simp]: "subKey b (toKey b k) = k"
  by (simp add: subKey_def toKey_def)

lemma toKey_inj [simp]: "toKey b k = toKey b k' \<longleftrightarrow> k = k'"
  by (simp add: toKey_def)

lemma prefix_toKey [simp]: "prefix b (toKey b k)"
  by (simp add: toKey_def)

lemma prefix_toKeyD: "prefix b k \<Longrightarrow> k = toKey b (subKey b k)"
  by (auto simp: prefix_def toKey_def subKey_def)

text \<open>Two bucket names of which neither is a prefix of the other.\<close>

definition apart :: "bytes \<Rightarrow> bytes \<Rightarrow> bool" where
  "apart a b \<longleftrightarrow> \<not> prefix a b \<and> \<not> prefix b a"

lemma apart_keys: "apart a b \<Longrightarrow> toKey a x \<noteq> toKey b y"
  by (metis apart_def prefix_def prefix_same_cases toKey_def)

lemma apart_prefix: "apart a b \<Longrightarrow> \<not> prefix a (toKey b y)"
  by (metis apart_def prefix_def prefix_same_cases toKey_def)

lemma apart_sym: "apart a b \<Longrightarrow> apart b a"
  by (simp add: apart_def)

definition store_buckets :: "bytes list" where
  "store_buckets = [BKTAddrs, BKTTxTypes, BKTOps, BKTQue, BKTQueIdx, BKTTxs, BKTHeightTxs, BKTForkTxs,
     BKTArbPosition, BKTArbPositions, BKTArbitersData, BKTTransactionHeight,
     BKTReturnSideChainDepositCoin, BKTReservedCustomID, BKTReceivedCustomID, BKTChangeCustomIDFee,
     BKTCustomIDFeePositions]"

fun pairwise_apart :: "bytes list \<Rightarrow> bool" where
  "pairwise_apart [] \<longleftrightarrow> True"
| "pairwise_apart (b # bs) \<longleftrightarrow> list_all (apart b) bs \<and> pairwise_apart bs"

lemma store_buckets_apart: "pairwise_apart store_buckets"
  by (simp add: store_buckets_def apart_def bkt_simps str_bytes_def)

end
