(* ===== verification/HeaderStore.thy ===== *)
theory HeaderStore
  imports Prefix "HOL-Library.AList"
begin

text \<open>
  The header databases: \<open>interface/store/headers.go\<close> (SPV service) and
  \<open>wallet/store/headers\<close> (wallet), both goleveldb files under a cache of about 100
  headers. The interface \<open>database.Headers\<close> is the record \<open>headers_if\<close>, its contract
  the locale \<open>headers_db\<close>; both stores are interpretations of it.

  The cache is an \<open>ordered_map\<close> (third-party), a parameter with the operations and laws
  the code relies on (\<open>omap_ok\<close>). Keys are hashes; the code uses their hexadecimal form.
\<close>

subsection \<open>The interface\<close>

record 's headers_if =
  hPut :: "header \<Rightarrow> bool \<Rightarrow> 's \<Rightarrow> goerror option \<times> 's"
  hGetPrevious :: "header \<Rightarrow> 's \<Rightarrow> goerror + header"
  hGet :: "uint256 \<Rightarrow> 's \<Rightarrow> goerror + header"
  hGetBest :: "'s \<Rightarrow> goerror + header"
  hClear :: "'s \<Rightarrow> goerror option \<times> 's"
  hClose :: "'s \<Rightarrow> goerror option \<times> 's"

text \<open>After a put that reports no error the header is found under its hash, other headers are
  found as before, and the best header is the new one exactly if it is the new tip.\<close>

locale headers_db =
  fixes H :: "'s headers_if"
    and inv :: "'s \<Rightarrow> bool"
    and storable :: "header \<Rightarrow> bool"
  assumes put_inv: "inv s \<Longrightarrow> storable h \<Longrightarrow> hPut H h nt s = (None, s') \<Longrightarrow> inv s'"
    and put_get: "inv s \<Longrightarrow> storable h \<Longrightarrow> hPut H h nt s = (None, s') \<Longrightarrow>
      hGet H k s' = (if k = hdr_hash h then Inr h else hGet H k s)"
    and put_best: "inv s \<Longrightarrow> storable h \<Longrightarrow> hPut H h nt s = (None, s') \<Longrightarrow>
      hGetBest H s' = (if nt then Inr h else hGetBest H s)"
    and get_previous: "hGetPrevious H h s = hGet H (hdr_prev h) s"

subsection \<open>The cache\<close>

record 'm omap =
  om_Empty :: 'm
  om_Len :: "'m \<Rightarrow> nat"
  om_First :: "'m \<Rightarrow> uint256 option"
  om_Delete :: "uint256 \<Rightarrow> 'm \<Rightarrow> 'm"
  om_Set :: "uint256 \<Rightarrow> header \<Rightarrow> 'm \<Rightarrow> 'm"
  om_Get :: "uint256 \<Rightarrow> 'm \<Rightarrow> header option"

definition omap_ok :: "'m omap \<Rightarrow> bool" where
  "omap_ok M \<longleftrightarrow> (\<forall>k. om_Get M k (om_Empty M) = None) \<and>
     (\<forall>m k k'. om_Get M k (om_Delete M k' m) = (if k = k' then None else om_Get M k m)) \<and>
     (\<forall>m k k' h. om_Get M k (om_Set M k' h m) = (if k = k' then Some h else om_Get M k m))"

lemma omap_okD [ldb_simps]:
  assumes "omap_ok M"
  shows "om_Get M k (om_Empty M) = None"
    and "om_Get M k (om_Delete M k' m) = (if k = k' then None else om_Get M k m)"
    and "om_Get M k (om_Set M k' h m) = (if k = k' then Some h else om_Get M k m)"
  using assms by (auto simp: omap_ok_def)

text \<open>The state of a store: database, cached tip, cached headers.\<close>

record ('d, 'm) hstore =
  hsDb :: 'd
  hsTip :: "header option"
  hsCache :: 'm

definition cache_size :: nat where
  "cache_size = 100"

definition cache_pop :: "'m omap \<Rightarrow> 'm \<Rightarrow> 'm" where
  "cache_pop M c = (case om_First M c of None \<Rightarrow> c | Some k \<Rightarrow> om_Delete M k c)"

definition cache_set :: "'m omap \<Rightarrow> header \<Rightarrow> 'm \<Rightarrow> 'm" where
  "cache_set M h c =
     (let c = (if cache_size < om_Len M c then cache_pop M c else c)
      in om_Set M (hdr_hash h) h c)"

definition cache_get :: "'m omap \<Rightarrow> uint256 \<Rightarrow> 'm \<Rightarrow> goerror + header" where
  "cache_get M hash c =
     (case om_Get M hash c of None \<Rightarrow> Inl (Failure ''Header not found in cache '') | Some h \<Rightarrow> Inr h)"

text \<open>A set evicts at most one other header.\<close>

lemma cache_set_get:
  assumes "omap_ok M"
  shows "om_Get M (hdr_hash h) (cache_set M h c) = Some h"
    and "k \<noteq> hdr_hash h \<Longrightarrow> om_Get M k (cache_set M h c) = om_Get M k c \<or> om_Get M k (cache_set M h c) = None"
  using assms by (auto simp: cache_set_def cache_pop_def Let_def ldb_simps split: option.split)

subsection \<open>interface/store/headers.go\<close>

definition getHeader :: "codec \<Rightarrow> 'd leveldb \<Rightarrow> bytes \<Rightarrow> 'd \<Rightarrow> goerror + header" where
  "getHeader E L key db =
     (case ldb_get L db key of
        Inl e \<Rightarrow> Inl (Failure ''header does not exist in database'')
      | Inr dat \<Rightarrow> header_Deserialize E dat)"

definition hs_Get :: "codec \<Rightarrow> 'd leveldb \<Rightarrow> 'm omap \<Rightarrow> uint256 \<Rightarrow> ('d, 'm) hstore \<Rightarrow> goerror + header" where
  "hs_Get E L M hash s =
     (case cache_get M hash (hsCache s) of
        Inr h \<Rightarrow> Inr h
      | Inl _ \<Rightarrow> getHeader E L (toKey BKTHeaders (hash_bytes hash)) (hsDb s))"

definition hs_GetPrevious ::
  "codec \<Rightarrow> 'd leveldb \<Rightarrow> 'm omap \<Rightarrow> header \<Rightarrow> ('d, 'm) hstore \<Rightarrow> goerror + header" where
  "hs_GetPrevious E L M h s = hs_Get E L M (hdr_prev h) s"

definition hs_GetBest :: "codec \<Rightarrow> 'd leveldb \<Rightarrow> ('d, 'm) hstore \<Rightarrow> goerror + header" where
  "hs_GetBest E L s =
     (case hsTip s of Some h \<Rightarrow> Inr h | None \<Rightarrow> getHeader E L BKTChainTip (hsDb s))"

definition hs_GetByHeight :: "codec \<Rightarrow> 'd leveldb \<Rightarrow> u32 \<Rightarrow> ('d, 'm) hstore \<Rightarrow> goerror + header" where
  "hs_GetByHeight E L height s =
     (case ldb_get L (hsDb s) (toKey BKTIndexes (le_bytes4 height)) of
        Inl e \<Rightarrow> Inl e
      | Inr hashBytes \<Rightarrow> getHeader E L (toKey BKTHeaders hashBytes) (hsDb s))"

definition hs_Put ::
  "codec \<Rightarrow> 'd leveldb \<Rightarrow> 'm omap \<Rightarrow> header \<Rightarrow> bool \<Rightarrow> ('d, 'm) hstore \<Rightarrow> goerror option \<times> ('d, 'm) hstore" where
  "hs_Put E L M h newTip s =
     (let s = s\<lparr>hsCache := cache_set M h (hsCache s)\<rparr>;
          s = (if newTip then s\<lparr>hsTip := Some h\<rparr> else s);
          key = toKey BKTHeaders (hash_bytes (hdr_hash h))
      in case header_Serialize E h of
           Inl e \<Rightarrow> (Some e, s)
         | Inr bytes \<Rightarrow>
     (case ldb_put L (hsDb s) key bytes of
        (Some e, db) \<Rightarrow> (Some e, s\<lparr>hsDb := db\<rparr>)
      | (None, db) \<Rightarrow>
          (let s = s\<lparr>hsDb := db\<rparr> in
           case (if newTip then ldb_put L (hsDb s) BKTChainTip bytes else (None, hsDb s)) of
             (Some e, db) \<Rightarrow> (Some e, s\<lparr>hsDb := db\<rparr>)
           | (None, db) \<Rightarrow>
               (let (err, db) = ldb_put L db (toKey BKTIndexes (le_bytes4 (hdrHeight h))) (hash_bytes (hdr_hash h))
                in (err, s\<lparr>hsDb := db\<rparr>)))))"

definition hs_Clear :: "'d leveldb \<Rightarrow> ('d, 'm) hstore \<Rightarrow> goerror option \<times> ('d, 'm) hstore" where
  "hs_Clear L s =
     (let batch = map (\<lambda>(k, v). BDel k) (ldb_iter L (hsDb s) []);
          (err, db) = ldb_write L (hsDb s) batch
      in (err, s\<lparr>hsDb := db\<rparr>))"

text \<open>Filling the cache on opening: the loop asks for the parent of the best header each time.\<close>

fun previous_loop :: "nat \<Rightarrow> (header \<Rightarrow> goerror + header) \<Rightarrow> header \<Rightarrow> header list" where
  "previous_loop 0 get best = []"
| "previous_loop (Suc n) get best =
     (case get best of Inl e \<Rightarrow> [] | Inr sh \<Rightarrow> sh # previous_loop n get best)"

definition hs_initCache ::
  "codec \<Rightarrow> 'd leveldb \<Rightarrow> 'm omap \<Rightarrow> ('d, 'm) hstore \<Rightarrow> ('d, 'm) hstore" where
  "hs_initCache E L M s =
     (case hs_GetBest E L s of
        Inl e \<Rightarrow> s
      | Inr best \<Rightarrow>
          (let s = s\<lparr>hsTip := Some best\<rparr>;
               headers = best # previous_loop 99 (\<lambda>h. hs_GetPrevious E L M h s) best
           in s\<lparr>hsCache := fold (cache_set M) (rev headers) (hsCache s)\<rparr>))"

definition NewHeaderStore ::
  "codec \<Rightarrow> 'd leveldb \<Rightarrow> 'm omap \<Rightarrow> goerror + 'd \<Rightarrow> goerror + ('d, 'm) hstore" where
  "NewHeaderStore E L M opened =
     (case opened of
        Inl e \<Rightarrow> Inl e
      | Inr db \<Rightarrow> Inr (hs_initCache E L M \<lparr>hsDb = db, hsTip = None, hsCache = om_Empty M\<rparr>))"

definition store_headers :: "codec \<Rightarrow> 'd leveldb \<Rightarrow> 'm omap \<Rightarrow> (('d, 'm) hstore \<Rightarrow> goerror option \<times> ('d, 'm) hstore) \<Rightarrow>
    ('d, 'm) hstore headers_if" where
  "store_headers E L M close =
     \<lparr>hPut = hs_Put E L M, hGetPrevious = hs_GetPrevious E L M, hGet = hs_Get E L M,
      hGetBest = hs_GetBest E L, hClear = hs_Clear L, hClose = close\<rparr>"

subsection \<open>The cache is transparent\<close>

text \<open>The store's invariant: what is cached is in the database.\<close>

definition hs_inv :: "codec \<Rightarrow> 'd leveldb \<Rightarrow> 'm omap \<Rightarrow> bytes \<Rightarrow> ('d, 'm) hstore \<Rightarrow> bool" where
  "hs_inv E L M bucket s \<longleftrightarrow> codec_ok E \<and> leveldb_ok L \<and> omap_ok M \<and>
     (\<forall>k h. om_Get M k (hsCache s) = Some h \<longrightarrow>
        getHeader E L (toKey bucket (hash_bytes k)) (hsDb s) = Inr h)"

lemma hs_Get_db:
  assumes "hs_inv E L M BKTHeaders s"
  shows "hs_Get E L M k s = getHeader E L (toKey BKTHeaders (hash_bytes k)) (hsDb s)"
  using assms by (auto simp: hs_Get_def cache_get_def hs_inv_def split: option.split)

lemma header_keys [simp]:
  "toKey BKTHeaders x \<noteq> BKTChainTip" "toKey BKTHeaders x \<noteq> toKey BKTIndexes y"
  "BKTChainTip \<noteq> toKey BKTHeaders x" "BKTChainTip \<noteq> toKey BKTIndexes y"
  by (simp_all add: toKey_def bkt_simps str_bytes_def)

lemma cache_inv_set:
  assumes s: "hs_inv E L M b s" and h: "getHeader E L (toKey b (hash_bytes (hdr_hash h))) db = Inr h"
    and same: "\<And>k. k \<noteq> hdr_hash h \<Longrightarrow> getHeader E L (toKey b (hash_bytes k)) db = getHeader E L (toKey b (hash_bytes k)) (hsDb s)"
  shows "hs_inv E L M b (s\<lparr>hsCache := cache_set M h (hsCache s), hsDb := db\<rparr>)"
    and "hs_inv E L M b (s\<lparr>hsCache := cache_set M h (hsCache s), hsTip := t, hsDb := db\<rparr>)"
proof -
  have M: "omap_ok M" using s by (simp add: hs_inv_def)
  have "getHeader E L (toKey b (hash_bytes k)) db = Inr x"
    if "om_Get M k (cache_set M h (hsCache s)) = Some x" for k x
    using that s h same [of k] cache_set_get(1) [OF M, of h "hsCache s"] cache_set_get(2) [OF M, where k = k and h = h and c = "hsCache s"]
    by (cases "k = hdr_hash h") (auto simp: hs_inv_def)
  with s show "hs_inv E L M b (s\<lparr>hsCache := cache_set M h (hsCache s), hsDb := db\<rparr>)"
    and "hs_inv E L M b (s\<lparr>hsCache := cache_set M h (hsCache s), hsTip := t, hsDb := db\<rparr>)"
    by (simp_all add: hs_inv_def)
qed

lemma getHeader_stored:
  assumes "codec_ok E" and "header_storable E h" and "header_Serialize E h = Inr bs" and "ldb_get L db k = Inr bs"
  shows "getHeader E L k db = Inr h"
  using assms by (simp add: getHeader_def header_roundtrip)

lemma getHeader_cong: "ldb_get L db k = ldb_get L db' k \<Longrightarrow> getHeader E L k db = getHeader E L k db'"
  by (simp add: getHeader_def)

lemma hs_Put_db:
  assumes s: "hs_inv E L M BKTHeaders s" and h: "header_storable E h"
    and p: "hs_Put E L M h nt s = (None, s')"
  shows "getHeader E L (toKey BKTHeaders (hash_bytes k)) (hsDb s') =
      (if k = hdr_hash h then Inr h else getHeader E L (toKey BKTHeaders (hash_bytes k)) (hsDb s))"
    and "hs_inv E L M BKTHeaders s'"
    and "hsTip s' = (if nt then Some h else hsTip s)"
    and "\<not> nt \<Longrightarrow> ldb_get L (hsDb s') BKTChainTip = ldb_get L (hsDb s) BKTChainTip"
    and "hs_GetByHeight E L (hdrHeight h) s' = Inr h"
proof -
  let ?key = "toKey BKTHeaders (hash_bytes (hdr_hash h))" and ?ix = "toKey BKTIndexes (le_bytes4 (hdrHeight h))"
  obtain bs where bs: "header_Serialize E h = Inr bs" using header_Serialize_storable [OF h] by blast
  have L: "leveldb_ok L" and E: "codec_ok E" using s by (simp_all add: hs_inv_def)
  from p bs obtain db1 db2 db3 where d:
      "ldb_put L (hsDb s) ?key bs = (None, db1)"
      "(if nt then ldb_put L db1 BKTChainTip bs else (None, db1)) = (None, db2)"
      "ldb_put L db2 ?ix (hash_bytes (hdr_hash h)) = (None, db3)"
      "s' = (if nt then s\<lparr>hsCache := cache_set M h (hsCache s), hsTip := Some h\<rparr>
        else s\<lparr>hsCache := cache_set M h (hsCache s)\<rparr>)\<lparr>hsDb := db3\<rparr>"
    by (auto simp: hs_Put_def Let_def split: prod.splits option.splits if_splits)
  have g1: "ldb_get L db1 = (ldb_get L (hsDb s))(?key := Inr bs)" by (rule ldb_get_put [OF L d(1)])
  have g2: "ldb_get L db2 = (if nt then (ldb_get L db1)(BKTChainTip := Inr bs) else ldb_get L db1)"
    using d(2) ldb_get_put [OF L, of db1 BKTChainTip bs db2] by (auto split: if_splits)
  have g3: "ldb_get L db3 = (ldb_get L db2)(?ix := Inr (hash_bytes (hdr_hash h)))" by (rule ldb_get_put [OF L d(3)])
  have db: "hsDb s' = db3" using d(4) by simp
  have k: "ldb_get L db3 (toKey BKTHeaders x) = (if x = hash_bytes (hdr_hash h) then Inr bs else ldb_get L (hsDb s) (toKey BKTHeaders x))" for x
    by (simp add: g1 g2 g3)
  have a: "getHeader E L (toKey BKTHeaders (hash_bytes k)) db3 =
      (if k = hdr_hash h then Inr h else getHeader E L (toKey BKTHeaders (hash_bytes k)) (hsDb s))" for k
    using getHeader_stored [OF E h bs, of L db3 ?key] k
    by (auto intro: getHeader_cong)
  then show "getHeader E L (toKey BKTHeaders (hash_bytes k)) (hsDb s') =
      (if k = hdr_hash h then Inr h else getHeader E L (toKey BKTHeaders (hash_bytes k)) (hsDb s))"
    by (simp only: db)
  show "hs_inv E L M BKTHeaders s'"
    unfolding d(4) using cache_inv_set [OF s, of h db3] a by simp
  show "hsTip s' = (if nt then Some h else hsTip s)" using d(4) by simp
  show "\<not> nt \<Longrightarrow> ldb_get L (hsDb s') BKTChainTip = ldb_get L (hsDb s) BKTChainTip"
    by (simp add: db g1 g2 g3)
  show "hs_GetByHeight E L (hdrHeight h) s' = Inr h"
    unfolding hs_GetByHeight_def db g3 using a [of "hdr_hash h"] by simp
qed

interpretation hs: headers_db "store_headers E L M close" "hs_inv E L M BKTHeaders" "header_storable E"
  for E L M close
proof unfold_locales
  fix s h nt s' k
  assume s: "hs_inv E L M BKTHeaders s" and h: "header_storable E h"
    and "hPut (store_headers E L M close) h nt s = (None, s')"
  then have p: "hs_Put E L M h nt s = (None, s')" by (simp add: store_headers_def)
  note d = hs_Put_db [OF s h p]
  show "hs_inv E L M BKTHeaders s'" by (rule d(2))
  show "hGet (store_headers E L M close) k s' = (if k = hdr_hash h then Inr h else hGet (store_headers E L M close) k s)"
    by (simp add: store_headers_def hs_Get_db [OF s] hs_Get_db [OF d(2)] d(1))
  show "hGetBest (store_headers E L M close) s' = (if nt then Inr h else hGetBest (store_headers E L M close) s)"
    using d(3,4) by (cases nt) (auto simp: store_headers_def hs_GetBest_def intro: getHeader_cong split: option.split)
qed (simp add: store_headers_def hs_GetPrevious_def)

subsection \<open>Reopening\<close>

text \<open>A store whose database could have been written by it: the cached tip is the one in the
  database, headers are stored under their own hashes, the tip's header is stored.\<close>

definition store_wf :: "codec \<Rightarrow> 'd leveldb \<Rightarrow> 'm omap \<Rightarrow> bytes \<Rightarrow> bytes \<Rightarrow> ('d, 'm) hstore \<Rightarrow> bool" where
  "store_wf E L M bucket tip s \<longleftrightarrow> hs_inv E L M bucket s \<and>
     (\<forall>t. hsTip s = Some t \<longrightarrow> getHeader E L tip (hsDb s) = Inr t) \<and>
     (\<forall>k h. getHeader E L (toKey bucket (hash_bytes k)) (hsDb s) = Inr h \<longrightarrow> hdr_hash h = k) \<and>
     (\<forall>t. getHeader E L tip (hsDb s) = Inr t \<longrightarrow>
        getHeader E L (toKey bucket (hash_bytes (hdr_hash t))) (hsDb s) = Inr t)"

abbreviation hs_wf :: "codec \<Rightarrow> 'd leveldb \<Rightarrow> 'm omap \<Rightarrow> ('d, 'm) hstore \<Rightarrow> bool" where
  "hs_wf E L M \<equiv> store_wf E L M BKTHeaders BKTChainTip"

text \<open>What a put has to do for the store to stay well formed.\<close>

lemma store_wf_put:
  assumes s: "store_wf E L M bucket tip s" and i: "hs_inv E L M bucket s'"
    and d: "\<And>k. getHeader E L (toKey bucket (hash_bytes k)) (hsDb s') =
      (if k = hdr_hash h then Inr h else getHeader E L (toKey bucket (hash_bytes k)) (hsDb s))"
    and tip: "hsTip s' = (if nt then Some h else hsTip s)"
      "getHeader E L tip (hsDb s') = (if nt then Inr h else getHeader E L tip (hsDb s))"
    and t: "\<And>t. \<not> nt \<Longrightarrow> getHeader E L tip (hsDb s) = Inr t \<Longrightarrow> hdr_hash t \<noteq> hdr_hash h"
  shows "store_wf E L M bucket tip s'"
proof -
  have w: "hsTip s = Some x \<Longrightarrow> getHeader E L tip (hsDb s) = Inr x"
    "getHeader E L (toKey bucket (hash_bytes k)) (hsDb s) = Inr x \<Longrightarrow> hdr_hash x = k"
    "getHeader E L tip (hsDb s) = Inr x \<Longrightarrow> getHeader E L (toKey bucket (hash_bytes (hdr_hash x))) (hsDb s) = Inr x" for k x
    using s unfolding store_wf_def by blast+
  show ?thesis
    unfolding store_wf_def
  proof (intro conjI allI impI)
    show "getHeader E L tip (hsDb s') = Inr x" if "hsTip s' = Some x" for x
      using that w(1) unfolding tip by (cases nt) simp_all
    show "hdr_hash x = k" if "getHeader E L (toKey bucket (hash_bytes k)) (hsDb s') = Inr x" for k x
      using that w(2) unfolding d by (cases "k = hdr_hash h") simp_all
    show "getHeader E L (toKey bucket (hash_bytes (hdr_hash x))) (hsDb s') = Inr x"
      if "getHeader E L tip (hsDb s') = Inr x" for x
      using that w(3) t [of x] unfolding d tip by (cases nt) simp_all
  qed (rule i)
qed

lemma hs_GetBest_db: "hs_wf E L M s \<Longrightarrow> hs_GetBest E L s = getHeader E L BKTChainTip (hsDb s)"
  by (auto simp: store_wf_def hs_GetBest_def split: option.split)

lemma hs_Put_tip_db:
  assumes "hs_inv E L M BKTHeaders s" and "header_storable E h" and "hs_Put E L M h True s = (None, s')"
  shows "getHeader E L BKTChainTip (hsDb s') = Inr h"
proof -
  let ?key = "toKey BKTHeaders (hash_bytes (hdr_hash h))" and ?ix = "toKey BKTIndexes (le_bytes4 (hdrHeight h))"
  have L: "leveldb_ok L" and E: "codec_ok E" using assms(1) by (simp_all add: hs_inv_def)
  obtain bs where bs: "header_Serialize E h = Inr bs" using header_Serialize_storable [OF assms(2)] by blast
  with assms(3) obtain db1 db2 where d: "ldb_put L db1 BKTChainTip bs = (None, db2)"
      "ldb_put L db2 ?ix (hash_bytes (hdr_hash h)) = (None, hsDb s')"
    by (auto simp: hs_Put_def Let_def split: prod.splits option.splits)
  have "ldb_get L (hsDb s') BKTChainTip = Inr bs"
    using ldb_get_put [OF L d(1)] ldb_get_put [OF L d(2)] by simp
  then show ?thesis by (rule getHeader_stored [OF E assms(2) bs])
qed

lemma hs_Put_wf:
  assumes s: "hs_wf E L M s" and h: "header_storable E h" and p: "hs_Put E L M h nt s = (None, s')"
    and t: "\<And>t. \<not> nt \<Longrightarrow> hs_GetBest E L s = Inr t \<Longrightarrow> hdr_hash t \<noteq> hdr_hash h"
  shows "hs_wf E L M s'"
proof -
  have i: "hs_inv E L M BKTHeaders s" using s by (simp add: store_wf_def)
  note d = hs_Put_db [OF i h p]
  have tip: "getHeader E L BKTChainTip (hsDb s') = (if nt then Inr h else getHeader E L BKTChainTip (hsDb s))"
    using hs_Put_tip_db [OF i h, of s'] p d(4) by (cases nt) (auto intro: getHeader_cong)
  show ?thesis by (rule store_wf_put [OF s d(2,1,3) tip t [unfolded hs_GetBest_db [OF s]]])
qed

lemma previous_loop_const:
  "previous_loop n get best = (case get best of Inl e \<Rightarrow> [] | Inr p \<Rightarrow> replicate n p)"
  by (induction n) (auto split: sum.split)

lemma cache_fold_inv:
  assumes "hs_inv E L M b s"
    and "\<And>h. h \<in> set hs \<Longrightarrow> getHeader E L (toKey b (hash_bytes (hdr_hash h))) (hsDb s) = Inr h"
  shows "hs_inv E L M b (s\<lparr>hsCache := fold (cache_set M) hs (hsCache s)\<rparr>)"
  using assms
proof (induction hs arbitrary: s)
  case Nil
  then show ?case by simp
next
  case (Cons h hs)
  have "hs_inv E L M b (s\<lparr>hsCache := cache_set M h (hsCache s)\<rparr>)"
    using cache_inv_set(1) [OF Cons.prems(1), of h "hsDb s"] Cons.prems(2) by simp
  from Cons.IH [OF this] Cons.prems(2) show ?case by simp
qed

text \<open>Both stores fill their cache from the best header and its parent.\<close>

lemma initCache_wf:
  assumes i: "hs_inv E L M b s" and keyed: "\<And>k h. getHeader E L (toKey b (hash_bytes k)) (hsDb s) = Inr h \<Longrightarrow> hdr_hash h = k"
    and best: "getHeader E L (toKey b (hash_bytes (hdr_hash best))) (hsDb s) = Inr best"
    and prev: "\<And>h. prev h = getHeader E L (toKey b (hash_bytes (hdr_prev h))) (hsDb s)"
  shows "hs_inv E L M b (s\<lparr>hsCache := fold (cache_set M) (rev (best # previous_loop n prev best)) (hsCache s)\<rparr>)"
proof (rule cache_fold_inv [OF i])
  fix h assume h: "h \<in> set (rev (best # previous_loop n prev best))"
  show "getHeader E L (toKey b (hash_bytes (hdr_hash h))) (hsDb s) = Inr h"
  proof (cases "h = best")
    case True
    with best show ?thesis by simp
  next
    case False
    with h have "prev best = Inr h" by (auto simp: previous_loop_const split: sum.splits)
    then have "getHeader E L (toKey b (hash_bytes (hdr_prev best))) (hsDb s) = Inr h" unfolding prev .
    with keyed [OF this] show ?thesis by simp
  qed
qed

lemma NewHeaderStore_wf:
  assumes w: "hs_wf E L M s" and n: "NewHeaderStore E L M (Inr (hsDb s)) = Inr s2"
  shows "hs_wf E L M s2 \<and> hsDb s2 = hsDb s"
proof -
  let ?s0 = "\<lparr>hsDb = hsDb s, hsTip = None, hsCache = om_Empty M\<rparr>"
  have i0: "hs_inv E L M BKTHeaders ?s0" using w by (auto simp: store_wf_def hs_inv_def ldb_simps)
  have b0: "hs_GetBest E L ?s0 = getHeader E L BKTChainTip (hsDb s)" by (simp add: hs_GetBest_def)
  show ?thesis
  proof (cases "getHeader E L BKTChainTip (hsDb s)")
    case (Inl e)
    then have "s2 = ?s0" using n b0 by (simp add: NewHeaderStore_def hs_initCache_def)
    with w i0 show ?thesis by (simp add: store_wf_def)
  next
    case (Inr best)
    let ?s1 = "?s0\<lparr>hsTip := Some best\<rparr>"
    let ?prev = "\<lambda>h. hs_GetPrevious E L M h ?s1"
    have s2: "s2 = ?s1\<lparr>hsCache := fold (cache_set M) (rev (best # previous_loop 99 ?prev best)) (hsCache ?s1)\<rparr>"
      using n Inr b0 by (simp add: NewHeaderStore_def hs_initCache_def Let_def)
    have i1: "hs_inv E L M BKTHeaders ?s1" using i0 by (simp add: hs_inv_def)
    have "hs_inv E L M BKTHeaders s2" unfolding s2
      by (rule initCache_wf [OF i1]) (use w Inr hs_Get_db [OF i1] in \<open>auto simp: store_wf_def hs_GetPrevious_def\<close>)
    with w Inr show ?thesis by (simp add: store_wf_def s2)
  qed
qed

subsection \<open>wallet/store/headers\<close>

text \<open>The wallet's store: the same cache and reader, other buckets, no index by height.\<close>

definition wBKTHeaders :: bytes where "wBKTHeaders = str_bytes ''H''"
definition wBKTChainTip :: bytes where "wBKTChainTip = str_bytes ''B''"

definition wh_Get :: "codec \<Rightarrow> 'd leveldb \<Rightarrow> 'm omap \<Rightarrow> uint256 \<Rightarrow> ('d, 'm) hstore \<Rightarrow> goerror + header" where
  "wh_Get E L M hash s =
     (case cache_get M hash (hsCache s) of
        Inr h \<Rightarrow> Inr h
      | Inl _ \<Rightarrow> getHeader E L (toKey wBKTHeaders (hash_bytes hash)) (hsDb s))"

definition wh_GetPrevious ::
  "codec \<Rightarrow> 'd leveldb \<Rightarrow> 'm omap \<Rightarrow> header \<Rightarrow> ('d, 'm) hstore \<Rightarrow> goerror + header" where
  "wh_GetPrevious E L M h s = wh_Get E L M (hdr_prev h) s"

definition wh_GetBest :: "codec \<Rightarrow> 'd leveldb \<Rightarrow> ('d, 'm) hstore \<Rightarrow> goerror + header" where
  "wh_GetBest E L s =
     (case hsTip s of Some h \<Rightarrow> Inr h | None \<Rightarrow> getHeader E L wBKTChainTip (hsDb s))"

definition wh_Put ::
  "codec \<Rightarrow> 'd leveldb \<Rightarrow> 'm omap \<Rightarrow> header \<Rightarrow> bool \<Rightarrow> ('d, 'm) hstore \<Rightarrow> goerror option \<times> ('d, 'm) hstore" where
  "wh_Put E L M h newTip s =
     (let s = s\<lparr>hsCache := cache_set M h (hsCache s)\<rparr>;
          s = (if newTip then s\<lparr>hsTip := Some h\<rparr> else s);
          key = toKey wBKTHeaders (hash_bytes (hdr_hash h))
      in case header_Serialize E h of
           Inl e \<Rightarrow> (Some e, s)
         | Inr bytes \<Rightarrow>
     (case ldb_put L (hsDb s) key bytes of
        (Some e, db) \<Rightarrow> (Some e, s\<lparr>hsDb := db\<rparr>)
      | (None, db) \<Rightarrow>
          (let s = s\<lparr>hsDb := db\<rparr> in
           if newTip then
             (let (err, db) = ldb_put L (hsDb s) wBKTChainTip bytes in (err, s\<lparr>hsDb := db\<rparr>))
           else (None, s))))"

definition wh_Clear :: "'d leveldb \<Rightarrow> ('d, 'm) hstore \<Rightarrow> goerror option \<times> ('d, 'm) hstore" where
  "wh_Clear L s =
     (let batch = map (\<lambda>(k, v). BDel k) (ldb_iter L (hsDb s) []);
          (err, db) = ldb_write L (hsDb s) batch
      in (err, s\<lparr>hsDb := db\<rparr>))"

definition wh_initCache ::
  "codec \<Rightarrow> 'd leveldb \<Rightarrow> 'm omap \<Rightarrow> ('d, 'm) hstore \<Rightarrow> ('d, 'm) hstore" where
  "wh_initCache E L M s =
     (case wh_GetBest E L s of
        Inl e \<Rightarrow> s
      | Inr best \<Rightarrow>
          (let s = s\<lparr>hsTip := Some best\<rparr>;
               headers = best # previous_loop 99 (\<lambda>h. wh_GetPrevious E L M h s) best
           in s\<lparr>hsCache := fold (cache_set M) (rev headers) (hsCache s)\<rparr>))"

definition wh_NewDatabase ::
  "codec \<Rightarrow> 'd leveldb \<Rightarrow> 'm omap \<Rightarrow> goerror + 'd \<Rightarrow> goerror + ('d, 'm) hstore" where
  "wh_NewDatabase E L M opened =
     (case opened of
        Inl e \<Rightarrow> Inl e
      | Inr db \<Rightarrow> Inr (wh_initCache E L M \<lparr>hsDb = db, hsTip = None, hsCache = om_Empty M\<rparr>))"

definition wallet_headers :: "codec \<Rightarrow> 'd leveldb \<Rightarrow> 'm omap \<Rightarrow> (('d, 'm) hstore \<Rightarrow> goerror option \<times> ('d, 'm) hstore) \<Rightarrow>
    ('d, 'm) hstore headers_if" where
  "wallet_headers E L M close =
     \<lparr>hPut = wh_Put E L M, hGetPrevious = wh_GetPrevious E L M, hGet = wh_Get E L M,
      hGetBest = wh_GetBest E L, hClear = wh_Clear L, hClose = close\<rparr>"

lemma wh_Get_db:
  assumes "hs_inv E L M wBKTHeaders s"
  shows "wh_Get E L M k s = getHeader E L (toKey wBKTHeaders (hash_bytes k)) (hsDb s)"
  using assms by (auto simp: wh_Get_def cache_get_def hs_inv_def split: option.split)

lemma wallet_keys [simp]: "toKey wBKTHeaders x \<noteq> wBKTChainTip" "wBKTChainTip \<noteq> toKey wBKTHeaders x"
  by (simp_all add: toKey_def wBKTHeaders_def wBKTChainTip_def str_bytes_def)

lemma wh_Put_db:
  assumes s: "hs_inv E L M wBKTHeaders s" and h: "header_storable E h"
    and p: "wh_Put E L M h nt s = (None, s')"
  shows "getHeader E L (toKey wBKTHeaders (hash_bytes k)) (hsDb s') =
      (if k = hdr_hash h then Inr h else getHeader E L (toKey wBKTHeaders (hash_bytes k)) (hsDb s))"
    and "hs_inv E L M wBKTHeaders s'"
    and "hsTip s' = (if nt then Some h else hsTip s)"
    and "\<not> nt \<Longrightarrow> ldb_get L (hsDb s') wBKTChainTip = ldb_get L (hsDb s) wBKTChainTip"
proof -
  let ?key = "toKey wBKTHeaders (hash_bytes (hdr_hash h))"
  obtain bs where bs: "header_Serialize E h = Inr bs" using header_Serialize_storable [OF h] by blast
  have L: "leveldb_ok L" and E: "codec_ok E" using s by (simp_all add: hs_inv_def)
  from p bs obtain db1 db2 where d:
      "ldb_put L (hsDb s) ?key bs = (None, db1)"
      "(if nt then ldb_put L db1 wBKTChainTip bs else (None, db1)) = (None, db2)"
      "s' = (if nt then s\<lparr>hsCache := cache_set M h (hsCache s), hsTip := Some h\<rparr>
        else s\<lparr>hsCache := cache_set M h (hsCache s)\<rparr>)\<lparr>hsDb := db2\<rparr>"
    by (auto simp: wh_Put_def Let_def split: prod.splits option.splits if_splits)
  have g1: "ldb_get L db1 = (ldb_get L (hsDb s))(?key := Inr bs)" by (rule ldb_get_put [OF L d(1)])
  have g2: "ldb_get L db2 = (if nt then (ldb_get L db1)(wBKTChainTip := Inr bs) else ldb_get L db1)"
    using d(2) ldb_get_put [OF L, of db1 wBKTChainTip bs db2] by (auto split: if_splits)
  have db: "hsDb s' = db2" using d(3) by simp
  have k: "ldb_get L db2 (toKey wBKTHeaders x) = (if x = hash_bytes (hdr_hash h) then Inr bs else ldb_get L (hsDb s) (toKey wBKTHeaders x))" for x
    by (simp add: g1 g2)
  have a: "getHeader E L (toKey wBKTHeaders (hash_bytes k)) db2 =
      (if k = hdr_hash h then Inr h else getHeader E L (toKey wBKTHeaders (hash_bytes k)) (hsDb s))" for k
    using getHeader_stored [OF E h bs, of L db2 ?key] k
    by (auto intro: getHeader_cong)
  then show "getHeader E L (toKey wBKTHeaders (hash_bytes k)) (hsDb s') =
      (if k = hdr_hash h then Inr h else getHeader E L (toKey wBKTHeaders (hash_bytes k)) (hsDb s))"
    by (simp only: db)
  show "hs_inv E L M wBKTHeaders s'"
    unfolding d(3) using cache_inv_set [OF s, of h db2] a by simp
  show "hsTip s' = (if nt then Some h else hsTip s)" using d(3) by simp
  show "\<not> nt \<Longrightarrow> ldb_get L (hsDb s') wBKTChainTip = ldb_get L (hsDb s) wBKTChainTip"
    by (simp add: db g1 g2)
qed

interpretation wh: headers_db "wallet_headers E L M close" "hs_inv E L M wBKTHeaders" "header_storable E"
  for E L M close
proof unfold_locales
  fix s h nt s' k
  assume s: "hs_inv E L M wBKTHeaders s" and h: "header_storable E h"
    and "hPut (wallet_headers E L M close) h nt s = (None, s')"
  then have p: "wh_Put E L M h nt s = (None, s')" by (simp add: wallet_headers_def)
  note d = wh_Put_db [OF s h p]
  show "hs_inv E L M wBKTHeaders s'" by (rule d(2))
  show "hGet (wallet_headers E L M close) k s' = (if k = hdr_hash h then Inr h else hGet (wallet_headers E L M close) k s)"
    by (simp add: wallet_headers_def wh_Get_db [OF s] wh_Get_db [OF d(2)] d(1))
  show "hGetBest (wallet_headers E L M close) s' = (if nt then Inr h else hGetBest (wallet_headers E L M close) s)"
    using d(3,4) by (cases nt) (auto simp: wallet_headers_def wh_GetBest_def intro: getHeader_cong split: option.split)
qed (simp add: wallet_headers_def wh_GetPrevious_def)

text \<open>The wallet's store after opening it again.\<close>

abbreviation wh_wf :: "codec \<Rightarrow> 'd leveldb \<Rightarrow> 'm omap \<Rightarrow> ('d, 'm) hstore \<Rightarrow> bool" where
  "wh_wf E L M \<equiv> store_wf E L M wBKTHeaders wBKTChainTip"

lemma wh_GetBest_db: "wh_wf E L M s \<Longrightarrow> wh_GetBest E L s = getHeader E L wBKTChainTip (hsDb s)"
  by (auto simp: store_wf_def wh_GetBest_def split: option.split)

lemma wh_Put_wf:
  assumes s: "wh_wf E L M s" and h: "header_storable E h" and p: "wh_Put E L M h nt s = (None, s')"
    and t: "\<And>t. \<not> nt \<Longrightarrow> wh_GetBest E L s = Inr t \<Longrightarrow> hdr_hash t \<noteq> hdr_hash h"
  shows "wh_wf E L M s'"
proof -
  have i: "hs_inv E L M wBKTHeaders s" and E: "codec_ok E" and L: "leveldb_ok L" using s by (simp_all add: store_wf_def hs_inv_def)
  note d = wh_Put_db [OF i h p]
  have tip: "getHeader E L wBKTChainTip (hsDb s') = (if nt then Inr h else getHeader E L wBKTChainTip (hsDb s))"
  proof (cases nt)
    case True
    obtain bs where bs: "header_Serialize E h = Inr bs" using header_Serialize_storable [OF h] by blast
    with p True obtain db1 where "ldb_put L db1 wBKTChainTip bs = (None, hsDb s')"
      by (auto simp: wh_Put_def Let_def split: prod.splits option.splits)
    from ldb_get_put [OF L this] have "ldb_get L (hsDb s') wBKTChainTip = Inr bs" by simp
    from getHeader_stored [OF E h bs this] True show ?thesis by simp
  next
    case False
    with d(4) show ?thesis by (auto intro: getHeader_cong)
  qed
  show ?thesis by (rule store_wf_put [OF s d(2,1,3) tip t [unfolded wh_GetBest_db [OF s]]])
qed

lemma wh_reopen:
  assumes w: "wh_wf E L M s" and n: "wh_NewDatabase E L M (Inr (hsDb s)) = Inr s2"
  shows "wh_wf E L M s2" and "hsDb s2 = hsDb s" and "wh_GetBest E L s2 = wh_GetBest E L s" and "wh_Get E L M k s2 = wh_Get E L M k s"
proof -
  let ?s0 = "\<lparr>hsDb = hsDb s, hsTip = None, hsCache = om_Empty M\<rparr>"
  have i0: "hs_inv E L M wBKTHeaders ?s0" using w by (auto simp: store_wf_def hs_inv_def ldb_simps)
  have b0: "wh_GetBest E L ?s0 = getHeader E L wBKTChainTip (hsDb s)" by (simp add: wh_GetBest_def)
  have r: "wh_wf E L M s2 \<and> hsDb s2 = hsDb s"
  proof (cases "getHeader E L wBKTChainTip (hsDb s)")
    case (Inl e)
    then have "s2 = ?s0" using n b0 by (simp add: wh_NewDatabase_def wh_initCache_def)
    with w i0 show ?thesis by (simp add: store_wf_def)
  next
    case (Inr best)
    let ?s1 = "?s0\<lparr>hsTip := Some best\<rparr>"
    let ?prev = "\<lambda>h. wh_GetPrevious E L M h ?s1"
    have s2: "s2 = ?s1\<lparr>hsCache := fold (cache_set M) (rev (best # previous_loop 99 ?prev best)) (hsCache ?s1)\<rparr>"
      using n Inr b0 by (simp add: wh_NewDatabase_def wh_initCache_def Let_def)
    have i1: "hs_inv E L M wBKTHeaders ?s1" using i0 by (simp add: hs_inv_def)
    have "hs_inv E L M wBKTHeaders s2" unfolding s2
      by (rule initCache_wf [OF i1]) (use w Inr wh_Get_db [OF i1] in \<open>auto simp: store_wf_def wh_GetPrevious_def\<close>)
    with w Inr show ?thesis by (simp add: store_wf_def s2)
  qed
  then show "wh_wf E L M s2" "hsDb s2 = hsDb s" by simp_all
  then show "wh_GetBest E L s2 = wh_GetBest E L s" "wh_Get E L M k s2 = wh_Get E L M k s"
    using wh_GetBest_db [OF w] wh_GetBest_db [of E L M s2] w wh_Get_db [of E L M s] wh_Get_db [of E L M s2]
    by (simp_all add: store_wf_def)
qed

subsection \<open>Properties\<close>

text \<open>C7: Storing a header makes it retrievable in every way: after \<open>Put\<close> reports no
  error it is found by hash and by height, it is the best header if it was put as the new tip,
  and every other header is found as before, whatever the cache evicted.\<close>

theorem HeaderStore_Put_Get:
  assumes "hs_inv E L M BKTHeaders s" and "header_storable E h" and "hs_Put E L M h newTip s = (None, s')"
  shows "hs_Get E L M (hdr_hash h) s' = Inr h \<and>
    hs_GetByHeight E L (hdrHeight h) s' = Inr h \<and>
    hs_GetBest E L s' = (if newTip then Inr h else hs_GetBest E L s) \<and>
    (\<forall>k. k \<noteq> hdr_hash h \<longrightarrow> hs_Get E L M k s' = hs_Get E L M k s)"
proof -
  let ?close = "\<lambda>s. (None, s)"
  have p: "hPut (store_headers E L M ?close) h newTip s = (None, s')"
    using assms(3) by (simp add: store_headers_def)
  from hs.put_get [OF assms(1,2) p] hs.put_best [OF assms(1,2) p] hs_Put_db(5) [OF assms]
  show ?thesis by (simp add: store_headers_def)
qed

text \<open>C14: Reopening the database is invisible: a store opened on the database of a
  well-formed store finds the same headers and the same best header, although the cache starts
  with the best header and its parent only.\<close>

theorem HeaderStore_reopen:
  assumes "hs_wf E L M s" and "NewHeaderStore E L M (Inr (hsDb s)) = Inr s2"
  shows "hs_wf E L M s2 \<and> hs_GetBest E L s2 = hs_GetBest E L s \<and>
    (\<forall>k. hs_Get E L M k s2 = hs_Get E L M k s)"
proof -
  have w: "hs_wf E L M s2" "hsDb s2 = hsDb s" using NewHeaderStore_wf [OF assms] by simp_all
  then have "hs_inv E L M BKTHeaders s2" "hs_inv E L M BKTHeaders s"
    using assms(1) by (simp_all add: store_wf_def)
  with w show ?thesis by (simp add: hs_GetBest_db [OF w(1)] hs_GetBest_db [OF assms(1)] hs_Get_db)
qed

text \<open>\<open>Clear\<close> empties the database but not the cache: afterwards every key is absent
  from the database, and yet the old tip and every cached header are still returned.\<close>

theorem HeaderStore_Clear_keeps_cache:
  assumes "leveldb_ok L" and "hs_Clear L s = (None, s')"
  shows "(\<forall>k v. ldb_get L (hsDb s') k \<noteq> Inr v) \<and>
    (\<forall>t. hsTip s = Some t \<longrightarrow> hs_GetBest E L s' = Inr t) \<and>
    (\<forall>k h. om_Get M k (hsCache s) = Some h \<longrightarrow> hs_Get E L M k s' = Inr h)"
proof -
  let ?ks = "map fst (ldb_iter L (hsDb s) [])"
  have m: "map (\<lambda>(k, v). BDel k) xs = map BDel (map fst xs)" for xs :: "(bytes \<times> bytes) list" by auto
  from assms(2) obtain db where w: "ldb_write L (hsDb s) (map BDel ?ks) = (None, db)" "s' = s\<lparr>hsDb := db\<rparr>"
    by (auto simp: hs_Clear_def m split: prod.splits)
  have "ldb_get L db k \<noteq> Inr v" for k v
  proof (cases "k \<in> set ?ks")
    case True
    then show ?thesis unfolding ldb_get_write [OF assms(1) w(1)] batch_apply_deletes by simp
  next
    case False
    then have "ldb_get L (hsDb s) k \<noteq> Inr v" using ldb_iter_set [OF assms(1), of "hsDb s" "[]"] by force
    with False show ?thesis unfolding ldb_get_write [OF assms(1) w(1)] batch_apply_deletes by simp
  qed
  then show ?thesis by (simp add: w(2) hs_GetBest_def hs_Get_def cache_get_def)
qed

text \<open>Concrete instances: an ordered map as an association list, an empty store.\<close>

definition omap0 :: "(uint256 \<times> header) list omap" where
  "omap0 = \<lparr>om_Empty = [], om_Len = length, om_First = (\<lambda>m. case m of [] \<Rightarrow> None | (k, _) # _ \<Rightarrow> Some k),
     om_Delete = AList.delete, om_Set = AList.update, om_Get = (\<lambda>k m. map_of m k)\<rparr>"

lemma omap0_ok: "omap_ok omap0"
  by (auto simp: omap_ok_def omap0_def update_conv' delete_conv')

definition store0 :: "((bytes \<times> bytes) list, (uint256 \<times> header) list) hstore" where
  "store0 = \<lparr>hsDb = [], hsTip = None, hsCache = []\<rparr>"

lemma store0_wf: "hs_wf codec0 leveldb0 omap0 store0"
proof -
  have "ldb_get leveldb0 [] k = Inl NotFound" for k by (simp add: leveldb0_def alist_get_def)
  moreover have "om_Get omap0 k [] = None" for k by (simp add: omap0_def)
  ultimately show ?thesis
    by (simp add: store_wf_def hs_inv_def store0_def codec0_ok leveldb0_ok omap0_ok getHeader_def)
qed

definition sample_header :: header where
  "sample_header = \<lparr>hdrBH = sample_bheader, hdrHeight = 3, hdrNumTxs = 0, hdrHashes = [], hdrFlags = [], hdrTotalWork = 9\<rparr>"

lemma sample_storable: "header_storable codec0 sample_header"
  by (simp add: header_storable_def sample_header_def codec0_def)

lemma sample_put: "\<exists>s'. hs_Put codec0 leveldb0 omap0 sample_header nt store0 = (None, s')"
  using header_Serialize_storable [OF sample_storable]
  by (auto simp: hs_Put_def Let_def leveldb0_def split: prod.split)

lemma HeaderStore_Put_Get_witness:
  "\<exists>s'. hs_Put codec0 leveldb0 omap0 sample_header True store0 = (None, s') \<and>
    hs_GetByHeight codec0 leveldb0 3 s' = Inr sample_header \<and>
    hs_GetBest codec0 leveldb0 s' = Inr sample_header"
proof -
  obtain s' where "hs_Put codec0 leveldb0 omap0 sample_header True store0 = (None, s')"
    using sample_put by blast
  with HeaderStore_Put_Get [OF _ sample_storable this] store0_wf show ?thesis
    by (simp add: store_wf_def sample_header_def)
qed

lemma HeaderStore_reopen_witness:
  "\<exists>s s2. hs_Put codec0 leveldb0 omap0 sample_header True store0 = (None, s) \<and>
    NewHeaderStore codec0 leveldb0 omap0 (Inr (hsDb s)) = Inr s2 \<and>
    hs_GetBest codec0 leveldb0 s2 = hs_GetBest codec0 leveldb0 s"
proof -
  obtain s where p: "hs_Put codec0 leveldb0 omap0 sample_header True store0 = (None, s)"
    using sample_put by blast
  have "hs_wf codec0 leveldb0 omap0 s" by (rule hs_Put_wf [OF store0_wf sample_storable p]) simp
  from HeaderStore_reopen [OF this] p show ?thesis by (simp add: NewHeaderStore_def)
qed

lemma HeaderStore_Clear_witness:
  "\<exists>s s'. hs_Put codec0 leveldb0 omap0 sample_header True store0 = (None, s) \<and>
    hs_Clear leveldb0 s = (None, s') \<and> hs_GetBest codec0 leveldb0 s' = Inr sample_header"
proof -
  obtain s where p: "hs_Put codec0 leveldb0 omap0 sample_header True store0 = (None, s)"
    using sample_put by blast
  then have "hsTip s = Some sample_header"
    using hs_Put_db(3) [OF _ sample_storable p] store0_wf by (simp add: store_wf_def)
  moreover obtain s' where "hs_Clear leveldb0 s = (None, s')"
    by (auto simp: hs_Clear_def leveldb0_def Let_def split: prod.splits)
  ultimately show ?thesis
    using HeaderStore_Clear_keeps_cache [OF leveldb0_ok, where E = codec0 and M = omap0] p by blast
qed

end
