(* ===== verification/ChainDB.thy ===== *)
theory ChainDB
  imports HeaderStore
begin

text \<open>
  The chain store (\<open>database/chaindb.go\<close>), made of a header database and a transaction
  database, whose interfaces are \<open>headers_if\<close> and \<open>txsdb_if\<close>. The interface
  \<open>database.ChainStore\<close> is the record \<open>chain_store\<close>, its contract on the headers the
  locale \<open>chain_db\<close>: any header database that keeps the contract \<open>headers_db\<close> gives a
  chain store that keeps \<open>chain_db\<close> (\<open>chainDB_ok\<close>). The loops of
  \<open>ProcessReorganize\<close> follow parent links and may not end, so its result is an option.
\<close>

subsection \<open>Interfaces\<close>

record 't txsdb_if =
  tPutTxs :: "txn list \<Rightarrow> u32 \<Rightarrow> 't \<Rightarrow> (goerror + u32) \<times> 't"
  tPutForkTxs :: "txn list \<Rightarrow> uint256 \<Rightarrow> 't \<Rightarrow> goerror option \<times> 't"
  tHaveTx :: "uint256 \<Rightarrow> 't \<Rightarrow> goerror + bool"
  tGetTxs :: "u32 \<Rightarrow> 't \<Rightarrow> goerror + txn list"
  tGetForkTxs :: "uint256 \<Rightarrow> 't \<Rightarrow> goerror + txn list"
  tDelTxs :: "u32 \<Rightarrow> 't \<Rightarrow> goerror option \<times> 't"
  tClear :: "'t \<Rightarrow> goerror option \<times> 't"
  tClose :: "'t \<Rightarrow> goerror option \<times> 't"

record 'c chain_store =
  csHeaders :: "'c headers_if"
  csCommitBlock :: "block \<Rightarrow> bool \<Rightarrow> 'c \<Rightarrow> (goerror + u32) \<times> 'c"
  csProcessReorganize :: "header \<Rightarrow> header \<Rightarrow> header \<Rightarrow> 'c \<Rightarrow> (goerror option \<times> 'c) option"
  csClear :: "'c \<Rightarrow> goerror option \<times> 'c"
  csClose :: "'c \<Rightarrow> goerror option \<times> 'c"

text \<open>What a chain store promises on the headers: committing a block puts its header,
  reorganizing puts the new tip.\<close>

locale chain_db = headers_db "csHeaders C" inv storable
  for C :: "'c chain_store" and inv :: "'c \<Rightarrow> bool" and storable :: "header \<Rightarrow> bool" +
  assumes commit_inv: "inv c \<Longrightarrow> storable (blkHeader b) \<Longrightarrow> csCommitBlock C b nt c = (Inr fps, c') \<Longrightarrow> inv c'"
    and commit_get: "inv c \<Longrightarrow> storable (blkHeader b) \<Longrightarrow> csCommitBlock C b nt c = (Inr fps, c') \<Longrightarrow>
      hGet (csHeaders C) k c' = (if k = hdr_hash (blkHeader b) then Inr (blkHeader b) else hGet (csHeaders C) k c)"
    and commit_best: "inv c \<Longrightarrow> storable (blkHeader b) \<Longrightarrow> csCommitBlock C b nt c = (Inr fps, c') \<Longrightarrow>
      hGetBest (csHeaders C) c' = (if nt then Inr (blkHeader b) else hGetBest (csHeaders C) c)"
    and reorg_inv: "inv c \<Longrightarrow> storable t \<Longrightarrow> csProcessReorganize C a p t c = Some (None, c') \<Longrightarrow> inv c'"
    and reorg_get: "inv c \<Longrightarrow> storable t \<Longrightarrow> csProcessReorganize C a p t c = Some (None, c') \<Longrightarrow>
      hGet (csHeaders C) k c' = (if k = hdr_hash t then Inr t else hGet (csHeaders C) k c)"
    and reorg_best: "inv c \<Longrightarrow> storable t \<Longrightarrow> csProcessReorganize C a p t c = Some (None, c') \<Longrightarrow>
      hGetBest (csHeaders C) c' = Inr t"

subsection \<open>The code\<close>

record ('h, 't) chaindb =
  cdH :: 'h
  cdT :: 't

definition chaindb_headers :: "'h headers_if \<Rightarrow> ('h, 't) chaindb headers_if" where
  "chaindb_headers H =
     \<lparr>hPut = (\<lambda>h nt d. let (e, s) = hPut H h nt (cdH d) in (e, d\<lparr>cdH := s\<rparr>)),
      hGetPrevious = (\<lambda>h d. hGetPrevious H h (cdH d)),
      hGet = (\<lambda>k d. hGet H k (cdH d)),
      hGetBest = (\<lambda>d. hGetBest H (cdH d)),
      hClear = (\<lambda>d. let (e, s) = hClear H (cdH d) in (e, d\<lparr>cdH := s\<rparr>)),
      hClose = (\<lambda>d. let (e, s) = hClose H (cdH d) in (e, d\<lparr>cdH := s\<rparr>))\<rparr>"

definition chaindb_CommitBlock ::
  "'h headers_if \<Rightarrow> 't txsdb_if \<Rightarrow> block \<Rightarrow> bool \<Rightarrow> ('h, 't) chaindb \<Rightarrow> (goerror + u32) \<times> ('h, 't) chaindb" where
  "chaindb_CommitBlock H T blk newTip d =
     (case hPut H (blkHeader blk) newTip (cdH d) of
        (Some e, s) \<Rightarrow> (Inl e, d\<lparr>cdH := s\<rparr>)
      | (None, s) \<Rightarrow>
          (let d = d\<lparr>cdH := s\<rparr> in
           if newTip then
             (let (r, t) = tPutTxs T (blkTransactions blk) (hdrHeight (blkHeader blk)) (cdT d)
              in (r, d\<lparr>cdT := t\<rparr>))
           else
             (let (e, t) = tPutForkTxs T (blkTransactions blk) (hdr_hash (blkHeader blk)) (cdT d)
              in ((case e of None \<Rightarrow> Inr 0 | Some e \<Rightarrow> Inl e), d\<lparr>cdT := t\<rparr>))))"

text \<open>Moving the transactions of the old chain to the fork store, from the old tip down.\<close>

partial_function (option) back_loop ::
  "'h headers_if \<Rightarrow> 't txsdb_if \<Rightarrow> uint256 \<Rightarrow> header \<Rightarrow> ('h, 't) chaindb \<Rightarrow> (goerror option \<times> ('h, 't) chaindb) option" where
  "back_loop H T root' hdr d =
     (if hdr_hash hdr = root' then Some (None, d)
      else (case tGetTxs T (hdrHeight hdr) (cdT d) of
        Inl e \<Rightarrow> Some (Some e, d)
      | Inr txs \<Rightarrow>
     (case tPutForkTxs T txs (hdr_hash hdr) (cdT d) of
        (Some e, t) \<Rightarrow> Some (Some e, d\<lparr>cdT := t\<rparr>)
      | (None, t) \<Rightarrow>
     (case tDelTxs T (hdrHeight hdr) t of
        (Some e, t) \<Rightarrow> Some (Some e, d\<lparr>cdT := t\<rparr>)
      | (None, t) \<Rightarrow>
     (case hGetPrevious H hdr (cdH d) of
        Inl e \<Rightarrow> Some (Some e, d\<lparr>cdT := t\<rparr>)
      | Inr prev \<Rightarrow> back_loop H T root' prev (d\<lparr>cdT := t\<rparr>))))))"

text \<open>Indexing the new chain by parent hash, from the new tip down.\<close>

partial_function (option) sub_loop ::
  "'h headers_if \<Rightarrow> uint256 \<Rightarrow> header \<Rightarrow> (uint256 \<rightharpoonup> header) \<Rightarrow> 'h \<Rightarrow> (goerror + (uint256 \<rightharpoonup> header)) option" where
  "sub_loop H root' hdr sub s =
     (if hdr_hash hdr = root' then Some (Inr sub)
      else (case hGetPrevious H hdr s of
        Inl e \<Rightarrow> Some (Inl e)
      | Inr prev \<Rightarrow> sub_loop H root' prev (sub(hdr_prev hdr \<mapsto> hdr)) s))"

text \<open>Putting the transactions of the new chain, from the first block after the common
  ancestor up to the parent of the new tip. \<open>hdr\<close> is the pointer found in the index.\<close>

partial_function (option) connect_loop ::
  "'t txsdb_if \<Rightarrow> (uint256 \<rightharpoonup> header) \<Rightarrow> uint256 \<Rightarrow> header option \<Rightarrow> 't \<Rightarrow> (goerror option \<times> 't) option" where
  "connect_loop T sub tip hdr t =
     (case hdr of
        None \<Rightarrow> Some (Some (Panic ''nil pointer dereference''), t)
      | Some h \<Rightarrow>
          if hdr_hash h = tip then Some (None, t)
          else (case tGetForkTxs T (hdr_hash h) t of
            Inl e \<Rightarrow> Some (Some e, t)
          | Inr txs \<Rightarrow>
              (case tPutTxs T txs (hdrHeight h) t of
                 (Inl e, t) \<Rightarrow> Some (Some e, t)
               | (Inr fps, t) \<Rightarrow> connect_loop T sub tip (sub (hdr_hash h)) t)))"

definition chaindb_ProcessReorganize ::
  "'h headers_if \<Rightarrow> 't txsdb_if \<Rightarrow> header \<Rightarrow> header \<Rightarrow> header \<Rightarrow> ('h, 't) chaindb \<Rightarrow>
   (goerror option \<times> ('h, 't) chaindb) option" where
  "chaindb_ProcessReorganize H T commonAncestor prevTip newTip d =
     (let root' = hdr_hash commonAncestor in
      case back_loop H T root' prevTip d of
        None \<Rightarrow> None
      | Some (Some e, d) \<Rightarrow> Some (Some e, d)
      | Some (None, d) \<Rightarrow>
     (case sub_loop H root' newTip Map.empty (cdH d) of
        None \<Rightarrow> None
      | Some (Inl e) \<Rightarrow> Some (Some e, d)
      | Some (Inr sub) \<Rightarrow>
     (case connect_loop T sub (hdr_hash newTip) (sub root') (cdT d) of
        None \<Rightarrow> None
      | Some (Some e, t) \<Rightarrow> Some (Some e, d\<lparr>cdT := t\<rparr>)
      | Some (None, t) \<Rightarrow>
          (let (e, s) = hPut H newTip True (cdH d) in Some (e, d\<lparr>cdT := t, cdH := s\<rparr>)))))"

definition chaindb_Clear ::
  "'h headers_if \<Rightarrow> 't txsdb_if \<Rightarrow> ('h, 't) chaindb \<Rightarrow> goerror option \<times> ('h, 't) chaindb" where
  "chaindb_Clear H T d =
     (case hClear H (cdH d) of
        (Some e, s) \<Rightarrow> (Some e, d\<lparr>cdH := s\<rparr>)
      | (None, s) \<Rightarrow> (let (e, t) = tClear T (cdT d) in (e, d\<lparr>cdH := s, cdT := t\<rparr>)))"

definition chaindb_Close ::
  "'h headers_if \<Rightarrow> 't txsdb_if \<Rightarrow> ('h, 't) chaindb \<Rightarrow> goerror option \<times> ('h, 't) chaindb" where
  "chaindb_Close H T d =
     (case hClose H (cdH d) of
        (Some e, s) \<Rightarrow> (Some e, d\<lparr>cdH := s\<rparr>)
      | (None, s) \<Rightarrow> (let (e, t) = tClose T (cdT d) in (e, d\<lparr>cdH := s, cdT := t\<rparr>)))"

definition chainDB :: "'h headers_if \<Rightarrow> 't txsdb_if \<Rightarrow> ('h, 't) chaindb chain_store" where
  "chainDB H T =
     \<lparr>csHeaders = chaindb_headers H, csCommitBlock = chaindb_CommitBlock H T,
      csProcessReorganize = chaindb_ProcessReorganize H T,
      csClear = chaindb_Clear H T, csClose = chaindb_Close H T\<rparr>"

subsection \<open>The contract on headers\<close>

lemma back_loop_headers: "back_loop H T r hdr d = Some y \<Longrightarrow> cdH (snd y) = cdH d"
  by (rule back_loop.raw_induct [of "\<lambda>H T r hdr d y. cdH (snd y) = cdH d" H T r hdr d y])
    (auto split: if_splits sum.splits prod.splits option.splits; fastforce)+

lemma reorg_headers:
  assumes "chaindb_ProcessReorganize H T a p t d = Some (None, d')"
  shows "hPut H t True (cdH d) = (None, cdH d')"
  using assms
  by (auto simp: chaindb_ProcessReorganize_def Let_def split: option.splits prod.splits sum.splits
      dest!: back_loop_headers)

lemma commit_headers:
  assumes "chaindb_CommitBlock H T b nt d = (Inr fps, d')"
  shows "hPut H (blkHeader b) nt (cdH d) = (None, cdH d')"
  using assms
  by (auto simp: chaindb_CommitBlock_def Let_def split: option.splits prod.splits if_splits)

context headers_db
begin

lemma chainDB_ok: "chain_db (chainDB H T) (\<lambda>d. inv (cdH d)) storable"
proof unfold_locales
  fix s h nt s' k
  assume i: "inv (cdH s)" and h: "storable h" and "hPut (csHeaders (chainDB H T)) h nt s = (None, s')"
  then have p: "hPut H h nt (cdH s) = (None, cdH s')"
    by (auto simp: chainDB_def chaindb_headers_def Let_def split: prod.splits)
  show "inv (cdH s')" by (rule put_inv [OF i h p])
  show "hGet (csHeaders (chainDB H T)) k s' = (if k = hdr_hash h then Inr h else hGet (csHeaders (chainDB H T)) k s)"
    using put_get [OF i h p] by (simp add: chainDB_def chaindb_headers_def)
  show "hGetBest (csHeaders (chainDB H T)) s' = (if nt then Inr h else hGetBest (csHeaders (chainDB H T)) s)"
    using put_best [OF i h p] by (simp add: chainDB_def chaindb_headers_def)
next
  fix h s
  show "hGetPrevious (csHeaders (chainDB H T)) h s = hGet (csHeaders (chainDB H T)) (hdr_prev h) s"
    by (simp add: chainDB_def chaindb_headers_def get_previous)
next
  fix c b nt fps c' k
  assume i: "inv (cdH c)" and h: "storable (blkHeader b)" and "csCommitBlock (chainDB H T) b nt c = (Inr fps, c')"
  then have p: "hPut H (blkHeader b) nt (cdH c) = (None, cdH c')"
    by (intro commit_headers) (simp add: chainDB_def)
  show "inv (cdH c')" by (rule put_inv [OF i h p])
  show "hGet (csHeaders (chainDB H T)) k c' = (if k = hdr_hash (blkHeader b) then Inr (blkHeader b) else hGet (csHeaders (chainDB H T)) k c)"
    using put_get [OF i h p] by (simp add: chainDB_def chaindb_headers_def)
  show "hGetBest (csHeaders (chainDB H T)) c' = (if nt then Inr (blkHeader b) else hGetBest (csHeaders (chainDB H T)) c)"
    using put_best [OF i h p] by (simp add: chainDB_def chaindb_headers_def)
next
  fix c t a p c' k
  assume i: "inv (cdH c)" and h: "storable t" and "csProcessReorganize (chainDB H T) a p t c = Some (None, c')"
  then have q: "hPut H t True (cdH c) = (None, cdH c')"
    by (intro reorg_headers) (simp add: chainDB_def)
  show "inv (cdH c')" by (rule put_inv [OF i h q])
  show "hGet (csHeaders (chainDB H T)) k c' = (if k = hdr_hash t then Inr t else hGet (csHeaders (chainDB H T)) k c)"
    using put_get [OF i h q] by (simp add: chainDB_def chaindb_headers_def)
  show "hGetBest (csHeaders (chainDB H T)) c' = Inr t"
    using put_best [OF i h q] by (simp add: chainDB_def chaindb_headers_def)
qed

end

interpretation service_chain: chain_db "chainDB (store_headers E L M close) T"
    "\<lambda>d. hs_inv E L M BKTHeaders (cdH d)" "header_storable E"
  for E L M close T
  by (rule hs.chainDB_ok)

interpretation wallet_chain: chain_db "chainDB (wallet_headers E L M close) T"
    "\<lambda>d. hs_inv E L M wBKTHeaders (cdH d)" "header_storable E"
  for E L M close T
  by (rule wh.chainDB_ok)

end
