(* ===== verification/BlockChain.thy ===== *)
theory BlockChain
  imports ChainDB
begin

text \<open>
  The block chain (\<open>blockchain/blockchain.go\<close>): headers committed one by one on top of the
  chain store, the choice of the best chain by total work, the common ancestor at a
  reorganization, the block locator. The operations are over the interface
  \<open>chain_store\<close>; the lemmas are proved in the locale \<open>chain_db\<close> and hold of the SPV service's
  and of the wallet's store through its interpretations.
\<close>

definition MaxBlockLocatorHashes :: nat where
  "MaxBlockLocatorHashes = 100"

definition genesis_header :: "bheader \<Rightarrow> header" where
  "genesis_header g = \<lparr>hdrBH = g, hdrHeight = 0, hdrNumTxs = 0, hdrHashes = [], hdrFlags = [], hdrTotalWork = 0\<rparr>"

definition bc_New :: "'c chain_store \<Rightarrow> bheader \<Rightarrow> 'c \<Rightarrow> goerror option \<times> 'c" where
  "bc_New C genesisHeader c =
     (case hGetBest (csHeaders C) c of
        Inl _ \<Rightarrow> hPut (csHeaders C) (genesis_header genesisHeader) True c
      | Inr _ \<Rightarrow> (None, c))"

definition checkHeader :: "header \<Rightarrow> header \<Rightarrow> bool" where
  "checkHeader hdr prevHeader =
     (if hdr_hash prevHeader \<noteq> hdr_prev hdr then False
      else if \<not> checkProofOfWork (hdrBH hdr) then False
      else True)"

text \<open>Going back \<open>n\<close> parents.\<close>

fun rollback :: "'c chain_store \<Rightarrow> 'c \<Rightarrow> nat \<Rightarrow> header \<Rightarrow> goerror + header" where
  "rollback C c 0 parent = Inr parent"
| "rollback C c (Suc n) parent =
     (case hGetPrevious (csHeaders C) parent c of Inl e \<Rightarrow> Inl e | Inr p \<Rightarrow> rollback C c n p)"

partial_function (option) ancestor_loop :: "'c chain_store \<Rightarrow> 'c \<Rightarrow> header \<Rightarrow> header \<Rightarrow> (goerror + header) option" where
  "ancestor_loop C c majority minority =
     (if hdr_hash majority = hdr_hash minority then Some (Inr majority)
      else (case hGetPrevious (csHeaders C) majority c of
        Inl e \<Rightarrow> Some (Inl e)
      | Inr majority' \<Rightarrow>
          (case hGetPrevious (csHeaders C) minority c of
             Inl e \<Rightarrow> Some (Inl e)
           | Inr minority' \<Rightarrow> ancestor_loop C c majority' minority')))"

definition getCommonAncestor :: "'c chain_store \<Rightarrow> header \<Rightarrow> header \<Rightarrow> 'c \<Rightarrow> (goerror + header) option" where
  "getCommonAncestor C bestHeader prevTip c =
     (if hdrHeight prevTip < hdrHeight bestHeader then
        (case rollback C c (unat (hdrHeight bestHeader - hdrHeight prevTip)) bestHeader of
           Inl e \<Rightarrow> Some (Inl e)
         | Inr majority \<Rightarrow> ancestor_loop C c majority prevTip)
      else if hdrHeight bestHeader < hdrHeight prevTip then
        (case rollback C c (unat (hdrHeight prevTip - hdrHeight bestHeader)) prevTip of
           Inl e \<Rightarrow> Some (Inl e)
         | Inr minority \<Rightarrow> ancestor_loop C c bestHeader minority)
      else ancestor_loop C c bestHeader prevTip)"

text \<open>The results of \<open>CommitBlock\<close>; \<open>crHeader\<close> is the block's header as left in the
  caller's block.\<close>

record commit_result =
  crNewTip :: bool
  crReorg :: bool
  crHeight :: u32
  crFps :: u32
  crErr :: "goerror option"
  crHeader :: header

definition bc_CommitBlock :: "'c chain_store \<Rightarrow> block \<Rightarrow> 'c \<Rightarrow> (commit_result \<times> 'c) option" where
  "bc_CommitBlock C blk c =
     (let header = blkHeader blk;
          res = (\<lambda>nt reorg height fps err hdr. \<lparr>crNewTip = nt, crReorg = reorg, crHeight = height,
                   crFps = fps, crErr = err, crHeader = hdr\<rparr>) in
      case hGetBest (csHeaders C) c of
        Inl e \<Rightarrow> Some (res False False 0 0 (Some e) header, c)
      | Inr bestHeader \<Rightarrow>
     (case (if hdr_prev header = hdr_hash bestHeader then Inr bestHeader
            else hGetPrevious (csHeaders C) header c) of
        Inl e \<Rightarrow> Some (res False False 0 0 (Some OrphanBlockError) header, c)
      | Inr parentHeader \<Rightarrow>
          if \<not> checkHeader header parentHeader then Some (res False False 0 0 None header, c)
          else if hdr_hash bestHeader = hdr_hash header then Some (res False False 0 0 None header, c)
          else
            let cumulativeWork = hdrTotalWork parentHeader + CalcWork (bhBits (hdrBH header));
                newTip = (hdrTotalWork bestHeader < cumulativeWork);
                reorg = (newTip \<and> hdr_hash bestHeader \<noteq> hdr_hash parentHeader);
                newHeight = hdrHeight parentHeader + 1;
                header = header\<lparr>hdrHeight := newHeight, hdrTotalWork := cumulativeWork\<rparr>
            in (case csCommitBlock C (blk\<lparr>blkHeader := header\<rparr>) newTip c of
                  (Inl e, c) \<Rightarrow> Some (res newTip reorg 0 0 (Some e) header, c)
                | (Inr fps, c) \<Rightarrow>
                    if \<not> reorg then Some (res newTip reorg newHeight fps None header, c)
                    else (case getCommonAncestor C header bestHeader c of
                      None \<Rightarrow> None
                    | Some (Inl e) \<Rightarrow> Some (res newTip reorg 0 0 (Some e) header, c)
                    | Some (Inr commonAncestor) \<Rightarrow>
                        (case csProcessReorganize C commonAncestor bestHeader header c of
                           None \<Rightarrow> None
                         | Some (Some e, c) \<Rightarrow> Some (res newTip reorg 0 0 (Some e) header, c)
                         | Some (None, c) \<Rightarrow> Some (res newTip reorg newHeight fps None header, c))))))"

definition HaveBlock :: "'c chain_store \<Rightarrow> uint256 \<Rightarrow> 'c \<Rightarrow> bool" where
  "HaveBlock C hash c = (case hGet (csHeaders C) hash c of Inl _ \<Rightarrow> False | Inr _ \<Rightarrow> True)"

text \<open>The locator loop; \<open>room\<close> is how many hashes still fit.\<close>

fun locator_loop :: "'c chain_store \<Rightarrow> 'c \<Rightarrow> nat \<Rightarrow> nat \<Rightarrow> nat \<Rightarrow> header \<Rightarrow> uint256 list" where
  "locator_loop C c 0 step start parent = []"
| "locator_loop C c (Suc room) step start parent =
     (let (step, start) = (if 9 \<le> start then (step * 2, 0) else (step, start))
      in hdr_hash parent #
         (if room = 0 then []
          else case rollback C c step parent of
                 Inl e \<Rightarrow> []
               | Inr p \<Rightarrow> locator_loop C c room step (start + 1) p))"

definition LatestBlockLocator :: "'c chain_store \<Rightarrow> 'c \<Rightarrow> uint256 list" where
  "LatestBlockLocator C c =
     (case hGetBest (csHeaders C) c of
        Inl e \<Rightarrow> []
      | Inr parent \<Rightarrow> locator_loop C c MaxBlockLocatorHashes 1 0 parent)"

definition BestHeight :: "'c chain_store \<Rightarrow> 'c \<Rightarrow> u32" where
  "BestHeight C c = (case hGetBest (csHeaders C) c of Inl e \<Rightarrow> 0 | Inr best \<Rightarrow> hdrHeight best)"

definition bc_Clear :: "'c chain_store \<Rightarrow> 'c \<Rightarrow> goerror option \<times> 'c" where
  "bc_Clear C c = csClear C c"

definition bc_Close :: "'c chain_store \<Rightarrow> 'c \<Rightarrow> goerror option \<times> 'c" where
  "bc_Close C c = csClose C c"

subsection \<open>Well-formed chains\<close>

definition look :: "'c chain_store \<Rightarrow> 'c \<Rightarrow> uint256 \<Rightarrow> header option" where
  "look C c k = (case hGet (csHeaders C) k c of Inl _ \<Rightarrow> None | Inr h \<Rightarrow> Some h)"

text \<open>A stored header is the genesis header, or sits one above its parent, with the parent's
  total work plus its own, and proves its work.\<close>

definition linked :: "bheader \<Rightarrow> (uint256 \<rightharpoonup> header) \<Rightarrow> header \<Rightarrow> bool" where
  "linked g m h \<longleftrightarrow>
     hdrBH h = g \<and> hdrHeight h = 0 \<and> hdrTotalWork h = 0 \<or>
     (\<exists>p. m (hdr_prev h) = Some p \<and> unat (hdrHeight h) = unat (hdrHeight p) + 1 \<and>
        hdrTotalWork h = hdrTotalWork p + CalcWork (bhBits (hdrBH h)) \<and> checkProofOfWork (hdrBH h))"

text \<open>The headers of a chain with genesis block \<open>g\<close>, drawn from a set \<open>U\<close> of block headers
  with different hashes none of which is the hash before the genesis block.\<close>

definition headers_ok :: "bheader set \<Rightarrow> bheader \<Rightarrow> (uint256 \<rightharpoonup> header) \<Rightarrow> bool" where
  "headers_ok U g m \<longleftrightarrow> inj_on bhHash U \<and> g \<in> U \<and> (\<forall>u \<in> U. bhHash u \<noteq> bhPrevious g) \<and>
     (\<exists>h. m (bhHash g) = Some h) \<and>
     (\<forall>k h. m k = Some h \<longrightarrow> hdr_hash h = k \<and> hdrBH h \<in> U \<and> linked g m h)"

definition chain_ok :: "'c chain_store \<Rightarrow> ('c \<Rightarrow> bool) \<Rightarrow> bheader set \<Rightarrow> bheader \<Rightarrow> 'c \<Rightarrow> bool" where
  "chain_ok C I U g c \<longleftrightarrow> I c \<and> headers_ok U g (look C c) \<and>
     (\<exists>b. hGetBest (csHeaders C) c = Inr b \<and> look C c (hdr_hash b) = Some b \<and>
        (\<forall>k h. look C c k = Some h \<longrightarrow> hdrTotalWork h \<le> hdrTotalWork b))"

lemma headers_okD:
  assumes "headers_ok U g m" and "m k = Some h"
  shows "hdr_hash h = k" and "hdrBH h \<in> U" and "linked g m h" and "hdr_hash h \<noteq> bhPrevious g"
  using assms by (auto simp: headers_ok_def)

lemma genesis_parent: "headers_ok U g m \<Longrightarrow> m (bhPrevious g) = None"
  by (rule ccontr) (auto dest: headers_okD)

text \<open>A child of a stored header that is stored already has its height and work.\<close>

lemma restored_same:
  assumes ok: "headers_ok U g m" and "hdrBH h \<in> U" and p: "m (hdr_prev h) = Some p"
    and old: "m (hdr_hash h) = Some h0"
  shows "unat (hdrHeight h0) = unat (hdrHeight p) + 1"
    and "hdrTotalWork h0 = hdrTotalWork p + CalcWork (bhBits (hdrBH h))"
    and "hdrBH h0 = hdrBH h"
proof -
  have d: "hdr_hash h0 = hdr_hash h" "hdrBH h0 \<in> U" "linked g m h0" using headers_okD [OF ok old] by simp_all
  then show e: "hdrBH h0 = hdrBH h" using ok assms(2) by (auto simp: headers_ok_def inj_on_def)
  have "hdrBH h0 \<noteq> g" using e p genesis_parent [OF ok] by auto
  then show "unat (hdrHeight h0) = unat (hdrHeight p) + 1"
    and "hdrTotalWork h0 = hdrTotalWork p + CalcWork (bhBits (hdrBH h))"
    using d(3) e p by (auto simp: linked_def)
qed

text \<open>Storing a valid child of a stored header keeps the headers well-formed.\<close>

lemma headers_ok_extend:
  assumes ok: "headers_ok U g m" and u: "hdrBH h \<in> U" and p: "m (hdr_prev h) = Some p"
    and h: "unat (hdrHeight h) = unat (hdrHeight p) + 1"
      "hdrTotalWork h = hdrTotalWork p + CalcWork (bhBits (hdrBH h))" "checkProofOfWork (hdrBH h)"
  shows "headers_ok U g (m(hdr_hash h \<mapsto> h))"
proof -
  let ?m = "m(hdr_hash h \<mapsto> h)"
  have up: "\<exists>q'. ?m k = Some q' \<and> hdrHeight q' = hdrHeight q \<and> hdrTotalWork q' = hdrTotalWork q"
    if q: "m k = Some q" for k q
  proof (cases "k = hdr_hash h")
    case True
    with q have "m (hdr_hash h) = Some q" by simp
    from restored_same [OF ok u p this] h have "hdrHeight q = hdrHeight h" "hdrTotalWork q = hdrTotalWork h"
      by (simp_all add: word_unat_eq_iff)
    with True show ?thesis by simp
  next
    case False
    with q show ?thesis by simp
  qed
  have lk: "linked g ?m x" if "linked g m x" for x
    using that up [of "hdr_prev x"] unfolding linked_def by fastforce
  have "linked g m h" using p h unfolding linked_def by blast
  then have "linked g ?m h" by (rule lk)
  then show ?thesis
    using ok u lk unfolding headers_ok_def by (auto split: if_splits)
qed

lemma stored_inj:
  assumes "look C c (hdr_hash x) = Some x" and "look C c (hdr_hash y) = Some y" and "hdr_hash x = hdr_hash y"
  shows "x = y"
proof -
  have "Some x = Some y" using assms by (metis (no_types))
  then show ?thesis by (rule option.inject [THEN iffD1])
qed

context chain_db
begin

lemma look_commit:
  assumes "inv c" and "storable (blkHeader b)" and "csCommitBlock C b nt c = (Inr fps, c')"
  shows "look C c' = (look C c)(hdr_hash (blkHeader b) \<mapsto> blkHeader b)"
  using commit_get [OF assms] by (intro ext) (simp add: look_def)

lemma look_reorg:
  assumes "inv c" and "storable t" and "csProcessReorganize C a p t c = Some (None, c')"
  shows "look C c' = (look C c)(hdr_hash t \<mapsto> t)"
  using reorg_get [OF assms] by (intro ext) (simp add: look_def)

lemma previous_look: "hGetPrevious (csHeaders C) h c = Inr p \<longleftrightarrow> look C c (hdr_prev h) = Some p"
  by (simp add: look_def get_previous split: sum.split)

text \<open>The effect of a commit that reports no error: nothing, for a header that does not pass
  or is the tip, else the header is stored with its parent's height and work, and the best
  header is the one with more work.\<close>

lemma CommitBlock_effect:
  assumes c: "inv c" and b: "hGetBest (csHeaders C) c = Inr b" "look C c (hdr_hash b) = Some b"
    and st: "\<And>p. look C c (hdr_prev (blkHeader blk)) = Some p \<Longrightarrow>
      storable (blkHeader blk\<lparr>hdrHeight := hdrHeight p + 1,
        hdrTotalWork := hdrTotalWork p + CalcWork (bhBits (hdrBH (blkHeader blk)))\<rparr>)"
    and r: "bc_CommitBlock C blk c = Some (r, c')" "crErr r = None"
  obtains (rejected) "c' = c" "\<not> crNewTip r" "\<not> crReorg r" "crHeader r = blkHeader blk"
  | (stored) p where "look C c (hdr_prev (blkHeader blk)) = Some p"
      "checkProofOfWork (hdrBH (blkHeader blk))"
      "crHeader r = blkHeader blk\<lparr>hdrHeight := hdrHeight p + 1,
        hdrTotalWork := hdrTotalWork p + CalcWork (bhBits (hdrBH (blkHeader blk)))\<rparr>"
      "crNewTip r \<longleftrightarrow> hdrTotalWork b < hdrTotalWork (crHeader r)"
      "crReorg r \<longleftrightarrow> crNewTip r \<and> hdr_hash b \<noteq> hdr_hash p"
      "crHeight r = hdrHeight (crHeader r)"
      "inv c'" "look C c' = (look C c)(hdr_hash (blkHeader blk) \<mapsto> crHeader r)"
      "hGetBest (csHeaders C) c' = (if crNewTip r then Inr (crHeader r) else Inr b)"
      "hdr_hash b \<noteq> hdr_hash (blkHeader blk)"
proof -
  let ?h = "blkHeader blk"
  show thesis
  proof (cases "\<exists>p. look C c (hdr_prev ?h) = Some p")
    case False
    then have "hdr_prev ?h \<noteq> hdr_hash b" "\<nexists>p. hGetPrevious (csHeaders C) ?h c = Inr p"
      using b(2) by (auto simp: previous_look)
    then show thesis using r b(1)
      by (auto simp: bc_CommitBlock_def Let_def split: sum.splits)
  next
    case True
    then obtain p where p: "look C c (hdr_prev ?h) = Some p" by blast
    have par: "(if hdr_prev ?h = hdr_hash b then Inr b else hGetPrevious (csHeaders C) ?h c) = Inr p"
      using p b(2) by (auto simp: previous_look)
    let ?n = "?h\<lparr>hdrHeight := hdrHeight p + 1, hdrTotalWork := hdrTotalWork p + CalcWork (bhBits (hdrBH ?h))\<rparr>"
    let ?nt = "hdrTotalWork b < hdrTotalWork ?n" and ?blk = "blk\<lparr>blkHeader := ?n\<rparr>"
    show thesis
    proof (cases "checkHeader ?h p \<and> hdr_hash b \<noteq> hdr_hash ?h")
      case False
      then show thesis
        using r b(1) rejected by (auto simp: bc_CommitBlock_def Let_def par split: if_splits)
    next
      case ok: True
      then have pow: "checkProofOfWork (hdrBH ?h)" by (auto simp: checkHeader_def split: if_splits)
      from r b(1) ok obtain fps c1 where c1: "csCommitBlock C ?blk ?nt c = (Inr fps, c1)"
        by (auto simp: bc_CommitBlock_def Let_def par split: prod.splits sum.splits)
      have s: "storable (blkHeader ?blk)" using st [OF p] by simp
      note l1 = look_commit [OF c s c1] and i1 = commit_inv [OF c s c1] and b1 = commit_best [OF c s c1]
      show thesis
      proof (cases "?nt \<and> hdr_hash b \<noteq> hdr_hash p")
        case False
        have "r = \<lparr>crNewTip = ?nt, crReorg = False, crHeight = hdrHeight ?n, crFps = fps, crErr = None, crHeader = ?n\<rparr>" "c' = c1"
          using r(1) b(1) ok c1 False by (auto simp: bc_CommitBlock_def Let_def par)
        then show thesis
          using stored [OF p pow] ok False l1 i1 b1 b(1) by simp
      next
        case True
        from r b(1) ok c1 True obtain a where a: "csProcessReorganize C a b ?n c1 = Some (None, c')"
          and rr: "r = \<lparr>crNewTip = True, crReorg = True, crHeight = hdrHeight ?n, crFps = fps, crErr = None, crHeader = ?n\<rparr>"
          by (auto simp: bc_CommitBlock_def Let_def par split: option.splits sum.splits)
        have s': "storable ?n" using s by simp
        show thesis
          using stored [OF p pow] ok True l1 rr look_reorg [OF i1 s' a] reorg_inv [OF i1 s' a] reorg_best [OF i1 s' a]
          by simp
      qed
    qed
  qed
qed

text \<open>A chain stays well-formed, keeps what it has, and its best work only grows.\<close>

lemma CommitBlock_keeps:
  assumes ok: "chain_ok C inv U g c" and u: "hdrBH (blkHeader blk) \<in> U"
    and st: "\<And>p. look C c (hdr_prev (blkHeader blk)) = Some p \<Longrightarrow>
      storable (blkHeader blk\<lparr>hdrHeight := hdrHeight p + 1,
        hdrTotalWork := hdrTotalWork p + CalcWork (bhBits (hdrBH (blkHeader blk)))\<rparr>) \<and>
      unat (hdrHeight p) < 2 ^ 32 - 1"
    and r: "bc_CommitBlock C blk c = Some (r, c')" "crErr r = None"
  shows "chain_ok C inv U g c'"
    and "\<exists>b b'. hGetBest (csHeaders C) c = Inr b \<and> hGetBest (csHeaders C) c' = Inr b' \<and>
      hdrTotalWork b \<le> hdrTotalWork b' \<and> (crNewTip r \<longleftrightarrow> hdrTotalWork b < hdrTotalWork b') \<and>
      (crNewTip r \<longrightarrow> b' = crHeader r) \<and> (\<not> crNewTip r \<longrightarrow> b' = b)"
    and "look C c k = Some h \<Longrightarrow> \<exists>h'. look C c' k = Some h' \<and> hdrBH h' = hdrBH h \<and>
      hdrHeight h' = hdrHeight h \<and> hdrTotalWork h' = hdrTotalWork h"
proof -
  obtain b where b: "inv c" "headers_ok U g (look C c)" "hGetBest (csHeaders C) c = Inr b"
      "look C c (hdr_hash b) = Some b" "\<And>k h. look C c k = Some h \<Longrightarrow> hdrTotalWork h \<le> hdrTotalWork b"
    using ok by (auto simp: chain_ok_def)
  let ?h = "blkHeader blk"
  have "chain_ok C inv U g c' \<and>
    (\<exists>b b'. hGetBest (csHeaders C) c = Inr b \<and> hGetBest (csHeaders C) c' = Inr b' \<and>
      hdrTotalWork b \<le> hdrTotalWork b' \<and> (crNewTip r \<longleftrightarrow> hdrTotalWork b < hdrTotalWork b') \<and>
      (crNewTip r \<longrightarrow> b' = crHeader r) \<and> (\<not> crNewTip r \<longrightarrow> b' = b)) \<and>
    (\<forall>k h. look C c k = Some h \<longrightarrow> (\<exists>h'. look C c' k = Some h' \<and> hdrBH h' = hdrBH h \<and>
      hdrHeight h' = hdrHeight h \<and> hdrTotalWork h' = hdrTotalWork h))"
  proof (rule CommitBlock_effect [OF b(1,3,4) conjunct1 [OF st] r])
    assume "c' = c" and "\<not> crNewTip r"
    with ok b(3) show ?thesis by auto
  next
    fix p
    assume p: "look C c (hdr_prev ?h) = Some p" and pow: "checkProofOfWork (hdrBH ?h)"
      and e: "crHeader r = ?h\<lparr>hdrHeight := hdrHeight p + 1,
        hdrTotalWork := hdrTotalWork p + CalcWork (bhBits (hdrBH ?h))\<rparr>"
      and nt: "crNewTip r \<longleftrightarrow> hdrTotalWork b < hdrTotalWork (crHeader r)"
      and i: "inv c'" and l: "look C c' = (look C c)(hdr_hash ?h \<mapsto> crHeader r)"
      and best: "hGetBest (csHeaders C) c' = (if crNewTip r then Inr (crHeader r) else Inr b)"
      and ne: "hdr_hash b \<noteq> hdr_hash ?h"
    have ht: "unat (hdrHeight (crHeader r)) = unat (hdrHeight p) + 1"
      using st [OF p] by (simp add: e unat_word_ariths)
    have bh: "hdrBH (crHeader r) = hdrBH ?h" and w: "hdrTotalWork (crHeader r) = hdrTotalWork p + CalcWork (bhBits (hdrBH ?h))"
      by (simp_all add: e)
    have hok: "headers_ok U g (look C c')"
      using headers_ok_extend [OF b(2), of "crHeader r" p] u p ht w pow bh by (simp add: l)
    have keep: "\<exists>h'. look C c' k = Some h' \<and> hdrBH h' = hdrBH h \<and> hdrHeight h' = hdrHeight h \<and> hdrTotalWork h' = hdrTotalWork h"
      if "look C c k = Some h" for k h
    proof (cases "k = hdr_hash ?h")
      case True
      with restored_same [OF b(2) u p, of h] that ht w bh l show ?thesis by (simp add: word_unat_eq_iff)
    next
      case False
      with that l show ?thesis by simp
    qed
    have "hdrTotalWork h \<le> hdrTotalWork (if crNewTip r then crHeader r else b)" if "look C c' k = Some h" for k h
    proof -
      have "h = crHeader r \<or> look C c k = Some h" using that l by (auto split: if_splits)
      with b(5) [of k h] nt show ?thesis by (auto split: if_splits)
    qed
    then have "chain_ok C inv U g c'"
      using i hok best l b(4) ne bh unfolding chain_ok_def by (cases "crNewTip r") auto
    moreover have "\<exists>b b'. hGetBest (csHeaders C) c = Inr b \<and> hGetBest (csHeaders C) c' = Inr b' \<and>
      hdrTotalWork b \<le> hdrTotalWork b' \<and> (crNewTip r \<longleftrightarrow> hdrTotalWork b < hdrTotalWork b') \<and>
      (crNewTip r \<longrightarrow> b' = crHeader r) \<and> (\<not> crNewTip r \<longrightarrow> b' = b)"
      using b(3) best nt by (cases "crNewTip r") simp_all
    ultimately show ?thesis using keep by blast
  qed
  then show "chain_ok C inv U g c'"
    and "\<exists>b b'. hGetBest (csHeaders C) c = Inr b \<and> hGetBest (csHeaders C) c' = Inr b' \<and>
      hdrTotalWork b \<le> hdrTotalWork b' \<and> (crNewTip r \<longleftrightarrow> hdrTotalWork b < hdrTotalWork b') \<and>
      (crNewTip r \<longrightarrow> b' = crHeader r) \<and> (\<not> crNewTip r \<longrightarrow> b' = b)"
    and "look C c k = Some h \<Longrightarrow> \<exists>h'. look C c' k = Some h' \<and> hdrBH h' = hdrBH h \<and>
      hdrHeight h' = hdrHeight h \<and> hdrTotalWork h' = hdrTotalWork h" by blast+
qed

lemma New_ok:
  assumes "inv c" and "\<And>k. look C c k = None" and "hGetBest (csHeaders C) c = Inl e"
    and "storable (genesis_header g)" and "bc_New C g c = (None, c')"
    and "inj_on bhHash U" and "g \<in> U" and "\<forall>u \<in> U. bhHash u \<noteq> bhPrevious g"
  shows "chain_ok C inv U g c'"
proof -
  have p: "hPut (csHeaders C) (genesis_header g) True c = (None, c')"
    using assms(3,5) by (simp add: bc_New_def)
  have "look C c' k = (if k = bhHash g then Some (genesis_header g) else None)" for k
    using put_get [OF assms(1,4) p, of k] assms(2) [of k]
    by (auto simp: look_def genesis_header_def split: sum.splits)
  then show ?thesis
    using put_inv [OF assms(1,4) p] put_best [OF assms(1,4) p] assms(6-8)
    by (auto simp: chain_ok_def headers_ok_def linked_def genesis_header_def split: if_splits)
qed

subsection \<open>Ancestors\<close>

text \<open>The \<open>n\<close>-th ancestor of a header.\<close>

lemma rollback_append:
  "rollback C c (m + n) h = (case rollback C c m h of Inl e \<Rightarrow> Inl e | Inr x \<Rightarrow> rollback C c n x)"
  by (induction m arbitrary: h) (auto split: sum.split)

lemma rollback_stored:
  assumes ok: "headers_ok U g (look C c)"
  shows "look C c (hdr_hash h) = Some h \<Longrightarrow> n \<le> unat (hdrHeight h) \<Longrightarrow>
    \<exists>a. rollback C c n h = Inr a \<and> look C c (hdr_hash a) = Some a \<and> unat (hdrHeight a) = unat (hdrHeight h) - n"
proof (induction n arbitrary: h)
  case 0
  then show ?case by simp
next
  case (Suc n)
  have "hdrHeight h \<noteq> 0" using Suc.prems(2) by auto
  with headers_okD(3) [OF ok Suc.prems(1)] obtain p where
    p: "look C c (hdr_prev h) = Some p" "unat (hdrHeight h) = unat (hdrHeight p) + 1"
    by (auto simp: linked_def)
  then have "hdr_hash p = hdr_prev h" using headers_okD [OF ok] by blast
  with p have "look C c (hdr_hash p) = Some p" by simp
  from Suc.IH [OF this] Suc.prems(2) p show ?case by (simp add: previous_look [THEN iffD2, OF p(1)])
qed

lemma ground_is_genesis:
  assumes ok: "headers_ok U g (look C c)" and "look C c k = Some h" and "hdrHeight h = 0"
  shows "hdrBH h = g"
  using headers_okD(3) [OF assms(1,2)] assms(3) by (auto simp: linked_def)

lemma ancestor_loop_meets:
  assumes ok: "headers_ok U g (look C c)"
  shows "look C c (hdr_hash x) = Some x \<Longrightarrow> look C c (hdr_hash y) = Some y \<Longrightarrow>
    unat (hdrHeight x) = n \<Longrightarrow> unat (hdrHeight y) = n \<Longrightarrow>
    \<exists>a k. ancestor_loop C c x y = Some (Inr a) \<and> rollback C c k x = Inr a \<and> rollback C c k y = Inr a \<and>
      (\<forall>j < k. rollback C c j x \<noteq> rollback C c j y)"
proof (induction n arbitrary: x y)
  case 0
  have z: "hdrHeight x = 0" "hdrHeight y = 0" by (rule unat_eq_zero [THEN iffD1], rule 0)+
  have "hdrBH x = g" by (rule ground_is_genesis [OF ok 0(1) z(1)])
  moreover have "hdrBH y = g" by (rule ground_is_genesis [OF ok 0(2) z(2)])
  ultimately have "hdr_hash x = hdr_hash y" by simp
  then have "x = y" by (rule stored_inj [OF 0(1,2)])
  then show ?case by (intro exI [of _ x] exI [of _ 0]) (subst ancestor_loop.simps, simp)
next
  case (Suc n)
  show ?case
  proof (cases "hdr_hash x = hdr_hash y")
    case True
    then have "x = y" by (rule stored_inj [OF Suc.prems(1,2)])
    then show ?thesis by (intro exI [of _ x] exI [of _ 0]) (subst ancestor_loop.simps, simp)
  next
    case False
    obtain x' y' where x': "rollback C c 1 x = Inr x'" "look C c (hdr_hash x') = Some x'" "unat (hdrHeight x') = n"
      and y': "rollback C c 1 y = Inr y'" "look C c (hdr_hash y') = Some y'" "unat (hdrHeight y') = n"
      using rollback_stored [OF ok Suc.prems(1), of 1] rollback_stored [OF ok Suc.prems(2), of 1] Suc.prems(3,4)
      by auto
    then have px: "hGetPrevious (csHeaders C) x c = Inr x'" and py: "hGetPrevious (csHeaders C) y c = Inr y'"
      by (simp_all split: sum.splits)
    obtain a k where a: "ancestor_loop C c x' y' = Some (Inr a)" "rollback C c k x' = Inr a"
        "rollback C c k y' = Inr a" "\<forall>j < k. rollback C c j x' \<noteq> rollback C c j y'"
      using Suc.IH [OF x'(2) y'(2) x'(3) y'(3)] by blast
    have "ancestor_loop C c x y = Some (Inr a)" using False a(1) px py by (subst ancestor_loop.simps) simp
    moreover have "rollback C c (Suc k) x = Inr a" "rollback C c (Suc k) y = Inr a" using a px py by simp_all
    moreover have "\<forall>j < Suc k. rollback C c j x \<noteq> rollback C c j y"
      using a(4) px py False by (auto simp: All_less_Suc2)
    ultimately show ?thesis by blast
  qed
qed

lemma rollback_height:
  assumes ok: "headers_ok U g (look C c)"
  shows "look C c (hdr_hash h) = Some h \<Longrightarrow> rollback C c n h = Inr a \<Longrightarrow>
    n \<le> unat (hdrHeight h) \<and> unat (hdrHeight a) = unat (hdrHeight h) - n \<and> look C c (hdr_hash a) = Some a"
proof (induction n arbitrary: h)
  case 0
  then show ?case by simp
next
  case (Suc n)
  then obtain p where "hGetPrevious (csHeaders C) h c = Inr p" and r: "rollback C c n p = Inr a"
    by (auto split: sum.splits)
  then have p: "look C c (hdr_prev h) = Some p" by (simp add: previous_look)
  then have "hdrBH h \<noteq> g" using genesis_parent [OF ok] by auto
  with headers_okD(3) [OF ok Suc.prems(1)] p have "unat (hdrHeight h) = unat (hdrHeight p) + 1"
    by (auto simp: linked_def)
  moreover have "look C c (hdr_hash p) = Some p" using p headers_okD(1) [OF ok p] by simp
  ultimately show ?case using Suc.IH [of p] r by simp
qed

lemma meeting_lowest:
  assumes ok: "headers_ok U g (look C c)" and x: "look C c (hdr_hash x) = Some x" and y: "look C c (hdr_hash y) = Some y"
    and d: "rollback C c dx x = Inr x1" "rollback C c dy y = Inr y1" "dx = 0 \<or> dy = 0"
    and n: "unat (hdrHeight x1) = unat (hdrHeight y1)"
  shows "\<exists>a i j. ancestor_loop C c x1 y1 = Some (Inr a) \<and> rollback C c i x = Inr a \<and> rollback C c j y = Inr a \<and>
    (\<forall>a' i' j'. rollback C c i' x = Inr a' \<and> rollback C c j' y = Inr a' \<longrightarrow> unat (hdrHeight a') \<le> unat (hdrHeight a))"
proof -
  note hx = rollback_height [OF ok x] and hy = rollback_height [OF ok y]
  obtain a k where a: "ancestor_loop C c x1 y1 = Some (Inr a)" "rollback C c k x1 = Inr a" "rollback C c k y1 = Inr a"
      "\<And>j. j < k \<Longrightarrow> rollback C c j x1 \<noteq> rollback C c j y1"
    using ancestor_loop_meets [OF ok _ _ refl n [symmetric]] hx [OF d(1)] hy [OF d(2)] by blast
  have ax: "rollback C c (dx + m) x = rollback C c m x1" and ay: "rollback C c (dy + m) y = rollback C c m y1" for m
    by (simp_all add: rollback_append d)
  have "unat (hdrHeight a') \<le> unat (hdrHeight a)"
    if "rollback C c i' x = Inr a'" "rollback C c j' y = Inr a'" for a' i' j'
  proof (rule ccontr)
    assume less: "\<not> unat (hdrHeight a') \<le> unat (hdrHeight a)"
    have A: "i' \<le> unat (hdrHeight x)" "unat (hdrHeight a') = unat (hdrHeight x) - i'"
      and B: "j' \<le> unat (hdrHeight y)" "unat (hdrHeight a') = unat (hdrHeight y) - j'"
      using hx [OF that(1)] hy [OF that(2)] by simp_all
    have X: "dx \<le> unat (hdrHeight x)" "unat (hdrHeight x1) = unat (hdrHeight x) - dx"
      and Y: "dy \<le> unat (hdrHeight y)" "unat (hdrHeight y1) = unat (hdrHeight y) - dy"
      using hx [OF d(1)] hy [OF d(2)] by simp_all
    have K: "unat (hdrHeight a) = unat (hdrHeight x1) - k" "k \<le> unat (hdrHeight x1)"
      using rollback_height [OF ok _ a(2)] hx [OF d(1)] by simp_all
    define m where "m = unat (hdrHeight x1) - unat (hdrHeight a')"
    have "i' = dx + m \<and> j' = dy + m \<and> m < k"
      using A B X Y K n d(3) less unfolding m_def by linarith
    with that ax [of m] ay [of m] a(4) [of m] show False by simp
  qed
  moreover have "rollback C c (dx + k) x = Inr a" "rollback C c (dy + k) y = Inr a" using ax ay a by simp_all
  ultimately show ?thesis using a(1) by blast
qed

lemma getCommonAncestor_ok:
  assumes ok: "headers_ok U g (look C c)" and x: "look C c (hdr_hash x) = Some x" and y: "look C c (hdr_hash y) = Some y"
  shows "\<exists>a i j. getCommonAncestor C x y c = Some (Inr a) \<and> rollback C c i x = Inr a \<and> rollback C c j y = Inr a \<and>
    (\<forall>a' i' j'. rollback C c i' x = Inr a' \<and> rollback C c j' y = Inr a' \<longrightarrow> unat (hdrHeight a') \<le> unat (hdrHeight a))"
proof -
  consider "hdrHeight y < hdrHeight x" | "hdrHeight x < hdrHeight y" | "hdrHeight x = hdrHeight y" by fastforce
  then show ?thesis
  proof cases
    case 1
    then have u: "unat (hdrHeight x - hdrHeight y) = unat (hdrHeight x) - unat (hdrHeight y)"
      "unat (hdrHeight y) \<le> unat (hdrHeight x)"
      by (simp_all add: unat_sub word_less_nat_alt word_le_nat_alt)
    obtain x1 where x1: "rollback C c (unat (hdrHeight x - hdrHeight y)) x = Inr x1"
        "unat (hdrHeight x1) = unat (hdrHeight y)"
      using rollback_stored [OF ok x, of "unat (hdrHeight x - hdrHeight y)"] u by auto
    from meeting_lowest [OF ok x y x1(1), of 0 y] x1 1 show ?thesis by (simp add: getCommonAncestor_def)
  next
    case 2
    then have u: "unat (hdrHeight y - hdrHeight x) = unat (hdrHeight y) - unat (hdrHeight x)"
      "unat (hdrHeight x) \<le> unat (hdrHeight y)"
      by (simp_all add: unat_sub word_less_nat_alt word_le_nat_alt)
    obtain y1 where y1: "rollback C c (unat (hdrHeight y - hdrHeight x)) y = Inr y1"
        "unat (hdrHeight y1) = unat (hdrHeight x)"
      using rollback_stored [OF ok y, of "unat (hdrHeight y - hdrHeight x)"] u by auto
    from 2 have "\<not> hdrHeight y < hdrHeight x" by simp
    with meeting_lowest [OF ok x y _ y1(1), of 0 x] y1 2 show ?thesis by (simp add: getCommonAncestor_def)
  next
    case 3
    with meeting_lowest [OF ok x y, of 0 x 0 y] show ?thesis by (simp add: getCommonAncestor_def)
  qed
qed

end

subsection \<open>The locator\<close>

text \<open>How far below the best header the hashes of the locator are.\<close>

fun locator_offsets :: "nat \<Rightarrow> nat \<Rightarrow> nat \<Rightarrow> nat \<Rightarrow> nat list" where
  "locator_offsets 0 step start off = []"
| "locator_offsets (Suc room) step start off =
     (let (step, start) = (if 9 \<le> start then (step * 2, 0) else (step, start))
      in off # locator_offsets room step (start + 1) (off + step))"

definition ancestor_hash :: "'c chain_store \<Rightarrow> 'c \<Rightarrow> header \<Rightarrow> nat \<Rightarrow> uint256" where
  "ancestor_hash C c h n = (case rollback C c n h of Inl e \<Rightarrow> 0 | Inr a \<Rightarrow> hdr_hash a)"

lemma locator_offsets_Cons: "room \<noteq> 0 \<Longrightarrow> \<exists>xs. locator_offsets room step start off = off # xs"
  by (cases room) (auto simp: Let_def split: prod.split)

lemma length_locator_offsets [simp]: "length (locator_offsets room step start off) = room"
  by (induction room step start off rule: locator_offsets.induct) (auto simp: Let_def split: prod.split)

lemma locator_offsets_start:
  "take 12 (locator_offsets (Suc (Suc (Suc (Suc (Suc (Suc (Suc (Suc (Suc (Suc (Suc (Suc n)))))))))))) 1 0 0) = [0, 1, 2, 3, 4, 5, 6, 7, 8, 9, 11, 13]"
  by simp

lemma locator_offsets_three: "locator_offsets (Suc (Suc (Suc n))) 1 0 0 = 0 # 1 # 2 # locator_offsets n 1 3 3"
  by (simp add: numeral_3_eq_3)

context chain_db
begin

lemma locator_loop_eq:
  assumes ok: "headers_ok U g (look C c)" and b: "look C c (hdr_hash best) = Some best"
  shows "rollback C c off best = Inr parent \<Longrightarrow> off \<le> unat (hdrHeight best) \<Longrightarrow>
    locator_loop C c room step start parent =
      map (ancestor_hash C c best) (takeWhile (\<lambda>n. n \<le> unat (hdrHeight best)) (locator_offsets room step start off))"
proof (induction room arbitrary: step start parent off)
  case 0
  then show ?case by simp
next
  case (Suc room)
  obtain st sa where ss: "(if 9 \<le> start then (step * 2, 0) else (step, start)) = (st, sa)" by fastforce
  have h: "ancestor_hash C c best off = hdr_hash parent" using Suc.prems(1) by (simp add: ancestor_hash_def)
  show ?case
  proof (cases "room = 0")
    case True
    with h ss Suc.prems show ?thesis by (simp add: Let_def)
  next
    case False
    have r: "rollback C c (off + st) best = rollback C c st parent"
      by (simp add: rollback_append Suc.prems(1))
    show ?thesis
    proof (cases "rollback C c st parent")
      case (Inl e)
      then have "\<not> off + st \<le> unat (hdrHeight best)"
        using rollback_stored [OF ok b, of "off + st"] r by auto
      moreover obtain xs where "locator_offsets room st (sa + 1) (off + st) = (off + st) # xs"
        using locator_offsets_Cons [OF False] by blast
      ultimately show ?thesis using Inl h ss Suc.prems by (simp add: Let_def)
    next
      case (Inr p)
      then have "off + st \<le> unat (hdrHeight best)"
        using rollback_height [OF ok b, of "off + st" p] r by simp
      with Suc.IH [of "off + st" p st "sa + 1"] Inr r False h ss Suc.prems show ?thesis by (simp add: Let_def)
    qed
  qed
qed

end

subsection \<open>Properties of the service's chain\<close>

abbreviation service_store ::
  "codec \<Rightarrow> 'd leveldb \<Rightarrow> 'm omap \<Rightarrow> (('d, 'm) hstore \<Rightarrow> goerror option \<times> ('d, 'm) hstore) \<Rightarrow> 't txsdb_if \<Rightarrow>
   (('d, 'm) hstore, 't) chaindb chain_store" where
  "service_store E L M close T \<equiv> chainDB (store_headers E L M close) T"

abbreviation service_inv :: "codec \<Rightarrow> 'd leveldb \<Rightarrow> 'm omap \<Rightarrow> (('d, 'm) hstore, 't) chaindb \<Rightarrow> bool" where
  "service_inv E L M \<equiv> \<lambda>d. hs_inv E L M BKTHeaders (cdH d)"

text \<open>C3: Committing a block without an error keeps the chain well-formed (every stored header
  is linked to its parent, one height above it, with its parent's work plus its own, and the
  best header has the most work of all stored headers); the best work never decreases, it grows
  exactly when a new tip is reported, and then the best header is the committed one.\<close>

theorem CommitBlock_best_chain:
  assumes "chain_ok (service_store E L M close T) (service_inv E L M) U g c"
    and "hdrBH (blkHeader blk) \<in> U"
    and "\<And>p. look (service_store E L M close T) c (hdr_prev (blkHeader blk)) = Some p \<Longrightarrow>
      header_storable E (blkHeader blk\<lparr>hdrHeight := hdrHeight p + 1,
        hdrTotalWork := hdrTotalWork p + CalcWork (bhBits (hdrBH (blkHeader blk)))\<rparr>) \<and>
      unat (hdrHeight p) < 2 ^ 32 - 1"
    and "bc_CommitBlock (service_store E L M close T) blk c = Some (r, c')" and "crErr r = None"
  shows "chain_ok (service_store E L M close T) (service_inv E L M) U g c' \<and>
    (\<exists>b b'. hGetBest (csHeaders (service_store E L M close T)) c = Inr b \<and>
      hGetBest (csHeaders (service_store E L M close T)) c' = Inr b' \<and>
      hdrTotalWork b \<le> hdrTotalWork b' \<and> (crNewTip r \<longleftrightarrow> hdrTotalWork b < hdrTotalWork b') \<and>
      (crNewTip r \<longrightarrow> b' = crHeader r) \<and> (\<not> crNewTip r \<longrightarrow> b' = b))"
  using service_chain.CommitBlock_keeps(1,2) [OF assms] by blast

text \<open>C13: A block is refused without touching the chain when its parent is not stored (the
  error \<open>OrphanBlockError\<close>), when its proof of work fails, or when it is the tip already
  (both without an error).\<close>

theorem CommitBlock_rejects:
  assumes "hGetBest (csHeaders C) c = Inr b"
  shows "(hdr_prev (blkHeader blk) \<noteq> hdr_hash b \<and> (\<exists>e. hGetPrevious (csHeaders C) (blkHeader blk) c = Inl e) \<longrightarrow>
      (\<exists>r. bc_CommitBlock C blk c = Some (r, c) \<and> crErr r = Some OrphanBlockError \<and> \<not> crNewTip r)) \<and>
    ((hdr_prev (blkHeader blk) = hdr_hash b \<or> (\<exists>p. hGetPrevious (csHeaders C) (blkHeader blk) c = Inr p)) \<and>
      (\<not> checkProofOfWork (hdrBH (blkHeader blk)) \<or> hdr_hash b = hdr_hash (blkHeader blk)) \<longrightarrow>
      (\<exists>r. bc_CommitBlock C blk c = Some (r, c) \<and> crErr r = None \<and> \<not> crNewTip r))"
  using assms by (auto simp: bc_CommitBlock_def Let_def checkHeader_def)

text \<open>C6: At a reorganization the search for the common ancestor returns, for any two stored
  headers of a well-formed chain, and what it returns is an ancestor of both and the highest
  of their common ancestors.\<close>

theorem getCommonAncestor_highest:
  assumes "headers_ok U g (look (service_store E L M close T) c)"
    and "look (service_store E L M close T) c (hdr_hash x) = Some x"
    and "look (service_store E L M close T) c (hdr_hash y) = Some y"
  shows "\<exists>a i j. getCommonAncestor (service_store E L M close T) x y c = Some (Inr a) \<and>
    rollback (service_store E L M close T) c i x = Inr a \<and> rollback (service_store E L M close T) c j y = Inr a \<and>
    (\<forall>a' i' j'. rollback (service_store E L M close T) c i' x = Inr a' \<and>
      rollback (service_store E L M close T) c j' y = Inr a' \<longrightarrow> unat (hdrHeight a') \<le> unat (hdrHeight a))"
  by (rule service_chain.getCommonAncestor_ok [OF assms])

text \<open>C10: The block locator of a well-formed chain is exact: it holds the hashes of the
  ancestors of the best header at fixed distances (ten consecutive blocks, then nine steps of
  2, nine of 4, and so on), as far as the chain reaches, and at most 100 of them.\<close>

theorem LatestBlockLocator_offsets:
  assumes "headers_ok U g (look (service_store E L M close T) c)"
    and "hGetBest (csHeaders (service_store E L M close T)) c = Inr best"
    and "look (service_store E L M close T) c (hdr_hash best) = Some best"
  shows "LatestBlockLocator (service_store E L M close T) c =
      map (ancestor_hash (service_store E L M close T) c best)
        (takeWhile (\<lambda>n. n \<le> unat (hdrHeight best)) (locator_offsets 100 1 0 0)) \<and>
    length (LatestBlockLocator (service_store E L M close T) c) \<le> 100 \<and>
    take 12 (locator_offsets 100 1 0 0) = [0, 1, 2, 3, 4, 5, 6, 7, 8, 9, 11, 13]"
proof -
  have "LatestBlockLocator (service_store E L M close T) c =
      map (ancestor_hash (service_store E L M close T) c best)
        (takeWhile (\<lambda>n. n \<le> unat (hdrHeight best)) (locator_offsets 100 1 0 0))"
    using service_chain.locator_loop_eq [OF assms(1,3), of 0 best 100 1 0] assms(2)
    by (simp add: LatestBlockLocator_def MaxBlockLocatorHashes_def)
  moreover have "take 12 (locator_offsets 100 1 0 0) = [0, 1, 2, 3, 4, 5, 6, 7, 8, 9, 11, 13]"
    using locator_offsets_start [of 88] by (simp del: locator_offsets.simps)
  ultimately show ?thesis
    using length_takeWhile_le [of "\<lambda>n. n \<le> unat (hdrHeight best)" "locator_offsets 100 1 0 0"]
    by (simp del: locator_offsets.simps)
qed

text \<open>A concrete chain: the genesis block and one block on top of it.\<close>

definition no_txs :: "unit txsdb_if" where
  "no_txs = \<lparr>tPutTxs = (\<lambda>_ _ _. (Inr 0, ())), tPutForkTxs = (\<lambda>_ _ _. (None, ())), tHaveTx = (\<lambda>_ _. Inr False),
     tGetTxs = (\<lambda>_ _. Inr []), tGetForkTxs = (\<lambda>_ _. Inr []), tDelTxs = (\<lambda>_ _. (None, ())),
     tClear = (\<lambda>_. (None, ())), tClose = (\<lambda>_. (None, ()))\<rparr>"

abbreviation sample_store :: "(((bytes \<times> bytes) list, (uint256 \<times> header) list) hstore, unit) chaindb chain_store" where
  "sample_store \<equiv> service_store codec0 leveldb0 omap0 (\<lambda>s. (None, s)) no_txs"

abbreviation sample_inv :: "(((bytes \<times> bytes) list, (uint256 \<times> header) list) hstore, unit) chaindb \<Rightarrow> bool" where
  "sample_inv \<equiv> service_inv codec0 leveldb0 omap0"

definition sample_genesis :: bheader where
  "sample_genesis = \<lparr>bhPrevious = 0, bhBits = 0x03000001, bhMerkleRoot = 0, bhHash = 1, bhPowHash = 0\<rparr>"

definition sample_child :: bheader where
  "sample_child = \<lparr>bhPrevious = 1, bhBits = 0x03000001, bhMerkleRoot = 0, bhHash = 2, bhPowHash = 0\<rparr>"

definition sample_blk :: block where
  "sample_blk = \<lparr>blkHeader = genesis_header sample_child, blkTransactions = []\<rparr>"

lemma sample_work: "CompactToBig 0x03000001 = 1" "CalcWork 0x03000001 = 2 ^ 255"
proof -
  show c: "CompactToBig 0x03000001 = 1" by (simp add: CompactToBig_def)
  show "CalcWork 0x03000001 = 2 ^ 255" by (simp add: CalcWork_def c)
qed

lemma put_succeeds:
  "header_storable codec0 h \<Longrightarrow> \<exists>s'. hs_Put codec0 leveldb0 omap0 h nt s = (None, s')"
  using header_Serialize_storable [of codec0 h] by (auto simp: hs_Put_def Let_def leveldb0_def split: prod.split)

lemma store0_look: "look sample_store \<lparr>cdH = store0, cdT = ()\<rparr> k = None"
  by (simp add: look_def chainDB_def chaindb_headers_def store_headers_def hs_Get_def cache_get_def
      store0_def omap0_def getHeader_def leveldb0_def alist_get_def)

lemma sample_chain:
  obtains c where "bc_New sample_store sample_genesis \<lparr>cdH = store0, cdT = ()\<rparr> = (None, c)"
    and "chain_ok sample_store sample_inv {sample_genesis, sample_child} sample_genesis c"
    and "hGetBest (csHeaders sample_store) c = Inr (genesis_header sample_genesis)"
proof -
  let ?c0 = "\<lparr>cdH = store0, cdT = ()\<rparr>"
  have st: "header_storable codec0 (genesis_header sample_genesis)"
    by (simp add: header_storable_def genesis_header_def codec0_def)
  obtain s' where s': "hs_Put codec0 leveldb0 omap0 (genesis_header sample_genesis) True store0 = (None, s')"
    using put_succeeds [OF st] by blast
  have b0: "hGetBest (csHeaders sample_store) ?c0 = Inl (Failure ''header does not exist in database'')"
    by (simp add: chainDB_def chaindb_headers_def store_headers_def hs_GetBest_def store0_def getHeader_def
        leveldb0_def alist_get_def)
  have p: "hPut (csHeaders sample_store) (genesis_header sample_genesis) True ?c0 = (None, ?c0\<lparr>cdH := s'\<rparr>)"
    using s' by (simp add: chainDB_def chaindb_headers_def store_headers_def)
  then have n: "bc_New sample_store sample_genesis ?c0 = (None, ?c0\<lparr>cdH := s'\<rparr>)"
    using b0 by (simp add: bc_New_def)
  have i: "sample_inv ?c0" using store0_wf by (simp add: store_wf_def)
  have "chain_ok sample_store sample_inv {sample_genesis, sample_child} sample_genesis (?c0\<lparr>cdH := s'\<rparr>)"
    using service_chain.New_ok [OF i store0_look b0 st n, of "{sample_genesis, sample_child}"]
    by (simp add: sample_genesis_def sample_child_def)
  with n service_chain.put_best [OF i st p] that show thesis by simp
qed

lemma sample_commit:
  assumes "chain_ok sample_store sample_inv {sample_genesis, sample_child} sample_genesis c"
    and "hGetBest (csHeaders sample_store) c = Inr (genesis_header sample_genesis)"
  shows "\<exists>r c'. bc_CommitBlock sample_store sample_blk c = Some (r, c') \<and> crErr r = None \<and> crNewTip r \<and>
    crHeader r = genesis_header sample_child\<lparr>hdrHeight := 1, hdrTotalWork := 2 ^ 255\<rparr>"
proof -
  let ?h = "genesis_header sample_child\<lparr>hdrHeight := 1, hdrTotalWork := 2 ^ 255\<rparr>"
  have "header_storable codec0 ?h" by (simp add: header_storable_def genesis_header_def codec0_def)
  then obtain s' where "hs_Put codec0 leveldb0 omap0 ?h True (cdH c) = (None, s')" using put_succeeds by blast
  then have "csCommitBlock sample_store (sample_blk\<lparr>blkHeader := ?h\<rparr>) True c = (Inr 0, c\<lparr>cdH := s', cdT := ()\<rparr>)"
    by (simp add: chainDB_def chaindb_CommitBlock_def store_headers_def sample_blk_def no_txs_def)
  with assms(2) show ?thesis
    by (simp add: bc_CommitBlock_def sample_blk_def genesis_header_def sample_child_def sample_genesis_def
        checkHeader_def checkProofOfWork_iff sample_work PowLimit_def)
qed

text \<open>The chain after the commit.\<close>

lemma sample_chain2:
  obtains c g where "headers_ok {sample_genesis, sample_child} sample_genesis (look sample_store c)"
    and "hGetBest (csHeaders sample_store) c = Inr (genesis_header sample_child\<lparr>hdrHeight := 1, hdrTotalWork := 2 ^ 255\<rparr>)"
    and "look sample_store c 2 = Some (genesis_header sample_child\<lparr>hdrHeight := 1, hdrTotalWork := 2 ^ 255\<rparr>)"
    and "look sample_store c 1 = Some g" and "hdrBH g = sample_genesis"
proof -
  let ?t = "genesis_header sample_child\<lparr>hdrHeight := 1, hdrTotalWork := 2 ^ 255\<rparr>"
  obtain c where ok: "chain_ok sample_store sample_inv {sample_genesis, sample_child} sample_genesis c"
    and b: "hGetBest (csHeaders sample_store) c = Inr (genesis_header sample_genesis)"
    by (rule sample_chain)
  obtain r c' where r: "bc_CommitBlock sample_store sample_blk c = Some (r, c')" "crErr r = None" "crNewTip r" "crHeader r = ?t"
    using sample_commit [OF ok b] by blast
  have l: "look sample_store c 1 = Some (genesis_header sample_genesis)"
    using ok b by (auto simp: chain_ok_def sample_genesis_def genesis_header_def)
  have u: "hdrBH (blkHeader sample_blk) \<in> {sample_genesis, sample_child}"
    by (simp add: sample_blk_def genesis_header_def)
  have st: "header_storable codec0 (blkHeader sample_blk\<lparr>hdrHeight := hdrHeight p + 1,
        hdrTotalWork := hdrTotalWork p + CalcWork (bhBits (hdrBH (blkHeader sample_blk)))\<rparr>) \<and>
      unat (hdrHeight p) < 2 ^ 32 - 1"
    if "look sample_store c (hdr_prev (blkHeader sample_blk)) = Some p" for p
    using that l by (auto simp: sample_blk_def sample_child_def genesis_header_def header_storable_def codec0_def
        sample_work)
  note k = service_chain.CommitBlock_keeps [OF ok u st r(1,2)]
  have t: "hGetBest (csHeaders sample_store) c' = Inr ?t" using k(2) r(3,4) by auto
  moreover have "headers_ok {sample_genesis, sample_child} sample_genesis (look sample_store c')"
    and "look sample_store c' 2 = Some ?t"
    using k(1) t by (auto simp: chain_ok_def genesis_header_def sample_child_def)
  moreover obtain g where "look sample_store c' 1 = Some g" "hdrBH g = sample_genesis"
    using k(3) [OF _ l] by (auto simp: genesis_header_def)
  ultimately show thesis using that by blast
qed

theorem CommitBlock_best_chain_witness:
  "\<exists>c c' r. bc_New sample_store sample_genesis \<lparr>cdH = store0, cdT = ()\<rparr> = (None, c) \<and>
     bc_CommitBlock sample_store sample_blk c = Some (r, c') \<and> crNewTip r \<and>
     chain_ok sample_store sample_inv {sample_genesis, sample_child} sample_genesis c'"
proof -
  obtain c where c: "bc_New sample_store sample_genesis \<lparr>cdH = store0, cdT = ()\<rparr> = (None, c)"
    and ok: "chain_ok sample_store sample_inv {sample_genesis, sample_child} sample_genesis c"
    and b: "hGetBest (csHeaders sample_store) c = Inr (genesis_header sample_genesis)"
    by (rule sample_chain)
  obtain r c' where r: "bc_CommitBlock sample_store sample_blk c = Some (r, c')" "crErr r = None" "crNewTip r"
    using sample_commit [OF ok b] by blast
  have l: "look sample_store c 1 = Some (genesis_header sample_genesis)"
    using ok b by (auto simp: chain_ok_def sample_genesis_def genesis_header_def)
  have "chain_ok sample_store sample_inv {sample_genesis, sample_child} sample_genesis c'"
    using CommitBlock_best_chain [OF ok _ _ r(1,2)] l
    by (simp add: sample_blk_def sample_child_def genesis_header_def header_storable_def codec0_def
        sample_genesis_def sample_work)
  with c r show ?thesis by blast
qed

theorem CommitBlock_rejects_witness:
  "\<exists>c r. bc_CommitBlock sample_store (sample_blk\<lparr>blkHeader := genesis_header sample_genesis\<rparr>) c = Some (r, c) \<and>
     crErr r = Some OrphanBlockError"
proof -
  obtain c where ok: "chain_ok sample_store sample_inv {sample_genesis, sample_child} sample_genesis c"
    and b: "hGetBest (csHeaders sample_store) c = Inr (genesis_header sample_genesis)"
    by (rule sample_chain)
  have "look sample_store c 0 = None"
    using genesis_parent [of "{sample_genesis, sample_child}" sample_genesis "look sample_store c"] ok
    by (simp add: chain_ok_def sample_genesis_def)
  then have "\<exists>e. hGetPrevious (csHeaders sample_store) (genesis_header sample_genesis) c = Inl e"
    by (simp add: look_def service_chain.get_previous sample_genesis_def genesis_header_def split: sum.splits)
  then show ?thesis
    using CommitBlock_rejects [OF b, of "sample_blk\<lparr>blkHeader := genesis_header sample_genesis\<rparr>"]
    by (auto simp: sample_genesis_def genesis_header_def)
qed

theorem getCommonAncestor_highest_witness:
  "\<exists>c t g. hdrBH t = sample_child \<and> hdrBH g = sample_genesis \<and>
     getCommonAncestor sample_store t g c = Some (Inr g)"
proof -
  obtain c g where c: "headers_ok {sample_genesis, sample_child} sample_genesis (look sample_store c)"
      "look sample_store c 2 = Some (genesis_header sample_child\<lparr>hdrHeight := 1, hdrTotalWork := 2 ^ 255\<rparr>)"
      "look sample_store c 1 = Some g" "hdrBH g = sample_genesis"
    by (rule sample_chain2)
  let ?t = "genesis_header sample_child\<lparr>hdrHeight := 1, hdrTotalWork := 2 ^ 255\<rparr>"
  have l: "look sample_store c (hdr_hash ?t) = Some ?t" "look sample_store c (hdr_hash g) = Some g"
    using c by (simp_all add: genesis_header_def sample_child_def sample_genesis_def)
  obtain a j where a: "getCommonAncestor sample_store ?t g c = Some (Inr a)" "rollback sample_store c j g = Inr a"
    using getCommonAncestor_highest [OF c(1) l] by blast
  have "look sample_store c 0 = None"
    using genesis_parent [OF c(1)] by (simp add: sample_genesis_def)
  then have "j = 0"
    using a(2) c(4) by (cases j) (simp_all add: look_def service_chain.get_previous sample_genesis_def split: sum.splits)
  then have "getCommonAncestor sample_store ?t g c = Some (Inr g)" using a by simp
  moreover have "hdrBH ?t = sample_child" by (simp add: genesis_header_def)
  ultimately show ?thesis using c(4) by blast
qed

theorem LatestBlockLocator_offsets_witness: "\<exists>c. LatestBlockLocator sample_store c = [2, 1]"
proof -
  obtain c g where c: "headers_ok {sample_genesis, sample_child} sample_genesis (look sample_store c)"
      "hGetBest (csHeaders sample_store) c = Inr (genesis_header sample_child\<lparr>hdrHeight := 1, hdrTotalWork := 2 ^ 255\<rparr>)"
      "look sample_store c 2 = Some (genesis_header sample_child\<lparr>hdrHeight := 1, hdrTotalWork := 2 ^ 255\<rparr>)"
      "look sample_store c 1 = Some g" "hdrBH g = sample_genesis"
    by (rule sample_chain2)
  let ?t = "genesis_header sample_child\<lparr>hdrHeight := 1, hdrTotalWork := 2 ^ 255\<rparr>"
  have l: "look sample_store c (hdr_hash ?t) = Some ?t"
    using c(3) by (simp add: genesis_header_def sample_child_def)
  have p: "hGetPrevious (csHeaders sample_store) ?t c = Inr g"
    using c(4) by (simp add: service_chain.previous_look genesis_header_def sample_child_def)
  have o: "locator_offsets 100 1 0 0 = 0 # 1 # 2 # locator_offsets 97 1 3 3"
    using locator_offsets_three [of 97] by (simp del: locator_offsets.simps)
  have "LatestBlockLocator sample_store c = map (ancestor_hash sample_store c ?t)
      (takeWhile (\<lambda>n. n \<le> unat (hdrHeight ?t)) (locator_offsets 100 1 0 0))"
    using LatestBlockLocator_offsets [OF c(1,2) l] by blast
  then show ?thesis using p c(5) unfolding o
    by (intro exI [of _ c]) (simp add: genesis_header_def ancestor_hash_def sample_genesis_def sample_child_def)
qed

end
