(* ===== verification/Filters.thy ===== *)
theory Filters
  imports BlockChain
begin

text \<open>
  The address filter and the transaction type filter (\<open>sdk/addrfilter.go\<close>,
  \<open>sdk/txtypesfilter.go\<close>): sets of keys kept in a Go map. A filter is the list of its keys;
  Go iterates over a map in an unspecified order, and no lemma depends on the order of the list.
  What both promise is the locale \<open>key_filter\<close>.
\<close>

locale key_filter =
  fixes load :: "'k list \<Rightarrow> 'f"
    and add :: "'k \<Rightarrow> 'f \<Rightarrow> 'f"
    and delete :: "'k \<Rightarrow> 'f \<Rightarrow> 'f"
    and contains :: "'k \<Rightarrow> 'f \<Rightarrow> bool"
    and items :: "'f \<Rightarrow> 'k list"
    and loaded :: "'f \<Rightarrow> bool"
    and wf :: "'f \<Rightarrow> bool"
  assumes wf_load: "wf (load ks)" and wf_add: "wf f \<Longrightarrow> wf (add k f)" and wf_delete: "wf f \<Longrightarrow> wf (delete k f)"
    and contains_load: "contains k (load ks) \<longleftrightarrow> k \<in> set ks"
    and contains_add: "contains k (add k' f) \<longleftrightarrow> k = k' \<or> contains k f"
    and contains_delete: "contains k (delete k' f) \<longleftrightarrow> k \<noteq> k' \<and> contains k f"
    and contains_items: "contains k f \<longleftrightarrow> k \<in> set (items f)"
    and items_distinct: "wf f \<Longrightarrow> distinct (items f)"
    and loaded_items: "loaded f \<longleftrightarrow> items f \<noteq> []"
begin

lemma items_load: "set (items (load ks)) = set ks"
  using contains_load contains_items by blast

lemma items_add: "set (items (add k f)) = insert k (set (items f))"
  using contains_add contains_items by blast

text \<open>The number of keys, which sizes the Bloom filter, counts every key once.\<close>

lemma length_items: "wf f \<Longrightarrow> length (items f) = card (set (items f))"
  by (simp add: distinct_card items_distinct)

end

subsection \<open>sdk/addrfilter.go\<close>

type_synonym addr_filter = "uint168 list"

definition AddrFilter_clear :: "addr_filter \<Rightarrow> addr_filter" where
  "AddrFilter_clear f = []"

definition AddAddr :: "uint168 \<Rightarrow> addr_filter \<Rightarrow> addr_filter" where
  "AddAddr addr f = List.insert addr f"

definition LoadAddrs :: "uint168 list \<Rightarrow> addr_filter \<Rightarrow> addr_filter" where
  "LoadAddrs addrs f = fold List.insert addrs (AddrFilter_clear f)"

definition NewAddrFilter :: "uint168 list \<Rightarrow> addr_filter" where
  "NewAddrFilter addrs = LoadAddrs addrs []"

definition AddrFilter_IsLoaded :: "addr_filter \<Rightarrow> bool" where
  "AddrFilter_IsLoaded f = (0 < length f)"

definition DeleteAddr :: "uint168 \<Rightarrow> addr_filter \<Rightarrow> addr_filter" where
  "DeleteAddr hash f = removeAll hash f"

definition GetAddrs :: "addr_filter \<Rightarrow> uint168 list" where
  "GetAddrs f = f"

definition ContainAddr :: "uint168 \<Rightarrow> addr_filter \<Rightarrow> bool" where
  "ContainAddr hash f = List.member f hash"

subsection \<open>sdk/txtypesfilter.go\<close>

type_synonym txtypes_filter = "u8 list"

definition TxTypesFilter_clear :: "txtypes_filter \<Rightarrow> txtypes_filter" where
  "TxTypesFilter_clear f = []"

definition AddTxType :: "u8 \<Rightarrow> txtypes_filter \<Rightarrow> txtypes_filter" where
  "AddTxType tp f = List.insert tp f"

definition LoadTxTypes :: "u8 list \<Rightarrow> txtypes_filter \<Rightarrow> txtypes_filter" where
  "LoadTxTypes tps f = fold List.insert tps (TxTypesFilter_clear f)"

definition NewTxTypesFilter :: "u8 list \<Rightarrow> txtypes_filter" where
  "NewTxTypesFilter tps = LoadTxTypes tps []"

definition TxTypesFilter_IsLoaded :: "txtypes_filter \<Rightarrow> bool" where
  "TxTypesFilter_IsLoaded f = (0 < length f)"

definition DeleteTxType :: "u8 \<Rightarrow> txtypes_filter \<Rightarrow> txtypes_filter" where
  "DeleteTxType tp f = removeAll tp f"

definition GetTxTypes :: "txtypes_filter \<Rightarrow> u8 list" where
  "GetTxTypes f = f"

definition ContainTxType :: "u8 \<Rightarrow> txtypes_filter \<Rightarrow> bool" where
  "ContainTxType tp f = List.member f tp"

lemma fold_insert_set [simp]: "set (fold List.insert ks f) = set ks \<union> set f"
  by (induction ks arbitrary: f) auto

lemma fold_insert_distinct: "distinct f \<Longrightarrow> distinct (fold List.insert ks f)"
  by (induction ks arbitrary: f) auto

interpretation addr_filter: key_filter NewAddrFilter AddAddr DeleteAddr ContainAddr GetAddrs AddrFilter_IsLoaded distinct
  by unfold_locales
    (auto simp: NewAddrFilter_def LoadAddrs_def AddrFilter_clear_def AddAddr_def DeleteAddr_def ContainAddr_def
      GetAddrs_def AddrFilter_IsLoaded_def fold_insert_distinct distinct_removeAll)

interpretation txtypes_filter: key_filter NewTxTypesFilter AddTxType DeleteTxType ContainTxType GetTxTypes
    TxTypesFilter_IsLoaded distinct
  by unfold_locales
    (auto simp: NewTxTypesFilter_def LoadTxTypes_def TxTypesFilter_clear_def AddTxType_def DeleteTxType_def
      ContainTxType_def GetTxTypes_def TxTypesFilter_IsLoaded_def fold_insert_distinct distinct_removeAll)

end
