(* ===== verification/Buckets.thy ===== *)
theory Buckets
  imports Filters
begin

text \<open>
  Buckets of the key-value database, shared by the stores of \<open>interface/store\<close>: a bucket
  holds the encodings of the keys of a set (locale \<open>key_bucket\<close>) or of the entries of a map
  (locale \<open>map_bucket\<close>). The stores interpret the locales with their encodings. The
  lemmas on maps speak of the contents of the database as a function, so that they apply to a
  database and to a database with a batch on top of it.
\<close>

subsection \<open>Buckets\<close>

text \<open>Reading every entry of an iterator, up to the first error.\<close>

fun iter_all :: "('a \<Rightarrow> goerror + 'b) \<Rightarrow> 'a list \<Rightarrow> goerror + 'b list" where
  "iter_all f [] = Inr []"
| "iter_all f (x # xs) =
     (case f x of
        Inl e \<Rightarrow> Inl e
      | Inr y \<Rightarrow> (case iter_all f xs of Inl e \<Rightarrow> Inl e | Inr ys \<Rightarrow> Inr (y # ys)))"

lemma iter_all_map: "(\<And>x. x \<in> set xs \<Longrightarrow> f x = Inr (g x)) \<Longrightarrow> iter_all f xs = Inr (map g xs)"
  by (induction xs) auto

text \<open>Deleting every entry of a bucket with one batch.\<close>

definition bucket_deletes :: "'d leveldb \<Rightarrow> bytes \<Rightarrow> 'd \<Rightarrow> batch" where
  "bucket_deletes L bucket db = map (\<lambda>(k, v). BDel k) (ldb_iter L db bucket)"

lemma batch_apply_bucket_deletes:
  assumes "leveldb_ok L"
  shows "batch_apply (bucket_deletes L b db) f k =
    (if prefix b k \<and> (\<exists>v. ldb_get L db k = Inr v) then Inl NotFound else f k)"
proof -
  have "bucket_deletes L b db = map BDel (map fst (ldb_iter L db b))"
    by (simp add: bucket_deletes_def case_prod_beta)
  moreover have "k \<in> set (map fst (ldb_iter L db b)) \<longleftrightarrow> prefix b k \<and> (\<exists>v. ldb_get L db k = Inr v)"
    by (force simp: ldb_iter_set [OF assms])
  ultimately show ?thesis by (simp only: batch_apply_deletes)
qed

text \<open>A bucket that holds the set \<open>K\<close> of keys: each under its encoding, with the value
  \<open>val k\<close>, and nothing else.\<close>

definition bucket_set :: "'d leveldb \<Rightarrow> bytes \<Rightarrow> ('k \<Rightarrow> bytes) \<Rightarrow> ('k \<Rightarrow> bytes) \<Rightarrow> 'd \<Rightarrow> 'k set \<Rightarrow> bool" where
  "bucket_set L b key val db K \<longleftrightarrow>
     (\<forall>k v. prefix b k \<and> ldb_get L db k = Inr v \<longleftrightarrow> (\<exists>x \<in> K. k = toKey b (key x) \<and> v = val x))"

locale key_bucket =
  fixes bucket :: bytes and key :: "'k \<Rightarrow> bytes" and val :: "'k \<Rightarrow> bytes" and dec :: "bytes \<times> bytes \<Rightarrow> goerror + 'k"
    and ok :: bool
  assumes key_inj: "key x = key y \<longleftrightarrow> x = y"
    and dec: "ok \<Longrightarrow> dec (toKey bucket (key x), val x) = Inr x"
begin

lemma bucket_put:
  assumes L: "leveldb_ok L" and b: "bucket_set L bucket key val db K"
    and p: "ldb_put L db (toKey bucket (key x)) (val x) = (None, db')"
  shows "bucket_set L bucket key val db' (insert x K)"
  unfolding bucket_set_def
proof (intro allI)
  fix k v
  have g: "ldb_get L db' = (ldb_get L db)(toKey bucket (key x) := Inr (val x))" by (rule ldb_get_put [OF L p])
  show "prefix bucket k \<and> ldb_get L db' k = Inr v \<longleftrightarrow> (\<exists>y \<in> insert x K. k = toKey bucket (key y) \<and> v = val y)"
  proof (cases "k = toKey bucket (key x)")
    case True
    with g show ?thesis by (auto simp: key_inj)
  next
    case False
    with g b show ?thesis by (simp add: bucket_set_def)
  qed
qed

lemma bucket_read:
  assumes ok and L: "leveldb_ok L" and b: "bucket_set L bucket key val db K"
  shows "\<exists>ks. iter_all dec (ldb_iter L db bucket) = Inr ks \<and> set ks = K"
proof -
  define d where "d = (\<lambda>p. case dec p of Inr x \<Rightarrow> x | Inl e \<Rightarrow> undefined)"
  have s: "set (ldb_iter L db bucket) = {(k, v). \<exists>x \<in> K. k = toKey bucket (key x) \<and> v = val x}"
    using b by (simp add: ldb_iter_set [OF L] bucket_set_def)
  have "iter_all dec (ldb_iter L db bucket) = Inr (map d (ldb_iter L db bucket))"
    by (rule iter_all_map) (use \<open>ok\<close> in \<open>auto simp: s dec d_def\<close>)
  moreover have "set (map d (ldb_iter L db bucket)) = K"
    unfolding set_map s using \<open>ok\<close> by (force simp: d_def dec image_iff)
  ultimately show ?thesis by blast
qed

lemma bucket_clear:
  assumes L: "leveldb_ok L" and w: "ldb_write L db (bucket_deletes L bucket db) = (None, db')"
  shows "bucket_set L bucket key val db' {}"
  using ldb_get_write [OF L w] by (auto simp: bucket_set_def batch_apply_bucket_deletes [OF L])

end

text \<open>Writes outside the bucket leave it alone.\<close>

lemma bucket_set_other:
  "bucket_set L b key val db K \<Longrightarrow> (\<And>k. prefix b k \<Longrightarrow> ldb_get L db' k = ldb_get L db k) \<Longrightarrow>
   bucket_set L b key val db' K"
  unfolding bucket_set_def by metis

subsection \<open>Buckets as maps\<close>

type_synonym contents = "bytes \<Rightarrow> goerror + bytes"

definition bucket_map :: "contents \<Rightarrow> bytes \<Rightarrow> ('x \<Rightarrow> bytes) \<Rightarrow> ('x \<Rightarrow> 'a \<Rightarrow> bytes) \<Rightarrow> ('x \<rightharpoonup> 'a) \<Rightarrow> bool" where
  "bucket_map f b key val m \<longleftrightarrow>
     (\<forall>k v. prefix b k \<longrightarrow> (f k = Inr v \<longleftrightarrow> (\<exists>x a. m x = Some a \<and> k = toKey b (key x) \<and> v = val x a)))"

lemma bucket_map_cong:
  "bucket_map f b key val m \<Longrightarrow> (\<And>k. prefix b k \<Longrightarrow> g k = f k) \<Longrightarrow> bucket_map g b key val m"
  by (simp add: bucket_map_def)

lemma bucket_map_others:
  assumes "bucket_map f b key val m" and "\<And>c. c \<in> set cs \<Longrightarrow> \<not> prefix b (op_key c)"
  shows "bucket_map (batch_apply cs f) b key val m"
proof (rule bucket_map_cong [OF assms(1)])
  fix k
  assume "prefix b k"
  with assms(2) have "k \<notin> op_key ` set cs" by auto
  then show "batch_apply cs f k = f k" by (rule batch_apply_other)
qed

lemma bucket_map_other:
  "bucket_map f b key val m \<Longrightarrow> \<not> prefix b (op_key c) \<Longrightarrow> bucket_map (op_apply c f) b key val m"
  using bucket_map_others [of f b key val m "[c]"] by simp

locale map_bucket =
  fixes bucket :: bytes and key :: "'x \<Rightarrow> bytes" and val :: "'x \<Rightarrow> 'a \<Rightarrow> bytes"
    and dec :: "bytes \<times> bytes \<Rightarrow> goerror + 'y" and view :: "'x \<Rightarrow> 'a \<Rightarrow> 'y"
    and valid :: "'x \<Rightarrow> 'a \<Rightarrow> bool" and ok :: bool
  assumes key_inj: "ok \<Longrightarrow> key x = key y \<longleftrightarrow> x = y"
    and dec: "ok \<Longrightarrow> valid x a \<Longrightarrow> dec (toKey bucket (key x), val x a) = Inr (view x a)"
begin

abbreviation holds :: "contents \<Rightarrow> ('x \<rightharpoonup> 'a) \<Rightarrow> bool" where
  "holds f m \<equiv> bucket_map f bucket key val m"

lemma map_put:
  assumes ok and "holds f m"
  shows "holds (op_apply (BPut (toKey bucket (key x)) (val x a)) f) (m(x \<mapsto> a))"
  using assms key_inj unfolding bucket_map_def by (auto split: if_splits)

lemma map_del:
  assumes ok and "holds f m"
  shows "holds (op_apply (BDel (toKey bucket (key x))) f) (m(x := None))"
  using assms key_inj unfolding bucket_map_def by (auto split: if_splits)

lemma map_deletes:
  assumes "holds f m"
  shows "holds (batch_apply (map BDel ks) f) (\<lambda>x. if toKey bucket (key x) \<in> set ks then None else m x)"
  using assms unfolding bucket_map_def batch_apply_deletes by (auto split: if_splits)

lemma map_only_deletes:
  assumes "holds f m" and d: "\<And>k v. BPut k v \<in> set cs \<Longrightarrow> \<not> prefix bucket k"
  shows "holds (batch_apply cs f) (\<lambda>x. if BDel (toKey bucket (key x)) \<in> set cs then None else m x)"
proof -
  have "batch_apply cs f k = (if BDel k \<in> set cs then Inl NotFound else f k)" if "prefix bucket k" for k
    using d that by (intro batch_apply_key_deletes) blast
  with assms(1) show ?thesis unfolding bucket_map_def by (auto split: if_splits)
qed

lemma map_look:
  assumes ok and "holds f m"
  shows "f (toKey bucket (key x)) = Inr v \<longleftrightarrow> (\<exists>a. m x = Some a \<and> v = val x a)"
  using assms key_inj unfolding bucket_map_def by auto

lemma map_read:
  assumes ok and L: "leveldb_ok L" and h: "holds (ldb_get L db) m" and v: "\<And>x a. m x = Some a \<Longrightarrow> valid x a"
  shows "\<exists>ys. iter_all dec (ldb_iter L db bucket) = Inr ys \<and> set ys = {view x a |x a. m x = Some a}"
proof -
  define d where "d = (\<lambda>p. case dec p of Inr x \<Rightarrow> x | Inl e \<Rightarrow> undefined)"
  have s: "set (ldb_iter L db bucket) = {(k, v). \<exists>x a. m x = Some a \<and> k = toKey bucket (key x) \<and> v = val x a}"
    using h by (force simp: ldb_iter_set [OF L] bucket_map_def)
  have "iter_all dec (ldb_iter L db bucket) = Inr (map d (ldb_iter L db bucket))"
    by (rule iter_all_map) (use \<open>ok\<close> v in \<open>auto simp: s dec d_def\<close>)
  moreover have "set (map d (ldb_iter L db bucket)) = {view x a |x a. m x = Some a}"
  proof -
    have "d (toKey bucket (key x), val x a) = view x a" if "m x = Some a" for x a
      using dec [OF \<open>ok\<close> v [OF that]] by (simp add: d_def)
    then show ?thesis unfolding set_map s by (force simp: image_iff)
  qed
  ultimately show ?thesis by blast
qed

lemma map_clear:
  assumes L: "leveldb_ok L"
  shows "holds (batch_apply (bucket_deletes L bucket db) (ldb_get L db)) Map.empty"
  by (simp add: bucket_map_def batch_apply_bucket_deletes [OF L])

end

end
