(* ===== verification/AddrStore.thy ===== *)
theory AddrStore
  imports Buckets
begin

text \<open>
  The stores of the watched addresses and of the watched transaction types
  (\<open>interface/store/addrs.go\<close>, \<open>interface/store/txtypes.go\<close>): a bucket of the database
  under a filter kept in memory, filled when the store is opened. The mutexes are not modelled:
  every operation runs under the store's lock from start to end. Both stores are instances of
  the locale \<open>key_bucket\<close>, a bucket whose entries are the encodings of a set of keys.
\<close>

subsection \<open>interface/store/addrs.go\<close>

record 'd addrs =
  adDb :: 'd
  adFilter :: addr_filter

definition addrs_entry :: "codec \<Rightarrow> bytes \<times> bytes \<Rightarrow> goerror + uint168" where
  "addrs_entry E kv = Uint168FromBytes E (snd kv)"

definition addrs_getAll :: "codec \<Rightarrow> 'd leveldb \<Rightarrow> 'd \<Rightarrow> goerror + uint168 list" where
  "addrs_getAll E L db = iter_all (addrs_entry E) (ldb_iter L db BKTAddrs)"

definition NewAddrs :: "codec \<Rightarrow> 'd leveldb \<Rightarrow> 'd \<Rightarrow> goerror + 'd addrs" where
  "NewAddrs E L db =
     (case addrs_getAll E L db of
        Inl e \<Rightarrow> Inl e
      | Inr as \<Rightarrow> Inr \<lparr>adDb = db, adFilter = NewAddrFilter as\<rparr>)"

definition addrs_GetFilter :: "'d addrs \<Rightarrow> addr_filter" where
  "addrs_GetFilter a = adFilter a"

definition addrs_Put :: "'d leveldb \<Rightarrow> uint168 \<Rightarrow> 'd addrs \<Rightarrow> goerror option \<times> 'd addrs" where
  "addrs_Put L addr a =
     (if ContainAddr addr (adFilter a) then (None, a)
      else let a = a\<lparr>adFilter := AddAddr addr (adFilter a)\<rparr>;
               (err, db) = ldb_put L (adDb a) (toKey BKTAddrs (u168_bytes addr)) (u168_bytes addr)
           in (err, a\<lparr>adDb := db\<rparr>))"

definition addrs_GetAll :: "'d addrs \<Rightarrow> uint168 list" where
  "addrs_GetAll a = GetAddrs (adFilter a)"

definition addrs_Clear :: "'d leveldb \<Rightarrow> 'd addrs \<Rightarrow> goerror option \<times> 'd addrs" where
  "addrs_Clear L a =
     (let (err, db) = ldb_write L (adDb a) (bucket_deletes L BKTAddrs (adDb a)) in (err, a\<lparr>adDb := db\<rparr>))"

subsection \<open>interface/store/txtypes.go\<close>

record 'd txtypes =
  ttDb :: 'd
  ttFilter :: txtypes_filter

definition txtypes_entry :: "bytes \<times> bytes \<Rightarrow> goerror + u8" where
  "txtypes_entry kv = (if length (snd kv) \<noteq> 1 then Inl (Failure ''invalid tx types'') else Inr (snd kv ! 0))"

definition txtypes_getAll :: "'d leveldb \<Rightarrow> 'd \<Rightarrow> goerror + u8 list" where
  "txtypes_getAll L db = iter_all txtypes_entry (ldb_iter L db BKTTxTypes)"

definition NewTxTypes :: "'d leveldb \<Rightarrow> 'd \<Rightarrow> goerror + 'd txtypes" where
  "NewTxTypes L db =
     (case txtypes_getAll L db of
        Inl e \<Rightarrow> Inl e
      | Inr ts \<Rightarrow> Inr \<lparr>ttDb = db, ttFilter = NewTxTypesFilter ts\<rparr>)"

definition txtypes_GetFilter :: "'d txtypes \<Rightarrow> txtypes_filter" where
  "txtypes_GetFilter a = ttFilter a"

definition txtypes_Put :: "'d leveldb \<Rightarrow> u8 \<Rightarrow> 'd txtypes \<Rightarrow> goerror option \<times> 'd txtypes" where
  "txtypes_Put L tp a =
     (if ContainTxType tp (ttFilter a) then (None, a)
      else let a = a\<lparr>ttFilter := AddTxType tp (ttFilter a)\<rparr>;
               (err, db) = ldb_put L (ttDb a) (toKey BKTTxTypes [tp]) [tp]
           in (err, a\<lparr>ttDb := db\<rparr>))"

definition txtypes_GetAll :: "'d txtypes \<Rightarrow> u8 list" where
  "txtypes_GetAll a = GetTxTypes (ttFilter a)"

definition txtypes_Clear :: "'d leveldb \<Rightarrow> 'd txtypes \<Rightarrow> goerror option \<times> 'd txtypes" where
  "txtypes_Clear L a =
     (let (err, db) = ldb_write L (ttDb a) (bucket_deletes L BKTTxTypes (ttDb a)) in (err, a\<lparr>ttDb := db\<rparr>))"

subsection \<open>The filter mirrors the bucket\<close>

abbreviation addr_bucket :: "'d leveldb \<Rightarrow> 'd \<Rightarrow> uint168 set \<Rightarrow> bool" where
  "addr_bucket L \<equiv> bucket_set L BKTAddrs u168_bytes u168_bytes"

abbreviation type_bucket :: "'d leveldb \<Rightarrow> 'd \<Rightarrow> u8 set \<Rightarrow> bool" where
  "type_bucket L \<equiv> bucket_set L BKTTxTypes (\<lambda>t. [t]) (\<lambda>t. [t])"

interpretation addr_keys: key_bucket BKTAddrs u168_bytes u168_bytes "addrs_entry E" "codec_ok E" for E
  by unfold_locales (auto simp: addrs_entry_def codec_simps)

interpretation type_keys: key_bucket BKTTxTypes "\<lambda>t. [t]" "\<lambda>t. [t]" txtypes_entry True
  by unfold_locales (auto simp: txtypes_entry_def)

definition addrs_ok :: "'d leveldb \<Rightarrow> 'd addrs \<Rightarrow> bool" where
  "addrs_ok L a \<longleftrightarrow> distinct (adFilter a) \<and> addr_bucket L (adDb a) (set (adFilter a))"

definition txtypes_ok :: "'d leveldb \<Rightarrow> 'd txtypes \<Rightarrow> bool" where
  "txtypes_ok L a \<longleftrightarrow> distinct (ttFilter a) \<and> type_bucket L (ttDb a) (set (ttFilter a))"

lemma addrs_Put_ok:
  assumes L: "leveldb_ok L" and a: "addrs_ok L a" and p: "addrs_Put L addr a = (None, a')"
  shows "addrs_ok L a'" and "set (addrs_GetAll a') = insert addr (set (addrs_GetAll a))"
proof -
  have "addrs_ok L a' \<and> set (addrs_GetAll a') = insert addr (set (addrs_GetAll a))"
  proof (cases "ContainAddr addr (adFilter a)")
    case True
    with a p show ?thesis
      by (auto simp: addrs_Put_def addrs_GetAll_def GetAddrs_def ContainAddr_def)
  next
    case False
    with p obtain db where d: "ldb_put L (adDb a) (toKey BKTAddrs (u168_bytes addr)) (u168_bytes addr) = (None, db)"
      "a' = a\<lparr>adFilter := AddAddr addr (adFilter a), adDb := db\<rparr>"
      by (auto simp: addrs_Put_def Let_def split: prod.splits)
    from a have "addr_bucket L (adDb a) (set (adFilter a))" by (simp add: addrs_ok_def)
    from addr_keys.bucket_put [OF L this d(1)] a d(2) show ?thesis
      by (simp add: addrs_ok_def addrs_GetAll_def GetAddrs_def AddAddr_def)
  qed
  then show "addrs_ok L a'" and "set (addrs_GetAll a') = insert addr (set (addrs_GetAll a))" by simp_all
qed

lemma txtypes_Put_ok:
  assumes L: "leveldb_ok L" and a: "txtypes_ok L a" and p: "txtypes_Put L t a = (None, a')"
  shows "txtypes_ok L a'" and "set (txtypes_GetAll a') = insert t (set (txtypes_GetAll a))"
proof -
  have "txtypes_ok L a' \<and> set (txtypes_GetAll a') = insert t (set (txtypes_GetAll a))"
  proof (cases "ContainTxType t (ttFilter a)")
    case True
    with a p show ?thesis
      by (auto simp: txtypes_Put_def txtypes_GetAll_def GetTxTypes_def ContainTxType_def)
  next
    case False
    with p obtain db where d: "ldb_put L (ttDb a) (toKey BKTTxTypes [t]) [t] = (None, db)"
      "a' = a\<lparr>ttFilter := AddTxType t (ttFilter a), ttDb := db\<rparr>"
      by (auto simp: txtypes_Put_def Let_def split: prod.splits)
    from a have "type_bucket L (ttDb a) (set (ttFilter a))" by (simp add: txtypes_ok_def)
    from type_keys.bucket_put [OF L this d(1)] a d(2) show ?thesis
      by (simp add: txtypes_ok_def txtypes_GetAll_def GetTxTypes_def AddTxType_def)
  qed
  then show "txtypes_ok L a'" and "set (txtypes_GetAll a') = insert t (set (txtypes_GetAll a))" by simp_all
qed

text \<open>Opening a store on the database of another gives the same keys.\<close>

lemma NewAddrs_reopen:
  assumes E: "codec_ok E" and L: "leveldb_ok L" and a: "addrs_ok L a"
  shows "\<exists>a'. NewAddrs E L (adDb a) = Inr a' \<and> addrs_ok L a' \<and> adDb a' = adDb a \<and>
    set (addrs_GetAll a') = set (addrs_GetAll a)"
proof -
  have b: "addr_bucket L (adDb a) (set (adFilter a))" using a by (simp add: addrs_ok_def)
  from addr_keys.bucket_read [OF E L b] obtain ks
    where "addrs_getAll E L (adDb a) = Inr ks" "set ks = set (adFilter a)" by (auto simp: addrs_getAll_def)
  with b show ?thesis
    using addr_filter.wf_load [of ks] addr_filter.items_load [of ks]
    by (simp add: NewAddrs_def addrs_ok_def addrs_GetAll_def GetAddrs_def)
qed

lemma NewTxTypes_reopen:
  assumes L: "leveldb_ok L" and a: "txtypes_ok L a"
  shows "\<exists>a'. NewTxTypes L (ttDb a) = Inr a' \<and> txtypes_ok L a' \<and> ttDb a' = ttDb a \<and>
    set (txtypes_GetAll a') = set (txtypes_GetAll a)"
proof -
  have b: "type_bucket L (ttDb a) (set (ttFilter a))" using a by (simp add: txtypes_ok_def)
  from type_keys.bucket_read [OF _ L b] obtain ks
    where "txtypes_getAll L (ttDb a) = Inr ks" "set ks = set (ttFilter a)" by (auto simp: txtypes_getAll_def)
  with b show ?thesis
    using txtypes_filter.wf_load [of ks] txtypes_filter.items_load [of ks]
    by (simp add: NewTxTypes_def txtypes_ok_def txtypes_GetAll_def GetTxTypes_def)
qed

text \<open>An address that was put is watched, also after the database is opened again, and so
  are all addresses put before; the number of addresses, which sizes the Bloom filter, counts
  each once.\<close>

theorem addrs_Put_reopen:
  assumes "codec_ok E" and "leveldb_ok L" and "addrs_ok L a" and "addrs_Put L addr a = (None, a')"
  shows "\<exists>a''. NewAddrs E L (adDb a') = Inr a'' \<and>
    set (addrs_GetAll a'') = insert addr (set (addrs_GetAll a)) \<and>
    length (addrs_GetAll a'') = card (insert addr (set (addrs_GetAll a)))"
proof -
  note p = addrs_Put_ok [OF assms(2,3,4)]
  from NewAddrs_reopen [OF assms(1,2) p(1)] obtain a''
    where r: "NewAddrs E L (adDb a') = Inr a''" "addrs_ok L a''" "set (addrs_GetAll a'') = set (addrs_GetAll a')"
    by blast
  then have "distinct (addrs_GetAll a'')" by (simp add: addrs_ok_def addrs_GetAll_def GetAddrs_def)
  with r p(2) show ?thesis by (metis distinct_card)
qed

text \<open>An address whose put failed is in the filter but not in the database, and putting it
  again reports success without writing anything.\<close>

theorem addrs_Put_after_failure:
  assumes "addrs_Put L addr a = (Some e, a')"
  shows "addrs_Put L addr a' = (None, a') \<and> addr \<in> set (addrs_GetAll a')"
proof -
  have "adFilter a' = AddAddr addr (adFilter a)"
    using assms by (auto simp: addrs_Put_def Let_def split: if_splits prod.splits)
  then show ?thesis
    by (simp add: addrs_Put_def addrs_GetAll_def GetAddrs_def ContainAddr_def AddAddr_def)
qed

definition empty_addrs :: "(bytes \<times> bytes) list addrs" where
  "empty_addrs = \<lparr>adDb = [], adFilter = []\<rparr>"

lemma empty_addrs_ok: "addrs_ok leveldb0 empty_addrs"
  by (auto simp: addrs_ok_def empty_addrs_def bucket_set_def leveldb0_def alist_get_def)

theorem addrs_Put_reopen_witness:
  "\<exists>a' a''. addrs_Put leveldb0 7 empty_addrs = (None, a') \<and> NewAddrs codec0 leveldb0 (adDb a') = Inr a'' \<and>
     set (addrs_GetAll a'') = {7}"
proof -
  obtain a' where p: "addrs_Put leveldb0 7 empty_addrs = (None, a')"
    by (auto simp: addrs_Put_def empty_addrs_def ContainAddr_def leveldb0_def Let_def)
  from addrs_Put_reopen [OF codec0_ok leveldb0_ok empty_addrs_ok p] p show ?thesis
    by (auto simp: empty_addrs_def addrs_GetAll_def GetAddrs_def)
qed

text \<open>A database whose writes fail.\<close>

definition failing_db :: "(bytes \<times> bytes) list leveldb" where
  "failing_db = leveldb0\<lparr>ldb_put := (\<lambda>d k v. (Some (Failure ''closed''), d))\<rparr>"

theorem addrs_Put_after_failure_witness:
  "\<exists>a'. addrs_Put failing_db 7 empty_addrs = (Some (Failure ''closed''), a') \<and>
     addrs_Put failing_db 7 a' = (None, a') \<and> adDb a' = []"
proof -
  obtain a' where p: "addrs_Put failing_db 7 empty_addrs = (Some (Failure ''closed''), a')" "adDb a' = []"
    by (auto simp: addrs_Put_def empty_addrs_def ContainAddr_def failing_db_def Let_def)
  with addrs_Put_after_failure [OF p(1)] show ?thesis by blast
qed

end
