(* ===== verification/OpsStore.thy ===== *)
theory OpsStore
  imports AddrStore
begin

text \<open>
  The store of the watched outpoints (\<open>interface/store/ops.go\<close>,
  \<open>interface/store/opsbatch.go\<close>): a map from outpoints to the address they pay to. The state
  of the store is the database, the state of a batch the list of its records; reads go to the
  database, not to the batch.
\<close>

definition ops_Put :: "codec \<Rightarrow> 'd leveldb \<Rightarrow> outpoint \<Rightarrow> uint168 \<Rightarrow> 'd \<Rightarrow> goerror option \<times> 'd" where
  "ops_Put E L op addr db = ldb_put L db (toKey BKTOps (outpoint_Bytes E op)) (u168_bytes addr)"

definition ops_HaveOp :: "codec \<Rightarrow> 'd leveldb \<Rightarrow> outpoint \<Rightarrow> 'd \<Rightarrow> uint168 option" where
  "ops_HaveOp E L op db =
     (case ldb_get L db (toKey BKTOps (outpoint_Bytes E op)) of
        Inl e \<Rightarrow> None
      | Inr addrBytes \<Rightarrow> (case Uint168FromBytes E addrBytes of Inl e \<Rightarrow> None | Inr addr \<Rightarrow> Some addr))"

definition ops_entry :: "codec \<Rightarrow> bytes \<times> bytes \<Rightarrow> goerror + outpoint" where
  "ops_entry E kv = OutPointFromBytes E (subKey BKTOps (fst kv))"

definition ops_GetAll :: "codec \<Rightarrow> 'd leveldb \<Rightarrow> 'd \<Rightarrow> goerror + outpoint list" where
  "ops_GetAll E L db = iter_all (ops_entry E) (ldb_iter L db BKTOps)"

definition ops_Clear :: "'d leveldb \<Rightarrow> 'd \<Rightarrow> goerror option \<times> 'd" where
  "ops_Clear L db = ldb_write L db (bucket_deletes L BKTOps db)"

subsection \<open>interface/store/opsbatch.go\<close>

definition opsBatch_Put :: "codec \<Rightarrow> outpoint \<Rightarrow> uint168 \<Rightarrow> batch \<Rightarrow> batch" where
  "opsBatch_Put E op addr b = b @ [BPut (toKey BKTOps (outpoint_Bytes E op)) (u168_bytes addr)]"

definition opsBatch_Del :: "codec \<Rightarrow> outpoint \<Rightarrow> batch \<Rightarrow> batch" where
  "opsBatch_Del E op b = b @ [BDel (toKey BKTOps (outpoint_Bytes E op))]"

definition opsBatch_Rollback :: "batch \<Rightarrow> batch" where
  "opsBatch_Rollback b = []"

definition opsBatch_Commit :: "'d leveldb \<Rightarrow> batch \<Rightarrow> 'd \<Rightarrow> goerror option \<times> 'd" where
  "opsBatch_Commit L b db = ldb_write L db b"

subsection \<open>The store is a map\<close>

interpretation ops_map: map_bucket BKTOps "outpoint_Bytes E" "\<lambda>op. u168_bytes" "ops_entry E" "\<lambda>op a. op"
    "\<lambda>op a. True" "codec_ok E"
  for E
  by unfold_locales (auto simp: outpoint_Bytes_inj ops_entry_def)

abbreviation ops_holds :: "codec \<Rightarrow> contents \<Rightarrow> (outpoint \<rightharpoonup> uint168) \<Rightarrow> bool" where
  "ops_holds E f m \<equiv> bucket_map f BKTOps (outpoint_Bytes E) (\<lambda>op. u168_bytes) m"

lemma ops_HaveOp_map:
  assumes E: "codec_ok E" and h: "ops_holds E (ldb_get L db) m"
  shows "ops_HaveOp E L op db = m op"
proof (cases "m op")
  case None
  with ops_map.map_look [OF E h, of op] show ?thesis
    by (auto simp: ops_HaveOp_def split: sum.split)
next
  case (Some a)
  with ops_map.map_look [OF E h, of op "u168_bytes a"] E show ?thesis
    by (simp add: ops_HaveOp_def codec_simps)
qed

lemma ops_GetAll_map:
  assumes "codec_ok E" and "leveldb_ok L" and "ops_holds E (ldb_get L db) m"
  shows "\<exists>ops. ops_GetAll E L db = Inr ops \<and> set ops = dom m"
  using ops_map.map_read [OF assms] by (auto simp: ops_GetAll_def dom_def)

lemma opsBatch_Put_holds:
  "codec_ok E \<Longrightarrow> ops_holds E (batch_apply b f) m \<Longrightarrow>
   ops_holds E (batch_apply (opsBatch_Put E op addr b) f) (m(op \<mapsto> addr))"
  unfolding opsBatch_Put_def using ops_map.map_put [of E "batch_apply b f" m op addr] by simp

lemma opsBatch_Del_holds:
  "codec_ok E \<Longrightarrow> ops_holds E (batch_apply b f) m \<Longrightarrow>
   ops_holds E (batch_apply (opsBatch_Del E op b) f) (m(op := None))"
  unfolding opsBatch_Del_def using ops_map.map_del [of E "batch_apply b f" m op] by simp

text \<open>A batch of puts and deletes, as the store sees it.\<close>

datatype ops_change = OpAdd outpoint uint168 | OpDel outpoint

fun change_batch :: "codec \<Rightarrow> ops_change \<Rightarrow> batch \<Rightarrow> batch" where
  "change_batch E (OpAdd op addr) b = opsBatch_Put E op addr b"
| "change_batch E (OpDel op) b = opsBatch_Del E op b"

fun change_map :: "ops_change \<Rightarrow> (outpoint \<rightharpoonup> uint168) \<Rightarrow> (outpoint \<rightharpoonup> uint168)" where
  "change_map (OpAdd op addr) m = m(op \<mapsto> addr)"
| "change_map (OpDel op) m = m(op := None)"

lemma changes_holds:
  "codec_ok E \<Longrightarrow> ops_holds E (batch_apply b f) m \<Longrightarrow>
   ops_holds E (batch_apply (fold (change_batch E) cs b) f) (fold change_map cs m)"
proof (induction cs arbitrary: b m)
  case Nil
  then show ?case by simp
next
  case (Cons c cs)
  then have "ops_holds E (batch_apply (change_batch E c b) f) (change_map c m)"
    by (cases c) (simp_all add: opsBatch_Put_holds opsBatch_Del_holds)
  from Cons.IH [OF Cons.prems(1) this] show ?case by simp
qed

text \<open>A committed batch of puts and deletes of outpoints is the same sequence of updates of
  the map from outpoints to addresses; lookups and the list of all outpoints answer from that
  map.\<close>

theorem ops_batch_refines_map:
  assumes "codec_ok E" and "leveldb_ok L" and "ops_holds E (ldb_get L db) m"
    and "opsBatch_Commit L (fold (change_batch E) cs []) db = (None, db')"
  shows "ops_holds E (ldb_get L db') (fold change_map cs m) \<and>
    (\<forall>op. ops_HaveOp E L op db' = fold change_map cs m op) \<and>
    (\<exists>ops. ops_GetAll E L db' = Inr ops \<and> set ops = dom (fold change_map cs m))"
proof -
  have "ldb_get L db' = batch_apply (fold (change_batch E) cs []) (ldb_get L db)"
    using assms(4) unfolding opsBatch_Commit_def by (rule ldb_get_write [OF assms(2)])
  then have h: "ops_holds E (ldb_get L db') (fold change_map cs m)"
    using changes_holds [OF assms(1), of "[]" "ldb_get L db" m cs] assms(3) by simp
  then show ?thesis
    using ops_HaveOp_map [OF assms(1) h] ops_GetAll_map [OF assms(1,2) h] by blast
qed

lemma empty_bucket_map: "bucket_map (ldb_get leveldb0 []) b key val Map.empty"
  by (simp add: bucket_map_def leveldb0_def alist_get_def)

theorem ops_batch_refines_map_witness:
  "\<exists>db. opsBatch_Commit leveldb0 (fold (change_batch codec0)
       [OpAdd (NewOutPoint 1 0) 7, OpAdd (NewOutPoint 2 0) 8, OpDel (NewOutPoint 1 0)] []) [] = (None, db) \<and>
     ops_HaveOp codec0 leveldb0 (NewOutPoint 1 0) db = None \<and>
     ops_HaveOp codec0 leveldb0 (NewOutPoint 2 0) db = Some 8"
proof -
  let ?cs = "[OpAdd (NewOutPoint 1 0) 7, OpAdd (NewOutPoint 2 0) 8, OpDel (NewOutPoint 1 0)]"
  obtain db where d: "opsBatch_Commit leveldb0 (fold (change_batch codec0) ?cs []) [] = (None, db)"
    by (auto simp: opsBatch_Commit_def leveldb0_def)
  then have "\<forall>op. ops_HaveOp codec0 leveldb0 op db = fold change_map ?cs Map.empty op"
    using ops_batch_refines_map [OF codec0_ok leveldb0_ok empty_bucket_map d] by blast
  with d show ?thesis by (auto simp: NewOutPoint_def)
qed

end
