(* ===== verification/QueStore.thy ===== *)
theory QueStore
  imports OpsStore
begin

text \<open>
  The queue of transactions to notify the listeners of (\<open>interface/store/que.go\<close>,
  \<open>interface/store/quebatch.go\<close>). An item is stored under listener and transaction, with its
  height and, once notified, the time; a second bucket indexes the items by height. A time is
  its Unix seconds. \<open>que_ok\<close> relates the contents of the database to the queue as a map and
  the index as a set; \<open>que_exact\<close> is a queue whose index lists exactly its items.
\<close>

record que_item =
  qiNotifyId :: uint256
  qiTxId :: uint256
  qiHeight :: u32
  qiLastNotify :: u64

definition que_value :: "uint256 \<Rightarrow> uint256 \<Rightarrow> bytes" where
  "que_value notifyId txId = hash_bytes notifyId @ hash_bytes txId"

definition que_Put :: "'d leveldb \<Rightarrow> que_item \<Rightarrow> 'd \<Rightarrow> goerror option \<times> 'd" where
  "que_Put L item db =
     (let buf = be_bytes4 (qiHeight item);
          value = que_value (qiNotifyId item) (qiTxId item)
      in ldb_write L db
           [BPut (toKey BKTQueIdx (buf @ value)) [],
            BPut (toKey BKTQue value) (buf @ be_bytes8 (qiLastNotify item))])"

text \<open>Reading an entry: the errors of the reads are dropped, a missing time is zero.\<close>

definition que_entry :: "bytes \<times> bytes \<Rightarrow> goerror + que_item" where
  "que_entry kv =
     (let value = subKey BKTQue (fst kv); buf = snd kv
      in if length value < 32 then Inl (Panic ''slice bounds out of range'')
         else Inr \<lparr>qiNotifyId = bytes_hash (take 32 value), qiTxId = bytes_hash (drop 32 value),
                   qiHeight = (if length buf < 4 then 0 else be_u32 buf),
                   qiLastNotify = (if length (drop 4 buf) < 8 then 0 else be_u64 (drop 4 buf))\<rparr>)"

definition que_GetAll :: "'d leveldb \<Rightarrow> 'd \<Rightarrow> goerror + que_item list" where
  "que_GetAll L db = iter_all que_entry (ldb_iter L db BKTQue)"

definition que_Del :: "'d leveldb \<Rightarrow> uint256 \<Rightarrow> uint256 \<Rightarrow> 'd \<Rightarrow> goerror option \<times> 'd" where
  "que_Del L notifyId tx_id db =
     (let value = que_value notifyId tx_id in
      case ldb_get L db (toKey BKTQue value) of
        Inl e \<Rightarrow> (Some e, db)
      | Inr height \<Rightarrow> ldb_write L db [BDel (toKey BKTQue value), BDel (toKey BKTQueIdx (height @ value))])"

definition que_Clear :: "'d leveldb \<Rightarrow> 'd \<Rightarrow> goerror option \<times> 'd" where
  "que_Clear L db = ldb_write L db (bucket_deletes L BKTQue db @ bucket_deletes L BKTQueIdx db)"

subsection \<open>interface/store/quebatch.go\<close>

definition queBatch_Put :: "que_item \<Rightarrow> batch \<Rightarrow> batch" where
  "queBatch_Put item b =
     (let height = be_bytes4 (qiHeight item);
          value = que_value (qiNotifyId item) (qiTxId item)
      in b @ [BPut (toKey BKTQue value) height, BPut (toKey BKTQueIdx (height @ value)) []])"

definition queBatch_Del :: "'d leveldb \<Rightarrow> uint256 \<Rightarrow> uint256 \<Rightarrow> 'd \<Rightarrow> batch \<Rightarrow> goerror option \<times> batch" where
  "queBatch_Del L notifyId tx_id db b =
     (let value = que_value notifyId tx_id in
      case ldb_get L db (toKey BKTQue value) of
        Inl e \<Rightarrow> (Some e, b)
      | Inr height \<Rightarrow> (None, b @ [BDel (toKey BKTQue value), BDel (toKey BKTQueIdx (height @ value))]))"

definition queBatch_DelAll :: "'d leveldb \<Rightarrow> u32 \<Rightarrow> 'd \<Rightarrow> batch \<Rightarrow> goerror option \<times> batch" where
  "queBatch_DelAll L height db b =
     (let pre = toKey BKTQueIdx (be_bytes4 height)
      in (None, b @ concat (map (\<lambda>(k, v). [BDel (toKey BKTQue (subKey pre k)), BDel k]) (ldb_iter L db pre))))"

definition queBatch_Rollback :: "batch \<Rightarrow> batch" where
  "queBatch_Rollback b = []"

definition queBatch_Commit :: "'d leveldb \<Rightarrow> batch \<Rightarrow> 'd \<Rightarrow> goerror option \<times> 'd" where
  "queBatch_Commit L b db = ldb_write L db b"

subsection \<open>The queue as a map with an index\<close>

type_synonym queue = "uint256 \<times> uint256 \<rightharpoonup> u32 \<times> u64 option"

fun que_key :: "uint256 \<times> uint256 \<Rightarrow> bytes" where
  "que_key (n, t) = que_value n t"

fun que_val :: "u32 \<times> u64 option \<Rightarrow> bytes" where
  "que_val (h, None) = be_bytes4 h"
| "que_val (h, Some l) = be_bytes4 h @ be_bytes8 l"

fun que_view :: "uint256 \<times> uint256 \<Rightarrow> u32 \<times> u64 option \<Rightarrow> que_item" where
  "que_view (n, t) (h, l) =
     \<lparr>qiNotifyId = n, qiTxId = t, qiHeight = h, qiLastNotify = (case l of None \<Rightarrow> 0 | Some l \<Rightarrow> l)\<rparr>"

fun idx_key :: "u32 \<times> uint256 \<times> uint256 \<Rightarrow> bytes" where
  "idx_key (h, n, t) = be_bytes4 h @ que_value n t"

lemma que_value_inj [simp]: "que_value n t = que_value n' t' \<longleftrightarrow> n = n' \<and> t = t'"
  by (simp add: que_value_def)

lemma length_que_value [simp]: "length (que_value n t) = 64"
  by (simp add: que_value_def)

lemma length_que_val: "length (que_val (h, l)) = (if l = None then 4 else 12)"
  by (cases l) auto

interpretation que_map: map_bucket BKTQue que_key "\<lambda>x. que_val" que_entry que_view "\<lambda>x a. True" True
proof unfold_locales
  fix x y :: "uint256 \<times> uint256"
  show "que_key x = que_key y \<longleftrightarrow> x = y" by (cases x; cases y) simp
  fix a :: "u32 \<times> u64 option"
  obtain n t h l where "x = (n, t)" "a = (h, l)" by fastforce
  then show "que_entry (toKey BKTQue (que_key x), que_val a) = Inr (que_view x a)"
    using be_u64_append [of _ "[]"] by (cases l) (simp_all add: que_entry_def que_value_def)
qed

interpretation que_idx: map_bucket BKTQueIdx idx_key "\<lambda>x (a :: unit). []" "\<lambda>kv. Inr (snd kv)" "\<lambda>x a. []" "\<lambda>x a. True" True
proof unfold_locales
  fix x y :: "u32 \<times> uint256 \<times> uint256"
  show "idx_key x = idx_key y \<longleftrightarrow> x = y" by (cases x; cases y) simp
qed simp

definition set_map :: "'a set \<Rightarrow> ('a \<rightharpoonup> unit)" where
  "set_map I = (\<lambda>x. if x \<in> I then Some () else None)"

lemma set_map_simps [simp]:
  "(set_map I)(x \<mapsto> u) = set_map (insert x I)" "set_map I x = Some u \<longleftrightarrow> x \<in> I"
  by (auto simp: set_map_def)

definition que_ok :: "contents \<Rightarrow> queue \<Rightarrow> (u32 \<times> uint256 \<times> uint256) set \<Rightarrow> bool" where
  "que_ok f m I \<longleftrightarrow> bucket_map f BKTQue que_key (\<lambda>x. que_val) m \<and>
     bucket_map f BKTQueIdx idx_key (\<lambda>x a. []) (set_map I)"

definition que_exact :: "contents \<Rightarrow> queue \<Rightarrow> bool" where
  "que_exact f m \<longleftrightarrow> que_ok f m {(h, n, t). \<exists>l. m (n, t) = Some (h, l)}"

lemma que_keys [simp]:
  "\<not> prefix BKTQue (toKey BKTQueIdx k)" "\<not> prefix BKTQueIdx (toKey BKTQue k)"
  "toKey BKTQue k \<noteq> toKey BKTQueIdx k'" "toKey BKTQueIdx k \<noteq> toKey BKTQue k'"
  by (simp_all add: toKey_def bkt_simps str_bytes_def)

lemma que_ok_puts:
  assumes "que_ok f m I"
  shows "que_ok (op_apply (BPut (toKey BKTQue (que_value n t)) (que_val a)) f) (m((n, t) \<mapsto> a)) I"
    and "que_ok (op_apply (BPut (toKey BKTQueIdx (be_bytes4 h @ que_value n t)) []) f) m (insert (h, n, t) I)"
  using assms que_map.map_put [of f m "(n, t)" a] que_idx.map_put [of f "set_map I" "(h, n, t)" "()"]
  by (auto simp: que_ok_def bucket_map_other)

lemma que_ok_deletes:
  assumes "que_ok f m I"
  shows "que_ok (batch_apply (map BDel ks) f) (\<lambda>x. if toKey BKTQue (que_key x) \<in> set ks then None else m x)
    {x \<in> I. toKey BKTQueIdx (idx_key x) \<notin> set ks}"
proof -
  have "(\<lambda>x. if toKey BKTQueIdx (idx_key x) \<in> set ks then None else set_map I x)
      = set_map {x \<in> I. toKey BKTQueIdx (idx_key x) \<notin> set ks}"
    by (auto simp: set_map_def)
  with assms que_map.map_deletes [of f m ks] que_idx.map_deletes [of f "set_map I" ks] show ?thesis
    by (simp add: que_ok_def)
qed

lemma que_GetAll_ok:
  assumes "leveldb_ok L" and "que_ok (ldb_get L db) m I"
  shows "\<exists>items. que_GetAll L db = Inr items \<and> set items = {que_view x a |x a. m x = Some a}"
  using que_map.map_read [OF _ assms(1)] assms(2) by (simp add: que_GetAll_def que_ok_def)

lemma que_Put_ok:
  assumes "leveldb_ok L" and "que_ok (ldb_get L db) m I" and "que_Put L item db = (None, db')"
  shows "que_ok (ldb_get L db') (m((qiNotifyId item, qiTxId item) \<mapsto> (qiHeight item, Some (qiLastNotify item))))
    (insert (qiHeight item, qiNotifyId item, qiTxId item) I)"
proof -
  let ?h = "qiHeight item" and ?n = "qiNotifyId item" and ?t = "qiTxId item"
  have "ldb_get L db' = op_apply (BPut (toKey BKTQue (que_value ?n ?t)) (que_val (?h, Some (qiLastNotify item))))
      (op_apply (BPut (toKey BKTQueIdx (be_bytes4 ?h @ que_value ?n ?t)) []) (ldb_get L db))"
    using ldb_get_write [OF assms(1)] assms(3) by (simp add: que_Put_def Let_def)
  then show ?thesis by (simp only: que_ok_puts(1) [OF que_ok_puts(2) [OF assms(2)]])
qed

lemma queBatch_Put_ok:
  assumes "que_ok (batch_apply b f) m I"
  shows "que_ok (batch_apply (queBatch_Put item b) f)
    (m((qiNotifyId item, qiTxId item) \<mapsto> (qiHeight item, None))) (insert (qiHeight item, qiNotifyId item, qiTxId item) I)"
  using que_ok_puts(2) [OF que_ok_puts(1) [OF assms, of "qiNotifyId item" "qiTxId item" "(qiHeight item, None)"]]
  by (simp add: queBatch_Put_def Let_def)

text \<open>The entries of the index at a height.\<close>

lemma que_iter_height:
  assumes "leveldb_ok L" and "que_ok (ldb_get L db) m I"
  shows "set (ldb_iter L db (toKey BKTQueIdx (be_bytes4 h))) =
    {(toKey BKTQueIdx (idx_key (h, n, t)), []) |n t. (h, n, t) \<in> I}" (is "?l = ?r")
proof -
  have i: "prefix BKTQueIdx k \<Longrightarrow> ldb_get L db k = Inr v \<longleftrightarrow> (\<exists>x. x \<in> I \<and> k = toKey BKTQueIdx (idx_key x) \<and> v = [])"
    for k v
    using assms(2) by (simp add: que_ok_def bucket_map_def)
  have p: "prefix (toKey BKTQueIdx (be_bytes4 h)) k \<Longrightarrow> prefix BKTQueIdx k" for k
    by (auto simp: toKey_def prefix_def)
  have h: "prefix (toKey BKTQueIdx (be_bytes4 h)) (toKey BKTQueIdx (idx_key (h', n, t))) \<longleftrightarrow> h' = h" for h' n t
    by (auto simp: toKey_def prefix_def)
  show ?thesis
    unfolding ldb_iter_set [OF assms(1)] using i p h by (auto; blast)
qed

lemma queBatch_DelAll_ok:
  assumes "leveldb_ok L" and q: "que_ok (ldb_get L db) m I" and "que_ok (batch_apply b f) m' I'"
  shows "que_ok (batch_apply (snd (queBatch_DelAll L h db b)) f)
    (\<lambda>(n, t). if (h, n, t) \<in> I then None else m' (n, t)) {x \<in> I'. \<not> (fst x = h \<and> x \<in> I)}"
proof -
  let ?pre = "toKey BKTQueIdx (be_bytes4 h)"
  let ?ks = "concat (map (\<lambda>(k, v). [toKey BKTQue (subKey ?pre k), k]) (ldb_iter L db ?pre))"
  have b: "snd (queBatch_DelAll L h db b) = b @ map BDel ?ks"
    by (simp add: queBatch_DelAll_def Let_def map_concat comp_def split_def)
  have s: "set ?ks = {toKey BKTQue (que_value n t) |n t. (h, n, t) \<in> I} \<union> {toKey BKTQueIdx (idx_key (h, n, t)) |n t. (h, n, t) \<in> I}"
    using que_iter_height [OF assms(1) q, of h] by (force simp: toKey_def subKey_def)
  have 1: "toKey BKTQue (que_key x) \<in> set ?ks \<longleftrightarrow> (h, x) \<in> I" for x
    unfolding s by (cases x) auto
  have 2: "toKey BKTQueIdx (idx_key x) \<in> set ?ks \<longleftrightarrow> fst x = h \<and> x \<in> I" for x
    unfolding s by (cases x) auto
  have e: "(\<lambda>x. if (h, x) \<in> I then None else m' x) = (\<lambda>(n, t). if (h, n, t) \<in> I then None else m' (n, t))"
    by auto
  from que_ok_deletes [OF assms(3), of ?ks] show ?thesis
    unfolding b by (simp only: batch_apply_append 1 2 e)
qed

lemma que_Del_ok:
  assumes "leveldb_ok L" and q: "que_ok (ldb_get L db) m I" and m: "m (n, t) = Some (h, l)"
    and "que_Del L n t db = (None, db')"
  shows "que_ok (ldb_get L db') (m((n, t) := None)) (if l = None then I - {(h, n, t)} else I)"
proof -
  let ?ks = "[toKey BKTQue (que_value n t), toKey BKTQueIdx (que_val (h, l) @ que_value n t)]"
  have "ldb_get L db (toKey BKTQue (que_value n t)) = Inr (que_val (h, l))"
    using q m que_map.map_look [of "ldb_get L db" m "(n, t)"] by (simp add: que_ok_def)
  then have g: "ldb_get L db' = batch_apply (map BDel ?ks) (ldb_get L db)"
    using ldb_get_write [OF assms(1)] assms(4) by (simp add: que_Del_def Let_def)
  have 1: "(\<lambda>x. if toKey BKTQue (que_key x) \<in> set ?ks then None else m x) = m((n, t) := None)"
    by auto
  have 2: "idx_key x = que_val (h, l) @ que_value n t \<longleftrightarrow> l = None \<and> x = (h, n, t)" for x
  proof (cases l)
    case None
    then show ?thesis by (cases x) auto
  next
    case (Some y)
    have "length (idx_key x) = 68" by (cases x) simp
    moreover have "length (que_val (h, l) @ que_value n t) = 76" using Some length_que_val [of h l] by simp
    ultimately have "idx_key x \<noteq> que_val (h, l) @ que_value n t" by (intro notI) simp
    with Some show ?thesis by simp
  qed
  have 3: "{x \<in> I. toKey BKTQueIdx (idx_key x) \<notin> set ?ks} = (if l = None then I - {(h, n, t)} else I)"
    using 2 by auto
  from que_ok_deletes [OF q, of ?ks] show ?thesis unfolding g 1 3 .
qed

subsection \<open>Properties\<close>

definition drop_height :: "u32 \<Rightarrow> queue \<Rightarrow> queue" where
  "drop_height h m = (\<lambda>x. case m x of None \<Rightarrow> None | Some a \<Rightarrow> if fst a = h then None else Some a)"

lemma drop_height_Some [simp]: "drop_height h m x = Some a \<longleftrightarrow> m x = Some a \<and> fst a \<noteq> h"
  by (auto simp: drop_height_def split: option.splits)

lemma queBatch_DelAll_drops:
  assumes "leveldb_ok L" and "que_exact (ldb_get L db) m" and "que_exact (batch_apply b f) m"
  shows "que_exact (batch_apply (snd (queBatch_DelAll L h db b)) f) (drop_height h m)"
proof -
  let ?I = "{(h, n, t). \<exists>l. m (n, t) = Some (h, l)}"
  have m: "(\<lambda>(n, t). if (h, n, t) \<in> ?I then None else m (n, t)) = drop_height h m"
    by (rule ext) (auto simp: drop_height_def split: option.split)
  have i: "{x \<in> ?I. \<not> (fst x = h \<and> x \<in> ?I)} = {(h', n, t). \<exists>l. drop_height h m (n, t) = Some (h', l)}"
    by auto
  show ?thesis
    using queBatch_DelAll_ok [OF assms(1), of db m ?I b f m ?I h] assms(2,3) unfolding que_exact_def m i by simp
qed

text \<open>C12: Rolling a block back removes from an exact queue the items of its height and no
  others, and leaves the queue exact.\<close>

theorem queBatch_DelAll_exact:
  assumes "leveldb_ok L" and "que_exact (ldb_get L db) m"
    and "queBatch_Commit L (snd (queBatch_DelAll L h db [])) db = (None, db')"
  shows "que_exact (ldb_get L db') (\<lambda>x. case m x of None \<Rightarrow> None | Some a \<Rightarrow> if fst a = h then None else Some a) \<and>
    (\<exists>items. que_GetAll L db' = Inr items \<and> set items = {que_view x a |x a. m x = Some a \<and> fst a \<noteq> h})"
proof -
  have "ldb_get L db' = batch_apply (snd (queBatch_DelAll L h db [])) (ldb_get L db)"
    using ldb_get_write [OF assms(1)] assms(3) by (simp add: queBatch_Commit_def)
  then have e: "que_exact (ldb_get L db') (drop_height h m)"
    using queBatch_DelAll_drops [OF assms(1,2), of "[]" "ldb_get L db" h] assms(2) by simp
  then have "que_ok (ldb_get L db') (drop_height h m) {(h', n, t). \<exists>l. drop_height h m (n, t) = Some (h', l)}"
    by (simp only: que_exact_def)
  from que_GetAll_ok [OF assms(1) this] have
    "\<exists>items. que_GetAll L db' = Inr items \<and> set items = {que_view x a |x a. m x = Some a \<and> fst a \<noteq> h}" by simp
  with e show ?thesis unfolding drop_height_def by blast
qed

text \<open>Deleting an item after it has been notified once leaves its index entry behind; when
  the transaction is queued again at another height, rolling back the first height removes the
  new item although it is not at that height.\<close>

theorem que_Del_stale_index:
  assumes "leveldb_ok L" and "que_exact (ldb_get L db) m"
    and "que_Put L item db = (None, db1)"
    and "que_Del L (qiNotifyId item) (qiTxId item) db1 = (None, db2)"
    and "queBatch_Commit L (queBatch_Put (item\<lparr>qiHeight := h'\<rparr>) []) db2 = (None, db3)"
    and "queBatch_Commit L (snd (queBatch_DelAll L (qiHeight item) db3 [])) db3 = (None, db4)"
  shows "(\<exists>items. que_GetAll L db3 = Inr items \<and>
      item\<lparr>qiHeight := h', qiLastNotify := 0\<rparr> \<in> set items) \<and>
    (\<exists>items. que_GetAll L db4 = Inr items \<and>
      (\<forall>i \<in> set items. (qiNotifyId i, qiTxId i) \<noteq> (qiNotifyId item, qiTxId item)))"
proof -
  let ?n = "qiNotifyId item" and ?t = "qiTxId item" and ?h = "qiHeight item"
  define I where "I = {(h, n, t). \<exists>l. m (n, t) = Some (h, l)}"
  define m3 where "m3 = m((?n, ?t) \<mapsto> (h', None))"
  define I3 where "I3 = insert (h', ?n, ?t) (insert (?h, ?n, ?t) I)"
  have "que_ok (ldb_get L db) m I" using assms(2) by (simp add: que_exact_def I_def)
  note q1 = que_Put_ok [OF assms(1) this assms(3)]
  have "que_ok (ldb_get L db2) (m((?n, ?t) := None)) (insert (?h, ?n, ?t) I)"
    using que_Del_ok [OF assms(1) q1 _ assms(4)] by simp
  then have "que_ok (batch_apply (queBatch_Put (item\<lparr>qiHeight := h'\<rparr>) []) (ldb_get L db2)) m3 I3"
    using queBatch_Put_ok [of "[]" "ldb_get L db2" "m((?n, ?t) := None)" _ "item\<lparr>qiHeight := h'\<rparr>"]
    by (simp add: m3_def I3_def)
  moreover have "ldb_get L db3 = batch_apply (queBatch_Put (item\<lparr>qiHeight := h'\<rparr>) []) (ldb_get L db2)"
    using ldb_get_write [OF assms(1)] assms(5) by (simp add: queBatch_Commit_def)
  ultimately have q3: "que_ok (ldb_get L db3) m3 I3" by simp
  have "ldb_get L db4 = batch_apply (snd (queBatch_DelAll L ?h db3 [])) (ldb_get L db3)"
    using ldb_get_write [OF assms(1)] assms(6) by (simp add: queBatch_Commit_def)
  then have q4: "que_ok (ldb_get L db4) (\<lambda>(n, t). if (?h, n, t) \<in> I3 then None else m3 (n, t))
      {x \<in> I3. \<not> (fst x = ?h \<and> x \<in> I3)}"
    using queBatch_DelAll_ok [OF assms(1) q3, of "[]" "ldb_get L db3" m3 I3 ?h] q3 by simp
  have "item\<lparr>qiHeight := h', qiLastNotify := 0\<rparr> = que_view (?n, ?t) (h', None)" by (cases item) simp
  then have "item\<lparr>qiHeight := h', qiLastNotify := 0\<rparr> \<in> {que_view x a |x a. m3 x = Some a}"
    unfolding m3_def by (intro CollectI exI [of _ "(?n, ?t)"] exI [of _ "(h', None)"]) simp
  moreover have "(qiNotifyId i, qiTxId i) \<noteq> (?n, ?t)"
    if "i \<in> {que_view x a |x a. (\<lambda>(n, t). if (?h, n, t) \<in> I3 then None else m3 (n, t)) x = Some a}" for i
    using that by (auto simp: I3_def split: if_splits)
  ultimately show ?thesis
    using que_GetAll_ok [OF assms(1) q3] que_GetAll_ok [OF assms(1) q4] by (smt (verit, best))
qed

definition sample_item :: que_item where
  "sample_item = \<lparr>qiNotifyId = 1, qiTxId = 2, qiHeight = 7, qiLastNotify = 5\<rparr>"

lemma empty_que: "que_exact (ldb_get leveldb0 []) Map.empty"
  using empty_bucket_map [of BKTQue que_key "\<lambda>x. que_val"] empty_bucket_map [of BKTQueIdx idx_key "\<lambda>x a. []"]
  by (simp add: que_exact_def que_ok_def set_map_def)

lemma empty_que_ok: "que_ok (ldb_get leveldb0 []) Map.empty {}"
  using empty_bucket_map [of BKTQue que_key "\<lambda>x. que_val"] empty_bucket_map [of BKTQueIdx idx_key "\<lambda>x a. []"]
  by (simp add: que_ok_def set_map_def)

text \<open>An empty queue with one item put by a batch at height 7.\<close>

lemma one_item_que:
  obtains db where "queBatch_Commit leveldb0 (queBatch_Put sample_item []) [] = (None, db)"
    and "que_exact (ldb_get leveldb0 db) [(1, 2) \<mapsto> (7, None)]"
proof -
  obtain db where d: "queBatch_Commit leveldb0 (queBatch_Put sample_item []) [] = (None, db)"
    by (auto simp: queBatch_Commit_def leveldb0_def)
  then have g: "ldb_get leveldb0 db = batch_apply (queBatch_Put sample_item []) (ldb_get leveldb0 [])"
    using ldb_get_write [OF leveldb0_ok] by (simp add: queBatch_Commit_def)
  have "{(h, n, t). \<exists>l. [(1 :: uint256, 2 :: uint256) \<mapsto> (7 :: u32, None :: u64 option)] (n, t) = Some (h, l)} = {(7, 1, 2)}"
    by (auto split: if_splits)
  moreover have "que_ok (ldb_get leveldb0 db) [(1, 2) \<mapsto> (7, None)] {(7, 1, 2)}"
    using queBatch_Put_ok [of "[]" "ldb_get leveldb0 []" Map.empty "{}" sample_item] empty_que_ok
    unfolding g by (simp add: sample_item_def)
  ultimately have "que_exact (ldb_get leveldb0 db) [(1, 2) \<mapsto> (7, None)]" by (simp only: que_exact_def)
  with d that show thesis by blast
qed

theorem queBatch_DelAll_exact_witness:
  "\<exists>db db'. queBatch_Commit leveldb0 (queBatch_Put sample_item []) [] = (None, db) \<and>
     queBatch_Commit leveldb0 (snd (queBatch_DelAll leveldb0 7 db [])) db = (None, db') \<and>
     que_GetAll leveldb0 db' = Inr []"
proof -
  obtain db where d: "queBatch_Commit leveldb0 (queBatch_Put sample_item []) [] = (None, db)"
    and q: "que_exact (ldb_get leveldb0 db) [(1, 2) \<mapsto> (7, None)]"
    by (rule one_item_que)
  obtain db' where d': "queBatch_Commit leveldb0 (snd (queBatch_DelAll leveldb0 7 db [])) db = (None, db')"
    by (auto simp: queBatch_Commit_def leveldb0_def)
  from queBatch_DelAll_exact [OF leveldb0_ok q d'] obtain items
    where "que_GetAll leveldb0 db' = Inr items" "set items = {que_view x a |x a. [(1, 2) \<mapsto> (7, None)] x = Some a \<and> fst a \<noteq> 7}"
    by blast
  moreover from this(2) have "items = []" by (auto split: if_splits)
  ultimately show ?thesis using d d' by blast
qed

theorem que_Del_stale_index_witness:
  "\<exists>db1 db2 db3 db4. que_Put leveldb0 sample_item [] = (None, db1) \<and> que_Del leveldb0 1 2 db1 = (None, db2) \<and>
     queBatch_Commit leveldb0 (queBatch_Put (sample_item\<lparr>qiHeight := 9\<rparr>) []) db2 = (None, db3) \<and>
     queBatch_Commit leveldb0 (snd (queBatch_DelAll leveldb0 7 db3 [])) db3 = (None, db4) \<and>
     (\<exists>items. que_GetAll leveldb0 db3 = Inr items \<and> items \<noteq> []) \<and>
     (\<exists>items. que_GetAll leveldb0 db4 = Inr items \<and> (1, 2) \<notin> (\<lambda>i. (qiNotifyId i, qiTxId i)) ` set items)"
proof -
  obtain db1 where 1: "que_Put leveldb0 sample_item [] = (None, db1)"
    by (auto simp: que_Put_def Let_def leveldb0_def)
  note q = que_Put_ok [OF leveldb0_ok empty_que_ok 1]
  have "ldb_get leveldb0 db1 (toKey BKTQue (que_value 1 2)) = Inr (que_val (7, Some 5))"
    using que_map.map_look [of "ldb_get leveldb0 db1" "[(1, 2) \<mapsto> (7, Some 5)]" "(1, 2)" "que_val (7, Some 5)"] q
    by (simp add: que_ok_def sample_item_def)
  then obtain db2 where 2: "que_Del leveldb0 1 2 db1 = (None, db2)"
    by (auto simp: que_Del_def Let_def leveldb0_def)
  obtain db3 where 3: "queBatch_Commit leveldb0 (queBatch_Put (sample_item\<lparr>qiHeight := 9\<rparr>) []) db2 = (None, db3)"
    by (auto simp: queBatch_Commit_def leveldb0_def)
  obtain db4 where 4: "queBatch_Commit leveldb0 (snd (queBatch_DelAll leveldb0 7 db3 [])) db3 = (None, db4)"
    by (auto simp: queBatch_Commit_def leveldb0_def)
  have i: "qiNotifyId sample_item = 1" "qiTxId sample_item = 2" "qiHeight sample_item = 7"
    by (simp_all add: sample_item_def)
  have "(\<exists>items. que_GetAll leveldb0 db3 = Inr items \<and> sample_item\<lparr>qiHeight := 9, qiLastNotify := 0\<rparr> \<in> set items) \<and>
    (\<exists>items. que_GetAll leveldb0 db4 = Inr items \<and> (\<forall>i \<in> set items. (qiNotifyId i, qiTxId i) \<noteq> (1, 2)))"
    using que_Del_stale_index [OF leveldb0_ok empty_que 1, unfolded i, OF 2 3 4] .
  then have "\<exists>items. que_GetAll leveldb0 db3 = Inr items \<and> items \<noteq> []"
    and "\<exists>items. que_GetAll leveldb0 db4 = Inr items \<and> (1, 2) \<notin> (\<lambda>i. (qiNotifyId i, qiTxId i)) ` set items"
    by (metis list.set(1) empty_iff, metis (no_types, lifting) imageE)
  with 1 2 3 4 show ?thesis by blast
qed

end
