(* ===== verification/TxStore.thy ===== *)
theory TxStore
  imports QueStore
begin

text \<open>
  The store of the transactions (\<open>interface/store/txs.go\<close>, \<open>interface/store/txsbatch.go\<close>):
  transactions by hash, an index from heights to the hashes of their transactions, and the
  transactions of fork blocks by block hash. An index entry is a 16-bit count followed by the
  hashes; the offsets into it are computed in 16 bits, as the code does. \<open>txs_ok\<close> relates the
  contents of the database to a map of transactions and an index as a function.
\<close>

subsection \<open>Index entries\<close>

text \<open>Slicing past the capacity of \<open>data\<close> panics; an entry of one byte, which the code never
  writes, is taken to have no spare capacity.\<close>

definition putTxId :: "bytes \<Rightarrow> uint256 \<Rightarrow> goerror + bytes" where
  "putTxId data txId =
     (if length data = 1 then Inl (Panic ''slice bounds out of range'')
      else let count = (if length data = 0 then 0 else be_u16 (take 2 data));
               data = (if length data = 0 then data @ [0, 0] else data) @ hash_bytes txId
           in Inr (be_bytes2 (count + 1) @ drop 2 data))"

text \<open>\<open>copy(txId[:], data[i*32:(i+1)*32])\<close> with \<open>i\<close> of type \<open>uint16\<close>.\<close>

definition id_at :: "bytes \<Rightarrow> u16 \<Rightarrow> goerror + uint256" where
  "id_at data i =
     (let lo = unat (i * 32); hi = unat ((i + 1) * 32)
      in if lo \<le> hi \<and> hi \<le> length data then Inr (bytes_hash (drop lo (take hi data)))
         else Inl (Panic ''slice bounds out of range''))"

definition getTxIds :: "bytes \<Rightarrow> goerror + uint256 list" where
  "getTxIds data =
     (if length data = 0 then Inr []
      else if length data = 1 then Inl (Panic ''slice bounds out of range'')
      else let count = be_u16 (take 2 data); data = drop 2 data
           in iter_all (id_at data) (map word_of_nat [0..<unat count]))"

fun del_loop :: "bytes \<Rightarrow> uint256 \<Rightarrow> u16 list \<Rightarrow> goerror + bytes" where
  "del_loop data hash [] = Inr data"
| "del_loop data hash (i # is) =
     (case id_at data i of
        Inl e \<Rightarrow> Inl e
      | Inr txId \<Rightarrow>
          if txId = hash then Inr (take (unat (i * 32)) data @ drop (unat ((i + 1) * 32)) data)
          else del_loop data hash is)"

definition delTxId :: "bytes \<Rightarrow> uint256 \<Rightarrow> goerror + bytes" where
  "delTxId data hash =
     (if length data = 0 then Inr []
      else if length data = 1 then Inl (Panic ''slice bounds out of range'')
      else let count = be_u16 (take 2 data); data = drop 2 data
           in (case del_loop data hash (map word_of_nat [0..<unat count]) of
                 Inl e \<Rightarrow> Inl e
               | Inr data \<Rightarrow> Inr (be_bytes2 (count - 1) @ data)))"

subsection \<open>interface/store/txs.go\<close>

definition height_key :: "u32 \<Rightarrow> bytes" where
  "height_key height = toKey BKTHeightTxs (be_bytes4 height)"

text \<open>\<open>data, _ := db.Get(key)\<close>: an error leaves the data empty.\<close>

definition get_or_empty :: "'d leveldb \<Rightarrow> 'd \<Rightarrow> bytes \<Rightarrow> bytes" where
  "get_or_empty L db k = (case ldb_get L db k of Inl e \<Rightarrow> [] | Inr v \<Rightarrow> v)"

definition txs_Put :: "codec \<Rightarrow> 'd leveldb \<Rightarrow> utiltx \<Rightarrow> 'd \<Rightarrow> goerror option \<times> 'd" where
  "txs_Put E L t db =
     (case putTxId (get_or_empty L db (height_key (utxHeight t))) (utxHash t) of
        Inl e \<Rightarrow> (Some e, db)
      | Inr ids \<Rightarrow>
          ldb_write L db
            [BPut (toKey BKTTxs (hash_bytes (utxHash t))) (utx_Serialize E t), BPut (height_key (utxHeight t)) ids])"

definition txs_Get :: "codec \<Rightarrow> 'd leveldb \<Rightarrow> uint256 \<Rightarrow> 'd \<Rightarrow> goerror + utiltx" where
  "txs_Get E L hash db =
     (case ldb_get L db (toKey BKTTxs (hash_bytes hash)) of
        Inl e \<Rightarrow> Inl e
      | Inr data \<Rightarrow> (case utx_Deserialize E data of Inl e \<Rightarrow> Inl e | Inr (t, _) \<Rightarrow> Inr t))"

definition txs_GetIds :: "'d leveldb \<Rightarrow> u32 \<Rightarrow> 'd \<Rightarrow> goerror + uint256 list" where
  "txs_GetIds L height db = getTxIds (get_or_empty L db (height_key height))"

definition txs_PutForkTxs :: "codec \<Rightarrow> 'd leveldb \<Rightarrow> utiltx list \<Rightarrow> uint256 \<Rightarrow> 'd \<Rightarrow> goerror option \<times> 'd" where
  "txs_PutForkTxs E L txs hash db =
     ldb_put L db (toKey BKTForkTxs (hash_bytes hash))
       (wU16 E (word_of_nat (length txs)) @ concat (map (utx_Serialize E) txs))"

definition txs_GetForkTxs :: "codec \<Rightarrow> 'd leveldb \<Rightarrow> uint256 \<Rightarrow> 'd \<Rightarrow> goerror + utiltx list" where
  "txs_GetForkTxs E L hash db =
     (case ldb_get L db (toKey BKTForkTxs (hash_bytes hash)) of
        Inl e \<Rightarrow> Inl e
      | Inr data \<Rightarrow>
     (case rU16 E data of
        Inl e \<Rightarrow> Inl e
      | Inr (count, buf) \<Rightarrow>
     (case read_list (utx_Deserialize E) (unat count) buf of
        Inl e \<Rightarrow> Inl e
      | Inr (txs, _) \<Rightarrow> Inr txs)))"

definition txs_entry :: "codec \<Rightarrow> bytes \<times> bytes \<Rightarrow> goerror + utiltx" where
  "txs_entry E kv = (case utx_Deserialize E (snd kv) of Inl e \<Rightarrow> Inl e | Inr (t, _) \<Rightarrow> Inr t)"

definition txs_GetAll :: "codec \<Rightarrow> 'd leveldb \<Rightarrow> 'd \<Rightarrow> goerror + utiltx list" where
  "txs_GetAll E L db = iter_all (txs_entry E) (ldb_iter L db BKTTxs)"

definition txs_Del :: "codec \<Rightarrow> 'd leveldb \<Rightarrow> uint256 \<Rightarrow> 'd \<Rightarrow> goerror option \<times> 'd" where
  "txs_Del E L txId db =
     (case ldb_get L db (toKey BKTTxs (hash_bytes txId)) of
        Inl e \<Rightarrow> (Some e, db)
      | Inr data \<Rightarrow>
     (case utx_Deserialize E data of
        Inl e \<Rightarrow> (Some e, db)
      | Inr (t, _) \<Rightarrow>
     (case delTxId (get_or_empty L db (height_key (utxHeight t))) (utxHash t) of
        Inl e \<Rightarrow> (Some e, db)
      | Inr ids \<Rightarrow>
          ldb_write L db [BDel (toKey BKTTxs (hash_bytes txId)), BPut (height_key (utxHeight t)) ids])))"

definition txs_Clear :: "'d leveldb \<Rightarrow> 'd \<Rightarrow> goerror option \<times> 'd" where
  "txs_Clear L db = ldb_write L db (bucket_deletes L BKTTxs db @ bucket_deletes L BKTHeightTxs db)"

subsection \<open>interface/store/txsbatch.go\<close>

record txs_batch =
  tbBatch :: batch
  tbAddTxs :: "utiltx list"
  tbDelTxs :: "utiltx list"

definition txsBatch_Put :: "codec \<Rightarrow> utiltx \<Rightarrow> txs_batch \<Rightarrow> txs_batch" where
  "txsBatch_Put E t b =
     b\<lparr>tbBatch := tbBatch b @ [BPut (toKey BKTTxs (hash_bytes (utxHash t))) (utx_Serialize E t)],
       tbAddTxs := tbAddTxs b @ [t]\<rparr>"

definition txsBatch_Del :: "codec \<Rightarrow> 'd leveldb \<Rightarrow> uint256 \<Rightarrow> 'd \<Rightarrow> txs_batch \<Rightarrow> goerror option \<times> txs_batch" where
  "txsBatch_Del E L txId db b =
     (case ldb_get L db (toKey BKTTxs (hash_bytes txId)) of
        Inl e \<Rightarrow> (Some e, b)
      | Inr data \<Rightarrow>
     (case utx_Deserialize E data of
        Inl e \<Rightarrow> (Some e, b)
      | Inr (t, _) \<Rightarrow>
          (None, b\<lparr>tbBatch := tbBatch b @ [BDel (toKey BKTTxs (hash_bytes txId))], tbDelTxs := tbDelTxs b @ [t]\<rparr>)))"

definition txsBatch_DelAll :: "'d leveldb \<Rightarrow> u32 \<Rightarrow> 'd \<Rightarrow> txs_batch \<Rightarrow> goerror option \<times> txs_batch" where
  "txsBatch_DelAll L height db b =
     (case getTxIds (get_or_empty L db (height_key height)) of
        Inl e \<Rightarrow> (Some e, b)
      | Inr ids \<Rightarrow>
          (None, b\<lparr>tbBatch := tbBatch b @ map (\<lambda>txID. BDel (toKey BKTTxs (hash_bytes txID))) ids @ [BDel (height_key height)]\<rparr>))"

definition txsBatch_Rollback :: "txs_batch \<Rightarrow> txs_batch" where
  "txsBatch_Rollback b = b\<lparr>tbBatch := []\<rparr>"

text \<open>The groups by height: a transaction whose height has a group already goes to a local
  variable only.\<close>

definition groupByHeight :: "utiltx list \<Rightarrow> (u32 \<rightharpoonup> utiltx list)" where
  "groupByHeight txs =
     fold (\<lambda>t g. case g (utxHeight t) of None \<Rightarrow> g(utxHeight t \<mapsto> [t]) | Some grp \<Rightarrow> g) txs Map.empty"

fun fold_ids :: "(bytes \<Rightarrow> uint256 \<Rightarrow> goerror + bytes) \<Rightarrow> utiltx list \<Rightarrow> bytes \<Rightarrow> goerror + bytes" where
  "fold_ids f [] data = Inr data"
| "fold_ids f (t # ts) data = (case f data (utxHash t) of Inl e \<Rightarrow> Inl e | Inr data \<Rightarrow> fold_ids f ts data)"

text \<open>The loop over the groups; Go visits them in an unspecified order, the model in the order
  of their first transactions (their keys differ).\<close>

fun index_loop ::
  "'d leveldb \<Rightarrow> 'd \<Rightarrow> (bytes \<Rightarrow> uint256 \<Rightarrow> goerror + bytes) \<Rightarrow> (bytes \<Rightarrow> bytes \<Rightarrow> batch_op) \<Rightarrow>
   (u32 \<rightharpoonup> utiltx list) \<Rightarrow> u32 list \<Rightarrow> batch \<Rightarrow> goerror + batch" where
  "index_loop L db f op g [] b = Inr b"
| "index_loop L db f op g (h # hs) b =
     (case fold_ids f (case g h of None \<Rightarrow> [] | Some txs \<Rightarrow> txs) (get_or_empty L db (height_key h)) of
        Inl e \<Rightarrow> Inl e
      | Inr data \<Rightarrow> index_loop L db f op g hs (b @ [op (height_key h) data]))"

definition txsBatch_Commit :: "'d leveldb \<Rightarrow> txs_batch \<Rightarrow> 'd \<Rightarrow> goerror option \<times> 'd" where
  "txsBatch_Commit L b db =
     (case index_loop L db putTxId BPut (groupByHeight (tbAddTxs b)) (remdups (map utxHeight (tbAddTxs b))) (tbBatch b) of
        Inl e \<Rightarrow> (Some e, db)
      | Inr bat \<Rightarrow>
     (case index_loop L db delTxId (\<lambda>k data. BDel k) (groupByHeight (tbDelTxs b)) (remdups (map utxHeight (tbDelTxs b))) bat of
        Inl e \<Rightarrow> (Some e, db)
      | Inr bat \<Rightarrow> ldb_write L db bat))"

subsection \<open>Lists of hashes as index entries\<close>

definition enc_ids :: "uint256 list \<Rightarrow> bytes" where
  "enc_ids ids = be_bytes2 (word_of_nat (length ids)) @ concat (map hash_bytes ids)"

definition ids_at :: "bytes \<Rightarrow> uint256 list \<Rightarrow> bool" where
  "ids_at data ids \<longleftrightarrow> data = enc_ids ids \<or> data = [] \<and> ids = []"

lemma length_enc_ids: "length (enc_ids ids) = 2 + 32 * length ids"
  by (induction ids) (auto simp: enc_ids_def)

lemma enc_ids_nonempty [simp]: "enc_ids ids \<noteq> []" "[] \<noteq> enc_ids ids"
  using length_enc_ids [of ids] by (metis add_eq_0_iff_both_eq_0 list.size(3) numeral_eq_iff zero_neq_numeral)+

lemma drop_enc_ids [simp]: "drop 2 (enc_ids ids) = concat (map hash_bytes ids)"
  by (simp add: enc_ids_def)

lemma be_u16_enc_ids: "be_u16 (take 2 (enc_ids ids)) = word_of_nat (length ids)"
  by (simp add: enc_ids_def)

lemma putTxId_ids:
  assumes "ids_at data ids"
  shows "putTxId data txId = Inr (enc_ids (ids @ [txId]))"
proof (cases "data = []")
  case True
  with assms have "ids = []" using length_enc_ids [of ids] by (auto simp: ids_at_def)
  with True show ?thesis by (simp add: putTxId_def enc_ids_def)
next
  case False
  with assms have d: "data = enc_ids ids" by (auto simp: ids_at_def)
  then have "2 \<le> length data" by (simp add: length_enc_ids)
  with False show ?thesis
    unfolding putTxId_def d by (simp add: be_u16_enc_ids add.commute) (simp add: enc_ids_def)
qed

lemma drop_concat_ids: "drop (32 * n) (concat (map hash_bytes ids)) = concat (map hash_bytes (drop n ids))"
proof (induction ids arbitrary: n)
  case Nil
  then show ?case by simp
next
  case (Cons x ids)
  show ?case
  proof (cases n)
    case (Suc m)
    with Cons.IH [of m] show ?thesis by (simp add: drop_append)
  qed simp
qed

lemma length_concat_ids: "length (concat (map hash_bytes ids)) = 32 * length ids"
  by (induction ids) auto

lemma id_at_ids:
  assumes "i < length ids" and "i < 2047"
  shows "id_at (concat (map hash_bytes ids)) (word_of_nat i) = Inr (ids ! i)"
proof -
  have i: "unat (word_of_nat i * 32 :: u16) = 32 * i" "unat ((word_of_nat i + 1) * 32 :: u16) = 32 * i + 32"
    using assms(2) by (simp_all add: unat_word_ariths unat_of_nat)
  have "drop (32 * i) (take (32 * i + 32) (concat (map hash_bytes ids))) = take 32 (concat (map hash_bytes (drop i ids)))"
    by (simp add: drop_take drop_concat_ids)
  also have "\<dots> = hash_bytes (ids ! i)"
    using assms(1) by (simp add: Cons_nth_drop_Suc [symmetric])
  finally show ?thesis
    unfolding id_at_def i Let_def length_concat_ids using assms(1) by simp
qed

lemma id_at_wraps: "id_at data (word_of_nat 2047) = Inl (Panic ''slice bounds out of range'')"
  by (simp add: id_at_def)

lemma count_ids: "length ids < 65536 \<Longrightarrow> unat (word_of_nat (length ids) :: u16) = length ids"
  by (rule unat_of_nat_small) simp

lemma getTxIds_enc: "getTxIds (enc_ids ids) = iter_all (id_at (concat (map hash_bytes ids)))
    (map word_of_nat [0..<unat (word_of_nat (length ids) :: u16)])"
  using length_enc_ids [of ids] by (simp add: getTxIds_def be_u16_enc_ids)

lemma getTxIds_ids:
  assumes "ids_at data ids" and "length ids \<le> 2047"
  shows "getTxIds data = Inr ids"
proof (cases "data = []")
  case True
  with assms(1) show ?thesis using length_enc_ids [of ids] by (auto simp: ids_at_def getTxIds_def)
next
  case False
  with assms(1) have d: "data = enc_ids ids" by (simp add: ids_at_def)
  have "iter_all (id_at (concat (map hash_bytes ids))) (map word_of_nat [0..<length ids]) =
      Inr (map (\<lambda>w. ids ! unat w) (map (word_of_nat :: _ \<Rightarrow> u16) [0..<length ids]))"
    using assms(2) by (intro iter_all_map) (auto simp: id_at_ids unat_of_nat_small)
  also have "map (\<lambda>w. ids ! unat w) (map (word_of_nat :: _ \<Rightarrow> u16) [0..<length ids]) = map (\<lambda>i. ids ! i) [0..<length ids]"
    using assms(2) by (simp add: comp_def unat_of_nat_small)
  finally show ?thesis
    using assms(2) unfolding d getTxIds_enc by (simp add: count_ids map_nth)
qed

lemma iter_all_error: "x \<in> set xs \<Longrightarrow> f x = Inl e \<Longrightarrow> \<exists>e. iter_all f xs = Inl e"
  by (induction xs) (auto split: sum.split)

lemma iter_all_first_error:
  "iter_all f xs = Inr ys \<Longrightarrow> f x = Inl e \<Longrightarrow> iter_all f (xs @ x # zs) = Inl e"
  by (induction xs arbitrary: ys) (auto split: sum.splits)

lemma getTxIds_panics:
  assumes "2048 \<le> length ids" and "length ids < 65536"
  shows "getTxIds (enc_ids ids) = Inl (Panic ''slice bounds out of range'')"
proof -
  let ?data = "concat (map hash_bytes ids)"
  have "[0..<length ids] = [0..<2047] @ 2047 # [2048..<length ids]"
    using assms(1) upt_add_eq_append [of 0 2047 "length ids - 2047"] upt_conv_Cons [of 2047 "length ids"] by simp
  moreover have "iter_all (id_at ?data) (map word_of_nat [0..<2047]) = Inr (map (\<lambda>w. ids ! unat w) (map (word_of_nat :: _ \<Rightarrow> u16) [0..<2047]))"
    using assms(1) by (intro iter_all_map) (auto simp: id_at_ids unat_of_nat_small)
  ultimately show ?thesis
    unfolding getTxIds_enc count_ids [OF assms(2)]
    using iter_all_first_error [of "id_at ?data" _ _ "word_of_nat 2047", OF _ id_at_wraps] by (simp del: of_nat_numeral)
qed

lemma del_loop_ids:
  assumes "length ids \<le> 2047" and "j \<le> length ids" and "hash \<notin> set (take j ids)"
  shows "del_loop (concat (map hash_bytes ids)) hash (map word_of_nat [j..<length ids]) = Inr (concat (map hash_bytes (remove1 hash ids)))"
  using assms(2,3)
proof (induction "length ids - j" arbitrary: j)
  case 0
  then have "j = length ids" and "hash \<notin> set ids" by simp_all
  then show ?case by (simp add: remove1_idem)
next
  case (Suc n)
  then have j: "j < length ids" by simp
  then have u: "[j..<length ids] = j # [Suc j..<length ids]" by (simp add: upt_conv_Cons)
  have at: "id_at (concat (map hash_bytes ids)) (word_of_nat j) = Inr (ids ! j)"
    using j assms(1) by (intro id_at_ids) simp_all
  have w: "unat (word_of_nat j * 32 :: u16) = 32 * j" "unat ((word_of_nat j + 1) * 32 :: u16) = 32 * Suc j"
    using j assms(1) by (simp_all add: unat_word_ariths unat_of_nat)
  show ?case
  proof (cases "ids ! j = hash")
    case True
    have s: "ids = take j ids @ hash # drop (Suc j) ids" using j True id_take_nth_drop by blast
    have "remove1 hash ids = remove1 hash (take j ids @ hash # drop (Suc j) ids)" by (subst s) (rule refl)
    also have "\<dots> = take j ids @ drop (Suc j) ids" using Suc.prems(2) by (simp add: remove1_append)
    finally have r: "remove1 hash ids = take j ids @ drop (Suc j) ids" .
    have "take (32 * j) (concat (map hash_bytes ids)) = concat (map hash_bytes (take j ids))"
    proof -
      have "concat (map hash_bytes ids) = concat (map hash_bytes (take j ids)) @ concat (map hash_bytes (drop j ids))"
        by (metis append_take_drop_id concat_append map_append)
      then show ?thesis using j by (simp add: length_concat_ids)
    qed
    with True show ?thesis
      unfolding u list.map del_loop.simps at sum.case w by (simp add: r drop_concat_ids del: mult_Suc_right)
  next
    case False
    with j have "hash \<notin> set (take (Suc j) ids)" using Suc.prems(2) by (simp add: take_Suc_conv_app_nth)
    with Suc.hyps(1) [of "Suc j"] Suc.hyps(2) j False show ?thesis
      unfolding u list.map del_loop.simps at sum.case by simp
  qed
qed

lemma delTxId_ids:
  assumes "ids_at data ids" and "length ids \<le> 2047" and "hash \<in> set ids"
  shows "delTxId data hash = Inr (enc_ids (remove1 hash ids))"
proof -
  have "data \<noteq> []" and d: "data = enc_ids ids" using assms(1,3) by (auto simp: ids_at_def)
  have n: "unat (word_of_nat (length ids) :: u16) = length ids" using assms(2) by (intro count_ids) simp
  have "word_of_nat (length ids) - 1 = (word_of_nat (length (remove1 hash ids)) :: u16)"
  proof -
    have "length ids = Suc (length (remove1 hash ids))"
      using assms(3) by (simp add: length_remove1) (metis Suc_pred length_pos_if_in_set)
    then show ?thesis by simp
  qed
  then show ?thesis
    using del_loop_ids [OF assms(2), of 0 hash] length_enc_ids [of ids]
    unfolding delTxId_def d by (simp add: be_u16_enc_ids n) (simp add: enc_ids_def)
qed

subsection \<open>The store as a map with an index\<close>

definition tx_fits :: "codec \<Rightarrow> utiltx \<Rightarrow> bool" where
  "tx_fits E t \<longleftrightarrow> length (utxRawData t) \<le> unat (MaxBlockContextSize E)"

interpretation txs_map: map_bucket BKTTxs hash_bytes "\<lambda>h. utx_Serialize E" "txs_entry E" "\<lambda>h t. t" "\<lambda>h t. tx_fits E t" "codec_ok E"
  for E
  by unfold_locales (auto simp: txs_entry_def tx_fits_def)

interpretation height_idx: map_bucket BKTHeightTxs be_bytes4 "\<lambda>h data. data" "\<lambda>kv. Inr (snd kv)" "\<lambda>h data. data" "\<lambda>h data. True" True
  by unfold_locales auto

definition txs_ok :: "codec \<Rightarrow> contents \<Rightarrow> (uint256 \<rightharpoonup> utiltx) \<Rightarrow> (u32 \<Rightarrow> uint256 list) \<Rightarrow> bool" where
  "txs_ok E f M I \<longleftrightarrow> bucket_map f BKTTxs hash_bytes (\<lambda>h. utx_Serialize E) M \<and>
     (\<forall>h t. M h = Some t \<longrightarrow> utxHash t = h \<and> tx_fits E t) \<and>
     (\<forall>h. ids_at (case f (height_key h) of Inl e \<Rightarrow> [] | Inr v \<Rightarrow> v) (I h))"

lemma txs_keys [simp]:
  "\<not> prefix BKTTxs (height_key h)" "height_key h \<noteq> toKey BKTTxs k" "toKey BKTTxs k \<noteq> height_key h"
  "height_key h = height_key h' \<longleftrightarrow> h = h'"
  by (simp_all add: height_key_def) (simp_all add: toKey_def bkt_simps str_bytes_def)

lemma txs_ok_at: "txs_ok E (ldb_get L db) M I \<Longrightarrow> ids_at (get_or_empty L db (height_key h)) (I h)"
  by (simp add: txs_ok_def get_or_empty_def)

lemma txs_Get_ok:
  assumes E: "codec_ok E" and h: "txs_ok E (ldb_get L db) M I"
  shows "M h = Some t \<Longrightarrow> txs_Get E L h db = Inr t" and "M h = None \<Longrightarrow> \<exists>e. txs_Get E L h db = Inl e"
proof -
  have m: "bucket_map (ldb_get L db) BKTTxs hash_bytes (\<lambda>h. utx_Serialize E) M" using h by (simp add: txs_ok_def)
  show "txs_Get E L h db = Inr t" if "M h = Some t"
    using txs_map.map_look [OF E m, of h "utx_Serialize E t"] that h E
    by (simp add: txs_Get_def txs_ok_def tx_fits_def)
  show "\<exists>e. txs_Get E L h db = Inl e" if "M h = None"
    using txs_map.map_look [OF E m, of h] that by (cases "ldb_get L db (toKey BKTTxs (hash_bytes h))") (auto simp: txs_Get_def)
qed

lemma txs_Put_ok:
  assumes E: "codec_ok E" and L: "leveldb_ok L" and h: "txs_ok E (ldb_get L db) M I" and t: "tx_fits E t"
    and p: "txs_Put E L t db = (None, db')"
  shows "txs_ok E (ldb_get L db') (M(utxHash t \<mapsto> t)) (I(utxHeight t := I (utxHeight t) @ [utxHash t]))"
proof -
  let ?a = "BPut (toKey BKTTxs (hash_bytes (utxHash t))) (utx_Serialize E t)"
  let ?b = "BPut (height_key (utxHeight t)) (enc_ids (I (utxHeight t) @ [utxHash t]))"
  have "ldb_write L db [?a, ?b] = (None, db')"
    using p putTxId_ids [OF txs_ok_at [OF h]] by (simp add: txs_Put_def)
  then have g: "ldb_get L db' = op_apply ?b (op_apply ?a (ldb_get L db))" using ldb_get_write [OF L] by simp
  have "bucket_map (ldb_get L db') BKTTxs hash_bytes (\<lambda>h. utx_Serialize E) (M(utxHash t \<mapsto> t))"
    unfolding g using h by (intro bucket_map_other txs_map.map_put [OF E]) (simp_all add: txs_ok_def)
  moreover have "ids_at (enc_ids ids) ids" for ids by (simp add: ids_at_def)
  ultimately show ?thesis using h t unfolding txs_ok_def g by simp
qed

lemma txs_Del_ok:
  assumes E: "codec_ok E" and L: "leveldb_ok L" and h: "txs_ok E (ldb_get L db) M I"
    and t: "M txId = Some t" "txId \<in> set (I (utxHeight t))" "length (I (utxHeight t)) \<le> 2047"
    and p: "txs_Del E L txId db = (None, db')"
  shows "txs_ok E (ldb_get L db') (M(txId := None)) (I(utxHeight t := remove1 txId (I (utxHeight t))))"
proof -
  let ?a = "BDel (toKey BKTTxs (hash_bytes txId))"
  let ?b = "BPut (height_key (utxHeight t)) (enc_ids (remove1 txId (I (utxHeight t))))"
  have u: "utxHash t = txId" "tx_fits E t" using h t(1) by (auto simp: txs_ok_def)
  have m: "bucket_map (ldb_get L db) BKTTxs hash_bytes (\<lambda>h. utx_Serialize E) M" using h by (simp add: txs_ok_def)
  have "ldb_write L db [?a, ?b] = (None, db')"
    using p txs_map.map_look [OF E m, of txId "utx_Serialize E t"] t u E delTxId_ids [OF txs_ok_at [OF h] t(3,2)]
    by (simp add: txs_Del_def tx_fits_def)
  then have g: "ldb_get L db' = op_apply ?b (op_apply ?a (ldb_get L db))" using ldb_get_write [OF L] by simp
  have "bucket_map (ldb_get L db') BKTTxs hash_bytes (\<lambda>h. utx_Serialize E) (M(txId := None))"
    unfolding g by (intro bucket_map_other txs_map.map_del [OF E m]) simp
  moreover have "ids_at (enc_ids ids) ids" for ids by (simp add: ids_at_def)
  ultimately show ?thesis using h unfolding txs_ok_def g by simp
qed

subsection \<open>Properties\<close>

text \<open>C11: A transaction that was put is found by its hash and its hash is appended to the list of
  its height, as long as the height has at most 2046 transactions before; a height with more is
  no longer readable, because the offset of the 2048th hash wraps around in 16 bits and the
  slice panics.\<close>

theorem txs_Put_GetIds:
  assumes "codec_ok E" and "leveldb_ok L" and "txs_ok E (ldb_get L db) M I" and "tx_fits E t"
    and "txs_Put E L t db = (None, db')"
  shows "txs_ok E (ldb_get L db') (M(utxHash t \<mapsto> t)) (I(utxHeight t := I (utxHeight t) @ [utxHash t])) \<and>
    txs_Get E L (utxHash t) db' = Inr t \<and>
    (length (I (utxHeight t)) < 2047 \<longrightarrow> txs_GetIds L (utxHeight t) db' = Inr (I (utxHeight t) @ [utxHash t])) \<and>
    (2047 \<le> length (I (utxHeight t)) \<and> length (I (utxHeight t)) < 65535 \<longrightarrow>
      txs_GetIds L (utxHeight t) db' = Inl (Panic ''slice bounds out of range''))"
proof -
  let ?I = "I(utxHeight t := I (utxHeight t) @ [utxHash t])"
  note k = txs_Put_ok [OF assms]
  have a: "ids_at (get_or_empty L db' (height_key (utxHeight t))) (I (utxHeight t) @ [utxHash t])"
    using txs_ok_at [OF k, of "utxHeight t"] by simp
  then have "get_or_empty L db' (height_key (utxHeight t)) = enc_ids (I (utxHeight t) @ [utxHash t])"
    by (simp add: ids_at_def)
  then show ?thesis
    using k txs_Get_ok(1) [OF assms(1) k, of "utxHash t" t] getTxIds_ids [OF a]
      getTxIds_panics [of "I (utxHeight t) @ [utxHash t]"]
    by (simp add: txs_GetIds_def)
qed

text \<open>Deleting a transaction of a height with at most 2047 transactions removes it and its
  hash and nothing else.\<close>

theorem txs_Del_GetIds:
  assumes "codec_ok E" and "leveldb_ok L" and "txs_ok E (ldb_get L db) M I"
    and "M txId = Some t" and "txId \<in> set (I (utxHeight t))" and "length (I (utxHeight t)) \<le> 2047"
    and "txs_Del E L txId db = (None, db')"
  shows "txs_ok E (ldb_get L db') (M(txId := None)) (I(utxHeight t := remove1 txId (I (utxHeight t)))) \<and>
    (\<exists>e. txs_Get E L txId db' = Inl e) \<and>
    txs_GetIds L (utxHeight t) db' = Inr (remove1 txId (I (utxHeight t)))"
proof -
  note k = txs_Del_ok [OF assms]
  have a: "ids_at (get_or_empty L db' (height_key (utxHeight t))) (remove1 txId (I (utxHeight t)))"
    using txs_ok_at [OF k, of "utxHeight t"] by simp
  have "length (remove1 txId (I (utxHeight t))) \<le> 2047"
    using assms(6) by (simp add: length_remove1 le_diff_conv)
  with k txs_Get_ok(2) [OF assms(1) k, of txId] getTxIds_ids [OF a] show ?thesis
    by (simp add: txs_GetIds_def)
qed

text \<open>The transactions of a fork block are read back as they were put, when there are fewer
  than 65536 of them.\<close>

theorem txs_fork_roundtrip:
  assumes "codec_ok E" and "leveldb_ok L" and "\<forall>t \<in> set ts. tx_fits E t" and "length ts < 65536"
    and "txs_PutForkTxs E L ts hash db = (None, db')"
  shows "txs_GetForkTxs E L hash db' = Inr ts"
proof -
  have n: "unat (word_of_nat (length ts) :: u16) = length ts" using assms(4) by (intro unat_of_nat_small) simp
  have r: "read_list (utx_Deserialize E) (length ts) (concat (map (utx_Serialize E) ts) @ []) = Inr (ts, [])"
    using assms(1,3) by (intro read_list_written_on) (auto simp: tx_fits_def)
  have "ldb_get L db' = (ldb_get L db)(toKey BKTForkTxs (hash_bytes hash) :=
      Inr (wU16 E (word_of_nat (length ts)) @ concat (map (utx_Serialize E) ts)))"
    using assms(5) unfolding txs_PutForkTxs_def by (rule ldb_get_put [OF assms(2)])
  with n r show ?thesis by (simp add: txs_GetForkTxs_def codec_simps assms(1))
qed

lemma groupByHeight_same:
  assumes "\<forall>t \<in> set (t # ts). utxHeight t = h"
  shows "groupByHeight (t # ts) = [h \<mapsto> [t]]"
proof -
  let ?f = "\<lambda>t g. case g (utxHeight t) of None \<Rightarrow> g(utxHeight t \<mapsto> [t]) | Some grp \<Rightarrow> g"
  have "fold ?f ts [h \<mapsto> [t]] = [h \<mapsto> [t]]" using assms by (induction ts) auto
  then show ?thesis using assms by (simp add: groupByHeight_def)
qed

lemma remdups_replicate_Suc: "remdups (replicate (Suc n) h) = [h]"
  by (induction n) simp_all

lemma remdups_same: "xs \<noteq> [] \<Longrightarrow> \<forall>x \<in> set xs. x = h \<Longrightarrow> remdups xs = [h]"
  by (metis length_0_conv not0_implies_Suc remdups_replicate_Suc replicate_length_same)

lemma txsBatch_Puts:
  "tbBatch (fold (txsBatch_Put E) ts b) =
     tbBatch b @ map (\<lambda>t. BPut (toKey BKTTxs (hash_bytes (utxHash t))) (utx_Serialize E t)) ts"
  "tbAddTxs (fold (txsBatch_Put E) ts b) = tbAddTxs b @ ts"
  "tbDelTxs (fold (txsBatch_Put E) ts b) = tbDelTxs b"
  by (induction ts arbitrary: b) (auto simp: txsBatch_Put_def)

lemma txs_puts_map:
  "codec_ok E \<Longrightarrow> bucket_map f BKTTxs hash_bytes (\<lambda>h. utx_Serialize E) M \<Longrightarrow>
   bucket_map (batch_apply (map (\<lambda>t. BPut (toKey BKTTxs (hash_bytes (utxHash t))) (utx_Serialize E t)) ts) f)
     BKTTxs hash_bytes (\<lambda>h. utx_Serialize E) (fold (\<lambda>t M. M(utxHash t \<mapsto> t)) ts M)"
  by (induction ts arbitrary: f M) (simp_all add: txs_map.map_put)

definition keyed :: "codec \<Rightarrow> (uint256 \<rightharpoonup> utiltx) \<Rightarrow> bool" where
  "keyed E M \<longleftrightarrow> (\<forall>h t. M h = Some t \<longrightarrow> utxHash t = h \<and> tx_fits E t)"

lemma keyed_fold: "keyed E M \<Longrightarrow> \<forall>t \<in> set ts. tx_fits E t \<Longrightarrow> keyed E (fold (\<lambda>t M. M(utxHash t \<mapsto> t)) ts M)"
proof (induction ts arbitrary: M)
  case Nil
  then show ?case by simp
next
  case (Cons x ts)
  have "keyed E (M(utxHash x \<mapsto> x))" using Cons.prems by (simp add: keyed_def)
  from Cons.IH [OF this] Cons.prems(2) show ?case by simp
qed

text \<open>A committed batch stores every transaction it was given, but when they all have the
  same height, as those of a block do, only the first of them enters the index of the height.\<close>

theorem txsBatch_Commit_first_only:
  assumes "codec_ok E" and "leveldb_ok L" and "txs_ok E (ldb_get L db) M I"
    and "\<forall>x \<in> set (t # ts). tx_fits E x \<and> utxHeight x = h"
    and "txsBatch_Commit L (fold (txsBatch_Put E) (t # ts) \<lparr>tbBatch = [], tbAddTxs = [], tbDelTxs = []\<rparr>) db = (None, db')"
  shows "txs_ok E (ldb_get L db') (fold (\<lambda>x M. M(utxHash x \<mapsto> x)) (t # ts) M) (I(h := I h @ [utxHash t]))"
proof -
  let ?b = "fold (txsBatch_Put E) (t # ts) \<lparr>tbBatch = [], tbAddTxs = [], tbDelTxs = []\<rparr>"
  let ?puts = "map (\<lambda>t. BPut (toKey BKTTxs (hash_bytes (utxHash t))) (utx_Serialize E t)) (t # ts)"
  let ?ix = "BPut (height_key h) (enc_ids (I h @ [utxHash t]))"
  have tb: "tbBatch ?b = ?puts" "tbAddTxs ?b = t # ts" "tbDelTxs ?b = []" by (simp_all only: txsBatch_Puts) simp_all
  have g: "groupByHeight (t # ts) = [h \<mapsto> [t]]" using assms(4) by (intro groupByHeight_same) simp
  have hs: "remdups (map utxHeight (t # ts)) = [h]" using assms(4) by (intro remdups_same) auto
  have "ldb_write L db (?puts @ [?ix]) = (None, db')"
    using assms(5) putTxId_ids [OF txs_ok_at [OF assms(3)], of h]
    unfolding txsBatch_Commit_def tb g hs by (simp split: sum.splits)
  then have d: "ldb_get L db' = op_apply ?ix (batch_apply ?puts (ldb_get L db))"
    using ldb_get_write [OF assms(2)] by simp
  have m: "bucket_map (ldb_get L db') BKTTxs hash_bytes (\<lambda>h. utx_Serialize E) (fold (\<lambda>x M. M(utxHash x \<mapsto> x)) (t # ts) M)"
    unfolding d using assms(3) by (intro bucket_map_other txs_puts_map [OF assms(1)]) (simp_all add: txs_ok_def)
  have o: "batch_apply ?puts (ldb_get L db) (height_key h') = ldb_get L db (height_key h')" for h'
    by (rule batch_apply_other) (simp add: image_iff)
  have "ids_at (case ldb_get L db' (height_key h') of Inl e \<Rightarrow> [] | Inr v \<Rightarrow> v) ((I(h := I h @ [utxHash t])) h')" for h'
  proof -
    have "ldb_get L db' (height_key h') = (if h' = h then Inr (enc_ids (I h @ [utxHash t])) else ldb_get L db (height_key h'))"
      unfolding d op_apply.simps o by simp
    then show ?thesis using txs_ok_at [OF assms(3), of h'] by (simp add: get_or_empty_def) (simp add: ids_at_def)
  qed
  moreover have "keyed E (fold (\<lambda>x M. M(utxHash x \<mapsto> x)) (t # ts) M)"
    using assms(3,4) by (intro keyed_fold) (simp_all add: txs_ok_def keyed_def)
  ultimately show ?thesis
    using m unfolding txs_ok_def keyed_def by blast
qed

definition sample_utx :: "uint256 \<Rightarrow> utiltx" where
  "sample_utx h = \<lparr>utxHash = h, utxHeight = 7, utxTimestamp = 0, utxRawData = []\<rparr>"

lemma sample_utx_simps [simp]:
  "utxHash (sample_utx h) = h" "utxHeight (sample_utx h) = 7" "tx_fits codec0 (sample_utx h)"
  by (simp_all add: sample_utx_def tx_fits_def)

lemma empty_txs: "txs_ok codec0 (ldb_get leveldb0 []) Map.empty (\<lambda>h. [])"
  using empty_bucket_map [of BKTTxs hash_bytes]
  by (simp add: txs_ok_def ids_at_def leveldb0_def alist_get_def)

lemma txs_Put_leveldb0:
  assumes "txs_ok codec0 (ldb_get leveldb0 db) M I"
  shows "\<exists>db'. txs_Put codec0 leveldb0 t db = (None, db')"
  using putTxId_ids [OF txs_ok_at [OF assms], of "utxHeight t" "utxHash t"]
  by (simp add: txs_Put_def leveldb0_def)

theorem txs_Put_GetIds_witness:
  "\<exists>db1 db2. txs_Put codec0 leveldb0 (sample_utx 1) [] = (None, db1) \<and>
     txs_Put codec0 leveldb0 (sample_utx 2) db1 = (None, db2) \<and> txs_GetIds leveldb0 7 db2 = Inr [1, 2]"
proof -
  obtain db1 where 1: "txs_Put codec0 leveldb0 (sample_utx 1) [] = (None, db1)"
    using txs_Put_leveldb0 [OF empty_txs] by blast
  note k = txs_Put_ok [OF codec0_ok leveldb0_ok empty_txs sample_utx_simps(3) 1]
  obtain db2 where 2: "txs_Put codec0 leveldb0 (sample_utx 2) db1 = (None, db2)"
    using txs_Put_leveldb0 [OF k] by blast
  from txs_Put_GetIds [OF codec0_ok leveldb0_ok k sample_utx_simps(3) 2]
  have "txs_GetIds leveldb0 7 db2 = Inr [1, 2]" by simp
  with 1 2 show ?thesis by blast
qed

theorem txs_Del_GetIds_witness:
  "\<exists>db1 db2. txs_Put codec0 leveldb0 (sample_utx 1) [] = (None, db1) \<and>
     txs_Del codec0 leveldb0 1 db1 = (None, db2) \<and> txs_GetIds leveldb0 7 db2 = Inr []"
proof -
  obtain db1 where 1: "txs_Put codec0 leveldb0 (sample_utx 1) [] = (None, db1)"
    using txs_Put_leveldb0 [OF empty_txs] by blast
  note k = txs_Put_ok [OF codec0_ok leveldb0_ok empty_txs sample_utx_simps(3) 1]
  have "txs_Get codec0 leveldb0 1 db1 = Inr (sample_utx 1)"
    using txs_Get_ok(1) [OF codec0_ok k, of 1] by simp
  moreover have "delTxId (get_or_empty leveldb0 db1 (height_key 7)) 1 = Inr (enc_ids [])"
    using delTxId_ids [OF txs_ok_at [OF k, of 7], of 1] by simp
  ultimately obtain db2 where 2: "txs_Del codec0 leveldb0 1 db1 = (None, db2)"
    by (auto simp: txs_Del_def txs_Get_def leveldb0_def split: sum.splits)
  have "txs_GetIds leveldb0 7 db2 = Inr []"
    using txs_Del_GetIds [OF codec0_ok leveldb0_ok k, of 1 "sample_utx 1" db2] 2 by simp
  with 1 2 show ?thesis by blast
qed

theorem txs_fork_roundtrip_witness:
  "\<exists>db. txs_PutForkTxs codec0 leveldb0 [sample_utx 1, sample_utx 2] 9 [] = (None, db) \<and>
     txs_GetForkTxs codec0 leveldb0 9 db = Inr [sample_utx 1, sample_utx 2]"
proof -
  obtain db where p: "txs_PutForkTxs codec0 leveldb0 [sample_utx 1, sample_utx 2] 9 [] = (None, db)"
    by (auto simp: txs_PutForkTxs_def leveldb0_def)
  with txs_fork_roundtrip [OF codec0_ok leveldb0_ok _ _ p] show ?thesis by simp
qed

theorem txsBatch_Commit_first_only_witness:
  "\<exists>db. txsBatch_Commit leveldb0
       (fold (txsBatch_Put codec0) [sample_utx 1, sample_utx 2] \<lparr>tbBatch = [], tbAddTxs = [], tbDelTxs = []\<rparr>) [] = (None, db) \<and>
     txs_Get codec0 leveldb0 2 db = Inr (sample_utx 2) \<and> txs_GetIds leveldb0 7 db = Inr [1]"
proof -
  let ?b = "fold (txsBatch_Put codec0) [sample_utx 1, sample_utx 2] \<lparr>tbBatch = [], tbAddTxs = [], tbDelTxs = []\<rparr>"
  have "groupByHeight [sample_utx 1, sample_utx 2] = [7 \<mapsto> [sample_utx 1]]" by (intro groupByHeight_same) simp
  then obtain db where c: "txsBatch_Commit leveldb0 ?b [] = (None, db)"
    using putTxId_ids [OF txs_ok_at [OF empty_txs], of 7 1]
    by (simp add: txsBatch_Commit_def txsBatch_Put_def leveldb0_def)
  have k: "txs_ok codec0 (ldb_get leveldb0 db) (Map.empty(1 \<mapsto> sample_utx 1, 2 \<mapsto> sample_utx 2)) ((\<lambda>h. [])(7 := [1]))"
    using txsBatch_Commit_first_only [OF codec0_ok leveldb0_ok empty_txs, of "sample_utx 1" "[sample_utx 2]" 7 db] c by simp
  have "txs_GetIds leveldb0 7 db = Inr [1]"
    using getTxIds_ids [OF txs_ok_at [OF k, of 7]] by (simp add: txs_GetIds_def)
  moreover have "txs_Get codec0 leveldb0 2 db = Inr (sample_utx 2)"
    using txs_Get_ok(1) [OF codec0_ok k, of 2] by simp
  ultimately show ?thesis using c by blast
qed

end
