(* ===== verification/Arbiters.thy ===== *)
theory Arbiters
  imports TxStore "HOL-Library.List_Lexorder"
begin

text \<open>
  The store of the arbiter sets and of the consensus algorithm (\<open>interface/store/arbiters.go\<close>).
  A set of arbiters is stored under its working height; a set that was stored before is stored
  as the four bytes of the height that holds it. The positions are the working heights in
  ascending order, with a copy in memory. The database is an argument of the operations, since
  the data stores share it. \<open>arb_ok\<close> relates the store to the history of the sets put so far.
\<close>

record revert_info =
  riWorkingHeight :: u32
  riMode :: u8

record arbiters =
  abB :: batch
  abPosCache :: "u32 list"
  abRevertPOSCache :: "revert_info list"
  abCache :: "uint256 \<rightharpoonup> u32"
  abOriginArbiters :: "bytes list"
  abArbitersCount :: int

definition NewArbiters :: "bytes list \<Rightarrow> int \<Rightarrow> arbiters" where
  "NewArbiters originArbiters arbitersCount =
     \<lparr>abB = [], abPosCache = [], abRevertPOSCache = [], abCache = Map.empty,
      abOriginArbiters = originArbiters, abArbitersCount = arbitersCount\<rparr>"

subsection \<open>Encodings\<close>

definition uint32toBytes :: "u32 \<Rightarrow> bytes" where
  "uint32toBytes data = le_bytes4 data"

definition uint32ArrayToBytes :: "u32 list \<Rightarrow> bytes" where
  "uint32ArrayToBytes data = le_bytes4 (word_of_nat (length data)) @ concat (map uint32toBytes data)"

definition bytesToUint32 :: "bytes \<Rightarrow> goerror + u32" where
  "bytesToUint32 data = (if length data < 4 then Inl (Panic ''index out of range'') else Inr (le_u32 data))"

definition bytesToUint32Array :: "bytes \<Rightarrow> goerror + u32 list" where
  "bytesToUint32Array data =
     (case bytesToUint32 data of
        Inl e \<Rightarrow> Inl e
      | Inr len \<Rightarrow>
          iter_all (\<lambda>i. if length data < (i + 1) * 4 + 4 then Inl (Panic ''slice bounds out of range'')
                        else Inr (le_u32 (drop (i * 4 + 4) (take ((i + 1) * 4 + 4) data)))) [0..<unat len])"

definition revertInfoArrayToBytes :: "codec \<Rightarrow> revert_info list \<Rightarrow> bytes" where
  "revertInfoArrayToBytes E data =
     wVarUint E (word_of_nat (length data)) @ concat (map (\<lambda>r. wU32 E (riWorkingHeight r) @ [riMode r]) data)"

definition read_revert :: "codec \<Rightarrow> bytes \<Rightarrow> goerror + revert_info \<times> bytes" where
  "read_revert E bs =
     (case rU32 E bs of
        Inl e \<Rightarrow> Inl e
      | Inr (workingHeight, r) \<Rightarrow>
          (case r of [] \<Rightarrow> Inl EOF
                   | mode # r \<Rightarrow> Inr (\<lparr>riWorkingHeight = workingHeight, riMode = mode\<rparr>, r)))"

definition bytesToRevertInfoArray :: "codec \<Rightarrow> bytes \<Rightarrow> goerror + revert_info list" where
  "bytesToRevertInfoArray E data =
     (case rVarUint E data of
        Inl e \<Rightarrow> Inl e
      | Inr (count, r) \<Rightarrow>
          (case read_list (read_revert E) (unat count) r of Inl e \<Rightarrow> Inl e | Inr (results, _) \<Rightarrow> Inr results))"

definition getIndex :: "u32 \<Rightarrow> bytes" where
  "getIndex data = toKey BKTArbiters (le_bytes4 data)"

text \<open>The keys are sorted in place, so the caller's slices are sorted afterwards.\<close>

definition getValueBytes :: "codec \<Rightarrow> bytes list \<Rightarrow> bytes list \<Rightarrow> bytes" where
  "getValueBytes E crc nor =
     wU8 E (word_of_nat (length crc)) @ concat (map (wVarBytes E) (sort crc)) @
     wU8 E (word_of_nat (length nor)) @ concat (map (wVarBytes E) (sort nor))"

definition arb_calcHash :: "codec \<Rightarrow> bytes \<Rightarrow> uint256" where
  "arb_calcHash E data = Sum256 E data"

definition data_key :: "u32 \<Rightarrow> bytes" where
  "data_key height = toKey BKTArbitersData (getIndex height)"

definition hash_key :: "uint256 \<Rightarrow> bytes" where
  "hash_key hash = toKey BKTTransactionHeight (hash_bytes hash)"

subsection \<open>Positions\<close>

definition getCurrentPosition :: "'d leveldb \<Rightarrow> 'd \<Rightarrow> goerror + u32" where
  "getCurrentPosition L db = (case ldb_get L db BKTArbPosition of Inl e \<Rightarrow> Inr 0 | Inr pos \<Rightarrow> bytesToUint32 pos)"

definition getCurrentPositions :: "'d leveldb \<Rightarrow> 'd \<Rightarrow> goerror + u32 list" where
  "getCurrentPositions L db =
     (case ldb_get L db BKTArbPositions of Inl e \<Rightarrow> Inr [] | Inr pos \<Rightarrow> bytesToUint32Array pos)"

definition getCurrentRevertPosition :: "'d leveldb \<Rightarrow> 'd \<Rightarrow> goerror + u32" where
  "getCurrentRevertPosition L db =
     (case ldb_get L db BKTRevertPosition of Inl e \<Rightarrow> Inr 0 | Inr pos \<Rightarrow> bytesToUint32 pos)"

definition getCurrentRevertPositions :: "codec \<Rightarrow> 'd leveldb \<Rightarrow> 'd \<Rightarrow> goerror + revert_info list" where
  "getCurrentRevertPositions E L db =
     (case ldb_get L db BKTRevertPositions of Inl e \<Rightarrow> Inl e | Inr pos \<Rightarrow> bytesToRevertInfoArray E pos)"

definition findSlot :: "u32 list \<Rightarrow> u32 \<Rightarrow> int \<Rightarrow> goerror + u32" where
  "findSlot pos height arbitersCount =
     (if length pos = 0 then Inl (Failure ''invalid height'')
      else if last pos + word_of_int arbitersCount < height then Inl (Failure ''invalid height'')
      else case List.find (\<lambda>p. p < height) (rev pos) of None \<Rightarrow> Inr 0 | Some p \<Rightarrow> Inr p)"

subsection \<open>Arbiter sets\<close>

definition arb_batchPut ::
  "codec \<Rightarrow> 'd leveldb \<Rightarrow> u32 \<Rightarrow> bytes list \<Rightarrow> bytes list \<Rightarrow> 'd \<Rightarrow> batch \<Rightarrow> arbiters \<Rightarrow> goerror option \<times> batch \<times> arbiters" where
  "arb_batchPut E L height crc nor db batch c =
     (let batch = batch @ [BPut BKTArbPosition (uint32toBytes height)] in
      case getCurrentPositions L db of
        Inl e \<Rightarrow> (Some e, batch, c)
      | Inr posCache \<Rightarrow>
          (let c = c\<lparr>abPosCache := filter (\<lambda>p. p < height) posCache @ [height]\<rparr>;
               batch = batch @ [BPut BKTArbPositions (uint32ArrayToBytes (abPosCache c))];
               data = getValueBytes E crc nor;
               hash = arb_calcHash E data
           in case abCache c hash of
                None \<Rightarrow>
                  (case ldb_get L db (hash_key hash) of
                     Inr existHeight \<Rightarrow>
                       (case bytesToUint32 existHeight of
                          Inl e \<Rightarrow> (Some e, batch, c)
                        | Inr h0 \<Rightarrow>
                            (None, batch @ [BPut (data_key height) existHeight], c\<lparr>abCache := (abCache c)(hash \<mapsto> h0)\<rparr>))
                   | Inl e \<Rightarrow>
                       if e = NotFound
                       then (None, batch @ [BPut (data_key height) data, BPut (hash_key hash) (uint32toBytes height)],
                             c\<lparr>abCache := (abCache c)(hash \<mapsto> height)\<rparr>)
                       else (Some e, batch, c))
              | Some val \<Rightarrow> (None, batch @ [BPut (data_key height) (uint32toBytes val)], c)))"

text \<open>\<open>Put\<close> writes the store's own batch, drops the error of the write and keeps the batch.\<close>

definition arb_Put ::
  "codec \<Rightarrow> 'd leveldb \<Rightarrow> u32 \<Rightarrow> bytes list \<Rightarrow> bytes list \<Rightarrow> 'd \<Rightarrow> arbiters \<Rightarrow> goerror option \<times> 'd \<times> arbiters" where
  "arb_Put E L height crc nor db c =
     (case arb_batchPut E L height crc nor db (abB c) c of
        (Some e, b, c) \<Rightarrow> (Some e, db, c\<lparr>abB := b\<rparr>)
      | (None, b, c) \<Rightarrow> (let (_, db) = ldb_write L db b in (None, db, c\<lparr>abB := b\<rparr>)))"

definition arb_BatchPut ::
  "codec \<Rightarrow> 'd leveldb \<Rightarrow> u32 \<Rightarrow> bytes list \<Rightarrow> bytes list \<Rightarrow> 'd \<Rightarrow> batch \<Rightarrow> arbiters \<Rightarrow> goerror option \<times> batch \<times> arbiters" where
  "arb_BatchPut E L height crc nor db batch c = arb_batchPut E L height crc nor db batch c"

definition read_arbiters :: "codec \<Rightarrow> bytes \<Rightarrow> goerror + bytes list \<times> bytes list" where
  "read_arbiters E val =
     (case rU8 E val of
        Inl e \<Rightarrow> Inl e
      | Inr (crcCount, r) \<Rightarrow>
     (case read_list (rVarBytes E 33) (unat crcCount) r of
        Inl e \<Rightarrow> Inl e
      | Inr (crc, r) \<Rightarrow>
     (case rU8 E r of
        Inl e \<Rightarrow> Inl e
      | Inr (normalCount, r) \<Rightarrow>
     (case read_list (rVarBytes E 33) (unat normalCount) r of
        Inl e \<Rightarrow> Inl e
      | Inr (nor, _) \<Rightarrow> Inr (crc, nor)))))"

definition arb_get :: "codec \<Rightarrow> 'd leveldb \<Rightarrow> u32 \<Rightarrow> 'd \<Rightarrow> goerror + bytes list \<times> bytes list" where
  "arb_get E L height db =
     (case ldb_get L db (data_key height) of
        Inl e \<Rightarrow> Inl e
      | Inr val \<Rightarrow>
          if length val = 4 then
            (case ldb_get L db (data_key (le_u32 val)) of Inl e \<Rightarrow> Inl e | Inr val \<Rightarrow> read_arbiters E val)
          else read_arbiters E val)"

definition arb_GetByHeight ::
  "codec \<Rightarrow> 'd leveldb \<Rightarrow> u32 \<Rightarrow> 'd \<Rightarrow> arbiters \<Rightarrow> (goerror + bytes list \<times> bytes list) \<times> arbiters" where
  "arb_GetByHeight E L height db c =
     (case (if length (abPosCache c) = 0 then getCurrentPositions L db else Inr (abPosCache c)) of
        Inl e \<Rightarrow> (Inl e, c)
      | Inr pos \<Rightarrow>
          (let c = c\<lparr>abPosCache := pos\<rparr> in
           case findSlot pos height (abArbitersCount c) of
             Inl e \<Rightarrow> (Inl e, c)
           | Inr slot \<Rightarrow> if slot = 0 then (Inr (abOriginArbiters c, []), c) else (arb_get E L slot db, c)))"

definition arb_Get ::
  "codec \<Rightarrow> 'd leveldb \<Rightarrow> 'd \<Rightarrow> arbiters \<Rightarrow> (goerror + bytes list \<times> bytes list) \<times> arbiters" where
  "arb_Get E L db c =
     (case getCurrentPosition L db of Inl e \<Rightarrow> (Inl e, c) | Inr p \<Rightarrow> arb_GetByHeight E L p db c)"

definition arb_GetNext :: "codec \<Rightarrow> 'd leveldb \<Rightarrow> 'd \<Rightarrow> u32 \<times> (goerror + bytes list \<times> bytes list)" where
  "arb_GetNext E L db =
     (case getCurrentPosition L db of Inl e \<Rightarrow> (0, Inl e) | Inr workingHeight \<Rightarrow> (workingHeight, arb_get E L workingHeight db))"

definition arb_Clear :: "'d leveldb \<Rightarrow> 'd \<Rightarrow> arbiters \<Rightarrow> goerror option \<times> 'd \<times> arbiters" where
  "arb_Clear L db c =
     (let b = abB c @ bucket_deletes L BKTArbiters db @ [BDel BKTArbPosition];
          (err, db) = ldb_write L db b
      in (err, db, c\<lparr>abB := b\<rparr>))"

definition arb_Commit :: "'d leveldb \<Rightarrow> 'd \<Rightarrow> arbiters \<Rightarrow> goerror option \<times> 'd" where
  "arb_Commit L db c = ldb_write L db (abB c)"

definition arb_Rollback :: "arbiters \<Rightarrow> arbiters" where
  "arb_Rollback c = c\<lparr>abB := []\<rparr>"

definition arb_CommitBatch :: "'d leveldb \<Rightarrow> 'd \<Rightarrow> batch \<Rightarrow> goerror option \<times> 'd" where
  "arb_CommitBatch L db b = ldb_write L db b"

definition arb_RollbackBatch :: "batch \<Rightarrow> batch" where
  "arb_RollbackBatch b = []"

subsection \<open>The consensus algorithm\<close>

definition GetRevertInfo :: "codec \<Rightarrow> 'd leveldb \<Rightarrow> 'd \<Rightarrow> arbiters \<Rightarrow> revert_info list \<times> arbiters" where
  "GetRevertInfo E L db c =
     (if length (abRevertPOSCache c) = 0
      then (case getCurrentRevertPositions E L db of
              Inl e \<Rightarrow> ([], if e = NotFound then c\<lparr>abRevertPOSCache := []\<rparr> else c)
            | Inr pos \<Rightarrow> (pos, c\<lparr>abRevertPOSCache := pos\<rparr>))
      else (abRevertPOSCache c, c))"

text \<open>The loop over the positions: the mode of the last one not above \<open>height\<close>.\<close>

fun mode_loop :: "revert_info list \<Rightarrow> u32 \<Rightarrow> u8 \<Rightarrow> u8" where
  "mode_loop [] height mode = mode"
| "mode_loop (p # ps) height mode = (if height < riWorkingHeight p then mode else mode_loop ps height (riMode p))"

definition GetConsensusAlgorithmByHeight ::
  "codec \<Rightarrow> 'd leveldb \<Rightarrow> u32 \<Rightarrow> 'd \<Rightarrow> arbiters \<Rightarrow> (goerror + u8) \<times> arbiters" where
  "GetConsensusAlgorithmByHeight E L height db c =
     (if length (abRevertPOSCache c) = 0
      then (case getCurrentRevertPositions E L db of
              Inl e \<Rightarrow> if e = NotFound then (Inr 0, c\<lparr>abRevertPOSCache := []\<rparr>) else (Inl e, c)
            | Inr pos \<Rightarrow> (Inr (mode_loop pos height 0), c\<lparr>abRevertPOSCache := pos\<rparr>))
      else (Inr (mode_loop (abRevertPOSCache c) height 0), c))"

definition BatchPutRevertTransaction ::
  "codec \<Rightarrow> 'd leveldb \<Rightarrow> u32 \<Rightarrow> u8 \<Rightarrow> 'd \<Rightarrow> batch \<Rightarrow> arbiters \<Rightarrow> goerror option \<times> batch \<times> arbiters" where
  "BatchPutRevertTransaction E L workingHeight mode db batch c =
     (case getCurrentRevertPosition L db of
        Inl e \<Rightarrow> (Some e, batch, c)
      | Inr pos \<Rightarrow>
          (let isRollback = workingHeight \<le> pos;
               batch = batch @ [BPut BKTRevertPosition (uint32toBytes workingHeight)]
           in if isRollback then (None, batch, c)
              else case (case getCurrentRevertPositions E L db of
                           Inl e \<Rightarrow> if e = NotFound then Inr [] else Inl e
                         | Inr posCache \<Rightarrow> Inr posCache) of
                Inl e \<Rightarrow> (Some e, batch, c)
              | Inr posCache \<Rightarrow>
                  (let newPosCache = filter (\<lambda>p. riWorkingHeight p < workingHeight) posCache @
                         [\<lparr>riWorkingHeight = workingHeight, riMode = mode\<rparr>]
                   in (None, batch @ [BPut BKTRevertPositions (revertInfoArrayToBytes E newPosCache)],
                       c\<lparr>abRevertPOSCache := newPosCache\<rparr>))))"

subsection \<open>Round trips\<close>

lemma concat_le4: "length (concat (map uint32toBytes xs)) = 4 * length xs"
  by (induction xs) (auto simp: uint32toBytes_def)

lemma drop_concat_le4: "drop (4 * n) (concat (map uint32toBytes xs)) = concat (map uint32toBytes (drop n xs))"
proof (induction xs arbitrary: n)
  case Nil
  then show ?case by simp
next
  case (Cons x xs)
  show ?case
  proof (cases n)
    case (Suc m)
    with Cons.IH [of m] show ?thesis by (simp add: drop_append uint32toBytes_def)
  qed simp
qed

lemma u32_at:
  assumes "i < length xs"
  shows "le_u32 (drop (i * 4 + 4) (take ((i + 1) * 4 + 4) (uint32ArrayToBytes xs))) = xs ! i"
proof -
  have "drop (i * 4 + 4) (uint32ArrayToBytes xs) = drop (4 * i) (concat (map uint32toBytes xs))"
    by (simp add: uint32ArrayToBytes_def mult.commute)
  also have "\<dots> = uint32toBytes (xs ! i) @ concat (map uint32toBytes (drop (Suc i) xs))"
    using assms by (simp add: drop_concat_le4 Cons_nth_drop_Suc [symmetric])
  finally show ?thesis by (simp add: drop_take uint32toBytes_def)
qed

lemma uint32Array_roundtrip:
  assumes "length xs < 2 ^ 32"
  shows "bytesToUint32Array (uint32ArrayToBytes xs) = Inr xs"
proof -
  have n: "unat (word_of_nat (length xs) :: u32) = length xs" using assms by (intro unat_of_nat_small) simp
  have l: "length (uint32ArrayToBytes xs) = 4 + 4 * length xs" by (simp add: uint32ArrayToBytes_def concat_le4)
  have h: "bytesToUint32 (uint32ArrayToBytes xs) = Inr (word_of_nat (length xs))"
    using l by (simp add: bytesToUint32_def) (simp add: uint32ArrayToBytes_def)
  have "iter_all (\<lambda>i. if length (uint32ArrayToBytes xs) < (i + 1) * 4 + 4 then Inl (Panic ''slice bounds out of range'')
      else Inr (le_u32 (drop (i * 4 + 4) (take ((i + 1) * 4 + 4) (uint32ArrayToBytes xs))))) [0..<length xs] =
    Inr (map ((!) xs) [0..<length xs])"
    by (rule iter_all_map) (auto simp: l u32_at [simplified])
  then show ?thesis unfolding bytesToUint32Array_def h by (simp add: n map_nth)
qed

definition set_fits :: "bytes list \<Rightarrow> bool" where
  "set_fits ks \<longleftrightarrow> length ks < 256 \<and> (\<forall>k \<in> set ks. length k \<le> 33)"

lemma read_arbiters_value:
  assumes "codec_ok E" and "set_fits crc" and "set_fits nor"
  shows "read_arbiters E (getValueBytes E crc nor) = Inr (sort crc, sort nor)"
proof -
  have n: "unat (word_of_nat (length ks) :: u8) = length (sort ks)" if "set_fits ks" for ks :: "bytes list"
    using that by (simp add: unat_of_nat_small set_fits_def)
  have r: "read_list (rVarBytes E 33) (length (sort ks)) (concat (map (wVarBytes E) (sort ks)) @ rest) = Inr (sort ks, rest)"
    if "set_fits ks" for ks rest
    using that assms(1) by (intro read_list_written_on) (auto simp: codec_simps set_fits_def)
  have "rU8 E (wU8 E w @ rest) = Inr (w, rest)" for w rest using assms(1) by (simp add: codec_simps)
  then show ?thesis
    using r [OF assms(2)] r [OF assms(3), of "[]"] n [OF assms(2)] n [OF assms(3)]
    by (simp add: read_arbiters_def getValueBytes_def)
qed

subsection \<open>The store implements the history of the sets\<close>

type_synonym history = "(u32 \<times> bytes list \<times> bytes list) list"

text \<open>The entry of a height holds the data of a set, or refers to the height that does.\<close>

definition resolves :: "'d leveldb \<Rightarrow> 'd \<Rightarrow> u32 \<Rightarrow> bytes \<Rightarrow> bool" where
  "resolves L db h d \<longleftrightarrow> length d \<noteq> 4 \<and>
     (ldb_get L db (data_key h) = Inr d \<or>
      (\<exists>h0. ldb_get L db (data_key h) = Inr (le_bytes4 h0) \<and> ldb_get L db (data_key h0) = Inr d))"

text \<open>A set is known under its hash, in memory or in the database, at a height of the history.
  The encodings of the sets are drawn from \<open>D\<close>, on which the hash function does not collide.\<close>

definition known_ok :: "codec \<Rightarrow> 'd leveldb \<Rightarrow> bytes set \<Rightarrow> 'd \<Rightarrow> u32 set \<Rightarrow> uint256 \<Rightarrow> u32 \<Rightarrow> bool" where
  "known_ok E L D db hs hash h0 \<longleftrightarrow> h0 \<in> hs \<and> (\<exists>d \<in> D. ldb_get L db (data_key h0) = Inr d \<and> arb_calcHash E d = hash)"

definition arb_ok :: "codec \<Rightarrow> 'd leveldb \<Rightarrow> bytes set \<Rightarrow> 'd \<Rightarrow> arbiters \<Rightarrow> history \<Rightarrow> bool" where
  "arb_ok E L D db c hist \<longleftrightarrow>
     sorted_wrt (<) (0 # map fst hist) \<and> length hist < 2 ^ 32 \<and>
     inj_on (arb_calcHash E) D \<and> (\<forall>d \<in> D. length d \<noteq> 4) \<and>
     getCurrentPositions L db = Inr (map fst hist) \<and> (abPosCache c = [] \<or> abPosCache c = map fst hist) \<and>
     (\<forall>(h, crc, nor) \<in> set hist. set_fits crc \<and> set_fits nor \<and> resolves L db h (getValueBytes E crc nor)) \<and>
     (\<forall>hash h0. abCache c hash = Some h0 \<longrightarrow> known_ok E L D db (fst ` set hist) hash h0) \<and>
     (\<forall>hash. case ldb_get L db (hash_key hash) of
        Inl e \<Rightarrow> e = NotFound
      | Inr v \<Rightarrow> \<exists>h0. v = le_bytes4 h0 \<and> known_ok E L D db (fst ` set hist) hash h0)"

lemma arb_keys [simp]:
  "data_key h = data_key h' \<longleftrightarrow> h = h'" "data_key h \<noteq> BKTArbPosition" "data_key h \<noteq> BKTArbPositions"
  "BKTArbPosition \<noteq> data_key h" "BKTArbPositions \<noteq> data_key h" "data_key h \<noteq> hash_key k" "hash_key k \<noteq> data_key h"
  "hash_key k = hash_key k' \<longleftrightarrow> k = k'" "hash_key k \<noteq> BKTArbPosition" "hash_key k \<noteq> BKTArbPositions"
  "BKTArbPosition \<noteq> hash_key k" "BKTArbPositions \<noteq> hash_key k" "BKTArbPosition \<noteq> BKTArbPositions" "BKTArbPositions \<noteq> BKTArbPosition"
  by (simp_all add: data_key_def hash_key_def getIndex_def toKey_def bkt_simps str_bytes_def)

text \<open>What one put writes: the positions, and for the set either its data under a fresh hash or a
  reference to the height that has it.\<close>

lemma arb_BatchPut_effect:
  assumes L: "leveldb_ok L" and ok: "arb_ok E L D db c hist"
    and d: "getValueBytes E crc nor \<in> D" and gt: "\<forall>h \<in> fst ` set hist. h < height"
    and p: "arb_BatchPut E L height crc nor db [] c = (e, b, c')" and w: "ldb_write L db b = (None, db')"
  shows "e = None" and "abPosCache c' = map fst hist @ [height]" and "abOriginArbiters c' = abOriginArbiters c"
    and "abArbitersCount c' = abArbitersCount c"
    and "(\<exists>h0. abCache c' (arb_calcHash E (getValueBytes E crc nor)) = Some h0 \<and>
        known_ok E L D db (fst ` set hist) (arb_calcHash E (getValueBytes E crc nor)) h0 \<and>
        (\<forall>k. k \<noteq> arb_calcHash E (getValueBytes E crc nor) \<longrightarrow> abCache c' k = abCache c k) \<and>
        ldb_get L db' = (ldb_get L db)(BKTArbPosition := Inr (le_bytes4 height),
          BKTArbPositions := Inr (uint32ArrayToBytes (map fst hist @ [height])),
          data_key height := Inr (le_bytes4 h0))) \<or>
      abCache c' = (abCache c)(arb_calcHash E (getValueBytes E crc nor) \<mapsto> height) \<and>
        ldb_get L db' = (ldb_get L db)(BKTArbPosition := Inr (le_bytes4 height),
          BKTArbPositions := Inr (uint32ArrayToBytes (map fst hist @ [height])),
          data_key height := Inr (getValueBytes E crc nor),
          hash_key (arb_calcHash E (getValueBytes E crc nor)) := Inr (le_bytes4 height))"
proof -
  let ?d = "getValueBytes E crc nor" and ?pos = "map fst hist @ [height]"
  let ?k = "arb_calcHash E ?d"
  have pos: "getCurrentPositions L db = Inr (map fst hist)" using ok by (simp add: arb_ok_def)
  have f: "filter (\<lambda>p. p < height) (map fst hist) = map fst hist" using gt by (simp add: filter_id_conv)
  have cache: "abCache c ?k = Some h0 \<Longrightarrow> known_ok E L D db (fst ` set hist) ?k h0" for h0
    using ok by (simp add: arb_ok_def)
  have stored: "case ldb_get L db (hash_key ?k) of Inl e \<Rightarrow> e = NotFound
      | Inr v \<Rightarrow> \<exists>h0. v = le_bytes4 h0 \<and> known_ok E L D db (fst ` set hist) ?k h0"
    using ok by (simp add: arb_ok_def)
  have g: "ldb_get L db' = batch_apply b (ldb_get L db)" by (rule ldb_get_write [OF L w])
  note defs = arb_BatchPut_def arb_batchPut_def Let_def pos f uint32toBytes_def
  have "e = None \<and> abPosCache c' = ?pos \<and> abOriginArbiters c' = abOriginArbiters c \<and> abArbitersCount c' = abArbitersCount c \<and>
    ((\<exists>h0. abCache c' ?k = Some h0 \<and> known_ok E L D db (fst ` set hist) ?k h0 \<and>
        (\<forall>k. k \<noteq> ?k \<longrightarrow> abCache c' k = abCache c k) \<and>
        b = [BPut BKTArbPosition (le_bytes4 height), BPut BKTArbPositions (uint32ArrayToBytes ?pos), BPut (data_key height) (le_bytes4 h0)]) \<or>
     abCache c' = (abCache c)(?k \<mapsto> height) \<and>
        b = [BPut BKTArbPosition (le_bytes4 height), BPut BKTArbPositions (uint32ArrayToBytes ?pos), BPut (data_key height) ?d,
             BPut (hash_key ?k) (le_bytes4 height)])"
  proof (cases "abCache c ?k")
    case (Some h0)
    with p cache [OF Some] show ?thesis by (auto simp: defs)
  next
    case None
    show ?thesis
    proof (cases "ldb_get L db (hash_key ?k)")
      case (Inl x)
      with p None stored show ?thesis by (auto simp: defs)
    next
      case (Inr v)
      with stored obtain h0 where h0: "v = le_bytes4 h0" "known_ok E L D db (fst ` set hist) ?k h0" by auto
      with p None Inr show ?thesis by (auto simp: defs bytesToUint32_def)
    qed
  qed
  then show "e = None" and "abPosCache c' = ?pos" and "abOriginArbiters c' = abOriginArbiters c"
    and "abArbitersCount c' = abArbitersCount c"
    and "(\<exists>h0. abCache c' ?k = Some h0 \<and> known_ok E L D db (fst ` set hist) ?k h0 \<and>
        (\<forall>k. k \<noteq> ?k \<longrightarrow> abCache c' k = abCache c k) \<and>
        ldb_get L db' = (ldb_get L db)(BKTArbPosition := Inr (le_bytes4 height),
          BKTArbPositions := Inr (uint32ArrayToBytes ?pos), data_key height := Inr (le_bytes4 h0))) \<or>
      abCache c' = (abCache c)(?k \<mapsto> height) \<and>
        ldb_get L db' = (ldb_get L db)(BKTArbPosition := Inr (le_bytes4 height),
          BKTArbPositions := Inr (uint32ArrayToBytes ?pos), data_key height := Inr ?d, hash_key ?k := Inr (le_bytes4 height))"
    unfolding g by (auto simp: fun_eq_iff)
qed

lemma resolves_mono:
  assumes "resolves L db h d" and "\<And>k v. ldb_get L db (data_key k) = Inr v \<Longrightarrow> ldb_get L db' (data_key k) = Inr v"
  shows "resolves L db' h d"
  using assms unfolding resolves_def by blast

lemma known_mono:
  assumes "known_ok E L D db hs hash h0" and "hs \<subseteq> hs'"
    and "\<And>k v. k \<in> hs \<Longrightarrow> ldb_get L db (data_key k) = Inr v \<Longrightarrow> ldb_get L db' (data_key k) = Inr v"
  shows "known_ok E L D db' hs' hash h0"
  using assms unfolding known_ok_def by blast

text \<open>An entry refers only to heights of the history.\<close>

definition refs_ok :: "'d leveldb \<Rightarrow> 'd \<Rightarrow> history \<Rightarrow> bool" where
  "refs_ok L db hist \<longleftrightarrow> (\<forall>h. h \<notin> fst ` set hist \<longrightarrow> (\<exists>e. ldb_get L db (data_key h) = Inl e))"

lemma arb_BatchPut_ok:
  assumes L: "leveldb_ok L" and ok: "arb_ok E L D db c hist" and refs: "refs_ok L db hist"
    and D: "getValueBytes E crc nor \<in> D" and fits: "set_fits crc" "set_fits nor"
    and gt: "\<forall>h \<in> fst ` set hist. h < height" and pos: "0 < height" and len: "length hist < 2 ^ 32 - 1"
    and p: "arb_BatchPut E L height crc nor db [] c = (e, b, c')" and w: "ldb_write L db b = (None, db')"
  shows "arb_ok E L D db' c' (hist @ [(height, crc, nor)])" and "refs_ok L db' (hist @ [(height, crc, nor)])"
proof -
  let ?d = "getValueBytes E crc nor" and ?h' = "hist @ [(height, crc, nor)]"
  let ?k = "arb_calcHash E ?d"
  note eff = arb_BatchPut_effect [OF L ok D gt p w]
  have fresh: "height \<notin> fst ` set hist" using gt by blast
  have inj: "inj_on (arb_calcHash E) D" and D4: "\<forall>d \<in> D. length d \<noteq> 4"
    using ok by (simp_all add: arb_ok_def)
  have other: "h0 \<noteq> height \<Longrightarrow> ldb_get L db' (data_key h0) = ldb_get L db (data_key h0)" for h0
    using eff(5) by auto
  have old: "h0 \<in> fst ` set hist \<Longrightarrow> ldb_get L db' (data_key h0) = ldb_get L db (data_key h0)" for h0
    using other [of h0] fresh by blast
  have keep: "ldb_get L db (data_key h0) = Inr v \<Longrightarrow> ldb_get L db' (data_key h0) = Inr v" for h0 v
    using old [of h0] refs by (cases "h0 \<in> fst ` set hist") (auto simp: refs_ok_def)
  have ps: "ldb_get L db' BKTArbPositions = Inr (uint32ArrayToBytes (map fst hist @ [height]))"
    using eff(5) by auto
  have new: "resolves L db' height ?d"
    using eff(5)
  proof (elim disjE exE conjE)
    fix h0
    assume h0: "known_ok E L D db (fst ` set hist) ?k h0"
      "ldb_get L db' = (ldb_get L db)(BKTArbPosition := Inr (le_bytes4 height),
          BKTArbPositions := Inr (uint32ArrayToBytes (map fst hist @ [height])), data_key height := Inr (le_bytes4 h0))"
    then obtain d0 where d0: "d0 \<in> D" "ldb_get L db (data_key h0) = Inr d0" "arb_calcHash E d0 = ?k"
      by (auto simp: known_ok_def)
    then have "d0 = ?d" using inj D by (auto simp: inj_on_def)
    with d0(2) have "ldb_get L db' (data_key h0) = Inr ?d" by (simp add: keep)
    moreover have "ldb_get L db' (data_key height) = Inr (le_bytes4 h0)" by (simp add: h0(2))
    ultimately show ?thesis using D D4 by (auto simp: resolves_def)
  next
    assume "ldb_get L db' = (ldb_get L db)(BKTArbPosition := Inr (le_bytes4 height),
          BKTArbPositions := Inr (uint32ArrayToBytes (map fst hist @ [height])),
          data_key height := Inr ?d, hash_key ?k := Inr (le_bytes4 height))"
    then show ?thesis using D D4 by (simp add: resolves_def)
  qed
  have kn: "known_ok E L D db (fst ` set hist) hash h0 \<Longrightarrow> known_ok E L D db' (fst ` set ?h') hash h0" for hash h0
    by (erule known_mono) (auto simp: keep)
  have kn': "known_ok E L D db' (fst ` set ?h') ?k height"
    if "ldb_get L db' (data_key height) = Inr ?d"
    using that D by (auto simp: known_ok_def)
  have cache: "known_ok E L D db' (fst ` set ?h') hash h0" if "abCache c' hash = Some h0" for hash h0
  proof (cases "hash = ?k")
    case True
    with that eff(5) kn kn' show ?thesis by auto
  next
    case False
    with that eff(5) have "abCache c hash = Some h0" by auto
    with ok have "known_ok E L D db (fst ` set hist) hash h0" by (simp add: arb_ok_def)
    then show ?thesis by (rule kn)
  qed
  have hk: "case ldb_get L db' (hash_key hash) of Inl e \<Rightarrow> e = NotFound
      | Inr v \<Rightarrow> \<exists>h0. v = le_bytes4 h0 \<and> known_ok E L D db' (fst ` set ?h') hash h0" for hash
  proof (cases "ldb_get L db' (hash_key hash) = ldb_get L db (hash_key hash)")
    case True
    have "case ldb_get L db (hash_key hash) of Inl e \<Rightarrow> e = NotFound
      | Inr v \<Rightarrow> \<exists>h0. v = le_bytes4 h0 \<and> known_ok E L D db (fst ` set hist) hash h0"
      using ok by (simp add: arb_ok_def)
    then show ?thesis unfolding True using kn by (auto split: sum.split)
  next
    case False
    with eff(5) have "hash = ?k \<and> ldb_get L db' (hash_key hash) = Inr (le_bytes4 height) \<and>
        ldb_get L db' (data_key height) = Inr ?d" by (auto split: if_splits)
    then show ?thesis using kn' by auto
  qed
  have res: "set_fits crc' \<and> set_fits nor' \<and> resolves L db' h (getValueBytes E crc' nor')"
    if "(h, crc', nor') \<in> set ?h'" for h crc' nor'
  proof (cases "(h, crc', nor') \<in> set hist")
    case True
    then have "set_fits crc' \<and> set_fits nor' \<and> resolves L db h (getValueBytes E crc' nor')"
      using ok by (auto simp: arb_ok_def)
    with resolves_mono [of L db h _ db'] keep show ?thesis by blast
  next
    case False
    with that fits new show ?thesis by simp
  qed
  have res': "\<forall>(h, crc', nor') \<in> set ?h'. set_fits crc' \<and> set_fits nor' \<and> resolves L db' h (getValueBytes E crc' nor')"
    using res by blast
  have "sorted_wrt (<) (0 # map fst ?h')"
    using ok gt pos by (auto simp: arb_ok_def sorted_wrt_append)
  moreover have "getCurrentPositions L db' = Inr (map fst ?h')"
    using uint32Array_roundtrip [of "map fst ?h'"] len by (simp add: getCurrentPositions_def ps)
  ultimately show "arb_ok E L D db' c' ?h'"
    unfolding arb_ok_def using len inj D4 eff(2) cache hk res' by simp
  show "refs_ok L db' ?h'" using refs other by (simp add: refs_ok_def)
qed

text \<open>What the service should answer for a height: the set with the greatest working height below
  it, the original arbiters before the first one, an error too far above the last one.\<close>

definition lookup_set :: "codec \<Rightarrow> bytes list \<Rightarrow> int \<Rightarrow> history \<Rightarrow> u32 \<Rightarrow> goerror + bytes list \<times> bytes list" where
  "lookup_set E origin count hist height =
     (if hist = [] \<or> fst (last hist) + word_of_int count < height then Inl (Failure ''invalid height'')
      else case List.find (\<lambda>(h, _). h < height) (rev hist) of
             None \<Rightarrow> Inr (origin, [])
           | Some (h, crc, nor) \<Rightarrow> Inr (sort crc, sort nor))"

lemma find_map_fst: "List.find P (map f xs) = map_option f (List.find (P \<circ> f) xs)"
  by (induction xs) auto

lemma find_in_set: "List.find P xs = Some x \<Longrightarrow> x \<in> set xs"
  by (induction xs) (auto split: if_splits)

lemma arb_get_ok:
  assumes E: "codec_ok E" and ok: "arb_ok E L D db c hist" and h: "(h, crc, nor) \<in> set hist"
  shows "arb_get E L h db = Inr (sort crc, sort nor)"
proof -
  have "set_fits crc" "set_fits nor" "resolves L db h (getValueBytes E crc nor)"
    using ok h by (auto simp: arb_ok_def)
  with read_arbiters_value [OF E, of crc nor] show ?thesis
    by (auto simp: resolves_def arb_get_def)
qed

lemma arb_GetByHeight_ok:
  assumes E: "codec_ok E" and ok: "arb_ok E L D db c hist"
  shows "fst (arb_GetByHeight E L height db c) = lookup_set E (abOriginArbiters c) (abArbitersCount c) hist height"
proof -
  have pos: "(if length (abPosCache c) = 0 then getCurrentPositions L db else Inr (abPosCache c)) = Inr (map fst hist)"
    using ok by (auto simp: arb_ok_def)
  show ?thesis
  proof (cases "hist = [] \<or> fst (last hist) + word_of_int (abArbitersCount c) < height")
    case True
    then show ?thesis
      unfolding arb_GetByHeight_def pos by (cases "hist = []") (simp_all add: lookup_set_def findSlot_def last_map)
  next
    case False
    have f: "List.find (\<lambda>p. p < height) (rev (map fst hist)) = map_option fst (List.find (\<lambda>(h, _). h < height) (rev hist))"
      by (simp add: rev_map find_map_fst comp_def split_def)
    show ?thesis
    proof (cases "List.find (\<lambda>(h, _). h < height) (rev hist)")
      case None
      with False f show ?thesis
        unfolding arb_GetByHeight_def pos by (simp add: lookup_set_def findSlot_def last_map Let_def)
    next
      case (Some x)
      obtain h crc nor where x: "x = (h, crc, nor)" by (cases x)
      have m: "(h, crc, nor) \<in> set hist" using find_in_set [OF Some] x by simp
      then have "0 < h" using ok by (force simp: arb_ok_def)
      then have "h \<noteq> 0" by auto
      with False f Some x arb_get_ok [OF E ok m] show ?thesis
        unfolding arb_GetByHeight_def pos by (simp add: lookup_set_def findSlot_def last_map Let_def)
    qed
  qed
qed

lemma arb_ok_reopen: "arb_ok E L D db c hist \<Longrightarrow> arb_ok E L D db (NewArbiters origin count) hist"
  by (simp add: arb_ok_def NewArbiters_def)

subsection \<open>Properties\<close>

text \<open>C8: A set of arbiters put for a working height above the known ones enters the history
  without disturbing it, also when the same set was put before at another height; from then on
  every query by height answers from the history (the set with the greatest working height
  below the queried one), from the open store and from a store opened anew on the database.\<close>

theorem arbiters_history:
  assumes "codec_ok E" and "leveldb_ok L" and "arb_ok E L D db c hist" and "refs_ok L db hist"
    and "getValueBytes E crc nor \<in> D" and "set_fits crc" and "set_fits nor"
    and "\<forall>h \<in> fst ` set hist. h < height" and "0 < height" and "length hist < 2 ^ 32 - 1"
    and "arb_BatchPut E L height crc nor db [] c = (e, b, c')" and "ldb_write L db b = (None, db')"
  shows "e = None \<and> arb_ok E L D db' c' (hist @ [(height, crc, nor)]) \<and> refs_ok L db' (hist @ [(height, crc, nor)]) \<and>
    (\<forall>q. fst (arb_GetByHeight E L q db' c') =
        lookup_set E (abOriginArbiters c) (abArbitersCount c) (hist @ [(height, crc, nor)]) q) \<and>
    (\<forall>q. fst (arb_GetByHeight E L q db' (NewArbiters origin count)) =
        lookup_set E origin count (hist @ [(height, crc, nor)]) q)"
proof -
  note k = arb_BatchPut_ok [OF assms(2-12)] and f = arb_BatchPut_effect [OF assms(2,3,5,8,11,12)]
  have "fst (arb_GetByHeight E L q db' (NewArbiters origin count)) = lookup_set E origin count (hist @ [(height, crc, nor)]) q" for q
    using arb_GetByHeight_ok [OF assms(1) arb_ok_reopen [OF k(1)], of q origin count] by (simp add: NewArbiters_def)
  with k f(1) arb_GetByHeight_ok [OF assms(1) k(1)] show ?thesis by (simp add: f(3,4))
qed

text \<open>A set put for the first time is read back from its height; putting the same set again
  for the same height, as a reorganization does, replaces its only copy by a reference to
  itself, after which the four bytes of the height are read as if they were the set.\<close>

theorem arbiters_self_reference:
  assumes "leveldb_ok L" and "abCache c (arb_calcHash E (getValueBytes E crc nor)) = None"
    and "ldb_get L db (hash_key (arb_calcHash E (getValueBytes E crc nor))) = Inl NotFound"
    and "length (getValueBytes E crc nor) \<noteq> 4"
    and "arb_BatchPut E L height crc nor db [] c = (None, b1, c1)" and "ldb_write L db b1 = (None, db1)"
    and "arb_BatchPut E L height crc nor db1 [] c1 = (None, b2, c2)" and "ldb_write L db1 b2 = (None, db2)"
  shows "arb_get E L height db1 = read_arbiters E (getValueBytes E crc nor) \<and>
    ldb_get L db2 (data_key height) = Inr (le_bytes4 height) \<and>
    arb_get E L height db2 = read_arbiters E (le_bytes4 height)"
proof -
  let ?d = "getValueBytes E crc nor"
  let ?k = "arb_calcHash E ?d"
  have 1: "abCache c1 ?k = Some height \<and> last b1 = BPut (hash_key ?k) (le_bytes4 height) \<and>
      (\<exists>x. b1 = x @ [BPut (data_key height) ?d, BPut (hash_key ?k) (le_bytes4 height)])"
    using assms(2,3,5) by (auto simp: arb_BatchPut_def arb_batchPut_def Let_def uint32toBytes_def split: sum.splits)
  then have g1: "ldb_get L db1 (data_key height) = Inr ?d"
    using ldb_get_write [OF assms(1,6)] by auto
  have "\<exists>x. b2 = x @ [BPut (data_key height) (le_bytes4 height)]"
    using assms(7) 1 by (auto simp: arb_BatchPut_def arb_batchPut_def Let_def uint32toBytes_def split: sum.splits)
  then have g2: "ldb_get L db2 (data_key height) = Inr (le_bytes4 height)"
    using ldb_get_write [OF assms(1,8)] by auto
  have "le_u32 (le_bytes4 height) = height" by simp
  with g1 g2 assms(4) show ?thesis by (simp add: arb_get_def)
qed

text \<open>The positions of the consensus changes, in ascending order.\<close>

definition revert_ok :: "codec \<Rightarrow> 'd leveldb \<Rightarrow> 'd \<Rightarrow> arbiters \<Rightarrow> revert_info list \<Rightarrow> bool" where
  "revert_ok E L db c ps \<longleftrightarrow> sorted_wrt (<) (map riWorkingHeight ps) \<and> length ps < 2 ^ 64 \<and>
     (case getCurrentRevertPositions E L db of Inl e \<Rightarrow> e = NotFound \<and> ps = [] | Inr x \<Rightarrow> x = ps) \<and>
     (abRevertPOSCache c = [] \<or> abRevertPOSCache c = ps)"

lemma rw_revert: "codec_ok E \<Longrightarrow> rw_ok (\<lambda>r. wU32 E (riWorkingHeight r) @ [riMode r]) (read_revert E)"
  by (simp add: rw_ok_def read_revert_def codec_simps)

lemma revertInfo_roundtrip:
  assumes "codec_ok E" and "length ps < 2 ^ 64"
  shows "bytesToRevertInfoArray E (revertInfoArrayToBytes E ps) = Inr ps"
proof -
  have "unat (word_of_nat (length ps) :: u64) = length ps" using assms(2) by (intro unat_of_nat_small) simp
  moreover have "read_list (read_revert E) (length ps) (concat (map (\<lambda>r. wU32 E (riWorkingHeight r) @ [riMode r]) ps) @ []) = Inr (ps, [])"
    by (rule read_list_written [OF rw_revert [OF assms(1)]])
  ultimately show ?thesis
    by (simp add: bytesToRevertInfoArray_def revertInfoArrayToBytes_def codec_simps assms(1))
qed

lemma GetConsensus_mode:
  assumes "revert_ok E L db c ps"
  shows "fst (GetConsensusAlgorithmByHeight E L q db c) = Inr (mode_loop ps q 0)"
  using assms by (auto simp: revert_ok_def GetConsensusAlgorithmByHeight_def split: sum.splits)

lemma mode_loop_append:
  "sorted_wrt (<) (map riWorkingHeight ps) \<Longrightarrow>
   mode_loop (filter (\<lambda>p. riWorkingHeight p < wh) ps @ [\<lparr>riWorkingHeight = wh, riMode = m\<rparr>]) q m0 =
     (if wh \<le> q then m else mode_loop ps q m0)"
proof (induction ps arbitrary: m0)
  case Nil
  then show ?case by auto
next
  case (Cons p ps)
  show ?case
  proof (cases "riWorkingHeight p < wh")
    case True
    with Cons show ?thesis by auto
  next
    case False
    with Cons.prems have "\<forall>x \<in> set ps. \<not> riWorkingHeight x < wh" by force
    then have "filter (\<lambda>p. riWorkingHeight p < wh) ps = []" by (simp add: filter_empty_conv)
    with False show ?thesis by auto
  qed
qed

lemma revert_keys [simp]: "BKTRevertPosition \<noteq> BKTRevertPositions" "BKTRevertPositions \<noteq> BKTRevertPosition"
  by (simp_all add: bkt_simps str_bytes_def)

text \<open>A change of the consensus algorithm above the current position takes effect from its
  working height on and leaves the algorithm of all lower heights as it was.\<close>

theorem revert_takes_effect:
  assumes "codec_ok E" and "leveldb_ok L" and "revert_ok E L db c ps" and "length ps < 2 ^ 64 - 1"
    and "getCurrentRevertPosition L db = Inr pos" and "pos < workingHeight"
    and "BatchPutRevertTransaction E L workingHeight mode db [] c = (e, b, c')" and "ldb_write L db b = (None, db')"
  shows "e = None \<and>
    revert_ok E L db' c' (filter (\<lambda>p. riWorkingHeight p < workingHeight) ps @ [\<lparr>riWorkingHeight = workingHeight, riMode = mode\<rparr>]) \<and>
    (\<forall>q. fst (GetConsensusAlgorithmByHeight E L q db' c') =
       (if workingHeight \<le> q then Inr mode else fst (GetConsensusAlgorithmByHeight E L q db c)))"
proof -
  let ?ps = "filter (\<lambda>p. riWorkingHeight p < workingHeight) ps @ [\<lparr>riWorkingHeight = workingHeight, riMode = mode\<rparr>]"
  have cur: "(case getCurrentRevertPositions E L db of Inl e \<Rightarrow> if e = NotFound then Inr [] else Inl e | Inr x \<Rightarrow> Inr x) = Inr ps"
    using assms(3) by (auto simp: revert_ok_def split: sum.splits)
  have le: "\<not> workingHeight \<le> pos" using assms(6) by (simp add: not_le)
  have r: "e = None" "c' = c\<lparr>abRevertPOSCache := ?ps\<rparr>"
    "b = [BPut BKTRevertPosition (uint32toBytes workingHeight), BPut BKTRevertPositions (revertInfoArrayToBytes E ?ps)]"
    using assms(7) le unfolding BatchPutRevertTransaction_def assms(5) sum.case Let_def cur by simp_all
  have "length (filter (\<lambda>p. riWorkingHeight p < workingHeight) ps) < 2 ^ 64 - 1"
    by (rule le_less_trans [OF length_filter_le assms(4)])
  then have l: "length ?ps < 2 ^ 64" by simp
  have "ldb_get L db' BKTRevertPositions = Inr (revertInfoArrayToBytes E ?ps)"
    using ldb_get_write [OF assms(2,8)] by (simp add: r(3))
  then have "getCurrentRevertPositions E L db' = Inr ?ps"
    using revertInfo_roundtrip [OF assms(1) l] by (simp add: getCurrentRevertPositions_def)
  moreover have "sorted_wrt (<) (map riWorkingHeight ?ps)"
    using assms(3) by (auto simp: revert_ok_def sorted_wrt_append sorted_wrt_map intro: sorted_wrt_filter)
  ultimately have ok: "revert_ok E L db' c' ?ps" using l by (simp add: revert_ok_def r(2))
  have "sorted_wrt (<) (map riWorkingHeight ps)" using assms(3) by (simp add: revert_ok_def)
  with r(1) ok GetConsensus_mode [OF ok] GetConsensus_mode [OF assms(3)] show ?thesis
    by (simp add: mode_loop_append)
qed

text \<open>The empty store with one set of one key.\<close>

definition sample_keys :: "bytes list" where
  "sample_keys = [[2, 3]]"

lemma sample_set:
  "length (getValueBytes codec0 sample_keys []) = 12" "set_fits sample_keys" "set_fits []"
  by (simp_all add: set_fits_def sample_keys_def getValueBytes_def codec0_def)

lemma empty_arbiters:
  "arb_ok codec0 leveldb0 {getValueBytes codec0 sample_keys []} [] (NewArbiters origin count) []"
  "refs_ok leveldb0 [] []"
  by (simp_all add: arb_ok_def refs_ok_def NewArbiters_def getCurrentPositions_def sample_set leveldb0_def alist_get_def)

lemma write_leveldb0: "\<exists>db'. ldb_write leveldb0 db b = (None, db')"
  by (simp add: leveldb0_def)

theorem arbiters_history_witness:
  "\<exists>b c db. arb_BatchPut codec0 leveldb0 100 sample_keys [] [] [] (NewArbiters [] 36) = (None, b, c) \<and>
     ldb_write leveldb0 [] b = (None, db) \<and>
     fst (arb_GetByHeight codec0 leveldb0 101 db c) = Inr (sample_keys, [])"
proof -
  obtain e b c where p: "arb_BatchPut codec0 leveldb0 100 sample_keys [] [] [] (NewArbiters [] 36) = (e, b, c)"
    by (metis prod_cases3)
  obtain db where w: "ldb_write leveldb0 [] b = (None, db)" using write_leveldb0 by blast
  have a: "fst (arb_GetByHeight codec0 leveldb0 101 db c) =
      lookup_set codec0 (abOriginArbiters (NewArbiters [] 36)) (abArbitersCount (NewArbiters [] 36)) ([] @ [(100, sample_keys, [])]) 101"
    and e: "e = None"
    using arbiters_history [OF codec0_ok leveldb0_ok empty_arbiters _ sample_set(2,3) _ _ _ p w] by simp_all
  moreover note a
  moreover have "lookup_set codec0 (abOriginArbiters (NewArbiters [] 36)) (abArbitersCount (NewArbiters [] 36)) ([] @ [(100, sample_keys, [])]) 101
      = Inr (sample_keys, [])"
    by (simp add: lookup_set_def NewArbiters_def sample_keys_def)
  ultimately have "fst (arb_GetByHeight codec0 leveldb0 101 db c) = Inr (sample_keys, [])" by simp
  with p [unfolded e] w show ?thesis by blast
qed

lemma read_height: "\<exists>e. read_arbiters codec0 (le_bytes4 1) = Inl e"
proof -
  have "nat_le (Suc (Suc (Suc (Suc 0)))) 1 = [1, 0, 0, 0]" by simp
  moreover have "Suc (Suc (Suc (Suc 0))) = 4" by simp
  ultimately have "le_bytes4 1 = [1, 0, 0, 0]" by (simp only: le_bytes4_def unsigned_1)
  then show ?thesis by (simp add: read_arbiters_def codec0_def fix_read_def len_read_def)
qed

theorem arbiters_self_reference_witness:
  "\<exists>b1 c1 db1 b2 c2 db2 e. arb_BatchPut codec0 leveldb0 1 sample_keys [] [] [] (NewArbiters [] 36) = (None, b1, c1) \<and>
     ldb_write leveldb0 [] b1 = (None, db1) \<and> arb_get codec0 leveldb0 1 db1 = Inr (sample_keys, []) \<and>
     arb_BatchPut codec0 leveldb0 1 sample_keys [] db1 [] c1 = (None, b2, c2) \<and>
     ldb_write leveldb0 db1 b2 = (None, db2) \<and> arb_get codec0 leveldb0 1 db2 = Inl e"
proof -
  let ?k = "arb_calcHash codec0 (getValueBytes codec0 sample_keys [])"
  obtain e1 b1 c1 where p1: "arb_BatchPut codec0 leveldb0 1 sample_keys [] [] [] (NewArbiters [] 36) = (e1, b1, c1)"
    by (metis prod_cases3)
  obtain db1 where w1: "ldb_write leveldb0 [] b1 = (None, db1)" using write_leveldb0 by blast
  note f = arb_BatchPut_effect [OF leveldb0_ok empty_arbiters(1) _ _ p1 w1]
  have e1: "e1 = None" and pc: "abCache c1 ?k = Some 1"
    and ps: "ldb_get leveldb0 db1 BKTArbPositions = Inr (uint32ArrayToBytes [1])"
    using f by (auto simp: known_ok_def)
  obtain e2 b2 c2 where p2: "arb_BatchPut codec0 leveldb0 1 sample_keys [] db1 [] c1 = (e2, b2, c2)"
    by (metis prod_cases3)
  obtain db2 where w2: "ldb_write leveldb0 db1 b2 = (None, db2)" using write_leveldb0 by blast
  have "getCurrentPositions leveldb0 db1 = Inr [1]"
    using uint32Array_roundtrip [of "[1]"] by (simp add: getCurrentPositions_def ps)
  then have e2: "e2 = None" using p2 pc by (simp add: arb_BatchPut_def arb_batchPut_def Let_def)
  have n: "abCache (NewArbiters [] 36) ?k = None" "ldb_get leveldb0 [] (hash_key ?k) = Inl NotFound"
    by (simp_all add: NewArbiters_def leveldb0_def alist_get_def)
  have ne: "length (getValueBytes codec0 sample_keys []) \<noteq> 4" by (simp add: sample_set(1))
  have "read_arbiters codec0 (getValueBytes codec0 sample_keys []) = Inr (sample_keys, [])"
    using read_arbiters_value [OF codec0_ok sample_set(2,3)] by (simp add: sample_keys_def)
  then have "arb_get codec0 leveldb0 1 db1 = Inr (sample_keys, [])" "\<exists>e. arb_get codec0 leveldb0 1 db2 = Inl e"
    using arbiters_self_reference [OF leveldb0_ok n ne p1 [unfolded e1] w1 p2 [unfolded e2] w2] read_height by simp_all
  then show ?thesis using p1 w1 p2 w2 unfolding e1 e2 by blast
qed

theorem revert_takes_effect_witness:
  "\<exists>b c db. BatchPutRevertTransaction codec0 leveldb0 100 1 [] [] (NewArbiters [] 36) = (None, b, c) \<and>
     ldb_write leveldb0 [] b = (None, db) \<and>
     fst (GetConsensusAlgorithmByHeight codec0 leveldb0 100 db c) = Inr 1 \<and>
     fst (GetConsensusAlgorithmByHeight codec0 leveldb0 99 db c) = Inr 0"
proof -
  obtain e b c where p: "BatchPutRevertTransaction codec0 leveldb0 100 1 [] [] (NewArbiters [] 36) = (e, b, c)"
    by (metis prod_cases3)
  obtain db where w: "ldb_write leveldb0 [] b = (None, db)" using write_leveldb0 by blast
  have ok: "revert_ok codec0 leveldb0 [] (NewArbiters [] 36) []"
    by (simp add: revert_ok_def getCurrentRevertPositions_def NewArbiters_def leveldb0_def alist_get_def)
  have pos: "getCurrentRevertPosition leveldb0 [] = Inr 0"
    by (simp add: getCurrentRevertPosition_def leveldb0_def alist_get_def)
  have "fst (GetConsensusAlgorithmByHeight codec0 leveldb0 99 [] (NewArbiters [] 36)) = Inr 0"
    using GetConsensus_mode [OF ok] by simp
  with revert_takes_effect [OF codec0_ok leveldb0_ok ok _ pos _ p w] p w show ?thesis by auto
qed

end
