(* ===== verification/CustomID.thy ===== *)
theory CustomID
  imports Arbiters
begin

text \<open>
  The store of the custom IDs (\<open>interface/store/customid.go\<close>): names reserved or received by a
  proposal of the main chain, first under the hash of the proposal, and after its result among
  the accepted ones with the height of the result; the fee rates by working height; the return
  transactions of this side chain. The accepted names have a copy in memory, an association
  list here (Go iterates over the map in an unspecified order). \<open>byte(state.DPOS)\<close> of
  Elastos.ELA is the argument \<open>dpos\<close>.
\<close>

definition DefaultConfirmations :: u32 where
  "DefaultConfirmations = 6"

record custom_id_info =
  ciiDID :: uint168
  ciiHeight :: u32

record custom_id =
  ciB :: batch
  ciReserved :: "(string \<times> u32) list"
  ciReceived :: "(string \<times> custom_id_info) list"
  ciFeePos :: "u32 list"
  ciGenesisBlockAddress :: string

definition NewCustomID :: "string \<Rightarrow> custom_id" where
  "NewCustomID GenesisBlockAddress =
     \<lparr>ciB = [], ciReserved = [], ciReceived = [], ciFeePos = [], ciGenesisBlockAddress = GenesisBlockAddress\<rparr>"

subsection \<open>Reading and writing the entries\<close>

definition hash_entry :: "bytes \<Rightarrow> uint256 \<Rightarrow> bytes" where
  "hash_entry bucket proposalHash = toKey bucket (hash_bytes proposalHash)"

definition put_reserved_batch :: "codec \<Rightarrow> string list \<Rightarrow> uint256 \<Rightarrow> batch \<Rightarrow> batch" where
  "put_reserved_batch E ids proposalHash b =
     b @ [BPut (hash_entry BKTReservedCustomID proposalHash)
            (wVarUint E (word_of_nat (length ids)) @ concat (map (wVarString E) ids))]"

definition batchPutReservedCustomIDs :: "codec \<Rightarrow> custom_id \<Rightarrow> batch \<Rightarrow> batch" where
  "batchPutReservedCustomIDs E c b =
     b @ [BPut BKTReservedCustomID
            (wVarUint E (word_of_nat (length (ciReserved c))) @
             concat (map (\<lambda>(k, v). wVarString E k @ wU32 E v) (ciReserved c)))]"

definition put_received_batch :: "codec \<Rightarrow> string list \<Rightarrow> uint168 \<Rightarrow> uint256 \<Rightarrow> batch \<Rightarrow> batch" where
  "put_received_batch E ids did proposalHash b =
     b @ [BPut (hash_entry BKTReceivedCustomID proposalHash)
            (wU32 E (word_of_nat (length ids)) @ concat (map (\<lambda>k. wVarString E k @ wU168 E did) ids))]"

definition batchPutReceivedCustomIDs :: "codec \<Rightarrow> custom_id \<Rightarrow> batch \<Rightarrow> batch" where
  "batchPutReceivedCustomIDs E c b =
     b @ [BPut BKTReceivedCustomID
            (wU32 E (word_of_nat (length (ciReceived c))) @
             concat (map (\<lambda>(k, v). wVarString E k @ wU168 E (ciiDID v) @ wU32 E (ciiHeight v)) (ciReceived c)))]"

definition put_fee_batch :: "codec \<Rightarrow> u64 \<Rightarrow> u32 \<Rightarrow> uint256 \<Rightarrow> batch \<Rightarrow> batch" where
  "put_fee_batch E rate workingHeight proposalHash b =
     b @ [BPut (hash_entry BKTChangeCustomIDFee proposalHash) (wFixed64 E rate @ wU32 E workingHeight)]"

definition getCurrentCustomIDFeePositions :: "'d leveldb \<Rightarrow> 'd \<Rightarrow> goerror + u32 list" where
  "getCurrentCustomIDFeePositions L db =
     (case ldb_get L db BKTCustomIDFeePositions of Inl e \<Rightarrow> Inr [] | Inr pos \<Rightarrow> bytesToUint32Array pos)"

definition fee_key :: "codec \<Rightarrow> u32 \<Rightarrow> bytes" where
  "fee_key E workingHeight = toKey BKTChangeCustomIDFee (wU32 E workingHeight)"

definition batchPutChangeCustomIDFee ::
  "codec \<Rightarrow> 'd leveldb \<Rightarrow> u64 \<Rightarrow> u32 \<Rightarrow> 'd \<Rightarrow> batch \<Rightarrow> custom_id \<Rightarrow> goerror option \<times> batch \<times> custom_id" where
  "batchPutChangeCustomIDFee E L feeRate workingHeight db b c =
     (case getCurrentCustomIDFeePositions L db of
        Inl e \<Rightarrow> (Some e, b, c)
      | Inr posCache \<Rightarrow>
          (let c = c\<lparr>ciFeePos := filter (\<lambda>p. p < workingHeight) posCache @ [workingHeight]\<rparr>
           in (None, b @ [BPut BKTCustomIDFeePositions (uint32ArrayToBytes (ciFeePos c)),
                          BPut (fee_key E workingHeight) (wFixed64 E feeRate)], c)))"

text \<open>Reading \<open>count\<close> entries into a map: a later entry of a name replaces an earlier one.\<close>

definition read_map ::
  "(bytes \<Rightarrow> goerror + ('k \<times> 'v) \<times> bytes) \<Rightarrow> nat \<Rightarrow> bytes \<Rightarrow> goerror + ('k \<times> 'v) list" where
  "read_map r count bs =
     (case read_list r count bs of
        Inl e \<Rightarrow> Inl e
      | Inr (kvs, _) \<Rightarrow> Inr (fold (\<lambda>(k, v). AList.update k v) kvs []))"

definition read_unit :: "codec \<Rightarrow> bytes \<Rightarrow> goerror + (string \<times> unit) \<times> bytes" where
  "read_unit E bs = (case rVarString E bs of Inl e \<Rightarrow> Inl e | Inr (k, r) \<Rightarrow> Inr ((k, ()), r))"

definition read_height :: "codec \<Rightarrow> bytes \<Rightarrow> goerror + (string \<times> u32) \<times> bytes" where
  "read_height E bs =
     (case rVarString E bs of
        Inl e \<Rightarrow> Inl e
      | Inr (k, r) \<Rightarrow> (case rU32 E r of Inl e \<Rightarrow> Inl e | Inr (h, r) \<Rightarrow> Inr ((k, h), r)))"

definition read_did :: "codec \<Rightarrow> bytes \<Rightarrow> goerror + (string \<times> uint168) \<times> bytes" where
  "read_did E bs =
     (case rVarString E bs of
        Inl e \<Rightarrow> Inl e
      | Inr (k, r) \<Rightarrow> (case rU168 E r of Inl e \<Rightarrow> Inl e | Inr (d, r) \<Rightarrow> Inr ((k, d), r)))"

definition read_info :: "codec \<Rightarrow> bytes \<Rightarrow> goerror + (string \<times> custom_id_info) \<times> bytes" where
  "read_info E bs =
     (case read_did E bs of
        Inl e \<Rightarrow> Inl e
      | Inr ((k, d), r) \<Rightarrow>
          (case rU32 E r of Inl e \<Rightarrow> Inl e | Inr (h, r) \<Rightarrow> Inr ((k, \<lparr>ciiDID = d, ciiHeight = h\<rparr>), r)))"

definition getControversialReservedCustomIDsFromDB ::
  "codec \<Rightarrow> 'd leveldb \<Rightarrow> uint256 \<Rightarrow> 'd \<Rightarrow> goerror + (string \<times> unit) list" where
  "getControversialReservedCustomIDsFromDB E L proposalHash db =
     (case ldb_get L db (hash_entry BKTReservedCustomID proposalHash) of
        Inl e \<Rightarrow> Inl e
      | Inr val \<Rightarrow>
          (case rVarUint E val of Inl e \<Rightarrow> Inl e | Inr (count, r) \<Rightarrow> read_map (read_unit E) (unat count) r))"

definition getReservedCustomIDsFromDB :: "codec \<Rightarrow> 'd leveldb \<Rightarrow> 'd \<Rightarrow> goerror + (string \<times> u32) list" where
  "getReservedCustomIDsFromDB E L db =
     (case ldb_get L db BKTReservedCustomID of
        Inl e \<Rightarrow> if e = NotFound then Inr [] else Inl e
      | Inr val \<Rightarrow>
          (case rVarUint E val of Inl e \<Rightarrow> Inl e | Inr (count, r) \<Rightarrow> read_map (read_height E) (unat count) r))"

definition getControversialReceivedCustomIDsFromDB ::
  "codec \<Rightarrow> 'd leveldb \<Rightarrow> uint256 \<Rightarrow> 'd \<Rightarrow> goerror + (string \<times> uint168) list" where
  "getControversialReceivedCustomIDsFromDB E L proposalHash db =
     (case ldb_get L db (hash_entry BKTReceivedCustomID proposalHash) of
        Inl e \<Rightarrow> Inl e
      | Inr val \<Rightarrow>
          (case rU32 E val of Inl e \<Rightarrow> Inl e | Inr (count, r) \<Rightarrow> read_map (read_did E) (unat count) r))"

definition getReceivedCustomIDsFromDB :: "codec \<Rightarrow> 'd leveldb \<Rightarrow> 'd \<Rightarrow> goerror + (string \<times> custom_id_info) list" where
  "getReceivedCustomIDsFromDB E L db =
     (case ldb_get L db BKTReceivedCustomID of
        Inl e \<Rightarrow> if e = NotFound then Inr [] else Inl e
      | Inr val \<Rightarrow>
          (case rU32 E val of Inl e \<Rightarrow> Inl e | Inr (count, r) \<Rightarrow> read_map (read_info E) (unat count) r))"

definition getControversialCustomIDFeeRateByProposalHash ::
  "codec \<Rightarrow> 'd leveldb \<Rightarrow> uint256 \<Rightarrow> 'd \<Rightarrow> goerror + u64 \<times> u32" where
  "getControversialCustomIDFeeRateByProposalHash E L proposalHash db =
     (case ldb_get L db (hash_entry BKTChangeCustomIDFee proposalHash) of
        Inl e \<Rightarrow> Inl e
      | Inr val \<Rightarrow>
     (case rFixed64 E val of
        Inl e \<Rightarrow> Inl e
      | Inr (rate, r) \<Rightarrow> (case rU32 E r of Inl e \<Rightarrow> Inl e | Inr (workingHeight, _) \<Rightarrow> Inr (rate, workingHeight))))"

definition getControversialCustomIDFeeRateByHeight :: "codec \<Rightarrow> 'd leveldb \<Rightarrow> u32 \<Rightarrow> 'd \<Rightarrow> goerror + u64" where
  "getControversialCustomIDFeeRateByHeight E L workingHeight db =
     (case ldb_get L db (fee_key E workingHeight) of
        Inl e \<Rightarrow> Inl e
      | Inr val \<Rightarrow> (case rFixed64 E val of Inl e \<Rightarrow> Inl e | Inr (rate, _) \<Rightarrow> Inr rate))"

subsection \<open>Proposals and their results\<close>

definition PutControversialReservedCustomIDs ::
  "codec \<Rightarrow> 'd leveldb \<Rightarrow> string list \<Rightarrow> uint256 \<Rightarrow> 'd \<Rightarrow> goerror option \<times> 'd" where
  "PutControversialReservedCustomIDs E L ids proposalHash db = ldb_write L db (put_reserved_batch E ids proposalHash [])"

definition PutControversialReceivedCustomIDs ::
  "codec \<Rightarrow> 'd leveldb \<Rightarrow> string list \<Rightarrow> uint168 \<Rightarrow> uint256 \<Rightarrow> 'd \<Rightarrow> goerror option \<times> 'd" where
  "PutControversialReceivedCustomIDs E L ids did proposalHash db =
     ldb_write L db (put_received_batch E ids did proposalHash [])"

definition PutControversialChangeCustomIDFee ::
  "codec \<Rightarrow> 'd leveldb \<Rightarrow> u64 \<Rightarrow> uint256 \<Rightarrow> u32 \<Rightarrow> 'd \<Rightarrow> goerror option \<times> 'd" where
  "PutControversialChangeCustomIDFee E L rate proposalHash workingHeight db =
     ldb_write L db (put_fee_batch E rate workingHeight proposalHash [])"

definition BatchPutControversialReservedCustomIDs :: "codec \<Rightarrow> string list \<Rightarrow> uint256 \<Rightarrow> batch \<Rightarrow> batch" where
  "BatchPutControversialReservedCustomIDs E ids proposalHash b = put_reserved_batch E ids proposalHash b"

definition BatchDeleteControversialReservedCustomIDs :: "uint256 \<Rightarrow> batch \<Rightarrow> batch" where
  "BatchDeleteControversialReservedCustomIDs proposalHash b = b @ [BDel (hash_entry BKTReservedCustomID proposalHash)]"

definition BatchPutControversialReceivedCustomIDs :: "codec \<Rightarrow> string list \<Rightarrow> uint168 \<Rightarrow> uint256 \<Rightarrow> batch \<Rightarrow> batch" where
  "BatchPutControversialReceivedCustomIDs E ids did proposalHash b = put_received_batch E ids did proposalHash b"

definition BatchDeleteControversialReceivedCustomIDs :: "uint256 \<Rightarrow> batch \<Rightarrow> batch" where
  "BatchDeleteControversialReceivedCustomIDs proposalHash b = b @ [BDel (hash_entry BKTReceivedCustomID proposalHash)]"

definition BatchPutControversialChangeCustomIDFee :: "codec \<Rightarrow> u64 \<Rightarrow> uint256 \<Rightarrow> u32 \<Rightarrow> batch \<Rightarrow> batch" where
  "BatchPutControversialChangeCustomIDFee E rate proposalHash workingHeight b =
     put_fee_batch E rate workingHeight proposalHash b"

definition BatchDeleteControversialChangeCustomIDFee :: "uint256 \<Rightarrow> batch \<Rightarrow> batch" where
  "BatchDeleteControversialChangeCustomIDFee proposalHash b = b @ [BDel (hash_entry BKTChangeCustomIDFee proposalHash)]"

text \<open>The caches are filled from the database while they are empty.\<close>

definition init_reserved :: "codec \<Rightarrow> 'd leveldb \<Rightarrow> 'd \<Rightarrow> custom_id \<Rightarrow> goerror + custom_id" where
  "init_reserved E L db c =
     (if length (ciReserved c) = 0
      then (case getReservedCustomIDsFromDB E L db of Inl e \<Rightarrow> Inl e | Inr ids \<Rightarrow> Inr (c\<lparr>ciReserved := ids\<rparr>))
      else Inr c)"

definition init_received :: "codec \<Rightarrow> 'd leveldb \<Rightarrow> 'd \<Rightarrow> custom_id \<Rightarrow> goerror + custom_id" where
  "init_received E L db c =
     (if length (ciReceived c) = 0
      then (case getReceivedCustomIDsFromDB E L db of Inl e \<Rightarrow> Inl e | Inr ids \<Rightarrow> Inr (c\<lparr>ciReceived := ids\<rparr>))
      else Inr c)"

definition put_reserve_result ::
  "codec \<Rightarrow> 'd leveldb \<Rightarrow> proposal_result \<Rightarrow> u32 \<Rightarrow> 'd \<Rightarrow> batch \<Rightarrow> custom_id \<Rightarrow> goerror option \<times> batch \<times> custom_id" where
  "put_reserve_result E L r height db b c =
     (case init_reserved E L db c of
        Inl e \<Rightarrow> (Some e, b, c)
      | Inr c \<Rightarrow>
          if \<not> prResult r then (None, b, c)
          else (case getControversialReservedCustomIDsFromDB E L (prHash r) db of
                  Inl e \<Rightarrow> (Some e, b, c)
                | Inr ids \<Rightarrow>
                    (let c = c\<lparr>ciReserved := fold (\<lambda>(k, _). AList.update k height) ids (ciReserved c)\<rparr>
                     in (None, batchPutReservedCustomIDs E c b, c))))"

definition put_receive_result ::
  "codec \<Rightarrow> 'd leveldb \<Rightarrow> proposal_result \<Rightarrow> u32 \<Rightarrow> 'd \<Rightarrow> batch \<Rightarrow> custom_id \<Rightarrow> goerror option \<times> batch \<times> custom_id" where
  "put_receive_result E L r height db b c =
     (case init_received E L db c of
        Inl e \<Rightarrow> (Some e, b, c)
      | Inr c \<Rightarrow>
          if \<not> prResult r then (None, b, c)
          else (case getControversialReceivedCustomIDsFromDB E L (prHash r) db of
                  Inl e \<Rightarrow> (Some e, b, c)
                | Inr ids \<Rightarrow>
                    (let c = c\<lparr>ciReceived := fold (\<lambda>(k, v). AList.update k \<lparr>ciiDID = v, ciiHeight = height\<rparr>) ids (ciReceived c)\<rparr>
                     in (None, batchPutReceivedCustomIDs E c b, c))))"

definition put_fee_result ::
  "codec \<Rightarrow> 'd leveldb \<Rightarrow> proposal_result \<Rightarrow> 'd \<Rightarrow> batch \<Rightarrow> custom_id \<Rightarrow> goerror option \<times> batch \<times> custom_id" where
  "put_fee_result E L r db b c =
     (if \<not> prResult r then (None, b, c)
      else (case getControversialCustomIDFeeRateByProposalHash E L (prHash r) db of
              Inl e \<Rightarrow> (Some e, b, c)
            | Inr (rate, workingHeight) \<Rightarrow> batchPutChangeCustomIDFee E L rate workingHeight db b c))"

fun batchPutCustomIDProposalResults ::
  "codec \<Rightarrow> 'd leveldb \<Rightarrow> proposal_result list \<Rightarrow> u32 \<Rightarrow> 'd \<Rightarrow> batch \<Rightarrow> custom_id \<Rightarrow> goerror option \<times> batch \<times> custom_id" where
  "batchPutCustomIDProposalResults E L [] height db b c = (None, b, c)"
| "batchPutCustomIDProposalResults E L (r # rs) height db b c =
     (case (case prType r of
              ReserveCustomID \<Rightarrow> put_reserve_result E L r height db b c
            | ReceiveCustomID \<Rightarrow> put_receive_result E L r height db b c
            | ChangeCustomIDFee \<Rightarrow> put_fee_result E L r db b c
            | OtherProposal \<Rightarrow> (None, b, c)) of
        (Some e, b, c) \<Rightarrow> (Some e, b, c)
      | (None, b, c) \<Rightarrow> batchPutCustomIDProposalResults E L rs height db b c)"

definition PutCustomIDProposalResults ::
  "codec \<Rightarrow> 'd leveldb \<Rightarrow> proposal_result list \<Rightarrow> u32 \<Rightarrow> 'd \<Rightarrow> custom_id \<Rightarrow> goerror option \<times> 'd \<times> custom_id" where
  "PutCustomIDProposalResults E L results height db c =
     (case batchPutCustomIDProposalResults E L results height db [] c of
        (Some e, b, c) \<Rightarrow> (Some e, db, c)
      | (None, b, c) \<Rightarrow> (let (err, db) = ldb_write L db b in (err, db, c)))"

definition BatchPutCustomIDProposalResults ::
  "codec \<Rightarrow> 'd leveldb \<Rightarrow> proposal_result list \<Rightarrow> u32 \<Rightarrow> 'd \<Rightarrow> batch \<Rightarrow> custom_id \<Rightarrow> goerror option \<times> batch \<times> custom_id" where
  "BatchPutCustomIDProposalResults E L results height db b c = batchPutCustomIDProposalResults E L results height db b c"

subsection \<open>Confirmed proposals\<close>

text \<open>The decision after the loop over the consensus changes, and the loop.\<close>

definition confirm_end :: "u8 \<Rightarrow> u32 \<Rightarrow> u32 \<Rightarrow> u8 \<Rightarrow> u32 \<Rightarrow> bool \<Rightarrow> bool \<Rightarrow> bool" where
  "confirm_end dpos cur prop lastMode lastWorkingHeight reachedTheEnd began =
     (lastMode = dpos \<and>
      (if \<not> began then DefaultConfirmations \<le> cur - prop
       else \<not> reachedTheEnd \<and> DefaultConfirmations \<le> cur - lastWorkingHeight))"

fun confirm_loop :: "u8 \<Rightarrow> u32 \<Rightarrow> u32 \<Rightarrow> revert_info list \<Rightarrow> u8 \<Rightarrow> u32 \<Rightarrow> bool \<Rightarrow> bool" where
  "confirm_loop dpos cur prop [] lastMode lastWorkingHeight began =
     confirm_end dpos cur prop lastMode lastWorkingHeight False began"
| "confirm_loop dpos cur prop (r # rs) lastMode lastWorkingHeight began =
     (if prop < riWorkingHeight r then
        let reachedTheEnd = cur < riWorkingHeight r;
            calculateHeight = (if reachedTheEnd then cur else riWorkingHeight r)
        in if lastMode = dpos \<and>
              DefaultConfirmations \<le> (if lastWorkingHeight < prop then calculateHeight - prop else calculateHeight - lastWorkingHeight)
           then True
           else if reachedTheEnd then confirm_end dpos cur prop (riMode r) (riWorkingHeight r) True True
           else confirm_loop dpos cur prop rs (riMode r) (riWorkingHeight r) True
      else confirm_loop dpos cur prop rs (riMode r) (riWorkingHeight r) began)"

definition isProposalConfirmed :: "u8 \<Rightarrow> u32 \<Rightarrow> u32 \<Rightarrow> revert_info list \<Rightarrow> bool" where
  "isProposalConfirmed dpos currentHeight proposalHeight info =
     (if currentHeight \<le> proposalHeight then False
      else confirm_loop dpos currentHeight proposalHeight info 0 0 False)"

subsection \<open>Queries\<close>

definition getReservedCustomIDs ::
  "codec \<Rightarrow> 'd leveldb \<Rightarrow> u8 \<Rightarrow> u32 \<Rightarrow> revert_info list \<Rightarrow> 'd \<Rightarrow> custom_id \<Rightarrow> (goerror + string list) \<times> custom_id" where
  "getReservedCustomIDs E L dpos height info db c =
     (case init_reserved E L db c of
        Inl e \<Rightarrow> (Inl e, c)
      | Inr c \<Rightarrow> (Inr (map fst (filter (\<lambda>(k, v). isProposalConfirmed dpos height v info) (ciReserved c))), c))"

definition getReceivedCustomIDs ::
  "codec \<Rightarrow> 'd leveldb \<Rightarrow> u8 \<Rightarrow> u32 \<Rightarrow> revert_info list \<Rightarrow> 'd \<Rightarrow> custom_id \<Rightarrow> (goerror + (string \<times> uint168) list) \<times> custom_id" where
  "getReceivedCustomIDs E L dpos height info db c =
     (case init_received E L db c of
        Inl e \<Rightarrow> (Inl e, c)
      | Inr c \<Rightarrow>
          (Inr (map (\<lambda>(k, v). (k, ciiDID v)) (filter (\<lambda>(k, v). isProposalConfirmed dpos height (ciiHeight v) info) (ciReceived c))), c))"

definition findCustomIDWorkingHeightByCurrentHeight ::
  "'d leveldb \<Rightarrow> u32 \<Rightarrow> 'd \<Rightarrow> custom_id \<Rightarrow> (goerror + u32) \<times> custom_id" where
  "findCustomIDWorkingHeightByCurrentHeight L height db c =
     (case (if length (ciFeePos c) = 0 then getCurrentCustomIDFeePositions L db else Inr (ciFeePos c)) of
        Inl e \<Rightarrow> (Inl e, c)
      | Inr pos \<Rightarrow>
          (let c = c\<lparr>ciFeePos := pos\<rparr> in
           if length pos = 0 then (Inl (Failure ''have no customID fee from main chain proposal''), c)
           else (case List.find (\<lambda>p. p < height) (rev pos) of None \<Rightarrow> (Inr 0, c) | Some p \<Rightarrow> (Inr p, c))))"

definition getCustomIDFeeRate :: "codec \<Rightarrow> 'd leveldb \<Rightarrow> u32 \<Rightarrow> 'd \<Rightarrow> custom_id \<Rightarrow> (goerror + u64) \<times> custom_id" where
  "getCustomIDFeeRate E L height db c =
     (case findCustomIDWorkingHeightByCurrentHeight L height db c of
        (Inl e, c) \<Rightarrow> (Inl e, c)
      | (Inr workingHeight, c) \<Rightarrow> (getControversialCustomIDFeeRateByHeight E L workingHeight db, c))"

subsection \<open>Return transactions, clearing\<close>

text \<open>The loop over the outputs: \<open>op\<close> makes the record for a deposit of this side chain.\<close>

fun deposit_loop :: "string \<Rightarrow> (bytes \<Rightarrow> batch_op) \<Rightarrow> txoutput list \<Rightarrow> batch \<Rightarrow> goerror option \<times> batch" where
  "deposit_loop address op [] b = (None, b)"
| "deposit_loop address op (x # xs) b =
     (if \<not> outIsReturnDeposit x then deposit_loop address op xs b
      else (case outReturn x of
              None \<Rightarrow> (Some (Failure ''invalid ReturnSideChainDeposit output payload''), b)
            | Some (a, h) \<Rightarrow>
                if a \<noteq> address then deposit_loop address op xs b
                else deposit_loop address op xs (b @ [op (hash_entry BKTReturnSideChainDepositCoin h)])))"

definition BatchPutRetSideChainDepositCoinTx :: "txn \<Rightarrow> batch \<Rightarrow> custom_id \<Rightarrow> goerror option \<times> batch" where
  "BatchPutRetSideChainDepositCoinTx tx b c = deposit_loop (ciGenesisBlockAddress c) (\<lambda>k. BPut k [1]) (txOutputs tx) b"

definition BatchDeleteRetSideChainDepositCoinTx :: "txn \<Rightarrow> batch \<Rightarrow> custom_id \<Rightarrow> goerror option \<times> batch" where
  "BatchDeleteRetSideChainDepositCoinTx tx b c = deposit_loop (ciGenesisBlockAddress c) BDel (txOutputs tx) b"

definition HaveRetSideChainDepositCoinTx :: "'d leveldb \<Rightarrow> uint256 \<Rightarrow> 'd \<Rightarrow> bool" where
  "HaveRetSideChainDepositCoinTx L h db =
     (case ldb_get L db (hash_entry BKTReturnSideChainDepositCoin h) of Inl e \<Rightarrow> False | Inr v \<Rightarrow> True)"

text \<open>\<open>Clear\<close> collects deletes in a new batch and then writes the store's own batch.\<close>

definition cid_Clear :: "'d leveldb \<Rightarrow> 'd \<Rightarrow> custom_id \<Rightarrow> goerror option \<times> 'd" where
  "cid_Clear L db c =
     (let b = bucket_deletes L BKTReservedCustomID db @ bucket_deletes L BKTReceivedCustomID db @
              bucket_deletes L BKTChangeCustomIDFee db
      in ldb_write L db (ciB c))"

definition cid_Commit :: "'d leveldb \<Rightarrow> 'd \<Rightarrow> custom_id \<Rightarrow> goerror option \<times> 'd" where
  "cid_Commit L db c = ldb_write L db (ciB c)"

definition cid_Rollback :: "custom_id \<Rightarrow> custom_id" where
  "cid_Rollback c = c\<lparr>ciB := []\<rparr>"

subsection \<open>Confirmation as a run of blocks under one consensus\<close>

text \<open>The periods of the consensus algorithm: start, end (none for the last one) and mode.\<close>

fun periods :: "nat \<Rightarrow> u8 \<Rightarrow> revert_info list \<Rightarrow> (nat \<times> nat option \<times> u8) list" where
  "periods s m [] = [(s, None, m)]"
| "periods s m (r # rs) = (s, Some (unat (riWorkingHeight r)), m) # periods (unat (riWorkingHeight r)) (riMode r) rs"

text \<open>Six blocks after the proposal, up to the current height, in one period of DPOS.\<close>

fun confirming :: "u8 \<Rightarrow> nat \<Rightarrow> nat \<Rightarrow> nat \<times> nat option \<times> u8 \<Rightarrow> bool" where
  "confirming dpos cur prop (s, e, m) \<longleftrightarrow>
     m = dpos \<and> max s prop + 6 \<le> (case e of None \<Rightarrow> cur | Some x \<Rightarrow> min x cur)"

lemma periods_start:
  "sorted_wrt (<) (map riWorkingHeight rs) \<Longrightarrow> \<forall>r \<in> set rs. s \<le> unat (riWorkingHeight r) \<Longrightarrow>
   p \<in> set (periods s m rs) \<Longrightarrow> s \<le> fst p"
proof (induction rs arbitrary: s m)
  case Nil
  then show ?case by simp
next
  case (Cons r rs)
  show ?case
  proof (cases "p = (s, Some (unat (riWorkingHeight r)), m)")
    case False
    with Cons.prems(3) have "p \<in> set (periods (unat (riWorkingHeight r)) (riMode r) rs)" by simp
    moreover have "\<forall>x \<in> set rs. unat (riWorkingHeight r) \<le> unat (riWorkingHeight x)"
      using Cons.prems(1) by (auto simp: word_less_nat_alt intro: less_imp_le)
    ultimately have "unat (riWorkingHeight r) \<le> fst p" using Cons.IH Cons.prems(1) by simp
    with Cons.prems(2) show ?thesis by simp
  qed simp
qed

lemma unat_6: "DefaultConfirmations \<le> a - b \<longleftrightarrow> unat b + 6 \<le> unat a" if "b \<le> a"
  using that by (auto simp: DefaultConfirmations_def word_le_nat_alt unat_sub)

lemma confirm_loop_iff:
  assumes "prop < cur"
  shows "sorted_wrt (<) (map riWorkingHeight rs) \<Longrightarrow> \<forall>r \<in> set rs. lastWH \<le> riWorkingHeight r \<Longrightarrow>
    lastWH \<le> cur \<Longrightarrow> began \<longleftrightarrow> prop < lastWH \<Longrightarrow>
    confirm_loop dpos cur prop rs lastMode lastWH began \<longleftrightarrow>
      (\<exists>p \<in> set (periods (unat lastWH) lastMode rs). confirming dpos (unat cur) (unat prop) p)"
proof (induction rs arbitrary: lastWH lastMode began)
  case Nil
  have "prop \<le> cur" using assms by simp
  with Nil show ?case
    by (auto simp: confirm_end_def unat_6 word_less_nat_alt max_def)
next
  case (Cons r rs)
  let ?w = "riWorkingHeight r"
  have le: "lastWH \<le> ?w" and later: "\<forall>x \<in> set rs. ?w \<le> riWorkingHeight x" and srt: "sorted_wrt (<) (map riWorkingHeight rs)"
    using Cons.prems(1,2) by (auto intro: less_imp_le)
  show ?case
  proof (cases "prop < ?w")
    case False
    then have w: "?w \<le> prop" by simp
    then have "\<not> confirming dpos (unat cur) (unat prop) (unat lastWH, Some (unat ?w), lastMode)"
      by (auto simp: word_le_nat_alt)
    moreover have "began \<longleftrightarrow> prop < ?w" using False le Cons.prems(4) by auto
    moreover have "?w \<le> cur" using w assms by simp
    ultimately show ?thesis using False Cons.IH [OF srt later] by auto
  next
    case True
    let ?calc = "if cur < ?w then cur else ?w"
    have c: "lastWH \<le> ?calc" "prop \<le> ?calc" using le Cons.prems(3) True assms by auto
    have m: "unat ?calc = min (unat ?w) (unat cur)" by (auto simp: word_less_nat_alt min_def)
    have now: "lastMode = dpos \<and> DefaultConfirmations \<le> (if lastWH < prop then ?calc - prop else ?calc - lastWH) \<longleftrightarrow>
        confirming dpos (unat cur) (unat prop) (unat lastWH, Some (unat ?w), lastMode)"
      using unat_6 [OF c(1)] unat_6 [OF c(2)] by (auto simp: m [symmetric] max_def word_less_nat_alt)
    show ?thesis
    proof (cases "cur < ?w")
      case end': True
      have "\<not> confirming dpos (unat cur) (unat prop) p" if "p \<in> set (periods (unat ?w) (riMode r) rs)" for p
      proof -
        have "unat ?w \<le> fst p"
          using periods_start [OF srt _ that] later by (simp add: word_le_nat_alt)
        with end' show ?thesis by (cases p) (auto simp: word_less_nat_alt split: option.splits)
      qed
      with True end' now show ?thesis by (auto simp: Let_def confirm_end_def)
    next
      case False
      then have "?w \<le> cur" by simp
      from Cons.IH [OF srt later this, of True "riMode r"] True False now show ?thesis
        by (auto simp: Let_def)
    qed
  qed
qed

text \<open>C16: A proposal result is confirmed at a height exactly if six blocks after the result, up
  to that height, lie in one period of DPOS consensus.\<close>

theorem isProposalConfirmed_run:
  assumes "sorted_wrt (<) (map riWorkingHeight info)"
  shows "isProposalConfirmed dpos currentHeight proposalHeight info \<longleftrightarrow>
    (\<exists>p \<in> set (periods 0 0 info). confirming dpos (unat currentHeight) (unat proposalHeight) p)"
proof (cases "currentHeight \<le> proposalHeight")
  case True
  then have "\<not> confirming dpos (unat currentHeight) (unat proposalHeight) p" for p
    by (cases p) (auto simp: word_le_nat_alt split: option.splits)
  with True show ?thesis by (simp add: isProposalConfirmed_def)
next
  case False
  then have "proposalHeight < currentHeight" by simp
  from confirm_loop_iff [OF this assms, of 0 False dpos 0] False show ?thesis
    by (simp add: isProposalConfirmed_def)
qed

subsection \<open>Accepted names as a map\<close>

definition name_ok :: "string \<Rightarrow> bool" where
  "name_ok k \<longleftrightarrow> length k < 2 ^ 32"

lemma update_absent: "k \<notin> fst ` set xs \<Longrightarrow> AList.update k v xs = xs @ [(k, v)]"
  by (induction xs) auto

lemma fold_update_distinct:
  "distinct (map fst (xs @ ys)) \<Longrightarrow> fold (\<lambda>(k, v). AList.update k v) ys xs = xs @ ys"
proof (induction ys arbitrary: xs)
  case Nil
  then show ?case by simp
next
  case (Cons y ys)
  obtain k v where y: "y = (k, v)" by (cases y)
  have u: "AList.update k v xs = xs @ [(k, v)]" using Cons.prems y by (intro update_absent) auto
  have "distinct (map fst ((xs @ [(k, v)]) @ ys))" using Cons.prems y by auto
  from Cons.IH [OF this] show ?case by (simp add: y u)
qed

lemma fold_update_names:
  "map_of (fold (\<lambda>(k, _). AList.update k h) kvs xs) = (\<lambda>k. if k \<in> fst ` set kvs then Some h else map_of xs k)"
  by (induction kvs arbitrary: xs) (auto simp: update_conv')

lemma fold_update_names_distinct:
  "distinct (map fst xs) \<Longrightarrow> distinct (map fst (fold (\<lambda>(k, _). AList.update k h) kvs xs))"
  by (induction kvs arbitrary: xs) (auto simp: distinct_update)

lemma length_update: "length (AList.update k v xs) \<le> Suc (length xs)"
  by (induction xs) auto

lemma fold_update_names_length:
  "length (fold (\<lambda>(k, _). AList.update k h) kvs xs) \<le> length xs + length kvs"
proof (induction kvs arbitrary: xs)
  case Nil
  then show ?case by simp
next
  case (Cons y kvs)
  obtain k v where y: "y = (k, v)" by (cases y)
  from Cons.IH [of "AList.update k h xs"] length_update [of k h xs] show ?case by (simp add: y)
qed

lemma fold_update_set: "fst ` set (fold (\<lambda>(k, v). AList.update k v) kvs xs) = fst ` set kvs \<union> fst ` set xs"
  by (induction kvs arbitrary: xs) (simp_all add: dom_update case_prod_beta)

definition reserved_ok :: "codec \<Rightarrow> 'd leveldb \<Rightarrow> 'd \<Rightarrow> custom_id \<Rightarrow> (string \<rightharpoonup> u32) \<Rightarrow> bool" where
  "reserved_ok E L db c R \<longleftrightarrow>
     (\<exists>ids. getReservedCustomIDsFromDB E L db = Inr ids \<and> distinct (map fst ids) \<and> map_of ids = R \<and>
        (\<forall>k \<in> dom R. name_ok k) \<and> (ciReserved c = [] \<or> ciReserved c = ids))"

lemma reserved_ok_init:
  assumes "reserved_ok E L db c R"
  shows "\<exists>ids. init_reserved E L db c = Inr (c\<lparr>ciReserved := ids\<rparr>) \<and> distinct (map fst ids) \<and> map_of ids = R"
proof -
  obtain ids where i: "getReservedCustomIDsFromDB E L db = Inr ids" "distinct (map fst ids)" "map_of ids = R"
      "ciReserved c = [] \<or> ciReserved c = ids"
    using assms unfolding reserved_ok_def by blast
  then have "init_reserved E L db c = Inr (c\<lparr>ciReserved := ids\<rparr>)" by (auto simp: init_reserved_def)
  with i show ?thesis by blast
qed

lemma reserved_ok_reopen: "reserved_ok E L db c R \<Longrightarrow> reserved_ok E L db (NewCustomID g) R"
  by (auto simp: reserved_ok_def NewCustomID_def)

lemma getReservedCustomIDs_ok:
  assumes "reserved_ok E L db c R"
  shows "\<exists>ks. fst (getReservedCustomIDs E L dpos q info db c) = Inr ks \<and>
    set ks = {k. \<exists>h. R k = Some h \<and> isProposalConfirmed dpos q h info}"
proof -
  obtain ids where i: "init_reserved E L db c = Inr (c\<lparr>ciReserved := ids\<rparr>)" "distinct (map fst ids)" "map_of ids = R"
    using reserved_ok_init [OF assms] by blast
  have "set (map fst (filter (\<lambda>(k, v). isProposalConfirmed dpos q v info) ids)) = {k. \<exists>h. R k = Some h \<and> isProposalConfirmed dpos q h info}"
    using i(2) by (force simp: i(3) [symmetric] map_of_eq_Some_iff)
  then show ?thesis by (simp add: getReservedCustomIDs_def i(1))
qed

lemma hash_entry_keys [simp]:
  "hash_entry BKTReservedCustomID h \<noteq> BKTReservedCustomID" "BKTReservedCustomID \<noteq> hash_entry BKTReservedCustomID h"
proof -
  have "length (hash_entry BKTReservedCustomID h) \<noteq> length BKTReservedCustomID" by (simp add: hash_entry_def toKey_def)
  then show "hash_entry BKTReservedCustomID h \<noteq> BKTReservedCustomID" "BKTReservedCustomID \<noteq> hash_entry BKTReservedCustomID h"
    by metis+
qed

lemma controversial_read:
  assumes "codec_ok E" and "\<forall>k \<in> set ids. name_ok k" and "length ids < 2 ^ 64"
    and "ldb_get L db (hash_entry BKTReservedCustomID h) = Inr (wVarUint E (word_of_nat (length ids)) @ concat (map (wVarString E) ids))"
  shows "\<exists>kvs. getControversialReservedCustomIDsFromDB E L h db = Inr kvs \<and> fst ` set kvs = set ids \<and> length kvs \<le> length ids"
proof -
  have n: "unat (word_of_nat (length ids) :: u64) = length ids" using assms(3) by (intro unat_of_nat_small) simp
  let ?kvs = "map (\<lambda>k. (k, ())) ids"
  have "read_list (read_unit E) (length ?kvs) (concat (map (\<lambda>(k, _). wVarString E k) ?kvs) @ []) = Inr (?kvs, [])"
    using assms(1,2) by (intro read_list_written_on) (auto simp: read_unit_def codec_simps name_ok_def)
  then have "read_list (read_unit E) (length ids) (concat (map (wVarString E) ids)) = Inr (?kvs, [])"
    by (simp add: comp_def)
  then have g: "getControversialReservedCustomIDsFromDB E L h db = Inr (fold (\<lambda>(k, v). AList.update k v) ?kvs [])"
    using n assms(1,4) by (simp add: getControversialReservedCustomIDsFromDB_def read_map_def codec_simps)
  have "length (fold (\<lambda>(k, v). AList.update k v) (kvs :: (string \<times> unit) list) xs) \<le> length xs + length kvs" for kvs xs
    using fold_update_names_length [of "()" kvs xs] by (simp add: case_prod_beta)
  from this [of ?kvs "[]"] g fold_update_set [of ?kvs "[]"] show ?thesis by (force simp: image_image)
qed

lemma reserved_read:
  assumes "codec_ok E" and "distinct (map fst ids)" and "\<forall>k \<in> fst ` set ids. name_ok k" and "length ids < 2 ^ 64"
    and "ldb_get L db BKTReservedCustomID =
      Inr (wVarUint E (word_of_nat (length ids)) @ concat (map (\<lambda>(k, v). wVarString E k @ wU32 E v) ids))"
  shows "getReservedCustomIDsFromDB E L db = Inr ids"
proof -
  have n: "unat (word_of_nat (length ids) :: u64) = length ids" using assms(4) by (intro unat_of_nat_small) simp
  have "read_list (read_height E) (length ids) (concat (map (\<lambda>(k, v). wVarString E k @ wU32 E v) ids) @ []) = Inr (ids, [])"
    using assms(1,3) by (intro read_list_written_on) (force simp: read_height_def codec_simps name_ok_def)
  with n assms(1,2,5) fold_update_distinct [of "[]" ids] show ?thesis
    by (simp add: getReservedCustomIDsFromDB_def read_map_def codec_simps)
qed

text \<open>What writing the cache makes of the store.\<close>

lemma reserved_written:
  assumes "codec_ok E" and "leveldb_ok L" and d: "distinct (map fst ids)" and n: "\<forall>k \<in> fst ` set ids. name_ok k"
    and "length ids < 2 ^ 64" and "ciReserved c = ids" and "ldb_write L db (batchPutReservedCustomIDs E c []) = (None, db')"
  shows "reserved_ok E L db' c (map_of ids)"
proof -
  have "ldb_get L db' BKTReservedCustomID =
      Inr (wVarUint E (word_of_nat (length ids)) @ concat (map (\<lambda>(k, v). wVarString E k @ wU32 E v) ids))"
    using ldb_get_write [OF assms(2,7)] assms(6) by (simp add: batchPutReservedCustomIDs_def)
  from reserved_read [OF assms(1) d n assms(5) this] d n assms(6) show ?thesis
    by (auto simp: reserved_ok_def dom_map_of_conv_image_fst)
qed

definition reserved_proposal :: "codec \<Rightarrow> 'd leveldb \<Rightarrow> 'd \<Rightarrow> uint256 \<Rightarrow> string list \<Rightarrow> bool" where
  "reserved_proposal E L db h ids \<longleftrightarrow>
     ldb_get L db (hash_entry BKTReservedCustomID h) = Inr (wVarUint E (word_of_nat (length ids)) @ concat (map (wVarString E) ids))"

lemma reserved_accepted:
  assumes "codec_ok E" and "leveldb_ok L" and "reserved_ok E L db c R"
    and "\<forall>k \<in> set ids. name_ok k" and "length ids + card (dom R) < 2 ^ 64"
    and "PutControversialReservedCustomIDs E L ids h db = (None, db1)"
    and "BatchPutCustomIDProposalResults E L [\<lparr>prHash = h, prType = ReserveCustomID, prResult = True\<rparr>] height db1 [] c = (e, b, c')"
    and "ldb_write L db1 b = (None, db2)"
  shows "e = None" and "reserved_ok E L db2 c' (\<lambda>k. if k \<in> set ids then Some height else R k)"
    and "reserved_proposal E L db2 h ids"
proof -
  let ?R = "\<lambda>k. if k \<in> set ids then Some height else R k"
  obtain old where old: "getReservedCustomIDsFromDB E L db = Inr old" "distinct (map fst old)" "map_of old = R"
      "ciReserved c = [] \<or> ciReserved c = old" "\<forall>k \<in> dom R. name_ok k"
    using assms(3) unfolding reserved_ok_def by blast
  have g1: "ldb_get L db1 = batch_apply (put_reserved_batch E ids h []) (ldb_get L db)"
    using ldb_get_write [OF assms(2)] assms(6) by (simp add: PutControversialReservedCustomIDs_def)
  then have "ldb_get L db1 BKTReservedCustomID = ldb_get L db BKTReservedCustomID" by (simp add: put_reserved_batch_def)
  then have r1: "init_reserved E L db1 c = Inr (c\<lparr>ciReserved := old\<rparr>)"
    using old(1,4) by (auto simp: init_reserved_def getReservedCustomIDsFromDB_def)
  have li: "length ids < 2 ^ 64" using assms(5) by simp
  have gi: "ldb_get L db1 (hash_entry BKTReservedCustomID h) =
      Inr (wVarUint E (word_of_nat (length ids)) @ concat (map (wVarString E) ids))"
    using g1 by (simp add: put_reserved_batch_def)
  from controversial_read [OF assms(1,4) li gi] obtain kvs
    where kvs: "getControversialReservedCustomIDsFromDB E L h db1 = Inr kvs" "fst ` set kvs = set ids" "length kvs \<le> length ids"
    by blast
  let ?new = "fold (\<lambda>(k, _). AList.update k height) kvs old"
  have p: "e = None" "c' = c\<lparr>ciReserved := ?new\<rparr>" "b = batchPutReservedCustomIDs E (c\<lparr>ciReserved := ?new\<rparr>) []"
    using assms(7) by (auto simp: BatchPutCustomIDProposalResults_def put_reserve_result_def r1 kvs(1) Let_def)
  have m: "map_of ?new = ?R" unfolding fold_update_names kvs(2) old(3) ..
  have d: "distinct (map fst ?new)" by (rule fold_update_names_distinct [OF old(2)])
  have "card (dom R) = length old"
    using distinct_card [OF old(2)] by (simp add: old(3) [symmetric] dom_map_of_conv_image_fst)
  then have l: "length ?new < 2 ^ 64"
    using fold_update_names_length [of height kvs old] kvs(3) assms(5) by linarith
  have n: "\<forall>k \<in> dom ?R. name_ok k" using assms(4) old(5) by (auto split: if_splits)
  then have "\<forall>k \<in> fst ` set ?new. name_ok k" by (simp add: m [symmetric] dom_map_of_conv_image_fst)
  then show "reserved_ok E L db2 c' ?R"
    using reserved_written [OF assms(1,2) d _ l, of "c\<lparr>ciReserved := ?new\<rparr>" db1 db2] assms(8) p by (simp add: m)
  show "e = None" by (rule p(1))
  show "reserved_proposal E L db2 h ids"
    using ldb_get_write [OF assms(2,8)] gi by (simp add: reserved_proposal_def p(3) batchPutReservedCustomIDs_def)
qed

text \<open>C17: The names of a reservation proposal, stored when the proposal is seen, are reserved
  from its accepting result on, at the height of the result; every query answers exactly the
  names whose result is confirmed at the queried height, from the open store and from one
  opened anew, and the names reserved before are kept.\<close>

theorem reserved_custom_ids:
  assumes "codec_ok E" and "leveldb_ok L" and "reserved_ok E L db c R"
    and "\<forall>k \<in> set ids. name_ok k" and "length ids + card (dom R) < 2 ^ 64"
    and "PutControversialReservedCustomIDs E L ids h db = (None, db1)"
    and "BatchPutCustomIDProposalResults E L [\<lparr>prHash = h, prType = ReserveCustomID, prResult = True\<rparr>] height db1 [] c = (e, b, c')"
    and "ldb_write L db1 b = (None, db2)"
  shows "e = None \<and> reserved_ok E L db2 c' (\<lambda>k. if k \<in> set ids then Some height else R k) \<and>
    (\<forall>dpos q info. \<exists>ks ks'. fst (getReservedCustomIDs E L dpos q info db2 c') = Inr ks \<and>
      fst (getReservedCustomIDs E L dpos q info db2 (NewCustomID g)) = Inr ks' \<and> set ks' = set ks \<and>
      set ks = {k. \<exists>v. (if k \<in> set ids then Some height else R k) = Some v \<and> isProposalConfirmed dpos q v info})"
proof -
  let ?R = "\<lambda>k. if k \<in> set ids then Some height else R k"
  note ok = reserved_accepted(2) [OF assms]
  have "\<exists>ks ks'. fst (getReservedCustomIDs E L dpos q info db2 c') = Inr ks \<and>
      fst (getReservedCustomIDs E L dpos q info db2 (NewCustomID g)) = Inr ks' \<and> set ks' = set ks \<and>
      set ks = {k. \<exists>v. ?R k = Some v \<and> isProposalConfirmed dpos q v info}" for dpos q info
    using getReservedCustomIDs_ok [OF ok] getReservedCustomIDs_ok [OF reserved_ok_reopen [OF ok, of g]] by metis
  with reserved_accepted(1) [OF assms] ok show ?thesis by blast
qed

text \<open>The deposits of this side chain returned by a transaction.\<close>

definition deposits :: "string \<Rightarrow> txoutput list \<Rightarrow> uint256 set" where
  "deposits address outs = {h. \<exists>x \<in> set outs. outIsReturnDeposit x \<and> outReturn x = Some (address, h)}"

lemma deposit_loop_ok:
  "\<forall>x \<in> set outs. outIsReturnDeposit x \<longrightarrow> outReturn x \<noteq> None \<Longrightarrow>
   \<exists>hs. deposit_loop address op outs b = (None, b @ map (\<lambda>h. op (hash_entry BKTReturnSideChainDepositCoin h)) hs) \<and>
     set hs = deposits address outs"
proof (induction outs arbitrary: b)
  case Nil
  then show ?case by (simp add: deposits_def)
next
  case (Cons x outs)
  show ?case
  proof (cases "outIsReturnDeposit x \<and> (\<exists>h. outReturn x = Some (address, h))")
    case True
    then obtain h where h: "outIsReturnDeposit x" "outReturn x = Some (address, h)" by blast
    from Cons.IH [of "b @ [op (hash_entry BKTReturnSideChainDepositCoin h)]"] Cons.prems obtain hs
      where "deposit_loop address op outs (b @ [op (hash_entry BKTReturnSideChainDepositCoin h)]) =
          (None, (b @ [op (hash_entry BKTReturnSideChainDepositCoin h)]) @ map (\<lambda>h. op (hash_entry BKTReturnSideChainDepositCoin h)) hs)"
        "set hs = deposits address outs" by auto
    moreover have "deposits address (x # outs) = insert h (deposits address outs)" using h by (auto simp: deposits_def)
    ultimately show ?thesis using h by (intro exI [of _ "h # hs"]) simp
  next
    case False
    then have "deposits address (x # outs) = deposits address outs" by (auto simp: deposits_def)
    moreover have "deposit_loop address op (x # outs) b = deposit_loop address op outs b"
      using False Cons.prems by (auto split: option.splits)
    ultimately show ?thesis using Cons by simp
  qed
qed

lemma hash_entry_inj [simp]: "hash_entry b h = hash_entry b h' \<longleftrightarrow> h = h'"
  by (simp add: hash_entry_def)

text \<open>After a transaction is put, exactly the deposits it returns to this side chain have
  become known, and deleting the transaction when its block is rolled back makes them unknown
  again; other deposits are not affected.\<close>

theorem return_deposits:
  assumes "leveldb_ok L" and "\<forall>x \<in> set (txOutputs tx). outIsReturnDeposit x \<longrightarrow> outReturn x \<noteq> None"
    and "BatchPutRetSideChainDepositCoinTx tx [] c = (e, b)" and "ldb_write L db b = (None, db1)"
    and "BatchDeleteRetSideChainDepositCoinTx tx [] c = (e', b')" and "ldb_write L db1 b' = (None, db2)"
  shows "e = None \<and> e' = None \<and>
    (\<forall>h. HaveRetSideChainDepositCoinTx L h db1 \<longleftrightarrow>
       h \<in> deposits (ciGenesisBlockAddress c) (txOutputs tx) \<or> HaveRetSideChainDepositCoinTx L h db) \<and>
    (\<forall>h. HaveRetSideChainDepositCoinTx L h db2 \<longleftrightarrow>
       h \<notin> deposits (ciGenesisBlockAddress c) (txOutputs tx) \<and> HaveRetSideChainDepositCoinTx L h db)"
proof -
  let ?a = "ciGenesisBlockAddress c" and ?k = "hash_entry BKTReturnSideChainDepositCoin"
  obtain hs where hs: "e = None" "b = map (\<lambda>h. BPut (?k h) [1]) hs" "set hs = deposits ?a (txOutputs tx)"
    using deposit_loop_ok [OF assms(2), of ?a "\<lambda>k. BPut k [1]" "[]"] assms(3)
    by (auto simp: BatchPutRetSideChainDepositCoinTx_def)
  obtain hs' where hs': "e' = None" "b' = map (\<lambda>h. BDel (?k h)) hs'" "set hs' = deposits ?a (txOutputs tx)"
    using deposit_loop_ok [OF assms(2), of ?a BDel "[]"] assms(5)
    by (auto simp: BatchDeleteRetSideChainDepositCoinTx_def)
  have p: "batch_apply (map (\<lambda>h. BPut (?k h) [1]) xs) f (?k h) = (if h \<in> set xs then Inr [1] else f (?k h))" for xs f h
    by (induction xs arbitrary: f) auto
  have g1: "ldb_get L db1 (?k h) = (if h \<in> set hs then Inr [1] else ldb_get L db (?k h))" for h
    using ldb_get_write [OF assms(1,4)] by (simp add: hs(2) p)
  have g2: "ldb_get L db2 (?k h) = (if h \<in> set hs' then Inl NotFound else ldb_get L db1 (?k h))" for h
    using ldb_get_write [OF assms(1,6)] batch_apply_deletes [of "map ?k hs'" "ldb_get L db1"]
    unfolding hs'(2) by (auto simp: image_iff comp_def)
  show ?thesis
    using hs(1) hs'(1) unfolding HaveRetSideChainDepositCoinTx_def g2 g1 hs(3) hs'(3) by (auto split: sum.splits)
qed

text \<open>Clearing the store of custom IDs deletes nothing: the deletes are collected in one batch
  and another one, empty unless someone filled it, is written.\<close>

theorem cid_Clear_deletes_nothing:
  assumes "leveldb_ok L" and "ciB c = []" and "cid_Clear L db c = (None, db')"
  shows "ldb_get L db' = ldb_get L db"
  using ldb_get_write [OF assms(1), of db "[]" db'] assms(2,3) by (simp add: cid_Clear_def)

subsection \<open>Witnesses\<close>

theorem isProposalConfirmed_run_witness:
  "isProposalConfirmed 0 16 10 [\<lparr>riWorkingHeight = 12, riMode = 1\<rparr>] = False \<and>
   isProposalConfirmed 0 16 10 [\<lparr>riWorkingHeight = 20, riMode = 1\<rparr>] = True"
  using isProposalConfirmed_run [of "[\<lparr>riWorkingHeight = 12, riMode = 1\<rparr>]" 0 16 10]
    isProposalConfirmed_run [of "[\<lparr>riWorkingHeight = 20, riMode = 1\<rparr>]" 0 16 10] by simp

lemma empty_reserved: "reserved_ok codec0 leveldb0 [] (NewCustomID g) Map.empty"
  by (simp add: reserved_ok_def NewCustomID_def getReservedCustomIDsFromDB_def leveldb0_def alist_get_def)

theorem reserved_custom_ids_witness:
  "\<exists>db1 b c db2 ks. PutControversialReservedCustomIDs codec0 leveldb0 [''ela''] 5 [] = (None, db1) \<and>
     BatchPutCustomIDProposalResults codec0 leveldb0 [\<lparr>prHash = 5, prType = ReserveCustomID, prResult = True\<rparr>] 10 db1 []
       (NewCustomID []) = (None, b, c) \<and> ldb_write leveldb0 db1 b = (None, db2) \<and>
     fst (getReservedCustomIDs codec0 leveldb0 0 16 [] db2 c) = Inr ks \<and> set ks = {''ela''}"
proof -
  obtain db1 where 1: "PutControversialReservedCustomIDs codec0 leveldb0 [''ela''] 5 [] = (None, db1)"
    using write_leveldb0 by (auto simp: PutControversialReservedCustomIDs_def)
  obtain e b c where 2: "BatchPutCustomIDProposalResults codec0 leveldb0
      [\<lparr>prHash = 5, prType = ReserveCustomID, prResult = True\<rparr>] 10 db1 [] (NewCustomID []) = (e, b, c)"
    by (metis prod_cases3)
  obtain db2 where 3: "ldb_write leveldb0 db1 b = (None, db2)" using write_leveldb0 by blast
  have n: "\<forall>k \<in> set [''ela'']. name_ok k" by (simp add: name_ok_def)
  have c: "isProposalConfirmed 0 16 10 []"
    by (simp add: isProposalConfirmed_def confirm_end_def DefaultConfirmations_def)
  note r = reserved_custom_ids [OF codec0_ok leveldb0_ok empty_reserved n _ 1 2 3]
  have e: "e = None" using r by simp
  obtain ks where ks: "fst (getReservedCustomIDs codec0 leveldb0 0 16 [] db2 c) = Inr ks"
      "set ks = {k. \<exists>v. (if k \<in> set [''ela''] then Some 10 else Map.empty k) = Some v \<and> isProposalConfirmed 0 16 v []}"
    using r by fastforce
  have "set ks = {''ela''}" unfolding ks(2) using c by auto
  with ks(1) 1 2 3 show ?thesis unfolding e by blast
qed

definition deposit_tx :: txn where
  "deposit_tx = \<lparr>txHash = 3, txType = ReturnSideChainDepositCoin, txInputs = [],
     txOutputs = [\<lparr>outAssetID = 0, outProgramHash = 0, outValue = 1, outOutputLock = 0, outIsReturnDeposit = True,
       outReturn = Some (''X'', 8)\<rparr>], txPayload = PReturnSideChainDepositCoin\<rparr>"

theorem return_deposits_witness:
  "\<exists>b db1 b' db2. BatchPutRetSideChainDepositCoinTx deposit_tx [] (NewCustomID ''X'') = (None, b) \<and>
     ldb_write leveldb0 [] b = (None, db1) \<and> HaveRetSideChainDepositCoinTx leveldb0 8 db1 \<and>
     BatchDeleteRetSideChainDepositCoinTx deposit_tx [] (NewCustomID ''X'') = (None, b') \<and>
     ldb_write leveldb0 db1 b' = (None, db2) \<and> \<not> HaveRetSideChainDepositCoinTx leveldb0 8 db2"
proof -
  obtain e b where 1: "BatchPutRetSideChainDepositCoinTx deposit_tx [] (NewCustomID ''X'') = (e, b)" by fastforce
  obtain db1 where 2: "ldb_write leveldb0 [] b = (None, db1)" using write_leveldb0 by blast
  obtain e' b' where 3: "BatchDeleteRetSideChainDepositCoinTx deposit_tx [] (NewCustomID ''X'') = (e', b')" by fastforce
  obtain db2 where 4: "ldb_write leveldb0 db1 b' = (None, db2)" using write_leveldb0 by blast
  have "8 \<in> deposits (ciGenesisBlockAddress (NewCustomID ''X'')) (txOutputs deposit_tx)"
    by (simp add: deposits_def deposit_tx_def NewCustomID_def)
  with return_deposits [OF leveldb0_ok _ 1 2 3 4] 1 2 3 4 show ?thesis
    by (auto simp: deposit_tx_def)
qed

theorem cid_Clear_deletes_nothing_witness:
  "\<exists>db. cid_Clear leveldb0 [(BKTReservedCustomID, [])] (NewCustomID []) = (None, db) \<and>
     ldb_get leveldb0 db BKTReservedCustomID = Inr []"
proof -
  obtain db where c: "cid_Clear leveldb0 [(BKTReservedCustomID, [])] (NewCustomID []) = (None, db)"
    by (simp add: cid_Clear_def leveldb0_def)
  have "ldb_get leveldb0 db = ldb_get leveldb0 [(BKTReservedCustomID, [])]"
    by (rule cid_Clear_deletes_nothing [OF leveldb0_ok _ c]) (simp add: NewCustomID_def)
  moreover have "ldb_get leveldb0 [(BKTReservedCustomID, [])] BKTReservedCustomID = Inr []"
    by (simp add: leveldb0_def alist_get_def)
  ultimately show ?thesis using c by simp
qed

end
