(* ===== verification/DataStore.thy ===== *)
theory DataStore
  imports CustomID
begin

text \<open>
  The data store of the SPV service (\<open>interface/store/datastore.go\<close>) and its batches
  (\<open>interface/store/databatch.go\<close>). The stores of the previous theories share one database;
  each keeps its own state in memory, a field of \<open>data_store\<close>. A batch shares the store of
  the custom IDs with the data store, so its operations return that store too.
\<close>

subsection \<open>interface/store/datastore.go\<close>

record 'd data_store =
  dsDb :: 'd
  dsAddrs :: addr_filter
  dsTps :: txtypes_filter
  dsArs :: arbiters
  dsCid :: custom_id

text \<open>Opening the database is goleveldb's; \<open>opened\<close> is its result.\<close>

definition NewDataStore ::
  "codec \<Rightarrow> 'd leveldb \<Rightarrow> goerror + 'd \<Rightarrow> bytes list \<Rightarrow> int \<Rightarrow> string \<Rightarrow> goerror + 'd data_store" where
  "NewDataStore E L opened originArbiters arbitersCount GenesisBlockAddress =
     (case opened of
        Inl e \<Rightarrow> Inl e
      | Inr db \<Rightarrow>
     (case NewAddrs E L db of
        Inl e \<Rightarrow> Inl e
      | Inr a \<Rightarrow>
     (case NewTxTypes L db of
        Inl e \<Rightarrow> Inl e
      | Inr t \<Rightarrow>
          Inr \<lparr>dsDb = db, dsAddrs = adFilter a, dsTps = ttFilter t,
               dsArs = NewArbiters originArbiters arbitersCount, dsCid = NewCustomID GenesisBlockAddress\<rparr>)))"

text \<open>The stores of addresses and of types, as parts of the data store.\<close>

definition ds_Addrs :: "'d data_store \<Rightarrow> 'd addrs" where
  "ds_Addrs s = \<lparr>adDb = dsDb s, adFilter = dsAddrs s\<rparr>"

definition ds_TxTypes :: "'d data_store \<Rightarrow> 'd txtypes" where
  "ds_TxTypes s = \<lparr>ttDb = dsDb s, ttFilter = dsTps s\<rparr>"

definition ds_Addrs_Put :: "'d leveldb \<Rightarrow> uint168 \<Rightarrow> 'd data_store \<Rightarrow> goerror option \<times> 'd data_store" where
  "ds_Addrs_Put L addr s =
     (let (err, a) = addrs_Put L addr (ds_Addrs s) in (err, s\<lparr>dsDb := adDb a, dsAddrs := adFilter a\<rparr>))"

definition ds_TxTypes_Put :: "'d leveldb \<Rightarrow> u8 \<Rightarrow> 'd data_store \<Rightarrow> goerror option \<times> 'd data_store" where
  "ds_TxTypes_Put L tp s =
     (let (err, a) = txtypes_Put L tp (ds_TxTypes s) in (err, s\<lparr>dsDb := ttDb a, dsTps := ttFilter a\<rparr>))"

text \<open>\<open>Clear\<close> drops the error of clearing the queue, deletes every key and leaves the states in
  memory as they are.\<close>

definition ds_Clear :: "'d leveldb \<Rightarrow> 'd data_store \<Rightarrow> goerror option \<times> 'd data_store" where
  "ds_Clear L s =
     (let (_, db) = que_Clear L (dsDb s);
          (err, db) = ldb_write L db (bucket_deletes L [] db)
      in (err, s\<lparr>dsDb := db\<rparr>))"

subsection \<open>interface/store/databatch.go\<close>

text \<open>\<open>Txs()\<close> of a batch makes a new \<open>txsBatch\<close> on the records of the batch in every call,
  so what \<open>Put\<close> remembers for the index of the heights is dropped.\<close>

definition dataBatch_Txs_Put :: "codec \<Rightarrow> utiltx \<Rightarrow> batch \<Rightarrow> batch" where
  "dataBatch_Txs_Put E t b = tbBatch (txsBatch_Put E t \<lparr>tbBatch = b, tbAddTxs = [], tbDelTxs = []\<rparr>)"

definition delete_reserve_result ::
  "codec \<Rightarrow> 'd leveldb \<Rightarrow> proposal_result \<Rightarrow> 'd \<Rightarrow> batch \<Rightarrow> custom_id \<Rightarrow> goerror option \<times> batch \<times> custom_id" where
  "delete_reserve_result E L r db b c =
     (case init_reserved E L db c of
        Inl e \<Rightarrow> (Some e, b, c)
      | Inr c \<Rightarrow>
          if \<not> prResult r then (None, b, c)
          else (case getControversialReservedCustomIDsFromDB E L (prHash r) db of
                  Inl e \<Rightarrow> (Some e, b, c)
                | Inr ids \<Rightarrow>
                    (let c = c\<lparr>ciReserved := fold (\<lambda>(k, _). AList.delete k) ids (ciReserved c)\<rparr>
                     in (None, batchPutReservedCustomIDs E c b, c))))"

definition delete_receive_result ::
  "codec \<Rightarrow> 'd leveldb \<Rightarrow> proposal_result \<Rightarrow> 'd \<Rightarrow> batch \<Rightarrow> custom_id \<Rightarrow> goerror option \<times> batch \<times> custom_id" where
  "delete_receive_result E L r db b c =
     (case init_received E L db c of
        Inl e \<Rightarrow> (Some e, b, c)
      | Inr c \<Rightarrow>
          if \<not> prResult r then (None, b, c)
          else (case getControversialReceivedCustomIDsFromDB E L (prHash r) db of
                  Inl e \<Rightarrow> (Some e, b, c)
                | Inr ids \<Rightarrow>
                    (let c = c\<lparr>ciReceived := fold (\<lambda>(k, _). AList.delete k) ids (ciReceived c)\<rparr>
                     in (None, batchPutReceivedCustomIDs E c b, c))))"

fun delete_results ::
  "codec \<Rightarrow> 'd leveldb \<Rightarrow> proposal_result list \<Rightarrow> 'd \<Rightarrow> batch \<Rightarrow> custom_id \<Rightarrow> goerror option \<times> batch \<times> custom_id" where
  "delete_results E L [] db b c = (None, b, c)"
| "delete_results E L (r # rs) db b c =
     (case (case prType r of
              ReserveCustomID \<Rightarrow> delete_reserve_result E L r db b c
            | ReceiveCustomID \<Rightarrow> delete_receive_result E L r db b c
            | ChangeCustomIDFee \<Rightarrow> (None, b, c)
            | OtherProposal \<Rightarrow> (None, b, c)) of
        (Some e, b, c) \<Rightarrow> (Some e, b, c)
      | (None, b, c) \<Rightarrow> delete_results E L rs db b c)"

definition DeleteCustomID ::
  "codec \<Rightarrow> 'd leveldb \<Rightarrow> txn \<Rightarrow> 'd \<Rightarrow> batch \<Rightarrow> custom_id \<Rightarrow> goerror option \<times> batch \<times> custom_id" where
  "DeleteCustomID E L tx db b c =
     (case txType tx of
        ReturnSideChainDepositCoin \<Rightarrow>
          if txPayload tx \<noteq> PReturnSideChainDepositCoin
          then (Some (Failure ''invalid ReturnSideChainDepositCoin tx''), b, c)
          else (None, snd (BatchDeleteRetSideChainDepositCoinTx tx b c), c)
      | CRCProposal \<Rightarrow>
          (case txPayload tx of
             PCRCProposal p \<Rightarrow>
               (None,
                case cpType p of
                  ReserveCustomID \<Rightarrow> BatchDeleteControversialReservedCustomIDs (cpHash p) b
                | ReceiveCustomID \<Rightarrow> BatchDeleteControversialReceivedCustomIDs (cpHash p) b
                | ChangeCustomIDFee \<Rightarrow> BatchDeleteControversialChangeCustomIDFee (cpHash p) b
                | OtherProposal \<Rightarrow> b, c)
           | _ \<Rightarrow> (Some (Failure ''invalid crc proposal tx''), b, c))
      | ProposalResult \<Rightarrow>
          (case txPayload tx of
             PRecordProposalResult rs \<Rightarrow> delete_results E L rs db b c
           | _ \<Rightarrow> (Some (Failure ''invalid custom ID result tx''), b, c))
      | _ \<Rightarrow> (None, b, c))"

text \<open>The loop over the transactions of a height.\<close>

fun delete_txs ::
  "codec \<Rightarrow> 'd leveldb \<Rightarrow> uint256 list \<Rightarrow> 'd \<Rightarrow> batch \<Rightarrow> custom_id \<Rightarrow> goerror option \<times> batch \<times> custom_id" where
  "delete_txs E L [] db b c = (None, b, c)"
| "delete_txs E L (txId # ids) db b c =
     (case ldb_get L db (toKey BKTTxs (hash_bytes txId)) of
        Inl e \<Rightarrow> (Some e, b, c)
      | Inr data \<Rightarrow>
     (case utx_Deserialize E data of
        Inl e \<Rightarrow> (Some e, b, c)
      | Inr (utx, _) \<Rightarrow>
          if \<not> GetTransactionOk E (utxRawData utx)
          then (Some (Failure ''deseralize transaction file failed''), b, c)
          else
     (case rTx E (utxRawData utx) of
        Inl e \<Rightarrow> (Some e, b, c)
      | Inr (tx, _) \<Rightarrow>
     (case DeleteCustomID E L tx db b c of
        (Some e, b, c) \<Rightarrow> (Some e, b, c)
      | (None, b, c) \<Rightarrow>
          delete_txs E L ids db
            (b @ map (\<lambda>i. BDel (toKey BKTOps (ElaOutPointBytes E (utxHash utx) (word_of_nat i)))) [0..<length (txOutputs tx)] @
             [BDel (toKey BKTTxs (hash_bytes txId))]) c))))"

definition dataBatch_DelAll ::
  "codec \<Rightarrow> 'd leveldb \<Rightarrow> u32 \<Rightarrow> 'd \<Rightarrow> batch \<Rightarrow> custom_id \<Rightarrow> goerror option \<times> batch \<times> custom_id" where
  "dataBatch_DelAll E L height db b c =
     (case getTxIds (get_or_empty L db (height_key height)) of
        Inl e \<Rightarrow> (Some e, b, c)
      | Inr ids \<Rightarrow>
     (case delete_txs E L ids db b c of
        (Some e, b, c) \<Rightarrow> (Some e, b, c)
      | (None, b, c) \<Rightarrow>
          (let (err, b) = queBatch_DelAll L height db (b @ [BDel (height_key height)]) in (err, b, c))))"

definition dataBatch_Commit :: "'d leveldb \<Rightarrow> batch \<Rightarrow> 'd \<Rightarrow> goerror option \<times> 'd" where
  "dataBatch_Commit L b db = ldb_write L db b"

definition dataBatch_Rollback :: "batch \<Rightarrow> batch" where
  "dataBatch_Rollback b = []"

subsection \<open>Records beside the transactions\<close>

text \<open>The buckets of the arbiters and of the custom IDs, apart from those of the transactions,
  outpoints and the queue.\<close>

definition side_buckets :: "bytes list" where
  "side_buckets =
     [BKTReservedCustomID, BKTReceivedCustomID, BKTChangeCustomIDFee, BKTCustomIDFeePositions,
      BKTReturnSideChainDepositCoin, BKTArbPosition, BKTArbPositions, BKTArbitersData, BKTTransactionHeight,
      BKTRevertPosition, BKTRevertPositions]"

definition side_key :: "bytes \<Rightarrow> bool" where
  "side_key k \<longleftrightarrow> (\<exists>b \<in> set side_buckets. prefix b k)"

lemma side_keyI:
  "side_key (hash_entry BKTReservedCustomID h)" "side_key BKTReservedCustomID"
  "side_key (hash_entry BKTReceivedCustomID h)" "side_key BKTReceivedCustomID"
  "side_key (hash_entry BKTChangeCustomIDFee h)" "side_key (fee_key E w)" "side_key BKTCustomIDFeePositions"
  "side_key (hash_entry BKTReturnSideChainDepositCoin h)"
  "side_key BKTArbPosition" "side_key BKTArbPositions" "side_key (data_key height)" "side_key (hash_key hash)"
  "side_key BKTRevertPosition" "side_key BKTRevertPositions"
  by (simp_all add: side_key_def side_buckets_def hash_entry_def fee_key_def data_key_def hash_key_def)

lemma side_key_apart:
  assumes "side_key k"
  shows "\<not> prefix BKTTxs k" and "\<not> prefix BKTOps k" and "\<not> prefix BKTQue k" and "\<not> prefix BKTQueIdx k"
    and "\<not> prefix BKTHeightTxs k"
proof -
  obtain s where s: "s \<in> set side_buckets" "prefix s k" using assms by (auto simp: side_key_def)
  have p: "\<not> prefix b k" if "\<forall>s \<in> set side_buckets. apart b s" for b
  proof
    assume "prefix b k"
    from prefix_same_cases [OF this s(2)] have "prefix b s \<or> prefix s b" .
    with that s(1) show False by (auto simp: apart_def)
  qed
  show "\<not> prefix BKTTxs k" "\<not> prefix BKTOps k" "\<not> prefix BKTQue k" "\<not> prefix BKTQueIdx k" "\<not> prefix BKTHeightTxs k"
    by (rule p; simp add: side_buckets_def apart_def bkt_simps str_bytes_def)+
qed

definition side_extends :: "batch \<Rightarrow> batch \<Rightarrow> bool" where
  "side_extends b b' \<longleftrightarrow> (\<exists>xs. b' = b @ xs \<and> (\<forall>x \<in> set xs. side_key (op_key x)))"

lemma side_extends_refl [simp]: "side_extends b b"
  by (simp add: side_extends_def)

lemma side_extends_trans: "side_extends a b \<Longrightarrow> side_extends b c \<Longrightarrow> side_extends a c"
  by (force simp: side_extends_def)

lemma side_extends_append: "\<forall>x \<in> set xs. side_key (op_key x) \<Longrightarrow> side_extends b (b @ xs)"
  by (auto simp: side_extends_def)

lemma deposit_loop_side:
  "(\<And>k. op_key (op k) = k) \<Longrightarrow> side_extends b (snd (deposit_loop a op outs b))"
proof (induction outs arbitrary: b)
  case Nil
  then show ?case by simp
next
  case (Cons x outs)
  have "side_extends b (b @ [op (hash_entry BKTReturnSideChainDepositCoin h)])" for h
    using Cons.prems by (intro side_extends_append) (simp add: side_keyI)
  with Cons show ?case by (auto split: option.split intro: side_extends_trans)
qed

lemma delete_results_side:
  "delete_results E L rs db b c = (e, b', c') \<Longrightarrow> side_extends b b'"
proof (induction rs arbitrary: b c)
  case Nil
  then show ?case by simp
next
  case (Cons r rs)
  have 1: "side_extends b b1" if "delete_reserve_result E L r db b c = (e1, b1, c1)" for e1 b1 c1
    using that by (auto simp: delete_reserve_result_def batchPutReservedCustomIDs_def side_keyI Let_def
        split: sum.splits if_splits intro!: side_extends_append)
  have 2: "side_extends b b1" if "delete_receive_result E L r db b c = (e1, b1, c1)" for e1 b1 c1
    using that by (auto simp: delete_receive_result_def batchPutReceivedCustomIDs_def side_keyI Let_def
        split: sum.splits if_splits intro!: side_extends_append)
  show ?case
    using Cons.prems by (auto split: proposal_type.splits prod.splits option.splits
        dest!: 1 2 Cons.IH intro: side_extends_trans)
qed

lemma DeleteCustomID_side:
  assumes "DeleteCustomID E L tx db b c = (e, b', c')"
  shows "side_extends b b'"
proof -
  have d: "side_extends b (snd (BatchDeleteRetSideChainDepositCoinTx tx b c))"
    by (simp add: BatchDeleteRetSideChainDepositCoinTx_def deposit_loop_side)
  show ?thesis
    using assms d
    by (auto simp: DeleteCustomID_def BatchDeleteControversialReservedCustomIDs_def
        BatchDeleteControversialReceivedCustomIDs_def BatchDeleteControversialChangeCustomIDFee_def side_keyI
        split: txtype.splits payload.splits proposal_type.splits if_splits
        intro!: side_extends_append dest: delete_results_side)
qed

subsection \<open>Deleting the transactions of a height\<close>

lemma ElaOutPointBytes_outpoint:
  "codec_ok E \<Longrightarrow> ElaOutPointBytes E h i = outpoint_Bytes E (NewOutPoint h i)"
  by (simp add: codec_simps outpoint_Bytes_def outpoint_Serialize_def NewOutPoint_def)

text \<open>The transaction behind a stored hash.\<close>

definition stored_as :: "codec \<Rightarrow> (uint256 \<rightharpoonup> utiltx) \<Rightarrow> uint256 \<Rightarrow> txn \<Rightarrow> bool" where
  "stored_as E M h tx \<longleftrightarrow> (\<exists>t. M h = Some t \<and> utxRawData t = wTx E tx)"

definition outpoints_of :: "uint256 \<Rightarrow> txn \<Rightarrow> outpoint set" where
  "outpoints_of h tx = (\<lambda>i. NewOutPoint h (word_of_nat i)) ` {0..<length (txOutputs tx)}"

definition tx_records :: "codec \<Rightarrow> (uint256 \<Rightarrow> txn) \<Rightarrow> uint256 \<Rightarrow> bytes set" where
  "tx_records E T h = insert (toKey BKTTxs (hash_bytes h)) ((\<lambda>op. toKey BKTOps (outpoint_Bytes E op)) ` outpoints_of h (T h))"

text \<open>The records a batch gains: besides those of the arbiters and the custom IDs, it deletes
  the keys of a set.\<close>

definition deletes_beside :: "bytes set \<Rightarrow> batch \<Rightarrow> bool" where
  "deletes_beside K xs \<longleftrightarrow>
     (\<forall>k v. BPut k v \<in> set xs \<longrightarrow> side_key k) \<and> (\<forall>k. \<not> side_key k \<longrightarrow> (BDel k \<in> set xs \<longleftrightarrow> k \<in> K))"

lemma deletes_beside_append:
  "deletes_beside K xs \<Longrightarrow> deletes_beside K' ys \<Longrightarrow> deletes_beside (K \<union> K') (xs @ ys)"
  by (auto simp: deletes_beside_def)

lemma deletes_beside_side: "\<forall>x \<in> set xs. side_key (op_key x) \<Longrightarrow> deletes_beside {} xs"
  by (force simp: deletes_beside_def)

lemma deletes_beside_deletes: "deletes_beside (set ks) (map BDel ks)"
  by (auto simp: deletes_beside_def)

lemma delete_txs_spec:
  assumes E: "codec_ok E" and h: "txs_ok E (ldb_get L db) M I"
  shows "\<forall>x \<in> set ids. stored_as E M x (T x) \<Longrightarrow> delete_txs E L ids db b c = (None, b', c') \<Longrightarrow>
    \<exists>xs. b' = b @ xs \<and> deletes_beside (\<Union> (tx_records E T ` set ids)) xs"
proof (induction ids arbitrary: b c)
  case Nil
  then show ?case by (auto simp: deletes_beside_def)
next
  case (Cons x ids)
  obtain t where t: "M x = Some t" "utxRawData t = wTx E (T x)" using Cons.prems(1) by (auto simp: stored_as_def)
  have u: "utxHash t = x" "length (utxRawData t) \<le> unat (MaxBlockContextSize E)"
    using h t(1) by (auto simp: txs_ok_def tx_fits_def)
  have m: "bucket_map (ldb_get L db) BKTTxs hash_bytes (\<lambda>h. utx_Serialize E) M" using h by (simp add: txs_ok_def)
  have g: "ldb_get L db (toKey BKTTxs (hash_bytes x)) = Inr (utx_Serialize E t)"
    using txs_map.map_look [OF E m, of x "utx_Serialize E t"] t(1) by simp
  have k: "GetTransactionOk E (wTx E (T x))" "rTx E (wTx E (T x)) = Inr (T x, [])" using E by (simp_all add: codec_simps)
  have ut: "utx_Deserialize E (utx_Serialize E t) = Inr (t, [])" using E u(2) by simp
  let ?ks = "map (\<lambda>i. toKey BKTOps (outpoint_Bytes E (NewOutPoint x (word_of_nat i)))) [0..<length (txOutputs (T x))] @
    [toKey BKTTxs (hash_bytes x)]"
  obtain b1 c1 where d: "DeleteCustomID E L (T x) db b c = (None, b1, c1)"
      "delete_txs E L ids db (b1 @ map BDel ?ks) c1 = (None, b', c')"
    using Cons.prems(2) E by (auto simp: g ut t(2) u(1) k comp_def ElaOutPointBytes_outpoint split: prod.splits option.splits)
  obtain ys where ys: "b1 = b @ ys" "\<forall>y \<in> set ys. side_key (op_key y)"
    using DeleteCustomID_side [OF d(1)] by (auto simp: side_extends_def)
  obtain xs where xs: "b' = (b1 @ map BDel ?ks) @ xs" "deletes_beside (\<Union> (tx_records E T ` set ids)) xs"
    using Cons.IH [OF _ d(2)] Cons.prems(1) by auto
  have s: "set ?ks = tx_records E T x" by (auto simp: tx_records_def outpoints_of_def)
  have "deletes_beside ({} \<union> tx_records E T x \<union> \<Union> (tx_records E T ` set ids)) ((ys @ map BDel ?ks) @ xs)"
    unfolding s [symmetric] by (intro deletes_beside_append deletes_beside_side deletes_beside_deletes ys(2) xs(2))
  then show ?case unfolding xs(1) ys(1) by (intro exI [of _ "ys @ map BDel ?ks @ xs"]) simp
qed

text \<open>The effect of such records on the buckets.\<close>

lemma deletes_beside_bucket:
  assumes "deletes_beside K xs" and "\<And>k. prefix b k \<Longrightarrow> \<not> side_key k"
  shows "BPut k v \<in> set xs \<Longrightarrow> \<not> prefix b k" and "BDel (toKey b k) \<in> set xs \<longleftrightarrow> toKey b k \<in> K"
  using assms by (auto simp: deletes_beside_def)

lemma txs_ok_deletes_beside:
  assumes h: "txs_ok E f M I" and d: "deletes_beside K xs"
  shows "txs_ok E (batch_apply xs f) (M |` {h. toKey BKTTxs (hash_bytes h) \<notin> K})
    (\<lambda>h. if height_key h \<in> K then [] else I h)"
proof -
  have n: "prefix BKTTxs k \<Longrightarrow> \<not> side_key k" "prefix BKTHeightTxs k \<Longrightarrow> \<not> side_key k" for k
    using side_key_apart by blast+
  note 1 = deletes_beside_bucket [OF d n(1)]
  have 2: "BPut (height_key h) v \<notin> set xs" "BDel (height_key h) \<in> set xs \<longleftrightarrow> height_key h \<in> K" for h v
    using d n(2) [of "height_key h"] by (auto simp: deletes_beside_def height_key_def)
  have "(\<lambda>h. if toKey BKTTxs (hash_bytes h) \<in> K then None else M h) = M |` {h. toKey BKTTxs (hash_bytes h) \<notin> K}"
    by (auto simp: restrict_map_def)
  then have "bucket_map (batch_apply xs f) BKTTxs hash_bytes (\<lambda>h. utx_Serialize E) (M |` {h. toKey BKTTxs (hash_bytes h) \<notin> K})"
    using txs_map.map_only_deletes [of f E M xs] h 1 by (simp add: txs_ok_def)
  moreover have "batch_apply xs f (height_key h) = (if height_key h \<in> K then Inl NotFound else f (height_key h))" for h
    using batch_apply_key_deletes [of "height_key h" xs f] 2 by simp
  ultimately show ?thesis using h by (auto simp: txs_ok_def restrict_map_def ids_at_def)
qed

lemma ops_holds_deletes_beside:
  assumes h: "ops_holds E f m" and d: "deletes_beside K xs"
  shows "ops_holds E (batch_apply xs f) (m |` {op. toKey BKTOps (outpoint_Bytes E op) \<notin> K})"
proof -
  have n: "prefix BKTOps k \<Longrightarrow> \<not> side_key k" for k using side_key_apart by blast
  have "(\<lambda>op. if toKey BKTOps (outpoint_Bytes E op) \<in> K then None else m op) = m |` {op. toKey BKTOps (outpoint_Bytes E op) \<notin> K}"
    by (auto simp: restrict_map_def)
  with ops_map.map_only_deletes [OF h, of xs] deletes_beside_bucket [OF d n] show ?thesis by simp
qed

lemma queBatch_DelAll_records:
  assumes "leveldb_ok L"
  shows "\<exists>ks. queBatch_DelAll L h db b = (None, b @ map BDel ks) \<and> (\<forall>k \<in> set ks. prefix BKTQue k \<or> prefix BKTQueIdx k)"
proof -
  let ?pre = "toKey BKTQueIdx (be_bytes4 h)"
  let ?ks = "concat (map (\<lambda>(k, v). [toKey BKTQue (subKey ?pre k), k]) (ldb_iter L db ?pre))"
  have "queBatch_DelAll L h db b = (None, b @ map BDel ?ks)"
    by (simp add: queBatch_DelAll_def Let_def map_concat comp_def split_def)
  moreover have "\<forall>k \<in> set ?ks. prefix BKTQue k \<or> prefix BKTQueIdx k"
    using ldb_iter_set [OF assms] by (auto simp: toKey_def prefix_def)
  ultimately show ?thesis by blast
qed

lemma que_ok_others:
  assumes "que_ok f q J" and "\<And>x. x \<in> set xs \<Longrightarrow> \<not> prefix BKTQue (op_key x) \<and> \<not> prefix BKTQueIdx (op_key x)"
  shows "que_ok (batch_apply xs f) q J"
  using assms unfolding que_ok_def by (simp add: bucket_map_others)

lemma que_exact_others:
  assumes "que_exact f q" and "\<And>x. x \<in> set xs \<Longrightarrow> \<not> prefix BKTQue (op_key x) \<and> \<not> prefix BKTQueIdx (op_key x)"
  shows "que_exact (batch_apply xs f) q"
  using assms unfolding que_exact_def que_ok_def by (simp add: bucket_map_others)

lemma deletes_beside_op_key: "deletes_beside K xs \<Longrightarrow> x \<in> set xs \<Longrightarrow> side_key (op_key x) \<or> op_key x \<in> K"
  by (cases x) (auto simp: deletes_beside_def)

lemma bucket_keys_apart [simp]:
  "\<not> prefix BKTQue (toKey BKTTxs k)" "\<not> prefix BKTQueIdx (toKey BKTTxs k)" "\<not> prefix BKTQue (toKey BKTOps k)"
  "\<not> prefix BKTQueIdx (toKey BKTOps k)" "\<not> prefix BKTQue (height_key h)" "\<not> prefix BKTQueIdx (height_key h)"
  "toKey BKTOps k \<noteq> toKey BKTTxs k'" "toKey BKTTxs k \<noteq> toKey BKTOps k'" "height_key h \<noteq> toKey BKTOps k" "toKey BKTOps k \<noteq> height_key h"
  by (simp_all add: toKey_def height_key_def bkt_simps str_bytes_def)

lemma DelAll_records:
  assumes "codec_ok E" and "leveldb_ok L" and "txs_ok E (ldb_get L db) M I"
    and "length (I h) \<le> 2047" and "\<forall>x \<in> set (I h). stored_as E M x (T x)"
    and "dataBatch_DelAll E L h db [] c = (None, b, c')"
  shows "\<exists>b1 ks. deletes_beside (\<Union> (tx_records E T ` set (I h)) \<union> {height_key h}) b1 \<and>
    queBatch_DelAll L h db b1 = (None, b) \<and> b = b1 @ map BDel ks \<and> (\<forall>k \<in> set ks. prefix BKTQue k \<or> prefix BKTQueIdx k)"
proof -
  obtain b1 where 1: "delete_txs E L (I h) db [] c = (None, b1, c')"
      "queBatch_DelAll L h db (b1 @ [BDel (height_key h)]) = (None, b)"
    using assms(6) getTxIds_ids [OF txs_ok_at [OF assms(3)] assms(4)]
    by (auto simp: dataBatch_DelAll_def split: prod.splits option.splits)
  have b1: "deletes_beside (\<Union> (tx_records E T ` set (I h))) b1"
    using delete_txs_spec [OF assms(1,3,5) 1(1)] by auto
  have "deletes_beside (\<Union> (tx_records E T ` set (I h)) \<union> {height_key h}) (b1 @ [BDel (height_key h)])"
    using deletes_beside_append [OF b1 deletes_beside_deletes [of "[height_key h]"]] by simp
  with 1(2) queBatch_DelAll_records [OF assms(2), of h db "b1 @ [BDel (height_key h)]"] show ?thesis by fastforce
qed

lemma DelAll_txs_ops:
  assumes "codec_ok E" and "txs_ok E f M I" and "ops_holds E f m"
    and d: "deletes_beside (\<Union> (tx_records E T ` X) \<union> {height_key h}) b1"
    and ks: "\<forall>k \<in> set ks. prefix BKTQue k \<or> prefix BKTQueIdx k"
  shows "txs_ok E (batch_apply (b1 @ map BDel ks) f) (M |` (- X)) (I(h := []))"
    and "ops_holds E (batch_apply (b1 @ map BDel ks) f) (m |` (- (\<Union>x \<in> X. outpoints_of x (T x))))"
proof -
  let ?K = "\<Union> (tx_records E T ` X) \<union> {height_key h}"
  have D: "deletes_beside (?K \<union> set ks) (b1 @ map BDel ks)"
    by (intro deletes_beside_append deletes_beside_deletes d)
  have n: "toKey BKTTxs k \<notin> set ks" "toKey BKTOps k \<notin> set ks" "height_key h' \<notin> set ks" for k h'
    using ks by (fastforce simp: toKey_def bkt_simps str_bytes_def height_key_def)+
  have kt: "toKey BKTTxs (hash_bytes x) \<in> ?K \<union> set ks \<longleftrightarrow> x \<in> X" for x
    using n by (auto simp: tx_records_def)
  have kh: "height_key x \<in> ?K \<union> set ks \<longleftrightarrow> x = h" for x
    using n by (auto simp: tx_records_def)
  have ko: "toKey BKTOps (outpoint_Bytes E op) \<in> ?K \<union> set ks \<longleftrightarrow> op \<in> (\<Union>x \<in> X. outpoints_of x (T x))" for op
    using n outpoint_Bytes_inj [OF assms(1)] by (auto simp: tx_records_def)
  show "txs_ok E (batch_apply (b1 @ map BDel ks) f) (M |` (- X)) (I(h := []))"
    using txs_ok_deletes_beside [OF assms(2) D] unfolding kt kh by (simp add: Compl_eq fun_upd_def)
  show "ops_holds E (batch_apply (b1 @ map BDel ks) f) (m |` (- (\<Union>x \<in> X. outpoints_of x (T x))))"
    using ops_holds_deletes_beside [OF assms(3) D] unfolding ko by (simp only: Compl_eq)
qed

text \<open>The items of the queue that a rollback of a height keeps: those without an entry of this height
  in the queue's index. While the index is exact these are the items of the other heights.\<close>

definition without_entry :: "u32 \<Rightarrow> (u32 \<times> uint256 \<times> uint256) set \<Rightarrow> queue \<Rightarrow> queue" where
  "without_entry h J q = (\<lambda>(n, t). if (h, n, t) \<in> J then None else q (n, t))"

lemma without_entry_exact: "without_entry h {(h, n, t). \<exists>l. q (n, t) = Some (h, l)} q = drop_height h q"
  by (auto simp: without_entry_def drop_height_def fun_eq_iff split: option.split)

lemma DelAll_records_removed:
  assumes "codec_ok E" and "leveldb_ok L" and "txs_ok E (ldb_get L db) M I" and "ops_holds E (ldb_get L db) m"
    and "que_ok (ldb_get L db) q J" and "length (I h) \<le> 2047" and "\<forall>x \<in> set (I h). stored_as E M x (T x)"
    and "dataBatch_DelAll E L h db [] c = (None, b, c')" and "dataBatch_Commit L b db = (None, db')"
  shows "txs_ok E (ldb_get L db') (M |` (- set (I h))) (I(h := []))"
    and "ops_holds E (ldb_get L db') (m |` (- (\<Union>x \<in> set (I h). outpoints_of x (T x))))"
    and "que_ok (ldb_get L db') (without_entry h J q) {x \<in> J. fst x \<noteq> h}"
proof -
  obtain b1 ks where b1: "deletes_beside (\<Union> (tx_records E T ` set (I h)) \<union> {height_key h}) b1"
      "queBatch_DelAll L h db b1 = (None, b)" "b = b1 @ map BDel ks" "\<forall>k \<in> set ks. prefix BKTQue k \<or> prefix BKTQueIdx k"
    using DelAll_records [OF assms(1-3,6-8)] by blast
  have g: "ldb_get L db' = batch_apply b (ldb_get L db)"
    using ldb_get_write [OF assms(2)] assms(9) by (simp add: dataBatch_Commit_def)
  have "que_ok (batch_apply b1 (ldb_get L db)) q J"
    using deletes_beside_op_key [OF b1(1)] side_key_apart
    by (intro que_ok_others [OF assms(5)]) (fastforce simp: tx_records_def)
  from queBatch_DelAll_ok [OF assms(2,5) this, of h]
  have "que_ok (ldb_get L db') (without_entry h J q) {x \<in> J. \<not> (fst x = h \<and> x \<in> J)}"
    by (simp only: b1(2) g snd_conv without_entry_def)
  moreover have "{x \<in> J. \<not> (fst x = h \<and> x \<in> J)} = {x \<in> J. fst x \<noteq> h}" by blast
  ultimately show "que_ok (ldb_get L db') (without_entry h J q) {x \<in> J. fst x \<noteq> h}" by simp
  show "txs_ok E (ldb_get L db') (M |` (- set (I h))) (I(h := []))"
    "ops_holds E (ldb_get L db') (m |` (- (\<Union>x \<in> set (I h). outpoints_of x (T x))))"
    using DelAll_txs_ops [OF assms(1,3,4) b1(1,4)] unfolding g b1(3) by blast+
qed

text \<open>C18: Rolling a block back with the data store's batch removes exactly the transactions in the
  index of its height (at most 2047 of them, stored as they were serialized), the outpoints of their outputs, and the
  queued items that have an entry of the height in the queue's index; all other transactions, outpoints,
  items and index entries stay. While the index of the queue is exact, the removed items are those
  queued at the height. The index need not be exact: a receipt for an item that was notified leaves
  its entry behind, and then the item of the same listener and transaction is removed also when it was queued
  again at another height.\<close>

theorem DelAll_removes_height:
  assumes "codec_ok E" and "leveldb_ok L" and "txs_ok E (ldb_get L db) M I" and "ops_holds E (ldb_get L db) m"
    and "que_ok (ldb_get L db) q J" and "length (I h) \<le> 2047" and "\<forall>x \<in> set (I h). stored_as E M x (T x)"
    and "dataBatch_DelAll E L h db [] c = (None, b, c')" and "dataBatch_Commit L b db = (None, db')"
  shows "txs_ok E (ldb_get L db') (M |` (- set (I h))) (I(h := [])) \<and>
    ops_holds E (ldb_get L db') (m |` (- (\<Union>x \<in> set (I h). outpoints_of x (T x)))) \<and>
    que_ok (ldb_get L db') (\<lambda>(n, t). if (h, n, t) \<in> J then None else q (n, t)) {x \<in> J. fst x \<noteq> h} \<and>
    (que_exact (ldb_get L db) q \<longrightarrow> que_exact (ldb_get L db') (drop_height h q))"
proof -
  have "que_exact (ldb_get L db') (drop_height h q)" if "que_exact (ldb_get L db) q"
  proof -
    let ?J = "{(h, n, t). \<exists>l. q (n, t) = Some (h, l)}"
    have "{x \<in> ?J. fst x \<noteq> h} = {(h', n, t). \<exists>l. drop_height h q (n, t) = Some (h', l)}" by auto
    with DelAll_records_removed(3) [OF assms(1-4) _ assms(6-9), of q ?J] that show ?thesis
      unfolding que_exact_def without_entry_exact by simp
  qed
  with DelAll_records_removed [OF assms] show ?thesis unfolding without_entry_def by blast
qed

lemma fold_delete_names:
  "map_of (fold (\<lambda>(k, _). AList.delete k) kvs xs) = map_of xs |` (- fst ` set kvs)"
proof (induction kvs arbitrary: xs)
  case Nil
  then show ?case by simp
next
  case (Cons y kvs)
  obtain k v where y: "y = (k, v)" by (cases y)
  have "(map_of xs)(k := None) |` (- fst ` set kvs) = map_of xs |` (- fst ` set (y # kvs))"
    by (simp add: y restrict_map_def fun_eq_iff)
  then show ?case unfolding y fold_Cons comp_apply prod.case Cons.IH delete_conv' .
qed

lemma fold_delete_names_distinct:
  "distinct (map fst xs) \<Longrightarrow> distinct (map fst (fold (\<lambda>(k, _). AList.delete k) kvs xs))"
  by (induction kvs arbitrary: xs) (auto simp: distinct_delete)

lemma fold_delete_names_length: "length (fold (\<lambda>(k, _). AList.delete k) kvs xs) \<le> length xs"
proof (induction kvs arbitrary: xs)
  case Nil
  then show ?case by simp
next
  case (Cons y kvs)
  obtain k v where y: "y = (k, v)" by (cases y)
  from Cons.IH [of "AList.delete k xs"] length_delete_le [of k xs] show ?case by (simp add: y)
qed

lemma reserved_rolled_back:
  assumes "codec_ok E" and "leveldb_ok L" and "reserved_ok E L db c R" and "reserved_proposal E L db h ids"
    and "\<forall>k \<in> set ids. name_ok k" and "length ids < 2 ^ 64" and "card (dom R) < 2 ^ 64"
    and "delete_results E L [\<lparr>prHash = h, prType = ReserveCustomID, prResult = True\<rparr>] db [] c = (e, b, c')"
    and "ldb_write L db b = (None, db')"
  shows "e = None" and "reserved_ok E L db' c' (R |` (- set ids))"
proof -
  obtain old where old: "init_reserved E L db c = Inr (c\<lparr>ciReserved := old\<rparr>)" "distinct (map fst old)" "map_of old = R"
    using reserved_ok_init [OF assms(3)] by blast
  obtain kvs where kvs: "getControversialReservedCustomIDsFromDB E L h db = Inr kvs" "fst ` set kvs = set ids"
    using controversial_read [OF assms(1,5,6) assms(4) [unfolded reserved_proposal_def]] by blast
  let ?new = "fold (\<lambda>(k, _). AList.delete k) kvs old"
  have p: "e = None" "c' = c\<lparr>ciReserved := ?new\<rparr>" "b = batchPutReservedCustomIDs E (c\<lparr>ciReserved := ?new\<rparr>) []"
    using assms(8) by (auto simp: delete_reserve_result_def old(1) kvs(1) Let_def)
  have m: "map_of ?new = R |` (- set ids)" unfolding fold_delete_names kvs(2) old(3) ..
  have "card (dom R) = length old"
    using distinct_card [OF old(2)] by (simp add: old(3) [symmetric] dom_map_of_conv_image_fst)
  then have l: "length ?new < 2 ^ 64" using fold_delete_names_length [of kvs old] assms(7) by linarith
  have "\<forall>k \<in> dom (R |` (- set ids)). name_ok k" using assms(3) by (auto simp: reserved_ok_def)
  then have n: "\<forall>k \<in> fst ` set ?new. name_ok k" by (simp add: m [symmetric] dom_map_of_conv_image_fst)
  show "e = None" by (rule p(1))
  show "reserved_ok E L db' c' (R |` (- set ids))"
    using reserved_written [OF assms(1,2) fold_delete_names_distinct [OF old(2)] n l, of c' db db'] assms(9)
    by (simp add: p m)
qed

text \<open>Rolling the block of an accepting result back, after the names of the proposal were
  reserved by it, leaves exactly the earlier reservations of other names: names that an earlier
  proposal had reserved as well are no longer reserved.\<close>

theorem DeleteCustomID_undoes_result:
  assumes "codec_ok E" and "leveldb_ok L" and "reserved_ok E L db c R"
    and "\<forall>k \<in> set ids. name_ok k" and "length ids + card (dom R) < 2 ^ 63"
    and "txType tx = ProposalResult"
    and "txPayload tx = PRecordProposalResult [\<lparr>prHash = h, prType = ReserveCustomID, prResult = True\<rparr>]"
    and "PutControversialReservedCustomIDs E L ids h db = (None, db1)"
    and "BatchPutCustomIDProposalResults E L [\<lparr>prHash = h, prType = ReserveCustomID, prResult = True\<rparr>] height db1 [] c = (e, b, c')"
    and "ldb_write L db1 b = (None, db2)"
    and "DeleteCustomID E L tx db2 [] c' = (e', b', c'')" and "ldb_write L db2 b' = (None, db3)"
  shows "e' = None \<and> reserved_ok E L db3 c'' (R |` (- set ids))"
proof -
  let ?R = "\<lambda>k. if k \<in> set ids then Some height else R k"
  have l: "length ids + card (dom R) < 2 ^ 64" using assms(5) by simp
  note a = reserved_accepted [OF assms(1-4) l assms(8-10)]
  have "dom ?R \<subseteq> set ids \<union> dom R" by (auto split: if_splits)
  moreover have "finite (dom R)" using assms(3) by (auto simp: reserved_ok_def finite_dom_map_of)
  ultimately have "card (dom ?R) \<le> card (set ids \<union> dom R)" by (intro card_mono) auto
  also have "\<dots> \<le> length ids + card (dom R)"
    using card_Un_le [of "set ids" "dom R"] card_length [of ids] by linarith
  finally have c: "card (dom ?R) < 2 ^ 64" using l by simp
  have "delete_results E L [\<lparr>prHash = h, prType = ReserveCustomID, prResult = True\<rparr>] db2 [] c' = (e', b', c'')"
    using assms(6,7,11) by (simp add: DeleteCustomID_def)
  from reserved_rolled_back [OF assms(1,2) a(2,3) assms(4) _ c this assms(12)] l
  have "e' = None \<and> reserved_ok E L db3 c'' (?R |` (- set ids))" by simp
  moreover have "?R |` (- set ids) = R |` (- set ids)" by (auto simp: restrict_map_def)
  ultimately show ?thesis by simp
qed

text \<open>Clearing the data store empties the database and keeps what is in memory: the watched
  addresses and types and the reserved names are answered as before.\<close>

theorem ds_Clear_keeps_memory:
  assumes "leveldb_ok L" and "ds_Clear L s = (None, s')"
  shows "(\<forall>k v. ldb_get L (dsDb s') k \<noteq> Inr v) \<and> dsAddrs s' = dsAddrs s \<and> dsTps s' = dsTps s \<and>
    (ciReserved (dsCid s) \<noteq> [] \<longrightarrow>
      fst (getReservedCustomIDs E L dpos height info (dsDb s') (dsCid s')) =
      fst (getReservedCustomIDs E L dpos height info (dsDb s) (dsCid s)))"
proof -
  obtain e db db' where 1: "que_Clear L (dsDb s) = (e, db)" "ldb_write L db (bucket_deletes L [] db) = (None, db')"
      "s' = s\<lparr>dsDb := db'\<rparr>"
    using assms(2) by (auto simp: ds_Clear_def split: prod.splits)
  have "ldb_get L db' k \<noteq> Inr v" for k v
    using ldb_get_write [OF assms(1) 1(2)] batch_apply_bucket_deletes [OF assms(1), of "[]" db]
    by (cases "ldb_get L db k") auto
  then show ?thesis by (simp add: 1(3) getReservedCustomIDs_def init_reserved_def)
qed

subsection \<open>Witnesses\<close>

definition plain_tx :: txn where
  "plain_tx = \<lparr>txHash = 3, txType = TransferAsset, txInputs = [],
     txOutputs = [\<lparr>outAssetID = 0, outProgramHash = 9, outValue = 1, outOutputLock = 0, outIsReturnDeposit = False,
       outReturn = None\<rparr>], txPayload = POther\<rparr>"

lemma plain_tx_fits: "tx_fits codec0 (NewTx codec0 0 plain_tx 7)"
  by (simp add: tx_fits_def NewTx_def plain_tx_def codec0_def w_txn_def w_iso_def w_pair_def w_output_def w_word_def
      w_bool_def w_opt_def w_payload_def)

lemma plain_tx_put:
  "\<exists>db. txs_Put codec0 leveldb0 (NewTx codec0 0 plain_tx 7) [] = (None, db) \<and>
     txs_ok codec0 (ldb_get leveldb0 db) [3 \<mapsto> NewTx codec0 0 plain_tx 7] ((\<lambda>h. [])(7 := [3])) \<and>
     ops_holds codec0 (ldb_get leveldb0 db) Map.empty \<and> que_exact (ldb_get leveldb0 db) Map.empty"
proof -
  let ?t = "NewTx codec0 0 plain_tx 7"
  have u: "utxHash ?t = 3" "utxHeight ?t = 7" by (simp_all add: NewTx_def plain_tx_def)
  obtain db where p: "txs_Put codec0 leveldb0 ?t [] = (None, db)" using txs_Put_leveldb0 [OF empty_txs] by blast
  obtain ids where w: "ldb_write leveldb0 [] [BPut (toKey BKTTxs (hash_bytes 3)) (utx_Serialize codec0 ?t), BPut (height_key 7) ids] = (None, db)"
    using p putTxId_ids [OF txs_ok_at [OF empty_txs], of 7 3] by (auto simp: txs_Put_def u)
  have o: "\<not> prefix BKTOps (height_key 7)" "\<not> prefix BKTOps (toKey BKTTxs k)" for k
    by (simp_all add: toKey_def height_key_def bkt_simps str_bytes_def)
  have "ops_holds codec0 (ldb_get leveldb0 db) Map.empty"
    unfolding ldb_get_write [OF leveldb0_ok w] using o by (intro bucket_map_others empty_bucket_map) auto
  moreover have "que_exact (ldb_get leveldb0 db) Map.empty"
    unfolding ldb_get_write [OF leveldb0_ok w] by (intro que_exact_others empty_que) auto
  moreover have "txs_ok codec0 (ldb_get leveldb0 db) [3 \<mapsto> ?t] ((\<lambda>h. [])(7 := [3]))"
    using txs_Put_ok [OF codec0_ok leveldb0_ok empty_txs plain_tx_fits p] by (simp add: u)
  ultimately show ?thesis using p by blast
qed

lemma stored_plain_tx: "stored_as codec0 [3 \<mapsto> NewTx codec0 0 plain_tx 7] 3 plain_tx"
  by (simp add: stored_as_def NewTx_def)

theorem DelAll_removes_height_witness:
  "\<exists>db b db'. txs_Put codec0 leveldb0 (NewTx codec0 0 plain_tx 7) [] = (None, db) \<and>
     dataBatch_DelAll codec0 leveldb0 7 db [] (NewCustomID []) = (None, b, NewCustomID []) \<and>
     dataBatch_Commit leveldb0 b db = (None, db') \<and>
     txs_GetIds leveldb0 7 db' = Inr [] \<and> (\<exists>e. txs_Get codec0 leveldb0 3 db' = Inl e)"
proof -
  obtain db where p: "txs_Put codec0 leveldb0 (NewTx codec0 0 plain_tx 7) [] = (None, db)"
      "txs_ok codec0 (ldb_get leveldb0 db) [3 \<mapsto> NewTx codec0 0 plain_tx 7] ((\<lambda>h. [])(7 := [3]))"
      "ops_holds codec0 (ldb_get leveldb0 db) Map.empty" "que_exact (ldb_get leveldb0 db) Map.empty"
    using plain_tx_put by blast
  have "bucket_map (ldb_get leveldb0 db) BKTTxs hash_bytes (\<lambda>h. utx_Serialize codec0) [3 \<mapsto> NewTx codec0 0 plain_tx 7]"
    using p(2) by (simp add: txs_ok_def)
  from txs_map.map_look [OF codec0_ok this, of 3]
  have g: "ldb_get leveldb0 db (toKey BKTTxs (hash_bytes 3)) = Inr (utx_Serialize codec0 (NewTx codec0 0 plain_tx 7))" by simp
  have ut: "utx_Deserialize codec0 (utx_Serialize codec0 (NewTx codec0 0 plain_tx 7)) = Inr (NewTx codec0 0 plain_tx 7, [])"
    using plain_tx_fits codec0_ok by (simp add: tx_fits_def)
  have k: "GetTransactionOk codec0 (wTx codec0 plain_tx)" "rTx codec0 (wTx codec0 plain_tx) = Inr (plain_tx, [])"
    using codec0_ok by (simp_all add: codec_simps)
  have "getTxIds (get_or_empty leveldb0 db (height_key 7)) = Inr [3]"
    using getTxIds_ids [OF txs_ok_at [OF p(2), of 7]] by simp
  moreover have r: "utxRawData (NewTx codec0 0 plain_tx 7) = wTx codec0 plain_tx" "txType plain_tx = TransferAsset"
    by (simp_all add: NewTx_def plain_tx_def)
  ultimately obtain b where d: "dataBatch_DelAll codec0 leveldb0 7 db [] (NewCustomID []) = (None, b, NewCustomID [])"
    by (simp add: dataBatch_DelAll_def g ut k r DeleteCustomID_def queBatch_DelAll_def Let_def)
  obtain db' where c: "dataBatch_Commit leveldb0 b db = (None, db')"
    using write_leveldb0 by (auto simp: dataBatch_Commit_def)
  have "txs_ok codec0 (ldb_get leveldb0 db') ([3 \<mapsto> NewTx codec0 0 plain_tx 7] |` (- {3})) ((\<lambda>h. [])(7 := [3], 7 := []))"
    using DelAll_removes_height [OF codec0_ok leveldb0_ok p(2,3) p(4) [unfolded que_exact_def] _ _ d c, of "\<lambda>_. plain_tx"]
      stored_plain_tx by simp
  then have ok: "txs_ok codec0 (ldb_get leveldb0 db') Map.empty (\<lambda>h. [])"
    by (simp add: restrict_map_def fun_upd_def cong: if_cong)
  show ?thesis
    using p(1) d c txs_Get_ok(2) [OF codec0_ok ok, of 3] getTxIds_ids [OF txs_ok_at [OF ok, of 7]]
    by (auto simp: txs_GetIds_def)
qed

definition result_tx :: txn where
  "result_tx = \<lparr>txHash = 4, txType = ProposalResult, txInputs = [], txOutputs = [],
     txPayload = PRecordProposalResult [\<lparr>prHash = 5, prType = ReserveCustomID, prResult = True\<rparr>]\<rparr>"

theorem DeleteCustomID_undoes_result_witness:
  "\<exists>db1 b c db2 b' c' db3. PutControversialReservedCustomIDs codec0 leveldb0 [''ela''] 5 [] = (None, db1) \<and>
     BatchPutCustomIDProposalResults codec0 leveldb0 [\<lparr>prHash = 5, prType = ReserveCustomID, prResult = True\<rparr>] 10 db1 []
       (NewCustomID []) = (None, b, c) \<and> ldb_write leveldb0 db1 b = (None, db2) \<and>
     DeleteCustomID codec0 leveldb0 result_tx db2 [] c = (None, b', c') \<and> ldb_write leveldb0 db2 b' = (None, db3) \<and>
     reserved_ok codec0 leveldb0 db3 c' Map.empty"
proof -
  obtain db1 where 1: "PutControversialReservedCustomIDs codec0 leveldb0 [''ela''] 5 [] = (None, db1)"
    using write_leveldb0 by (auto simp: PutControversialReservedCustomIDs_def)
  obtain e b c where 2: "BatchPutCustomIDProposalResults codec0 leveldb0
      [\<lparr>prHash = 5, prType = ReserveCustomID, prResult = True\<rparr>] 10 db1 [] (NewCustomID []) = (e, b, c)"
    by (metis prod_cases3)
  obtain db2 where 3: "ldb_write leveldb0 db1 b = (None, db2)" using write_leveldb0 by blast
  obtain e' b' c' where 4: "DeleteCustomID codec0 leveldb0 result_tx db2 [] c = (e', b', c')" by (metis prod_cases3)
  obtain db3 where 5: "ldb_write leveldb0 db2 b' = (None, db3)" using write_leveldb0 by blast
  have n: "\<forall>k \<in> set [''ela'']. name_ok k" by (simp add: name_ok_def)
  have "e = None" using reserved_accepted(1) [OF codec0_ok leveldb0_ok empty_reserved n _ 1 2 3] by simp
  with DeleteCustomID_undoes_result [OF codec0_ok leveldb0_ok empty_reserved n _ _ _ 1 2 3 4 5] 1 2 3 4 5 show ?thesis
    by (simp add: result_tx_def)
qed

theorem ds_Clear_keeps_memory_witness:
  "\<exists>s'. ds_Clear leveldb0 \<lparr>dsDb = [(BKTTxs, [])], dsAddrs = [7], dsTps = [], dsArs = NewArbiters [] 0, dsCid = NewCustomID []\<rparr> =
     (None, s') \<and> ldb_get leveldb0 (dsDb s') BKTTxs \<noteq> Inr [] \<and> dsAddrs s' = [7]"
proof -
  let ?s = "\<lparr>dsDb = [(BKTTxs, [])], dsAddrs = [7], dsTps = [], dsArs = NewArbiters [] 0, dsCid = NewCustomID []\<rparr>"
  obtain s' where c: "ds_Clear leveldb0 ?s = (None, s')"
    by (simp add: ds_Clear_def leveldb0_def que_Clear_def)
  from ds_Clear_keeps_memory [OF leveldb0_ok c] c show ?thesis by simp
qed

end
