(* ===== verification/SPVService.thy ===== *)
theory SPVService
  imports DataStore
begin

text \<open>
  The SPV service of a side chain (\<open>interface/spvservice.go\<close>): the transactions of the main
  chain that concern the registered listeners are stored and queued, and the listeners are
  notified when blocks are committed. The service is the transaction database of the chain
  store. What the code asks of its surroundings is an argument: the time \<open>now\<close> in Unix
  seconds and \<open>current\<close>, the answer of \<open>IsCurrent\<close>. The calls of the listeners and of
  the rollback function are collected in a log, in order; the listeners' own calls back into the
  service are separate operations. The listeners are an association list (Go iterates over the
  map in an unspecified order).
\<close>

record listener =
  lnAddress :: string
  lnType :: txtype
  lnFlags :: u64

datatype sv_event =
    Notify uint256 merkle_proof txn
  | NotifyRevertToPow txn
  | NotifyRevertToDPOS txn
  | NotifyBlock block
  | RolledBack u32

record ('d, 'm) spv =
  svHeaders :: "('d, 'm) hstore"
  svDb :: "'d data_store"
  svRollback :: bool
  svListeners :: "(uint256 \<times> listener) list"
  svRevertListener :: bool
  svBlockListener :: bool
  svFilterType :: u8
  svLog :: "sv_event list"

definition DPOS :: u8 where "DPOS = 0"
definition POW :: u8 where "POW = 1"

definition notifyTimeout :: int where
  "notifyTimeout = 10"

definition FlagNotifyConfirmed :: u64 where "FlagNotifyConfirmed = 1"
definition FlagNotifyInSyncing :: u64 where "FlagNotifyInSyncing = 2"

definition sv_log :: "sv_event list \<Rightarrow> ('d, 'm) spv \<Rightarrow> ('d, 'm) spv" where
  "sv_log es s = s\<lparr>svLog := svLog s @ es\<rparr>"

definition sv_setdb :: "'d \<Rightarrow> ('d, 'm) spv \<Rightarrow> ('d, 'm) spv" where
  "sv_setdb db s = s\<lparr>svDb := (svDb s)\<lparr>dsDb := db\<rparr>\<rparr>"

abbreviation sv_db :: "('d, 'm) spv \<Rightarrow> 'd" where
  "sv_db s \<equiv> dsDb (svDb s)"

subsection \<open>Creating the service, registering listeners\<close>

text \<open>\<open>hex.DecodeString\<close> of the standard library.\<close>

definition hex_digit :: "char \<Rightarrow> u8 option" where
  "hex_digit c =
     (let n = of_char c :: nat in
      if 48 \<le> n \<and> n \<le> 57 then Some (word_of_nat (n - 48))
      else if 97 \<le> n \<and> n \<le> 102 then Some (word_of_nat (n - 87))
      else if 65 \<le> n \<and> n \<le> 70 then Some (word_of_nat (n - 55))
      else None)"

fun hex_decode :: "string \<Rightarrow> goerror + bytes" where
  "hex_decode [] = Inr []"
| "hex_decode [c] =
     (case hex_digit c of None \<Rightarrow> Inl (Failure ''invalid byte'') | Some x \<Rightarrow> Inl (Failure ''odd length hex string''))"
| "hex_decode (a # b # cs) =
     (case (hex_digit a, hex_digit b) of
        (Some x, Some y) \<Rightarrow> (case hex_decode cs of Inl e \<Rightarrow> Inl e | Inr bs \<Rightarrow> Inr ((x * 16 + y) # bs))
      | _ \<Rightarrow> Inl (Failure ''invalid byte''))"

text \<open>The databases are opened by goleveldb; making the directory and starting the service of
  package \<open>sdk\<close> is left out.\<close>

definition NewSPVService ::
  "codec \<Rightarrow> 'd leveldb \<Rightarrow> 'm omap \<Rightarrow> goerror + 'd \<Rightarrow> goerror + 'd \<Rightarrow> string list \<Rightarrow> string \<Rightarrow> bool \<Rightarrow> u8 \<Rightarrow>
   goerror + ('d, 'm) spv" where
  "NewSPVService E L M openedHeaders openedStore CRCArbiters GenesisBlockAddress onRollback filterType =
     (case NewHeaderStore E L M openedHeaders of
        Inl e \<Rightarrow> Inl e
      | Inr headerStore \<Rightarrow>
     (case iter_all hex_decode CRCArbiters of
        Inl e \<Rightarrow> Inl e
      | Inr originArbiters \<Rightarrow>
     (case NewDataStore E L openedStore originArbiters (int (length CRCArbiters) * 3) GenesisBlockAddress of
        Inl e \<Rightarrow> Inl e
      | Inr dataStore \<Rightarrow>
          Inr \<lparr>svHeaders = headerStore, svDb = dataStore, svRollback = onRollback, svListeners = [],
               svRevertListener = False, svBlockListener = False, svFilterType = filterType, svLog = []\<rparr>)))"

text \<open>The address of a listener that cannot be parsed is a nil pointer, and slicing it panics.\<close>

definition getListenerKey :: "codec \<Rightarrow> listener \<Rightarrow> goerror + uint256" where
  "getListenerKey E l =
     (if lnAddress l = [] then Inr (Sum256 E (wListener E None (lnType l) (lnFlags l)))
      else (case Uint168FromAddress E (lnAddress l) of
              Inl e \<Rightarrow> Inl (Panic ''nil pointer dereference'')
            | Inr addr \<Rightarrow> Inr (Sum256 E (wListener E (Some addr) (lnType l) (lnFlags l)))))"

definition RegisterTransactionListener ::
  "codec \<Rightarrow> 'd leveldb \<Rightarrow> listener \<Rightarrow> ('d, 'm) spv \<Rightarrow> goerror option \<times> ('d, 'm) spv" where
  "RegisterTransactionListener E L l s =
     (case getListenerKey E l of
        Inl e \<Rightarrow> (Some e, s)
      | Inr key \<Rightarrow>
          if map_of (svListeners s) key \<noteq> None then (Some (Failure ''listener already registered''), s)
          else
            (let s = s\<lparr>svListeners := svListeners s @ [(key, l)]\<rparr> in
             if lnAddress l \<noteq> [] then
               (case Uint168FromAddress E (lnAddress l) of
                  Inl e \<Rightarrow> (Some (Failure ''address is not a valied address''), s)
                | Inr address \<Rightarrow> (let (err, d) = ds_Addrs_Put L address (svDb s) in (err, s\<lparr>svDb := d\<rparr>)))
             else (let (err, d) = ds_TxTypes_Put L (TxTypeByte E (lnType l)) (svDb s) in (err, s\<lparr>svDb := d\<rparr>))))"

definition RegisterRevertListener :: "('d, 'm) spv \<Rightarrow> ('d, 'm) spv" where
  "RegisterRevertListener s = s\<lparr>svRevertListener := True\<rparr>"

definition RegisterBlockListener :: "('d, 'm) spv \<Rightarrow> ('d, 'm) spv" where
  "RegisterBlockListener s = s\<lparr>svBlockListener := True\<rparr>"

definition SubmitTransactionReceipt ::
  "'d leveldb \<Rightarrow> uint256 \<Rightarrow> uint256 \<Rightarrow> ('d, 'm) spv \<Rightarrow> goerror option \<times> ('d, 'm) spv" where
  "SubmitTransactionReceipt L notifyId tx_id s =
     (let (err, db) = que_Del L notifyId tx_id (sv_db s) in (err, sv_setdb db s))"

subsection \<open>Queries\<close>

definition VerifyTransaction ::
  "codec \<Rightarrow> 'd leveldb \<Rightarrow> 'm omap \<Rightarrow> merkle_proof \<Rightarrow> txn \<Rightarrow> ('d, 'm) spv \<Rightarrow> goerror option option" where
  "VerifyTransaction E L M proof tx s =
     (case hs_Get E L M (mpBlockHash proof) (svHeaders s) of
        Inl e \<Rightarrow> Some (Some (Failure ''can not get block from main chain''))
      | Inr header \<Rightarrow>
     (case CheckMerkleBlock E
             \<lparr>mbHeader = hdrBH header, mbTransactions = mpTransactions proof, mbHashes = mpHashes proof,
              mbFlags = mpFlags proof\<rparr> of
        None \<Rightarrow> None
      | Some (Inl e) \<Rightarrow> Some (Some (Failure ''check merkle branch failed''))
      | Some (Inr txIds) \<Rightarrow>
          if length txIds = 0 then Some (Some (Failure ''invalid transaction proof, no transactions found''))
          else if \<not> List.member txIds (txHash tx) then Some (Some (Failure ''transaction hash not match proof''))
          else Some None))"

definition sv_GetTransaction :: "codec \<Rightarrow> 'd leveldb \<Rightarrow> uint256 \<Rightarrow> ('d, 'm) spv \<Rightarrow> goerror + txn" where
  "sv_GetTransaction E L txId s =
     (case txs_Get E L txId (sv_db s) of
        Inl e \<Rightarrow> Inl e
      | Inr utx \<Rightarrow>
          if \<not> GetTransactionOk E (utxRawData utx) then Inl (Failure ''invalid transaction'')
          else (case rTx E (utxRawData utx) of Inl e \<Rightarrow> Inl e | Inr (tx, _) \<Rightarrow> Inr tx))"

text \<open>The queries of the arbiters and of the custom IDs, which may fill the caches.\<close>

definition sv_GetArbiters ::
  "codec \<Rightarrow> 'd leveldb \<Rightarrow> u32 \<Rightarrow> ('d, 'm) spv \<Rightarrow> (goerror + bytes list \<times> bytes list) \<times> ('d, 'm) spv" where
  "sv_GetArbiters E L height s =
     (let (r, a) = arb_GetByHeight E L height (sv_db s) (dsArs (svDb s)) in (r, s\<lparr>svDb := (svDb s)\<lparr>dsArs := a\<rparr>\<rparr>))"

definition sv_GetNextArbiters :: "codec \<Rightarrow> 'd leveldb \<Rightarrow> ('d, 'm) spv \<Rightarrow> u32 \<times> (goerror + bytes list \<times> bytes list)" where
  "sv_GetNextArbiters E L s = arb_GetNext E L (sv_db s)"

definition GetConsensusAlgorithm ::
  "codec \<Rightarrow> 'd leveldb \<Rightarrow> u32 \<Rightarrow> ('d, 'm) spv \<Rightarrow> (goerror + u8) \<times> ('d, 'm) spv" where
  "GetConsensusAlgorithm E L height s =
     (let (r, a) = GetConsensusAlgorithmByHeight E L height (sv_db s) (dsArs (svDb s)) in (r, s\<lparr>svDb := (svDb s)\<lparr>dsArs := a\<rparr>\<rparr>))"

definition sv_GetReservedCustomIDs ::
  "codec \<Rightarrow> 'd leveldb \<Rightarrow> u32 \<Rightarrow> ('d, 'm) spv \<Rightarrow> (goerror + string list) \<times> ('d, 'm) spv" where
  "sv_GetReservedCustomIDs E L height s =
     (let (info, a) = GetRevertInfo E L (sv_db s) (dsArs (svDb s));
          (r, c) = getReservedCustomIDs E L DPOS height info (sv_db s) (dsCid (svDb s))
      in (r, s\<lparr>svDb := (svDb s)\<lparr>dsArs := a, dsCid := c\<rparr>\<rparr>))"

definition sv_GetReceivedCustomIDs ::
  "codec \<Rightarrow> 'd leveldb \<Rightarrow> u32 \<Rightarrow> ('d, 'm) spv \<Rightarrow> (goerror + (string \<times> uint168) list) \<times> ('d, 'm) spv" where
  "sv_GetReceivedCustomIDs E L height s =
     (let (info, a) = GetRevertInfo E L (sv_db s) (dsArs (svDb s));
          (r, c) = getReceivedCustomIDs E L DPOS height info (sv_db s) (dsCid (svDb s))
      in (r, s\<lparr>svDb := (svDb s)\<lparr>dsArs := a, dsCid := c\<rparr>\<rparr>))"

definition GetRateOfCustomIDFee ::
  "codec \<Rightarrow> 'd leveldb \<Rightarrow> u32 \<Rightarrow> ('d, 'm) spv \<Rightarrow> (goerror + u64) \<times> ('d, 'm) spv" where
  "GetRateOfCustomIDFee E L height s =
     (let (r, c) = getCustomIDFeeRate E L height (sv_db s) (dsCid (svDb s)) in (r, s\<lparr>svDb := (svDb s)\<lparr>dsCid := c\<rparr>\<rparr>))"

definition sv_HaveRetSideChainDepositCoinTx :: "'d leveldb \<Rightarrow> uint256 \<Rightarrow> ('d, 'm) spv \<Rightarrow> bool" where
  "sv_HaveRetSideChainDepositCoinTx L h s = HaveRetSideChainDepositCoinTx L h (sv_db s)"

definition GetTransactionIds :: "'d leveldb \<Rightarrow> u32 \<Rightarrow> ('d, 'm) spv \<Rightarrow> goerror + uint256 list" where
  "GetTransactionIds L height s = txs_GetIds L height (sv_db s)"

text \<open>The filter sent to the peers: an error of \<open>Add\<close> is a panic.\<close>

fun add_addrs :: "bfilter \<Rightarrow> uint168 list \<Rightarrow> goerror + bfilter" where
  "add_addrs f [] = Inr f"
| "add_addrs f (a # as) = (case Add f (u168_bytes a) of Inl e \<Rightarrow> Inl e | Inr f \<Rightarrow> add_addrs f as)"

definition GetFilter_bloom ::
  "(u32 \<Rightarrow> 'r::linordered_field \<Rightarrow> u32) \<Rightarrow> (u32 \<Rightarrow> u32 \<Rightarrow> u32) \<Rightarrow> ('d, 'm) spv \<Rightarrow> goerror + bfilter" where
  "GetFilter_bloom calcLen calcFuncs s =
     (let addrs = addrs_GetAll (ds_Addrs (svDb s)); types = txtypes_GetAll (ds_TxTypes (svDb s))
      in add_addrs (NewFilter calcLen calcFuncs (word_of_nat (length addrs)) 0xffffffff 0 types) addrs)"

definition GetFilter ::
  "(filter_load \<Rightarrow> bytes) \<Rightarrow> (u32 \<Rightarrow> 'r::linordered_field \<Rightarrow> u32) \<Rightarrow> (u32 \<Rightarrow> u32 \<Rightarrow> u32) \<Rightarrow> ('d, 'm) spv \<Rightarrow>
   goerror + u8 \<times> bytes" where
  "GetFilter wFilterLoad calcLen calcFuncs s =
     (case GetFilter_bloom calcLen calcFuncs s of Inl e \<Rightarrow> Inl e | Inr f \<Rightarrow> ToTxFilterMsg wFilterLoad f (svFilterType s))"

subsection \<open>The transaction database\<close>

text \<open>The records beside the transaction: revert transactions, arbiter sets, custom IDs.\<close>

definition put_side ::
  "codec \<Rightarrow> 'd leveldb \<Rightarrow> txn \<Rightarrow> u32 \<Rightarrow> batch \<Rightarrow> 'd data_store \<Rightarrow> goerror option \<times> batch \<times> 'd data_store" where
  "put_side E L tx height b d =
     (let ars = (\<lambda>(e, b, a). (e, b, d\<lparr>dsArs := a\<rparr>)) in
      case txType tx of
        RevertToPOW \<Rightarrow>
          (case txPayload tx of
             PRevertToPOW workingHeight \<Rightarrow> ars (BatchPutRevertTransaction E L workingHeight POW (dsDb d) b (dsArs d))
           | _ \<Rightarrow> (Some (Panic ''interface conversion''), b, d))
      | RevertToDPOS \<Rightarrow>
          (case txPayload tx of
             PRevertToDPOS interval \<Rightarrow> ars (BatchPutRevertTransaction E L (height + interval) DPOS (dsDb d) b (dsArs d))
           | _ \<Rightarrow> (Some (Panic ''interface conversion''), b, d))
      | NextTurnDPOSInfo \<Rightarrow>
          (case txPayload tx of
             PNextTurnDPOSInfo workingHeight crc nor \<Rightarrow> ars (arb_BatchPut E L workingHeight crc nor (dsDb d) b (dsArs d))
           | _ \<Rightarrow> (Some (Panic ''interface conversion''), b, d))
      | ReturnSideChainDepositCoin \<Rightarrow>
          if txPayload tx \<noteq> PReturnSideChainDepositCoin
          then (Some (Failure ''invalid ReturnSideChainDepositCoin tx''), b, d)
          else (let (e, b) = BatchPutRetSideChainDepositCoinTx tx b (dsCid d) in (e, b, d))
      | CRCProposal \<Rightarrow>
          (case txPayload tx of
             PCRCProposal p \<Rightarrow>
               (None,
                case cpType p of
                  ReserveCustomID \<Rightarrow> BatchPutControversialReservedCustomIDs E (cpReservedCustomIDList p) (cpHash p) b
                | ReceiveCustomID \<Rightarrow>
                    BatchPutControversialReceivedCustomIDs E (cpReceivedCustomIDList p) (cpReceiverDID p) (cpHash p) b
                | ChangeCustomIDFee \<Rightarrow>
                    BatchPutControversialChangeCustomIDFee E (cpRateOfCustomIDFee p) (cpHash p) (cpEIDEffectiveHeight p) b
                | OtherProposal \<Rightarrow> b, d)
           | _ \<Rightarrow> (Some (Failure ''invalid crc proposal tx''), b, d))
      | ProposalResult \<Rightarrow>
          (case txPayload tx of
             PRecordProposalResult rs \<Rightarrow>
               (let (e, b, c) = BatchPutCustomIDProposalResults E L rs height (dsDb d) b (dsCid d)
                in (e, b, d\<lparr>dsCid := c\<rparr>))
           | _ \<Rightarrow> (Some (Failure ''invalid custom ID result tx''), b, d))
      | _ \<Rightarrow> (None, b, d))"

text \<open>The outputs that pay to a watched address, and the watched addresses the transaction
  touches. Outpoints are looked up in the database, not in the batch.\<close>

fun tx_ops :: "'d data_store \<Rightarrow> uint256 \<Rightarrow> nat \<Rightarrow> txoutput list \<Rightarrow> (outpoint \<times> uint168) list" where
  "tx_ops d h index [] = []"
| "tx_ops d h index (x # xs) =
     (if ContainAddr (outProgramHash x) (addrs_GetFilter (ds_Addrs d))
      then (NewOutPoint h (word_of_nat index), outProgramHash x) # tx_ops d h (Suc index) xs
      else tx_ops d h (Suc index) xs)"

fun input_hits :: "codec \<Rightarrow> 'd leveldb \<Rightarrow> 'd data_store \<Rightarrow> txinput list \<Rightarrow> uint168 list" where
  "input_hits E L d [] = []"
| "input_hits E L d (i # is) =
     (case ops_HaveOp E L (NewOutPoint (opTxID (inPrevious i)) (opIndex (inPrevious i))) (dsDb d) of
        None \<Rightarrow> input_hits E L d is
      | Some addr \<Rightarrow> addr # input_hits E L d is)"

definition type_hit :: "codec \<Rightarrow> 'd data_store \<Rightarrow> txn \<Rightarrow> bool" where
  "type_hit E d tx \<longleftrightarrow>
     (let tpsFilter = txtypes_GetFilter (ds_TxTypes d)
      in TxTypesFilter_IsLoaded tpsFilter \<and> ContainTxType (TxTypeByte E (txType tx)) tpsFilter)"

fun queue_loop ::
  "codec \<Rightarrow> txn \<Rightarrow> u32 \<Rightarrow> uint168 list \<Rightarrow> (uint256 \<times> listener) list \<Rightarrow> batch \<Rightarrow> goerror + batch" where
  "queue_loop E tx height hits [] b = Inr b"
| "queue_loop E tx height hits ((k, l) # ls) b =
     (if lnType l \<noteq> txType tx then queue_loop E tx height hits ls b
      else
        (case (if lnAddress l = [] then Inr True
               else case Uint168FromAddress E (lnAddress l) of
                      Inl e \<Rightarrow> Inl (Panic ''nil pointer dereference'')
                    | Inr h \<Rightarrow> Inr (h \<in> set hits)) of
           Inl e \<Rightarrow> Inl e
         | Inr False \<Rightarrow> queue_loop E tx height hits ls b
         | Inr True \<Rightarrow>
             (case getListenerKey E l of
                Inl e \<Rightarrow> Inl e
              | Inr key \<Rightarrow>
                  queue_loop E tx height hits ls
                    (queBatch_Put \<lparr>qiNotifyId = key, qiTxId = txHash tx, qiHeight = height, qiLastNotify = 0\<rparr> b))))"

text \<open>Putting an arbiter set has sorted the keys of the payload in place; the transaction is
  stored with the sorted keys.\<close>

definition sort_keys :: "txn \<Rightarrow> txn" where
  "sort_keys tx =
     (case txType tx of
        NextTurnDPOSInfo \<Rightarrow>
          (case txPayload tx of
             PNextTurnDPOSInfo workingHeight crc nor \<Rightarrow>
               tx\<lparr>txPayload := PNextTurnDPOSInfo workingHeight (sort crc) (sort nor)\<rparr>
           | _ \<Rightarrow> tx)
      | _ \<Rightarrow> tx)"

definition putTx ::
  "codec \<Rightarrow> 'd leveldb \<Rightarrow> u64 \<Rightarrow> (uint256 \<times> listener) list \<Rightarrow> txn \<Rightarrow> u32 \<Rightarrow> batch \<Rightarrow> 'd data_store \<Rightarrow>
   (goerror + bool) \<times> batch \<times> 'd data_store" where
  "putTx E L now listeners tx height b d =
     (case put_side E L tx height b d of
        (Some e, b, d) \<Rightarrow> (Inl e, b, d)
      | (None, b, d) \<Rightarrow>
          (let ops = tx_ops d (txHash tx) 0 (txOutputs tx);
               hits = map snd ops @ input_hits E L d (txInputs tx)
           in if \<not> type_hit E d tx \<and> \<not> length hits \<noteq> 0 then (Inr True, b, d)
              else (case queue_loop E tx height hits listeners (fold (\<lambda>(op, addr). opsBatch_Put E op addr) ops b) of
                      Inl e \<Rightarrow> (Inl e, b, d)
                    | Inr b \<Rightarrow> (Inr False, dataBatch_Txs_Put E (NewTx E now (sort_keys tx) height) b, d))))"

fun put_loop ::
  "codec \<Rightarrow> 'd leveldb \<Rightarrow> u64 \<Rightarrow> (uint256 \<times> listener) list \<Rightarrow> txn list \<Rightarrow> u32 \<Rightarrow> u32 \<Rightarrow> batch \<Rightarrow> 'd data_store \<Rightarrow>
   (goerror + u32) \<times> batch \<times> 'd data_store" where
  "put_loop E L now listeners [] height fps b d = (Inr fps, b, d)"
| "put_loop E L now listeners (tx # txs) height fps b d =
     (case putTx E L now listeners tx height b d of
        (Inl e, b, d) \<Rightarrow> (Inl e, b, d)
      | (Inr fp, b, d) \<Rightarrow> put_loop E L now listeners txs height (if fp then fps + 1 else fps) b d)"

definition PutTxs ::
  "codec \<Rightarrow> 'd leveldb \<Rightarrow> u64 \<Rightarrow> txn list \<Rightarrow> u32 \<Rightarrow> ('d, 'm) spv \<Rightarrow> (goerror + u32) \<times> ('d, 'm) spv" where
  "PutTxs E L now txs height s =
     (case put_loop E L now (svListeners s) txs height 0 [] (svDb s) of
        (Inl e, b, d) \<Rightarrow> (Inl e, s\<lparr>svDb := d\<rparr>)
      | (Inr fps, b, d) \<Rightarrow>
          (case dataBatch_Commit L b (dsDb d) of
             (Some e, db) \<Rightarrow> (Inl e, s\<lparr>svDb := d\<lparr>dsDb := db\<rparr>\<rparr>)
           | (None, db) \<Rightarrow> (Inr fps, s\<lparr>svDb := d\<lparr>dsDb := db\<rparr>\<rparr>)))"

definition PutForkTxs ::
  "codec \<Rightarrow> 'd leveldb \<Rightarrow> u64 \<Rightarrow> txn list \<Rightarrow> uint256 \<Rightarrow> ('d, 'm) spv \<Rightarrow> goerror option \<times> ('d, 'm) spv" where
  "PutForkTxs E L now txs hash s =
     (let (err, db) = txs_PutForkTxs E L (map (\<lambda>tx. NewTx E now tx 0) txs) hash (sv_db s) in (err, sv_setdb db s))"

definition HaveTx :: "codec \<Rightarrow> 'd leveldb \<Rightarrow> uint256 \<Rightarrow> ('d, 'm) spv \<Rightarrow> goerror + bool" where
  "HaveTx E L txId s = (case txs_Get E L txId (sv_db s) of Inl e \<Rightarrow> Inl e | Inr tx \<Rightarrow> Inr True)"

text \<open>\<open>newTransaction\<close> drops the error of reading the type; using the nil transaction panics.\<close>

definition raw_tx :: "codec \<Rightarrow> utiltx \<Rightarrow> goerror + txn" where
  "raw_tx E utx =
     (if \<not> GetTransactionOk E (utxRawData utx) then Inl (Panic ''nil pointer dereference'')
      else (case rTx E (utxRawData utx) of Inl e \<Rightarrow> Inl e | Inr (tx, _) \<Rightarrow> Inr tx))"

definition GetTxs :: "codec \<Rightarrow> 'd leveldb \<Rightarrow> u32 \<Rightarrow> ('d, 'm) spv \<Rightarrow> goerror + txn list" where
  "GetTxs E L height s =
     (case txs_GetIds L height (sv_db s) of
        Inl e \<Rightarrow> Inl e
      | Inr txIDs \<Rightarrow>
          iter_all (\<lambda>txID. case txs_Get E L txID (sv_db s) of Inl e \<Rightarrow> Inl e | Inr utx \<Rightarrow> raw_tx E utx) txIDs)"

definition GetForkTxs :: "codec \<Rightarrow> 'd leveldb \<Rightarrow> uint256 \<Rightarrow> ('d, 'm) spv \<Rightarrow> goerror + txn list" where
  "GetForkTxs E L hash s =
     (case txs_GetForkTxs E L hash (sv_db s) of Inl e \<Rightarrow> Inl e | Inr ftxs \<Rightarrow> iter_all (raw_tx E) ftxs)"

definition DelTxs ::
  "codec \<Rightarrow> 'd leveldb \<Rightarrow> u32 \<Rightarrow> ('d, 'm) spv \<Rightarrow> goerror option \<times> ('d, 'm) spv" where
  "DelTxs E L height s =
     (case dataBatch_DelAll E L height (sv_db s) [] (dsCid (svDb s)) of
        (Some e, b, c) \<Rightarrow> (Some e, s\<lparr>svDb := (svDb s)\<lparr>dsCid := c\<rparr>\<rparr>)
      | (None, b, c) \<Rightarrow>
          (case dataBatch_Commit L b (sv_db s) of
             (Some e, db) \<Rightarrow> (Some e, s\<lparr>svDb := (svDb s)\<lparr>dsDb := db, dsCid := c\<rparr>\<rparr>)
           | (None, db) \<Rightarrow>
               (let s = s\<lparr>svDb := (svDb s)\<lparr>dsDb := db, dsCid := c\<rparr>\<rparr>
                in (None, if svRollback s then sv_log [RolledBack height] s else s))))"

definition sv_Clear :: "'d leveldb \<Rightarrow> ('d, 'm) spv \<Rightarrow> goerror option \<times> ('d, 'm) spv" where
  "sv_Clear L s = (let (err, d) = ds_Clear L (svDb s) in (err, s\<lparr>svDb := d\<rparr>))"

definition ClearData :: "'d leveldb \<Rightarrow> ('d, 'm) spv \<Rightarrow> ('d, 'm) spv" where
  "ClearData L s =
     (let (_, h) = hs_Clear L (svHeaders s); (_, d) = ds_Clear L (svDb s) in s\<lparr>svHeaders := h, svDb := d\<rparr>)"

text \<open>The service as the transaction database of the chain store; closing it is goleveldb's.\<close>

definition service_txsdb :: "codec \<Rightarrow> 'd leveldb \<Rightarrow> u64 \<Rightarrow> ('d, 'm) spv txsdb_if" where
  "service_txsdb E L now =
     \<lparr>tPutTxs = PutTxs E L now, tPutForkTxs = PutForkTxs E L now, tHaveTx = HaveTx E L, tGetTxs = GetTxs E L,
      tGetForkTxs = GetForkTxs E L, tDelTxs = DelTxs E L, tClear = sv_Clear L, tClose = (\<lambda>s. (None, s))\<rparr>"

subsection \<open>Notifying the listeners\<close>

definition getConfirmations :: "txn \<Rightarrow> u32" where
  "getConfirmations tx = (if txType tx = CoinBase then 100 else DefaultConfirmations)"

definition notifyTransaction ::
  "'d leveldb \<Rightarrow> bool \<Rightarrow> uint256 \<Rightarrow> merkle_proof \<Rightarrow> txn \<Rightarrow> u32 \<Rightarrow> ('d, 'm) spv \<Rightarrow> listener option \<times> ('d, 'm) spv" where
  "notifyTransaction L current notifyId proof tx confirmations s =
     (case map_of (svListeners s) notifyId of
        None \<Rightarrow> (None, s)
      | Some l \<Rightarrow>
          if \<not> current \<and> lnFlags l AND FlagNotifyInSyncing \<noteq> FlagNotifyInSyncing then
            (if lnFlags l AND FlagNotifyConfirmed = FlagNotifyConfirmed \<and> \<not> getConfirmations tx \<le> confirmations
             then (None, s)
             else (None, sv_setdb (snd (que_Del L notifyId (txHash tx) (sv_db s))) s))
          else if lnFlags l AND FlagNotifyConfirmed = FlagNotifyConfirmed then
            (if getConfirmations tx \<le> confirmations then (Some l, s) else (None, s))
          else (Some l, sv_log [Notify notifyId proof tx] s))"

text \<open>One round of the loop of \<open>BlockCommitted\<close> over the queue, and the loop, when nothing comes
  between its steps. The code takes no lock; theory \<open>ServiceSteps\<close> has the steps of the loop one by one, between which
  other goroutines, and the listener from inside its notification, call the service.\<close>

definition proof_of :: "header \<Rightarrow> merkle_proof" where
  "proof_of h = \<lparr>mpBlockHash = hdr_hash h, mpHeight = hdrHeight h, mpTransactions = hdrNumTxs h,
     mpHashes = hdrHashes h, mpFlags = hdrFlags h\<rparr>"

definition notify_item ::
  "codec \<Rightarrow> 'd leveldb \<Rightarrow> u64 \<Rightarrow> bool \<Rightarrow> block \<Rightarrow> que_item \<Rightarrow> ('d, 'm) spv \<Rightarrow> ('d, 'm) spv" where
  "notify_item E L now current blk item s =
     (if sint now < sint (qiLastNotify item) + notifyTimeout then s
      else (case hs_GetByHeight E L (qiHeight item) (svHeaders s) of
        Inl e \<Rightarrow> s
      | Inr hdr \<Rightarrow>
     (case sv_GetTransaction E L (qiTxId item) s of
        Inl e \<Rightarrow> s
      | Inr tx \<Rightarrow>
          (let proof = proof_of hdr; height = hdrHeight (blkHeader blk);
               confirmCount = (if qiHeight item < height then height - qiHeight item else 0);
               (l, s) = notifyTransaction L current (qiNotifyId item) proof tx confirmCount s;
               s = (case l of
                      None \<Rightarrow> s
                    | Some l \<Rightarrow>
                        sv_log [Notify (qiNotifyId item) proof tx]
                          (sv_setdb (snd (que_Put L (item\<lparr>qiLastNotify := now\<rparr>) (sv_db s))) s));
               s = (if svRevertListener s \<and> txType tx = RevertToPOW then sv_log [NotifyRevertToDPOS tx] s else s)
           in if svRevertListener s \<and> txType tx = RevertToDPOS then sv_log [NotifyRevertToDPOS tx] s else s))))"

definition BlockCommitted ::
  "codec \<Rightarrow> 'd leveldb \<Rightarrow> u64 \<Rightarrow> bool \<Rightarrow> block \<Rightarrow> ('d, 'm) spv \<Rightarrow> ('d, 'm) spv" where
  "BlockCommitted E L now current blk s =
     (case que_GetAll L (sv_db s) of
        Inl e \<Rightarrow> s
      | Inr items \<Rightarrow>
          (let s = fold (notify_item E L now current blk) items s
           in if svBlockListener s \<and> current then sv_log [NotifyBlock blk] s else s))"

subsection \<open>What PutTxs stores\<close>

lemma BatchPutRevertTransaction_side:
  "BatchPutRevertTransaction E L w m db b a = (e, b', a') \<Longrightarrow> side_extends b b'"
  by (auto simp: BatchPutRevertTransaction_def Let_def side_keyI split: sum.splits if_splits intro!: side_extends_append)

lemma arb_BatchPut_side: "arb_BatchPut E L h crc nor db b a = (e, b', a') \<Longrightarrow> side_extends b b'"
  by (auto simp: arb_BatchPut_def arb_batchPut_def Let_def side_keyI split: sum.splits option.splits if_splits
      intro!: side_extends_append)

lemma batchPutCustomIDProposalResults_side:
  "batchPutCustomIDProposalResults E L rs h db b c = (e, b', c') \<Longrightarrow> side_extends b b'"
proof (induction rs arbitrary: b c)
  case Nil
  then show ?case by simp
next
  case (Cons r rs)
  have 1: "side_extends b b1" if "put_reserve_result E L r h db b c = (e1, b1, c1)" for e1 b1 c1
    using that by (auto simp: put_reserve_result_def batchPutReservedCustomIDs_def side_keyI Let_def
        split: sum.splits if_splits intro!: side_extends_append)
  have 2: "side_extends b b1" if "put_receive_result E L r h db b c = (e1, b1, c1)" for e1 b1 c1
    using that by (auto simp: put_receive_result_def batchPutReceivedCustomIDs_def side_keyI Let_def
        split: sum.splits if_splits intro!: side_extends_append)
  have 3: "side_extends b b1" if "put_fee_result E L r db b c = (e1, b1, c1)" for e1 b1 c1
    using that by (auto simp: put_fee_result_def batchPutChangeCustomIDFee_def side_keyI Let_def
        split: sum.splits if_splits prod.splits intro!: side_extends_append)
  show ?case
    using Cons.prems by (auto split: proposal_type.splits prod.splits option.splits
        dest!: 1 2 3 Cons.IH intro: side_extends_trans)
qed

lemma put_side_side:
  assumes "put_side E L tx h b d = (e, b', d')"
  shows "side_extends b b'" and "dsDb d' = dsDb d" and "dsAddrs d' = dsAddrs d" and "dsTps d' = dsTps d"
proof -
  have dep: "side_extends b b1" if "BatchPutRetSideChainDepositCoinTx tx b c = (e1, b1)" for e1 b1 c
    using that deposit_loop_side [of "\<lambda>k. BPut k [1]" b] by (metis BatchPutRetSideChainDepositCoinTx_def op_key.simps(1) snd_conv)
  have "side_extends b b' \<and> dsDb d' = dsDb d \<and> dsAddrs d' = dsAddrs d \<and> dsTps d' = dsTps d"
    using assms
    by (auto simp: put_side_def Let_def BatchPutControversialReservedCustomIDs_def put_reserved_batch_def
        BatchPutControversialReceivedCustomIDs_def put_received_batch_def BatchPutControversialChangeCustomIDFee_def
        put_fee_batch_def BatchPutCustomIDProposalResults_def side_keyI
        split: txtype.splits payload.splits proposal_type.splits if_splits prod.splits
        intro!: side_extends_append
        dest: BatchPutRevertTransaction_side arb_BatchPut_side batchPutCustomIDProposalResults_side dep)
  then show "side_extends b b'" "dsDb d' = dsDb d" "dsAddrs d' = dsAddrs d" "dsTps d' = dsTps d" by blast+
qed

text \<open>What the data store holds, abstractly: transactions, watched outpoints and the queue.\<close>

record stored =
  stTxs :: "uint256 \<rightharpoonup> utiltx"
  stOps :: "outpoint \<rightharpoonup> uint168"
  stQue :: queue

definition stored_in :: "codec \<Rightarrow> contents \<Rightarrow> stored \<Rightarrow> (u32 \<Rightarrow> uint256 list) \<Rightarrow> (u32 \<times> uint256 \<times> uint256) set \<Rightarrow> bool" where
  "stored_in E f A I J \<longleftrightarrow> txs_ok E f (stTxs A) I \<and> ops_holds E f (stOps A) \<and> que_ok f (stQue A) J"

lemma txs_ok_others:
  assumes "txs_ok E f M I" and o: "\<And>x. x \<in> set xs \<Longrightarrow> \<not> prefix BKTTxs (op_key x) \<and> \<not> prefix BKTHeightTxs (op_key x)"
  shows "txs_ok E (batch_apply xs f) M I"
proof -
  have "height_key h \<notin> op_key ` set xs" for h
    using o by (metis height_key_def image_iff prefix_toKey)
  then have "batch_apply xs f (height_key h) = f (height_key h)" for h by (rule batch_apply_other)
  with assms show ?thesis by (simp add: txs_ok_def bucket_map_others)
qed

lemma txs_ok_put:
  assumes "codec_ok E" and "txs_ok E f M I" and "tx_fits E t"
  shows "txs_ok E (op_apply (BPut (toKey BKTTxs (hash_bytes (utxHash t))) (utx_Serialize E t)) f) (M(utxHash t \<mapsto> t)) I"
  using assms txs_map.map_put [of E f M "utxHash t" t] by (auto simp: txs_ok_def)

lemma stored_in_side:
  assumes "side_extends b b'" and "stored_in E (batch_apply b f) A I J"
  shows "stored_in E (batch_apply b' f) A I J"
proof -
  obtain xs where xs: "b' = b @ xs" "\<forall>x \<in> set xs. side_key (op_key x)" using assms(1) by (auto simp: side_extends_def)
  then have "\<And>x. x \<in> set xs \<Longrightarrow> \<not> prefix BKTTxs (op_key x) \<and> \<not> prefix BKTHeightTxs (op_key x)"
    "\<And>x. x \<in> set xs \<Longrightarrow> \<not> prefix BKTOps (op_key x)"
    "\<And>x. x \<in> set xs \<Longrightarrow> \<not> prefix BKTQue (op_key x) \<and> \<not> prefix BKTQueIdx (op_key x)"
    using side_key_apart by blast+
  with assms(2) show ?thesis
    by (simp add: xs(1) stored_in_def txs_ok_others que_ok_others bucket_map_others)
qed

lemma more_keys_apart [simp]:
  "\<not> prefix BKTTxs (toKey BKTOps k)" "\<not> prefix BKTHeightTxs (toKey BKTOps k)"
  "\<not> prefix BKTTxs (toKey BKTQue k)" "\<not> prefix BKTHeightTxs (toKey BKTQue k)" "\<not> prefix BKTOps (toKey BKTQue k)"
  "\<not> prefix BKTTxs (toKey BKTQueIdx k)" "\<not> prefix BKTHeightTxs (toKey BKTQueIdx k)" "\<not> prefix BKTOps (toKey BKTQueIdx k)"
  "\<not> prefix BKTOps (toKey BKTTxs k)"
  by (simp_all add: toKey_def bkt_simps str_bytes_def)

lemma stored_in_ops:
  assumes "codec_ok E" and "stored_in E (batch_apply b f) A I J"
  shows "stored_in E (batch_apply (fold (\<lambda>(op, a). opsBatch_Put E op a) ops b) f)
    (A\<lparr>stOps := fold (\<lambda>(op, a) m. m(op \<mapsto> a)) ops (stOps A)\<rparr>) I J"
  using assms(2)
proof (induction ops arbitrary: b A)
  case Nil
  then show ?case by simp
next
  case (Cons x ops)
  obtain op a where x: "x = (op, a)" by (cases x)
  let ?p = "BPut (toKey BKTOps (outpoint_Bytes E op)) (u168_bytes a)"
  have "stored_in E (batch_apply (opsBatch_Put E op a b) f) (A\<lparr>stOps := (stOps A)(op \<mapsto> a)\<rparr>) I J"
    using Cons.prems opsBatch_Put_holds [OF assms(1), of b f "stOps A" op a]
      txs_ok_others [of E "batch_apply b f" "stTxs A" I "[?p]"] que_ok_others [of "batch_apply b f" "stQue A" J "[?p]"]
    by (simp add: stored_in_def opsBatch_Put_def)
  from Cons.IH [OF this] show ?case by (simp add: x)
qed

lemma stored_in_que:
  assumes "stored_in E (batch_apply b f) A I J"
  shows "\<exists>J'. J' \<subseteq> J \<union> {height} \<times> UNIV \<times> {h} \<and>
    stored_in E (batch_apply (fold (\<lambda>k. queBatch_Put \<lparr>qiNotifyId = k, qiTxId = h, qiHeight = height, qiLastNotify = 0\<rparr>) ks b) f)
    (A\<lparr>stQue := (\<lambda>(k, h'). if h' = h \<and> k \<in> set ks then Some (height, None) else stQue A (k, h'))\<rparr>) I J'"
  using assms
proof (induction ks arbitrary: b A J)
  case Nil
  then show ?case by auto
next
  case (Cons k ks)
  let ?item = "\<lparr>qiNotifyId = k, qiTxId = h, qiHeight = height, qiLastNotify = 0\<rparr>"
  let ?p = "[BPut (toKey BKTQue (que_value k h)) (be_bytes4 height), BPut (toKey BKTQueIdx (be_bytes4 height @ que_value k h)) []]"
  have b: "batch_apply (queBatch_Put ?item b) f = batch_apply ?p (batch_apply b f)" by (simp add: queBatch_Put_def Let_def)
  have q: "que_ok (batch_apply (queBatch_Put ?item b) f) ((stQue A)((k, h) \<mapsto> (height, None))) (insert (height, k, h) J)"
    using queBatch_Put_ok [of b f "stQue A" J ?item] Cons.prems by (simp add: stored_in_def)
  have "txs_ok E (batch_apply ?p (batch_apply b f)) (stTxs A) I" "ops_holds E (batch_apply ?p (batch_apply b f)) (stOps A)"
    by (rule txs_ok_others bucket_map_others; use Cons.prems in \<open>auto simp: stored_in_def\<close>)+
  with q have *: "stored_in E (batch_apply (queBatch_Put ?item b) f) (A\<lparr>stQue := (stQue A)((k, h) \<mapsto> (height, None))\<rparr>) I (insert (height, k, h) J)"
    unfolding b by (simp del: batch_apply_Cons add: stored_in_def)
  have sel: "stQue (A\<lparr>stQue := q\<rparr>) = q" "A\<lparr>stQue := q, stQue := q'\<rparr> = A\<lparr>stQue := q'\<rparr>" for q q' by simp_all
  from Cons.IH [OF *, unfolded sel] obtain J' where
    J': "J' \<subseteq> insert (height, k, h) J \<union> {height} \<times> UNIV \<times> {h}" "stored_in E (batch_apply (fold (\<lambda>k. queBatch_Put \<lparr>qiNotifyId = k, qiTxId = h, qiHeight = height, qiLastNotify = 0\<rparr>) ks (queBatch_Put ?item b)) f)
      (A\<lparr>stQue := (\<lambda>(k', h'). if h' = h \<and> k' \<in> set ks then Some (height, None) else ((stQue A)((k, h) \<mapsto> (height, None))) (k', h'))\<rparr>) I J'"
    by blast
  have "(\<lambda>(k', h'). if h' = h \<and> k' \<in> set ks then Some (height, None) else ((stQue A)((k, h) \<mapsto> (height, None))) (k', h')) =
      (\<lambda>(k', h'). if h' = h \<and> k' \<in> set (k # ks) then Some (height, None) else stQue A (k', h'))"
    by (auto simp: fun_eq_iff)
  moreover have "J' \<subseteq> J \<union> {height} \<times> UNIV \<times> {h}" using J'(1) by auto
  ultimately show ?case using J'(2) by auto
qed

lemma stored_in_tx:
  assumes "codec_ok E" and "stored_in E (batch_apply b f) A I J" and "tx_fits E t"
  shows "stored_in E (batch_apply (dataBatch_Txs_Put E t b) f) (A\<lparr>stTxs := (stTxs A)(utxHash t \<mapsto> t)\<rparr>) I J"
proof -
  let ?p = "[BPut (toKey BKTTxs (hash_bytes (utxHash t))) (utx_Serialize E t)]"
  have b: "batch_apply (dataBatch_Txs_Put E t b) f = batch_apply ?p (batch_apply b f)"
    by (simp add: dataBatch_Txs_Put_def txsBatch_Put_def)
  have "ops_holds E (batch_apply ?p (batch_apply b f)) (stOps A)" "que_ok (batch_apply ?p (batch_apply b f)) (stQue A) J"
    by (rule que_ok_others bucket_map_others; use assms(2) in \<open>auto simp: stored_in_def\<close>)+
  then show ?thesis
    using txs_ok_put [OF assms(1) _ assms(3)] assms(2) unfolding b by (simp add: stored_in_def)
qed

text \<open>The listeners are registered under their keys.\<close>

definition listeners_ok :: "codec \<Rightarrow> (uint256 \<times> listener) list \<Rightarrow> bool" where
  "listeners_ok E ls \<longleftrightarrow> (\<forall>(k, l) \<in> set ls. getListenerKey E l = Inr k) \<and> distinct (map fst ls)"

lemma RegisterTransactionListener_ok:
  "listeners_ok E (svListeners s) \<Longrightarrow> RegisterTransactionListener E L l s = (e, s') \<Longrightarrow> listeners_ok E (svListeners s')"
  by (auto simp: RegisterTransactionListener_def listeners_ok_def map_of_eq_None_iff Let_def
      split: sum.splits if_splits prod.splits)

text \<open>A listener wants a transaction of its type that touches its address, if it has one.\<close>

definition wants :: "codec \<Rightarrow> uint168 set \<Rightarrow> txn \<Rightarrow> listener \<Rightarrow> bool" where
  "wants E touched tx l \<longleftrightarrow> lnType l = txType tx \<and>
     (lnAddress l = [] \<or> (\<exists>a \<in> touched. Uint168FromAddress E (lnAddress l) = Inr a))"

lemma queue_loop_ok:
  "\<forall>(k, l) \<in> set ls. getListenerKey E l = Inr k \<Longrightarrow>
   queue_loop E tx height hits ls b =
     Inr (fold (\<lambda>k. queBatch_Put \<lparr>qiNotifyId = k, qiTxId = txHash tx, qiHeight = height, qiLastNotify = 0\<rparr>)
            (map fst (filter (\<lambda>(k, l). wants E (set hits) tx l) ls)) b)"
proof (induction ls arbitrary: b)
  case Nil
  then show ?case by simp
next
  case (Cons x ls)
  obtain k l where x: "x = (k, l)" by (cases x)
  with Cons.prems have "getListenerKey E l = Inr k" by simp
  then show ?case
    using Cons by (auto simp: x wants_def getListenerKey_def split: if_splits sum.splits bool.split)
qed

text \<open>The addresses a transaction touches, given the watched outpoints, and whether it concerns
  the service.\<close>

definition touched :: "'d data_store \<Rightarrow> (outpoint \<rightharpoonup> uint168) \<Rightarrow> txn \<Rightarrow> uint168 set" where
  "touched d m tx = {outProgramHash x |x. x \<in> set (txOutputs tx) \<and> outProgramHash x \<in> set (dsAddrs d)} \<union>
     {a. \<exists>i \<in> set (txInputs tx). m (inPrevious i) = Some a}"

definition concerns :: "codec \<Rightarrow> 'd data_store \<Rightarrow> (outpoint \<rightharpoonup> uint168) \<Rightarrow> txn \<Rightarrow> bool" where
  "concerns E d m tx \<longleftrightarrow> TxTypeByte E (txType tx) \<in> set (dsTps d) \<or> touched d m tx \<noteq> {}"

definition put_stored ::
  "codec \<Rightarrow> 'd data_store \<Rightarrow> (outpoint \<rightharpoonup> uint168) \<Rightarrow> (uint256 \<times> listener) list \<Rightarrow> u64 \<Rightarrow> u32 \<Rightarrow> txn \<Rightarrow> stored \<Rightarrow> stored" where
  "put_stored E d m ls now height tx A =
     (if concerns E d m tx
      then \<lparr>stTxs = (stTxs A)(txHash tx \<mapsto> NewTx E now (sort_keys tx) height),
            stOps = fold (\<lambda>(op, a) m. m(op \<mapsto> a)) (tx_ops d (txHash tx) 0 (txOutputs tx)) (stOps A),
            stQue = (\<lambda>(k, h). if h = txHash tx \<and> (\<exists>l. (k, l) \<in> set ls \<and> wants E (touched d m tx) tx l)
                              then Some (height, None) else stQue A (k, h))\<rparr>
      else A)"

lemma tx_ops_cong: "dsAddrs d' = dsAddrs d \<Longrightarrow> tx_ops d' h i xs = tx_ops d h i xs"
  by (induction xs arbitrary: i) (simp_all add: addrs_GetFilter_def ds_Addrs_def)

lemma tx_ops_touched: "snd ` set (tx_ops d h i xs) = {outProgramHash x |x. x \<in> set xs \<and> outProgramHash x \<in> set (dsAddrs d)}"
  by (induction xs arbitrary: i) (auto simp: addrs_GetFilter_def ds_Addrs_def ContainAddr_def)

lemma input_hits_touched:
  assumes "codec_ok E" and "ops_holds E (ldb_get L (dsDb d)) m"
  shows "set (input_hits E L d is) = {a. \<exists>i \<in> set is. m (inPrevious i) = Some a}"
proof (induction "is")
  case Nil
  then show ?case by simp
next
  case (Cons i "is")
  have "NewOutPoint (opTxID (inPrevious i)) (opIndex (inPrevious i)) = inPrevious i" by (simp add: NewOutPoint_def)
  then show ?case using Cons ops_HaveOp_map [OF assms, of "inPrevious i"] by (auto split: option.split)
qed

lemma sort_keys_hash [simp]: "txHash (sort_keys tx) = txHash tx"
  by (simp add: sort_keys_def split: txtype.split payload.split)

lemma putTx_ok:
  assumes E: "codec_ok E" and h: "ops_holds E (ldb_get L (dsDb d)) m" and ls: "listeners_ok E ls"
    and fit: "tx_fits E (NewTx E now (sort_keys tx) height)"
    and A: "stored_in E (batch_apply b f) A I J" and p: "putTx E L now ls tx height b d = (Inr fp, b', d')"
  shows "(\<exists>J'. J' \<subseteq> J \<union> {height} \<times> UNIV \<times> {txHash tx} \<and>
      stored_in E (batch_apply b' f) (put_stored E d m ls now height tx A) I J') \<and>
    fp = (\<not> concerns E d m tx) \<and> dsDb d' = dsDb d \<and> dsAddrs d' = dsAddrs d \<and> dsTps d' = dsTps d"
proof -
  obtain b1 where s: "put_side E L tx height b d = (None, b1, d')"
    using p by (auto simp: putTx_def Let_def split: prod.splits option.splits if_splits sum.splits)
  note same = put_side_side [OF s]
  have A1: "stored_in E (batch_apply b1 f) A I J" by (rule stored_in_side [OF same(1) A])
  let ?ops = "tx_ops d (txHash tx) 0 (txOutputs tx)"
  let ?hits = "map snd ?ops @ input_hits E L d' (txInputs tx)"
  have o: "tx_ops d' (txHash tx) 0 (txOutputs tx) = ?ops" by (rule tx_ops_cong [OF same(3)])
  have hits: "set ?hits = touched d m tx"
    using input_hits_touched [OF E, of L d' m "txInputs tx"] h same(2)
    by (simp add: touched_def tx_ops_touched)
  have "TxTypesFilter_IsLoaded (dsTps d) \<and> ContainTxType (TxTypeByte E (txType tx)) (dsTps d) \<longleftrightarrow>
      TxTypeByte E (txType tx) \<in> set (dsTps d)"
    by (auto simp: TxTypesFilter_IsLoaded_def ContainTxType_def)
  then have c: "(\<not> type_hit E d' tx \<and> \<not> length ?hits \<noteq> 0) = (\<not> concerns E d m tx)"
    using hits same(4) by (auto simp: type_hit_def concerns_def txtypes_GetFilter_def ds_TxTypes_def)
  show ?thesis
  proof (cases "concerns E d m tx")
    case False
    with c p s o have "fp" "b' = b1" by (auto simp: putTx_def Let_def)
    with False A1 same show ?thesis by (auto simp: put_stored_def)
  next
    case True
    let ?ks = "map fst (filter (\<lambda>(k, l). wants E (touched d m tx) tx l) ls)"
    let ?b2 = "fold (\<lambda>(op, addr). opsBatch_Put E op addr) ?ops b1"
    let ?b3 = "fold (\<lambda>k. queBatch_Put \<lparr>qiNotifyId = k, qiTxId = txHash tx, qiHeight = height, qiLastNotify = 0\<rparr>) ?ks ?b2"
    have q: "queue_loop E tx height ?hits ls ?b2 = Inr ?b3"
      using queue_loop_ok [of ls E tx height ?hits ?b2] ls unfolding hits by (simp add: listeners_ok_def)
    with True c p s o have r: "\<not> fp" "b' = dataBatch_Txs_Put E (NewTx E now (sort_keys tx) height) ?b3"
      by (auto simp: putTx_def Let_def)
    have sel: "stQue (A\<lparr>stOps := x\<rparr>) = stQue A" for x by simp
    obtain J' where sub: "J' \<subseteq> J \<union> {height} \<times> UNIV \<times> {txHash tx}" and J': "stored_in E (batch_apply ?b3 f)
        (A\<lparr>stOps := fold (\<lambda>(op, a) m. m(op \<mapsto> a)) ?ops (stOps A),
           stQue := (\<lambda>(k, h'). if h' = txHash tx \<and> k \<in> set ?ks then Some (height, None) else stQue A (k, h'))\<rparr>) I J'"
      using stored_in_que [OF stored_in_ops [OF E A1, of ?ops], of height "txHash tx" ?ks] unfolding sel by blast
    have k: "k \<in> set ?ks \<longleftrightarrow> (\<exists>l. (k, l) \<in> set ls \<and> wants E (touched d m tx) tx l)" for k by force
    have rec: "A\<lparr>stOps := m, stQue := q, stTxs := t\<rparr> = \<lparr>stTxs = t, stOps = m, stQue = q\<rparr>" for m q t
      by (cases A) simp
    from stored_in_tx [OF E J' fit] True have "stored_in E (batch_apply b' f) (put_stored E d m ls now height tx A) I J'"
      unfolding r(2) k by (simp add: put_stored_def NewTx_def rec)
    with r(1) True same sub show ?thesis by auto
  qed
qed

lemma put_loop_ok:
  assumes E: "codec_ok E" and h: "ops_holds E (ldb_get L db) m" and ls: "listeners_ok E ls"
  shows "dsDb d = db \<Longrightarrow> \<forall>tx \<in> set txs. tx_fits E (NewTx E now (sort_keys tx) height) \<Longrightarrow>
    stored_in E (batch_apply b f) A I J \<Longrightarrow> put_loop E L now ls txs height fps b d = (Inr fps', b', d') \<Longrightarrow>
    (\<exists>J'. J' \<subseteq> J \<union> {height} \<times> UNIV \<times> txHash ` set txs \<and>
      stored_in E (batch_apply b' f) (fold (put_stored E d m ls now height) txs A) I J') \<and>
    fps' = fps + word_of_nat (length (filter (\<lambda>tx. \<not> concerns E d m tx) txs)) \<and> dsDb d' = db"
proof (induction txs arbitrary: fps b d A J)
  case Nil
  then show ?case by auto
next
  case (Cons tx txs)
  obtain fp b1 d1 where p: "putTx E L now ls tx height b d = (Inr fp, b1, d1)"
      "put_loop E L now ls txs height (if fp then fps + 1 else fps) b1 d1 = (Inr fps', b', d')"
    using Cons.prems(4) by (auto split: prod.splits sum.splits)
  obtain J1 where sub: "J1 \<subseteq> J \<union> {height} \<times> UNIV \<times> {txHash tx}"
    and 1: "stored_in E (batch_apply b1 f) (put_stored E d m ls now height tx A) I J1"
      "fp = (\<not> concerns E d m tx)" "dsDb d1 = dsDb d" "dsAddrs d1 = dsAddrs d" "dsTps d1 = dsTps d"
    using putTx_ok [OF E _ ls _ Cons.prems(3) p(1), of m] h Cons.prems(1,2) by auto
  have c: "concerns E d1 m = concerns E d m" "put_stored E d1 m ls now height = put_stored E d m ls now height"
    using 1(4,5) by (auto simp: fun_eq_iff concerns_def touched_def put_stored_def tx_ops_cong [OF 1(4)])
  from Cons.IH [OF _ _ 1(1) p(2)] Cons.prems(1,2) 1(3) obtain J' where
    J': "J' \<subseteq> J1 \<union> {height} \<times> UNIV \<times> txHash ` set txs"
      "stored_in E (batch_apply b' f) (fold (put_stored E d m ls now height) (tx # txs) A) I J'"
      "fps' = (if fp then fps + 1 else fps) + word_of_nat (length (filter (\<lambda>tx. \<not> concerns E d m tx) txs))" "dsDb d' = db"
    unfolding c by auto
  have "J' \<subseteq> J \<union> {height} \<times> UNIV \<times> txHash ` set (tx # txs)" using J'(1) sub by auto
  with J'(2-4) 1(2) show ?case by auto
qed

lemma PutTxs_stored:
  assumes "codec_ok E" and "leveldb_ok L" and "listeners_ok E (svListeners s)"
    and "stored_in E (ldb_get L (sv_db s)) A I J"
    and "\<forall>tx \<in> set txs. tx_fits E (NewTx E now (sort_keys tx) height)"
    and "PutTxs E L now txs height s = (Inr fps, s')"
  shows "\<exists>J'. J' \<subseteq> J \<union> {height} \<times> UNIV \<times> txHash ` set txs \<and> stored_in E (ldb_get L (sv_db s'))
      (fold (put_stored E (svDb s) (stOps A) (svListeners s) now height) txs A) I J' \<and>
    fps = word_of_nat (length (filter (\<lambda>tx. \<not> concerns E (svDb s) (stOps A) tx) txs))"
proof -
  obtain b d db where p: "put_loop E L now (svListeners s) txs height 0 [] (svDb s) = (Inr fps, b, d)"
      "ldb_write L (dsDb d) b = (None, db)" "s' = s\<lparr>svDb := d\<lparr>dsDb := db\<rparr>\<rparr>"
    using assms(6) by (auto simp: PutTxs_def dataBatch_Commit_def split: prod.splits sum.splits option.splits)
  have h: "ops_holds E (ldb_get L (sv_db s)) (stOps A)" using assms(4) by (simp add: stored_in_def)
  have A: "stored_in E (batch_apply [] (ldb_get L (sv_db s))) A I J" using assms(4) by simp
  note r = put_loop_ok [OF assms(1) h assms(3) refl assms(5) A p(1)]
  then have "ldb_get L db = batch_apply b (ldb_get L (sv_db s))" using ldb_get_write [OF assms(2) p(2)] by simp
  with r show ?thesis by (simp add: p(3))
qed

text \<open>C19: Putting the transactions of a block stores exactly those that concern the service (of a
  watched type, paying to a watched address, or spending a watched outpoint) under their hashes,
  adds the outpoints of their watched outputs, queues a notification for every listener that
  wants them, and counts the others as false positives. The index of the heights does not
  change: no transaction is ever entered into it.\<close>

theorem PutTxs_stores:
  assumes "codec_ok E" and "leveldb_ok L" and "listeners_ok E (svListeners s)"
    and "stored_in E (ldb_get L (sv_db s)) A I J"
    and "\<forall>tx \<in> set txs. tx_fits E (NewTx E now (sort_keys tx) height)"
    and "PutTxs E L now txs height s = (Inr fps, s')"
  shows "\<exists>J'. stored_in E (ldb_get L (sv_db s'))
      (fold (put_stored E (svDb s) (stOps A) (svListeners s) now height) txs A) I J' \<and>
    fps = word_of_nat (length (filter (\<lambda>tx. \<not> concerns E (svDb s) (stOps A) tx) txs))"
  using PutTxs_stored [OF assms] by blast

lemma put_stored_dom: "dom (stTxs A) \<subseteq> dom (stTxs (fold (put_stored E d m ls now height) txs A))"
proof (induction txs arbitrary: A)
  case Nil
  then show ?case by simp
next
  case (Cons tx txs)
  have "dom (stTxs A) \<subseteq> dom (stTxs (put_stored E d m ls now height tx A))" by (auto simp: put_stored_def)
  then show ?case using Cons.IH [of "put_stored E d m ls now height tx A"] by (auto simp: subset_iff)
qed

lemma put_stored_in:
  "tx \<in> set txs \<Longrightarrow> concerns E d m tx \<Longrightarrow> txHash tx \<in> dom (stTxs (fold (put_stored E d m ls now height) txs A))"
proof (induction txs arbitrary: A)
  case Nil
  then show ?case by simp
next
  case (Cons x txs)
  show ?case
  proof (cases "tx = x")
    case True
    then have "txHash tx \<in> dom (stTxs (put_stored E d m ls now height x A))"
      using Cons.prems(2) by (auto simp: put_stored_def)
    then show ?thesis using put_stored_dom [of "put_stored E d m ls now height x A" E d m ls now height txs] by auto
  qed (use Cons in auto)
qed

text \<open>Because the index of the heights is never filled, rolling a block back does not remove
  its transactions: after \<open>PutTxs\<close> and \<open>DelTxs\<close> of the same height, \<open>HaveTx\<close> still
  answers true, and \<open>GetTxs\<close> of the height, from which the reorganization moves the
  transactions to the fork store, was empty in between.\<close>

theorem DelTxs_keeps_transactions:
  assumes "codec_ok E" and "leveldb_ok L" and "listeners_ok E (svListeners s)"
    and "stored_in E (ldb_get L (sv_db s)) A I J" and "I height = []"
    and "\<forall>tx \<in> set txs. tx_fits E (NewTx E now (sort_keys tx) height)"
    and "PutTxs E L now txs height s = (Inr fps, s1)" and "DelTxs E L height s1 = (None, s2)"
    and "tx \<in> set txs" and "concerns E (svDb s) (stOps A) tx"
  shows "GetTxs E L height s1 = Inr [] \<and> HaveTx E L (txHash tx) s2 = Inr True"
proof -
  let ?A = "fold (put_stored E (svDb s) (stOps A) (svListeners s) now height) txs A"
  obtain J' where "stored_in E (ldb_get L (sv_db s1)) ?A I J'"
    using PutTxs_stored [OF assms(1-4,6,7)] by blast
  then have k: "txs_ok E (ldb_get L (sv_db s1)) (stTxs ?A) I" "ops_holds E (ldb_get L (sv_db s1)) (stOps ?A)"
    by (simp_all add: stored_in_def)
  have g: "GetTxs E L height s1 = Inr []"
    using getTxIds_ids [OF txs_ok_at [OF k(1), of height]] assms(5) by (simp add: GetTxs_def txs_GetIds_def)
  obtain b c where del: "dataBatch_DelAll E L height (sv_db s1) [] (dsCid (svDb s1)) = (None, b, c)"
      "ldb_write L (sv_db s1) b = (None, sv_db s2)"
    using assms(8) by (auto simp: DelTxs_def dataBatch_Commit_def Let_def sv_log_def split: prod.splits option.splits if_splits)
  obtain b1 ks where b1: "deletes_beside ({} \<union> {height_key height}) b1" "b = b1 @ map BDel ks"
      "\<forall>k \<in> set ks. prefix BKTQue k \<or> prefix BKTQueIdx k"
    using DelAll_records [OF assms(1,2) k(1) _ _ del(1), of "\<lambda>_. tx"] assms(5) by auto
  have "txs_ok E (ldb_get L (sv_db s2)) (stTxs ?A |` (- {})) (I(height := []))"
    using DelAll_txs_ops(1) [OF assms(1) k, of _ "{}" height b1 ks] b1 ldb_get_write [OF assms(2) del(2)] by simp
  then have t: "txs_ok E (ldb_get L (sv_db s2)) (stTxs ?A) (I(height := []))" by (simp add: restrict_map_def)
  obtain t where "stTxs ?A (txHash tx) = Some t" using put_stored_in [OF assms(9,10)] by blast
  from txs_Get_ok(1) [OF assms(1) t this] g show ?thesis by (simp add: HaveTx_def)
qed

subsection \<open>Verifying a transaction\<close>

text \<open>C20: A proof is accepted only for a transaction with a Merkle path, of the length of the
  tree for the claimed number of transactions, to the Merkle root of a stored header whose hash
  the proof names.\<close>

theorem VerifyTransaction_sound:
  assumes "hs_wf E L M (svHeaders s)" and "VerifyTransaction E L M mp tx s = Some None"
  shows "\<exists>hdr D p. hs_Get E L M (mpBlockHash mp) (svHeaders s) = Inr hdr \<and> hdr_hash hdr = mpBlockHash mp \<and>
    is_depth (unat (mpTransactions mp)) D \<and> length p = D \<and> fold_path E (txHash tx) p = bhMerkleRoot (hdrBH hdr)"
proof -
  let ?m = "\<lambda>hdr. \<lparr>mbHeader = hdrBH hdr, mbTransactions = mpTransactions mp, mbHashes = mpHashes mp, mbFlags = mpFlags mp\<rparr>"
  obtain hdr ids where h: "hs_Get E L M (mpBlockHash mp) (svHeaders s) = Inr hdr"
      "CheckMerkleBlock E (?m hdr) = Some (Inr ids)" "txHash tx \<in> set ids"
    using assms(2) by (auto simp: VerifyTransaction_def split: sum.splits option.splits if_splits)
  have "hdr_hash hdr = mpBlockHash mp"
    using assms(1) h(1) hs_Get_db [of E L M "svHeaders s"] by (auto simp: store_wf_def)
  with h(1) CheckMerkleBlock_path [OF h(2,3)] show ?thesis by auto
qed

text \<open>C21: A proof taken from the Merkle block that a full node builds for a usable filter is
  accepted for exactly the transactions of the block the filter matched, when the header of the
  block is stored.\<close>

theorem VerifyTransaction_complete:
  assumes "blkTransactions blk \<noteq> []" and "length (blkTransactions blk) \<le> 2 ^ 31"
    and "is_depth (length (blkTransactions blk)) D"
    and "bhMerkleRoot (hdrBH (blkHeader blk)) = node_hash E (map txHash (blkTransactions blk)) D 0"
    and "no_twins E (map txHash (blkTransactions blk))" and "bfilter_inv f"
    and "hs_Get E L M h (svHeaders s) = Inr hdr" and "hdrBH hdr = hdrBH (blkHeader blk)"
  shows "\<exists>mb idxs f'. NewMerkleBlock E blk f = Some (Inr ((mb, idxs), f')) \<and>
    (\<forall>tx. VerifyTransaction E L M \<lparr>mpBlockHash = h, mpHeight = height, mpTransactions = mbTransactions mb,
            mpHashes = mbHashes mb, mpFlags = mbFlags mb\<rparr> tx s = Some None \<longleftrightarrow>
          txHash tx \<in> (\<lambda>i. txHash (blkTransactions blk ! unat i)) ` set idxs)"
proof -
  obtain mb idxs f' where n: "NewMerkleBlock E blk f = Some (Inr ((mb, idxs), f'))"
    using NewMerkleBlock_total [OF assms(6,1,2)] by blast
  have c: "CheckMerkleBlock E mb = Some (Inr (map (\<lambda>i. txHash (blkTransactions blk ! unat i)) idxs))"
    by (rule NewMerkleBlock_check [OF assms(1-5) n])
  have "mbHeader mb = hdrBH hdr"
    using n assms(8) by (auto simp: NewMerkleBlock_def Let_def split: sum.splits option.splits prod.splits)
  then have "\<lparr>mbHeader = hdrBH hdr, mbTransactions = mbTransactions mb, mbHashes = mbHashes mb, mbFlags = mbFlags mb\<rparr> = mb"
    by simp
  with n c assms(7) show ?thesis by (auto simp: VerifyTransaction_def image_iff)
qed

subsection \<open>The filter of the service\<close>

lemma add_addrs_foldl:
  "add_addrs f as = foldl (\<lambda>r x. case r of Inl e \<Rightarrow> Inl e | Inr g \<Rightarrow> Add g x) (Inr f) (map u168_bytes as)"
proof (induction as arbitrary: f)
  case Nil
  then show ?case by simp
next
  case (Cons a as)
  have "foldl (\<lambda>r x. case r of Inl e \<Rightarrow> Inl e | Inr g \<Rightarrow> Add g x) (Inl e) xs = Inl e" for e :: goerror and xs
    by (induction xs) simp_all
  with Cons show ?case by (simp split: sum.split)
qed

text \<open>C22: Once a listener with an address has been registered, the filter sent to the peers
  matches every transaction with an output to that address (or to any other watched address),
  whatever the floating point computations of its size return as long as the filter has at
  least one byte.\<close>

theorem GetFilter_covers:
  assumes "RegisterTransactionListener E L l s = (None, s')" and "lnAddress l \<noteq> []"
    and "Uint168FromAddress E (lnAddress l) = Inr a"
    and "bfMsg (NewFilter calcLen calcFuncs (word_of_nat (length (dsAddrs (svDb s')))) 0xffffffff 0 (dsTps (svDb s'))) = Some m"
    and "flFilter m \<noteq> []" and "x \<in> set (txOutputs tx)" and "outProgramHash x \<in> insert a (set (dsAddrs (svDb s)))"
  shows "\<exists>f f'. GetFilter_bloom calcLen calcFuncs s' = Inr f \<and> MatchFilter bloom_if E tx f = Inr (True, f')"
proof -
  let ?f = "NewFilter calcLen calcFuncs (word_of_nat (length (dsAddrs (svDb s')))) 0xffffffff 0 (dsTps (svDb s'))"
  obtain d where "ds_Addrs_Put L a (svDb s) = (None, d)" "svDb s' = d"
    using assms(1-3) by (auto simp: RegisterTransactionListener_def Let_def split: sum.splits if_splits prod.splits)
  then have w: "insert a (set (dsAddrs (svDb s))) \<subseteq> set (dsAddrs (svDb s'))"
    by (auto simp: ds_Addrs_Put_def addrs_Put_def ds_Addrs_def AddAddr_def ContainAddr_def Let_def split: if_splits prod.splits)
  have "bfilter_inv ?f"
    using NewFilter_size [OF assms(4)] assms(4,5) by (auto simp: bfilter_inv_def filter_usable_def)
  from adds_match [OF this, of "map u168_bytes (dsAddrs (svDb s'))"] obtain f
    where f: "add_addrs ?f (dsAddrs (svDb s')) = Inr f" "bfilter_inv f"
      "\<forall>b \<in> set (dsAddrs (svDb s')). Matches f (u168_bytes b) = Inr True"
    by (auto simp: add_addrs_foldl bloom.extends_def)
  have "GetFilter_bloom calcLen calcFuncs s' = Inr f"
    using f(1) by (simp add: GetFilter_bloom_def addrs_GetAll_def ds_Addrs_def GetAddrs_def txtypes_GetAll_def ds_TxTypes_def GetTxTypes_def)
  moreover obtain j where j: "j < length (txOutputs tx)" "txOutputs tx ! j = x" using assms(6) by (auto simp: in_set_conv_nth)
  have "outProgramHash x \<in> set (dsAddrs (svDb s'))" using w assms(7) by blast
  with f(3) j(2) have "fMatches bloom_if f (u168_bytes (outProgramHash (txOutputs tx ! j))) = Inr True" by simp
  from bloom.MatchFilter_output [OF f(2) j(1) this, of E] have "\<exists>f'. MatchFilter bloom_if E tx f = Inr (True, f')" by blast
  ultimately show ?thesis by blast
qed

subsection \<open>The notifications of a committed block\<close>

text \<open>What an item of the queue makes of the log, from the state before the block.\<close>

definition item_events ::
  "codec \<Rightarrow> 'd leveldb \<Rightarrow> u64 \<Rightarrow> bool \<Rightarrow> block \<Rightarrow> ('d, 'm) spv \<Rightarrow> que_item \<Rightarrow> sv_event list" where
  "item_events E L now current blk s item =
     (case (hs_GetByHeight E L (qiHeight item) (svHeaders s), sv_GetTransaction E L (qiTxId item) s) of
        (Inr hdr, Inr tx) \<Rightarrow>
          if sint now < sint (qiLastNotify item) + 10 then []
          else
            (let n = Notify (qiNotifyId item) (proof_of hdr) tx;
                 confirmed = getConfirmations tx \<le>
                   (if qiHeight item < hdrHeight (blkHeader blk) then hdrHeight (blkHeader blk) - qiHeight item else 0)
             in (case map_of (svListeners s) (qiNotifyId item) of
                   None \<Rightarrow> []
                 | Some l \<Rightarrow>
                     if \<not> current \<and> lnFlags l AND 2 \<noteq> 2 then []
                     else if lnFlags l AND 1 = 1 then (if confirmed then [n] else [])
                     else [n, n]) @
                (if svRevertListener s \<and> (txType tx = RevertToPOW \<or> txType tx = RevertToDPOS)
                 then [NotifyRevertToDPOS tx] else []))
      | _ \<Rightarrow> [])"

definition writes_ok :: "'d leveldb \<Rightarrow> bool" where
  "writes_ok L \<longleftrightarrow> (\<forall>d b. fst (ldb_write L d b) = None)"

text \<open>Two states that answer alike, but for the queue and the log.\<close>

definition alike :: "codec \<Rightarrow> 'd leveldb \<Rightarrow> ('d, 'm) spv \<Rightarrow> ('d, 'm) spv \<Rightarrow> bool" where
  "alike E L s s' \<longleftrightarrow> svHeaders s' = svHeaders s \<and> svListeners s' = svListeners s \<and>
     svRevertListener s' = svRevertListener s \<and> svBlockListener s' = svBlockListener s \<and>
     (\<forall>k. sv_GetTransaction E L k s' = sv_GetTransaction E L k s)"

lemma alike_refl [simp]: "alike E L s s"
  by (simp add: alike_def)

lemma alike_trans: "alike E L a b \<Longrightarrow> alike E L b c \<Longrightarrow> alike E L a c"
  by (simp add: alike_def)

lemma alike_log [simp]: "alike E L s (sv_log es s')  = alike E L s s'"
  by (simp add: alike_def sv_log_def sv_GetTransaction_def)

lemma item_events_alike:
  assumes "alike E L s s'"
  shows "item_events E L now current blk s' = item_events E L now current blk s"
proof -
  have "svHeaders s' = svHeaders s" "svListeners s' = svListeners s" "svRevertListener s' = svRevertListener s"
      "\<And>k. sv_GetTransaction E L k s' = sv_GetTransaction E L k s"
    using assms by (simp_all add: alike_def)
  then show ?thesis by (intro ext) (simp only: item_events_def)
qed

lemma alike_setdb:
  assumes "leveldb_ok L" and "ldb_write L (sv_db s) b = (None, db)"
    and "\<And>x. x \<in> set b \<Longrightarrow> \<not> prefix BKTTxs (op_key x)"
  shows "alike E L s (sv_setdb db s)"
proof -
  have "toKey BKTTxs k \<notin> op_key ` set b" for k using assms(3) by (metis image_iff prefix_toKey)
  then have "ldb_get L db (toKey BKTTxs k) = ldb_get L (sv_db s) (toKey BKTTxs k)" for k
    using ldb_get_write [OF assms(1,2)] batch_apply_other by metis
  then show ?thesis by (simp add: alike_def sv_setdb_def sv_GetTransaction_def txs_Get_def)
qed

lemma write_db: "writes_ok L \<Longrightarrow> \<exists>db. ldb_write L d b = (None, db)"
  by (metis prod.collapse writes_ok_def)

lemma sv_setdb_same [simp]: "sv_setdb (sv_db s) s = s"
  by (simp add: sv_setdb_def)

lemma alike_que:
  assumes "leveldb_ok L" and "writes_ok L"
  shows "alike E L s (sv_setdb (snd (que_Put L item (sv_db s))) s)"
    and "alike E L s (sv_setdb (snd (que_Del L n t (sv_db s))) s)"
proof -
  let ?p = "[BPut (toKey BKTQueIdx (be_bytes4 (qiHeight item) @ que_value (qiNotifyId item) (qiTxId item))) [],
    BPut (toKey BKTQue (que_value (qiNotifyId item) (qiTxId item))) (be_bytes4 (qiHeight item) @ be_bytes8 (qiLastNotify item))]"
  obtain db where w: "ldb_write L (sv_db s) ?p = (None, db)" using write_db [OF assms(2)] by blast
  have "alike E L s (sv_setdb db s)" by (rule alike_setdb [OF assms(1) w]) auto
  with w show "alike E L s (sv_setdb (snd (que_Put L item (sv_db s))) s)" by (simp add: que_Put_def Let_def)
  show "alike E L s (sv_setdb (snd (que_Del L n t (sv_db s))) s)"
  proof (cases "ldb_get L (sv_db s) (toKey BKTQue (que_value n t))")
    case (Inl e)
    then show ?thesis by (simp add: que_Del_def Let_def)
  next
    case (Inr v)
    obtain db where w: "ldb_write L (sv_db s) [BDel (toKey BKTQue (que_value n t)), BDel (toKey BKTQueIdx (v @ que_value n t))] = (None, db)"
      using write_db [OF assms(2)] by blast
    have "alike E L s (sv_setdb db s)" by (rule alike_setdb [OF assms(1) w]) auto
    with w Inr show ?thesis by (simp add: que_Del_def Let_def)
  qed
qed

lemma sv_setdb_simps [simp]:
  "svListeners (sv_setdb db s) = svListeners s" "svRevertListener (sv_setdb db s) = svRevertListener s"
  "svLog (sv_setdb db s) = svLog s" "svListeners (sv_log es s) = svListeners s"
  "svRevertListener (sv_log es s) = svRevertListener s" "svLog (sv_log es s) = svLog s @ es"
  "sv_db (sv_log es s) = sv_db s"
  by (simp_all add: sv_setdb_def sv_log_def)

lemma notify_item_ok:
  assumes "leveldb_ok L" and "writes_ok L"
  shows "alike E L s (notify_item E L now current blk item s) \<and>
    svLog (notify_item E L now current blk item s) = svLog s @ item_events E L now current blk s item"
proof -
  have setdb: "alike E L s s' \<Longrightarrow> sv_db s' = sv_db s \<Longrightarrow> alike E L s (sv_setdb (snd (que_Put L i (sv_db s))) s')" for i s'
    using alike_que(1) [OF assms, of E s' i] alike_trans by metis
  have 1: "sv_db (sv_log es s) = sv_db s" for es by simp
  show ?thesis
    by (cases "hs_GetByHeight E L (qiHeight item) (svHeaders s)"; cases "sv_GetTransaction E L (qiTxId item) s";
        cases "map_of (svListeners s) (qiNotifyId item)")
      (auto simp: notify_item_def item_events_def notifyTransaction_def notifyTimeout_def FlagNotifyConfirmed_def
        FlagNotifyInSyncing_def Let_def setdb alike_que [OF assms])
qed

lemma notify_items_ok:
  assumes "leveldb_ok L" and "writes_ok L"
  shows "alike E L s s' \<Longrightarrow> alike E L s (fold (notify_item E L now current blk) items s') \<and>
    svLog (fold (notify_item E L now current blk) items s') =
      svLog s' @ concat (map (item_events E L now current blk s) items)"
proof (induction items arbitrary: s')
  case Nil
  then show ?case by simp
next
  case (Cons x xs)
  note n = notify_item_ok [OF assms, of E s' now current blk x]
  then have "alike E L s (notify_item E L now current blk x s')" using alike_trans Cons.prems by blast
  from Cons.IH [OF this] n show ?case by (simp add: item_events_alike [OF Cons.prems])
qed

text \<open>After a block the log has gained, for each queued item in order, the notifications due
  at that height, and then the block if the service is current. A listener without the flag for
  confirmed transactions gets each notification twice; a revert to POW is announced to the
  revert listener as a revert to DPOS.\<close>

theorem BlockCommitted_log:
  assumes "leveldb_ok L" and "writes_ok L" and "que_GetAll L (sv_db s) = Inr items"
  shows "svLog (BlockCommitted E L now current blk s) =
    svLog s @ concat (map (item_events E L now current blk s) items) @
    (if svBlockListener s \<and> current then [NotifyBlock blk] else [])"
  using notify_items_ok [OF assms(1,2) alike_refl, of E s now current blk items]
  by (auto simp: BlockCommitted_def assms(3) Let_def alike_def)

subsection \<open>Witnesses\<close>

definition service0 :: "((bytes \<times> bytes) list, (uint256 \<times> header) list) spv" where
  "service0 = \<lparr>svHeaders = store0, svDb = \<lparr>dsDb = [], dsAddrs = [9], dsTps = [], dsArs = NewArbiters [] 0, dsCid = NewCustomID []\<rparr>,
     svRollback = True, svListeners = [], svRevertListener = False, svBlockListener = True, svFilterType = 0, svLog = []\<rparr>"

definition stored0 :: stored where
  "stored0 = \<lparr>stTxs = Map.empty, stOps = Map.empty, stQue = Map.empty\<rparr>"

lemma stored0: "stored_in codec0 (ldb_get leveldb0 (sv_db service0)) stored0 (\<lambda>h. []) {}"
  using empty_txs empty_que_ok empty_bucket_map
  by (simp add: stored_in_def stored0_def service0_def)

lemma sort_plain_tx [simp]: "sort_keys plain_tx = plain_tx"
  by (simp add: sort_keys_def plain_tx_def)

lemma put_plain_tx: "\<exists>s1. PutTxs codec0 leveldb0 0 [plain_tx] 7 service0 = (Inr 0, s1)"
  by (simp add: PutTxs_def putTx_def put_side_def plain_tx_def service0_def addrs_GetFilter_def ds_Addrs_def ContainAddr_def
      Let_def dataBatch_Commit_def leveldb0_def type_hit_def txtypes_GetFilter_def ds_TxTypes_def TxTypesFilter_IsLoaded_def)

lemma plain_tx_concerns: "concerns codec0 (svDb service0) (stOps stored0) plain_tx"
  by (simp add: concerns_def touched_def plain_tx_def service0_def)

lemma service0_listeners: "listeners_ok codec0 (svListeners service0)"
  by (simp add: listeners_ok_def service0_def)

lemma plain_fits: "\<forall>tx \<in> set [plain_tx]. tx_fits codec0 (NewTx codec0 0 (sort_keys tx) 7)"
  using plain_tx_fits by simp

theorem PutTxs_stores_witness:
  "\<exists>s1. PutTxs codec0 leveldb0 0 [plain_tx] 7 service0 = (Inr 0, s1) \<and> HaveTx codec0 leveldb0 3 s1 = Inr True"
proof -
  obtain s1 where p: "PutTxs codec0 leveldb0 0 [plain_tx] 7 service0 = (Inr 0, s1)" using put_plain_tx by blast
  obtain J' where "stored_in codec0 (ldb_get leveldb0 (sv_db s1))
      (fold (put_stored codec0 (svDb service0) (stOps stored0) (svListeners service0) 0 7) [plain_tx] stored0) (\<lambda>h. []) J'"
    using PutTxs_stores [OF codec0_ok leveldb0_ok service0_listeners stored0 plain_fits p] by blast
  then have "txs_ok codec0 (ldb_get leveldb0 (sv_db s1)) [3 \<mapsto> NewTx codec0 0 plain_tx 7] (\<lambda>h. [])"
    using plain_tx_concerns by (simp add: put_stored_def stored_in_def) (simp add: stored0_def plain_tx_def)
  from txs_Get_ok(1) [OF codec0_ok this, of 3] p show ?thesis by (simp add: HaveTx_def)
qed

theorem DelTxs_keeps_transactions_witness:
  "\<exists>s1 s2. PutTxs codec0 leveldb0 0 [plain_tx] 7 service0 = (Inr 0, s1) \<and> DelTxs codec0 leveldb0 7 s1 = (None, s2) \<and>
     GetTxs codec0 leveldb0 7 s1 = Inr [] \<and> HaveTx codec0 leveldb0 3 s2 = Inr True"
proof -
  obtain s1 where p: "PutTxs codec0 leveldb0 0 [plain_tx] 7 service0 = (Inr 0, s1)" using put_plain_tx by blast
  obtain A J' where "stored_in codec0 (ldb_get leveldb0 (sv_db s1)) A (\<lambda>h. []) J'"
    using PutTxs_stored [OF codec0_ok leveldb0_ok service0_listeners stored0 plain_fits p] by blast
  then have "getTxIds (get_or_empty leveldb0 (sv_db s1) (height_key 7)) = Inr []"
    using getTxIds_ids [OF txs_ok_at, of codec0 leveldb0 "sv_db s1" "stTxs A" "\<lambda>h. []" 7] by (simp add: stored_in_def)
  then obtain s2 where d: "DelTxs codec0 leveldb0 7 s1 = (None, s2)"
    by (simp add: DelTxs_def dataBatch_DelAll_def queBatch_DelAll_def dataBatch_Commit_def leveldb0_def Let_def)
  have h: "txHash plain_tx = 3" by (simp add: plain_tx_def)
  from DelTxs_keeps_transactions [OF codec0_ok leveldb0_ok service0_listeners stored0 refl plain_fits p d _ plain_tx_concerns]
  show ?thesis using p d by (simp add: h)
qed

lemma put_header:
  assumes "header_storable codec0 h"
  shows "\<exists>st. hs_wf codec0 leveldb0 omap0 st \<and> hs_Get codec0 leveldb0 omap0 (hdr_hash h) st = Inr h \<and>
    hs_GetByHeight codec0 leveldb0 (hdrHeight h) st = Inr h"
proof -
  obtain st where p: "hs_Put codec0 leveldb0 omap0 h True store0 = (None, st)"
    using header_Serialize_storable [OF assms] by (auto simp: hs_Put_def Let_def leveldb0_def split: prod.split)
  have i: "hs_inv codec0 leveldb0 omap0 BKTHeaders store0" using store0_wf by (simp add: store_wf_def)
  have w: "hs_wf codec0 leveldb0 omap0 st" by (rule hs_Put_wf [OF store0_wf assms p]) simp
  then have "hs_inv codec0 leveldb0 omap0 BKTHeaders st" by (simp only: store_wf_def)
  from hs_Get_db [OF this, of "hdr_hash h"] hs_Put_db(1) [OF i assms p, of "hdr_hash h"]
  have "hs_Get codec0 leveldb0 omap0 (hdr_hash h) st = Inr h" by simp
  with w hs_Put_db(5) [OF i assms p] show ?thesis by blast
qed

theorem VerifyTransaction_sound_witness:
  "\<exists>s hdr D p. VerifyTransaction codec0 leveldb0 omap0 \<lparr>mpBlockHash = 4, mpHeight = 0, mpTransactions = 1, mpHashes = [3], mpFlags = [1]\<rparr>
       plain_tx s = Some None \<and> hs_Get codec0 leveldb0 omap0 4 (svHeaders s) = Inr hdr \<and>
     is_depth 1 D \<and> length p = D \<and> fold_path codec0 3 p = bhMerkleRoot (hdrBH hdr)"
proof -
  let ?h = "sample_header\<lparr>hdrBH := sample_bheader\<lparr>bhMerkleRoot := 3, bhHash := 4\<rparr>\<rparr>"
  let ?mp = "\<lparr>mpBlockHash = 4, mpHeight = 0, mpTransactions = 1, mpHashes = [3], mpFlags = [1]\<rparr>"
  have "header_storable codec0 ?h" using sample_storable by (simp add: header_storable_def)
  from put_header [OF this] obtain st where st: "hs_wf codec0 leveldb0 omap0 st" "hs_Get codec0 leveldb0 omap0 4 st = Inr ?h"
    by auto
  let ?m = "\<lparr>mbHeader = hdrBH ?h, mbTransactions = 1, mbHashes = [3], mbFlags = [1]\<rparr>"
  have "is_depth (unat (mbTransactions ?m)) 0" by (simp add: is_depth_def)
  from CheckMerkleBlock_block [OF this, of codec0] have "CheckMerkleBlock codec0 ?m = Some (Inr [3])"
    by (simp add: flag_bits_def upt_rec parse_block_def)
  then have v: "VerifyTransaction codec0 leveldb0 omap0 ?mp plain_tx (service0\<lparr>svHeaders := st\<rparr>) = Some None"
    using st by (simp add: VerifyTransaction_def plain_tx_def)
  obtain D p where "is_depth 1 D" "length p = D" "fold_path codec0 (txHash plain_tx) p = bhMerkleRoot (hdrBH ?h)"
    using VerifyTransaction_sound [OF _ v] st by auto
  moreover have "txHash plain_tx = 3" "svHeaders (service0\<lparr>svHeaders := st\<rparr>) = st" by (simp_all add: plain_tx_def)
  ultimately show ?thesis using v st(2) by metis
qed

theorem VerifyTransaction_complete_witness:
  "\<exists>s mb idxs f'. NewMerkleBlock codec0 sample_block sample_filter = Some (Inr ((mb, idxs), f')) \<and>
    (\<forall>tx. VerifyTransaction codec0 leveldb0 omap0 \<lparr>mpBlockHash = 4, mpHeight = 1, mpTransactions = mbTransactions mb,
            mpHashes = mbHashes mb, mpFlags = mbFlags mb\<rparr> tx s = Some None \<longleftrightarrow>
          txHash tx \<in> (\<lambda>i. txHash (blkTransactions sample_block ! unat i)) ` set idxs)"
proof -
  have "header_storable codec0 (blkHeader sample_block)"
    by (simp add: header_storable_def sample_block_def codec0_def)
  from put_header [OF this] obtain st where "hs_Get codec0 leveldb0 omap0 4 st = Inr (blkHeader sample_block)"
    by (auto simp: sample_block_def)
  then have "hs_Get codec0 leveldb0 omap0 4 (svHeaders (service0\<lparr>svHeaders := st\<rparr>)) = Inr (blkHeader sample_block)" by simp
  from VerifyTransaction_complete [OF sample_block_ok this refl] show ?thesis by blast
qed

definition listener0 :: listener where
  "listener0 = \<lparr>lnAddress = replicate 34 CHR ''E'', lnType = TransferAsset, lnFlags = 0\<rparr>"

theorem GetFilter_covers_witness:
  "\<exists>a s' f f'. RegisterTransactionListener codec0 leveldb0 listener0 service0 = (None, s') \<and>
     Uint168FromAddress codec0 (lnAddress listener0) = Inr a \<and>
     GetFilter_bloom (\<lambda>n (p :: rat). 8) (\<lambda>n m. 1) s' = Inr f \<and>
     MatchFilter bloom_if codec0 (plain_tx\<lparr>txOutputs := [(txOutputs plain_tx ! 0)\<lparr>outProgramHash := a\<rparr>]\<rparr>) f = Inr (True, f')"
proof -
  obtain a where a: "Uint168FromAddress codec0 (lnAddress listener0) = Inr a" by (simp add: codec0_def listener0_def)
  have "fst (ds_Addrs_Put leveldb0 a d) = None" for d
    by (simp add: ds_Addrs_Put_def addrs_Put_def leveldb0_def Let_def)
  then obtain d where d: "ds_Addrs_Put leveldb0 a (svDb service0) = (None, d)" by (metis prod.collapse)
  have k: "getListenerKey codec0 listener0 \<noteq> Inl e" for e using a by (simp add: getListenerKey_def)
  have n: "lnAddress listener0 \<noteq> []" "svListeners service0 = []" by (simp_all add: listener0_def service0_def)
  obtain s' where r: "RegisterTransactionListener codec0 leveldb0 listener0 service0 = (None, s')"
    using k d a n by (cases "getListenerKey codec0 listener0") (auto simp: RegisterTransactionListener_def Let_def)
  let ?tx = "plain_tx\<lparr>txOutputs := [(txOutputs plain_tx ! 0)\<lparr>outProgramHash := a\<rparr>]\<rparr>"
  let ?n = "word_of_nat (length (dsAddrs (svDb s'))) :: u32"
  let ?f = "NewFilter (\<lambda>n (p :: rat). 8) (\<lambda>n m. 1) ?n 0xffffffff 0 (dsTps (svDb s'))"
  obtain m where m: "bfMsg ?f = Some m" "flFilter m \<noteq> []"
    by (simp add: NewFilter_def minUint32_def MaxFilterLoadFilterSize_def Let_def)
  have "(txOutputs plain_tx ! 0)\<lparr>outProgramHash := a\<rparr> \<in> set (txOutputs ?tx)" by simp
  from GetFilter_covers [OF r _ a m this] a r n show ?thesis by auto
qed

text \<open>A queue with one item whose listener does not ask for confirmed transactions.\<close>

definition queue_db :: "(bytes \<times> bytes) list" where
  "queue_db = [(toKey BKTQue (que_key (5, 3)), que_val (3, None)),
     (toKey BKTTxs (hash_bytes 3), utx_Serialize codec0 (NewTx codec0 0 plain_tx 7))]"

lemma queue_db_items: "que_GetAll leveldb0 queue_db = Inr [que_view (5, 3) (3, None)]"
proof -
  have k: "\<not> prefix BKTQue (toKey BKTTxs k)" "toKey BKTTxs k \<noteq> toKey BKTQue k'" for k k'
    by (simp_all add: toKey_def bkt_simps str_bytes_def)
  have "ldb_iter leveldb0 queue_db BKTQue = [(toKey BKTQue (que_key (5, 3)), que_val (3, None))]"
    unfolding queue_db_def leveldb0_def using k by (simp del: que_key.simps que_val.simps)
  then show ?thesis
    using que_map.dec [OF TrueI TrueI, of "(5, 3)" "(3, None)"] by (simp add: que_GetAll_def del: que_key.simps que_val.simps que_view.simps)
qed

lemma queue_db_tx: "txs_Get codec0 leveldb0 3 queue_db = Inr (NewTx codec0 0 plain_tx 7)"
proof -
  have k: "toKey BKTTxs k \<noteq> toKey BKTQue k'" for k k' by (simp add: toKey_def bkt_simps str_bytes_def)
  have "ldb_get leveldb0 queue_db (toKey BKTTxs (hash_bytes 3)) = Inr (utx_Serialize codec0 (NewTx codec0 0 plain_tx 7))"
    unfolding queue_db_def leveldb0_def using k by (simp add: alist_get_def del: que_key.simps que_val.simps)
  then show ?thesis using plain_tx_fits codec0_ok by (simp add: txs_Get_def tx_fits_def)
qed

theorem BlockCommitted_log_witness:
  "\<exists>s :: ((bytes \<times> bytes) list, (uint256 \<times> header) list) spv. svLog s = [] \<and> svLog (BlockCommitted codec0 leveldb0 100 True sample_block s) =
     [Notify 5 (proof_of sample_header) plain_tx, Notify 5 (proof_of sample_header) plain_tx, NotifyBlock sample_block]"
proof -
  obtain st :: "((bytes \<times> bytes) list, (uint256 \<times> header) list) hstore"
    where "hs_GetByHeight codec0 leveldb0 (hdrHeight sample_header) st = Inr sample_header"
    using put_header [OF sample_storable] by blast
  then have st: "hs_GetByHeight codec0 leveldb0 3 st = Inr sample_header" by (simp add: sample_header_def)
  let ?s = "service0\<lparr>svHeaders := st, svDb := (svDb service0)\<lparr>dsDb := queue_db\<rparr>, svListeners := [(5, listener0)]\<rparr>"
  have w: "writes_ok leveldb0" by (simp add: writes_ok_def leveldb0_def)
  have q: "que_GetAll leveldb0 (sv_db ?s) = Inr [que_view (5, 3) (3, None)]" using queue_db_items by simp
  have raw: "utxRawData (NewTx codec0 0 plain_tx 7) = wTx codec0 plain_tx" by (simp add: NewTx_def)
  have "sv_GetTransaction codec0 leveldb0 3 ?s = Inr plain_tx"
    using queue_db_tx codec0_ok by (simp add: sv_GetTransaction_def raw codec_simps)
  then have e: "item_events codec0 leveldb0 100 True sample_block ?s (que_view (5, 3) (3, None)) =
      [Notify 5 (proof_of sample_header) plain_tx, Notify 5 (proof_of sample_header) plain_tx]"
    using st by (simp add: item_events_def listener0_def Let_def service0_def)
  have l: "svLog ?s = []" "svBlockListener ?s" by (simp_all add: service0_def)
  have "svLog (BlockCommitted codec0 leveldb0 100 True sample_block ?s) =
      [Notify 5 (proof_of sample_header) plain_tx, Notify 5 (proof_of sample_header) plain_tx, NotifyBlock sample_block]"
    unfolding BlockCommitted_log [OF leveldb0_ok w q] using l by (simp add: e del: que_view.simps)
  with l(1) show ?thesis by blast
qed

end
