(* ===== verification/ServiceSteps.thy ===== *)
theory ServiceSteps
  imports SPVService
begin

text \<open>
  The loop of \<open>BlockCommitted\<close> (\<open>interface/spvservice.go\<close>) step by step. \<open>BlockCommitted\<close> takes no
  lock: it runs in the goroutine of the peer that delivered the block while the sync manager stores and rolls back
  blocks and while listeners submit receipts, also from inside their \<open>Notify\<close>. Each access to the databases, each
  call of a listener and each question to \<open>IsCurrent\<close> is a step of its own (\<open>commit_step\<close>); the steps of one loop
  with nothing in between are \<open>BlockCommitted\<close> of theory \<open>SPVService\<close> (\<open>BlockCommitted_steps\<close>). The lemmas say what a
  step makes of the loop and of what is stored; theory \<open>ServiceFlow\<close> interleaves the loops with the other calls.
\<close>

subsection \<open>The steps of BlockCommitted\<close>

text \<open>Where the loop stands with the first item of the list: before its checks, after the header was read,
  before \<open>notifyTransaction\<close>, before the item is put back, before \<open>Notify\<close>, before the revert listener.\<close>

datatype stage =
    Fetch
  | Load header
  | Offer merkle_proof txn
  | Mark merkle_proof txn
  | Tell merkle_proof txn
  | Reverts txn

record committing =
  cmBlock :: block
  cmItems :: "que_item list"
  cmStage :: stage

definition commit_step ::
  "codec \<Rightarrow> 'd leveldb \<Rightarrow> u64 \<Rightarrow> bool \<Rightarrow> committing \<Rightarrow> ('d, 'm) spv \<Rightarrow> committing option \<times> ('d, 'm) spv" where
  "commit_step E L now current c s =
     (case cmItems c of
        [] \<Rightarrow> (None, if svBlockListener s \<and> current then sv_log [NotifyBlock (cmBlock c)] s else s)
      | item # items \<Rightarrow>
          (let continue = Some (c\<lparr>cmItems := items, cmStage := Fetch\<rparr>); stay = (\<lambda>st. Some (c\<lparr>cmStage := st\<rparr>)) in
           case cmStage c of
             Fetch \<Rightarrow>
               if sint now < sint (qiLastNotify item) + notifyTimeout then (continue, s)
               else (case hs_GetByHeight E L (qiHeight item) (svHeaders s) of
                       Inl e \<Rightarrow> (continue, s)
                     | Inr hdr \<Rightarrow> (stay (Load hdr), s))
           | Load hdr \<Rightarrow>
               (case sv_GetTransaction E L (qiTxId item) s of
                  Inl e \<Rightarrow> (continue, s)
                | Inr tx \<Rightarrow> (stay (Offer (proof_of hdr) tx), s))
           | Offer proof tx \<Rightarrow>
               (let height = hdrHeight (blkHeader (cmBlock c));
                    confirmCount = (if qiHeight item < height then height - qiHeight item else 0);
                    (l, s) = notifyTransaction L current (qiNotifyId item) proof tx confirmCount s
                in (stay (case l of None \<Rightarrow> Reverts tx | Some l \<Rightarrow> Mark proof tx), s))
           | Mark proof tx \<Rightarrow>
               (stay (Tell proof tx), sv_setdb (snd (que_Put L (item\<lparr>qiLastNotify := now\<rparr>) (sv_db s))) s)
           | Tell proof tx \<Rightarrow> (stay (Reverts tx), sv_log [Notify (qiNotifyId item) proof tx] s)
           | Reverts tx \<Rightarrow>
               (let s = (if svRevertListener s \<and> txType tx = RevertToPOW then sv_log [NotifyRevertToDPOS tx] s else s)
                in (continue, if svRevertListener s \<and> txType tx = RevertToDPOS then sv_log [NotifyRevertToDPOS tx] s else s))))"

definition commit_begin :: "'d leveldb \<Rightarrow> block \<Rightarrow> ('d, 'm) spv \<Rightarrow> committing option" where
  "commit_begin L blk s =
     (case que_GetAll L (sv_db s) of
        Inl e \<Rightarrow> None
      | Inr items \<Rightarrow> Some \<lparr>cmBlock = blk, cmItems = items, cmStage = Fetch\<rparr>)"

text \<open>The steps of one loop with nothing in between, at one time and with one answer of \<open>IsCurrent\<close>.\<close>

fun commit_alone ::
  "codec \<Rightarrow> 'd leveldb \<Rightarrow> u64 \<Rightarrow> bool \<Rightarrow> nat \<Rightarrow> committing option \<times> ('d, 'm) spv \<Rightarrow> committing option \<times> ('d, 'm) spv" where
  "commit_alone E L now current 0 cs = cs"
| "commit_alone E L now current (Suc n) (None, s) = (None, s)"
| "commit_alone E L now current (Suc n) (Some c, s) = commit_alone E L now current n (commit_step E L now current c s)"

lemma commit_alone_add:
  "commit_alone E L now current (n + m) cs = commit_alone E L now current m (commit_alone E L now current n cs)"
proof (induction n arbitrary: cs)
  case (Suc n)
  obtain c s where cs: "cs = (c, s)" by (cases cs)
  show ?case
  proof (cases c)
    case None
    have "commit_alone E L now current m (None, s) = (None, s)" for m by (cases m) simp_all
    with None cs show ?thesis by simp
  qed (use Suc cs in simp)
qed simp

lemma commit_alone_item:
  "\<exists>n. commit_alone E L now current n (Some \<lparr>cmBlock = blk, cmItems = item # items, cmStage = Fetch\<rparr>, s) =
     (Some \<lparr>cmBlock = blk, cmItems = items, cmStage = Fetch\<rparr>, notify_item E L now current blk item s)"
proof (cases "sint now < sint (qiLastNotify item) + notifyTimeout")
  case True
  then show ?thesis by (intro exI [of _ 1]) (simp add: commit_step_def notify_item_def)
next
  case late: False
  show ?thesis
  proof (cases "hs_GetByHeight E L (qiHeight item) (svHeaders s)")
    case (Inl e)
    with late show ?thesis by (intro exI [of _ 1]) (simp add: commit_step_def notify_item_def)
  next
    case hdr: (Inr hdr)
    show ?thesis
    proof (cases "sv_GetTransaction E L (qiTxId item) s")
      case (Inl e)
      with late hdr show ?thesis by (intro exI [of _ 2]) (simp add: commit_step_def notify_item_def numeral_2_eq_2)
    next
      case tx: (Inr tx)
      let ?h = "hdrHeight (blkHeader blk)"
      obtain l s1 where n: "notifyTransaction L current (qiNotifyId item) (proof_of hdr) tx
          (if qiHeight item < ?h then ?h - qiHeight item else 0) s = (l, s1)" by fastforce
      show ?thesis
      proof (cases l)
        case None
        with late hdr tx n show ?thesis
          by (intro exI [of _ 4]) (simp add: commit_step_def notify_item_def eval_nat_numeral Let_def)
      next
        case (Some l')
        have log: "sv_log es (sv_setdb db s1) = sv_setdb db (sv_log es s1)" for es db by (simp add: sv_log_def sv_setdb_def)
        from Some late hdr tx n show ?thesis
          by (intro exI [of _ 6]) (simp add: commit_step_def notify_item_def eval_nat_numeral Let_def)
      qed
    qed
  qed
qed

lemma BlockCommitted_steps:
  "\<exists>n. commit_alone E L now current n (commit_begin L blk s, s) = (None, BlockCommitted E L now current blk s)"
proof (cases "que_GetAll L (sv_db s)")
  case (Inl e)
  then show ?thesis by (intro exI [of _ 0]) (simp add: commit_begin_def BlockCommitted_def)
next
  case (Inr items)
  have "\<exists>n. commit_alone E L now current n (Some \<lparr>cmBlock = blk, cmItems = items, cmStage = Fetch\<rparr>, s) =
      (Some \<lparr>cmBlock = blk, cmItems = [], cmStage = Fetch\<rparr>, fold (notify_item E L now current blk) items s)" for items s
  proof (induction items arbitrary: s)
    case Nil
    show ?case by (intro exI [of _ 0]) simp
  next
    case (Cons item items)
    from commit_alone_item [of E L now current blk item items s] Cons.IH [of "notify_item E L now current blk item s"]
    show ?case by (metis commit_alone_add fold_simps(2))
  qed
  then obtain n where "commit_alone E L now current n (Some \<lparr>cmBlock = blk, cmItems = items, cmStage = Fetch\<rparr>, s) =
      (Some \<lparr>cmBlock = blk, cmItems = [], cmStage = Fetch\<rparr>, fold (notify_item E L now current blk) items s)" by blast
  then have "commit_alone E L now current (n + 1) (commit_begin L blk s, s) = (None, BlockCommitted E L now current blk s)"
    by (cases current) (simp_all add: commit_begin_def Inr commit_alone_add commit_step_def BlockCommitted_def Let_def del: add_Suc_right)
  then show ?thesis by blast
qed

subsection \<open>The state and what it stores\<close>

text \<open>The stored transactions are the serialized ones.\<close>

definition whole_txs :: "codec \<Rightarrow> (uint256 \<rightharpoonup> utiltx) \<Rightarrow> bool" where
  "whole_txs E T \<longleftrightarrow> (\<forall>h u. T h = Some u \<longrightarrow> (\<exists>tx. utxRawData u = wTx E tx \<and> txHash tx = h))"

fun item_key :: "que_item \<Rightarrow> uint256 \<times> uint256" where
  "item_key item = (qiNotifyId item, qiTxId item)"

text \<open>The items of a loop are different ones, and the transaction it has read is that of its item.\<close>

definition commit_ok :: "committing \<Rightarrow> bool" where
  "commit_ok c \<longleftrightarrow> distinct (map item_key (cmItems c)) \<and>
     (\<forall>item items proof tx. cmItems c = item # items \<longrightarrow> cmStage c \<in> {Offer proof tx, Mark proof tx, Tell proof tx} \<longrightarrow>
        txHash tx = qiTxId item)"

text \<open>The database takes every write.\<close>

definition db_up :: "'d leveldb \<Rightarrow> bool" where
  "db_up L \<longleftrightarrow> writes_ok L \<and> (\<forall>d k v. fst (ldb_put L d k v) = None)"

lemma db_up_writes: "db_up L \<Longrightarrow> writes_ok L"
  by (simp add: db_up_def)

lemma stored_in_batch_others:
  assumes "stored_in E f A I J"
    and "\<And>x. x \<in> set b \<Longrightarrow> \<not> prefix BKTTxs (op_key x) \<and> \<not> prefix BKTHeightTxs (op_key x) \<and>
      \<not> prefix BKTOps (op_key x) \<and> \<not> prefix BKTQue (op_key x) \<and> \<not> prefix BKTQueIdx (op_key x)"
  shows "stored_in E (batch_apply b f) A I J"
  using assms by (simp add: stored_in_def txs_ok_others que_ok_others bucket_map_others)

text \<open>A write to the two buckets of the queue.\<close>

lemma stored_in_que_write:
  assumes "leveldb_ok L" and "stored_in E (ldb_get L db) A I J" and "ldb_write L db b = (None, db')"
    and "\<And>x. x \<in> set b \<Longrightarrow> \<not> prefix BKTTxs (op_key x) \<and> \<not> prefix BKTHeightTxs (op_key x) \<and> \<not> prefix BKTOps (op_key x)"
    and "que_ok (ldb_get L db') q J'"
  shows "stored_in E (ldb_get L db') (A\<lparr>stQue := q\<rparr>) I J'"
proof -
  have "ldb_get L db' = batch_apply b (ldb_get L db)" by (rule ldb_get_write [OF assms(1,3)])
  with assms(2,4,5) show ?thesis by (simp add: stored_in_def txs_ok_others bucket_map_others)
qed

lemma que_Put_stored:
  assumes "leveldb_ok L" and "stored_in E (ldb_get L db) A I J" and "que_Put L item db = (None, db')"
  shows "stored_in E (ldb_get L db')
    (A\<lparr>stQue := (stQue A)((qiNotifyId item, qiTxId item) \<mapsto> (qiHeight item, Some (qiLastNotify item)))\<rparr>) I
    (insert (qiHeight item, qiNotifyId item, qiTxId item) J)"
proof -
  have q: "que_ok (ldb_get L db) (stQue A) J" using assms(2) by (simp add: stored_in_def)
  note w = assms(3) [unfolded que_Put_def Let_def]
  show ?thesis by (rule stored_in_que_write [OF assms(1,2) w _ que_Put_ok [OF assms(1) q assms(3)]]) auto
qed

lemma que_Del_none:
  assumes "que_ok (ldb_get L db) m J" and "m (n, t) = None"
  shows "snd (que_Del L n t db) = db"
proof -
  have "\<nexists>v. ldb_get L db (toKey BKTQue (que_value n t)) = Inr v"
    using assms que_map.map_look [of "ldb_get L db" m "(n, t)"] by (simp add: que_ok_def)
  then obtain e where "ldb_get L db (toKey BKTQue (que_value n t)) = Inl e"
    by (cases "ldb_get L db (toKey BKTQue (que_value n t))") auto
  then show ?thesis by (simp add: que_Del_def Let_def)
qed

lemma que_Del_stored:
  assumes "leveldb_ok L" and "writes_ok L" and "stored_in E (ldb_get L db) A I J"
  shows "\<exists>J' \<subseteq> J. stored_in E (ldb_get L (snd (que_Del L n t db))) (A\<lparr>stQue := (stQue A)((n, t) := None)\<rparr>) I J'"
proof (cases "stQue A (n, t)")
  case None
  then have "(stQue A)((n, t) := None) = stQue A" by auto
  with None assms(3) que_Del_none [of L db "stQue A" J n t] show ?thesis by (auto simp: stored_in_def)
next
  case (Some a)
  obtain h l where a: "stQue A (n, t) = Some (h, l)" using Some by (cases a) auto
  have q: "que_ok (ldb_get L db) (stQue A) J" using assms(3) by (simp add: stored_in_def)
  obtain v where v: "ldb_get L db (toKey BKTQue (que_value n t)) = Inr v"
    using q a que_map.map_look [of "ldb_get L db" "stQue A" "(n, t)"] by (auto simp: que_ok_def)
  obtain db' where w: "ldb_write L db [BDel (toKey BKTQue (que_value n t)), BDel (toKey BKTQueIdx (v @ que_value n t))] = (None, db')"
    using write_db [OF assms(2)] by blast
  then have d: "que_Del L n t db = (None, db')" using v by (simp add: que_Del_def Let_def)
  have "stored_in E (ldb_get L db') (A\<lparr>stQue := (stQue A)((n, t) := None)\<rparr>) I (if l = None then J - {(h, n, t)} else J)"
    by (rule stored_in_que_write [OF assms(1,3) w _ que_Del_ok [OF assms(1) q a d]]) auto
  moreover have "(if l = None then J - {(h, n, t)} else J) \<subseteq> J" by simp
  ultimately show ?thesis unfolding d snd_conv by blast
qed

lemma sv_setdb_db [simp]: "sv_db (sv_setdb db s) = db"
  by (simp add: sv_setdb_def)

lemma sv_GetTransaction_whole:
  assumes "codec_ok E" and "stored_in E (ldb_get L (sv_db s)) A I J" and "whole_txs E (stTxs A)"
    and "sv_GetTransaction E L t s = Inr tx"
  shows "txHash tx = t"
proof -
  have k: "txs_ok E (ldb_get L (sv_db s)) (stTxs A) I" using assms(2) by (simp add: stored_in_def)
  obtain u where u: "txs_Get E L t (sv_db s) = Inr u" using assms(4) by (auto simp: sv_GetTransaction_def split: sum.splits)
  then have "stTxs A t = Some u"
    using txs_Get_ok [OF assms(1) k, of t] by (cases "stTxs A t") auto
  then obtain tx' where tx': "utxRawData u = wTx E tx'" "txHash tx' = t" using assms(3) by (auto simp: whole_txs_def)
  then have "sv_GetTransaction E L t s = Inr tx'"
    using u assms(1) by (simp add: sv_GetTransaction_def codec_simps)
  with assms(4) tx'(2) show ?thesis by simp
qed

lemma sv_log_simps [simp]:
  "svHeaders (sv_log es s) = svHeaders s" "svBlockListener (sv_log es s) = svBlockListener s"
  by (simp_all add: sv_log_def)

lemma que_GetAll_distinct:
  assumes "leveldb_ok L" and "que_ok (ldb_get L db) q J" and "que_GetAll L db = Inr items"
  shows "distinct (map item_key items)"
proof -
  have "map fst kvs = map (toKey BKTQue \<circ> que_key \<circ> item_key) items"
    if "iter_all que_entry kvs = Inr items" and "\<forall>kv \<in> set kvs. \<exists>x a. kv = (toKey BKTQue (que_key x), que_val a)" for kvs
    using that
  proof (induction kvs arbitrary: items)
    case Nil
    then show ?case by simp
  next
    case (Cons kv kvs)
    obtain x a where kv: "kv = (toKey BKTQue (que_key x), que_val a)" using Cons.prems(2) by auto
    have e: "que_entry kv = Inr (que_view x a)" unfolding kv by (rule que_map.dec) simp_all
    obtain items' where i: "iter_all que_entry kvs = Inr items'" "items = que_view x a # items'"
      using Cons.prems(1) by (auto simp: e simp del: que_view.simps split: sum.splits)
    have "item_key (que_view x a) = x" by (cases x; cases a) simp
    with Cons.IH [OF i(1)] Cons.prems(2) show ?case by (simp add: kv i(2) del: que_view.simps item_key.simps que_key.simps)
  qed
  moreover have "\<forall>kv \<in> set (ldb_iter L db BKTQue). \<exists>x a. kv = (toKey BKTQue (que_key x), que_val a)"
  proof
    fix kv
    assume "kv \<in> set (ldb_iter L db BKTQue)"
    then have "prefix BKTQue (fst kv)" "ldb_get L db (fst kv) = Inr (snd kv)" by (auto simp: ldb_iter_set [OF assms(1)])
    then obtain x a where "fst kv = toKey BKTQue (que_key x)" "snd kv = que_val a"
      using assms(2) unfolding que_ok_def bucket_map_def by blast
    then show "\<exists>x a. kv = (toKey BKTQue (que_key x), que_val a)" by (metis prod.collapse)
  qed
  ultimately have "map fst (ldb_iter L db BKTQue) = map (toKey BKTQue \<circ> que_key) (map item_key items)"
    using assms(3) by (simp add: que_GetAll_def)
  with ldb_iter_distinct [OF assms(1), of db BKTQue] show ?thesis by (metis distinct_map)
qed

subsection \<open>One step of BlockCommitted\<close>

text \<open>What a step can do to the loop: it goes on with the same item or with the next one, or it ends.\<close>

definition goes_on :: "committing \<Rightarrow> committing option \<Rightarrow> bool" where
  "goes_on c c' \<longleftrightarrow>
     (case c' of
        None \<Rightarrow> cmItems c = []
      | Some d \<Rightarrow> cmBlock d = cmBlock c \<and>
          (cmItems d = cmItems c \<and> cmItems c \<noteq> [] \<or> (\<exists>item. cmItems c = item # cmItems d \<and> cmStage d = Fetch)))"

lemma commit_step_goes_on: "commit_step E L now current c s = (c', s') \<Longrightarrow> goes_on c c'"
  by (cases "cmItems c"; cases "cmStage c")
    (auto simp: commit_step_def goes_on_def Let_def split: if_splits sum.splits prod.splits)

lemma goes_on_items: "goes_on c (Some d) \<Longrightarrow> set (cmItems d) \<subseteq> set (cmItems c)"
  by (auto simp: goes_on_def)

lemma notifyTransaction_cases:
  assumes "notifyTransaction L current k p tx n s = (l, s')"
  obtains (same) "s' = s" and "l = None" | (listener) "s' = s" and "l \<noteq> None"
  | (notified) "s' = sv_log [Notify k p tx] s" and "l \<noteq> None"
  | (dropped) l' where "s' = sv_setdb (snd (que_Del L k (txHash tx) (sv_db s))) s" and "l = None" and "\<not> current"
      and "map_of (svListeners s) k = Some l'" and "lnFlags l' AND FlagNotifyInSyncing \<noteq> FlagNotifyInSyncing"
proof (cases "map_of (svListeners s) k")
  case None
  with assms have "s' = s" "l = None" by (auto simp: notifyTransaction_def)
  then show thesis by (rule same)
next
  case l: (Some l')
  show thesis
  proof (cases "\<not> current \<and> lnFlags l' AND FlagNotifyInSyncing \<noteq> FlagNotifyInSyncing")
    case True
    have "l = None \<and> (s' = s \<or> s' = sv_setdb (snd (que_Del L k (txHash tx) (sv_db s))) s)"
      using assms unfolding notifyTransaction_def l option.case if_P [OF True] by (auto split: if_splits)
    then show thesis using same dropped l True by blast
  next
    case False
    have "(if lnFlags l' AND FlagNotifyConfirmed = FlagNotifyConfirmed then if getConfirmations tx \<le> n then (Some l', s) else (None, s)
        else (Some l', sv_log [Notify k p tx] s)) = (l, s')"
      using assms unfolding notifyTransaction_def l option.case if_not_P [OF False] .
    then show thesis using same listener notified by (auto split: if_splits)
  qed
qed

text \<open>Its effect on the service: nothing, a time put for its item, its item dropped, or events in the log.\<close>

definition effect ::
  "codec \<Rightarrow> 'd leveldb \<Rightarrow> u64 \<Rightarrow> bool \<Rightarrow> committing \<Rightarrow> ('d, 'm) spv \<Rightarrow> ('d, 'm) spv \<Rightarrow> bool" where
  "effect E L now current c s s' \<longleftrightarrow>
     s' = s \<or>
     (\<exists>es. s' = sv_log es s \<and> (\<forall>k p tx. Notify k p tx \<in> set es \<longrightarrow>
        (\<exists>item items. cmItems c = item # items \<and> k = qiNotifyId item \<and> cmStage c \<in> {Offer p tx, Tell p tx}))) \<or>
     (\<exists>item items p tx. cmItems c = item # items \<and> cmStage c = Mark p tx \<and>
        s' = sv_setdb (snd (que_Put L (item\<lparr>qiLastNotify := now\<rparr>) (sv_db s))) s) \<or>
     (\<exists>item items p tx l. cmItems c = item # items \<and> cmStage c = Offer p tx \<and> \<not> current \<and>
        map_of (svListeners s) (qiNotifyId item) = Some l \<and> lnFlags l AND FlagNotifyInSyncing \<noteq> FlagNotifyInSyncing \<and>
        s' = sv_setdb (snd (que_Del L (qiNotifyId item) (txHash tx) (sv_db s))) s)"

lemma commit_step_effect:
  assumes "commit_step E L now current c s = (c', s')"
  shows "effect E L now current c s s'"
proof (cases "cmItems c")
  case Nil
  then have "s' = s \<or> s' = sv_log [NotifyBlock (cmBlock c)] s" using assms by (auto simp: commit_step_def)
  then show ?thesis
  proof
    assume "s' = sv_log [NotifyBlock (cmBlock c)] s"
    then show ?thesis unfolding effect_def by (intro disjI2 [OF disjI1] exI [of _ "[NotifyBlock (cmBlock c)]"]) simp
  qed (simp add: effect_def)
next
  case (Cons item items)
  show ?thesis
  proof (cases "cmStage c")
    case (Offer p tx)
    let ?h = "hdrHeight (blkHeader (cmBlock c))"
    obtain l s1 where n: "notifyTransaction L current (qiNotifyId item) p tx
        (if qiHeight item < ?h then ?h - qiHeight item else 0) s = (l, s1)" by fastforce
    with assms Cons Offer have "s' = s1" by (simp add: commit_step_def Let_def)
    with n show ?thesis by (cases rule: notifyTransaction_cases) (use Cons Offer in \<open>auto simp: effect_def\<close>)
  next
    case (Reverts tx)
    let ?es = "(if svRevertListener s \<and> txType tx = RevertToPOW then [NotifyRevertToDPOS tx] else []) @
      (if svRevertListener s \<and> txType tx = RevertToDPOS then [NotifyRevertToDPOS tx] else [])"
    have "s' = sv_log ?es s" using assms Cons Reverts by (cases "svRevertListener s"; cases "txType tx") (auto simp: commit_step_def sv_log_def)
    then show ?thesis unfolding effect_def by (intro disjI2 [OF disjI1] exI [of _ ?es]) auto
  qed (use assms Cons in \<open>auto simp: commit_step_def effect_def Let_def split: if_splits sum.splits\<close>)
qed

lemma commit_step_commit_ok:
  assumes "codec_ok E" and "stored_in E (ldb_get L (sv_db s)) A I J" and "whole_txs E (stTxs A)" and ok: "commit_ok c"
    and st: "commit_step E L now current c s = (Some d, s')"
  shows "commit_ok d"
proof -
  have g: "cmItems d = cmItems c \<and> cmItems c \<noteq> [] \<or> (\<exists>item. cmItems c = item # cmItems d \<and> cmStage d = Fetch)"
    using commit_step_goes_on [OF st] by (simp add: goes_on_def)
  then have "distinct (map item_key (cmItems d))" using ok by (auto simp: commit_ok_def)
  moreover have "txHash tx = qiTxId item"
    if i: "cmItems d = item # items" and t: "cmStage d \<in> {Offer p tx, Mark p tx, Tell p tx}" for item items p tx
  proof (cases "cmStage c")
    case (Load hdr)
    then have "sv_GetTransaction E L (qiTxId item) s = Inr tx"
      using st i t g by (auto simp: commit_step_def Let_def split: list.splits sum.splits)
    from sv_GetTransaction_whole [OF assms(1-3) this] show ?thesis .
  next
    case (Offer p' tx')
    then have "tx' = tx" "cmItems c = item # items"
      using st i t g by (auto simp: commit_step_def Let_def split: list.splits prod.splits option.splits)
    with ok Offer show ?thesis by (auto simp: commit_ok_def)
  next
    case (Mark p' tx')
    then have "tx' = tx" "cmItems c = item # items" using st i t g by (auto simp: commit_step_def Let_def split: list.splits)
    with ok Mark show ?thesis by (auto simp: commit_ok_def)
  qed (use st i t g in \<open>auto simp: commit_step_def Let_def split: list.splits sum.splits if_splits\<close>)
  ultimately show ?thesis unfolding commit_ok_def by blast
qed

end
