(* ===== verification/ServiceFlow.thy ===== *)
theory ServiceFlow
  imports ServiceSteps
begin

text \<open>
  The life of a notification in the SPV service (\<open>interface/spvservice.go\<close>). A run is any list of calls on the
  service and of steps of the loops of \<open>BlockCommitted\<close> (theory \<open>ServiceSteps\<close>), one loop in the goroutine of each peer
  (\<open>svc_step\<close>, \<open>svc_run\<close>). The lemmas follow one item of the queue through a run; the properties
  state that the listener is notified until it submits the receipt, and not afterwards. Writes to the
  database are assumed to succeed, and clearing all data is not among the calls.
\<close>

subsection \<open>Runs\<close>

text \<open>The calls on the service, and the beginning and the steps of the loop of \<open>BlockCommitted\<close> in the goroutine of a
  peer. A goroutine has at most one loop under way.\<close>

datatype svc_call =
    CallPutTxs u64 "txn list" u32
  | CallDelTxs u32
  | CallPutForkTxs u64 "txn list" uint256
  | CallReceipt uint256 uint256
  | CallRegister listener
  | CallPutHeader header bool
  | BlockBegin nat block
  | BlockStep nat u64 bool

type_synonym ('d, 'm) world = "('d, 'm) spv \<times> (nat \<Rightarrow> committing option)"

fun svc_step :: "codec \<Rightarrow> 'd leveldb \<Rightarrow> 'm omap \<Rightarrow> svc_call \<Rightarrow> ('d, 'm) world \<Rightarrow> ('d, 'm) world" where
  "svc_step E L M (CallPutTxs now txs height) (s, cs) = (snd (PutTxs E L now txs height s), cs)"
| "svc_step E L M (CallDelTxs height) (s, cs) = (snd (DelTxs E L height s), cs)"
| "svc_step E L M (CallPutForkTxs now txs hash) (s, cs) = (snd (PutForkTxs E L now txs hash s), cs)"
| "svc_step E L M (CallReceipt notifyId txId) (s, cs) = (snd (SubmitTransactionReceipt L notifyId txId s), cs)"
| "svc_step E L M (CallRegister l) (s, cs) = (snd (RegisterTransactionListener E L l s), cs)"
| "svc_step E L M (CallPutHeader h newTip) (s, cs) = (s\<lparr>svHeaders := snd (hs_Put E L M h newTip (svHeaders s))\<rparr>, cs)"
| "svc_step E L M (BlockBegin i blk) (s, cs) =
     (case cs i of
        Some c \<Rightarrow> (s, cs)
      | None \<Rightarrow> (s, cs(i := commit_begin L blk s)))"
| "svc_step E L M (BlockStep i now current) (s, cs) =
     (case cs i of
        None \<Rightarrow> (s, cs)
      | Some c \<Rightarrow> (let (c', s) = commit_step E L now current c s in (s, cs(i := c'))))"

definition svc_run :: "codec \<Rightarrow> 'd leveldb \<Rightarrow> 'm omap \<Rightarrow> svc_call list \<Rightarrow> ('d, 'm) world \<Rightarrow> ('d, 'm) world" where
  "svc_run E L M cs w = fold (svc_step E L M) cs w"

lemma svc_run_simps [simp]:
  "svc_run E L M [] w = w" "svc_run E L M (c # cs) w = svc_run E L M cs (svc_step E L M c w)"
  "svc_run E L M (cs @ ds) w = svc_run E L M ds (svc_run E L M cs w)"
  by (simp_all add: svc_run_def)

text \<open>The transactions a call stores must fit a block.\<close>

fun call_fits :: "codec \<Rightarrow> svc_call \<Rightarrow> bool" where
  "call_fits E (CallPutTxs now txs height) \<longleftrightarrow> (\<forall>tx \<in> set txs. tx_fits E (NewTx E now (sort_keys tx) height))"
| "call_fits E _ \<longleftrightarrow> True"

text \<open>A call that stores no transaction with a given hash.\<close>

fun puts_not :: "uint256 \<Rightarrow> svc_call \<Rightarrow> bool" where
  "puts_not h (CallPutTxs now txs height) \<longleftrightarrow> h \<notin> txHash ` set txs"
| "puts_not h _ \<longleftrightarrow> True"

text \<open>A call after which an item of a listener, queued at a height, is still queued: it is neither its receipt nor a
  rollback of the height, and no step of \<open>BlockCommitted\<close> that asks a service that is not current, unless the
  listener is notified in syncing; for such a listener the step would drop the item.\<close>

fun keeps_item :: "uint256 \<Rightarrow> uint256 \<Rightarrow> u32 \<Rightarrow> listener \<Rightarrow> svc_call \<Rightarrow> bool" where
  "keeps_item k h height l (CallReceipt notifyId txId) \<longleftrightarrow> (notifyId, txId) \<noteq> (k, h)"
| "keeps_item k h height l (CallDelTxs height') \<longleftrightarrow> height' \<noteq> height"
| "keeps_item k h height l (BlockStep i now current) \<longleftrightarrow>
     current \<or> lnFlags l AND FlagNotifyInSyncing = FlagNotifyInSyncing"
| "keeps_item k h height l _ \<longleftrightarrow> True"

fun call_times :: "svc_call \<Rightarrow> u64 set" where
  "call_times (BlockStep i now current) = {now}"
| "call_times _ = {}"

text \<open>A service that has filled its database itself: its index of the heights is empty, see \<open>PutTxs_stored\<close>.\<close>

definition world_ok :: "codec \<Rightarrow> 'd leveldb \<Rightarrow> ('d, 'm) world \<Rightarrow> stored \<Rightarrow> (u32 \<times> uint256 \<times> uint256) set \<Rightarrow> bool" where
  "world_ok E L w A J \<longleftrightarrow> stored_in E (ldb_get L (sv_db (fst w))) A (\<lambda>h. []) J \<and> listeners_ok E (svListeners (fst w)) \<and>
     whole_txs E (stTxs A) \<and> (\<forall>i c. snd w i = Some c \<longrightarrow> commit_ok c)"

subsection \<open>What a call changes\<close>

text \<open>The calls that put a time for an item and those that drop it.\<close>

fun marks :: "(nat \<Rightarrow> committing option) \<Rightarrow> svc_call \<Rightarrow> uint256 \<times> uint256 \<Rightarrow> u32 \<Rightarrow> u64 \<Rightarrow> bool" where
  "marks cs (BlockStep i now current) x h n \<longleftrightarrow> n = now \<and>
     (\<exists>c item items p tx. cs i = Some c \<and> cmItems c = item # items \<and> cmStage c = Mark p tx \<and> item_key item = x \<and> qiHeight item = h)"
| "marks cs _ x h n \<longleftrightarrow> False"

fun drops :: "(uint256 \<times> listener) list \<Rightarrow> (u32 \<times> uint256 \<times> uint256) set \<Rightarrow> svc_call \<Rightarrow> uint256 \<times> uint256 \<Rightarrow> bool" where
  "drops ls J (CallReceipt notifyId txId) x \<longleftrightarrow> x = (notifyId, txId)"
| "drops ls J (CallDelTxs height) x \<longleftrightarrow> (height, x) \<in> J"
| "drops ls J (BlockStep i now current) x \<longleftrightarrow> \<not> current \<and>
     (\<exists>l. map_of ls (fst x) = Some l \<and> lnFlags l AND FlagNotifyInSyncing \<noteq> FlagNotifyInSyncing)"
| "drops ls J _ x \<longleftrightarrow> False"

definition moved ::
  "('d, 'm) world \<Rightarrow> svc_call \<Rightarrow> stored \<Rightarrow> (u32 \<times> uint256 \<times> uint256) set \<Rightarrow> stored \<Rightarrow> (u32 \<times> uint256 \<times> uint256) set \<Rightarrow> bool" where
  "moved w c A J A' J' \<longleftrightarrow> (\<forall>k h. puts_not h c \<longrightarrow> stTxs A' h = stTxs A h \<and>
     (\<forall>h'. (h', k, h) \<in> J' \<longrightarrow> (h', k, h) \<in> J \<or> (\<exists>n. marks (snd w) c (k, h) h' n)) \<and>
     (stQue A' (k, h) = stQue A (k, h) \<or>
      (\<exists>h' n. marks (snd w) c (k, h) h' n \<and> stQue A' (k, h) = Some (h', Some n)) \<or>
      drops (svListeners (fst w)) J c (k, h) \<and> stQue A' (k, h) = None))"

lemma moved_refl [simp]: "moved w c A J A J"
  by (simp add: moved_def)

text \<open>What is stored after a call, the loops aside.\<close>

definition state_ok :: "codec \<Rightarrow> 'd leveldb \<Rightarrow> ('d, 'm) spv \<Rightarrow> stored \<Rightarrow> (u32 \<times> uint256 \<times> uint256) set \<Rightarrow> bool" where
  "state_ok E L s A J \<longleftrightarrow> stored_in E (ldb_get L (sv_db s)) A (\<lambda>h. []) J \<and> listeners_ok E (svListeners s) \<and> whole_txs E (stTxs A)"

lemma world_ok_state: "world_ok E L w A J \<longleftrightarrow> state_ok E L (fst w) A J \<and> (\<forall>i c. snd w i = Some c \<longrightarrow> commit_ok c)"
  by (auto simp: world_ok_def state_ok_def)

lemma effect_listeners: "effect E L now current c s s' \<Longrightarrow> svListeners s' = svListeners s"
  by (auto simp: effect_def sv_log_def sv_setdb_def)

lemma block_step_moved:
  assumes "codec_ok E" and "leveldb_ok L" and "writes_ok L" and w: "world_ok E L (s, cs) A J"
    and c: "cs i = Some c" and e: "effect E L now current c s s'"
  shows "\<exists>A' J'. state_ok E L s' A' J' \<and> moved (s, cs) (BlockStep i now current) A J A' J'"
proof -
  have A: "stored_in E (ldb_get L (sv_db s)) A (\<lambda>h. []) J" and wh: "whole_txs E (stTxs A)" and ls: "listeners_ok E (svListeners s)"
    and ok: "commit_ok c"
    using w c by (auto simp: world_ok_def)
  note same = effect_listeners [OF e]
  from e [unfolded effect_def] consider (db) "sv_db s' = sv_db s"
    | (mark) item items p tx where "cmItems c = item # items" "cmStage c = Mark p tx"
        "sv_db s' = snd (que_Put L (item\<lparr>qiLastNotify := now\<rparr>) (sv_db s))"
    | (drop) item items p tx l where "cmItems c = item # items" "cmStage c = Offer p tx" "\<not> current"
        "map_of (svListeners s) (qiNotifyId item) = Some l" "lnFlags l AND FlagNotifyInSyncing \<noteq> FlagNotifyInSyncing"
        "sv_db s' = snd (que_Del L (qiNotifyId item) (txHash tx) (sv_db s))"
    by (elim disjE exE conjE) (auto simp: sv_log_def)
  then show ?thesis
  proof cases
    case db
    with A wh ls same have "state_ok E L s' A J" by (simp add: state_ok_def)
    then show ?thesis using moved_refl by blast
  next
    case mark
    let ?item = "item\<lparr>qiLastNotify := now\<rparr>"
    obtain db' where p: "que_Put L ?item (sv_db s) = (None, db')"
      unfolding que_Put_def Let_def using write_db [OF assms(3)] by blast
    let ?q = "(stQue A)((qiNotifyId item, qiTxId item) \<mapsto> (qiHeight item, Some now))"
    let ?J = "insert (qiHeight item, qiNotifyId item, qiTxId item) J"
    have "state_ok E L s' (A\<lparr>stQue := ?q\<rparr>) ?J"
      using que_Put_stored [OF assms(2) A p] mark(3) p wh ls same by (simp add: state_ok_def)
    moreover have "moved (s, cs) (BlockStep i now current) A J (A\<lparr>stQue := ?q\<rparr>) ?J"
      using mark(1,2) c by (auto simp: moved_def)
    ultimately show ?thesis by blast
  next
    case drop
    have "txHash tx = qiTxId item" using ok drop(1,2) by (auto simp: commit_ok_def)
    then obtain J' where J': "J' \<subseteq> J"
        "stored_in E (ldb_get L (sv_db s')) (A\<lparr>stQue := (stQue A)((qiNotifyId item, qiTxId item) := None)\<rparr>) (\<lambda>h. []) J'"
      using que_Del_stored [OF assms(2,3) A, of "qiNotifyId item" "qiTxId item"] drop(6) by auto
    then have "state_ok E L s' (A\<lparr>stQue := (stQue A)((qiNotifyId item, qiTxId item) := None)\<rparr>) J'"
      using wh ls same by (simp add: state_ok_def)
    moreover have "moved (s, cs) (BlockStep i now current) A J (A\<lparr>stQue := (stQue A)((qiNotifyId item, qiTxId item) := None)\<rparr>) J'"
      using drop(3-5) J'(1) by (auto simp: moved_def)
    ultimately show ?thesis by blast
  qed
qed

text \<open>Putting transactions.\<close>

lemma put_loop_db:
  "put_loop E L now ls txs height fps b d = (r, b', d') \<Longrightarrow> dsDb d' = dsDb d"
proof (induction txs arbitrary: fps b d)
  case Nil
  then show ?case by simp
next
  case (Cons tx txs)
  obtain r1 b1 d1 where p: "putTx E L now ls tx height b d = (r1, b1, d1)" by (cases "putTx E L now ls tx height b d")
  then have "dsDb d1 = dsDb d"
    by (auto simp: putTx_def Let_def put_side_side(2) split: prod.splits option.splits if_splits sum.splits)
  then show ?case using Cons p by (cases r1) auto
qed

lemma PutTxs_same: "svListeners (snd (PutTxs E L now txs height s)) = svListeners s"
  by (simp add: PutTxs_def split: prod.split sum.split option.split)

lemma PutTxs_error:
  assumes "writes_ok L" and "PutTxs E L now txs height s = (Inl e, s')"
  shows "sv_db s' = sv_db s"
proof -
  obtain r b d where p: "put_loop E L now (svListeners s) txs height 0 [] (svDb s) = (r, b, d)"
    by (cases "put_loop E L now (svListeners s) txs height 0 [] (svDb s)")
  obtain db where "ldb_write L (dsDb d) b = (None, db)" using write_db [OF assms(1)] by blast
  with assms(2) p have "s' = s\<lparr>svDb := d\<rparr>" by (auto simp: PutTxs_def dataBatch_Commit_def split: sum.splits)
  with put_loop_db [OF p] show ?thesis by simp
qed

lemma put_stored_frame:
  assumes "h \<noteq> txHash tx"
  shows "stTxs (put_stored E d m ls now height tx A) h = stTxs A h"
    and "stQue (put_stored E d m ls now height tx A) (k, h) = stQue A (k, h)"
  using assms by (simp_all add: put_stored_def)

lemma puts_stored_frame:
  assumes "h \<notin> txHash ` set txs"
  shows "stTxs (fold (put_stored E d m ls now height) txs A) h = stTxs A h"
    and "stQue (fold (put_stored E d m ls now height) txs A) (k, h) = stQue A (k, h)"
  using assms by (induction txs arbitrary: A) (simp_all add: put_stored_frame)

lemma puts_stored_whole:
  "whole_txs E (stTxs A) \<Longrightarrow> whole_txs E (stTxs (fold (put_stored E d m ls now height) txs A))"
proof (induction txs arbitrary: A)
  case Nil
  then show ?case by simp
next
  case (Cons tx txs)
  have "whole_txs E (stTxs (put_stored E d m ls now height tx A))"
    using Cons.prems by (auto simp: whole_txs_def put_stored_def NewTx_def)
  from Cons.IH [OF this] show ?case by simp
qed

lemma put_moved:
  assumes "codec_ok E" and "leveldb_ok L" and "writes_ok L" and s: "state_ok E L s A J"
    and fit: "call_fits E (CallPutTxs now txs height)"
  shows "\<exists>A' J'. state_ok E L (snd (PutTxs E L now txs height s)) A' J' \<and> moved (s, cs) (CallPutTxs now txs height) A J A' J'"
proof (cases "PutTxs E L now txs height s")
  case (Pair r s')
  have A: "stored_in E (ldb_get L (sv_db s)) A (\<lambda>h. []) J" and w: "whole_txs E (stTxs A)" and ls: "listeners_ok E (svListeners s)"
    using s by (auto simp: state_ok_def)
  have l: "svListeners s' = svListeners s" using PutTxs_same [of E L now txs height s] Pair by simp
  show ?thesis
  proof (cases r)
    case (Inl e)
    from PutTxs_error [OF assms(3) Pair [unfolded Inl]] have "state_ok E L s' A J" using s l by (simp add: state_ok_def)
    with Pair show ?thesis by (metis moved_refl snd_conv)
  next
    case (Inr fps)
    let ?A = "fold (put_stored E (svDb s) (stOps A) (svListeners s) now height) txs A"
    have "\<forall>tx \<in> set txs. tx_fits E (NewTx E now (sort_keys tx) height)" using fit by simp
    from PutTxs_stored [OF assms(1,2) ls A this Pair [unfolded Inr]] obtain J' where
      J': "J' \<subseteq> J \<union> {height} \<times> UNIV \<times> txHash ` set txs" "stored_in E (ldb_get L (sv_db s')) ?A (\<lambda>h. []) J'" by blast
    from J'(2) have "state_ok E L s' ?A J'" using ls l puts_stored_whole [OF w] by (auto simp: state_ok_def)
    moreover have "moved (s, cs) (CallPutTxs now txs height) A J ?A J'"
      using J'(1) by (auto simp: moved_def puts_stored_frame)
    ultimately show ?thesis using Pair by auto
  qed
qed

text \<open>Rolling a height back.\<close>

lemma del_moved:
  assumes "codec_ok E" and "leveldb_ok L" and "writes_ok L" and s: "state_ok E L s A J"
  shows "\<exists>A' J'. state_ok E L (snd (DelTxs E L height s)) A' J' \<and> moved (s, cs) (CallDelTxs height) A J A' J'"
proof -
  have A: "txs_ok E (ldb_get L (sv_db s)) (stTxs A) (\<lambda>h. [])" "ops_holds E (ldb_get L (sv_db s)) (stOps A)"
      "que_ok (ldb_get L (sv_db s)) (stQue A) J"
    using s by (auto simp: state_ok_def stored_in_def)
  obtain e b c where d: "dataBatch_DelAll E L height (sv_db s) [] (dsCid (svDb s)) = (e, b, c)"
    by (cases "dataBatch_DelAll E L height (sv_db s) [] (dsCid (svDb s))")
  have ls: "svListeners (snd (DelTxs E L height s)) = svListeners s"
    by (simp add: DelTxs_def sv_log_def Let_def split: prod.split option.split)
  show ?thesis
  proof (cases e)
    case (Some x)
    with d have "sv_db (snd (DelTxs E L height s)) = sv_db s" by (simp add: DelTxs_def)
    with s ls have "state_ok E L (snd (DelTxs E L height s)) A J" by (simp add: state_ok_def)
    then show ?thesis using moved_refl by blast
  next
    case None
    obtain db where w: "dataBatch_Commit L b (sv_db s) = (None, db)"
      unfolding dataBatch_Commit_def using write_db [OF assms(3)] by blast
    from d None w have db: "sv_db (snd (DelTxs E L height s)) = db" by (simp add: DelTxs_def Let_def sv_log_def)
    let ?q = "without_entry height J (stQue A)" and ?J = "{x \<in> J. fst x \<noteq> height}"
    have all: "m |` UNIV = m" for m :: "'x \<rightharpoonup> 'y" by (auto simp: restrict_map_def)
    note r = DelAll_records_removed [OF assms(1,2) A _ _ d [unfolded None] w]
    have "stored_in E (ldb_get L db) (A\<lparr>stQue := ?q\<rparr>) (\<lambda>h. []) ?J"
      using r by (simp add: stored_in_def fun_upd_idem all)
    then have "state_ok E L (snd (DelTxs E L height s)) (A\<lparr>stQue := ?q\<rparr>) ?J" using s ls db by (simp add: state_ok_def)
    moreover have "moved (s, cs) (CallDelTxs height) A J (A\<lparr>stQue := ?q\<rparr>) ?J"
      by (auto simp: moved_def without_entry_def)
    ultimately show ?thesis by blast
  qed
qed

text \<open>Registering a listener writes at most to the bucket of the addresses or to that of the types, putting fork
  transactions to that of the forks.\<close>

lemma watch_keys [simp]:
  "\<not> prefix BKTTxs (toKey BKTAddrs k)" "\<not> prefix BKTHeightTxs (toKey BKTAddrs k)" "\<not> prefix BKTOps (toKey BKTAddrs k)"
  "\<not> prefix BKTQue (toKey BKTAddrs k)" "\<not> prefix BKTQueIdx (toKey BKTAddrs k)"
  "\<not> prefix BKTTxs (toKey BKTTxTypes k)" "\<not> prefix BKTHeightTxs (toKey BKTTxTypes k)" "\<not> prefix BKTOps (toKey BKTTxTypes k)"
  "\<not> prefix BKTQue (toKey BKTTxTypes k)" "\<not> prefix BKTQueIdx (toKey BKTTxTypes k)"
  "\<not> prefix BKTTxs (toKey BKTForkTxs k)" "\<not> prefix BKTHeightTxs (toKey BKTForkTxs k)" "\<not> prefix BKTOps (toKey BKTForkTxs k)"
  "\<not> prefix BKTQue (toKey BKTForkTxs k)" "\<not> prefix BKTQueIdx (toKey BKTForkTxs k)"
  by (simp_all add: toKey_def bkt_simps str_bytes_def)

lemma put_other_bucket:
  assumes "leveldb_ok L" and "db_up L" and "stored_in E (ldb_get L db) A I J" and "b = BKTAddrs \<or> b = BKTTxTypes \<or> b = BKTForkTxs"
  shows "stored_in E (ldb_get L (snd (ldb_put L db (toKey b k) v))) A I J"
proof -
  obtain db' where p: "ldb_put L db (toKey b k) v = (None, db')"
    using assms(2) unfolding db_up_def by (metis prod.collapse)
  have "ldb_get L db' = batch_apply [BPut (toKey b k) v] (ldb_get L db)"
    using ldb_get_put [OF assms(1) p] by (simp add: fun_eq_iff)
  with stored_in_batch_others [OF assms(3), of "[BPut (toKey b k) v]"] assms(4) p show ?thesis by auto
qed

lemma watch_put:
  assumes "leveldb_ok L" and "db_up L" and "stored_in E (ldb_get L (dsDb d)) A I J"
  shows "stored_in E (ldb_get L (dsDb (snd (ds_Addrs_Put L a d)))) A I J"
    and "stored_in E (ldb_get L (dsDb (snd (ds_TxTypes_Put L t d)))) A I J"
  using put_other_bucket [OF assms, of BKTAddrs "u168_bytes a" "u168_bytes a"] put_other_bucket [OF assms, of BKTTxTypes "[t]" "[t]"] assms(3)
  by (simp_all add: ds_Addrs_Put_def ds_TxTypes_Put_def addrs_Put_def txtypes_Put_def ds_Addrs_def ds_TxTypes_def Let_def
      case_prod_unfold)

lemma register_ok:
  assumes "leveldb_ok L" and "db_up L" and s: "state_ok E L s A J"
  shows "state_ok E L (snd (RegisterTransactionListener E L l s)) A J"
proof -
  let ?s = "snd (RegisterTransactionListener E L l s)"
  have A: "stored_in E (ldb_get L (sv_db s)) A (\<lambda>h. []) J" using s by (auto simp: state_ok_def)
  have "listeners_ok E (svListeners ?s)"
    using s RegisterTransactionListener_ok [of E s L l] by (metis prod.collapse state_ok_def)
  moreover have "svDb ?s = svDb s \<or> (\<exists>a. svDb ?s = snd (ds_Addrs_Put L a (svDb s))) \<or> (\<exists>t. svDb ?s = snd (ds_TxTypes_Put L t (svDb s)))"
    by (auto simp: RegisterTransactionListener_def Let_def case_prod_unfold split: sum.split)
  then have "stored_in E (ldb_get L (sv_db ?s)) A (\<lambda>h. []) J" using A watch_put [OF assms(1,2) A] by auto
  ultimately show ?thesis using s unfolding state_ok_def by blast
qed

lemma register_map:
  "map_of (svListeners s) k = Some l \<Longrightarrow> map_of (svListeners (snd (RegisterTransactionListener E L l' s))) k = Some l"
  by (auto simp: RegisterTransactionListener_def Let_def map_add_Some_iff split: sum.split prod.split)

lemma fork_ok:
  assumes "leveldb_ok L" and "db_up L" and s: "state_ok E L s A J"
  shows "state_ok E L (snd (PutForkTxs E L now txs hash s)) A J"
proof -
  have A: "stored_in E (ldb_get L (sv_db s)) A (\<lambda>h. []) J" using s by (auto simp: state_ok_def)
  have "sv_db (snd (PutForkTxs E L now txs hash s)) = snd (txs_PutForkTxs E L (map (\<lambda>tx. NewTx E now tx 0) txs) hash (sv_db s))"
    "svListeners (snd (PutForkTxs E L now txs hash s)) = svListeners s"
    by (simp_all add: PutForkTxs_def sv_setdb_def split: prod.split)
  with put_other_bucket [OF assms(1,2) A, of BKTForkTxs] s show ?thesis by (simp add: state_ok_def txs_PutForkTxs_def)
qed

lemma receipt_moved:
  assumes "leveldb_ok L" and "writes_ok L" and s: "state_ok E L s A J"
  shows "\<exists>J'. state_ok E L (snd (SubmitTransactionReceipt L n t s)) (A\<lparr>stQue := (stQue A)((n, t) := None)\<rparr>) J' \<and>
    moved (s, cs) (CallReceipt n t) A J (A\<lparr>stQue := (stQue A)((n, t) := None)\<rparr>) J'"
proof -
  have A: "stored_in E (ldb_get L (sv_db s)) A (\<lambda>h. []) J" using s by (simp add: state_ok_def)
  obtain J' where J': "J' \<subseteq> J" "stored_in E (ldb_get L (snd (que_Del L n t (sv_db s)))) (A\<lparr>stQue := (stQue A)((n, t) := None)\<rparr>) (\<lambda>h. []) J'"
    using que_Del_stored [OF assms(1,2) A] by blast
  have "sv_db (snd (SubmitTransactionReceipt L n t s)) = snd (que_Del L n t (sv_db s))"
    "svListeners (snd (SubmitTransactionReceipt L n t s)) = svListeners s"
    by (simp_all add: SubmitTransactionReceipt_def sv_setdb_def split: prod.split)
  with J' s have "state_ok E L (snd (SubmitTransactionReceipt L n t s)) (A\<lparr>stQue := (stQue A)((n, t) := None)\<rparr>) J'"
    by (simp add: state_ok_def)
  moreover have "moved (s, cs) (CallReceipt n t) A J (A\<lparr>stQue := (stQue A)((n, t) := None)\<rparr>) J'"
    using J'(1) by (auto simp: moved_def)
  ultimately show ?thesis by blast
qed

text \<open>The loops after a call.\<close>

lemma svc_step_loop:
  assumes "snd (svc_step E L M c w) j = Some d"
  obtains (kept) "snd w j = Some d"
  | (begun) blk where "c = BlockBegin j blk" and "snd w j = None" and "commit_begin L blk (fst w) = Some d"
  | (stepped) now current c0 s' where "c = BlockStep j now current" and "snd w j = Some c0"
      and "commit_step E L now current c0 (fst w) = (Some d, s')"
  using assms by (cases w; cases c) (auto simp: Let_def split: option.splits prod.splits if_splits)

text \<open>Every call keeps the world well-formed.\<close>

lemma svc_step_ok:
  assumes "codec_ok E" and "leveldb_ok L" and "db_up L" and w: "world_ok E L w A J" and fit: "call_fits E c"
  shows "\<exists>A' J'. world_ok E L (svc_step E L M c w) A' J' \<and> moved w c A J A' J'"
proof -
  obtain s cs where sc: "w = (s, cs)" by (cases w)
  have wo: "writes_ok L" using assms(3) by (rule db_up_writes)
  have s: "state_ok E L s A J" using w by (simp add: sc world_ok_state)
  have A: "stored_in E (ldb_get L (sv_db s)) A (\<lambda>h. []) J" "whole_txs E (stTxs A)" using s by (simp_all add: state_ok_def)
  have "\<exists>A' J'. state_ok E L (fst (svc_step E L M c w)) A' J' \<and> moved w c A J A' J'"
  proof (cases c)
    case (CallPutTxs now txs height)
    with put_moved [OF assms(1,2) wo s, of now txs height cs] fit show ?thesis by (simp add: sc)
  next
    case (CallDelTxs height)
    with del_moved [OF assms(1,2) wo s, of height cs] show ?thesis by (simp add: sc)
  next
    case (CallPutForkTxs now txs hash)
    with fork_ok [OF assms(2,3) s] moved_refl show ?thesis by (fastforce simp: sc)
  next
    case (CallReceipt n t)
    with receipt_moved [OF assms(2) wo s, of n t cs] show ?thesis by (auto simp: sc)
  next
    case (CallRegister l)
    with register_ok [OF assms(2,3) s] moved_refl show ?thesis by (fastforce simp: sc)
  next
    case (CallPutHeader h newTip)
    have "state_ok E L (fst (svc_step E L M c w)) A J" using s by (simp add: sc CallPutHeader state_ok_def)
    then show ?thesis using moved_refl by blast
  next
    case (BlockBegin i blk)
    have "state_ok E L (fst (svc_step E L M c w)) A J" using s by (simp add: sc BlockBegin split: option.split)
    then show ?thesis using moved_refl by blast
  next
    case (BlockStep i now current)
    show ?thesis
    proof (cases "cs i")
      case None
      then have "state_ok E L (fst (svc_step E L M c w)) A J" using s by (simp add: sc BlockStep)
      then show ?thesis using moved_refl by blast
    next
      case (Some c0)
      obtain c1 s1 where e: "commit_step E L now current c0 s = (c1, s1)" by fastforce
      from block_step_moved [OF assms(1,2) wo w [unfolded sc] Some commit_step_effect [OF e]] Some e BlockStep
      show ?thesis by (simp add: sc)
    qed
  qed
  moreover have "commit_ok d" if "snd (svc_step E L M c w) j = Some d" for j d
    using that
  proof (cases rule: svc_step_loop)
    case kept
    with w show ?thesis by (auto simp: sc world_ok_def)
  next
    case (begun blk)
    then obtain items where i: "que_GetAll L (sv_db s) = Inr items" "d = \<lparr>cmBlock = blk, cmItems = items, cmStage = Fetch\<rparr>"
      by (auto simp: commit_begin_def sc split: sum.splits)
    have "que_ok (ldb_get L (sv_db s)) (stQue A) J" using A(1) by (simp add: stored_in_def)
    from que_GetAll_distinct [OF assms(2) this i(1)] have "distinct (map item_key items)" .
    then show ?thesis by (simp add: i(2) commit_ok_def)
  next
    case (stepped now current c0 s')
    have "commit_ok c0" using w stepped(2) by (auto simp: sc world_ok_def)
    with stepped(3) show ?thesis using commit_step_commit_ok [OF assms(1) A] by (simp add: sc)
  qed
  ultimately show ?thesis unfolding world_ok_state by blast
qed

subsection \<open>The log\<close>

lemma effect_log:
  assumes "effect E L now current c s s'"
  shows "\<exists>es. svLog s' = svLog s @ es \<and> (\<forall>k p tx. Notify k p tx \<in> set es \<longrightarrow>
    (\<exists>item items. cmItems c = item # items \<and> k = qiNotifyId item \<and> cmStage c \<in> {Offer p tx, Tell p tx}))"
proof -
  have "svLog s' = svLog s \<or> (\<exists>es. svLog s' = svLog s @ es \<and> (\<forall>k p tx. Notify k p tx \<in> set es \<longrightarrow>
      (\<exists>item items. cmItems c = item # items \<and> k = qiNotifyId item \<and> cmStage c \<in> {Offer p tx, Tell p tx})))"
    using assms unfolding effect_def by (elim disjE exE conjE) (auto simp: sv_log_def sv_setdb_def)
  then show ?thesis by (auto intro: exI [of _ "[]"])
qed

text \<open>Only a step of a loop logs a notification, that of the item it stands at.\<close>

lemma svc_step_log:
  "\<exists>es. svLog (fst (svc_step E L M c w)) = svLog (fst w) @ es \<and> (\<forall>k p tx. Notify k p tx \<in> set es \<longrightarrow>
     (\<exists>i now current c0 item items. c = BlockStep i now current \<and> snd w i = Some c0 \<and> cmItems c0 = item # items \<and>
        k = qiNotifyId item \<and> cmStage c0 \<in> {Offer p tx, Tell p tx}))"
proof -
  obtain s cs where w: "w = (s, cs)" by (cases w)
  show ?thesis
  proof (cases c)
    case (BlockStep i now current)
    show ?thesis
    proof (cases "cs i")
      case (Some c0)
      obtain c1 s1 where e: "commit_step E L now current c0 s = (c1, s1)" by fastforce
      from effect_log [OF commit_step_effect [OF e]] Some e show ?thesis by (auto simp: w BlockStep)
    qed (simp add: w BlockStep)
  next
    case (CallDelTxs height)
    have "\<exists>es. svLog (snd (DelTxs E L height s)) = svLog s @ es \<and> set es \<subseteq> {RolledBack height}"
      by (simp add: DelTxs_def sv_log_def Let_def split: prod.split option.split)
    then obtain es where "svLog (snd (DelTxs E L height s)) = svLog s @ es" "set es \<subseteq> {RolledBack height}" by blast
    then show ?thesis by (intro exI [of _ es]) (auto simp: w CallDelTxs)
  qed (auto simp: w PutTxs_def PutForkTxs_def SubmitTransactionReceipt_def RegisterTransactionListener_def Let_def case_prod_unfold
    split: prod.split sum.split option.split)
qed

lemma svc_run_log: "\<exists>es. svLog (fst (svc_run E L M cs w)) = svLog (fst w) @ es"
proof (induction cs arbitrary: w)
  case (Cons c cs)
  obtain es1 where "svLog (fst (svc_step E L M c w)) = svLog (fst w) @ es1" using svc_step_log [of E L M c w] by blast
  moreover obtain es2 where "svLog (fst (svc_run E L M cs (svc_step E L M c w))) = svLog (fst (svc_step E L M c w)) @ es2"
    using Cons by blast
  ultimately show ?case by simp
qed simp

subsection \<open>After a receipt\<close>

text \<open>The items a loop has still before it: the one it stands at is behind once its listener was told.\<close>

definition holds :: "committing \<Rightarrow> (uint256 \<times> uint256) set" where
  "holds c = item_key ` set (case cmStage c of Reverts tx \<Rightarrow> tl (cmItems c) | _ \<Rightarrow> cmItems c)"

lemma commit_step_holds: "commit_step E L now current c s = (Some d, s') \<Longrightarrow> holds d \<subseteq> holds c"
  by (cases "cmItems c"; cases "cmStage c")
    (auto simp: commit_step_def holds_def Let_def split: if_splits sum.splits prod.splits option.splits)

definition gone :: "uint256 \<Rightarrow> uint256 \<Rightarrow> ('d, 'm) world \<Rightarrow> stored \<Rightarrow> bool" where
  "gone k h w A \<longleftrightarrow> stQue A (k, h) = None \<and> (\<forall>i c. snd w i = Some c \<longrightarrow> (k, h) \<notin> holds c)"

lemma gone_step:
  assumes "leveldb_ok L" and w: "world_ok E L w A J" and g: "gone k h w A" and p: "puts_not h c" and m: "moved w c A J A' J'"
  shows "gone k h (svc_step E L M c w) A'"
    and "\<exists>es. svLog (fst (svc_step E L M c w)) = svLog (fst w) @ es \<and> (\<forall>p tx. Notify k p tx \<in> set es \<longrightarrow> txHash tx \<noteq> h)"
proof -
  have stays: "(k, h) \<notin> holds c0" if "snd w i = Some c0" for i c0 using g that by (auto simp: gone_def)
  have "\<not> marks (snd w) c (k, h) h' n" for h' n
    by (cases c) (auto simp: holds_def dest!: stays)
  with m p g have "stQue A' (k, h) = None" unfolding moved_def gone_def by metis
  moreover have "(k, h) \<notin> holds d" if "snd (svc_step E L M c w) j = Some d" for j d
    using that
  proof (cases rule: svc_step_loop)
    case kept
    with stays show ?thesis by blast
  next
    case (begun blk)
    then obtain items where i: "que_GetAll L (sv_db (fst w)) = Inr items" "d = \<lparr>cmBlock = blk, cmItems = items, cmStage = Fetch\<rparr>"
      by (auto simp: commit_begin_def split: sum.splits)
    have "que_ok (ldb_get L (sv_db (fst w))) (stQue A) J" using w by (simp add: world_ok_def stored_in_def)
    from que_GetAll_ok [OF assms(1) this] i(1) have "set items = {que_view x a |x a. stQue A x = Some a}" by simp
    with g show ?thesis by (auto simp: gone_def holds_def i(2))
  next
    case (stepped now current c0 s')
    with commit_step_holds [OF stepped(3)] stays show ?thesis by blast
  qed
  ultimately show "gone k h (svc_step E L M c w) A'" by (simp add: gone_def)
  obtain es where es: "svLog (fst (svc_step E L M c w)) = svLog (fst w) @ es" "\<And>k p tx. Notify k p tx \<in> set es \<Longrightarrow>
     (\<exists>i now current c0 item items. c = BlockStep i now current \<and> snd w i = Some c0 \<and> cmItems c0 = item # items \<and>
        k = qiNotifyId item \<and> cmStage c0 \<in> {Offer p tx, Tell p tx})"
    using svc_step_log [of E L M c w] by blast
  have "txHash tx \<noteq> h" if n: "Notify k p tx \<in> set es" for p tx
  proof -
    obtain i c0 item items where c0: "snd w i = Some c0" "cmItems c0 = item # items" "k = qiNotifyId item"
        "cmStage c0 \<in> {Offer p tx, Tell p tx}"
      using es(2) [OF n] by blast
    have "commit_ok c0" using w c0(1) by (auto simp: world_ok_def)
    then have "txHash tx = qiTxId item" using c0(2,4) unfolding commit_ok_def by blast
    with stays [OF c0(1)] c0(2-4) show ?thesis by (auto simp: holds_def)
  qed
  with es(1) show "\<exists>es. svLog (fst (svc_step E L M c w)) = svLog (fst w) @ es \<and> (\<forall>p tx. Notify k p tx \<in> set es \<longrightarrow> txHash tx \<noteq> h)"
    by blast
qed

lemma svc_run_gone:
  assumes "codec_ok E" and "leveldb_ok L" and "db_up L"
  shows "world_ok E L w A J \<Longrightarrow> gone k h w A \<Longrightarrow> \<forall>c \<in> set cs. call_fits E c \<and> puts_not h c \<Longrightarrow>
    \<exists>es. svLog (fst (svc_run E L M cs w)) = svLog (fst w) @ es \<and> (\<forall>p tx. Notify k p tx \<in> set es \<longrightarrow> txHash tx \<noteq> h)"
proof (induction cs arbitrary: w A J)
  case (Cons c cs)
  obtain A1 J1 where 1: "world_ok E L (svc_step E L M c w) A1 J1" "moved w c A J A1 J1"
    using svc_step_ok [OF assms Cons.prems(1), of c M] Cons.prems(3) by auto
  have p: "puts_not h c" using Cons.prems(3) by simp
  note g = gone_step [OF assms(2) Cons.prems(1,2) p 1(2), of M]
  obtain es1 where "svLog (fst (svc_step E L M c w)) = svLog (fst w) @ es1" "\<forall>p tx. Notify k p tx \<in> set es1 \<longrightarrow> txHash tx \<noteq> h"
    using g(2) by blast
  moreover obtain es2 where "svLog (fst (svc_run E L M cs (svc_step E L M c w))) = svLog (fst (svc_step E L M c w)) @ es2"
      "\<forall>p tx. Notify k p tx \<in> set es2 \<longrightarrow> txHash tx \<noteq> h"
    using Cons.IH [OF 1(1) g(1)] Cons.prems(3) by auto
  ultimately show ?case by (intro exI [of _ "es1 @ es2"]) auto
qed simp

text \<open>A listener that was told is behind the loop that told it, so that its receipt counts; after the first of
  the two notifications of \<open>notifyTransaction\<close> and \<open>BlockCommitted\<close> it is not.\<close>

lemma told_not_held:
  assumes "commit_ok c" and "cmItems c = item # items" and "cmStage c = Tell p tx"
    and "commit_step E L now current c s = (Some d, s')"
  shows "item_key item \<notin> holds d" and "svLog s' = svLog s @ [Notify (qiNotifyId item) p tx]"
  using assms by (auto simp: commit_step_def commit_ok_def holds_def sv_log_def)

subsection \<open>Until the receipt\<close>

text \<open>An item is queued for a listener: with the height of its transaction, and a time that was put by one of the
  steps so far; no entry of the index and no item of a loop gives another height for it.\<close>

definition queued ::
  "codec \<Rightarrow> 'd leveldb \<Rightarrow> u64 set \<Rightarrow> uint256 \<Rightarrow> uint256 \<Rightarrow> u32 \<Rightarrow> listener \<Rightarrow> utiltx \<Rightarrow>
   ('d, 'm) world \<Rightarrow> stored \<Rightarrow> (u32 \<times> uint256 \<times> uint256) set \<Rightarrow> bool" where
  "queued E L T k h height l u w A J \<longleftrightarrow> world_ok E L w A J \<and> map_of (svListeners (fst w)) k = Some l \<and> stTxs A h = Some u \<and>
     (\<exists>t. stQue A (k, h) = Some (height, t) \<and> t \<in> insert None (Some ` T)) \<and> (\<forall>h'. (h', k, h) \<in> J \<longrightarrow> h' = height) \<and>
     (\<forall>i c item. snd w i = Some c \<longrightarrow> item \<in> set (cmItems c) \<longrightarrow> item_key item = (k, h) \<longrightarrow> qiHeight item = height)"

lemma svc_step_listeners:
  assumes "map_of (svListeners (fst w)) k = Some l"
  shows "map_of (svListeners (fst (svc_step E L M c w))) k = Some l"
proof -
  obtain s cs where w: "w = (s, cs)" by (cases w)
  show ?thesis
  proof (cases c)
    case (BlockStep i now current)
    show ?thesis
    proof (cases "cs i")
      case (Some c0)
      obtain c1 s1 where e: "commit_step E L now current c0 s = (c1, s1)" by fastforce
      from effect_listeners [OF commit_step_effect [OF e]] Some e assms show ?thesis by (simp add: w BlockStep)
    qed (use assms in \<open>simp add: w BlockStep\<close>)
  next
    case (CallDelTxs height)
    have "svListeners (snd (DelTxs E L height s)) = svListeners s"
      by (simp add: DelTxs_def sv_log_def Let_def split: prod.split option.split)
    with assms show ?thesis by (simp add: w CallDelTxs)
  qed (use assms in \<open>auto simp: w PutTxs_same PutForkTxs_def SubmitTransactionReceipt_def sv_setdb_def register_map
    split: prod.split option.split\<close>)
qed

lemma queued_step:
  assumes "codec_ok E" and "leveldb_ok L" and "db_up L" and q: "queued E L T k h height l u w A J"
    and c: "call_fits E c" "puts_not h c" "keeps_item k h height l c" "call_times c \<subseteq> T"
  shows "\<exists>A' J'. queued E L T k h height l u (svc_step E L M c w) A' J'"
proof -
  have w: "world_ok E L w A J" and l: "map_of (svListeners (fst w)) k = Some l" and u: "stTxs A h = Some u"
    and J: "\<And>h'. (h', k, h) \<in> J \<Longrightarrow> h' = height"
    and items: "\<And>i c item. snd w i = Some c \<Longrightarrow> item \<in> set (cmItems c) \<Longrightarrow> item_key item = (k, h) \<Longrightarrow> qiHeight item = height"
    using q by (auto simp: queued_def)
  obtain t where t: "stQue A (k, h) = Some (height, t)" "t \<in> insert None (Some ` T)" using q by (auto simp: queued_def)
  obtain A' J' where s: "world_ok E L (svc_step E L M c w) A' J'" "moved w c A J A' J'"
    using svc_step_ok [OF assms(1-3) w c(1)] by blast
  have mark: "h' = height \<and> n \<in> T" if "marks (snd w) c (k, h) h' n" for h' n
    using that c(4) items by (cases c) fastforce+
  have drop: "\<not> drops (svListeners (fst w)) J c (k, h)" using c(3) J l by (cases c) auto
  have m: "stTxs A' h = stTxs A h" "\<And>h'. (h', k, h) \<in> J' \<Longrightarrow> (h', k, h) \<in> J \<or> (\<exists>n. marks (snd w) c (k, h) h' n)"
      "stQue A' (k, h) = stQue A (k, h) \<or> (\<exists>h' n. marks (snd w) c (k, h) h' n \<and> stQue A' (k, h) = Some (h', Some n))"
    using s(2) c(2) drop unfolding moved_def by blast+
  have 1: "qiHeight item = height" if d: "snd (svc_step E L M c w) j = Some d" and item: "item \<in> set (cmItems d)" "item_key item = (k, h)"
    for j d item
    using d
  proof (cases rule: svc_step_loop)
    case kept
    with items item show ?thesis by blast
  next
    case (begun blk)
    then obtain ys where i: "que_GetAll L (sv_db (fst w)) = Inr ys" "cmItems d = ys"
      by (auto simp: commit_begin_def split: sum.splits)
    have "que_ok (ldb_get L (sv_db (fst w))) (stQue A) J" using w by (simp add: world_ok_def stored_in_def)
    from que_GetAll_ok [OF assms(2) this] i(1) have "set ys = {que_view x a |x a. stQue A x = Some a}" by simp
    with item t(1) show ?thesis by (auto simp: i(2))
  next
    case (stepped now current c0 s')
    have "set (cmItems d) \<subseteq> set (cmItems c0)" by (rule goes_on_items [OF commit_step_goes_on [OF stepped(3)]])
    with items [OF stepped(2)] item show ?thesis by blast
  qed
  have 2: "\<exists>t. stQue A' (k, h) = Some (height, t) \<and> t \<in> insert None (Some ` T)"
    using m(3) t mark by auto
  have 3: "h' = height" if "(h', k, h) \<in> J'" for h' using m(2) [OF that] J mark by blast
  have 4: "stTxs A' h = Some u" using m(1) u by simp
  have "queued E L T k h height l u (svc_step E L M c w) A' J'"
    unfolding queued_def by (intro conjI allI impI s(1) svc_step_listeners [OF l] 4 2) (simp_all only: 1 3)
  then show ?thesis by blast
qed

lemma queued_run:
  assumes "codec_ok E" and "leveldb_ok L" and "db_up L"
  shows "queued E L T k h height l u w A J \<Longrightarrow>
    \<forall>c \<in> set cs. call_fits E c \<and> puts_not h c \<and> keeps_item k h height l c \<and> call_times c \<subseteq> T \<Longrightarrow>
    \<exists>A' J'. queued E L T k h height l u (svc_run E L M cs w) A' J'"
proof (induction cs arbitrary: w A J)
  case (Cons c cs)
  obtain A1 J1 where "queued E L T k h height l u (svc_step E L M c w) A1 J1"
    using queued_step [OF assms Cons.prems(1), of c M] Cons.prems(2) by auto
  from Cons.IH [OF this] Cons.prems(2) show ?case by simp
qed auto

text \<open>The item is ahead in a loop; when the loop stands at it, it has read the header and the transaction.\<close>

definition ahead :: "header \<Rightarrow> txn \<Rightarrow> que_item \<Rightarrow> committing \<Rightarrow> bool" where
  "ahead hdr tx item c \<longleftrightarrow> item \<in> set (cmItems c) \<and>
     (hd (cmItems c) = item \<longrightarrow>
        cmStage c \<in> {Fetch, Load hdr, Offer (proof_of hdr) tx, Mark (proof_of hdr) tx, Tell (proof_of hdr) tx})"

text \<open>The steps a loop has still to make.\<close>

fun stages_left :: "stage \<Rightarrow> nat" where
  "stages_left Fetch = 6" | "stages_left (Load hdr) = 5" | "stages_left (Offer p tx) = 4"
| "stages_left (Mark p tx) = 3" | "stages_left (Tell p tx) = 2" | "stages_left (Reverts tx) = 1"

definition work :: "committing \<Rightarrow> nat" where
  "work c = 6 * length (cmItems c) + stages_left (cmStage c)"

lemma commit_step_work:
  assumes "commit_step E L now current c s = (Some d, s')"
  shows "work d < work c"
proof -
  have "0 < stages_left st" for st by (cases st) simp_all
  with assms show ?thesis
    by (cases "cmItems c"; cases "cmStage c")
      (auto simp: commit_step_def work_def Let_def split: if_splits sum.splits prod.splits option.splits)
qed

text \<open>A loop ends: at the latest after the steps counted.\<close>

lemma commit_ends: "work c \<le> n \<Longrightarrow> fst (commit_alone E L now current n (Some c, s)) = None"
proof (induction n arbitrary: c s)
  case 0
  have "0 < stages_left (cmStage c)" by (cases "cmStage c") simp_all
  with 0 show ?case by (simp add: work_def)
next
  case (Suc n)
  obtain c1 s1 where e: "commit_step E L now current c s = (c1, s1)" by fastforce
  show ?case
  proof (cases c1)
    case None
    have "fst (commit_alone E L now current n (None, s1)) = None" by (cases n) simp_all
    with e None show ?thesis by simp
  next
    case (Some d)
    with commit_step_work [of E L now current c s d s1] e Suc show ?thesis by simp
  qed
qed

lemma notify_due:
  assumes "map_of (svListeners s) k = Some l" and "current \<or> lnFlags l AND FlagNotifyInSyncing = FlagNotifyInSyncing"
    and "lnFlags l AND FlagNotifyConfirmed = FlagNotifyConfirmed \<Longrightarrow> getConfirmations tx \<le> n"
  shows "notifyTransaction L current k p tx n s =
    (Some l, if lnFlags l AND FlagNotifyConfirmed = FlagNotifyConfirmed then s else sv_log [Notify k p tx] s)"
  using assms by (auto simp: notifyTransaction_def)

lemma ahead_step:
  assumes ok: "commit_ok c" and a: "ahead hdr tx item c" and l: "map_of (svListeners s) (qiNotifyId item) = Some l"
    and h: "hs_GetByHeight E L (qiHeight item) (svHeaders s) = Inr hdr" and tx: "sv_GetTransaction E L (qiTxId item) s = Inr tx"
    and t: "sint (qiLastNotify item) + 10 \<le> sint now" and f: "current \<or> lnFlags l AND FlagNotifyInSyncing = FlagNotifyInSyncing"
    and due: "lnFlags l AND FlagNotifyConfirmed = FlagNotifyConfirmed \<Longrightarrow> qiHeight item < hdrHeight (blkHeader (cmBlock c)) \<and>
      getConfirmations tx \<le> hdrHeight (blkHeader (cmBlock c)) - qiHeight item"
    and e: "commit_step E L now current c s = (c', s')"
  shows "Notify (qiNotifyId item) (proof_of hdr) tx \<in> set (drop (length (svLog s)) (svLog s')) \<or>
    (\<exists>d. c' = Some d \<and> cmBlock d = cmBlock c \<and> ahead hdr tx item d)"
proof -
  obtain x xs where i: "cmItems c = x # xs" using a by (cases "cmItems c") (auto simp: ahead_def)
  have g: "goes_on c c'" by (rule commit_step_goes_on [OF e])
  then obtain d where d: "c' = Some d" "cmBlock d = cmBlock c" using i by (cases c') (auto simp: goes_on_def)
  show ?thesis
  proof (cases "x = item")
    case False
    then have "item \<in> set xs" using a i by (auto simp: ahead_def)
    moreover have "cmItems d = x # xs \<or> cmItems d = xs \<and> cmStage d = Fetch" using g i d(1) by (auto simp: goes_on_def)
    ultimately have "ahead hdr tx item d" using False by (auto simp: ahead_def)
    with d show ?thesis by blast
  next
    case True
    have "\<not> sint now < sint (qiLastNotify item) + notifyTimeout" using t by (simp add: notifyTimeout_def)
    note this [simp] h [simp] tx [simp]
    from a i True consider (f) "cmStage c = Fetch" | (l) "cmStage c = Load hdr" | (o) "cmStage c = Offer (proof_of hdr) tx"
      | (m) "cmStage c = Mark (proof_of hdr) tx" | (t) "cmStage c = Tell (proof_of hdr) tx"
      by (auto simp: ahead_def)
    then show ?thesis
    proof cases
      case o
      let ?h = "hdrHeight (blkHeader (cmBlock c))"
      have "notifyTransaction L current (qiNotifyId item) (proof_of hdr) tx (if qiHeight item < ?h then ?h - qiHeight item else 0) s =
          (Some l, if lnFlags l AND FlagNotifyConfirmed = FlagNotifyConfirmed then s else sv_log [Notify (qiNotifyId item) (proof_of hdr) tx] s)"
        by (rule notify_due [OF l f]) (use due in simp)
      with e i True o have "c' = Some (c\<lparr>cmStage := Mark (proof_of hdr) tx\<rparr>)" by (simp add: commit_step_def Let_def)
      with i True show ?thesis by (simp add: ahead_def)
    qed (use e i True in \<open>auto simp: commit_step_def ahead_def sv_log_def\<close>)
  qed
qed

text \<open>A step of a given loop.\<close>

fun step_of :: "nat \<Rightarrow> svc_call \<Rightarrow> bool" where
  "step_of i (BlockStep j now current) \<longleftrightarrow> i = j"
| "step_of i _ \<longleftrightarrow> False"

lemma svc_step_other:
  assumes "snd w i = Some c" and "\<not> step_of i x"
  shows "snd (svc_step E L M x w) i = Some c"
  using assms by (cases w; cases x) (auto simp: Let_def split: option.split prod.split)

text \<open>What the listener waits for.\<close>

definition due_at :: "listener \<Rightarrow> txn \<Rightarrow> u32 \<Rightarrow> block \<Rightarrow> bool" where
  "due_at l tx height blk \<longleftrightarrow> (lnFlags l AND FlagNotifyConfirmed = FlagNotifyConfirmed \<longrightarrow>
     height < hdrHeight (blkHeader blk) \<and> getConfirmations tx \<le> hdrHeight (blkHeader blk) - height)"

lemma run_notifies:
  assumes "codec_ok E" and "leveldb_ok L" and "db_up L"
    and u: "utxRawData u = wTx E tx" and item: "item_key item = (k, h)" "qiHeight item = height"
  shows "queued E L T k h height l u w A J \<Longrightarrow> snd w i = Some c \<Longrightarrow> ahead hdr tx item c \<Longrightarrow> due_at l tx height (cmBlock c) \<Longrightarrow>
    \<forall>x \<in> set ds. call_fits E x \<and> puts_not h x \<and> keeps_item k h height l x \<and> call_times x \<subseteq> T \<Longrightarrow>
    \<forall>now current. BlockStep i now current \<in> set ds \<longrightarrow> sint (qiLastNotify item) + 10 \<le> sint now \<Longrightarrow>
    \<forall>xs. prefix xs ds \<longrightarrow> hs_GetByHeight E L height (svHeaders (fst (svc_run E L M xs w))) = Inr hdr \<Longrightarrow>
    work c \<le> length (filter (step_of i) ds) \<Longrightarrow>
    Notify k (proof_of hdr) tx \<in> set (drop (length (svLog (fst w))) (svLog (fst (svc_run E L M ds w))))"
proof (induction ds arbitrary: w A J c)
  case Nil
  have "0 < stages_left (cmStage c)" by (cases "cmStage c") simp_all
  with Nil show ?case by (simp add: work_def)
next
  case (Cons x ds)
  let ?w = "svc_step E L M x w"
  have x: "call_fits E x" "puts_not h x" "keeps_item k h height l x" "call_times x \<subseteq> T" using Cons.prems(5) by simp_all
  obtain A1 J1 where q: "queued E L T k h height l u ?w A1 J1"
    using queued_step [OF assms(1-3) Cons.prems(1) x] by blast
  have hdrs: "\<forall>xs. prefix xs ds \<longrightarrow> hs_GetByHeight E L height (svHeaders (fst (svc_run E L M xs ?w))) = Inr hdr"
  proof (intro allI impI)
    fix xs
    assume "prefix xs ds"
    then have "prefix (x # xs) (x # ds)" by simp
    from Cons.prems(7) [rule_format, OF this] show "hs_GetByHeight E L height (svHeaders (fst (svc_run E L M xs ?w))) = Inr hdr"
      by simp
  qed
  obtain es1 where es1: "svLog (fst ?w) = svLog (fst w) @ es1" using svc_step_log [of E L M x w] by blast
  obtain es2 where es2: "svLog (fst (svc_run E L M ds ?w)) = svLog (fst ?w) @ es2" using svc_run_log by blast
  note IH = Cons.IH [OF q _ _ _ _ _ hdrs]
  have go: ?case if "Notify k (proof_of hdr) tx \<in> set (drop (length (svLog (fst ?w))) (svLog (fst (svc_run E L M ds ?w))))"
    using that es1 es2 by simp
  show ?case
  proof (cases "step_of i x")
    case False
    have "snd ?w i = Some c" by (rule svc_step_other [OF Cons.prems(2) False])
    with False Cons.prems(3-6,8) show ?thesis by (intro go IH) auto
  next
    case True
    then obtain now current where st: "x = BlockStep i now current" by (cases x) auto
    obtain s cs where w: "w = (s, cs)" by (cases w)
    have c: "cs i = Some c" "commit_ok c" "map_of (svListeners s) (qiNotifyId item) = Some l"
      using Cons.prems(1,2) item(1) by (auto simp: w queued_def world_ok_def)
    have hd: "hs_GetByHeight E L (qiHeight item) (svHeaders s) = Inr hdr"
      using Cons.prems(7) [rule_format, of "[]"] item(2) by (simp add: w)
    have k: "txs_ok E (ldb_get L (sv_db s)) (stTxs A) (\<lambda>h. [])" "stTxs A h = Some u"
      using Cons.prems(1) by (auto simp: w queued_def world_ok_def stored_in_def)
    have "txs_Get E L h (sv_db s) = Inr u" by (rule txs_Get_ok(1) [OF assms(1) k])
    then have tx: "sv_GetTransaction E L (qiTxId item) s = Inr tx"
      using assms(1) u item(1) by (simp add: sv_GetTransaction_def codec_simps)
    obtain c' s' where e: "commit_step E L now current c s = (c', s')" by fastforce
    have w': "?w = (s', cs(i := c'))" using c(1) e by (simp add: w st)
    have f: "current \<or> lnFlags l AND FlagNotifyInSyncing = FlagNotifyInSyncing" using x(3) by (simp add: st)
    have t: "sint (qiLastNotify item) + 10 \<le> sint now" using Cons.prems(6) st by auto
    have "Notify (qiNotifyId item) (proof_of hdr) tx \<in> set (drop (length (svLog s)) (svLog s')) \<or>
        (\<exists>d. c' = Some d \<and> cmBlock d = cmBlock c \<and> ahead hdr tx item d)"
      by (rule ahead_step [OF c(2) Cons.prems(3) c(3) hd tx t f _ e]) (use Cons.prems(4) item(2) in \<open>simp add: due_at_def\<close>)
    then show ?thesis
    proof
      assume "Notify (qiNotifyId item) (proof_of hdr) tx \<in> set (drop (length (svLog s)) (svLog s'))"
      moreover have "svLog s' = svLog s @ es1" using es1 unfolding w' by (simp add: w)
      ultimately show ?thesis using es2 item(1) unfolding w' by (simp add: w w' [unfolded w])
    next
      assume "\<exists>d. c' = Some d \<and> cmBlock d = cmBlock c \<and> ahead hdr tx item d"
      then obtain d where d: "c' = Some d" "cmBlock d = cmBlock c" "ahead hdr tx item d" by blast
      have "work d < work c" by (rule commit_step_work [OF e [unfolded d(1)]])
      with True Cons.prems(4-6,8) d show ?thesis by (intro go IH [of d]) (auto simp: w')
    qed
  qed
qed

text \<open>What a put leaves of its last transaction with a hash.\<close>

lemma puts_stored_in:
  assumes "tx \<in> set txs" and "distinct (map txHash txs)" and "concerns E d m tx" and "(k, l) \<in> set ls"
    and "wants E (touched d m tx) tx l"
  shows "stTxs (fold (put_stored E d m ls now height) txs A) (txHash tx) = Some (NewTx E now (sort_keys tx) height)"
    and "stQue (fold (put_stored E d m ls now height) txs A) (k, txHash tx) = Some (height, None)"
proof -
  obtain xs ys where t: "txs = xs @ tx # ys" using split_list [OF assms(1)] by blast
  then have "txHash tx \<notin> txHash ` set ys" using assms(2) by auto
  with assms(3-5) show "stTxs (fold (put_stored E d m ls now height) txs A) (txHash tx) = Some (NewTx E now (sort_keys tx) height)"
    and "stQue (fold (put_stored E d m ls now height) txs A) (k, txHash tx) = Some (height, None)"
    by (auto simp: t puts_stored_frame put_stored_def)
qed

lemma PutTxs_queues:
  assumes "codec_ok E" and "leveldb_ok L" and w: "world_ok E L (s, cs) A J"
    and fit: "call_fits E (CallPutTxs now txs height)" and p: "PutTxs E L now txs height s = (Inr fps, s1)"
    and tx: "tx \<in> set txs" "distinct (map txHash txs)" "concerns E (svDb s) (stOps A) tx"
    and l: "map_of (svListeners s) k = Some l" "wants E (touched (svDb s) (stOps A) tx) tx l"
    and new: "\<forall>h'. (h', k, txHash tx) \<notin> J" "\<forall>i c. cs i = Some c \<longrightarrow> (k, txHash tx) \<notin> item_key ` set (cmItems c)"
  shows "\<exists>A' J'. queued E L T k (txHash tx) height l (NewTx E now (sort_keys tx) height) (s1, cs) A' J'"
proof -
  have A: "stored_in E (ldb_get L (sv_db s)) A (\<lambda>h. []) J" and wh: "whole_txs E (stTxs A)" and ls: "listeners_ok E (svListeners s)"
    and ok: "\<forall>i c. cs i = Some c \<longrightarrow> commit_ok c"
    using w by (auto simp: world_ok_def)
  let ?A = "fold (put_stored E (svDb s) (stOps A) (svListeners s) now height) txs A"
  have "\<forall>tx \<in> set txs. tx_fits E (NewTx E now (sort_keys tx) height)" using fit by simp
  from PutTxs_stored [OF assms(1,2) ls A this p] obtain J' where
    J': "J' \<subseteq> J \<union> {height} \<times> UNIV \<times> txHash ` set txs" "stored_in E (ldb_get L (sv_db s1)) ?A (\<lambda>h. []) J'" by blast
  have l1: "svListeners s1 = svListeners s" using PutTxs_same [of E L now txs height s] p by simp
  have "world_ok E L (s1, cs) ?A J'" using J'(2) l1 ls ok puts_stored_whole [OF wh] by (simp add: world_ok_def)
  moreover have "h' = height" if "(h', k, txHash tx) \<in> J'" for h' using that J'(1) new(1) by auto
  ultimately have "queued E L T k (txHash tx) height l (NewTx E now (sort_keys tx) height) (s1, cs) ?A J'"
    using puts_stored_in [OF tx map_of_SomeD [OF l(1)] l(2), of now height A] l(1) l1 new(2)
    unfolding queued_def by (fastforce simp: image_iff)
  then show ?thesis by blast
qed

text \<open>A receipt that is submitted inside the first of two notifications is undone: \<open>notifyTransaction\<close> has told a
  listener that does not wait for confirmations, then \<open>BlockCommitted\<close> puts the item back and tells it again.\<close>

lemma receipt_in_first_notify_undone:
  assumes "leveldb_ok L" and "writes_ok L" and s: "world_ok E L (s, ls) A J"
    and c: "ls i = Some c" "cmItems c = item # items" "cmStage c = Offer p tx"
    and l: "map_of (svListeners s) (qiNotifyId item) = Some l" "lnFlags l AND FlagNotifyConfirmed \<noteq> FlagNotifyConfirmed"
    and w: "svc_run E L M [BlockStep i n1 True, CallReceipt (qiNotifyId item) (qiTxId item), BlockStep i n2 b2, BlockStep i n3 b3]
      (s, ls) = w"
  shows "svLog (fst w) = svLog s @ [Notify (qiNotifyId item) p tx, Notify (qiNotifyId item) p tx]"
    and "\<exists>items'. que_GetAll L (sv_db (fst w)) = Inr items' \<and> item\<lparr>qiLastNotify := n2\<rparr> \<in> set items'"
proof -
  let ?s1 = "sv_log [Notify (qiNotifyId item) p tx] s"
  let ?s2 = "snd (SubmitTransactionReceipt L (qiNotifyId item) (qiTxId item) ?s1)"
  let ?item = "item\<lparr>qiLastNotify := n2\<rparr>"
  let ?s3 = "sv_setdb (snd (que_Put L ?item (sv_db ?s2))) ?s2"
  have "notifyTransaction L True (qiNotifyId item) p tx n s = (Some l, ?s1)" for n
    using l by (simp add: notifyTransaction_def)
  then have w': "fst w = sv_log [Notify (qiNotifyId item) p tx] ?s3"
    using w c by (auto simp: commit_step_def Let_def)
  have log: "svLog (snd (SubmitTransactionReceipt L k t s)) = svLog s" for k t and s :: "('a, 'b) spv"
    by (simp add: SubmitTransactionReceipt_def sv_setdb_def split: prod.split)
  show "svLog (fst w) = svLog s @ [Notify (qiNotifyId item) p tx, Notify (qiNotifyId item) p tx]"
    unfolding w' using log [of "qiNotifyId item" "qiTxId item" ?s1] by (simp add: sv_log_def sv_setdb_def)
  have "state_ok E L ?s1 A J" using s by (simp add: world_ok_def state_ok_def sv_log_def)
  from receipt_moved [OF assms(1,2) this] obtain A2 J2 where "state_ok E L ?s2 A2 J2" by blast
  then have q: "que_ok (ldb_get L (sv_db ?s2)) (stQue A2) J2" by (simp add: state_ok_def stored_in_def)
  obtain db where d: "que_Put L ?item (sv_db ?s2) = (None, db)"
    unfolding que_Put_def Let_def using write_db [OF assms(2)] by blast
  from que_GetAll_ok [OF assms(1) que_Put_ok [OF assms(1) q d]] obtain items' where
    i: "que_GetAll L db = Inr items'" "que_view (qiNotifyId item, qiTxId item) (qiHeight item, Some n2) \<in> set items'" by auto
  have "sv_db (fst w) = db" unfolding w' using d by (simp add: sv_log_def)
  moreover have "?item \<in> set items'" using i(2) by (cases item) simp
  ultimately show "\<exists>items'. que_GetAll L (sv_db (fst w)) = Inr items' \<and> ?item \<in> set items'" using i(1) by simp
qed

subsection \<open>Properties\<close>


text \<open>C24: A receipt ends the notifications: when a listener submits the receipt for a transaction and no loop of
  \<open>BlockCommitted\<close> under way still has the item before it, the listener is not notified of the
  transaction again, whatever calls and loops follow, interleaved as they may be, unless the transaction is put once more. A
  loop that has made the notification of \<open>BlockCommitted\<close> (and is perhaps inside it) has the item behind it; a loop inside the
  earlier notification that \<open>notifyTransaction\<close> makes for a listener that does not wait for confirmations
  has not, and then the receipt is undone, see \<open>receipt_in_first_notify_undone\<close>.
  Writes to the database succeed, and the transactions that are put fit their serialization.\<close>

theorem receipt_ends_notifications:
  assumes "codec_ok E" and "leveldb_ok L" and "db_up L" and "world_ok E L (s, ls) A J"
    and "\<forall>i c. ls i = Some c \<longrightarrow> (k, h) \<notin> holds c"
    and "SubmitTransactionReceipt L k h s = (err, s1)" and "\<forall>c \<in> set cs. call_fits E c \<and> puts_not h c"
  shows "\<exists>es. svLog (fst (svc_run E L M cs (s1, ls))) = svLog s @ es \<and> (\<forall>p tx. Notify k p tx \<in> set es \<longrightarrow> txHash tx \<noteq> h)"
proof -
  let ?A = "A\<lparr>stQue := (stQue A)((k, h) := None)\<rparr>"
  have "state_ok E L s A J" using assms(4) by (simp add: world_ok_state)
  from receipt_moved [OF assms(2) db_up_writes [OF assms(3)] this, of k h ls] obtain J1 where "state_ok E L s1 ?A J1"
    using assms(6) by auto
  with assms(4) have "world_ok E L (s1, ls) ?A J1" by (simp add: world_ok_state)
  moreover from assms(5) have "gone k h (s1, ls) ?A" by (simp add: gone_def)
  moreover have "svLog s1 = svLog s" using assms(6) by (auto simp: SubmitTransactionReceipt_def sv_setdb_def split: prod.splits)
  ultimately show ?thesis using svc_run_gone [OF assms(1-3) _ _ assms(7), of "(s1, ls)" ?A J1 k M] by simp
qed

subsection \<open>Witnesses\<close>

text \<open>A service with a listener for confirmed transactions of the type of \<open>plain_tx\<close>, that has
  the header of the height 3; a block that confirms the transactions of this height.\<close>

definition listener1 :: listener where
  "listener1 = \<lparr>lnAddress = [], lnType = TransferAsset, lnFlags = 3\<rparr>"

definition key1 :: uint256 where
  "key1 = Sum256 codec0 (wListener codec0 None TransferAsset 3)"

definition late_block :: block where
  "late_block = sample_block\<lparr>blkHeader := (blkHeader sample_block)\<lparr>hdrHeight := 9\<rparr>\<rparr>"

definition service1 ::
  "((bytes \<times> bytes) list, (uint256 \<times> header) list) hstore \<Rightarrow> ((bytes \<times> bytes) list, (uint256 \<times> header) list) spv" where
  "service1 st = service0\<lparr>svHeaders := st, svListeners := [(key1, listener1)]\<rparr>"

lemma leveldb0_up: "db_up leveldb0"
  by (simp add: db_up_def writes_ok_def leveldb0_def)

lemma service1_ok: "world_ok codec0 leveldb0 (service1 st, \<lambda>i. None) stored0 {}"
proof -
  have "listeners_ok codec0 (svListeners (service1 st))"
    by (simp add: listeners_ok_def service1_def getListenerKey_def listener1_def key1_def)
  moreover have "whole_txs codec0 (stTxs stored0)" by (simp add: whole_txs_def stored0_def)
  moreover have "sv_db (service1 st) = sv_db service0" by (simp add: service1_def)
  ultimately show ?thesis using stored0 by (simp add: world_ok_def)
qed

lemma service1_put: "\<exists>s1. PutTxs codec0 leveldb0 0 [plain_tx] 3 (service1 st) = (Inr 0, s1)"
  by (simp add: PutTxs_def putTx_def put_side_def plain_tx_def service1_def listener1_def service0_def addrs_GetFilter_def
      ds_Addrs_def ContainAddr_def Let_def dataBatch_Commit_def leveldb0_def type_hit_def txtypes_GetFilter_def
      ds_TxTypes_def TxTypesFilter_IsLoaded_def getListenerKey_def)

lemma plain_call_fits: "call_fits codec0 (CallPutTxs 0 [plain_tx] 3)"
  using plain_tx_fits by (simp add: tx_fits_def NewTx_def)

lemma PutTxs_headers: "svHeaders (snd (PutTxs E L now txs height s)) = svHeaders s"
  by (simp add: PutTxs_def split: prod.split sum.split option.split)

text \<open>The headers change only when one is put, a loop only with its own steps.\<close>

lemma svc_step_headers:
  assumes "\<And>h b. c \<noteq> CallPutHeader h b"
  shows "svHeaders (fst (svc_step E L M c w)) = svHeaders (fst w)"
proof -
  obtain s cs where w: "w = (s, cs)" by (cases w)
  have e: "svHeaders s' = svHeaders s" if "effect E L now current c0 s s'" for now current c0 s'
    using that by (auto simp: effect_def sv_setdb_def)
  show ?thesis
  proof (cases c)
    case (BlockStep i now current)
    show ?thesis
    proof (cases "cs i")
      case (Some c0)
      obtain c1 s1 where "commit_step E L now current c0 s = (c1, s1)" by fastforce
      with e [OF commit_step_effect [OF this]] Some show ?thesis by (simp add: w BlockStep)
    qed (simp add: w BlockStep)
  qed (use assms in \<open>auto simp: w PutTxs_headers DelTxs_def PutForkTxs_def SubmitTransactionReceipt_def sv_setdb_def
    RegisterTransactionListener_def Let_def case_prod_unfold split: prod.split option.split sum.split\<close>)
qed

lemma svc_run_headers:
  "(\<And>h b. CallPutHeader h b \<notin> set cs) \<Longrightarrow> svHeaders (fst (svc_run E L M cs w)) = svHeaders (fst w)"
proof (induction cs arbitrary: w)
  case (Cons c cs)
  have "c \<noteq> CallPutHeader h b" for h b using Cons.prems [of h b] by auto
  from svc_step_headers [OF this, of E L M w] Cons show ?case by simp
qed simp

lemma svc_run_other:
  "(\<And>blk. BlockBegin i blk \<notin> set cs) \<Longrightarrow> (\<And>now b. BlockStep i now b \<notin> set cs) \<Longrightarrow> snd (svc_run E L M cs w) i = snd w i"
proof (induction cs arbitrary: w)
  case (Cons c cs)
  have "snd (svc_step E L M c w) i = snd w i"
    using Cons.prems by (cases w; cases c) (auto simp: Let_def split: option.split prod.split)
  with Cons show ?case by simp
qed simp


theorem receipt_ends_notifications_witness:
  "\<exists>st s1 s2 es. PutTxs codec0 leveldb0 0 [plain_tx] 3 (service1 st) = (Inr 0, s1) \<and>
     SubmitTransactionReceipt leveldb0 key1 3 s1 = (None, s2) \<and>
     svLog (fst (svc_run codec0 leveldb0 omap0 [BlockBegin 0 late_block, BlockStep 0 100 True] (s2, \<lambda>i. None))) = svLog s1 @ es \<and>
     (\<forall>p tx. Notify key1 p tx \<in> set es \<longrightarrow> txHash tx \<noteq> 3)"
proof -
  let ?st = "store0 :: ((bytes \<times> bytes) list, (uint256 \<times> header) list) hstore"
  obtain s1 where p: "PutTxs codec0 leveldb0 0 [plain_tx] 3 (service1 ?st) = (Inr 0, s1)" using service1_put by blast
  have c: "concerns codec0 (svDb (service1 ?st)) (stOps stored0) plain_tx" using plain_tx_concerns by (simp add: service1_def)
  have l: "map_of (svListeners (service1 ?st)) key1 = Some listener1" by (simp add: service1_def)
  have wants: "wants codec0 T plain_tx listener1" for T by (simp add: wants_def listener1_def plain_tx_def)
  have h: "txHash plain_tx = 3" by (simp add: plain_tx_def)
  obtain A J where "queued codec0 leveldb0 {} key1 (txHash plain_tx) 3 listener1 (NewTx codec0 0 (sort_keys plain_tx) 3)
      (s1, \<lambda>i. None) A J"
    using PutTxs_queues [OF codec0_ok leveldb0_ok service1_ok plain_call_fits p _ _ c l wants, of "{}"] by auto
  then obtain t where w: "world_ok codec0 leveldb0 (s1, \<lambda>i. None) A J" "stQue A (key1, 3) = Some (3, t)"
    by (auto simp: queued_def h)
  then obtain v where "ldb_get leveldb0 (sv_db s1) (toKey BKTQue (que_value key1 3)) = Inr v"
    using que_map.map_look [of "ldb_get leveldb0 (sv_db s1)" "stQue A" "(key1, 3)"] by (auto simp: world_ok_def stored_in_def que_ok_def)
  then obtain s2 where r: "SubmitTransactionReceipt leveldb0 key1 3 s1 = (None, s2)"
    by (simp add: SubmitTransactionReceipt_def que_Del_def Let_def leveldb0_def)
  have "\<forall>c \<in> set [BlockBegin 0 late_block, BlockStep 0 100 True]. call_fits codec0 c \<and> puts_not 3 c" by simp
  from receipt_ends_notifications [OF codec0_ok leveldb0_ok leveldb0_up w(1) _ r this] p r show ?thesis by fastforce
qed

end
