(* ===== verification/Peer.thy ===== *)
theory Peer
  imports MerkleBuild
begin

text \<open>
  A peer of the light client (\<open>peer/peer.go\<close>): the routing of received messages, the download
  of a Merkle block followed by its transactions (\<open>blockHandler\<close>), stall detection
  (\<open>stallHandler\<close>) and the filter of repeated getblocks requests. The embedded
  \<open>*peer.Peer\<close> of Elastos.ELA is a value of type \<open>'p\<close> whose methods are the fields of
  \<open>peer_if\<close>; the calls of its \<open>QueueMessage\<close> are collected in the log \<open>spOut\<close>. Each
  handler is a step on its state, so an interleaving of the goroutines is a sequence of steps.
\<close>

subsection \<open>Messages\<close>

datatype inv_type = InvTx | InvBlock | InvFilteredBlock | InvOther u32

record inv_vect =
  ivType :: inv_type
  ivHash :: uint256

text \<open>The messages of package \<open>msg\<close> the client uses. A \<open>MTx None\<close> holds something other than
  a transaction of the main chain.\<close>

datatype message =
    MVersion
  | MInv "inv_vect list"
  | MMerkleBlock merkle_block
  | MTx "txn option"
  | MNotFound "inv_vect list"
  | MReject bool uint256
  | MGetBlocks "uint256 list" uint256
  | MGetData "inv_vect list"
  | MFilterLoad u8 bytes
  | MOther

text \<open>The methods of the embedded peer.\<close>

record 'p peer_if =
  pConnected :: "'p \<Rightarrow> bool"
  pDisconnect :: "'p \<Rightarrow> 'p"
  pHeight :: "'p \<Rightarrow> u32"
  pUpdateHeight :: "u32 \<Rightarrow> 'p \<Rightarrow> 'p"
  pServices :: "'p \<Rightarrow> u64"
  pID :: "'p \<Rightarrow> u64"

record 'p speer =
  spPeer :: 'p
  spPrevBegin :: "uint256 option"
  spPrevStop :: "uint256 option"
  spStallCleared :: nat
  spOut :: "message list"

definition NewPeer :: "'p \<Rightarrow> 'p speer" where
  "NewPeer orgPeer = \<lparr>spPeer = orgPeer, spPrevBegin = None, spPrevStop = None, spStallCleared = 0, spOut = []\<rparr>"

definition QueueMessage :: "message \<Rightarrow> 'p speer \<Rightarrow> 'p speer" where
  "QueueMessage m p = p\<lparr>spOut := spOut p @ [m]\<rparr>"

definition Disconnect :: "'p peer_if \<Rightarrow> 'p speer \<Rightarrow> 'p speer" where
  "Disconnect P p = p\<lparr>spPeer := pDisconnect P (spPeer p)\<rparr>"

text \<open>\<open>StallClear\<close> sends a \<open>stallClearMsg\<close> to the stall handler.\<close>

definition StallClear :: "'p speer \<Rightarrow> 'p speer" where
  "StallClear p = p\<lparr>spStallCleared := spStallCleared p + 1\<rparr>"

definition PushGetBlocksMsg :: "uint256 list \<Rightarrow> uint256 \<Rightarrow> 'p speer \<Rightarrow> 'p speer" where
  "PushGetBlocksMsg locator stopHash p =
     (let beginHash = (case locator of [] \<Rightarrow> None | h # _ \<Rightarrow> Some h);
          isDuplicate = (spPrevStop p \<noteq> None \<and> spPrevBegin p \<noteq> None \<and> beginHash \<noteq> None \<and>
            spPrevStop p = Some stopHash \<and> spPrevBegin p = beginHash)
      in if isDuplicate then p
         else (QueueMessage (MGetBlocks locator stopHash) p)\<lparr>spPrevBegin := beginHash, spPrevStop := Some stopHash\<rparr>)"

subsection \<open>Routing\<close>

datatype dispatch =
    OnVersion
  | OnInv "inv_vect list"
  | OnNotFound "inv_vect list"
  | OnReject bool uint256
  | ToBlockQueue message

definition handleMessage :: "'p peer_if \<Rightarrow> message \<Rightarrow> 'p speer \<Rightarrow> dispatch option" where
  "handleMessage P message p =
     (if \<not> pConnected P (spPeer p) then None
      else case message of
        MVersion \<Rightarrow> Some OnVersion
      | MInv ivs \<Rightarrow> Some (OnInv ivs)
      | MMerkleBlock m \<Rightarrow> Some (ToBlockQueue message)
      | MTx t \<Rightarrow> Some (ToBlockQueue message)
      | MNotFound ivs \<Rightarrow> Some (OnNotFound ivs)
      | MReject tx h \<Rightarrow> Some (OnReject tx h)
      | _ \<Rightarrow> None)"

subsection \<open>The download of a block\<close>

text \<open>The local variables of \<open>blockHandler\<close>; nil maps and slices are empty.\<close>

record download =
  dlHeader :: "header option"
  dlPending :: "uint256 set"
  dlTxs :: "txn list"

datatype callback = OnBlock block | OnTx txn

definition no_download :: download where
  "no_download = \<lparr>dlHeader = None, dlPending = {}, dlTxs = []\<rparr>"

text \<open>\<open>notifyBlock\<close>, called with a header that is not nil.\<close>

definition notifyBlock :: "'p peer_if \<Rightarrow> header \<Rightarrow> 'p speer \<Rightarrow> download \<Rightarrow> download \<times> callback list" where
  "notifyBlock P hdr p d =
     (if \<not> pConnected P (spPeer p) then (d, [])
      else (no_download, [OnBlock \<lparr>blkHeader = hdr, blkTransactions = dlTxs d\<rparr>]))"

definition proof_header :: "merkle_block \<Rightarrow> header" where
  "proof_header m =
     \<lparr>hdrBH = mbHeader m, hdrHeight = 0, hdrNumTxs = mbTransactions m, hdrHashes = mbHashes m,
      hdrFlags = mbFlags m, hdrTotalWork = 0\<rparr>"

text \<open>One message taken from the block queue; no result when the check of the Merkle block does
  not end.\<close>

definition block_message ::
  "'p peer_if \<Rightarrow> codec \<Rightarrow> message \<Rightarrow> 'p speer \<Rightarrow> download \<Rightarrow> ('p speer \<times> download \<times> callback list) option" where
  "block_message P E message p d =
     (case message of
        MMerkleBlock m \<Rightarrow>
          if dlHeader d \<noteq> None then Some (Disconnect P p, d, [])
          else (case CheckMerkleBlock E m of
              None \<Rightarrow> None
            | Some (Inl e) \<Rightarrow> Some (Disconnect P p, d, [])
            | Some (Inr txIds) \<Rightarrow>
                let d = d\<lparr>dlHeader := Some (proof_header m)\<rparr>
                in if length txIds = 0 then (let (d, ev) = notifyBlock P (proof_header m) p d in Some (p, d, ev))
                   else Some (p, d\<lparr>dlPending := set txIds, dlTxs := []\<rparr>, []))
      | MTx (Some tx) \<Rightarrow>
          (case dlHeader d of
             None \<Rightarrow> Some (p, d, [OnTx tx])
           | Some hdr \<Rightarrow>
               let txId = txHash tx
               in if txId \<notin> dlPending d then Some (Disconnect P p, d, [])
                  else let d = d\<lparr>dlTxs := dlTxs d @ [tx], dlPending := dlPending d - {txId}\<rparr>
                       in if dlPending d = {} then (let (d, ev) = notifyBlock P hdr p d in Some (p, d, ev))
                          else Some (p, d, []))
      | _ \<Rightarrow> Some (p, d, []))"

subsection \<open>Stall detection\<close>

text \<open>The keys of the map of expected responses are strings in the code: the command "inv" or a
  hash in hexadecimal. Times are in nanoseconds.\<close>

datatype response = InvResponse | HashResponse uint256

record stall =
  slPending :: "response set"
  slLastActive :: int

datatype control = Message message | StallClearMsg

definition stallResponseTimeout :: int where
  "stallResponseTimeout = 15 * 10 ^ 9"

definition stall_control :: "int \<Rightarrow> control \<Rightarrow> stall \<Rightarrow> goerror + stall" where
  "stall_control now c s =
     (let s = s\<lparr>slLastActive := now\<rparr>; pending = slPending s in
      case c of
        Message (MGetBlocks l stop) \<Rightarrow> Inr (s\<lparr>slPending := insert InvResponse pending\<rparr>)
      | Message (MInv ivs) \<Rightarrow> Inr (s\<lparr>slPending := pending - {InvResponse}\<rparr>)
      | Message (MGetData ivs) \<Rightarrow> Inr (s\<lparr>slPending := pending \<union> HashResponse ` ivHash ` set ivs\<rparr>)
      | Message (MMerkleBlock m) \<Rightarrow> Inr (s\<lparr>slPending := pending - {HashResponse (bhHash (mbHeader m))}\<rparr>)
      | Message (MTx None) \<Rightarrow> Inl (Panic ''interface conversion'')
      | Message (MTx (Some tx)) \<Rightarrow> Inr (s\<lparr>slPending := pending - {HashResponse (txHash tx)}\<rparr>)
      | Message (MNotFound ivs) \<Rightarrow> Inr (s\<lparr>slPending := pending - HashResponse ` ivHash ` set ivs\<rparr>)
      | StallClearMsg \<Rightarrow> Inr (s\<lparr>slPending := {}\<rparr>)
      | _ \<Rightarrow> Inr s)"

text \<open>At a tick of the ticker: whether the peer is disconnected.\<close>

definition stall_tick :: "int \<Rightarrow> stall \<Rightarrow> bool" where
  "stall_tick now s =
     (if slPending s = {} then False
      else if now < slLastActive s + stallResponseTimeout then False
      else True)"

subsection \<open>Complete blocks\<close>

text \<open>A block is complete when its Merkle block checks and its transactions are the proved ones,
  each once.\<close>

definition block_proof :: "header \<Rightarrow> merkle_block" where
  "block_proof h = \<lparr>mbHeader = hdrBH h, mbTransactions = hdrNumTxs h, mbHashes = hdrHashes h, mbFlags = hdrFlags h\<rparr>"

lemma block_proof_header [simp]: "block_proof (proof_header m) = m"
  by (simp add: block_proof_def proof_header_def)

definition complete_block :: "codec \<Rightarrow> block \<Rightarrow> bool" where
  "complete_block E b \<longleftrightarrow> (\<exists>ids. CheckMerkleBlock E (block_proof (blkHeader b)) = Some (Inr ids) \<and>
     distinct (map txHash (blkTransactions b)) \<and> set (map txHash (blkTransactions b)) = set ids)"

definition download_ok :: "codec \<Rightarrow> download \<Rightarrow> bool" where
  "download_ok E d \<longleftrightarrow>
     (case dlHeader d of
        None \<Rightarrow> dlPending d = {} \<and> dlTxs d = []
      | Some h \<Rightarrow> \<exists>ids. CheckMerkleBlock E (block_proof h) = Some (Inr ids) \<and> distinct (map txHash (dlTxs d)) \<and>
          set (map txHash (dlTxs d)) \<inter> dlPending d = {} \<and> set (map txHash (dlTxs d)) \<union> dlPending d = set ids)"

lemma no_download_ok [simp]: "download_ok E no_download"
  by (simp add: download_ok_def no_download_def)

lemma notifyBlock_cases:
  "notifyBlock P h p d = (d', ev) \<Longrightarrow>
   d' = d \<and> ev = [] \<or> d' = no_download \<and> ev = [OnBlock \<lparr>blkHeader = h, blkTransactions = dlTxs d\<rparr>]"
  by (auto simp: notifyBlock_def split: if_splits)

lemma notifyBlock_ok:
  assumes "notifyBlock P h p d = (d', ev)" and "download_ok E d" and "dlHeader d = Some h" and "dlPending d = {}"
  shows "download_ok E d' \<and> (\<forall>b. OnBlock b \<in> set ev \<longrightarrow> complete_block E b)"
  using notifyBlock_cases [OF assms(1)] assms(2-4) by (auto simp: download_ok_def [of E d] complete_block_def)

lemma block_message_ok:
  assumes "block_message P E m p d = Some (p', d', ev)" and "download_ok E d"
  shows "download_ok E d' \<and> (\<forall>b. OnBlock b \<in> set ev \<longrightarrow> complete_block E b)"
proof (cases m)
  case (MMerkleBlock mb)
  show ?thesis
  proof (cases "dlHeader d")
    case None
    with assms(2) have e: "dlPending d = {}" "dlTxs d = []" by (simp_all add: download_ok_def)
    have ok: "download_ok E (d\<lparr>dlHeader := Some (proof_header mb), dlPending := set ids, dlTxs := []\<rparr>)"
      if "CheckMerkleBlock E mb = Some (Inr ids)" for ids
      using that by (simp add: download_ok_def)
    have ok0: "download_ok E (d\<lparr>dlHeader := Some (proof_header mb)\<rparr>)" if "CheckMerkleBlock E mb = Some (Inr [])"
      using that e by (simp add: download_ok_def)
    show ?thesis using assms MMerkleBlock None ok
      by (auto simp: block_message_def Let_def e dest!: notifyBlock_ok [OF _ ok0]
          split: option.splits sum.splits if_splits prod.splits)
  next
    case (Some h)
    with assms MMerkleBlock show ?thesis by (auto simp: block_message_def)
  qed
next
  case (MTx t)
  show ?thesis
  proof (cases "t = None \<or> dlHeader d = None")
    case True
    with assms MTx show ?thesis by (auto simp: block_message_def split: option.splits)
  next
    case False
    then obtain tx h where t: "t = Some tx" "dlHeader d = Some h" by auto
    let ?d = "d\<lparr>dlTxs := dlTxs d @ [tx], dlPending := dlPending d - {txHash tx}\<rparr>"
    have ok: "download_ok E ?d" if "txHash tx \<in> dlPending d"
    proof -
      from assms(2) t obtain ids where i: "CheckMerkleBlock E (block_proof h) = Some (Inr ids)"
        "distinct (map txHash (dlTxs d))" "txHash ` set (dlTxs d) \<inter> dlPending d = {}"
        "txHash ` set (dlTxs d) \<union> dlPending d = set ids"
        by (auto simp: download_ok_def)
      have "txHash tx \<notin> txHash ` set (dlTxs d)" using i(3) that by blast
      moreover have "insert (txHash tx) (txHash ` set (dlTxs d)) \<inter> (dlPending d - {txHash tx}) = {}"
        and "insert (txHash tx) (txHash ` set (dlTxs d)) \<union> (dlPending d - {txHash tx}) = set ids"
        using i(3,4) that by blast+
      ultimately show ?thesis using i(1,2) t(2) by (simp add: download_ok_def)
    qed
    show ?thesis using assms MTx t ok
      by (auto simp: block_message_def Let_def dest!: notifyBlock_ok [OF _ ok] split: if_splits prod.splits)
  qed
qed (use assms in \<open>auto simp: block_message_def\<close>)

subsection \<open>Runs of the block handler\<close>

text \<open>What the handler may have called back after any messages, while the other goroutines of
  the peer (and the network) change its state.\<close>

inductive block_run :: "'p peer_if \<Rightarrow> codec \<Rightarrow> 'p speer \<Rightarrow> download \<Rightarrow> callback list \<Rightarrow> bool" for P E where
  start: "block_run P E p no_download []"
| received: "block_run P E p d cbs \<Longrightarrow> block_message P E m p d = Some (p', d', ev) \<Longrightarrow> block_run P E p' d' (cbs @ ev)"
| others: "block_run P E p d cbs \<Longrightarrow> block_run P E p' d cbs"

lemma block_run_ok:
  "block_run P E p d cbs \<Longrightarrow> download_ok E d \<and> (\<forall>b. OnBlock b \<in> set cbs \<longrightarrow> complete_block E b)"
proof (induction rule: block_run.induct)
  case (received p d cbs m p' d' ev)
  with block_message_ok [OF received(2)] show ?case by auto
qed auto

lemma complete_block_path:
  assumes "complete_block E b" and "tx \<in> set (blkTransactions b)"
  shows "\<exists>D p. is_depth (unat (hdrNumTxs (blkHeader b))) D \<and> length p = D \<and>
    fold_path E (txHash tx) p = bhMerkleRoot (hdrBH (blkHeader b))"
proof -
  from assms obtain ids where "CheckMerkleBlock E (block_proof (blkHeader b)) = Some (Inr ids)" "txHash tx \<in> set ids"
    by (auto simp: complete_block_def)
  from CheckMerkleBlock_path [OF this] show ?thesis by (simp add: block_proof_def)
qed

text \<open>A list of messages in a row.\<close>

fun block_messages ::
  "'p peer_if \<Rightarrow> codec \<Rightarrow> message list \<Rightarrow> 'p speer \<Rightarrow> download \<Rightarrow> ('p speer \<times> download \<times> callback list) option" where
  "block_messages P E [] p d = Some (p, d, [])"
| "block_messages P E (m # ms) p d =
     (case block_message P E m p d of
        None \<Rightarrow> None
      | Some (p, d, ev) \<Rightarrow> map_option (\<lambda>(p, d, evs). (p, d, ev @ evs)) (block_messages P E ms p d))"

lemma block_messages_run:
  "block_run P E p d cbs \<Longrightarrow> block_messages P E ms p d = Some (p', d', ev) \<Longrightarrow> block_run P E p' d' (cbs @ ev)"
proof (induction ms arbitrary: p d cbs ev)
  case (Cons m ms)
  then obtain p1 d1 e1 e2 where m: "block_message P E m p d = Some (p1, d1, e1)"
    "block_messages P E ms p1 d1 = Some (p', d', e2)" "ev = e1 @ e2"
    by (auto split: option.splits)
  from Cons.IH [OF block_run.received [OF Cons.prems(1) m(1)] m(2)] m(3) show ?case by simp
qed simp

lemma transactions_complete:
  assumes "pConnected P (spPeer p)" and "dlHeader d = Some h"
  shows "txs \<noteq> [] \<Longrightarrow> distinct (map txHash txs) \<Longrightarrow> dlPending d = txHash ` set txs \<Longrightarrow>
    block_messages P E (map (\<lambda>t. MTx (Some t)) txs) p d =
      Some (p, no_download, [OnBlock \<lparr>blkHeader = h, blkTransactions = dlTxs d @ txs\<rparr>])"
  using assms(2)
proof (induction txs arbitrary: d)
  case (Cons t ts)
  let ?d = "d\<lparr>dlTxs := dlTxs d @ [t], dlPending := dlPending d - {txHash t}\<rparr>"
  have pend: "dlPending ?d = txHash ` set ts" using Cons.prems(2,3) by auto
  show ?case
  proof (cases "ts = []")
    case True
    with Cons.prems assms(1) show ?thesis by (simp add: block_message_def Let_def notifyBlock_def)
  next
    case False
    with pend have "block_message P E (MTx (Some t)) p d = Some (p, ?d, [])"
      using Cons.prems(3,4) by (simp add: block_message_def Let_def)
    with Cons.IH [OF False _ pend] Cons.prems(2,4) show ?thesis by simp
  qed
qed simp

lemma download_completes:
  assumes "pConnected P (spPeer p)" and "CheckMerkleBlock E m = Some (Inr ids)"
    and "distinct (map txHash txs)" and "set (map txHash txs) = set ids"
  shows "block_messages P E (MMerkleBlock m # map (\<lambda>t. MTx (Some t)) txs) p no_download =
    Some (p, no_download, [OnBlock \<lparr>blkHeader = proof_header m, blkTransactions = txs\<rparr>])"
proof (cases "txs = []")
  case True
  with assms show ?thesis by (simp add: block_message_def Let_def notifyBlock_def no_download_def)
next
  case False
  let ?d = "no_download\<lparr>dlHeader := Some (proof_header m), dlPending := set ids, dlTxs := []\<rparr>"
  from False assms(2,4) have "block_message P E (MMerkleBlock m) p no_download = Some (p, ?d, [])"
    by (auto simp: block_message_def Let_def no_download_def)
  with transactions_complete [of P p ?d "proof_header m" txs E] False assms show ?thesis by auto
qed

subsection \<open>Runs of the stall handler\<close>

fun stall_controls :: "(int \<times> control) list \<Rightarrow> stall \<Rightarrow> goerror + stall" where
  "stall_controls [] s = Inr s"
| "stall_controls ((now, c) # cs) s =
     (case stall_control now c s of Inl e \<Rightarrow> Inl e | Inr s \<Rightarrow> stall_controls cs s)"

text \<open>The responses a message asks for, and those it answers.\<close>

fun asks :: "control \<Rightarrow> response set" where
  "asks (Message (MGetBlocks l stop)) = {InvResponse}"
| "asks (Message (MGetData ivs)) = HashResponse ` ivHash ` set ivs"
| "asks _ = {}"

fun answers :: "control \<Rightarrow> response set" where
  "answers (Message (MInv ivs)) = {InvResponse}"
| "answers (Message (MMerkleBlock m)) = {HashResponse (bhHash (mbHeader m))}"
| "answers (Message (MTx (Some tx))) = {HashResponse (txHash tx)}"
| "answers (Message (MNotFound ivs)) = HashResponse ` ivHash ` set ivs"
| "answers StallClearMsg = UNIV"
| "answers _ = {}"

lemma stall_control_effect:
  "stall_control now c s = Inr s' \<Longrightarrow>
   slPending s' = slPending s - answers c \<union> asks c \<and> slLastActive s' = now"
  by (cases c rule: answers.cases) (auto simp: stall_control_def Let_def split: message.splits option.splits)

fun unanswered :: "response \<Rightarrow> (int \<times> control) list \<Rightarrow> bool" where
  "unanswered r [] = False"
| "unanswered r ((t, c) # cs) = (r \<in> asks c \<and> (\<forall>c' \<in> snd ` set cs. r \<notin> answers c') \<or> unanswered r cs)"

lemma stall_controls_pending:
  "stall_controls cs s = Inr s' \<Longrightarrow>
   r \<in> slPending s' \<longleftrightarrow> r \<in> slPending s \<and> (\<forall>c \<in> snd ` set cs. r \<notin> answers c) \<or> unanswered r cs"
proof (induction cs arbitrary: s)
  case (Cons tc cs)
  obtain t c where tc: "tc = (t, c)" by (cases tc)
  with Cons.prems obtain s1 where s1: "stall_control t c s = Inr s1" "stall_controls cs s1 = Inr s'"
    by (auto split: sum.splits)
  show ?case unfolding Cons.IH [OF s1(2)] tc using stall_control_effect [OF s1(1)] by auto
qed auto

lemma stall_controls_active:
  "stall_controls cs s = Inr s' \<Longrightarrow> slLastActive s' = (if cs = [] then slLastActive s else fst (last cs))"
proof (induction cs arbitrary: s)
  case (Cons tc cs)
  obtain t c where tc: "tc = (t, c)" by (cases tc)
  with Cons.prems obtain s1 where s1: "stall_control t c s = Inr s1" "stall_controls cs s1 = Inr s'"
    by (auto split: sum.splits)
  show ?case unfolding Cons.IH [OF s1(2)] using stall_control_effect [OF s1(1)] tc by simp
qed simp

subsection \<open>Correctness\<close>

text \<open>C25: Whatever a peer sends and however the goroutines interleave, a block its handler hands
  on is complete: its transactions are those its Merkle block proves, none missing, none twice,
  none added, and each has a Merkle path to the root in the block's header.\<close>

theorem downloaded_blocks_complete:
  assumes "block_run P E p d cbs" and "OnBlock b \<in> set cbs"
  shows "complete_block E b \<and>
    (\<forall>tx \<in> set (blkTransactions b). \<exists>D q. is_depth (unat (hdrNumTxs (blkHeader b))) D \<and> length q = D \<and>
      fold_path E (txHash tx) q = bhMerkleRoot (hdrBH (blkHeader b)))"
  using block_run_ok [OF assms(1)] assms(2) complete_block_path by blast

text \<open>C26: A block served by a full node arrives: when the node sends the Merkle block it builds
  for the client's filter and then the matched transactions in any order, a connected peer
  hands on exactly one block, with these transactions, and is ready for the next one.\<close>

theorem served_block_arrives:
  assumes "blkTransactions blk \<noteq> []" and "length (blkTransactions blk) \<le> 2 ^ 31"
    and "is_depth (length (blkTransactions blk)) D"
    and "bhMerkleRoot (hdrBH (blkHeader blk)) = node_hash E (map txHash (blkTransactions blk)) D 0"
    and "no_twins E (map txHash (blkTransactions blk))" and "bfilter_inv f"
    and "pConnected P (spPeer p)"
  shows "\<exists>mb idxs f'. NewMerkleBlock E blk f = Some (Inr ((mb, idxs), f')) \<and>
    (\<forall>txs. distinct (map txHash txs) \<and>
        set (map txHash txs) = set (map (\<lambda>i. txHash (blkTransactions blk ! unat i)) idxs) \<longrightarrow>
      block_messages P E (MMerkleBlock mb # map (\<lambda>t. MTx (Some t)) txs) p no_download =
        Some (p, no_download, [OnBlock \<lparr>blkHeader = proof_header mb, blkTransactions = txs\<rparr>]))"
proof -
  from NewMerkleBlock_total [OF assms(6,1,2)] obtain mb idxs f' where
    m: "NewMerkleBlock E blk f = Some (Inr ((mb, idxs), f'))" by blast
  note c = NewMerkleBlock_check [OF assms(1-5) m]
  show ?thesis using m download_completes [OF assms(7) c] by blast
qed

text \<open>At a tick of its timer the stall handler disconnects the peer exactly when some request
  has had no answer since and 15 seconds have passed since the last message in either
  direction.\<close>

theorem stalled_peer_disconnected:
  assumes "stall_controls cs \<lparr>slPending = {}, slLastActive = 0\<rparr> = Inr s" and "cs \<noteq> []"
  shows "stall_tick now s \<longleftrightarrow> (\<exists>r. unanswered r cs) \<and> fst (last cs) + 15 * 10 ^ 9 \<le> now"
proof -
  have "slPending s \<noteq> {} \<longleftrightarrow> (\<exists>r. unanswered r cs)"
    using stall_controls_pending [OF assms(1)] by auto
  then show ?thesis
    using stall_controls_active [OF assms(1)] assms(2) by (auto simp: stall_tick_def stallResponseTimeout_def)
qed

subsection \<open>Witnesses\<close>

definition peer0 :: "(bool \<times> u32 \<times> u64) peer_if" where
  "peer0 = \<lparr>pConnected = fst, pDisconnect = (\<lambda>(c, r). (False, r)), pHeight = fst \<circ> snd,
     pUpdateHeight = (\<lambda>h (c, _, s). (c, h, s)), pServices = snd \<circ> snd, pID = snd \<circ> snd\<rparr>"

abbreviation conn0 :: "(bool \<times> u32 \<times> u64) speer" where
  "conn0 \<equiv> NewPeer (True, 0, 0)"

lemma conn0_connected: "pConnected peer0 (spPeer conn0)"
  by (simp add: peer0_def NewPeer_def)

definition one_tx_block :: merkle_block where
  "one_tx_block = \<lparr>mbHeader = \<lparr>bhPrevious = 1, bhBits = 0x03000001, bhMerkleRoot = 5, bhHash = 2, bhPowHash = 0\<rparr>, mbTransactions = 1, mbHashes = [5], mbFlags = [1]\<rparr>"

definition one_tx :: txn where
  "one_tx = sample_pay\<lparr>txHash := 5\<rparr>"

lemma one_tx_check: "CheckMerkleBlock codec0 one_tx_block = Some (Inr [5])"
proof -
  have "is_depth (unat (mbTransactions one_tx_block)) 0" by (simp add: is_depth_def one_tx_block_def)
  from CheckMerkleBlock_block [OF this, of codec0] show ?thesis
    by (simp add: flag_bits_def upt_rec parse_block_def one_tx_block_def)
qed

lemma one_tx_arrives:
  "block_messages peer0 codec0 [MMerkleBlock one_tx_block, MTx (Some one_tx)] conn0 no_download =
    Some (conn0, no_download, [OnBlock \<lparr>blkHeader = proof_header one_tx_block, blkTransactions = [one_tx]\<rparr>])"
  using download_completes [OF conn0_connected one_tx_check, of "[one_tx]"] by (simp add: one_tx_def)

theorem downloaded_blocks_complete_witness:
  "\<exists>p d cbs b. block_run peer0 codec0 p d cbs \<and> OnBlock b \<in> set cbs \<and> complete_block codec0 b \<and>
    blkTransactions b = [one_tx]"
proof -
  let ?b = "\<lparr>blkHeader = proof_header one_tx_block, blkTransactions = [one_tx]\<rparr>"
  have r: "block_run peer0 codec0 conn0 no_download ([] @ [OnBlock ?b])"
    by (rule block_messages_run [OF block_run.start one_tx_arrives])
  from downloaded_blocks_complete [OF r, of ?b] have "complete_block codec0 ?b" by simp
  with r show ?thesis by (intro exI [of _ conn0] exI [of _ no_download] exI [of _ "[OnBlock ?b]"] exI [of _ ?b]) simp
qed

theorem served_block_arrives_witness:
  "\<exists>mb idxs f'. NewMerkleBlock codec0 sample_block sample_filter = Some (Inr ((mb, idxs), f')) \<and>
    (\<forall>txs. distinct (map txHash txs) \<and>
        set (map txHash txs) = set (map (\<lambda>i. txHash (blkTransactions sample_block ! unat i)) idxs) \<longrightarrow>
      block_messages peer0 codec0 (MMerkleBlock mb # map (\<lambda>t. MTx (Some t)) txs) conn0 no_download =
        Some (conn0, no_download, [OnBlock \<lparr>blkHeader = proof_header mb, blkTransactions = txs\<rparr>]))"
  by (rule served_block_arrives [OF sample_block_ok conn0_connected])

theorem stalled_peer_disconnected_witness:
  "\<exists>s. stall_controls [(3, Message (MGetBlocks [1] 0))] \<lparr>slPending = {}, slLastActive = 0\<rparr> = Inr s \<and>
    stall_tick (3 + 15 * 10 ^ 9) s \<and> \<not> stall_tick (2 + 15 * 10 ^ 9) s"
proof -
  let ?s = "\<lparr>slPending = {InvResponse}, slLastActive = 3\<rparr>"
  have r: "stall_controls [(3, Message (MGetBlocks [1] 0))] \<lparr>slPending = {}, slLastActive = 0\<rparr> = Inr ?s"
    by (simp add: stall_control_def Let_def)
  have "stall_tick now ?s \<longleftrightarrow> 3 + 15 * 10 ^ 9 \<le> now" for now
    using stalled_peer_disconnected [OF r] by auto
  with r show ?thesis by (intro exI [of _ ?s]) simp
qed

end
