(* ===== verification/SyncManager.thy ===== *)
theory SyncManager
  imports Peer BlockChain
begin

text \<open>
  The sync manager (\<open>sync/manager.go\<close>) with the false positive rate of a peer
  (\<open>fprate/fprate.go\<close>): which peer to download the chain from, which blocks and transactions
  to request, what becomes of the blocks received. Its handlers run one after another in one
  goroutine. Peers are pointers, modelled as numbers; \<open>smPeers\<close> is the heap they point to.
  Where the code iterates over a map, the order is an argument (\<open>choice\<close>): \<open>chOrder\<close> is the
  order in which the peers are visited, \<open>chPick\<close> the hash that \<open>limitMap\<close> evicts. The
  configuration and \<open>MaxInvPerMsg\<close> of package \<open>msg\<close> are the fields of \<open>sm_config\<close>. Floating
  point numbers are elements of an ordered field.
\<close>

subsection \<open>False positive rate\<close>

record 'r fp_rate =
  fpAverage :: 'r
  fpRate :: 'r

definition DefaultFalsePositiveRate :: "'r::linordered_field" where
  "DefaultFalsePositiveRate = 5 / 10000"

definition ReducedFalsePositiveRate :: "'r::linordered_field" where
  "ReducedFalsePositiveRate = 5 / 100000"

definition NewFpRate :: "'r::linordered_field fp_rate" where
  "NewFpRate = \<lparr>fpAverage = 1400, fpRate = ReducedFalsePositiveRate\<rparr>"

definition fp_Update :: "u32 \<Rightarrow> u32 \<Rightarrow> 'r::linordered_field fp_rate \<Rightarrow> 'r fp_rate" where
  "fp_Update numTxs fps r =
     (let n = of_nat (unat numTxs);
          avg = fpAverage r * (999 / 1000) + n * (1 / 1000)
      in \<lparr>fpAverage = avg, fpRate = fpRate r * (1 - 1 / 100 * n / avg) + 1 / 100 * of_nat (unat fps) / avg\<rparr>)"

definition fp_Reset :: "'r::linordered_field fp_rate \<Rightarrow> 'r fp_rate" where
  "fp_Reset r = r\<lparr>fpRate := ReducedFalsePositiveRate\<rparr>"

subsection \<open>State\<close>

record 'r peer_sync_state =
  ssCandidate :: bool
  ssQueue :: "inv_vect list"
  ssTxns :: "uint256 set"
  ssBlocks :: "uint256 set"
  ssReceived :: u32
  ssBad :: u32
  ssFp :: "'r fp_rate"

datatype sm_msg =
    NewPeerMsg nat
  | DonePeerMsg nat
  | TxMsg txn nat
  | BlockMsg block nat
  | InvMsg "inv_vect list" nat
  | GetSyncPeerMsg nat
  | IsCurrentMsg nat
  | PauseMsg

record ('p, 'c, 'r) sync_manager =
  smStarted :: "32 word"
  smShutdown :: "32 word"
  smQuit :: bool
  smRunning :: bool
  smTxns :: "uint256 set"
  smBlocks :: "uint256 set"
  smMempool :: "uint256 set"
  smSync :: "nat option"
  smStates :: "nat \<Rightarrow> 'r peer_sync_state option"
  smPeers :: "nat \<Rightarrow> 'p speer"
  smChain :: 'c
  smAnnounced :: "txn list"
  smQueue :: "sm_msg list"

record 'c sm_config =
  cfChain :: "'c chain_store"
  cfCandidateFlags :: "u64 list"
  cfGetTxFilter :: "'c \<Rightarrow> u8 \<times> bytes"
  cfAnnounce :: bool
  cfMaxInv :: nat

record choice =
  chOrder :: "nat list"
  chPick :: "uint256 set \<Rightarrow> uint256"

definition sm_New :: "(nat \<Rightarrow> 'p speer) \<Rightarrow> 'c \<Rightarrow> ('p, 'c, 'r) sync_manager" where
  "sm_New peers c =
     \<lparr>smStarted = 0, smShutdown = 0, smQuit = False, smRunning = False, smTxns = {}, smBlocks = {}, smMempool = {},
      smSync = None, smStates = Map.empty, smPeers = peers, smChain = c, smAnnounced = [], smQueue = []\<rparr>"

definition minInFlightBlocks :: nat where
  "minInFlightBlocks = 10"

text \<open>\<open>badBlockRate() > maxBadBlockRate\<close>; the quotient of a positive number by zero is infinite.\<close>

definition badBlockRate :: "'r::linordered_field peer_sync_state \<Rightarrow> 'r" where
  "badBlockRate st = of_nat (unat (ssBad st)) / of_nat (unat (ssReceived st))"

definition too_many_bad :: "'r::linordered_field peer_sync_state \<Rightarrow> bool" where
  "too_many_bad st \<longleftrightarrow> (if ssReceived st = 0 then ssBad st \<noteq> 0 else 1 / 1000 < badBlockRate st)"

text \<open>Updates through the pointers to a peer and to its sync state.\<close>

definition at_peer :: "nat \<Rightarrow> ('p speer \<Rightarrow> 'p speer) \<Rightarrow> ('p, 'c, 'r) sync_manager \<Rightarrow> ('p, 'c, 'r) sync_manager" where
  "at_peer p f s = s\<lparr>smPeers := (smPeers s)(p := f (smPeers s p))\<rparr>"

definition at_state ::
  "nat \<Rightarrow> ('r peer_sync_state \<Rightarrow> 'r peer_sync_state) \<Rightarrow> ('p, 'c, 'r) sync_manager \<Rightarrow> ('p, 'c, 'r) sync_manager" where
  "at_state p f s = s\<lparr>smStates := (smStates s)(p := map_option f (smStates s p))\<rparr>"

abbreviation peer_height :: "'p peer_if \<Rightarrow> nat \<Rightarrow> ('p, 'c, 'r) sync_manager \<Rightarrow> u32" where
  "peer_height P p s \<equiv> pHeight P (spPeer (smPeers s p))"

subsection \<open>Choosing the sync peer\<close>

definition sm_current :: "'p peer_if \<Rightarrow> 'c sm_config \<Rightarrow> ('p, 'c, 'r) sync_manager \<Rightarrow> bool" where
  "sm_current P V s =
     (case smSync s of
        None \<Rightarrow> True
      | Some p \<Rightarrow> if BestHeight (cfChain V) (smChain s) < peer_height P p s then False else True)"

definition syncWith :: "'c sm_config \<Rightarrow> nat \<Rightarrow> ('p, 'c, 'r) sync_manager \<Rightarrow> ('p, 'c, 'r) sync_manager" where
  "syncWith V p s =
     (at_peer p (PushGetBlocksMsg (LatestBlockLocator (cfChain V) (smChain s)) 0) (s\<lparr>smBlocks := {}\<rparr>))
       \<lparr>smSync := Some p\<rparr>"

text \<open>The loop over the peers: the first candidate that is not behind, and the peers passed over
  because they are behind lose their candidacy.\<close>

fun first_candidate ::
  "'p peer_if \<Rightarrow> u32 \<Rightarrow> nat list \<Rightarrow> ('p, 'c, 'r) sync_manager \<Rightarrow> nat option \<times> ('p, 'c, 'r) sync_manager" where
  "first_candidate P bestHeight [] s = (None, s)"
| "first_candidate P bestHeight (p # ps) s =
     (case smStates s p of
        None \<Rightarrow> first_candidate P bestHeight ps s
      | Some st \<Rightarrow>
          if \<not> ssCandidate st then first_candidate P bestHeight ps s
          else if peer_height P p s < bestHeight
          then first_candidate P bestHeight ps (at_state p (\<lambda>st. st\<lparr>ssCandidate := False\<rparr>) s)
          else (Some p, s))"

definition startSync ::
  "'p peer_if \<Rightarrow> 'c sm_config \<Rightarrow> choice \<Rightarrow> ('p, 'c, 'r) sync_manager \<Rightarrow> ('p, 'c, 'r) sync_manager" where
  "startSync P V ch s =
     (if smSync s \<noteq> None then s
      else let bestHeight = BestHeight (cfChain V) (smChain s)
           in (case first_candidate P bestHeight (chOrder ch) s of
                 (None, s) \<Rightarrow> s
               | (Some bestPeer, s) \<Rightarrow>
                   if peer_height P bestPeer s = bestHeight then s else syncWith V bestPeer s))"

definition isSyncCandidate :: "'p peer_if \<Rightarrow> 'c sm_config \<Rightarrow> 'p speer \<Rightarrow> bool" where
  "isSyncCandidate P V p = list_all (\<lambda>flag. pServices P (spPeer p) AND flag = flag) (cfCandidateFlags V)"

definition getSyncCandidates :: "choice \<Rightarrow> ('p, 'c, 'r) sync_manager \<Rightarrow> 'p speer list" where
  "getSyncCandidates ch s =
     map (smPeers s) (filter (\<lambda>p. case smStates s p of None \<Rightarrow> False | Some st \<Rightarrow> ssCandidate st) (chOrder ch))"

definition pushBloomFilter :: "'c sm_config \<Rightarrow> nat \<Rightarrow> ('p, 'c, 'r) sync_manager \<Rightarrow> ('p, 'c, 'r) sync_manager" where
  "pushBloomFilter V p s = at_peer p (QueueMessage (case_prod MFilterLoad (cfGetTxFilter V (smChain s)))) s"

subsection \<open>Peers that come and go\<close>

definition new_state :: "bool \<Rightarrow> 'r::linordered_field peer_sync_state" where
  "new_state candidate =
     \<lparr>ssCandidate = candidate, ssQueue = [], ssTxns = {}, ssBlocks = {}, ssReceived = 0, ssBad = 0, ssFp = NewFpRate\<rparr>"

definition handleNewPeerMsg ::
  "'p peer_if \<Rightarrow> 'c sm_config \<Rightarrow> choice \<Rightarrow> nat \<Rightarrow> ('p, 'c, 'r::linordered_field) sync_manager \<Rightarrow> ('p, 'c, 'r) sync_manager" where
  "handleNewPeerMsg P V ch p s =
     (if smShutdown s \<noteq> 0 then s
      else let candidate = isSyncCandidate P V (smPeers s p);
               s = s\<lparr>smStates := (smStates s)(p \<mapsto> new_state candidate)\<rparr>
           in if candidate then
                (let s = pushBloomFilter V p s in if smSync s = None then startSync P V ch s else s)
              else s)"

definition handleDonePeerMsg ::
  "'p peer_if \<Rightarrow> 'c sm_config \<Rightarrow> choice \<Rightarrow> nat \<Rightarrow> ('p, 'c, 'r) sync_manager \<Rightarrow> ('p, 'c, 'r) sync_manager" where
  "handleDonePeerMsg P V ch p s =
     (case smStates s p of
        None \<Rightarrow> s
      | Some st \<Rightarrow>
          let s = s\<lparr>smStates := (smStates s)(p := None), smTxns := smTxns s - ssTxns st, smBlocks := smBlocks s - ssBlocks st\<rparr>
          in if smSync s = Some p then startSync P V ch (s\<lparr>smSync := None\<rparr>) else s)"

definition handleTxMsg ::
  "'p peer_if \<Rightarrow> 'c sm_config \<Rightarrow> txn \<Rightarrow> nat \<Rightarrow> ('p, 'c, 'r) sync_manager \<Rightarrow> ('p, 'c, 'r) sync_manager" where
  "handleTxMsg P V tx p s =
     (case smStates s p of
        None \<Rightarrow> s
      | Some st \<Rightarrow>
          if txHash tx \<notin> ssTxns st then at_peer p (Disconnect P) s
          else let s = s\<lparr>smMempool := insert (txHash tx) (smMempool s)\<rparr>;
                   s = at_state p (\<lambda>st. st\<lparr>ssTxns := ssTxns st - {txHash tx}\<rparr>) s;
                   s = s\<lparr>smTxns := smTxns s - {txHash tx}\<rparr>
               in if cfAnnounce V then s\<lparr>smAnnounced := smAnnounced s @ [tx]\<rparr> else s)"

subsection \<open>Requests\<close>

definition limitMap :: "(uint256 set \<Rightarrow> uint256) \<Rightarrow> uint256 set \<Rightarrow> nat \<Rightarrow> uint256 set" where
  "limitMap pick m limit = (if limit < card m + 1 \<and> m \<noteq> {} then m - {pick m} else m)"

text \<open>What \<open>requestQueuedInv\<close> works on: the maps of the manager, those of the peer, the
  inventory of the getdata message.\<close>

record request =
  rqBlocks :: "uint256 set"
  rqTxns :: "uint256 set"
  rqPeerBlocks :: "uint256 set"
  rqPeerTxns :: "uint256 set"
  rqData :: "inv_vect list"

definition request_inv :: "nat \<Rightarrow> (uint256 set \<Rightarrow> uint256) \<Rightarrow> inv_vect \<Rightarrow> request \<Rightarrow> request" where
  "request_inv maxInv pick iv rq =
     (case ivType iv of
        InvBlock \<Rightarrow>
          if ivHash iv \<in> rqBlocks rq then rq
          else rq\<lparr>rqBlocks := limitMap pick (insert (ivHash iv) (rqBlocks rq)) maxInv,
                  rqPeerBlocks := insert (ivHash iv) (rqPeerBlocks rq),
                  rqData := rqData rq @ [iv\<lparr>ivType := InvFilteredBlock\<rparr>]\<rparr>
      | InvTx \<Rightarrow>
          if ivHash iv \<in> rqTxns rq then rq
          else rq\<lparr>rqTxns := limitMap pick (insert (ivHash iv) (rqTxns rq)) maxInv,
                  rqPeerTxns := insert (ivHash iv) (rqPeerTxns rq),
                  rqData := rqData rq @ [iv]\<rparr>
      | _ \<Rightarrow> rq)"

text \<open>\<open>numRequested\<close> is the length of the inventory.\<close>

fun request_loop ::
  "nat \<Rightarrow> (uint256 set \<Rightarrow> uint256) \<Rightarrow> inv_vect list \<Rightarrow> request \<Rightarrow> inv_vect list \<times> request" where
  "request_loop maxInv pick [] rq = ([], rq)"
| "request_loop maxInv pick (iv # queue) rq =
     (let rq = request_inv maxInv pick iv rq
      in if maxInv \<le> length (rqData rq) then (queue, rq) else request_loop maxInv pick queue rq)"

definition requestQueuedInv ::
  "'c sm_config \<Rightarrow> choice \<Rightarrow> nat \<Rightarrow> ('p, 'c, 'r) sync_manager \<Rightarrow> ('p, 'c, 'r) sync_manager" where
  "requestQueuedInv V ch p s =
     (case smStates s p of
        None \<Rightarrow> s
      | Some st \<Rightarrow>
          (let (queue, rq) = request_loop (cfMaxInv V) (chPick ch) (ssQueue st)
                 \<lparr>rqBlocks = smBlocks s, rqTxns = smTxns s, rqPeerBlocks = ssBlocks st, rqPeerTxns = ssTxns st, rqData = []\<rparr>;
               s = s\<lparr>smBlocks := rqBlocks rq, smTxns := rqTxns rq\<rparr>;
               s = at_state p (\<lambda>st. st\<lparr>ssQueue := queue, ssBlocks := rqPeerBlocks rq, ssTxns := rqPeerTxns rq\<rparr>) s
           in if 0 < length (rqData rq) then at_peer p (QueueMessage (MGetData (rqData rq))) s else s))"

subsection \<open>Blocks\<close>

text \<open>What follows a commit whose block was new: the false positive rate, the new state of the
  requests, the next requests.\<close>

definition new_block ::
  "'p peer_if \<Rightarrow> 'c sm_config \<Rightarrow> choice \<Rightarrow> nat \<Rightarrow> block \<Rightarrow> commit_result \<Rightarrow>
   ('p, 'c, 'r::linordered_field) sync_manager \<Rightarrow> ('p, 'c, 'r) sync_manager" where
  "new_block P V ch p b r s =
     (case smStates s p of
        None \<Rightarrow> s
      | Some st \<Rightarrow>
          let fp = fp_Update (hdrNumTxs (blkHeader b)) (crFps r) (ssFp st);
              s = at_state p (\<lambda>st. st\<lparr>ssFp := fp\<rparr>) s
          in if DefaultFalsePositiveRate * 10 < fpRate fp then at_peer p (Disconnect P) s
             else
               let s = (if crHeight r + 500 < peer_height P p s \<and> DefaultFalsePositiveRate < fpRate fp
                        then at_state p (\<lambda>st. st\<lparr>ssFp := fp_Reset (ssFp st)\<rparr>) (pushBloomFilter V p s) else s);
                   s = (if crReorg r \<and> sm_current P V s
                        then (at_state p (\<lambda>st. st\<lparr>ssQueue := [], ssBlocks := {}\<rparr>) s)\<lparr>smBlocks := {}\<rparr> else s);
                   s = s\<lparr>smMempool := {}\<rparr>
               in if sm_current P V s
                  then at_peer p (\<lambda>q. q\<lparr>spPeer := pUpdateHeight P (crHeight r) (spPeer q)\<rparr>) (at_peer p StallClear s)
                  else if card (ssBlocks (the (smStates s p))) < minInFlightBlocks then requestQueuedInv V ch p s
                  else s)"

definition block_committed ::
  "'p peer_if \<Rightarrow> 'c sm_config \<Rightarrow> choice \<Rightarrow> nat \<Rightarrow> block \<Rightarrow> commit_result \<Rightarrow>
   ('p, 'c, 'r::linordered_field) sync_manager \<Rightarrow> ('p, 'c, 'r) sync_manager" where
  "block_committed P V ch p b r s =
     (if crErr r = Some OrphanBlockError \<and> sm_current P V s
      then syncWith V p ((at_state p (\<lambda>st. st\<lparr>ssQueue := [], ssBlocks := {}\<rparr>) s)\<lparr>smBlocks := {}\<rparr>)
      else if crErr r = Some OrphanBlockError \<and> \<not> sm_current P V s
      then (let s = at_state p (\<lambda>st. st\<lparr>ssBad := ssBad st + 1\<rparr>) s
            in if too_many_bad (the (smStates s p)) then at_peer p (Disconnect P) s else s)
      else if crErr r \<noteq> None then s
      else if \<not> crNewTip r then s
      else new_block P V ch p b r s)"

definition handleBlockMsg ::
  "'p peer_if \<Rightarrow> 'c sm_config \<Rightarrow> choice \<Rightarrow> block \<Rightarrow> nat \<Rightarrow>
   ('p, 'c, 'r::linordered_field) sync_manager \<Rightarrow> ('p, 'c, 'r) sync_manager option" where
  "handleBlockMsg P V ch b p s =
     (if Some p \<noteq> smSync s \<and> \<not> sm_current P V s then Some s
      else (case smStates s p of
              None \<Rightarrow> Some (at_peer p (Disconnect P) s)
            | Some st \<Rightarrow>
                let blockHash = hdr_hash (blkHeader b)
                in if blockHash \<notin> ssBlocks st then Some (at_peer p (Disconnect P) s)
                   else let s = at_state p (\<lambda>st. st\<lparr>ssReceived := ssReceived st + 1, ssBlocks := ssBlocks st - {blockHash}\<rparr>) s;
                            s = s\<lparr>smBlocks := smBlocks s - {blockHash}\<rparr>
                        in map_option (\<lambda>(r, c). block_committed P V ch p b r (s\<lparr>smChain := c\<rparr>))
                             (bc_CommitBlock (cfChain V) b (smChain s))))"

subsection \<open>Inventory\<close>

definition haveInventory :: "'c sm_config \<Rightarrow> inv_vect \<Rightarrow> ('p, 'c, 'r) sync_manager \<Rightarrow> bool" where
  "haveInventory V iv s =
     (case ivType iv of
        InvBlock \<Rightarrow> HaveBlock (cfChain V) (ivHash iv) (smChain s)
      | InvTx \<Rightarrow> ivHash iv \<in> smMempool s
      | _ \<Rightarrow> True)"

definition handleInvMsg ::
  "'p peer_if \<Rightarrow> 'c sm_config \<Rightarrow> choice \<Rightarrow> inv_vect list \<Rightarrow> nat \<Rightarrow> ('p, 'c, 'r) sync_manager \<Rightarrow> ('p, 'c, 'r) sync_manager" where
  "handleInvMsg P V ch ivs p s =
     (case smStates s p of
        None \<Rightarrow> s
      | Some st \<Rightarrow>
          let lastBlock = List.find (\<lambda>iv. ivType iv = InvBlock) (rev ivs) in
          if Some p \<noteq> smSync s \<and> \<not> sm_current P V s then s
          else
            let new = filter (\<lambda>iv. ivType iv \<in> {InvBlock, InvTx} \<and> \<not> haveInventory V iv s) ivs;
                s = at_state p (\<lambda>st. st\<lparr>ssQueue := ssQueue st @ new\<rparr>) s;
                s = (if \<not> sm_current P V s \<and> length (ssQueue st @ new) < cfMaxInv V
                     then (case lastBlock of None \<Rightarrow> s | Some iv \<Rightarrow> at_peer p (PushGetBlocksMsg [ivHash iv] 0) s) else s)
            in requestQueuedInv V ch p s)"

subsection \<open>The message queue\<close>

definition sm_handle ::
  "'p peer_if \<Rightarrow> 'c sm_config \<Rightarrow> choice \<Rightarrow> sm_msg \<Rightarrow>
   ('p, 'c, 'r::linordered_field) sync_manager \<Rightarrow> ('p, 'c, 'r) sync_manager option" where
  "sm_handle P V ch m s =
     (case m of
        NewPeerMsg p \<Rightarrow> Some (handleNewPeerMsg P V ch p s)
      | TxMsg tx p \<Rightarrow> Some (handleTxMsg P V tx p s)
      | BlockMsg b p \<Rightarrow> handleBlockMsg P V ch b p s
      | InvMsg ivs p \<Rightarrow> Some (handleInvMsg P V ch ivs p s)
      | DonePeerMsg p \<Rightarrow> Some (handleDonePeerMsg P V ch p s)
      | GetSyncPeerMsg c \<Rightarrow> Some s
      | IsCurrentMsg c \<Rightarrow> Some s
      | PauseMsg \<Rightarrow> Some s)"

text \<open>The reply to a message, which the handler sends after it has handled it: to the channels of the
  service for blocks and for transactions, or to the caller's own channel. While the handler is paused it
  takes no further step.\<close>

datatype sm_reply = BlockDone | TxDone | PeerID nat u64 | IsCurrent nat bool

definition sm_answer :: "'p peer_if \<Rightarrow> 'c sm_config \<Rightarrow> sm_msg \<Rightarrow> ('p, 'c, 'r) sync_manager \<Rightarrow> sm_reply option" where
  "sm_answer P V m s =
     (case m of
        TxMsg tx p \<Rightarrow> Some TxDone
      | BlockMsg b p \<Rightarrow> Some BlockDone
      | GetSyncPeerMsg c \<Rightarrow> Some (PeerID c (case smSync s of None \<Rightarrow> 0 | Some p \<Rightarrow> pID P (spPeer (smPeers s p))))
      | IsCurrentMsg c \<Rightarrow> Some (IsCurrent c (sm_current P V s))
      | _ \<Rightarrow> None)"

text \<open>\<open>NewPeer\<close>, \<open>QueueTx\<close>, \<open>QueueBlock\<close>, \<open>QueueInv\<close>, \<open>DonePeer\<close>.\<close>

definition sm_send :: "sm_msg \<Rightarrow> ('p, 'c, 'r) sync_manager \<Rightarrow> ('p, 'c, 'r) sync_manager" where
  "sm_send m s = (if smShutdown s \<noteq> 0 then s else s\<lparr>smQueue := smQueue s @ [m]\<rparr>)"

definition sm_Start :: "('p, 'c, 'r) sync_manager \<Rightarrow> ('p, 'c, 'r) sync_manager" where
  "sm_Start s = (let s = s\<lparr>smStarted := smStarted s + 1\<rparr> in if smStarted s \<noteq> 1 then s else s\<lparr>smRunning := True\<rparr>)"

definition sm_Stop :: "('p, 'c, 'r) sync_manager \<Rightarrow> ('p, 'c, 'r) sync_manager" where
  "sm_Stop s = (let s = s\<lparr>smShutdown := smShutdown s + 1\<rparr> in if smShutdown s \<noteq> 1 then s else s\<lparr>smQuit := True\<rparr>)"

text \<open>The requests to the manager, each with a reply channel of its own. Unlike the calls above they
  do not look at the shutdown flag.\<close>

definition sm_request :: "sm_msg \<Rightarrow> ('p, 'c, 'r) sync_manager \<Rightarrow> ('p, 'c, 'r) sync_manager" where
  "sm_request m s = s\<lparr>smQueue := smQueue s @ [m]\<rparr>"

definition SyncPeerID :: "nat \<Rightarrow> ('p, 'c, 'r) sync_manager \<Rightarrow> ('p, 'c, 'r) sync_manager" where
  "SyncPeerID c s = sm_request (GetSyncPeerMsg c) s"

definition sm_IsCurrent :: "nat \<Rightarrow> ('p, 'c, 'r) sync_manager \<Rightarrow> ('p, 'c, 'r) sync_manager" where
  "sm_IsCurrent c s = sm_request (IsCurrentMsg c) s"

definition sm_Pause :: "('p, 'c, 'r) sync_manager \<Rightarrow> ('p, 'c, 'r) sync_manager" where
  "sm_Pause s = sm_request PauseMsg s"

lemmas sm_requests = SyncPeerID_def sm_IsCurrent_def sm_Pause_def sm_request_def

subsection \<open>Runs\<close>

text \<open>One step: a message is handled, the other goroutines send one or ask for something, start or stop the manager, a
  peer is created or the embedded peers change. A pointer announced as a new peer is not known
  yet: the P2P server makes a new peer for every connection and announces it once.\<close>

definition choice_ok :: "choice \<Rightarrow> ('p, 'c, 'r) sync_manager \<Rightarrow> bool" where
  "choice_ok ch s \<longleftrightarrow> dom (smStates s) \<subseteq> set (chOrder ch) \<and> (\<forall>S. S \<noteq> {} \<longrightarrow> chPick ch S \<in> S)"

inductive sm_step ::
  "'p peer_if \<Rightarrow> 'c sm_config \<Rightarrow> ('p, 'c, 'r::linordered_field) sync_manager \<Rightarrow> ('p, 'c, 'r) sync_manager \<Rightarrow> bool"
  for P V where
  handled: "smRunning s \<Longrightarrow> smQueue s = m # ms \<Longrightarrow> choice_ok ch s \<Longrightarrow>
    (\<And>p. m = NewPeerMsg p \<Longrightarrow> smStates s p = None) \<Longrightarrow>
    sm_handle P V ch m (s\<lparr>smQueue := ms\<rparr>) = Some s' \<Longrightarrow> sm_step P V s s'"
| sent: "sm_step P V s (sm_send m s)"
| asked: "sm_step P V s (SyncPeerID c s)"
| asked_current: "sm_step P V s (sm_IsCurrent c s)"
| paused: "sm_step P V s (sm_Pause s)"
| started: "sm_step P V s (sm_Start s)"
| stopped: "sm_step P V s (sm_Stop s)"
| drained: "smQuit s \<Longrightarrow> sm_step P V s (s\<lparr>smRunning := False, smQueue := []\<rparr>)"
| created: "smStates s p = None \<Longrightarrow> sm_step P V s (s\<lparr>smPeers := (smPeers s)(p := NewPeer q)\<rparr>)"
| network: "sm_step P V s (s\<lparr>smPeers := \<lambda>p. (smPeers s p)\<lparr>spPeer := g p\<rparr>\<rparr>)"

inductive_cases sm_stepE: "sm_step P V s s'"

inductive sm_reachable ::
  "'p peer_if \<Rightarrow> 'c sm_config \<Rightarrow> ('p, 'c, 'r::linordered_field) sync_manager \<Rightarrow> bool" for P V where
  init: "(\<And>p. spOut (peers p) = []) \<Longrightarrow> sm_reachable P V (sm_New peers c)"
| step: "sm_reachable P V s \<Longrightarrow> sm_step P V s s' \<Longrightarrow> sm_reachable P V s'"

end
