(* ===== verification/SyncInvariant.thy ===== *)
theory SyncInvariant
  imports SyncManager
begin

text \<open>
  The invariant of the sync manager's runs, one preservation lemma per primitive and per
  handler, and the properties that rest on it: what is requested stays within bounds and is
  forgotten when the peer it was requested from leaves, the sync peer is a known peer, a block
  reaches the chain only if it was requested from the peer that sent it.
\<close>

subsection \<open>The invariant\<close>

text \<open>The hashes a peer has been asked for.\<close>

definition asked :: "inv_type \<Rightarrow> message list \<Rightarrow> uint256 set" where
  "asked k out = {h. \<exists>ivs. MGetData ivs \<in> set out \<and> (\<exists>iv \<in> set ivs. ivType iv = k \<and> ivHash iv = h)}"

definition pending ::
  "('r peer_sync_state \<Rightarrow> uint256 set) \<Rightarrow> ('p, 'c, 'r) sync_manager \<Rightarrow> uint256 set" where
  "pending f s = (\<Union>st \<in> ran (smStates s). f st)"

text \<open>Of one of the two kinds of requests: every hash requested is pending at a known peer, fewer
  than \<open>MaxInvPerMsg\<close> are, and what is pending at a peer it was asked for.\<close>

definition requests_ok ::
  "nat \<Rightarrow> inv_type \<Rightarrow> uint256 set \<Rightarrow> ('r peer_sync_state \<Rightarrow> uint256 set) \<Rightarrow> ('p, 'c, 'r) sync_manager \<Rightarrow> bool" where
  "requests_ok maxInv k R f s \<longleftrightarrow> R \<subseteq> pending f s \<and> finite R \<and> card R < maxInv \<and>
     (\<forall>p st. smStates s p = Some st \<longrightarrow> f st \<subseteq> asked k (spOut (smPeers s p)))"

definition sm_inv :: "'c sm_config \<Rightarrow> ('p, 'c, 'r) sync_manager \<Rightarrow> bool" where
  "sm_inv V s \<longleftrightarrow>
     (\<forall>p. smSync s = Some p \<longrightarrow> smStates s p \<noteq> None) \<and>
     requests_ok (cfMaxInv V) InvFilteredBlock (smBlocks s) ssBlocks s \<and>
     requests_ok (cfMaxInv V) InvTx (smTxns s) ssTxns s \<and>
     (\<forall>p ivs. MGetData ivs \<in> set (spOut (smPeers s p)) \<longrightarrow> length ivs \<le> cfMaxInv V)"

lemma asked_append [simp]: "asked k (xs @ ys) = asked k xs \<union> asked k ys"
  by (auto simp: asked_def)

lemma asked_data [simp]: "asked k [MGetData ivs] = ivHash ` {iv \<in> set ivs. ivType iv = k}"
  by (auto simp: asked_def)

lemma asked_Nil [simp]: "asked k [] = {}"
  by (simp add: asked_def)

lemma pending_at_peer [simp]: "pending f (at_peer p g s) = pending f s"
  by (simp add: pending_def at_peer_def)

lemma at_simps [simp]:
  "smStates (at_peer p f s) = smStates s" "smSync (at_peer p f s) = smSync s" "smBlocks (at_peer p f s) = smBlocks s"
  "smTxns (at_peer p f s) = smTxns s" "smChain (at_peer p f s) = smChain s" "smMempool (at_peer p f s) = smMempool s"
  "smPeers (at_peer p f s) = (smPeers s)(p := f (smPeers s p))"
  "smPeers (at_state p g s) = smPeers s" "smSync (at_state p g s) = smSync s" "smBlocks (at_state p g s) = smBlocks s"
  "smTxns (at_state p g s) = smTxns s" "smChain (at_state p g s) = smChain s" "smMempool (at_state p g s) = smMempool s"
  "smStates (at_state p g s) = (smStates s)(p := map_option g (smStates s p))"
  by (simp_all add: at_peer_def at_state_def)

text \<open>Calls on a peer may only add messages to its log.\<close>

definition extends_out :: "nat \<Rightarrow> 'p speer \<Rightarrow> 'p speer \<Rightarrow> bool" where
  "extends_out maxInv q q' \<longleftrightarrow> (\<exists>ms. spOut q' = spOut q @ ms \<and> (\<forall>ivs. MGetData ivs \<in> set ms \<longrightarrow> length ivs \<le> maxInv))"

lemma extends_out_calls [simp]:
  "extends_out n q (Disconnect P q)" "extends_out n q (StallClear q)"
  "extends_out n q (PushGetBlocksMsg l stop q)" "extends_out n q (QueueMessage (MFilterLoad t bs) q)"
  "extends_out n q (q\<lparr>spPeer := g\<rparr>)"
  by (auto simp: extends_out_def Disconnect_def StallClear_def PushGetBlocksMsg_def QueueMessage_def Let_def)

lemma requests_at_peer:
  "requests_ok n k R g s \<Longrightarrow> spOut (f (smPeers s p)) = spOut (smPeers s p) @ ms \<Longrightarrow> requests_ok n k R g (at_peer p f s)"
  by (auto simp: requests_ok_def)

lemma at_peer_inv:
  assumes "sm_inv V s" and "extends_out (cfMaxInv V) (smPeers s p) (f (smPeers s p))"
  shows "sm_inv V (at_peer p f s)"
proof -
  from assms(2) obtain ms where ms: "spOut (f (smPeers s p)) = spOut (smPeers s p) @ ms"
    "\<And>ivs. MGetData ivs \<in> set ms \<Longrightarrow> length ivs \<le> cfMaxInv V"
    unfolding extends_out_def by blast
  have "\<forall>q ivs. MGetData ivs \<in> set (spOut (smPeers (at_peer p f s) q)) \<longrightarrow> length ivs \<le> cfMaxInv V"
    using assms(1) ms by (auto simp: sm_inv_def)
  with assms(1) requests_at_peer [where f = f and p = p and s = s and ms = ms, OF _ ms(1)] show ?thesis by (simp add: sm_inv_def)
qed

text \<open>The invariant looks at the states, the peers and the requests only.\<close>

lemma requests_ok_fields [simp]:
  "requests_ok n k R f (s\<lparr>smChain := c\<rparr>) = requests_ok n k R f s"
  "requests_ok n k R f (s\<lparr>smSync := y\<rparr>) = requests_ok n k R f s"
  "requests_ok n k R f (s\<lparr>smBlocks := B\<rparr>) = requests_ok n k R f s"
  "requests_ok n k R f (s\<lparr>smTxns := B\<rparr>) = requests_ok n k R f s"
  "requests_ok n k R f (s\<lparr>smMempool := B\<rparr>) = requests_ok n k R f s"
  "requests_ok n k R f (s\<lparr>smAnnounced := ts\<rparr>) = requests_ok n k R f s"
  "requests_ok n k R f (s\<lparr>smQueue := ms\<rparr>) = requests_ok n k R f s"
  "requests_ok n k R f (s\<lparr>smStarted := w\<rparr>) = requests_ok n k R f s"
  "requests_ok n k R f (s\<lparr>smShutdown := w\<rparr>) = requests_ok n k R f s"
  "requests_ok n k R f (s\<lparr>smQuit := z\<rparr>) = requests_ok n k R f s"
  "requests_ok n k R f (s\<lparr>smRunning := z\<rparr>) = requests_ok n k R f s"
  by (simp_all add: requests_ok_def pending_def)

lemma sm_inv_fields [simp]:
  "sm_inv V (s\<lparr>smChain := c\<rparr>) = sm_inv V s" "sm_inv V (s\<lparr>smMempool := B\<rparr>) = sm_inv V s"
  "sm_inv V (s\<lparr>smAnnounced := ts\<rparr>) = sm_inv V s" "sm_inv V (s\<lparr>smQueue := ms\<rparr>) = sm_inv V s"
  "sm_inv V (s\<lparr>smStarted := w\<rparr>) = sm_inv V s" "sm_inv V (s\<lparr>smShutdown := w\<rparr>) = sm_inv V s"
  "sm_inv V (s\<lparr>smQuit := z\<rparr>) = sm_inv V s" "sm_inv V (s\<lparr>smRunning := z\<rparr>) = sm_inv V s"
  by (simp_all add: sm_inv_def)

lemma in_pending: "smStates s p = Some st \<Longrightarrow> h \<in> f st \<Longrightarrow> h \<in> pending f s"
  by (auto simp: pending_def ran_def)

lemma pendingE:
  assumes "h \<in> pending f s"
  obtains p st where "smStates s p = Some st" and "h \<in> f st"
  using assms by (auto simp: pending_def ran_def)

text \<open>A sync state replaced: what the requests and the peer's own requests must satisfy.\<close>

lemma requests_replace:
  assumes "requests_ok n k R f s" and "smStates s p = Some st"
    and "R' \<subseteq> R \<union> f (g st)" and "finite R'" and "card R' < n"
    and "R' \<inter> f st \<subseteq> f (g st)" and "f (g st) \<subseteq> f st \<union> asked k (spOut (smPeers s p))"
  shows "requests_ok n k R' f (at_state p g s)"
proof -
  have "h \<in> pending f (at_state p g s)" if "h \<in> R'" for h
  proof (cases "h \<in> f (g st)")
    case True
    show ?thesis by (rule in_pending [of _ p "g st"]) (use assms(2) True in simp_all)
  next
    case False
    with that assms(1,3,6) have "h \<in> pending f s" "h \<notin> f st" by (auto simp: requests_ok_def)
    then obtain q st' where q: "smStates s q = Some st'" "h \<in> f st'" by (blast elim: pendingE)
    with \<open>h \<notin> f st\<close> assms(2) have "q \<noteq> p" by auto
    with q show ?thesis by (intro in_pending [of _ q st']) simp_all
  qed
  moreover have "f st \<subseteq> asked k (spOut (smPeers s p))" using assms(1,2) by (simp add: requests_ok_def)
  with assms(7) have "f (g st) \<subseteq> asked k (spOut (smPeers s p))" by blast
  ultimately show ?thesis using assms(1,2,4,5) by (auto simp: requests_ok_def)
qed

lemma requests_less:
  assumes "requests_ok n k R f s" and "R' \<subseteq> R"
  shows "requests_ok n k R' f s"
  using assms card_mono [of R R'] by (auto simp: requests_ok_def intro: finite_subset)

lemma requests_smaller:
  assumes "requests_ok n k R f s" and "smStates s p = Some st"
    and "R' \<subseteq> R" and "R' \<inter> f st \<subseteq> f (g st)" and "f (g st) \<subseteq> f st"
  shows "requests_ok n k R' f (at_state p g s)"
proof -
  from requests_less [OF assms(1,3)] have "finite R'" "card R' < n" by (simp_all add: requests_ok_def)
  with requests_replace [OF assms(1,2), of R' g] assms(3-5) show ?thesis by blast
qed

lemma requests_keep:
  assumes "requests_ok n k R f s" and "\<And>st. smStates s p = Some st \<Longrightarrow> f (g st) = f st"
  shows "requests_ok n k R f (at_state p g s)"
proof (cases "smStates s p")
  case None
  then have "smStates (at_state p g s) = smStates s" by (auto simp: fun_upd_idem)
  with assms(1) show ?thesis by (simp add: requests_ok_def pending_def)
next
  case (Some st)
  with assms show ?thesis by (auto intro: requests_smaller)
qed

lemma at_state_keep:
  assumes "sm_inv V s" and "\<And>st. ssBlocks (g st) = ssBlocks st" and "\<And>st. ssTxns (g st) = ssTxns st"
  shows "sm_inv V (at_state p g s)"
  using assms by (simp add: sm_inv_def requests_keep)

subsection \<open>Choosing the sync peer\<close>

lemma sm_inv_sync:
  "sm_inv V s \<Longrightarrow> smStates s p \<noteq> None \<Longrightarrow> sm_inv V (s\<lparr>smSync := Some p\<rparr>)"
  "sm_inv V s \<Longrightarrow> sm_inv V (s\<lparr>smSync := None\<rparr>)"
  by (simp_all add: sm_inv_def)

lemma sm_inv_blocks:
  "sm_inv V s \<Longrightarrow> B \<subseteq> smBlocks s \<Longrightarrow> sm_inv V (s\<lparr>smBlocks := B\<rparr>)"
  by (auto simp: sm_inv_def intro: requests_less)

lemma syncWith_inv: "sm_inv V s \<Longrightarrow> smStates s p \<noteq> None \<Longrightarrow> sm_inv V (syncWith V p s)"
  unfolding syncWith_def by (intro sm_inv_sync(1) at_peer_inv sm_inv_blocks) simp_all

lemma first_candidate_ok:
  "first_candidate P best ps s = (r, s') \<Longrightarrow> sm_inv V s \<Longrightarrow>
   sm_inv V s' \<and> smSync s' = smSync s \<and> smChain s' = smChain s \<and>
   (\<forall>p. r = Some p \<longrightarrow> smStates s' p \<noteq> None \<and> \<not> peer_height P p s' < best)"
proof (induction ps arbitrary: s)
  case (Cons p ps)
  then show ?case
    by (auto split: option.splits if_splits dest!: Cons.IH intro: at_state_keep)
qed auto

lemma startSync_inv: "sm_inv V s \<Longrightarrow> sm_inv V (startSync P V ch s)"
  by (auto simp: startSync_def Let_def split: prod.splits option.splits dest!: first_candidate_ok intro: syncWith_inv)

lemma pushBloomFilter_inv: "sm_inv V s \<Longrightarrow> sm_inv V (pushBloomFilter V p s)"
  unfolding pushBloomFilter_def by (rule at_peer_inv) (simp_all add: case_prod_beta)

subsection \<open>Requests\<close>

text \<open>What one turn of the loop keeps, for the blocks and for the transactions.\<close>

definition kind_step :: "nat \<Rightarrow> uint256 set \<Rightarrow> uint256 set \<Rightarrow> uint256 set \<Rightarrow> uint256 set \<Rightarrow> uint256 set \<Rightarrow> bool" where
  "kind_step maxInv R f D R' f' \<longleftrightarrow> R' \<subseteq> R \<union> f' \<and> f \<subseteq> f' \<and> f' \<subseteq> f \<union> D \<and>
     (finite R \<longrightarrow> finite R') \<and> (finite R \<and> card R < maxInv \<longrightarrow> card R' < maxInv)"

lemma kind_step_refl [simp]: "kind_step n R f D R f"
  by (simp add: kind_step_def)

lemma kind_step_trans:
  "kind_step n R f D R' f' \<Longrightarrow> kind_step n R' f' D' R'' f'' \<Longrightarrow> D \<subseteq> D' \<Longrightarrow> kind_step n R f D' R'' f''"
  unfolding kind_step_def by blast

lemma limitMap_bounds:
  assumes "\<And>S. S \<noteq> {} \<Longrightarrow> pick S \<in> S" and "finite R" and "card R < n"
  shows "card (limitMap pick (insert h R) n) < n"
proof (cases "n < card (insert h R) + 1")
  case True
  have "pick (insert h R) \<in> insert h R" by (rule assms(1)) simp
  then have "card (insert h R - {pick (insert h R)}) = card (insert h R) - 1"
    using assms(2) by (simp add: card_Diff_singleton)
  moreover have "card (insert h R) \<le> card R + 1" using assms(2) by (simp add: card_insert_if)
  ultimately show ?thesis using True assms(3) by (simp add: limitMap_def)
next
  case False
  then show ?thesis by (simp add: limitMap_def)
qed

lemma limitMap_step:
  assumes "\<And>S. S \<noteq> {} \<Longrightarrow> pick S \<in> S" and "h \<in> D"
  shows "kind_step n R f D (limitMap pick (insert h R) n) (insert h f)"
  using limitMap_bounds [of pick R n h] assms by (auto simp: kind_step_def limitMap_def)

definition req_step :: "nat \<Rightarrow> request \<Rightarrow> request \<Rightarrow> bool" where
  "req_step n rq rq' \<longleftrightarrow>
     kind_step n (rqBlocks rq) (rqPeerBlocks rq) (ivHash ` {iv \<in> set (rqData rq'). ivType iv = InvFilteredBlock})
       (rqBlocks rq') (rqPeerBlocks rq') \<and>
     kind_step n (rqTxns rq) (rqPeerTxns rq) (ivHash ` {iv \<in> set (rqData rq'). ivType iv = InvTx})
       (rqTxns rq') (rqPeerTxns rq') \<and>
     set (rqData rq) \<subseteq> set (rqData rq')"

lemma request_inv_step:
  assumes "\<And>S. S \<noteq> {} \<Longrightarrow> pick S \<in> S"
  shows "req_step n rq (request_inv n pick iv rq) \<and> length (rqData (request_inv n pick iv rq)) \<le> length (rqData rq) + 1"
proof -
  have "ivHash iv \<in> ivHash ` {iva. (iva = iv\<lparr>ivType := InvFilteredBlock\<rparr> \<or> iva \<in> set (rqData rq)) \<and> ivType iva = InvFilteredBlock}"
    by (rule image_eqI [of _ _ "iv\<lparr>ivType := InvFilteredBlock\<rparr>"]) simp_all
  with limitMap_step [OF assms] show ?thesis
    by (auto simp: request_inv_def req_step_def split: inv_type.split)
qed

lemma req_step_trans: "req_step n a b \<Longrightarrow> req_step n b c \<Longrightarrow> req_step n a c"
  unfolding req_step_def by (blast intro: kind_step_trans)

lemma request_loop_step:
  assumes "\<And>S. S \<noteq> {} \<Longrightarrow> pick S \<in> S"
  shows "request_loop n pick queue rq = (queue', rq') \<Longrightarrow> length (rqData rq) < n \<Longrightarrow>
    req_step n rq rq' \<and> length (rqData rq') \<le> n"
proof (induction queue arbitrary: rq)
  case Nil
  then show ?case by (simp add: req_step_def)
next
  case (Cons iv queue)
  let ?rq = "request_inv n pick iv rq"
  have s: "req_step n rq ?rq" "length (rqData ?rq) \<le> length (rqData rq) + 1"
    using request_inv_step [OF assms] by blast+
  show ?case
  proof (cases "n \<le> length (rqData ?rq)")
    case True
    with Cons.prems s show ?thesis by (simp add: Let_def)
  next
    case False
    with Cons.prems Cons.IH [of ?rq] have "req_step n ?rq rq'" "length (rqData rq') \<le> n" by (simp_all add: Let_def)
    with req_step_trans [OF s(1)] show ?thesis by simp
  qed
qed

lemma kind_step_requests:
  assumes "kind_step n R (f st) D R' f'" and "requests_ok n k R f s" and "smStates s p = Some st" and "f (g st) = f'"
    and "D \<subseteq> asked k (spOut (smPeers s p))"
  shows "requests_ok n k R' f (at_state p g s)"
proof (rule requests_replace [OF assms(2,3)])
  show "R' \<subseteq> R \<union> f (g st)" and "R' \<inter> f st \<subseteq> f (g st)" and "f (g st) \<subseteq> f st \<union> asked k (spOut (smPeers s p))"
    using assms(1,4,5) by (auto simp: kind_step_def)
  show "finite R'" and "card R' < n" using assms(1,2) by (auto simp: kind_step_def requests_ok_def)
qed

lemma at_peer_state: "at_peer p f (at_state p g s) = at_state p g (at_peer p f s)"
  by (simp add: at_peer_def at_state_def)

lemma requestQueuedInv_inv:
  assumes "sm_inv V s" and "\<And>S. S \<noteq> {} \<Longrightarrow> chPick ch S \<in> S"
  shows "sm_inv V (requestQueuedInv V ch p s)"
proof (cases "smStates s p")
  case None
  with assms(1) show ?thesis by (simp add: requestQueuedInv_def)
next
  case (Some st)
  let ?rq = "\<lparr>rqBlocks = smBlocks s, rqTxns = smTxns s, rqPeerBlocks = ssBlocks st, rqPeerTxns = ssTxns st, rqData = []\<rparr>"
  obtain queue rq where r: "request_loop (cfMaxInv V) (chPick ch) (ssQueue st) ?rq = (queue, rq)" by fastforce
  let ?g = "\<lambda>st. st\<lparr>ssQueue := queue, ssBlocks := rqPeerBlocks rq, ssTxns := rqPeerTxns rq\<rparr>"
  define t where "t = (if 0 < length (rqData rq) then at_peer p (QueueMessage (MGetData (rqData rq))) s else s)"
  have n: "0 < cfMaxInv V" using assms(1) by (auto simp: sm_inv_def requests_ok_def)
  from request_loop_step [OF assms(2) r] n have step: "req_step (cfMaxInv V) ?rq rq" "length (rqData rq) \<le> cfMaxInv V"
    by simp_all
  have eq: "requestQueuedInv V ch p s = (at_state p ?g t)\<lparr>smBlocks := rqBlocks rq, smTxns := rqTxns rq\<rparr>"
    using Some r by (simp add: requestQueuedInv_def Let_def at_peer_def at_state_def t_def)
  have i: "sm_inv V t"
    using step(2) by (auto simp: t_def extends_out_def QueueMessage_def intro!: at_peer_inv [OF assms(1)] assms(1))
  have t: "smStates t p = Some st" "smBlocks t = smBlocks s" "smTxns t = smTxns s"
    using Some by (simp_all add: t_def)
  have a: "ivHash ` {iv \<in> set (rqData rq). ivType iv = k} \<subseteq> asked k (spOut (smPeers t p))" for k
    by (cases "rqData rq") (auto simp: QueueMessage_def t_def)
  have "requests_ok (cfMaxInv V) InvFilteredBlock (rqBlocks rq) ssBlocks (at_state p ?g t)"
    by (rule kind_step_requests [where R = "smBlocks s", OF _ _ t(1) _ a]) (use step(1) i t in \<open>simp_all add: req_step_def sm_inv_def\<close>)
  moreover have "requests_ok (cfMaxInv V) InvTx (rqTxns rq) ssTxns (at_state p ?g t)"
    by (rule kind_step_requests [where R = "smTxns s", OF _ _ t(1) _ a]) (use step(1) i t in \<open>simp_all add: req_step_def sm_inv_def\<close>)
  ultimately show ?thesis using i unfolding eq by (simp add: sm_inv_def)
qed

subsection \<open>The handlers\<close>

lemma pending_new: "smStates s p = None \<Longrightarrow> pending f (s\<lparr>smStates := (smStates s)(p \<mapsto> st)\<rparr>) = pending f s \<union> f st"
  by (auto simp: pending_def)

lemma new_peer_inv:
  assumes "sm_inv V s" and "smStates s p = None" and "ssBlocks st = {}" and "ssTxns st = {}"
  shows "sm_inv V (s\<lparr>smStates := (smStates s)(p \<mapsto> st)\<rparr>)"
  using assms by (simp add: sm_inv_def requests_ok_def pending_new)

lemma handleNewPeerMsg_inv:
  assumes "sm_inv V s" and "smStates s p = None"
  shows "sm_inv V (handleNewPeerMsg P V ch p s)"
  using new_peer_inv [OF assms, of "new_state c" for c]
  by (auto simp: handleNewPeerMsg_def Let_def assms(1) new_state_def intro!: startSync_inv pushBloomFilter_inv)

lemma requests_gone:
  assumes "requests_ok n k R f s" and "smStates s p = Some st"
  shows "requests_ok n k (R - f st) f (s\<lparr>smStates := (smStates s)(p := None)\<rparr>)"
proof -
  have "h \<in> pending f (s\<lparr>smStates := (smStates s)(p := None)\<rparr>)" if "h \<in> R - f st" for h
  proof -
    from that assms(1) have "h \<in> pending f s" "h \<notin> f st" by (auto simp: requests_ok_def)
    then obtain q st' where q: "smStates s q = Some st'" "h \<in> f st'" "q \<noteq> p"
      using assms(2) by (metis option.inject pendingE)
    then show ?thesis by (intro in_pending [of _ q st']) simp_all
  qed
  moreover have "requests_ok n k (R - f st) f s" using assms(1) by (rule requests_less) blast
  ultimately show ?thesis by (auto simp: requests_ok_def)
qed

lemma handleDonePeerMsg_inv:
  assumes "sm_inv V s"
  shows "sm_inv V (handleDonePeerMsg P V ch p s)"
proof (cases "smStates s p")
  case None
  with assms show ?thesis by (simp add: handleDonePeerMsg_def)
next
  case (Some st)
  let ?s = "s\<lparr>smStates := (smStates s)(p := None), smTxns := smTxns s - ssTxns st, smBlocks := smBlocks s - ssBlocks st\<rparr>"
  from assms have r: "requests_ok (cfMaxInv V) InvFilteredBlock (smBlocks ?s) ssBlocks ?s"
    "requests_ok (cfMaxInv V) InvTx (smTxns ?s) ssTxns ?s"
    using requests_gone [OF _ Some] by (simp_all add: sm_inv_def)
  have "sm_inv V (?s\<lparr>smSync := None\<rparr>)" and "smSync s \<noteq> Some p \<Longrightarrow> sm_inv V ?s"
    using assms r by (auto simp: sm_inv_def)
  with Some show ?thesis by (simp add: handleDonePeerMsg_def Let_def startSync_inv)
qed

lemma handleTxMsg_inv:
  assumes "sm_inv V s"
  shows "sm_inv V (handleTxMsg P V tx p s)"
proof (cases "smStates s p")
  case None
  with assms show ?thesis by (simp add: handleTxMsg_def)
next
  case (Some st)
  let ?g = "\<lambda>st. st\<lparr>ssTxns := ssTxns st - {txHash tx}\<rparr>"
  let ?s = "s\<lparr>smMempool := insert (txHash tx) (smMempool s)\<rparr>"
  have i: "sm_inv V ?s" and st: "smStates ?s p = Some st" using assms Some by simp_all
  have "requests_ok (cfMaxInv V) InvTx (smTxns s - {txHash tx}) ssTxns (at_state p ?g ?s)"
    using i by (intro requests_smaller [OF _ st]) (auto simp: sm_inv_def)
  moreover have "requests_ok (cfMaxInv V) InvFilteredBlock (smBlocks s) ssBlocks (at_state p ?g ?s)"
    using i by (intro requests_keep) (simp_all add: sm_inv_def)
  ultimately have "sm_inv V ((at_state p ?g ?s)\<lparr>smTxns := smTxns s - {txHash tx}\<rparr>)"
    using i by (simp add: sm_inv_def)
  then show ?thesis using Some at_peer_inv [OF assms] by (simp add: handleTxMsg_def Let_def)
qed

text \<open>A peer's requests for blocks dropped, with or without those of the manager.\<close>

lemma drop_blocks_inv:
  assumes "sm_inv V s" and "smStates s p = Some st" and "B \<subseteq> smBlocks s" and "B \<inter> ssBlocks st \<subseteq> ssBlocks (g st)"
    and "ssBlocks (g st) \<subseteq> ssBlocks st" and "ssTxns (g st) = ssTxns st"
  shows "sm_inv V ((at_state p g s)\<lparr>smBlocks := B\<rparr>)"
proof -
  have "requests_ok (cfMaxInv V) InvFilteredBlock B ssBlocks (at_state p g s)"
    using assms by (intro requests_smaller [OF _ assms(2)]) (auto simp: sm_inv_def)
  moreover have "requests_ok (cfMaxInv V) InvTx (smTxns s) ssTxns (at_state p g s)"
    using assms by (intro requests_keep) (auto simp: sm_inv_def)
  ultimately show ?thesis using assms(1) by (simp add: sm_inv_def)
qed

lemma if_inv: "(b \<Longrightarrow> sm_inv V x) \<Longrightarrow> (\<not> b \<Longrightarrow> sm_inv V y) \<Longrightarrow> sm_inv V (if b then x else y)"
  by simp

lemma new_block_inv:
  assumes "sm_inv V s" and "\<And>S. S \<noteq> {} \<Longrightarrow> chPick ch S \<in> S"
  shows "sm_inv V (new_block P V ch p b r s)"
proof (cases "smStates s p")
  case None
  with assms(1) show ?thesis by (simp add: new_block_def)
next
  case (Some st)
  define fp where "fp = fp_Update (hdrNumTxs (blkHeader b)) (crFps r) (ssFp st)"
  define s1 where "s1 = at_state p (\<lambda>st. st\<lparr>ssFp := fp\<rparr>) s"
  define s2 where "s2 = (if crHeight r + 500 < peer_height P p s1 \<and> DefaultFalsePositiveRate < fpRate fp
    then at_state p (\<lambda>st. st\<lparr>ssFp := fp_Reset (ssFp st)\<rparr>) (pushBloomFilter V p s1) else s1)"
  define s3 where "s3 = (if crReorg r \<and> sm_current P V s2
    then (at_state p (\<lambda>st. st\<lparr>ssQueue := [], ssBlocks := {}\<rparr>) s2)\<lparr>smBlocks := {}\<rparr> else s2)"
  define s4 where "s4 = s3\<lparr>smMempool := {}\<rparr>"
  have eq: "new_block P V ch p b r s =
    (if DefaultFalsePositiveRate * 10 < fpRate fp then at_peer p (Disconnect P) s1
     else if sm_current P V s4
     then at_peer p (\<lambda>q. q\<lparr>spPeer := pUpdateHeight P (crHeight r) (spPeer q)\<rparr>) (at_peer p StallClear s4)
     else if card (ssBlocks (the (smStates s4 p))) < minInFlightBlocks then requestQueuedInv V ch p s4 else s4)"
    unfolding new_block_def Some option.case Let_def fp_def s1_def s2_def s3_def s4_def by (rule refl)
  have 1: "sm_inv V s1" unfolding s1_def by (rule at_state_keep [OF assms(1)]) simp_all
  have 2: "sm_inv V s2" using 1 unfolding s2_def by (auto intro: at_state_keep pushBloomFilter_inv)
  have "smStates s2 p \<noteq> None" using Some by (simp add: s2_def s1_def pushBloomFilter_def)
  with 2 have 3: "sm_inv V s3" unfolding s3_def by (auto intro: drop_blocks_inv)
  then have 4: "sm_inv V s4" unfolding s4_def by simp
  show ?thesis unfolding eq by (intro if_inv at_peer_inv requestQueuedInv_inv 1 4 assms(2)) simp_all
qed

lemma block_committed_inv:
  assumes "sm_inv V s" and "smStates s p \<noteq> None" and "\<And>S. S \<noteq> {} \<Longrightarrow> chPick ch S \<in> S"
  shows "sm_inv V (block_committed P V ch p b r s)"
proof -
  from assms(2) obtain st where st: "smStates s p = Some st" by auto
  have 1: "sm_inv V ((at_state p (\<lambda>st. st\<lparr>ssQueue := [], ssBlocks := {}\<rparr>) s)\<lparr>smBlocks := {}\<rparr>)"
    by (rule drop_blocks_inv [OF assms(1) st]) simp_all
  have 2: "sm_inv V (at_state p (\<lambda>st. st\<lparr>ssBad := ssBad st + 1\<rparr>) s)"
    by (rule at_state_keep [OF assms(1)]) simp_all
  show ?thesis unfolding block_committed_def Let_def
    by (intro if_inv syncWith_inv 1 2 new_block_inv assms(1,3) at_peer_inv) (simp_all add: st)
qed

lemma handleBlockMsg_inv:
  assumes "sm_inv V s" and "\<And>S. S \<noteq> {} \<Longrightarrow> chPick ch S \<in> S" and "handleBlockMsg P V ch b p s = Some s'"
  shows "sm_inv V s'"
proof (cases "smStates s p")
  case None
  with assms show ?thesis by (auto simp: handleBlockMsg_def intro: at_peer_inv split: if_splits)
next
  case (Some st)
  let ?h = "hdr_hash (blkHeader b)"
  let ?g = "\<lambda>st. st\<lparr>ssReceived := ssReceived st + 1, ssBlocks := ssBlocks st - {?h}\<rparr>"
  let ?s = "(at_state p ?g s)\<lparr>smBlocks := smBlocks s - {?h}\<rparr>"
  have s: "sm_inv V (?s\<lparr>smChain := c\<rparr>)" for c
    using drop_blocks_inv [OF assms(1) Some, of "smBlocks s - {?h}" ?g] by auto
  have "s' = s \<or> s' = at_peer p (Disconnect P) s \<or> (\<exists>r c. s' = block_committed P V ch p b r (?s\<lparr>smChain := c\<rparr>))"
    using assms(3) Some by (auto simp: handleBlockMsg_def Let_def split: if_splits)
  then show ?thesis
  proof (elim disjE exE)
    fix r c assume "s' = block_committed P V ch p b r (?s\<lparr>smChain := c\<rparr>)"
    with block_committed_inv [OF s _ assms(2)] Some show ?thesis by simp
  qed (use assms(1) in \<open>simp_all add: at_peer_inv\<close>)
qed

lemma handleInvMsg_inv:
  assumes "sm_inv V s" and "\<And>S. S \<noteq> {} \<Longrightarrow> chPick ch S \<in> S"
  shows "sm_inv V (handleInvMsg P V ch ivs p s)"
proof (cases "smStates s p")
  case None
  with assms(1) show ?thesis by (simp add: handleInvMsg_def)
next
  case (Some st)
  have 1: "sm_inv V (at_state p (\<lambda>st. st\<lparr>ssQueue := ssQueue st @ new\<rparr>) s)" for new
    by (rule at_state_keep [OF assms(1)]) simp_all
  show ?thesis using assms(1) Some
    by (auto simp: handleInvMsg_def Let_def split: option.split intro!: requestQueuedInv_inv [OF _ assms(2)] at_peer_inv 1)
qed

lemma sm_handle_inv:
  assumes "sm_inv V s" and "\<And>S. S \<noteq> {} \<Longrightarrow> chPick ch S \<in> S" and "\<And>p. m = NewPeerMsg p \<Longrightarrow> smStates s p = None"
    and "sm_handle P V ch m s = Some s'"
  shows "sm_inv V s'"
  using assms(1,4) handleNewPeerMsg_inv [OF assms(1)] handleDonePeerMsg_inv [OF assms(1)] handleTxMsg_inv [OF assms(1)]
    handleBlockMsg_inv [OF assms(1,2)] handleInvMsg_inv [OF assms(1,2)] assms(3)
  by (cases m) (auto simp: sm_handle_def)

lemma sm_step_inv: "sm_step P V s s' \<Longrightarrow> sm_inv V s \<Longrightarrow> sm_inv V s'"
proof (induction rule: sm_step.induct)
  case (handled s m ms ch s')
  show ?case
    by (rule sm_handle_inv [OF _ _ _ handled(5)]) (use handled in \<open>auto simp: choice_ok_def\<close>)
next
  case (created s p q)
  then show ?case by (auto simp: sm_inv_def requests_ok_def pending_def NewPeer_def)
next
  case (network s g)
  then show ?case by (simp add: sm_inv_def requests_ok_def pending_def)
qed (simp_all add: sm_send_def sm_Start_def sm_Stop_def sm_requests Let_def)

lemma sm_reachable_inv: "sm_reachable P V s \<Longrightarrow> 0 < cfMaxInv V \<Longrightarrow> sm_inv V s"
proof (induction rule: sm_reachable.induct)
  case (init peers c)
  then show ?case by (simp add: sm_inv_def requests_ok_def sm_New_def)
next
  case (step s s')
  then show ?case by (blast intro: sm_step_inv)
qed

subsection \<open>Only requested blocks are committed\<close>

lemma chain_kept [simp]:
  "smChain (syncWith V p s) = smChain s" "smChain (pushBloomFilter V p s) = smChain s"
  "smChain (requestQueuedInv V ch p s) = smChain s"
  by (simp_all add: syncWith_def pushBloomFilter_def requestQueuedInv_def Let_def split: option.split prod.split)

lemma first_candidate_chain: "smChain (snd (first_candidate P best ps s)) = smChain s"
  by (induction ps arbitrary: s) (auto split: option.split)

lemma startSync_chain [simp]: "smChain (startSync P V ch s) = smChain s"
  using first_candidate_chain [of P _ "chOrder ch" s]
  by (auto simp: startSync_def Let_def split: prod.split option.split) (metis snd_conv)+

lemma handlers_chain [simp]:
  "smChain (handleNewPeerMsg P V ch p s) = smChain s" "smChain (handleDonePeerMsg P V ch p s) = smChain s"
  "smChain (handleTxMsg P V tx p s) = smChain s" "smChain (handleInvMsg P V ch ivs p s) = smChain s"
  by (simp_all add: handleNewPeerMsg_def handleDonePeerMsg_def handleTxMsg_def handleInvMsg_def Let_def split: option.split)

lemma block_committed_chain [simp]: "smChain (block_committed P V ch p b r s) = smChain s"
  by (simp add: block_committed_def new_block_def Let_def split: option.split)

lemma handleBlockMsg_chain:
  assumes "handleBlockMsg P V ch b p s = Some s'" and "smChain s' \<noteq> smChain s"
  shows "\<exists>st r. smStates s p = Some st \<and> hdr_hash (blkHeader b) \<in> ssBlocks st \<and> (smSync s = Some p \<or> sm_current P V s) \<and>
    bc_CommitBlock (cfChain V) b (smChain s) = Some (r, smChain s')"
  using assms by (auto simp: handleBlockMsg_def Let_def split: if_splits option.splits)

lemma sm_step_chain:
  assumes "sm_step P V s s'" and "smChain s' \<noteq> smChain s"
  shows "\<exists>b p ms st r. smQueue s = BlockMsg b p # ms \<and> smStates s p = Some st \<and>
    hdr_hash (blkHeader b) \<in> ssBlocks st \<and> (smSync s = Some p \<or> sm_current P V s) \<and>
    bc_CommitBlock (cfChain V) b (smChain s) = Some (r, smChain s')"
  using assms
proof (cases rule: sm_step.cases)
  case (handled m ms ch)
  have cur: "sm_current P V (s\<lparr>smQueue := ms\<rparr>) = sm_current P V s"
    by (cases "smSync s") (simp_all add: sm_current_def)
  show ?thesis
  proof (cases m)
    case (BlockMsg b p)
    with handled assms(2) handleBlockMsg_chain [of P V ch b p "s\<lparr>smQueue := ms\<rparr>" s'] cur
    show ?thesis by (auto simp: sm_handle_def)
  qed (use handled assms(2) in \<open>auto simp: sm_handle_def\<close>)
qed (use assms(2) in \<open>auto simp: sm_send_def sm_Start_def sm_Stop_def sm_requests Let_def split: if_splits\<close>)

subsection \<open>Requesting what was announced\<close>

lemma limitMap_room: "finite R \<Longrightarrow> card R + 1 < n \<Longrightarrow> limitMap pick (insert h R) n = insert h R"
  by (auto simp: limitMap_def card_insert_if)

definition room :: "nat \<Rightarrow> nat \<Rightarrow> request \<Rightarrow> bool" where
  "room n k rq \<longleftrightarrow> finite (rqBlocks rq) \<and> finite (rqTxns rq) \<and> card (rqBlocks rq) + k < n \<and>
     card (rqTxns rq) + k < n \<and> length (rqData rq) + k < n"

lemma request_inv_room:
  assumes "room n (Suc k) rq"
  shows "room n k (request_inv n pick iv rq) \<and>
    rqBlocks (request_inv n pick iv rq) = rqBlocks rq \<union> (if ivType iv = InvBlock then {ivHash iv} else {}) \<and>
    rqTxns (request_inv n pick iv rq) = rqTxns rq \<union> (if ivType iv = InvTx then {ivHash iv} else {})"
  using assms by (auto simp: request_inv_def room_def limitMap_room card_insert_if split: inv_type.split)

lemma request_loop_room:
  "room n (length queue) rq \<Longrightarrow> request_loop n pick queue rq = (queue', rq') \<Longrightarrow>
   queue' = [] \<and> rqBlocks rq' = rqBlocks rq \<union> ivHash ` {iv \<in> set queue. ivType iv = InvBlock} \<and>
   rqTxns rq' = rqTxns rq \<union> ivHash ` {iv \<in> set queue. ivType iv = InvTx}"
proof (induction queue arbitrary: rq)
  case (Cons iv queue)
  let ?rq = "request_inv n pick iv rq"
  from request_inv_room [of n "length queue" rq pick iv] Cons.prems(1) have r: "room n (length queue) ?rq"
    "rqBlocks ?rq = rqBlocks rq \<union> (if ivType iv = InvBlock then {ivHash iv} else {})"
    "rqTxns ?rq = rqTxns rq \<union> (if ivType iv = InvTx then {ivHash iv} else {})" by simp_all
  then have "\<not> n \<le> length (rqData ?rq)" by (simp add: room_def)
  with Cons.prems(2) Cons.IH [OF r(1)] r(2,3) show ?case by (auto simp: Let_def)
qed auto

lemma requestQueuedInv_room:
  assumes "sm_inv V s" and "smStates s p = Some st"
    and "card (smBlocks s) + length (ssQueue st) < cfMaxInv V" and "card (smTxns s) + length (ssQueue st) < cfMaxInv V"
  shows "smBlocks (requestQueuedInv V ch p s) = smBlocks s \<union> ivHash ` {iv \<in> set (ssQueue st). ivType iv = InvBlock} \<and>
    smTxns (requestQueuedInv V ch p s) = smTxns s \<union> ivHash ` {iv \<in> set (ssQueue st). ivType iv = InvTx}"
proof -
  let ?rq = "\<lparr>rqBlocks = smBlocks s, rqTxns = smTxns s, rqPeerBlocks = ssBlocks st, rqPeerTxns = ssTxns st, rqData = []\<rparr>"
  obtain queue rq where r: "request_loop (cfMaxInv V) (chPick ch) (ssQueue st) ?rq = (queue, rq)" by fastforce
  have "room (cfMaxInv V) (length (ssQueue st)) ?rq"
    using assms by (simp add: room_def sm_inv_def requests_ok_def)
  from request_loop_room [OF this r] show ?thesis using assms(2) r by (simp add: requestQueuedInv_def Let_def)
qed

subsection \<open>Correctness\<close>

text \<open>C27: In every run of the sync manager fewer than \<open>MaxInvPerMsg\<close> blocks and transactions
  are marked as requested and no getdata message asks for more; each of them is pending at a
  peer that is still known and was asked for it, so nothing stays marked once the last
  peer has left; the sync peer is a known peer.\<close>

theorem sync_requests_bounded:
  assumes "sm_reachable P V s" and "0 < cfMaxInv V"
  shows "card (smBlocks s) < cfMaxInv V \<and> card (smTxns s) < cfMaxInv V \<and>
    (\<forall>p ivs. MGetData ivs \<in> set (spOut (smPeers s p)) \<longrightarrow> length ivs \<le> cfMaxInv V) \<and>
    (\<forall>h \<in> smBlocks s. \<exists>p st. smStates s p = Some st \<and> h \<in> ssBlocks st \<and> h \<in> asked InvFilteredBlock (spOut (smPeers s p))) \<and>
    (\<forall>h \<in> smTxns s. \<exists>p st. smStates s p = Some st \<and> h \<in> ssTxns st \<and> h \<in> asked InvTx (spOut (smPeers s p))) \<and>
    (smStates s = Map.empty \<longrightarrow> smBlocks s = {} \<and> smTxns s = {} \<and> smSync s = None) \<and>
    (\<forall>p. smSync s = Some p \<longrightarrow> p \<in> dom (smStates s))"
proof -
  from sm_reachable_inv [OF assms] have i: "\<forall>p. smSync s = Some p \<longrightarrow> smStates s p \<noteq> None"
    "requests_ok (cfMaxInv V) InvFilteredBlock (smBlocks s) ssBlocks s" "requests_ok (cfMaxInv V) InvTx (smTxns s) ssTxns s"
    "\<forall>p ivs. MGetData ivs \<in> set (spOut (smPeers s p)) \<longrightarrow> length ivs \<le> cfMaxInv V"
    unfolding sm_inv_def by blast+
  have pend: "\<exists>p st. smStates s p = Some st \<and> h \<in> f st \<and> h \<in> asked k (spOut (smPeers s p))"
    if "requests_ok n k R f s" "h \<in> R" for n k R f h
  proof -
    from that have "h \<in> pending f s" by (auto simp: requests_ok_def)
    then obtain p st where p: "smStates s p = Some st" "h \<in> f st" by (rule pendingE)
    with that(1) have "h \<in> asked k (spOut (smPeers s p))" unfolding requests_ok_def by blast
    with p show ?thesis by blast
  qed
  have none: "R = {}" if "requests_ok n k R f s" "smStates s = Map.empty" for n k R and f :: "'c peer_sync_state \<Rightarrow> uint256 set"
    using that by (simp add: requests_ok_def pending_def)
  show ?thesis
  proof (intro conjI)
    show "smStates s = Map.empty \<longrightarrow> smBlocks s = {} \<and> smTxns s = {} \<and> smSync s = None"
      using none [OF i(2)] none [OF i(3)] i(1) by (cases "smSync s") auto
    show "card (smBlocks s) < cfMaxInv V" using i(2) by (simp add: requests_ok_def)
    show "card (smTxns s) < cfMaxInv V" using i(3) by (simp add: requests_ok_def)
  qed (use i(1,4) pend [OF i(2)] pend [OF i(3)] in blast)+
qed

text \<open>C28: A step of the sync manager changes the chain only by committing the block at the head of
  its queue, and only if that block was requested by a getdata message from the very peer that
  delivered it, which is the sync peer unless the chain is current.\<close>

theorem only_requested_blocks_committed:
  assumes "sm_reachable P V s" and "0 < cfMaxInv V" and "sm_step P V s s'" and "smChain s' \<noteq> smChain s"
  shows "\<exists>b p ms r. smQueue s = BlockMsg b p # ms \<and> p \<in> dom (smStates s) \<and>
    hdr_hash (blkHeader b) \<in> asked InvFilteredBlock (spOut (smPeers s p)) \<and>
    (smSync s = Some p \<or> sm_current P V s) \<and> bc_CommitBlock (cfChain V) b (smChain s) = Some (r, smChain s')"
proof -
  from sm_step_chain [OF assms(3,4)] obtain b p ms st r where b: "smQueue s = BlockMsg b p # ms" "smStates s p = Some st"
    "hdr_hash (blkHeader b) \<in> ssBlocks st" "smSync s = Some p \<or> sm_current P V s"
    "bc_CommitBlock (cfChain V) b (smChain s) = Some (r, smChain s')" by blast
  from sm_reachable_inv [OF assms(1,2)] b(2,3) have "hdr_hash (blkHeader b) \<in> asked InvFilteredBlock (spOut (smPeers s p))"
    unfolding sm_inv_def requests_ok_def by blast
  with b show ?thesis by (intro exI [of _ b] exI [of _ p] exI [of _ ms] exI [of _ r]) auto
qed

text \<open>Nothing announced is overlooked: after an inventory message of the sync peer (or, when
  current, of any known peer) every announced block the chain lacks and every announced
  transaction not in the pool is requested, as long as the request maps have room.\<close>

theorem announced_is_requested:
  assumes "sm_reachable P V s" and "smStates s p = Some st" and "smSync s = Some p \<or> sm_current P V s"
    and "card (smBlocks s) + length (ssQueue st) + length ivs < cfMaxInv V"
    and "card (smTxns s) + length (ssQueue st) + length ivs < cfMaxInv V"
  shows "\<forall>iv \<in> set ivs.
    (ivType iv = InvBlock \<and> \<not> HaveBlock (cfChain V) (ivHash iv) (smChain s) \<longrightarrow>
      ivHash iv \<in> smBlocks (handleInvMsg P V ch ivs p s)) \<and>
    (ivType iv = InvTx \<and> ivHash iv \<notin> smMempool s \<longrightarrow> ivHash iv \<in> smTxns (handleInvMsg P V ch ivs p s))"
proof -
  let ?new = "filter (\<lambda>iv. ivType iv \<in> {InvBlock, InvTx} \<and> \<not> haveInventory V iv s) ivs"
  let ?st = "st\<lparr>ssQueue := ssQueue st @ ?new\<rparr>"
  define s1 where "s1 = at_state p (\<lambda>st. st\<lparr>ssQueue := ssQueue st @ ?new\<rparr>) s"
  have i: "sm_inv V s" using assms(4) by (intro sm_reachable_inv [OF assms(1)]) simp
  have i1: "sm_inv V s1" unfolding s1_def by (rule at_state_keep [OF i]) simp_all
  have "\<exists>s2. handleInvMsg P V ch ivs p s = requestQueuedInv V ch p s2 \<and>
    (s2 = s1 \<or> (\<exists>h. s2 = at_peer p (PushGetBlocksMsg [h] 0) s1))"
    using assms(2,3) by (auto simp: handleInvMsg_def Let_def s1_def split: option.split)
  then obtain s2 where e: "handleInvMsg P V ch ivs p s = requestQueuedInv V ch p s2"
    and c: "s2 = s1 \<or> (\<exists>h. s2 = at_peer p (PushGetBlocksMsg [h] 0) s1)" by blast
  have i2: "sm_inv V s2" using c by (elim disjE exE) (simp_all add: i1 at_peer_inv)
  have f: "smStates s2 p = Some ?st" "smBlocks s2 = smBlocks s" "smTxns s2 = smTxns s"
    using c by (elim disjE exE; simp add: s1_def assms(2))+
  have "length (ssQueue ?st) \<le> length (ssQueue st) + length ivs" by simp
  with assms(4,5) have "card (smBlocks s2) + length (ssQueue ?st) < cfMaxInv V"
    "card (smTxns s2) + length (ssQueue ?st) < cfMaxInv V" unfolding f(2,3) by linarith+
  from requestQueuedInv_room [OF i2 f(1) this] show ?thesis
    unfolding e f(2,3) by (auto simp: haveInventory_def)
qed

text \<open>To start syncing, the manager takes the first candidate in the order of the map that is
  not behind the chain; when that one is exactly at the height of the chain it does not
  sync at all, even though later candidates may be ahead.\<close>

theorem startSync_first_candidate:
  assumes "smSync s = None" and "chOrder ch = ps @ p # qs" and "smStates s p = Some st" and "ssCandidate st"
    and "\<not> peer_height P p s < BestHeight (cfChain V) (smChain s)"
    and "\<forall>q \<in> set ps. q \<noteq> p \<and> (\<forall>st'. smStates s q = Some st' \<and> ssCandidate st' \<longrightarrow>
      peer_height P q s < BestHeight (cfChain V) (smChain s))"
  shows "smSync (startSync P V ch s) =
    (if peer_height P p s = BestHeight (cfChain V) (smChain s) then None else Some p)"
proof -
  have "\<exists>t. first_candidate P best (ps @ p # qs) s = (Some p, t) \<and> smSync t = smSync s \<and> smPeers t = smPeers s"
    if "smStates s p = Some st" "ssCandidate st" "\<not> peer_height P p s < best"
      "\<forall>q \<in> set ps. q \<noteq> p \<and> (\<forall>st'. smStates s q = Some st' \<and> ssCandidate st' \<longrightarrow> peer_height P q s < best)"
    for best s using that
  proof (induction ps arbitrary: s)
    case Nil
    then show ?case by simp
  next
    case (Cons q ps)
    show ?case
    proof (cases "\<exists>st'. smStates s q = Some st' \<and> ssCandidate st'")
      case True
      then obtain st' where q: "smStates s q = Some st'" "ssCandidate st'" by blast
      with Cons.prems(4) have "peer_height P q s < best" by simp
      with q Cons.prems Cons.IH [of "at_state q (\<lambda>st. st\<lparr>ssCandidate := False\<rparr>) s"] show ?thesis by simp
    next
      case False
      with Cons.prems Cons.IH [of s] show ?thesis by (auto split: option.split)
    qed
  qed
  from this [OF assms(3-6)] obtain t where "first_candidate P (BestHeight (cfChain V) (smChain s)) (chOrder ch) s = (Some p, t)"
    "smSync t = smSync s" "smPeers t = smPeers s" using assms(2) by auto
  with assms(1) show ?thesis by (simp add: startSync_def Let_def syncWith_def)
qed

subsection \<open>Witnesses\<close>

text \<open>A run: a peer at height 0 connects, announces the block with hash 2, is asked for it and
  sends it.\<close>

type_synonym sample_conn = "bool \<times> u32 \<times> u64"
type_synonym sample_db = "(((bytes \<times> bytes) list, (uint256 \<times> header) list) hstore, unit) chaindb"

definition sample_cfg :: "sample_db sm_config" where
  "sample_cfg = \<lparr>cfChain = sample_store, cfCandidateFlags = [], cfGetTxFilter = (\<lambda>_. (0, [])), cfAnnounce = True,
     cfMaxInv = 50000\<rparr>"

definition sample_choice :: choice where
  "sample_choice = \<lparr>chOrder = [1], chPick = (\<lambda>S. SOME h. h \<in> S)\<rparr>"

abbreviation sample_iv :: inv_vect where
  "sample_iv \<equiv> \<lparr>ivType = InvBlock, ivHash = 2\<rparr>"

definition served_blk :: block where
  "served_blk = \<lparr>blkHeader = proof_header one_tx_block, blkTransactions = [one_tx]\<rparr>"

definition sync0 :: "sample_db \<Rightarrow> (sample_conn, sample_db, rat) sync_manager" where
  "sync0 c = sm_New (\<lambda>_. conn0) c"

definition sync1 :: "sample_db \<Rightarrow> (sample_conn, sample_db, rat) sync_manager" where
  "sync1 c = (sync0 c)\<lparr>smStarted := 1, smRunning := True, smStates := [1 \<mapsto> new_state True],
     smPeers := (\<lambda>_. conn0)(1 := QueueMessage (MFilterLoad 0 []) conn0)\<rparr>"

definition sync2 :: "sample_db \<Rightarrow> (sample_conn, sample_db, rat) sync_manager" where
  "sync2 c = (sync1 c)\<lparr>smBlocks := {2}, smStates := [1 \<mapsto> (new_state True)\<lparr>ssBlocks := {2}\<rparr>],
     smPeers := (\<lambda>_. conn0)(1 := QueueMessage (MGetData [sample_iv\<lparr>ivType := InvFilteredBlock\<rparr>])
       (QueueMessage (MFilterLoad 0 []) conn0))\<rparr>"

lemma sample_fresh:
  assumes "chain_ok sample_store sample_inv {sample_genesis, sample_child} sample_genesis c"
    and "hGetBest (csHeaders sample_store) c = Inr (genesis_header sample_genesis)"
  shows "\<not> HaveBlock sample_store 2 c"
proof
  let ?m = "look sample_store c"
  from assms have ok: "headers_ok {sample_genesis, sample_child} sample_genesis ?m"
    and best: "\<And>k h. ?m k = Some h \<Longrightarrow> hdrTotalWork h \<le> 0"
    by (auto simp: chain_ok_def genesis_header_def)
  have g: "?m 0 = None" using genesis_parent [OF ok] by (simp add: sample_genesis_def)
  have root: "hdrTotalWork p = 0" if "?m 1 = Some p" for p
    using headers_okD [OF ok that] g by (auto simp: linked_def sample_genesis_def sample_child_def)
  assume "HaveBlock sample_store 2 c"
  then obtain h where h: "?m 2 = Some h" by (auto simp: HaveBlock_def look_def split: sum.splits)
  from headers_okD [OF ok h] have "hdrTotalWork h = 2 ^ 255"
    using root by (auto simp: linked_def sample_genesis_def sample_child_def sample_work)
  with best [OF h] show False by simp
qed

lemma served_commit:
  assumes "hGetBest (csHeaders sample_store) c = Inr (genesis_header sample_genesis)"
  shows "\<exists>r c'. bc_CommitBlock sample_store served_blk c = Some (r, c') \<and> crErr r = None \<and> c' \<noteq> c"
proof -
  let ?h = "(proof_header one_tx_block)\<lparr>hdrHeight := 1, hdrTotalWork := 2 ^ 255\<rparr>"
  have "header_storable codec0 ?h" by (simp add: header_storable_def proof_header_def one_tx_block_def codec0_def)
  then obtain s' where s': "hs_Put codec0 leveldb0 omap0 ?h True (cdH c) = (None, s')" using put_succeeds by blast
  then have "hsTip s' = Some ?h" by (auto simp: hs_Put_def Let_def split: sum.splits prod.splits option.splits)
  moreover have "hsTip (cdH c) \<noteq> Some ?h"
    using assms by (auto simp: chainDB_def chaindb_headers_def store_headers_def hs_GetBest_def genesis_header_def
        proof_header_def)
  ultimately have "c\<lparr>cdH := s', cdT := ()\<rparr> \<noteq> c" by (metis chaindb.select_convs(1) chaindb.surjective chaindb.update_convs(1,2))
  moreover have "csCommitBlock sample_store (served_blk\<lparr>blkHeader := ?h\<rparr>) True c = (Inr 0, c\<lparr>cdH := s', cdT := ()\<rparr>)"
    using s' by (simp add: chainDB_def chaindb_CommitBlock_def store_headers_def served_blk_def no_txs_def)
  ultimately show ?thesis using assms
    by (simp add: bc_CommitBlock_def served_blk_def proof_header_def one_tx_block_def genesis_header_def sample_genesis_def
        checkHeader_def checkProofOfWork_iff sample_work PowLimit_def)
qed

lemma sample_choice_ok: "dom (smStates s) \<subseteq> {1} \<Longrightarrow> choice_ok sample_choice s"
  by (auto simp: choice_ok_def sample_choice_def intro: someI)

lemma sample_height: "peer_height peer0 p (sync1 c) = 0"
  by (simp add: sync1_def peer0_def NewPeer_def QueueMessage_def)

lemma sync1_reachable:
  assumes "hGetBest (csHeaders sample_store) c = Inr (genesis_header sample_genesis)"
  shows "sm_reachable peer0 sample_cfg (sync1 c)"
proof -
  let ?a = "(sync0 c)\<lparr>smStarted := 1, smRunning := True\<rparr>"
  let ?b = "?a\<lparr>smQueue := [NewPeerMsg 1]\<rparr>"
  have "sm_reachable peer0 sample_cfg (sync0 c)"
    unfolding sync0_def by (rule sm_reachable.init) (simp add: NewPeer_def)
  moreover have "sm_Start (sync0 c) = ?a" by (simp add: sm_Start_def sync0_def sm_New_def)
  ultimately have "sm_reachable peer0 sample_cfg ?a" using sm_step.started [of peer0 sample_cfg "sync0 c"]
    by (auto intro: sm_reachable.step)
  moreover have "sm_send (NewPeerMsg 1) ?a = ?b" by (simp add: sm_send_def sync0_def sm_New_def)
  ultimately have "sm_reachable peer0 sample_cfg ?b" using sm_step.sent [of peer0 sample_cfg ?a "NewPeerMsg 1"]
    by (auto intro: sm_reachable.step)
  moreover have "sm_step peer0 sample_cfg ?b (sync1 c)"
  proof (rule sm_step.handled [where ch = sample_choice])
    have "BestHeight sample_store c = 0" using assms by (simp add: BestHeight_def genesis_header_def)
    then show "sm_handle peer0 sample_cfg sample_choice (NewPeerMsg 1) (?b\<lparr>smQueue := []\<rparr>) = Some (sync1 c)"
      by (simp add: sm_handle_def handleNewPeerMsg_def Let_def sync0_def sync1_def sm_New_def isSyncCandidate_def
          sample_cfg_def pushBloomFilter_def at_peer_def startSync_def sample_choice_def new_state_def
          QueueMessage_def NewPeer_def peer0_def)
  qed (simp_all add: sync0_def sm_New_def sample_choice_ok)
  ultimately show ?thesis by (rule sm_reachable.step)
qed

lemma sync2_step:
  assumes "hGetBest (csHeaders sample_store) c = Inr (genesis_header sample_genesis)" and "\<not> HaveBlock sample_store 2 c"
  shows "handleInvMsg peer0 sample_cfg sample_choice [sample_iv] 1 (sync1 c) = sync2 c"
  using assms(2)
  by (simp add: handleInvMsg_def Let_def sync1_def sync2_def sync0_def sm_New_def sm_current_def haveInventory_def
      sample_cfg_def at_state_def requestQueuedInv_def new_state_def request_inv_def limitMap_def at_peer_def)

lemma sync2_reachable:
  assumes "hGetBest (csHeaders sample_store) c = Inr (genesis_header sample_genesis)" and "\<not> HaveBlock sample_store 2 c"
  shows "sm_reachable peer0 sample_cfg (sync2 c)"
proof -
  let ?a = "(sync1 c)\<lparr>smQueue := [InvMsg [sample_iv] 1]\<rparr>"
  have "sm_send (InvMsg [sample_iv] 1) (sync1 c) = ?a" by (simp add: sm_send_def sync1_def sync0_def sm_New_def)
  then have "sm_reachable peer0 sample_cfg ?a"
    using sm_step.sent [of peer0 sample_cfg "sync1 c" "InvMsg [sample_iv] 1"] sync1_reachable [OF assms(1)]
    by (auto intro: sm_reachable.step)
  moreover have "sm_step peer0 sample_cfg ?a (sync2 c)"
  proof (rule sm_step.handled [where ch = sample_choice])
    have "?a\<lparr>smQueue := []\<rparr> = sync1 c" by (simp add: sync1_def sync0_def sm_New_def)
    then show "sm_handle peer0 sample_cfg sample_choice (InvMsg [sample_iv] 1) (?a\<lparr>smQueue := []\<rparr>) = Some (sync2 c)"
      using sync2_step [OF assms] by (simp add: sm_handle_def)
  qed (simp_all add: sync1_def sync0_def sm_New_def sample_choice_ok)
  ultimately show ?thesis by (rule sm_reachable.step)
qed

lemma sync3_step:
  assumes "hGetBest (csHeaders sample_store) c = Inr (genesis_header sample_genesis)" and "\<not> HaveBlock sample_store 2 c"
  shows "sm_reachable peer0 sample_cfg ((sync2 c)\<lparr>smQueue := [BlockMsg served_blk 1]\<rparr>) \<and>
    (\<exists>s'. sm_step peer0 sample_cfg ((sync2 c)\<lparr>smQueue := [BlockMsg served_blk 1]\<rparr>) s' \<and> smChain s' \<noteq> c)"
proof -
  let ?a = "(sync2 c)\<lparr>smQueue := [BlockMsg served_blk 1]\<rparr>"
  have "sm_send (BlockMsg served_blk 1) (sync2 c) = ?a" by (simp add: sm_send_def sync2_def sync1_def sync0_def sm_New_def)
  then have "sm_reachable peer0 sample_cfg ?a"
    using sm_step.sent [of peer0 sample_cfg "sync2 c" "BlockMsg served_blk 1"] sync2_reachable [OF assms]
    by (auto intro: sm_reachable.step)
  moreover obtain r c' where r: "bc_CommitBlock sample_store served_blk c = Some (r, c')" "c' \<noteq> c"
    using served_commit [OF assms(1)] by blast
  obtain s' where s': "handleBlockMsg peer0 sample_cfg sample_choice served_blk 1 (?a\<lparr>smQueue := []\<rparr>) = Some s'" "smChain s' = c'"
    using r(1) by (simp add: handleBlockMsg_def Let_def sync2_def sync1_def sync0_def sm_New_def sm_current_def
        sample_cfg_def served_blk_def proof_header_def one_tx_block_def)
  have "sm_step peer0 sample_cfg ?a s'"
  proof (rule sm_step.handled [where ch = sample_choice])
    show "sm_handle peer0 sample_cfg sample_choice (BlockMsg served_blk 1) (?a\<lparr>smQueue := []\<rparr>) = Some s'"
      using s'(1) by (simp add: sm_handle_def)
  qed (simp_all add: sync2_def sync1_def sync0_def sm_New_def sample_choice_ok)
  with s'(2) r(2) calculation show ?thesis by blast
qed

theorem sync_requests_bounded_witness:
  "\<exists>c. sm_reachable peer0 sample_cfg (sync2 c) \<and> smBlocks (sync2 c) = {2} \<and>
    2 \<in> asked InvFilteredBlock (spOut (smPeers (sync2 c) 1))"
proof -
  obtain c where ok: "chain_ok sample_store sample_inv {sample_genesis, sample_child} sample_genesis c"
    and b: "hGetBest (csHeaders sample_store) c = Inr (genesis_header sample_genesis)"
    by (rule sample_chain)
  note r = sync2_reachable [OF b sample_fresh [OF ok b]]
  have s: "smBlocks (sync2 c) = {2}" "\<And>p. smStates (sync2 c) p \<noteq> None \<Longrightarrow> p = 1"
    by (auto simp: sync2_def split: if_splits)
  have "\<forall>h \<in> smBlocks (sync2 c). \<exists>p st. smStates (sync2 c) p = Some st \<and> h \<in> ssBlocks st \<and>
      h \<in> asked InvFilteredBlock (spOut (smPeers (sync2 c) p))"
    using sync_requests_bounded [OF r] by (simp add: sample_cfg_def)
  with s r show ?thesis by (intro exI [of _ c]) auto
qed

theorem only_requested_blocks_committed_witness:
  "\<exists>(s :: (sample_conn, sample_db, rat) sync_manager) s' b. sm_reachable peer0 sample_cfg s \<and> sm_step peer0 sample_cfg s s' \<and> smChain s' \<noteq> smChain s \<and>
    smQueue s = [BlockMsg b 1] \<and> hdr_hash (blkHeader b) \<in> asked InvFilteredBlock (spOut (smPeers s 1))"
proof -
  obtain c where ok: "chain_ok sample_store sample_inv {sample_genesis, sample_child} sample_genesis c"
    and b: "hGetBest (csHeaders sample_store) c = Inr (genesis_header sample_genesis)"
    by (rule sample_chain)
  let ?s = "(sync2 c)\<lparr>smQueue := [BlockMsg served_blk 1]\<rparr>"
  have c: "smChain ?s = c" by (simp add: sync2_def sync1_def sync0_def sm_New_def)
  with sync3_step [OF b sample_fresh [OF ok b]] obtain s' where r: "sm_reachable peer0 sample_cfg ?s"
    "sm_step peer0 sample_cfg ?s s'" "smChain s' \<noteq> smChain ?s" by auto
  from only_requested_blocks_committed [OF r(1) _ r(2,3)]
  have "hdr_hash (blkHeader served_blk) \<in> asked InvFilteredBlock (spOut (smPeers ?s 1))" by (auto simp: sample_cfg_def)
  with r show ?thesis by (intro exI [of _ ?s] exI [of _ s'] exI [of _ served_blk]) simp
qed

theorem announced_is_requested_witness:
  "\<exists>c. sm_reachable peer0 sample_cfg (sync1 c) \<and>
    2 \<in> smBlocks (handleInvMsg peer0 sample_cfg sample_choice [sample_iv] 1 (sync1 c))"
proof -
  obtain c where ok: "chain_ok sample_store sample_inv {sample_genesis, sample_child} sample_genesis c"
    and b: "hGetBest (csHeaders sample_store) c = Inr (genesis_header sample_genesis)"
    by (rule sample_chain)
  have s: "smStates (sync1 c) 1 = Some (new_state True)" "sm_current peer0 sample_cfg (sync1 c)"
    "smBlocks (sync1 c) = {}" "smTxns (sync1 c) = {}" "smChain (sync1 c) = c"
    by (simp_all add: sync1_def sync0_def sm_New_def sm_current_def)
  have n: "card (smBlocks (sync1 c)) + length (ssQueue (new_state True :: rat peer_sync_state)) + length [sample_iv] < cfMaxInv sample_cfg"
    "card (smTxns (sync1 c)) + length (ssQueue (new_state True :: rat peer_sync_state)) + length [sample_iv] < cfMaxInv sample_cfg"
    by (simp_all add: s new_state_def sample_cfg_def)
  from announced_is_requested [OF sync1_reachable [OF b] s(1) _ n, of sample_choice] s(2,5) sample_fresh [OF ok b]
  have "2 \<in> smBlocks (handleInvMsg peer0 sample_cfg sample_choice [sample_iv] 1 (sync1 c))" by (simp add: sample_cfg_def)
  with sync1_reachable [OF b] show ?thesis by blast
qed

theorem startSync_first_candidate_witness:
  "\<exists>c. smSync (startSync peer0 sample_cfg (sample_choice\<lparr>chOrder := [1, 2]\<rparr>)
      ((sync1 c)\<lparr>smStates := [1 \<mapsto> new_state True, 2 \<mapsto> new_state True],
        smPeers := (\<lambda>_. conn0)(2 := NewPeer (True, 7, 0))\<rparr>)) = None"
proof -
  obtain c where b: "hGetBest (csHeaders sample_store) c = Inr (genesis_header sample_genesis)"
    by (rule sample_chain)
  let ?s = "(sync1 c)\<lparr>smStates := [1 \<mapsto> new_state True, 2 \<mapsto> new_state True],
        smPeers := (\<lambda>_. conn0)(2 := NewPeer (True, 7, 0))\<rparr>"
  have h: "BestHeight (cfChain sample_cfg) (smChain ?s) = 0" "peer_height peer0 1 ?s = 0"
    using b by (simp_all add: sample_cfg_def sync1_def sync0_def sm_New_def BestHeight_def genesis_header_def peer0_def NewPeer_def)
  have "smSync (startSync peer0 sample_cfg (sample_choice\<lparr>chOrder := [1, 2]\<rparr>) ?s) =
    (if peer_height peer0 1 ?s = BestHeight (cfChain sample_cfg) (smChain ?s) then None else Some 1)"
    by (rule startSync_first_candidate [where ps = "[]" and qs = "[2]" and st = "new_state True"])
      (use h in \<open>simp_all add: sync1_def sync0_def sm_New_def new_state_def\<close>)
  with h show ?thesis by (intro exI [of _ c]) simp
qed

end
