(* ===== verification/TxPool.thy ===== *)
theory TxPool
  imports Util "HOL-Library.AList"
begin

text \<open>
  The transactions a user has sent (\<open>txHandler\<close> of \<open>sdk/service.go\<close>): unconfirmed until a peer
  announces or rejects them, remembered until a block contains them, broadcast again every
  15 minutes until they expire after a day. The inputs of the handler are the messages of its
  queue and the ticks of its timer; the broadcasts and the callbacks of the state notifier are
  collected in a log. \<open>unconfirmed\<close> is an association list (Go iterates over the map in an
  unspecified order); the callbacks run in goroutines of their own, so their order in
  the log is one of the possible ones. Times are in nanoseconds.
\<close>

definition txExpireTime :: int where
  "txExpireTime = 24 * 3600 * 10 ^ 9"

record tx_pool =
  tpUnconfirmed :: "(uint256 \<times> (txn \<times> int)) list"
  tpAccepted :: "uint256 set"
  tpRejected :: "uint256 set"

datatype tp_input =
    SendTx int txn
  | TxInv uint256
  | TxReject uint256
  | TxBlock u64 block
  | RetryTick int

datatype tp_event =
    Broadcast txn
  | Accepted txn
  | Rejected txn
  | Confirmed utiltx

definition empty_pool :: tx_pool where
  "empty_pool = \<lparr>tpUnconfirmed = [], tpAccepted = {}, tpRejected = {}\<rparr>"

definition pool_send :: "int \<Rightarrow> txn \<Rightarrow> tx_pool \<Rightarrow> tx_pool \<times> tp_event list" where
  "pool_send now tx p =
     (let txId = txHash tx
      in (p\<lparr>tpUnconfirmed := AList.update txId (tx, now + txExpireTime) (tpUnconfirmed p),
            tpAccepted := tpAccepted p - {txId}, tpRejected := tpRejected p - {txId}\<rparr>, [Broadcast tx]))"

definition pool_inv :: "bool \<Rightarrow> uint256 \<Rightarrow> tx_pool \<Rightarrow> tx_pool \<times> tp_event list" where
  "pool_inv notify txId p =
     (if txId \<in> tpAccepted p then (p, [])
      else (case map_of (tpUnconfirmed p) txId of
              None \<Rightarrow> (p, [])
            | Some (tx, expire) \<Rightarrow>
                (p\<lparr>tpUnconfirmed := AList.delete txId (tpUnconfirmed p), tpAccepted := insert txId (tpAccepted p)\<rparr>,
                 if notify then [Accepted tx] else [])))"

definition pool_reject :: "bool \<Rightarrow> uint256 \<Rightarrow> tx_pool \<Rightarrow> tx_pool \<times> tp_event list" where
  "pool_reject notify txId p =
     (if txId \<in> tpRejected p then (p, [])
      else (case map_of (tpUnconfirmed p) txId of
              None \<Rightarrow> (p, [])
            | Some (tx, expire) \<Rightarrow>
                (p\<lparr>tpRejected := insert txId (tpRejected p), tpUnconfirmed := AList.delete txId (tpUnconfirmed p)\<rparr>,
                 if notify then [Rejected tx] else [])))"

text \<open>The map of the confirmed transactions: the last one of a hash counts.\<close>

fun confirmed_txs :: "tx_pool \<Rightarrow> txn list \<Rightarrow> (uint256 \<times> txn) list \<Rightarrow> (uint256 \<times> txn) list" where
  "confirmed_txs p [] m = m"
| "confirmed_txs p (tx # txs) m =
     (let txId = txHash tx
      in if txId \<in> fst ` set (tpUnconfirmed p) then confirmed_txs p txs (AList.update txId tx m)
         else if txId \<in> tpAccepted p then confirmed_txs p txs (AList.update txId tx m)
         else if txId \<in> tpRejected p then confirmed_txs p txs (AList.update txId tx m)
         else confirmed_txs p txs m)"

definition forget :: "uint256 \<Rightarrow> tx_pool \<Rightarrow> tx_pool" where
  "forget txId p = p\<lparr>tpUnconfirmed := AList.delete txId (tpUnconfirmed p),
     tpAccepted := tpAccepted p - {txId}, tpRejected := tpRejected p - {txId}\<rparr>"

definition pool_block :: "codec \<Rightarrow> bool \<Rightarrow> u64 \<Rightarrow> block \<Rightarrow> tx_pool \<Rightarrow> tx_pool \<times> tp_event list" where
  "pool_block E notify now b p =
     (let confirmed = confirmed_txs p (blkTransactions b) []
      in (fold forget (map fst confirmed) p,
          if notify then map (\<lambda>(txId, tx). Confirmed (NewTx E now tx (hdrHeight (blkHeader b)))) confirmed else []))"

definition pool_retry :: "int \<Rightarrow> tx_pool \<Rightarrow> tx_pool \<times> tp_event list" where
  "pool_retry now p =
     (let kept = filter (\<lambda>(txId, tx, expire). \<not> expire < now) (tpUnconfirmed p)
      in (p\<lparr>tpUnconfirmed := kept\<rparr>, map (\<lambda>(txId, tx, expire). Broadcast tx) kept))"

fun pool_step :: "codec \<Rightarrow> bool \<Rightarrow> tp_input \<Rightarrow> tx_pool \<Rightarrow> tx_pool \<times> tp_event list" where
  "pool_step E notify (SendTx now tx) p = pool_send now tx p"
| "pool_step E notify (TxInv txId) p = pool_inv notify txId p"
| "pool_step E notify (TxReject txId) p = pool_reject notify txId p"
| "pool_step E notify (TxBlock now b) p = pool_block E notify now b p"
| "pool_step E notify (RetryTick now) p = pool_retry now p"

fun pool_run :: "codec \<Rightarrow> bool \<Rightarrow> tp_input list \<Rightarrow> tx_pool \<Rightarrow> tx_pool \<times> tp_event list" where
  "pool_run E notify [] p = (p, [])"
| "pool_run E notify (i # is) p =
     (let (p, ev) = pool_step E notify i p; (p, evs) = pool_run E notify is p in (p, ev @ evs))"

subsection \<open>The life of a transaction\<close>

text \<open>What a user knows of a transaction, and how it changes.\<close>

datatype status = Unknown | Pending txn int | InPool | Refused

definition status :: "tx_pool \<Rightarrow> uint256 \<Rightarrow> status" where
  "status p txId =
     (case map_of (tpUnconfirmed p) txId of
        Some (tx, expire) \<Rightarrow> Pending tx expire
      | None \<Rightarrow> if txId \<in> tpAccepted p then InPool else if txId \<in> tpRejected p then Refused else Unknown)"

definition is_pending :: "status \<Rightarrow> bool" where
  "is_pending s \<longleftrightarrow> (case s of Pending tx e \<Rightarrow> True | _ \<Rightarrow> False)"

fun next_status :: "tp_input \<Rightarrow> uint256 \<Rightarrow> status \<Rightarrow> status" where
  "next_status (SendTx now tx) txId s = (if txHash tx = txId then Pending tx (now + txExpireTime) else s)"
| "next_status (TxInv h) txId s = (if h = txId \<and> is_pending s then InPool else s)"
| "next_status (TxReject h) txId s = (if h = txId \<and> is_pending s then Refused else s)"
| "next_status (TxBlock now b) txId s = (if txId \<in> txHash ` set (blkTransactions b) then Unknown else s)"
| "next_status (RetryTick now) txId s = (case s of Pending tx e \<Rightarrow> if e < now then Unknown else s | _ \<Rightarrow> s)"

definition pool_ok :: "tx_pool \<Rightarrow> bool" where
  "pool_ok p \<longleftrightarrow> distinct (map fst (tpUnconfirmed p)) \<and> fst ` set (tpUnconfirmed p) \<inter> tpAccepted p = {} \<and>
     fst ` set (tpUnconfirmed p) \<inter> tpRejected p = {} \<and> tpAccepted p \<inter> tpRejected p = {}"

lemma empty_pool_ok [simp]: "pool_ok empty_pool"
  by (simp add: pool_ok_def empty_pool_def)

lemma map_of_key: "k \<in> fst ` set xs \<longleftrightarrow> map_of xs k \<noteq> None"
  by (metis map_of_eq_None_iff)

lemma pool_ok_lookup:
  assumes "pool_ok p" and "map_of (tpUnconfirmed p) h = Some x"
  shows "h \<notin> tpAccepted p \<and> h \<notin> tpRejected p"
proof -
  have "h \<in> fst ` set (tpUnconfirmed p)" using assms(2) by (simp add: map_of_key)
  with assms(1) show ?thesis unfolding pool_ok_def by blast
qed

lemma known_status: "pool_ok p \<Longrightarrow>
  status p h \<noteq> Unknown \<longleftrightarrow> h \<in> fst ` set (tpUnconfirmed p) \<or> h \<in> tpAccepted p \<or> h \<in> tpRejected p"
  by (auto simp: status_def map_of_key split: option.splits)

lemma keys_delete [simp]: "fst ` set (AList.delete k xs) = fst ` set xs - {k}"
  using arg_cong [OF delete_keys [of k xs], of set] by (simp add: image_image)

lemma keys_update [simp]: "fst ` set (AList.update k v xs) = insert k (fst ` set xs)"
  using dom_update [of k v xs] by auto

lemma pool_send_ok: "pool_ok p \<Longrightarrow> pool_ok (fst (pool_send now tx p))"
  by (simp add: pool_ok_def pool_send_def Let_def distinct_update) blast

lemma pool_answer_ok:
  assumes "pool_ok p" and "map_of (tpUnconfirmed p) h = Some x"
  shows "pool_ok (p\<lparr>tpUnconfirmed := AList.delete h (tpUnconfirmed p), tpAccepted := insert h (tpAccepted p)\<rparr>)"
    and "pool_ok (p\<lparr>tpRejected := insert h (tpRejected p), tpUnconfirmed := AList.delete h (tpUnconfirmed p)\<rparr>)"
proof -
  from assms(2) have "h \<in> fst ` set (tpUnconfirmed p)" unfolding map_of_key by simp
  with assms(1) show "pool_ok (p\<lparr>tpUnconfirmed := AList.delete h (tpUnconfirmed p), tpAccepted := insert h (tpAccepted p)\<rparr>)"
    and "pool_ok (p\<lparr>tpRejected := insert h (tpRejected p), tpUnconfirmed := AList.delete h (tpUnconfirmed p)\<rparr>)"
    unfolding pool_ok_def by (simp_all add: distinct_delete) blast+
qed

lemma forget_ok: "pool_ok p \<Longrightarrow> pool_ok (forget h p)"
  unfolding pool_ok_def forget_def by (simp add: distinct_delete) blast

lemma fold_forget_ok: "pool_ok p \<Longrightarrow> pool_ok (fold forget hs p)"
  by (induction hs arbitrary: p) (simp_all add: forget_ok)

lemma pool_step_ok: "pool_ok p \<Longrightarrow> pool_ok (fst (pool_step E notify i p))"
proof (cases i)
  case (RetryTick now)
  moreover assume "pool_ok p"
  moreover have "distinct (map fst (filter P xs))" if "distinct (map fst xs)" for P and xs :: "(uint256 \<times> txn \<times> int) list"
    using that by (rule distinct_map_filter)
  moreover have "fst ` set (filter P xs) \<subseteq> fst ` set xs" for P and xs :: "(uint256 \<times> txn \<times> int) list" by auto
  ultimately show ?thesis unfolding pool_ok_def by (simp add: pool_retry_def Let_def) blast
qed (auto simp: pool_send_ok pool_inv_def pool_reject_def pool_block_def Let_def pool_answer_ok fold_forget_ok split: option.split)

subsection \<open>The handler follows the life of a transaction\<close>

lemma status_forget: "status (forget h p) txId = (if txId = h then Unknown else status p txId)"
  by (simp add: status_def forget_def delete_conv' split: option.split)

lemma status_fold_forget: "status (fold forget hs p) txId = (if txId \<in> set hs then Unknown else status p txId)"
  by (induction hs arbitrary: p) (auto simp: status_forget)

lemma confirmed_keys: "pool_ok p \<Longrightarrow>
  fst ` set (confirmed_txs p txs m) = fst ` set m \<union> {h \<in> txHash ` set txs. status p h \<noteq> Unknown}"
proof (induction txs arbitrary: m)
  case (Cons tx txs)
  let ?k = "status p (txHash tx) \<noteq> Unknown"
  have e: "confirmed_txs p (tx # txs) m = confirmed_txs p txs (if ?k then AList.update (txHash tx) tx m else m)"
    using known_status [OF Cons.prems, of "txHash tx"] by (simp add: Let_def)
  show ?case unfolding e Cons.IH [OF Cons.prems] by auto
qed simp

lemma map_of_filter_vals:
  "distinct (map fst xs) \<Longrightarrow> map_of (filter (\<lambda>(k, v). P v) xs) h = (case map_of xs h of Some v \<Rightarrow> if P v then Some v else None | None \<Rightarrow> None)"
proof (induction xs)
  case (Cons x xs)
  then have "map_of xs (fst x) = None" by (simp add: map_of_eq_None_iff)
  with Cons show ?case by (cases x) (auto split: option.splits)
qed simp

lemma retry_lookup:
  "pool_ok p \<Longrightarrow> map_of (tpUnconfirmed (fst (pool_retry now p))) h =
    (case map_of (tpUnconfirmed p) h of Some v \<Rightarrow> if \<not> snd v < now then Some v else None | None \<Rightarrow> None)"
  using map_of_filter_vals [of "tpUnconfirmed p" "\<lambda>v. \<not> snd v < now" h]
  by (simp add: pool_retry_def Let_def pool_ok_def case_prod_unfold)

lemma pool_step_status:
  assumes "pool_ok p"
  shows "status (fst (pool_step E notify i p)) txId = next_status i txId (status p txId)"
proof (cases i)
  case (SendTx now tx)
  then show ?thesis using assms by (simp add: pool_send_def Let_def status_def update_conv')
next
  case (TxInv h)
  show ?thesis
  proof (cases "h \<in> tpAccepted p")
    case True
    with pool_ok_lookup [OF assms, of h] have "map_of (tpUnconfirmed p) h = None" by (cases "map_of (tpUnconfirmed p) h") auto
    with True TxInv show ?thesis by (auto simp: pool_inv_def status_def is_pending_def split: option.splits)
  next
    case False
    with TxInv show ?thesis
      by (cases "h = txId") (auto simp: pool_inv_def status_def is_pending_def delete_conv' split: option.splits)
  qed
next
  case (TxReject h)
  show ?thesis
  proof (cases "h \<in> tpRejected p")
    case True
    with pool_ok_lookup [OF assms, of h] have "map_of (tpUnconfirmed p) h = None" by (cases "map_of (tpUnconfirmed p) h") auto
    with True TxReject show ?thesis by (auto simp: pool_reject_def status_def is_pending_def split: option.splits)
  next
    case False
    have "h \<notin> tpAccepted p" if "map_of (tpUnconfirmed p) h \<noteq> None"
      using pool_ok_lookup [OF assms, of h] that by auto
    with False TxReject show ?thesis
      by (cases "h = txId") (auto simp: pool_reject_def status_def is_pending_def delete_conv' split: option.splits)
  qed
next
  case (TxBlock now b)
  then show ?thesis
    using confirmed_keys [OF assms, of "blkTransactions b" "[]"] by (simp add: pool_block_def Let_def status_fold_forget)
next
  case (RetryTick now)
  have "tpAccepted (fst (pool_retry now p)) = tpAccepted p" "tpRejected (fst (pool_retry now p)) = tpRejected p"
    by (simp_all add: pool_retry_def Let_def)
  moreover have "txId \<notin> tpAccepted p \<and> txId \<notin> tpRejected p" if "map_of (tpUnconfirmed p) txId \<noteq> None"
    using pool_ok_lookup [OF assms, of txId] that by auto
  ultimately show ?thesis using RetryTick retry_lookup [OF assms, of now txId]
    by (auto simp: status_def split: option.splits if_splits)
qed

lemma status_empty [simp]: "status empty_pool txId = Unknown"
  by (simp add: status_def empty_pool_def)

lemma pool_run_ok:
  "pool_ok p \<Longrightarrow> pool_ok (fst (pool_run E notify is p)) \<and>
   status (fst (pool_run E notify is p)) txId = fold (\<lambda>i. next_status i txId) is (status p txId)"
proof (induction "is" arbitrary: p)
  case (Cons i "is")
  from Cons.IH [OF pool_step_ok [OF Cons.prems]] pool_step_status [OF Cons.prems] show ?case
    by (simp add: Let_def case_prod_beta)
qed simp

subsection \<open>Correctness\<close>

text \<open>C32: At any moment a sent transaction is in at most one of the handler's three maps, and what
  the handler knows of it is what its own history says: pending from when it is sent, accepted
  or rejected by the first answer, unknown again once a block contains it or it has
  expired. Nothing that happens to other transactions matters.\<close>

theorem sent_transaction_status:
  "fst ` set (tpUnconfirmed (fst (pool_run E notify is empty_pool))) \<inter> tpAccepted (fst (pool_run E notify is empty_pool)) = {} \<and>
   fst ` set (tpUnconfirmed (fst (pool_run E notify is empty_pool))) \<inter> tpRejected (fst (pool_run E notify is empty_pool)) = {} \<and>
   tpAccepted (fst (pool_run E notify is empty_pool)) \<inter> tpRejected (fst (pool_run E notify is empty_pool)) = {} \<and>
   status (fst (pool_run E notify is empty_pool)) txId = fold (\<lambda>i. next_status i txId) is Unknown"
  using pool_run_ok [OF empty_pool_ok, of E notify "is"]
  by (simp add: pool_ok_def)

text \<open>How often the notifier is told that a transaction was accepted or rejected.\<close>

definition answers_of :: "uint256 \<Rightarrow> tp_event list \<Rightarrow> nat" where
  "answers_of txId evs = length (filter (\<lambda>e. case e of Accepted t \<Rightarrow> txHash t = txId | Rejected t \<Rightarrow> txHash t = txId | _ \<Rightarrow> False) evs)"

definition sends_of :: "uint256 \<Rightarrow> tp_input list \<Rightarrow> nat" where
  "sends_of txId is = length (filter (\<lambda>i. case i of SendTx now t \<Rightarrow> txHash t = txId | _ \<Rightarrow> False) is)"

definition hashes_ok :: "tx_pool \<Rightarrow> bool" where
  "hashes_ok p \<longleftrightarrow> (\<forall>h tx e. map_of (tpUnconfirmed p) h = Some (tx, e) \<longrightarrow> txHash tx = h)"

lemma answers_append [simp]: "answers_of h (xs @ ys) = answers_of h xs + answers_of h ys"
  by (simp add: answers_of_def)

lemma answers_other [simp]:
  "answers_of h [] = 0"
  "answers_of h (map (\<lambda>(k, tx, e). Broadcast tx) xs) = 0"
  "answers_of h (map (\<lambda>(k, tx). Confirmed (f tx)) ys) = 0"
  by (simp_all add: answers_of_def filter_map comp_def case_prod_beta)

lemma hashes_step:
  assumes "hashes_ok p" and "pool_ok p"
  shows "hashes_ok (fst (pool_step E notify i p))"
proof -
  have "hashes_ok (forget k p)" if "hashes_ok p" for k p
    using that by (auto simp: hashes_ok_def forget_def delete_conv' split: if_splits)
  then have f: "hashes_ok (fold forget hs p)" if "hashes_ok p" for hs p
    using that by (induction hs arbitrary: p) simp_all
  show ?thesis
  proof (cases i)
    case (RetryTick now)
    have "txHash tx = h" if "map_of (tpUnconfirmed (fst (pool_retry now p))) h = Some (tx, e)" for h tx e
      using assms(1) that unfolding retry_lookup [OF assms(2)] hashes_ok_def by (auto split: option.splits if_splits)
    with RetryTick show ?thesis by (simp add: hashes_ok_def)
  next
    case (TxBlock now b)
    with f [OF assms(1)] show ?thesis by (simp add: pool_block_def Let_def)
  next
    case (SendTx now tx)
    with assms(1) show ?thesis by (simp add: hashes_ok_def pool_send_def Let_def update_conv')
  next
    case (TxInv k)
    have "tpUnconfirmed (fst (pool_inv notify k p)) \<in> {tpUnconfirmed p, AList.delete k (tpUnconfirmed p)}"
      by (auto simp: pool_inv_def split: option.split)
    with TxInv assms(1) show ?thesis by (auto simp: hashes_ok_def delete_conv' split: if_splits)
  next
    case (TxReject k)
    have "tpUnconfirmed (fst (pool_reject notify k p)) \<in> {tpUnconfirmed p, AList.delete k (tpUnconfirmed p)}"
      by (auto simp: pool_reject_def split: option.split)
    with TxReject assms(1) show ?thesis by (auto simp: hashes_ok_def delete_conv' split: if_splits)
  qed
qed

definition pend :: "tx_pool \<Rightarrow> uint256 \<Rightarrow> nat" where
  "pend p h = (if is_pending (status p h) then 1 else 0)"

lemma pool_step_answers:
  assumes "pool_ok p" and "hashes_ok p"
  shows "answers_of h (snd (pool_step E notify i p)) + pend (fst (pool_step E notify i p)) h \<le> pend p h + sends_of h [i]"
proof -
  note st = pool_step_status [OF assms(1), of E notify i h]
  show ?thesis
  proof (cases i)
    case (SendTx now tx)
    then show ?thesis using st by (auto simp: pend_def sends_of_def answers_of_def pool_send_def Let_def)
  next
    case (TxInv k)
    then show ?thesis using assms(2) st
      by (auto simp: pend_def pool_inv_def answers_of_def hashes_ok_def status_def is_pending_def sends_of_def
          split: option.splits if_splits)
  next
    case (TxReject k)
    then show ?thesis using assms(2) st
      by (auto simp: pend_def pool_reject_def answers_of_def hashes_ok_def status_def is_pending_def sends_of_def
          split: option.splits if_splits)
  next
    case (TxBlock now b)
    have "answers_of h (snd (pool_block E notify now b p)) = 0" by (simp add: pool_block_def Let_def)
    with TxBlock st show ?thesis by (auto simp: pend_def is_pending_def)
  next
    case (RetryTick now)
    have "answers_of h (snd (pool_retry now p)) = 0" by (simp add: pool_retry_def Let_def)
    with RetryTick st show ?thesis by (auto simp: pend_def is_pending_def split: status.splits if_splits)
  qed
qed

lemma sends_Cons: "sends_of h (i # is) = sends_of h [i] + sends_of h is"
  by (simp add: sends_of_def)

lemma pool_run_answers:
  "pool_ok p \<Longrightarrow> hashes_ok p \<Longrightarrow> answers_of h (snd (pool_run E notify is p)) \<le> pend p h + sends_of h is"
proof (induction "is" arbitrary: p)
  case (Cons i "is")
  from Cons.IH [OF pool_step_ok [OF Cons.prems(1)] hashes_step [OF Cons.prems(2,1)], of E notify i]
    pool_step_answers [OF Cons.prems, of h E notify i] show ?case
    unfolding sends_Cons [of h i "is"] by (simp add: Let_def case_prod_beta)
qed (simp add: answers_of_def)

text \<open>The notifier is told at most once per sending that a transaction was accepted or rejected,
  never both, however many peers announce or reject it.\<close>

theorem sent_transaction_answered_once:
  "answers_of txId (snd (pool_run E notify is empty_pool)) \<le> sends_of txId is"
  using pool_run_answers [OF empty_pool_ok, of txId E notify "is"]
  by (simp add: hashes_ok_def empty_pool_def pend_def status_def is_pending_def)

end
