(* ===== verification/Service.thy ===== *)
theory Service
  imports SyncInvariant TxPool
begin

text \<open>
  The service that connects the components (\<open>sdk/service.go\<close>): messages of the peers are routed
  to their block handlers, to the sync manager and to the handler of sent transactions, and a
  block the sync manager has processed is passed on to the latter and to the state notifier.

  The composition is a step relation on the product of the components' states and of the channels
  between them: one rule per goroutine and input. Goroutines are: the reader of each peer
  (\<open>received\<close>), its block handler (\<open>taken\<close>, \<open>called\<close>, \<open>delivered\<close>, \<open>woken\<close>), the handler of the
  sync manager (\<open>handled\<close>, \<open>replied\<close>), those of the service for peers and sent transactions, the
  callers. The queues of the sync manager, of the transactions and of the peers are not bounded in
  the model: a sender that has to wait takes its step later. The channels \<open>blockProcessed\<close> and
  \<open>txProcessed\<close> and the block queue of a peer have room for one element, and waiting for them is
  modelled. \<open>cfAnnounce\<close> says whether there is a state notifier.
\<close>

text \<open>Who waits for the answer of \<open>IsCurrent\<close>: the reader of a peer, a caller of \<open>SendTransaction\<close>.\<close>

datatype ask = AskInv nat "inv_vect list" | AskSend txn

text \<open>What a block handler waits for in \<open>onBlock\<close> and \<open>onTx\<close>: to put the reply into the channel itself,
  when the sync manager is shutting down, or to take one out of it.\<close>

datatype wait = Delivering callback | Waiting callback

datatype 'p peer_msg = PeerNew nat 'p | PeerDone nat

record ('p, 'c, 'r) service =
  sdSync :: "('p, 'c, 'r) sync_manager"
  sdPeerQueue :: "'p peer_msg list"
  sdNodes :: "nat \<Rightarrow> nat option"
  sdPeers :: "nat set"
  sdBlockQueues :: "nat \<Rightarrow> message list"
  sdDownloads :: "nat \<Rightarrow> download"
  sdTodo :: "nat \<Rightarrow> callback list"
  sdBusy :: "nat \<Rightarrow> wait option"
  sdEnded :: "nat set"
  sdChans :: nat
  sdAsks :: "nat \<Rightarrow> ask option"
  sdAnswers :: "nat \<Rightarrow> bool option"
  sdReply :: "sm_reply option"
  sdBlockDone :: bool
  sdTxDone :: bool
  sdTxQueue :: "tp_input list"
  sdPool :: tx_pool
  sdEvents :: "tp_event list"
  sdCommitted :: "block list"
  sdBroadcast :: "message list"
  sdRunning :: bool
  sdQuit :: bool
  sdPeersDone :: bool
  sdPoolDone :: bool

definition fresh_service :: "('p, 'c, 'r) sync_manager \<Rightarrow> ('p, 'c, 'r) service" where
  "fresh_service sm =
     \<lparr>sdSync = sm, sdPeerQueue = [], sdNodes = Map.empty, sdPeers = {}, sdBlockQueues = \<lambda>_. [],
      sdDownloads = \<lambda>_. no_download, sdTodo = \<lambda>_. [], sdBusy = Map.empty, sdEnded = {}, sdChans = 0,
      sdAsks = Map.empty, sdAnswers = Map.empty, sdReply = None, sdBlockDone = False, sdTxDone = False,
      sdTxQueue = [], sdPool = empty_pool, sdEvents = [], sdCommitted = [], sdBroadcast = [], sdRunning = False,
      sdQuit = False, sdPeersDone = False, sdPoolDone = False\<rparr>"

definition newService ::
  "'c sm_config \<Rightarrow> bheader \<Rightarrow> (nat \<Rightarrow> 'p speer) \<Rightarrow> 'c \<Rightarrow> goerror + ('p, 'c, 'r) service" where
  "newService V genesisHeader peers c =
     (case bc_New (cfChain V) genesisHeader c of
        (Some e, c) \<Rightarrow> Inl e
      | (None, c) \<Rightarrow> Inr (fresh_service (sm_New peers c)))"

text \<open>The commands of the messages \<open>createMessage\<close> accepts.\<close>

datatype cmd = CmdInv | CmdGetData | CmdNotFound | CmdTx | CmdMerkleBlock | CmdReject | CmdOther string

fun createMessage :: "cmd \<Rightarrow> goerror + cmd" where
  "createMessage (CmdOther c) = Inl (Failure (''Received unsupported message, CMD '' @ c))"
| "createMessage c = Inr c"

definition to_sync :: "sm_msg \<Rightarrow> ('p, 'c, 'r) service \<Rightarrow> ('p, 'c, 'r) service" where
  "to_sync m s = s\<lparr>sdSync := sm_send m (sdSync s)\<rparr>"

subsection \<open>Peers\<close>

text \<open>\<open>newPeer\<close> and \<open>donePeer\<close>: the request is queued and its sender waits for the reply.\<close>

definition sd_newPeer :: "nat \<Rightarrow> 'p \<Rightarrow> ('p, 'c, 'r) service \<Rightarrow> ('p, 'c, 'r) service" where
  "sd_newPeer orig q s = s\<lparr>sdPeerQueue := sdPeerQueue s @ [PeerNew orig q]\<rparr>"

definition sd_donePeer :: "nat \<Rightarrow> ('p, 'c, 'r) service \<Rightarrow> ('p, 'c, 'r) service" where
  "sd_donePeer orig s = s\<lparr>sdPeerQueue := sdPeerQueue s @ [PeerDone orig]\<rparr>"

text \<open>\<open>p\<close> is the pointer to the wrapper that is made for a new peer.\<close>

definition handlePeerMsg :: "nat \<Rightarrow> 'p peer_msg \<Rightarrow> ('p, 'c, 'r) service \<Rightarrow> ('p, 'c, 'r) service" where
  "handlePeerMsg p m s =
     (case m of
        PeerNew orig q \<Rightarrow>
          s\<lparr>sdSync := (sdSync s)\<lparr>smPeers := (smPeers (sdSync s))(p := NewPeer q)\<rparr>, sdPeers := insert p (sdPeers s),
            sdNodes := (sdNodes s)(orig \<mapsto> p)\<rparr>
      | PeerDone orig \<Rightarrow> s\<lparr>sdNodes := (sdNodes s)(orig := None)\<rparr>)"

definition handleDisconnect :: "nat \<Rightarrow> ('p, 'c, 'r) service \<Rightarrow> ('p, 'c, 'r) service" where
  "handleDisconnect p s = to_sync (DonePeerMsg p) s"

definition onVersion :: "nat \<Rightarrow> ('p, 'c, 'r) service \<Rightarrow> ('p, 'c, 'r) service" where
  "onVersion p s = to_sync (NewPeerMsg p) s"

subsection \<open>IsCurrent and what depends on it\<close>

definition sd_IsCurrent :: "ask \<Rightarrow> ('p, 'c, 'r) service \<Rightarrow> ('p, 'c, 'r) service" where
  "sd_IsCurrent a s =
     s\<lparr>sdChans := Suc (sdChans s), sdAsks := (sdAsks s)(sdChans s \<mapsto> a), sdSync := sm_IsCurrent (sdChans s) (sdSync s)\<rparr>"

definition onInv :: "nat \<Rightarrow> inv_vect list \<Rightarrow> ('p, 'c, 'r) service \<Rightarrow> ('p, 'c, 'r) service" where
  "onInv p ivs s = sd_IsCurrent (AskInv p ivs) s"

definition inv_answered :: "bool \<Rightarrow> nat \<Rightarrow> inv_vect list \<Rightarrow> ('p, 'c, 'r) service \<Rightarrow> ('p, 'c, 'r) service" where
  "inv_answered current p ivs s =
     (let s = (if current
               then s\<lparr>sdTxQueue := sdTxQueue s @ map (TxInv \<circ> ivHash) (filter (\<lambda>iv. ivType iv = InvTx) ivs)\<rparr> else s)
      in to_sync (InvMsg ivs p) s)"

definition SendTransaction :: "txn \<Rightarrow> ('p, 'c, 'r) service \<Rightarrow> ('p, 'c, 'r) service" where
  "SendTransaction tx s = sd_IsCurrent (AskSend tx) s"

text \<open>\<open>now\<close> is the time at which the handler of the transactions will take the message.\<close>

definition send_answered :: "bool \<Rightarrow> int \<Rightarrow> txn \<Rightarrow> ('p, 'c, 'r) service \<Rightarrow> goerror option \<times> ('p, 'c, 'r) service" where
  "send_answered current now tx s =
     (if \<not> current then (Some (Failure ''spv service did not sync to current''), s)
      else (None, s\<lparr>sdTxQueue := sdTxQueue s @ [SendTx now tx]\<rparr>))"

definition resume :: "bool \<Rightarrow> int \<Rightarrow> ask \<Rightarrow> ('p, 'c, 'r) service \<Rightarrow> ('p, 'c, 'r) service" where
  "resume current now a s =
     (case a of AskInv p ivs \<Rightarrow> inv_answered current p ivs s | AskSend tx \<Rightarrow> snd (send_answered current now tx s))"

subsection \<open>Blocks and transactions of a peer\<close>

text \<open>\<open>QueueBlock\<close> and \<open>QueueTx\<close>, and the wait for the reply.\<close>

definition deliver :: "nat \<Rightarrow> callback \<Rightarrow> sm_msg \<Rightarrow> ('p, 'c, 'r) service \<Rightarrow> ('p, 'c, 'r) service" where
  "deliver p cb m s =
     (if smShutdown (sdSync s) \<noteq> 0 then s\<lparr>sdBusy := (sdBusy s)(p \<mapsto> Delivering cb)\<rparr>
      else to_sync m (s\<lparr>sdBusy := (sdBusy s)(p \<mapsto> Waiting cb)\<rparr>))"

definition onBlock :: "nat \<Rightarrow> block \<Rightarrow> ('p, 'c, 'r) service \<Rightarrow> ('p, 'c, 'r) service" where
  "onBlock p b s = deliver p (OnBlock b) (BlockMsg b p) s"

definition onTx :: "nat \<Rightarrow> txn \<Rightarrow> ('p, 'c, 'r) service \<Rightarrow> ('p, 'c, 'r) service" where
  "onTx p tx s = deliver p (OnTx tx) (TxMsg tx p) s"

text \<open>What \<open>onBlock\<close> does when it has got a reply.\<close>

definition block_processed :: "'c sm_config \<Rightarrow> u64 \<Rightarrow> block \<Rightarrow> ('p, 'c, 'r) service \<Rightarrow> ('p, 'c, 'r) service" where
  "block_processed V now b s =
     (let s = s\<lparr>sdTxQueue := sdTxQueue s @ [TxBlock now b]\<rparr>
      in if cfAnnounce V then s\<lparr>sdCommitted := sdCommitted s @ [b]\<rparr> else s)"

definition run_callback :: "nat \<Rightarrow> callback \<Rightarrow> ('p, 'c, 'r) service \<Rightarrow> ('p, 'c, 'r) service" where
  "run_callback p cb s = (case cb of OnBlock b \<Rightarrow> onBlock p b s | OnTx tx \<Rightarrow> onTx p tx s)"

definition callback_done :: "'c sm_config \<Rightarrow> u64 \<Rightarrow> callback \<Rightarrow> ('p, 'c, 'r) service \<Rightarrow> ('p, 'c, 'r) service" where
  "callback_done V now cb s = (case cb of OnBlock b \<Rightarrow> block_processed V now b s | OnTx tx \<Rightarrow> s)"

text \<open>The channels of the replies, each with room for one.\<close>

definition reply_of :: "callback \<Rightarrow> sm_reply" where
  "reply_of cb = (case cb of OnBlock b \<Rightarrow> BlockDone | OnTx tx \<Rightarrow> TxDone)"

definition reply_full :: "sm_reply \<Rightarrow> ('p, 'c, 'r) service \<Rightarrow> bool" where
  "reply_full r s = (case r of BlockDone \<Rightarrow> sdBlockDone s | TxDone \<Rightarrow> sdTxDone s | _ \<Rightarrow> False)"

definition set_reply :: "sm_reply \<Rightarrow> bool \<Rightarrow> ('p, 'c, 'r) service \<Rightarrow> ('p, 'c, 'r) service" where
  "set_reply r full s =
     (case r of BlockDone \<Rightarrow> s\<lparr>sdBlockDone := full\<rparr> | TxDone \<Rightarrow> s\<lparr>sdTxDone := full\<rparr> | _ \<Rightarrow> s)"

definition onNotFound :: "'p peer_if \<Rightarrow> nat \<Rightarrow> inv_vect list \<Rightarrow> ('p, 'c, 'r) service \<Rightarrow> ('p, 'c, 'r) service" where
  "onNotFound P p ivs s =
     fold (\<lambda>iv s. if ivType iv = InvTx then s else s\<lparr>sdSync := at_peer p (Disconnect P) (sdSync s)\<rparr>) ivs s"

definition onReject :: "bool \<Rightarrow> uint256 \<Rightarrow> ('p, 'c, 'r) service \<Rightarrow> ('p, 'c, 'r) service" where
  "onReject is_tx h s = (if is_tx then s\<lparr>sdTxQueue := sdTxQueue s @ [TxReject h]\<rparr> else s)"

definition UpdateFilter :: "'c sm_config \<Rightarrow> ('p, 'c, 'r) service \<Rightarrow> ('p, 'c, 'r) service" where
  "UpdateFilter V s = s\<lparr>sdBroadcast := sdBroadcast s @ [case_prod MFilterLoad (cfGetTxFilter V (smChain (sdSync s)))]\<rparr>"

subsection \<open>Start and stop\<close>

definition sd_Start :: "('p, 'c, 'r) service \<Rightarrow> ('p, 'c, 'r) service" where
  "sd_Start s = s\<lparr>sdRunning := True, sdSync := sm_Start (sdSync s)\<rparr>"

text \<open>The errors of stopping the server and the manager are logged only. The channel \<open>quit\<close> cannot be
  closed twice. Closing the chain store, which closes its databases, is left out: it changes nothing that is stored, and the
  accesses that goleveldb refuses afterwards are errors of the parameter \<open>leveldb\<close>.\<close>

definition sd_Stop :: "('p, 'c, 'r) service \<Rightarrow> goerror + ('p, 'c, 'r) service" where
  "sd_Stop s =
     (let s' = s\<lparr>sdSync := sm_Stop (sdSync s)\<rparr>
      in if sdQuit s then Inl (Panic ''close of closed channel'') else Inr (s'\<lparr>sdQuit := True\<rparr>))"

subsection \<open>The goroutines\<close>

text \<open>A message from peer \<open>p\<close>, routed by its \<open>handleMessage\<close>; no result while it has to wait for room in
  the block queue.\<close>

definition receive ::
  "'p peer_if \<Rightarrow> nat \<Rightarrow> message \<Rightarrow> ('p, 'c, 'r) service \<Rightarrow> ('p, 'c, 'r) service option" where
  "receive P p m s =
     (case handleMessage P m (smPeers (sdSync s) p) of
        None \<Rightarrow> Some s
      | Some OnVersion \<Rightarrow> Some (onVersion p s)
      | Some (OnInv ivs) \<Rightarrow> Some (onInv p ivs s)
      | Some (OnNotFound ivs) \<Rightarrow> Some (onNotFound P p ivs s)
      | Some (OnReject is_tx h) \<Rightarrow> Some (onReject is_tx h s)
      | Some (ToBlockQueue m) \<Rightarrow>
          if sdBlockQueues s p = [] then Some (s\<lparr>sdBlockQueues := (sdBlockQueues s)(p := [m])\<rparr>) else None)"

text \<open>The block handler of \<open>p\<close> takes a message; the callbacks are made one after another.\<close>

definition take_block ::
  "'p peer_if \<Rightarrow> codec \<Rightarrow> nat \<Rightarrow> ('p, 'c, 'r) service \<Rightarrow> ('p, 'c, 'r) service option" where
  "take_block P E p s =
     (case sdBlockQueues s p of
        [] \<Rightarrow> None
      | m # ms \<Rightarrow>
          (case block_message P E m (smPeers (sdSync s) p) (sdDownloads s p) of
             None \<Rightarrow> None
           | Some (q, d, cbs) \<Rightarrow>
               Some (s\<lparr>sdSync := at_peer p (\<lambda>_. q) (sdSync s), sdDownloads := (sdDownloads s)(p := d),
                       sdBlockQueues := (sdBlockQueues s)(p := ms), sdTodo := (sdTodo s)(p := cbs)\<rparr>)))"

text \<open>One input of the handler of sent transactions.\<close>

definition pool_handle :: "'c sm_config \<Rightarrow> codec \<Rightarrow> tp_input \<Rightarrow> ('p, 'c, 'r) service \<Rightarrow> ('p, 'c, 'r) service" where
  "pool_handle V E i s =
     (let (p, ev) = pool_step E (cfAnnounce V) i (sdPool s) in s\<lparr>sdPool := p, sdEvents := sdEvents s @ ev\<rparr>)"

text \<open>The block is shared between the manager and the handler that delivered it: \<open>CommitBlock\<close> sets the
  height and the total work in its header.\<close>

definition block_after :: "'p peer_if \<Rightarrow> 'c sm_config \<Rightarrow> block \<Rightarrow> nat \<Rightarrow> ('p, 'c, 'r) sync_manager \<Rightarrow> block" where
  "block_after P V b p s =
     (if Some p \<noteq> smSync s \<and> \<not> sm_current P V s then b
      else (case smStates s p of
              None \<Rightarrow> b
            | Some st \<Rightarrow>
                if hdr_hash (blkHeader b) \<notin> ssBlocks st then b
                else (case bc_CommitBlock (cfChain V) b (smChain s) of
                        None \<Rightarrow> b
                      | Some (r, c) \<Rightarrow> b\<lparr>blkHeader := crHeader r\<rparr>)))"

definition share_block ::
  "'p peer_if \<Rightarrow> 'c sm_config \<Rightarrow> sm_msg \<Rightarrow> ('p, 'c, 'r) sync_manager \<Rightarrow> ('p, 'c, 'r) service \<Rightarrow> ('p, 'c, 'r) service" where
  "share_block P V m before s =
     (case m of
        BlockMsg b p \<Rightarrow>
          if sdBusy s p = Some (Waiting (OnBlock b))
          then s\<lparr>sdBusy := (sdBusy s)(p \<mapsto> Waiting (OnBlock (block_after P V b p before)))\<rparr> else s
      | _ \<Rightarrow> s)"

text \<open>The reply to a message: a caller's own channel has its receiver waiting, for the others see above.\<close>

definition answer ::
  "'p peer_if \<Rightarrow> 'c sm_config \<Rightarrow> sm_msg \<Rightarrow> ('p, 'c, 'r) service \<Rightarrow> ('p, 'c, 'r) service" where
  "answer P V m s =
     (case sm_answer P V m (sdSync s) of
        None \<Rightarrow> s
      | Some (IsCurrent c b) \<Rightarrow> s\<lparr>sdAnswers := (sdAnswers s)(c \<mapsto> b)\<rparr>
      | Some (PeerID c i) \<Rightarrow> s
      | Some r \<Rightarrow> s\<lparr>sdReply := Some r\<rparr>)"

definition inv_waits :: "nat \<Rightarrow> ('p, 'c, 'r) service \<Rightarrow> bool" where
  "inv_waits p s \<longleftrightarrow> (\<exists>c ivs. sdAsks s c = Some (AskInv p ivs))"

inductive sd_step ::
  "'p peer_if \<Rightarrow> 'c sm_config \<Rightarrow> codec \<Rightarrow> ('p, 'c, 'r::linordered_field) service \<Rightarrow> ('p, 'c, 'r) service \<Rightarrow> bool"
  for P V E where
  received: "p \<in> sdPeers s \<Longrightarrow> \<not> inv_waits p s \<Longrightarrow> receive P p m s = Some s' \<Longrightarrow> sd_step P V E s s'"
| taken: "p \<notin> sdEnded s \<Longrightarrow> sdBusy s p = None \<Longrightarrow> sdTodo s p = [] \<Longrightarrow> take_block P E p s = Some s' \<Longrightarrow> sd_step P V E s s'"
| called: "sdBusy s p = None \<Longrightarrow> sdTodo s p = cb # cbs \<Longrightarrow>
    sd_step P V E s (run_callback p cb (s\<lparr>sdTodo := (sdTodo s)(p := cbs)\<rparr>))"
| delivered: "sdBusy s p = Some (Delivering cb) \<Longrightarrow> \<not> reply_full (reply_of cb) s \<Longrightarrow>
    sd_step P V E s (set_reply (reply_of cb) True (s\<lparr>sdBusy := (sdBusy s)(p \<mapsto> Waiting cb)\<rparr>))"
| woken: "sdBusy s p = Some (Waiting cb) \<Longrightarrow> reply_full (reply_of cb) s \<Longrightarrow>
    sd_step P V E s (callback_done V now cb (set_reply (reply_of cb) False (s\<lparr>sdBusy := (sdBusy s)(p := None)\<rparr>)))"
| handled: "smRunning (sdSync s) \<Longrightarrow> sdReply s = None \<Longrightarrow> smQueue (sdSync s) = m # ms \<Longrightarrow> choice_ok ch (sdSync s) \<Longrightarrow>
    (\<And>p. m = NewPeerMsg p \<Longrightarrow> smStates (sdSync s) p = None) \<Longrightarrow>
    sm_handle P V ch m ((sdSync s)\<lparr>smQueue := ms\<rparr>) = Some t \<Longrightarrow>
    sd_step P V E s (answer P V m (share_block P V m (sdSync s) (s\<lparr>sdSync := t\<rparr>)))"
| replied: "sdReply s = Some r \<Longrightarrow> \<not> reply_full r s \<Longrightarrow> sd_step P V E s (set_reply r True (s\<lparr>sdReply := None\<rparr>))"
| answered: "sdAsks s c = Some a \<Longrightarrow> sdAnswers s c = Some current \<Longrightarrow>
    sd_step P V E s (resume current time a (s\<lparr>sdAsks := (sdAsks s)(c := None), sdAnswers := (sdAnswers s)(c := None)\<rparr>))"
| pool: "sdRunning s \<Longrightarrow> \<not> sdPoolDone s \<Longrightarrow> sdTxQueue s = i # is \<Longrightarrow> sd_step P V E s (pool_handle V E i (s\<lparr>sdTxQueue := is\<rparr>))"
| tick: "sdRunning s \<Longrightarrow> \<not> sdPoolDone s \<Longrightarrow> sd_step P V E s (pool_handle V E (RetryTick time) s)"
| sending: "sd_step P V E s (SendTransaction tx s)"
| connected: "sd_step P V E s (sd_newPeer orig q s)"
| gone: "sd_step P V E s (sd_donePeer orig s)"
| peers: "sdRunning s \<Longrightarrow> \<not> sdPeersDone s \<Longrightarrow> sdPeerQueue s = m # ms \<Longrightarrow> p \<notin> sdPeers s \<Longrightarrow> smStates (sdSync s) p = None \<Longrightarrow>
    sd_step P V E s (handlePeerMsg p m (s\<lparr>sdPeerQueue := ms\<rparr>))"
| disconnected: "\<not> pConnected P (spPeer (smPeers (sdSync s) p)) \<Longrightarrow> sd_step P V E s (handleDisconnect p s)"
| started: "\<not> sdRunning s \<Longrightarrow> sd_step P V E s (sd_Start s)"
| stopped: "sd_Stop s = Inr s' \<Longrightarrow> sd_step P V E s s'"
| drained: "smRunning (sdSync s) \<Longrightarrow> smQuit (sdSync s) \<Longrightarrow> sdReply s = None \<Longrightarrow>
    sd_step P V E s (s\<lparr>sdSync := (sdSync s)\<lparr>smRunning := False, smQueue := []\<rparr>\<rparr>)"
| peers_drained: "sdQuit s \<Longrightarrow> sd_step P V E s (s\<lparr>sdPeersDone := True, sdPeerQueue := []\<rparr>)"
| pool_drained: "sdQuit s \<Longrightarrow> sd_step P V E s (s\<lparr>sdPoolDone := True, sdTxQueue := []\<rparr>)"
| blocks_drained: "\<not> pConnected P (spPeer (smPeers (sdSync s) p)) \<Longrightarrow> sdBusy s p = None \<Longrightarrow> sdTodo s p = [] \<Longrightarrow>
    sd_step P V E s (s\<lparr>sdEnded := insert p (sdEnded s), sdBlockQueues := (sdBlockQueues s)(p := [])\<rparr>)"
| filtered: "sd_step P V E s (UpdateFilter V s)"
| network: "sd_step P V E s (s\<lparr>sdSync := (sdSync s)\<lparr>smPeers := \<lambda>p. (smPeers (sdSync s) p)\<lparr>spPeer := g p\<rparr>\<rparr>\<rparr>)"

inductive sd_reachable ::
  "'p peer_if \<Rightarrow> 'c sm_config \<Rightarrow> codec \<Rightarrow> ('p, 'c, 'r::linordered_field) service \<Rightarrow> bool" for P V E where
  init: "(\<And>p. spOut (peers p) = []) \<Longrightarrow> newService V genesis peers c = Inr s \<Longrightarrow> sd_reachable P V E s"
| step: "sd_reachable P V E s \<Longrightarrow> sd_step P V E s s' \<Longrightarrow> sd_reachable P V E s'"

inductive_cases sd_stepE: "sd_step P V E s s'"

subsection \<open>A step of the service is steps of the sync manager\<close>

abbreviation sm_steps where
  "sm_steps P V \<equiv> rtranclp (sm_step P V)"

lemma sm_reachable_steps: "sm_steps P V s t \<Longrightarrow> sm_reachable P V s \<Longrightarrow> sm_reachable P V t"
  by (induction rule: rtranclp.induct) (auto intro: sm_reachable.step)

lemma to_sync_steps: "sm_steps P V (sdSync s) (sdSync (to_sync m s))"
  using sm_step.sent [of P V "sdSync s" m] by (auto simp: to_sync_def)

lemma sd_IsCurrent_steps: "sm_steps P V (sdSync s) (sdSync (sd_IsCurrent a s))"
  using sm_step.asked_current [of P V "sdSync s" "sdChans s"] by (auto simp: sd_IsCurrent_def)

lemma disconnect_step: "sm_step P V s (at_peer p (Disconnect P) s)"
proof -
  have "at_peer p (Disconnect P) s =
    s\<lparr>smPeers := \<lambda>q. (smPeers s q)\<lparr>spPeer := if q = p then pDisconnect P (spPeer (smPeers s p)) else spPeer (smPeers s q)\<rparr>\<rparr>"
    by (simp add: at_peer_def Disconnect_def fun_upd_def) (intro arg_cong [of _ _ "\<lambda>f. s\<lparr>smPeers := f\<rparr>"] ext, auto)
  with sm_step.network [of P V s] show ?thesis by simp
qed

lemma at_peer_same: "at_peer p (\<lambda>_. smPeers s p) s = s"
  by (simp add: at_peer_def)

lemma block_message_peer: "block_message P E m p d = Some (q, d', cbs) \<Longrightarrow> q = p \<or> q = Disconnect P p"
  by (auto simp: block_message_def Let_def split: message.splits option.splits sum.splits if_splits prod.splits)

lemma run_callback_steps: "sm_steps P V (sdSync s) (sdSync (run_callback p cb s))"
  using sm_step.sent [of P V "sdSync s"]
  by (cases cb) (auto simp: run_callback_def onBlock_def onTx_def deliver_def to_sync_def)

lemma onNotFound_steps: "sm_steps P V (sdSync s) (sdSync (onNotFound P p ivs s))"
  unfolding onNotFound_def
proof (induction ivs arbitrary: s)
  case (Cons iv ivs)
  let ?s = "if ivType iv = InvTx then s else s\<lparr>sdSync := at_peer p (Disconnect P) (sdSync s)\<rparr>"
  have "sm_steps P V (sdSync s) (sdSync ?s)" using disconnect_step [of P V "sdSync s" p] by auto
  from rtranclp_trans [OF this Cons.IH [of ?s]] show ?case by simp
qed simp

lemma receive_steps: "receive P p m s = Some s' \<Longrightarrow> sm_steps P V (sdSync s) (sdSync s')"
  using to_sync_steps [of P V s] sd_IsCurrent_steps [of P V s] onNotFound_steps [of P V s p]
  by (auto simp: receive_def onVersion_def onInv_def onReject_def split: option.splits dispatch.splits if_splits)

lemma take_block_cases:
  assumes "take_block P E p s = Some s'"
  obtains m ms q d cbs where "sdBlockQueues s p = m # ms" and "q = smPeers (sdSync s) p \<or> q = Disconnect P (smPeers (sdSync s) p)"
    and "block_message P E m (smPeers (sdSync s) p) (sdDownloads s p) = Some (q, d, cbs)"
    and "s' = s\<lparr>sdSync := at_peer p (\<lambda>_. q) (sdSync s), sdDownloads := (sdDownloads s)(p := d),
      sdBlockQueues := (sdBlockQueues s)(p := ms), sdTodo := (sdTodo s)(p := cbs)\<rparr>"
proof -
  obtain m ms where m: "sdBlockQueues s p = m # ms" using assms by (cases "sdBlockQueues s p") (simp_all add: take_block_def)
  then obtain q d cbs where b: "block_message P E m (smPeers (sdSync s) p) (sdDownloads s p) = Some (q, d, cbs)"
    using assms by (cases "block_message P E m (smPeers (sdSync s) p) (sdDownloads s p)") (auto simp: take_block_def)
  show thesis by (rule that [OF m block_message_peer [OF b] b]) (use assms m b in \<open>simp add: take_block_def\<close>)
qed

lemma take_block_steps:
  assumes "take_block P E p s = Some s'"
  shows "sm_steps P V (sdSync s) (sdSync s')"
  using assms
proof (cases rule: take_block_cases)
  case (1 m ms q d cbs)
  from 1(2) show ?thesis
  proof
    assume "q = Disconnect P (smPeers (sdSync s) p)"
    then show ?thesis using 1(4) disconnect_step [of P V "sdSync s" p] by (auto simp: at_peer_def)
  qed (use 1(4) at_peer_same [of p "sdSync s"] in simp)
qed

lemma sdSync_simps [simp]:
  "sdSync (share_block P V m before s) = sdSync s" "sdSync (answer P V m s) = sdSync s"
  "sdSync (set_reply r b s) = sdSync s" "sdSync (callback_done V now cb s) = sdSync s"
  "sdSync (pool_handle V E i s) = sdSync s"
  by (simp_all add: share_block_def answer_def set_reply_def callback_done_def block_processed_def pool_handle_def Let_def
      split: sm_msg.split option.split sm_reply.split callback.split prod.split)

lemma resume_steps: "sm_steps P V (sdSync s) (sdSync (resume current now a s))"
  using sm_step.sent [of P V "sdSync s"]
  by (cases a) (simp_all add: resume_def inv_answered_def send_answered_def to_sync_def Let_def r_into_rtranclp)

lemma sd_step_sync: "sd_step P V E s s' \<Longrightarrow> sm_steps P V (sdSync s) (sdSync s')"
proof (induction rule: sd_step.induct)
  case (received p s m s')
  from receive_steps [OF received(3)] show ?case .
next
  case (taken p s s')
  from take_block_steps [OF taken(4)] show ?case .
next
  case (called s p cb cbs)
  from run_callback_steps [of P V "s\<lparr>sdTodo := (sdTodo s)(p := cbs)\<rparr>" p cb] show ?case by simp
next
  case (handled s m ms ch t)
  have "sm_step P V (sdSync s) t" by (rule sm_step.handled [OF handled(1,3,4) _ handled(6)]) (rule handled(5))
  then show ?case by simp
next
  case (answered s c a current time)
  from resume_steps [of P V "s\<lparr>sdAsks := (sdAsks s)(c := None), sdAnswers := (sdAnswers s)(c := None)\<rparr>"] show ?case by simp
next
  case (sending s tx)
  then show ?case using sd_IsCurrent_steps by (simp add: SendTransaction_def)
next
  case (peers s m ms p)
  with sm_step.created [of "sdSync s" p P V] show ?case by (auto simp: handlePeerMsg_def split: peer_msg.split)
next
  case (disconnected s p)
  with to_sync_steps show ?case by (auto simp: handleDisconnect_def)
next
  case (started s)
  with sm_step.started [of P V "sdSync s"] show ?case by (auto simp: sd_Start_def)
next
  case (stopped s s')
  with sm_step.stopped [of P V "sdSync s"] show ?case by (auto simp: sd_Stop_def Let_def split: if_splits)
next
  case (drained s)
  with sm_step.drained [of "sdSync s" P V] show ?case by auto
next
  case (network s g)
  with sm_step.network [of P V "sdSync s" g] show ?case by auto
qed (simp_all add: sd_newPeer_def sd_donePeer_def UpdateFilter_def)

lemma sd_reachable_sync: "sd_reachable P V E s \<Longrightarrow> sm_reachable P V (sdSync s)"
proof (induction rule: sd_reachable.induct)
  case (init peers genesis c s)
  then show ?case by (auto simp: newService_def fresh_service_def intro!: sm_reachable.init split: prod.splits option.splits)
next
  case (step s s')
  with sd_step_sync sm_reachable_steps show ?case by blast
qed

subsection \<open>The invariant of the composition\<close>

lemma handlers_queue:
  "smQueue (syncWith V p s) = smQueue s" "smQueue (pushBloomFilter V p s) = smQueue s"
  "smQueue (requestQueuedInv V ch p s) = smQueue s" "smQueue (at_peer p f s) = smQueue s" "smQueue (at_state p g s) = smQueue s"
  by (simp_all add: syncWith_def pushBloomFilter_def requestQueuedInv_def Let_def at_peer_def at_state_def
      split: option.split prod.split)

lemma startSync_queue: "smQueue (startSync P V ch s) = smQueue s"
proof -
  have "smQueue (snd (first_candidate P best ps s)) = smQueue s" for best ps s
    by (induction ps arbitrary: s) (auto split: option.split simp: handlers_queue)
  from this [of _ "chOrder ch" s] show ?thesis
    by (auto simp: startSync_def Let_def handlers_queue split: prod.split option.split) (metis snd_conv)+
qed

lemma new_block_queue: "smQueue (new_block P V ch p b r s) = smQueue s"
  by (simp add: new_block_def Let_def handlers_queue split: option.split)

lemma sm_handle_queue: "sm_handle P V ch m s = Some t \<Longrightarrow> smQueue t = smQueue s"
  by (cases m) (auto simp: sm_handle_def handleNewPeerMsg_def handleDonePeerMsg_def handleTxMsg_def handleInvMsg_def
      handleBlockMsg_def block_committed_def Let_def handlers_queue startSync_queue new_block_queue
      split: option.splits if_splits)

text \<open>The blocks on their way from the peers through the service.\<close>

definition block_of :: "wait option \<Rightarrow> block set" where
  "block_of w = {b. w = Some (Delivering (OnBlock b)) \<or> w = Some (Waiting (OnBlock b))}"

definition blocks_under_way :: "('p, 'c, 'r) service \<Rightarrow> block set" where
  "blocks_under_way s = {b. (\<exists>p. OnBlock b \<in> set (sdTodo s p) \<or> b \<in> block_of (sdBusy s p) \<or> BlockMsg b p \<in> set (smQueue (sdSync s))) \<or>
     b \<in> set (sdCommitted s)}"

definition sd_inv :: "codec \<Rightarrow> ('p, 'c, 'r) service \<Rightarrow> bool" where
  "sd_inv E s \<longleftrightarrow> pool_ok (sdPool s) \<and> (\<forall>p. download_ok E (sdDownloads s p)) \<and> (\<forall>b \<in> blocks_under_way s. complete_block E b)"

lemma sd_inv_mono:
  "sd_inv E s \<Longrightarrow> sdPool t = sdPool s \<Longrightarrow> sdDownloads t = sdDownloads s \<Longrightarrow> blocks_under_way t \<subseteq> blocks_under_way s \<Longrightarrow> sd_inv E t"
  by (auto simp: sd_inv_def)

lemma under_way_cong:
  "sdTodo t = sdTodo s \<Longrightarrow> sdBusy t = sdBusy s \<Longrightarrow> sdCommitted t = sdCommitted s \<Longrightarrow>
   (\<And>b p. BlockMsg b p \<in> set (smQueue (sdSync t)) \<Longrightarrow> BlockMsg b p \<in> set (smQueue (sdSync s))) \<Longrightarrow>
   blocks_under_way t \<subseteq> blocks_under_way s"
  unfolding blocks_under_way_def by auto

lemma smQueue_sends [simp]:
  "smQueue (sm_Start s) = smQueue s" "smQueue (sm_Stop s) = smQueue s" "smQueue (sm_IsCurrent c s) = smQueue s @ [IsCurrentMsg c]"
  by (simp_all add: sm_Start_def sm_Stop_def sm_requests Let_def)

lemma sm_send_queue: "x \<in> set (smQueue (sm_send m s)) \<Longrightarrow> x = m \<or> x \<in> set (smQueue s)"
  by (auto simp: sm_send_def split: if_splits)

lemma to_sync_under_way:
  "(\<And>b p. m \<noteq> BlockMsg b p) \<Longrightarrow> blocks_under_way (to_sync m s) \<subseteq> blocks_under_way s"
  by (rule under_way_cong) (auto simp: to_sync_def dest!: sm_send_queue)

lemma onNotFound_other:
  "sdTodo (onNotFound P p ivs s) = sdTodo s \<and> sdBusy (onNotFound P p ivs s) = sdBusy s \<and> sdCommitted (onNotFound P p ivs s) = sdCommitted s \<and>
   sdPool (onNotFound P p ivs s) = sdPool s \<and> sdDownloads (onNotFound P p ivs s) = sdDownloads s \<and>
   smQueue (sdSync (onNotFound P p ivs s)) = smQueue (sdSync s)"
  unfolding onNotFound_def by (induction ivs arbitrary: s) (simp_all add: handlers_queue)

lemma receive_other:
  assumes "receive P p m s = Some s'"
  shows "sdTodo s' = sdTodo s \<and> sdBusy s' = sdBusy s \<and> sdCommitted s' = sdCommitted s \<and> sdPool s' = sdPool s \<and>
    sdDownloads s' = sdDownloads s \<and> (\<forall>b p. BlockMsg b p \<in> set (smQueue (sdSync s')) \<longrightarrow> BlockMsg b p \<in> set (smQueue (sdSync s)))"
  using assms onNotFound_other [of P p _ s]
  by (auto simp: receive_def onVersion_def onInv_def onReject_def sd_IsCurrent_def to_sync_def dest!: sm_send_queue
      split: option.splits dispatch.splits if_splits)

lemma run_callback_under_way:
  "blocks_under_way (run_callback p cb (s\<lparr>sdTodo := (sdTodo s)(p := cbs)\<rparr>)) \<subseteq>
   blocks_under_way (s\<lparr>sdTodo := (sdTodo s)(p := cb # cbs)\<rparr>)"
proof
  fix b
  assume "b \<in> blocks_under_way (run_callback p cb (s\<lparr>sdTodo := (sdTodo s)(p := cbs)\<rparr>))"
  then show "b \<in> blocks_under_way (s\<lparr>sdTodo := (sdTodo s)(p := cb # cbs)\<rparr>)"
    by (cases cb) (auto simp: blocks_under_way_def block_of_def run_callback_def onBlock_def onTx_def deliver_def to_sync_def
        dest!: sm_send_queue split: if_splits)
qed

lemma CommitBlock_header:
  "bc_CommitBlock C b c = Some (r, c') \<Longrightarrow> block_proof (crHeader r) = block_proof (blkHeader b)"
  by (auto simp: bc_CommitBlock_def Let_def block_proof_def split: sum.splits if_splits prod.splits option.splits)

lemma block_after_complete: "complete_block E b \<Longrightarrow> complete_block E (block_after P V b p s)"
  by (auto simp: block_after_def complete_block_def CommitBlock_header split: option.split)

lemma handled_inv:
  assumes "sd_inv E s" and "smQueue (sdSync s) = m # ms" and "smQueue t = ms"
  shows "sd_inv E (answer P V m (share_block P V m before (s\<lparr>sdSync := t\<rparr>)))"
proof -
  have a: "sd_inv E (answer P V m u)" if "sd_inv E u" for u
    using that by (auto simp: answer_def sd_inv_def blocks_under_way_def split: option.split sm_reply.split)
  have u: "sd_inv E (s\<lparr>sdSync := t\<rparr>)"
    by (rule sd_inv_mono [OF assms(1)]) (use assms(2,3) in \<open>auto simp: blocks_under_way_def\<close>)
  have "sd_inv E (share_block P V m before (s\<lparr>sdSync := t\<rparr>))"
  proof (cases "\<exists>b p. m = BlockMsg b p \<and> sdBusy s p = Some (Waiting (OnBlock b))")
    case True
    then obtain b p where m: "m = BlockMsg b p" "sdBusy s p = Some (Waiting (OnBlock b))" by blast
    let ?b = "block_after P V b p before"
    have "complete_block E b" using assms(1) m(2) unfolding sd_inv_def blocks_under_way_def block_of_def by blast
    then have "complete_block E ?b" by (rule block_after_complete)
    moreover have "blocks_under_way (s\<lparr>sdSync := t, sdBusy := (sdBusy s)(p \<mapsto> Waiting (OnBlock ?b))\<rparr>) \<subseteq>
        insert ?b (blocks_under_way (s\<lparr>sdSync := t\<rparr>))"
      by (auto simp: blocks_under_way_def block_of_def split: if_splits)
    ultimately show ?thesis using u m by (auto simp: share_block_def sd_inv_def)
  next
    case False
    then have "share_block P V m before (s\<lparr>sdSync := t\<rparr>) = s\<lparr>sdSync := t\<rparr>" by (auto simp: share_block_def split: sm_msg.split)
    with u show ?thesis by simp
  qed
  then show ?thesis by (rule a)
qed

lemma taken_inv:
  assumes "take_block P E p s = Some s'" and "sd_inv E s"
  shows "sd_inv E s'"
  using assms(1)
proof (cases rule: take_block_cases)
  case (1 m ms q d cbs)
  have "download_ok E (sdDownloads s p)" using assms(2) by (simp add: sd_inv_def)
  note c = block_message_ok [OF 1(3) this]
  have "blocks_under_way s' \<subseteq> blocks_under_way s \<union> {b. OnBlock b \<in> set cbs}"
    unfolding 1(4) by (auto simp: blocks_under_way_def handlers_queue split: if_splits)
  with assms(2) c show ?thesis unfolding sd_inv_def by (auto simp: 1(4))
qed

lemma resume_under_way: "blocks_under_way (resume current now a s) \<subseteq> blocks_under_way s"
  by (cases a) (auto simp: blocks_under_way_def resume_def inv_answered_def send_answered_def to_sync_def Let_def dest!: sm_send_queue split: if_splits)

lemma resume_other: "sdPool (resume current now a s) = sdPool s" "sdDownloads (resume current now a s) = sdDownloads s"
  by (cases a, simp_all add: resume_def inv_answered_def send_answered_def to_sync_def Let_def)+

lemma woken_under_way:
  "sdBusy s p = Some (Waiting cb) \<Longrightarrow>
   blocks_under_way (callback_done V now cb (set_reply r f (s\<lparr>sdBusy := (sdBusy s)(p := None)\<rparr>))) \<subseteq> blocks_under_way s"
  by (cases cb; cases r) (auto simp: blocks_under_way_def block_of_def callback_done_def block_processed_def set_reply_def Let_def split: if_splits)

lemma replies_other:
  "sdPool (set_reply r f s) = sdPool s" "sdDownloads (set_reply r f s) = sdDownloads s"
  "sdPool (callback_done V now cb s) = sdPool s" "sdDownloads (callback_done V now cb s) = sdDownloads s"
  "blocks_under_way (set_reply r f s) = blocks_under_way s"
  by (cases r; cases cb; simp add: set_reply_def callback_done_def block_processed_def blocks_under_way_def Let_def)+

lemma run_callback_other:
  "sdPool (run_callback p cb s) = sdPool s" "sdDownloads (run_callback p cb s) = sdDownloads s"
  by (cases cb, simp_all add: run_callback_def onBlock_def onTx_def deliver_def to_sync_def)+

lemma sd_step_inv: "sd_step P V E s s' \<Longrightarrow> sd_inv E s \<Longrightarrow> sd_inv E s'"
proof (induction rule: sd_step.induct)
  case (received p s m s')
  from receive_other [OF received(3)] show ?case by (intro sd_inv_mono [OF received(4)] under_way_cong) auto
next
  case (taken p s s')
  from taken_inv [OF taken(4,5)] show ?case .
next
  case (called s p cb cbs)
  have "s = s\<lparr>sdTodo := (sdTodo s)(p := cb # cbs)\<rparr>" using called(2) by (simp add: fun_upd_idem)
  with run_callback_under_way [of p cb s cbs]
  have "blocks_under_way (run_callback p cb (s\<lparr>sdTodo := (sdTodo s)(p := cbs)\<rparr>)) \<subseteq> blocks_under_way s" by simp
  then show ?case
    by (intro sd_inv_mono [OF called(3)]) (simp_all add: run_callback_other)
next
  case (delivered s p cb)
  then have "blocks_under_way (s\<lparr>sdBusy := (sdBusy s)(p \<mapsto> Waiting cb)\<rparr>) \<subseteq> blocks_under_way s"
    by (auto simp: blocks_under_way_def block_of_def split: if_splits)
  then show ?case by (intro sd_inv_mono [OF delivered(3)]) (simp_all add: replies_other)
next
  case (woken s p cb now)
  then show ?case by (intro sd_inv_mono [OF woken(3)] woken_under_way) (simp_all add: replies_other)
next
  case (handled s m ms ch t)
  have "smQueue t = ms" using sm_handle_queue [OF handled(6)] by simp
  with handled_inv [OF handled(7,3)] show ?case by blast
next
  case (replied s r)
  have "blocks_under_way (s\<lparr>sdReply := None\<rparr>) = blocks_under_way s" by (simp add: blocks_under_way_def)
  then show ?case by (intro sd_inv_mono [OF replied(3)]) (simp_all add: replies_other)
next
  case (answered s c a current time)
  let ?t = "s\<lparr>sdAsks := (sdAsks s)(c := None), sdAnswers := (sdAnswers s)(c := None)\<rparr>"
  have "blocks_under_way ?t = blocks_under_way s" by (simp add: blocks_under_way_def)
  with resume_under_way [of current time a ?t] have "blocks_under_way (resume current time a ?t) \<subseteq> blocks_under_way s" by simp
  then show ?case by (intro sd_inv_mono [OF answered(3)]) (simp_all add: resume_other)
next
  case (pool s i "is")
  then show ?case using pool_step_ok [of "sdPool s" E "cfAnnounce V" i]
    by (simp add: sd_inv_def pool_handle_def blocks_under_way_def Let_def case_prod_beta)
next
  case (tick s time)
  then show ?case using pool_step_ok [of "sdPool s" E "cfAnnounce V" "RetryTick time"]
    by (simp add: sd_inv_def pool_handle_def blocks_under_way_def Let_def case_prod_beta)
next
  case (sending s tx)
  then show ?case
    by (intro sd_inv_mono [OF sending] under_way_cong) (auto simp: SendTransaction_def sd_IsCurrent_def)
next
  case (disconnected s p)
  then show ?case
    using to_sync_under_way [of "DonePeerMsg p" s]
    by (intro sd_inv_mono [OF disconnected(2)]) (simp_all add: handleDisconnect_def, simp_all add: to_sync_def)
next
  case (stopped s s')
  then show ?case by (intro sd_inv_mono [OF stopped(2)] under_way_cong) (auto simp: sd_Stop_def Let_def split: if_splits)
next
  case (peers s m ms p)
  then show ?case
    by (intro sd_inv_mono [OF peers(6)] under_way_cong; cases m) (simp_all add: handlePeerMsg_def)
qed (auto simp: sd_inv_def blocks_under_way_def sd_newPeer_def sd_donePeer_def sd_Start_def UpdateFilter_def)

lemma sd_reachable_inv: "sd_reachable P V E s \<Longrightarrow> sd_inv E s"
proof (induction rule: sd_reachable.induct)
  case (init peers genesis c s)
  then show ?case
    by (auto simp: newService_def fresh_service_def sd_inv_def blocks_under_way_def block_of_def sm_New_def split: prod.splits option.splits)
next
  case (step s s')
  with sd_step_inv show ?case by blast
qed

text \<open>Only the sync manager's handlers touch the chain.\<close>

lemma sm_send_chain [simp]: "smChain (sm_send m s) = smChain s"
  by (simp add: sm_send_def)

lemma sends_chain:
  "smChain (sdSync (to_sync m s)) = smChain (sdSync s)" "smChain (sdSync (sd_IsCurrent a s)) = smChain (sdSync s)"
  "smChain (sdSync (run_callback p cb s)) = smChain (sdSync s)" "smChain (sdSync (resume current now a s)) = smChain (sdSync s)"
  by (simp_all add: to_sync_def sd_IsCurrent_def sm_requests run_callback_def onBlock_def onTx_def deliver_def resume_def
      inv_answered_def send_answered_def Let_def split: callback.split ask.split)

lemma onNotFound_chain: "smChain (sdSync (onNotFound P p ivs s)) = smChain (sdSync s)"
  unfolding onNotFound_def by (induction ivs arbitrary: s) auto

lemma receive_chain: "receive P p m s = Some s' \<Longrightarrow> smChain (sdSync s') = smChain (sdSync s)"
  by (auto simp: receive_def onVersion_def onInv_def sends_chain onNotFound_chain onReject_def
      split: option.splits dispatch.splits if_splits)

lemma take_block_chain: "take_block P E p s = Some s' \<Longrightarrow> smChain (sdSync s') = smChain (sdSync s)"
  by (erule take_block_cases) simp

lemma sd_step_handled:
  assumes "sd_step P V E s s'" and "smChain (sdSync s') \<noteq> smChain (sdSync s)"
  obtains m ms ch t where "smQueue (sdSync s) = m # ms" and "sm_handle P V ch m ((sdSync s)\<lparr>smQueue := ms\<rparr>) = Some t"
    and "smRunning (sdSync s)" and "choice_ok ch (sdSync s)" and "\<forall>p. m = NewPeerMsg p \<longrightarrow> smStates (sdSync s) p = None"
    and "sdSync s' = t"
  using assms
proof (cases rule: sd_step.cases)
  case (handled m ms ch t)
  with that show ?thesis by simp
next
  case (received p m)
  with receive_chain assms(2) show ?thesis by blast
next
  case (taken p)
  with take_block_chain assms(2) show ?thesis by blast
qed (use assms(2) in \<open>auto simp: sends_chain SendTransaction_def handlePeerMsg_def sd_newPeer_def sd_donePeer_def handleDisconnect_def
    sd_Start_def sd_Stop_def sm_Start_def sm_Stop_def UpdateFilter_def Let_def split: if_splits peer_msg.splits\<close>)

subsection \<open>Only complete blocks are committed\<close>


subsection \<open>Replies\<close>

text \<open>The replies for blocks that are on their way, and the handlers that wait for one: there are never
  more of the former.\<close>

definition waiting_blocks :: "('p, 'c, 'r) service \<Rightarrow> nat set" where
  "waiting_blocks s = {p. \<exists>b. sdBusy s p = Some (Waiting (OnBlock b))}"

definition block_msgs :: "sm_msg list \<Rightarrow> nat" where
  "block_msgs ms = length (filter (\<lambda>m. \<exists>b p. m = BlockMsg b p) ms)"

definition replies_due :: "('p, 'c, 'r) service \<Rightarrow> nat" where
  "replies_due s = block_msgs (smQueue (sdSync s)) + (if sdReply s = Some BlockDone then 1 else 0) + (if sdBlockDone s then 1 else 0)"

definition replies_ok :: "('p, 'c, 'r) service \<Rightarrow> bool" where
  "replies_ok s \<longleftrightarrow> finite (waiting_blocks s) \<and> replies_due s \<le> card (waiting_blocks s)"

lemma block_msgs_simps [simp]:
  "block_msgs [] = 0" "block_msgs (m # ms) = (case m of BlockMsg b p \<Rightarrow> 1 | _ \<Rightarrow> 0) + block_msgs ms"
  "block_msgs (ms @ ms') = block_msgs ms + block_msgs ms'"
  by (simp_all add: block_msgs_def split: sm_msg.split)

lemma block_msgs_zero: "block_msgs ms = 0 \<longleftrightarrow> (\<forall>b p. BlockMsg b p \<notin> set ms)"
  by (auto simp: block_msgs_def filter_empty_conv)

lemma replies_ok_cong:
  "replies_ok s \<Longrightarrow> waiting_blocks t = waiting_blocks s \<Longrightarrow> replies_due t \<le> replies_due s \<Longrightarrow> replies_ok t"
  by (simp add: replies_ok_def)

lemma waiting_cong: "sdBusy t = sdBusy s \<Longrightarrow> waiting_blocks t = waiting_blocks s"
  by (simp add: waiting_blocks_def)

lemma due_cong:
  "sdReply t = sdReply s \<Longrightarrow> sdBlockDone t = sdBlockDone s \<Longrightarrow> block_msgs (smQueue (sdSync t)) \<le> block_msgs (smQueue (sdSync s)) \<Longrightarrow>
   replies_due t \<le> replies_due s"
  by (simp add: replies_due_def)

lemma sm_send_msgs: "(\<And>b p. m \<noteq> BlockMsg b p) \<Longrightarrow> block_msgs (smQueue (sm_send m s)) = block_msgs (smQueue s)"
  by (auto simp: sm_send_def split: sm_msg.split)

lemma onNotFound_replies:
  "sdReply (onNotFound P p ivs s) = sdReply s \<and> sdBlockDone (onNotFound P p ivs s) = sdBlockDone s"
  unfolding onNotFound_def by (induction ivs arbitrary: s) simp_all

lemma receive_replies:
  assumes "receive P p m s = Some s'"
  shows "sdReply s' = sdReply s \<and> sdBlockDone s' = sdBlockDone s \<and> block_msgs (smQueue (sdSync s')) = block_msgs (smQueue (sdSync s))"
  using assms onNotFound_replies [of P p _ s] onNotFound_other [of P p _ s]
  by (auto simp: receive_def onVersion_def onInv_def onReject_def sd_IsCurrent_def to_sync_def sm_send_msgs
      split: option.splits dispatch.splits if_splits)

lemma waiting_drop: "sdBusy t = (sdBusy s)(p := None) \<Longrightarrow> waiting_blocks t = waiting_blocks s - {p}"
  by (auto simp: waiting_blocks_def)

lemma waiting_add: "sdBusy t = (sdBusy s)(p \<mapsto> Waiting (OnBlock b)) \<Longrightarrow> waiting_blocks t = insert p (waiting_blocks s)"
  by (auto simp: waiting_blocks_def)

lemma waiting_other:
  "sdBusy t = (sdBusy s)(p \<mapsto> w) \<Longrightarrow> p \<notin> waiting_blocks s \<Longrightarrow> (\<And>b. w \<noteq> Waiting (OnBlock b)) \<Longrightarrow> waiting_blocks t = waiting_blocks s"
  by (auto simp: waiting_blocks_def split: if_splits)

lemma run_callback_replies:
  assumes "sdBusy s p = None" and "replies_ok s"
  shows "replies_ok (run_callback p cb s)"
proof -
  have n: "p \<notin> waiting_blocks s" using assms(1) by (simp add: waiting_blocks_def)
  show ?thesis
  proof (cases "\<exists>b. cb = OnBlock b \<and> smShutdown (sdSync s) = 0")
    case True
    then obtain b where b: "cb = OnBlock b" "smShutdown (sdSync s) = 0" by blast
    let ?t = "run_callback p cb s"
    have t: "?t = s\<lparr>sdBusy := (sdBusy s)(p \<mapsto> Waiting (OnBlock b)), sdSync := sm_send (BlockMsg b p) (sdSync s)\<rparr>"
      using b by (simp add: run_callback_def onBlock_def deliver_def to_sync_def)
    have "waiting_blocks ?t = insert p (waiting_blocks s)" by (rule waiting_add) (simp add: t)
    moreover have "replies_due ?t = Suc (replies_due s)" unfolding t using b(2) by (simp add: replies_due_def sm_send_def)
    ultimately show ?thesis using assms(2) n by (simp add: replies_ok_def)
  next
    case False
    let ?t = "run_callback p cb s"
    have "\<exists>w. sdBusy ?t = (sdBusy s)(p \<mapsto> w) \<and> (\<forall>b. w \<noteq> Waiting (OnBlock b))"
      using False by (cases cb) (auto simp: run_callback_def onBlock_def onTx_def deliver_def to_sync_def)
    then obtain w where w: "sdBusy ?t = (sdBusy s)(p \<mapsto> w)" "\<And>b. w \<noteq> Waiting (OnBlock b)" by blast
    have "replies_due ?t = replies_due s"
      using False by (cases cb) (simp_all add: run_callback_def onBlock_def onTx_def deliver_def to_sync_def replies_due_def sm_send_msgs)
    with waiting_other [OF w(1) n w(2)] assms(2) show ?thesis by (simp add: replies_ok_def)
  qed
qed

lemma share_block_waiting: "waiting_blocks (share_block P V m before s) = waiting_blocks s"
  by (cases m) (auto simp: share_block_def waiting_blocks_def)

lemma share_block_replies: "sdReply (share_block P V m before s) = sdReply s" "sdBlockDone (share_block P V m before s) = sdBlockDone s"
  by (cases m; simp add: share_block_def)+

lemma answer_replies:
  "sdBusy (answer P V m s) = sdBusy s" "sdBlockDone (answer P V m s) = sdBlockDone s"
  "sdReply (answer P V m s) = (case m of BlockMsg b p \<Rightarrow> Some BlockDone | TxMsg tx p \<Rightarrow> Some TxDone | _ \<Rightarrow> sdReply s)"
  by (cases m; simp add: answer_def sm_answer_def)+

lemma handled_replies:
  assumes "replies_ok s" and "sdReply s = None" and "smQueue (sdSync s) = m # ms" and "smQueue t = ms"
  shows "replies_ok (answer P V m (share_block P V m before (s\<lparr>sdSync := t\<rparr>)))"
proof (rule replies_ok_cong [OF assms(1)])
  let ?u = "share_block P V m before (s\<lparr>sdSync := t\<rparr>)"
  have "waiting_blocks (answer P V m ?u) = waiting_blocks ?u" by (rule waiting_cong) (simp add: answer_replies)
  moreover have "waiting_blocks ?u = waiting_blocks s" unfolding share_block_waiting by (rule waiting_cong) simp
  ultimately show "waiting_blocks (answer P V m ?u) = waiting_blocks s" by simp
  show "replies_due (answer P V m ?u) \<le> replies_due s"
    using assms(2-4) by (cases m) (simp_all add: replies_due_def answer_replies share_block_replies)
qed

lemma callback_done_replies:
  "sdBusy (callback_done V now cb s) = sdBusy s" "sdReply (callback_done V now cb s) = sdReply s"
  "sdBlockDone (callback_done V now cb s) = sdBlockDone s"
  by (cases cb; simp add: callback_done_def block_processed_def Let_def)+

lemma woken_replies:
  assumes "replies_ok s" and "sdBusy s p = Some (Waiting cb)" and "reply_full (reply_of cb) s"
  shows "replies_ok (callback_done V now cb (set_reply (reply_of cb) False (s\<lparr>sdBusy := (sdBusy s)(p := None)\<rparr>)))" (is "replies_ok ?t")
proof -
  have w: "waiting_blocks ?t = waiting_blocks s - {p}"
    by (rule waiting_drop) (cases cb, simp_all add: callback_done_replies set_reply_def reply_of_def)
  show ?thesis
  proof (cases cb)
    case (OnBlock b)
    have "p \<in> waiting_blocks s" using assms(2) OnBlock by (simp add: waiting_blocks_def)
    then have "card (waiting_blocks s) = Suc (card (waiting_blocks ?t))"
      using assms(1) card_Suc_Diff1 [of "waiting_blocks s" p] by (simp only: w replies_ok_def)
    moreover have "replies_due s = Suc (replies_due ?t)"
      using assms(3) OnBlock by (simp add: replies_due_def callback_done_replies set_reply_def reply_of_def reply_full_def)
    ultimately show ?thesis using assms(1) w unfolding replies_ok_def by simp
  next
    case (OnTx tx)
    have "waiting_blocks s - {p} = waiting_blocks s" using assms(2) OnTx by (auto simp: waiting_blocks_def)
    moreover have "replies_due ?t = replies_due s"
      using OnTx by (simp add: replies_due_def callback_done_replies set_reply_def reply_of_def)
    ultimately show ?thesis using assms(1) w unfolding replies_ok_def by simp
  qed
qed

lemma delivered_replies:
  assumes "replies_ok s" and "sdBusy s p = Some (Delivering cb)" and "\<not> reply_full (reply_of cb) s"
  shows "replies_ok (set_reply (reply_of cb) True (s\<lparr>sdBusy := (sdBusy s)(p \<mapsto> Waiting cb)\<rparr>))" (is "replies_ok ?t")
proof -
  have n: "p \<notin> waiting_blocks s" using assms(2) by (simp add: waiting_blocks_def)
  have b: "sdBusy ?t = (sdBusy s)(p \<mapsto> Waiting cb)" by (cases cb) (simp_all add: set_reply_def reply_of_def)
  show ?thesis
  proof (cases cb)
    case (OnBlock blk)
    have "waiting_blocks ?t = insert p (waiting_blocks s)" using b unfolding OnBlock by (rule waiting_add)
    moreover have "replies_due ?t = Suc (replies_due s)"
      using assms(3) OnBlock by (simp add: replies_due_def set_reply_def reply_of_def reply_full_def)
    ultimately show ?thesis using assms(1) n by (simp add: replies_ok_def)
  next
    case (OnTx tx)
    have "waiting_blocks ?t = waiting_blocks s" by (rule waiting_other [OF b n]) (simp add: OnTx)
    moreover have "replies_due ?t = replies_due s" using OnTx by (simp add: replies_due_def set_reply_def reply_of_def)
    ultimately show ?thesis using assms(1) by (simp add: replies_ok_def)
  qed
qed

lemma resume_replies:
  "sdBusy (resume c now a s) = sdBusy s" "sdReply (resume c now a s) = sdReply s" "sdBlockDone (resume c now a s) = sdBlockDone s"
  "block_msgs (smQueue (sdSync (resume c now a s))) = block_msgs (smQueue (sdSync s))"
  by (cases a; simp add: resume_def inv_answered_def send_answered_def to_sync_def sm_send_msgs Let_def)+

lemma replies_cong:
  "replies_ok s \<Longrightarrow> sdBusy t = sdBusy s \<Longrightarrow> sdReply t = sdReply s \<Longrightarrow> sdBlockDone t = sdBlockDone s \<Longrightarrow>
   block_msgs (smQueue (sdSync t)) \<le> block_msgs (smQueue (sdSync s)) \<Longrightarrow> replies_ok t"
  by (rule replies_ok_cong [OF _ waiting_cong due_cong])

lemma sd_step_replies: "sd_step P V E s s' \<Longrightarrow> replies_ok s \<Longrightarrow> replies_ok s'"
proof (induction rule: sd_step.induct)
  case (received p s m s')
  from receive_other [OF received(3)] receive_replies [OF received(3)] show ?case by (intro replies_cong [OF received(4)]) simp_all
next
  case (taken p s s')
  from taken(4) show ?case by (rule take_block_cases) (intro replies_cong [OF taken(5)], simp_all add: handlers_queue)
next
  case (called s p cb cbs)
  show ?case by (rule run_callback_replies) (use called in \<open>auto intro: replies_cong\<close>)
next
  case (delivered s p cb)
  then show ?case by (intro delivered_replies)
next
  case (woken s p cb now)
  then show ?case by (intro woken_replies)
next
  case (handled s m ms ch t)
  show ?case by (rule handled_replies [OF handled(7,2,3)]) (use sm_handle_queue [OF handled(6)] in simp)
next
  case (replied s r)
  then show ?case
    by (intro replies_ok_cong [OF replied(3)]) (cases r; simp add: waiting_blocks_def replies_due_def set_reply_def reply_full_def)+
next
  case (answered s c a current time)
  show ?case by (rule replies_cong [OF answered(3)]) (simp_all add: resume_replies)
next
  case (stopped s s')
  then show ?case by (intro replies_cong [OF stopped(2)]) (auto simp: sd_Stop_def Let_def split: if_splits)
next
  case (peers s m ms p)
  show ?case by (rule replies_cong [OF peers(6)]) (simp_all add: handlePeerMsg_def split: peer_msg.split)
next
  case (pool s i "is")
  show ?case by (rule replies_cong [OF pool(4)]) (simp_all add: pool_handle_def case_prod_beta Let_def)
next
  case (tick s time)
  show ?case by (rule replies_cong [OF tick(3)]) (simp_all add: pool_handle_def case_prod_beta Let_def)
qed (erule replies_cong, simp_all add: SendTransaction_def sd_IsCurrent_def sd_newPeer_def sd_donePeer_def handleDisconnect_def
    to_sync_def sm_send_msgs sd_Start_def UpdateFilter_def)+

lemma sd_reachable_replies: "sd_reachable P V E s \<Longrightarrow> replies_ok s"
proof (induction rule: sd_reachable.induct)
  case (init peers genesis c s)
  then show ?case
    by (auto simp: newService_def fresh_service_def replies_ok_def waiting_blocks_def replies_due_def sm_New_def split: prod.splits option.splits)
next
  case (step s s')
  with sd_step_replies show ?case by blast
qed

subsection \<open>The notification of blocks\<close>

abbreviation sd_steps where
  "sd_steps P V E \<equiv> rtranclp (sd_step P V E)"

lemma sd_reachable_steps: "sd_steps P V E s t \<Longrightarrow> sd_reachable P V E s \<Longrightarrow> sd_reachable P V E t"
  by (induction rule: rtranclp.induct) (auto intro: sd_reachable.step)

text \<open>Only a handler of blocks that gets its reply notifies.\<close>

lemma sends_committed:
  "sdCommitted (to_sync m s) = sdCommitted s" "sdCommitted (sd_IsCurrent a s) = sdCommitted s"
  "sdCommitted (run_callback p cb s) = sdCommitted s" "sdCommitted (resume current now a s) = sdCommitted s"
  "sdCommitted (set_reply r f s) = sdCommitted s" "sdCommitted (answer P V m s) = sdCommitted s"
  "sdCommitted (share_block P V m before s) = sdCommitted s" "sdCommitted (pool_handle V E i s) = sdCommitted s"
  by (simp_all add: to_sync_def sd_IsCurrent_def run_callback_def onBlock_def onTx_def deliver_def resume_def
      inv_answered_def send_answered_def set_reply_def answer_def share_block_def pool_handle_def Let_def
      split: callback.split ask.split sm_reply.split option.split sm_msg.split prod.split)

lemma sd_step_committed:
  assumes "sd_step P V E s s'" and "sdCommitted s' \<noteq> sdCommitted s"
  obtains p b where "sdBusy s p = Some (Waiting (OnBlock b))" and "sdBlockDone s" and "sdCommitted s' = sdCommitted s @ [b]"
  using assms
proof (cases rule: sd_step.cases)
  case (received p m)
  with receive_other assms(2) show ?thesis by metis
next
  case (taken p)
  from taken(4) show ?thesis by (rule take_block_cases) (use assms(2) in simp)
next
  case (woken p cb now)
  then obtain b where b: "cb = OnBlock b" using assms(2) by (cases cb) (simp_all add: callback_done_def sends_committed)
  show ?thesis
    by (rule that [of p b]) (use woken b assms(2) in \<open>auto simp: callback_done_def block_processed_def sends_committed
        reply_of_def reply_full_def set_reply_def Let_def split: if_splits\<close>)
next
  case (peers m ms p)
  then show ?thesis using assms(2) by (cases m) (simp_all add: handlePeerMsg_def)
qed (use assms(2) in \<open>auto simp: sends_committed SendTransaction_def sd_newPeer_def sd_donePeer_def handleDisconnect_def
    sd_Start_def sd_Stop_def UpdateFilter_def Let_def split: if_splits\<close>)

text \<open>The reply to a block wakes one of the handlers that wait, which announces its own block.\<close>

lemma reply_wakes:
  assumes "smRunning (sdSync s)" and "sdReply s = None" and "\<not> sdBlockDone s" and "smQueue (sdSync s) = BlockMsg a p # ms"
    and "choice_ok ch (sdSync s)" and "sm_handle P V ch (BlockMsg a p) ((sdSync s)\<lparr>smQueue := ms\<rparr>) = Some t"
    and "sdBusy (share_block P V (BlockMsg a p) (sdSync s) (s\<lparr>sdSync := t\<rparr>)) q = Some (Waiting (OnBlock b))" and "cfAnnounce V"
  shows "\<exists>s'. sd_steps P V E s s' \<and> sdCommitted s' = sdCommitted s @ [b] \<and> sdSync s' = t"
proof -
  let ?u = "answer P V (BlockMsg a p) (share_block P V (BlockMsg a p) (sdSync s) (s\<lparr>sdSync := t\<rparr>))"
  have 1: "sd_step P V E s ?u" by (rule sd_step.handled [OF assms(1,2,4,5) _ assms(6)]) simp
  have u: "sdReply ?u = Some BlockDone" "\<not> sdBlockDone ?u" "sdBusy ?u q = Some (Waiting (OnBlock b))"
    "sdCommitted ?u = sdCommitted s" "sdSync ?u = t"
    using assms(3,7) by (simp_all add: answer_replies share_block_replies sends_committed)
  let ?v = "set_reply BlockDone True (?u\<lparr>sdReply := None\<rparr>)"
  have 2: "sd_step P V E ?u ?v" by (rule sd_step.replied [OF u(1)]) (simp add: reply_full_def u(2))
  have v: "sdBusy ?v q = Some (Waiting (OnBlock b))" "sdBlockDone ?v" "sdCommitted ?v = sdCommitted s" "sdSync ?v = t"
    using u by (simp_all add: set_reply_def)
  let ?w = "callback_done V 0 (OnBlock b) (set_reply (reply_of (OnBlock b)) False (?v\<lparr>sdBusy := (sdBusy ?v)(q := None)\<rparr>))"
  have 3: "sd_step P V E ?v ?w" by (rule sd_step.woken [OF v(1)]) (simp add: reply_full_def reply_of_def v(2))
  have "sdCommitted ?w = sdCommitted s @ [b]" "sdSync ?w = t"
    using v(3,4) assms(8) by (simp_all add: callback_done_def block_processed_def sends_committed Let_def)
  with 1 2 3 show ?thesis by (intro exI [of _ ?w]) (simp add: rtranclp.rtrancl_into_rtrancl)
qed

text \<open>With two peers that wait, the reply to the first block may wake the second peer: its block is
  announced while it is still in the queue.\<close>

lemma announced_before_processing:
  assumes "smRunning (sdSync s)" and "sdReply s = None" and "\<not> sdBlockDone s" and "smQueue (sdSync s) = BlockMsg a p # ms"
    and "choice_ok ch (sdSync s)" and "sm_handle P V ch (BlockMsg a p) ((sdSync s)\<lparr>smQueue := ms\<rparr>) = Some t"
    and "sdBusy s q = Some (Waiting (OnBlock b))" and "q \<noteq> p" and "cfAnnounce V"
  shows "\<exists>s'. sd_steps P V E s s' \<and> sdCommitted s' = sdCommitted s @ [b] \<and> smQueue (sdSync s') = ms"
proof -
  have "sdBusy (share_block P V (BlockMsg a p) (sdSync s) (s\<lparr>sdSync := t\<rparr>)) q = Some (Waiting (OnBlock b))"
    using assms(7,8) by (simp add: share_block_def)
  from reply_wakes [OF assms(1-6) this assms(9), of E] sm_handle_queue [OF assms(6)] show ?thesis by auto
qed

text \<open>\<open>BlockCommitted\<close> is documented as the notification of a block that was committed; it is sent
  for every block that was delivered, also for one nobody asked for, which leaves the chain as it
  is.\<close>

lemma unrequested_block_announced:
  assumes "smRunning (sdSync s)" and "sdReply s = None" and "\<not> sdBlockDone s" and "smQueue (sdSync s) = BlockMsg b p # ms"
    and "smStates (sdSync s) p = Some st" and "choice_ok ch (sdSync s)" and "hdr_hash (blkHeader b) \<notin> ssBlocks st"
    and "sdBusy s p = Some (Waiting (OnBlock b))" and "cfAnnounce V"
  shows "\<exists>s'. sd_steps P V E s s' \<and> smChain (sdSync s') = smChain (sdSync s) \<and> sdCommitted s' = sdCommitted s @ [b]"
proof -
  obtain t where t: "sm_handle P V ch (BlockMsg b p) ((sdSync s)\<lparr>smQueue := ms\<rparr>) = Some t" "smChain t = smChain (sdSync s)"
    using assms(5,7) by (cases "Some p \<noteq> smSync (sdSync s) \<and> \<not> sm_current P V ((sdSync s)\<lparr>smQueue := ms\<rparr>)")
      (simp_all add: sm_handle_def handleBlockMsg_def Let_def at_peer_def)
  have b: "block_after P V b p (sdSync s) = b" using assms(5,7) by (simp add: block_after_def)
  show ?thesis using reply_wakes [OF assms(1-4,6) t(1), of p b] assms(8,9) t(2) b by (auto simp: share_block_def)
qed

subsection \<open>After the stop\<close>

text \<open>A request for \<open>IsCurrent\<close> that nobody will answer: the sync manager's handler has ended.\<close>

definition stranded :: "nat \<Rightarrow> ask \<Rightarrow> ('p, 'c, 'r) service \<Rightarrow> bool" where
  "stranded c a s \<longleftrightarrow> sdRunning s \<and> \<not> smRunning (sdSync s) \<and> sdAsks s c = Some a \<and> sdAnswers s c = None \<and> c < sdChans s"

lemma stranded_cong:
  "stranded c a s \<Longrightarrow> sdRunning t = sdRunning s \<Longrightarrow> smRunning (sdSync t) = smRunning (sdSync s) \<Longrightarrow> sdAsks t = sdAsks s \<Longrightarrow>
   sdAnswers t = sdAnswers s \<Longrightarrow> sdChans t = sdChans s \<Longrightarrow> stranded c a t"
  by (simp add: stranded_def)

lemma to_sync_stranded: "stranded c a s \<Longrightarrow> stranded c a (to_sync m s)"
  by (auto simp: stranded_def to_sync_def sm_send_def)

lemma sd_IsCurrent_stranded: "stranded c a s \<Longrightarrow> stranded c a (sd_IsCurrent a' s)"
  by (auto simp: stranded_def sd_IsCurrent_def sm_requests)

lemma resume_stranded: "stranded c a s \<Longrightarrow> stranded c a (resume current now a' s)"
  by (cases a') (simp_all add: resume_def inv_answered_def send_answered_def to_sync_def sm_send_def stranded_def Let_def)

lemma run_callback_stranded: "stranded c a s \<Longrightarrow> stranded c a (run_callback p cb s)"
  by (cases cb) (simp_all add: run_callback_def onBlock_def onTx_def deliver_def to_sync_def sm_send_def stranded_def)

lemma onNotFound_stranded: "stranded c a s \<Longrightarrow> stranded c a (onNotFound P p ivs s)"
  unfolding onNotFound_def
proof (induction ivs arbitrary: s)
  case (Cons iv ivs)
  have "stranded c a (if ivType iv = InvTx then s else s\<lparr>sdSync := at_peer p (Disconnect P) (sdSync s)\<rparr>)"
    using Cons.prems by (auto simp: stranded_def at_peer_def)
  from Cons.IH [OF this] show ?case by simp
qed simp

lemma receive_stranded:
  assumes "receive P p m s = Some s'" and "stranded c a s"
  shows "stranded c a s'"
proof (cases "handleMessage P m (smPeers (sdSync s) p)")
  case (Some d)
  show ?thesis
    by (cases d) (use assms Some to_sync_stranded [OF assms(2)] sd_IsCurrent_stranded [OF assms(2)] onNotFound_stranded [OF assms(2)] in
      \<open>auto simp: receive_def onVersion_def onInv_def onReject_def stranded_def split: if_splits\<close>)
qed (use assms in \<open>simp add: receive_def\<close>)

lemma replies_stranded:
  "stranded c a s \<Longrightarrow> stranded c a (set_reply r f s)" "stranded c a s \<Longrightarrow> stranded c a (callback_done V now cb s)"
  by (cases r; simp add: set_reply_def stranded_def) (cases cb; simp add: callback_done_def block_processed_def stranded_def Let_def)

lemma sd_step_stranded: "sd_step P V E s s' \<Longrightarrow> stranded c a s \<Longrightarrow> stranded c a s'"
proof (induction rule: sd_step.induct)
  case (received p s m s')
  from receive_stranded [OF received(3,4)] show ?case .
next
  case (taken p s s')
  from taken(4) show ?case by (rule take_block_cases) (use taken(5) in \<open>auto simp: stranded_def at_peer_def\<close>)
next
  case (called s p cb cbs)
  then show ?case by (intro run_callback_stranded) (simp add: stranded_def)
next
  case (delivered s p cb)
  then show ?case by (intro replies_stranded) (simp add: stranded_def)
next
  case (woken s p cb now)
  then show ?case by (intro replies_stranded) (simp add: stranded_def)
next
  case (handled s m ms ch t)
  then show ?case by (simp add: stranded_def)
next
  case (replied s r)
  then show ?case by (intro replies_stranded) (simp add: stranded_def)
next
  case (answered s c' a' current time)
  have "c' \<noteq> c" using answered by (auto simp: stranded_def)
  with answered(3) show ?case by (intro resume_stranded) (simp add: stranded_def)
next
  case (peers s m ms p)
  then show ?case by (cases m) (simp_all add: stranded_def handlePeerMsg_def)
next
  case (sending s tx)
  then show ?case by (simp add: SendTransaction_def sd_IsCurrent_stranded)
next
  case (disconnected s p)
  then show ?case by (simp add: handleDisconnect_def to_sync_stranded)
next
  case (started s)
  then show ?case by (simp add: stranded_def)
qed (auto simp: stranded_def pool_handle_def sd_newPeer_def sd_donePeer_def sd_Stop_def sm_Stop_def UpdateFilter_def Let_def
    split: prod.split if_splits)

text \<open>Reply channels are fresh: whatever is asked or answered has a smaller number than the next one.\<close>

definition chans_ok :: "('p, 'c, 'r) service \<Rightarrow> bool" where
  "chans_ok s \<longleftrightarrow> (\<forall>c. sdAsks s c \<noteq> None \<or> sdAnswers s c \<noteq> None \<or> IsCurrentMsg c \<in> set (smQueue (sdSync s)) \<longrightarrow> c < sdChans s)"

lemma chans_ok_cong:
  "chans_ok s \<Longrightarrow> sdAsks t = sdAsks s \<Longrightarrow> sdAnswers t = sdAnswers s \<Longrightarrow> sdChans t = sdChans s \<Longrightarrow>
   (\<And>c. IsCurrentMsg c \<in> set (smQueue (sdSync t)) \<Longrightarrow> IsCurrentMsg c \<in> set (smQueue (sdSync s))) \<Longrightarrow> chans_ok t"
  unfolding chans_ok_def by auto

lemma to_sync_chans: "chans_ok s \<Longrightarrow> (\<And>c. m \<noteq> IsCurrentMsg c) \<Longrightarrow> chans_ok (to_sync m s)"
  by (erule chans_ok_cong) (auto simp: to_sync_def dest!: sm_send_queue)

lemma sd_IsCurrent_chans: "chans_ok s \<Longrightarrow> chans_ok (sd_IsCurrent a s)"
  by (auto simp: chans_ok_def sd_IsCurrent_def intro: less_SucI)

lemma onNotFound_chans: "chans_ok s \<Longrightarrow> chans_ok (onNotFound P p ivs s)"
  unfolding onNotFound_def
proof (induction ivs arbitrary: s)
  case (Cons iv ivs)
  have "chans_ok (if ivType iv = InvTx then s else s\<lparr>sdSync := at_peer p (Disconnect P) (sdSync s)\<rparr>)"
    using Cons.prems by (simp add: chans_ok_def handlers_queue)
  from Cons.IH [OF this] show ?case by simp
qed simp

lemma receive_chans:
  assumes "receive P p m s = Some s'" and "chans_ok s"
  shows "chans_ok s'"
proof (cases "handleMessage P m (smPeers (sdSync s) p)")
  case (Some d)
  have "chans_ok (s\<lparr>sdTxQueue := x\<rparr>)" "chans_ok (s\<lparr>sdBlockQueues := y\<rparr>)" for x y
    using assms(2) by (simp_all add: chans_ok_def)
  with assms Some to_sync_chans [OF assms(2), of "NewPeerMsg p"] sd_IsCurrent_chans [OF assms(2)] onNotFound_chans [OF assms(2)]
  show ?thesis by (cases d) (auto simp: receive_def onVersion_def onInv_def onReject_def split: if_splits)
qed (use assms in \<open>simp add: receive_def\<close>)

lemma share_block_chans:
  "sdAsks (share_block P V m before s) = sdAsks s" "sdAnswers (share_block P V m before s) = sdAnswers s"
  "sdChans (share_block P V m before s) = sdChans s"
  by (cases m; simp add: share_block_def)+

lemma answer_chans:
  "sdAsks (answer P V m s) = sdAsks s" "sdChans (answer P V m s) = sdChans s"
  "m \<notin> range IsCurrentMsg \<Longrightarrow> sdAnswers (answer P V m s) = sdAnswers s"
  by (cases m; simp add: answer_def sm_answer_def)+

lemma handled_chans:
  assumes "chans_ok s" and "smQueue (sdSync s) = m # ms" and "smQueue t = ms"
  shows "chans_ok (answer P V m (share_block P V m before (s\<lparr>sdSync := t\<rparr>)))"
proof -
  let ?u = "share_block P V m before (s\<lparr>sdSync := t\<rparr>)"
  have u: "chans_ok ?u"
    by (rule chans_ok_cong [OF assms(1)]) (use assms(2,3) in \<open>simp_all add: share_block_chans\<close>)
  show ?thesis
  proof (cases "\<exists>c. m = IsCurrentMsg c")
    case True
    then obtain c where c: "m = IsCurrentMsg c" by blast
    then have "c < sdChans ?u" using assms(1,2) by (simp add: chans_ok_def share_block_chans)
    with u c show ?thesis by (simp add: answer_def sm_answer_def chans_ok_def)
  next
    case False
    then have "m \<notin> range IsCurrentMsg" by blast
    then show ?thesis by (intro chans_ok_cong [OF u]) (simp_all add: answer_chans)
  qed
qed

lemma replies_chans: "chans_ok s \<Longrightarrow> chans_ok (set_reply r f s)" "chans_ok s \<Longrightarrow> chans_ok (callback_done V now cb s)"
  by (cases r; simp add: set_reply_def chans_ok_def) (cases cb; simp add: callback_done_def block_processed_def chans_ok_def Let_def)

lemma callbacks_chans: "chans_ok s \<Longrightarrow> chans_ok (run_callback p cb s)"
  by (cases cb) (auto simp: run_callback_def onBlock_def onTx_def deliver_def chans_ok_def to_sync_def dest!: sm_send_queue)

lemma resume_chans: "chans_ok s \<Longrightarrow> chans_ok (resume current now a s)"
  by (cases a) (auto simp: resume_def inv_answered_def send_answered_def chans_ok_def to_sync_def Let_def dest!: sm_send_queue)

lemma sd_step_chans: "sd_step P V E s s' \<Longrightarrow> chans_ok s \<Longrightarrow> chans_ok s'"
proof (induction rule: sd_step.induct)
  case (received p s m s')
  from receive_chans [OF received(3,4)] show ?case .
next
  case (taken p s s')
  from taken(4) show ?case by (rule take_block_cases) (use taken(5) in \<open>simp add: chans_ok_def handlers_queue\<close>)
next
  case (handled s m ms ch t)
  show ?case by (rule handled_chans [OF handled(7,3)]) (use sm_handle_queue [OF handled(6)] in simp)
next
  case (peers s m ms p)
  then show ?case by (cases m) (simp_all add: chans_ok_def handlePeerMsg_def)
next
  case (answered s c a current time)
  then show ?case by (intro resume_chans) (auto simp: chans_ok_def)
next
  case (disconnected s p)
  then show ?case by (simp add: handleDisconnect_def to_sync_chans)
next
  case (sending s tx)
  then show ?case by (simp add: SendTransaction_def sd_IsCurrent_chans)
next
  case (called s p cb cbs)
  then show ?case by (intro callbacks_chans) (simp add: chans_ok_def)
next
  case (delivered s p cb)
  then show ?case by (intro replies_chans) (simp add: chans_ok_def)
next
  case (woken s p cb now)
  then show ?case by (intro replies_chans) (simp add: chans_ok_def)
next
  case (replied s r)
  then show ?case by (intro replies_chans) (simp add: chans_ok_def)
qed (auto simp: chans_ok_def pool_handle_def sd_newPeer_def sd_donePeer_def sd_Start_def sd_Stop_def UpdateFilter_def Let_def
    split: prod.split if_splits)

lemma sd_reachable_chans: "sd_reachable P V E s \<Longrightarrow> chans_ok s"
proof (induction rule: sd_reachable.induct)
  case (init peers genesis c s)
  then show ?case by (auto simp: newService_def fresh_service_def chans_ok_def sm_New_def split: prod.splits option.splits)
next
  case (step s s')
  with sd_step_chans show ?case by blast
qed

text \<open>C31: A transaction that is sent when the sync manager's handler has ended after a stop
  is neither sent nor refused: whatever happens afterwards, the caller waits for the answer of \<open>IsCurrent\<close>,
  which nobody gives.\<close>

theorem SendTransaction_after_stop_hangs:
  assumes "sd_reachable P V E s" and "sdRunning s" and "\<not> smRunning (sdSync s)" and "sd_steps P V E (SendTransaction tx s) s'"
  shows "sdAsks s' (sdChans s) = Some (AskSend tx) \<and> sdAnswers s' (sdChans s) = None"
proof -
  have "sdAnswers s (sdChans s) = None" using sd_reachable_chans [OF assms(1)] unfolding chans_ok_def by blast
  then have "stranded (sdChans s) (AskSend tx) (SendTransaction tx s)"
    using assms(2,3) by (simp add: stranded_def SendTransaction_def sd_IsCurrent_def sm_requests)
  with assms(4) have "stranded (sdChans s) (AskSend tx) s'"
    by (induction rule: rtranclp.induct) (blast intro: sd_step_stranded)+
  then show ?thesis by (simp add: stranded_def)
qed

subsection \<open>Witnesses\<close>

text \<open>The run of the sync manager's witnesses with the messages of the peer: it connects, announces a
  block, is asked for it and sends its Merkle block and its transaction. \<open>n\<close> counts the
  questions whether the chain is current.\<close>

definition svc :: "(sample_conn, sample_db, rat) sync_manager \<Rightarrow> download \<Rightarrow> nat \<Rightarrow> (sample_conn, sample_db, rat) service" where
  "svc t d n = (fresh_service t)\<lparr>sdNodes := [0 \<mapsto> 1], sdPeers := {1}, sdRunning := True,
     sdDownloads := (\<lambda>_. no_download)(1 := d), sdChans := n\<rparr>"

abbreviation svc_reachable :: "(sample_conn, sample_db, rat) service \<Rightarrow> bool" where
  "svc_reachable \<equiv> sd_reachable peer0 sample_cfg codec0"

abbreviation svc_step :: "(sample_conn, sample_db, rat) service \<Rightarrow> (sample_conn, sample_db, rat) service \<Rightarrow> bool" where
  "svc_step \<equiv> sd_step peer0 sample_cfg codec0"

lemma const_upd [simp]: "(\<lambda>_. a)(x := a) = (\<lambda>_. a)"
  by auto

lemma svc_sel [simp]:
  "sdSync (svc t d n) = t" "sdPeers (svc t d n) = {1}" "sdDownloads (svc t d n) 1 = d" "sdRunning (svc t d n)" "sdReply (svc t d n) = None"
  "sdBusy (svc t d n) = Map.empty" "sdTodo (svc t d n) = (\<lambda>_. [])" "sdBlockQueues (svc t d n) = (\<lambda>_. [])" "sdEnded (svc t d n) = {}"
  "sdAsks (svc t d n) = Map.empty" "sdAnswers (svc t d n) = Map.empty" "sdCommitted (svc t d n) = []" "sdBlockDone (svc t d n) = False"
  "sdTxQueue (svc t d n) = []" "sdChans (svc t d n) = n" "\<not> inv_waits p (svc t d n)"
  by (simp_all add: svc_def fresh_service_def inv_waits_def)

lemma svc_sync [simp]: "(svc t d n)\<lparr>sdSync := t'\<rparr> = svc t' d n"
  by (simp add: svc_def fresh_service_def)

lemma svc_start:
  assumes "bc_New sample_store sample_genesis c0 = (None, c)"
  shows "svc_reachable (svc (sm_Start (sync0 c)) no_download 0)"
proof -
  let ?s = "fresh_service (sync0 c)"
  let ?a = "sd_Start ?s"
  let ?b = "sd_newPeer 0 (True, 0, 0) ?a"
  have "newService sample_cfg sample_genesis (\<lambda>_. conn0) c0 = Inr ?s"
    using assms by (simp add: newService_def sample_cfg_def sync0_def)
  then have "svc_reachable ?s" by (rule sd_reachable.init [rotated]) (simp add: NewPeer_def)
  from sd_reachable.step [OF this sd_step.started] have "svc_reachable ?a" by (simp add: fresh_service_def)
  from sd_reachable.step [OF this sd_step.connected] have b: "svc_reachable ?b" .
  have p: "sdRunning ?b" "\<not> sdPeersDone ?b" "sdPeerQueue ?b = [PeerNew 0 (True, 0, 0)]" "1 \<notin> sdPeers ?b" "smStates (sdSync ?b) 1 = None"
    by (simp_all add: sd_newPeer_def sd_Start_def fresh_service_def sm_Start_def sync0_def sm_New_def Let_def)
  from sd_reachable.step [OF b sd_step.peers [OF p]]
  have "svc_reachable (handlePeerMsg 1 (PeerNew 0 (True, 0, 0)) (?b\<lparr>sdPeerQueue := []\<rparr>))" .
  moreover have "handlePeerMsg 1 (PeerNew 0 (True, 0, 0)) (?b\<lparr>sdPeerQueue := []\<rparr>) = svc (sm_Start (sync0 c)) no_download 0"
    by (simp add: handlePeerMsg_def sd_newPeer_def sd_Start_def fresh_service_def svc_def sm_Start_def sync0_def sm_New_def Let_def)
  ultimately show ?thesis by simp
qed

lemma svc_handled:
  assumes "svc_reachable (svc t d n)" and "sm_handle peer0 sample_cfg sample_choice m (t\<lparr>smQueue := []\<rparr>) = Some t'"
    and "smRunning t" and "smQueue t = [m]" and "dom (smStates t) \<subseteq> {1}"
    and "\<And>p. m = NewPeerMsg p \<Longrightarrow> smStates t p = None" and "sm_answer peer0 sample_cfg m t' = None"
  shows "svc_reachable (svc t' d n)"
proof -
  have "svc_step (svc t d n) (answer peer0 sample_cfg m (share_block peer0 sample_cfg m t ((svc t d n)\<lparr>sdSync := t'\<rparr>)))"
    using sd_step.handled [of "svc t d n" m "[]" sample_choice peer0 sample_cfg t' codec0] assms sample_choice_ok [OF assms(5)]
    by simp
  moreover have "answer peer0 sample_cfg m (share_block peer0 sample_cfg m t ((svc t d n)\<lparr>sdSync := t'\<rparr>)) = svc t' d n"
    using assms(7) by (cases m) (auto simp: answer_def sm_answer_def share_block_def)
  ultimately show ?thesis using assms(1) sd_reachable.step by metis
qed

lemma svc_received:
  assumes "svc_reachable (svc t d n)" and "receive peer0 1 m (svc t d n) = Some s"
  shows "svc_reachable s"
  using sd_reachable.step [OF assms(1) sd_step.received [OF _ _ assms(2)]] by simp

text \<open>An inventory message without transactions: the question, its answer, the message to the manager.\<close>

lemma svc_inv:
  assumes "svc_reachable (svc t d n)" and "smQueue t = []" and "smRunning t" and "pConnected peer0 (spPeer (smPeers t 1))"
    and "dom (smStates t) \<subseteq> {1}" and "\<forall>iv \<in> set ivs. ivType iv \<noteq> InvTx"
  shows "svc_reachable (svc (sm_send (InvMsg ivs 1) t) d (Suc n))"
proof -
  let ?t = "t\<lparr>smQueue := [IsCurrentMsg n]\<rparr>" and ?cur = "sm_current peer0 sample_cfg t"
  let ?a = "(svc ?t d (Suc n))\<lparr>sdAsks := [n \<mapsto> AskInv 1 ivs]\<rparr>"
  let ?b = "(svc t d (Suc n))\<lparr>sdAsks := [n \<mapsto> AskInv 1 ivs], sdAnswers := [n \<mapsto> ?cur]\<rparr>"
  have "receive peer0 1 (MInv ivs) (svc t d n) = Some ?a"
    using assms(2,4) by (simp add: receive_def handleMessage_def onInv_def sd_IsCurrent_def sm_requests svc_def fresh_service_def)
  with assms(1) have a: "svc_reachable ?a" by (rule svc_received)
  have t: "?t\<lparr>smQueue := []\<rparr> = t" using assms(2) by simp
  have "svc_step ?a (answer peer0 sample_cfg (IsCurrentMsg n) (share_block peer0 sample_cfg (IsCurrentMsg n) (sdSync ?a) (?a\<lparr>sdSync := t\<rparr>)))"
    by (rule sd_step.handled [where ms = "[]" and ch = sample_choice])
      (use assms(3,5) t in \<open>simp_all add: sm_handle_def sample_choice_ok\<close>)
  moreover have "answer peer0 sample_cfg (IsCurrentMsg n) (share_block peer0 sample_cfg (IsCurrentMsg n) (sdSync ?a) (?a\<lparr>sdSync := t\<rparr>)) = ?b"
    by (simp add: answer_def sm_answer_def share_block_def svc_def fresh_service_def)
  ultimately have b: "svc_reachable ?b" using a sd_reachable.step by metis
  have q: "sdAsks ?b n = Some (AskInv 1 ivs)" "sdAnswers ?b n = Some ?cur" by simp_all
  have e: "?b\<lparr>sdAsks := (sdAsks ?b)(n := None), sdAnswers := (sdAnswers ?b)(n := None)\<rparr> = svc t d (Suc n)"
    by (simp add: svc_def fresh_service_def)
  have "filter (\<lambda>iv. ivType iv = InvTx) ivs = []" using assms(6) by (simp add: filter_empty_conv)
  then have "resume ?cur 0 (AskInv 1 ivs) (svc t d (Suc n)) = svc (sm_send (InvMsg ivs 1) t) d (Suc n)"
    by (simp add: resume_def inv_answered_def to_sync_def svc_def fresh_service_def Let_def)
  with sd_step.answered [OF q, of peer0 sample_cfg codec0 0] have "svc_step ?b (svc (sm_send (InvMsg ivs 1) t) d (Suc n))"
    unfolding e by simp
  with b show ?thesis by (rule sd_reachable.step)
qed

text \<open>A message for the block handler, which takes it.\<close>

lemma svc_taken:
  assumes "svc_reachable (svc t d n)" and "handleMessage peer0 m (smPeers t 1) = Some (ToBlockQueue m)"
    and "block_message peer0 codec0 m (smPeers t 1) d = Some (smPeers t 1, d', cbs)"
  shows "svc_reachable ((svc t d' n)\<lparr>sdTodo := (\<lambda>_. [])(1 := cbs)\<rparr>)"
proof -
  let ?a = "(svc t d n)\<lparr>sdBlockQueues := (\<lambda>_. [])(1 := [m])\<rparr>"
  have "receive peer0 1 m (svc t d n) = Some ?a" using assms(2) by (simp add: receive_def)
  with assms(1) have a: "svc_reachable ?a" by (rule svc_received)
  have "take_block peer0 codec0 1 ?a = Some ((svc t d' n)\<lparr>sdTodo := (\<lambda>_. [])(1 := cbs)\<rparr>)"
    using assms(3) at_peer_same [of 1 t] by (simp add: take_block_def) (simp add: svc_def fresh_service_def)
  from sd_reachable.step [OF a sd_step.taken [OF _ _ _ this]] show ?thesis by simp
qed

text \<open>A block the handler has ready is delivered.\<close>

lemma svc_called:
  assumes "svc_reachable ((svc t d n)\<lparr>sdTodo := (\<lambda>_. [])(1 := [OnBlock b])\<rparr>)" and "smShutdown t = 0"
  shows "svc_reachable ((svc (sm_send (BlockMsg b 1) t) d n)\<lparr>sdBusy := [1 \<mapsto> Waiting (OnBlock b)]\<rparr>)"
proof -
  let ?a = "(svc t d n)\<lparr>sdTodo := (\<lambda>_. [])(1 := [OnBlock b])\<rparr>"
  have "svc_step ?a (run_callback 1 (OnBlock b) (?a\<lparr>sdTodo := (sdTodo ?a)(1 := [])\<rparr>))" by (rule sd_step.called) simp_all
  moreover have "run_callback 1 (OnBlock b) (?a\<lparr>sdTodo := (sdTodo ?a)(1 := [])\<rparr>) =
      (svc (sm_send (BlockMsg b 1) t) d n)\<lparr>sdBusy := [1 \<mapsto> Waiting (OnBlock b)]\<rparr>"
    using assms(2) by (simp add: run_callback_def onBlock_def deliver_def to_sync_def svc_def fresh_service_def)
  ultimately show ?thesis using assms(1) sd_reachable.step by metis
qed

lemma one_tx_block_messages:
  assumes "pConnected peer0 (spPeer p)"
  shows "\<exists>d. block_message peer0 codec0 (MMerkleBlock one_tx_block) p no_download = Some (p, d, []) \<and>
    block_message peer0 codec0 (MTx (Some one_tx)) p d = Some (p, no_download, [OnBlock served_blk])"
proof -
  let ?d = "no_download\<lparr>dlHeader := Some (proof_header one_tx_block), dlPending := {5}, dlTxs := []\<rparr>"
  have "block_message peer0 codec0 (MMerkleBlock one_tx_block) p no_download = Some (p, ?d, [])"
    using one_tx_check by (simp add: block_message_def Let_def no_download_def)
  moreover have "block_message peer0 codec0 (MTx (Some one_tx)) p ?d = Some (p, no_download, [OnBlock served_blk])"
    using assms by (simp add: block_message_def Let_def no_download_def notifyBlock_def one_tx_def served_blk_def)
  ultimately show ?thesis by blast
qed

text \<open>The state with the block of the peer in the manager's queue.\<close>

definition svc3 :: "sample_db \<Rightarrow> (sample_conn, sample_db, rat) service" where
  "svc3 c = (svc ((sync2 c)\<lparr>smQueue := [BlockMsg served_blk 1]\<rparr>) no_download 1)\<lparr>sdBusy := [1 \<mapsto> Waiting (OnBlock served_blk)]\<rparr>"

lemma svc_run:
  assumes "bc_New sample_store sample_genesis c0 = (None, c)"
    and "hGetBest (csHeaders sample_store) c = Inr (genesis_header sample_genesis)" and "\<not> HaveBlock sample_store 2 c"
  shows "svc_reachable (svc3 c)"
proof -
  let ?a = "sm_Start (sync0 c)"
  have a: "smQueue ?a = []" "smStates ?a = Map.empty" "smShutdown ?a = 0" "smPeers ?a = (\<lambda>_. conn0)" "smRunning ?a"
    by (simp_all add: sm_Start_def sync0_def sm_New_def Let_def)
  have a0: "smQueue (sync0 c) = []" by (simp add: sync0_def sm_New_def)
  have "receive peer0 1 MVersion (svc ?a no_download 0) = Some (svc (sm_send (NewPeerMsg 1) ?a) no_download 0)"
    using conn0_connected by (simp add: receive_def handleMessage_def onVersion_def to_sync_def a)
  with svc_start [OF assms(1)] have 1: "svc_reachable (svc (sm_send (NewPeerMsg 1) ?a) no_download 0)" by (rule svc_received)
  have "BestHeight sample_store c = 0" using assms(2) by (simp add: BestHeight_def genesis_header_def)
  then have "sm_handle peer0 sample_cfg sample_choice (NewPeerMsg 1) ((sm_send (NewPeerMsg 1) ?a)\<lparr>smQueue := []\<rparr>) = Some (sync1 c)"
    by (simp add: sm_handle_def handleNewPeerMsg_def Let_def sync0_def sync1_def sm_New_def isSyncCandidate_def sm_Start_def
        sm_send_def sample_cfg_def pushBloomFilter_def at_peer_def startSync_def sample_choice_def new_state_def
        QueueMessage_def NewPeer_def peer0_def)
  with 1 have 2: "svc_reachable (svc (sync1 c) no_download 0)" by (rule svc_handled) (simp_all add: sm_send_def a a0 sm_answer_def)
  have s1: "smShutdown (sync1 c) = 0" "smRunning (sync1 c)" "smQueue (sync1 c) = []" "dom (smStates (sync1 c)) \<subseteq> {1}"
    "pConnected peer0 (spPeer (smPeers (sync1 c) 1))"
    by (simp_all add: sync1_def sync0_def sm_New_def peer0_def NewPeer_def QueueMessage_def)
  from svc_inv [OF 2 s1(3,2,5,4), of "[sample_iv]"]
  have 3: "svc_reachable (svc (sm_send (InvMsg [sample_iv] 1) (sync1 c)) no_download 1)" by simp
  have "(sm_send (InvMsg [sample_iv] 1) (sync1 c))\<lparr>smQueue := []\<rparr> = sync1 c"
    by (simp add: sm_send_def sync1_def sync0_def sm_New_def)
  with sync2_step [OF assms(2,3)]
  have "sm_handle peer0 sample_cfg sample_choice (InvMsg [sample_iv] 1) ((sm_send (InvMsg [sample_iv] 1) (sync1 c))\<lparr>smQueue := []\<rparr>) = Some (sync2 c)"
    by (simp add: sm_handle_def)
  with 3 have 4: "svc_reachable (svc (sync2 c) no_download 1)" by (rule svc_handled) (use s1 in \<open>simp_all add: sm_send_def sm_answer_def\<close>)
  have s2: "smShutdown (sync2 c) = 0" "smQueue (sync2 c) = []" "pConnected peer0 (spPeer (smPeers (sync2 c) 1))"
    by (simp_all add: sync2_def sync1_def sync0_def sm_New_def peer0_def NewPeer_def QueueMessage_def)
  from one_tx_block_messages [OF s2(3)] obtain d where
    d: "block_message peer0 codec0 (MMerkleBlock one_tx_block) (smPeers (sync2 c) 1) no_download = Some (smPeers (sync2 c) 1, d, [])"
      "block_message peer0 codec0 (MTx (Some one_tx)) (smPeers (sync2 c) 1) d = Some (smPeers (sync2 c) 1, no_download, [OnBlock served_blk])"
    by blast
  have m: "handleMessage peer0 (MMerkleBlock one_tx_block) (smPeers (sync2 c) 1) = Some (ToBlockQueue (MMerkleBlock one_tx_block))"
    "handleMessage peer0 (MTx (Some one_tx)) (smPeers (sync2 c) 1) = Some (ToBlockQueue (MTx (Some one_tx)))"
    using s2(3) by (simp_all add: handleMessage_def)
  have idle: "(svc t d' n)\<lparr>sdTodo := (\<lambda>_. [])(1 := [])\<rparr> = svc t d' n" for t d' n by (simp add: svc_def fresh_service_def)
  from svc_taken [OF 4 m(1) d(1)] have 5: "svc_reachable (svc (sync2 c) d 1)" unfolding idle .
  from svc_called [OF svc_taken [OF 5 m(2) d(2)] s2(1)] show ?thesis by (simp add: svc3_def sm_send_def s2)
qed

text \<open>The manager handles the block, which it had requested.\<close>

lemma svc3_handled:
  assumes "hGetBest (csHeaders sample_store) c = Inr (genesis_header sample_genesis)"
  shows "\<exists>s b. svc_step (svc3 c) s \<and> smChain (sdSync s) \<noteq> c \<and> sdReply s = Some BlockDone \<and> \<not> sdBlockDone s \<and>
    sdBusy s = [1 \<mapsto> Waiting (OnBlock b)] \<and> sdCommitted s = []"
proof -
  let ?a = "(sync2 c)\<lparr>smQueue := [BlockMsg served_blk 1]\<rparr>" and ?m = "BlockMsg served_blk 1"
  obtain q c' where q: "bc_CommitBlock sample_store served_blk c = Some (q, c')" "c' \<noteq> c"
    using served_commit [OF assms] by blast
  obtain t where t: "sm_handle peer0 sample_cfg sample_choice ?m (?a\<lparr>smQueue := []\<rparr>) = Some t" "smChain t = c'"
    using q(1) by (simp add: sm_handle_def handleBlockMsg_def Let_def sync2_def sync1_def sync0_def sm_New_def sm_current_def
        sample_cfg_def served_blk_def proof_header_def one_tx_block_def)
  let ?s = "answer peer0 sample_cfg ?m (share_block peer0 sample_cfg ?m ?a ((svc3 c)\<lparr>sdSync := t\<rparr>))"
  have "choice_ok sample_choice ?a" by (rule sample_choice_ok) (simp add: sync2_def)
  then have "svc_step (svc3 c) ?s"
    using sd_step.handled [of "svc3 c" ?m "[]" sample_choice peer0 sample_cfg t codec0] t(1)
    by (simp add: svc3_def sync2_def sync1_def)
  moreover have "sdReply ?s = Some BlockDone" "\<not> sdBlockDone ?s" "sdCommitted ?s = []"
    by (simp_all add: answer_replies share_block_replies sends_committed svc3_def)
  moreover have "sdBusy ?s = [1 \<mapsto> Waiting (OnBlock (block_after peer0 sample_cfg served_blk 1 ?a))]"
    by (simp add: answer_replies share_block_def svc3_def)
  moreover have "smChain (sdSync ?s) \<noteq> c" using t(2) q(2) by simp
  ultimately show ?thesis by blast
qed

lemma svc3_chain [simp]: "smChain (sdSync (svc3 c)) = c"
  by (simp add: svc3_def sync2_def sync1_def sync0_def sm_New_def)


theorem SendTransaction_after_stop_hangs_witness:
  "\<exists>s. svc_reachable s \<and> sdAsks (SendTransaction one_tx s) 0 = Some (AskSend one_tx) \<and> sdAnswers (SendTransaction one_tx s) 0 = None"
proof -
  obtain c where n: "bc_New sample_store sample_genesis \<lparr>cdH = store0, cdT = ()\<rparr> = (None, c)" by (rule sample_chain)
  let ?a = "svc (sm_Start (sync0 c)) no_download 0"
  let ?b = "?a\<lparr>sdSync := sm_Stop (sm_Start (sync0 c)), sdQuit := True\<rparr>"
  let ?c = "?b\<lparr>sdSync := (sdSync ?b)\<lparr>smRunning := False, smQueue := []\<rparr>\<rparr>"
  have "sd_Stop ?a = Inr ?b" by (simp add: sd_Stop_def Let_def) (simp add: svc_def fresh_service_def)
  from sd_reachable.step [OF svc_start [OF n] sd_step.stopped [OF this]] have "svc_reachable ?b" .
  moreover have "svc_step ?b ?c"
    by (rule sd_step.drained) (simp_all add: sm_Stop_def sm_Start_def sync0_def sm_New_def Let_def svc_def fresh_service_def)
  ultimately have r: "svc_reachable ?c" by (rule sd_reachable.step)
  from SendTransaction_after_stop_hangs [OF r, of one_tx] r show ?thesis
    by (intro exI [of _ ?c]) (simp add: svc_def fresh_service_def)
qed

end
