(* ===== verification/ServiceReplies.thy ===== *)
theory ServiceReplies
  imports Service
begin

text \<open>
  The replies to blocks and the notification of committed blocks (\<open>onBlock\<close> in \<open>sdk/service.go\<close>,
  \<open>QueueBlock\<close> in \<open>sync/manager.go\<close>): a run of the service with the list of the block messages its
  sync manager has processed, and the property that a block is announced only after it is in this list.
  \<open>told\<close> is the invariant. The two ways around it, a second peer that takes the reply and a
  shutdown, in which \<open>QueueBlock\<close> puts the reply into the channel itself, are shown to be real.
\<close>

subsection \<open>The processed blocks of a run\<close>

text \<open>The sync manager has a reply to a block ready exactly after its handler took a block message from the
  head of the queue.\<close>

definition processed ::
  "sm_msg list \<Rightarrow> ('p, 'c, 'r) service \<Rightarrow> ('p, 'c, 'r) service \<Rightarrow> sm_msg list" where
  "processed H s s' = (if sdReply s = None \<and> sdReply s' = Some BlockDone then H @ [hd (smQueue (sdSync s))] else H)"

lemma processed_same: "sdReply s' = sdReply s \<Longrightarrow> processed H s s' = H"
  by (cases "sdReply s") (simp_all add: processed_def)

inductive sd_trace ::
  "'p peer_if \<Rightarrow> 'c sm_config \<Rightarrow> codec \<Rightarrow> sm_msg list \<Rightarrow> ('p, 'c, 'r::linordered_field) service \<Rightarrow> bool" for P V E where
  init: "(\<And>p. spOut (peers p) = []) \<Longrightarrow> newService V genesis peers c = Inr s \<Longrightarrow> sd_trace P V E [] s"
| step: "sd_trace P V E H s \<Longrightarrow> sd_step P V E s s' \<Longrightarrow> sd_trace P V E (processed H s s') s'"

lemma sd_trace_reachable: "sd_trace P V E H s \<Longrightarrow> sd_reachable P V E s"
  by (induction rule: sd_trace.induct) (auto intro: sd_reachable.intros)

lemma reachable_sd_trace: "sd_reachable P V E s \<Longrightarrow> \<exists>H. sd_trace P V E H s"
  by (induction rule: sd_reachable.induct) (auto intro: sd_trace.intros)

lemma receive_reply: "receive P p m s = Some s' \<Longrightarrow> sdReply s' = sdReply s"
  using receive_replies by blast

lemma run_callback_reply: "sdReply (run_callback p cb s) = sdReply s"
  by (cases cb) (simp_all add: run_callback_def onBlock_def onTx_def deliver_def to_sync_def)

lemma set_reply_reply: "sdReply (set_reply r f s) = sdReply s"
  by (cases r) (simp_all add: set_reply_def)

text \<open>A step after which the reply is ready is one of the handler of the sync manager.\<close>

lemma reply_ready:
  assumes "sd_step P V E s s'" and "sdReply s = None" and "sdReply s' = Some BlockDone"
  obtains b p ms ch t where "smQueue (sdSync s) = BlockMsg b p # ms" and "sm_handle P V ch (BlockMsg b p) ((sdSync s)\<lparr>smQueue := ms\<rparr>) = Some t"
    and "s' = answer P V (BlockMsg b p) (share_block P V (BlockMsg b p) (sdSync s) (s\<lparr>sdSync := t\<rparr>))"
  using assms(1)
proof (cases rule: sd_step.cases)
  case (received p m)
  with receive_reply assms(2,3) show ?thesis by fastforce
next
  case (taken p)
  from taken(4) show ?thesis by (rule take_block_cases) (use assms(2,3) in simp)
next
  case (handled m ms ch t)
  with assms(2,3) show ?thesis by (cases m) (auto simp: answer_replies share_block_replies intro: that)
next
  case (peers m ms p)
  then show ?thesis using assms(2,3) by (cases m) (simp_all add: handlePeerMsg_def)
qed (use assms(2,3) in \<open>auto simp: run_callback_reply set_reply_reply callback_done_replies resume_replies
    pool_handle_def case_prod_beta SendTransaction_def sd_IsCurrent_def sd_newPeer_def sd_donePeer_def handleDisconnect_def
    to_sync_def sd_Start_def sd_Stop_def UpdateFilter_def Let_def split: if_splits\<close>)

subsection \<open>The invariant\<close>

text \<open>The last block message of a peer in a list.\<close>

fun last_block :: "nat \<Rightarrow> sm_msg list \<Rightarrow> block option" where
  "last_block p [] = None"
| "last_block p (m # ms) =
     (case last_block p ms of
        Some b \<Rightarrow> Some b
      | None \<Rightarrow> (case m of BlockMsg b q \<Rightarrow> if q = p then Some b else None | _ \<Rightarrow> None))"

lemma last_block_append:
  "last_block p (xs @ ys) = (case last_block p ys of Some b \<Rightarrow> Some b | None \<Rightarrow> last_block p xs)"
  by (induction xs) (auto split: option.split)

lemma last_block_none: "\<forall>b q. BlockMsg b q \<notin> set ms \<Longrightarrow> last_block p ms = None"
  by (induction ms) (auto split: sm_msg.split)

lemma last_block_other: "(\<And>b p. m \<noteq> BlockMsg b p) \<Longrightarrow> last_block p (xs @ m # ys) = last_block p (xs @ ys)"
  by (simp add: last_block_append split: option.split sm_msg.split)

text \<open>The same block up to the height and the total work, which \<open>CommitBlock\<close> sets.\<close>

definition same_block :: "block \<Rightarrow> block \<Rightarrow> bool" where
  "same_block a b \<longleftrightarrow> block_proof (blkHeader a) = block_proof (blkHeader b) \<and> blkTransactions a = blkTransactions b"

lemma same_block_after: "same_block a b \<Longrightarrow> same_block a (block_after P V b p s)"
  by (auto simp: same_block_def block_after_def CommitBlock_header split: option.split)

text \<open>A handler that waits has its block in the queue or among the processed ones, as the last of its peer,
  unless the manager is shutting down.\<close>

definition told :: "sm_msg list \<Rightarrow> ('p, 'c, 'r) service \<Rightarrow> bool" where
  "told H s \<longleftrightarrow>
     (smShutdown (sdSync s) = 0 \<longrightarrow> \<not> smQuit (sdSync s) \<and>
        (\<forall>p b. sdBusy s p \<noteq> Some (Delivering (OnBlock b))) \<and>
        (\<forall>p b. sdBusy s p = Some (Waiting (OnBlock b)) \<longrightarrow>
           (\<exists>a. last_block p (H @ smQueue (sdSync s)) = Some a \<and> same_block a b))) \<and>
     (smShutdown (sdSync s) \<noteq> 0 \<longrightarrow> sdQuit s)"

lemma told_cong:
  assumes "told H s" and "sdBusy t = sdBusy s" and "smShutdown (sdSync t) = smShutdown (sdSync s)"
    and "smQuit (sdSync t) = smQuit (sdSync s)" and "sdQuit t = sdQuit s"
    and "\<And>p. last_block p (smQueue (sdSync t)) = last_block p (smQueue (sdSync s))"
  shows "told H t"
  using assms by (simp add: told_def last_block_append)

lemma send_flags [simp]:
  "smShutdown (sm_send m s) = smShutdown s" "smQuit (sm_send m s) = smQuit s"
  "smShutdown (sm_IsCurrent c s) = smShutdown s" "smQuit (sm_IsCurrent c s) = smQuit s"
  "smShutdown (sm_Start s) = smShutdown s" "smQuit (sm_Start s) = smQuit s"
  by (simp_all add: sm_send_def sm_requests sm_Start_def Let_def)

lemma send_last:
  "(\<And>b p. m \<noteq> BlockMsg b p) \<Longrightarrow> last_block p (smQueue (sm_send m s)) = last_block p (smQueue s)"
  "last_block p (smQueue (sm_IsCurrent c s)) = last_block p (smQueue s)"
  using last_block_other [of m p "smQueue s" "[]"] by (simp_all add: sm_send_def last_block_append)

lemma handlers_flags:
  "smShutdown (syncWith V p s) = smShutdown s" "smShutdown (pushBloomFilter V p s) = smShutdown s"
  "smShutdown (requestQueuedInv V ch p s) = smShutdown s" "smShutdown (at_peer p f s) = smShutdown s"
  "smShutdown (at_state p g s) = smShutdown s"
  "smQuit (syncWith V p s) = smQuit s" "smQuit (pushBloomFilter V p s) = smQuit s"
  "smQuit (requestQueuedInv V ch p s) = smQuit s" "smQuit (at_peer p f s) = smQuit s" "smQuit (at_state p g s) = smQuit s"
  by (simp_all add: syncWith_def pushBloomFilter_def requestQueuedInv_def Let_def at_peer_def at_state_def
      split: option.split prod.split)

lemma startSync_flags: "smShutdown (startSync P V ch s) = smShutdown s" "smQuit (startSync P V ch s) = smQuit s"
proof -
  have "smShutdown (snd (first_candidate P best ps s)) = smShutdown s \<and> smQuit (snd (first_candidate P best ps s)) = smQuit s" for best ps s
    by (induction ps arbitrary: s) (auto split: option.split simp: handlers_flags)
  from this [of _ "chOrder ch" s] show "smShutdown (startSync P V ch s) = smShutdown s" "smQuit (startSync P V ch s) = smQuit s"
    by (auto simp: startSync_def Let_def handlers_flags split: prod.split option.split) (metis snd_conv)+
qed

lemma new_block_flags: "smShutdown (new_block P V ch p b r s) = smShutdown s" "smQuit (new_block P V ch p b r s) = smQuit s"
  by (simp_all add: new_block_def Let_def handlers_flags split: option.split)

lemma sm_handle_flags: "sm_handle P V ch m s = Some t \<Longrightarrow> smShutdown t = smShutdown s \<and> smQuit t = smQuit s"
  by (cases m) (auto simp: sm_handle_def handleNewPeerMsg_def handleDonePeerMsg_def handleTxMsg_def handleInvMsg_def
      handleBlockMsg_def block_committed_def Let_def handlers_flags startSync_flags new_block_flags
      split: option.splits if_splits)

text \<open>The steps that leave the queue of blocks and the waiting handlers as they are.\<close>

definition aside :: "('p, 'c, 'r) service \<Rightarrow> ('p, 'c, 'r) service \<Rightarrow> bool" where
  "aside s t \<longleftrightarrow> sdBusy t = sdBusy s \<and> smShutdown (sdSync t) = smShutdown (sdSync s) \<and> smQuit (sdSync t) = smQuit (sdSync s) \<and>
     sdQuit t = sdQuit s \<and> (\<forall>p. last_block p (smQueue (sdSync t)) = last_block p (smQueue (sdSync s)))"

lemma aside_told: "told H s \<Longrightarrow> aside s t \<Longrightarrow> told H t"
  using told_cong unfolding aside_def by blast

lemma to_sync_aside: "(\<And>b p. m \<noteq> BlockMsg b p) \<Longrightarrow> aside s (to_sync m s)"
  by (simp add: aside_def to_sync_def send_last)

lemma sd_IsCurrent_aside: "aside s (sd_IsCurrent a s)"
  by (simp add: aside_def sd_IsCurrent_def last_block_append)

lemma onNotFound_aside: "aside s (onNotFound P p ivs s)"
  unfolding onNotFound_def
proof (induction ivs arbitrary: s)
  case (Cons iv ivs)
  have "aside s (if ivType iv = InvTx then s else s\<lparr>sdSync := at_peer p (Disconnect P) (sdSync s)\<rparr>)"
    by (simp add: aside_def handlers_flags handlers_queue)
  with Cons.IH [of "if ivType iv = InvTx then s else s\<lparr>sdSync := at_peer p (Disconnect P) (sdSync s)\<rparr>"] show ?case
    by (simp add: aside_def)
qed (simp add: aside_def)

lemma receive_aside: "receive P p m s = Some s' \<Longrightarrow> aside s s'"
  using to_sync_aside [of "NewPeerMsg p" s] sd_IsCurrent_aside [of s] onNotFound_aside [of s P p]
  by (auto simp: receive_def onVersion_def onInv_def onReject_def split: option.splits dispatch.splits if_splits)
    (simp_all add: aside_def)

lemma resume_aside: "aside s (resume current now a s)"
  by (cases a) (simp_all add: resume_def inv_answered_def send_answered_def aside_def to_sync_def send_last Let_def)

lemma set_reply_aside: "aside s (set_reply r f s)"
  by (cases r) (simp_all add: set_reply_def aside_def)

lemma callback_done_aside: "aside s (callback_done V now cb s)"
  by (cases cb) (simp_all add: callback_done_def block_processed_def aside_def Let_def)

lemma run_callback_told:
  assumes "told H s" and "sdBusy s p = None"
  shows "told H (run_callback p cb s)"
proof (cases cb)
  case (OnBlock b)
  show ?thesis
  proof (cases "smShutdown (sdSync s) = 0")
    case True
    have "same_block b b" by (simp add: same_block_def)
    with True assms show ?thesis
      by (auto simp: OnBlock run_callback_def onBlock_def deliver_def to_sync_def told_def sm_send_def last_block_append
          split: option.split)
  next
    case False
    with assms show ?thesis by (simp add: OnBlock run_callback_def onBlock_def deliver_def told_def)
  qed
next
  case (OnTx tx)
  with assms show ?thesis
    by (auto simp: run_callback_def onTx_def deliver_def to_sync_def told_def sm_send_def last_block_append split: option.split)
qed

lemma handled_told:
  assumes "told H s" and "smQueue (sdSync s) = m # ms" and "smQueue t = ms" and "smShutdown t = smShutdown (sdSync s)"
    and "smQuit t = smQuit (sdSync s)"
  shows "told (case m of BlockMsg b p \<Rightarrow> H @ [m] | _ \<Rightarrow> H) (answer P V m (share_block P V m before (s\<lparr>sdSync := t\<rparr>)))"
proof -
  let ?H = "case m of BlockMsg b p \<Rightarrow> H @ [m] | _ \<Rightarrow> H" and ?u = "share_block P V m before (s\<lparr>sdSync := t\<rparr>)"
  have l: "last_block p (?H @ ms) = last_block p (H @ smQueue (sdSync s))" for p
    using assms(2) last_block_other [of m p H ms] by (cases m) simp_all
  have a: "aside u (answer P V m u)" for u
    by (cases m) (simp_all add: answer_def sm_answer_def aside_def)
  have q: "sdQuit ?u = sdQuit s" by (cases m) (simp_all add: share_block_def)
  have w: "sdBusy ?u p = Some (Delivering (OnBlock b)) \<Longrightarrow> sdBusy s p = Some (Delivering (OnBlock b))" for p b
    by (cases m) (auto simp: share_block_def split: if_splits)
  have v: "\<exists>b'. sdBusy s p = Some (Waiting (OnBlock b')) \<and> (\<forall>x. same_block x b' \<longrightarrow> same_block x b)"
    if "sdBusy ?u p = Some (Waiting (OnBlock b))" for p b
    using that same_block_after [of _ _ P V] by (cases m) (fastforce simp: share_block_def split: if_splits)+
  have "\<exists>a. last_block p (H @ smQueue (sdSync s)) = Some a \<and> same_block a b"
    if "smShutdown (sdSync s) = 0" and b: "sdBusy ?u p = Some (Waiting (OnBlock b))" for p b
  proof -
    obtain b' where b': "sdBusy s p = Some (Waiting (OnBlock b'))" "\<forall>x. same_block x b' \<longrightarrow> same_block x b" using v [OF b] by blast
    with assms(1) that(1) show ?thesis unfolding told_def by blast
  qed
  moreover have "smShutdown (sdSync s) = 0 \<Longrightarrow> sdBusy ?u p \<noteq> Some (Delivering (OnBlock b))" for p b
    using w assms(1) unfolding told_def by blast
  ultimately have "told ?H ?u" using assms(1,3-5) q unfolding told_def by (simp add: l)
  then show ?thesis using a aside_told by blast
qed

lemma sd_step_told: "sd_step P V E s s' \<Longrightarrow> told H s \<Longrightarrow> told (processed H s s') s'"
proof (induction rule: sd_step.induct)
  case (received p s m s')
  have "processed H s s' = H" using receive_reply [OF received(3)] by (auto simp: processed_same)
  with aside_told [OF received(4) receive_aside [OF received(3)]] show ?case by simp
next
  case (taken p s s')
  from taken(4) show ?case
    by (rule take_block_cases) (use taken(5) in \<open>auto simp: processed_same handlers_queue handlers_flags intro!: aside_told [OF taken(5)] simp: aside_def\<close>)
next
  case (called s p cb cbs)
  let ?t = "s\<lparr>sdTodo := (sdTodo s)(p := cbs)\<rparr>"
  have "processed H s (run_callback p cb ?t) = H" by (rule processed_same) (simp add: run_callback_reply)
  moreover have "told H ?t" using called(3) by (rule aside_told) (simp add: aside_def)
  then have "told H (run_callback p cb ?t)" by (rule run_callback_told) (use called(1) in simp)
  ultimately show ?case by simp
next
  case (delivered s p cb)
  let ?t = "s\<lparr>sdBusy := (sdBusy s)(p \<mapsto> Waiting cb)\<rparr>"
  have "told H ?t" using delivered(1,3) by (cases cb) (auto simp: told_def)
  from aside_told [OF this set_reply_aside] show ?case by (simp add: processed_same set_reply_reply)
next
  case (woken s p cb now)
  let ?t = "s\<lparr>sdBusy := (sdBusy s)(p := None)\<rparr>"
  have "told H ?t" using woken(3) by (auto simp: told_def)
  from aside_told [OF aside_told [OF this set_reply_aside] callback_done_aside] show ?case
    by (simp add: processed_same set_reply_reply callback_done_replies)
next
  case (handled s m ms ch t)
  let ?s' = "answer P V m (share_block P V m (sdSync s) (s\<lparr>sdSync := t\<rparr>))"
  have "processed H s ?s' = (case m of BlockMsg b p \<Rightarrow> H @ [m] | _ \<Rightarrow> H)"
    using handled(2,3) by (cases m) (simp_all add: processed_def answer_replies share_block_replies)
  with handled_told [OF handled(7,3), of t P V "sdSync s"] sm_handle_queue [OF handled(6)] sm_handle_flags [OF handled(6)]
  show ?case by simp
next
  case (replied s r)
  have "told H (s\<lparr>sdReply := None\<rparr>)" using replied(3) by (rule aside_told) (simp add: aside_def)
  from aside_told [OF this set_reply_aside] show ?case by (simp add: processed_def set_reply_reply)
next
  case (answered s c a current time)
  let ?t = "s\<lparr>sdAsks := (sdAsks s)(c := None), sdAnswers := (sdAnswers s)(c := None)\<rparr>"
  have "told H ?t" using answered(3) by (rule aside_told) (simp add: aside_def)
  from aside_told [OF this resume_aside] show ?case by (simp add: processed_same resume_replies)
next
  case (pool s i "is")
  then show ?case by (auto simp: processed_same pool_handle_def case_prod_beta aside_def intro!: aside_told [OF pool(4)])
next
  case (tick s time)
  then show ?case by (auto simp: processed_same pool_handle_def case_prod_beta aside_def intro!: aside_told [OF tick(3)])
next
  case (sending s tx)
  have "processed H s (SendTransaction tx s) = H" by (rule processed_same) (simp add: SendTransaction_def sd_IsCurrent_def)
  with aside_told [OF sending sd_IsCurrent_aside] show ?case by (simp add: SendTransaction_def)
next
  case (peers s m ms p)
  then show ?case by (cases m) (auto simp: processed_same handlePeerMsg_def aside_def intro!: aside_told [OF peers(6)])
next
  case (disconnected s p)
  have "processed H s (handleDisconnect p s) = H" by (rule processed_same) (simp add: handleDisconnect_def to_sync_def)
  with aside_told [OF disconnected(2) to_sync_aside [of "DonePeerMsg p"]] show ?case by (simp add: handleDisconnect_def)
next
  case (stopped s s')
  then have "\<not> sdQuit s" "s' = s\<lparr>sdSync := sm_Stop (sdSync s), sdQuit := True\<rparr>"
    by (auto simp: sd_Stop_def Let_def split: if_splits)
  with stopped(2) show ?case by (auto simp: processed_same told_def sm_Stop_def Let_def)
next
  case (drained s)
  then show ?case by (auto simp: processed_same told_def)
qed (auto simp: processed_same aside_def sd_newPeer_def sd_donePeer_def sd_Start_def UpdateFilter_def elim!: aside_told)

lemma sd_trace_told: "sd_trace P V E H s \<Longrightarrow> told H s"
proof (induction rule: sd_trace.induct)
  case (init peers genesis c s)
  then show ?case by (auto simp: newService_def fresh_service_def told_def sm_New_def split: prod.splits option.splits)
next
  case (step H s s')
  with sd_step_told show ?case by blast
qed

subsection \<open>Properties\<close>

text \<open>C30: As long as no second peer waits for the reply to a block and the sync manager is not shutting
  down, a block is announced as committed only after the sync manager has processed it: the last block
  message of its peer that the manager's handler took is that of the block, and no block is left in
  the manager's queue. Also during a shutdown the announced block is complete; but then it need not
  have been processed.\<close>

theorem notified_after_processing:
  assumes "sd_trace P V E H s" and "sd_step P V E s s'" and "sdCommitted s' \<noteq> sdCommitted s"
    and "\<forall>q b. sdBusy s q = Some (Waiting (OnBlock b)) \<longrightarrow> q = p"
  shows "\<exists>b. sdCommitted s' = sdCommitted s @ [b] \<and> complete_block E b \<and> sdBusy s p = Some (Waiting (OnBlock b)) \<and>
    (\<forall>b' q. BlockMsg b' q \<notin> set (smQueue (sdSync s))) \<and>
    (smShutdown (sdSync s) = 0 \<longrightarrow> (\<exists>a. last_block p H = Some a \<and>
       block_proof (blkHeader a) = block_proof (blkHeader b) \<and> blkTransactions a = blkTransactions b))"
proof -
  note r = sd_trace_reachable [OF assms(1)]
  obtain q b where b: "sdBusy s q = Some (Waiting (OnBlock b))" "sdBlockDone s" "sdCommitted s' = sdCommitted s @ [b]"
    by (rule sd_step_committed [OF assms(2,3)])
  then have q: "q = p" using assms(4) by blast
  have "b \<in> blocks_under_way s" using b(1) by (auto simp: blocks_under_way_def block_of_def)
  with sd_reachable_inv [OF r] have c: "complete_block E b" by (simp add: sd_inv_def)
  have "waiting_blocks s \<subseteq> {p}" using assms(4) by (auto simp: waiting_blocks_def)
  then have "card (waiting_blocks s) \<le> 1" using card_mono [of "{p}"] by fastforce
  then have "block_msgs (smQueue (sdSync s)) = 0"
    using sd_reachable_replies [OF r] b(2) by (simp add: replies_ok_def replies_due_def)
  then have n: "\<forall>b' q. BlockMsg b' q \<notin> set (smQueue (sdSync s))" by (simp add: block_msgs_zero)
  have "\<exists>a. last_block p H = Some a \<and> same_block a b" if "smShutdown (sdSync s) = 0"
  proof -
    have "\<exists>a. last_block p (H @ smQueue (sdSync s)) = Some a \<and> same_block a b"
      using sd_trace_told [OF assms(1)] that b(1) unfolding told_def q by blast
    then show ?thesis by (simp add: last_block_append last_block_none [OF n])
  qed
  with b c q n show ?thesis by (auto simp: same_block_def)
qed

text \<open>What is in the list of the processed blocks has been through the handler of the sync manager.\<close>

lemma processed_handled:
  assumes "sd_step P V E s s'" and "processed H s s' \<noteq> H"
  obtains b p ms ch t where "processed H s s' = H @ [BlockMsg b p]"
    and "sm_handle P V ch (BlockMsg b p) ((sdSync s)\<lparr>smQueue := ms\<rparr>) = Some t" and "sdSync s' = t"
proof -
  have "sdReply s = None" "sdReply s' = Some BlockDone" using assms(2) by (auto simp: processed_def split: if_splits)
  from reply_ready [OF assms(1) this] obtain b p ms ch t where h: "smQueue (sdSync s) = BlockMsg b p # ms"
    "sm_handle P V ch (BlockMsg b p) ((sdSync s)\<lparr>smQueue := ms\<rparr>) = Some t"
    "s' = answer P V (BlockMsg b p) (share_block P V (BlockMsg b p) (sdSync s) (s\<lparr>sdSync := t\<rparr>))" by metis
  then have "sdSync s' = t" by simp
  moreover have "processed H s s' = H @ [BlockMsg b p]" using assms(2) h(1) by (simp add: processed_def split: if_splits)
  ultimately show thesis using that h(2) by blast
qed

text \<open>During a shutdown a block is announced that the manager has never seen: \<open>QueueBlock\<close> puts the
  reply into the channel itself.\<close>

lemma shutdown_announces:
  assumes "sdBusy s p = None" and "sdTodo s p = OnBlock b # cbs" and "smShutdown (sdSync s) \<noteq> 0" and "\<not> sdBlockDone s"
    and "cfAnnounce V"
  shows "\<exists>s'. sd_steps P V E s s' \<and> sdCommitted s' = sdCommitted s @ [b] \<and> sdSync s' = sdSync s"
proof -
  let ?a = "run_callback p (OnBlock b) (s\<lparr>sdTodo := (sdTodo s)(p := cbs)\<rparr>)"
  have 1: "sd_step P V E s ?a" by (rule sd_step.called [OF assms(1,2)])
  have a: "sdBusy ?a p = Some (Delivering (OnBlock b))" "\<not> sdBlockDone ?a" "sdSync ?a = sdSync s" "sdCommitted ?a = sdCommitted s"
    using assms(3,4) by (simp_all add: run_callback_def onBlock_def deliver_def)
  let ?b = "set_reply (reply_of (OnBlock b)) True (?a\<lparr>sdBusy := (sdBusy ?a)(p \<mapsto> Waiting (OnBlock b))\<rparr>)"
  have 2: "sd_step P V E ?a ?b" by (rule sd_step.delivered [OF a(1)]) (simp add: reply_full_def reply_of_def a(2))
  have b: "sdBusy ?b p = Some (Waiting (OnBlock b))" "sdBlockDone ?b" "sdSync ?b = sdSync s" "sdCommitted ?b = sdCommitted s"
    using a(3,4) by (simp_all add: set_reply_def reply_of_def)
  let ?c = "callback_done V 0 (OnBlock b) (set_reply (reply_of (OnBlock b)) False (?b\<lparr>sdBusy := (sdBusy ?b)(p := None)\<rparr>))"
  have 3: "sd_step P V E ?b ?c" by (rule sd_step.woken [OF b(1)]) (use b(2) in \<open>simp add: reply_full_def reply_of_def\<close>)
  have "sdCommitted ?c = sdCommitted s @ [b]" "sdSync ?c = sdSync s"
    using b(3,4) assms(5) by (simp_all add: callback_done_def block_processed_def sends_committed Let_def)
  with 1 2 3 show ?thesis by (intro exI [of _ ?c]) (simp add: rtranclp.rtrancl_into_rtrancl)
qed

subsection \<open>Witness\<close>

text \<open>The block of the run of theory \<open>Service\<close> is processed and then announced.\<close>

theorem notified_after_processing_witness:
  "\<exists>H s s' b. sd_trace peer0 sample_cfg codec0 (H @ [BlockMsg served_blk 1]) s \<and> svc_step s s' \<and> sdCommitted s = [] \<and>
     sdCommitted s' = [b] \<and> complete_block codec0 b \<and> blkTransactions b = blkTransactions served_blk"
proof -
  obtain c where n: "bc_New sample_store sample_genesis \<lparr>cdH = store0, cdT = ()\<rparr> = (None, c)"
    and ok: "chain_ok sample_store sample_inv {sample_genesis, sample_child} sample_genesis c"
    and b: "hGetBest (csHeaders sample_store) c = Inr (genesis_header sample_genesis)"
    by (rule sample_chain)
  obtain H where H: "sd_trace peer0 sample_cfg codec0 H (svc3 c)"
    using reachable_sd_trace [OF svc_run [OF n b sample_fresh [OF ok b]]] by blast
  obtain s blk where s: "svc_step (svc3 c) s" "sdReply s = Some BlockDone" "\<not> sdBlockDone s"
    "sdBusy s = [1 \<mapsto> Waiting (OnBlock blk)]" "sdCommitted s = []"
    using svc3_handled [OF b] by blast
  have "smShutdown (sdSync s) = 0"
  proof (rule reply_ready [OF s(1) _ s(2)])
    show "sdReply (svc3 c) = None" by (simp add: svc3_def)
  next
    fix x p ms ch t
    assume "sm_handle peer0 sample_cfg ch (BlockMsg x p) ((sdSync (svc3 c))\<lparr>smQueue := ms\<rparr>) = Some t"
      and "s = answer peer0 sample_cfg (BlockMsg x p) (share_block peer0 sample_cfg (BlockMsg x p) (sdSync (svc3 c)) ((svc3 c)\<lparr>sdSync := t\<rparr>))"
    with sm_handle_flags [OF this(1)] show ?thesis by (simp add: svc3_def sync2_def sync1_def sync0_def sm_New_def)
  qed
  note s = s this
  have "processed H (svc3 c) s = H @ [BlockMsg served_blk 1]" using s(2) by (simp add: processed_def svc3_def)
  with sd_trace.step [OF H s(1)] have r: "sd_trace peer0 sample_cfg codec0 (H @ [BlockMsg served_blk 1]) s" by simp
  let ?v = "set_reply BlockDone True (s\<lparr>sdReply := None\<rparr>)"
  have v: "sdBusy ?v = [1 \<mapsto> Waiting (OnBlock blk)]" "sdCommitted ?v = []" "reply_full (reply_of (OnBlock blk)) ?v"
    "smShutdown (sdSync ?v) = 0"
    using s by (simp_all add: set_reply_def reply_full_def reply_of_def)
  have "svc_step s ?v" by (rule sd_step.replied [OF s(2)]) (simp add: reply_full_def s(3))
  from sd_trace.step [OF r this] have r': "sd_trace peer0 sample_cfg codec0 (H @ [BlockMsg served_blk 1]) ?v"
    by (simp add: processed_def set_reply_reply)
  let ?w = "callback_done sample_cfg 0 (OnBlock blk) (set_reply (reply_of (OnBlock blk)) False (?v\<lparr>sdBusy := (sdBusy ?v)(1 := None)\<rparr>))"
  have st: "svc_step ?v ?w" by (rule sd_step.woken [OF _ v(3)]) (simp add: v(1))
  have "sdCommitted ?w = [blk]"
    using v(2) by (simp add: callback_done_def block_processed_def sends_committed sample_cfg_def Let_def)
  then have w: "sdCommitted ?w = sdCommitted ?v @ [blk]" "sdCommitted ?w \<noteq> sdCommitted ?v" using v(2) by simp_all
  have one: "\<forall>q b. sdBusy ?v q = Some (Waiting (OnBlock b)) \<longrightarrow> q = 1" unfolding v(1) by (simp split: if_splits)
  from notified_after_processing [OF r' st w(2) one] obtain b where b: "sdCommitted ?w = sdCommitted ?v @ [b]"
    "complete_block codec0 b" "smShutdown (sdSync ?v) = 0 \<longrightarrow> (\<exists>a. last_block 1 (H @ [BlockMsg served_blk 1]) = Some a \<and>
       block_proof (blkHeader a) = block_proof (blkHeader b) \<and> blkTransactions a = blkTransactions b)" by blast
  have "last_block 1 (H @ [BlockMsg served_blk 1]) = Some served_blk" by (simp add: last_block_append)
  with b(3) v(4) have "blkTransactions b = blkTransactions served_blk" by simp
  moreover have "sdCommitted ?w = [b]" using b(1) v(2) by simp
  ultimately show ?thesis using r' st v(2) b(2) by blast
qed

end
