(* ===== verification/Sql.thy ===== *)
theory Sql
  imports Buckets "HOL-Library.Multiset"
begin

text \<open>
  The SQL the wallet's stores use, and the SQLite database behind package \<open>database/sql\<close> as a
  parameter. The statements of \<open>wallet/store/sqlite\<close> are values of \<open>stmt\<close> and \<open>query\<close>, with
  their meaning on tables (\<open>run_stmt\<close>, \<open>run_query\<close>). The database is the record \<open>sqlite\<close>, whose
  methods may fail; \<open>sqlite_ok\<close> states what is documented of one that succeeds: its effect is
  the meaning of the statements, the order of the rows of a result is not specified, and a
  transaction takes effect when it is committed; a single statement that fails has none. The locale \<open>key_table\<close> reads a table as a map
  from the values of its primary key.
\<close>

subsection \<open>Statements\<close>

datatype sqlval = SNull | SInt int | SText string | SBlob bytes

type_synonym row = "(string \<times> sqlval) list"

text \<open>A table: its columns, with \<open>True\<close> for \<open>NOT NULL\<close>, its primary key and its rows.\<close>

record table =
  tbCols :: "(string \<times> bool) list"
  tbKey :: string
  tbRows :: "row list"

type_synonym tables = "string \<rightharpoonup> table"

text \<open>\<open>CREATE TABLE IF NOT EXISTS\<close>, \<open>INSERT OR REPLACE INTO .. VALUES\<close>, \<open>INSERT OR REPLACE
  INTO .. SELECT .. WHERE\<close>, \<open>DELETE FROM .. WHERE\<close>, \<open>DROP TABLE IF EXISTS\<close>.\<close>

datatype stmt =
    CreateTable string "(string \<times> bool) list" string
  | InsertOrReplace string "string list" "sqlval list"
  | InsertSelect string "string list" string string sqlval
  | DeleteWhere string string sqlval
  | DropTable string

datatype query = Select "string list" string "(string \<times> sqlval) option"

definition has_cols :: "table \<Rightarrow> string list \<Rightarrow> bool" where
  "has_cols t cs \<longleftrightarrow> set cs \<subseteq> fst ` set (tbCols t)"

definition where_eq :: "string \<Rightarrow> sqlval \<Rightarrow> row \<Rightarrow> bool" where
  "where_eq c v r \<longleftrightarrow> v \<noteq> SNull \<and> map_of r c = Some v"

text \<open>A new row has every column of the table, \<open>NULL\<close> where no value is given. It replaces the
  row with the same key. A \<open>NULL\<close> in a column that forbids it and has no default is an error.\<close>

definition complete_row :: "table \<Rightarrow> row \<Rightarrow> row" where
  "complete_row t r = map (\<lambda>(c, n). (c, case map_of r c of Some v \<Rightarrow> v | None \<Rightarrow> SNull)) (tbCols t)"

definition insert_row :: "row \<Rightarrow> table \<Rightarrow> table option" where
  "insert_row r t =
     (let r = complete_row t r
      in if \<exists>(c, n) \<in> set (tbCols t). n \<and> map_of r c = Some SNull then None
         else Some (t\<lparr>tbRows := filter (\<lambda>r'. map_of r' (tbKey t) \<noteq> map_of r (tbKey t)) (tbRows t) @ [r]\<rparr>))"

fun insert_rows :: "row list \<Rightarrow> table \<Rightarrow> table option" where
  "insert_rows [] t = Some t"
| "insert_rows (r # rs) t = (case insert_row r t of None \<Rightarrow> None | Some t \<Rightarrow> insert_rows rs t)"

definition project :: "string list \<Rightarrow> row \<Rightarrow> row" where
  "project cs r = map (\<lambda>c. (c, case map_of r c of Some v \<Rightarrow> v | None \<Rightarrow> SNull)) cs"

fun run_stmt :: "stmt \<Rightarrow> tables \<Rightarrow> tables option" where
  "run_stmt (CreateTable n cs k) T =
     (case T n of Some t \<Rightarrow> Some T | None \<Rightarrow> Some (T(n \<mapsto> \<lparr>tbCols = cs, tbKey = k, tbRows = []\<rparr>)))"
| "run_stmt (InsertOrReplace n cs vs) T =
     (case T n of
        None \<Rightarrow> None
      | Some t \<Rightarrow>
          if \<not> has_cols t cs \<or> length vs \<noteq> length cs then None
          else map_option (\<lambda>t. T(n \<mapsto> t)) (insert_row (zip cs vs) t))"
| "run_stmt (InsertSelect n cs src c v) T =
     (case T n of
        None \<Rightarrow> None
      | Some t \<Rightarrow>
          (case T src of
             None \<Rightarrow> None
           | Some s \<Rightarrow>
               if \<not> has_cols t cs \<or> \<not> has_cols s (c # cs) then None
               else map_option (\<lambda>t. T(n \<mapsto> t)) (insert_rows (map (project cs) (filter (where_eq c v) (tbRows s))) t)))"
| "run_stmt (DeleteWhere n c v) T =
     (case T n of
        None \<Rightarrow> None
      | Some t \<Rightarrow>
          if \<not> has_cols t [c] then None
          else Some (T(n \<mapsto> t\<lparr>tbRows := filter (\<lambda>r. \<not> where_eq c v r) (tbRows t)\<rparr>)))"
| "run_stmt (DropTable n) T = Some (T(n := None))"

fun run_stmts :: "stmt list \<Rightarrow> tables \<Rightarrow> tables option" where
  "run_stmts [] T = Some T"
| "run_stmts (s # ss) T = (case run_stmt s T of None \<Rightarrow> None | Some T \<Rightarrow> run_stmts ss T)"

fun run_query :: "query \<Rightarrow> tables \<Rightarrow> sqlval list list option" where
  "run_query (Select cs n w) T =
     (case T n of
        None \<Rightarrow> None
      | Some t \<Rightarrow>
          if \<not> has_cols t (cs @ (case w of None \<Rightarrow> [] | Some (c, v) \<Rightarrow> [c])) then None
          else Some (map (\<lambda>r. map snd (project cs r))
            (filter (\<lambda>r. case w of None \<Rightarrow> True | Some (c, v) \<Rightarrow> where_eq c v r) (tbRows t))))"

text \<open>A statement leaves the tables it does not name as they are.\<close>

fun stmt_table :: "stmt \<Rightarrow> string" where
  "stmt_table (CreateTable n cs k) = n"
| "stmt_table (InsertOrReplace n cs vs) = n"
| "stmt_table (InsertSelect n cs src c v) = n"
| "stmt_table (DeleteWhere n c v) = n"
| "stmt_table (DropTable n) = n"

lemma run_stmt_other: "run_stmt s T = Some T' \<Longrightarrow> n \<noteq> stmt_table s \<Longrightarrow> T' n = T n"
  by (cases s) (auto split: option.splits if_splits)

lemma run_stmts_other: "run_stmts ss T = Some T' \<Longrightarrow> n \<notin> stmt_table ` set ss \<Longrightarrow> T' n = T n"
proof (induction ss arbitrary: T)
  case (Cons s ss)
  then obtain T1 where t: "run_stmt s T = Some T1" "run_stmts ss T1 = Some T'" by (auto split: option.splits)
  with run_stmt_other [OF t(1), of n] Cons show ?case by simp
qed simp

subsection \<open>The database\<close>

text \<open>\<open>Exec\<close>, \<open>Query\<close> and \<open>Begin\<close> of \<open>sql.DB\<close>, \<open>Exec\<close> and \<open>Commit\<close> of \<open>sql.Tx\<close>. A query gives
  the rows over which \<open>Next\<close> iterates and the error that ended the iteration early, if one did (\<open>rows.Err()\<close>). The last two
  fields are not methods: they say what the database and a transaction hold, and only the
  contract speaks of them.\<close>

record ('d, 'x) sqlite =
  sqExec :: "stmt list \<Rightarrow> 'd \<Rightarrow> goerror option \<times> 'd"
  sqQuery :: "query \<Rightarrow> 'd \<Rightarrow> goerror + sqlval list list \<times> goerror option"
  sqBegin :: "'d \<Rightarrow> goerror + 'x"
  sqTxExec :: "stmt list \<Rightarrow> 'x \<Rightarrow> goerror option \<times> 'x"
  sqCommit :: "'x \<Rightarrow> 'd \<Rightarrow> goerror option \<times> 'd"
  sqHolds :: "'d \<Rightarrow> tables"
  sqTxHolds :: "'x \<Rightarrow> tables"

definition sqlite_ok :: "('d, 'x) sqlite \<Rightarrow> bool" where
  "sqlite_ok Q \<longleftrightarrow>
     (\<forall>ss d d'. sqExec Q ss d = (None, d') \<longrightarrow> run_stmts ss (sqHolds Q d) = Some (sqHolds Q d')) \<and>
     (\<forall>s d e d'. sqExec Q [s] d = (Some e, d') \<longrightarrow> sqHolds Q d' = sqHolds Q d) \<and>
     (\<forall>q d rows e. sqQuery Q q d = Inr (rows, e) \<longrightarrow> (\<exists>rs. run_query q (sqHolds Q d) = Some rs \<and> mset rows \<subseteq># mset rs \<and>
        (e = None \<longrightarrow> mset rows = mset rs))) \<and>
     (\<forall>d x. sqBegin Q d = Inr x \<longrightarrow> sqTxHolds Q x = sqHolds Q d) \<and>
     (\<forall>ss x x'. sqTxExec Q ss x = (None, x') \<longrightarrow> run_stmts ss (sqTxHolds Q x) = Some (sqTxHolds Q x')) \<and>
     (\<forall>x d d'. sqCommit Q x d = (None, d') \<longrightarrow> sqHolds Q d' = sqTxHolds Q x) \<and>
     (\<forall>x d e d'. sqCommit Q x d = (Some e, d') \<longrightarrow> sqHolds Q d' = sqHolds Q d)"

lemma sqlite_exec: "sqlite_ok Q \<Longrightarrow> sqExec Q ss d = (None, d') \<Longrightarrow> run_stmts ss (sqHolds Q d) = Some (sqHolds Q d')"
  by (simp add: sqlite_ok_def)

lemma sqlite_exec_failed: "sqlite_ok Q \<Longrightarrow> sqExec Q [s] d = (Some e, d') \<Longrightarrow> sqHolds Q d' = sqHolds Q d"
  by (simp add: sqlite_ok_def)

lemma sqlite_query:
  "sqlite_ok Q \<Longrightarrow> sqQuery Q q d = Inr (rows, e) \<Longrightarrow>
   \<exists>rs. run_query q (sqHolds Q d) = Some rs \<and> mset rows \<subseteq># mset rs \<and> (e = None \<longrightarrow> mset rows = mset rs)"
  by (simp add: sqlite_ok_def)

lemma sqlite_begin: "sqlite_ok Q \<Longrightarrow> sqBegin Q d = Inr x \<Longrightarrow> sqTxHolds Q x = sqHolds Q d"
  by (simp add: sqlite_ok_def)

lemma sqlite_tx_exec:
  "sqlite_ok Q \<Longrightarrow> sqTxExec Q ss x = (None, x') \<Longrightarrow> run_stmts ss (sqTxHolds Q x) = Some (sqTxHolds Q x')"
  by (simp add: sqlite_ok_def)

lemma sqlite_commit: "sqlite_ok Q \<Longrightarrow> sqCommit Q x d = (None, d') \<Longrightarrow> sqHolds Q d' = sqTxHolds Q x"
  and sqlite_commit_failed: "sqlite_ok Q \<Longrightarrow> sqCommit Q x d = (Some e, d') \<Longrightarrow> sqHolds Q d' = sqHolds Q d"
  by (simp_all add: sqlite_ok_def)

text \<open>A query that is well formed succeeds, and so does the iteration over its rows.\<close>

definition sql_reads :: "('d, 'x) sqlite \<Rightarrow> 'd \<Rightarrow> bool" where
  "sql_reads Q d \<longleftrightarrow> (\<forall>q. run_query q (sqHolds Q d) \<noteq> None \<longrightarrow> (\<exists>rows. sqQuery Q q d = Inr (rows, None)))"

lemma sqlite_reads:
  assumes "sqlite_ok Q" and "sql_reads Q d" and "run_query q (sqHolds Q d) = Some rs"
  obtains rows where "sqQuery Q q d = Inr (rows, None)" and "mset rows = mset rs"
proof -
  from assms(2,3) obtain rows where r: "sqQuery Q q d = Inr (rows, None)" unfolding sql_reads_def by (metis option.distinct(1))
  from sqlite_query [OF assms(1) r] assms(3) have "mset rows = mset rs" by auto
  with r show thesis by (rule that)
qed

text \<open>A concrete database for the witnesses, which holds its tables.\<close>

definition sqlite0 :: "(tables, tables) sqlite" where
  "sqlite0 =
     \<lparr>sqExec = (\<lambda>ss T. case run_stmts ss T of None \<Rightarrow> (Some (Failure ''SQL logic error''), T) | Some T \<Rightarrow> (None, T)),
      sqQuery = (\<lambda>q T. case run_query q T of None \<Rightarrow> Inl (Failure ''SQL logic error'') | Some rows \<Rightarrow> Inr (rows, None)),
      sqBegin = Inr,
      sqTxExec = (\<lambda>ss T. case run_stmts ss T of None \<Rightarrow> (Some (Failure ''SQL logic error''), T) | Some T \<Rightarrow> (None, T)),
      sqCommit = (\<lambda>x T. (None, x)), sqHolds = (\<lambda>T. T), sqTxHolds = (\<lambda>T. T)\<rparr>"

lemma sqlite0_holds [simp]: "sqHolds sqlite0 T = T" "sqTxHolds sqlite0 T = T"
  by (simp_all add: sqlite0_def)

lemma sqlite0_ok [simp]: "sqlite_ok sqlite0"
  by (auto simp: sqlite_ok_def sqlite0_def split: option.splits)

lemma sqlite0_reads [simp]: "sql_reads sqlite0 T"
  by (auto simp: sql_reads_def sqlite0_def)

subsection \<open>Values read from a row\<close>

text \<open>\<open>Scan\<close> into a \<open>[]byte\<close>, a \<open>uint32\<close>, an \<open>int64\<close> and an \<open>int\<close>. The columns hold values of
  the kind that is written to them; a conversion between kinds is an error here.\<close>

fun scan_blob :: "sqlval \<Rightarrow> goerror + bytes" where
  "scan_blob (SBlob b) = Inr b"
| "scan_blob SNull = Inr []"
| "scan_blob v = Inl (Failure ''unsupported Scan'')"

fun scan_u32 :: "sqlval \<Rightarrow> goerror + u32" where
  "scan_u32 (SInt i) = (if 0 \<le> i \<and> i < 2 ^ 32 then Inr (word_of_int i) else Inl (Failure ''value out of range''))"
| "scan_u32 v = Inl (Failure ''unsupported Scan'')"

fun scan_int64 :: "sqlval \<Rightarrow> goerror + int" where
  "scan_int64 (SInt i) = (if - (2 ^ 63) \<le> i \<and> i < 2 ^ 63 then Inr i else Inl (Failure ''value out of range''))"
| "scan_int64 v = Inl (Failure ''unsupported Scan'')"

lemma scan_u32_uint [simp]: "scan_u32 (SInt (uint (w :: u32))) = Inr w"
  using uint_lt2p [of w] by simp

text \<open>The next step after one that may fail.\<close>

definition rbind :: "goerror + 'a \<Rightarrow> ('a \<Rightarrow> goerror + 'b) \<Rightarrow> goerror + 'b" where
  "rbind m f = (case m of Inl e \<Rightarrow> Inl e | Inr x \<Rightarrow> f x)"

lemma rbind_simps [simp]: "rbind (Inl e) f = Inl e" "rbind (Inr x) f = f x"
  by (simp_all add: rbind_def)

text \<open>\<open>QueryRow\<close>: the first row, or the error of the iteration, or the error \<open>sql.ErrNoRows\<close>.\<close>

definition ErrNoRows :: goerror where
  "ErrNoRows = Failure ''sql: no rows in result set''"

definition query_row :: "('d, 'x) sqlite \<Rightarrow> query \<Rightarrow> 'd \<Rightarrow> goerror + sqlval list" where
  "query_row Q q d = rbind (sqQuery Q q d) 
     (\<lambda>(rows, err). case rows of [] \<Rightarrow> (case err of None \<Rightarrow> Inl ErrNoRows | Some e \<Rightarrow> Inl e) | r # _ \<Rightarrow> Inr r)"

text \<open>The loop over the rows of a result: what was read before an error of \<open>Scan\<close> is returned with it. The loops never
  ask \<open>rows.Err()\<close>: when the iteration itself fails, what was read before is returned as if it were all.\<close>

fun read_rows :: "(sqlval list \<Rightarrow> goerror + 'a) \<Rightarrow> sqlval list list \<Rightarrow> 'a list \<times> goerror option" where
  "read_rows f [] = ([], None)"
| "read_rows f (r # rs) =
     (case f r of Inl e \<Rightarrow> ([], Some e) | Inr x \<Rightarrow> (let (xs, e) = read_rows f rs in (x # xs, e)))"

definition query_all ::
  "('d, 'x) sqlite \<Rightarrow> query \<Rightarrow> (sqlval list \<Rightarrow> goerror + 'a) \<Rightarrow> 'd \<Rightarrow> 'a list \<times> goerror option" where
  "query_all Q q f d = (case sqQuery Q q d of Inl e \<Rightarrow> ([], Some e) | Inr (rows, err) \<Rightarrow> read_rows f rows)"

lemma read_rows_map: "(\<And>r. r \<in> set rows \<Longrightarrow> f r = Inr (g r)) \<Longrightarrow> read_rows f rows = (map g rows, None)"
  by (induction rows) auto

end
