(* ===== verification/SqlTable.thy ===== *)
theory SqlTable
  imports Sql
begin

text \<open>
  A table with a primary key as a map (\<open>table_holds\<close>): the first column is the key, a row is
  the encoding of an entry. The locale \<open>key_table\<close> says what the statements of the wallet's
  stores make of the map; each store interprets it with its table and its encoding.
\<close>

definition table_holds ::
  "string \<Rightarrow> string list \<Rightarrow> ('k \<Rightarrow> sqlval) \<Rightarrow> ('v \<Rightarrow> sqlval list) \<Rightarrow> tables \<Rightarrow> ('k \<rightharpoonup> 'v) \<Rightarrow> bool" where
  "table_holds n cs key vals T m \<longleftrightarrow>
     (\<exists>t. T n = Some t \<and> map fst (tbCols t) = cs \<and> tbKey t = hd cs \<and>
       distinct (map (\<lambda>r. map_of r (hd cs)) (tbRows t)) \<and>
       set (tbRows t) = {zip cs (key k # vals v) | k v. m k = Some v})"

lemma table_holds_other: "T' n = T n \<Longrightarrow> table_holds n cs key vals T m \<Longrightarrow> table_holds n cs key vals T' m"
  by (simp add: table_holds_def)

lemma map_of_zip_self: "distinct cs \<Longrightarrow> length vs = length cs \<Longrightarrow> map (\<lambda>c. (c, case map_of (zip cs vs) c of Some v \<Rightarrow> v | None \<Rightarrow> SNull)) cs = zip cs vs"
proof (induction cs arbitrary: vs)
  case (Cons c cs)
  then obtain v vs' where v: "vs = v # vs'" "length vs' = length cs" by (cases vs) auto
  have "map (\<lambda>c'. (c', case map_of (zip (c # cs) vs) c' of Some v \<Rightarrow> v | None \<Rightarrow> SNull)) cs =
    map (\<lambda>c'. (c', case map_of (zip cs vs') c' of Some v \<Rightarrow> v | None \<Rightarrow> SNull)) cs"
    using Cons.prems(1) v by (intro map_cong) auto
  with Cons.IH [of vs'] Cons.prems v show ?case by simp
qed simp

lemma complete_row_all:
  assumes "map fst (tbCols t) = cs" and "distinct cs" and "length vs = length cs"
  shows "complete_row t (zip cs vs) = zip cs vs"
proof -
  have "complete_row t (zip cs vs) = map (\<lambda>c. (c, case map_of (zip cs vs) c of Some v \<Rightarrow> v | None \<Rightarrow> SNull)) (map fst (tbCols t))"
    by (simp add: complete_row_def case_prod_beta)
  with map_of_zip_self [OF assms(2,3)] assms(1) show ?thesis by simp
qed

lemma project_all: "distinct cs \<Longrightarrow> length vs = length cs \<Longrightarrow> map snd (project cs (zip cs vs)) = vs"
  using map_of_zip_self [of cs vs] by (simp add: project_def)

lemma project_tail:
  assumes "distinct (c # cs)" and "length vs = length cs"
  shows "map snd (project cs (zip (c # cs) (k # vs))) = vs"
proof -
  have "project cs (zip (c # cs) (k # vs)) = project cs (zip cs vs)"
    using assms(1) by (auto simp: project_def)
  with project_all [of cs vs] assms show ?thesis by simp
qed

lemma has_cols_all: "map fst (tbCols t) = cs \<Longrightarrow> has_cols t ds \<longleftrightarrow> set ds \<subseteq> set cs"
  by (auto simp: has_cols_def)

lemma distinct_map_filter_rows: "distinct (map f xs) \<Longrightarrow> distinct (map f (filter P xs))"
  by (rule distinct_map_filter)

locale key_table =
  fixes name :: string and kc :: string and cs :: "string list"
    and key :: "'k \<Rightarrow> sqlval" and vals :: "'v \<Rightarrow> sqlval list" and ok :: bool
  assumes distinct_cols: "distinct (kc # cs)"
    and length_vals: "length (vals v) = length cs"
    and key_inj: "ok \<Longrightarrow> key a = key b \<longleftrightarrow> a = b"
    and key_value: "key a \<noteq> SNull"
begin

abbreviation holds where
  "holds \<equiv> table_holds name (kc # cs) key vals"

abbreviation entry where
  "entry k v \<equiv> zip (kc # cs) (key k # vals v)"

lemma entry_key: "map_of (entry k v) kc = Some (key k)"
  by simp

lemma entry_col: "c \<in> set cs \<Longrightarrow> map_of (entry k v) c = map_of (zip cs (vals v)) c"
  using distinct_cols by auto

lemma holdsD:
  assumes "holds T m"
  shows "\<exists>t. T name = Some t \<and> map fst (tbCols t) = kc # cs \<and> tbKey t = kc \<and>
    distinct (map (\<lambda>r. map_of r kc) (tbRows t)) \<and> set (tbRows t) = {entry k v | k v. m k = Some v} \<and>
    (\<forall>ds. has_cols t ds \<longleftrightarrow> set ds \<subseteq> insert kc (set cs))"
proof -
  from assms obtain t where t: "T name = Some t" "map fst (tbCols t) = kc # cs" "tbKey t = kc"
    "distinct (map (\<lambda>r. map_of r kc) (tbRows t))" "set (tbRows t) = {entry k v | k v. m k = Some v}"
    unfolding table_holds_def list.sel by (elim exE conjE) (rule that)
  with has_cols_all [OF t(2)] show ?thesis by (intro exI [of _ t]) simp
qed

text \<open>\<open>INSERT OR REPLACE\<close> updates the map.\<close>

lemma insert_holds:
  assumes ok and "holds T m" and "run_stmts [InsertOrReplace name (kc # cs) (key k # vals v)] T = Some T'"
  shows "holds T' (m(k \<mapsto> v)) \<and> (\<forall>n. n \<noteq> name \<longrightarrow> T' n = T n)"
proof -
  from holdsD [OF assms(2)] obtain t where t: "T name = Some t" "map fst (tbCols t) = kc # cs" "tbKey t = kc"
    "distinct (map (\<lambda>r. map_of r kc) (tbRows t))" "set (tbRows t) = {entry k v | k v. m k = Some v}"
    "\<forall>ds. has_cols t ds \<longleftrightarrow> set ds \<subseteq> insert kc (set cs)" by (elim exE conjE) (rule that)
  let ?f = "filter (\<lambda>r'. map_of r' kc \<noteq> Some (key k)) (tbRows t)"
  let ?t = "t\<lparr>tbRows := ?f @ [entry k v]\<rparr>"
  have "complete_row t (entry k v) = entry k v"
    by (rule complete_row_all [OF t(2) distinct_cols]) (simp add: length_vals)
  then have T': "T' = T(name \<mapsto> ?t)"
    using assms(3) t(1,3) by (auto simp: insert_row_def Let_def split: if_splits option.splits)
  have "set ?f = {entry k' v' | k' v'. m k' = Some v' \<and> k' \<noteq> k}"
    unfolding set_filter t(5) using key_inj [OF assms(1)] by fastforce
  then have "set (tbRows ?t) = {entry k' v' | k' v'. (m(k \<mapsto> v)) k' = Some v'}" by auto
  moreover have "distinct (map (\<lambda>r. map_of r kc) (tbRows ?t))"
    using distinct_map_filter [OF t(4)] by auto
  ultimately have "holds T' (m(k \<mapsto> v))" unfolding table_holds_def T'
    using t(2,3) by (intro exI [of _ ?t]) simp
  then show ?thesis by (simp add: T')
qed

lemma insert_runs:
  assumes "holds T m" and "\<forall>x. x \<in> set (vals v) \<longrightarrow> x \<noteq> SNull"
  shows "\<exists>T'. run_stmts [InsertOrReplace name (kc # cs) (key k # vals v)] T = Some T'"
proof -
  from holdsD [OF assms(1)] obtain t where t: "T name = Some t" "map fst (tbCols t) = kc # cs" "tbKey t = kc"
    "distinct (map (\<lambda>r. map_of r kc) (tbRows t))" "set (tbRows t) = {entry k v | k v. m k = Some v}"
    "\<forall>ds. has_cols t ds \<longleftrightarrow> set ds \<subseteq> insert kc (set cs)" by (elim exE conjE) (rule that)
  have c: "complete_row t (entry k v) = entry k v"
    by (rule complete_row_all [OF t(2) distinct_cols]) (simp add: length_vals)
  have "map_of (entry k v) c \<noteq> Some SNull" for c
  proof
    assume "map_of (entry k v) c = Some SNull"
    then have "SNull \<in> set (key k # vals v)" using map_of_SomeD set_zip_rightD by metis
    with assms(2) key_value [of k] show False by (auto dest: sym)
  qed
  then have "\<not> (\<exists>(c, n) \<in> set (tbCols t). n \<and> map_of (entry k v) c = Some SNull)" by auto
  then show ?thesis using t(1,6) length_vals by (simp add: insert_row_def Let_def c [unfolded zip_Cons_Cons])
qed

lemma delete_where:
  assumes "holds T m" and "run_stmts [DeleteWhere name c x] T = Some T'"
  shows "holds T' (\<lambda>k. case m k of None \<Rightarrow> None | Some v \<Rightarrow> if where_eq c x (entry k v) then None else Some v) \<and>
    (\<forall>n. n \<noteq> name \<longrightarrow> T' n = T n)"
proof -
  from holdsD [OF assms(1)] obtain t where t: "T name = Some t" "map fst (tbCols t) = kc # cs" "tbKey t = kc"
    "distinct (map (\<lambda>r. map_of r kc) (tbRows t))" "set (tbRows t) = {entry k v | k v. m k = Some v}"
    "\<forall>ds. has_cols t ds \<longleftrightarrow> set ds \<subseteq> insert kc (set cs)" by (elim exE conjE) (rule that)
  let ?t = "t\<lparr>tbRows := filter (\<lambda>r. \<not> where_eq c x r) (tbRows t)\<rparr>"
  let ?m = "\<lambda>k. case m k of None \<Rightarrow> None | Some v \<Rightarrow> if where_eq c x (entry k v) then None else Some v"
  have T': "T' = T(name \<mapsto> ?t)" using assms(2) t(1) by (auto split: if_splits)
  have "set (tbRows ?t) = {entry k v | k v. m k = Some v \<and> \<not> where_eq c x (entry k v)}"
    using t(5) by auto
  moreover have "?m k = Some v \<longleftrightarrow> m k = Some v \<and> \<not> where_eq c x (entry k v)" for k v
    by (auto split: option.split)
  ultimately have "set (tbRows ?t) = {entry k v | k v. ?m k = Some v}" by simp
  then have "holds T' ?m" unfolding table_holds_def T'
    using t(2,3) distinct_map_filter [OF t(4)] by (intro exI [of _ ?t]) simp
  then show ?thesis by (simp add: T')
qed

text \<open>Deleting by the key removes the entry of that key.\<close>

lemma delete_holds:
  assumes ok and "holds T m" and "run_stmts [DeleteWhere name kc (key k)] T = Some T'"
  shows "holds T' (m(k := None)) \<and> (\<forall>n. n \<noteq> name \<longrightarrow> T' n = T n)"
proof -
  have "(\<lambda>k'. case m k' of None \<Rightarrow> None | Some v \<Rightarrow> if where_eq kc (key k) (entry k' v) then None else Some v) = m(k := None)"
    using key_inj [OF assms(1)] key_value by (auto simp: where_eq_def split: option.split)
  with delete_where [OF assms(2,3)] show ?thesis by simp
qed

lemma select_where:
  assumes "holds T m" and "\<forall>c x. w = Some (c, x) \<longrightarrow> c \<in> insert kc (set cs)"
  shows "\<exists>rs. run_query (Select (kc # cs) name w) T = Some rs \<and> distinct rs \<and>
    set rs = {key k # vals v | k v. m k = Some v \<and> (\<forall>c x. w = Some (c, x) \<longrightarrow> where_eq c x (entry k v))}"
proof -
  from holdsD [OF assms(1)] obtain t where t: "T name = Some t" "map fst (tbCols t) = kc # cs" "tbKey t = kc"
    "distinct (map (\<lambda>r. map_of r kc) (tbRows t))" "set (tbRows t) = {entry k v | k v. m k = Some v}"
    "\<forall>ds. has_cols t ds \<longleftrightarrow> set ds \<subseteq> insert kc (set cs)" by (elim exE conjE) (rule that)
  let ?P = "\<lambda>r. case w of None \<Rightarrow> True | Some (c, v) \<Rightarrow> where_eq c v r"
  let ?rs = "map (\<lambda>r. map snd (project (kc # cs) r)) (filter ?P (tbRows t))"
  have p: "map snd (project (kc # cs) (entry k v)) = key k # vals v" for k v
    by (rule project_all [OF distinct_cols]) (simp add: length_vals)
  have s: "set (filter ?P (tbRows t)) = {entry k v | k v. m k = Some v \<and> (\<forall>c x. w = Some (c, x) \<longrightarrow> where_eq c x (entry k v))}"
    unfolding set_filter t(5) by (auto split: option.split) blast
  have "distinct (tbRows t)" using t(4) by (simp add: distinct_map)
  moreover have "inj_on (\<lambda>r. map snd (project (kc # cs) r)) (set (filter ?P (tbRows t)))"
  proof (rule inj_onI)
    fix r r' assume r: "r \<in> set (filter ?P (tbRows t))" "r' \<in> set (filter ?P (tbRows t))"
      and e: "map snd (project (kc # cs) r) = map snd (project (kc # cs) r')"
    from r(1) obtain k v where 1: "r = entry k v" unfolding s by blast
    from r(2) obtain k' v' where 2: "r' = entry k' v'" unfolding s by blast
    from e have "key k # vals v = key k' # vals v'" unfolding 1 2 p .
    then show "r = r'" unfolding 1 2 by simp
  qed
  ultimately have "distinct ?rs" by (simp only: distinct_map distinct_filter simp_thms)
  moreover have "f ` {entry k v | k v. P k v} = {f (entry k v) | k v. P k v}" for f :: "row \<Rightarrow> sqlval list" and P by blast
  then have "set ?rs = {key k # vals v | k v. m k = Some v \<and> (\<forall>c x. w = Some (c, x) \<longrightarrow> where_eq c x (entry k v))}"
    unfolding set_map s by (simp only: p)
  moreover have "run_query (Select (kc # cs) name w) T = Some ?rs"
    using assms(2) t(1,6) by (auto split: option.split)
  ultimately show ?thesis by blast
qed

lemma select_key:
  assumes ok and "holds T m"
  shows "run_query (Select cs name (Some (kc, key k))) T = Some (case m k of None \<Rightarrow> [] | Some v \<Rightarrow> [vals v])"
proof -
  from holdsD [OF assms(2)] obtain t where t: "T name = Some t" "map fst (tbCols t) = kc # cs" "tbKey t = kc"
    "distinct (map (\<lambda>r. map_of r kc) (tbRows t))" "set (tbRows t) = {entry k v | k v. m k = Some v}"
    "\<forall>ds. has_cols t ds \<longleftrightarrow> set ds \<subseteq> insert kc (set cs)" by (elim exE conjE) (rule that)
  let ?f = "filter (where_eq kc (key k)) (tbRows t)"
  have s: "set ?f = {entry k v | v. m k = Some v}"
    unfolding set_filter t(5) using key_inj [OF assms(1)] key_value by (auto simp: where_eq_def)
  have d: "distinct ?f" using t(4) by (simp add: distinct_map)
  have "?f = (case m k of None \<Rightarrow> [] | Some v \<Rightarrow> [entry k v])"
  proof (cases "m k")
    case None
    with s have "set ?f = {}" by simp
    with None show ?thesis by (simp only: set_empty option.case)
  next
    case (Some v)
    with s have "set ?f = {entry k v}" by simp
    with d have "length ?f = 1" using distinct_card [of ?f] by simp
    then obtain r where "?f = [r]" by (auto simp: length_Suc_conv)
    with \<open>set ?f = {entry k v}\<close> Some show ?thesis by simp
  qed
  then show ?thesis using t(1,6) project_tail [OF distinct_cols length_vals] by (auto split: option.splits)
qed

text \<open>What the stores read: an entry by its key, and all entries that meet a condition.\<close>

lemma query_row_key:
  assumes ok and "holds (sqHolds Q d) m" and "sqlite_ok Q" and "sql_reads Q d"
  shows "query_row Q (Select cs name (Some (kc, key k))) d = (case m k of None \<Rightarrow> Inl ErrNoRows | Some v \<Rightarrow> Inr (vals v))"
proof -
  note s = select_key [OF assms(1,2), of k]
  from sqlite_reads [OF assms(3,4) s] obtain rows where
    r: "sqQuery Q (Select cs name (Some (kc, key k))) d = Inr (rows, None)" "mset rows = mset (case m k of None \<Rightarrow> [] | Some v \<Rightarrow> [vals v])" .
  then show ?thesis by (cases "m k") (simp_all add: query_row_def)
qed

lemma query_all_where:
  assumes "holds (sqHolds Q d) m" and "sqlite_ok Q" and "sql_reads Q d"
    and "\<forall>c x. w = Some (c, x) \<longrightarrow> c \<in> insert kc (set cs)"
    and f: "\<And>k v. m k = Some v \<Longrightarrow> f (key k # vals v) = Inr v \<and> kf v = k"
  shows "\<exists>vs. query_all Q (Select (kc # cs) name w) f d = (vs, None) \<and> distinct vs \<and>
    set vs = {v. m (kf v) = Some v \<and> (\<forall>c x. w = Some (c, x) \<longrightarrow> where_eq c x (entry (kf v) v))}"
proof -
  let ?q = "Select (kc # cs) name w"
  let ?S = "{key k # vals v | k v. m k = Some v \<and> (\<forall>c x. w = Some (c, x) \<longrightarrow> where_eq c x (entry k v))}"
  let ?g = "\<lambda>r. case f r of Inr v \<Rightarrow> v | Inl e \<Rightarrow> undefined"
  from select_where [OF assms(1,4)] obtain rs where rs: "run_query ?q (sqHolds Q d) = Some rs" "distinct rs" "set rs = ?S"
    by blast
  from sqlite_reads [OF assms(2,3) rs(1)] obtain rows where r: "sqQuery Q ?q d = Inr (rows, None)" "mset rows = mset rs" .
  have rows: "distinct rows" "set rows = ?S"
    using mset_eq_imp_distinct_iff [OF r(2)] mset_eq_setD [OF r(2)] rs(2,3) by (simp_all only: simp_thms)
  have row: "\<exists>v. x = key (kf v) # vals v \<and> m (kf v) = Some v \<and> (\<forall>c y. w = Some (c, y) \<longrightarrow> where_eq c y (entry (kf v) v)) \<and>
      f x = Inr v" if "x \<in> set rows" for x
  proof -
    from that rows(2) obtain k v where kv: "x = key k # vals v" "m k = Some v"
      "\<forall>c y. w = Some (c, y) \<longrightarrow> where_eq c y (entry k v)" by blast
    from f [OF kv(2)] kv show ?thesis by (intro exI [of _ v]) simp
  qed
  have "query_all Q ?q f d = (map ?g rows, None)"
    unfolding query_all_def r(1) sum.case prod.case by (rule read_rows_map) (use row in force)
  moreover have "inj_on ?g (set rows)"
  proof (rule inj_onI)
    fix x y assume xy: "x \<in> set rows" "y \<in> set rows" "?g x = ?g y"
    from row [OF xy(1)] obtain v where v: "x = key (kf v) # vals v" "f x = Inr v" by blast
    from row [OF xy(2)] obtain v' where v': "y = key (kf v') # vals v'" "f y = Inr v'" by blast
    from xy(3) v(2) v'(2) have "v = v'" by simp
    with v(1) v'(1) show "x = y" by simp
  qed
  moreover have "set (map ?g rows) = {v. m (kf v) = Some v \<and> (\<forall>c x. w = Some (c, x) \<longrightarrow> where_eq c x (entry (kf v) v))}"
  proof (intro set_eqI iffI)
    fix v assume "v \<in> set (map ?g rows)"
    then obtain x where "x \<in> set rows" "v = ?g x" by auto
    with row [OF this(1)] show "v \<in> {v. m (kf v) = Some v \<and> (\<forall>c x. w = Some (c, x) \<longrightarrow> where_eq c x (entry (kf v) v))}"
      by auto
  next
    fix v assume "v \<in> {v. m (kf v) = Some v \<and> (\<forall>c x. w = Some (c, x) \<longrightarrow> where_eq c x (entry (kf v) v))}"
    then have v: "m (kf v) = Some v" "\<forall>c x. w = Some (c, x) \<longrightarrow> where_eq c x (entry (kf v) v)" by simp_all
    then have v: "m (kf v) = Some v" "key (kf v) # vals v \<in> set rows" unfolding rows(2) by blast+
    from f [OF v(1)] have "?g (key (kf v) # vals v) = v" by simp
    with v(2) have "\<exists>x \<in> set rows. v = ?g x" by (intro bexI [of _ "key (kf v) # vals v"]) simp
    then show "v \<in> set (map ?g rows)" unfolding set_map image_def by blast
  qed
  ultimately show ?thesis using rows(1) by (intro exI [of _ "map ?g rows"]) (simp only: distinct_map simp_thms)
qed

end

end
