(* ===== verification/WalletStore.thy ===== *)
theory WalletStore
  imports SqlTable
begin

text \<open>
  The wallet's database (\<open>wallet/store/sqlite\<close>) and the values it stores (\<open>wallet/sutil\<close>):
  addresses, transactions, unspent and spent outputs and the height, each a table with the
  statements of its operations. Methods on the database and on a batch, an SQL transaction, run
  the same statements; a batch that is rolled back is dropped. Locks are left out. Every table but
  the state interprets the locale \<open>key_table\<close>.
\<close>

subsection \<open>wallet/sutil\<close>

record utxo =
  utOp :: outpoint
  utValue :: u64
  utLockTime :: u32
  utAtHeight :: u32
  utAddress :: uint168

record stxo =
  stUTXO :: utxo
  stSpendHeight :: u32
  stSpendTxId :: uint256

record addr =
  adHash :: uint168
  adScript :: bytes
  adType :: int

definition TypeMaster :: int where "TypeMaster = 0"
definition TypeSub :: int where "TypeSub = push_bit 1 1"
definition TypeMulti :: int where "TypeMulti = push_bit 2 1"
definition TypeNotify :: int where "TypeNotify = push_bit 3 1"

definition NewAddr :: "uint168 \<Rightarrow> bytes \<Rightarrow> int \<Rightarrow> addr" where
  "NewAddr hash script addrType = \<lparr>adHash = hash, adScript = script, adType = addrType\<rparr>"

definition TypeName :: "addr \<Rightarrow> string" where
  "TypeName a =
     (if adType a = TypeMaster then ''MASTER''
      else if adType a = TypeSub then ''SUB''
      else if adType a = TypeMulti then ''MULTI''
      else if adType a = TypeNotify then ''NOTIFY''
      else '''')"

text \<open>A \<open>nil\<close> pointer is \<open>None\<close>; on a \<open>nil\<close> receiver the comparison with another one panics.\<close>

fun utxo_IsEqual :: "utxo option \<Rightarrow> utxo option \<Rightarrow> goerror + bool" where
  "utxo_IsEqual u None = Inr (u = None)"
| "utxo_IsEqual None (Some alt) = Inl (Panic ''nil pointer dereference'')"
| "utxo_IsEqual (Some u) (Some alt) = Inr
     (if opTxID (utOp u) \<noteq> opTxID (utOp alt) then False
      else if opIndex (utOp u) \<noteq> opIndex (utOp alt) then False
      else if utValue u \<noteq> utValue alt then False
      else if utAtHeight u \<noteq> utAtHeight alt then False
      else if utAddress u \<noteq> utAddress alt then False
      else True)"

definition NewUTXO :: "uint256 \<Rightarrow> u32 \<Rightarrow> int \<Rightarrow> u64 \<Rightarrow> u32 \<Rightarrow> uint168 \<Rightarrow> utxo" where
  "NewUTXO txId height index val lockTime address =
     \<lparr>utOp = NewOutPoint txId (word_of_int index), utValue = val, utLockTime = lockTime, utAtHeight = height,
      utAddress = address\<rparr>"

text \<open>\<open>sort.Sort\<close> is not stable; the order among equal values is one of the possible ones.\<close>

definition SortByValue :: "utxo list \<Rightarrow> utxo list" where
  "SortByValue utxos = sort_key (\<lambda>u. sint (utValue u)) utxos"

fun stxo_IsEqual :: "stxo option \<Rightarrow> stxo option \<Rightarrow> goerror + bool" where
  "stxo_IsEqual s None = Inr (s = None)"
| "stxo_IsEqual None (Some alt) = Inl (Panic ''nil pointer dereference'')"
| "stxo_IsEqual (Some s) (Some alt) =
     rbind (utxo_IsEqual (Some (stUTXO s)) (Some (stUTXO alt))) (\<lambda>eq. Inr
       (if \<not> eq then False
        else if stSpendHeight s \<noteq> stSpendHeight alt then False
        else if stSpendTxId s \<noteq> stSpendTxId alt then False
        else True))"

definition NewSTXO :: "utxo \<Rightarrow> u32 \<Rightarrow> uint256 \<Rightarrow> stxo" where
  "NewSTXO u spendHeight spendTxId = \<lparr>stUTXO = u, stSpendHeight = spendHeight, stSpendTxId = spendTxId\<rparr>"

text \<open>\<open>UTXO.IsEqual\<close> does not look at the lock time.\<close>

lemma utxo_IsEqual_ignores_lock:
  "utxo_IsEqual (Some u) (Some (u\<lparr>utLockTime := l\<rparr>)) = Inr True"
  by simp

subsection \<open>Fixed64 and Uint256 as bytes\<close>

text \<open>\<open>Fixed64.Bytes\<close>, \<open>Fixed64FromBytes\<close>, \<open>Uint256FromBytes\<close> of package \<open>common\<close>.\<close>

record wcodec =
  FixedBytes :: "u64 \<Rightarrow> goerror + bytes"
  FixedFromBytes :: "bytes \<Rightarrow> goerror + u64"
  HashFromBytes :: "bytes \<Rightarrow> goerror + uint256"

definition wcodec_ok :: "wcodec \<Rightarrow> bool" where
  "wcodec_ok W \<longleftrightarrow> (\<forall>v. \<exists>b. FixedBytes W v = Inr b \<and> FixedFromBytes W b = Inr v) \<and>
     (\<forall>h. HashFromBytes W (hash_bytes h) = Inr h)"

definition wcodec0 :: wcodec where
  "wcodec0 = \<lparr>FixedBytes = (\<lambda>v. Inr (be_bytes8 v)), FixedFromBytes = (\<lambda>b. Inr (be_u64 b)),
     HashFromBytes = (\<lambda>b. Inr (bytes_hash b))\<rparr>"

lemma wcodec0_ok [simp]: "wcodec_ok wcodec0"
  using be_u64_append [of _ "[]"] by (simp add: wcodec_ok_def wcodec0_def)

subsection \<open>addrs.go, addrsbatch.go\<close>

definition CreateAddrsDB :: stmt where
  "CreateAddrsDB = CreateTable ''Addrs'' [(''Hash'', True), (''Script'', False), (''Type'', True)] ''Hash''"

definition wa_New :: "('d, 'x) sqlite \<Rightarrow> 'd \<Rightarrow> goerror option \<times> 'd" where
  "wa_New Q d = sqExec Q [CreateAddrsDB] d"

text \<open>A \<open>nil\<close> slice is stored as \<open>NULL\<close>. The byte slices of the parameters are \<open>nil\<close> when they are empty:
  a script that is not given, the bytes of a buffer nothing was written to.\<close>

definition blob_val :: "bytes \<Rightarrow> sqlval" where
  "blob_val b = (if b = [] then SNull else SBlob b)"

definition addr_stmt :: "uint168 \<Rightarrow> bytes \<Rightarrow> int \<Rightarrow> stmt" where
  "addr_stmt hash script addrType =
     InsertOrReplace ''Addrs'' [''Hash'', ''Script'', ''Type'']
       [SBlob (u168_bytes hash), blob_val script, SInt addrType]"

definition wa_Put :: "('d, 'x) sqlite \<Rightarrow> uint168 \<Rightarrow> bytes \<Rightarrow> int \<Rightarrow> 'd \<Rightarrow> goerror option \<times> 'd" where
  "wa_Put Q hash script addrType d = sqExec Q [addr_stmt hash script addrType] d"

definition wa_Get :: "('d, 'x) sqlite \<Rightarrow> uint168 \<Rightarrow> 'd \<Rightarrow> goerror + addr" where
  "wa_Get Q hash d =
     rbind (query_row Q (Select [''Script'', ''Type''] ''Addrs'' (Some (''Hash'', SBlob (u168_bytes hash)))) d)
       (\<lambda>r. rbind (scan_blob (r ! 0)) (\<lambda>script. rbind (scan_int64 (r ! 1)) (\<lambda>addrType. Inr (NewAddr hash script addrType))))"

definition scan_addr :: "codec \<Rightarrow> sqlval list \<Rightarrow> goerror + addr" where
  "scan_addr E r =
     rbind (scan_blob (r ! 0)) (\<lambda>hashBytes. rbind (scan_blob (r ! 1)) (\<lambda>script. rbind (scan_int64 (r ! 2)) (\<lambda>addrType.
     rbind (Uint168FromBytes E hashBytes) (\<lambda>hash. Inr (NewAddr hash script addrType)))))"

definition wa_GetAll :: "codec \<Rightarrow> ('d, 'x) sqlite \<Rightarrow> 'd \<Rightarrow> addr list \<times> goerror option" where
  "wa_GetAll E Q d = query_all Q (Select [''Hash'', ''Script'', ''Type''] ''Addrs'' None) (scan_addr E) d"

definition wa_Del :: "('d, 'x) sqlite \<Rightarrow> uint168 \<Rightarrow> 'd \<Rightarrow> goerror option \<times> 'd" where
  "wa_Del Q hash d = sqExec Q [DeleteWhere ''Addrs'' ''Hash'' (SBlob (u168_bytes hash))] d"

text \<open>\<open>Batch\<close> of every store: an SQL transaction, or a panic.\<close>

definition begin_batch :: "('d, 'x) sqlite \<Rightarrow> 'd \<Rightarrow> goerror + 'x" where
  "begin_batch Q d = (case sqBegin Q d of Inl e \<Rightarrow> Inl (Panic ''begin'') | Inr x \<Rightarrow> Inr x)"

definition wa_Batch :: "('d, 'x) sqlite \<Rightarrow> 'd \<Rightarrow> goerror + 'x" where
  "wa_Batch Q d = begin_batch Q d"

definition waBatch_Put :: "('d, 'x) sqlite \<Rightarrow> uint168 \<Rightarrow> bytes \<Rightarrow> int \<Rightarrow> 'x \<Rightarrow> goerror option \<times> 'x" where
  "waBatch_Put Q hash script addrType x = sqTxExec Q [addr_stmt hash script addrType] x"

definition waBatch_Del :: "('d, 'x) sqlite \<Rightarrow> uint168 \<Rightarrow> 'x \<Rightarrow> goerror option \<times> 'x" where
  "waBatch_Del Q hash x = sqTxExec Q [DeleteWhere ''Addrs'' ''Hash'' (SBlob (u168_bytes hash))] x"

subsection \<open>state.go\<close>

definition CreateStateDB :: stmt where
  "CreateStateDB = CreateTable ''State'' [(''Key'', True), (''Value'', True)] ''Key''"

definition HeightKey :: string where
  "HeightKey = ''Height''"

definition ws_New :: "('d, 'x) sqlite \<Rightarrow> 'd \<Rightarrow> goerror option \<times> 'd" where
  "ws_New Q d = sqExec Q [CreateStateDB] d"

definition GetHeight :: "('d, 'x) sqlite \<Rightarrow> 'd \<Rightarrow> u32" where
  "GetHeight Q d =
     (case rbind (query_row Q (Select [''Value''] ''State'' (Some (''Key'', SText HeightKey))) d) (\<lambda>r. scan_u32 (r ! 0)) of
        Inl e \<Rightarrow> 0
      | Inr height \<Rightarrow> height)"

definition PutHeight :: "('d, 'x) sqlite \<Rightarrow> u32 \<Rightarrow> 'd \<Rightarrow> 'd" where
  "PutHeight Q height d =
     snd (sqExec Q [InsertOrReplace ''State'' [''Key'', ''Value''] [SText HeightKey, SInt (uint height)]] d)"

subsection \<open>utxos.go, utxosbatch.go\<close>

definition CreateUTXOsDB :: stmt where
  "CreateUTXOsDB = CreateTable ''UTXOs''
     [(''OutPoint'', True), (''Value'', True), (''LockTime'', True), (''AtHeight'', True), (''Address'', True)] ''OutPoint''"

definition wu_New :: "('d, 'x) sqlite \<Rightarrow> 'd \<Rightarrow> goerror option \<times> 'd" where
  "wu_New Q d = sqExec Q [CreateUTXOsDB] d"

definition utxo_stmt :: "codec \<Rightarrow> utxo \<Rightarrow> bytes \<Rightarrow> stmt" where
  "utxo_stmt E u valueBytes =
     InsertOrReplace ''UTXOs'' [''OutPoint'', ''Value'', ''LockTime'', ''AtHeight'', ''Address'']
       [SBlob (outpoint_Bytes E (utOp u)), SBlob valueBytes, SInt (uint (utLockTime u)), SInt (uint (utAtHeight u)),
        SBlob (u168_bytes (utAddress u))]"

definition wu_Put :: "codec \<Rightarrow> wcodec \<Rightarrow> ('d, 'x) sqlite \<Rightarrow> utxo \<Rightarrow> 'd \<Rightarrow> goerror option \<times> 'd" where
  "wu_Put E W Q u d =
     (case FixedBytes W (utValue u) of Inl e \<Rightarrow> (Some e, d) | Inr valueBytes \<Rightarrow> sqExec Q [utxo_stmt E u valueBytes] d)"

definition wu_Get :: "codec \<Rightarrow> wcodec \<Rightarrow> ('d, 'x) sqlite \<Rightarrow> outpoint \<Rightarrow> 'd \<Rightarrow> goerror + utxo" where
  "wu_Get E W Q op d =
     rbind (query_row Q (Select [''Value'', ''LockTime'', ''AtHeight'', ''Address''] ''UTXOs''
       (Some (''OutPoint'', SBlob (outpoint_Bytes E op)))) d) (\<lambda>r.
     rbind (scan_blob (r ! 0)) (\<lambda>valueBytes. rbind (scan_u32 (r ! 1)) (\<lambda>lockTime. rbind (scan_u32 (r ! 2)) (\<lambda>atHeight.
     rbind (scan_blob (r ! 3)) (\<lambda>addressBytes.
     rbind (FixedFromBytes W valueBytes) (\<lambda>val. rbind (Uint168FromBytes E addressBytes) (\<lambda>address.
       Inr \<lparr>utOp = op, utValue = val, utLockTime = lockTime, utAtHeight = atHeight, utAddress = address\<rparr>)))))))"

definition scan_utxo :: "codec \<Rightarrow> wcodec \<Rightarrow> sqlval list \<Rightarrow> goerror + utxo" where
  "scan_utxo E W r =
     rbind (scan_blob (r ! 0)) (\<lambda>opBytes. rbind (scan_blob (r ! 1)) (\<lambda>valueBytes. rbind (scan_u32 (r ! 2)) (\<lambda>lockTime.
     rbind (scan_u32 (r ! 3)) (\<lambda>atHeight. rbind (scan_blob (r ! 4)) (\<lambda>addressBytes.
     rbind (OutPointFromBytes E opBytes) (\<lambda>outPoint. rbind (FixedFromBytes W valueBytes) (\<lambda>val.
     rbind (Uint168FromBytes E addressBytes) (\<lambda>address.
       Inr \<lparr>utOp = outPoint, utValue = val, utLockTime = lockTime, utAtHeight = atHeight, utAddress = address\<rparr>))))))))"

definition wu_GetAddrAll ::
  "codec \<Rightarrow> wcodec \<Rightarrow> ('d, 'x) sqlite \<Rightarrow> uint168 \<Rightarrow> 'd \<Rightarrow> utxo list \<times> goerror option" where
  "wu_GetAddrAll E W Q hash d =
     query_all Q (Select [''OutPoint'', ''Value'', ''LockTime'', ''AtHeight'', ''Address''] ''UTXOs''
       (Some (''Address'', SBlob (u168_bytes hash)))) (scan_utxo E W) d"

definition wu_GetAll :: "codec \<Rightarrow> wcodec \<Rightarrow> ('d, 'x) sqlite \<Rightarrow> 'd \<Rightarrow> utxo list \<times> goerror option" where
  "wu_GetAll E W Q d =
     query_all Q (Select [''OutPoint'', ''Value'', ''LockTime'', ''AtHeight'', ''Address''] ''UTXOs'' None) (scan_utxo E W) d"

definition wu_Del :: "codec \<Rightarrow> ('d, 'x) sqlite \<Rightarrow> outpoint \<Rightarrow> 'd \<Rightarrow> goerror option \<times> 'd" where
  "wu_Del E Q op d = sqExec Q [DeleteWhere ''UTXOs'' ''OutPoint'' (SBlob (outpoint_Bytes E op))] d"

definition wu_Batch :: "('d, 'x) sqlite \<Rightarrow> 'd \<Rightarrow> goerror + 'x" where
  "wu_Batch Q d = begin_batch Q d"

definition wuBatch_Put :: "codec \<Rightarrow> wcodec \<Rightarrow> ('d, 'x) sqlite \<Rightarrow> utxo \<Rightarrow> 'x \<Rightarrow> goerror option \<times> 'x" where
  "wuBatch_Put E W Q u x =
     (case FixedBytes W (utValue u) of Inl e \<Rightarrow> (Some e, x) | Inr valueBytes \<Rightarrow> sqTxExec Q [utxo_stmt E u valueBytes] x)"

definition wuBatch_Del :: "codec \<Rightarrow> ('d, 'x) sqlite \<Rightarrow> outpoint \<Rightarrow> 'x \<Rightarrow> goerror option \<times> 'x" where
  "wuBatch_Del E Q op x = sqTxExec Q [DeleteWhere ''UTXOs'' ''OutPoint'' (SBlob (outpoint_Bytes E op))] x"

subsection \<open>stxos.go, stxosbatch.go\<close>

definition CreateSTXOsDB :: stmt where
  "CreateSTXOsDB = CreateTable ''STXOs''
     [(''OutPoint'', True), (''Value'', True), (''LockTime'', True), (''AtHeight'', True), (''SpendHash'', True),
      (''SpendHeight'', True), (''Address'', True)] ''OutPoint''"

definition wt_New :: "('d, 'x) sqlite \<Rightarrow> 'd \<Rightarrow> goerror option \<times> 'd" where
  "wt_New Q d = sqExec Q [CreateSTXOsDB] d"

abbreviation stxo_cols :: "string list" where
  "stxo_cols \<equiv> [''OutPoint'', ''Value'', ''LockTime'', ''AtHeight'', ''SpendHash'', ''SpendHeight'', ''Address'']"

definition stxo_stmt :: "codec \<Rightarrow> stxo \<Rightarrow> bytes \<Rightarrow> stmt" where
  "stxo_stmt E s valueBytes =
     InsertOrReplace ''STXOs'' stxo_cols
       [SBlob (outpoint_Bytes E (utOp (stUTXO s))), SBlob valueBytes, SInt (uint (utLockTime (stUTXO s))),
        SInt (uint (utAtHeight (stUTXO s))), SBlob (hash_bytes (stSpendTxId s)), SInt (uint (stSpendHeight s)),
        SBlob (u168_bytes (utAddress (stUTXO s)))]"

definition wt_Put :: "codec \<Rightarrow> wcodec \<Rightarrow> ('d, 'x) sqlite \<Rightarrow> stxo \<Rightarrow> 'd \<Rightarrow> goerror option \<times> 'd" where
  "wt_Put E W Q s d =
     (case FixedBytes W (utValue (stUTXO s)) of
        Inl e \<Rightarrow> (Some e, d)
      | Inr valueBytes \<Rightarrow> sqExec Q [stxo_stmt E s valueBytes] d)"

definition wt_Get :: "codec \<Rightarrow> wcodec \<Rightarrow> ('d, 'x) sqlite \<Rightarrow> outpoint \<Rightarrow> 'd \<Rightarrow> goerror + stxo" where
  "wt_Get E W Q op d =
     rbind (query_row Q (Select [''Value'', ''LockTime'', ''AtHeight'', ''SpendHash'', ''SpendHeight'', ''Address''] ''STXOs''
       (Some (''OutPoint'', SBlob (outpoint_Bytes E op)))) d) (\<lambda>r.
     rbind (scan_blob (r ! 0)) (\<lambda>valueBytes. rbind (scan_u32 (r ! 1)) (\<lambda>lockTime. rbind (scan_u32 (r ! 2)) (\<lambda>atHeight.
     rbind (scan_blob (r ! 3)) (\<lambda>spendHashBytes. rbind (scan_u32 (r ! 4)) (\<lambda>spendHeight.
     rbind (scan_blob (r ! 5)) (\<lambda>addressBytes.
     rbind (FixedFromBytes W valueBytes) (\<lambda>val. rbind (Uint168FromBytes E addressBytes) (\<lambda>address.
     rbind (HashFromBytes W spendHashBytes) (\<lambda>spendHash.
       Inr \<lparr>stUTXO = \<lparr>utOp = op, utValue = val, utLockTime = lockTime, utAtHeight = atHeight, utAddress = address\<rparr>,
            stSpendHeight = spendHeight, stSpendTxId = spendHash\<rparr>))))))))))"

definition scan_stxo :: "codec \<Rightarrow> wcodec \<Rightarrow> sqlval list \<Rightarrow> goerror + stxo" where
  "scan_stxo E W r =
     rbind (scan_blob (r ! 0)) (\<lambda>opBytes. rbind (scan_blob (r ! 1)) (\<lambda>valueBytes. rbind (scan_u32 (r ! 2)) (\<lambda>lockTime.
     rbind (scan_u32 (r ! 3)) (\<lambda>atHeight. rbind (scan_blob (r ! 4)) (\<lambda>spendHashBytes. rbind (scan_u32 (r ! 5)) (\<lambda>spendHeight.
     rbind (scan_blob (r ! 6)) (\<lambda>addressBytes.
     rbind (OutPointFromBytes E opBytes) (\<lambda>outPoint. rbind (FixedFromBytes W valueBytes) (\<lambda>val.
     rbind (Uint168FromBytes E addressBytes) (\<lambda>address. rbind (HashFromBytes W spendHashBytes) (\<lambda>spendHash.
       Inr \<lparr>stUTXO = \<lparr>utOp = outPoint, utValue = val, utLockTime = lockTime, utAtHeight = atHeight, utAddress = address\<rparr>,
            stSpendHeight = spendHeight, stSpendTxId = spendHash\<rparr>)))))))))))"

definition wt_GetAddrAll ::
  "codec \<Rightarrow> wcodec \<Rightarrow> ('d, 'x) sqlite \<Rightarrow> uint168 \<Rightarrow> 'd \<Rightarrow> stxo list \<times> goerror option" where
  "wt_GetAddrAll E W Q hash d =
     query_all Q (Select stxo_cols ''STXOs'' (Some (''Address'', SBlob (u168_bytes hash)))) (scan_stxo E W) d"

definition wt_GetAll :: "codec \<Rightarrow> wcodec \<Rightarrow> ('d, 'x) sqlite \<Rightarrow> 'd \<Rightarrow> stxo list \<times> goerror option" where
  "wt_GetAll E W Q d = query_all Q (Select stxo_cols ''STXOs'' None) (scan_stxo E W) d"

definition wt_Del :: "codec \<Rightarrow> ('d, 'x) sqlite \<Rightarrow> outpoint \<Rightarrow> 'd \<Rightarrow> goerror option \<times> 'd" where
  "wt_Del E Q op d = sqExec Q [DeleteWhere ''STXOs'' ''OutPoint'' (SBlob (outpoint_Bytes E op))] d"

definition wt_Batch :: "('d, 'x) sqlite \<Rightarrow> 'd \<Rightarrow> goerror + 'x" where
  "wt_Batch Q d = begin_batch Q d"

definition wtBatch_Put :: "codec \<Rightarrow> wcodec \<Rightarrow> ('d, 'x) sqlite \<Rightarrow> stxo \<Rightarrow> 'x \<Rightarrow> goerror option \<times> 'x" where
  "wtBatch_Put E W Q s x =
     (case FixedBytes W (utValue (stUTXO s)) of
        Inl e \<Rightarrow> (Some e, x)
      | Inr valueBytes \<Rightarrow> sqTxExec Q [stxo_stmt E s valueBytes] x)"

definition wtBatch_Del :: "codec \<Rightarrow> ('d, 'x) sqlite \<Rightarrow> outpoint \<Rightarrow> 'x \<Rightarrow> goerror option \<times> 'x" where
  "wtBatch_Del E Q op x = sqTxExec Q [DeleteWhere ''STXOs'' ''OutPoint'' (SBlob (outpoint_Bytes E op))] x"

subsection \<open>txs.go, txsbatch.go\<close>

definition CreateTxsDB :: "stmt list" where
  "CreateTxsDB =
     [CreateTable ''Txs'' [(''Hash'', True), (''Height'', True), (''Timestamp'', True), (''RawData'', True)] ''Hash'',
      CreateTable ''ForkTxs'' [(''Hash'', True), (''Num'', True), (''RawData'', True)] ''Hash'']"

definition wx_New :: "('d, 'x) sqlite \<Rightarrow> 'd \<Rightarrow> goerror option \<times> 'd" where
  "wx_New Q d = sqExec Q CreateTxsDB d"

definition tx_stmt :: "utiltx \<Rightarrow> stmt" where
  "tx_stmt t =
     InsertOrReplace ''Txs'' [''Hash'', ''Height'', ''Timestamp'', ''RawData'']
       [SBlob (hash_bytes (utxHash t)), SInt (uint (utxHeight t)), SInt (sint (utxTimestamp t)), blob_val (utxRawData t)]"

definition wx_Put :: "('d, 'x) sqlite \<Rightarrow> utiltx \<Rightarrow> 'd \<Rightarrow> goerror option \<times> 'd" where
  "wx_Put Q t d = sqExec Q [tx_stmt t] d"

definition wx_Get :: "('d, 'x) sqlite \<Rightarrow> uint256 \<Rightarrow> 'd \<Rightarrow> goerror + utiltx" where
  "wx_Get Q txId d =
     rbind (query_row Q (Select [''Height'', ''Timestamp'', ''RawData''] ''Txs'' (Some (''Hash'', SBlob (hash_bytes txId)))) d)
       (\<lambda>r. rbind (scan_u32 (r ! 0)) (\<lambda>height. rbind (scan_int64 (r ! 1)) (\<lambda>timestamp. rbind (scan_blob (r ! 2)) (\<lambda>rawData.
         Inr \<lparr>utxHash = txId, utxHeight = height, utxTimestamp = word_of_int timestamp, utxRawData = rawData\<rparr>))))"

definition scan_tx :: "wcodec \<Rightarrow> sqlval list \<Rightarrow> goerror + utiltx" where
  "scan_tx W r =
     rbind (scan_blob (r ! 0)) (\<lambda>txIdBytes. rbind (scan_u32 (r ! 1)) (\<lambda>height. rbind (scan_int64 (r ! 2)) (\<lambda>timestamp.
     rbind (scan_blob (r ! 3)) (\<lambda>rawData. rbind (HashFromBytes W txIdBytes) (\<lambda>txId.
       Inr \<lparr>utxHash = txId, utxHeight = height, utxTimestamp = word_of_int timestamp, utxRawData = rawData\<rparr>)))))"

definition wx_GetAllFrom :: "wcodec \<Rightarrow> ('d, 'x) sqlite \<Rightarrow> u32 \<Rightarrow> 'd \<Rightarrow> utiltx list \<times> goerror option" where
  "wx_GetAllFrom W Q height d =
     query_all Q (Select [''Hash'', ''Height'', ''Timestamp'', ''RawData''] ''Txs''
       (if height \<noteq> - 1 then Some (''Height'', SInt (uint height)) else None)) (scan_tx W) d"

definition wx_GetAll :: "wcodec \<Rightarrow> ('d, 'x) sqlite \<Rightarrow> 'd \<Rightarrow> utiltx list \<times> goerror option" where
  "wx_GetAll W Q d = wx_GetAllFrom W Q (- 1) d"

definition wx_GetAllUnconfirmed :: "wcodec \<Rightarrow> ('d, 'x) sqlite \<Rightarrow> 'd \<Rightarrow> utiltx list \<times> goerror option" where
  "wx_GetAllUnconfirmed W Q d = wx_GetAllFrom W Q 0 d"

definition wx_Del :: "('d, 'x) sqlite \<Rightarrow> uint256 \<Rightarrow> 'd \<Rightarrow> goerror option \<times> 'd" where
  "wx_Del Q txId d = sqExec Q [DeleteWhere ''Txs'' ''Hash'' (SBlob (hash_bytes txId))] d"

definition wx_PutForkTxs :: "codec \<Rightarrow> ('d, 'x) sqlite \<Rightarrow> utiltx list \<Rightarrow> uint256 \<Rightarrow> 'd \<Rightarrow> goerror option \<times> 'd" where
  "wx_PutForkTxs E Q txs hash d =
     (let buf = concat (map (utx_Serialize E) txs)
      in sqExec Q [InsertOrReplace ''ForkTxs'' [''Hash'', ''Num'', ''RawData'']
           [SBlob (hash_bytes hash), SInt (int (length txs)), blob_val buf]] d)"

definition wx_GetForkTxs :: "codec \<Rightarrow> ('d, 'x) sqlite \<Rightarrow> uint256 \<Rightarrow> 'd \<Rightarrow> goerror + utiltx list" where
  "wx_GetForkTxs E Q hash d =
     rbind (query_row Q (Select [''Num'', ''RawData''] ''ForkTxs'' (Some (''Hash'', SBlob (hash_bytes hash)))) d)
       (\<lambda>r. rbind (scan_int64 (r ! 0)) (\<lambda>num. rbind (scan_blob (r ! 1)) (\<lambda>buf.
         if num < 0 then Inl (Panic ''makeslice: len out of range'')
         else rbind (read_list (utx_Deserialize E) (nat num) buf) (\<lambda>(txs, rest). Inr txs))))"

definition wx_Batch :: "('d, 'x) sqlite \<Rightarrow> 'd \<Rightarrow> goerror + 'x" where
  "wx_Batch Q d = begin_batch Q d"

definition wxBatch_Put :: "('d, 'x) sqlite \<Rightarrow> utiltx \<Rightarrow> 'x \<Rightarrow> goerror option \<times> 'x" where
  "wxBatch_Put Q t x = sqTxExec Q [tx_stmt t] x"

definition wxBatch_Del :: "('d, 'x) sqlite \<Rightarrow> uint256 \<Rightarrow> 'x \<Rightarrow> goerror option \<times> 'x" where
  "wxBatch_Del Q txId x = sqTxExec Q [DeleteWhere ''Txs'' ''Hash'' (SBlob (hash_bytes txId))] x"

subsection \<open>database.go, databatch.go\<close>

text \<open>A step that may fail, on the state.\<close>

definition then_do :: "goerror option \<times> 's \<Rightarrow> ('s \<Rightarrow> goerror option \<times> 's) \<Rightarrow> goerror option \<times> 's" where
  "then_do r f = (case r of (Some e, s) \<Rightarrow> (Some e, s) | (None, s) \<Rightarrow> f s)"

text \<open>\<open>NewDatabase\<close>, after the file is opened.\<close>

definition wd_New :: "('d, 'x) sqlite \<Rightarrow> 'd \<Rightarrow> goerror option \<times> 'd" where
  "wd_New Q d = then_do (ws_New Q d) (\<lambda>d. then_do (wa_New Q d) (\<lambda>d. then_do (wu_New Q d) (\<lambda>d. then_do (wt_New Q d) (wx_New Q))))"

definition wd_Batch :: "('d, 'x) sqlite \<Rightarrow> 'd \<Rightarrow> goerror + 'x" where
  "wd_Batch Q d = begin_batch Q d"

definition wd_Clear :: "('d, 'x) sqlite \<Rightarrow> 'd \<Rightarrow> goerror option \<times> 'd" where
  "wd_Clear Q d =
     (case sqBegin Q d of
        Inl e \<Rightarrow> (Some e, d)
      | Inr x \<Rightarrow>
          (case sqTxExec Q [DropTable ''State'', DropTable ''UTXOs'', DropTable ''STXOs'', DropTable ''TXNs''] x of
             (Some e, x) \<Rightarrow> (Some e, d)
           | (None, x) \<Rightarrow> sqCommit Q x d))"

definition RollbackHeight :: "('d, 'x) sqlite \<Rightarrow> u32 \<Rightarrow> 'x \<Rightarrow> goerror option \<times> 'x" where
  "RollbackHeight Q height x =
     then_do (sqTxExec Q [DeleteWhere ''UTXOs'' ''AtHeight'' (SInt (uint height))] x) (\<lambda>x.
     then_do (sqTxExec Q [InsertSelect ''UTXOs'' [''OutPoint'', ''Value'', ''LockTime'', ''AtHeight'', ''Address'']
       ''STXOs'' ''SpendHeight'' (SInt (uint height))] x) (\<lambda>x.
     then_do (sqTxExec Q [DeleteWhere ''STXOs'' ''SpendHeight'' (SInt (uint height))] x) (\<lambda>x.
     sqTxExec Q [DeleteWhere ''TXNs'' ''Height'' (SInt (uint height))] x)))"

lemma then_do_None: "then_do r f = (None, s') \<longleftrightarrow> (\<exists>s. r = (None, s) \<and> f s = (None, s'))"
  by (auto simp: then_do_def split: prod.split option.split)

end
