(* ===== verification/WalletTables.thy ===== *)
theory WalletTables
  imports WalletStore
begin

text \<open>
  The tables of the wallet as maps (\<open>wdata\<close>): what each operation of \<open>WalletStore\<close> makes of
  them and what it reads from them. The locale \<open>key_table\<close> is interpreted on each table with the
  code's statements; the state of the database is related to the maps by \<open>wdata_holds\<close>.
\<close>

subsection \<open>Encodings\<close>

definition fixed_bytes :: "wcodec \<Rightarrow> u64 \<Rightarrow> bytes" where
  "fixed_bytes W v = (case FixedBytes W v of Inr b \<Rightarrow> b | Inl e \<Rightarrow> [])"

lemma fixed_bytes [simp]:
  assumes "wcodec_ok W"
  shows "FixedBytes W v = Inr (fixed_bytes W v)" and "FixedFromBytes W (fixed_bytes W v) = Inr v"
proof -
  from assms obtain b where b: "FixedBytes W v = Inr b" "FixedFromBytes W b = Inr v" unfolding wcodec_ok_def by blast
  then show "FixedBytes W v = Inr (fixed_bytes W v)" and "FixedFromBytes W (fixed_bytes W v) = Inr v"
    by (simp_all add: fixed_bytes_def)
qed

lemma HashFromBytes_ok [simp]: "wcodec_ok W \<Longrightarrow> HashFromBytes W (hash_bytes h) = Inr h"
  by (simp add: wcodec_ok_def)

definition op_key :: "codec \<Rightarrow> outpoint \<Rightarrow> sqlval" where
  "op_key E op = SBlob (outpoint_Bytes E op)"

definition hash_key :: "uint256 \<Rightarrow> sqlval" where
  "hash_key h = SBlob (hash_bytes h)"

definition addr_key :: "uint168 \<Rightarrow> sqlval" where
  "addr_key a = SBlob (u168_bytes a)"

definition utxo_vals :: "wcodec \<Rightarrow> utxo \<Rightarrow> sqlval list" where
  "utxo_vals W u = [SBlob (fixed_bytes W (utValue u)), SInt (uint (utLockTime u)), SInt (uint (utAtHeight u)),
     SBlob (u168_bytes (utAddress u))]"

definition stxo_vals :: "wcodec \<Rightarrow> stxo \<Rightarrow> sqlval list" where
  "stxo_vals W s = [SBlob (fixed_bytes W (utValue (stUTXO s))), SInt (uint (utLockTime (stUTXO s))),
     SInt (uint (utAtHeight (stUTXO s))), SBlob (hash_bytes (stSpendTxId s)), SInt (uint (stSpendHeight s)),
     SBlob (u168_bytes (utAddress (stUTXO s)))]"

definition utx_vals :: "utiltx \<Rightarrow> sqlval list" where
  "utx_vals t = [SInt (uint (utxHeight t)), SInt (sint (utxTimestamp t)), blob_val (utxRawData t)]"

definition fork_vals :: "codec \<Rightarrow> utiltx list \<Rightarrow> sqlval list" where
  "fork_vals E txs = [SInt (int (length txs)), blob_val (concat (map (utx_Serialize E) txs))]"

definition addr_vals :: "addr \<Rightarrow> sqlval list" where
  "addr_vals a = [blob_val (adScript a), SInt (adType a)]"

interpretation utxo_table: key_table "''UTXOs''" "''OutPoint''" "[''Value'', ''LockTime'', ''AtHeight'', ''Address'']"
  "op_key E" "utxo_vals W" "codec_ok E" for E W
  by unfold_locales (simp_all add: utxo_vals_def op_key_def outpoint_Bytes_inj)

interpretation stxo_table: key_table "''STXOs''" "''OutPoint''"
  "[''Value'', ''LockTime'', ''AtHeight'', ''SpendHash'', ''SpendHeight'', ''Address'']"
  "op_key E" "stxo_vals W" "codec_ok E" for E W
  by unfold_locales (simp_all add: stxo_vals_def op_key_def outpoint_Bytes_inj)

interpretation tx_table: key_table "''Txs''" "''Hash''" "[''Height'', ''Timestamp'', ''RawData'']" hash_key utx_vals True
  by unfold_locales (simp_all add: utx_vals_def hash_key_def)

interpretation fork_table: key_table "''ForkTxs''" "''Hash''" "[''Num'', ''RawData'']" hash_key "fork_vals E" True for E
  by unfold_locales (simp_all add: fork_vals_def hash_key_def)

interpretation addr_table: key_table "''Addrs''" "''Hash''" "[''Script'', ''Type'']" addr_key addr_vals True
  by unfold_locales (simp_all add: addr_vals_def addr_key_def)

text \<open>The statements are those of the locale.\<close>

lemma utxo_stmt_row: "utxo_stmt E u (fixed_bytes W (utValue u)) =
  InsertOrReplace ''UTXOs'' (''OutPoint'' # [''Value'', ''LockTime'', ''AtHeight'', ''Address'']) (op_key E (utOp u) # utxo_vals W u)"
  by (simp add: utxo_stmt_def utxo_vals_def op_key_def)

lemma stxo_stmt_row: "stxo_stmt E s (fixed_bytes W (utValue (stUTXO s))) =
  InsertOrReplace ''STXOs'' (''OutPoint'' # [''Value'', ''LockTime'', ''AtHeight'', ''SpendHash'', ''SpendHeight'', ''Address''])
    (op_key E (utOp (stUTXO s)) # stxo_vals W s)"
  by (simp add: stxo_stmt_def stxo_vals_def op_key_def)

lemma tx_stmt_row: "tx_stmt t =
  InsertOrReplace ''Txs'' (''Hash'' # [''Height'', ''Timestamp'', ''RawData'']) (hash_key (utxHash t) # utx_vals t)"
  by (simp add: tx_stmt_def utx_vals_def hash_key_def)

lemma addr_stmt_row: "addr_stmt h s a =
  InsertOrReplace ''Addrs'' (''Hash'' # [''Script'', ''Type'']) (addr_key h # addr_vals (NewAddr h s a))"
  by (simp add: addr_stmt_def addr_vals_def addr_key_def NewAddr_def)

subsection \<open>Reading back what was written\<close>

lemma scan_blob_val [simp]: "scan_blob (blob_val b) = Inr b"
  by (simp add: blob_val_def)

lemma scan_int64_sint [simp]: "scan_int64 (SInt (sint (w :: u64))) = Inr (sint w)"
  using sint_greater_eq [of w] sint_lt [of w] by simp

lemma scan_utxo_row:
  "codec_ok E \<Longrightarrow> wcodec_ok W \<Longrightarrow> scan_utxo E W (op_key E (utOp u) # utxo_vals W u) = Inr u"
  by (simp add: scan_utxo_def op_key_def utxo_vals_def codec_simps del: scan_u32.simps)

lemma scan_stxo_row:
  "codec_ok E \<Longrightarrow> wcodec_ok W \<Longrightarrow> scan_stxo E W (op_key E (utOp (stUTXO s)) # stxo_vals W s) = Inr s"
  by (simp add: scan_stxo_def op_key_def stxo_vals_def codec_simps eval_nat_numeral del: scan_u32.simps)

lemma scan_tx_row: "wcodec_ok W \<Longrightarrow> scan_tx W (hash_key (utxHash t) # utx_vals t) = Inr t"
  by (simp add: scan_tx_def hash_key_def utx_vals_def eval_nat_numeral del: scan_u32.simps scan_int64.simps)

definition addr_ok :: "addr \<Rightarrow> bool" where
  "addr_ok a \<longleftrightarrow> - (2 ^ 63) \<le> adType a \<and> adType a < 2 ^ 63"

lemma scan_addr_row: "codec_ok E \<Longrightarrow> addr_ok a \<Longrightarrow> scan_addr E (addr_key (adHash a) # addr_vals a) = Inr a"
  by (simp add: scan_addr_def addr_key_def addr_vals_def addr_ok_def NewAddr_def codec_simps eval_nat_numeral)

subsection \<open>The contents of the database\<close>

record wdata =
  wdUtxos :: "outpoint \<rightharpoonup> utxo"
  wdStxos :: "outpoint \<rightharpoonup> stxo"
  wdTxs :: "uint256 \<rightharpoonup> utiltx"
  wdForks :: "uint256 \<rightharpoonup> utiltx list"
  wdAddrs :: "uint168 \<rightharpoonup> addr"

definition wdata_keyed :: "wdata \<Rightarrow> bool" where
  "wdata_keyed w \<longleftrightarrow> (\<forall>k u. wdUtxos w k = Some u \<longrightarrow> utOp u = k) \<and> (\<forall>k s. wdStxos w k = Some s \<longrightarrow> utOp (stUTXO s) = k) \<and>
     (\<forall>k t. wdTxs w k = Some t \<longrightarrow> utxHash t = k) \<and> (\<forall>k a. wdAddrs w k = Some a \<longrightarrow> adHash a = k \<and> addr_ok a)"

definition wdata_holds :: "codec \<Rightarrow> wcodec \<Rightarrow> tables \<Rightarrow> wdata \<Rightarrow> bool" where
  "wdata_holds E W T w \<longleftrightarrow> wdata_keyed w \<and>
     table_holds ''UTXOs'' (''OutPoint'' # [''Value'', ''LockTime'', ''AtHeight'', ''Address'']) (op_key E) (utxo_vals W) T (wdUtxos w) \<and>
     table_holds ''STXOs'' (''OutPoint'' # [''Value'', ''LockTime'', ''AtHeight'', ''SpendHash'', ''SpendHeight'', ''Address''])
       (op_key E) (stxo_vals W) T (wdStxos w) \<and>
     table_holds ''Txs'' (''Hash'' # [''Height'', ''Timestamp'', ''RawData'']) hash_key utx_vals T (wdTxs w) \<and>
     table_holds ''ForkTxs'' (''Hash'' # [''Num'', ''RawData'']) hash_key (fork_vals E) T (wdForks w) \<and>
     table_holds ''Addrs'' (''Hash'' # [''Script'', ''Type'']) addr_key addr_vals T (wdAddrs w)"

text \<open>What the writing statements make of the maps.\<close>

lemma wdata_utxo:
  assumes "codec_ok E" and "wdata_holds E W T w" and "run_stmts [utxo_stmt E u (fixed_bytes W (utValue u))] T = Some T'"
  shows "wdata_holds E W T' (w\<lparr>wdUtxos := (wdUtxos w)(utOp u \<mapsto> u)\<rparr>)"
proof -
  from assms(2) have h: "utxo_table.holds E W T (wdUtxos w)" by (simp add: wdata_holds_def)
  from utxo_table.insert_holds [OF assms(1) h assms(3) [unfolded utxo_stmt_row]] assms(2) show ?thesis
    by (auto simp: wdata_holds_def wdata_keyed_def intro: table_holds_other)
qed

lemma wdata_stxo:
  assumes "codec_ok E" and "wdata_holds E W T w" and "run_stmts [stxo_stmt E s (fixed_bytes W (utValue (stUTXO s)))] T = Some T'"
  shows "wdata_holds E W T' (w\<lparr>wdStxos := (wdStxos w)(utOp (stUTXO s) \<mapsto> s)\<rparr>)"
proof -
  from assms(2) have h: "stxo_table.holds E W T (wdStxos w)" by (simp add: wdata_holds_def)
  from stxo_table.insert_holds [OF assms(1) h assms(3) [unfolded stxo_stmt_row]] assms(2) show ?thesis
    by (auto simp: wdata_holds_def wdata_keyed_def intro: table_holds_other)
qed

lemma wdata_tx:
  assumes "wdata_holds E W T w" and "run_stmts [tx_stmt t] T = Some T'"
  shows "wdata_holds E W T' (w\<lparr>wdTxs := (wdTxs w)(utxHash t \<mapsto> t)\<rparr>)"
proof -
  from assms(1) have h: "tx_table.holds T (wdTxs w)" by (simp add: wdata_holds_def)
  from tx_table.insert_holds [OF TrueI h assms(2) [unfolded tx_stmt_row]] assms(1) show ?thesis
    by (auto simp: wdata_holds_def wdata_keyed_def intro: table_holds_other)
qed

lemma wdata_addr:
  assumes "wdata_holds E W T w" and "run_stmts [addr_stmt h s a] T = Some T'" and "addr_ok (NewAddr h s a)"
  shows "wdata_holds E W T' (w\<lparr>wdAddrs := (wdAddrs w)(h \<mapsto> NewAddr h s a)\<rparr>)"
proof -
  from assms(1) have h: "addr_table.holds T (wdAddrs w)" by (simp add: wdata_holds_def)
  from addr_table.insert_holds [OF TrueI h assms(2) [unfolded addr_stmt_row]] assms(1,3) show ?thesis
    by (auto simp: wdata_holds_def wdata_keyed_def NewAddr_def intro: table_holds_other)
qed

lemma wdata_utxo_del:
  assumes "codec_ok E" and "wdata_holds E W T w"
    and "run_stmts [DeleteWhere ''UTXOs'' ''OutPoint'' (SBlob (outpoint_Bytes E op))] T = Some T'"
  shows "wdata_holds E W T' (w\<lparr>wdUtxos := (wdUtxos w)(op := None)\<rparr>)"
proof -
  from assms(2) have h: "utxo_table.holds E W T (wdUtxos w)" by (simp add: wdata_holds_def)
  from utxo_table.delete_holds [OF assms(1) h assms(3) [folded op_key_def]] assms(2) show ?thesis
    by (auto simp: wdata_holds_def wdata_keyed_def intro: table_holds_other)
qed

text \<open>Storing the transactions of a fork needs some: without any, \<open>RawData\<close> is \<open>NULL\<close>.\<close>

lemma fork_table_null:
  assumes "T ''ForkTxs'' = Some t" and "tbCols t = [(''Hash'', True), (''Num'', True), (''RawData'', True)]"
  shows "run_stmts [InsertOrReplace ''ForkTxs'' [''Hash'', ''Num'', ''RawData''] [a, b, SNull]] T = None"
  using assms by (simp add: has_cols_def insert_row_def Let_def complete_row_def)

subsection \<open>The operations\<close>

lemma wu_Get_ok:
  assumes "codec_ok E" and "wcodec_ok W" and "sqlite_ok Q" and "sql_reads Q d" and w: "wdata_holds E W (sqHolds Q d) w"
  shows "wu_Get E W Q op d = (case wdUtxos w op of None \<Rightarrow> Inl ErrNoRows | Some u \<Rightarrow> Inr u)"
proof -
  from w have h: "utxo_table.holds E W (sqHolds Q d) (wdUtxos w)" by (simp add: wdata_holds_def)
  have k: "utOp u = op" if "wdUtxos w op = Some u" for u using w that by (simp add: wdata_holds_def wdata_keyed_def)
  show ?thesis
    using utxo_table.query_row_key [OF assms(1) h assms(3,4), of op] k assms(1,2)
    by (cases "wdUtxos w op") (auto simp: wu_Get_def op_key_def utxo_vals_def codec_simps eval_nat_numeral simp del: scan_u32.simps)
qed

lemma wu_GetAll_ok:
  assumes "codec_ok E" and "wcodec_ok W" and "sqlite_ok Q" and "sql_reads Q d" and w: "wdata_holds E W (sqHolds Q d) w"
  shows "\<exists>us. wu_GetAll E W Q d = (us, None) \<and> distinct us \<and> set us = {u. wdUtxos w (utOp u) = Some u}"
proof -
  from w have h: "utxo_table.holds E W (sqHolds Q d) (wdUtxos w)" by (simp add: wdata_holds_def)
  have k: "scan_utxo E W (op_key E k # utxo_vals W u) = Inr u \<and> utOp u = k" if "wdUtxos w k = Some u" for k u
    using w that scan_utxo_row [OF assms(1,2), of u] by (auto simp: wdata_holds_def wdata_keyed_def)
  from utxo_table.query_all_where [OF h assms(3,4), of None "scan_utxo E W" utOp] k show ?thesis
    by (auto simp: wu_GetAll_def)
qed

lemma wu_GetAddrAll_ok:
  assumes "codec_ok E" and "wcodec_ok W" and "sqlite_ok Q" and "sql_reads Q d" and w: "wdata_holds E W (sqHolds Q d) w"
  shows "\<exists>us. wu_GetAddrAll E W Q a d = (us, None) \<and> distinct us \<and>
    set us = {u. wdUtxos w (utOp u) = Some u \<and> utAddress u = a}"
proof -
  from w have h: "utxo_table.holds E W (sqHolds Q d) (wdUtxos w)" by (simp add: wdata_holds_def)
  have k: "scan_utxo E W (op_key E k # utxo_vals W u) = Inr u \<and> utOp u = k" if "wdUtxos w k = Some u" for k u
    using w that scan_utxo_row [OF assms(1,2), of u] by (auto simp: wdata_holds_def wdata_keyed_def)
  from utxo_table.query_all_where [OF h assms(3,4), of "Some (''Address'', SBlob (u168_bytes a))" "scan_utxo E W" utOp] k
  show ?thesis by (auto simp: wu_GetAddrAll_def where_eq_def utxo_vals_def)
qed

lemma wt_GetAll_ok:
  assumes "codec_ok E" and "wcodec_ok W" and "sqlite_ok Q" and "sql_reads Q d" and w: "wdata_holds E W (sqHolds Q d) w"
  shows "\<exists>ss. wt_GetAll E W Q d = (ss, None) \<and> distinct ss \<and> set ss = {s. wdStxos w (utOp (stUTXO s)) = Some s}"
proof -
  from w have h: "stxo_table.holds E W (sqHolds Q d) (wdStxos w)" by (simp add: wdata_holds_def)
  have k: "scan_stxo E W (op_key E k # stxo_vals W s) = Inr s \<and> utOp (stUTXO s) = k" if "wdStxos w k = Some s" for k s
    using w that scan_stxo_row [OF assms(1,2), of s] by (auto simp: wdata_holds_def wdata_keyed_def)
  from stxo_table.query_all_where [OF h assms(3,4), of None "scan_stxo E W" "\<lambda>s. utOp (stUTXO s)"] k show ?thesis
    by (auto simp: wt_GetAll_def)
qed

lemma wa_GetAll_ok:
  assumes "codec_ok E" and "sqlite_ok Q" and "sql_reads Q d" and w: "wdata_holds E W (sqHolds Q d) w"
  shows "\<exists>as. wa_GetAll E Q d = (as, None) \<and> distinct as \<and> set as = {a. wdAddrs w (adHash a) = Some a}"
proof -
  from w have h: "addr_table.holds (sqHolds Q d) (wdAddrs w)" by (simp add: wdata_holds_def)
  have k: "scan_addr E (addr_key k # addr_vals a) = Inr a \<and> adHash a = k" if "wdAddrs w k = Some a" for k a
    using w that scan_addr_row [OF assms(1), of a] by (auto simp: wdata_holds_def wdata_keyed_def)
  from addr_table.query_all_where [OF h assms(2,3), of None "scan_addr E" adHash] k show ?thesis
    by (auto simp: wa_GetAll_def)
qed

lemma wx_GetAllFrom_ok:
  assumes "wcodec_ok W" and "sqlite_ok Q" and "sql_reads Q d" and w: "wdata_holds E W (sqHolds Q d) w"
  shows "\<exists>ts. wx_GetAllFrom W Q height d = (ts, None) \<and> distinct ts \<and>
    set ts = {t. wdTxs w (utxHash t) = Some t \<and> (height \<noteq> - 1 \<longrightarrow> utxHeight t = height)}"
proof -
  from w have h: "tx_table.holds (sqHolds Q d) (wdTxs w)" by (simp add: wdata_holds_def)
  have k: "scan_tx W (hash_key k # utx_vals t) = Inr t \<and> utxHash t = k" if "wdTxs w k = Some t" for k t
    using w that scan_tx_row [OF assms(1), of t] by (auto simp: wdata_holds_def wdata_keyed_def)
  from tx_table.query_all_where [OF h assms(2,3), of "if height \<noteq> - 1 then Some (''Height'', SInt (uint height)) else None" "scan_tx W" utxHash] k
  show ?thesis by (auto simp: wx_GetAllFrom_def where_eq_def utx_vals_def word_uint_eq_iff split: if_splits)
qed

lemma wx_Get_ok:
  assumes "sqlite_ok Q" and "sql_reads Q d" and w: "wdata_holds E W (sqHolds Q d) w"
  shows "wx_Get Q h d = (case wdTxs w h of None \<Rightarrow> Inl ErrNoRows | Some t \<Rightarrow> Inr t)"
proof -
  from w have t: "tx_table.holds (sqHolds Q d) (wdTxs w)" by (simp add: wdata_holds_def)
  have k: "utxHash t = h" if "wdTxs w h = Some t" for t using w that by (simp add: wdata_holds_def wdata_keyed_def)
  show ?thesis
    using tx_table.query_row_key [OF TrueI t assms(1,2), of h] k
    by (cases "wdTxs w h") (auto simp: wx_Get_def hash_key_def utx_vals_def eval_nat_numeral simp del: scan_u32.simps scan_int64.simps)
qed

end
