(* ===== verification/Wallet.thy ===== *)
theory Wallet
  imports WalletTables SPVService
begin

text \<open>
  The SPV wallet (\<open>spvwallet.go\<close>): the transaction database of the wallet's chain store, on
  the SQL tables of \<open>WalletStore\<close>. Transactions that pay to an address of the wallet or spend one
  of its outputs are stored, with the new outputs and the spent ones; the rest are false
  positives of the filter. \<open>wlUpdates\<close> counts the calls of \<open>UpdateFilter\<close> of the embedded
  service; the time a transaction is stored at is an argument.
\<close>

record 'd wallet =
  wlDb :: 'd
  wlFilter :: "addr_filter option"
  wlUpdates :: nat

subsection \<open>The address filter\<close>

definition loadAddrFilter :: "codec \<Rightarrow> ('d, 'x) sqlite \<Rightarrow> 'd wallet \<Rightarrow> addr_filter \<times> 'd wallet" where
  "loadAddrFilter E Q s =
     (let (addrs, e) = wa_GetAll E Q (wlDb s); f = fold (AddAddr \<circ> adHash) addrs (NewAddrFilter [])
      in (f, s\<lparr>wlFilter := Some f\<rparr>))"

definition getAddrFilter :: "codec \<Rightarrow> ('d, 'x) sqlite \<Rightarrow> 'd wallet \<Rightarrow> addr_filter \<times> 'd wallet" where
  "getAddrFilter E Q s = (case wlFilter s of None \<Rightarrow> loadAddrFilter E Q s | Some f \<Rightarrow> (f, s))"

subsection \<open>Transactions\<close>

text \<open>The inputs: an output of the wallet that is spent is put to the spent ones. An error of the
  read is ignored, one of the write ends \<open>putTx\<close> without an error (\<open>None\<close>).\<close>

fun put_inputs ::
  "codec \<Rightarrow> wcodec \<Rightarrow> ('d, 'x) sqlite \<Rightarrow> u32 \<Rightarrow> uint256 \<Rightarrow> 'd \<Rightarrow> txinput list \<Rightarrow> nat \<Rightarrow> 'x \<Rightarrow> nat option \<times> 'x" where
  "put_inputs E W Q height txId d [] hits x = (Some hits, x)"
| "put_inputs E W Q height txId d (i # is) hits x =
     (case wu_Get E W Q (NewOutPoint (opTxID (inPrevious i)) (opIndex (inPrevious i))) d of
        Inl e \<Rightarrow> put_inputs E W Q height txId d is hits x
      | Inr u \<Rightarrow>
          (case wtBatch_Put E W Q (NewSTXO u height txId) x of
             (Some e, x) \<Rightarrow> (None, x)
           | (None, x) \<Rightarrow> put_inputs E W Q height txId d is (hits + 1) x))"

text \<open>The outputs to addresses of the wallet.\<close>

fun put_outputs ::
  "codec \<Rightarrow> wcodec \<Rightarrow> ('d, 'x) sqlite \<Rightarrow> u32 \<Rightarrow> txn \<Rightarrow> int \<Rightarrow> txoutput list \<Rightarrow> nat \<Rightarrow> 'd wallet \<Rightarrow> 'x \<Rightarrow>
   (goerror + nat) \<times> 'd wallet \<times> 'x" where
  "put_outputs E W Q height tx index [] hits s x = (Inr hits, s, x)"
| "put_outputs E W Q height tx index (out # outs) hits s x =
     (let (f, s) = getAddrFilter E Q s in
      if ContainAddr (outProgramHash out) f then
        (let lockTime = (if txType tx = CoinBase then height + 100 else outOutputLock out)
         in case wuBatch_Put E W Q (NewUTXO (txHash tx) height index (outValue out) lockTime (outProgramHash out)) x of
              (Some e, x) \<Rightarrow> (Inl e, s, x)
            | (None, x) \<Rightarrow> put_outputs E W Q height tx (index + 1) outs (hits + 1) s x)
      else put_outputs E W Q height tx (index + 1) outs hits s x)"

definition wl_putTx ::
  "codec \<Rightarrow> wcodec \<Rightarrow> ('d, 'x) sqlite \<Rightarrow> u64 \<Rightarrow> txn \<Rightarrow> u32 \<Rightarrow> 'd wallet \<Rightarrow> 'x \<Rightarrow> (goerror + bool) \<times> 'd wallet \<times> 'x" where
  "wl_putTx E W Q now tx height s x =
     (case put_inputs E W Q height (txHash tx) (wlDb s) (txInputs tx) 0 x of
        (None, x) \<Rightarrow> (Inr False, s, x)
      | (Some hits, x) \<Rightarrow>
          (case put_outputs E W Q height tx 0 (txOutputs tx) hits s x of
             (Inl e, s, x) \<Rightarrow> (Inl e, s, x)
           | (Inr hits, s, x) \<Rightarrow>
               if hits = 0 then (Inr True, s, x)
               else (case wxBatch_Put Q (NewTx E now tx height) x of
                       (Some e, x) \<Rightarrow> (Inl e, s, x)
                     | (None, x) \<Rightarrow> (Inr False, s, x))))"

fun wl_put_loop ::
  "codec \<Rightarrow> wcodec \<Rightarrow> ('d, 'x) sqlite \<Rightarrow> u64 \<Rightarrow> u32 \<Rightarrow> txn list \<Rightarrow> u32 \<Rightarrow> 'd wallet \<Rightarrow> 'x \<Rightarrow> (goerror + u32) \<times> 'd wallet \<times> 'x" where
  "wl_put_loop E W Q now height [] fps s x = (Inr fps, s, x)"
| "wl_put_loop E W Q now height (tx # txs) fps s x =
     (case wl_putTx E W Q now tx height s x of
        (Inl e, s, x) \<Rightarrow> (Inl e, s, x)
      | (Inr fp, s, x) \<Rightarrow> wl_put_loop E W Q now height txs (if fp then fps + 1 else fps) s x)"

text \<open>A batch that is not committed is rolled back when the function returns.\<close>

definition wl_PutTxs ::
  "codec \<Rightarrow> wcodec \<Rightarrow> ('d, 'x) sqlite \<Rightarrow> u64 \<Rightarrow> txn list \<Rightarrow> u32 \<Rightarrow> 'd wallet \<Rightarrow> (goerror + u32) \<times> 'd wallet" where
  "wl_PutTxs E W Q now txs height s =
     (case wd_Batch Q (wlDb s) of
        Inl e \<Rightarrow> (Inl e, s)
      | Inr x \<Rightarrow>
          (case wl_put_loop E W Q now height txs 0 s x of
             (Inl e, s, x) \<Rightarrow> (Inl e, s)
           | (Inr fps, s, x) \<Rightarrow>
               (case sqCommit Q x (wlDb s) of
                  (Some e, d) \<Rightarrow> (Inl e, s\<lparr>wlDb := d\<rparr>)
                | (None, d) \<Rightarrow> (Inr fps, s\<lparr>wlDb := d\<rparr>))))"

definition wl_PutForkTxs ::
  "codec \<Rightarrow> ('d, 'x) sqlite \<Rightarrow> u64 \<Rightarrow> txn list \<Rightarrow> uint256 \<Rightarrow> 'd wallet \<Rightarrow> goerror option \<times> 'd wallet" where
  "wl_PutForkTxs E Q now txs hash s =
     (let (e, d) = wx_PutForkTxs E Q (map (\<lambda>tx. NewTx E now tx 0) txs) hash (wlDb s) in (e, s\<lparr>wlDb := d\<rparr>))"

definition wl_HaveTx :: "('d, 'x) sqlite \<Rightarrow> uint256 \<Rightarrow> 'd wallet \<Rightarrow> goerror + bool" where
  "wl_HaveTx Q txId s = (case wx_Get Q txId (wlDb s) of Inl e \<Rightarrow> Inl e | Inr tx \<Rightarrow> Inr True)"

definition wl_GetTxs :: "codec \<Rightarrow> wcodec \<Rightarrow> ('d, 'x) sqlite \<Rightarrow> u32 \<Rightarrow> 'd wallet \<Rightarrow> goerror + txn list" where
  "wl_GetTxs E W Q height s =
     (case wx_GetAllFrom W Q height (wlDb s) of
        (txs, Some e) \<Rightarrow> Inl e
      | (txs, None) \<Rightarrow> iter_all (raw_tx E) txs)"

definition wl_GetForkTxs :: "codec \<Rightarrow> ('d, 'x) sqlite \<Rightarrow> uint256 \<Rightarrow> 'd wallet \<Rightarrow> goerror + txn list" where
  "wl_GetForkTxs E Q hash s = rbind (wx_GetForkTxs E Q hash (wlDb s)) (iter_all (raw_tx E))"

definition wl_DelTxs :: "('d, 'x) sqlite \<Rightarrow> u32 \<Rightarrow> 'd wallet \<Rightarrow> goerror option \<times> 'd wallet" where
  "wl_DelTxs Q height s =
     (case wd_Batch Q (wlDb s) of
        Inl e \<Rightarrow> (Some e, s)
      | Inr x \<Rightarrow>
          (case RollbackHeight Q height x of
             (Some e, x) \<Rightarrow> (Some e, s)
           | (None, x) \<Rightarrow> (let (e, d) = sqCommit Q x (wlDb s) in (e, s\<lparr>wlDb := d\<rparr>))))"

definition wl_Clear :: "('d, 'x) sqlite \<Rightarrow> 'd wallet \<Rightarrow> goerror option \<times> 'd wallet" where
  "wl_Clear Q s = (let (e, d) = wd_Clear Q (wlDb s) in (e, s\<lparr>wlDb := d\<rparr>))"

text \<open>The wallet as the transaction database of its chain store.\<close>

definition wallet_txs ::
  "codec \<Rightarrow> wcodec \<Rightarrow> ('d, 'x) sqlite \<Rightarrow> u64 \<Rightarrow> ('d wallet \<Rightarrow> goerror option \<times> 'd wallet) \<Rightarrow> 'd wallet txsdb_if" where
  "wallet_txs E W Q now close =
     \<lparr>tPutTxs = wl_PutTxs E W Q now, tPutForkTxs = wl_PutForkTxs E Q now, tHaveTx = wl_HaveTx Q,
      tGetTxs = wl_GetTxs E W Q, tGetForkTxs = wl_GetForkTxs E Q, tDelTxs = wl_DelTxs Q, tClear = wl_Clear Q,
      tClose = close\<rparr>"

subsection \<open>The filter\<close>

text \<open>An error of \<open>Add\<close> is a panic.\<close>

fun add_elements :: "bfilter \<Rightarrow> bytes list \<Rightarrow> goerror + bfilter" where
  "add_elements f [] = Inr f"
| "add_elements f (b # bs) = (case Add f b of Inl e \<Rightarrow> Inl e | Inr f \<Rightarrow> add_elements f bs)"

definition wl_filter_bloom ::
  "codec \<Rightarrow> wcodec \<Rightarrow> ('d, 'x) sqlite \<Rightarrow> (u32 \<Rightarrow> 'r::linordered_field \<Rightarrow> u32) \<Rightarrow> (u32 \<Rightarrow> u32 \<Rightarrow> u32) \<Rightarrow> 'd wallet \<Rightarrow>
   (goerror + bfilter) \<times> 'd wallet" where
  "wl_filter_bloom E W Q calcLen calcFuncs s =
     (let (utxos, e) = wu_GetAll E W Q (wlDb s);
          (stxos, e') = wt_GetAll E W Q (wlDb s);
          outpoints = map utOp utxos @ map (\<lambda>t. utOp (stUTXO t)) stxos;
          (addrs, s) = getAddrFilter E Q s;
          elements = word_of_nat (length (GetAddrs addrs) + length outpoints);
          f = NewFilter calcLen calcFuncs elements 0 0 []
      in (add_elements f (map u168_bytes (GetAddrs addrs) @ map (outpoint_Bytes E) outpoints), s))"

definition wl_GetFilter ::
  "codec \<Rightarrow> wcodec \<Rightarrow> ('d, 'x) sqlite \<Rightarrow> (filter_load \<Rightarrow> bytes) \<Rightarrow> (u32 \<Rightarrow> 'r::linordered_field \<Rightarrow> u32) \<Rightarrow> (u32 \<Rightarrow> u32 \<Rightarrow> u32) \<Rightarrow>
   u8 \<Rightarrow> 'd wallet \<Rightarrow> (goerror + u8 \<times> bytes) \<times> 'd wallet" where
  "wl_GetFilter E W Q wFilterLoad calcLen calcFuncs FTNextTurnDPOSInfo s =
     (let (r, s) = wl_filter_bloom E W Q calcLen calcFuncs s
      in (case r of Inl e \<Rightarrow> Inl e | Inr f \<Rightarrow> ToTxFilterMsg wFilterLoad f FTNextTurnDPOSInfo, s))"

definition wl_UpdateFilter :: "'d wallet \<Rightarrow> 'd wallet" where
  "wl_UpdateFilter s = s\<lparr>wlUpdates := wlUpdates s + 1\<rparr>"

definition NotifyNewAddress :: "codec \<Rightarrow> ('d, 'x) sqlite \<Rightarrow> bytes \<Rightarrow> 'd wallet \<Rightarrow> 'd wallet" where
  "NotifyNewAddress E Q hash s = wl_UpdateFilter (snd (loadAddrFilter E Q s))"

subsection \<open>The notifier and the RPC service\<close>

definition wl_BlockCommitted :: "('d, 'x) sqlite \<Rightarrow> bool \<Rightarrow> block \<Rightarrow> 'd wallet \<Rightarrow> 'd wallet" where
  "wl_BlockCommitted Q current blk s =
     (if \<not> current then s else s\<lparr>wlDb := PutHeight Q (hdrHeight (blkHeader blk)) (wlDb s)\<rparr>)"

definition ErrInvalidParameter :: goerror where
  "ErrInvalidParameter = Failure ''invalide parameter''"

definition notifyNewAddress ::
  "codec \<Rightarrow> ('d, 'x) sqlite \<Rightarrow> string option \<Rightarrow> 'd wallet \<Rightarrow> goerror option \<times> 'd wallet" where
  "notifyNewAddress E Q addr s =
     (case addr of
        None \<Rightarrow> (Some ErrInvalidParameter, s)
      | Some addrStr \<Rightarrow>
          (case Uint168FromAddress E addrStr of
             Inl e \<Rightarrow> (Some e, s)
           | Inr address \<Rightarrow> (None, wl_UpdateFilter (snd (loadAddrFilter E Q s)))))"

text \<open>\<open>hex.DecodeString\<close>.\<close>

definition hex_digit :: "char \<Rightarrow> u8 option" where
  "hex_digit c =
     (let n = (of_char c :: nat) in
      if 48 \<le> n \<and> n \<le> 57 then Some (word_of_nat (n - 48))
      else if 97 \<le> n \<and> n \<le> 102 then Some (word_of_nat (n - 87))
      else if 65 \<le> n \<and> n \<le> 70 then Some (word_of_nat (n - 55))
      else None)"

fun hex_decode :: "string \<Rightarrow> bytes option" where
  "hex_decode [] = Some []"
| "hex_decode [c] = None"
| "hex_decode (c # c' # cs) =
     (case (hex_digit c, hex_digit c', hex_decode cs) of (Some a, Some b, Some bs) \<Rightarrow> Some ((16 * a + b) # bs) | _ \<Rightarrow> None)"

text \<open>The RPC \<open>sendrawtransaction\<close>; \<open>send\<close> is \<open>SendTransaction\<close> of the service.\<close>

definition rpc_sendTransaction :: "codec \<Rightarrow> (txn \<Rightarrow> goerror option) \<Rightarrow> string option \<Rightarrow> goerror option" where
  "rpc_sendTransaction E send dat =
     (case dat of
        None \<Rightarrow> Some ErrInvalidParameter
      | Some s \<Rightarrow>
          (case hex_decode s of
             None \<Rightarrow> Some ErrInvalidParameter
           | Some txBytes \<Rightarrow>
               if \<not> GetTransactionOk E txBytes then Some (Panic ''nil pointer dereference'')
               else (case rTx E txBytes of
                       Inl e \<Rightarrow> Some (Failure ''deserialize transaction failed'')
                     | Inr (tx, rest) \<Rightarrow> send tx)))"

end
