(* ===== verification/WalletTxs.thy ===== *)
theory WalletTxs
  imports Wallet
begin

text \<open>
  What the wallet makes of the transactions of a block: the effect of \<open>PutTxs\<close> on its tables, as
  a function on \<open>wdata\<close>; that a fork is never stored and a block never rolled back; that the
  filter matches whatever concerns the wallet.
\<close>

subsection \<open>The effect of a transaction\<close>

text \<open>\<open>w0\<close> holds the tables before the block: the reads do not see what the batch has written.\<close>

definition concerns_wallet :: "wdata \<Rightarrow> uint168 set \<Rightarrow> txn \<Rightarrow> bool" where
  "concerns_wallet w0 A tx \<longleftrightarrow> (\<exists>i \<in> set (txInputs tx). wdUtxos w0 (inPrevious i) \<noteq> None) \<or>
     (\<exists>out \<in> set (txOutputs tx). outProgramHash out \<in> A)"

definition spend_input :: "wdata \<Rightarrow> u32 \<Rightarrow> uint256 \<Rightarrow> txinput \<Rightarrow> (outpoint \<rightharpoonup> stxo) \<Rightarrow> outpoint \<rightharpoonup> stxo" where
  "spend_input w0 height txId i m =
     (case wdUtxos w0 (inPrevious i) of None \<Rightarrow> m | Some u \<Rightarrow> m(inPrevious i \<mapsto> NewSTXO u height txId))"

definition new_utxo :: "u32 \<Rightarrow> txn \<Rightarrow> int \<Rightarrow> txoutput \<Rightarrow> utxo" where
  "new_utxo height tx index out =
     \<lparr>utOp = \<lparr>opTxID = txHash tx, opIndex = word_of_int index\<rparr>, utValue = outValue out,
      utLockTime = (if txType tx = CoinBase then height + 100 else outOutputLock out), utAtHeight = height,
      utAddress = outProgramHash out\<rparr>"

fun add_new_utxos :: "uint168 set \<Rightarrow> u32 \<Rightarrow> txn \<Rightarrow> int \<Rightarrow> txoutput list \<Rightarrow> (outpoint \<rightharpoonup> utxo) \<Rightarrow> outpoint \<rightharpoonup> utxo" where
  "add_new_utxos A height tx index [] m = m"
| "add_new_utxos A height tx index (out # outs) m =
     add_new_utxos A height tx (index + 1) outs
       (if outProgramHash out \<in> A then (let u = new_utxo height tx index out in m(utOp u \<mapsto> u)) else m)"

definition store_tx :: "codec \<Rightarrow> wdata \<Rightarrow> uint168 set \<Rightarrow> u64 \<Rightarrow> u32 \<Rightarrow> txn \<Rightarrow> wdata \<Rightarrow> wdata" where
  "store_tx E w0 A now height tx w =
     w\<lparr>wdStxos := fold (spend_input w0 height (txHash tx)) (txInputs tx) (wdStxos w),
       wdUtxos := add_new_utxos A height tx 0 (txOutputs tx) (wdUtxos w),
       wdTxs := if concerns_wallet w0 A tx then (wdTxs w)(txHash tx \<mapsto> NewTx E now tx height) else wdTxs w\<rparr>"

subsection \<open>The code has this effect\<close>

text \<open>Nothing but the statements themselves makes a transaction fail.\<close>

definition sql_writes :: "('d, 'x) sqlite \<Rightarrow> bool" where
  "sql_writes Q \<longleftrightarrow> (\<forall>d. \<exists>x. sqBegin Q d = Inr x) \<and> (\<forall>x d. fst (sqCommit Q x d) = None) \<and>
     (\<forall>ss x. run_stmts ss (sqTxHolds Q x) \<noteq> None \<longrightarrow> fst (sqTxExec Q ss x) = None)"

lemma sql_writes_exec:
  assumes "sqlite_ok Q" and "sql_writes Q" and "run_stmts ss (sqTxHolds Q x) \<noteq> None"
  obtains x' where "sqTxExec Q ss x = (None, x')" and "run_stmts ss (sqTxHolds Q x) = Some (sqTxHolds Q x')"
proof -
  from assms(2,3) have "fst (sqTxExec Q ss x) = None" unfolding sql_writes_def by blast
  then obtain x' where "sqTxExec Q ss x = (None, x')" by (metis prod.collapse)
  with sqlite_tx_exec [OF assms(1) this] that show thesis by blast
qed

lemma sqlite0_writes [simp]: "sql_writes sqlite0"
  by (auto simp: sql_writes_def sqlite0_def)

definition wallet_env :: "codec \<Rightarrow> wcodec \<Rightarrow> ('d, 'x) sqlite \<Rightarrow> 'd \<Rightarrow> wdata \<Rightarrow> bool" where
  "wallet_env E W Q d w \<longleftrightarrow> codec_ok E \<and> wcodec_ok W \<and> sqlite_ok Q \<and> sql_reads Q d \<and> sql_writes Q \<and>
     wdata_holds E W (sqHolds Q d) w"

lemma getAddrFilter_again:
  "getAddrFilter E Q s = (f, s') \<Longrightarrow> getAddrFilter E Q s' = (f, s') \<and> wlDb s' = wlDb s"
  by (auto simp: getAddrFilter_def loadAddrFilter_def Let_def split: option.splits prod.splits)

lemma wtBatch_Put_ok:
  assumes "wallet_env E W Q d w0" and "wdata_holds E W (sqTxHolds Q x) w"
  shows "\<exists>x'. wtBatch_Put E W Q s x = (None, x') \<and>
    wdata_holds E W (sqTxHolds Q x') (w\<lparr>wdStxos := (wdStxos w)(utOp (stUTXO s) \<mapsto> s)\<rparr>)"
proof -
  have env: "codec_ok E" "wcodec_ok W" "sqlite_ok Q" "sql_writes Q" using assms(1) by (simp_all add: wallet_env_def)
  let ?s = "[stxo_stmt E s (fixed_bytes W (utValue (stUTXO s)))]"
  have h: "stxo_table.holds E W (sqTxHolds Q x) (wdStxos w)" using assms(2) by (simp add: wdata_holds_def)
  from stxo_table.insert_runs [OF h, of s "utOp (stUTXO s)"] have "run_stmts ?s (sqTxHolds Q x) \<noteq> None"
    by (auto simp: stxo_stmt_row stxo_vals_def)
  from sql_writes_exec [OF env(3,4) this] obtain x' where
    x': "sqTxExec Q ?s x = (None, x')" "run_stmts ?s (sqTxHolds Q x) = Some (sqTxHolds Q x')" .
  from wdata_stxo [OF env(1) assms(2) x'(2)] x'(1) show ?thesis
    by (simp add: wtBatch_Put_def env(2))
qed

lemma put_inputs_ok:
  assumes "wallet_env E W Q d w0" and "wdata_holds E W (sqTxHolds Q x) w"
  shows "\<exists>x'. put_inputs E W Q height txId d ins hits x =
      (Some (hits + length (filter (\<lambda>i. wdUtxos w0 (inPrevious i) \<noteq> None) ins)), x') \<and>
    wdata_holds E W (sqTxHolds Q x') (w\<lparr>wdStxos := fold (spend_input w0 height txId) ins (wdStxos w)\<rparr>)"
  using assms(2)
proof (induction ins arbitrary: hits x w)
  case (Cons i ins)
  have g: "wu_Get E W Q (inPrevious i) d = (case wdUtxos w0 (inPrevious i) of None \<Rightarrow> Inl ErrNoRows | Some u \<Rightarrow> Inr u)"
    using assms(1) by (intro wu_Get_ok) (simp_all add: wallet_env_def)
  have op: "NewOutPoint (opTxID p) (opIndex p) = p" for p by (simp add: NewOutPoint_def)
  show ?case
  proof (cases "wdUtxos w0 (inPrevious i)")
    case None
    with g op Cons.IH [OF Cons.prems, of hits] show ?thesis by (simp add: spend_input_def)
  next
    case (Some u)
    have u: "utOp u = inPrevious i" using assms(1) Some by (simp add: wallet_env_def wdata_holds_def wdata_keyed_def)
    from wtBatch_Put_ok [OF assms(1) Cons.prems, of "NewSTXO u height txId"] obtain x' where
      x': "wtBatch_Put E W Q (NewSTXO u height txId) x = (None, x')"
        "wdata_holds E W (sqTxHolds Q x') (w\<lparr>wdStxos := (wdStxos w)(inPrevious i \<mapsto> NewSTXO u height txId)\<rparr>)"
      by (auto simp: NewSTXO_def u)
    from Cons.IH [OF x'(2), of "hits + 1"] g op Some x'(1) show ?thesis by (simp add: spend_input_def fun_upd_def)
  qed
qed simp

lemma put_outputs_ok:
  assumes "codec_ok E" and "wcodec_ok W" and "sqlite_ok Q" and "wdata_holds E W (sqTxHolds Q x) w"
    and "put_outputs E W Q height tx index outs hits s x = (Inr h, s', x')"
  shows "wdata_holds E W (sqTxHolds Q x')
      (w\<lparr>wdUtxos := add_new_utxos (set (fst (getAddrFilter E Q s))) height tx index outs (wdUtxos w)\<rparr>) \<and>
    h = hits + length (filter (\<lambda>out. outProgramHash out \<in> set (fst (getAddrFilter E Q s))) outs) \<and>
    fst (getAddrFilter E Q s') = fst (getAddrFilter E Q s) \<and> wlDb s' = wlDb s"
  using assms(4,5)
proof (induction outs arbitrary: index hits s x w)
  case (Cons out outs)
  obtain f s1 where f: "getAddrFilter E Q s = (f, s1)" by fastforce
  from getAddrFilter_again [OF f] have f1: "getAddrFilter E Q s1 = (f, s1)" "wlDb s1 = wlDb s" by simp_all
  let ?u = "new_utxo height tx index out"
  have n: "NewUTXO (txHash tx) height index (outValue out)
      (if txType tx = CoinBase then height + 100 else outOutputLock out) (outProgramHash out) = ?u"
    by (simp add: NewUTXO_def new_utxo_def NewOutPoint_def)
  show ?case
  proof (cases "outProgramHash out \<in> set f")
    case False
    with Cons.prems(2) f have "put_outputs E W Q height tx (index + 1) outs hits s1 x = (Inr h, s', x')"
      by (simp add: ContainAddr_def)
    from Cons.IH [OF Cons.prems(1) this] False show ?thesis by (simp add: f f1)
  next
    case True
    have c: "ContainAddr (outProgramHash out) f" using True by (simp add: ContainAddr_def)
    obtain e x1 where x1: "wuBatch_Put E W Q ?u x = (e, x1)" by fastforce
    with Cons.prems(2) c have "e = None" by (cases e) (simp_all add: f Let_def n)
    with x1 Cons.prems(2) c have p: "put_outputs E W Q height tx (index + 1) outs (hits + 1) s1 x1 = (Inr h, s', x')"
      by (simp add: f Let_def n)
    from x1 \<open>e = None\<close> have "sqTxExec Q [utxo_stmt E ?u (fixed_bytes W (utValue ?u))] x = (None, x1)"
      by (simp add: wuBatch_Put_def assms(2))
    from wdata_utxo [OF assms(1) Cons.prems(1) sqlite_tx_exec [OF assms(3) this]]
    have "wdata_holds E W (sqTxHolds Q x1) (w\<lparr>wdUtxos := (wdUtxos w)(utOp ?u \<mapsto> ?u)\<rparr>)" .
    from Cons.IH [OF this p] True show ?thesis by (simp add: f f1 Let_def fun_upd_def)
  qed
qed simp

lemma wl_putTx_ok:
  assumes "wallet_env E W Q (wlDb s) w0" and "wdata_holds E W (sqTxHolds Q x) w"
    and "wl_putTx E W Q now tx height s x = (Inr fp, s', x')"
  shows "wdata_holds E W (sqTxHolds Q x') (store_tx E w0 (set (fst (getAddrFilter E Q s))) now height tx w) \<and>
    fp = (\<not> concerns_wallet w0 (set (fst (getAddrFilter E Q s))) tx) \<and>
    fst (getAddrFilter E Q s') = fst (getAddrFilter E Q s) \<and> wlDb s' = wlDb s"
proof -
  have env: "codec_ok E" "wcodec_ok W" "sqlite_ok Q" using assms(1) by (simp_all add: wallet_env_def)
  let ?A = "set (fst (getAddrFilter E Q s))"
  let ?hi = "length (filter (\<lambda>i. wdUtxos w0 (inPrevious i) \<noteq> None) (txInputs tx))"
  let ?w1 = "w\<lparr>wdStxos := fold (spend_input w0 height (txHash tx)) (txInputs tx) (wdStxos w)\<rparr>"
  obtain x1 where x1: "put_inputs E W Q height (txHash tx) (wlDb s) (txInputs tx) 0 x = (Some ?hi, x1)"
    "wdata_holds E W (sqTxHolds Q x1) ?w1"
    using put_inputs_ok [OF assms(1,2), of height "txHash tx" "txInputs tx" 0] by auto
  obtain h s2 x2 where x2: "put_outputs E W Q height tx 0 (txOutputs tx) ?hi s x1 = (Inr h, s2, x2)"
    using assms(3) x1(1) by (auto simp: wl_putTx_def split: prod.splits sum.splits)
  note o = put_outputs_ok [OF env x1(2) x2]
  let ?w2 = "?w1\<lparr>wdUtxos := add_new_utxos ?A height tx 0 (txOutputs tx) (wdUtxos w)\<rparr>"
  have w2: "wdata_holds E W (sqTxHolds Q x2) ?w2" using o by simp
  have h: "h = 0 \<longleftrightarrow> \<not> concerns_wallet w0 ?A tx"
    using o by (auto simp: concerns_wallet_def filter_empty_conv)
  show ?thesis
  proof (cases "h = 0")
    case True
    with assms(3) x1(1) x2 have "fp = True" "s' = s2" "x' = x2" by (simp_all add: wl_putTx_def)
    with True h w2 o show ?thesis by (simp add: store_tx_def)
  next
    case False
    with assms(3) x1(1) x2 have p: "fp = False" "s' = s2" "sqTxExec Q [tx_stmt (NewTx E now tx height)] x2 = (None, x')"
      by (auto simp: wl_putTx_def wxBatch_Put_def split: prod.splits option.splits)
    from wdata_tx [OF w2 sqlite_tx_exec [OF env(3) p(3)]]
    have "wdata_holds E W (sqTxHolds Q x') (?w2\<lparr>wdTxs := (wdTxs ?w2)(txHash tx \<mapsto> NewTx E now tx height)\<rparr>)"
      by (simp add: NewTx_def)
    moreover have "concerns_wallet w0 ?A tx" using False h by blast
    ultimately show ?thesis using p(1,2) o by (simp add: store_tx_def)
  qed
qed

lemma wl_put_loop_ok:
  assumes "wallet_env E W Q (wlDb s) w0" and "wdata_holds E W (sqTxHolds Q x) w"
    and "wl_put_loop E W Q now height txs fps s x = (Inr n, s', x')"
  shows "wdata_holds E W (sqTxHolds Q x') (fold (store_tx E w0 (set (fst (getAddrFilter E Q s))) now height) txs w) \<and>
    n = fps + word_of_nat (length (filter (\<lambda>tx. \<not> concerns_wallet w0 (set (fst (getAddrFilter E Q s))) tx) txs)) \<and>
    wlDb s' = wlDb s"
  using assms
proof (induction txs arbitrary: fps s x w)
  case (Cons tx txs)
  obtain r s1 x1 where r: "wl_putTx E W Q now tx height s x = (r, s1, x1)" by (metis prod_cases3)
  with Cons.prems(3) obtain fp where fp: "r = Inr fp" by (cases r) simp_all
  note p = wl_putTx_ok [OF Cons.prems(1,2) r [unfolded fp]]
  have l: "wl_put_loop E W Q now height txs (if fp then fps + 1 else fps) s1 x1 = (Inr n, s', x')"
    using Cons.prems(3) r fp by simp
  have "wallet_env E W Q (wlDb s1) w0" using Cons.prems(1) p by simp
  from Cons.IH [OF this _ l] p show ?case by (cases fp) (auto simp: algebra_simps)
qed simp

text \<open>The writes of a block succeed.\<close>

lemma wuBatch_Put_ok:
  assumes "wallet_env E W Q d w0" and "wdata_holds E W (sqTxHolds Q x) w"
  shows "\<exists>x'. wuBatch_Put E W Q u x = (None, x')"
proof -
  have env: "wcodec_ok W" "sqlite_ok Q" "sql_writes Q" using assms(1) by (simp_all add: wallet_env_def)
  have h: "utxo_table.holds E W (sqTxHolds Q x) (wdUtxos w)" using assms(2) by (simp add: wdata_holds_def)
  from utxo_table.insert_runs [OF h, of u "utOp u"] have "run_stmts [utxo_stmt E u (fixed_bytes W (utValue u))] (sqTxHolds Q x) \<noteq> None"
    by (auto simp: utxo_stmt_row utxo_vals_def)
  from sql_writes_exec [OF env(2,3) this] show ?thesis by (auto simp: wuBatch_Put_def env(1))
qed

lemma wTx_nonempty:
  assumes "codec_ok E"
  shows "wTx E tx \<noteq> []"
proof
  assume e: "wTx E tx = []"
  have "rTx E (wTx E tx @ wTx E t) = Inr (tx, wTx E t)" "rTx E (wTx E t) = Inr (t, [])" for t
    using assms by (simp_all add: codec_simps)
  from this(1) [of "tx\<lparr>txHash := txHash tx + 1\<rparr>"] this(2) [of "tx\<lparr>txHash := txHash tx + 1\<rparr>"] e
  have "tx = tx\<lparr>txHash := txHash tx + 1\<rparr>" by simp
  then have "txHash tx = txHash (tx\<lparr>txHash := txHash tx + 1\<rparr>)" by (rule arg_cong)
  then show False by simp
qed

lemma wxBatch_Put_ok:
  assumes "wallet_env E W Q d w0" and "wdata_holds E W (sqTxHolds Q x) w"
  shows "\<exists>x'. wxBatch_Put Q (NewTx E now tx height) x = (None, x')"
proof -
  have env: "codec_ok E" "sqlite_ok Q" "sql_writes Q" using assms(1) by (simp_all add: wallet_env_def)
  have h: "tx_table.holds (sqTxHolds Q x) (wdTxs w)" using assms(2) by (simp add: wdata_holds_def)
  from tx_table.insert_runs [OF h, of "NewTx E now tx height" "txHash tx"] wTx_nonempty [OF env(1), of tx]
  have "run_stmts [tx_stmt (NewTx E now tx height)] (sqTxHolds Q x) \<noteq> None"
    by (auto simp: tx_stmt_row utx_vals_def NewTx_def blob_val_def)
  from sql_writes_exec [OF env(2,3) this] show ?thesis by (auto simp: wxBatch_Put_def)
qed

lemma put_outputs_total:
  assumes "wallet_env E W Q d w0" and "wdata_holds E W (sqTxHolds Q x) w"
  shows "\<exists>h s' x'. put_outputs E W Q height tx index outs hits s x = (Inr h, s', x')"
  using assms(2)
proof (induction outs arbitrary: index hits s x w)
  case (Cons out outs)
  have env: "codec_ok E" "wcodec_ok W" "sqlite_ok Q" using assms(1) by (simp_all add: wallet_env_def)
  obtain f s1 where f: "getAddrFilter E Q s = (f, s1)" by fastforce
  let ?u = "NewUTXO (txHash tx) height index (outValue out)
    (if txType tx = CoinBase then height + 100 else outOutputLock out) (outProgramHash out)"
  show ?case
  proof (cases "ContainAddr (outProgramHash out) f")
    case False
    with f Cons.IH [OF Cons.prems] show ?thesis by simp
  next
    case True
    obtain x1 where x1: "wuBatch_Put E W Q ?u x = (None, x1)" using wuBatch_Put_ok [OF assms(1) Cons.prems] by blast
    then have "sqTxExec Q [utxo_stmt E ?u (fixed_bytes W (utValue ?u))] x = (None, x1)"
      by (simp add: wuBatch_Put_def env(2))
    from Cons.IH [OF wdata_utxo [OF env(1) Cons.prems sqlite_tx_exec [OF env(3) this]]] x1 True f show ?thesis
      by (simp add: Let_def)
  qed
qed simp

lemma wl_putTx_total:
  assumes "wallet_env E W Q (wlDb s) w0" and "wdata_holds E W (sqTxHolds Q x) w"
  shows "\<exists>fp s' x'. wl_putTx E W Q now tx height s x = (Inr fp, s', x')"
proof -
  have env: "codec_ok E" "wcodec_ok W" "sqlite_ok Q" using assms(1) by (simp_all add: wallet_env_def)
  from put_inputs_ok [OF assms, of height "txHash tx" "txInputs tx" 0] obtain hi x1 w1 where
    x1: "put_inputs E W Q height (txHash tx) (wlDb s) (txInputs tx) 0 x = (Some hi, x1)" "wdata_holds E W (sqTxHolds Q x1) w1" by blast
  from put_outputs_total [OF assms(1) x1(2)] obtain h s2 x2 where
    x2: "put_outputs E W Q height tx 0 (txOutputs tx) hi s x1 = (Inr h, s2, x2)" by blast
  from put_outputs_ok [OF env x1(2) x2] obtain w2 where w2: "wdata_holds E W (sqTxHolds Q x2) w2" by blast
  from wxBatch_Put_ok [OF assms(1) w2, of now tx height] x1(1) x2 show ?thesis by (cases "h = 0") (auto simp: wl_putTx_def)
qed

lemma wl_put_loop_total:
  assumes "wallet_env E W Q (wlDb s) w0" and "wdata_holds E W (sqTxHolds Q x) w"
  shows "\<exists>n s' x'. wl_put_loop E W Q now height txs fps s x = (Inr n, s', x')"
  using assms
proof (induction txs arbitrary: fps s x w)
  case (Cons tx txs)
  from wl_putTx_total [OF Cons.prems] obtain fp s1 x1 where r: "wl_putTx E W Q now tx height s x = (Inr fp, s1, x1)" by blast
  note p = wl_putTx_ok [OF Cons.prems r]
  then have "wallet_env E W Q (wlDb s1) w0" using Cons.prems(1) by simp
  from Cons.IH [OF this, of x1] p r show ?case by auto
qed simp

lemma wl_PutTxs_total:
  assumes "wallet_env E W Q (wlDb s) w"
  shows "\<exists>fps s'. wl_PutTxs E W Q now txs height s = (Inr fps, s')"
proof -
  have env: "sqlite_ok Q" "sql_writes Q" "wdata_holds E W (sqHolds Q (wlDb s)) w" using assms by (simp_all add: wallet_env_def)
  from env(2) obtain x where x: "sqBegin Q (wlDb s) = Inr x" unfolding sql_writes_def by blast
  have "wdata_holds E W (sqTxHolds Q x) w" using env sqlite_begin [OF env(1) x] by simp
  from wl_put_loop_total [OF assms this] obtain n s1 x1 where l: "wl_put_loop E W Q now height txs 0 s x = (Inr n, s1, x1)" by blast
  have "fst (sqCommit Q x1 (wlDb s1)) = None" using env(2) unfolding sql_writes_def by blast
  then obtain d where "sqCommit Q x1 (wlDb s1) = (None, d)" by (metis prod.collapse)
  with x l show ?thesis by (simp add: wl_PutTxs_def wd_Batch_def begin_batch_def)
qed

subsection \<open>Storing a block\<close>

lemma wallet_PutTxs_stored:
  assumes "wallet_env E W Q (wlDb s) w" and "wl_PutTxs E W Q now txs height s = (Inr fps, s')"
  shows "wdata_holds E W (sqHolds Q (wlDb s')) (fold (store_tx E w (set (fst (getAddrFilter E Q s))) now height) txs w) \<and>
    fps = word_of_nat (length (filter (\<lambda>tx. \<not> concerns_wallet w (set (fst (getAddrFilter E Q s))) tx) txs))"
proof -
  have env: "sqlite_ok Q" "wdata_holds E W (sqHolds Q (wlDb s)) w" using assms(1) by (simp_all add: wallet_env_def)
  obtain x where x: "sqBegin Q (wlDb s) = Inr x"
    using assms(2) by (auto simp: wl_PutTxs_def wd_Batch_def begin_batch_def split: sum.splits)
  obtain s1 x1 where l: "wl_put_loop E W Q now height txs 0 s x = (Inr fps, s1, x1)"
    "sqCommit Q x1 (wlDb s1) = (None, wlDb s')"
    using assms(2) x by (auto simp: wl_PutTxs_def wd_Batch_def begin_batch_def split: sum.splits prod.splits option.splits)
  have "wdata_holds E W (sqTxHolds Q x) w" using env sqlite_begin [OF env(1) x] by simp
  from wl_put_loop_ok [OF assms(1) this l(1)] sqlite_commit [OF env(1) l(2)] show ?thesis by simp
qed

lemmas wallet_PutTxs_holds = wallet_PutTxs_stored [THEN conjunct1]

text \<open>C33: Unless the database fails, the wallet stores the transactions of a block, and its tables
  then hold exactly what the block says: every new output to one of its addresses, every output
  held before the block that was spent, every transaction that does one of the two; the count of
  false positives is the number of the others. The outputs that were spent are not taken out of
  the unspent ones.\<close>

theorem wallet_PutTxs:
  assumes "wallet_env E W Q (wlDb s) w" and "A = set (fst (getAddrFilter E Q s))"
  shows "\<exists>fps s'. wl_PutTxs E W Q now txs height s = (Inr fps, s') \<and>
    wdata_holds E W (sqHolds Q (wlDb s')) (fold (store_tx E w A now height) txs w) \<and>
    fps = word_of_nat (length (filter (\<lambda>tx. \<not> concerns_wallet w A tx) txs))"
proof -
  from wl_PutTxs_total [OF assms(1)] obtain fps s' where p: "wl_PutTxs E W Q now txs height s = (Inr fps, s')" by blast
  from wallet_PutTxs_stored [OF assms(1) p] p assms(2) show ?thesis by blast
qed

text \<open>A stored output stays where it is unless a transaction of the block has its outpoint.\<close>

lemma add_new_utxos_keeps: "opTxID op \<noteq> txHash tx \<Longrightarrow> add_new_utxos A height tx index outs m op = m op"
  by (induction outs arbitrary: index m) (auto simp: new_utxo_def Let_def)

lemma store_txs_keeps:
  "opTxID op \<notin> txHash ` set txs \<Longrightarrow> wdUtxos (fold (store_tx E w0 A now height) txs w) op = wdUtxos w op"
  by (induction txs arbitrary: w) (simp_all add: store_tx_def add_new_utxos_keeps)

text \<open>An output of the wallet that a stored block has spent is still among the unspent outputs
  of its address.\<close>

theorem spent_output_stays_unspent:
  assumes "wallet_env E W Q (wlDb s) w" and "wl_PutTxs E W Q now txs height s = (Inr fps, s')" and "sql_reads Q (wlDb s')"
    and "wdUtxos w (utOp u) = Some u" and "tx \<in> set txs" and "i \<in> set (txInputs tx)" and "inPrevious i = utOp u"
    and "opTxID (utOp u) \<notin> txHash ` set txs"
  shows "\<exists>us. wu_GetAddrAll E W Q (utAddress u) (wlDb s') = (us, None) \<and> u \<in> set us"
proof -
  have env: "codec_ok E" "wcodec_ok W" "sqlite_ok Q" using assms(1) by (simp_all add: wallet_env_def)
  note h = wallet_PutTxs_holds [OF assms(1,2)]
  from wu_GetAddrAll_ok [OF env assms(3) h, of "utAddress u"] store_txs_keeps [OF assms(8)] assms(4)
  show ?thesis by auto
qed

subsection \<open>A block is never rolled back\<close>

lemma RollbackHeight_fails:
  assumes "sqlite_ok Q" and "sqTxHolds Q x ''TXNs'' = None"
  shows "\<exists>e x'. RollbackHeight Q height x = (Some e, x')"
proof -
  have "fst (RollbackHeight Q height x) \<noteq> None"
  proof
    assume "fst (RollbackHeight Q height x) = None"
    then obtain x4 where "RollbackHeight Q height x = (None, x4)" by (metis prod.collapse)
    then obtain x1 x2 x3 where e: "sqTxExec Q [DeleteWhere ''UTXOs'' ''AtHeight'' (SInt (uint height))] x = (None, x1)"
      "sqTxExec Q [InsertSelect ''UTXOs'' [''OutPoint'', ''Value'', ''LockTime'', ''AtHeight'', ''Address''] ''STXOs'' ''SpendHeight'' (SInt (uint height))] x1 = (None, x2)"
      "sqTxExec Q [DeleteWhere ''STXOs'' ''SpendHeight'' (SInt (uint height))] x2 = (None, x3)"
      "sqTxExec Q [DeleteWhere ''TXNs'' ''Height'' (SInt (uint height))] x3 = (None, x4)"
      unfolding RollbackHeight_def then_do_None by blast
    have "sqTxHolds Q x3 ''TXNs'' = None"
      using run_stmts_other [OF sqlite_tx_exec [OF assms(1) e(1)], of "''TXNs''"]
        run_stmts_other [OF sqlite_tx_exec [OF assms(1) e(2)], of "''TXNs''"]
        run_stmts_other [OF sqlite_tx_exec [OF assms(1) e(3)], of "''TXNs''"] assms(2) by simp
    with sqlite_tx_exec [OF assms(1) e(4)] show False by simp
  qed
  then show ?thesis by (metis option.exhaust prod.collapse)
qed

lemma wl_DelTxs_fails:
  assumes "sqlite_ok Q" and "sqHolds Q (wlDb s) ''TXNs'' = None"
  shows "\<exists>e. wl_DelTxs Q height s = (Some e, s)"
proof (cases "sqBegin Q (wlDb s)")
  case (Inr x)
  with sqlite_begin [OF assms(1) Inr] assms(2) RollbackHeight_fails [OF assms(1), of x height]
  show ?thesis by (auto simp: wl_DelTxs_def wd_Batch_def begin_batch_def)
qed (simp add: wl_DelTxs_def wd_Batch_def begin_batch_def)

text \<open>The wallet's own statements create no table of that name.\<close>

lemma wd_New_tables:
  assumes "sqlite_ok Q" and "wd_New Q d = (None, d')"
  shows "sqHolds Q d' ''TXNs'' = sqHolds Q d ''TXNs''"
proof -
  from assms(2) obtain d1 d2 d3 d4 where e: "sqExec Q [CreateStateDB] d = (None, d1)" "sqExec Q [CreateAddrsDB] d1 = (None, d2)"
    "sqExec Q [CreateUTXOsDB] d2 = (None, d3)" "sqExec Q [CreateSTXOsDB] d3 = (None, d4)" "sqExec Q CreateTxsDB d4 = (None, d')"
    unfolding wd_New_def then_do_None ws_New_def wa_New_def wu_New_def wt_New_def wx_New_def by blast
  have "sqHolds Q b ''TXNs'' = sqHolds Q a ''TXNs''"
    if "sqExec Q ss a = (None, b)" "''TXNs'' \<notin> stmt_table ` set ss" for ss a b
    by (rule run_stmts_other [OF sqlite_exec [OF assms(1) that(1)] that(2)])
  from this [OF e(1)] this [OF e(2)] this [OF e(3)] this [OF e(4)] this [OF e(5)] show ?thesis
    by (simp add: CreateStateDB_def CreateAddrsDB_def CreateUTXOsDB_def CreateSTXOsDB_def CreateTxsDB_def)
qed

text \<open>C36: The wallet cannot follow a reorganization of the chain: \<open>ProcessReorganize\<close> ends with an error
  at the first block it has to take back, and the transactions and outputs of the abandoned
  branch stay in the tables.\<close>

theorem wallet_never_reorganizes:
  assumes "sqlite_ok Q" and "sqHolds Q (wlDb (cdT c)) ''TXNs'' = None" and "hdr_hash prevTip \<noteq> hdr_hash ancestor"
  shows "\<exists>e c'. chaindb_ProcessReorganize H (wallet_txs E W Q now close) ancestor prevTip newTip c = Some (Some e, c') \<and>
    cdH c' = cdH c \<and> (\<forall>n. n \<noteq> ''ForkTxs'' \<longrightarrow> sqHolds Q (wlDb (cdT c')) n = sqHolds Q (wlDb (cdT c)) n)"
proof -
  let ?T = "wallet_txs E W Q now close"
  let ?b = "back_loop H ?T (hdr_hash ancestor) prevTip c"
  have "\<exists>e c'. ?b = Some (Some e, c') \<and> cdH c' = cdH c \<and>
      (\<forall>n. n \<noteq> ''ForkTxs'' \<longrightarrow> sqHolds Q (wlDb (cdT c')) n = sqHolds Q (wlDb (cdT c)) n)"
  proof (cases "wl_GetTxs E W Q (hdrHeight prevTip) (cdT c)")
    case (Inl e)
    then show ?thesis by (subst back_loop.simps) (simp add: assms(3) wallet_txs_def)
  next
    case (Inr txs)
    obtain r t where p: "wl_PutForkTxs E Q now txs (hdr_hash prevTip) (cdT c) = (r, t)" by fastforce
    then obtain s where s: "sqExec Q [s] (wlDb (cdT c)) = (r, wlDb t)" "stmt_table s = ''ForkTxs''"
      by (auto simp: wl_PutForkTxs_def wx_PutForkTxs_def Let_def split: prod.splits)
    have same: "sqHolds Q (wlDb t) n = sqHolds Q (wlDb (cdT c)) n" if "n \<noteq> ''ForkTxs''" for n
    proof (cases r)
      case None
      with s that run_stmts_other [OF sqlite_exec [OF assms(1)]] show ?thesis by auto
    next
      case (Some e)
      with s sqlite_exec_failed [OF assms(1)] show ?thesis by metis
    qed
    show ?thesis
    proof (cases r)
      case (Some e)
      with Inr p same show ?thesis by (subst back_loop.simps) (simp add: assms(3) wallet_txs_def)
    next
      case None
      from same [of "''TXNs''"] assms(2) have "sqHolds Q (wlDb t) ''TXNs'' = None" by simp
      from wl_DelTxs_fails [OF assms(1) this, of "hdrHeight prevTip"] obtain e
        where "wl_DelTxs Q (hdrHeight prevTip) t = (Some e, t)" by blast
      with Inr p None same show ?thesis by (subst back_loop.simps) (simp add: assms(3) wallet_txs_def)
    qed
  qed
  then obtain e c' where "?b = Some (Some e, c')" "cdH c' = cdH c"
    "\<forall>n. n \<noteq> ''ForkTxs'' \<longrightarrow> sqHolds Q (wlDb (cdT c')) n = sqHolds Q (wlDb (cdT c)) n" by blast
  then show ?thesis by (simp add: chaindb_ProcessReorganize_def Let_def)
qed

text \<open>A wallet that was cleared keeps its transactions and has no table for its outputs.\<close>

lemma cleared_wallet_has_no_outputs:
  assumes "sqlite_ok Q" and "wl_Clear Q s = (None, s')"
  shows "sqHolds Q (wlDb s') ''Txs'' = sqHolds Q (wlDb s) ''Txs''" and "\<exists>e. wu_GetAll E W Q (wlDb s') = ([], Some e)"
proof -
  let ?drop = "[DropTable ''State'', DropTable ''UTXOs'', DropTable ''STXOs'', DropTable ''TXNs'']"
  from assms(2) obtain x x' where x: "sqBegin Q (wlDb s) = Inr x" "sqTxExec Q ?drop x = (None, x')" "sqCommit Q x' (wlDb s) = (None, wlDb s')"
    by (auto simp: wl_Clear_def wd_Clear_def Let_def split: sum.splits prod.splits option.splits)
  have h: "sqHolds Q (wlDb s') = (sqHolds Q (wlDb s))(''State'' := None, ''UTXOs'' := None, ''STXOs'' := None, ''TXNs'' := None)"
    using sqlite_tx_exec [OF assms(1) x(2)] sqlite_begin [OF assms(1) x(1)] sqlite_commit [OF assms(1) x(3)] by simp
  then show "sqHolds Q (wlDb s') ''Txs'' = sqHolds Q (wlDb s) ''Txs''" by simp
  from h sqlite_query [OF assms(1), of _ "wlDb s'"] show "\<exists>e. wu_GetAll E W Q (wlDb s') = ([], Some e)"
    by (fastforce simp: wu_GetAll_def query_all_def split: sum.splits)
qed

subsection \<open>A block of a fork without transactions of the wallet\<close>

definition wdata_schema :: "tables \<Rightarrow> bool" where
  "wdata_schema T \<longleftrightarrow> (\<exists>t. T ''ForkTxs'' = Some t \<and> tbCols t = [(''Hash'', True), (''Num'', True), (''RawData'', True)])"

text \<open>A block that does not extend the best chain and brings no transactions for the wallet is not
  accepted: its header is written, storing its empty list of transactions fails.\<close>

theorem empty_fork_block_fails:
  assumes "sqlite_ok Q" and "wdata_schema (sqHolds Q (wlDb (cdT c)))" and "blkTransactions blk = []"
    and "hPut H (blkHeader blk) False (cdH c) = (None, h)"
  shows "\<exists>e c'. chaindb_CommitBlock H (wallet_txs E W Q now close) blk False c = (Inl e, c') \<and> cdH c' = h \<and>
    sqHolds Q (wlDb (cdT c')) = sqHolds Q (wlDb (cdT c))"
proof -
  let ?s = "InsertOrReplace ''ForkTxs'' [''Hash'', ''Num'', ''RawData''] [SBlob (hash_bytes (hdr_hash (blkHeader blk))), SInt 0, SNull]"
  let ?d = "wlDb (cdT c)"
  obtain r d' where e: "sqExec Q [?s] ?d = (r, d')" by fastforce
  have "run_stmts [?s] (sqHolds Q ?d) = None" using assms(2) unfolding wdata_schema_def by (elim exE conjE) (rule fork_table_null)
  with sqlite_exec [OF assms(1), of "[?s]" ?d d'] e obtain err where r: "r = Some err" by (cases r) auto
  have p: "wl_PutForkTxs E Q now [] (hdr_hash (blkHeader blk)) (cdT c) = (Some err, (cdT c)\<lparr>wlDb := d'\<rparr>)"
    using e r by (simp add: wl_PutForkTxs_def wx_PutForkTxs_def blob_val_def)
  with sqlite_exec_failed [OF assms(1)] e r assms(3,4) show ?thesis
    by (auto simp: chaindb_CommitBlock_def wallet_txs_def Let_def)
qed

subsection \<open>The filter\<close>

lemma add_elements_foldl:
  "add_elements f bs = foldl (\<lambda>r x. case r of Inl e \<Rightarrow> Inl e | Inr g \<Rightarrow> Add g x) (Inr f) bs"
proof (induction bs arbitrary: f)
  case (Cons b bs)
  have "foldl (\<lambda>r x. case r of Inl e \<Rightarrow> Inl e | Inr g \<Rightarrow> Add g x) (Inl e) xs = Inl e" for e :: goerror and xs
    by (induction xs) simp_all
  with Cons show ?case by (simp split: sum.split)
qed simp

text \<open>The addresses of a filter that is loaded from the database.\<close>

lemma fold_AddAddr_set: "set (fold (AddAddr \<circ> adHash) as f) = adHash ` set as \<union> set f"
  by (induction as arbitrary: f) (auto simp: AddAddr_def)

lemma getAddrFilter_loaded:
  assumes "wallet_env E W Q (wlDb s) w" and "wlFilter s = None"
  shows "set (fst (getAddrFilter E Q s)) = dom (wdAddrs w)"
proof -
  have env: "codec_ok E" "sqlite_ok Q" "sql_reads Q (wlDb s)" "wdata_holds E W (sqHolds Q (wlDb s)) w"
    using assms(1) by (simp_all add: wallet_env_def)
  from wa_GetAll_ok [OF env] obtain as where as: "wa_GetAll E Q (wlDb s) = (as, None)"
    "set as = {a. wdAddrs w (adHash a) = Some a}" by blast
  have h: "adHash a = k" if "wdAddrs w k = Some a" for k a
    using env(4) that by (simp add: wdata_holds_def wdata_keyed_def)
  have "adHash ` {a. wdAddrs w (adHash a) = Some a} = dom (wdAddrs w)"
  proof (intro equalityI subsetI)
    fix k assume "k \<in> dom (wdAddrs w)"
    then obtain a where "wdAddrs w k = Some a" by blast
    with h [OF this] show "k \<in> adHash ` {a. wdAddrs w (adHash a) = Some a}" by (intro image_eqI [of _ _ a]) simp_all
  qed auto
  with as assms(2) show ?thesis
    by (simp add: getAddrFilter_def loadAddrFilter_def fold_AddAddr_set NewAddrFilter_def LoadAddrs_def AddrFilter_clear_def
        Let_def)
qed

text \<open>The outpoints of all outputs that the tables hold are among those the two queries return.\<close>

lemma GetAll_outpoints:
  assumes "codec_ok E" and "wcodec_ok W" and "sqlite_ok Q" and "sql_reads Q d" and h: "wdata_holds E W (sqHolds Q d) w"
  shows "\<exists>us ss. wu_GetAll E W Q d = (us, None) \<and> wt_GetAll E W Q d = (ss, None) \<and>
    dom (wdUtxos w) \<union> dom (wdStxos w) \<subseteq> set (map utOp us @ map (\<lambda>t. utOp (stUTXO t)) ss)"
proof -
  from wu_GetAll_ok [OF assms] obtain us where us: "wu_GetAll E W Q d = (us, None)" "set us = {u. wdUtxos w (utOp u) = Some u}"
    by blast
  from wt_GetAll_ok [OF assms] obtain ss where ss: "wt_GetAll E W Q d = (ss, None)" "set ss = {t. wdStxos w (utOp (stUTXO t)) = Some t}"
    by blast
  have "op \<in> utOp ` set us" if "wdUtxos w op = Some u" for op u
    using h that us(2) by (intro image_eqI [of _ _ u]) (auto simp: wdata_holds_def wdata_keyed_def)
  moreover have "op \<in> (\<lambda>t. utOp (stUTXO t)) ` set ss" if "wdStxos w op = Some t" for op t
    using h that ss(2) by (intro image_eqI [of _ _ t]) (auto simp: wdata_holds_def wdata_keyed_def)
  ultimately show ?thesis using us(1) ss(1) by auto
qed

text \<open>C35: The filter the wallet sends to the peers matches every transaction that pays to one of its
  addresses or spends one of its outputs, spent or not, whatever the floating point computations of
  its size return as long as the filter has at least one byte, when the database reads succeed
  (\<open>GetFilter\<close> only logs that one failed).\<close>

theorem wallet_filter_covers:
  assumes "wallet_env E W Q (wlDb s) w"
    and "\<forall>n m. bfMsg (NewFilter calcLen calcFuncs n 0 0 []) = Some m \<longrightarrow> flFilter m \<noteq> []"
    and "(\<exists>out \<in> set (txOutputs tx). outProgramHash out \<in> set (fst (getAddrFilter E Q s))) \<or>
      (\<exists>i \<in> set (txInputs tx). inPrevious i \<in> dom (wdUtxos w) \<union> dom (wdStxos w))"
  shows "\<exists>f f' s'. wl_filter_bloom E W Q calcLen calcFuncs s = (Inr f, s') \<and> MatchFilter bloom_if E tx f = Inr (True, f')"
proof -
  have env: "codec_ok E" "wcodec_ok W" "sqlite_ok Q" "sql_reads Q (wlDb s)" "wdata_holds E W (sqHolds Q (wlDb s)) w"
    using assms(1) by (simp_all add: wallet_env_def)
  obtain us ss where all: "wu_GetAll E W Q (wlDb s) = (us, None)" "wt_GetAll E W Q (wlDb s) = (ss, None)"
      "dom (wdUtxos w) \<union> dom (wdStxos w) \<subseteq> set (map utOp us @ map (\<lambda>t. utOp (stUTXO t)) ss)"
    using GetAll_outpoints [OF env] by blast
  obtain A s1 where A: "getAddrFilter E Q s = (A, s1)" by fastforce
  let ?ops = "map utOp us @ map (\<lambda>t. utOp (stUTXO t)) ss"
  let ?xs = "map u168_bytes (GetAddrs A) @ map (outpoint_Bytes E) ?ops"
  let ?n = "word_of_nat (length (GetAddrs A) + length ?ops) :: u32"
  let ?f = "NewFilter calcLen calcFuncs ?n 0 0 []"
  obtain m where m: "bfMsg ?f = Some m" by (simp add: NewFilter_def Let_def)
  with assms(2) have "flFilter m \<noteq> []" by blast
  with m NewFilter_size [OF m] have "bfilter_inv ?f" by (auto simp: bfilter_inv_def filter_usable_def)
  from adds_match [OF this, of ?xs] obtain f where f: "add_elements ?f ?xs = Inr f" "bfilter_inv f"
    "\<forall>b \<in> set ?xs. Matches f b = Inr True" by (auto simp: add_elements_foldl bloom.extends_def)
  have r: "wl_filter_bloom E W Q calcLen calcFuncs s = (Inr f, s1)"
    using f(1) by (simp add: wl_filter_bloom_def all(1,2) A Let_def)
  from assms(3) have "\<exists>f'. MatchFilter bloom_if E tx f = Inr (True, f')"
  proof (elim disjE bexE)
    fix out assume out: "out \<in> set (txOutputs tx)" "outProgramHash out \<in> set (fst (getAddrFilter E Q s))"
    then obtain j where j: "j < length (txOutputs tx)" "txOutputs tx ! j = out" by (auto simp: in_set_conv_nth)
    from out(2) have "u168_bytes (outProgramHash out) \<in> set ?xs" by (simp add: A GetAddrs_def)
    with f(3) j(2) have "fMatches bloom_if f (u168_bytes (outProgramHash (txOutputs tx ! j))) = Inr True" by simp
    from bloom.MatchFilter_output [OF f(2) j(1) this, of E] show ?thesis by blast
  next
    fix i assume i: "i \<in> set (txInputs tx)" "inPrevious i \<in> dom (wdUtxos w) \<union> dom (wdStxos w)"
    with all(3) have "inPrevious i \<in> set ?ops" by blast
    then have "outpoint_Bytes E (inPrevious i) \<in> set ?xs" unfolding set_append set_map by blast
    with f(3) have "fMatches bloom_if f (outpoint_Bytes E (inPrevious i)) = Inr True" by simp
    from bloom.MatchFilter_input [OF f(2) i(1) this] show ?thesis by blast
  qed
  with r show ?thesis by blast
qed

subsection \<open>Witnesses\<close>

text \<open>A wallet of one address that receives an output in one block and spends it in the next.\<close>

definition empty_wdata :: wdata where
  "empty_wdata = \<lparr>wdUtxos = Map.empty, wdStxos = Map.empty, wdTxs = Map.empty, wdForks = Map.empty, wdAddrs = Map.empty\<rparr>"

definition new_tables :: tables where
  "new_tables = snd (wd_New sqlite0 Map.empty)"

lemma new_tables:
  "wd_New sqlite0 Map.empty = (None, new_tables)" "wdata_schema new_tables" "new_tables ''TXNs'' = None"
  "wdata_holds E W new_tables empty_wdata"
  by (simp_all add: new_tables_def wd_New_def ws_New_def wa_New_def wu_New_def wt_New_def wx_New_def then_do_def sqlite0_def
      CreateStateDB_def CreateAddrsDB_def CreateUTXOsDB_def CreateSTXOsDB_def CreateTxsDB_def wdata_schema_def wdata_holds_def
      wdata_keyed_def empty_wdata_def table_holds_def)

definition sample_wallet :: "tables wallet" where
  "sample_wallet = \<lparr>wlDb = snd (wa_Put sqlite0 7 [] TypeMaster new_tables), wlFilter = None, wlUpdates = 0\<rparr>"

abbreviation sample_wdata :: wdata where
  "sample_wdata \<equiv> empty_wdata\<lparr>wdAddrs := [7 \<mapsto> NewAddr 7 [] TypeMaster]\<rparr>"

lemma sample_env: "wallet_env codec0 wcodec0 sqlite0 (wlDb sample_wallet) sample_wdata"
proof -
  have h: "addr_table.holds new_tables Map.empty"
    using new_tables(4) [of codec0 wcodec0] by (simp add: wdata_holds_def empty_wdata_def)
  obtain t where t: "new_tables ''Addrs'' = Some t" "tbCols t = [(''Hash'', True), (''Script'', False), (''Type'', True)]"
    by (simp add: new_tables_def wd_New_def ws_New_def wa_New_def wu_New_def wt_New_def wx_New_def then_do_def sqlite0_def
        CreateStateDB_def CreateAddrsDB_def CreateUTXOsDB_def CreateSTXOsDB_def CreateTxsDB_def)
  then obtain T where T: "run_stmts [addr_stmt 7 [] TypeMaster] new_tables = Some T"
    by (simp add: addr_stmt_def has_cols_def insert_row_def Let_def complete_row_def blob_val_def)
  then have "wlDb sample_wallet = T" by (simp add: sample_wallet_def wa_Put_def sqlite0_def)
  moreover have "wdata_holds codec0 wcodec0 T (empty_wdata\<lparr>wdAddrs := (wdAddrs empty_wdata)(7 \<mapsto> NewAddr 7 [] TypeMaster)\<rparr>)"
    by (rule wdata_addr [OF new_tables(4) T]) (simp add: addr_ok_def NewAddr_def TypeMaster_def)
  ultimately show ?thesis by (simp add: wallet_env_def codec0_ok empty_wdata_def)
qed

lemma sample_addrs: "set (fst (getAddrFilter codec0 sqlite0 sample_wallet)) = {7}"
  using getAddrFilter_loaded [OF sample_env] by (simp add: sample_wallet_def)

lemma env_step:
  "wallet_env codec0 wcodec0 sqlite0 (wlDb s) w \<Longrightarrow> wdata_holds codec0 wcodec0 (wlDb s') w' \<Longrightarrow>
   wallet_env codec0 wcodec0 sqlite0 (wlDb s') w'"
  by (simp add: wallet_env_def)

theorem wallet_PutTxs_witness:
  "\<exists>s' w'. wl_PutTxs codec0 wcodec0 sqlite0 0 [sample_pay, sample_spend] 10 sample_wallet = (Inr 1, s') \<and>
    wdata_holds codec0 wcodec0 (wlDb s') w' \<and> wdUtxos w' \<lparr>opTxID = 1, opIndex = 0\<rparr> \<noteq> None \<and> wdTxs w' 1 \<noteq> None \<and> wdTxs w' 2 = None"
proof -
  let ?w = "fold (store_tx codec0 sample_wdata {7} 0 10) [sample_pay, sample_spend] sample_wdata"
  obtain s' where s': "wl_PutTxs codec0 wcodec0 sqlite0 0 [sample_pay, sample_spend] 10 sample_wallet =
      (Inr (word_of_nat (length (filter (\<lambda>tx. \<not> concerns_wallet sample_wdata {7} tx) [sample_pay, sample_spend]))), s')"
    "wdata_holds codec0 wcodec0 (sqHolds sqlite0 (wlDb s')) ?w"
    using wallet_PutTxs [OF sample_env sample_addrs [symmetric], of 0 "[sample_pay, sample_spend]" 10] by blast
  have c: "concerns_wallet sample_wdata {7} sample_pay" "\<not> concerns_wallet sample_wdata {7} sample_spend"
    by (simp_all add: concerns_wallet_def sample_pay_def sample_out_def sample_spend_def empty_wdata_def)
  have "wdUtxos ?w \<lparr>opTxID = 1, opIndex = 0\<rparr> \<noteq> None" "wdTxs ?w 1 \<noteq> None" "wdTxs ?w 2 = None"
    using c by (simp_all add: store_tx_def) (simp_all add: sample_pay_def sample_out_def sample_spend_def empty_wdata_def
        new_utxo_def Let_def)
  with s' c show ?thesis by (intro exI [of _ s'] exI [of _ ?w]) simp
qed

text \<open>The wallet after the block with the payment.\<close>

lemma stored_wallet:
  assumes "w = fold (store_tx codec0 sample_wdata {7} 0 10) txs sample_wdata"
  obtains s :: "tables wallet" where "wallet_env codec0 wcodec0 sqlite0 (wlDb s) w"
proof -
  obtain fps and s' :: "tables wallet" where p: "wl_PutTxs codec0 wcodec0 sqlite0 0 txs 10 sample_wallet = (Inr fps, s')"
    using wl_PutTxs_total [OF sample_env] by blast
  from wallet_PutTxs_holds [OF sample_env p] assms have "wdata_holds codec0 wcodec0 (wlDb s') w" by (simp add: sample_addrs)
  then have "wallet_env codec0 wcodec0 sqlite0 (wlDb s') w" by (rule env_step [OF sample_env])
  then show thesis by (rule that)
qed

lemma paid_wallet:
  obtains s :: "tables wallet" and w where "wallet_env codec0 wcodec0 sqlite0 (wlDb s) w" and "wdUtxos w \<lparr>opTxID = 1, opIndex = 0\<rparr> = Some
      \<lparr>utOp = \<lparr>opTxID = 1, opIndex = 0\<rparr>, utValue = outValue sample_out, utLockTime = outOutputLock sample_out, utAtHeight = 10, utAddress = 7\<rparr>"
proof -
  let ?w = "fold (store_tx codec0 sample_wdata {7} 0 10) [sample_pay] sample_wdata"
  obtain s' :: "tables wallet" where "wallet_env codec0 wcodec0 sqlite0 (wlDb s') ?w" using stored_wallet [OF refl] .
  moreover have "wdUtxos ?w \<lparr>opTxID = 1, opIndex = 0\<rparr> = Some
      \<lparr>utOp = \<lparr>opTxID = 1, opIndex = 0\<rparr>, utValue = outValue sample_out, utLockTime = outOutputLock sample_out, utAtHeight = 10, utAddress = 7\<rparr>"
    by (simp add: store_tx_def) (simp add: sample_pay_def sample_out_def empty_wdata_def new_utxo_def Let_def)
  ultimately show thesis by (rule that)
qed

theorem spent_output_stays_unspent_witness:
  "\<exists>s fps s' us u. wl_PutTxs codec0 wcodec0 sqlite0 0 [sample_spend] 11 (s :: tables wallet) = (Inr fps, s') \<and>
    utOp u \<in> inPrevious ` set (txInputs sample_spend) \<and>
    wu_GetAddrAll codec0 wcodec0 sqlite0 7 (wlDb s') = (us, None) \<and> u \<in> set us"
proof -
  let ?u = "\<lparr>utOp = \<lparr>opTxID = 1, opIndex = 0\<rparr>, utValue = outValue sample_out, utLockTime = outOutputLock sample_out, utAtHeight = 10, utAddress = 7\<rparr>"
  obtain s :: "tables wallet" and w where sw: "wallet_env codec0 wcodec0 sqlite0 (wlDb s) w" "wdUtxos w \<lparr>opTxID = 1, opIndex = 0\<rparr> = Some ?u"
    by (rule paid_wallet)
  obtain fps s' where p: "wl_PutTxs codec0 wcodec0 sqlite0 0 [sample_spend] 11 s = (Inr fps, s')"
    using wl_PutTxs_total [OF sw(1)] by blast
  have sp: "txInputs sample_spend = [\<lparr>inPrevious = utOp ?u, inSequence = 0\<rparr>]" "txHash sample_spend = 2"
    by (simp_all add: sample_spend_def NewOutPoint_def)
  obtain us where us: "wu_GetAddrAll codec0 wcodec0 sqlite0 (utAddress ?u) (wlDb s') = (us, None)" "?u \<in> set us"
    using spent_output_stays_unspent [OF sw(1) p sqlite0_reads, of ?u sample_spend "\<lparr>inPrevious = utOp ?u, inSequence = 0\<rparr>"] sw(2) sp
    by auto
  show ?thesis
    by (rule exI [of _ s], rule exI [of _ fps], rule exI [of _ s'], rule exI [of _ us], rule exI [of _ ?u])
      (use p us sp in simp)
qed

text \<open>The chain store of the wallet, on a header database that keeps nothing.\<close>

definition no_headers :: "unit headers_if" where
  "no_headers = \<lparr>hPut = (\<lambda>_ _ s. (None, s)), hGetPrevious = (\<lambda>_ _. Inl NotFound), hGet = (\<lambda>_ _. Inl NotFound),
     hGetBest = (\<lambda>_. Inl NotFound), hClear = (\<lambda>s. (None, s)), hClose = (\<lambda>s. (None, s))\<rparr>"

lemma sample_tables: "wlDb sample_wallet ''TXNs'' = None" "wdata_schema (wlDb sample_wallet)"
proof -
  obtain e T where T: "sqExec sqlite0 [addr_stmt 7 [] TypeMaster] new_tables = (e, T)" by fastforce
  then have w: "wlDb sample_wallet = T" by (simp add: sample_wallet_def wa_Put_def)
  have "T n = new_tables n" if "n \<noteq> ''Addrs''" for n
  proof (cases e)
    case None
    with run_stmts_other [OF sqlite_exec [OF sqlite0_ok], of _ new_tables T n] T that show ?thesis by (simp add: addr_stmt_def)
  next
    case (Some err)
    with sqlite_exec_failed [OF sqlite0_ok] T show ?thesis by fastforce
  qed
  with new_tables(2,3) w show "wlDb sample_wallet ''TXNs'' = None" "wdata_schema (wlDb sample_wallet)"
    by (simp_all add: wdata_schema_def)
qed

theorem wallet_never_reorganizes_witness:
  "\<exists>e c'. chaindb_ProcessReorganize no_headers (wallet_txs codec0 wcodec0 sqlite0 0 (\<lambda>s. (None, s)))
      (genesis_header sample_genesis) (genesis_header sample_child) (genesis_header sample_child)
      \<lparr>cdH = (), cdT = sample_wallet\<rparr> = Some (Some e, c')"
proof -
  have "hdr_hash (genesis_header sample_child) \<noteq> hdr_hash (genesis_header sample_genesis)"
    by (simp add: genesis_header_def sample_child_def sample_genesis_def)
  from wallet_never_reorganizes [OF sqlite0_ok _ this, where c = "\<lparr>cdH = (), cdT = sample_wallet\<rparr>" and H = no_headers
      and E = codec0 and W = wcodec0 and now = 0 and close = "\<lambda>s. (None, s)" and newTip = "genesis_header sample_child"]
    sample_tables(1) show ?thesis by auto
qed

theorem empty_fork_block_fails_witness:
  "\<exists>e c'. chaindb_CommitBlock no_headers (wallet_txs codec0 wcodec0 sqlite0 0 (\<lambda>s. (None, s))) sample_blk False
      \<lparr>cdH = (), cdT = sample_wallet\<rparr> = (Inl e, c') \<and> wlDb (cdT c') = wlDb sample_wallet"
  using empty_fork_block_fails [OF sqlite0_ok, of "\<lparr>cdH = (), cdT = sample_wallet\<rparr>" sample_blk no_headers "()" codec0 wcodec0 0]
    sample_tables(2) by (simp add: sample_blk_def no_headers_def)

theorem wallet_filter_covers_witness:
  "\<exists>f f' s'. wl_filter_bloom codec0 wcodec0 sqlite0 (\<lambda>n (p :: rat). 8) (\<lambda>n m. 1) sample_wallet = (Inr f, s') \<and>
    MatchFilter bloom_if codec0 sample_pay f = Inr (True, f')"
proof (rule wallet_filter_covers [OF sample_env])
  show "\<forall>n m. bfMsg (NewFilter (\<lambda>n (p :: rat). 8) (\<lambda>n m. 1) n 0 0 []) = Some m \<longrightarrow> flFilter m \<noteq> []"
    by (auto simp: NewFilter_def minUint32_def MaxFilterLoadFilterSize_def Let_def)
  show "(\<exists>out \<in> set (txOutputs sample_pay). outProgramHash out \<in> set (fst (getAddrFilter codec0 sqlite0 sample_wallet))) \<or>
      (\<exists>i \<in> set (txInputs sample_pay). inPrevious i \<in> dom (wdUtxos sample_wdata) \<union> dom (wdStxos sample_wdata))"
    unfolding sample_addrs by (simp add: sample_pay_def sample_out_def)
qed

end
