(* ===== verification/WalletClient.thy ===== *)
theory WalletClient
  imports WalletTxs
begin

text \<open>
  The command line wallet (\<open>wallet/client\<close>): the choice of the outputs a transaction spends, the
  balances, signing, and the checks of the commands' arguments. A \<open>Fixed64\<close> is the bit pattern of
  an \<open>int64\<close>; it is compared as a signed number and wraps around. The client works on the same
  SQL tables as the SPV wallet. What is printed, read from the terminal or from a file is an
  argument or a result; the crypto package of Elastos.ELA is a record of parameters.
\<close>

subsection \<open>client/database/database.go\<close>

definition cl_AddAddress :: "('d, 'x) sqlite \<Rightarrow> uint168 \<Rightarrow> bytes \<Rightarrow> int \<Rightarrow> 'd \<Rightarrow> goerror option \<times> 'd" where
  "cl_AddAddress Q address script addrType d = wa_Put Q address script addrType d"

definition cl_GetAddress :: "('d, 'x) sqlite \<Rightarrow> uint168 \<Rightarrow> 'd \<Rightarrow> goerror + addr" where
  "cl_GetAddress Q address d = wa_Get Q address d"

definition cl_GetAddrs :: "codec \<Rightarrow> ('d, 'x) sqlite \<Rightarrow> 'd \<Rightarrow> addr list \<times> goerror option" where
  "cl_GetAddrs E Q d = wa_GetAll E Q d"

definition cl_DeleteAddress :: "('d, 'x) sqlite \<Rightarrow> uint168 \<Rightarrow> 'd \<Rightarrow> goerror option \<times> 'd" where
  "cl_DeleteAddress Q address d = wa_Del Q address d"

definition cl_GetAddressUTXOs ::
  "codec \<Rightarrow> wcodec \<Rightarrow> ('d, 'x) sqlite \<Rightarrow> uint168 \<Rightarrow> 'd \<Rightarrow> utxo list \<times> goerror option" where
  "cl_GetAddressUTXOs E W Q address d = wu_GetAddrAll E W Q address d"

definition cl_GetAddressSTXOs ::
  "codec \<Rightarrow> wcodec \<Rightarrow> ('d, 'x) sqlite \<Rightarrow> uint168 \<Rightarrow> 'd \<Rightarrow> stxo list \<times> goerror option" where
  "cl_GetAddressSTXOs E W Q address d = wt_GetAddrAll E W Q address d"

definition cl_BestHeight :: "('d, 'x) sqlite \<Rightarrow> 'd \<Rightarrow> u32" where
  "cl_BestHeight Q d = GetHeight Q d"

text \<open>\<open>Clear\<close> opens the header database and clears it before the tables.\<close>

definition cl_Clear ::
  "('h \<Rightarrow> goerror option \<times> 'h) \<Rightarrow> ('h \<Rightarrow> goerror option \<times> 'h) \<Rightarrow> ('d, 'x) sqlite \<Rightarrow> 'h \<Rightarrow> 'd \<Rightarrow> goerror option \<times> 'h \<times> 'd" where
  "cl_Clear openHeaders clearHeaders Q h d =
     (case openHeaders h of
        (Some e, h) \<Rightarrow> (Some e, h, d)
      | (None, h) \<Rightarrow>
          (case clearHeaders h of
             (Some e, h) \<Rightarrow> (Some e, h, d)
           | (None, h) \<Rightarrow> (let (e, d) = wd_Clear Q d in (e, h, d))))"

subsection \<open>client/wallet.go: transactions\<close>

record transfer =
  trAddress :: string
  trValue :: u64

text \<open>The transaction that is created: a transfer with one program, whose parameter is empty, and the
  nonce as its attribute.\<close>

record wtx =
  wxNonce :: bytes
  wxInputs :: "txinput list"
  wxOutputs :: "txoutput list"
  wxLockTime :: u32
  wxCode :: bytes
  wxParam :: bytes

definition transfer_out :: "uint256 \<Rightarrow> uint168 \<Rightarrow> u64 \<Rightarrow> u32 \<Rightarrow> txoutput" where
  "transfer_out assetID receiver val lock =
     \<lparr>outAssetID = assetID, outProgramHash = receiver, outValue = val, outOutputLock = lock, outIsReturnDeposit = False,
      outReturn = None\<rparr>"

text \<open>The outputs to the receivers, and the total to be spent.\<close>

fun make_outputs ::
  "codec \<Rightarrow> uint256 \<Rightarrow> u32 \<Rightarrow> transfer list \<Rightarrow> u64 \<Rightarrow> txoutput list \<Rightarrow> goerror + u64 \<times> txoutput list" where
  "make_outputs E assetID lockedUntil [] amount outs = Inr (amount, outs)"
| "make_outputs E assetID lockedUntil (t # ts) amount outs =
     (case Uint168FromAddress E (trAddress t) of
        Inl e \<Rightarrow> Inl (Failure ''[Wallet], Invalid receiver address'')
      | Inr receiver \<Rightarrow>
          make_outputs E assetID lockedUntil ts (amount + trValue t)
            (outs @ [transfer_out assetID receiver (trValue t) lockedUntil]))"

fun removeLockedUTXOs :: "u32 \<Rightarrow> utxo list \<Rightarrow> utxo list" where
  "removeLockedUTXOs currentHeight [] = []"
| "removeLockedUTXOs currentHeight (u # us) =
     (if utAtHeight u = 0 then removeLockedUTXOs currentHeight us
      else if 0 < utLockTime u then
        (if currentHeight < utLockTime u then removeLockedUTXOs currentHeight us
         else u\<lparr>utLockTime := 0xffffffff - 1\<rparr> # removeLockedUTXOs currentHeight us)
      else u # removeLockedUTXOs currentHeight us)"

definition InputFromUTXO :: "utxo \<Rightarrow> txinput" where
  "InputFromUTXO u = \<lparr>inPrevious = \<lparr>opTxID = opTxID (utOp u), opIndex = opIndex (utOp u)\<rparr>, inSequence = utLockTime u\<rparr>"

text \<open>The inputs, from the smallest output up, and the change.\<close>

fun select_loop ::
  "uint256 \<Rightarrow> uint168 \<Rightarrow> utxo list \<Rightarrow> u64 \<Rightarrow> txinput list \<Rightarrow> txoutput list \<Rightarrow> u64 \<times> txinput list \<times> txoutput list" where
  "select_loop assetID spender [] amount ins outs = (amount, ins, outs)"
| "select_loop assetID spender (u # us) amount ins outs =
     (let ins = ins @ [InputFromUTXO u] in
      if sint (utValue u) < sint amount then select_loop assetID spender us (amount - utValue u) ins outs
      else if utValue u = amount then (0, ins, outs)
      else (0, ins, outs @ [transfer_out assetID spender (utValue u - amount) 0]))"

definition createTransaction ::
  "codec \<Rightarrow> wcodec \<Rightarrow> ('d, 'x) sqlite \<Rightarrow> uint256 \<Rightarrow> bytes \<Rightarrow> string \<Rightarrow> u64 \<Rightarrow> u32 \<Rightarrow> transfer list \<Rightarrow> 'd \<Rightarrow> goerror + wtx" where
  "createTransaction E W Q assetID nonce fromAddress fee lockedUntil outputs d =
     (if length outputs = 0 then Inl (Failure ''[Wallet], Invalid transaction target'')
      else case Uint168FromAddress E fromAddress of
        Inl e \<Rightarrow> Inl (Failure ''[Wallet], Invalid spender address'')
      | Inr spender \<Rightarrow>
     (case make_outputs E assetID lockedUntil outputs fee [] of
        Inl e \<Rightarrow> Inl e
      | Inr (amount, outs) \<Rightarrow>
     (case cl_GetAddressUTXOs E W Q spender d of
        (utxos, Some e) \<Rightarrow> Inl (Failure ''[Wallet], Get spender's UTXOs failed'')
      | (utxos, None) \<Rightarrow>
          let available = SortByValue (removeLockedUTXOs (cl_BestHeight Q d) utxos);
              (amount, ins, outs) = select_loop assetID spender available amount [] outs
          in if 0 < sint amount then Inl (Failure ''[Wallet], Available token is not enough'')
             else (case cl_GetAddress Q spender d of
                     Inl e \<Rightarrow> Inl (Failure ''[Wallet], Get spenders redeem script failed'')
                   | Inr addr \<Rightarrow>
                       Inr \<lparr>wxNonce = nonce, wxInputs = ins, wxOutputs = outs, wxLockTime = cl_BestHeight Q d,
                            wxCode = adScript addr, wxParam = []\<rparr>))))"

subsection \<open>client/common.go\<close>

text \<open>The balances \<open>ShowAccounts\<close> prints: available and locked.\<close>

fun account_balance :: "u32 \<Rightarrow> utxo list \<Rightarrow> u64 \<Rightarrow> u64 \<Rightarrow> u64 \<times> u64" where
  "account_balance currentHeight [] available locked = (available, locked)"
| "account_balance currentHeight (u # us) available locked =
     (if currentHeight \<le> utLockTime u \<or> utAtHeight u = 0
      then account_balance currentHeight us available (locked + utValue u)
      else account_balance currentHeight us (available + utValue u) locked)"

fun ShowAccounts ::
  "codec \<Rightarrow> wcodec \<Rightarrow> ('d, 'x) sqlite \<Rightarrow> addr list \<Rightarrow> 'd \<Rightarrow> goerror + (uint168 \<times> u64 \<times> u64 \<times> string) list" where
  "ShowAccounts E W Q [] d = Inr []"
| "ShowAccounts E W Q (a # as) d =
     (case cl_GetAddressUTXOs E W Q (adHash a) d of
        (us, Some e) \<Rightarrow> Inl (Failure ''get UTXOs failed'')
      | (us, None) \<Rightarrow>
          let (available, locked) = account_balance (cl_BestHeight Q d) us 0 0
          in rbind (ShowAccounts E W Q as d) (\<lambda>rest. Inr ((adHash a, available, locked, TypeName a) # rest)))"

text \<open>\<open>getInput\<close>: the number that was read, if the line was one.\<close>

definition getInput :: "int option \<Rightarrow> nat \<Rightarrow> int" where
  "getInput index mx = (case index of None \<Rightarrow> - 1 | Some i \<Rightarrow> if int mx < i then - 1 else i - 1)"

text \<open>The loop over the lines that are read; no result when they run out.\<close>

fun select_index :: "int option list \<Rightarrow> nat \<Rightarrow> int option" where
  "select_index [] mx = None"
| "select_index (l # ls) mx = (if getInput l mx = - 1 then select_index ls mx else Some (getInput l mx))"

definition SelectAccount ::
  "codec \<Rightarrow> wcodec \<Rightarrow> ('d, 'x) sqlite \<Rightarrow> int option list \<Rightarrow> 'd \<Rightarrow> (goerror + uint168) option" where
  "SelectAccount E W Q lines d =
     (case cl_GetAddrs E Q d of
        (addrs, e) \<Rightarrow>
          if e \<noteq> None \<or> length addrs = 0 then Some (Inl (Failure ''fail to load wallet addresses''))
          else if length addrs = 1 then Some (Inr (adHash (addrs ! 0)))
          else (case ShowAccounts E W Q addrs d of
                  Inl e \<Rightarrow> Some (Inl e)
                | Inr shown \<Rightarrow>
                    map_option (\<lambda>index. if index < 0 \<or> int (length addrs) \<le> index then Inl (Panic ''index out of range'')
                                  else Inr (adHash (addrs ! nat index))) (select_index lines (length addrs))))"

subsection \<open>Amounts\<close>

lemma sint_add_small:
  assumes "0 \<le> sint (a :: u64)" and "0 \<le> sint b" and "sint a + sint b < 2 ^ 63"
  shows "sint (a + b) = sint a + sint b"
  using assms by (simp add: sint_word_ariths(1) signed_take_bit_int_eq_self)

lemma sint_diff_small:
  assumes "0 \<le> sint (a :: u64)" and "0 \<le> sint b"
  shows "sint (a - b) = sint a - sint b"
  using assms sint_lt [of a] sint_lt [of b] by (simp add: sint_word_ariths(2) signed_take_bit_int_eq_self)

abbreviation utxo_sum :: "utxo list \<Rightarrow> int" where
  "utxo_sum us \<equiv> sum_list (map (\<lambda>u. sint (utValue u)) us)"

abbreviation amounts :: "transfer list \<Rightarrow> int" where
  "amounts ts \<equiv> sum_list (map (\<lambda>t. sint (trValue t)) ts)"

lemma amounts_nonneg: "\<forall>t \<in> set ts. 0 \<le> sint (trValue t) \<Longrightarrow> 0 \<le> amounts ts"
  by (induction ts) auto

text \<open>An output that is what a transfer asks for.\<close>

definition pays :: "codec \<Rightarrow> uint256 \<Rightarrow> u32 \<Rightarrow> transfer \<Rightarrow> txoutput \<Rightarrow> bool" where
  "pays E assetID lockedUntil t out \<longleftrightarrow> Uint168FromAddress E (trAddress t) = Inr (outProgramHash out) \<and>
     outValue out = trValue t \<and> outAssetID out = assetID \<and> outOutputLock out = lockedUntil"

lemma make_outputs_ok:
  assumes "\<forall>t \<in> set ts. 0 \<le> sint (trValue t) \<and> (\<exists>a. Uint168FromAddress E (trAddress t) = Inr a)"
    and "0 \<le> sint amount" and "sint amount + amounts ts < 2 ^ 63"
  shows "\<exists>needed outs'. make_outputs E assetID lockedUntil ts amount outs = Inr (needed, outs @ outs') \<and>
    sint needed = sint amount + amounts ts \<and> list_all2 (pays E assetID lockedUntil) ts outs'"
  using assms
proof (induction ts arbitrary: amount outs)
  case (Cons t ts)
  then obtain a where a: "Uint168FromAddress E (trAddress t) = Inr a" by auto
  have n: "0 \<le> sint (trValue t)" "0 \<le> amounts ts" using Cons.prems(1) amounts_nonneg [of ts] by auto
  with Cons.prems(2,3) have s: "sint (amount + trValue t) = sint amount + sint (trValue t)"
    by (intro sint_add_small) auto
  let ?out = "transfer_out assetID a (trValue t) lockedUntil"
  have "\<exists>needed outs'. make_outputs E assetID lockedUntil ts (amount + trValue t) (outs @ [?out]) =
      Inr (needed, (outs @ [?out]) @ outs') \<and>
    sint needed = sint (amount + trValue t) + amounts ts \<and> list_all2 (pays E assetID lockedUntil) ts outs'"
    using Cons.prems n s by (intro Cons.IH) auto
  then obtain needed outs' where "make_outputs E assetID lockedUntil (t # ts) amount outs = Inr (needed, outs @ ?out # outs')"
    "sint needed = sint amount + amounts (t # ts)" "list_all2 (pays E assetID lockedUntil) ts outs'" using a s by auto
  moreover have "pays E assetID lockedUntil t ?out" using a by (simp add: pays_def transfer_out_def)
  ultimately show ?case by (intro exI [of _ needed] exI [of _ "?out # outs'"]) simp
qed simp

subsection \<open>The choice of the inputs\<close>

lemma select_loop_ok:
  assumes "\<forall>u \<in> set us. 0 \<le> sint (utValue u)" and "0 \<le> sint amount"
  shows "if sint amount \<le> utxo_sum us
    then \<exists>k changes. select_loop assetID spender us amount ins outs =
           (0, ins @ map InputFromUTXO (take k us), outs @ map (\<lambda>v. transfer_out assetID spender v 0) changes) \<and>
         utxo_sum (take k us) = sint amount + sum_list (map sint changes) \<and> length changes \<le> 1
    else \<exists>rest ins'. select_loop assetID spender us amount ins outs = (rest, ins', outs) \<and> 0 < sint rest"
  using assms
proof (induction us arbitrary: amount ins)
  case Nil
  show ?case
  proof (cases "sint amount \<le> 0")
    case True
    with Nil have "sint amount = 0" by simp
    then have "amount = 0" by (simp only: signed_eq_0_iff)
    then show ?thesis by (auto intro!: exI [of _ "[]"])
  qed simp
next
  case (Cons u us)
  have n: "0 \<le> sint (utValue u)" "\<forall>u \<in> set us. 0 \<le> sint (utValue u)" using Cons.prems(1) by simp_all
  consider (less) "sint (utValue u) < sint amount" | (equal) "utValue u = amount" | (more) "sint amount < sint (utValue u)"
    using linorder_less_linear [of "sint (utValue u)" "sint amount"] by (auto intro: signed_word_eqI)
  then show ?case
  proof cases
    case less
    have s: "sint (amount - utValue u) = sint amount - sint (utValue u)" by (rule sint_diff_small [OF Cons.prems(2) n(1)])
    have c: "sint (amount - utValue u) \<le> utxo_sum us \<longleftrightarrow> sint amount \<le> utxo_sum (u # us)" unfolding s by auto
    have "0 \<le> sint (amount - utValue u)" unfolding s using less by simp
    note IH = Cons.IH [OF n(2) this, of "ins @ [InputFromUTXO u]"]
    show ?thesis
    proof (cases "sint amount \<le> utxo_sum (u # us)")
      case True
      with IH c obtain k changes where k: "select_loop assetID spender us (amount - utValue u) (ins @ [InputFromUTXO u]) outs =
          (0, (ins @ [InputFromUTXO u]) @ map InputFromUTXO (take k us), outs @ map (\<lambda>v. transfer_out assetID spender v 0) changes)"
        "utxo_sum (take k us) = sint (amount - utValue u) + sum_list (map sint changes)" "length changes \<le> 1" by auto
      with less s True show ?thesis by (auto intro!: exI [of _ "Suc k"] exI [of _ changes])
    next
      case False
      with IH c less show ?thesis by auto
    qed
  next
    case equal
    then have "sint amount \<le> utxo_sum (u # us)" using n(2) by (auto intro!: sum_list_nonneg)
    with equal show ?thesis by (auto intro!: exI [of _ "Suc 0"] exI [of _ "[]"])
  next
    case more
    then have l: "sint amount \<le> utxo_sum (u # us)" using n by (auto intro!: add_increasing2 sum_list_nonneg)
    have s: "sint (utValue u - amount) = sint (utValue u) - sint amount" by (rule sint_diff_small [OF n(1) Cons.prems(2)])
    have "select_loop assetID spender (u # us) amount ins outs =
        (0, ins @ map InputFromUTXO (take (Suc 0) (u # us)), outs @ map (\<lambda>v. transfer_out assetID spender v 0) [utValue u - amount])"
      using more by (cases "utValue u = amount") (simp_all add: Let_def)
    moreover have "utxo_sum (take (Suc 0) (u # us)) = sint amount + sum_list (map sint [utValue u - amount])" using s by simp
    moreover have "length [utValue u - amount] \<le> 1" by simp
    ultimately show ?thesis unfolding if_P [OF l] by blast
  qed
qed

text \<open>The outputs a transaction may spend, and what becomes of their lock times.\<close>

definition spendable :: "u32 \<Rightarrow> utxo \<Rightarrow> bool" where
  "spendable currentHeight u \<longleftrightarrow> utAtHeight u \<noteq> 0 \<and> utLockTime u \<le> currentHeight"

definition unlock :: "utxo \<Rightarrow> utxo" where
  "unlock u = (if 0 < utLockTime u then u\<lparr>utLockTime := 0xffffffff - 1\<rparr> else u)"

lemma unlock_simps [simp]:
  "utOp (unlock u) = utOp u" "utValue (unlock u) = utValue u" "inPrevious (InputFromUTXO u) = utOp u"
  by (simp_all add: unlock_def InputFromUTXO_def)

lemma removeLocked_map: "removeLockedUTXOs h us = map unlock (filter (spendable h) us)"
  by (induction us) (auto simp: spendable_def unlock_def word_gt_0)

lemma insort_key_map:
  "(\<And>x. f (g x) = f x) \<Longrightarrow> insort_key f (g x) (map g ys) = map g (insort_key f x ys)"
  by (induction ys) auto

lemma sort_key_map: "(\<And>x. f (g x) = f x) \<Longrightarrow> sort_key f (map g xs) = map g (sort_key f xs)"
  by (induction xs) (simp_all add: insort_key_map)

lemma available_map:
  "SortByValue (removeLockedUTXOs h us) = map unlock (SortByValue (filter (spendable h) us))"
  unfolding SortByValue_def removeLocked_map by (rule sort_key_map) simp

lemma utxo_sum_unlock [simp]: "utxo_sum (map unlock us) = utxo_sum us"
  by (simp add: comp_def)

lemma utxo_sum_set: "distinct us \<Longrightarrow> utxo_sum us = (\<Sum>u \<in> set us. sint (utValue u))"
  by (rule sum_list_distinct_conv_sum_set)

lemma cl_GetAddress_ok:
  assumes "wallet_env E W Q d w" and "wdAddrs w a = Some x"
  shows "cl_GetAddress Q a d = Inr x"
proof -
  have env: "sqlite_ok Q" "sql_reads Q d" "wdata_holds E W (sqHolds Q d) w" using assms(1) by (simp_all add: wallet_env_def)
  from env(3) have h: "addr_table.holds (sqHolds Q d) (wdAddrs w)" by (simp add: wdata_holds_def)
  have "adHash x = a" "addr_ok x" using env(3) assms(2) by (simp_all add: wdata_holds_def wdata_keyed_def)
  with addr_table.query_row_key [OF TrueI h env(1,2), of a] assms(2) show ?thesis
    by (auto simp: cl_GetAddress_def wa_Get_def addr_key_def addr_vals_def addr_ok_def NewAddr_def)
qed

subsection \<open>A transaction is balanced\<close>

definition spendable_outputs :: "wdata \<Rightarrow> u32 \<Rightarrow> uint168 \<Rightarrow> utxo set" where
  "spendable_outputs w currentHeight a = {u. wdUtxos w (utOp u) = Some u \<and> utAddress u = a \<and> spendable currentHeight u}"

definition sorted_spendable :: "u32 \<Rightarrow> utxo list \<Rightarrow> utxo list" where
  "sorted_spendable currentHeight us = SortByValue (filter (spendable currentHeight) us)"

lemma GetAddressUTXOs_spendable:
  assumes "wallet_env E W Q d w"
  obtains us where "cl_GetAddressUTXOs E W Q a d = (us, None)" and "distinct (sorted_spendable h us)"
    and "set (sorted_spendable h us) = spendable_outputs w h a"
proof -
  have env: "codec_ok E" "wcodec_ok W" "sqlite_ok Q" "sql_reads Q d" "wdata_holds E W (sqHolds Q d) w"
    using assms by (simp_all add: wallet_env_def)
  from wu_GetAddrAll_ok [OF env, of a] that show thesis
    by (auto simp: cl_GetAddressUTXOs_def sorted_spendable_def SortByValue_def spendable_outputs_def)
qed

text \<open>What the code makes of the spendable outputs.\<close>

lemma createTransaction_unfold:
  assumes "outputs \<noteq> []" and "Uint168FromAddress E from = Inr spender"
    and "make_outputs E assetID lockedUntil outputs fee [] = Inr (amount, outs)"
    and "cl_GetAddressUTXOs E W Q spender d = (us, None)" and "cl_GetAddress Q spender d = Inr x"
    and "select_loop assetID spender (map unlock (sorted_spendable (cl_BestHeight Q d) us)) amount [] outs = (rest, ins, outs')"
  shows "createTransaction E W Q assetID nonce from fee lockedUntil outputs d =
    (if 0 < sint rest then Inl (Failure ''[Wallet], Available token is not enough'')
     else Inr \<lparr>wxNonce = nonce, wxInputs = ins, wxOutputs = outs', wxLockTime = cl_BestHeight Q d, wxCode = adScript x, wxParam = []\<rparr>)"
  using assms by (simp add: createTransaction_def available_map sorted_spendable_def)

text \<open>What a created transaction is: it spends distinct outputs from a set, its first outputs are the
  payments, each to the receiver, of the value, the asset and the lock that were asked for, and at most one more
  returns the change to the spender; what it spends is what it pays plus the fee.\<close>

definition balanced ::
  "codec \<Rightarrow> uint256 \<Rightarrow> u32 \<Rightarrow> transfer list \<Rightarrow> uint168 \<Rightarrow> u64 \<Rightarrow> utxo set \<Rightarrow> wtx \<Rightarrow> bool" where
  "balanced E assetID lockedUntil outputs spender fee S tx \<longleftrightarrow>
     (\<exists>us outs changes. wxOutputs tx = outs @ changes \<and> list_all2 (pays E assetID lockedUntil) outputs outs \<and>
        length changes \<le> 1 \<and>
        (\<forall>out \<in> set changes. outProgramHash out = spender \<and> outAssetID out = assetID \<and> outOutputLock out = 0) \<and>
        distinct us \<and> set us \<subseteq> S \<and> map inPrevious (wxInputs tx) = map utOp us \<and>
        utxo_sum us = amounts outputs + sum_list (map (\<lambda>out. sint (outValue out)) changes) + sint fee)"

lemma balancedI:
  assumes "list_all2 (pays E assetID lockedUntil) outputs outs" and "length vs \<le> 1"
    and "distinct (take k us)" and "set (take k us) \<subseteq> S"
    and "utxo_sum (take k (map unlock us)) = sint amount + sum_list (map sint vs)"
    and "sint amount = sint fee + amounts outputs"
  shows "balanced E assetID lockedUntil outputs spender fee S
    \<lparr>wxNonce = nonce, wxInputs = map InputFromUTXO (take k (map unlock us)),
     wxOutputs = outs @ map (\<lambda>v. transfer_out assetID spender v 0) vs, wxLockTime = h, wxCode = code, wxParam = param\<rparr>"
  unfolding balanced_def
proof (intro exI conjI)
  show "list_all2 (pays E assetID lockedUntil) outputs outs" "distinct (take k us)" "set (take k us) \<subseteq> S" by fact+
  show "utxo_sum (take k us) = amounts outputs +
      sum_list (map (\<lambda>out. sint (outValue out)) (map (\<lambda>v. transfer_out assetID spender v 0) vs)) + sint fee"
    using assms(5,6) unfolding take_map utxo_sum_unlock by (simp add: transfer_out_def comp_def)
qed (use assms(2) in \<open>auto simp: transfer_out_def take_map\<close>)

text \<open>C37: As long as no amount is negative and their sum does not overflow, a transaction is created
  exactly if the outputs of the spender that are confirmed and unlocked are worth what is paid and the
  fee. It spends distinct such outputs, pays each receiver what was asked (to his address, of the asset and
  locked as asked) and at most one change back to the
  spender, and what it spends is what it pays plus the fee.\<close>

theorem createTransaction_balanced:
  assumes "wallet_env E W Q d w" and "Uint168FromAddress E from = Inr spender" and "wdAddrs w spender = Some x" and "outputs \<noteq> []"
    and "\<forall>t \<in> set outputs. 0 \<le> sint (trValue t) \<and> (\<exists>a. Uint168FromAddress E (trAddress t) = Inr a)"
    and "0 \<le> sint fee" and "sint fee + amounts outputs < 2 ^ 63"
    and "S = spendable_outputs w (cl_BestHeight Q d) spender" and "\<forall>u \<in> S. 0 \<le> sint (utValue u)"
  shows "if sint fee + amounts outputs \<le> (\<Sum>u \<in> S. sint (utValue u))
    then \<exists>tx. createTransaction E W Q assetID nonce from fee lockedUntil outputs d = Inr tx \<and>
      balanced E assetID lockedUntil outputs spender fee S tx
    else createTransaction E W Q assetID nonce from fee lockedUntil outputs d =
      Inl (Failure ''[Wallet], Available token is not enough'')"
proof -
  let ?h = "cl_BestHeight Q d"
  from make_outputs_ok [OF assms(5,6,7), of assetID lockedUntil "[]"] obtain amount outs where
    o: "make_outputs E assetID lockedUntil outputs fee [] = Inr (amount, outs)" "sint amount = sint fee + amounts outputs"
      "list_all2 (pays E assetID lockedUntil) outputs outs" by auto
  from GetAddressUTXOs_spendable [OF assms(1), of spender ?h] obtain us where
    us: "cl_GetAddressUTXOs E W Q spender d = (us, None)" "distinct (sorted_spendable ?h us)"
      "set (sorted_spendable ?h us) = S" unfolding assms(8) .
  let ?us = "sorted_spendable ?h us"
  note c = createTransaction_unfold [OF assms(4,2) o(1) us(1) cl_GetAddress_ok [OF assms(1,3)]]
  have v: "utxo_sum (map unlock ?us) = (\<Sum>u \<in> S. sint (utValue u))"
    unfolding utxo_sum_unlock utxo_sum_set [OF us(2)] us(3) by (rule refl)
  have n: "\<forall>u \<in> set (map unlock ?us). 0 \<le> sint (utValue u)" using assms(9) us(3) by simp
  have "0 \<le> amounts outputs" using assms(5) by (intro amounts_nonneg) blast
  then have a: "0 \<le> sint amount" using o(2) assms(6) by simp
  note s = select_loop_ok [OF n a, of assetID spender "[]" outs, unfolded v]
  show ?thesis
  proof (cases "sint fee + amounts outputs \<le> (\<Sum>u \<in> S. sint (utValue u))")
    case False
    with s o(2) c show ?thesis by auto
  next
    case True
    with s o(2) obtain k changes where k: "select_loop assetID spender (map unlock ?us) amount [] outs =
        (0, map InputFromUTXO (take k (map unlock ?us)), outs @ map (\<lambda>v. transfer_out assetID spender v 0) changes)"
      "utxo_sum (take k (map unlock ?us)) = sint amount + sum_list (map sint changes)" "length changes \<le> 1" by auto
    let ?tx = "\<lparr>wxNonce = nonce, wxInputs = map InputFromUTXO (take k (map unlock ?us)),
      wxOutputs = outs @ map (\<lambda>v. transfer_out assetID spender v 0) changes, wxLockTime = ?h, wxCode = adScript x, wxParam = []\<rparr>"
    have "createTransaction E W Q assetID nonce from fee lockedUntil outputs d = Inr ?tx" using c k(1) by simp
    moreover have "balanced E assetID lockedUntil outputs spender fee S ?tx"
      by (rule balancedI [OF o(3) k(3) _ _ k(2) o(2)]) (use us(2,3) set_take_subset [of k ?us] in simp_all)
    ultimately show ?thesis using True by auto
  qed
qed

text \<open>The wallet has received ten and pays three, with a fee of one.\<close>

definition sample_pay10 :: txn where
  "sample_pay10 = sample_pay\<lparr>txOutputs := [sample_out\<lparr>outValue := 10\<rparr>]\<rparr>"

definition sample_address :: string where
  "sample_address = char_of (7 :: nat) # replicate 33 (char_of (0 :: nat))"

lemma le_nat_zeros: "le_nat (replicate n 0) = 0"
  by (induction n) simp_all

lemma sample_address [simp]: "Uint168FromAddress codec0 sample_address = Inr 7"
  by (simp add: codec0_def sample_address_def le_nat_zeros)

theorem createTransaction_balanced_witness:
  "\<exists>d w tx out changes. wallet_env codec0 wcodec0 sqlite0 (d :: tables) w \<and>
    createTransaction codec0 wcodec0 sqlite0 1 [] sample_address 1 0 [\<lparr>trAddress = sample_address, trValue = 3\<rparr>] d = Inr tx \<and>
    wxOutputs tx = out # changes \<and> outProgramHash out = 7 \<and> outValue out = 3 \<and> outAssetID out = 1"
proof -
  let ?w = "fold (store_tx codec0 sample_wdata {7} 0 10) [sample_pay10] sample_wdata"
  obtain s :: "tables wallet" where env: "wallet_env codec0 wcodec0 sqlite0 (wlDb s) ?w" using stored_wallet [OF refl] .
  let ?u = "\<lparr>utOp = \<lparr>opTxID = 1, opIndex = 0\<rparr>, utValue = 10, utLockTime = 0, utAtHeight = 10, utAddress = 7\<rparr>"
  let ?S = "spendable_outputs ?w (cl_BestHeight sqlite0 (wlDb s)) 7"
  have w: "wdUtxos ?w = [utOp ?u \<mapsto> ?u]" "wdAddrs ?w 7 = Some (NewAddr 7 [] TypeMaster)"
    by (simp_all add: store_tx_def)
      (simp add: sample_pay10_def sample_pay_def sample_out_def empty_wdata_def new_utxo_def Let_def)
  then have S: "?S = {?u}" unfolding spendable_outputs_def by (auto simp: spendable_def)
  let ?t = "\<lparr>trAddress = sample_address, trValue = 3\<rparr>"
  have a: "[?t] \<noteq> []" "\<forall>t \<in> set [?t]. 0 \<le> sint (trValue t) \<and> (\<exists>a. Uint168FromAddress codec0 (trAddress t) = Inr a)"
    "0 \<le> sint (1 :: u64)" "sint (1 :: u64) + amounts [?t] < 2 ^ 63" "\<forall>u \<in> {?u}. 0 \<le> sint (utValue u)" by simp_all
  from createTransaction_balanced [OF env sample_address w(2) a(1-4) S [symmetric] a(5), of 1 "[]" 0] obtain tx where
    tx: "createTransaction codec0 wcodec0 sqlite0 1 [] sample_address 1 0 [?t] (wlDb s) = Inr tx"
      "balanced codec0 1 0 [?t] 7 1 {?u} tx" by auto
  from tx(2) sample_address obtain out changes where "wxOutputs tx = out # changes" "outProgramHash out = 7" "outValue out = 3"
      "outAssetID out = 1"
    unfolding balanced_def pays_def list_all2_Cons1 list_all2_Nil by auto
  with env tx(1) show ?thesis by (intro exI conjI)
qed

end
