(* ===== verification/Keystore.thy ===== *)
theory Keystore
  imports Wallet
begin

text \<open>
  Key stores (\<open>wallet/client/keystore.go\<close>, \<open>keystore_file.go\<close>, \<open>interface/keystoreimpl.go\<close>) and the
  accounts in them (\<open>sdk/account.go\<close>). The file \<open>keystore.dat\<close> holds the encrypted master key and main
  private key and the number of sub accounts; the accounts are derived from them when it is opened.
  The crypto package of Elastos.ELA, the hash function and the file system are records of
  parameters; the JSON text of a file is a value of the type \<open>'j\<close>. Random bytes are arguments.
\<close>

subsection \<open>Parameters\<close>

text \<open>\<open>'k\<close> is the type of public keys. \<open>CreateStandardContract\<close> gives the code of the contract,
  \<open>ToProgramHash\<close> its hash, \<open>ToAddress\<close> the address of a hash.\<close>

record 'k crypto =
  ToAesKey :: "bytes \<Rightarrow> bytes"
  Sha256 :: "bytes \<Rightarrow> bytes"
  AesEncrypt :: "bytes \<Rightarrow> bytes \<Rightarrow> bytes \<Rightarrow> goerror + bytes"
  AesDecrypt :: "bytes \<Rightarrow> bytes \<Rightarrow> bytes \<Rightarrow> goerror + bytes"
  GenerateSubKeyPair :: "int \<Rightarrow> bytes \<Rightarrow> bytes \<Rightarrow> goerror + bytes \<times> 'k"
  NewPubKey :: "bytes \<Rightarrow> 'k"
  EncodePoint :: "'k \<Rightarrow> goerror + bytes"
  CreateStandardContract :: "'k \<Rightarrow> goerror + bytes"
  ToProgramHash :: "bytes \<Rightarrow> uint168"
  ToAddress :: "uint168 \<Rightarrow> goerror + string"
  CryptoSign :: "bytes \<Rightarrow> bytes \<Rightarrow> goerror + bytes"
  BytesToHexString :: "bytes \<Rightarrow> string"
  HexStringToBytes :: "string \<Rightarrow> goerror + bytes"

subsection \<open>sdk/account.go\<close>

record 'k account =
  acPrivateKey :: bytes
  acPublicKey :: 'k
  acRedeemScript :: bytes
  acProgramHash :: uint168
  acAddress :: string

definition NewAccount :: "'k crypto \<Rightarrow> bytes \<Rightarrow> 'k \<Rightarrow> goerror + 'k account" where
  "NewAccount C privateKey publicKey =
     (case CreateStandardContract C publicKey of
        Inl e \<Rightarrow> Inl e
      | Inr code \<Rightarrow>
          (case ToAddress C (ToProgramHash C code) of
             Inl e \<Rightarrow> Inl e
           | Inr address \<Rightarrow>
               Inr \<lparr>acPrivateKey = privateKey, acPublicKey = publicKey, acRedeemScript = code,
                    acProgramHash = ToProgramHash C code, acAddress = address\<rparr>))"

definition Account_Sign :: "'k crypto \<Rightarrow> bytes \<Rightarrow> 'k account \<Rightarrow> goerror + bytes" where
  "Account_Sign C dat a = CryptoSign C (acPrivateKey a) dat"

subsection \<open>keystore_file.go\<close>

record keystore_file =
  kfVersion :: string
  kfIV :: string
  kfPasswordHash :: string
  kfMasterKeyEncrypted :: string
  kfPrivateKeyEncrypted :: string
  kfSubAccountsCount :: int

text \<open>The file \<open>keystore.dat\<close>: whether \<open>os.Stat\<close> finds it, opening and reading it, opening it with
  \<open>O_CREATE | O_WRONLY | O_TRUNC\<close>, writing to it; \<open>json.Marshal\<close> and \<open>json.Unmarshal\<close> of a new struct.\<close>

record ('w, 'j) keyfs =
  ksStat :: "'w \<Rightarrow> bool"
  ksOpen :: "'w \<Rightarrow> goerror option"
  ksReadAll :: "'w \<Rightarrow> goerror + 'j"
  ksTruncate :: "'w \<Rightarrow> goerror option \<times> 'w"
  ksWrite :: "'j \<Rightarrow> 'w \<Rightarrow> goerror option \<times> 'w"
  ksMarshal :: "keystore_file \<Rightarrow> goerror + 'j"
  ksUnmarshal :: "'j \<Rightarrow> goerror + keystore_file"

definition KeystoreVersion :: string where
  "KeystoreVersion = ''1.0''"

definition empty_keystore_file :: keystore_file where
  "empty_keystore_file = \<lparr>kfVersion = [], kfIV = [], kfPasswordHash = [], kfMasterKeyEncrypted = [],
     kfPrivateKeyEncrypted = [], kfSubAccountsCount = 0\<rparr>"

definition CreateKeystoreFile :: "('w, 'j) keyfs \<Rightarrow> 'w \<Rightarrow> goerror + keystore_file" where
  "CreateKeystoreFile F w =
     (if ksStat F w then Inl (Failure ''key store file already exist'')
      else Inr (empty_keystore_file\<lparr>kfVersion := KeystoreVersion\<rparr>))"

definition LoadFromFile :: "('w, 'j) keyfs \<Rightarrow> 'w \<Rightarrow> goerror + keystore_file" where
  "LoadFromFile F w =
     (if \<not> ksStat F w then Inl (Failure ''keystore file not exist'')
      else case ksOpen F w of
        Some e \<Rightarrow> Inl e
      | None \<Rightarrow> rbind (ksReadAll F w) (ksUnmarshal F))"

definition OpenKeystoreFile :: "('w, 'j) keyfs \<Rightarrow> 'w \<Rightarrow> goerror + keystore_file" where
  "OpenKeystoreFile F w = (case LoadFromFile F w of Inl e \<Rightarrow> Inl e | Inr file \<Rightarrow> Inr file)"

text \<open>The file is truncated before it is known that there is something to write.\<close>

definition SaveToFile :: "('w, 'j) keyfs \<Rightarrow> keystore_file \<Rightarrow> 'w \<Rightarrow> goerror option \<times> 'w" where
  "SaveToFile F file w =
     (case ksTruncate F w of
        (Some e, w) \<Rightarrow> (Some e, w)
      | (None, w) \<Rightarrow>
          (case ksMarshal F file of
             Inl e \<Rightarrow> (Some e, w)
           | Inr dat \<Rightarrow> ksWrite F dat w))"

definition SetIV :: "'k crypto \<Rightarrow> bytes \<Rightarrow> keystore_file \<Rightarrow> keystore_file" where
  "SetIV C iv file = file\<lparr>kfIV := BytesToHexString C iv\<rparr>"

definition SetPasswordHash :: "'k crypto \<Rightarrow> bytes \<Rightarrow> keystore_file \<Rightarrow> keystore_file" where
  "SetPasswordHash C passwordHash file = file\<lparr>kfPasswordHash := BytesToHexString C passwordHash\<rparr>"

definition SetMasterKeyEncrypted :: "'k crypto \<Rightarrow> bytes \<Rightarrow> keystore_file \<Rightarrow> keystore_file" where
  "SetMasterKeyEncrypted C key file = file\<lparr>kfMasterKeyEncrypted := BytesToHexString C key\<rparr>"

definition SetPrivateKeyEncrypted :: "'k crypto \<Rightarrow> bytes \<Rightarrow> keystore_file \<Rightarrow> keystore_file" where
  "SetPrivateKeyEncrypted C key file = file\<lparr>kfPrivateKeyEncrypted := BytesToHexString C key\<rparr>"

definition GetIV :: "'k crypto \<Rightarrow> keystore_file \<Rightarrow> goerror + bytes" where
  "GetIV C file = HexStringToBytes C (kfIV file)"

definition GetPasswordHash :: "'k crypto \<Rightarrow> keystore_file \<Rightarrow> goerror + bytes" where
  "GetPasswordHash C file = HexStringToBytes C (kfPasswordHash file)"

definition GetMasterKeyEncrypted :: "'k crypto \<Rightarrow> keystore_file \<Rightarrow> goerror + bytes" where
  "GetMasterKeyEncrypted C file = HexStringToBytes C (kfMasterKeyEncrypted file)"

definition GetPrivetKeyEncrypted :: "'k crypto \<Rightarrow> keystore_file \<Rightarrow> goerror + bytes" where
  "GetPrivetKeyEncrypted C file = HexStringToBytes C (kfPrivateKeyEncrypted file)"

subsection \<open>keystore.go\<close>

record 'k keystore =
  ksFile :: keystore_file
  ksMasterKey :: bytes
  ksAccounts :: "'k account list"

definition verifyPassword :: "'k crypto \<Rightarrow> bytes \<Rightarrow> keystore_file \<Rightarrow> goerror option" where
  "verifyPassword C password file =
     (let passwordHash = Sha256 C (ToAesKey C password)
      in case GetPasswordHash C file of
           Inl e \<Rightarrow> Some e
         | Inr origin \<Rightarrow> if origin \<noteq> passwordHash then Some (Failure ''password wrong'') else None)"

definition encryptMasterKey :: "'k crypto \<Rightarrow> bytes \<Rightarrow> bytes \<Rightarrow> keystore_file \<Rightarrow> goerror + bytes" where
  "encryptMasterKey C passwordKey masterKey file =
     rbind (GetIV C file) (\<lambda>iv. AesEncrypt C masterKey passwordKey iv)"

definition decryptMasterKey :: "'k crypto \<Rightarrow> bytes \<Rightarrow> keystore_file \<Rightarrow> goerror + bytes" where
  "decryptMasterKey C passwordKey file =
     rbind (GetIV C file) (\<lambda>iv. rbind (GetMasterKeyEncrypted C file) (\<lambda>enc. AesDecrypt C enc passwordKey iv))"

text \<open>The 96 bytes of a key pair: the public key without its first byte, then the private key, aligned to
  the end.\<close>

definition key_pair_bytes :: "bytes \<Rightarrow> bytes \<Rightarrow> bytes" where
  "key_pair_bytes publicKeyBytes privateKey =
     take (96 - length privateKey) (take 64 (drop 1 publicKeyBytes) @ replicate 32 0) @ privateKey"

definition encryptPrivateKey :: "'k crypto \<Rightarrow> bytes \<Rightarrow> bytes \<Rightarrow> 'k \<Rightarrow> keystore_file \<Rightarrow> goerror + bytes" where
  "encryptPrivateKey C masterKey privateKey publicKey file =
     rbind (EncodePoint C publicKey) (\<lambda>publicKeyBytes.
       if length publicKeyBytes \<le> 64 \<or> 96 < length privateKey then Inl (Panic ''index out of range'')
       else rbind (GetIV C file) (\<lambda>iv. AesEncrypt C (key_pair_bytes publicKeyBytes privateKey) masterKey iv))"

definition decryptPrivateKey :: "'k crypto \<Rightarrow> bytes \<Rightarrow> keystore_file \<Rightarrow> goerror + bytes \<times> 'k" where
  "decryptPrivateKey C masterKey file =
     rbind (GetPrivetKeyEncrypted C file) (\<lambda>privateKeyEncrypted.
       if length privateKeyEncrypted \<noteq> 96 then Inl (Failure ''invalid encrypted private key'')
       else rbind (GetIV C file) (\<lambda>iv. rbind (AesDecrypt C privateKeyEncrypted masterKey iv) (\<lambda>keyPair.
         if length keyPair < 96 then Inl (Panic ''slice bounds out of range'')
         else let privateKey = drop 64 (take 96 keyPair) in Inr (privateKey, NewPubKey C privateKey))))"

text \<open>The sub accounts \<open>i\<close>, \<open>i + 1\<close>, \dots, as long as the number has not passed \<open>n\<close>.\<close>

function sub_accounts ::
  "'k crypto \<Rightarrow> bytes \<Rightarrow> bytes \<Rightarrow> int \<Rightarrow> int \<Rightarrow> 'k account list \<Rightarrow> goerror option \<times> 'k account list" where
  "sub_accounts C masterKey privateKey i n accounts =
     (if n < i then (None, accounts)
      else case GenerateSubKeyPair C i masterKey privateKey of
        Inl e \<Rightarrow> (Some e, accounts)
      | Inr (priv, pub) \<Rightarrow>
          (case NewAccount C priv pub of
             Inl e \<Rightarrow> (Some e, accounts)
           | Inr childAccount \<Rightarrow> sub_accounts C masterKey privateKey (i + 1) n (accounts @ [childAccount])))"
  by pat_completeness auto
termination
  by (relation "measure (\<lambda>(C, masterKey, privateKey, i, n, accounts). nat (n + 1 - i))") auto

declare sub_accounts.simps [simp del]

definition initAccounts :: "'k crypto \<Rightarrow> bytes \<Rightarrow> bytes \<Rightarrow> 'k \<Rightarrow> 'k keystore \<Rightarrow> goerror option \<times> 'k keystore" where
  "initAccounts C masterKey privateKey publicKey s =
     (case NewAccount C privateKey publicKey of
        Inl e \<Rightarrow> (Some e, s)
      | Inr mainAccount \<Rightarrow>
          (let (e, accounts) = sub_accounts C masterKey privateKey 1 (kfSubAccountsCount (ksFile s)) (ksAccounts s @ [mainAccount])
           in (e, s\<lparr>ksMasterKey := masterKey, ksAccounts := accounts\<rparr>)))"

text \<open>The error of decrypting the master key is dropped; the key is then \<open>nil\<close>.\<close>

definition initKeystore :: "'k crypto \<Rightarrow> keystore_file \<Rightarrow> bytes \<Rightarrow> 'k keystore \<Rightarrow> goerror option \<times> 'k keystore" where
  "initKeystore C file password s =
     (let s = s\<lparr>ksFile := file\<rparr>
      in case verifyPassword C password file of
           Some e \<Rightarrow> (Some e, s)
         | None \<Rightarrow>
             (let passwordKey = ToAesKey C password;
                  masterKey = (case decryptMasterKey C passwordKey file of Inl e \<Rightarrow> [] | Inr key \<Rightarrow> key)
              in case decryptPrivateKey C masterKey file of
                   Inl e \<Rightarrow> (Some e, s)
                 | Inr (privateKey, publicKey) \<Rightarrow> initAccounts C masterKey privateKey publicKey s))"

definition new_keystore :: "'k keystore" where
  "new_keystore = \<lparr>ksFile = empty_keystore_file, ksMasterKey = [], ksAccounts = []\<rparr>"

definition OpenKeystore :: "'k crypto \<Rightarrow> ('w, 'j) keyfs \<Rightarrow> bytes \<Rightarrow> 'w \<Rightarrow> goerror + 'k keystore" where
  "OpenKeystore C F password w =
     (case OpenKeystoreFile F w of
        Inl e \<Rightarrow> Inl e
      | Inr file \<Rightarrow>
          (case initKeystore C file password new_keystore of
             (Some e, s) \<Rightarrow> Inl e
           | (None, s) \<Rightarrow> Inr s))"

text \<open>The initial vector, the master key and the key pair are random. A failed encryption of the private
  key is not noticed: the key stored is then empty.\<close>

definition CreateKeystore ::
  "'k crypto \<Rightarrow> ('w, 'j) keyfs \<Rightarrow> bytes \<Rightarrow> bytes \<Rightarrow> bytes \<times> 'k \<Rightarrow> bytes \<Rightarrow> 'w \<Rightarrow> (goerror + 'k keystore) \<times> 'w" where
  "CreateKeystore C F iv masterKey keyPair password w =
     (case CreateKeystoreFile F w of
        Inl e \<Rightarrow> (Inl e, w)
      | Inr file \<Rightarrow>
          (let file = SetIV C iv file;
               passwordKey = ToAesKey C password;
               file = SetPasswordHash C (Sha256 C passwordKey) file
           in case encryptMasterKey C passwordKey masterKey file of
                Inl e \<Rightarrow> (Inl e, w)
              | Inr masterKeyEncrypted \<Rightarrow>
                  (let file = SetMasterKeyEncrypted C masterKeyEncrypted file;
                       (privateKey, publicKey) = keyPair
                   in case encryptPrivateKey C masterKey privateKey publicKey file of
                        Inl (Panic p) \<Rightarrow> (Inl (Panic p), w)
                      | enc \<Rightarrow>
                          (let file = SetPrivateKeyEncrypted C (case enc of Inl e \<Rightarrow> [] | Inr key \<Rightarrow> key) file
                           in case initAccounts C masterKey privateKey publicKey (new_keystore\<lparr>ksFile := file\<rparr>) of
                                (Some e, s) \<Rightarrow> (Inl e, w)
                              | (None, s) \<Rightarrow>
                                  (case SaveToFile F file w of
                                     (Some e, w) \<Rightarrow> (Inl e, w)
                                   | (None, w) \<Rightarrow> (Inr s, w))))))"

text \<open>The old password is not compared with the stored hash.\<close>

definition ChangePassword ::
  "'k crypto \<Rightarrow> ('w, 'j) keyfs \<Rightarrow> bytes \<Rightarrow> bytes \<Rightarrow> 'k keystore \<Rightarrow> 'w \<Rightarrow> goerror option \<times> 'k keystore \<times> 'w" where
  "ChangePassword C F oldPassword newPassword s w =
     (let oldPasswordKey = ToAesKey C oldPassword; file = ksFile s
      in case GetMasterKeyEncrypted C file of Inl e \<Rightarrow> (Some e, s, w) | Inr enc \<Rightarrow>
         (case decryptMasterKey C oldPasswordKey file of Inl e \<Rightarrow> (Some e, s, w) | Inr masterKey \<Rightarrow>
         (case decryptPrivateKey C masterKey file of Inl e \<Rightarrow> (Some e, s, w) | Inr (privateKey, publicKey) \<Rightarrow>
         (let newPasswordKey = ToAesKey C newPassword
          in case encryptMasterKey C newPasswordKey masterKey file of Inl e \<Rightarrow> (Some e, s, w) | Inr masterKeyEncrypted \<Rightarrow>
         (case encryptPrivateKey C masterKey privateKey publicKey file of Inl e \<Rightarrow> (Some e, s, w) | Inr privateKeyEncrypted \<Rightarrow>
         (let file = SetPrivateKeyEncrypted C privateKeyEncrypted
                (SetMasterKeyEncrypted C masterKeyEncrypted (SetPasswordHash C (Sha256 C newPasswordKey) file));
              s = s\<lparr>ksFile := file\<rparr>;
              (e, w) = SaveToFile F file w
          in (e, s, w)))))))"

text \<open>The next sub account. Every error is a panic; the account is in memory before the file is written.\<close>

definition ks_NewAccount :: "'k crypto \<Rightarrow> ('w, 'j) keyfs \<Rightarrow> 'k keystore \<Rightarrow> 'w \<Rightarrow> (goerror + 'k account) \<times> 'k keystore \<times> 'w" where
  "ks_NewAccount C F s w =
     (if ksAccounts s = [] then (Inl (Panic ''index out of range''), s, w)
      else case GenerateSubKeyPair C (kfSubAccountsCount (ksFile s) + 1) (ksMasterKey s) (acPrivateKey (ksAccounts s ! 0)) of
        Inl e \<Rightarrow> (Inl (Panic ''New sub account failed''), s, w)
      | Inr (privateKey, publicKey) \<Rightarrow>
          (case NewAccount C privateKey publicKey of
             Inl e \<Rightarrow> (Inl (Panic ''New sub account failed''), s, w)
           | Inr account \<Rightarrow>
               (let s = s\<lparr>ksAccounts := ksAccounts s @ [account],
                          ksFile := (ksFile s)\<lparr>kfSubAccountsCount := kfSubAccountsCount (ksFile s) + 1\<rparr>\<rparr>
                in case SaveToFile F (ksFile s) w of
                     (Some e, w) \<Rightarrow> (Inl (Panic ''New sub account failed''), s, w)
                   | (None, w) \<Rightarrow> (Inr account, s, w))))"

definition GetAccountByIndex :: "int \<Rightarrow> 'k keystore \<Rightarrow> 'k account option" where
  "GetAccountByIndex index s =
     (if index < 0 \<or> int (length (ksAccounts s)) - 1 < index then None else Some (ksAccounts s ! nat index))"

definition MainAccount :: "'k keystore \<Rightarrow> 'k account option" where
  "MainAccount s = GetAccountByIndex 0 s"

definition GetAccountByProgramHash :: "uint168 option \<Rightarrow> 'k keystore \<Rightarrow> 'k account option" where
  "GetAccountByProgramHash programHash s =
     (case programHash of None \<Rightarrow> None | Some h \<Rightarrow> List.find (\<lambda>a. acProgramHash a = h) (ksAccounts s))"

definition FromJson :: "'k crypto \<Rightarrow> ('w, 'j) keyfs \<Rightarrow> 'j \<Rightarrow> bytes \<Rightarrow> 'k keystore \<Rightarrow> goerror option \<times> 'k keystore" where
  "FromJson C F str password s =
     (let file = (case ksUnmarshal F str of Inl e \<Rightarrow> empty_keystore_file | Inr file \<Rightarrow> file)
      in initKeystore C file password s)"

definition Json :: "('w, 'j) keyfs \<Rightarrow> 'k keystore \<Rightarrow> goerror + 'j" where
  "Json F s = ksMarshal F (ksFile s)"

subsection \<open>interface/keystoreimpl.go\<close>

definition Keystore_Open ::
  "'k crypto \<Rightarrow> ('w, 'j) keyfs \<Rightarrow> bytes \<Rightarrow> bytes \<Rightarrow> bytes \<times> 'k \<Rightarrow> bytes \<Rightarrow> 'w \<Rightarrow> (goerror + 'k keystore) \<times> 'w" where
  "Keystore_Open C F iv masterKey keyPair password w =
     (case OpenKeystore C F password w of
        Inr s \<Rightarrow> (Inr s, w)
      | Inl e \<Rightarrow> CreateKeystore C F iv masterKey keyPair password w)"

definition Keystore_FromJson :: "'k crypto \<Rightarrow> ('w, 'j) keyfs \<Rightarrow> 'j \<Rightarrow> bytes \<Rightarrow> goerror option \<times> 'k keystore" where
  "Keystore_FromJson C F str password = FromJson C F str password new_keystore"

end
