(* ===== verification/WalletCmd.thy ===== *)
theory WalletCmd
  imports WalletClient Keystore
begin

text \<open>
  The commands of the wallet (\<open>wallet/client/wallet.go\<close>, \<open>account/account.go\<close>, \<open>transaction/transaction.go\<close>,
  \<open>wallet/wallet.go\<close>): accounts, signing, and the path from the flags of a command to a transaction. Flags and
  what is typed are arguments, printing is left out; files other than the key store are read through a
  parameter. The calls of the JSON-RPC server of the SPV wallet are collected in a log. Strings are ASCII.
\<close>

subsection \<open>client/wallet.go: accounts\<close>

record ('d, 'w, 'k) cli =
  clDb :: 'd
  clFile :: 'w
  clKeystore :: "'k keystore option"
  clCalls :: "(string \<times> string) list"

definition GetPassword :: "bytes \<Rightarrow> bool \<Rightarrow> goerror + bytes \<Rightarrow> goerror + bytes \<Rightarrow> goerror + bytes" where
  "GetPassword password confirmed typed confirm =
     (if 0 < length password then Inr password
      else case typed of
        Inl e \<Rightarrow> Inl e
      | Inr password \<Rightarrow>
          if \<not> confirmed then Inr password
          else (case confirm of
                  Inl e \<Rightarrow> Inl e
                | Inr again \<Rightarrow> if password \<noteq> again then Inl (Failure ''input password unmatched'') else Inr password))"

text \<open>The main account of a new wallet; \<open>database.New\<close> creates the tables.\<close>

definition Wallet_Create ::
  "'k crypto \<Rightarrow> ('w, 'j) keyfs \<Rightarrow> ('d, 'x) sqlite \<Rightarrow> bytes \<Rightarrow> bytes \<Rightarrow> bytes \<times> 'k \<Rightarrow> bytes \<Rightarrow> ('d, 'w, 'k) cli \<Rightarrow>
   goerror option \<times> ('d, 'w, 'k) cli" where
  "Wallet_Create C F Q iv masterKey keyPair password c =
     (case CreateKeystore C F iv masterKey keyPair password (clFile c) of
        (Inl e, w) \<Rightarrow> (Some e, c\<lparr>clFile := w\<rparr>)
      | (Inr keyStore, w) \<Rightarrow>
          (case wd_New Q (clDb c) of
             (Some e, d) \<Rightarrow> (Some e, c\<lparr>clFile := w, clDb := d\<rparr>)
           | (None, d) \<Rightarrow>
               (case GetAccountByIndex 0 keyStore of
                  None \<Rightarrow> (Some (Panic ''nil pointer dereference''), c\<lparr>clFile := w, clDb := d\<rparr>)
                | Some mainAccount \<Rightarrow>
                    (let (e, d) = cl_AddAddress Q (acProgramHash mainAccount) (acRedeemScript mainAccount) TypeMaster d
                     in (e, c\<lparr>clFile := w, clDb := d\<rparr>)))))"

text \<open>Every command opens the wallet before it uses it; the key store is opened when a password is verified.\<close>

definition Wallet_Open :: "('d, 'x) sqlite \<Rightarrow> ('d, 'w, 'k) cli \<Rightarrow> goerror option \<times> ('d, 'w, 'k) cli" where
  "Wallet_Open Q c =
     (case wd_New Q (clDb c) of
        (Some e, d) \<Rightarrow> (Some e, c\<lparr>clDb := d\<rparr>)
      | (None, d) \<Rightarrow> (None, c\<lparr>clDb := d, clKeystore := None\<rparr>))"

definition VerifyPassword ::
  "'k crypto \<Rightarrow> ('w, 'j) keyfs \<Rightarrow> bytes \<Rightarrow> ('d, 'w, 'k) cli \<Rightarrow> goerror option \<times> ('d, 'w, 'k) cli" where
  "VerifyPassword C F password c =
     (case OpenKeystore C F password (clFile c) of
        Inl e \<Rightarrow> (Some e, c)
      | Inr keyStore \<Rightarrow> (None, c\<lparr>clKeystore := Some keyStore\<rparr>))"

text \<open>\<open>HashString\<close> is the text \<open>String\<close> makes of a hash. The answer of the SPV wallet is not looked at.\<close>

definition NewSubAccount ::
  "'k crypto \<Rightarrow> ('w, 'j) keyfs \<Rightarrow> ('d, 'x) sqlite \<Rightarrow> (uint168 \<Rightarrow> string) \<Rightarrow> bytes \<Rightarrow> ('d, 'w, 'k) cli \<Rightarrow>
   (goerror + uint168) \<times> ('d, 'w, 'k) cli" where
  "NewSubAccount C F Q HashString password c =
     (case OpenKeystore C F password (clFile c) of
        Inl e \<Rightarrow> (Inl e, c)
      | Inr keyStore \<Rightarrow>
          (case ks_NewAccount C F keyStore (clFile c) of
             (Inl e, keyStore, w) \<Rightarrow> (Inl e, c\<lparr>clKeystore := Some keyStore, clFile := w\<rparr>)
           | (Inr account, keyStore, w) \<Rightarrow>
               (let c = c\<lparr>clKeystore := Some keyStore, clFile := w\<rparr> in
                case cl_AddAddress Q (acProgramHash account) (acRedeemScript account) TypeSub (clDb c) of
                  (Some e, d) \<Rightarrow> (Inl e, c\<lparr>clDb := d\<rparr>)
                | (None, d) \<Rightarrow>
                    (Inr (acProgramHash account),
                     c\<lparr>clDb := d, clCalls := clCalls c @ [(''notifynewaddress'', HashString (acProgramHash account))]\<rparr>))))"

text \<open>\<open>multi\<close> is \<open>contract.CreateMultiSigContract\<close>, with the code of the contract and its hash as its result.\<close>

definition AddMultiSignAccount ::
  "(int \<Rightarrow> 'p list \<Rightarrow> goerror + bytes \<times> uint168) \<Rightarrow> ('d, 'x) sqlite \<Rightarrow> (uint168 \<Rightarrow> string) \<Rightarrow> int \<Rightarrow> 'p list \<Rightarrow>
   ('d, 'w, 'k) cli \<Rightarrow> (goerror + uint168) \<times> ('d, 'w, 'k) cli" where
  "AddMultiSignAccount multi Q HashString m publicKeys c =
     (case multi m publicKeys of
        Inl e \<Rightarrow> (Inl (Failure ''[Wallet], CreateStandardRedeemScript failed''), c)
      | Inr (code, programHash) \<Rightarrow>
          (case cl_AddAddress Q programHash code TypeMulti (clDb c) of
             (Some e, d) \<Rightarrow> (Inl e, c\<lparr>clDb := d\<rparr>)
           | (None, d) \<Rightarrow>
               (Inr programHash, c\<lparr>clDb := d, clCalls := clCalls c @ [(''notifynewaddress'', HashString programHash)]\<rparr>)))"

subsection \<open>client/wallet.go: signing\<close>

text \<open>A transaction with its programs, each a code and a parameter; \<open>'t\<close> is the rest of it.\<close>

record 't signable =
  sgBody :: 't
  sgPrograms :: "(bytes \<times> bytes) list"

text \<open>Scripts and signatures in packages \<open>crypto\<close>, \<open>common\<close> and \<open>contract\<close> of Elastos.ELA.\<close>

record 't scripts =
  GetScriptType :: "bytes \<Rightarrow> goerror + u8"
  STANDARD :: u8
  MULTISIG :: u8
  StandardHash :: "bytes \<Rightarrow> uint168"
  ParseMultisigScript :: "bytes \<Rightarrow> goerror + bytes list"
  AppendSignature :: "nat \<Rightarrow> bytes \<Rightarrow> bytes \<Rightarrow> bytes \<Rightarrow> bytes \<Rightarrow> goerror + bytes"
  GetSignStatus :: "bytes \<Rightarrow> bytes \<Rightarrow> int \<times> int \<times> goerror option"
  SerializeUnsigned :: "'t \<Rightarrow> bytes"

definition signStandardTransaction ::
  "'k crypto \<Rightarrow> 't scripts \<Rightarrow> 'k keystore \<Rightarrow> 't signable \<Rightarrow> goerror + 't signable" where
  "signStandardTransaction C S keyStore tx =
     (case sgPrograms tx of
        [] \<Rightarrow> Inl (Panic ''index out of range'')
      | (code, param) # programs \<Rightarrow>
          (case GetAccountByProgramHash (Some (StandardHash S code)) keyStore of
             None \<Rightarrow> Inl (Failure ''[Wallet], Invalid signer'')
           | Some account \<Rightarrow>
               (case Account_Sign C (SerializeUnsigned S (sgBody tx)) account of
                  Inl e \<Rightarrow> Inl e
                | Inr signature \<Rightarrow>
                    Inr (tx\<lparr>sgPrograms := [(code, word_of_nat (length signature) # signature)]\<rparr>))))"

text \<open>The first public key of the script that is an account of the key store, with its index.\<close>

fun find_signer :: "'t scripts \<Rightarrow> 'k keystore \<Rightarrow> nat \<Rightarrow> bytes list \<Rightarrow> (nat \<times> 'k account) option" where
  "find_signer S keyStore i [] = None"
| "find_signer S keyStore i (publicKey # publicKeys) =
     (case GetAccountByProgramHash (Some (StandardHash S (publicKey @ [STANDARD S]))) keyStore of
        Some account \<Rightarrow> Some (i, account)
      | None \<Rightarrow> find_signer S keyStore (i + 1) publicKeys)"

definition signMultiSigTransaction ::
  "'k crypto \<Rightarrow> 't scripts \<Rightarrow> 'k keystore \<Rightarrow> 't signable \<Rightarrow> goerror + 't signable" where
  "signMultiSigTransaction C S keyStore tx =
     (case sgPrograms tx of
        [] \<Rightarrow> Inl (Panic ''index out of range'')
      | (code, param) # programs \<Rightarrow>
          (case ParseMultisigScript S code of
             Inl e \<Rightarrow> Inl e
           | Inr publicKeys \<Rightarrow>
               (case find_signer S keyStore 0 publicKeys of
                  None \<Rightarrow> Inl (Failure ''[Wallet], Invalid multi sign signer'')
                | Some (signerIndex, account) \<Rightarrow>
                    (let dat = SerializeUnsigned S (sgBody tx) in
                     case Account_Sign C dat account of
                       Inl e \<Rightarrow> Inl e
                     | Inr signedTx \<Rightarrow>
                         (case AppendSignature S signerIndex signedTx dat code param of
                            Inl e \<Rightarrow> Inl e
                          | Inr param \<Rightarrow> Inr (tx\<lparr>sgPrograms := (code, param) # programs\<rparr>))))))"

definition Wallet_Sign ::
  "'k crypto \<Rightarrow> ('w, 'j) keyfs \<Rightarrow> 't scripts \<Rightarrow> bytes \<Rightarrow> 't signable \<Rightarrow> 'w \<Rightarrow> goerror + 't signable" where
  "Wallet_Sign C F S password tx w =
     (case OpenKeystore C F password w of
        Inl e \<Rightarrow> Inl e
      | Inr keyStore \<Rightarrow>
          (case sgPrograms tx of
             [] \<Rightarrow> Inl (Panic ''index out of range'')
           | (code, param) # programs \<Rightarrow>
               (case GetScriptType S code of
                  Inl e \<Rightarrow> Inl e
                | Inr signType \<Rightarrow>
                    if signType = STANDARD S then signStandardTransaction C S keyStore tx
                    else if signType = MULTISIG S then signMultiSigTransaction C S keyStore tx
                    else Inr tx)))"

text \<open>\<open>hex.EncodeToString\<close> and the RPC call.\<close>

definition hex_char :: "nat \<Rightarrow> char" where
  "hex_char n = char_of (if n < 10 then n + 48 else n + 87)"

definition hex_encode :: "bytes \<Rightarrow> string" where
  "hex_encode b = concat (map (\<lambda>w. [hex_char (unat w div 16), hex_char (unat w mod 16)]) b)"

definition Wallet_SendTransaction ::
  "('t \<Rightarrow> goerror + bytes) \<Rightarrow> (string \<Rightarrow> string \<Rightarrow> goerror option) \<Rightarrow> 't \<Rightarrow> goerror option" where
  "Wallet_SendTransaction serialize call tx =
     (case serialize tx of
        Inl e \<Rightarrow> Some e
      | Inr buf \<Rightarrow> call ''sendrawtransaction'' (hex_encode buf))"

subsection \<open>account/account.go\<close>

definition MinMultiSignKeys :: nat where "MinMultiSignKeys = 3"

fun split_char :: "char \<Rightarrow> string \<Rightarrow> string list" where
  "split_char s [] = [[]]"
| "split_char s (c # cs) =
     (if c = s then [] # split_char s cs
      else case split_char s cs of [] \<Rightarrow> [[c]] | w # ws \<Rightarrow> (c # w) # ws)"

definition is_space :: "char \<Rightarrow> bool" where
  "is_space c = (let n = (of_char c :: nat) in n = 32 \<or> 9 \<le> n \<and> n \<le> 13)"

definition TrimSpace :: "string \<Rightarrow> string" where
  "TrimSpace s = rev (dropWhile is_space (rev (dropWhile is_space s)))"

text \<open>The check for duplicates keeps the keys seen so far; the map gives the empty string for a key it does not hold.\<close>

fun check_duplicates :: "string list \<Rightarrow> (string \<rightharpoonup> string) \<Rightarrow> goerror option" where
  "check_duplicates [] keyMap = None"
| "check_duplicates (s # ss) keyMap =
     (if (case keyMap s of None \<Rightarrow> [] | Some v \<Rightarrow> v) = [] then check_duplicates ss (keyMap(s \<mapsto> s))
      else Some (Failure ''duplicate public key''))"

text \<open>\<open>decode\<close> is \<open>HexStringToBytes\<close> followed by \<open>DecodePoint\<close>.\<close>

fun decode_keys :: "(string \<Rightarrow> goerror + 'p) \<Rightarrow> string list \<Rightarrow> goerror + 'p list" where
  "decode_keys decode [] = Inr []"
| "decode_keys decode (s # ss) =
     rbind (decode (TrimSpace s)) (\<lambda>k. rbind (decode_keys decode ss) (\<lambda>ks. Inr (k # ks)))"

text \<open>\<open>file\<close> is \<open>None\<close> if there is no file of that name, and else the result of reading it.\<close>

definition getPublicKeys :: "(string \<Rightarrow> goerror + 'p) \<Rightarrow> (string \<Rightarrow> (goerror + string) option) \<Rightarrow> string \<Rightarrow> goerror + 'p list" where
  "getPublicKeys decode file content =
     (if content = [] then Inl (Failure ''content should be the public key[s] file path or public key strings separated by comma'')
      else rbind
        (case file content of
           Some r \<Rightarrow> rbind r (\<lambda>rawData. Inr (split_char (CHR 0x0A) (TrimSpace rawData)))
         | None \<Rightarrow> Inr (split_char (CHR '','') (TrimSpace content)))
        (\<lambda>publicKeyStrings.
           case check_duplicates publicKeyStrings Map.empty of
             Some e \<Rightarrow> Inl e
           | None \<Rightarrow> decode_keys decode publicKeyStrings))"

definition addMultiSignAccount ::
  "(string \<Rightarrow> goerror + 'p) \<Rightarrow> (string \<Rightarrow> (goerror + string) option) \<Rightarrow> (int \<Rightarrow> 'p list \<Rightarrow> goerror + bytes \<times> uint168) \<Rightarrow>
   ('d, 'x) sqlite \<Rightarrow> (uint168 \<Rightarrow> string) \<Rightarrow> int \<Rightarrow> string \<Rightarrow> ('d, 'w, 'k) cli \<Rightarrow> (goerror + uint168) \<times> ('d, 'w, 'k) cli" where
  "addMultiSignAccount decode file multi Q HashString m content c =
     (case getPublicKeys decode file content of
        Inl e \<Rightarrow> (Inl e, c)
      | Inr publicKeys \<Rightarrow>
          if length publicKeys < MinMultiSignKeys then (Inl (Failure ''multi sign account require at lest 3 public keys''), c)
          else
            (let m = (if m = 0 then int (length publicKeys div 2 + 1) else m) in
             if m < int (length publicKeys div 2 + 1) \<or> int (length publicKeys) < m
             then (Inl (Failure ''M must be greater than half number of public keys, less than number of public keys''), c)
             else AddMultiSignAccount multi Q HashString m publicKeys c))"

subsection \<open>transaction/transaction.go\<close>

text \<open>The flags of the command; an empty string is a flag that was not given.\<close>

record tx_flags =
  fgFee :: string
  fgFrom :: string
  fgFile :: string
  fgTo :: string
  fgAmount :: string
  fgLock :: string
  fgHex :: string

text \<open>\<open>strconv.ParseUint\<close> in base ten with 32 bits.\<close>

fun digits_value :: "nat \<Rightarrow> string \<Rightarrow> nat option" where
  "digits_value n [] = Some n"
| "digits_value n (c # cs) =
     (let d = (of_char c :: nat) in if 48 \<le> d \<and> d \<le> 57 then digits_value (10 * n + (d - 48)) cs else None)"

definition parse_u32 :: "string \<Rightarrow> u32 option" where
  "parse_u32 s =
     (if s = [] then None
      else case digits_value 0 s of None \<Rightarrow> None | Some n \<Rightarrow> if n < 2 ^ 32 then Some (word_of_nat n) else None)"

text \<open>The lines of a file with an address and an amount in each; \<open>fixed\<close> is \<open>StringToFixed64\<close>.\<close>

fun parse_transfers :: "(string \<Rightarrow> goerror + u64) \<Rightarrow> string list \<Rightarrow> goerror + transfer list" where
  "parse_transfers fixed [] = Inr []"
| "parse_transfers fixed (l # ls) =
     (let columns = split_char (CHR '','') l in
      if length columns < 2 then Inl (Failure ''invalid multi output line:'')
      else case fixed (TrimSpace (columns ! 1)) of
        Inl e \<Rightarrow> Inl (Failure ''invalid multi output transaction amount: '')
      | Inr amount \<Rightarrow>
          rbind (parse_transfers fixed ls) (\<lambda>ts. Inr (\<lparr>trAddress = TrimSpace (columns ! 0), trValue = amount\<rparr> # ts)))"

definition create_failed :: "string \<Rightarrow> goerror + wtx \<Rightarrow> goerror + wtx" where
  "create_failed msg r = (case r of Inl (Panic p) \<Rightarrow> Inl (Panic p) | Inl e \<Rightarrow> Inl (Failure msg) | Inr tx \<Rightarrow> Inr tx)"

text \<open>\<open>create\<close> is the wallet's \<open>createTransaction\<close>, with spender, fee, lock height and transfers as its arguments;
  \<open>file\<close> gives the lines of a file.\<close>

type_synonym tx_maker = "string \<Rightarrow> u64 \<Rightarrow> u32 \<Rightarrow> transfer list \<Rightarrow> goerror + wtx"

definition cl_CreateLockedMultiOutputTransaction :: "tx_maker \<Rightarrow> string \<Rightarrow> u64 \<Rightarrow> u32 \<Rightarrow> transfer list \<Rightarrow> goerror + wtx" where
  "cl_CreateLockedMultiOutputTransaction create fromAddress fee lockedUntil outputs = create fromAddress fee lockedUntil outputs"

definition cl_CreateMultiOutputTransaction :: "tx_maker \<Rightarrow> string \<Rightarrow> u64 \<Rightarrow> transfer list \<Rightarrow> goerror + wtx" where
  "cl_CreateMultiOutputTransaction create fromAddress fee outputs = cl_CreateLockedMultiOutputTransaction create fromAddress fee 0 outputs"

definition cl_CreateLockedTransaction :: "tx_maker \<Rightarrow> string \<Rightarrow> string \<Rightarrow> u64 \<Rightarrow> u64 \<Rightarrow> u32 \<Rightarrow> goerror + wtx" where
  "cl_CreateLockedTransaction create fromAddress toAddress amount fee lockedUntil =
     cl_CreateLockedMultiOutputTransaction create fromAddress fee lockedUntil [\<lparr>trAddress = toAddress, trValue = amount\<rparr>]"

definition cl_CreateTransaction :: "tx_maker \<Rightarrow> string \<Rightarrow> string \<Rightarrow> u64 \<Rightarrow> u64 \<Rightarrow> goerror + wtx" where
  "cl_CreateTransaction create fromAddress toAddress amount fee = cl_CreateLockedTransaction create fromAddress toAddress amount fee 0"

lemmas cl_Create_defs = cl_CreateTransaction_def cl_CreateLockedTransaction_def cl_CreateMultiOutputTransaction_def
  cl_CreateLockedMultiOutputTransaction_def

definition createMultiOutputTransaction ::
  "(string \<Rightarrow> goerror + u64) \<Rightarrow> (string \<Rightarrow> (goerror + string list) option) \<Rightarrow> tx_maker \<Rightarrow> tx_flags \<Rightarrow> string \<Rightarrow> string \<Rightarrow> u64 \<Rightarrow>
   goerror + wtx" where
  "createMultiOutputTransaction fixed file create c path from fee =
     (case file path of
        None \<Rightarrow> Inl (Failure ''invalid multi output file path'')
      | Some (Inl e) \<Rightarrow> Inl (Failure ''open multi output file failed'')
      | Some (Inr lines) \<Rightarrow>
          rbind (parse_transfers fixed lines) (\<lambda>multiOutput.
            if fgLock c = [] then create_failed ''create multi output transaction failed: '' (cl_CreateMultiOutputTransaction create from fee multiOutput)
            else case parse_u32 (fgLock c) of
              None \<Rightarrow> Inl (Failure ''invalid lock height'')
            | Some lock \<Rightarrow> create_failed ''create multi output transaction failed: '' (cl_CreateLockedMultiOutputTransaction create from fee lock multiOutput)))"

text \<open>\<open>select\<close> is the address \<open>SelectAccount\<close> answers with.\<close>

definition cmd_createTransaction ::
  "(string \<Rightarrow> goerror + u64) \<Rightarrow> (string \<Rightarrow> (goerror + string list) option) \<Rightarrow> goerror + string \<Rightarrow> tx_maker \<Rightarrow> tx_flags \<Rightarrow>
   goerror + wtx" where
  "cmd_createTransaction fixed file select create c =
     (if fgFee c = [] then Inl (Failure ''use --fee to specify transfer fee'')
      else case fixed (fgFee c) of
        Inl e \<Rightarrow> Inl (Failure ''invalid transaction fee'')
      | Inr fee \<Rightarrow>
     (case (if fgFrom c = [] then select else Inr (fgFrom c)) of
        Inl e \<Rightarrow> Inl e
      | Inr from \<Rightarrow>
     (if fgFile c \<noteq> [] then createMultiOutputTransaction fixed file create c (fgFile c) from fee
      else if fgTo c = [] then Inl (Failure ''use --to to specify receiver address'')
      else if fgAmount c = [] then Inl (Failure ''use --amount to specify transfer amount'')
      else case fixed (fgAmount c) of
        Inl e \<Rightarrow> Inl (Failure ''invalid transaction amount'')
      | Inr amount \<Rightarrow>
          if fgLock c = [] then create_failed ''create transaction failed: '' (cl_CreateTransaction create from (fgTo c) amount fee)
          else case parse_u32 (fgLock c) of
            None \<Rightarrow> Inl (Failure ''invalid lock height'')
          | Some lock \<Rightarrow> create_failed ''create transaction failed: '' (cl_CreateLockedTransaction create from (fgTo c) amount fee lock))))"

text \<open>The answer of \<open>GetSignStatus\<close> that there is an error is not looked at. The password is that of the flag or
  the one typed.\<close>

definition cmd_signTransaction ::
  "'k crypto \<Rightarrow> ('w, 'j) keyfs \<Rightarrow> 't scripts \<Rightarrow> bytes \<Rightarrow> goerror + bytes \<Rightarrow> 't signable \<Rightarrow> 'w \<Rightarrow> goerror + 't signable" where
  "cmd_signTransaction C F S password typed tx w =
     (case sgPrograms tx of
        [] \<Rightarrow> Inl (Panic ''index out of range'')
      | (code, param) # programs \<Rightarrow>
          (case GetSignStatus S code param of (haveSign, needSign, e) \<Rightarrow>
             if haveSign = needSign then Inl (Failure ''transaction was fully signed, no need more sign'')
             else rbind (GetPassword password False typed (Inr [])) (\<lambda>password. Wallet_Sign C F S password tx w)))"

text \<open>\<open>file\<close> gives the contents of a file.\<close>

definition getContent :: "(string \<Rightarrow> (goerror + string) option) \<Rightarrow> tx_flags \<Rightarrow> goerror + string" where
  "getContent file c =
     (let filePath = TrimSpace (fgFile c) in
      if filePath \<noteq> [] then
        (case file filePath of
           None \<Rightarrow> Inl (Failure ''invalid transaction file path'')
         | Some (Inl e) \<Rightarrow> Inl (Failure ''read transaction file failed'')
         | Some (Inr rawData) \<Rightarrow>
             if TrimSpace rawData = [] then Inl (Failure ''transaction file is empty'') else Inr (TrimSpace rawData))
      else if TrimSpace (fgHex c) = [] then Inl (Failure ''transaction hex string is empty'')
      else Inr (TrimSpace (fgHex c)))"

text \<open>\<open>deserialize\<close> is \<open>GetTransactionByBytes\<close> followed by \<open>Deserialize\<close>.\<close>

definition getTransaction ::
  "(string \<Rightarrow> goerror + bytes) \<Rightarrow> (bytes \<Rightarrow> goerror + 't signable) \<Rightarrow> (string \<Rightarrow> (goerror + string) option) \<Rightarrow> tx_flags \<Rightarrow>
   goerror + 't signable" where
  "getTransaction unhex deserialize file c =
     rbind (getContent file c) (\<lambda>content.
       case unhex content of
         Inl e \<Rightarrow> Inl (Failure ''decode transaction content failed'')
       | Inr rawData \<Rightarrow> deserialize rawData)"

text \<open>The transaction \<open>SendTransaction\<close> sends. An error of \<open>getContent\<close> means that it is created; \<open>create\<close> is
  \<open>createTransaction\<close> with the transaction it makes and \<open>sign\<close> the function above.\<close>

definition tx_to_send ::
  "(string \<Rightarrow> goerror + bytes) \<Rightarrow> (bytes \<Rightarrow> goerror + 't signable) \<Rightarrow> (string \<Rightarrow> (goerror + string) option) \<Rightarrow>
   (tx_flags \<Rightarrow> goerror + 't signable) \<Rightarrow> ('t signable \<Rightarrow> goerror + 't signable) \<Rightarrow> tx_flags \<Rightarrow> goerror + 't signable" where
  "tx_to_send unhex deserialize file create sign c =
     (case getContent file c of
        Inl e \<Rightarrow> rbind (create c) sign
      | Inr content \<Rightarrow>
          (case unhex content of
             Inl e \<Rightarrow> Inl (Failure ''deseralize transaction file failed'')
           | Inr dat \<Rightarrow> deserialize dat))"

fun show_digits :: "nat \<Rightarrow> string" where
  "show_digits n = (if n < 10 then [char_of (n + 48)] else show_digits (n div 10) @ [char_of (n mod 10 + 48)])"

declare show_digits.simps [simp del]

definition show_int :: "int \<Rightarrow> string" where
  "show_int i = (if i < 0 then CHR ''-'' # show_digits (nat (- i)) else show_digits (nat i))"

text \<open>The name of the file the transaction is written to.\<close>

definition output_file :: "int \<Rightarrow> int \<Rightarrow> string" where
  "output_file haveSign needSign =
     (if haveSign < needSign then ''to_be_signed'' @ ''_'' @ show_int haveSign @ ''_of_'' @ show_int needSign
      else if needSign = haveSign then ''ready_to_send''
      else ''to_be_signed'') @ ''.tx''"

subsection \<open>wallet/wallet.go\<close>

text \<open>The command that changes the password verifies the old one.\<close>

definition changePassword ::
  "'k crypto \<Rightarrow> ('w, 'j) keyfs \<Rightarrow> ('d, 'x) sqlite \<Rightarrow> bytes \<Rightarrow> goerror + bytes \<Rightarrow> goerror + bytes \<Rightarrow> goerror + bytes \<Rightarrow>
   ('d, 'w, 'k) cli \<Rightarrow> string \<times> ('d, 'w, 'k) cli" where
  "changePassword C F Q password typed new confirm c =
     (case GetPassword password False typed (Inr []) of
        Inl e \<Rightarrow> (''--GET PASSWORD FAILED--'', c)
      | Inr oldPassword \<Rightarrow>
     (case Wallet_Open Q c of
        (Some e, c) \<Rightarrow> (''--OPEN WALLET FAILED--'', c)
      | (None, c) \<Rightarrow>
     (case OpenKeystore C F oldPassword (clFile c) of
        Inl e \<Rightarrow> (''--PASSWORD WRONG--'', c)
      | Inr keyStore \<Rightarrow>
          (let c = c\<lparr>clKeystore := Some keyStore\<rparr> in
           case GetPassword [] True new confirm of
             Inl e \<Rightarrow> (''--GET NEW PASSWORD FAILED--'', c)
           | Inr newPassword \<Rightarrow>
               (case ChangePassword C F oldPassword newPassword keyStore (clFile c) of
                  (Some e, keyStore, w) \<Rightarrow>
                    (''--CHANGED WALLET PASSWORD FAILED--'', c\<lparr>clKeystore := Some keyStore, clFile := w\<rparr>)
                | (None, keyStore, w) \<Rightarrow>
                    (''--PASSWORD CHANGED SUCCESSFUL--'', c\<lparr>clKeystore := Some keyStore, clFile := w\<rparr>))))))"

text \<open>\<open>clear\<close> is the \<open>Clear\<close> of the database.\<close>

definition resetDatabase ::
  "'k crypto \<Rightarrow> ('w, 'j) keyfs \<Rightarrow> ('d, 'x) sqlite \<Rightarrow> ('d \<Rightarrow> goerror option \<times> 'd) \<Rightarrow> bytes \<Rightarrow> goerror + bytes \<Rightarrow>
   ('d, 'w, 'k) cli \<Rightarrow> string \<times> ('d, 'w, 'k) cli" where
  "resetDatabase C F Q clear password typed c =
     (case GetPassword password False typed (Inr []) of
        Inl e \<Rightarrow> (''--GET PASSWORD FAILED--'', c)
      | Inr oldPassword \<Rightarrow>
     (case Wallet_Open Q c of
        (Some e, c) \<Rightarrow> (''--OPEN WALLET FAILED--'', c)
      | (None, c) \<Rightarrow>
     (case OpenKeystore C F oldPassword (clFile c) of
        Inl e \<Rightarrow> (''--PASSWORD WRONG--'', c)
      | Inr keyStore \<Rightarrow>
          (let c = c\<lparr>clKeystore := Some keyStore\<rparr>
           in case clear (clDb c) of
                (Some e, d) \<Rightarrow> (''--WALLET DATABASE RESET FAILED--'', c\<lparr>clDb := d\<rparr>)
              | (None, d) \<Rightarrow> (''--WALLET DATABASE HAS BEEN RESET--'', c\<lparr>clDb := d\<rparr>)))))"

end
