(* ===== verification/KeystoreRuns.thy ===== *)
theory KeystoreRuns
  imports Keystore
begin

text \<open>
  What a key store keeps: a sequence of new accounts and new passwords, and opening the file again.
  \<open>keystore_stored\<close> relates the file to the key store in memory. The old password of a change is not
  checked.
\<close>

subsection \<open>Assumptions on the parameters\<close>

text \<open>Hexadecimal text reads back; AES with a key of 32 bytes is a cipher on blocks of 16 bytes without
  padding, which decrypts with any key; a point has 65 bytes.\<close>

definition aes_ok :: "'k crypto \<Rightarrow> bool" where
  "aes_ok C \<longleftrightarrow> (\<forall>d k iv. length d mod 16 = 0 \<longrightarrow> length k = 32 \<longrightarrow> length iv = 16 \<longrightarrow>
     (\<exists>c. AesEncrypt C d k iv = Inr c \<and> length c = length d \<and> AesDecrypt C c k iv = Inr d) \<and>
     (\<exists>x. AesDecrypt C d k iv = Inr x \<and> length x = length d))"

definition crypto_ok :: "'k crypto \<Rightarrow> bool" where
  "crypto_ok C \<longleftrightarrow> aes_ok C \<and> (\<forall>b. HexStringToBytes C (BytesToHexString C b) = Inr b) \<and>
     (\<forall>p. length (ToAesKey C p) = 32) \<and> (\<forall>k. \<exists>b. EncodePoint C k = Inr b \<and> length b = 65)"

text \<open>What was written to the file after truncating it is what is read.\<close>

definition keyfs_ok :: "('w, 'j) keyfs \<Rightarrow> bool" where
  "keyfs_ok F \<longleftrightarrow> (\<forall>f. \<exists>j. ksMarshal F f = Inr j \<and> ksUnmarshal F j = Inr f) \<and>
     (\<forall>w w1 j w2. ksTruncate F w = (None, w1) \<longrightarrow> ksWrite F j w1 = (None, w2) \<longrightarrow> ksStat F w2 \<and> ksReadAll F w2 = Inr j)"

lemma crypto_ok_simps [simp]:
  assumes "crypto_ok C"
  shows "HexStringToBytes C (BytesToHexString C b) = Inr b" and "length (ToAesKey C p) = 32"
  using assms by (simp_all add: crypto_ok_def)

lemma aes_ok:
  assumes "crypto_ok C" and "length d mod 16 = 0" and "length k = 32" and "length iv = 16"
  shows "(\<exists>c. AesEncrypt C d k iv = Inr c \<and> length c = length d \<and> AesDecrypt C c k iv = Inr d) \<and>
    (\<exists>x. AesDecrypt C d k iv = Inr x \<and> length x = length d)"
proof -
  from assms(1) have "aes_ok C" unfolding crypto_ok_def by (elim conjE)
  note a = this [unfolded aes_ok_def, THEN spec, THEN spec, THEN spec]
  show ?thesis by (rule a [THEN mp, THEN mp, THEN mp, OF assms(2-4)])
qed

lemma aes_encrypt:
  assumes "crypto_ok C" and "length d mod 16 = 0" and "length k = 32" and "length iv = 16"
  obtains c where "AesEncrypt C d k iv = Inr c" and "length c = length d" and "AesDecrypt C c k iv = Inr d"
  using aes_ok [OF assms] by blast

lemma aes_decrypt:
  assumes "crypto_ok C" and "length d mod 16 = 0" and "length k = 32" and "length iv = 16"
  obtains x where "AesDecrypt C d k iv = Inr x" and "length x = length d"
  using aes_ok [OF assms] by blast

lemma encode_point:
  assumes "crypto_ok C"
  obtains b where "EncodePoint C k = Inr b" and "length b = 65"
  using assms unfolding crypto_ok_def by blast

text \<open>The file holds \<open>f\<close>.\<close>

definition file_holds :: "('w, 'j) keyfs \<Rightarrow> keystore_file \<Rightarrow> 'w \<Rightarrow> bool" where
  "file_holds F f w \<longleftrightarrow> ksStat F w \<and> rbind (ksReadAll F w) (ksUnmarshal F) = Inr f"

lemma SaveToFile_holds:
  assumes "keyfs_ok F" and "SaveToFile F f w = (None, w')"
  shows "file_holds F f w'"
proof -
  from assms(1) obtain j where j: "ksMarshal F f = Inr j" "ksUnmarshal F j = Inr f" unfolding keyfs_ok_def by blast
  with assms(2) obtain w1 where "ksTruncate F w = (None, w1)" "ksWrite F j w1 = (None, w')"
    by (auto simp: SaveToFile_def split: prod.splits option.splits)
  with assms(1) j(2) show ?thesis by (auto simp: keyfs_ok_def file_holds_def rbind_def)
qed

lemma OpenKeystoreFile_holds: "file_holds F f w \<Longrightarrow> ksOpen F w = None \<Longrightarrow> OpenKeystoreFile F w = Inr f"
  by (simp add: OpenKeystoreFile_def LoadFromFile_def file_holds_def)

subsection \<open>Encrypting and decrypting\<close>

lemma GetIV_simps [simp]:
  "GetIV C (f\<lparr>kfPasswordHash := a\<rparr>) = GetIV C f" "GetIV C (f\<lparr>kfMasterKeyEncrypted := a\<rparr>) = GetIV C f"
  "GetIV C (f\<lparr>kfPrivateKeyEncrypted := a\<rparr>) = GetIV C f" "GetIV C (f\<lparr>kfSubAccountsCount := n\<rparr>) = GetIV C f"
  by (simp_all add: GetIV_def)

lemma master_key_roundtrip:
  assumes "crypto_ok C" and "GetIV C f = Inr iv" and "length iv = 16" and "length masterKey = 32" and "length k = 32"
  obtains enc where "encryptMasterKey C k masterKey f = Inr enc" and "length enc = 32"
    and "\<And>g. GetIV C g = Inr iv \<Longrightarrow> kfMasterKeyEncrypted g = BytesToHexString C enc \<Longrightarrow> decryptMasterKey C k g = Inr masterKey"
proof -
  have "length masterKey mod 16 = 0" using assms(4) by simp
  from aes_encrypt [OF assms(1) this assms(5,3)] obtain enc where
    "AesEncrypt C masterKey k iv = Inr enc" "length enc = length masterKey" "AesDecrypt C enc k iv = Inr masterKey" by blast
  with assms that [of enc] show thesis
    by (simp add: encryptMasterKey_def decryptMasterKey_def GetMasterKeyEncrypted_def rbind_def)
qed

lemma key_pair_bytes:
  assumes "length b = 65" and "length privateKey = 32"
  shows "length (key_pair_bytes b privateKey) = 96" and "drop 64 (take 96 (key_pair_bytes b privateKey)) = privateKey"
  using assms by (simp_all add: key_pair_bytes_def)

lemma private_key_roundtrip:
  assumes "crypto_ok C" and "GetIV C f = Inr iv" and "length iv = 16" and "length masterKey = 32" and "length privateKey = 32"
  obtains enc where "encryptPrivateKey C masterKey privateKey publicKey f = Inr enc"
    and "\<And>g. GetIV C g = Inr iv \<Longrightarrow> kfPrivateKeyEncrypted g = BytesToHexString C enc \<Longrightarrow>
      decryptPrivateKey C masterKey g = Inr (privateKey, NewPubKey C privateKey)"
proof -
  obtain b where b: "EncodePoint C publicKey = Inr b" "length b = 65" using encode_point [OF assms(1)] .
  note k = key_pair_bytes [OF b(2) assms(5)]
  have "length (key_pair_bytes b privateKey) mod 16 = 0" by (simp add: k(1))
  from aes_encrypt [OF assms(1) this assms(4,3)] obtain enc where e: "AesEncrypt C (key_pair_bytes b privateKey) masterKey iv = Inr enc"
    "length enc = 96" "AesDecrypt C enc masterKey iv = Inr (key_pair_bytes b privateKey)" unfolding k(1) by blast
  show thesis
  proof (rule that)
    show "encryptPrivateKey C masterKey privateKey publicKey f = Inr enc"
      using assms(2,5) b e(1) by (simp add: encryptPrivateKey_def rbind_def)
    show "decryptPrivateKey C masterKey g = Inr (privateKey, NewPubKey C privateKey)"
      if "GetIV C g = Inr iv" "kfPrivateKeyEncrypted g = BytesToHexString C enc" for g
      using that assms(1) e(2,3) k by (simp add: decryptPrivateKey_def GetPrivetKeyEncrypted_def rbind_def)
  qed
qed

subsection \<open>The accounts\<close>

text \<open>A derivation that succeeds gives one account for each number; deriving one more appends it.\<close>

lemma sub_accounts_done: "n < i \<Longrightarrow> sub_accounts C masterKey privateKey i n accounts = (None, accounts)"
  by (simp add: sub_accounts.simps)

lemma sub_accounts_append:
  assumes "sub_accounts C masterKey privateKey i n accounts = (None, accounts')" and "i \<le> n + 1"
    and "GenerateSubKeyPair C (n + 1) masterKey privateKey = Inr (priv, pub)" and "NewAccount C priv pub = Inr a"
  shows "sub_accounts C masterKey privateKey i (n + 1) accounts = (None, accounts' @ [a])"
  using assms(1,2)
proof (induction "nat (n + 1 - i)" arbitrary: i accounts)
  case 0
  then have i: "i = n + 1" by simp
  with 0(2) have "accounts' = accounts" by (simp add: sub_accounts_done)
  then show ?case unfolding i by (subst sub_accounts.simps) (simp add: assms(3,4) sub_accounts_done)
next
  case (Suc x)
  then have i: "\<not> n < i" by simp
  with Suc.prems(1) obtain p k c where g: "GenerateSubKeyPair C i masterKey privateKey = Inr (p, k)" "NewAccount C p k = Inr c"
    "sub_accounts C masterKey privateKey (i + 1) n (accounts @ [c]) = (None, accounts')"
    by (subst (asm) sub_accounts.simps) (auto split: sum.splits)
  have "sub_accounts C masterKey privateKey (i + 1) (n + 1) (accounts @ [c]) = (None, accounts' @ [a])"
    using Suc.hyps(2) i by (intro Suc.hyps(1) g(3)) simp_all
  with i g(1,2) show ?case by (subst sub_accounts.simps) simp
qed

lemma sub_accounts_extends:
  "sub_accounts C masterKey privateKey i n accounts = (None, accounts') \<Longrightarrow>
   \<exists>subs. accounts' = accounts @ subs \<and> length subs = nat (n + 1 - i)"
proof (induction "nat (n + 1 - i)" arbitrary: i accounts)
  case 0
  then show ?case by (simp add: sub_accounts_done)
next
  case (Suc x)
  then have i: "\<not> n < i" by simp
  with Suc.prems(1) obtain c where "sub_accounts C masterKey privateKey (i + 1) n (accounts @ [c]) = (None, accounts')"
    by (subst (asm) sub_accounts.simps) (auto split: sum.splits)
  moreover have x: "x = nat (n + 1 - (i + 1))" using Suc.hyps(2) i by simp
  ultimately obtain subs where "accounts' = (accounts @ [c]) @ subs" "length subs = x" using Suc.hyps(1) by blast
  with Suc.hyps(2) show ?case by (intro exI [of _ "c # subs"]) simp
qed

lemma initAccounts_accounts:
  assumes "initAccounts C masterKey priv pub (new_keystore\<lparr>ksFile := f\<rparr>) = (None, s)"
  obtains a subs where "NewAccount C priv pub = Inr a" and "acPrivateKey a = priv" and "ksAccounts s = a # subs"
    and "length subs = nat (kfSubAccountsCount f)"
    and "sub_accounts C masterKey priv 1 (kfSubAccountsCount f) [a] = (None, ksAccounts s)"
proof -
  obtain a where a: "NewAccount C priv pub = Inr a"
    using assms by (cases "NewAccount C priv pub") (simp_all add: initAccounts_def)
  with assms have b: "sub_accounts C masterKey priv 1 (kfSubAccountsCount f) [a] = (None, ksAccounts s)"
    by (auto simp: initAccounts_def new_keystore_def Let_def split: prod.splits)
  from sub_accounts_extends [OF b] obtain subs where "ksAccounts s = a # subs" "length subs = nat (kfSubAccountsCount f)" by auto
  moreover have "acPrivateKey a = priv" using a by (auto simp: NewAccount_def split: sum.splits)
  ultimately show thesis using that a b by blast
qed

subsection \<open>The file and the key store in memory\<close>

definition keystore_stored :: "'k crypto \<Rightarrow> ('w, 'j) keyfs \<Rightarrow> bytes \<Rightarrow> 'k keystore \<Rightarrow> 'w \<Rightarrow> bool" where
  "keystore_stored C F password s w \<longleftrightarrow> file_holds F (ksFile s) w \<and> verifyPassword C password (ksFile s) = None \<and>
     decryptMasterKey C (ToAesKey C password) (ksFile s) = Inr (ksMasterKey s) \<and> length (ksMasterKey s) = 32 \<and>
     0 \<le> kfSubAccountsCount (ksFile s) \<and> (\<exists>iv. GetIV C (ksFile s) = Inr iv \<and> length iv = 16) \<and>
     (\<exists>priv. length priv = 32 \<and> decryptPrivateKey C (ksMasterKey s) (ksFile s) = Inr (priv, NewPubKey C priv) \<and>
       initAccounts C (ksMasterKey s) priv (NewPubKey C priv) (new_keystore\<lparr>ksFile := ksFile s\<rparr>) = (None, s))"

lemma keystore_storedI:
  assumes "file_holds F (ksFile s) w" and "verifyPassword C password (ksFile s) = None"
    and "decryptMasterKey C (ToAesKey C password) (ksFile s) = Inr (ksMasterKey s)" and "length (ksMasterKey s) = 32"
    and "0 \<le> kfSubAccountsCount (ksFile s)" and "GetIV C (ksFile s) = Inr iv" and "length iv = 16" and "length priv = 32"
    and "decryptPrivateKey C (ksMasterKey s) (ksFile s) = Inr (priv, NewPubKey C priv)"
    and "initAccounts C (ksMasterKey s) priv (NewPubKey C priv) (new_keystore\<lparr>ksFile := ksFile s\<rparr>) = (None, s)"
  shows "keystore_stored C F password s w"
  using assms unfolding keystore_stored_def by blast

lemma stored_open:
  assumes "keystore_stored C F password s w" and "ksOpen F w = None"
  shows "OpenKeystore C F password w = Inr s"
  using assms OpenKeystoreFile_holds [of F "ksFile s" w]
  by (auto simp: keystore_stored_def OpenKeystore_def initKeystore_def Let_def)

lemma stored_wrong_password:
  assumes "keystore_stored C F password s w" and "ksOpen F w = None" and "Sha256 C (ToAesKey C q) \<noteq> Sha256 C (ToAesKey C password)"
  shows "OpenKeystore C F q w = Inl (Failure ''password wrong'')"
proof -
  have "verifyPassword C q (ksFile s) = Some (Failure ''password wrong'')"
    using assms(1,3) by (auto simp: keystore_stored_def verifyPassword_def Let_def split: sum.splits if_splits)
  with assms OpenKeystoreFile_holds [of F "ksFile s" w] show ?thesis
    by (simp add: keystore_stored_def OpenKeystore_def initKeystore_def Let_def)
qed

lemma verifyPassword_set: "crypto_ok C \<Longrightarrow> kfPasswordHash f = BytesToHexString C (Sha256 C (ToAesKey C password)) \<Longrightarrow>
  verifyPassword C password f = None"
  by (simp add: verifyPassword_def GetPasswordHash_def)

text \<open>A key store that was just created is stored.\<close>

lemma CreateKeystore_stored:
  assumes "crypto_ok C" and "keyfs_ok F" and "length iv = 16" and "length masterKey = 32" and "length priv = 32"
    and "CreateKeystore C F iv masterKey (priv, NewPubKey C priv) password w = (Inr s, w')"
  shows "keystore_stored C F password s w' \<and> ksMasterKey s = masterKey \<and> length (ksAccounts s) = 1"
proof -
  let ?k = "ToAesKey C password"
  let ?new = "SetPasswordHash C (Sha256 C ?k) (SetIV C iv (empty_keystore_file\<lparr>kfVersion := KeystoreVersion\<rparr>))"
  have iv: "GetIV C ?new = Inr iv" using assms(1) by (simp add: GetIV_def SetPasswordHash_def SetIV_def)
  have lk: "length ?k = 32" using assms(1) by simp
  obtain em where em: "encryptMasterKey C ?k masterKey ?new = Inr em"
    "\<And>g. GetIV C g = Inr iv \<Longrightarrow> kfMasterKeyEncrypted g = BytesToHexString C em \<Longrightarrow> decryptMasterKey C ?k g = Inr masterKey"
    using master_key_roundtrip [OF assms(1) iv assms(3,4) lk] by metis
  let ?f1 = "SetMasterKeyEncrypted C em ?new"
  have iv1: "GetIV C ?f1 = Inr iv" using iv by (simp add: SetMasterKeyEncrypted_def)
  obtain ep where ep: "encryptPrivateKey C masterKey priv (NewPubKey C priv) ?f1 = Inr ep"
    "\<And>g. GetIV C g = Inr iv \<Longrightarrow> kfPrivateKeyEncrypted g = BytesToHexString C ep \<Longrightarrow>
      decryptPrivateKey C masterKey g = Inr (priv, NewPubKey C priv)"
    using private_key_roundtrip [OF assms(1) iv1 assms(3,4,5), of "NewPubKey C priv"] by metis
  let ?f = "SetPrivateKeyEncrypted C ep ?f1"
  have n: "\<not> ksStat F w" using assms(6) by (auto simp: CreateKeystore_def CreateKeystoreFile_def)
  have i: "initAccounts C masterKey priv (NewPubKey C priv) (new_keystore\<lparr>ksFile := ?f\<rparr>) = (None, s)"
    and sv: "SaveToFile F ?f w = (None, w')"
    using assms(6) n em(1) ep(1)
    by (auto simp: CreateKeystore_def CreateKeystoreFile_def Let_def split: prod.splits option.splits)
  have s: "ksFile s = ?f" "ksMasterKey s = masterKey"
    using i by (auto simp: initAccounts_def Let_def split: sum.splits prod.splits)
  have f: "GetIV C ?f = Inr iv" "kfMasterKeyEncrypted ?f = BytesToHexString C em" "kfPrivateKeyEncrypted ?f = BytesToHexString C ep"
    "kfPasswordHash ?f = BytesToHexString C (Sha256 C ?k)" "kfSubAccountsCount ?f = 0"
    using iv1 by (simp_all add: GetIV_def SetPrivateKeyEncrypted_def SetMasterKeyEncrypted_def SetPasswordHash_def SetIV_def
        empty_keystore_file_def)
  have "keystore_stored C F password s w'"
    by (rule keystore_storedI, unfold s)
      (fact SaveToFile_holds [OF assms(2) sv] verifyPassword_set [OF assms(1) f(4)] em(2) [OF f(1,2)] assms(3,4,5) f(1)
        ep(2) [OF f(1,3)] i eq_refl [OF f(5) [symmetric]])+
  moreover obtain a subs where "ksAccounts s = a # subs" "length subs = nat (kfSubAccountsCount ?f)"
    by (rule initAccounts_accounts [OF i])
  then have "length (ksAccounts s) = 1" unfolding f(5) by simp
  ultimately show ?thesis by (simp add: s)
qed

text \<open>A new account keeps it stored.\<close>

lemma count_irrelevant:
  "verifyPassword C p (f\<lparr>kfSubAccountsCount := n\<rparr>) = verifyPassword C p f"
  "decryptMasterKey C k (f\<lparr>kfSubAccountsCount := n\<rparr>) = decryptMasterKey C k f"
  "decryptPrivateKey C k (f\<lparr>kfSubAccountsCount := n\<rparr>) = decryptPrivateKey C k f"
  unfolding verifyPassword_def GetPasswordHash_def decryptMasterKey_def GetMasterKeyEncrypted_def decryptPrivateKey_def
    GetPrivetKeyEncrypted_def GetIV_simps by simp_all

lemma ks_NewAccount_stored:
  assumes "keyfs_ok F" and "keystore_stored C F password s w" and "ks_NewAccount C F s w = (Inr a, s', w')"
  shows "keystore_stored C F password s' w' \<and> ksAccounts s' = ksAccounts s @ [a] \<and> ksMasterKey s' = ksMasterKey s \<and>
    kfSubAccountsCount (ksFile s') = kfSubAccountsCount (ksFile s) + 1"
proof -
  let ?n = "kfSubAccountsCount (ksFile s)" and ?f = "(ksFile s)\<lparr>kfSubAccountsCount := kfSubAccountsCount (ksFile s) + 1\<rparr>"
  from assms(2) obtain iv priv where st: "verifyPassword C password (ksFile s) = None"
    "decryptMasterKey C (ToAesKey C password) (ksFile s) = Inr (ksMasterKey s)" "length (ksMasterKey s) = 32" "0 \<le> ?n"
    "GetIV C (ksFile s) = Inr iv" "length iv = 16" "length priv = 32"
    "decryptPrivateKey C (ksMasterKey s) (ksFile s) = Inr (priv, NewPubKey C priv)"
    "initAccounts C (ksMasterKey s) priv (NewPubKey C priv) (new_keystore\<lparr>ksFile := ksFile s\<rparr>) = (None, s)"
    unfolding keystore_stored_def by blast
  obtain m subs where m: "NewAccount C priv (NewPubKey C priv) = Inr m" "acPrivateKey m = priv" "ksAccounts s = m # subs"
    "sub_accounts C (ksMasterKey s) priv 1 ?n [m] = (None, ksAccounts s)"
    using initAccounts_accounts [OF st(9)] by metis
  obtain p k where g: "GenerateSubKeyPair C (?n + 1) (ksMasterKey s) priv = Inr (p, k)" "NewAccount C p k = Inr a"
    and s': "s' = s\<lparr>ksAccounts := ksAccounts s @ [a], ksFile := ?f\<rparr>" and sv: "SaveToFile F ?f w = (None, w')"
    using assms(3) m(2,3) by (auto simp: ks_NewAccount_def Let_def split: sum.splits option.splits prod.splits)
  have "sub_accounts C (ksMasterKey s) priv 1 (?n + 1) [m] = (None, ksAccounts s @ [a])"
    by (rule sub_accounts_append [OF m(4) _ g]) (use st(4) in simp)
  then have i: "initAccounts C (ksMasterKey s') priv (NewPubKey C priv) (new_keystore\<lparr>ksFile := ksFile s'\<rparr>) = (None, s')"
    by (simp add: initAccounts_def m(1) s' new_keystore_def)
  have f: "verifyPassword C password ?f = None" "decryptMasterKey C (ToAesKey C password) ?f = Inr (ksMasterKey s)"
    "decryptPrivateKey C (ksMasterKey s) ?f = Inr (priv, NewPubKey C priv)" "GetIV C ?f = Inr iv"
    using st by (simp_all add: count_irrelevant)
  have "keystore_stored C F password s' w'"
    by (rule keystore_storedI [OF _ _ _ _ _ _ st(6,7) _ i]) (use f st(3,4) SaveToFile_holds [OF assms(1) sv] in \<open>simp_all add: s'\<close>)
  then show ?thesis by (simp add: s')
qed

text \<open>What a change of the password does, whatever the old one is.\<close>

lemma ChangePassword_reencrypts:
  assumes "crypto_ok C" and "GetIV C (ksFile s) = Inr iv" and "length iv = 16"
    and "decryptMasterKey C (ToAesKey C old) (ksFile s) = Inr masterKey" and "length masterKey = 32"
    and "decryptPrivateKey C masterKey (ksFile s) = Inr (priv, pub)" and "length priv = 32"
  obtains f where "ChangePassword C F old new s w = (let (e, w') = SaveToFile F f w in (e, s\<lparr>ksFile := f\<rparr>, w'))"
    and "verifyPassword C new f = None" and "decryptMasterKey C (ToAesKey C new) f = Inr masterKey"
    and "decryptPrivateKey C masterKey f = Inr (priv, NewPubKey C priv)" and "GetIV C f = Inr iv"
    and "kfSubAccountsCount f = kfSubAccountsCount (ksFile s)"
proof -
  let ?k = "ToAesKey C new" and ?old = "ksFile s"
  have lk: "length ?k = 32" using assms(1) by simp
  obtain em where em: "encryptMasterKey C ?k masterKey ?old = Inr em"
    "\<And>g. GetIV C g = Inr iv \<Longrightarrow> kfMasterKeyEncrypted g = BytesToHexString C em \<Longrightarrow> decryptMasterKey C ?k g = Inr masterKey"
    using master_key_roundtrip [OF assms(1,2,3,5) lk] by metis
  obtain ep where ep: "encryptPrivateKey C masterKey priv pub ?old = Inr ep"
    "\<And>g. GetIV C g = Inr iv \<Longrightarrow> kfPrivateKeyEncrypted g = BytesToHexString C ep \<Longrightarrow>
      decryptPrivateKey C masterKey g = Inr (priv, NewPubKey C priv)"
    using private_key_roundtrip [OF assms(1,2,3,5,7), of pub] by metis
  let ?f = "SetPrivateKeyEncrypted C ep (SetMasterKeyEncrypted C em (SetPasswordHash C (Sha256 C ?k) ?old))"
  have f: "GetIV C ?f = Inr iv" "kfMasterKeyEncrypted ?f = BytesToHexString C em" "kfPrivateKeyEncrypted ?f = BytesToHexString C ep"
    "kfPasswordHash ?f = BytesToHexString C (Sha256 C ?k)" "kfSubAccountsCount ?f = kfSubAccountsCount ?old"
    using assms(2) by (simp_all add: GetIV_def SetPrivateKeyEncrypted_def SetMasterKeyEncrypted_def SetPasswordHash_def)
  obtain enc where "GetMasterKeyEncrypted C ?old = Inr enc"
    using assms(2,4) by (auto simp: decryptMasterKey_def rbind_def split: sum.splits)
  then have "ChangePassword C F old new s w = (let (e, w') = SaveToFile F ?f w in (e, s\<lparr>ksFile := ?f\<rparr>, w'))"
    using assms(4,6) em(1) ep(1) by (simp add: ChangePassword_def Let_def)
  then show thesis
    by (rule that) (fact verifyPassword_set [OF assms(1) f(4)] em(2) [OF f(1,2)] ep(2) [OF f(1,3)] f(1) f(5))+
qed

lemma ChangePassword_stored:
  assumes "crypto_ok C" and "keyfs_ok F" and "keystore_stored C F old s w" and "ChangePassword C F old new s w = (None, s', w')"
  shows "keystore_stored C F new s' w' \<and> ksAccounts s' = ksAccounts s \<and> ksMasterKey s' = ksMasterKey s"
proof -
  from assms(3) obtain iv priv where st: "decryptMasterKey C (ToAesKey C old) (ksFile s) = Inr (ksMasterKey s)"
    "length (ksMasterKey s) = 32" "0 \<le> kfSubAccountsCount (ksFile s)" "GetIV C (ksFile s) = Inr iv" "length iv = 16" "length priv = 32"
    "decryptPrivateKey C (ksMasterKey s) (ksFile s) = Inr (priv, NewPubKey C priv)"
    "initAccounts C (ksMasterKey s) priv (NewPubKey C priv) (new_keystore\<lparr>ksFile := ksFile s\<rparr>) = (None, s)"
    unfolding keystore_stored_def by blast
  obtain f where f: "ChangePassword C F old new s w = (let (e, w') = SaveToFile F f w in (e, s\<lparr>ksFile := f\<rparr>, w'))"
    "verifyPassword C new f = None" "decryptMasterKey C (ToAesKey C new) f = Inr (ksMasterKey s)"
    "decryptPrivateKey C (ksMasterKey s) f = Inr (priv, NewPubKey C priv)" "GetIV C f = Inr iv"
    "kfSubAccountsCount f = kfSubAccountsCount (ksFile s)"
    using ChangePassword_reencrypts [OF assms(1) st(4,5,1,2,7,6)] by metis
  from f(1) assms(4) have s': "s' = s\<lparr>ksFile := f\<rparr>" and sv: "SaveToFile F f w = (None, w')"
    by (simp_all add: Let_def split: prod.splits)
  have i: "initAccounts C (ksMasterKey s') priv (NewPubKey C priv) (new_keystore\<lparr>ksFile := ksFile s'\<rparr>) = (None, s')"
    using st(8) by (cases s) (auto simp: initAccounts_def s' f(6) new_keystore_def Let_def split: sum.splits prod.splits)
  have "keystore_stored C F new s' w'"
    by (rule keystore_storedI [OF _ _ _ _ _ _ st(5,6) _ i])
      (use f st(2,3) SaveToFile_holds [OF assms(2) sv] in \<open>simp_all add: s'\<close>)
  then show ?thesis by (simp add: s')
qed

subsection \<open>Runs\<close>

text \<open>What is done with a key store: a new account, or a new password given the right old one.\<close>

datatype ks_op = NewSub | NewPassword bytes

fun ks_run ::
  "'k crypto \<Rightarrow> ('w, 'j) keyfs \<Rightarrow> ks_op list \<Rightarrow> bytes \<Rightarrow> 'k keystore \<Rightarrow> 'w \<Rightarrow> (bytes \<times> 'k keystore \<times> 'w) option" where
  "ks_run C F [] password s w = Some (password, s, w)"
| "ks_run C F (NewSub # ops) password s w =
     (case ks_NewAccount C F s w of
        (Inl e, s, w) \<Rightarrow> None
      | (Inr a, s, w) \<Rightarrow> ks_run C F ops password s w)"
| "ks_run C F (NewPassword new # ops) password s w =
     (case ChangePassword C F password new s w of
        (Some e, s, w) \<Rightarrow> None
      | (None, s, w) \<Rightarrow> ks_run C F ops new s w)"

lemma ks_run_stored:
  assumes "crypto_ok C" and "keyfs_ok F" and "keystore_stored C F password s w" and "ks_run C F ops password s w = Some (password', s', w')"
  shows "keystore_stored C F password' s' w' \<and> ksMasterKey s' = ksMasterKey s \<and>
    (\<exists>subs. ksAccounts s' = ksAccounts s @ subs \<and> length subs = length (filter (\<lambda>x. x = NewSub) ops))"
  using assms(3,4)
proof (induction ops arbitrary: password s w)
  case (Cons op ops)
  show ?case
  proof (cases op)
    case NewSub
    with Cons.prems(2) obtain a s1 w1 where n: "ks_NewAccount C F s w = (Inr a, s1, w1)"
      "ks_run C F ops password s1 w1 = Some (password', s', w')" by (auto split: prod.splits sum.splits)
    from ks_NewAccount_stored [OF assms(2) Cons.prems(1) n(1)] Cons.IH [OF _ n(2)] NewSub show ?thesis by auto
  next
    case (NewPassword new)
    with Cons.prems(2) obtain s1 w1 where n: "ChangePassword C F password new s w = (None, s1, w1)"
      "ks_run C F ops new s1 w1 = Some (password', s', w')" by (auto split: prod.splits option.splits)
    from ChangePassword_stored [OF assms(1,2) Cons.prems(1) n(1)] Cons.IH [OF _ n(2)] NewPassword show ?thesis by auto
  qed
qed simp

text \<open>C38: A key store can be opened again: after it was created and any accounts and passwords were
  added and changed, all with private keys of 32 bytes, opening the file with the last password gives the key store as it was, with the
  main account and as many sub accounts as were made; a password with another hash is refused.\<close>

theorem keystore_reopens:
  assumes "crypto_ok C" and "keyfs_ok F" and "length iv = 16" and "length masterKey = 32" and "length priv = 32"
    and "CreateKeystore C F iv masterKey (priv, NewPubKey C priv) password w = (Inr s, w1)"
    and "ks_run C F ops password s w1 = Some (password', s', w')" and "ksOpen F w' = None"
  shows "OpenKeystore C F password' w' = Inr s' \<and> ksMasterKey s' = masterKey \<and>
    length (ksAccounts s') = 1 + length (filter (\<lambda>x. x = NewSub) ops) \<and>
    (\<forall>q. Sha256 C (ToAesKey C q) \<noteq> Sha256 C (ToAesKey C password') \<longrightarrow> OpenKeystore C F q w' = Inl (Failure ''password wrong''))"
proof -
  from CreateKeystore_stored [OF assms(1-6)] have c: "keystore_stored C F password s w1" "ksMasterKey s = masterKey"
    "length (ksAccounts s) = 1" by simp_all
  from ks_run_stored [OF assms(1,2) c(1) assms(7)] have r: "keystore_stored C F password' s' w'" "ksMasterKey s' = ksMasterKey s"
    "length (ksAccounts s') = length (ksAccounts s) + length (filter (\<lambda>x. x = NewSub) ops)" by auto
  show ?thesis
    using stored_open [OF r(1) assms(8)] stored_wrong_password [OF r(1) assms(8)] c(2,3) r(2,3) by simp
qed

text \<open>Nothing but the derivation of a key and the file makes these operations fail.\<close>

definition keys_derive :: "'k crypto \<Rightarrow> bool" where
  "keys_derive C \<longleftrightarrow> (\<forall>priv pub. \<exists>a. NewAccount C priv pub = Inr a) \<and>
     (\<forall>i masterKey priv. \<exists>p k. GenerateSubKeyPair C i masterKey priv = Inr (p, k))"

definition file_writes :: "('w, 'j) keyfs \<Rightarrow> bool" where
  "file_writes F \<longleftrightarrow> (\<forall>f w. \<exists>w'. SaveToFile F f w = (None, w'))"

lemma CreateKeystore_total:
  assumes "crypto_ok C" and "keys_derive C" and "file_writes F" and "length iv = 16" and "length masterKey = 32" and "length priv = 32"
    and "\<not> ksStat F w"
  shows "\<exists>s w'. CreateKeystore C F iv masterKey (priv, NewPubKey C priv) password w = (Inr s, w')"
proof -
  let ?k = "ToAesKey C password"
  let ?new = "SetPasswordHash C (Sha256 C ?k) (SetIV C iv (empty_keystore_file\<lparr>kfVersion := KeystoreVersion\<rparr>))"
  have iv: "GetIV C ?new = Inr iv" using assms(1) by (simp add: GetIV_def SetPasswordHash_def SetIV_def)
  have lk: "length ?k = 32" using assms(1) by simp
  obtain em where em: "encryptMasterKey C ?k masterKey ?new = Inr em"
    using master_key_roundtrip [OF assms(1) iv assms(4,5) lk] by metis
  let ?f1 = "SetMasterKeyEncrypted C em ?new"
  have iv1: "GetIV C ?f1 = Inr iv" using iv by (simp add: SetMasterKeyEncrypted_def)
  obtain ep where ep: "encryptPrivateKey C masterKey priv (NewPubKey C priv) ?f1 = Inr ep"
    using private_key_roundtrip [OF assms(1) iv1 assms(4,5,6), of "NewPubKey C priv"] by metis
  let ?f = "SetPrivateKeyEncrypted C ep ?f1"
  have "kfSubAccountsCount ?f = 0"
    by (simp add: SetPrivateKeyEncrypted_def SetMasterKeyEncrypted_def SetPasswordHash_def SetIV_def empty_keystore_file_def)
  moreover obtain a where "NewAccount C priv (NewPubKey C priv) = Inr a" using assms(2) unfolding keys_derive_def by blast
  ultimately obtain s where "initAccounts C masterKey priv (NewPubKey C priv) (new_keystore\<lparr>ksFile := ?f\<rparr>) = (None, s)"
    by (simp add: initAccounts_def sub_accounts_done)
  moreover obtain w' where "SaveToFile F ?f w = (None, w')" using assms(3) unfolding file_writes_def by blast
  ultimately show ?thesis using assms(7) em ep by (simp add: CreateKeystore_def CreateKeystoreFile_def Let_def)
qed

lemma ks_run_total:
  assumes "crypto_ok C" and "keys_derive C" and "keyfs_ok F" and "file_writes F" and "keystore_stored C F password s w"
  shows "\<exists>r. ks_run C F ops password s w = Some r"
  using assms(5)
proof (induction ops arbitrary: password s w)
  case (Cons op ops)
  from Cons.prems obtain iv priv where st: "decryptMasterKey C (ToAesKey C password) (ksFile s) = Inr (ksMasterKey s)"
    "length (ksMasterKey s) = 32" "GetIV C (ksFile s) = Inr iv" "length iv = 16" "length priv = 32"
    "decryptPrivateKey C (ksMasterKey s) (ksFile s) = Inr (priv, NewPubKey C priv)"
    "initAccounts C (ksMasterKey s) priv (NewPubKey C priv) (new_keystore\<lparr>ksFile := ksFile s\<rparr>) = (None, s)"
    unfolding keystore_stored_def by blast
  show ?case
  proof (cases op)
    case NewSub
    let ?f = "(ksFile s)\<lparr>kfSubAccountsCount := kfSubAccountsCount (ksFile s) + 1\<rparr>"
    obtain p k where g: "GenerateSubKeyPair C (kfSubAccountsCount (ksFile s) + 1) (ksMasterKey s) (acPrivateKey (ksAccounts s ! 0)) = Inr (p, k)"
      using assms(2) unfolding keys_derive_def by metis
    obtain a where a: "NewAccount C p k = Inr a" using assms(2) unfolding keys_derive_def by metis
    obtain w' where "SaveToFile F ?f w = (None, w')" using assms(4) unfolding file_writes_def by metis
    moreover obtain m subs where "ksAccounts s = m # subs" by (rule initAccounts_accounts [OF st(7)])
    ultimately obtain s' where n: "ks_NewAccount C F s w = (Inr a, s', w')" using g a by (simp add: ks_NewAccount_def Let_def)
    from ks_NewAccount_stored [OF assms(3) Cons.prems n] Cons.IH [of password s' w'] NewSub n show ?thesis by simp
  next
    case (NewPassword new)
    obtain f where f: "ChangePassword C F password new s w = (let (e, w') = SaveToFile F f w in (e, s\<lparr>ksFile := f\<rparr>, w'))"
      using ChangePassword_reencrypts [OF assms(1) st(3,4,1,2,6,5)] by metis
    obtain w' where "SaveToFile F f w = (None, w')" using assms(4) unfolding file_writes_def by metis
    with f have n: "ChangePassword C F password new s w = (None, s\<lparr>ksFile := f\<rparr>, w')" by simp
    from ChangePassword_stored [OF assms(1,3) Cons.prems n] Cons.IH [of new _ w'] NewPassword n show ?thesis by simp
  qed
qed simp

subsection \<open>The old password\<close>

text \<open>\<open>ChangePassword\<close> accepts any old password: with a wrong one it succeeds as well, and the master
  key and the private key in the file are from then on what the wrong key makes of them.\<close>

theorem ChangePassword_accepts_anything:
  assumes "crypto_ok C" and "keyfs_ok F" and "keystore_stored C F password s w"
    and "file_writes F"
    and "GetMasterKeyEncrypted C (ksFile s) = Inr enc" and "length enc = 32"
  shows "\<exists>masterKey s' w'. decryptMasterKey C (ToAesKey C wrong) (ksFile s) = Inr masterKey \<and>
    ChangePassword C F wrong new s w = (None, s', w') \<and> ksAccounts s' = ksAccounts s \<and>
    (ksOpen F w' = None \<longrightarrow> (\<forall>s2. OpenKeystore C F new w' = Inr s2 \<longrightarrow> ksMasterKey s2 = masterKey))"
proof -
  from assms(3) obtain iv p where st: "GetIV C (ksFile s) = Inr iv" "length iv = 16"
    "decryptPrivateKey C (ksMasterKey s) (ksFile s) = Inr p"
    unfolding keystore_stored_def by blast
  obtain masterKey where mk: "decryptMasterKey C (ToAesKey C wrong) (ksFile s) = Inr masterKey" "length masterKey = 32"
    using aes_decrypt [OF assms(1) _ _ st(2), of enc "ToAesKey C wrong"] assms(1,5,6) st(1)
    by (auto simp: decryptMasterKey_def rbind_def)
  obtain pe where pe: "GetPrivetKeyEncrypted C (ksFile s) = Inr pe" "length pe = 96"
    using st(3) by (auto simp: decryptPrivateKey_def rbind_def split: sum.splits if_splits)
  have "length pe mod 16 = 0" by (simp add: pe(2))
  then obtain kp where "AesDecrypt C pe masterKey iv = Inr kp" "length kp = length pe"
    by (rule aes_decrypt [OF assms(1) _ mk(2) st(2)])
  then have dp: "decryptPrivateKey C masterKey (ksFile s) = Inr (drop 64 kp, NewPubKey C (drop 64 kp))" "length (drop 64 kp) = 32"
    using pe st(1) by (simp_all add: decryptPrivateKey_def rbind_def Let_def)
  obtain f where f: "ChangePassword C F wrong new s w = (let (e, w') = SaveToFile F f w in (e, s\<lparr>ksFile := f\<rparr>, w'))"
    "decryptMasterKey C (ToAesKey C new) f = Inr masterKey"
    using ChangePassword_reencrypts [OF assms(1) st(1,2) mk dp] by metis
  obtain w' where w': "SaveToFile F f w = (None, w')" using assms(4) unfolding file_writes_def by blast
  have "ksMasterKey s2 = masterKey" if "ksOpen F w' = None" "OpenKeystore C F new w' = Inr s2" for s2
    using that OpenKeystoreFile_holds [OF SaveToFile_holds [OF assms(2) w'] that(1)] f(2)
    by (auto simp: OpenKeystore_def initKeystore_def initAccounts_def Let_def split: option.splits sum.splits prod.splits)
  with mk(1) f(1) w' show ?thesis by auto
qed

subsection \<open>Witnesses\<close>

text \<open>A cipher that adds the bytes of the key, a file system that is the file itself.\<close>

definition shift_bytes :: "(u8 \<Rightarrow> u8 \<Rightarrow> u8) \<Rightarrow> bytes \<Rightarrow> bytes \<Rightarrow> bytes" where
  "shift_bytes f k d = map (\<lambda>i. f (d ! i) (k ! (i mod 32))) [0..<length d]"

lemma shift_bytes: "length (shift_bytes f k d) = length d" "shift_bytes (-) k (shift_bytes (+) k d) = d"
  by (simp_all add: shift_bytes_def) (rule nth_equalityI, simp_all)

definition crypto0 :: "bytes crypto" where
  "crypto0 =
     \<lparr>ToAesKey = (\<lambda>p. take 32 (p @ replicate 32 0)), Sha256 = (\<lambda>b. b),
      AesEncrypt = (\<lambda>d k iv. Inr (shift_bytes (+) k d)), AesDecrypt = (\<lambda>d k iv. Inr (shift_bytes (-) k d)),
      GenerateSubKeyPair = (\<lambda>i m p. Inr (map (\<lambda>b. b + word_of_int i) p, map (\<lambda>b. b + word_of_int i) p)),
      NewPubKey = (\<lambda>p. p), EncodePoint = (\<lambda>k. Inr (take 65 (k @ replicate 65 0))),
      CreateStandardContract = (\<lambda>k. Inr (33 # k)), ToProgramHash = (\<lambda>c. word_of_nat (le_nat c)), ToAddress = (\<lambda>h. Inr []),
      CryptoSign = (\<lambda>k d. Inr (k @ d)), BytesToHexString = map (\<lambda>b. char_of (unat b)),
      HexStringToBytes = (\<lambda>s. Inr (map (\<lambda>c. word_of_nat (of_char c)) s))\<rparr>"

definition keyfs0 :: "(keystore_file option, keystore_file) keyfs" where
  "keyfs0 =
     \<lparr>ksStat = (\<lambda>w. w \<noteq> None), ksOpen = (\<lambda>w. None),
      ksReadAll = (\<lambda>w. case w of None \<Rightarrow> Inl (Failure ''EOF'') | Some f \<Rightarrow> Inr f),
      ksTruncate = (\<lambda>w. (None, Some empty_keystore_file)), ksWrite = (\<lambda>f w. (None, Some f)),
      ksMarshal = (\<lambda>f. Inr f), ksUnmarshal = (\<lambda>f. Inr f)\<rparr>"

lemma crypto0_ok: "crypto_ok crypto0" "keys_derive crypto0"
proof -
  have c: "word_of_nat (unat b mod 256) = b" for b :: u8
  proof -
    have "unat b < 2 ^ LENGTH(8)" by (rule unsigned_less)
    then show ?thesis by simp
  qed
  show "crypto_ok crypto0" by (auto simp: crypto_ok_def aes_ok_def crypto0_def shift_bytes comp_def c)
  show "keys_derive crypto0" by (simp add: keys_derive_def crypto0_def NewAccount_def)
qed

lemma keyfs0_ok: "keyfs_ok keyfs0" "file_writes keyfs0" "ksOpen keyfs0 w = None"
  by (auto simp: keyfs_ok_def file_writes_def keyfs0_def SaveToFile_def)

theorem keystore_reopens_witness:
  "\<exists>s w1 s' w'. CreateKeystore crypto0 keyfs0 (replicate 16 1) (replicate 32 2) (replicate 32 3, replicate 32 3) [4] None = (Inr s, w1) \<and>
    ks_run crypto0 keyfs0 [NewSub, NewPassword [5], NewSub] [4] s w1 = Some ([5], s', w') \<and>
    OpenKeystore crypto0 keyfs0 [5] w' = Inr s' \<and> length (ksAccounts s') = 3 \<and>
    OpenKeystore crypto0 keyfs0 [4] w' = Inl (Failure ''password wrong'')"
proof -
  let ?kp = "replicate 32 3 :: bytes"
  have k: "NewPubKey crypto0 ?kp = ?kp" by (simp add: crypto0_def)
  have l: "length (replicate 16 1 :: bytes) = 16" "length (replicate 32 2 :: bytes) = 32" "length ?kp = 32" by simp_all
  have n: "\<not> ksStat keyfs0 None" by (simp add: keyfs0_def)
  obtain s w1 where c: "CreateKeystore crypto0 keyfs0 (replicate 16 1) (replicate 32 2) (?kp, NewPubKey crypto0 ?kp) [4] None = (Inr s, w1)"
    using CreateKeystore_total [OF crypto0_ok keyfs0_ok(2) l n] by blast
  from CreateKeystore_stored [OF crypto0_ok(1) keyfs0_ok(1) l c] have "keystore_stored crypto0 keyfs0 [4] s w1" by simp
  from ks_run_total [OF crypto0_ok keyfs0_ok(1,2) this, of "[NewSub, NewPassword [5], NewSub]"] obtain p s' w' where
    r: "ks_run crypto0 keyfs0 [NewSub, NewPassword [5], NewSub] [4] s w1 = Some (p, s', w')" by auto
  moreover from r have p: "p = [5]" by (auto split: prod.splits sum.splits option.splits)
  moreover have "Sha256 crypto0 (ToAesKey crypto0 [4]) \<noteq> Sha256 crypto0 (ToAesKey crypto0 [5])" by (simp add: crypto0_def)
  ultimately show ?thesis
    using keystore_reopens [OF crypto0_ok(1) keyfs0_ok(1) l c r keyfs0_ok(3)] c [unfolded k] by fastforce
qed

theorem ChangePassword_accepts_anything_witness:
  "\<exists>s w s' w'. keystore_stored crypto0 keyfs0 [4] s w \<and> ChangePassword crypto0 keyfs0 [6] [5] s w = (None, s', w') \<and>
    (\<forall>s2. OpenKeystore crypto0 keyfs0 [5] w' = Inr s2 \<longrightarrow> ksMasterKey s2 \<noteq> ksMasterKey s)"
proof -
  let ?kp = "replicate 32 3 :: bytes"
  have k: "NewPubKey crypto0 ?kp = ?kp" by (simp add: crypto0_def)
  have l: "length (replicate 16 1 :: bytes) = 16" "length (replicate 32 2 :: bytes) = 32" "length ?kp = 32" by simp_all
  have n: "\<not> ksStat keyfs0 None" by (simp add: keyfs0_def)
  obtain s w where c: "CreateKeystore crypto0 keyfs0 (replicate 16 1) (replicate 32 2) (?kp, NewPubKey crypto0 ?kp) [4] None = (Inr s, w)"
    using CreateKeystore_total [OF crypto0_ok keyfs0_ok(2) l n] by blast
  from CreateKeystore_stored [OF crypto0_ok(1) keyfs0_ok(1) l c] have st: "keystore_stored crypto0 keyfs0 [4] s w" by simp
  then have d: "decryptMasterKey crypto0 (ToAesKey crypto0 [4]) (ksFile s) = Inr (ksMasterKey s)" "length (ksMasterKey s) = 32"
    by (simp_all add: keystore_stored_def)
  then obtain iv enc where e: "GetIV crypto0 (ksFile s) = Inr iv" "GetMasterKeyEncrypted crypto0 (ksFile s) = Inr enc"
    "shift_bytes (-) (ToAesKey crypto0 [4]) enc = ksMasterKey s"
    by (auto simp: decryptMasterKey_def crypto0_def rbind_def split: sum.splits)
  with d(2) have le: "length enc = 32" by (metis shift_bytes(1))
  obtain mk s' w' where m: "decryptMasterKey crypto0 (ToAesKey crypto0 [6]) (ksFile s) = Inr mk"
    "ChangePassword crypto0 keyfs0 [6] [5] s w = (None, s', w')"
    "\<forall>s2. OpenKeystore crypto0 keyfs0 [5] w' = Inr s2 \<longrightarrow> ksMasterKey s2 = mk"
    using ChangePassword_accepts_anything [OF crypto0_ok(1) keyfs0_ok(1) st keyfs0_ok(2) e(2) le, of "[6]" "[5]"] by (auto simp: keyfs0_ok(3))
  from m(1) e(1,2) have "mk = shift_bytes (-) (ToAesKey crypto0 [6]) enc"
    by (auto simp: decryptMasterKey_def crypto0_def rbind_def)
  then have "mk ! 0 = enc ! 0 - 6" "ksMasterKey s ! 0 = enc ! 0 - 4"
    using le by (simp_all add: e(3) [symmetric] shift_bytes_def crypto0_def)
  then have "mk \<noteq> ksMasterKey s" by auto
  with st m(2,3) show ?thesis by blast
qed

end
