(* ===== verification/WalletCmdFacts.thy ===== *)
theory WalletCmdFacts
  imports WalletCmd KeystoreRuns
begin

text \<open>
  What the commands of the wallet achieve together with the SPV wallet that runs on the same tables:
  a transaction that is sent arrives, a new account is watched; and what a multi-sign account is.
\<close>

subsection \<open>Sending a transaction\<close>

lemma hex_digit_char: "n < 16 \<Longrightarrow> hex_digit (hex_char n) = Some (word_of_nat n)"
  by (auto simp: hex_digit_def hex_char_def Let_def)

lemma nibbles: "16 * word_of_nat (unat w div 16) + word_of_nat (unat w mod 16) = (w :: u8)"
proof -
  have "(word_of_nat (16 * a + b) :: u8) = 16 * word_of_nat a + word_of_nat b" for a b by simp
  from this [of "unat w div 16" "unat w mod 16"] show ?thesis unfolding mult_div_mod_eq by simp
qed

lemma hex_roundtrip: "hex_decode (hex_encode b) = Some b"
proof (induction b)
  case (Cons w b)
  have "unat w < 2 ^ LENGTH(8)" by (rule unsigned_less)
  then have "unat w div 16 < 16" by simp
  then have "hex_digit (hex_char (unat w div 16)) = Some (word_of_nat (unat w div 16))" by (rule hex_digit_char)
  moreover have "hex_digit (hex_char (unat w mod 16)) = Some (word_of_nat (unat w mod 16))" by (rule hex_digit_char) simp
  moreover have "hex_encode (w # b) = hex_char (unat w div 16) # hex_char (unat w mod 16) # hex_encode b"
    by (simp add: hex_encode_def)
  ultimately show ?case using Cons nibbles [of w] by simp
qed (simp add: hex_encode_def)

text \<open>A transaction the client sends by RPC is, unless it has no bytes the main chain knows, the transaction
  the SPV wallet hands to its service, and the client gets the service's answer.\<close>

theorem sent_transaction_arrives:
  assumes "codec_ok E" and "GetTransactionOk E (wTx E tx)"
  shows "Wallet_SendTransaction (\<lambda>t. Inr (wTx E t)) (\<lambda>method dat. rpc_sendTransaction E send (Some dat)) tx = send tx"
proof -
  have "rTx E (wTx E tx @ []) = Inr (tx, [])" using assms(1) by (simp only: codec_simps)
  then show ?thesis using assms(2) by (simp add: Wallet_SendTransaction_def rpc_sendTransaction_def hex_roundtrip)
qed

subsection \<open>A new account\<close>

lemma NewSubAccount_stored:
  assumes "wdata_holds E W (sqHolds Q (clDb c)) w" and "sqlite_ok Q" and "NewSubAccount C F Q HashString password c = (Inr h, c')"
  obtains code where "wdata_holds E W (sqHolds Q (clDb c')) (w\<lparr>wdAddrs := (wdAddrs w)(h \<mapsto> NewAddr h code TypeSub)\<rparr>)"
    and "clCalls c' = clCalls c @ [(''notifynewaddress'', HashString h)]"
proof -
  obtain s s1 a w1 where ok: "OpenKeystore C F password (clFile c) = Inr s" "ks_NewAccount C F s (clFile c) = (Inr a, s1, w1)"
    using assms(3) by (auto simp: NewSubAccount_def split: sum.splits prod.splits)
  with assms(3) obtain d where a: "acProgramHash a = h" "cl_AddAddress Q h (acRedeemScript a) TypeSub (clDb c) = (None, d)"
    "clDb c' = d" "clCalls c' = clCalls c @ [(''notifynewaddress'', HashString h)]"
    by (auto simp: NewSubAccount_def Let_def split: prod.splits option.splits)
  then have "sqExec Q [addr_stmt h (acRedeemScript a) TypeSub] (clDb c) = (None, d)" by (simp add: cl_AddAddress_def wa_Put_def)
  from wdata_addr [OF assms(1) sqlite_exec [OF assms(2) this]] a that show thesis
    by (simp add: addr_ok_def NewAddr_def TypeSub_def)
qed

text \<open>C40: After a sub account was made, the SPV wallet that gets the call the client makes has the new address
  in its filter, if the text of the hash it is called with is an address; if it is not, the call fails and the
  filter is left as it was.\<close>

theorem new_account_is_watched:
  assumes "wallet_env E W Q (clDb c) w" and "NewSubAccount C F Q HashString password c = (Inr h, c')"
    and "sql_reads Q (clDb c')" and "wlDb s = clDb c'"
  shows "last (clCalls c') = (''notifynewaddress'', HashString h) \<and>
    (case Uint168FromAddress E (HashString h) of
       Inl e \<Rightarrow> notifyNewAddress E Q (Some (HashString h)) s = (Some e, s)
     | Inr a \<Rightarrow> \<exists>s'. notifyNewAddress E Q (Some (HashString h)) s = (None, s') \<and> wlUpdates s' = wlUpdates s + 1 \<and>
         set (fst (getAddrFilter E Q s')) = insert h (dom (wdAddrs w)))"
proof -
  have env: "codec_ok E" "wcodec_ok W" "sqlite_ok Q" "sql_writes Q" "wdata_holds E W (sqHolds Q (clDb c)) w"
    using assms(1) by (simp_all add: wallet_env_def)
  let ?w = "\<lambda>code. w\<lparr>wdAddrs := (wdAddrs w)(h \<mapsto> NewAddr h code TypeSub)\<rparr>"
  obtain a where a: "wdata_holds E W (sqHolds Q (clDb c')) (?w a)" "clCalls c' = clCalls c @ [(''notifynewaddress'', HashString h)]"
    using NewSubAccount_stored [OF env(5,3) assms(2)] by metis
  have e: "wallet_env E W Q (wlDb (s\<lparr>wlFilter := None\<rparr>)) (?w a)" using env a(1) assms(3,4) by (simp add: wallet_env_def)
  have "loadAddrFilter E Q (s\<lparr>wlFilter := None\<rparr>) = loadAddrFilter E Q s" by (simp add: loadAddrFilter_def)
  then have l: "set (fst (loadAddrFilter E Q s)) = insert h (dom (wdAddrs w))"
    using getAddrFilter_loaded [OF e] by (simp add: getAddrFilter_def)
  have "fst (getAddrFilter E Q (wl_UpdateFilter (snd (loadAddrFilter E Q s)))) = fst (loadAddrFilter E Q s)"
    by (simp add: getAddrFilter_def loadAddrFilter_def wl_UpdateFilter_def Let_def split: prod.splits)
  moreover have "wlUpdates (wl_UpdateFilter (snd (loadAddrFilter E Q s))) = wlUpdates s + 1"
    by (simp add: loadAddrFilter_def wl_UpdateFilter_def Let_def split: prod.splits)
  ultimately show ?thesis using a(2) l by (simp add: notifyNewAddress_def split: sum.split)
qed

subsection \<open>Multi-sign accounts\<close>

text \<open>Unless the contract or the database fails, a multi-sign account is made exactly for at least three keys
  and a number of signatures that is no more than the keys and more than half of them, so that any two groups of
  signers share a key; without a number it is the smallest such number.\<close>

theorem multi_sign_majority:
  assumes "getPublicKeys decode file content = Inr keys"
    and "\<And>m. \<exists>code h d. multi m keys = Inr (code, h) \<and> cl_AddAddress Q h code TypeMulti (clDb c) = (None, d)"
  shows "((\<exists>h c'. addMultiSignAccount decode file multi Q HashString m content c = (Inr h, c')) \<longleftrightarrow>
      3 \<le> length keys \<and> (m = 0 \<or> int (length keys) < 2 * m \<and> m \<le> int (length keys))) \<and>
    addMultiSignAccount decode file multi Q HashString 0 content c =
      addMultiSignAccount decode file multi Q HashString (int (length keys div 2 + 1)) content c"
proof
  have ok: "\<exists>h c'. AddMultiSignAccount multi Q HashString n keys c = (Inr h, c')" for n
    using assms(2) [of n] by (auto simp: AddMultiSignAccount_def)
  have half: "m < int (length keys div 2 + 1) \<longleftrightarrow> \<not> int (length keys) < 2 * m" by linarith
  show "(\<exists>h c'. addMultiSignAccount decode file multi Q HashString m content c = (Inr h, c')) \<longleftrightarrow>
      3 \<le> length keys \<and> (m = 0 \<or> int (length keys) < 2 * m \<and> m \<le> int (length keys))"
    using ok [of m] ok [of "int (length keys div 2 + 1)"] half
    by (cases "m = 0") (simp_all add: addMultiSignAccount_def assms(1) MinMultiSignKeys_def Let_def, linarith, auto)
  show "addMultiSignAccount decode file multi Q HashString 0 content c =
      addMultiSignAccount decode file multi Q HashString (int (length keys div 2 + 1)) content c"
    by (simp add: addMultiSignAccount_def assms(1) Let_def)
qed

subsection \<open>Witnesses\<close>

theorem sent_transaction_arrives_witness:
  "Wallet_SendTransaction (\<lambda>t. Inr (wTx codec0 t)) (\<lambda>method dat. rpc_sendTransaction codec0 (\<lambda>tx. if txHash tx = 1 then None else Some NotFound) (Some dat))
     sample_pay = None"
proof -
  have "GetTransactionOk codec0 (wTx codec0 sample_pay)" by (simp add: codec0_def)
  from sent_transaction_arrives [OF codec0_ok this, of "\<lambda>tx. if txHash tx = 1 then None else Some NotFound"] show ?thesis
    by (simp add: sample_pay_def)
qed

text \<open>The tables of the sample wallet take any address.\<close>

lemma sample_add_address:
  assumes "code \<noteq> []"
  obtains d where "cl_AddAddress sqlite0 h code addrType (wlDb sample_wallet) = (None, d)"
proof -
  have "addr_table.holds (wlDb sample_wallet) (wdAddrs sample_wdata)"
    using sample_env by (simp add: wallet_env_def wdata_holds_def)
  from addr_table.insert_runs [OF this, of "NewAddr h code addrType" h]
  have "run_stmts [addr_stmt h code addrType] (wlDb sample_wallet) \<noteq> None"
    using assms by (auto simp: addr_stmt_row addr_vals_def NewAddr_def blob_val_def)
  then obtain T where "run_stmts [addr_stmt h code addrType] (wlDb sample_wallet) = Some T" by blast
  then have "cl_AddAddress sqlite0 h code addrType (wlDb sample_wallet) = (None, T)"
    by (simp add: cl_AddAddress_def wa_Put_def sqlite0_def)
  then show thesis by (rule that)
qed

theorem multi_sign_majority_witness:
  "(\<exists>h c'. addMultiSignAccount Inr (\<lambda>_. None) (\<lambda>m ks. Inr ([1], 9)) sqlite0 (\<lambda>h. []) 2 ''a,b,c''
      \<lparr>clDb = wlDb sample_wallet, clFile = (), clKeystore = None :: bytes keystore option, clCalls = []\<rparr> = (Inr h, c')) \<and>
   \<not> (\<exists>h c'. addMultiSignAccount Inr (\<lambda>_. None) (\<lambda>m ks. Inr ([1], 9)) sqlite0 (\<lambda>h. []) 1 ''a,b,c''
      \<lparr>clDb = wlDb sample_wallet, clFile = (), clKeystore = None :: bytes keystore option, clCalls = []\<rparr> = (Inr h, c'))"
proof -
  have k: "getPublicKeys Inr (\<lambda>_. None) ''a,b,c'' = Inr [''a'', ''b'', ''c'']"
    by (simp add: getPublicKeys_def TrimSpace_def is_space_def rbind_def)
  obtain d where "cl_AddAddress sqlite0 9 [1] TypeMulti (wlDb sample_wallet) = (None, d)"
    using sample_add_address [of "[1]" 9 TypeMulti] by auto
  then show ?thesis
    using multi_sign_majority [OF k, where multi = "\<lambda>m ks. Inr ([1], 9)" and Q = sqlite0 and HashString = "\<lambda>h. []"
        and c = "\<lparr>clDb = wlDb sample_wallet, clFile = (), clKeystore = None :: bytes keystore option, clCalls = []\<rparr>"]
    by simp
qed

theorem new_account_is_watched_witness:
  "\<exists>c c' h s s'. NewSubAccount crypto0 keyfs0 sqlite0 (\<lambda>_. sample_address) [4] c = (Inr h, c') \<and> wlDb (s :: tables wallet) = clDb c' \<and>
    notifyNewAddress codec0 sqlite0 (Some sample_address) s = (None, s') \<and> set (fst (getAddrFilter codec0 sqlite0 s')) = {h, 7}"
proof -
  let ?kp = "replicate 32 3 :: bytes"
  have l: "length (replicate 16 1 :: bytes) = 16" "length (replicate 32 2 :: bytes) = 32" "length ?kp = 32" by simp_all
  have n: "\<not> ksStat keyfs0 None" by (simp add: keyfs0_def)
  obtain ks w where k: "CreateKeystore crypto0 keyfs0 (replicate 16 1) (replicate 32 2) (?kp, NewPubKey crypto0 ?kp) [4] None = (Inr ks, w)"
    using CreateKeystore_total [OF crypto0_ok keyfs0_ok(2) l n] by blast
  from CreateKeystore_stored [OF crypto0_ok(1) keyfs0_ok(1) l k] have st: "keystore_stored crypto0 keyfs0 [4] ks w" by simp
  from ks_run_total [OF crypto0_ok keyfs0_ok(1,2) st, of "[NewSub]"] obtain a ks' w' where
    a: "ks_NewAccount crypto0 keyfs0 ks w = (Inr a, ks', w')" by (auto split: prod.splits sum.splits)
  from a have "acRedeemScript a \<noteq> []"
    by (auto simp: ks_NewAccount_def crypto0_def NewAccount_def Let_def split: if_splits prod.splits option.splits)
  then obtain d where d: "cl_AddAddress sqlite0 (acProgramHash a) (acRedeemScript a) TypeSub (wlDb sample_wallet) = (None, d)"
    by (rule sample_add_address)
  let ?c = "\<lparr>clDb = wlDb sample_wallet, clFile = w, clKeystore = None, clCalls = []\<rparr>"
  obtain c' where c': "NewSubAccount crypto0 keyfs0 sqlite0 (\<lambda>_. sample_address) [4] ?c = (Inr (acProgramHash a), c')"
    using stored_open [OF st keyfs0_ok(3)] a d by (simp add: NewSubAccount_def)
  have e: "wallet_env codec0 wcodec0 sqlite0 (clDb ?c) sample_wdata" using sample_env by simp
  let ?s = "\<lparr>wlDb = clDb c', wlFilter = None, wlUpdates = 0\<rparr>"
  from new_account_is_watched [OF e c' sqlite0_reads, of ?s] obtain s' where
    "notifyNewAddress codec0 sqlite0 (Some sample_address) ?s = (None, s')"
    "set (fst (getAddrFilter codec0 sqlite0 s')) = insert (acProgramHash a) {7}" by auto
  with c' show ?thesis
    by (intro exI [of _ ?c] exI [of _ c'] exI [of _ "acProgramHash a"] exI [of _ ?s] exI [of _ s']) simp
qed

text \<open>Keys that differ in the spaces around them are not noticed as duplicates.\<close>

lemma duplicate_keys_accepted: "getPublicKeys Inr (\<lambda>_. None) ''a,a ,b'' = Inr [''a'', ''a'', ''b'']"
  by (simp add: getPublicKeys_def TrimSpace_def is_space_def rbind_def)

text \<open>Signing again with the same key store adds the signature of the same key.\<close>

lemma sign_again_same_key:
  assumes "sgPrograms tx = (code, param) # programs" and "signMultiSigTransaction C S keyStore tx = Inr tx1"
    and "signMultiSigTransaction C S keyStore tx1 = Inr tx2"
  obtains i sig param1 param2 where "sgPrograms tx2 = (code, param2) # programs"
    and "AppendSignature S i sig (SerializeUnsigned S (sgBody tx)) code param = Inr param1"
    and "AppendSignature S i sig (SerializeUnsigned S (sgBody tx)) code param1 = Inr param2"
proof -
  obtain keys i a sig param1 where k: "ParseMultisigScript S code = Inr keys" "find_signer S keyStore 0 keys = Some (i, a)"
    "Account_Sign C (SerializeUnsigned S (sgBody tx)) a = Inr sig"
    "AppendSignature S i sig (SerializeUnsigned S (sgBody tx)) code param = Inr param1" "tx1 = tx\<lparr>sgPrograms := (code, param1) # programs\<rparr>"
    using assms(1,2) by (auto simp: signMultiSigTransaction_def Let_def split: sum.splits option.splits prod.splits)
  with assms(3) obtain param2 where "AppendSignature S i sig (SerializeUnsigned S (sgBody tx)) code param1 = Inr param2"
    "sgPrograms tx2 = (code, param2) # programs"
    by (auto simp: signMultiSigTransaction_def Let_def split: sum.splits)
  with k(4) show thesis using that by blast
qed

end
