(* ===== verification/WalletActions.thy ===== *)
theory WalletActions
  imports WalletCmdFacts
begin

text \<open>
  What a command of the wallet does as a whole (\<open>transaction/transaction.go\<close>, \<open>account/account.go\<close>,
  \<open>wallet/wallet.go\<close>, \<open>client/common.go\<close>): its flags in the order the code looks at them, the files it reads
  and writes, what it shows and its exit status. A transaction goes from the command that creates it through
  those that sign it to the one that sends it in such files; theorem \<open>signed_files_are_sent\<close> says it arrives.
\<close>

subsection \<open>Files and the console\<close>

text \<open>Files by name, with the faults of opening, reading and writing them: a read or a write may stop after some bytes.\<close>

record terminal =
  tmFiles :: "string \<rightharpoonup> string"
  tmOpen :: "string \<Rightarrow> goerror option"
  tmRead :: "string \<Rightarrow> (nat \<times> goerror) option"
  tmWrite :: "string \<Rightarrow> (nat \<times> goerror) option"
  tmPrinted :: "string list"

definition print_line :: "string \<Rightarrow> terminal \<Rightarrow> terminal" where
  "print_line s tm = tm\<lparr>tmPrinted := tmPrinted tm @ [s]\<rparr>"

text \<open>\<open>os.Stat\<close>, \<open>os.OpenFile\<close> and \<open>ioutil.ReadAll\<close>.\<close>

definition read_file :: "terminal \<Rightarrow> string \<Rightarrow> (goerror + string) option" where
  "read_file tm name =
     map_option (\<lambda>s. case tmOpen tm name of
         Some e \<Rightarrow> Inl e
       | None \<Rightarrow> (case tmRead tm name of Some (n, e) \<Rightarrow> Inl e | None \<Rightarrow> Inr s)) (tmFiles tm name)"

text \<open>The lines a \<open>bufio.Scanner\<close> gives: it ends, without a word, at a line that does not fit its buffer and at an
  error of the reader, after the bytes that were read.\<close>

definition MaxScanTokenSize :: nat where "MaxScanTokenSize = 65536"

definition drop_cr :: "string \<Rightarrow> string" where
  "drop_cr l = (if l \<noteq> [] \<and> last l = CHR 0x0D then butlast l else l)"

definition scan_lines :: "string \<Rightarrow> string list" where
  "scan_lines s =
     (let ls = split_char (CHR 0x0A) s
      in map drop_cr (takeWhile (\<lambda>l. length l < MaxScanTokenSize) (if last ls = [] then butlast ls else ls)))"

definition read_lines :: "terminal \<Rightarrow> string \<Rightarrow> (goerror + string list) option" where
  "read_lines tm name =
     map_option (\<lambda>s. case tmOpen tm name of
         Some e \<Rightarrow> Inl e
       | None \<Rightarrow> Inr (scan_lines (case tmRead tm name of Some (n, e) \<Rightarrow> take n s | None \<Rightarrow> s))) (tmFiles tm name)"

text \<open>\<open>os.OpenFile\<close> with \<open>O_CREATE\<close> and \<open>O_TRUNC\<close>, and \<open>Write\<close>.\<close>

definition write_file :: "string \<Rightarrow> string \<Rightarrow> terminal \<Rightarrow> goerror option \<times> terminal" where
  "write_file name content tm =
     (case tmOpen tm name of
        Some e \<Rightarrow> (Some e, tm)
      | None \<Rightarrow>
          (case tmWrite tm name of
             Some (n, e) \<Rightarrow> (Some e, tm\<lparr>tmFiles := (tmFiles tm)(name \<mapsto> take n content)\<rparr>)
           | None \<Rightarrow> (None, tm\<lparr>tmFiles := (tmFiles tm)(name \<mapsto> content)\<rparr>)))"

subsection \<open>transaction/transaction.go\<close>

text \<open>What a command of the client works with: the packages of Elastos.ELA, the stores, and what is typed.
  \<open>'t\<close> is a transaction without its programs, \<open>teBody\<close> the one made of nonce, inputs, outputs and lock time.
  \<open>teSerialize\<close> gives what \<open>Serialize\<close> leaves in the buffer and \<open>teEncode\<close> its result, \<open>teDeserialize\<close> is
  \<open>GetTransactionByBytes\<close> followed by \<open>Deserialize\<close>, \<open>teLines\<close> the lines typed at the prompt for an account.\<close>

record ('d, 'x, 'w, 'j, 'k, 't) txenv =
  teCrypto :: "'k crypto"
  teKeyfs :: "('w, 'j) keyfs"
  teSqlite :: "('d, 'x) sqlite"
  teCodec :: codec
  teWcodec :: wcodec
  teScripts :: "'t scripts"
  teBody :: "wtx \<Rightarrow> 't"
  teSerialize :: "'t signable \<Rightarrow> bytes"
  teEncode :: "'t signable \<Rightarrow> goerror + bytes"
  teDeserialize :: "bytes \<Rightarrow> goerror + 't signable"
  teHash :: "'t signable \<Rightarrow> bytes"
  teFixed :: "string \<Rightarrow> goerror + u64"
  teAsset :: uint256
  teAddress :: "uint168 \<Rightarrow> string"
  teTyped :: "goerror + bytes"
  teLines :: "int option list"
  teNonce :: bytes
  teCall :: "string \<Rightarrow> string \<Rightarrow> goerror option"

definition signable_of :: "(wtx \<Rightarrow> 't) \<Rightarrow> wtx \<Rightarrow> 't signable" where
  "signable_of body x = \<lparr>sgBody = body x, sgPrograms = [(wxCode x, wxParam x)]\<rparr>"

text \<open>\<open>createTransaction\<close> on the wallet's tables. The account is asked for only if the fee is a number and no
  spender is named; without an answer there is no result.\<close>

definition create_tx ::
  "('d, 'x, 'w, 'j, 'k, 't) txenv \<Rightarrow> tx_flags \<Rightarrow> terminal \<Rightarrow> 'd \<Rightarrow> (goerror + 't signable) option" where
  "create_tx Z f tm d =
     (let create = (\<lambda>from fee lock ts. createTransaction (teCodec Z) (teWcodec Z) (teSqlite Z) (teAsset Z) (teNonce Z) from fee lock ts d);
          asks = fgFee f \<noteq> [] \<and> \<not> isl (teFixed Z (fgFee f)) \<and> fgFrom f = [];
          select = (if asks then map_option (\<lambda>r. rbind r (\<lambda>a. Inr (teAddress Z a)))
                                   (SelectAccount (teCodec Z) (teWcodec Z) (teSqlite Z) (teLines Z) d)
                    else Some (Inr (fgFrom f)))
      in map_option (\<lambda>from. rbind (cmd_createTransaction (teFixed Z) (read_lines tm) from create f)
           (\<lambda>x. Inr (signable_of (teBody Z) x))) select)"

text \<open>\<open>output\<close>: an error of \<open>GetSignStatus\<close> and of \<open>Serialize\<close> is not looked at. Of the last line that is printed,
  which says how many have signed and names the file, only the name of the file is kept.\<close>

definition cmd_output ::
  "('d, 'x, 'w, 'j, 'k, 't) txenv \<Rightarrow> 't signable \<Rightarrow> terminal \<Rightarrow> goerror option \<times> terminal" where
  "cmd_output Z tx tm =
     (let content = BytesToHexString (teCrypto Z) (teSerialize Z tx);
          tm = print_line content tm
      in case sgPrograms tx of
           [] \<Rightarrow> (Some (Panic ''index out of range''), tm)
         | (code, param) # programs \<Rightarrow>
             (case GetSignStatus (teScripts Z) code param of (haveSign, needSign, e) \<Rightarrow>
                let fileName = output_file haveSign needSign
                in case write_file fileName content tm of
                     (Some e, tm) \<Rightarrow> (Some e, tm)
                   | (None, tm) \<Rightarrow> (None, print_line fileName tm)))"

definition cmd_CreateTransaction ::
  "('d, 'x, 'w, 'j, 'k, 't) txenv \<Rightarrow> tx_flags \<Rightarrow> 'd \<Rightarrow> terminal \<Rightarrow> (goerror option \<times> terminal) option" where
  "cmd_CreateTransaction Z f d tm =
     map_option (\<lambda>r. case r of Inl e \<Rightarrow> (Some e, tm) | Inr txn \<Rightarrow> cmd_output Z txn tm) (create_tx Z f tm d)"

definition cmd_SignTransaction ::
  "('d, 'x, 'w, 'j, 'k, 't) txenv \<Rightarrow> bytes \<Rightarrow> tx_flags \<Rightarrow> 'w \<Rightarrow> terminal \<Rightarrow> goerror option \<times> terminal" where
  "cmd_SignTransaction Z password f w tm =
     (case getTransaction (HexStringToBytes (teCrypto Z)) (teDeserialize Z) (read_file tm) f of
        Inl e \<Rightarrow> (Some e, tm)
      | Inr txn \<Rightarrow>
          (case cmd_signTransaction (teCrypto Z) (teKeyfs Z) (teScripts Z) password (teTyped Z) txn w of
             Inl e \<Rightarrow> (Some e, tm)
           | Inr txn \<Rightarrow> cmd_output Z txn tm))"

text \<open>The call is made once the transaction is encoded, and the hash printed if it was accepted.\<close>

definition cmd_SendTransaction ::
  "('d, 'x, 'w, 'j, 'k, 't) txenv \<Rightarrow> bytes \<Rightarrow> tx_flags \<Rightarrow> ('d, 'w, 'k) cli \<Rightarrow> terminal \<Rightarrow>
   (goerror option \<times> ('d, 'w, 'k) cli \<times> terminal) option" where
  "cmd_SendTransaction Z password f c tm =
     (let sign = (\<lambda>tx. cmd_signTransaction (teCrypto Z) (teKeyfs Z) (teScripts Z) password (teTyped Z) tx (clFile c));
          created = (if isl (getContent (read_file tm) f) then create_tx Z f tm (clDb c) else Some (Inl (Panic [])))
      in map_option (\<lambda>new.
           case tx_to_send (HexStringToBytes (teCrypto Z)) (teDeserialize Z) (read_file tm) (\<lambda>_. new) sign f of
             Inl e \<Rightarrow> (Some e, c, tm)
           | Inr tx \<Rightarrow>
               (let c = (case teEncode Z tx of
                           Inl e \<Rightarrow> c
                         | Inr b \<Rightarrow> c\<lparr>clCalls := clCalls c @ [(''sendrawtransaction'', hex_encode b)]\<rparr>)
                in case Wallet_SendTransaction (teEncode Z) (teCall Z) tx of
                     Some e \<Rightarrow> (Some e, c, tm)
                   | None \<Rightarrow> (None, c, print_line (BytesToHexString (teCrypto Z) (teHash Z tx)) tm))) created)"

text \<open>How a command ends: it returns, exits with a status, panics, or waits for input that does not come.\<close>

datatype outcome = Returns | Exits nat | Panics string | Waits

definition failed :: "nat \<Rightarrow> goerror \<Rightarrow> outcome" where
  "failed status e = (case e of Panic p \<Rightarrow> Panics p | _ \<Rightarrow> Exits status)"

text \<open>One of the three flags, then the rest.\<close>

definition tx_step ::
  "bool \<Rightarrow> nat \<Rightarrow> (('d, 'w, 'k) cli \<Rightarrow> terminal \<Rightarrow> (goerror option \<times> ('d, 'w, 'k) cli \<times> terminal) option) \<Rightarrow>
   (('d, 'w, 'k) cli \<Rightarrow> terminal \<Rightarrow> outcome \<times> ('d, 'w, 'k) cli \<times> terminal) \<Rightarrow>
   ('d, 'w, 'k) cli \<Rightarrow> terminal \<Rightarrow> outcome \<times> ('d, 'w, 'k) cli \<times> terminal" where
  "tx_step flag status act rest c tm =
     (if \<not> flag then rest c tm
      else case act c tm of
        None \<Rightarrow> (Waits, c, tm)
      | Some (Some e, c, tm) \<Rightarrow> (failed status e, c, tm)
      | Some (None, c, tm) \<Rightarrow> rest c tm)"

definition transactionAction ::
  "('d, 'x, 'w, 'j, 'k, 't) txenv \<Rightarrow> nat \<Rightarrow> bytes \<Rightarrow> bool \<Rightarrow> bool \<Rightarrow> bool \<Rightarrow> tx_flags \<Rightarrow> ('d, 'w, 'k) cli \<Rightarrow> terminal \<Rightarrow>
   outcome \<times> ('d, 'w, 'k) cli \<times> terminal" where
  "transactionAction Z numFlags pass create sign send f c tm =
     (if numFlags = 0 then (Exits 0, c, tm)
      else case Wallet_Open (teSqlite Z) c of
        (Some e, c) \<Rightarrow> (failed 2 e, c, tm)
      | (None, c) \<Rightarrow>
          tx_step create 701 (\<lambda>c tm. map_option (\<lambda>(e, tm). (e, c, tm)) (cmd_CreateTransaction Z f (clDb c) tm))
            (tx_step sign 702 (\<lambda>c tm. Some (case cmd_SignTransaction Z pass f (clFile c) tm of (e, tm) \<Rightarrow> (e, c, tm)))
              (tx_step send 703 (cmd_SendTransaction Z pass f) (\<lambda>c tm. (Returns, c, tm)))) c tm)"

subsection \<open>account/account.go, client/common.go and wallet/wallet.go\<close>

text \<open>What is shown: the accounts of the key store with number, address, public key and type, or the balances.\<close>

datatype shown = Nothing | AccountInfo "(nat \<times> string \<times> string \<times> string) list" | Balances "(uint168 \<times> u64 \<times> u64 \<times> string) list"

text \<open>An error of \<open>EncodePoint\<close> leaves no bytes.\<close>

definition account_row :: "'k crypto \<Rightarrow> nat \<Rightarrow> 'k account \<Rightarrow> nat \<times> string \<times> string \<times> string" where
  "account_row C i a =
     (i + 1, acAddress a, BytesToHexString C (case EncodePoint C (acPublicKey a) of Inl e \<Rightarrow> [] | Inr b \<Rightarrow> b),
      if i = 0 then ''MASTER'' else ''SUB'')"

definition ShowAccountInfo ::
  "'k crypto \<Rightarrow> ('w, 'j) keyfs \<Rightarrow> goerror + bytes \<Rightarrow> bytes \<Rightarrow> 'w \<Rightarrow> goerror + (nat \<times> string \<times> string \<times> string) list" where
  "ShowAccountInfo C F typed password w =
     rbind (GetPassword password False typed (Inr [])) (\<lambda>password.
     rbind (OpenKeystore C F password w) (\<lambda>keyStore.
       Inr (map (\<lambda>i. account_row C i (ksAccounts keyStore ! i)) [0..<length (ksAccounts keyStore)])))"

definition listBalanceInfo ::
  "codec \<Rightarrow> wcodec \<Rightarrow> ('d, 'x) sqlite \<Rightarrow> 'd \<Rightarrow> goerror + (uint168 \<times> u64 \<times> u64 \<times> string) list" where
  "listBalanceInfo E W Q d =
     (case cl_GetAddrs E Q d of
        (addrs, Some e) \<Rightarrow> Inl (Failure ''get wallet addresses failed'')
      | (addrs, None) \<Rightarrow> ShowAccounts E W Q addrs d)"

definition newSubAccount ::
  "('d, 'x, 'w, 'j, 'k, 't) txenv \<Rightarrow> (uint168 \<Rightarrow> string) \<Rightarrow> bytes \<Rightarrow> ('d, 'w, 'k) cli \<Rightarrow>
   (goerror + (uint168 \<times> u64 \<times> u64 \<times> string) list) \<times> ('d, 'w, 'k) cli" where
  "newSubAccount Z HashString password c =
     (case GetPassword password False (teTyped Z) (Inr []) of
        Inl e \<Rightarrow> (Inl e, c)
      | Inr password \<Rightarrow>
          (case NewSubAccount (teCrypto Z) (teKeyfs Z) (teSqlite Z) HashString password c of
             (Inl e, c) \<Rightarrow> (Inl e, c)
           | (Inr programHash, c) \<Rightarrow> (listBalanceInfo (teCodec Z) (teWcodec Z) (teSqlite Z) (clDb c), c)))"

text \<open>The flags of the command; \<open>decode\<close> and \<open>multi\<close> are as for \<open>addMultiSignAccount\<close>, whose last lines show the
  balances.\<close>

record acc_flags =
  afNum :: nat
  afPassword :: bytes
  afList :: bool
  afNew :: bool
  afMulti :: string
  afM :: int
  afBalance :: bool

definition accountAction ::
  "('d, 'x, 'w, 'j, 'k, 't) txenv \<Rightarrow> (string \<Rightarrow> goerror + 'p) \<Rightarrow> (int \<Rightarrow> 'p list \<Rightarrow> goerror + bytes \<times> uint168) \<Rightarrow>
   (uint168 \<Rightarrow> string) \<Rightarrow> terminal \<Rightarrow> acc_flags \<Rightarrow> ('d, 'w, 'k) cli \<Rightarrow> outcome \<times> shown \<times> ('d, 'w, 'k) cli" where
  "accountAction Z decode multi HashString tm f c =
     (if afNum f = 0 then (Exits 0, Nothing, c)
      else case Wallet_Open (teSqlite Z) c of
        (Some e, c) \<Rightarrow> (failed 2 e, Nothing, c)
      | (None, c) \<Rightarrow>
          let balances = (\<lambda>status r c. case r of Inl e \<Rightarrow> (failed status e, Nothing, c) | Inr rows \<Rightarrow> (Returns, Balances rows, c)) in
          if afList f then
            (case ShowAccountInfo (teCrypto Z) (teKeyfs Z) (teTyped Z) (afPassword f) (clFile c) of
               Inl e \<Rightarrow> (failed 3 e, Nothing, c)
             | Inr rows \<Rightarrow> (Returns, AccountInfo rows, c))
          else if afNew f then (case newSubAccount Z HashString (afPassword f) c of (r, c) \<Rightarrow> balances 5 r c)
          else if afMulti f \<noteq> [] then
            (case addMultiSignAccount decode (read_file tm) multi (teSqlite Z) HashString (afM f) (afMulti f) c of
               (Inl e, c) \<Rightarrow> (failed 5 e, Nothing, c)
             | (Inr programHash, c) \<Rightarrow> balances 5 (listBalanceInfo (teCodec Z) (teWcodec Z) (teSqlite Z) (clDb c)) c)
          else if afBalance f then balances 6 (listBalanceInfo (teCodec Z) (teWcodec Z) (teSqlite Z) (clDb c)) c
          else (Returns, Nothing, c))"

text \<open>The result of \<open>ShowAccountInfo\<close> is not looked at.\<close>

definition createWallet ::
  "('d, 'x, 'w, 'j, 'k, 't) txenv \<Rightarrow> bytes \<Rightarrow> bytes \<Rightarrow> bytes \<times> 'k \<Rightarrow> goerror + bytes \<Rightarrow> bytes \<Rightarrow> ('d, 'w, 'k) cli \<Rightarrow>
   string \<times> shown \<times> ('d, 'w, 'k) cli" where
  "createWallet Z iv masterKey keyPair confirm password c =
     (case GetPassword password True (teTyped Z) confirm of
        Inl e \<Rightarrow> (''--GET PASSWORD FAILED--'', Nothing, c)
      | Inr password \<Rightarrow>
          (case Wallet_Create (teCrypto Z) (teKeyfs Z) (teSqlite Z) iv masterKey keyPair password c of
             (Some e, c) \<Rightarrow> (''--CREATE WALLET FAILED--'', Nothing, c)
           | (None, c) \<Rightarrow>
               ([], case ShowAccountInfo (teCrypto Z) (teKeyfs Z) (teTyped Z) password (clFile c) of
                      Inl e \<Rightarrow> Nothing | Inr rows \<Rightarrow> AccountInfo rows, c)))"

subsection \<open>From creating to sending\<close>

lemma TrimSpace_id:
  assumes "s = [] \<or> \<not> is_space (hd s) \<and> \<not> is_space (last s)"
  shows "TrimSpace s = s"
proof -
  have "dropWhile is_space s = s" "dropWhile is_space (rev s) = rev s" using assms by (auto simp: dropWhile_eq_self_iff hd_rev)
  then show ?thesis by (simp add: TrimSpace_def)
qed

definition faultless :: "terminal \<Rightarrow> bool" where
  "faultless tm \<longleftrightarrow> tmOpen tm = (\<lambda>_. None) \<and> tmRead tm = (\<lambda>_. None) \<and> tmWrite tm = (\<lambda>_. None)"

text \<open>The text of bytes in package \<open>common\<close>, and the transactions of Elastos.ELA.\<close>

definition hex_law :: "'k crypto \<Rightarrow> bool" where
  "hex_law C \<longleftrightarrow> (\<forall>b. HexStringToBytes C (BytesToHexString C b) = Inr b) \<and>
     (\<forall>b. \<forall>c \<in> set (BytesToHexString C b). \<not> is_space c) \<and> (\<forall>b. b \<noteq> [] \<longrightarrow> BytesToHexString C b \<noteq> [])"

definition tx_law :: "('d, 'x, 'w, 'j, 'k, 't) txenv \<Rightarrow> bool" where
  "tx_law Z \<longleftrightarrow> hex_law (teCrypto Z) \<and> (\<forall>t. teSerialize Z t \<noteq> [] \<and> teEncode Z t = Inr (teSerialize Z t) \<and>
     teDeserialize Z (teSerialize Z t) = Inr t)"

text \<open>The file \<open>output\<close> writes a transaction to, and the flags of a command that reads it.\<close>

definition tx_file :: "('d, 'x, 'w, 'j, 'k, 't) txenv \<Rightarrow> 't signable \<Rightarrow> string" where
  "tx_file Z tx = (case sgPrograms tx of [] \<Rightarrow> []
     | (code, param) # programs \<Rightarrow> (case GetSignStatus (teScripts Z) code param of (haveSign, needSign, e) \<Rightarrow> output_file haveSign needSign))"

definition file_flags :: "string \<Rightarrow> tx_flags" where
  "file_flags name = \<lparr>fgFee = [], fgFrom = [], fgFile = name, fgTo = [], fgAmount = [], fgLock = [], fgHex = []\<rparr>"

text \<open>The terminal has the transaction in the file it named last.\<close>

definition shows_tx :: "('d, 'x, 'w, 'j, 'k, 't) txenv \<Rightarrow> 't signable \<Rightarrow> terminal \<Rightarrow> bool" where
  "shows_tx Z tx tm \<longleftrightarrow> faultless tm \<and> sgPrograms tx \<noteq> [] \<and> tmPrinted tm \<noteq> [] \<and> last (tmPrinted tm) = tx_file Z tx \<and>
     tmFiles tm (tx_file Z tx) = Some (BytesToHexString (teCrypto Z) (teSerialize Z tx))"

lemma output_file_trim: "TrimSpace (output_file a b) = output_file a b" "output_file a b \<noteq> []"
  by (auto intro!: TrimSpace_id simp: output_file_def is_space_def)

lemma cmd_output_shows:
  assumes "faultless tm" and "sgPrograms tx \<noteq> []"
  obtains tm' where "cmd_output Z tx tm = (None, tm')" and "shows_tx Z tx tm'"
    and "tmPrinted tm' = tmPrinted tm @ [BytesToHexString (teCrypto Z) (teSerialize Z tx), tx_file Z tx]"
proof -
  obtain code param programs where p: "sgPrograms tx = (code, param) # programs"
    using assms(2) by (cases "sgPrograms tx") auto
  let ?c = "BytesToHexString (teCrypto Z) (teSerialize Z tx)"
  let ?tm = "tm\<lparr>tmPrinted := tmPrinted tm @ [?c, tx_file Z tx], tmFiles := (tmFiles tm)(tx_file Z tx \<mapsto> ?c)\<rparr>"
  have "cmd_output Z tx tm = (None, ?tm)"
    using assms(1) p by (simp add: cmd_output_def Let_def tx_file_def write_file_def faultless_def print_line_def split: prod.split)
  moreover have "shows_tx Z tx ?tm" using assms by (simp add: shows_tx_def faultless_def)
  ultimately show thesis by (rule that) simp
qed

lemma shown_content:
  assumes "tx_law Z" and "shows_tx Z tx tm"
  shows "getContent (read_file tm) (file_flags (last (tmPrinted tm))) = Inr (BytesToHexString (teCrypto Z) (teSerialize Z tx))"
proof -
  let ?c = "BytesToHexString (teCrypto Z) (teSerialize Z tx)"
  have c: "?c \<noteq> []" "\<forall>x \<in> set ?c. \<not> is_space x" using assms(1) by (simp_all add: tx_law_def hex_law_def)
  then have t: "TrimSpace ?c = ?c" by (simp add: TrimSpace_id)
  have n: "TrimSpace (tx_file Z tx) = tx_file Z tx" "tx_file Z tx \<noteq> []"
    using assms(2) by (auto simp: shows_tx_def tx_file_def output_file_trim split: list.split prod.split)
  from assms(2) have "read_file tm (tx_file Z tx) = Some (Inr ?c)" by (simp add: shows_tx_def read_file_def faultless_def)
  with c(1) t n assms(2) show ?thesis by (simp add: getContent_def file_flags_def shows_tx_def Let_def)
qed

lemma shown_transaction:
  assumes "tx_law Z" and "shows_tx Z tx tm"
  shows "getTransaction (HexStringToBytes (teCrypto Z)) (teDeserialize Z) (read_file tm) (file_flags (last (tmPrinted tm))) = Inr tx"
  using shown_content [OF assms] assms(1) by (simp add: getTransaction_def rbind_def tx_law_def hex_law_def)

lemma cmd_sign_programs:
  "cmd_signTransaction C F S password typed tx w = Inr tx' \<Longrightarrow> sgPrograms tx' \<noteq> []"
  by (auto simp: cmd_signTransaction_def rbind_def Wallet_Sign_def signStandardTransaction_def signMultiSigTransaction_def Let_def
      split: list.splits prod.splits if_splits sum.splits option.splits)

lemma rbind_Inr_iff: "rbind r f = Inr y \<longleftrightarrow> (\<exists>x. r = Inr x \<and> f x = Inr y)"
  by (cases r) (simp_all add: rbind_def)

text \<open>Signers who pass the transaction on: each has a password and a key store, and reads the file named last. The
  second function signs the transaction itself.\<close>

fun sign_files ::
  "('d, 'x, 'w, 'j, 'k, 't) txenv \<Rightarrow> (bytes \<times> 'w) list \<Rightarrow> terminal \<Rightarrow> goerror + terminal" where
  "sign_files Z [] tm = Inr tm"
| "sign_files Z ((password, w) # signers) tm =
     (case cmd_SignTransaction Z password (file_flags (last (tmPrinted tm))) w tm of
        (Some e, tm) \<Rightarrow> Inl e
      | (None, tm) \<Rightarrow> sign_files Z signers tm)"

fun sign_all ::
  "('d, 'x, 'w, 'j, 'k, 't) txenv \<Rightarrow> (bytes \<times> 'w) list \<Rightarrow> 't signable \<Rightarrow> goerror + 't signable" where
  "sign_all Z [] tx = Inr tx"
| "sign_all Z ((password, w) # signers) tx =
     rbind (cmd_signTransaction (teCrypto Z) (teKeyfs Z) (teScripts Z) password (teTyped Z) tx w) (sign_all Z signers)"

lemma sign_files_shows:
  assumes "tx_law Z" and "shows_tx Z tx tm"
  shows "case sign_all Z signers tx of
      Inl e \<Rightarrow> sign_files Z signers tm = Inl e
    | Inr tx' \<Rightarrow> \<exists>tm'. sign_files Z signers tm = Inr tm' \<and> shows_tx Z tx' tm'"
  using assms(2)
proof (induction signers arbitrary: tx tm)
  case (Cons s signers)
  obtain password w where s: "s = (password, w)" by fastforce
  note t = shown_transaction [OF assms(1) Cons.prems]
  show ?case
  proof (cases "cmd_signTransaction (teCrypto Z) (teKeyfs Z) (teScripts Z) password (teTyped Z) tx w")
    case (Inl e)
    then show ?thesis by (simp add: s cmd_SignTransaction_def t rbind_def)
  next
    case (Inr tx1)
    from Cons.prems have f: "faultless tm" by (simp add: shows_tx_def)
    obtain tm1 where o: "cmd_output Z tx1 tm = (None, tm1)" "shows_tx Z tx1 tm1"
      by (rule cmd_output_shows [OF f cmd_sign_programs [OF Inr]])
    have "sign_files Z (s # signers) tm = sign_files Z signers tm1" by (simp add: s cmd_SignTransaction_def t Inr o(1))
    moreover have "sign_all Z (s # signers) tx = sign_all Z signers tx1" by (simp add: s rbind_def Inr)
    ultimately show ?thesis using Cons.IH [OF o(2)] by (simp only:)
  qed
qed simp

lemma create_tx_programs: "create_tx Z f tm d = Some (Inr tx) \<Longrightarrow> sgPrograms tx \<noteq> []"
  unfolding create_tx_def Let_def map_option_eq_Some rbind_Inr_iff by (auto simp: signable_of_def)

text \<open>C39: A transaction that was created, signed by any number of signers who pass it on in the files the
  commands name, and sent from the last file, is the one that the signers would have made of it one after the other:
  nothing is lost or altered by writing and reading it. If a signer fails, so does the chain, and with the same error.\<close>

theorem signed_files_are_sent:
  assumes "tx_law Z" and "faultless tm" and "cmd_CreateTransaction Z f d tm = Some (None, tm1)"
  shows "\<exists>tx. create_tx Z f tm d = Some (Inr tx) \<and>
    (case sign_all Z signers tx of
       Inl e \<Rightarrow> sign_files Z signers tm1 = Inl e
     | Inr tx' \<Rightarrow> \<exists>tm2. sign_files Z signers tm1 = Inr tm2 \<and> last (tmPrinted tm2) = tx_file Z tx' \<and>
         cmd_SendTransaction Z password (file_flags (last (tmPrinted tm2))) c tm2 =
           (let answer = teCall Z ''sendrawtransaction'' (hex_encode (teSerialize Z tx'))
            in Some (answer, c\<lparr>clCalls := clCalls c @ [(''sendrawtransaction'', hex_encode (teSerialize Z tx'))]\<rparr>,
                 if answer = None then print_line (BytesToHexString (teCrypto Z) (teHash Z tx')) tm2 else tm2)))"
proof -
  obtain tx where tx: "create_tx Z f tm d = Some (Inr tx)" "cmd_output Z tx tm = (None, tm1)"
    using assms(3) by (cases "create_tx Z f tm d") (auto simp: cmd_CreateTransaction_def split: sum.splits)
  obtain tm' where "cmd_output Z tx tm = (None, tm')" "shows_tx Z tx tm'"
    by (rule cmd_output_shows [OF assms(2) create_tx_programs [OF tx(1)]])
  with tx(2) have s: "shows_tx Z tx tm1" by simp
  show ?thesis
  proof (cases "sign_all Z signers tx")
    case (Inl e)
    with sign_files_shows [OF assms(1) s, of signers] tx(1) show ?thesis by simp
  next
    case (Inr tx')
    with sign_files_shows [OF assms(1) s, of signers] obtain tm2 where
      f: "sign_files Z signers tm1 = Inr tm2" "shows_tx Z tx' tm2" by auto
    have "cmd_SendTransaction Z password (file_flags (last (tmPrinted tm2))) c tm2 =
        (let answer = teCall Z ''sendrawtransaction'' (hex_encode (teSerialize Z tx'))
         in Some (answer, c\<lparr>clCalls := clCalls c @ [(''sendrawtransaction'', hex_encode (teSerialize Z tx'))]\<rparr>,
              if answer = None then print_line (BytesToHexString (teCrypto Z) (teHash Z tx')) tm2 else tm2))"
      using assms(1) by (simp add: cmd_SendTransaction_def shown_content [OF assms(1) f(2)] tx_to_send_def tx_law_def hex_law_def
          Wallet_SendTransaction_def Let_def split: option.split)
    with f tx(1) Inr show ?thesis by (simp add: shows_tx_def)
  qed
qed

subsection \<open>Exit status\<close>

text \<open>What the step of the sign command and the creation of a transaction leave as they are.\<close>

lemma tx_step_simps [simp]:
  "tx_step False status act rest c tm = rest c tm"
  "tx_step True status act rest c tm =
     (case act c tm of None \<Rightarrow> (Waits, c, tm) | Some (Some e, c, tm) \<Rightarrow> (failed status e, c, tm) | Some (None, c, tm) \<Rightarrow> rest c tm)"
  by (simp_all add: tx_step_def)

lemma failed_status [simp]: "failed n e = Exits m \<longleftrightarrow> m = n \<and> (\<forall>p. e \<noteq> Panic p)" "failed n e \<noteq> Returns"
  by (auto simp: failed_def split: goerror.split)

lemma send_step_calls:
  assumes "cmd_SendTransaction Z pass f c tm = Some (e, c', tm')"
  shows "clCalls c' = clCalls c \<or> (\<exists>tx b. teEncode Z tx = Inr b \<and> clCalls c' = clCalls c @ [(''sendrawtransaction'', hex_encode b)])"
    and "e = None \<Longrightarrow> clCalls c' \<noteq> clCalls c"
proof -
  let ?send = "\<lambda>new. tx_to_send (HexStringToBytes (teCrypto Z)) (teDeserialize Z) (read_file tm) (\<lambda>_. new)
    (\<lambda>tx. cmd_signTransaction (teCrypto Z) (teKeyfs Z) (teScripts Z) pass (teTyped Z) tx (clFile c)) f"
  obtain new where n: "(case ?send new of
       Inl e \<Rightarrow> (Some e, c, tm)
     | Inr tx \<Rightarrow>
         (let c = (case teEncode Z tx of Inl e \<Rightarrow> c | Inr b \<Rightarrow> c\<lparr>clCalls := clCalls c @ [(''sendrawtransaction'', hex_encode b)]\<rparr>)
          in case Wallet_SendTransaction (teEncode Z) (teCall Z) tx of
               Some e \<Rightarrow> (Some e, c, tm)
             | None \<Rightarrow> (None, c, print_line (BytesToHexString (teCrypto Z) (teHash Z tx)) tm))) = (e, c', tm')"
    using assms unfolding cmd_SendTransaction_def Let_def map_option_eq_Some by blast
  have "(clCalls c' = clCalls c \<or> (\<exists>tx b. teEncode Z tx = Inr b \<and> clCalls c' = clCalls c @ [(''sendrawtransaction'', hex_encode b)])) \<and>
    (e = None \<longrightarrow> clCalls c' \<noteq> clCalls c)"
  proof (cases "?send new")
    case (Inl x)
    with n show ?thesis by auto
  next
    case (Inr tx)
    show ?thesis
    proof (cases "teEncode Z tx")
      case (Inl x)
      with n \<open>?send new = Inr tx\<close> show ?thesis by (auto simp: Wallet_SendTransaction_def)
    next
      case (Inr b)
      have "clCalls c' = clCalls c @ [(''sendrawtransaction'', hex_encode b)]"
        using n \<open>?send new = Inr tx\<close> Inr by (auto simp: Wallet_SendTransaction_def Let_def split: option.splits)
      with Inr show ?thesis by auto
    qed
  qed
  then show "clCalls c' = clCalls c \<or> (\<exists>tx b. teEncode Z tx = Inr b \<and> clCalls c' = clCalls c @ [(''sendrawtransaction'', hex_encode b)])"
    and "e = None \<Longrightarrow> clCalls c' \<noteq> clCalls c" by blast+
qed

text \<open>The status of the command tells how far it came: nothing is sent unless the creation and the signing that were
  asked for succeeded.\<close>

lemma tx_step_exits:
  assumes "tx_step flag n act rest c tm = (Exits status, c', tm')"
  obtains (skipped) "\<not> flag" and "rest c tm = (Exits status, c', tm')"
  | (failed) e where "flag" and "act c tm = Some (Some e, c', tm')" and "status = n"
  | (passed) c1 tm1 where "flag" and "act c tm = Some (None, c1, tm1)" and "rest c1 tm1 = (Exits status, c', tm')"
  using assms by (cases flag) (auto split: option.splits prod.splits)

lemma transaction_status:
  assumes "transactionAction Z n pass create sign send f c tm = (Exits status, c', tm')"
  shows "status \<in> {0, 2, 701, 702, 703} \<and> (status \<noteq> 703 \<longrightarrow> clCalls c' = clCalls c) \<and>
    (status = 701 \<longrightarrow> create) \<and> (status = 702 \<longrightarrow> sign) \<and> (status = 703 \<longrightarrow> send)"
proof (cases "n = 0")
  case True
  with assms show ?thesis by (auto simp: transactionAction_def)
next
  case False
  obtain e c1 where w: "Wallet_Open (teSqlite Z) c = (e, c1)" by fastforce
  then have k: "clCalls c1 = clCalls c" by (auto simp: Wallet_Open_def split: prod.splits option.splits)
  let ?sent = "\<lambda>c tm. tx_step send 703 (cmd_SendTransaction Z pass f) (\<lambda>c tm. (Returns, c, tm)) c tm"
  let ?sign = "\<lambda>c tm. Some (case cmd_SignTransaction Z pass f (clFile c) tm of (e, tm) \<Rightarrow> (e, c, tm))"
  let ?signed = "\<lambda>c tm. tx_step sign 702 ?sign ?sent c tm"
  let ?create = "\<lambda>c tm. map_option (\<lambda>(e, tm). (e, c, tm)) (cmd_CreateTransaction Z f (clDb c) tm)"
  have sent: "status = 703 \<and> send" if "?sent c2 tm2 = (Exits status, c', tm')" for c2 tm2
    using that by (rule tx_step_exits) simp_all
  have signed: "status = 703 \<and> send \<or> status = 702 \<and> sign \<and> clCalls c' = clCalls c2" if "?signed c2 tm2 = (Exits status, c', tm')" for c2 tm2
    using that by (rule tx_step_exits) (use sent in \<open>auto split: prod.splits\<close>)
  show ?thesis
  proof (cases e)
    case (Some x)
    with assms False w k show ?thesis by (auto simp: transactionAction_def)
  next
    case None
    with assms False w have "tx_step create 701 ?create ?signed c1 tm = (Exits status, c', tm')" by (simp add: transactionAction_def)
    then show ?thesis
    proof (cases rule: tx_step_exits)
      case skipped
      from signed [OF this(2)] k show ?thesis by auto
    next
      case failed
      then show ?thesis using k by auto
    next
      case (passed c2 tm2)
      then have "clCalls c2 = clCalls c1" by auto
      with signed [OF passed(3)] k show ?thesis by auto
    qed
  qed
qed

text \<open>The flags of one command are not passed on: a transaction that was created is not the one that is signed after
  it, and without a file or a text to sign the command fails once the transaction is written.\<close>

lemma create_and_sign_fails:
  assumes "TrimSpace (fgFile f) = []" and "TrimSpace (fgHex f) = []" and "Wallet_Open (teSqlite Z) c = (None, c1)"
    and "cmd_CreateTransaction Z f (clDb c1) tm = Some (None, tm1)" and "0 < n"
  shows "transactionAction Z n pass True True send f c tm = (Exits 702, c1, tm1)"
  using assms by (simp add: transactionAction_def cmd_SignTransaction_def getTransaction_def getContent_def Let_def failed_def)

text \<open>A list of payments ends, without an error, where a line is longer than the scanner's buffer.\<close>

lemma split_char_append: "split_char s (l @ s # rest) = split_char s l @ split_char s rest"
proof (induction l)
  case (Cons c l)
  moreover have "split_char s l \<noteq> []" by (cases l) (auto split: list.splits)
  ultimately show ?case by (auto split: list.splits)
qed simp

lemma split_char_line: "s \<notin> set l \<Longrightarrow> split_char s l = [l]"
  by (induction l) auto

lemma long_line_ends_payments:
  assumes "CHR 0x0A \<notin> set payment" and "CHR 0x0A \<notin> set long" and "length payment < MaxScanTokenSize" and "MaxScanTokenSize \<le> length long"
  shows "scan_lines (payment @ CHR 0x0A # long @ CHR 0x0A # rest) = [drop_cr payment]"
proof -
  have n: "split_char (CHR 0x0A) rest \<noteq> []" by (cases rest) (auto split: list.splits)
  have "split_char (CHR 0x0A) (payment @ CHR 0x0A # long @ CHR 0x0A # rest) = payment # long # split_char (CHR 0x0A) rest"
    by (simp add: split_char_append split_char_line assms(1,2))
  with n assms(3,4) show ?thesis by (simp add: scan_lines_def Let_def butlast_append)
qed

text \<open>The accounts are shown in the order of the key store, the first as the master account.\<close>

lemma accounts_shown:
  assumes "ShowAccountInfo C F typed password w = Inr rows"
  obtains s where "OpenKeystore C F (if password = [] then projr typed else password) w = Inr s"
    and "length rows = length (ksAccounts s)"
    and "\<And>i. i < length rows \<Longrightarrow> fst (rows ! i) = i + 1 \<and> fst (snd (rows ! i)) = acAddress (ksAccounts s ! i)"
    and "\<And>i. i < length rows \<Longrightarrow> snd (snd (snd (rows ! i))) = (if i = 0 then ''MASTER'' else ''SUB'')"
proof -
  from assms obtain p s where p: "GetPassword password False typed (Inr []) = Inr p" "OpenKeystore C F p w = Inr s"
    "rows = map (\<lambda>i. account_row C i (ksAccounts s ! i)) [0..<length (ksAccounts s)]"
    unfolding ShowAccountInfo_def rbind_Inr_iff by auto
  from p(1) have "p = (if password = [] then projr typed else password)"
    by (auto simp: GetPassword_def split: sum.splits if_splits)
  with p(2,3) show thesis by (intro that [of s]) (simp_all add: account_row_def)
qed

subsection \<open>Witness\<close>

text \<open>A standard transaction with one signer. The bytes of a transaction are those of its programs, each byte after a one and
  a zero after each string.\<close>

definition crypto1 :: "bytes crypto" where
  "crypto1 = crypto0\<lparr>BytesToHexString := hex_encode,
     HexStringToBytes := (\<lambda>s. case hex_decode s of None \<Rightarrow> Inl (Failure ''hex'') | Some b \<Rightarrow> Inr b)\<rparr>"

lemma hex_char_space: "n < 16 \<Longrightarrow> \<not> is_space (hex_char n)"
  by (simp add: is_space_def hex_char_def Let_def)

lemma crypto1_ok: "crypto_ok crypto1" "keys_derive crypto1" "hex_law crypto1"
proof -
  have c: "AesEncrypt crypto1 = AesEncrypt crypto0" "AesDecrypt crypto1 = AesDecrypt crypto0" "ToAesKey crypto1 = ToAesKey crypto0"
    "EncodePoint crypto1 = EncodePoint crypto0" by (simp_all add: crypto1_def)
  have h: "\<forall>b. HexStringToBytes crypto1 (BytesToHexString crypto1 b) = Inr b" by (simp add: crypto1_def hex_roundtrip)
  show "crypto_ok crypto1" using crypto0_ok(1) h unfolding crypto_ok_def aes_ok_def c by (elim conjE) (intro conjI)
  show "keys_derive crypto1" by (simp add: keys_derive_def crypto1_def crypto0_def NewAccount_def)
  have "unat w < 2 ^ LENGTH(8)" for w :: u8 by (rule unsigned_less)
  then have "unat w div 16 < 16" for w :: u8 by (simp add: less_mult_imp_div_less)
  then have "\<not> is_space c" if "c \<in> set (hex_encode b)" for c b
    using that by (auto simp: hex_encode_def hex_char_space)
  moreover have "b \<noteq> [] \<Longrightarrow> hex_encode b \<noteq> []" for b by (cases b) (simp_all add: hex_encode_def)
  ultimately show "hex_law crypto1" by (simp add: hex_law_def crypto1_def hex_roundtrip)
qed

definition enc_string :: "bytes \<Rightarrow> bytes" where
  "enc_string b = concat (map (\<lambda>x. [1, x]) b) @ [0]"

definition enc_tx :: "unit signable \<Rightarrow> bytes" where
  "enc_tx t = concat (map (\<lambda>(a, b). enc_string a @ enc_string b) (sgPrograms t)) @ [2, 2]"

fun dec_strings :: "bytes \<Rightarrow> bytes \<Rightarrow> bytes list" where
  "dec_strings acc (x # y # r) =
     (if x = 0 then acc # dec_strings [] (y # r) else if x = 1 then dec_strings (acc @ [y]) r else [])"
| "dec_strings acc _ = []"

fun pair_up :: "bytes list \<Rightarrow> (bytes \<times> bytes) list" where
  "pair_up (a # b # r) = (a, b) # pair_up r"
| "pair_up _ = []"

definition dec_tx :: "bytes \<Rightarrow> goerror + unit signable" where
  "dec_tx b = Inr \<lparr>sgBody = (), sgPrograms = pair_up (dec_strings [] b)\<rparr>"

lemma dec_string: "r \<noteq> [] \<Longrightarrow> dec_strings acc (enc_string b @ r) = (acc @ b) # dec_strings [] r"
  by (induction b arbitrary: acc) (auto simp: enc_string_def neq_Nil_conv)

lemma dec_tx: "dec_tx (enc_tx t) = Inr t"
proof -
  have "pair_up (dec_strings [] (concat (map (\<lambda>(a, b). enc_string a @ enc_string b) ps) @ [2, 2])) = ps" for ps
    by (induction ps) (auto simp: dec_string)
  then show ?thesis by (simp add: dec_tx_def enc_tx_def)
qed

definition scripts1 :: "uint168 \<Rightarrow> unit scripts" where
  "scripts1 h = \<lparr>GetScriptType = (\<lambda>_. Inr 172), STANDARD = 172, MULTISIG = 174,
     StandardHash = (\<lambda>_. h), ParseMultisigScript = (\<lambda>_. Inr []),
     AppendSignature = (\<lambda>_ _ _ _ _. Inr []), GetSignStatus = (\<lambda>code param. (if param = [] then 0 else 1, 1, None)),
     SerializeUnsigned = (\<lambda>_. [9])\<rparr>"

definition txenv1 :: "uint168 \<Rightarrow> (tables, tables, keystore_file option, keystore_file, bytes, unit) txenv" where
  "txenv1 h = \<lparr>teCrypto = crypto1, teKeyfs = keyfs0, teSqlite = sqlite0, teCodec = codec0, teWcodec = wcodec0, teScripts = scripts1 h,
     teBody = (\<lambda>_. ()), teSerialize = enc_tx, teEncode = (\<lambda>t. Inr (enc_tx t)), teDeserialize = dec_tx, teHash = (\<lambda>t. [7]),
     teFixed = (\<lambda>s. case digits_value 0 s of None \<Rightarrow> Inl (Failure ''number'') | Some n \<Rightarrow> Inr (word_of_nat n)),
     teAsset = 1, teAddress = (\<lambda>_. sample_address), teTyped = Inl (Failure ''EOF''), teLines = [], teNonce = [],
     teCall = (\<lambda>_ _. None)\<rparr>"

lemma txenv1_ok: "tx_law (txenv1 h)"
  using crypto1_ok(3) by (simp add: tx_law_def txenv1_def enc_tx_def dec_tx [unfolded enc_tx_def])

lemma sample_created:
  obtains d :: tables and x where
    "createTransaction codec0 wcodec0 sqlite0 1 [] sample_address 1 0 [\<lparr>trAddress = sample_address, trValue = 3\<rparr>] d = Inr x"
    and "wxParam x = []"
proof -
  let ?w = "fold (store_tx codec0 sample_wdata {7} 0 10) [sample_pay10] sample_wdata"
  obtain s :: "tables wallet" where env: "wallet_env codec0 wcodec0 sqlite0 (wlDb s) ?w" using stored_wallet [OF refl] .
  let ?u = "\<lparr>utOp = \<lparr>opTxID = 1, opIndex = 0\<rparr>, utValue = 10, utLockTime = 0, utAtHeight = 10, utAddress = 7\<rparr>"
  let ?h = "cl_BestHeight sqlite0 (wlDb s)"
  have w: "wdUtxos ?w = [utOp ?u \<mapsto> ?u]" "wdAddrs ?w 7 = Some (NewAddr 7 [] TypeMaster)"
    by (simp_all add: store_tx_def)
      (simp add: sample_pay10_def sample_pay_def sample_out_def empty_wdata_def new_utxo_def Let_def)
  then have S: "spendable_outputs ?w ?h 7 = {?u}" unfolding spendable_outputs_def by (auto simp: spendable_def)
  from GetAddressUTXOs_spendable [OF env, of 7 ?h] obtain us where
    us: "cl_GetAddressUTXOs codec0 wcodec0 sqlite0 7 (wlDb s) = (us, None)" "distinct (sorted_spendable ?h us)"
    "set (sorted_spendable ?h us) = {?u}" unfolding S .
  then have "length (sorted_spendable ?h us) = 1" using distinct_card [OF us(2)] by simp
  with us(3) have u: "sorted_spendable ?h us = [?u]" by (auto simp: length_Suc_conv)
  let ?t = "\<lparr>trAddress = sample_address, trValue = 3\<rparr>" and ?o = "transfer_out 1 7 3 0"
  have m: "make_outputs codec0 1 0 [?t] 1 [] = Inr (4, [?o])" by simp
  have l: "select_loop 1 7 (map unlock (sorted_spendable ?h us)) 4 [] [?o] = (0, [InputFromUTXO ?u], [?o, transfer_out 1 7 6 0])"
    by (simp add: u unlock_def)
  have "createTransaction codec0 wcodec0 sqlite0 1 [] sample_address 1 0 [?t] (wlDb s) =
      Inr \<lparr>wxNonce = [], wxInputs = [InputFromUTXO ?u], wxOutputs = [?o, transfer_out 1 7 6 0], wxLockTime = ?h, wxCode = [], wxParam = []\<rparr>"
    using createTransaction_unfold [OF _ sample_address m us(1) cl_GetAddress_ok [OF env w(2)] l] by (simp add: NewAddr_def)
  then show thesis by (rule that) simp
qed

definition sample_flags :: tx_flags where
  "sample_flags = \<lparr>fgFee = ''1'', fgFrom = sample_address, fgFile = [], fgTo = sample_address, fgAmount = ''3'', fgLock = [], fgHex = []\<rparr>"

definition empty_terminal :: terminal where
  "empty_terminal = \<lparr>tmFiles = Map.empty, tmOpen = (\<lambda>_. None), tmRead = (\<lambda>_. None), tmWrite = (\<lambda>_. None), tmPrinted = []\<rparr>"

lemma sample_create_tx:
  obtains d :: tables and code where
    "\<And>h. create_tx (txenv1 h) sample_flags empty_terminal d = Some (Inr \<lparr>sgBody = (), sgPrograms = [(code, [])]\<rparr>)"
proof -
  obtain d :: tables and x where
    x: "createTransaction codec0 wcodec0 sqlite0 1 [] sample_address 1 0 [\<lparr>trAddress = sample_address, trValue = 3\<rparr>] d = Inr x" "wxParam x = []"
    by (rule sample_created)
  have "sample_address \<noteq> []" by (simp add: sample_address_def)
  then have "create_tx (txenv1 h) sample_flags empty_terminal d = Some (Inr \<lparr>sgBody = (), sgPrograms = [(wxCode x, [])]\<rparr>)" for h
    using x by (simp add: create_tx_def cmd_createTransaction_def sample_flags_def txenv1_def create_failed_def signable_of_def cl_Create_defs)
  then show thesis by (rule that)
qed

theorem signed_files_are_sent_witness:
  "\<exists>h d w tm1 tm2 c c' tm3.
    cmd_CreateTransaction (txenv1 h) sample_flags d empty_terminal = Some (None, tm1) \<and>
    last (tmPrinted tm1) = ''to_be_signed_0_of_1.tx'' \<and>
    sign_files (txenv1 h) [([4], w)] tm1 = Inr tm2 \<and> last (tmPrinted tm2) = ''ready_to_send.tx'' \<and>
    cmd_SendTransaction (txenv1 h) [] (file_flags ''ready_to_send.tx'') c tm2 = Some (None, c', tm3) \<and>
    clCalls c = [] \<and> length (clCalls c') = 1"
proof -
  let ?kp = "replicate 32 3 :: bytes"
  have l: "length (replicate 16 1 :: bytes) = 16" "length (replicate 32 2 :: bytes) = 32" "length ?kp = 32" by simp_all
  have n: "\<not> ksStat keyfs0 None" by (simp add: keyfs0_def)
  obtain ks w where k: "CreateKeystore crypto1 keyfs0 (replicate 16 1) (replicate 32 2) (?kp, NewPubKey crypto1 ?kp) [4] None = (Inr ks, w)"
    using CreateKeystore_total [OF crypto1_ok(1,2) keyfs0_ok(2) l n] by blast
  from CreateKeystore_stored [OF crypto1_ok(1) keyfs0_ok(1) l k] have st: "keystore_stored crypto1 keyfs0 [4] ks w" "length (ksAccounts ks) = 1"
    by simp_all
  then obtain a where a: "ksAccounts ks = [a]" by (auto simp: length_Suc_conv)
  let ?Z = "txenv1 (acProgramHash a)"
  obtain d :: tables and code where c: "create_tx ?Z sample_flags empty_terminal d = Some (Inr \<lparr>sgBody = (), sgPrograms = [(code, [])]\<rparr>)"
    by (rule sample_create_tx) blast
  let ?tx = "\<lparr>sgBody = (), sgPrograms = [(code, [])]\<rparr>"
  let ?sig = "acPrivateKey a @ [9]"
  let ?signed = "\<lparr>sgBody = (), sgPrograms = [(code, word_of_nat (length ?sig) # ?sig)]\<rparr>"
  have f: "faultless empty_terminal" by (simp add: faultless_def empty_terminal_def)
  obtain tm1 where t: "cmd_output ?Z ?tx empty_terminal = (None, tm1)" "shows_tx ?Z ?tx tm1"
    by (rule cmd_output_shows [OF f, of ?tx]) simp
  have cr: "cmd_CreateTransaction ?Z sample_flags d empty_terminal = Some (None, tm1)" by (simp add: cmd_CreateTransaction_def c t(1))
  have s: "sign_all ?Z [([4], w)] ?tx = Inr ?signed"
    using stored_open [OF st(1) keyfs0_ok(3)] a
    by (simp add: txenv1_def scripts1_def cmd_signTransaction_def GetPassword_def Wallet_Sign_def signStandardTransaction_def
        GetAccountByProgramHash_def Account_Sign_def crypto1_def crypto0_def)
  have ch: "char_of (48 :: nat) = CHR ''0''" "char_of (49 :: nat) = CHR ''1''" by code_simp+
  have n1: "tx_file ?Z ?tx = ''to_be_signed_0_of_1.tx''" and n2: "tx_file ?Z ?signed = ''ready_to_send.tx''"
    by (simp_all add: tx_file_def txenv1_def scripts1_def output_file_def show_int_def show_digits.simps ch)
  with s obtain signed where g: "sign_all ?Z [([4], w)] ?tx = Inr signed" "tx_file ?Z signed = ''ready_to_send.tx''" by blast
  let ?c = "\<lparr>clDb = d, clFile = w, clKeystore = None, clCalls = []\<rparr>"
  have "teCall ?Z m x = None" for m x by (simp add: txenv1_def)
  with signed_files_are_sent [OF txenv1_ok f cr, of "[([4], w)]" "[]" ?c] obtain tm2 where
    "sign_files ?Z [([4], w)] tm1 = Inr tm2" "last (tmPrinted tm2) = ''ready_to_send.tx''"
    "cmd_SendTransaction ?Z [] (file_flags ''ready_to_send.tx'') ?c tm2 =
       Some (None, ?c\<lparr>clCalls := [(''sendrawtransaction'', hex_encode (teSerialize ?Z signed))]\<rparr>,
         print_line (BytesToHexString (teCrypto ?Z) (teHash ?Z signed)) tm2)"
    unfolding c by (auto simp: g simp del: sign_all.simps sign_files.simps)
  moreover have "last (tmPrinted tm1) = ''to_be_signed_0_of_1.tx''" using t(2) n1 by (simp add: shows_tx_def)
  ultimately show ?thesis using cr
    by (intro exI [of _ "acProgramHash a"] exI [of _ d] exI [of _ w] exI [of _ tm1] exI [of _ tm2] exI [of _ ?c]
        exI [of _ "?c\<lparr>clCalls := [(''sendrawtransaction'', hex_encode (teSerialize ?Z signed))]\<rparr>"]
        exI [of _ "print_line (BytesToHexString (teCrypto ?Z) (teHash ?Z signed)) tm2"]) simp
qed

end
