(* ===== verification/WalletTypes.thy ===== *)
theory WalletTypes
  imports WalletCmd
begin

text \<open>
  The tables of the wallet are well typed, whatever operations run on them and whichever of these fail: a table is
  either missing or holds rows of its own kind, each under the key of its value. The typing judgement is kept by every statement the
  stores issue (\<open>stmt_keeps_types\<close>), hence by every operation of the wallet and of its client; and what
  is well typed is read without an error.
\<close>

subsection \<open>A table that is missing or well typed\<close>

definition table_typed ::
  "string \<Rightarrow> string list \<Rightarrow> ('k \<Rightarrow> sqlval) \<Rightarrow> ('v \<Rightarrow> sqlval list) \<Rightarrow> ('k \<Rightarrow> 'v \<Rightarrow> bool) \<Rightarrow> tables \<Rightarrow> bool" where
  "table_typed n cs key vals P T \<longleftrightarrow>
     (T n \<noteq> None \<longrightarrow> (\<exists>m. table_holds n cs key vals T m \<and> (\<forall>k v. m k = Some v \<longrightarrow> P k v)))"

lemma table_typed_other: "T' n = T n \<Longrightarrow> table_typed n cs key vals P T \<Longrightarrow> table_typed n cs key vals P T'"
  unfolding table_typed_def using table_holds_other by metis

context key_table
begin

abbreviation typed where
  "typed P T \<equiv> table_typed name (kc # cs) key vals P T"

lemma typed_insert:
  assumes ok and "typed P T" and "P k v" and "run_stmt (InsertOrReplace name (kc # cs) (key k # vals v)) T = Some T'"
  shows "typed P T'"
proof -
  have "T name \<noteq> None" using assms(4) by (auto split: option.splits)
  with assms(2) obtain m where m: "holds T m" "\<forall>k v. m k = Some v \<longrightarrow> P k v" unfolding table_typed_def by blast
  have "run_stmts [InsertOrReplace name (kc # cs) (key k # vals v)] T = Some T'"
    unfolding run_stmts.simps assms(4) by simp
  from insert_holds [OF assms(1) m(1) this] m(2) assms(3) show ?thesis
    unfolding table_typed_def by (intro impI exI [of _ "m(k \<mapsto> v)"]) simp
qed

lemma typed_delete:
  assumes "typed P T" and "run_stmt (DeleteWhere name c x) T = Some T'"
  shows "typed P T'"
proof -
  have "T name \<noteq> None" using assms(2) by (auto split: option.splits)
  with assms(1) obtain m where m: "holds T m" "\<forall>k v. m k = Some v \<longrightarrow> P k v" unfolding table_typed_def by blast
  have "run_stmts [DeleteWhere name c x] T = Some T'" unfolding run_stmts.simps assms(2) by simp
  from delete_where [OF m(1) this] have
    h: "holds T' (\<lambda>k. case m k of None \<Rightarrow> None | Some v \<Rightarrow> if where_eq c x (entry k v) then None else Some v)" (is "holds T' ?m")
    by (rule conjunct1)
  have "P k v" if "?m k = Some v" for k v using m(2) that by (auto split: option.splits if_splits)
  with h show ?thesis unfolding table_typed_def by blast
qed

lemma typed_drop: "run_stmt (DropTable name) T = Some T' \<Longrightarrow> typed P T'"
  by (auto simp: table_typed_def)

lemma typed_create:
  assumes "typed P T" and "run_stmt (CreateTable name cols kc) T = Some T'" and "map fst cols = kc # cs"
  shows "typed P T'"
proof (cases "T name")
  case None
  with assms(2) have "T' = T(name \<mapsto> \<lparr>tbCols = cols, tbKey = kc, tbRows = []\<rparr>)" by simp
  then have "holds T' Map.empty" using assms(3) by (simp add: table_holds_def)
  then show ?thesis unfolding table_typed_def by (intro impI exI [of _ Map.empty]) simp
qed (use assms(1,2) in simp)

text \<open>What is well typed is read.\<close>

lemma typed_read:
  assumes "typed P (sqHolds Q d)" and "sqHolds Q d name \<noteq> None" and "sqlite_ok Q" and "sql_reads Q d"
    and "\<forall>c x. w = Some (c, x) \<longrightarrow> c \<in> insert kc (set cs)" and "\<And>k v. P k v \<Longrightarrow> f (key k # vals v) = Inr v \<and> kf v = k"
  shows "\<exists>vs. query_all Q (Select (kc # cs) name w) f d = (vs, None)"
proof -
  from assms(1,2) obtain m where m: "holds (sqHolds Q d) m" "\<forall>k v. m k = Some v \<longrightarrow> P k v" unfolding table_typed_def by blast
  from query_all_where [OF m(1) assms(3,4,5), of f kf] m(2) assms(6) show ?thesis by blast
qed

end

subsection \<open>The tables of the wallet\<close>

interpretation state_table: key_table "''State''" "''Key''" "[''Value'']" SText "\<lambda>h :: u32. [SInt (uint h)]" True
  by unfold_locales simp_all

definition tables_typed :: "codec \<Rightarrow> wcodec \<Rightarrow> tables \<Rightarrow> bool" where
  "tables_typed E W T \<longleftrightarrow>
     T ''TXNs'' = None \<and> state_table.typed (\<lambda>k h. True) T \<and> addr_table.typed (\<lambda>k a. adHash a = k \<and> addr_ok a) T \<and>
     utxo_table.typed E W (\<lambda>k u. utOp u = k) T \<and> stxo_table.typed E W (\<lambda>k s. utOp (stUTXO s) = k) T \<and>
     tx_table.typed (\<lambda>k t. utxHash t = k) T \<and> fork_table.typed E (\<lambda>k ts. True) T"

lemma no_tables_typed: "tables_typed E W Map.empty"
  by (simp add: tables_typed_def table_typed_def)

text \<open>The statements of the stores.\<close>

definition wallet_tables :: "string list" where
  "wallet_tables = [''State'', ''Addrs'', ''UTXOs'', ''STXOs'', ''Txs'', ''ForkTxs'']"

definition height_stmt :: "u32 \<Rightarrow> stmt" where
  "height_stmt h = InsertOrReplace ''State'' [''Key'', ''Value''] [SText HeightKey, SInt (uint h)]"

definition fork_stmt :: "codec \<Rightarrow> uint256 \<Rightarrow> utiltx list \<Rightarrow> stmt" where
  "fork_stmt E hash txs = InsertOrReplace ''ForkTxs'' [''Hash'', ''Num'', ''RawData'']
     [SBlob (hash_bytes hash), SInt (int (length txs)), blob_val (concat (map (utx_Serialize E) txs))]"

inductive stmt_ok :: "codec \<Rightarrow> wcodec \<Rightarrow> stmt \<Rightarrow> bool" for E W where
  create: "s \<in> set ([CreateStateDB, CreateAddrsDB, CreateUTXOsDB, CreateSTXOsDB] @ CreateTxsDB) \<Longrightarrow> stmt_ok E W s"
| utxo: "stmt_ok E W (utxo_stmt E u (fixed_bytes W (utValue u)))"
| stxo: "stmt_ok E W (stxo_stmt E s (fixed_bytes W (utValue (stUTXO s))))"
| transaction: "stmt_ok E W (tx_stmt t)"
| fork: "stmt_ok E W (fork_stmt E hash txs)"
| address: "addr_ok (NewAddr h s a) \<Longrightarrow> stmt_ok E W (addr_stmt h s a)"
| height: "stmt_ok E W (height_stmt h)"
| delete: "n \<in> set wallet_tables \<Longrightarrow> stmt_ok E W (DeleteWhere n c v)"
| drop: "n \<in> set (''TXNs'' # wallet_tables) \<Longrightarrow> stmt_ok E W (DropTable n)"

lemma tables_typed_step:
  assumes "tables_typed E W T" and "run_stmt s T = Some T'" and "stmt_table s \<noteq> ''TXNs''"
    and "stmt_table s = ''State'' \<Longrightarrow> state_table.typed (\<lambda>k h. True) T'"
    and "stmt_table s = ''Addrs'' \<Longrightarrow> addr_table.typed (\<lambda>k a. adHash a = k \<and> addr_ok a) T'"
    and "stmt_table s = ''UTXOs'' \<Longrightarrow> utxo_table.typed E W (\<lambda>k u. utOp u = k) T'"
    and "stmt_table s = ''STXOs'' \<Longrightarrow> stxo_table.typed E W (\<lambda>k s. utOp (stUTXO s) = k) T'"
    and "stmt_table s = ''Txs'' \<Longrightarrow> tx_table.typed (\<lambda>k t. utxHash t = k) T'"
    and "stmt_table s = ''ForkTxs'' \<Longrightarrow> fork_table.typed E (\<lambda>k ts. True) T'"
  shows "tables_typed E W T'"
proof -
  have o: "stmt_table s \<noteq> n \<Longrightarrow> T' n = T n" for n using run_stmt_other [OF assms(2)] by auto
  have 1: "state_table.typed (\<lambda>k h. True) T'" by (cases "stmt_table s = ''State''", erule assms(4), rule table_typed_other [OF o])
      (use assms(1) in \<open>simp_all add: tables_typed_def\<close>)
  have 2: "addr_table.typed (\<lambda>k a. adHash a = k \<and> addr_ok a) T'" by (cases "stmt_table s = ''Addrs''", erule assms(5), rule table_typed_other [OF o])
      (use assms(1) in \<open>simp_all add: tables_typed_def\<close>)
  have 3: "utxo_table.typed E W (\<lambda>k u. utOp u = k) T'" by (cases "stmt_table s = ''UTXOs''", erule assms(6), rule table_typed_other [OF o])
      (use assms(1) in \<open>simp_all add: tables_typed_def\<close>)
  have 4: "stxo_table.typed E W (\<lambda>k s. utOp (stUTXO s) = k) T'" by (cases "stmt_table s = ''STXOs''", erule assms(7), rule table_typed_other [OF o])
      (use assms(1) in \<open>simp_all add: tables_typed_def\<close>)
  have 5: "tx_table.typed (\<lambda>k t. utxHash t = k) T'" by (cases "stmt_table s = ''Txs''", erule assms(8), rule table_typed_other [OF o])
      (use assms(1) in \<open>simp_all add: tables_typed_def\<close>)
  have 6: "fork_table.typed E (\<lambda>k ts. True) T'" by (cases "stmt_table s = ''ForkTxs''", erule assms(9), rule table_typed_other [OF o])
      (use assms(1) in \<open>simp_all add: tables_typed_def\<close>)
  have "T' ''TXNs'' = None" using assms(1,3) o by (simp add: tables_typed_def)
  with 1 2 3 4 5 6 show ?thesis by (simp add: tables_typed_def)
qed

lemma create_keeps_types:
  assumes "s \<in> set ([CreateStateDB, CreateAddrsDB, CreateUTXOsDB, CreateSTXOsDB] @ CreateTxsDB)" and "tables_typed E W T"
    and "run_stmt s T = Some T'"
  shows "tables_typed E W T'"
proof -
  from assms(2) have t: "state_table.typed (\<lambda>k h. True) T" "addr_table.typed (\<lambda>k a. adHash a = k \<and> addr_ok a) T"
    "utxo_table.typed E W (\<lambda>k u. utOp u = k) T" "stxo_table.typed E W (\<lambda>k s. utOp (stUTXO s) = k) T"
    "tx_table.typed (\<lambda>k t. utxHash t = k) T" "fork_table.typed E (\<lambda>k ts. True) T" by (simp_all add: tables_typed_def)
  note d = CreateStateDB_def CreateAddrsDB_def CreateUTXOsDB_def CreateSTXOsDB_def CreateTxsDB_def
  note step = tables_typed_step [OF assms(2,3)]
  from assms(1) consider "s = CreateStateDB" | "s = CreateAddrsDB" | "s = CreateUTXOsDB" | "s = CreateSTXOsDB" | "s = CreateTxsDB ! 0" | "s = CreateTxsDB ! 1" by (auto simp: CreateTxsDB_def)
  then show ?thesis
  proof cases
    case 1
    then have "state_table.typed (\<lambda>k h. True) T'" using assms(3) by (intro state_table.typed_create [OF t(1)]) (simp_all only: d nth_Cons_0 nth_Cons_Suc One_nat_def, simp_all)
    then show ?thesis by (intro step) (simp_all add: 1 d)
  next
    case 2
    then have "addr_table.typed (\<lambda>k a. adHash a = k \<and> addr_ok a) T'" using assms(3) by (intro addr_table.typed_create [OF t(2)]) (simp_all only: d nth_Cons_0 nth_Cons_Suc One_nat_def, simp_all)
    then show ?thesis by (intro step) (simp_all add: 2 d)
  next
    case 3
    then have "utxo_table.typed E W (\<lambda>k u. utOp u = k) T'" using assms(3) by (intro utxo_table.typed_create [OF t(3)]) (simp_all only: d nth_Cons_0 nth_Cons_Suc One_nat_def, simp_all)
    then show ?thesis by (intro step) (simp_all add: 3 d)
  next
    case 4
    then have "stxo_table.typed E W (\<lambda>k s. utOp (stUTXO s) = k) T'" using assms(3) by (intro stxo_table.typed_create [OF t(4)]) (simp_all only: d nth_Cons_0 nth_Cons_Suc One_nat_def, simp_all)
    then show ?thesis by (intro step) (simp_all add: 4 d)
  next
    case 5
    then have "tx_table.typed (\<lambda>k t. utxHash t = k) T'" using assms(3) by (intro tx_table.typed_create [OF t(5)]) (simp_all only: d nth_Cons_0 nth_Cons_Suc One_nat_def, simp_all)
    then show ?thesis by (intro step) (simp_all add: 5 d)
  next
    case 6
    then have "fork_table.typed E (\<lambda>k ts. True) T'" using assms(3) by (intro fork_table.typed_create [OF t(6)]) (simp_all only: d nth_Cons_0 nth_Cons_Suc One_nat_def, simp_all)
    then show ?thesis by (intro step) (simp_all add: 6 d)
  qed
qed

lemma stmt_keeps_types:
  assumes "codec_ok E" and "stmt_ok E W s" and "tables_typed E W T" and "run_stmt s T = Some T'"
  shows "tables_typed E W T'"
proof -
  from assms(3) have t: "state_table.typed (\<lambda>k h. True) T" "addr_table.typed (\<lambda>k a. adHash a = k \<and> addr_ok a) T"
    "utxo_table.typed E W (\<lambda>k u. utOp u = k) T" "stxo_table.typed E W (\<lambda>k s. utOp (stUTXO s) = k) T"
    "tx_table.typed (\<lambda>k t. utxHash t = k) T" "fork_table.typed E (\<lambda>k ts. True) T" by (simp_all add: tables_typed_def)
  note step = tables_typed_step [OF assms(3,4)]
  from assms(2) show ?thesis
  proof cases
    case create
    then show ?thesis using assms(3,4) by (rule create_keeps_types)
  next
    case (utxo u)
    note r = assms(4) [unfolded utxo utxo_stmt_row]
    have "utxo_table.typed E W (\<lambda>k u. utOp u = k) T'" by (rule utxo_table.typed_insert [OF assms(1) t(3) refl r])
    then show ?thesis by (intro step) (simp_all add: utxo utxo_stmt_row)
  next
    case (stxo s)
    note r = assms(4) [unfolded stxo stxo_stmt_row]
    have "stxo_table.typed E W (\<lambda>k s. utOp (stUTXO s) = k) T'" by (rule stxo_table.typed_insert [OF assms(1) t(4) refl r])
    then show ?thesis by (intro step) (simp_all add: stxo stxo_stmt_row)
  next
    case (transaction u)
    note r = assms(4) [unfolded transaction tx_stmt_row]
    have "tx_table.typed (\<lambda>k t. utxHash t = k) T'" by (rule tx_table.typed_insert [OF TrueI t(5) refl r])
    then show ?thesis by (intro step) (simp_all add: transaction tx_stmt_row)
  next
    case (fork hash txs)
    have f: "fork_stmt E hash txs = InsertOrReplace ''ForkTxs'' [''Hash'', ''Num'', ''RawData''] (WalletTables.hash_key hash # fork_vals E txs)"
      by (simp add: fork_stmt_def WalletTables.hash_key_def fork_vals_def)
    note r = assms(4) [unfolded fork f]
    have "fork_table.typed E (\<lambda>k ts. True) T'" by (rule fork_table.typed_insert [OF TrueI t(6) TrueI r])
    then show ?thesis by (intro step) (simp_all add: fork f)
  next
    case (address h s a)
    note r = assms(4) [unfolded address(1) addr_stmt_row]
    have "adHash (NewAddr h s a) = h \<and> addr_ok (NewAddr h s a)" using address(2) by (simp add: NewAddr_def)
    from addr_table.typed_insert [OF TrueI t(2) this r] show ?thesis by (intro step) (simp_all add: address(1) addr_stmt_row)
  next
    case (height h)
    note r = assms(4) [unfolded height height_stmt_def]
    have "state_table.typed (\<lambda>k h. True) T'" by (rule state_table.typed_insert [OF TrueI t(1) TrueI r])
    then show ?thesis by (intro step) (simp_all add: height height_stmt_def)
  next
    case (delete n c v)
    note r = assms(4) [unfolded delete(1)]
    show ?thesis
      by (rule step) (use delete(2) r in \<open>auto simp: delete(1) wallet_tables_def
          intro: state_table.typed_delete [OF t(1)] addr_table.typed_delete [OF t(2)] utxo_table.typed_delete [OF t(3)]
            stxo_table.typed_delete [OF t(4)] tx_table.typed_delete [OF t(5)] fork_table.typed_delete [OF t(6)] simp del: run_stmt.simps\<close>)
  next
    case (drop n)
    note r = assms(4) [unfolded drop(1)]
    show ?thesis
    proof (cases "n = ''TXNs''")
      case True
      with r have "T' = T" using assms(3) by (auto simp: tables_typed_def fun_upd_idem)
      with assms(3) show ?thesis by simp
    next
      case False
      show ?thesis
        by (rule step) (use drop(2) False r in \<open>auto simp: drop(1) wallet_tables_def
            intro: state_table.typed_drop addr_table.typed_drop utxo_table.typed_drop
              stxo_table.typed_drop tx_table.typed_drop fork_table.typed_drop simp del: run_stmt.simps\<close>)
    qed
  qed
qed

lemma run_keeps_types:
  assumes "codec_ok E" and "\<forall>s \<in> set ss. stmt_ok E W s" and "tables_typed E W T" and "run_stmts ss T = Some T'"
  shows "tables_typed E W T'"
  using assms(2-4)
proof (induction ss arbitrary: T)
  case (Cons s ss)
  then obtain T1 where "run_stmt s T = Some T1" "run_stmts ss T1 = Some T'" by (auto split: option.splits)
  with Cons stmt_keeps_types [OF assms(1), of W s T T1] show ?case by simp
qed simp

subsection \<open>The operations\<close>

text \<open>Of statements that fail together, some at the beginning may have taken effect; a single one has none. Some
  failures (a full disk, an I/O error) make SQLite roll the whole transaction back; they are excluded here.\<close>

definition sqlite_partial :: "('d, 'x) sqlite \<Rightarrow> bool" where
  "sqlite_partial Q \<longleftrightarrow>
     (\<forall>ss d e d'. sqExec Q ss d = (Some e, d') \<longrightarrow> (\<exists>k. run_stmts (take k ss) (sqHolds Q d) = Some (sqHolds Q d'))) \<and>
     (\<forall>ss x e x'. sqTxExec Q ss x = (Some e, x') \<longrightarrow> (\<exists>k. run_stmts (take k ss) (sqTxHolds Q x) = Some (sqTxHolds Q x')))"

text \<open>What the proofs below assume of the code outside the wallet.\<close>

definition typing_env :: "codec \<Rightarrow> wcodec \<Rightarrow> ('d, 'x) sqlite \<Rightarrow> bool" where
  "typing_env E W Q \<longleftrightarrow> codec_ok E \<and> wcodec_ok W \<and> sqlite_ok Q \<and> sqlite_partial Q"

abbreviation db_typed :: "codec \<Rightarrow> wcodec \<Rightarrow> ('d, 'x) sqlite \<Rightarrow> 'd \<Rightarrow> bool" where
  "db_typed E W Q d \<equiv> tables_typed E W (sqHolds Q d)"

abbreviation tx_typed :: "codec \<Rightarrow> wcodec \<Rightarrow> ('d, 'x) sqlite \<Rightarrow> 'x \<Rightarrow> bool" where
  "tx_typed E W Q x \<equiv> tables_typed E W (sqTxHolds Q x)"

lemma prefix_keeps_types:
  assumes "codec_ok E" and "\<forall>s \<in> set ss. stmt_ok E W s" and "tables_typed E W T" and "run_stmts (take k ss) T = Some T'"
  shows "tables_typed E W T'"
  using run_keeps_types [OF assms(1) _ assms(3,4)] assms(2) set_take_subset [of k ss] by blast

lemma exec_typed:
  assumes "typing_env E W Q" and "\<forall>s \<in> set ss. stmt_ok E W s" and "db_typed E W Q d"
  shows "db_typed E W Q (snd (sqExec Q ss d))"
proof (cases "sqExec Q ss d")
  case (Pair e d')
  have env: "codec_ok E" "sqlite_ok Q" "sqlite_partial Q" using assms(1) by (simp_all add: typing_env_def)
  show ?thesis
  proof (cases e)
    case None
    with Pair run_keeps_types [OF env(1) assms(2,3)] sqlite_exec [OF env(2)] show ?thesis by simp
  next
    case (Some x)
    with Pair env(3) obtain k where "run_stmts (take k ss) (sqHolds Q d) = Some (sqHolds Q d')"
      unfolding sqlite_partial_def by blast
    with Pair prefix_keeps_types [OF env(1) assms(2,3)] show ?thesis by simp
  qed
qed

lemma tx_exec_typed:
  assumes "typing_env E W Q" and "\<forall>s \<in> set ss. stmt_ok E W s" and "tx_typed E W Q x"
  shows "tx_typed E W Q (snd (sqTxExec Q ss x))"
proof (cases "sqTxExec Q ss x")
  case (Pair e x')
  have env: "codec_ok E" "sqlite_ok Q" "sqlite_partial Q" using assms(1) by (simp_all add: typing_env_def)
  show ?thesis
  proof (cases e)
    case None
    with Pair run_keeps_types [OF env(1) assms(2,3)] sqlite_tx_exec [OF env(2)] show ?thesis by simp
  next
    case (Some y)
    with Pair env(3) obtain k where "run_stmts (take k ss) (sqTxHolds Q x) = Some (sqTxHolds Q x')"
      unfolding sqlite_partial_def by blast
    with Pair prefix_keeps_types [OF env(1) assms(2,3)] show ?thesis by simp
  qed
qed

lemma commit_typed:
  assumes "typing_env E W Q" and "tx_typed E W Q x" and "db_typed E W Q d"
  shows "db_typed E W Q (snd (sqCommit Q x d))"
proof (cases "sqCommit Q x d")
  case (Pair e d')
  have "sqlite_ok Q" using assms(1) by (simp add: typing_env_def)
  with Pair assms(2,3) show ?thesis
    by (cases e) (simp_all add: sqlite_commit sqlite_commit_failed)
qed

text \<open>A step of the loops over a block.\<close>

lemma batch_puts_typed:
  assumes "typing_env E W Q" and "tx_typed E W Q x"
  shows "tx_typed E W Q (snd (wuBatch_Put E W Q u x))" and "tx_typed E W Q (snd (wtBatch_Put E W Q t x))"
    and "tx_typed E W Q (snd (wxBatch_Put Q r x))"
proof -
  have w: "wcodec_ok W" using assms(1) by (simp add: typing_env_def)
  show "tx_typed E W Q (snd (wuBatch_Put E W Q u x))" "tx_typed E W Q (snd (wtBatch_Put E W Q t x))" "tx_typed E W Q (snd (wxBatch_Put Q r x))"
    unfolding wuBatch_Put_def wtBatch_Put_def wxBatch_Put_def fixed_bytes(1) [OF w] sum.case
    by (rule tx_exec_typed [OF assms(1) _ assms(2)], simp add: stmt_ok.intros)+
qed

lemma put_inputs_typed:
  assumes "typing_env E W Q" and "tx_typed E W Q x"
  shows "tx_typed E W Q (snd (put_inputs E W Q height txId d ins hits x))"
  using assms(2)
proof (induction ins arbitrary: hits x)
  case (Cons i ins)
  show ?case
  proof (cases "wu_Get E W Q (NewOutPoint (opTxID (inPrevious i)) (opIndex (inPrevious i))) d")
    case (Inl e)
    with Cons show ?thesis by simp
  next
    case (Inr u)
    obtain e x1 where p: "wtBatch_Put E W Q (NewSTXO u height txId) x = (e, x1)" by fastforce
    with batch_puts_typed(2) [OF assms(1) Cons.prems, of "NewSTXO u height txId"] have "tx_typed E W Q x1" by simp
    with Cons.IH Inr p show ?thesis by (cases e) simp_all
  qed
qed simp

lemma put_outputs_typed:
  assumes "typing_env E W Q" and "tx_typed E W Q x" and "put_outputs E W Q height tx index outs hits s x = (r, s', x')"
  shows "tx_typed E W Q x' \<and> wlDb s' = wlDb s"
  using assms(2,3)
proof (induction outs arbitrary: index hits s x)
  case (Cons out outs)
  obtain f s1 where f: "getAddrFilter E Q s = (f, s1)" by fastforce
  with getAddrFilter_again [OF f] have d: "wlDb s1 = wlDb s" by simp
  let ?u = "NewUTXO (txHash tx) height index (outValue out)
    (if txType tx = CoinBase then height + 100 else outOutputLock out) (outProgramHash out)"
  show ?case
  proof (cases "ContainAddr (outProgramHash out) f")
    case False
    with Cons.prems(2) f have "put_outputs E W Q height tx (index + 1) outs hits s1 x = (r, s', x')" by simp
    from Cons.IH [OF Cons.prems(1) this] d show ?thesis by simp
  next
    case True
    obtain e x1 where p: "wuBatch_Put E W Q ?u x = (e, x1)" by fastforce
    with batch_puts_typed(1) [OF assms(1) Cons.prems(1), of ?u] have t: "tx_typed E W Q x1" by simp
    show ?thesis
    proof (cases e)
      case None
      with Cons.prems(2) f True p have "put_outputs E W Q height tx (index + 1) outs (hits + 1) s1 x1 = (r, s', x')"
        by (simp add: Let_def)
      from Cons.IH [OF t this] d show ?thesis by simp
    next
      case (Some y)
      with Cons.prems(2) f True p t d show ?thesis by (auto simp: Let_def)
    qed
  qed
qed simp

lemma wl_putTx_typed:
  assumes "typing_env E W Q" and "tx_typed E W Q x" and "wl_putTx E W Q now tx height s x = (r, s', x')"
  shows "tx_typed E W Q x' \<and> wlDb s' = wlDb s"
proof -
  obtain h x1 where i: "put_inputs E W Q height (txHash tx) (wlDb s) (txInputs tx) 0 x = (h, x1)" by fastforce
  with put_inputs_typed [OF assms(1,2), of height "txHash tx" "wlDb s" "txInputs tx" 0] have t1: "tx_typed E W Q x1" by simp
  show ?thesis
  proof (cases h)
    case None
    with assms(3) i t1 show ?thesis by (auto simp: wl_putTx_def)
  next
    case (Some hits)
    obtain r2 s2 x2 where o: "put_outputs E W Q height tx 0 (txOutputs tx) hits s x1 = (r2, s2, x2)" by (metis prod_cases3)
    from put_outputs_typed [OF assms(1) t1 o] have t2: "tx_typed E W Q x2" "wlDb s2 = wlDb s" by simp_all
    obtain e x3 where p: "wxBatch_Put Q (NewTx E now tx height) x2 = (e, x3)" by fastforce
    with batch_puts_typed(3) [OF assms(1) t2(1), of "NewTx E now tx height"] have "tx_typed E W Q x3" by simp
    with assms(3) i Some o t2 p show ?thesis
      by (cases r2; cases e) (auto simp: wl_putTx_def split: if_splits)
  qed
qed

lemma wl_put_loop_typed:
  assumes "typing_env E W Q" and "tx_typed E W Q x" and "wl_put_loop E W Q now height txs fps s x = (r, s', x')"
  shows "tx_typed E W Q x' \<and> wlDb s' = wlDb s"
  using assms(2,3)
proof (induction txs arbitrary: fps s x)
  case (Cons tx txs)
  obtain r1 s1 x1 where p: "wl_putTx E W Q now tx height s x = (r1, s1, x1)" by (metis prod_cases3)
  from wl_putTx_typed [OF assms(1) Cons.prems(1) p] have t: "tx_typed E W Q x1" "wlDb s1 = wlDb s" by simp_all
  show ?case
  proof (cases r1)
    case (Inl e)
    with Cons.prems(2) p t show ?thesis by auto
  next
    case (Inr fp)
    with Cons.prems(2) p have "wl_put_loop E W Q now height txs (if fp then fps + 1 else fps) s1 x1 = (r, s', x')" by simp
    from Cons.IH [OF t(1) this] t(2) show ?thesis by simp
  qed
qed simp

text \<open>The operations of the wallet and of its client on the database they share.\<close>

datatype wallet_op =
    StoreBlock u64 "txn list" u32 | StoreFork u64 "txn list" uint256 | TakeBack u32 | Committed bool block
  | PutAddress uint168 bytes int | DelAddress uint168 | ClearTables | OpenTables

fun wallet_op_step :: "codec \<Rightarrow> wcodec \<Rightarrow> ('d, 'x) sqlite \<Rightarrow> wallet_op \<Rightarrow> 'd wallet \<Rightarrow> 'd wallet" where
  "wallet_op_step E W Q (StoreBlock now txs height) s = snd (wl_PutTxs E W Q now txs height s)"
| "wallet_op_step E W Q (StoreFork now txs hash) s = snd (wl_PutForkTxs E Q now txs hash s)"
| "wallet_op_step E W Q (TakeBack height) s = snd (wl_DelTxs Q height s)"
| "wallet_op_step E W Q (Committed current blk) s = wl_BlockCommitted Q current blk s"
| "wallet_op_step E W Q (PutAddress h script t) s = s\<lparr>wlDb := snd (cl_AddAddress Q h script t (wlDb s))\<rparr>"
| "wallet_op_step E W Q (DelAddress h) s = s\<lparr>wlDb := snd (cl_DeleteAddress Q h (wlDb s))\<rparr>"
| "wallet_op_step E W Q ClearTables s = snd (wl_Clear Q s)"
| "wallet_op_step E W Q OpenTables s = s\<lparr>wlDb := snd (wd_New Q (wlDb s))\<rparr>"

text \<open>The type of an address is an \<open>int\<close>.\<close>

fun wallet_op_ok :: "wallet_op \<Rightarrow> bool" where
  "wallet_op_ok (PutAddress h script t) = addr_ok (NewAddr h script t)"
| "wallet_op_ok _ = True"

lemma then_do_typed:
  assumes "db_typed E W Q (snd r)" and "\<And>d. db_typed E W Q d \<Longrightarrow> db_typed E W Q (snd (f d))"
  shows "db_typed E W Q (snd (then_do r f))"
proof -
  obtain e d where "r = (e, d)" by fastforce
  with assms show ?thesis by (cases e) (simp_all add: then_do_def)
qed

lemma wd_New_typed:
  assumes "typing_env E W Q" and "db_typed E W Q d"
  shows "db_typed E W Q (snd (wd_New Q d))"
proof -
  have "db_typed E W Q (snd (sqExec Q [s] d))" if "db_typed E W Q d" "s \<in> set [CreateStateDB, CreateAddrsDB, CreateUTXOsDB, CreateSTXOsDB]" for s d
    using exec_typed [OF assms(1) _ that(1), of "[s]"] stmt_ok.create [of s E W] that(2) by auto
  moreover have "db_typed E W Q (snd (sqExec Q CreateTxsDB d))" if "db_typed E W Q d" for d
    using exec_typed [OF assms(1) _ that, of CreateTxsDB] stmt_ok.create [of _ E W] by auto
  ultimately show ?thesis using assms(2)
    unfolding wd_New_def ws_New_def wa_New_def wu_New_def wt_New_def wx_New_def by (intro then_do_typed) simp_all
qed

lemma wl_PutTxs_typed:
  assumes "typing_env E W Q" and "db_typed E W Q (wlDb s)"
  shows "db_typed E W Q (wlDb (snd (wl_PutTxs E W Q now txs height s)))"
proof (cases "sqBegin Q (wlDb s)")
  case (Inr x)
  have "tx_typed E W Q x" using assms sqlite_begin [OF _ Inr] by (simp add: typing_env_def)
  moreover obtain r s1 x1 where l: "wl_put_loop E W Q now height txs 0 s x = (r, s1, x1)" by (metis prod_cases3)
  ultimately have t: "tx_typed E W Q x1" "wlDb s1 = wlDb s" using wl_put_loop_typed [OF assms(1)] by simp_all
  obtain e d where c: "sqCommit Q x1 (wlDb s) = (e, d)" by fastforce
  with commit_typed [OF assms(1) t(1) assms(2)] have "db_typed E W Q d" by simp
  with assms(2) Inr l t(2) c show ?thesis
    by (cases r; cases e) (simp_all add: wl_PutTxs_def wd_Batch_def begin_batch_def)
qed (use assms(2) in \<open>simp add: wl_PutTxs_def wd_Batch_def begin_batch_def\<close>)

lemma wl_Clear_typed:
  assumes "typing_env E W Q" and "db_typed E W Q (wlDb s)"
  shows "db_typed E W Q (wlDb (snd (wl_Clear Q s)))"
proof (cases "sqBegin Q (wlDb s)")
  case (Inr x)
  let ?drop = "[DropTable ''State'', DropTable ''UTXOs'', DropTable ''STXOs'', DropTable ''TXNs'']"
  have "tx_typed E W Q x" using assms sqlite_begin [OF _ Inr] by (simp add: typing_env_def)
  then have "tx_typed E W Q (snd (sqTxExec Q ?drop x))"
    by (intro tx_exec_typed [OF assms(1)]) (auto intro: stmt_ok.drop simp: wallet_tables_def)
  moreover obtain e x1 where p: "sqTxExec Q ?drop x = (e, x1)" by fastforce
  ultimately have "db_typed E W Q (snd (sqCommit Q x1 (wlDb s)))" using commit_typed [OF assms(1) _ assms(2)] by simp
  with assms(2) Inr p show ?thesis by (cases e) (auto simp: wl_Clear_def wd_Clear_def Let_def split: prod.split)
qed (use assms(2) in \<open>simp add: wl_Clear_def wd_Clear_def\<close>)

lemma wallet_op_typed:
  assumes "typing_env E W Q" and "db_typed E W Q (wlDb s)" and "wallet_op_ok op"
  shows "db_typed E W Q (wlDb (wallet_op_step E W Q op s))"
proof -
  have exec: "db_typed E W Q (snd (sqExec Q [st] (wlDb s)))" if "stmt_ok E W st" for st
    using exec_typed [OF assms(1) _ assms(2), of "[st]"] that by simp
  show ?thesis
  proof (cases op)
    case (StoreBlock now txs height)
    with wl_PutTxs_typed [OF assms(1,2)] show ?thesis by simp
  next
    case (StoreFork now txs hash)
    with exec [OF stmt_ok.fork, of hash "map (\<lambda>tx. NewTx E now tx 0) txs"] show ?thesis
      by (auto simp: wl_PutForkTxs_def wx_PutForkTxs_def fork_stmt_def Let_def split: prod.split)
  next
    case (TakeBack height)
    have "sqlite_ok Q" "sqHolds Q (wlDb s) ''TXNs'' = None" using assms(1,2) by (simp_all add: typing_env_def tables_typed_def)
    from wl_DelTxs_fails [OF this, of height] TakeBack assms(2) show ?thesis by auto
  next
    case (Committed current blk)
    with exec [OF stmt_ok.height, of "hdrHeight (blkHeader blk)"] assms(2) show ?thesis
      by (simp add: wl_BlockCommitted_def PutHeight_def height_stmt_def)
  next
    case (PutAddress h script t)
    with exec [OF stmt_ok.address, of h script t] assms(3) show ?thesis by (simp add: cl_AddAddress_def wa_Put_def)
  next
    case (DelAddress h)
    with exec [OF stmt_ok.delete, of "''Addrs''"] show ?thesis
      by (simp add: cl_DeleteAddress_def wa_Del_def wallet_tables_def)
  next
    case ClearTables
    with wl_Clear_typed [OF assms(1,2)] show ?thesis by simp
  next
    case OpenTables
    with wd_New_typed [OF assms(1,2)] show ?thesis by simp
  qed
qed

lemma wallet_ops_typed:
  "typing_env E W Q \<Longrightarrow> db_typed E W Q (wlDb s) \<Longrightarrow> \<forall>op \<in> set ops. wallet_op_ok op \<Longrightarrow>
    db_typed E W Q (wlDb (fold (wallet_op_step E W Q) ops s))"
  by (induction ops arbitrary: s) (simp_all add: wallet_op_typed)

text \<open>A table that is there is read to its end.\<close>

lemma typed_reads:
  assumes "typing_env E W Q" and "db_typed E W Q d" and "sql_reads Q d"
  shows "sqHolds Q d ''UTXOs'' \<noteq> None \<Longrightarrow> \<exists>us. wu_GetAll E W Q d = (us, None)"
    and "sqHolds Q d ''STXOs'' \<noteq> None \<Longrightarrow> \<exists>ss. wt_GetAll E W Q d = (ss, None)"
    and "sqHolds Q d ''Txs'' \<noteq> None \<Longrightarrow> \<exists>ts. wx_GetAllFrom W Q height d = (ts, None)"
    and "sqHolds Q d ''Addrs'' \<noteq> None \<Longrightarrow> \<exists>as. cl_GetAddrs E Q d = (as, None)"
proof -
  have env: "codec_ok E" "wcodec_ok W" "sqlite_ok Q" using assms(1) by (simp_all add: typing_env_def)
  from assms(2) have t: "addr_table.typed (\<lambda>k a. adHash a = k \<and> addr_ok a) (sqHolds Q d)"
    "utxo_table.typed E W (\<lambda>k u. utOp u = k) (sqHolds Q d)" "stxo_table.typed E W (\<lambda>k s. utOp (stUTXO s) = k) (sqHolds Q d)"
    "tx_table.typed (\<lambda>k t. utxHash t = k) (sqHolds Q d)" by (simp_all add: tables_typed_def)
  show "\<exists>us. wu_GetAll E W Q d = (us, None)" if "sqHolds Q d ''UTXOs'' \<noteq> None"
    unfolding wu_GetAll_def using scan_utxo_row [OF env(1,2)]
    by (intro utxo_table.typed_read [OF t(2) that env(3) assms(3), where kf = utOp]) auto
  show "\<exists>ss. wt_GetAll E W Q d = (ss, None)" if "sqHolds Q d ''STXOs'' \<noteq> None"
    unfolding wt_GetAll_def using scan_stxo_row [OF env(1,2)]
    by (intro stxo_table.typed_read [OF t(3) that env(3) assms(3), where kf = "\<lambda>s. utOp (stUTXO s)"]) auto
  show "\<exists>ts. wx_GetAllFrom W Q height d = (ts, None)" if "sqHolds Q d ''Txs'' \<noteq> None"
    unfolding wx_GetAllFrom_def using scan_tx_row [OF env(2)]
    by (intro tx_table.typed_read [OF t(4) that env(3) assms(3), where kf = utxHash]) (auto split: if_splits)
  show "\<exists>as. cl_GetAddrs E Q d = (as, None)" if "sqHolds Q d ''Addrs'' \<noteq> None"
    unfolding cl_GetAddrs_def wa_GetAll_def using scan_addr_row [OF env(1)]
    by (intro addr_table.typed_read [OF t(1) that env(3) assms(3), where kf = adHash]) auto
qed

text \<open>C34: Whatever the wallet and its client do with a new database, and whichever of their operations fail in the
  middle, a table is either missing or well typed: every row has the columns of its table and decodes to a value
  with the row's key. So a table that is there is always read without an error by a database that answers.\<close>

theorem wallet_tables_typed:
  assumes "typing_env E W Q" and "sqHolds Q (wlDb s) = Map.empty" and "\<forall>op \<in> set ops. wallet_op_ok op"
    and "d = wlDb (fold (wallet_op_step E W Q) ops s)"
  shows "tables_typed E W (sqHolds Q d) \<and> (sql_reads Q d \<longrightarrow>
    (sqHolds Q d ''UTXOs'' \<noteq> None \<longrightarrow> (\<exists>us. wu_GetAll E W Q d = (us, None))) \<and>
    (sqHolds Q d ''STXOs'' \<noteq> None \<longrightarrow> (\<exists>ss. wt_GetAll E W Q d = (ss, None))) \<and>
    (sqHolds Q d ''Txs'' \<noteq> None \<longrightarrow> (\<forall>height. \<exists>ts. wx_GetAllFrom W Q height d = (ts, None))) \<and>
    (sqHolds Q d ''Addrs'' \<noteq> None \<longrightarrow> (\<exists>as. cl_GetAddrs E Q d = (as, None))))"
proof -
  have "db_typed E W Q (wlDb s)" unfolding assms(2) by (rule no_tables_typed)
  from wallet_ops_typed [OF assms(1) this assms(3)] have t: "db_typed E W Q d" by (simp only: assms(4))
  with typed_reads [OF assms(1) t] show ?thesis by blast
qed

text \<open>A wallet that opens its database, adds an address, stores a block that pays to it, and is cleared and opened again.\<close>

lemma sqlite0_partial: "sqlite_partial sqlite0"
  unfolding sqlite_partial_def sqlite0_def
  by (auto split: option.splits intro!: exI [of _ 0])

lemma sqlite0_create: "\<exists>T'. sqExec sqlite0 [CreateTable n cs k] T = (None, T') \<and> dom T' = insert n (dom T)"
  "\<exists>T'. sqExec sqlite0 [CreateTable n cs k, CreateTable n' cs' k'] T = (None, T') \<and> dom T' = insert n (insert n' (dom T))"
  by (auto simp: sqlite0_def split: option.split)

lemma sqlite0_open: "set wallet_tables \<subseteq> dom (snd (wd_New sqlite0 T))"
proof -
  obtain T1 where 1: "ws_New sqlite0 T = (None, T1)" "dom T1 = insert ''State'' (dom T)"
    using sqlite0_create(1) unfolding ws_New_def CreateStateDB_def by blast
  obtain T2 where 2: "wa_New sqlite0 T1 = (None, T2)" "dom T2 = insert ''Addrs'' (dom T1)"
    using sqlite0_create(1) unfolding wa_New_def CreateAddrsDB_def by blast
  obtain T3 where 3: "wu_New sqlite0 T2 = (None, T3)" "dom T3 = insert ''UTXOs'' (dom T2)"
    using sqlite0_create(1) unfolding wu_New_def CreateUTXOsDB_def by blast
  obtain T4 where 4: "wt_New sqlite0 T3 = (None, T4)" "dom T4 = insert ''STXOs'' (dom T3)"
    using sqlite0_create(1) unfolding wt_New_def CreateSTXOsDB_def by blast
  obtain T5 where 5: "wx_New sqlite0 T4 = (None, T5)" "dom T5 = insert ''Txs'' (insert ''ForkTxs'' (dom T4))"
    unfolding wx_New_def CreateTxsDB_def
    using sqlite0_create(2) [of "''Txs''" "[(''Hash'', True), (''Height'', True), (''Timestamp'', True), (''RawData'', True)]" "''Hash''"
      "''ForkTxs''" "[(''Hash'', True), (''Num'', True), (''RawData'', True)]" "''Hash''" T4] by auto
  have "wd_New sqlite0 T = (None, T5)" using 1(1) 2(1) 3(1) 4(1) 5(1) by (simp add: wd_New_def then_do_def)
  with 1(2) 2(2) 3(2) 4(2) 5(2) show ?thesis by (auto simp: wallet_tables_def)
qed

theorem wallet_tables_typed_witness:
  "\<exists>d us as. d = wlDb (fold (wallet_op_step codec0 wcodec0 sqlite0)
      [OpenTables, PutAddress 7 [1] TypeMaster, StoreBlock 0 [sample_pay] 10, TakeBack 10, ClearTables, OpenTables]
      \<lparr>wlDb = Map.empty, wlFilter = None, wlUpdates = 0\<rparr>) \<and>
    wu_GetAll codec0 wcodec0 sqlite0 d = (us, None) \<and> cl_GetAddrs codec0 sqlite0 d = (as, None)"
proof -
  let ?ops = "[OpenTables, PutAddress 7 [1] TypeMaster, StoreBlock 0 [sample_pay] 10, TakeBack 10, ClearTables, OpenTables]"
  let ?s = "\<lparr>wlDb = Map.empty, wlFilter = None, wlUpdates = 0\<rparr> :: tables wallet"
  have e: "typing_env codec0 wcodec0 sqlite0" by (simp add: typing_env_def sqlite0_partial codec0_ok)
  have o: "\<forall>op \<in> set ?ops. wallet_op_ok op" by (simp add: addr_ok_def NewAddr_def TypeMaster_def)
  define d1 where "d1 = wlDb (fold (wallet_op_step codec0 wcodec0 sqlite0) (butlast ?ops) ?s)"
  have d: "wlDb (fold (wallet_op_step codec0 wcodec0 sqlite0) ?ops ?s) = snd (wd_New sqlite0 d1)" by (simp add: d1_def)
  have "snd (wd_New sqlite0 d1) ''UTXOs'' \<noteq> None" "snd (wd_New sqlite0 d1) ''Addrs'' \<noteq> None"
    using sqlite0_open [of d1] by (auto simp: wallet_tables_def)
  with wallet_tables_typed [OF e _ o refl, of ?s, unfolded d sqlite0_holds] show ?thesis unfolding d by auto
qed

end
