(* ===== verification/WalletOpen.thy ===== *)
theory WalletOpen
  imports Service WalletTypes
begin

text \<open>
  The SPV wallet as a whole (\<open>NewWallet\<close> in \<open>spvwallet.go\<close>): its two databases under one chain store, the service on
  top of it, and the actions of its JSON-RPC server. A wallet that is closed and opened again finds the same chain
  and the same tables.
\<close>

subsection \<open>spvwallet.go: NewWallet\<close>

text \<open>The parameters of a network are those of package \<open>config\<close> of Elastos.ELA.\<close>

datatype network = MainNet | TestNet | RegNet

definition select_network :: "string \<Rightarrow> network" where
  "select_network name =
     (if name \<in> {''testnet'', ''test'', ''t''} then TestNet
      else if name \<in> {''regnet'', ''reg'', ''r''} then RegNet
      else MainNet)"

definition wallet_store ::
  "codec \<Rightarrow> 'd leveldb \<Rightarrow> 'm omap \<Rightarrow> wcodec \<Rightarrow> ('e, 'x) sqlite \<Rightarrow> u64 \<Rightarrow> (('d, 'm) hstore, 'e wallet) chaindb chain_store" where
  "wallet_store E L M W Q now =
     chainDB (wallet_headers E L M (\<lambda>s. (None, s))) (wallet_txs E W Q now (\<lambda>s. (None, s)))"

text \<open>\<open>genesis\<close> is the header of the genesis block of a network.\<close>

definition NewWallet ::
  "codec \<Rightarrow> 'd leveldb \<Rightarrow> 'm omap \<Rightarrow> wcodec \<Rightarrow> ('e, 'x) sqlite \<Rightarrow> u64 \<Rightarrow>
   (('d, 'm) hstore, 'e wallet) chaindb sm_config \<Rightarrow> string \<Rightarrow> (network \<Rightarrow> bheader) \<Rightarrow> (nat \<Rightarrow> 'p speer) \<Rightarrow>
   goerror + 'd \<Rightarrow> goerror + 'e \<Rightarrow> goerror + ('p, (('d, 'm) hstore, 'e wallet) chaindb, 'r) service" where
  "NewWallet E L M W Q now V networkName genesis peers openedHeaders openedDb =
     (case wh_NewDatabase E L M openedHeaders of
        Inl e \<Rightarrow> Inl e
      | Inr headers \<Rightarrow>
     (case openedDb of
        Inl e \<Rightarrow> Inl e
      | Inr d \<Rightarrow>
     (case wd_New Q d of
        (Some e, d) \<Rightarrow> Inl e
      | (None, d) \<Rightarrow>
          (let w = \<lparr>wlDb = d, wlFilter = None, wlUpdates = 0\<rparr>; params = select_network networkName
           in newService (V\<lparr>cfChain := wallet_store E L M W Q now\<rparr>) (genesis params) peers \<lparr>cdH = headers, cdT = w\<rparr>))))"

text \<open>The actions that are registered, by name, each with its one parameter.\<close>

definition wallet_rpc ::
  "codec \<Rightarrow> ('d, 'x) sqlite \<Rightarrow> (txn \<Rightarrow> goerror option) \<Rightarrow> string \<Rightarrow> string option \<Rightarrow> 'd wallet \<Rightarrow> (goerror option \<times> 'd wallet) option" where
  "wallet_rpc E Q send action param s =
     (if action = ''notifynewaddress'' then Some (notifyNewAddress E Q param s)
      else if action = ''sendrawtransaction'' then Some (rpc_sendTransaction E send param, s)
      else None)"

text \<open>The calls the client makes are among them.\<close>

lemma client_calls_served:
  assumes "NewSubAccount C F Q HashString password c = (Inr h, c')"
  shows "wallet_rpc E Q send (fst (last (clCalls c'))) (Some (HashString h)) s = Some (notifyNewAddress E Q (Some (HashString h)) s)"
    and "Wallet_SendTransaction encode (\<lambda>action dat. case wallet_rpc E Q send action (Some dat) s of None \<Rightarrow> None | Some (e, s) \<Rightarrow> e) tx =
      Wallet_SendTransaction encode (\<lambda>action dat. rpc_sendTransaction E send (Some dat)) tx"
proof -
  have "fst (last (clCalls c')) = ''notifynewaddress''"
    using assms by (auto simp: NewSubAccount_def Let_def split: sum.splits prod.splits option.splits)
  then show "wallet_rpc E Q send (fst (last (clCalls c'))) (Some (HashString h)) s = Some (notifyNewAddress E Q (Some (HashString h)) s)"
    by (simp add: wallet_rpc_def)
  show "Wallet_SendTransaction encode (\<lambda>action dat. case wallet_rpc E Q send action (Some dat) s of None \<Rightarrow> None | Some (e, s) \<Rightarrow> e) tx =
      Wallet_SendTransaction encode (\<lambda>action dat. rpc_sendTransaction E send (Some dat)) tx"
    by (simp add: Wallet_SendTransaction_def wallet_rpc_def split: sum.split)
qed

subsection \<open>Opening again\<close>

text \<open>The tables that exist are left as they are.\<close>

lemma create_present: "run_stmts [CreateTable n cs k] T = Some T' \<Longrightarrow> T n \<noteq> None \<Longrightarrow> T' = T"
  by (auto split: option.splits)

lemma wd_New_present:
  assumes "sqlite_ok Q" and "set wallet_tables \<subseteq> dom (sqHolds Q d)" and "wd_New Q d = (None, d')"
  shows "sqHolds Q d' = sqHolds Q d"
proof -
  from assms(3) obtain d1 d2 d3 d4 where e: "sqExec Q [CreateStateDB] d = (None, d1)" "sqExec Q [CreateAddrsDB] d1 = (None, d2)"
    "sqExec Q [CreateUTXOsDB] d2 = (None, d3)" "sqExec Q [CreateSTXOsDB] d3 = (None, d4)" "sqExec Q CreateTxsDB d4 = (None, d')"
    unfolding wd_New_def then_do_None ws_New_def wa_New_def wu_New_def wt_New_def wx_New_def by blast
  note x = sqlite_exec [OF assms(1)]
  have t: "sqHolds Q d n \<noteq> None" if "n \<in> set wallet_tables" for n using assms(2) that by auto
  have 1: "sqHolds Q d1 = sqHolds Q d" using x [OF e(1)] t [of "''State''"] unfolding CreateStateDB_def
    by (intro create_present) (simp_all add: wallet_tables_def)
  have 2: "sqHolds Q d2 = sqHolds Q d" using x [OF e(2)] t [of "''Addrs''"] unfolding CreateAddrsDB_def 1
    by (intro create_present) (simp_all add: wallet_tables_def)
  have 3: "sqHolds Q d3 = sqHolds Q d" using x [OF e(3)] t [of "''UTXOs''"] unfolding CreateUTXOsDB_def 2
    by (intro create_present) (simp_all add: wallet_tables_def)
  have 4: "sqHolds Q d4 = sqHolds Q d" using x [OF e(4)] t [of "''STXOs''"] unfolding CreateSTXOsDB_def 3
    by (intro create_present) (simp_all add: wallet_tables_def)
  show ?thesis using x [OF e(5)] t [of "''Txs''"] t [of "''ForkTxs''"] unfolding CreateTxsDB_def 4
    by (auto simp: wallet_tables_def)
qed

text \<open>A wallet that has a best header and its tables finds them when it is opened again: no genesis header is
  written, every header is found as before, and the tables are the same.\<close>

theorem wallet_reopens:
  assumes "wh_wf E L M (cdH c)" and "wh_GetBest E L (cdH c) = Inr best" and "sqlite_ok Q"
    and "set wallet_tables \<subseteq> dom (sqHolds Q (wlDb (cdT c)))"
    and "NewWallet E L M W Q now V networkName genesis peers (Inr (hsDb (cdH c))) (Inr (wlDb (cdT c))) = Inr s"
    and "c' = smChain (sdSync s)"
  shows "wh_wf E L M (cdH c')" and "wh_GetBest E L (cdH c') = Inr best" and "wh_Get E L M k (cdH c') = wh_Get E L M k (cdH c)"
    and "sqHolds Q (wlDb (cdT c')) = sqHolds Q (wlDb (cdT c))"
proof -
  obtain h where h: "wh_NewDatabase E L M (Inr (hsDb (cdH c))) = Inr h" by (simp add: wh_NewDatabase_def)
  from wh_reopen [OF assms(1) h] assms(2) have r: "wh_wf E L M h" "wh_GetBest E L h = Inr best"
    "wh_Get E L M k h = wh_Get E L M k (cdH c)" for k by simp_all
  obtain d where d: "wd_New Q (wlDb (cdT c)) = (None, d)"
    using assms(5) h by (auto simp: NewWallet_def split: prod.splits option.splits)
  let ?c = "\<lparr>cdH = h, cdT = \<lparr>wlDb = d, wlFilter = None, wlUpdates = 0\<rparr>\<rparr>"
  have b: "hGetBest (csHeaders (wallet_store E L M W Q now)) ?c = Inr best"
    using r(2) by (simp add: wallet_store_def chainDB_def chaindb_headers_def wallet_headers_def)
  with assms(5) h d have "s = fresh_service (sm_New peers ?c)" by (simp add: NewWallet_def Let_def newService_def bc_New_def)
  with assms(6) have "c' = ?c" by (simp add: fresh_service_def sm_New_def)
  with r wd_New_present [OF assms(3,4) d] show "wh_wf E L M (cdH c')" "wh_GetBest E L (cdH c') = Inr best"
    "wh_Get E L M k (cdH c') = wh_Get E L M k (cdH c)" "sqHolds Q (wlDb (cdT c')) = sqHolds Q (wlDb (cdT c))" by simp_all
qed

end
