(* ===== verification/MerkleBranch.thy ===== *)
theory MerkleBranch
  imports MerkleBuild
begin

text \<open>
  The branch of one transaction in a Merkle block (\<open>bloom/merklebranch.go\<close>): the hashes beside its path
  to the root and, as a number, on which side they are. \<open>ord\<close> is the order in which the nodes of the map
  are visited. For a transaction of the block the branch leads to the root of the header.
\<close>

subsection \<open>The code\<close>

record merkle_branch =
  brBranches :: "uint256 list"
  brIndex :: int

definition SetBits :: "bytes \<Rightarrow> bytes" where
  "SetBits flags =
     map (\<lambda>i. drop_bit (i mod 8) (flags ! (i div 8)) AND 1) [0..<unat (word_of_nat (length flags) * 8 :: u32)]"

definition mn_calcTreeWidth :: "u32 \<Rightarrow> u32 \<Rightarrow> u32" where
  "mn_calcTreeWidth n height = drop_bit (unat height) (n + push_bit (unat height) 1 - 1)"

text \<open>The first node among the leaves, and the one after them, that has the hash.\<close>

fun calcTxIndex :: "u32 \<Rightarrow> uint256 \<Rightarrow> mnode list \<Rightarrow> goerror + u32 option" where
  "calcTxIndex n txId [] = Inr None"
| "calcTxIndex n txId (x # xs) =
     (if mn_calcTreeWidth n 0 < mnP x then calcTxIndex n txId xs
      else case mnH x of
        None \<Rightarrow> Inl (Panic ''nil pointer dereference'')
      | Some h \<Rightarrow> if h = txId then Inr (Some (mnP x)) else calcTxIndex n txId xs)"

definition mn_inDeadZone :: "u32 \<Rightarrow> u32 \<Rightarrow> u32 \<Rightarrow> bool" where
  "mn_inDeadZone n txIndex height =
     (let index = drop_bit (unat height) txIndex in index = mn_calcTreeWidth n height - 1 \<and> index mod 2 = 0)"

definition isLeftLeaf :: "u32 \<Rightarrow> u32 \<Rightarrow> bool" where
  "isLeftLeaf txIndex height = (let index = drop_bit (unat height) txIndex in index mod 2 = 0)"

definition calcNodeIndex :: "u32 \<Rightarrow> u32 \<Rightarrow> u32 \<Rightarrow> u32 option" where
  "calcNodeIndex n height pos =
     (case (nextPowerOfTwo n, treeDepth n) of
        (Some p, Some d) \<Rightarrow>
          Some (fold (\<lambda>i msb. msb - push_bit i 1) [1..<Suc (unat (d - height))] (push_bit 1 p - 2) + pos)
      | _ \<Rightarrow> None)"

fun branch_route :: "u32 \<Rightarrow> u32 \<Rightarrow> u32 list \<Rightarrow> u32 list option" where
  "branch_route n txIndex [] = Some []"
| "branch_route n txIndex (height # hs) =
     (let x = drop_bit (unat height) txIndex;
          pos = (if mn_inDeadZone n txIndex height then x else if isLeftLeaf txIndex height then x + 1 else x - 1)
      in case calcNodeIndex n height pos of
           None \<Rightarrow> None
         | Some p \<Rightarrow> map_option (\<lambda>ps. p # ps) (branch_route n txIndex hs))"

definition calcBranchRoute :: "u32 \<Rightarrow> u32 \<Rightarrow> u32 list option" where
  "calcBranchRoute n txIndex =
     (case treeDepth n of None \<Rightarrow> None | Some depth \<Rightarrow> branch_route n txIndex (map word_of_nat [0..<unat depth]))"

fun collect_branch :: "(u32 \<rightharpoonup> mnode) \<Rightarrow> nat \<Rightarrow> u32 list \<Rightarrow> goerror + uint256 list \<times> int" where
  "collect_branch r i [] = Inr ([], 0)"
| "collect_branch r i (index # route) =
     (case r index of
        None \<Rightarrow> Inl (Panic ''nil pointer dereference'')
      | Some x \<Rightarrow>
          (case mnH x of
             None \<Rightarrow> Inl (Panic ''nil pointer dereference'')
           | Some h \<Rightarrow>
               (case collect_branch r (Suc i) route of
                  Inl e \<Rightarrow> Inl e
                | Inr (hs, b) \<Rightarrow> Inr (h # hs, (if index mod 2 = 0 then 2 ^ i else 0) + b))))"

text \<open>The error of \<open>calcTxIndex\<close> is not looked at: the index is then zero.\<close>

definition GetMerkleBranch ::
  "codec \<Rightarrow> ((u32 \<rightharpoonup> mnode) \<Rightarrow> mnode list) \<Rightarrow> u32 \<Rightarrow> uint256 \<Rightarrow> uint256 list \<Rightarrow> bytes \<Rightarrow> uint256 \<Rightarrow>
   (goerror + merkle_branch) option" where
  "GetMerkleBranch E ord n mroot hashes bits txId =
     (case getNodes E n mroot hashes bits of
        None \<Rightarrow> None
      | Some (Inl e) \<Rightarrow> Some (Inl e)
      | Some (Inr r) \<Rightarrow>
          (case calcTxIndex n txId (ord r) of
             Inl e \<Rightarrow> Some (Inl e)
           | Inr found \<Rightarrow>
               (case calcBranchRoute n (case found of None \<Rightarrow> 0 | Some i \<Rightarrow> i) of
                  None \<Rightarrow> None
                | Some route \<Rightarrow>
                    Some (case collect_branch r 0 route of
                            Inl e \<Rightarrow> Inl e
                          | Inr (hs, index) \<Rightarrow> Inr \<lparr>brBranches = hs, brIndex = index\<rparr>))))"

definition GetTxMerkleBranch ::
  "codec \<Rightarrow> ((u32 \<rightharpoonup> mnode) \<Rightarrow> mnode list) \<Rightarrow> merkle_block \<Rightarrow> uint256 \<Rightarrow> (goerror + merkle_branch) option" where
  "GetTxMerkleBranch E ord m txId =
     GetMerkleBranch E ord (mbTransactions m) (bhMerkleRoot (mbHeader m)) (mbHashes m) (SetBits (mbFlags m)) txId"

subsection \<open>The nodes of a parsed tree\<close>

lemma nodes_map_Nil [simp]: "nodes_map [] = Map.empty"
  by (simp add: nodes_map_def)

lemma nodes_map_append: "nodes_map (a @ b) = nodes_map a ++ nodes_map b"
proof (induction b rule: rev_induct)
  case (snoc x b)
  obtain p h f where "x = (p, h, f)" by (cases x)
  with snoc have "nodes_map (a @ b @ [x]) = (nodes_map a ++ nodes_map b)(p \<mapsto> \<lparr>mnP = p, mnH = Some h\<rparr>)"
    by (simp only: append_assoc [symmetric] nodes_map_snoc)
  with \<open>x = _\<close> show ?case by (simp only: nodes_map_snoc map_add_upd)
qed simp

lemma dom_nodes_map: "dom (nodes_map ev) = fst ` set ev"
proof (induction ev rule: rev_induct)
  case (snoc x ev)
  obtain p h f where "x = (p, h, f)" by (cases x)
  with snoc show ?case by (simp only: nodes_map_snoc dom_fun_upd) simp
qed simp

lemma nodes_map_entry: "nodes_map ev p = Some x \<Longrightarrow> \<exists>h b. x = \<lparr>mnP = p, mnH = Some h\<rparr> \<and> (p, h, b) \<in> set ev"
proof (induction ev rule: rev_induct)
  case (snoc e ev)
  obtain q h f where "e = (q, h, f)" by (cases e)
  with snoc show ?case by (auto split: if_splits)
qed simp

lemma node_inject:
  assumes "in_tree D k i" and "in_tree D k' i'" and "node D k i = node D k' i'"
  shows "k = k' \<and> i = i'"
proof -
  have e: "npos D k i = npos D k' i'" using arg_cong [OF assms(3), of unat] by (simp only: unat_node [OF assms(1)] unat_node [OF assms(2)])
  have "\<not> k < k'" if "in_tree D k i" "in_tree D k' i'" "npos D k i = npos D k' i'" for k k' i i'
    using level_start [of k k' D i'] level_end [of k D i] that by (auto simp: in_tree_def)
  with assms(1,2) e have "k = k'" by (metis linorder_neqE_nat)
  with e show ?thesis by (simp add: npos_def)
qed

text \<open>The events of a subtree are at the nodes below its root.\<close>

definition below :: "nat \<Rightarrow> nat \<Rightarrow> nat \<Rightarrow> u32 \<Rightarrow> bool" where
  "below D k i p \<longleftrightarrow> (\<exists>k' i'. p = node D k' i' \<and> k' \<le> k \<and> in_tree D k' i' \<and> i' div 2 ^ (k - k') = i)"

lemma below_self: "in_tree D k i \<Longrightarrow> below D k i (node D k i)"
  unfolding below_def by (intro exI [of _ k] exI [of _ i]) simp

lemma below_child:
  assumes "below D k i p"
  shows "below D (Suc k) (i div 2) p"
proof -
  obtain k' i' where p: "p = node D k' i'" "k' \<le> k" "in_tree D k' i'" "i' div 2 ^ (k - k') = i"
    using assms unfolding below_def by blast
  have "(2 :: nat) ^ (Suc k - k') = 2 ^ (k - k') * 2" using p(2) by (simp add: Suc_diff_le)
  then have "i' div 2 ^ (Suc k - k') = i div 2" using p(4) by (simp only: div_mult2_eq)
  with p show ?thesis unfolding below_def by (intro exI [of _ k'] exI [of _ i']) simp
qed

lemma below_unique: "below D k i p \<Longrightarrow> below D k i' p \<Longrightarrow> i = i'"
  unfolding below_def using node_inject by blast

lemma not_below: "in_tree D (Suc k) j \<Longrightarrow> \<not> below D k i (node D (Suc k) j)"
  unfolding below_def using node_inject by (metis Suc_n_not_le_n)

lemma events_below:
  "shaped E n k i t \<Longrightarrow> in_tree D k i \<Longrightarrow> e \<in> set (events E D k i t) \<Longrightarrow> below D k i (fst e)"
proof (induction t arbitrary: k i)
  case (Inner l r)
  then obtain k0 where k: "k = Suc k0" by (cases k) simp_all
  have c: "in_tree D k0 (2 * i)" "in_tree D k0 (Suc (2 * i))" using in_tree_child Inner.prems(2) unfolding k by blast+
  from Inner.prems consider "e \<in> set (events E D k0 (2 * i) l)" | "e \<in> set (events E D k0 (Suc (2 * i)) r)"
    | "fst e = node D k i" unfolding k by auto
  then show ?case
  proof cases
    case 1
    with Inner.IH(1) [OF _ c(1)] Inner.prems(1) have "below D k0 (2 * i) (fst e)" by (simp add: k)
    from below_child [OF this] show ?thesis by (simp add: k)
  next
    case 2
    with Inner.IH(2) [OF _ c(2)] Inner.prems(1) have "below D k0 (Suc (2 * i)) (fst e)" by (simp add: k)
    from below_child [OF this] show ?thesis by (simp add: k)
  next
    case 3
    with below_self [OF Inner.prems(2)] show ?thesis by simp
  qed
next
  case (Single l)
  then obtain k0 where k: "k = Suc k0" by (cases k) simp_all
  have c: "in_tree D k0 (2 * i)" using in_tree_child Single.prems(2) unfolding k by blast
  from Single.prems consider "e \<in> set (events E D k0 (2 * i) l)" | "fst e = node D k i" unfolding k by auto
  then show ?case
  proof cases
    case 1
    with Single.IH [OF _ c] Single.prems(1) have "below D k0 (2 * i) (fst e)" by (simp add: k)
    from below_child [OF this] show ?thesis by (simp add: k)
  next
    case 2
    with below_self [OF Single.prems(2)] show ?thesis by simp
  qed
qed (auto intro: below_self)

lemma map_le_disjoint: "dom a \<inter> dom b = {} \<Longrightarrow> a \<subseteq>\<^sub>m a ++ b"
  by (metis map_add_comm map_le_map_add)

text \<open>A map that has the nodes of a tree has those of its subtrees.\<close>

lemma inner_nodes:
  assumes "shaped E n (Suc k) i (Inner l r)" and "in_tree D (Suc k) i" and "nodes_map (events E D (Suc k) i (Inner l r)) \<subseteq>\<^sub>m M"
  shows "nodes_map (events E D k (2 * i) l) \<subseteq>\<^sub>m M" and "nodes_map (events E D k (Suc (2 * i)) r) \<subseteq>\<^sub>m M"
proof -
  let ?l = "events E D k (2 * i) l" and ?r = "events E D k (Suc (2 * i)) r"
    and ?x = "[(node D (Suc k) i, root_of E (Inner l r), False)]"
  have c: "in_tree D k (2 * i)" "in_tree D k (Suc (2 * i))" using in_tree_child [OF assms(2)] by blast+
  have s: "shaped E n k (2 * i) l" "shaped E n k (Suc (2 * i)) r" using assms(1) by simp_all
  have m: "nodes_map (events E D (Suc k) i (Inner l r)) = nodes_map ?l ++ nodes_map ?r ++ nodes_map ?x"
    by (simp only: events.simps diff_Suc_1 nodes_map_append map_add_assoc)
  have dl: "below D k (2 * i) p" if "p \<in> dom (nodes_map ?l)" for p
    using that events_below [OF s(1) c(1)] unfolding dom_nodes_map by auto
  have dr: "below D k (Suc (2 * i)) p" if "p \<in> dom (nodes_map ?r)" for p
    using that events_below [OF s(2) c(2)] unfolding dom_nodes_map by auto
  have dx: "dom (nodes_map ?x) = {node D (Suc k) i}" unfolding dom_nodes_map by simp
  have "dom (nodes_map ?r) \<inter> dom (nodes_map ?x) = {}" using dr not_below [OF assms(2)] unfolding dx by blast
  then have "nodes_map ?r \<subseteq>\<^sub>m nodes_map ?r ++ nodes_map ?x" by (rule map_le_disjoint)
  then have r: "nodes_map ?r \<subseteq>\<^sub>m nodes_map ?l ++ (nodes_map ?r ++ nodes_map ?x)"
    by (rule map_le_trans) (rule map_le_map_add)
  have f: "False" if p: "p \<in> dom (nodes_map ?l)" "p \<in> dom (nodes_map ?r ++ nodes_map ?x)" for p
  proof -
    from p(2) consider "p \<in> dom (nodes_map ?r)" | "p = node D (Suc k) i" unfolding dom_map_add dx by blast
    then show False
    proof cases
      case 1
      from below_unique [OF dl [OF p(1)] dr [OF 1]] show False by simp
    next
      case 2
      from dl [OF p(1)] not_below [OF assms(2)] show False unfolding 2 by blast
    qed
  qed
  have "dom (nodes_map ?l) \<inter> dom (nodes_map ?r ++ nodes_map ?x) = {}" by (intro equals0I) (erule IntE, erule (1) f)
  then have l: "nodes_map ?l \<subseteq>\<^sub>m nodes_map ?l ++ (nodes_map ?r ++ nodes_map ?x)" by (rule map_le_disjoint)
  from l r assms(3) show "nodes_map ?l \<subseteq>\<^sub>m M" and "nodes_map ?r \<subseteq>\<^sub>m M"
    unfolding m map_add_assoc [symmetric] by (auto intro: map_le_trans)
qed

lemma single_nodes:
  assumes "shaped E n (Suc k) i (Single l)" and "in_tree D (Suc k) i" and "nodes_map (events E D (Suc k) i (Single l)) \<subseteq>\<^sub>m M"
  shows "nodes_map (events E D k (2 * i) l) \<subseteq>\<^sub>m M"
proof -
  let ?l = "events E D k (2 * i) l" and ?x = "[(node D (Suc k) i, root_of E (Single l), False)]"
  have c: "in_tree D k (2 * i)" using in_tree_child [OF assms(2)] by blast
  have s: "shaped E n k (2 * i) l" using assms(1) by simp
  have m: "nodes_map (events E D (Suc k) i (Single l)) = nodes_map ?l ++ nodes_map ?x"
    by (simp only: events.simps diff_Suc_1 nodes_map_append)
  have "below D k (2 * i) p" if "p \<in> dom (nodes_map ?l)" for p
    using that events_below [OF s c] unfolding dom_nodes_map by auto
  then have "dom (nodes_map ?l) \<inter> dom (nodes_map ?x) = {}" using not_below [OF assms(2)] unfolding dom_nodes_map [of ?x] by auto
  from map_le_trans [OF map_le_disjoint [OF this]] assms(3) show ?thesis unfolding m by blast
qed

text \<open>The root of a tree is the last node to get its hash.\<close>

lemma root_node_hash: "nodes_map (events E D k i t) \<subseteq>\<^sub>m M \<Longrightarrow> M (node D k i) = Some \<lparr>mnP = node D k i, mnH = Some (root_of E t)\<rparr>"
proof -
  have "nodes_map (events E D k i t) (node D k i) = Some \<lparr>mnP = node D k i, mnH = Some (root_of E t)\<rparr>"
    by (cases t) (simp_all add: nodes_map_def flip: append_assoc)
  then show "nodes_map (events E D k i t) \<subseteq>\<^sub>m M \<Longrightarrow> M (node D k i) = Some \<lparr>mnP = node D k i, mnH = Some (root_of E t)\<rparr>"
    unfolding map_le_def by (metis domI)
qed

subsection \<open>The path of a leaf\<close>

text \<open>The node beside the path of leaf \<open>J\<close> on level \<open>j\<close>: the sibling, or the node itself if it has none.\<close>

definition beside :: "nat \<Rightarrow> nat \<Rightarrow> nat \<Rightarrow> nat" where
  "beside n J j =
     (let x = J div 2 ^ j in if x = (n - 1) div 2 ^ j \<and> even x then x else if even x then x + 1 else x - 1)"

text \<open>The nodes beside the path, as the steps of a Merkle path.\<close>

definition path_in :: "nat \<Rightarrow> (u32 \<rightharpoonup> mnode) \<Rightarrow> nat \<Rightarrow> nat \<Rightarrow> (bool \<times> uint256) list \<Rightarrow> bool" where
  "path_in D M n J p \<longleftrightarrow> (\<forall>j < length p. fst (p ! j) = even (beside n J j) \<and>
     M (node D j (beside n J j)) = Some \<lparr>mnP = node D j (beside n J j), mnH = Some (snd (p ! j))\<rparr>)"

lemma path_in_snoc:
  "path_in D M n J p \<Longrightarrow> s = beside n J (length p) \<Longrightarrow>
   M (node D (length p) s) = Some \<lparr>mnP = node D (length p) s, mnH = Some h\<rparr> \<Longrightarrow> path_in D M n J (p @ [(even s, h)])"
  by (auto simp: path_in_def nth_append less_Suc_eq)

lemma leaf_path:
  assumes "shaped E n k i t" and "in_tree D k i" and "i \<le> (n - 1) div 2 ^ k" and "nodes_map (events E D k i t) \<subseteq>\<^sub>m M"
    and "(node D 0 J, h, b) \<in> set (events E D k i t)" and "in_tree D 0 J"
  shows "J div 2 ^ k = i \<and> M (node D 0 J) = Some \<lparr>mnP = node D 0 J, mnH = Some h\<rparr> \<and>
    (\<exists>p. length p = k \<and> path_in D M n J p \<and> fold_path E h p = root_of E t)"
  using assms(1-5)
proof (induction t arbitrary: k i)
  case (Pruned x)
  then have "node D k i = node D 0 J" "0 < k" by auto
  with node_inject [OF Pruned.prems(2) assms(6)] show ?case by simp
next
  case (Leaf b' x)
  then have "node D k i = node D 0 J" "h = x" "k = 0" by auto
  with node_inject [OF Leaf.prems(2) assms(6)] root_node_hash [OF Leaf.prems(4)] show ?case by (auto simp: path_in_def)
next
  case (Inner l r)
  then obtain k0 where k: "k = Suc k0" by (cases k) simp_all
  note prems = Inner.prems [unfolded k]
  have c: "in_tree D k0 (2 * i)" "in_tree D k0 (Suc (2 * i))" using in_tree_child [OF prems(2)] by blast+
  have s: "shaped E n k0 (2 * i) l" "shaped E n k0 (Suc (2 * i)) r" "Suc (2 * i) \<le> (n - 1) div 2 ^ k0"
    "2 * i \<le> (n - 1) div 2 ^ k0" using prems(1) by auto
  note m = inner_nodes [OF prems(1,2,4)]
  have "node D 0 J \<noteq> node D (Suc k0) i" using node_inject [OF assms(6) prems(2)] by auto
  with prems(5) consider "(node D 0 J, h, b) \<in> set (events E D k0 (2 * i) l)" | "(node D 0 J, h, b) \<in> set (events E D k0 (Suc (2 * i)) r)"
    by auto
  then show ?case
  proof cases
    case 1
    from Inner.IH(1) [OF s(1) c(1) s(4) m(1) 1] obtain p where p: "J div 2 ^ k0 = 2 * i" "length p = k0" "path_in D M n J p"
      "fold_path E h p = root_of E l"
      "M (node D 0 J) = Some \<lparr>mnP = node D 0 J, mnH = Some h\<rparr>" by blast
    have "Suc (2 * i) = beside n J (length p)" using p(1,2) s(3) by (simp add: beside_def)
    from path_in_snoc [OF p(3) this] root_node_hash [OF m(2)] p(2) have "path_in D M n J (p @ [(False, root_of E r)])" by auto
    moreover have "J div 2 ^ Suc k0 = i" using p(1) by (simp add: div_mult2_eq power_Suc2 del: power_Suc)
    ultimately show ?thesis using p(2,4,5) by (intro conjI exI [of _ "p @ [(False, root_of E r)]"]) (simp_all add: k fold_path_append)
  next
    case 2
    from Inner.IH(2) [OF s(2) c(2) s(3) m(2) 2] obtain p where p: "J div 2 ^ k0 = Suc (2 * i)" "length p = k0" "path_in D M n J p"
      "fold_path E h p = root_of E r"
      "M (node D 0 J) = Some \<lparr>mnP = node D 0 J, mnH = Some h\<rparr>" by blast
    have "2 * i = beside n J (length p)" using p(1,2) by (simp add: beside_def)
    from path_in_snoc [OF p(3) this] root_node_hash [OF m(1)] p(2) have "path_in D M n J (p @ [(True, root_of E l)])" by auto
    moreover have "J div 2 ^ Suc k0 = i" using p(1) by (simp add: div_mult2_eq power_Suc2 del: power_Suc)
    ultimately show ?thesis using p(2,4,5) by (intro conjI exI [of _ "p @ [(True, root_of E l)]"]) (simp_all add: k fold_path_append)
  qed
next
  case (Single l)
  then obtain k0 where k: "k = Suc k0" by (cases k) simp_all
  note prems = Single.prems [unfolded k]
  have c: "in_tree D k0 (2 * i)" using in_tree_child [OF prems(2)] by blast
  have s: "shaped E n k0 (2 * i) l" "(n - 1) div 2 ^ k0 < Suc (2 * i)" using prems(1) by simp_all
  have w: "2 * i \<le> (n - 1) div 2 ^ k0" by (rule child_less [OF prems(3)])
  note m = single_nodes [OF prems(1,2,4)]
  have "node D 0 J \<noteq> node D (Suc k0) i" using node_inject [OF assms(6) prems(2)] by auto
  with prems(5) have e: "(node D 0 J, h, b) \<in> set (events E D k0 (2 * i) l)" by auto
  from Single.IH [OF s(1) c w m e] obtain p where p: "J div 2 ^ k0 = 2 * i" "length p = k0" "path_in D M n J p"
    "fold_path E h p = root_of E l"
      "M (node D 0 J) = Some \<lparr>mnP = node D 0 J, mnH = Some h\<rparr>" by blast
  have "2 * i = beside n J (length p)" using p(1,2) s(2) w by (simp add: beside_def)
  from path_in_snoc [OF p(3) this] root_node_hash [OF m] p(2) have "path_in D M n J (p @ [(True, root_of E l)])" by auto
  moreover have "J div 2 ^ Suc k0 = i" using p(1) by (simp add: div_mult2_eq power_Suc2 del: power_Suc)
  ultimately show ?case using p(2,4,5) by (intro conjI exI [of _ "p @ [(True, root_of E l)]"]) (simp_all add: k fold_path_append)
qed

subsection \<open>The route\<close>

lemma mn_width: "mn_calcTreeWidth n k = calcTreeWidth n k"
  by (simp add: mn_calcTreeWidth_def calcTreeWidth_def)

lemma msb_fold: "fold (\<lambda>i msb. msb - push_bit i 1) [1..<Suc m] a = a - (2 ^ Suc m - 2 :: u32)"
  by (induction m) (simp_all add: push_bit_eq_mult algebra_simps)

lemma calcNodeIndex_ok:
  assumes "is_depth (unat n) D" and "unat n \<le> 2 ^ 31" and "h \<le> D"
  shows "calcNodeIndex n (word_of_nat h) (word_of_nat i) = Some (node D h i)"
proof -
  have D: "D \<le> 31" by (rule depth_le_31 [OF assms(1,2)])
  have "(word_of_nat D :: u32) - word_of_nat h = word_of_nat (D - h)" using assms(3) by (simp add: of_nat_diff)
  then have d: "unat (word_of_nat D - word_of_nat h :: u32) = D - h" using D by (simp only:) (intro unat_of_nat_small, simp)
  have p: "push_bit 1 (push_bit D 1) = (2 ^ Suc D :: u32)" by (simp add: push_bit_eq_mult)
  have "node D h i + 2 ^ Suc (D - h) = 2 ^ Suc D + word_of_nat i"
    using arg_cong [OF npos_eq [OF assms(3), of i], of "word_of_nat :: nat \<Rightarrow> u32"] by (simp add: node_def)
  then have "node D h i = 2 ^ Suc D - 2 ^ Suc (D - h) + word_of_nat i" by (simp add: algebra_simps eq_diff_eq)
  then show ?thesis
    by (simp only: calcNodeIndex_def nextPowerOfTwo_ok [OF assms(1,2)] treeDepth_ok [OF assms(1,2)] option.case prod.case d msb_fold p)
      simp
qed

lemma beside_in:
  assumes "J \<le> n - 1"
  shows "beside n J j \<le> (n - 1) div 2 ^ j"
proof -
  have "J div 2 ^ j \<le> (n - 1) div 2 ^ j" by (rule div_le_mono [OF assms])
  then show ?thesis unfolding beside_def Let_def by (cases "J div 2 ^ j = (n - 1) div 2 ^ j") auto
qed

lemma route_step:
  assumes n: "0 < unat n" "unat n \<le> 2 ^ 31" and D: "is_depth (unat n) D" and J: "J \<le> unat n - 1" and j: "j \<le> D"
  shows "(let x = drop_bit (unat (word_of_nat j :: u32)) (word_of_nat J)
    in if mn_inDeadZone n (word_of_nat J) (word_of_nat j) then x else if isLeftLeaf (word_of_nat J) (word_of_nat j) then x + 1 else x - 1) =
      (word_of_nat (beside (unat n) J j) :: u32)"
proof -
  let ?x = "J div 2 ^ j" and ?w = "(unat n - 1) div 2 ^ j"
  have j31: "j \<le> 31" using depth_le_31 [OF D n(2)] j by simp
  have uj: "unat (word_of_nat j :: u32) = j" using j31 by (intro unat_of_nat_small) simp
  have le: "?x \<le> ?w" by (rule div_le_mono [OF J])
  have ux: "unat (word_of_nat ?x :: u32) = ?x" by (rule unat_pos [OF le n(2)])
  have uw: "unat (word_of_nat ?w :: u32) = ?w" by (rule unat_pos [OF order_refl n(2)])
  have uJ: "unat (word_of_nat J :: u32) = J" by (rule unat_pos [of _ "unat n" 0]) (use J n in simp_all)
  have x: "drop_bit j (word_of_nat J :: u32) = word_of_nat ?x" by (simp only: word_unat_eq_iff unat_drop_bit uJ ux)
  have "calcTreeWidth n (word_of_nat j) = word_of_nat (Suc ?w)" 
    by (simp only: width_unat [OF n j31, symmetric]) simp
  then have w: "calcTreeWidth n (word_of_nat j) - 1 = word_of_nat ?w" by simp
  have e: "word_of_nat ?x mod 2 = (0 :: u32) \<longleftrightarrow> even ?x" by (simp add: word_unat_eq_iff unat_mod_distrib ux even_iff_mod_2_eq_zero)
  have l: "word_of_nat ?x = (word_of_nat ?w :: u32) \<longleftrightarrow> ?x = ?w" by (metis ux uw)
  have "word_of_nat ?x - 1 = (word_of_nat (?x - 1) :: u32)" if "odd ?x" using that by (subst of_nat_diff) (auto intro: Suc_leI odd_pos)
  with le show ?thesis
    unfolding mn_inDeadZone_def isLeftLeaf_def uj x mn_width w Let_def e l beside_def by auto
qed

lemma branch_route_ok:
  assumes n: "0 < unat n" "unat n \<le> 2 ^ 31" and D: "is_depth (unat n) D" and J: "J \<le> unat n - 1"
  shows "\<forall>j \<in> set js. j \<le> D \<Longrightarrow>
    branch_route n (word_of_nat J) (map word_of_nat js) = Some (map (\<lambda>j. node D j (beside (unat n) J j)) js)"
proof (induction js)
  case (Cons j js)
  with route_step [OF n D J, of j] calcNodeIndex_ok [OF D n(2), of j "beside (unat n) J j"] show ?case by (simp add: Let_def)
qed simp

lemma calcBranchRoute_ok:
  assumes n: "0 < unat n" "unat n \<le> 2 ^ 31" and D: "is_depth (unat n) D" and J: "J \<le> unat n - 1"
  shows "calcBranchRoute n (word_of_nat J) = Some (map (\<lambda>j. node D j (beside (unat n) J j)) [0..<D])"
proof -
  have "unat (word_of_nat D :: u32) = D" using depth_le_31 [OF D n(2)] by (intro unat_of_nat_small) simp
  with branch_route_ok [OF n D J, of "[0..<D]"] show ?thesis by (simp add: calcBranchRoute_def treeDepth_ok [OF D n(2)])
qed

subsection \<open>The branch\<close>

text \<open>How a branch is checked: its hashes are applied in turn, each on the side the index gives.\<close>

fun branch_fold :: "codec \<Rightarrow> uint256 \<Rightarrow> uint256 list \<Rightarrow> int \<Rightarrow> uint256" where
  "branch_fold E h [] i = h"
| "branch_fold E h (s # hs) i =
     branch_fold E (if odd i then HashMerkleBranches E s h else HashMerkleBranches E h s) hs (i div 2)"

fun path_index :: "(bool \<times> uint256) list \<Rightarrow> int" where
  "path_index [] = 0"
| "path_index ((l, _) # p) = (if l then 1 else 0) + 2 * path_index p"

lemma branch_fold_path: "branch_fold E h (map snd p) (path_index p) = fold_path E h p"
  by (induction p arbitrary: h) (auto simp: split: prod.split)

lemma path_in_Cons_D:
  assumes "\<forall>j < length (x # p). fst ((x # p) ! j) = even (f (i + j)) \<and> M (g (i + j)) = G (i + j) ((x # p) ! j)"
  shows "fst x = even (f i)" and "M (g i) = G i x"
    and "\<forall>j < length p. fst (p ! j) = even (f (Suc i + j)) \<and> M (g (Suc i + j)) = G (Suc i + j) (p ! j)"
proof -
  show "fst x = even (f i)" "M (g i) = G i x" using assms [THEN spec, of 0] by simp_all
  show "\<forall>j < length p. fst (p ! j) = even (f (Suc i + j)) \<and> M (g (Suc i + j)) = G (Suc i + j) (p ! j)"
    using assms [THEN spec, of "Suc j" for j] by simp
qed

lemma node_mod: "in_tree D k i \<Longrightarrow> node D k i mod 2 = 0 \<longleftrightarrow> even i"
  using node_and_one [of D k i] by (simp add: and_one_eq)

lemma collect_branch_ok:
  "\<forall>j < length p. fst (p ! j) = even (s (i + j)) \<and>
     M (node D (i + j) (s (i + j))) = Some \<lparr>mnP = node D (i + j) (s (i + j)), mnH = Some (snd (p ! j))\<rparr> \<Longrightarrow>
   \<forall>j. i \<le> j \<and> j < i + length p \<longrightarrow> in_tree D j (s j) \<Longrightarrow>
   collect_branch M i (map (\<lambda>j. node D j (s j)) [i..<i + length p]) = Inr (map snd p, 2 ^ i * path_index p)"
proof (induction p arbitrary: i)
  case (Cons x p)
  note h = path_in_Cons_D [of x p s i M "\<lambda>j. node D j (s j)" "\<lambda>j x. Some \<lparr>mnP = node D j (s j), mnH = Some (snd x)\<rparr>", OF Cons.prems(1)]
  have r: "[i..<i + length (x # p)] = i # [Suc i..<Suc i + length p]" using upt_conv_Cons [of i "i + length (x # p)"] by (simp del: upt_Suc)
  have "collect_branch M (Suc i) (map (\<lambda>j. node D j (s j)) [Suc i..<Suc i + length p]) = Inr (map snd p, 2 ^ Suc i * path_index p)"
    using h(3) Cons.prems(2) by (intro Cons.IH) auto
  moreover have "node D i (s i) mod 2 = 0 \<longleftrightarrow> even (s i)" using Cons.prems(2) by (intro node_mod) simp
  ultimately show ?case unfolding r using h(1,2) by (cases x) (simp add: algebra_simps)
qed simp

text \<open>The bits of a message that fits in memory are those \<open>CheckMerkleBlock\<close> reads.\<close>

lemma flag_and: "drop_bit j b AND 1 \<noteq> 0 \<longleftrightarrow> bit b j" for b :: u8
  by (simp add: and_one_eq bit_iff_odd_drop_bit mod_2_eq_odd)

lemma SetBits_flags:
  assumes "length flags < 2 ^ 29"
  shows "map (\<lambda>b. b \<noteq> 0) (SetBits flags) = flag_bits flags"
proof -
  have "(word_of_nat (length flags) * 8 :: u32) = word_of_nat (length flags * 8)" by simp
  then have "unat (word_of_nat (length flags) * 8 :: u32) = 8 * length flags"
    using assms by (simp only:) (subst unat_of_nat_small, simp_all)
  then show ?thesis by (intro nth_equalityI) (simp_all only: SetBits_def, simp_all add: flag_and flag_bits_nth)
qed

lemma parse_tree_error_free: "parse_tree E eb n k i hs bs = Inr x \<Longrightarrow> parse_tree E eb' n k i hs bs = Inr x"
proof (induction E eb n k i hs bs arbitrary: x rule: parse_tree.induct)
  case (5 E eb n k i h hs bs)
  obtain l hs1 bs1 where l: "parse_tree E eb n k (2 * i) (h # hs) bs = Inr (l, hs1, bs1)"
    using 5(3) by (auto split: sum.splits)
  show ?case
  proof (cases "(n - 1) div 2 ^ k < Suc (2 * i)")
    case False
    with 5(3) l obtain y where y: "parse_tree E eb n k (Suc (2 * i)) hs1 bs1 = Inr y" by (auto split: sum.splits)
    from 5(2) [OF l refl refl False y] 5(1) [OF l] 5(3) y l False show ?thesis by simp
  qed (use 5(1) [OF l] 5(3) l in simp)
qed simp_all

lemma flagged_event:
  "shaped E n k i t \<Longrightarrow> i \<le> (n - 1) div 2 ^ k \<Longrightarrow> in_tree D k i \<Longrightarrow> h \<in> set (flagged t) \<Longrightarrow>
   \<exists>J. J \<le> n - 1 \<and> in_tree D 0 J \<and> (node D 0 J, h, True) \<in> set (events E D k i t)"
proof (induction t arbitrary: k i)
  case (Leaf b x)
  then show ?case by (auto split: if_splits)
next
  case (Inner l r)
  then obtain k0 where k: "k = Suc k0" by (cases k) simp_all
  have c: "in_tree D k0 (2 * i)" "in_tree D k0 (Suc (2 * i))" using in_tree_child Inner.prems(3) unfolding k by blast+
  from Inner.prems(4) consider "h \<in> set (flagged l)" | "h \<in> set (flagged r)" by auto
  then show ?case
  proof cases
    case 1
    with Inner.IH(1) [OF _ _ c(1)] Inner.prems(1) show ?thesis by (auto simp: k)
  next
    case 2
    with Inner.IH(2) [OF _ _ c(2)] Inner.prems(1) show ?thesis by (auto simp: k)
  qed
next
  case (Single l)
  then obtain k0 where k: "k = Suc k0" by (cases k) simp_all
  have c: "in_tree D k0 (2 * i)" using in_tree_child Single.prems(3) unfolding k by blast
  have "2 * i \<le> (n - 1) div 2 ^ k0" using Single.prems(2) unfolding k by (rule child_less)
  from Single.IH [OF _ this c] Single.prems show ?case by (auto simp: k)
qed simp

text \<open>What \<open>calcTxIndex\<close> finds.\<close>

lemma calcTxIndex_found:
  "\<forall>x \<in> set xs. mnH x \<noteq> None \<Longrightarrow> \<exists>x \<in> set xs. mnP x \<le> mn_calcTreeWidth n 0 \<and> mnH x = Some h \<Longrightarrow>
   \<exists>x \<in> set xs. calcTxIndex n h xs = Inr (Some (mnP x)) \<and> mnP x \<le> mn_calcTreeWidth n 0 \<and> mnH x = Some h"
proof (induction xs)
  case (Cons y ys)
  obtain g where g: "mnH y = Some g" using Cons.prems(1) by auto
  show ?case
  proof (cases "mnP y \<le> mn_calcTreeWidth n 0 \<and> g = h")
    case False
    with Cons.prems(2) g have "\<exists>x \<in> set ys. mnP x \<le> mn_calcTreeWidth n 0 \<and> mnH x = Some h" by auto
    with Cons.IH Cons.prems(1) False g show ?thesis by (auto simp: not_le)
  qed (use g in \<open>auto simp: not_less\<close>)
qed simp

text \<open>The position that \<open>calcTxIndex\<close> finds is a leaf of the tree, its hash the transaction's.\<close>

lemma leaf_position:
  assumes "shaped E n D 0 t" and "is_depth n D" and "n \<le> 2 ^ 31" and "(p, h, b) \<in> set (events E D D 0 t)" and "unat p < n"
  shows "in_tree D 0 (unat p) \<and> p = node D 0 (unat p)"
proof -
  have r: "in_tree D D 0" using depth_le_31 [OF assms(2,3)] by (simp add: in_tree_def)
  obtain k i where k: "p = node D k i" "in_tree D k i"
    using events_below [OF assms(1) r assms(4)] unfolding below_def by auto
  have "npos D k i < 2 ^ D" using assms(2,5) unat_node [OF k(2)] k(1) by (auto simp: is_depth_def)
  with k(2) have "k = 0" using npos_low [of k D i] by (auto simp: in_tree_def)
  with k unat_node [OF k(2)] show ?thesis by simp
qed

lemma branch_of_tree:
  assumes n: "0 < unat n" "unat n \<le> 2 ^ 31" and D: "is_depth (unat n) D" and t: "shaped E (unat n) D 0 t"
    and ord: "set xs = ran (nodes_map (events E D D 0 t))" and h: "h \<in> set (flagged t)"
    and clash: "map_option mnH (nodes_map (events E D D 0 t) n) \<noteq> Some (Some h)"
  shows "\<exists>i route hs b. calcTxIndex n h xs = Inr (Some i) \<and> calcBranchRoute n i = Some route \<and>
    collect_branch (nodes_map (events E D D 0 t)) 0 route = Inr (hs, b) \<and> length hs = D \<and> branch_fold E h hs b = root_of E t"
proof -
  let ?ev = "events E D D 0 t"
  let ?r = "nodes_map ?ev"
  have r: "in_tree D D 0" using depth_le_31 [OF D n(2)] by (simp add: in_tree_def)
  have "unat (calcTreeWidth n (word_of_nat 0)) = unat n" using width_unat [OF n, of 0] n(1) by simp
  then have w: "mn_calcTreeWidth n 0 = n" by (simp add: mn_width word_unat_eq_iff)
  note path = leaf_path [OF t r _ map_le_refl, simplified]
  have ev: "\<exists>g b. mnH x = Some g \<and> (mnP x, g, b) \<in> set ?ev \<and> ?r (mnP x) = Some x" if "x \<in> set xs" for x
    using that nodes_map_entry [of ?ev _ x] unfolding ord ran_def by force
  obtain J where J: "J \<le> unat n - 1" "in_tree D 0 J" "(node D 0 J, h, True) \<in> set ?ev"
    using flagged_event [OF t _ r h] by auto
  have x: "?r (node D 0 J) = Some \<lparr>mnP = node D 0 J, mnH = Some h\<rparr>" using path [OF J(3,2)] by simp
  have "node D 0 J \<le> n" using J(1) n(1) by (simp add: word_le_nat_alt unat_node [OF J(2)])
  with x have "\<exists>x \<in> set xs. mnP x \<le> mn_calcTreeWidth n 0 \<and> mnH x = Some h"
    unfolding ord w ran_def by auto
  moreover have "\<forall>x \<in> set xs. mnH x \<noteq> None" using ev by force
  ultimately obtain y where y: "y \<in> set xs" "calcTxIndex n h xs = Inr (Some (mnP y))" "mnP y \<le> n" "mnH y = Some h"
    using calcTxIndex_found [of xs n h] unfolding w by blast
  obtain b where b: "(mnP y, h, b) \<in> set ?ev" "?r (mnP y) = Some y" using ev [OF y(1)] y(4) by auto
  have "mnP y \<noteq> n" using b(2) y(4) clash by auto
  with y(3) have lt: "unat (mnP y) < unat n" by (simp add: word_le_nat_alt order_less_le word_unat_eq_iff)
  define K where "K = unat (mnP y)"
  have K: "in_tree D 0 K" "mnP y = node D 0 K" "K \<le> unat n - 1"
    using leaf_position [OF t D n(2) b(1) lt] lt unfolding K_def by simp_all
  obtain p where p: "length p = D" "path_in D ?r (unat n) K p" "fold_path E h p = root_of E t"
    using path [of K h b] b(1) K(1,2) by auto
  have "in_tree D j (beside (unat n) K j)" if "j < D" for j
    using beside_in [OF K(3), of j] last_in_tree [OF D n, of j] that by (auto simp: in_tree_def)
  then have c: "collect_branch ?r 0 (map (\<lambda>j. node D j (beside (unat n) K j)) [0..<D]) = Inr (map snd p, path_index p)"
    using collect_branch_ok [of p "beside (unat n) K" 0 ?r D] p(1,2) by (simp add: path_in_def)
  have "mnP y = word_of_nat K" unfolding K_def by simp
  with calcBranchRoute_ok [OF n D K(3)] have "calcBranchRoute n (mnP y) = Some (map (\<lambda>j. node D j (beside (unat n) K j)) [0..<D])"
    by simp
  with y(2) c p(1,3) show ?thesis by (simp add: branch_fold_path)
qed

text \<open>C15: The branch of a transaction that \<open>CheckMerkleBlock\<close> reports leads from it to the Merkle root of
  the header and has one hash for each level of the tree, in whatever order the nodes of the map are visited,
  unless the inner node just after the leaves has the hash of the transaction: the search goes one too far.\<close>

theorem branch_verifies:
  assumes "CheckMerkleBlock E m = Some (Inr txids)" and "txId \<in> set txids" and "length (mbFlags m) < 2 ^ 29"
    and "\<forall>r. set (ord r) = ran r"
    and "\<forall>r. getNodes E (mbTransactions m) (bhMerkleRoot (mbHeader m)) (mbHashes m) (SetBits (mbFlags m)) = Some (Inr r) \<longrightarrow>
      map_option mnH (r (mbTransactions m)) \<noteq> Some (Some txId)"
  shows "\<exists>br. GetTxMerkleBranch E ord m txId = Some (Inr br) \<and>
    is_depth (unat (mbTransactions m)) (length (brBranches br)) \<and>
    branch_fold E txId (brBranches br) (brIndex br) = bhMerkleRoot (mbHeader m)"
proof -
  let ?n = "mbTransactions m" and ?root = "bhMerkleRoot (mbHeader m)" and ?bits = "SetBits (mbFlags m)"
  have "?n \<noteq> 0" and f: "mbFlags m \<noteq> []" using assms(1) by (auto simp: CheckMerkleBlock_def split: if_splits)
  then have n: "0 < unat ?n" by (simp add: unat_gt_0)
  obtain D where D: "is_depth (unat ?n) D" using ex_depth by blast
  have le: "unat ?n \<le> 2 ^ 31" using assms(1) f CheckMerkleBlock_None [of m E] by (simp flip: not_less) force
  note bits = SetBits_flags [OF assms(3)]
  have b: "?bits \<noteq> []" using f arg_cong [OF bits, of length] by auto
  from assms(1) obtain t hs' bs' where t: "parse_tree E (Failure ''Ran out of flag bits'') (unat ?n) D 0 (mbHashes m) (flag_bits (mbFlags m)) =
      Inr (t, hs', bs')" "root_of E t = ?root" "txids = flagged t"
    unfolding CheckMerkleBlock_block [OF D n le f] by (auto simp: parse_block_def split: sum.splits if_splits)
  have g: "getNodes E ?n ?root (mbHashes m) ?bits = Some (Inr (nodes_map (events E D D 0 t)))"
    unfolding getNodes_block [OF D n le b] bits by (simp add: parse_block_def parse_tree_error_free [OF t(1)] t(2))
  have "txId \<in> set (flagged t)" using assms(2) t(3) by simp
  from branch_of_tree [OF n le D parse_tree_shaped [OF t(1)] assms(4) [THEN spec] this assms(5) [rule_format, OF g]] t(2) D
  show ?thesis by (auto simp: GetTxMerkleBranch_def GetMerkleBranch_def g)
qed

text \<open>The nodes in the order of their positions.\<close>

definition nodes_in_order :: "(u32 \<rightharpoonup> mnode) \<Rightarrow> mnode list" where
  "nodes_in_order r = map (\<lambda>p. the (r p)) (filter (\<lambda>p. r p \<noteq> None) (map word_of_nat [0..<2 ^ 32]))"

lemma nodes_in_order: "set (nodes_in_order r) = ran r"
proof -
  have "p \<in> word_of_nat ` {0..<2 ^ 32}" for p :: u32
    using unsigned_less [of p] by (intro image_eqI [of _ _ "unat p"]) simp_all
  then have "set (map word_of_nat [0..<2 ^ 32]) = (UNIV :: u32 set)" by (simp only: set_map set_upt) blast
  then show ?thesis unfolding nodes_in_order_def by (simp only: set_map [of "\<lambda>p. the (r p)"] set_filter) (force simp: ran_def image_iff)
qed

lemma sample_parse:
  "parse_tree codec0 eb 3 (Suc (Suc 0)) 0 [1, 2, 9] [True, True, True, False, False, False, False, False] =
     Inr (Inner (Inner (Leaf True 1) (Leaf False 2)) (Pruned 9), [], [False, False, False])"
  by (simp add: codec0_branches)

lemma branch_verifies_witness:
  "\<exists>br. GetTxMerkleBranch codec0 nodes_in_order sample_mblock 1 = Some (Inr br) \<and>
    is_depth 3 (length (brBranches br)) \<and> branch_fold codec0 1 (brBranches br) (brIndex br) = bhMerkleRoot sample_bheader"
proof -
  let ?m = sample_mblock
  have n: "unat (mbTransactions ?m) = 3" by (simp add: sample_mblock_def)
  have c: "CheckMerkleBlock codec0 ?m = Some (Inr [1])"
    using CheckMerkleBlock_block [OF sample_depth, of codec0] sample_parse
    by (simp add: sample_mblock_def sample_bheader_def sample_flag_bits parse_block_def)
  have b: "map (\<lambda>b. b \<noteq> 0) (SetBits [7]) = flag_bits [7]" by (rule SetBits_flags) simp
  have "SetBits [7] \<noteq> []" using b by (auto simp: sample_flag_bits)
  from getNodes_block [OF sample_depth _ _ this, of codec0 "bhMerkleRoot (mbHeader ?m)" "mbHashes ?m"]
  have g: "getNodes codec0 3 (bhMerkleRoot sample_bheader) [1, 2, 9] (SetBits [7]) =
      Some (Inr (nodes_map (events codec0 (Suc (Suc 0)) (Suc (Suc 0)) 0 (Inner (Inner (Leaf True 1) (Leaf False 2)) (Pruned 9)))))"
    unfolding b sample_flag_bits using sample_parse
    by (simp add: sample_mblock_def sample_bheader_def parse_block_def)
  have "nodes_map (events codec0 (Suc (Suc 0)) (Suc (Suc 0)) 0 (Inner (Inner (Leaf True 1) (Leaf False 2)) (Pruned 9))) 3 = None"
    unfolding domIff [symmetric, of _ "nodes_map _", simplified] dom_nodes_map
    by (simp add: nodes_map_def node_def npos_def)
  with branch_verifies [of codec0 ?m "[1]" 1 nodes_in_order] c g n show ?thesis
    by (simp add: sample_mblock_def nodes_in_order)
qed

end
