(* ===== verification/Spec2Isabelle.thy ===== *)
theory Spec2Isabelle
  imports SPVService ServiceFlow ServiceReplies WalletActions WalletOpen MerkleBranch
begin

text \<open>
  Elastos.ELA.SPV: a light client of the Elastos main chain.

  \<^bold>\<open>The program.\<close> The client connects to full nodes (\<open>peer\<close>), sends them a Bloom filter of the
  addresses it watches (\<open>bloom\<close>), and downloads the headers of the chain together with the
  transactions that match: each block arrives as a Merkle block, which proves the hashes of
  the matching transactions, followed by these transactions. A sync manager (\<open>sync\<close>) decides
  which peer to download from and which blocks to ask for, and hands complete blocks to the
  block chain (\<open>blockchain\<close>), which checks proof of work, chooses the best chain by total
  work and reorganizes it. The block chain writes through a chain store (\<open>database\<close>) made of
  a header database and a transaction database. The SPV service of a side chain (\<open>interface\<close>)
  is such a transaction database: it keeps what concerns its listeners in a goleveldb
  database (\<open>interface/store\<close>) and notifies the listeners. A wallet (\<open>wallet\<close>,
  \<open>spvwallet.go\<close>) is the other client of the same core.

  \<^bold>\<open>The theories\<close>, in the order of their imports.
  \<^item> \<open>Prelude\<close>, \<open>Types\<close>, \<open>External\<close>, \<open>Instances\<close>: machine integers and byte strings, the data
    types of \<open>util/\<close>, the code outside the repository as parameters (\<open>codec\<close>: serialization
    and hash functions of Elastos.ELA; \<open>leveldb\<close>: the database), and concrete instances of
    the parameters for the witnesses.
  \<^item> \<open>Util\<close> (\<open>util/\<close>), \<open>Difficulty\<close> (\<open>blockchain/difficulty.go\<close>), \<open>BloomFilter\<close>
    (\<open>bloom/filter.go\<close>, \<open>bloom/murmurhash3.go\<close>, \<open>interface/iutil/tx.go\<close>).
  \<^item> \<open>MerkleTree\<close>, \<open>MerkleBlock\<close>, \<open>MerkleBuild\<close>, \<open>MerkleBranch\<close>, \<open>MerkleProof\<close> (\<open>bloom/merkleblock.go\<close>,
    \<open>bloom/merklebranch.go\<close>, \<open>bloom/merkleproof.go\<close>): the check of a Merkle block is a machine with
    a stack; it is proved to compute what a recursive parser of the tree computes
    (\<open>parse_block\<close>), from which soundness and the round trip with the builder follow; the branch of a transaction is
    the path through that tree (\<open>leaf_path\<close>).
  \<^item> \<open>Prefix\<close>, \<open>HeaderStore\<close>, \<open>ChainDB\<close>, \<open>BlockChain\<close> (\<open>interface/store/headers.go\<close>,
    \<open>wallet/store/headers\<close>, \<open>database/\<close>, \<open>blockchain/blockchain.go\<close>). The locale \<open>headers_db\<close> is the
    contract of a header database, \<open>chain_db\<close> that of a chain store; both are interpreted on the
    service's and on the wallet's stores, and the lemmas on the best chain are proved in \<open>chain_db\<close>.
  \<^item> \<open>Filters\<close> (\<open>sdk/addrfilter.go\<close>, \<open>sdk/txtypesfilter.go\<close>; locale \<open>key_filter\<close>), \<open>Buckets\<close> (the
    locales \<open>key_bucket\<close> and \<open>map_bucket\<close>: a bucket of the database as a set or a map),
    \<open>AddrStore\<close>, \<open>OpsStore\<close>, \<open>QueStore\<close>, \<open>TxStore\<close>, \<open>Arbiters\<close>, \<open>CustomID\<close>, \<open>DataStore\<close>
    (\<open>interface/store/\<close>): each store with an abstraction function to a set, a map or a history,
    and the effect of each operation and batch on it.
  \<^item> \<open>SPVService\<close> (\<open>interface/spvservice.go\<close>): the transaction database of the service, the
    verification of a transaction against a stored header, the notifications.
  \<^item> \<open>ServiceSteps\<close>, \<open>ServiceFlow\<close>: \<open>BlockCommitted\<close>, which takes no lock, as single steps of a loop (\<open>commit_step\<close>),
    the loops of several goroutines interleaved with the calls on the service in any order (\<open>svc_run\<close>), and the life
    of one item of the queue through such a run (\<open>queued\<close>, \<open>ahead\<close>, \<open>gone\<close>): a listener is notified of a transaction
    until its receipt, and not after it. Writes to the database are assumed to succeed there.
  \<^item> \<open>Peer\<close> (\<open>peer/peer.go\<close>), \<open>SyncManager\<close>, \<open>SyncInvariant\<close> (\<open>sync/manager.go\<close>,
    \<open>fprate/fprate.go\<close>): the download of a block, stall detection and the handlers of the sync
    manager as steps; runs are inductive predicates, invariants are proved by rule induction.
  \<^item> \<open>TxPool\<close>, \<open>Service\<close> (\<open>sdk/service.go\<close>): the life of a sent transaction, and the composition of
    peers, sync manager and transaction handler over the channels between their goroutines, from the start to the stop
    (\<open>replies_ok\<close> counts the replies under way, \<open>stranded\<close> is a request nobody will answer); a step of the service is a run of steps of the
    sync manager (\<open>sd_step_sync\<close>), so the invariants of the components carry over to it.
  \<^item> \<open>ServiceReplies\<close>: a run of the composed service with the blocks the sync manager has processed and those
    that were announced (\<open>sd_trace\<close>): each is announced after it was processed, until the manager is shut down.
  \<^item> \<open>Sql\<close>, \<open>SqlTable\<close>: the SQL statements the wallet uses as functions on tables; what SQLite does
    beyond that is the parameter \<open>sqlite\<close>. The locale \<open>key_table\<close> is a table with a primary key as a map.
  \<^item> \<open>WalletStore\<close>, \<open>WalletTables\<close> (\<open>wallet/store/sqlite\<close>, \<open>wallet/sutil\<close>): the operations of the
    stores as statements, and each table as a map (\<open>wdata_holds\<close>).
  \<^item> \<open>Wallet\<close>, \<open>WalletTxs\<close> (\<open>spvwallet.go\<close>): the wallet as the transaction database of its chain store;
    what storing a block makes of its tables (\<open>store_tx\<close>), why a block is never rolled back, what its
    filter covers.
  \<^item> \<open>WalletClient\<close> (\<open>wallet/client/wallet.go\<close>, \<open>common.go\<close>, \<open>database/\<close>): the creation of a transaction from the
    stored outputs, the balances.
  \<^item> \<open>Keystore\<close>, \<open>KeystoreRuns\<close> (\<open>wallet/client/keystore.go\<close>, \<open>keystore_file.go\<close>, \<open>sdk/account.go\<close>): the key store
    and its file (\<open>keystore_stored\<close>), over the parameters \<open>crypto\<close> and \<open>keyfs\<close>.
  \<^item> \<open>WalletCmd\<close>, \<open>WalletCmdFacts\<close> (\<open>wallet/client/account\<close>, \<open>transaction\<close>, \<open>wallet\<close>): the commands, signing, and
    what they achieve with the SPV wallet on the same tables.
  \<^item> \<open>WalletActions\<close> (\<open>wallet/client/account\<close>, \<open>transaction\<close>, \<open>wallet\<close>, \<open>common.go\<close>): a command as a whole, with the
    files it reads and writes and its exit status; the way of a transaction from creating to sending.
  \<^item> \<open>WalletTypes\<close>: the typing of the tables (\<open>tables_typed\<close>), kept by every statement (\<open>stmt_ok\<close>), also by one that fails.
  \<^item> \<open>WalletOpen\<close> (\<open>NewWallet\<close> in \<open>spvwallet.go\<close>): the wallet with its databases, its service and its RPC actions, and
    what it finds when it is opened again.

  \<^bold>\<open>Conventions.\<close> A method that changes its receiver returns the new state; an error is \<open>Inl\<close> of
  \<open>goerror\<close> or \<open>Some\<close> of it, and a run-time panic is the error \<open>Panic\<close>. A database batch is the list
  of calls made on it. A loop that the code may not leave is a \<open>partial_function (option)\<close>, and
  \<open>None\<close> is the value of a call that does not return; where the code does return, that is
  proved (\<open>height_loop_ok\<close>, \<open>getCommonAncestor_ok\<close>, \<open>NewMerkleBlock_total\<close>). Integers have their
  width; total work is a \<open>big.Int\<close>, an \<open>int\<close>. Time is an argument. Callbacks and messages
  sent are collected in logs. Locks are left out, since each locked section is one
  operation of the model; what runs without a lock beside other goroutines is modelled in steps. Where the code iterates over a map, the order is an argument or an
  association list.

  \<^bold>\<open>Bounds and fuel.\<close> Theory \<open>Instances\<close> decodes lists with the length of the input as fuel, which
  is enough because every element takes a byte. The loop over the leaves below a node (\<open>parent_loop\<close> of
  \<open>MerkleBuild\<close>) has the number of these leaves as fuel, and \<open>commit_alone\<close> of \<open>ServiceSteps\<close> makes a given number of
  steps, of which \<open>work\<close> are enough (\<open>commit_ends\<close>). The locator loop is bounded by
  \<open>MaxBlockLocatorHashes\<close>, as in the code. No other definition has fuel.

  \<^bold>\<open>Not modelled\<close>: declaring and parsing the flags of the command line, the layout of what is printed, configuration, loggers; how SQLite executes a statement (only its effect on the tables); closing the
  databases when the service stops; clearing all data while notifications are under way; the P2P server, the crypto and the
  serialization code of Elastos.ELA (parameters of the model).
\<close>

end
